(* ===== verification/Prelude.thy ===== *)
theory Prelude
  imports Main "HOL-Library.Word"
begin

unbundle bit_operations_syntax

text \<open>
  Types, byte-level helpers and lemma collections shared by every component.
  Machine integers are kept at their width: \<open>u8\<close> is UCHAR, \<open>u16\<close> is USHORT, \<open>u32\<close> is
  ULONG, UINT and (with signed reading) INT. Memory blocks are lists of bytes; a read or a
  write outside a block is the value \<open>None\<close>, never an unspecified element.
\<close>

type_synonym u8 = "8 word"
type_synonym u16 = "16 word"
type_synonym u32 = "32 word"

named_theorems faults \<open>case rules for outcomes that may be a fault\<close>
named_theorems bytes \<open>lengths and splits of encoded byte strings\<close>

section \<open>Reading and writing blocks of memory\<close>

definition peek :: "'a list \<Rightarrow> nat \<Rightarrow> 'a option" where
  "peek xs i = (if i < length xs then Some (xs ! i) else None)"

definition chunk :: "'a list \<Rightarrow> nat \<Rightarrow> nat \<Rightarrow> 'a list" where
  "chunk xs off n = take n (drop off xs)"

definition blit :: "'a list \<Rightarrow> nat \<Rightarrow> 'a list \<Rightarrow> 'a list option" where
  "blit dst off src =
     (if off + length src \<le> length dst
      then Some (take off dst @ src @ drop (off + length src) dst) else None)"

definition slice :: "'a list \<Rightarrow> nat \<Rightarrow> nat \<Rightarrow> 'a list option" where
  "slice xs off n = (if off + n \<le> length xs then Some (chunk xs off n) else None)"

lemma peek_Some [simp]: "i < length xs \<Longrightarrow> peek xs i = Some (xs ! i)"
  by (simp add: peek_def)

lemma peek_None [simp]: "length xs \<le> i \<Longrightarrow> peek xs i = None"
  by (simp add: peek_def)

lemma peek_eq_Some: "peek xs i = Some x \<longleftrightarrow> i < length xs \<and> xs ! i = x"
  by (auto simp: peek_def)

lemma peek_append1 [simp]: "i < length xs \<Longrightarrow> peek (xs @ ys) i = peek xs i"
  by (simp add: peek_def nth_append)

lemma peek_append2: "length xs \<le> i \<Longrightarrow> peek (xs @ ys) i = peek ys (i - length xs)"
  by (auto simp: peek_def nth_append)

lemma peek_take: "i < n \<Longrightarrow> peek (take n xs) i = peek xs i"
  by (auto simp: peek_def)

lemma length_chunk [simp]: "off + n \<le> length xs \<Longrightarrow> length (chunk xs off n) = n"
  by (simp add: chunk_def)

lemma chunk_0 [simp]: "chunk xs off 0 = []"
  by (simp add: chunk_def)

lemma chunk_split: "chunk xs off (m + n) = chunk xs off m @ chunk xs (off + m) n"
  by (simp add: chunk_def take_add add.commute)

lemma nth_chunk: "off + n \<le> length xs \<Longrightarrow> i < n \<Longrightarrow> chunk xs off n ! i = xs ! (off + i)"
  by (simp add: chunk_def)

lemma chunk_cong:
  assumes "off + n \<le> length xs" and "off + n \<le> length ys"
    and "\<And>i. off \<le> i \<Longrightarrow> i < off + n \<Longrightarrow> xs ! i = ys ! i"
  shows "chunk xs off n = chunk ys off n"
  using assms by (intro nth_equalityI) (auto simp: nth_chunk)

lemma blit_Some: "off + length src \<le> length dst \<Longrightarrow>
    blit dst off src = Some (take off dst @ src @ drop (off + length src) dst)"
  by (simp add: blit_def)

lemma blit_defined [simp]: "(\<exists>d. blit dst off src = Some d) \<longleftrightarrow> off + length src \<le> length dst"
  by (simp add: blit_def)

lemma blit_length: "blit dst off src = Some d \<Longrightarrow> length d = length dst"
  by (auto simp: blit_def split: if_splits)

lemma blit_bound: "blit dst off src = Some d \<Longrightarrow> off + length src \<le> length dst"
  by (auto simp: blit_def split: if_splits)

lemma blit_nth:
  assumes "blit dst off src = Some d" and "i < length dst"
  shows "d ! i = (if off \<le> i \<and> i < off + length src then src ! (i - off) else dst ! i)"
  using assms by (auto simp: blit_def nth_append min_def split: if_splits)

lemma chunk_blit_same:
  assumes "blit dst off src = Some d"
  shows "chunk d off (length src) = src"
  using blit_bound [OF assms] blit_length [OF assms]
  by (intro nth_equalityI) (auto simp: nth_chunk blit_nth [OF assms])

lemma chunk_blit_other:
  assumes "blit dst off src = Some d" and "o2 + n \<le> length dst"
    and "o2 + n \<le> off \<or> off + length src \<le> o2"
  shows "chunk d o2 n = chunk dst o2 n"
  using blit_length [OF assms(1)] assms(2,3)
  by (intro chunk_cong) (auto simp: blit_nth [OF assms(1)])

section \<open>Word arithmetic without wrap-around\<close>

lemma unat_lt: "unat (x :: u32) < 4294967296"
  using unsigned_less [of x] by simp

lemma unat_add_small:
  "unat (a :: u32) + unat b < 4294967296 \<Longrightarrow> unat (a + b) = unat a + unat b"
  by (simp add: unat_word_ariths)

lemma unat_sub_small: "(b :: u32) \<le> a \<Longrightarrow> unat (a - b) = unat a - unat b"
  by (simp add: unat_sub word_le_nat_alt)

lemma sint_small: "unat (x :: u32) < 2147483648 \<Longrightarrow> sint x = int (unat x)"
proof -
  assume "unat x < 2147483648"
  then have x: "uint x < 2147483648"
    using uint_nat [of x] by linarith
  have "sint x = signed_take_bit (LENGTH(32) - Suc 0) (uint x)"
    by (rule sint_uint)
  also have "\<dots> = uint x"
  proof (rule signed_take_bit_int_eq_self)
    show "- (2 ^ (LENGTH(32) - Suc 0)) \<le> uint x"
      by (rule order_trans [OF _ uint_ge_0]) simp
    show "uint x < 2 ^ (LENGTH(32) - Suc 0)"
      using x by simp
  qed
  finally show ?thesis by (simp only: uint_nat)
qed

lemma unat_ucast_u8 [simp]: "unat (ucast (b :: u8) :: u32) = unat b"
proof -
  have "unat b < 256"
    using unsigned_less [of b] by simp
  then show ?thesis
    by (simp add: unsigned_ucast_eq take_bit_nat_eq_self)
qed

section \<open>Big- and little-endian byte composition\<close>

definition be16 :: "u8 \<Rightarrow> u8 \<Rightarrow> u32" where
  "be16 b0 b1 = (push_bit 8 (ucast b0)) OR ucast b1"

definition be32 :: "u8 \<Rightarrow> u8 \<Rightarrow> u8 \<Rightarrow> u8 \<Rightarrow> u32" where
  "be32 b0 b1 b2 b3 =
     (push_bit 24 (ucast b0)) OR (push_bit 16 (ucast b1)) OR (push_bit 8 (ucast b2)) OR ucast b3"

definition le32 :: "u8 \<Rightarrow> u8 \<Rightarrow> u8 \<Rightarrow> u8 \<Rightarrow> u32" where
  "le32 b0 b1 b2 b3 = be32 b3 b2 b1 b0"

definition le32_bytes :: "u32 \<Rightarrow> u8 list" where
  "le32_bytes w = [ucast w, ucast (drop_bit 8 w), ucast (drop_bit 16 w), ucast (drop_bit 24 w)]"

definition le16_bytes :: "u16 \<Rightarrow> u8 list" where
  "le16_bytes w = [ucast w, ucast (drop_bit 8 w)]"

fun le32_of :: "u8 list \<Rightarrow> u32" where
  "le32_of (b0 # b1 # b2 # b3 # _) = le32 b0 b1 b2 b3"
| "le32_of _ = 0"

lemma length_le32_bytes [simp, bytes]: "length (le32_bytes w) = 4"
  by (simp add: le32_bytes_def)

lemma length_le16_bytes [simp, bytes]: "length (le16_bytes w) = 2"
  by (simp add: le16_bytes_def)

lemma bit_u8_bound: "8 \<le> n \<Longrightarrow> \<not> bit (b :: u8) n"
  using bit_imp_le_length [of b n] by fastforce

lemma le32_le32_bytes:
  "le32 (ucast w) (ucast (drop_bit 8 w)) (ucast (drop_bit 16 w)) (ucast (drop_bit 24 w)) = w"
proof (rule bit_word_eqI)
  fix n assume "n < LENGTH(32)"
  then consider "n < 8" | "8 \<le> n" "n < 16" | "16 \<le> n" "n < 24" | "24 \<le> n" "n < 32"
    by fastforce
  then show "bit (le32 (ucast w) (ucast (drop_bit 8 w)) (ucast (drop_bit 16 w))
      (ucast (drop_bit 24 w))) n \<longleftrightarrow> bit w n"
    by cases (auto simp: le32_def be32_def bit_simps)
qed

lemma le32_of_bytes [simp]: "le32_of (le32_bytes w @ rest) = w"
  by (simp add: le32_bytes_def le32_le32_bytes)

lemma le32_of_bytes' [simp]: "le32_of (le32_bytes w) = w"
  using le32_of_bytes [of w "[]"] by simp

lemma le32_bytes_inject: "le32_bytes v = le32_bytes w \<longleftrightarrow> v = w"
  by (metis le32_of_bytes')

lemma le32_bytes_le32: "le32_bytes (le32 b0 b1 b2 b3) = [b0, b1, b2, b3]"
  by (auto simp: le32_bytes_def le32_def be32_def bit_simps bit_u8_bound
      intro!: bit_word_eqI)

section \<open>ULONG arithmetic on natural numbers\<close>

text \<open>
  The components whose counters stay far below the width keep ULONG values as natural
  numbers; \<open>add32\<close> and \<open>sub32\<close> are the C operators, with their wrap-around.
\<close>

definition add32 :: "nat \<Rightarrow> nat \<Rightarrow> nat" where
  "add32 a b = (a + b) mod 4294967296"

definition sub32 :: "nat \<Rightarrow> nat \<Rightarrow> nat" where
  "sub32 a b = (a + (4294967296 - b mod 4294967296)) mod 4294967296"

lemma add32_small [simp]: "a + b < 4294967296 \<Longrightarrow> add32 a b = a + b"
  by (simp add: add32_def)

lemma sub32_small [simp]:
  assumes "b \<le> a" and "a < 4294967296"
  shows "sub32 a b = a - b"
proof -
  have "a + (4294967296 - b mod 4294967296) = (a - b) + 4294967296"
    using assms by simp
  moreover have "((a - b) + 4294967296) mod 4294967296 = a - b"
    using assms by (simp only: mod_add_self2) simp
  ultimately show ?thesis unfolding sub32_def by (simp only:)
qed

lemma add32_bound [simp]: "add32 a b < 4294967296"
  by (simp add: add32_def)

lemma sub32_bound [simp]: "sub32 a b < 4294967296"
  by (simp add: sub32_def)

lemma sub32_negative:
  assumes "a < b" and "b < 4294967296"
  shows "sub32 a b = a + 4294967296 - b"
  using assms by (simp add: sub32_def)

section \<open>Counting the elements with a property\<close>

definition cnt :: "('a \<Rightarrow> bool) \<Rightarrow> 'a list \<Rightarrow> nat" where
  "cnt P xs = length (filter P xs)"

lemma cnt_split:
  assumes "i < length xs"
  shows "cnt P (xs[i := y]) = cnt P (take i xs) + of_bool (P y) + cnt P (drop (Suc i) xs)"
  using assms by (simp add: cnt_def upd_conv_take_nth_drop)

lemma cnt_update:
  assumes "i < length xs"
  shows "cnt P (xs[i := y]) + of_bool (P (xs ! i)) = cnt P xs + of_bool (P y)"
  using cnt_split [OF assms, of P y] cnt_split [OF assms, of P "xs ! i"] by simp

lemma cnt_pos: "i < length xs \<Longrightarrow> P (xs ! i) \<Longrightarrow> 0 < cnt P xs"
  using cnt_split [of i xs P "xs ! i"] by simp

lemma cnt_0: "cnt P xs = 0 \<longleftrightarrow> list_all (\<lambda>x. \<not> P x) xs"
  by (induction xs) (auto simp: cnt_def)

lemma list_all_update: "list_all P xs \<Longrightarrow> P y \<Longrightarrow> list_all P (xs[i := y])"
  by (induction xs arbitrary: i) (auto split: nat.splits)

section \<open>The status of a request\<close>

datatype status =
    STATUS_SUCCESS | STATUS_UNSUCCESSFUL | STATUS_CANCELLED | STATUS_BUFFER_TOO_SMALL
  | STATUS_INVALID_DEVICE_REQUEST | STATUS_INSUFFICIENT_RESOURCES

end
