(* ===== verification/Bpf_Insn.thy ===== *)
theory Bpf_Insn
  imports Prelude
begin

text \<open>
  The instruction set of the NPF filtering pseudo-machine
  (\<open>packetNtx/driver/win_bpf.h\<close>, \<open>valid_insns.h\<close>), in the build without the TME
  extension (\<open>HAVE_BUGGY_TME_SUPPORT\<close> is commented out in every build script). The case
  labels of the switch statements of \<open>win_bpf_filter.c\<close> and \<open>jitter.c\<close> are a datatype,
  one constructor per label; \<open>bpf_code\<close> gives a label its 16-bit opcode, composed of the
  header's constants as in the source, and \<open>bpf_decode\<close> selects the label of an opcode.
\<close>

section \<open>Encodings\<close>

record bpf_insn =
  code :: u16
  jt :: u8
  jf :: u8
  k :: u32

definition BPF_CLASS :: "u16 \<Rightarrow> u16" where "BPF_CLASS c = c AND 0x07"
definition BPF_SIZE :: "u16 \<Rightarrow> u16" where "BPF_SIZE c = c AND 0x18"
definition BPF_MODE :: "u16 \<Rightarrow> u16" where "BPF_MODE c = c AND 0xe0"
definition BPF_OP :: "u16 \<Rightarrow> u16" where "BPF_OP c = c AND 0xf0"
definition BPF_SRC :: "u16 \<Rightarrow> u16" where "BPF_SRC c = c AND 0x08"

abbreviation BPF_LD :: u16 where "BPF_LD \<equiv> 0x00"
abbreviation BPF_LDX :: u16 where "BPF_LDX \<equiv> 0x01"
abbreviation BPF_ST :: u16 where "BPF_ST \<equiv> 0x02"
abbreviation BPF_STX :: u16 where "BPF_STX \<equiv> 0x03"
abbreviation BPF_ALU :: u16 where "BPF_ALU \<equiv> 0x04"
abbreviation BPF_JMP :: u16 where "BPF_JMP \<equiv> 0x05"
abbreviation BPF_RET :: u16 where "BPF_RET \<equiv> 0x06"
abbreviation BPF_MISC :: u16 where "BPF_MISC \<equiv> 0x07"

abbreviation BPF_W :: u16 where "BPF_W \<equiv> 0x00"
abbreviation BPF_H :: u16 where "BPF_H \<equiv> 0x08"
abbreviation BPF_B :: u16 where "BPF_B \<equiv> 0x10"
abbreviation BPF_IMM :: u16 where "BPF_IMM \<equiv> 0x00"
abbreviation BPF_ABS :: u16 where "BPF_ABS \<equiv> 0x20"
abbreviation BPF_IND :: u16 where "BPF_IND \<equiv> 0x40"
abbreviation BPF_MEM :: u16 where "BPF_MEM \<equiv> 0x60"
abbreviation BPF_LEN :: u16 where "BPF_LEN \<equiv> 0x80"
abbreviation BPF_MSH :: u16 where "BPF_MSH \<equiv> 0xa0"

abbreviation BPF_ADD :: u16 where "BPF_ADD \<equiv> 0x00"
abbreviation BPF_SUB :: u16 where "BPF_SUB \<equiv> 0x10"
abbreviation BPF_MUL :: u16 where "BPF_MUL \<equiv> 0x20"
abbreviation BPF_DIV :: u16 where "BPF_DIV \<equiv> 0x30"
abbreviation BPF_OR :: u16 where "BPF_OR \<equiv> 0x40"
abbreviation BPF_AND :: u16 where "BPF_AND \<equiv> 0x50"
abbreviation BPF_LSH :: u16 where "BPF_LSH \<equiv> 0x60"
abbreviation BPF_RSH :: u16 where "BPF_RSH \<equiv> 0x70"
abbreviation BPF_NEG :: u16 where "BPF_NEG \<equiv> 0x80"
abbreviation BPF_JA :: u16 where "BPF_JA \<equiv> 0x00"
abbreviation BPF_JEQ :: u16 where "BPF_JEQ \<equiv> 0x10"
abbreviation BPF_JGT :: u16 where "BPF_JGT \<equiv> 0x20"
abbreviation BPF_JGE :: u16 where "BPF_JGE \<equiv> 0x30"
abbreviation BPF_JSET :: u16 where "BPF_JSET \<equiv> 0x40"
abbreviation BPF_K :: u16 where "BPF_K \<equiv> 0x00"
abbreviation BPF_X :: u16 where "BPF_X \<equiv> 0x08"
abbreviation BPF_A :: u16 where "BPF_A \<equiv> 0x10"
abbreviation BPF_TAX :: u16 where "BPF_TAX \<equiv> 0x00"
abbreviation BPF_TXA :: u16 where "BPF_TXA \<equiv> 0x80"
abbreviation BPF_SEPARATION :: u16 where "BPF_SEPARATION \<equiv> 0xff"
abbreviation BPF_MEMWORDS :: nat where "BPF_MEMWORDS \<equiv> 16"

section \<open>The case labels of the interpreter and of the compiler\<close>

datatype load_op = LD_W_ABS | LD_H_ABS | LD_B_ABS | LD_W_LEN | LDX_W_LEN
  | LD_W_IND | LD_H_IND | LD_B_IND | LDX_MSH_B | LD_IMM | LDX_IMM | LD_MEM | LDX_MEM
datatype store_op = ST | STX
datatype jump_op = JMP_JA | JGT_K | JGE_K | JEQ_K | JSET_K | JGT_X | JGE_X | JEQ_X | JSET_X
datatype alu_op = ADD_X | SUB_X | MUL_X | DIV_X | AND_X | OR_X | LSH_X | RSH_X
  | ADD_K | SUB_K | MUL_K | DIV_K | AND_K | OR_K | LSH_K | RSH_K | NEG
datatype misc_op = TAX | TXA
datatype ret_op = RET_K | RET_A
datatype bpf_op = Ret ret_op | Load load_op | Store store_op | Jump jump_op | Alu alu_op
  | Misc misc_op

primrec load_code :: "load_op \<Rightarrow> u16" where
  "load_code LD_W_ABS = BPF_LD OR BPF_W OR BPF_ABS"
| "load_code LD_H_ABS = BPF_LD OR BPF_H OR BPF_ABS"
| "load_code LD_B_ABS = BPF_LD OR BPF_B OR BPF_ABS"
| "load_code LD_W_LEN = BPF_LD OR BPF_W OR BPF_LEN"
| "load_code LDX_W_LEN = BPF_LDX OR BPF_W OR BPF_LEN"
| "load_code LD_W_IND = BPF_LD OR BPF_W OR BPF_IND"
| "load_code LD_H_IND = BPF_LD OR BPF_H OR BPF_IND"
| "load_code LD_B_IND = BPF_LD OR BPF_B OR BPF_IND"
| "load_code LDX_MSH_B = BPF_LDX OR BPF_MSH OR BPF_B"
| "load_code LD_IMM = BPF_LD OR BPF_IMM"
| "load_code LDX_IMM = BPF_LDX OR BPF_IMM"
| "load_code LD_MEM = BPF_LD OR BPF_MEM"
| "load_code LDX_MEM = BPF_LDX OR BPF_MEM"

primrec jump_code :: "jump_op \<Rightarrow> u16" where
  "jump_code JMP_JA = BPF_JMP OR BPF_JA"
| "jump_code JGT_K = BPF_JMP OR BPF_JGT OR BPF_K"
| "jump_code JGE_K = BPF_JMP OR BPF_JGE OR BPF_K"
| "jump_code JEQ_K = BPF_JMP OR BPF_JEQ OR BPF_K"
| "jump_code JSET_K = BPF_JMP OR BPF_JSET OR BPF_K"
| "jump_code JGT_X = BPF_JMP OR BPF_JGT OR BPF_X"
| "jump_code JGE_X = BPF_JMP OR BPF_JGE OR BPF_X"
| "jump_code JEQ_X = BPF_JMP OR BPF_JEQ OR BPF_X"
| "jump_code JSET_X = BPF_JMP OR BPF_JSET OR BPF_X"

primrec alu_code :: "alu_op \<Rightarrow> u16" where
  "alu_code ADD_X = BPF_ALU OR BPF_ADD OR BPF_X"
| "alu_code SUB_X = BPF_ALU OR BPF_SUB OR BPF_X"
| "alu_code MUL_X = BPF_ALU OR BPF_MUL OR BPF_X"
| "alu_code DIV_X = BPF_ALU OR BPF_DIV OR BPF_X"
| "alu_code AND_X = BPF_ALU OR BPF_AND OR BPF_X"
| "alu_code OR_X = BPF_ALU OR BPF_OR OR BPF_X"
| "alu_code LSH_X = BPF_ALU OR BPF_LSH OR BPF_X"
| "alu_code RSH_X = BPF_ALU OR BPF_RSH OR BPF_X"
| "alu_code ADD_K = BPF_ALU OR BPF_ADD OR BPF_K"
| "alu_code SUB_K = BPF_ALU OR BPF_SUB OR BPF_K"
| "alu_code MUL_K = BPF_ALU OR BPF_MUL OR BPF_K"
| "alu_code DIV_K = BPF_ALU OR BPF_DIV OR BPF_K"
| "alu_code AND_K = BPF_ALU OR BPF_AND OR BPF_K"
| "alu_code OR_K = BPF_ALU OR BPF_OR OR BPF_K"
| "alu_code LSH_K = BPF_ALU OR BPF_LSH OR BPF_K"
| "alu_code RSH_K = BPF_ALU OR BPF_RSH OR BPF_K"
| "alu_code NEG = BPF_ALU OR BPF_NEG"

fun bpf_code :: "bpf_op \<Rightarrow> u16" where
  "bpf_code (Ret RET_K) = BPF_RET OR BPF_K"
| "bpf_code (Ret RET_A) = BPF_RET OR BPF_A"
| "bpf_code (Load l) = load_code l"
| "bpf_code (Store ST) = BPF_ST"
| "bpf_code (Store STX) = BPF_STX"
| "bpf_code (Jump j) = jump_code j"
| "bpf_code (Alu a) = alu_code a"
| "bpf_code (Misc TAX) = BPF_MISC OR BPF_TAX"
| "bpf_code (Misc TXA) = BPF_MISC OR BPF_TXA"

definition all_bpf_ops :: "bpf_op list" where
  "all_bpf_ops = map Ret [RET_K, RET_A] @
     map Load [LD_W_ABS, LD_H_ABS, LD_B_ABS, LD_W_LEN, LDX_W_LEN, LD_W_IND, LD_H_IND,
       LD_B_IND, LDX_MSH_B, LD_IMM, LDX_IMM, LD_MEM, LDX_MEM] @
     map Store [ST, STX] @
     map Jump [JMP_JA, JGT_K, JGE_K, JEQ_K, JSET_K, JGT_X, JGE_X, JEQ_X, JSET_X] @
     map Alu [ADD_X, SUB_X, MUL_X, DIV_X, AND_X, OR_X, LSH_X, RSH_X,
       ADD_K, SUB_K, MUL_K, DIV_K, AND_K, OR_K, LSH_K, RSH_K, NEG] @
     map Misc [TAX, TXA]"

definition bpf_decode :: "u16 \<Rightarrow> bpf_op option" where
  "bpf_decode c = find (\<lambda>o'. bpf_code o' = c) all_bpf_ops"

lemma all_bpf_ops_complete [simp]: "o' \<in> set all_bpf_ops"
proof (cases o')
  case (Ret x1) then show ?thesis by (cases x1) (auto simp: all_bpf_ops_def)
next
  case (Load x2) then show ?thesis by (cases x2) (auto simp: all_bpf_ops_def)
next
  case (Store x3) then show ?thesis by (cases x3) (auto simp: all_bpf_ops_def)
next
  case (Jump x4) then show ?thesis by (cases x4) (auto simp: all_bpf_ops_def)
next
  case (Alu x5) then show ?thesis by (cases x5) (auto simp: all_bpf_ops_def)
next
  case (Misc x6) then show ?thesis by (cases x6) (auto simp: all_bpf_ops_def)
qed

lemma all_bpf_codes_distinct: "distinct (map bpf_code all_bpf_ops)"
  by (simp add: all_bpf_ops_def)

text \<open>No two case labels of the switch share an opcode, so decoding inverts encoding.\<close>

lemma bpf_code_inject: "bpf_code o1 = bpf_code o2 \<longleftrightarrow> o1 = o2"
  using inj_onD [OF distinct_map [THEN iffD1, OF all_bpf_codes_distinct, THEN conjunct2]]
  by auto

lemma bpf_decode_Some: "bpf_decode c = Some o' \<longleftrightarrow> bpf_code o' = c"
proof
  assume "bpf_decode c = Some o'"
  then show "bpf_code o' = c"
    unfolding bpf_decode_def by (auto simp: find_Some_iff)
next
  assume c: "bpf_code o' = c"
  show "bpf_decode c = Some o'"
  proof (cases "bpf_decode c")
    case None
    then show ?thesis
      using c all_bpf_ops_complete by (auto simp: bpf_decode_def find_None_iff)
  next
    case (Some o2)
    then have "bpf_code o2 = c"
      by (auto simp: bpf_decode_def find_Some_iff)
    with c Some show ?thesis
      by (metis bpf_code_inject)
  qed
qed

lemma bpf_decode_code [simp]: "bpf_decode (bpf_code o') = Some o'"
  by (simp add: bpf_decode_Some)

lemma bpf_decode_labels [simp]:
  "bpf_decode (load_code l) = Some (Load l)"
  "bpf_decode (jump_code j) = Some (Jump j)"
  "bpf_decode (alu_code a) = Some (Alu a)"
  using bpf_decode_code [of "Load l"] bpf_decode_code [of "Jump j"] bpf_decode_code [of "Alu a"]
  by simp_all

section \<open>The table of opcodes the validator accepts\<close>

definition valid_instructions :: "u16 list" where
  "valid_instructions = [
     BPF_RET OR BPF_K, BPF_RET OR BPF_A,
     BPF_LD OR BPF_IMM, BPF_LDX OR BPF_IMM, BPF_LD OR BPF_MEM, BPF_LDX OR BPF_MEM,
     BPF_LD OR BPF_W OR BPF_ABS, BPF_LD OR BPF_H OR BPF_ABS, BPF_LD OR BPF_B OR BPF_ABS,
     BPF_LDX OR BPF_W OR BPF_ABS, BPF_LDX OR BPF_H OR BPF_ABS, BPF_LDX OR BPF_B OR BPF_ABS,
     BPF_LD OR BPF_W OR BPF_LEN, BPF_LDX OR BPF_W OR BPF_LEN,
     BPF_LD OR BPF_W OR BPF_IND, BPF_LD OR BPF_H OR BPF_IND, BPF_LD OR BPF_B OR BPF_IND,
     BPF_LDX OR BPF_MSH OR BPF_B, BPF_ST, BPF_STX,
     BPF_JMP OR BPF_JA,
     BPF_JMP OR BPF_JGT OR BPF_K, BPF_JMP OR BPF_JGE OR BPF_K,
     BPF_JMP OR BPF_JEQ OR BPF_K, BPF_JMP OR BPF_JSET OR BPF_K,
     BPF_JMP OR BPF_JGT OR BPF_X, BPF_JMP OR BPF_JGE OR BPF_X,
     BPF_JMP OR BPF_JEQ OR BPF_X, BPF_JMP OR BPF_JSET OR BPF_X,
     BPF_ALU OR BPF_ADD OR BPF_X, BPF_ALU OR BPF_SUB OR BPF_X, BPF_ALU OR BPF_MUL OR BPF_X,
     BPF_ALU OR BPF_DIV OR BPF_X, BPF_ALU OR BPF_AND OR BPF_X, BPF_ALU OR BPF_OR OR BPF_X,
     BPF_ALU OR BPF_LSH OR BPF_X, BPF_ALU OR BPF_RSH OR BPF_X,
     BPF_ALU OR BPF_ADD OR BPF_K, BPF_ALU OR BPF_SUB OR BPF_K, BPF_ALU OR BPF_MUL OR BPF_K,
     BPF_ALU OR BPF_DIV OR BPF_K, BPF_ALU OR BPF_AND OR BPF_K, BPF_ALU OR BPF_OR OR BPF_K,
     BPF_ALU OR BPF_LSH OR BPF_K, BPF_ALU OR BPF_RSH OR BPF_K, BPF_ALU OR BPF_NEG,
     BPF_MISC OR BPF_TAX, BPF_MISC OR BPF_TXA]"

text \<open>The three opcodes that the table holds and no switch has a label for.\<close>

definition ldx_abs_codes :: "u16 list" where
  "ldx_abs_codes = [BPF_LDX OR BPF_W OR BPF_ABS, BPF_LDX OR BPF_H OR BPF_ABS,
     BPF_LDX OR BPF_B OR BPF_ABS]"

lemma valid_instructions_codes:
  "set valid_instructions = set (map bpf_code all_bpf_ops) \<union> set ldx_abs_codes"
  unfolding set_eq_subset
  by (simp add: valid_instructions_def all_bpf_ops_def ldx_abs_codes_def)

lemma bpf_decode_ldx_abs: "c \<in> set ldx_abs_codes \<Longrightarrow> bpf_decode c = None"
proof -
  have "list_all (\<lambda>c. bpf_decode c = None) ldx_abs_codes"
    by code_simp
  then show "c \<in> set ldx_abs_codes \<Longrightarrow> bpf_decode c = None"
    by (simp add: list_all_iff)
qed

lemma valid_instruction_iff:
  "c \<in> set valid_instructions \<longleftrightarrow> bpf_decode c \<noteq> None \<or> c \<in> set ldx_abs_codes"
proof -
  have "c \<in> set (map bpf_code all_bpf_ops) \<longleftrightarrow> bpf_decode c \<noteq> None"
    by (auto simp: bpf_decode_Some)
  then show ?thesis
    by (simp add: valid_instructions_codes)
qed

end
