(* ===== verification/Bpf_Filter.thy ===== *)
theory Bpf_Filter
  imports Bpf_Insn
begin

text \<open>
  The filtering pseudo-machine: \<open>bpf_filter\<close> of \<open>packetNtx/driver/win_bpf_filter.c\<close>.
  One definition per group of case labels (\<open>bpf_load\<close>, \<open>bpf_store\<close>, \<open>bpf_jump\<close>,
  \<open>bpf_alu\<close>, \<open>bpf_misc\<close>, \<open>bpf_ret\<close>), one for the switch (\<open>bpf_step\<close>) and one for
  the \<open>while (1)\<close> loop around it (\<open>bpf_loop\<close>). The loop need not end: \<open>pc += pc->k\<close> is
  arithmetic on a 32-bit pointer and can lead back (\<open>wrap_pc\<close>), and \<open>bpf_run\<close> has a value of
  its own, \<open>Never_Returns\<close>, for that. Everything the C code leaves undefined is
  a value of type \<open>fault\<close>: an instruction fetched outside the program, a byte read outside
  the packet buffer, a scratch cell outside \<open>mem[BPF_MEMWORDS]\<close>, a shift by 32 or more, a
  division by zero. Signed negation and signed additions wrap, as the compiler the code is
  written for (the cast-as-lvalue is a Microsoft extension) does. \<open>sizeof\<close> is a 32-bit
  value, as on x86.

  The loop is parameterised by the semantics of the load instructions, since
  \<open>bpf_filter_with_2_buffers\<close> repeats all the other cases of \<open>bpf_filter\<close> word for word;
  the locale \<open>bpf_machine\<close> states what the loop needs from the loads.
\<close>

section \<open>State and outcomes\<close>

datatype fault = Bad_Fetch | Bad_Read | Bad_Mem | Bad_Shift | Div_By_Zero | Never_Returns

record bpf_state =
  regA :: u32
  regX :: u32
  scratch :: "u32 list"
  bpc :: nat

datatype effect = SetA u32 | SetX u32 | Return u32 | Crash fault

datatype outcome = Next bpf_state | Done u32 | Crashed fault

record packet =
  pkt_bytes :: "u8 list"
  wirelen :: u32
  buflen :: u32

definition EXTRACT_SHORT :: "u8 list \<Rightarrow> nat \<Rightarrow> u32 option" where
  "EXTRACT_SHORT p i =
     (case (peek p i, peek p (i + 1)) of
        (Some b0, Some b1) \<Rightarrow> Some (be16 b0 b1)
      | _ \<Rightarrow> None)"

definition EXTRACT_LONG :: "u8 list \<Rightarrow> nat \<Rightarrow> u32 option" where
  "EXTRACT_LONG p i =
     (case (peek p i, peek p (i + 1), peek p (i + 2), peek p (i + 3)) of
        (Some b0, Some b1, Some b2, Some b3) \<Rightarrow> Some (be32 b0 b1 b2 b3)
      | _ \<Rightarrow> None)"

definition load_A :: "u32 option \<Rightarrow> effect" where
  "load_A v = (case v of None \<Rightarrow> Crash Bad_Read | Some a \<Rightarrow> SetA a)"

definition load_byte_A :: "u8 option \<Rightarrow> effect" where
  "load_byte_A v = load_A (map_option ucast v)"

definition load_msh :: "u8 option \<Rightarrow> effect" where
  "load_msh v = (case v of None \<Rightarrow> Crash Bad_Read
     | Some b \<Rightarrow> SetX (push_bit 2 ((ucast b :: u32) AND 0xf)))"

section \<open>The load instructions of bpf_filter\<close>

primrec bpf_load :: "packet \<Rightarrow> load_op \<Rightarrow> bpf_insn \<Rightarrow> bpf_state \<Rightarrow> effect" where
  "bpf_load q LD_W_ABS ins s = (let o' = k ins in
     if buflen q \<le> o' \<or> buflen q < o' + 4 then Return 0
     else load_A (EXTRACT_LONG (pkt_bytes q) (unat o')))"
| "bpf_load q LD_H_ABS ins s = (let o' = k ins in
     if buflen q \<le> o' \<or> buflen q < o' + 2 then Return 0
     else load_A (EXTRACT_SHORT (pkt_bytes q) (unat o')))"
| "bpf_load q LD_B_ABS ins s = (let o' = k ins in
     if buflen q \<le> o' then Return 0 else load_byte_A (peek (pkt_bytes q) (unat o')))"
| "bpf_load q LD_W_LEN ins s = SetA (wirelen q)"
| "bpf_load q LDX_W_LEN ins s = SetX (wirelen q)"
| "bpf_load q LD_W_IND ins s = (let o' = regX s + k ins in
     if buflen q \<le> o' \<or> buflen q < o' + 4 then Return 0
     else load_A (EXTRACT_LONG (pkt_bytes q) (unat o')))"
| "bpf_load q LD_H_IND ins s = (let o' = regX s + k ins in
     if buflen q \<le> o' \<or> buflen q < o' + 2 then Return 0
     else load_A (EXTRACT_SHORT (pkt_bytes q) (unat o')))"
| "bpf_load q LD_B_IND ins s = (let o' = regX s + k ins in
     if buflen q \<le> o' then Return 0 else load_byte_A (peek (pkt_bytes q) (unat o')))"
| "bpf_load q LDX_MSH_B ins s = (let o' = k ins in
     if buflen q \<le> o' then Return 0 else load_msh (peek (pkt_bytes q) (unat o')))"
| "bpf_load q LD_IMM ins s = SetA (k ins)"
| "bpf_load q LDX_IMM ins s = SetX (k ins)"
| "bpf_load q LD_MEM ins s =
     (case peek (scratch s) (unat (k ins)) of None \<Rightarrow> Crash Bad_Mem | Some v \<Rightarrow> SetA v)"
| "bpf_load q LDX_MEM ins s =
     (case peek (scratch s) (unat (k ins)) of None \<Rightarrow> Crash Bad_Mem | Some v \<Rightarrow> SetX v)"

section \<open>The other instructions\<close>

definition bpf_store :: "store_op \<Rightarrow> bpf_insn \<Rightarrow> bpf_state \<Rightarrow> u32 list option" where
  "bpf_store op ins s =
     (let v = (case op of ST \<Rightarrow> regA s | STX \<Rightarrow> regX s) in
      if unat (k ins) < length (scratch s)
      then Some ((scratch s)[unat (k ins) := v]) else None)"

text \<open>The comparisons with a constant are signed, those with the index register unsigned.\<close>

primrec bpf_cond :: "jump_op \<Rightarrow> u32 \<Rightarrow> u32 \<Rightarrow> u32 \<Rightarrow> bool" where
  "bpf_cond JMP_JA kv a x = True"
| "bpf_cond JGT_K kv a x = (sint a > sint kv)"
| "bpf_cond JGE_K kv a x = (sint a \<ge> sint kv)"
| "bpf_cond JEQ_K kv a x = (sint a = sint kv)"
| "bpf_cond JSET_K kv a x = (a AND kv \<noteq> 0)"
| "bpf_cond JGT_X kv a x = (a > x)"
| "bpf_cond JGE_X kv a x = (a \<ge> x)"
| "bpf_cond JEQ_X kv a x = (a = x)"
| "bpf_cond JSET_X kv a x = (a AND x \<noteq> 0)"

text \<open>
  How far \<open>pc\<close> is moved beyond the next instruction, in instructions. The sum is the index of the
  target before the pointer wraps; the loop wraps it (\<open>wrap_pc\<close>).
\<close>

definition bpf_jump :: "jump_op \<Rightarrow> bpf_insn \<Rightarrow> bpf_state \<Rightarrow> nat" where
  "bpf_jump op ins s =
     (if op = JMP_JA then unat (k ins)
      else if bpf_cond op (k ins) (regA s) (regX s) then unat (jt ins) else unat (jf ins))"

definition shift_left :: "u32 \<Rightarrow> u32 \<Rightarrow> effect" where
  "shift_left a n = (if n < 32 then SetA (push_bit (unat n) a) else Crash Bad_Shift)"

definition shift_right :: "u32 \<Rightarrow> u32 \<Rightarrow> effect" where
  "shift_right a n = (if n < 32 then SetA (drop_bit (unat n) a) else Crash Bad_Shift)"

primrec bpf_alu :: "alu_op \<Rightarrow> u32 \<Rightarrow> u32 \<Rightarrow> u32 \<Rightarrow> effect" where
  "bpf_alu ADD_X kv a x = SetA (a + x)"
| "bpf_alu SUB_X kv a x = SetA (a - x)"
| "bpf_alu MUL_X kv a x = SetA (a * x)"
| "bpf_alu DIV_X kv a x = (if x = 0 then Return 0 else SetA (a div x))"
| "bpf_alu AND_X kv a x = SetA (a AND x)"
| "bpf_alu OR_X kv a x = SetA (a OR x)"
| "bpf_alu LSH_X kv a x = shift_left a x"
| "bpf_alu RSH_X kv a x = shift_right a x"
| "bpf_alu ADD_K kv a x = SetA (a + kv)"
| "bpf_alu SUB_K kv a x = SetA (a - kv)"
| "bpf_alu MUL_K kv a x = SetA (a * kv)"
| "bpf_alu DIV_K kv a x = (if kv = 0 then Crash Div_By_Zero else SetA (a div kv))"
| "bpf_alu AND_K kv a x = SetA (a AND kv)"
| "bpf_alu OR_K kv a x = SetA (a OR kv)"
| "bpf_alu LSH_K kv a x = shift_left a kv"
| "bpf_alu RSH_K kv a x = shift_right a kv"
| "bpf_alu NEG kv a x = SetA (- a)"

primrec bpf_misc :: "misc_op \<Rightarrow> bpf_state \<Rightarrow> effect" where
  "bpf_misc TAX s = SetX (regA s)"
| "bpf_misc TXA s = SetA (regX s)"

primrec bpf_ret :: "ret_op \<Rightarrow> bpf_insn \<Rightarrow> bpf_state \<Rightarrow> effect" where
  "bpf_ret RET_K ins s = Return (k ins)"
| "bpf_ret RET_A ins s = Return (regA s)"

section \<open>The switch and the loop\<close>

primrec apply_effect :: "effect \<Rightarrow> bpf_state \<Rightarrow> outcome" where
  "apply_effect (SetA v) s = Next (s\<lparr>regA := v, bpc := Suc (bpc s)\<rparr>)"
| "apply_effect (SetX v) s = Next (s\<lparr>regX := v, bpc := Suc (bpc s)\<rparr>)"
| "apply_effect (Return v) s = Done v"
| "apply_effect (Crash f) s = Crashed f"

definition bpf_step ::
    "(load_op \<Rightarrow> bpf_insn \<Rightarrow> bpf_state \<Rightarrow> effect) \<Rightarrow> bpf_insn \<Rightarrow> bpf_state \<Rightarrow> outcome" where
  "bpf_step ld ins s =
     (case bpf_decode (code ins) of
        None \<Rightarrow> Done 0
      | Some (Ret r) \<Rightarrow> apply_effect (bpf_ret r ins s) s
      | Some (Load l) \<Rightarrow> apply_effect (ld l ins s) s
      | Some (Store t) \<Rightarrow> (case bpf_store t ins s of
            None \<Rightarrow> Crashed Bad_Mem
          | Some m \<Rightarrow> Next (s\<lparr>scratch := m, bpc := Suc (bpc s)\<rparr>))
      | Some (Jump j) \<Rightarrow> Next (s\<lparr>bpc := Suc (bpc s + bpf_jump j ins s)\<rparr>)
      | Some (Alu a) \<Rightarrow> apply_effect (bpf_alu a (k ins) (regA s) (regX s)) s
      | Some (Misc m) \<Rightarrow> apply_effect (bpf_misc m s) s)"

lemma apply_effect_Next:
  "apply_effect e s = Next t \<Longrightarrow> bpc t = Suc (bpc s) \<and> scratch t = scratch s"
  by (cases e) auto

lemma apply_effect_Crashed: "apply_effect e s = Crashed f \<longleftrightarrow> e = Crash f"
  by (cases e) auto

text \<open>
  Before the pointer wraps every instruction moves it forward: the offsets are unsigned.
\<close>

lemma bpf_step_forward: "bpf_step ld ins s = Next t \<Longrightarrow> bpc s < bpc t"
  by (auto simp: bpf_step_def dest!: apply_effect_Next
      split: option.splits bpf_op.splits)

lemma bpf_step_scratch: "bpf_step ld ins s = Next t \<Longrightarrow> length (scratch t) = length (scratch s)"
  by (auto simp: bpf_step_def bpf_store_def Let_def dest!: apply_effect_Next
      split: option.splits bpf_op.splits if_splits)

text \<open>
  \<open>pc\<close> is a pointer of 32 bits to instructions of 8 bytes, so an index behind the program is
  one modulo \<open>2 ^ 29\<close>: a jump of a program that was not validated can come back into it. An
  index inside the program is what it is (the address space holds no program of more than
  \<open>2 ^ 29\<close> instructions).
\<close>

definition wrap_pc :: "nat \<Rightarrow> bpf_state \<Rightarrow> bpf_state" where
  "wrap_pc n s = (if bpc s < n then s else s\<lparr>bpc := bpc s mod 2 ^ 29\<rparr>)"

partial_function (option) bpf_loop ::
    "(load_op \<Rightarrow> bpf_insn \<Rightarrow> bpf_state \<Rightarrow> effect) \<Rightarrow> bpf_insn list \<Rightarrow> bpf_state \<Rightarrow> (fault + u32) option"
    where
  "bpf_loop ld prog s =
     (if bpc s < length prog
      then (case bpf_step ld (prog ! bpc s) s of
              Next t \<Rightarrow> bpf_loop ld prog (wrap_pc (length prog) t)
            | Done v \<Rightarrow> Some (Inr v)
            | Crashed f \<Rightarrow> Some (Inl f))
      else Some (Inl Bad_Fetch))"

definition bpf_run ::
    "(load_op \<Rightarrow> bpf_insn \<Rightarrow> bpf_state \<Rightarrow> effect) \<Rightarrow> bpf_insn list \<Rightarrow> bpf_state \<Rightarrow> fault + u32"
    where
  "bpf_run ld prog s = (case bpf_loop ld prog s of None \<Rightarrow> Inl Never_Returns | Some r \<Rightarrow> r)"

lemma bpf_run_unfold [code]:
  "bpf_run ld prog s =
     (if bpc s < length prog
      then (case bpf_step ld (prog ! bpc s) s of
              Next t \<Rightarrow> bpf_run ld prog (wrap_pc (length prog) t)
            | Done v \<Rightarrow> Inr v
            | Crashed f \<Rightarrow> Inl f)
      else Inl Bad_Fetch)"
  by (subst bpf_run_def, subst bpf_loop.simps) (auto simp: bpf_run_def split: outcome.splits)

text \<open>Induction over the turns of a loop that ends.\<close>

lemma bpf_loop_induct [consumes 1, case_names outside moves returns faults]:
  assumes "bpf_loop ld prog s = Some r"
    and "\<And>s. \<not> bpc s < length prog \<Longrightarrow> P s (Inl Bad_Fetch)"
    and "\<And>s t r. bpc s < length prog \<Longrightarrow> bpf_step ld (prog ! bpc s) s = Next t \<Longrightarrow>
      P (wrap_pc (length prog) t) r \<Longrightarrow> P s r"
    and "\<And>s v. bpc s < length prog \<Longrightarrow> bpf_step ld (prog ! bpc s) s = Done v \<Longrightarrow> P s (Inr v)"
    and "\<And>s f. bpc s < length prog \<Longrightarrow> bpf_step ld (prog ! bpc s) s = Crashed f \<Longrightarrow> P s (Inl f)"
  shows "P s r"
proof -
  have "ld' = ld \<longrightarrow> prog' = prog \<longrightarrow> P s' r'" if "bpf_loop ld' prog' s' = Some r'" for ld' prog' s' r'
    by (rule bpf_loop.raw_induct [OF _ that, where P = "\<lambda>l p s r. l = ld \<longrightarrow> p = prog \<longrightarrow> P s r"])
      (auto split: if_splits outcome.splits intro: assms(2-))
  with assms(1) show ?thesis by blast
qed

lemma wrap_pc_inside [simp]: "bpc s < n \<Longrightarrow> wrap_pc n s = s"
  by (simp add: wrap_pc_def)

lemma wrap_pc_simps [simp]:
  "scratch (wrap_pc n s) = scratch s" "regA (wrap_pc n s) = regA s" "regX (wrap_pc n s) = regX s"
  by (simp_all add: wrap_pc_def)

definition bpf_init :: bpf_state where
  "bpf_init = \<lparr>regA = 0, regX = 0, scratch = replicate BPF_MEMWORDS 0, bpc = 0\<rparr>"

definition bpf_filter :: "bpf_insn list option \<Rightarrow> packet \<Rightarrow> fault + u32" where
  "bpf_filter pc q =
     (case pc of
        None \<Rightarrow> Inr (- 1)
      | Some prog \<Rightarrow> bpf_run (bpf_load q) prog bpf_init)"

section \<open>Executed states\<close>

inductive bpf_reach ::
    "(load_op \<Rightarrow> bpf_insn \<Rightarrow> bpf_state \<Rightarrow> effect) \<Rightarrow> bpf_insn list \<Rightarrow> bpf_state \<Rightarrow> bpf_state \<Rightarrow> bool"
  for ld prog where
  start: "bpf_reach ld prog s s"
| step: "bpc s < length prog \<Longrightarrow> bpf_step ld (prog ! bpc s) s = Next t \<Longrightarrow>
    bpf_reach ld prog (wrap_pc (length prog) t) u \<Longrightarrow> bpf_reach ld prog s u"

definition load_agree ::
    "(load_op \<Rightarrow> bpf_insn \<Rightarrow> bpf_state \<Rightarrow> effect) \<Rightarrow>
     (load_op \<Rightarrow> bpf_insn \<Rightarrow> bpf_state \<Rightarrow> effect) \<Rightarrow> bpf_insn \<Rightarrow> bpf_state \<Rightarrow> bool" where
  "load_agree ld ld' ins s \<longleftrightarrow>
     (\<forall>l. bpf_decode (code ins) = Some (Load l) \<longrightarrow> ld l ins s = ld' l ins s)"

lemma bpf_step_agree: "load_agree ld ld' ins s \<Longrightarrow> bpf_step ld ins s = bpf_step ld' ins s"
  by (auto simp: bpf_step_def load_agree_def split: option.splits bpf_op.splits)

text \<open>
  Two machines that agree on the loads they execute compute the same result: the tool with
  which one load semantics is replaced by another.
\<close>

lemma bpf_loop_agree:
  assumes "bpf_loop ld prog s = Some r"
    and "\<And>t. bpf_reach ld prog s t \<Longrightarrow> bpc t < length prog \<Longrightarrow> load_agree ld ld' (prog ! bpc t) t"
  shows "bpf_loop ld' prog s = Some r"
  using assms
proof (induction rule: bpf_loop_induct)
  case (outside s)
  then show ?case by (simp add: bpf_loop.simps [of _ prog s])
next
  case (moves s t r)
  have "bpf_step ld' (prog ! bpc s) s = Next t"
    using moves(4) [OF bpf_reach.start moves(1)] moves(2) by (metis bpf_step_agree)
  moreover have "bpf_loop ld' prog (wrap_pc (length prog) t) = Some r"
    by (rule moves(3)) (auto intro: moves(4) bpf_reach.step [OF moves(1,2)])
  ultimately show ?case using moves(1) by (simp add: bpf_loop.simps [of _ prog s])
next
  case (returns s v)
  have "bpf_step ld' (prog ! bpc s) s = Done v"
    using returns(3) [OF bpf_reach.start returns(1)] returns(2) by (metis bpf_step_agree)
  with returns(1) show ?case by (simp add: bpf_loop.simps [of _ prog s])
next
  case (faults s f)
  have "bpf_step ld' (prog ! bpc s) s = Crashed f"
    using faults(3) [OF bpf_reach.start faults(1)] faults(2) by (metis bpf_step_agree)
  with faults(1) show ?case by (simp add: bpf_loop.simps [of _ prog s])
qed

lemma bpf_reach_agree:
  assumes "bpf_reach ld' prog s u"
    and "\<And>t. bpf_reach ld prog s t \<Longrightarrow> bpc t < length prog \<Longrightarrow> load_agree ld ld' (prog ! bpc t) t"
  shows "bpf_reach ld prog s u"
  using assms
proof (induction rule: bpf_reach.induct)
  case (start s)
  show ?case by (rule bpf_reach.start)
next
  case (step s t u)
  have "bpf_step ld (prog ! bpc s) s = Next t"
    using step(5) [OF bpf_reach.start step(1)] step(2) by (metis bpf_step_agree)
  from bpf_reach.step [OF step(1) this] show ?case
    using step(4,5) by blast
qed

lemma bpf_run_agree:
  assumes "\<And>t. bpf_reach ld prog s t \<Longrightarrow> bpc t < length prog \<Longrightarrow>
      load_agree ld ld' (prog ! bpc t) t"
  shows "bpf_run ld prog s = bpf_run ld' prog s"
proof -
  have "load_agree ld' ld (prog ! bpc t) t" if "bpf_reach ld' prog s t" and "bpc t < length prog" for t
    using assms [OF bpf_reach_agree [OF that(1) assms] that(2)] by (auto simp: load_agree_def)
  then have "bpf_loop ld prog s = Some r \<longleftrightarrow> bpf_loop ld' prog s = Some r" for r
    using bpf_loop_agree [of ld prog s r ld'] bpf_loop_agree [of ld' prog s r ld] assms by blast
  then have "bpf_loop ld prog s = bpf_loop ld' prog s"
    by (metis not_None_eq)
  then show ?thesis by (simp add: bpf_run_def)
qed

text \<open>The indices of the first instructions a run executes, in order.\<close>

inductive bpf_trace ::
    "(load_op \<Rightarrow> bpf_insn \<Rightarrow> bpf_state \<Rightarrow> effect) \<Rightarrow> bpf_insn list \<Rightarrow> bpf_state \<Rightarrow> nat list \<Rightarrow> bool"
  for ld prog where
  nothing: "bpf_trace ld prog s []"
| final: "bpc s < length prog \<Longrightarrow> bpf_trace ld prog s [bpc s]"
| further: "bpc s < length prog \<Longrightarrow> bpf_step ld (prog ! bpc s) s = Next t \<Longrightarrow>
    bpf_trace ld prog (wrap_pc (length prog) t) ns \<Longrightarrow> bpf_trace ld prog s (bpc s # ns)"

section \<open>What the loop needs from the loads\<close>

text \<open>
  The interface between the loop and the packet memory. \<open>ld\<close> is the semantics of the loads
  over a packet representation, \<open>load_ok\<close> the static condition on a load instruction under
  which, on a well-formed packet, it does not fault.
\<close>

locale bpf_machine =
  fixes ld :: "'q \<Rightarrow> load_op \<Rightarrow> bpf_insn \<Rightarrow> bpf_state \<Rightarrow> effect"
    and wf :: "'q \<Rightarrow> bool"
    and load_ok :: "'q \<Rightarrow> load_op \<Rightarrow> bpf_insn \<Rightarrow> bool"
  assumes ld_safe: "wf q \<Longrightarrow> load_ok q l ins \<Longrightarrow> length (scratch s) = BPF_MEMWORDS \<Longrightarrow>
      ld q l ins s \<noteq> Crash f"
begin

definition insn_ok :: "'q \<Rightarrow> nat \<Rightarrow> nat \<Rightarrow> bpf_insn \<Rightarrow> bool" where
  "insn_ok q n i ins =
     (case bpf_decode (code ins) of
        None \<Rightarrow> True
      | Some (Ret r) \<Rightarrow> True
      | Some (Load l) \<Rightarrow> load_ok q l ins \<and> Suc i < n
      | Some (Store t) \<Rightarrow> unat (k ins) < BPF_MEMWORDS \<and> Suc i < n
      | Some (Jump j) \<Rightarrow> (\<forall>s. Suc (i + bpf_jump j ins s) < n)
      | Some (Alu a) \<Rightarrow> (a = DIV_K \<longrightarrow> k ins \<noteq> 0) \<and> Suc i < n
      | Some (Misc m) \<Rightarrow> Suc i < n)"

definition prog_ok :: "'q \<Rightarrow> bpf_insn list \<Rightarrow> bool" where
  "prog_ok q prog \<longleftrightarrow> (\<forall>i < length prog. insn_ok q (length prog) i (prog ! i))"

lemma alu_faults:
  "bpf_alu a kv v x = Crash f \<Longrightarrow> (a = DIV_K \<longrightarrow> kv \<noteq> 0) \<Longrightarrow> f = Bad_Shift"
  by (cases a) (auto simp: shift_left_def shift_right_def split: if_splits)

lemma step_safe:
  assumes "wf q" and "insn_ok q n (bpc s) ins" and "length (scratch s) = BPF_MEMWORDS"
  shows "(\<forall>t. bpf_step (ld q) ins s = Next t \<longrightarrow> bpc t < n) \<and>
    (\<forall>f. bpf_step (ld q) ins s = Crashed f \<longrightarrow> f = Bad_Shift)"
proof (cases "bpf_decode (code ins)")
  case None
  then show ?thesis by (simp add: bpf_step_def)
next
  case (Some op)
  show ?thesis
  proof (cases op)
    case (Ret r)
    with Some show ?thesis by (cases r) (auto simp: bpf_step_def)
  next
    case (Load l)
    with Some assms show ?thesis
      by (auto simp: bpf_step_def insn_ok_def apply_effect_Crashed ld_safe
          dest!: apply_effect_Next)
  next
    case (Store t)
    with Some assms show ?thesis
      by (auto simp: bpf_step_def insn_ok_def bpf_store_def Let_def split: option.splits)
  next
    case (Jump j)
    with Some assms show ?thesis
      by (auto simp: bpf_step_def insn_ok_def)
  next
    case (Alu a)
    with Some assms show ?thesis
      by (auto simp: bpf_step_def insn_ok_def apply_effect_Crashed alu_faults
          dest!: apply_effect_Next)
  next
    case (Misc m)
    with Some assms show ?thesis
      by (cases m) (auto simp: bpf_step_def insn_ok_def)
  qed
qed

lemma step_inside:
  assumes "wf q" and "prog_ok q prog" and "bpc s < length prog"
    and "length (scratch s) = BPF_MEMWORDS" and "bpf_step (ld q) (prog ! bpc s) s = Next t"
  shows "bpc s < bpc t" and "bpc t < length prog" and "length (scratch t) = BPF_MEMWORDS"
    and "wrap_pc (length prog) t = t"
proof -
  have "insn_ok q (length prog) (bpc s) (prog ! bpc s)"
    using assms(2,3) by (simp add: prog_ok_def)
  from step_safe [OF assms(1) this assms(4)] assms(5) show "bpc t < length prog" by blast
  then show "wrap_pc (length prog) t = t" by simp
qed (use assms bpf_step_forward [OF assms(5)] bpf_step_scratch [OF assms(5)] in simp_all)

lemma run_safe:
  assumes "wf q" and "prog_ok q prog" and "bpc s < length prog"
    and "length (scratch s) = BPF_MEMWORDS" and "bpf_run (ld q) prog s = Inl f"
  shows "f = Bad_Shift"
  using assms(3-5)
proof (induction "length prog - bpc s" arbitrary: s rule: less_induct)
  case less
  note run = bpf_run_unfold [of _ prog s]
  show ?case
  proof (cases "bpf_step (ld q) (prog ! bpc s) s")
    case (Next t)
    note t = step_inside [OF assms(1,2) less(2,3) Next]
    have "bpf_run (ld q) prog t = Inl f"
      using less(2,4) Next t(4) by (simp add: run)
    with less(1) [of t] less(2) t show ?thesis by simp
  next
    case (Done v)
    with less(2,4) show ?thesis by (simp add: run)
  next
    case (Crashed g)
    have "insn_ok q (length prog) (bpc s) (prog ! bpc s)"
      using assms(2) less(2) by (simp add: prog_ok_def)
    from step_safe [OF assms(1) this less(3)] Crashed less(2,4) show ?thesis by (simp add: run)
  qed
qed

lemma trace_forward:
  assumes "bpf_trace (ld q) prog s ns" and "wf q" and "prog_ok q prog" and "bpc s < length prog"
    and "length (scratch s) = BPF_MEMWORDS"
  shows "sorted_wrt (<) ns \<and> set ns \<subseteq> {bpc s..<length prog}"
  using assms(1,4,5)
proof (induction rule: bpf_trace.induct)
  case (further s t ns)
  note t = step_inside [OF assms(2,3) further(1) further(6) further(2)]
  from further(4) t have "sorted_wrt (<) ns \<and> set ns \<subseteq> {bpc t..<length prog}" by simp
  with t(1) further(1) show ?case by fastforce
qed auto

end

end
