(* ===== verification/Bpf_Validate.thy ===== *)
theory Bpf_Validate
  imports Bpf_Filter
begin

text \<open>
  The program validator \<open>bpf_validate\<close> of \<open>packetNtx/driver/win_bpf_filter.c\<close>, a readable
  specification of the programs it accepts, and what acceptance buys: an accepted program
  never reads outside the packet, the scratch memory or the program, never divides by zero,
  and its result depends only on the captured bytes and the two lengths.
\<close>

section \<open>The validator\<close>

definition validate_load :: "bpf_insn \<Rightarrow> bool" where
  "validate_load p =
     (let m = BPF_MODE (code p) in
      if m = BPF_IMM then True
      else if m = BPF_ABS \<or> m = BPF_IND \<or> m = BPF_MSH then True
      else if m = BPF_MEM then \<not> of_nat BPF_MEMWORDS \<le> k p
      else m = BPF_LEN)"

definition validate_alu :: "bpf_insn \<Rightarrow> bool" where
  "validate_alu p =
     (let oper = BPF_OP (code p) in
      if oper = BPF_ADD \<or> oper = BPF_SUB \<or> oper = BPF_MUL \<or> oper = BPF_OR \<or>
         oper = BPF_AND \<or> oper = BPF_LSH \<or> oper = BPF_RSH \<or> oper = BPF_NEG then True
      else if oper = BPF_DIV then \<not> (BPF_SRC (code p) = BPF_K \<and> k p = 0)
      else False)"

definition validate_jmp :: "u32 \<Rightarrow> u32 \<Rightarrow> bpf_insn \<Rightarrow> bool" where
  "validate_jmp len i p =
     (let from = i + 1; oper = BPF_OP (code p) in
      if oper = BPF_JA then \<not> (from + k p < from \<or> from + k p \<ge> len)
      else if oper = BPF_JEQ \<or> oper = BPF_JGT \<or> oper = BPF_JGE \<or> oper = BPF_JSET
      then \<not> (from + ucast (jt p) \<ge> len \<or> from + ucast (jf p) \<ge> len)
      else False)"

definition validate_insn :: "u32 \<Rightarrow> u32 \<Rightarrow> bpf_insn \<Rightarrow> bool" where
  "validate_insn len i p =
     (code p \<in> set valid_instructions \<and>
      (let c = BPF_CLASS (code p) in
       if c = BPF_LD \<or> c = BPF_LDX then validate_load p
       else if c = BPF_ST \<or> c = BPF_STX then \<not> of_nat BPF_MEMWORDS \<le> k p
       else if c = BPF_ALU then validate_alu p
       else if c = BPF_JMP then validate_jmp len i p
       else c = BPF_RET \<or> c = BPF_MISC))"

fun validate_loop :: "u32 \<Rightarrow> u32 \<Rightarrow> bpf_insn list \<Rightarrow> bool" where
  "validate_loop len i [] = True"
| "validate_loop len i (p # ps) = (validate_insn len i p \<and> validate_loop len (i + 1) ps)"

definition bpf_validate :: "bpf_insn list \<Rightarrow> bool" where
  "bpf_validate f =
     (if length f < 1 then False
      else validate_loop (of_nat (length f)) 0 f \<and>
           BPF_CLASS (code (f ! (length f - 1))) = BPF_RET)"

section \<open>The programs it accepts\<close>

definition insn_valid :: "nat \<Rightarrow> nat \<Rightarrow> bpf_insn \<Rightarrow> bool" where
  "insn_valid n i p =
     (case bpf_decode (code p) of
        None \<Rightarrow> code p \<in> set ldx_abs_codes
      | Some (Load l) \<Rightarrow> l \<in> {LD_MEM, LDX_MEM} \<longrightarrow> unat (k p) < BPF_MEMWORDS
      | Some (Store t) \<Rightarrow> unat (k p) < BPF_MEMWORDS
      | Some (Jump j) \<Rightarrow> if j = JMP_JA then i + 1 + unat (k p) < n
           else i + 1 + unat (jt p) < n \<and> i + 1 + unat (jf p) < n
      | Some (Alu a) \<Rightarrow> a = DIV_K \<longrightarrow> k p \<noteq> 0
      | Some _ \<Rightarrow> True)"

definition prog_valid :: "bpf_insn list \<Rightarrow> bool" where
  "prog_valid f \<longleftrightarrow> f \<noteq> [] \<and> (\<forall>i < length f. insn_valid (length f) i (f ! i)) \<and>
     (\<exists>r. bpf_decode (code (last f)) = Some (Ret r))"

named_theorems fields \<open>the bit fields of the opcodes\<close>

lemma load_fields [fields]:
  "BPF_CLASS (load_code l) = BPF_LD \<or> BPF_CLASS (load_code l) = BPF_LDX"
  "BPF_MODE (load_code l) = BPF_MEM \<longleftrightarrow> l = LD_MEM \<or> l = LDX_MEM"
  "BPF_MODE (load_code l) \<in> {BPF_IMM, BPF_ABS, BPF_IND, BPF_MSH, BPF_MEM, BPF_LEN}"
  by (cases l; simp add: BPF_CLASS_def BPF_MODE_def)+

lemma jump_fields [fields]:
  "BPF_CLASS (jump_code j) = BPF_JMP"
  "BPF_OP (jump_code j) = BPF_JA \<longleftrightarrow> j = JMP_JA"
  "j \<noteq> JMP_JA \<Longrightarrow> BPF_OP (jump_code j) \<in> {BPF_JEQ, BPF_JGT, BPF_JGE, BPF_JSET}"
  by (cases j; simp add: BPF_CLASS_def BPF_OP_def)+

lemma alu_fields [fields]:
  "BPF_CLASS (alu_code a) = BPF_ALU"
  "BPF_OP (alu_code a) \<in> {BPF_ADD, BPF_SUB, BPF_MUL, BPF_OR, BPF_AND, BPF_LSH, BPF_RSH,
     BPF_NEG, BPF_DIV}"
  "BPF_OP (alu_code a) = BPF_DIV \<and> BPF_SRC (alu_code a) = BPF_K \<longleftrightarrow> a = DIV_K"
  by (cases a; simp add: BPF_CLASS_def BPF_OP_def BPF_SRC_def)+

lemma ldx_abs_fields [fields]:
  "c \<in> set ldx_abs_codes \<Longrightarrow> BPF_CLASS c = BPF_LDX"
  "c \<in> set ldx_abs_codes \<Longrightarrow> BPF_MODE c = BPF_ABS"
  by (auto simp: ldx_abs_codes_def BPF_CLASS_def BPF_MODE_def)

lemma scratch_bound: "\<not> (of_nat BPF_MEMWORDS \<le> (x :: u32)) \<longleftrightarrow> unat x < BPF_MEMWORDS"
  by (simp add: word_le_nat_alt not_le)

lemma unat_of_index: "n < 2147483648 \<Longrightarrow> unat (of_nat n :: u32) = n"
  by (simp add: unat_of_nat)

lemma jump_within:
  assumes "i < n" and "n < 2147483648"
  shows "(\<not> (of_nat i + 1 + x < (of_nat i + 1 :: u32) \<or> of_nat i + 1 + x \<ge> (of_nat n :: u32)))
      \<longleftrightarrow> i + 1 + unat x < n"
proof -
  have start: "unat (of_nat i + 1 :: u32) = i + 1"
    using assms unat_of_index [of "Suc i"] by (simp add: add.commute)
  show ?thesis
  proof (cases "i + 1 + unat x < 4294967296")
    case True
    then have "unat (of_nat i + 1 + x :: u32) = i + 1 + unat x"
      using start unat_add_small [of "of_nat i + 1" x] by simp
    then show ?thesis
      using assms start by (simp add: word_less_nat_alt word_le_nat_alt unat_of_index not_le)
  next
    case False
    have "unat (of_nat i + 1 + x :: u32) = (i + 1 + unat x) mod 4294967296"
      using start by (simp add: unat_word_ariths mod_simps)
    also have "\<dots> = (i + 1 + unat x - 4294967296) mod 4294967296"
      using False by (intro le_mod_geq) simp
    also have "\<dots> = i + 1 + unat x - 4294967296"
      using unat_lt [of x] assms by (intro mod_less) linarith
    also have "\<dots> < unat (of_nat i + 1 :: u32)"
      using False start unat_lt [of x] by linarith
    finally show ?thesis
      using False assms by (simp add: word_less_nat_alt)
  qed
qed

lemma branch_within:
  assumes "i < n" and "n < 2147483648"
  shows "(\<not> (of_nat i + 1 + ucast (b :: u8) \<ge> (of_nat n :: u32))) \<longleftrightarrow> i + 1 + unat b < n"
proof -
  have "\<not> (of_nat i + 1 + ucast b < (of_nat i + 1 :: u32))"
  proof -
    have "unat (of_nat i + 1 :: u32) = i + 1"
      using assms unat_of_index [of "Suc i"] by (simp add: add.commute)
    moreover have "unat b < 256" using unsigned_less [of b] by simp
    ultimately have "unat (of_nat i + 1 + ucast b :: u32) = i + 1 + unat b"
      using assms unat_add_small [of "of_nat i + 1" "ucast b"] by simp
    with \<open>unat (of_nat i + 1 :: u32) = i + 1\<close> show ?thesis
      by (simp add: word_less_nat_alt)
  qed
  then show ?thesis
    using jump_within [OF assms, of "ucast b"] by simp
qed

lemma validate_insn_iff:
  assumes "i < n" and "n < 2147483648"
  shows "validate_insn (of_nat n) (of_nat i) p \<longleftrightarrow> insn_valid n i p"
proof (cases "bpf_decode (code p)")
  case None
  then show ?thesis
    by (auto simp: validate_insn_def insn_valid_def valid_instruction_iff validate_load_def
        fields)
next
  case (Some op)
  then have c: "code p = bpf_code op" and v: "code p \<in> set valid_instructions"
    by (auto simp: bpf_decode_Some valid_instruction_iff)
  show ?thesis
  proof (cases op)
    case (Ret r)
    with Some v c show ?thesis
      by (cases r) (auto simp: validate_insn_def insn_valid_def BPF_CLASS_def)
  next
    case (Load l)
    have "validate_load p \<longleftrightarrow> (l \<in> {LD_MEM, LDX_MEM} \<longrightarrow> unat (k p) < BPF_MEMWORDS)"
      using load_fields(2,3) [of l] scratch_bound [of "k p"] c Load
      by (auto simp: validate_load_def Let_def)
    with Some v c Load load_fields(1) [of l] show ?thesis
      by (auto simp: validate_insn_def insn_valid_def)
  next
    case (Store t)
    with Some v c scratch_bound [of "k p"] show ?thesis
      by (cases t) (auto simp: validate_insn_def insn_valid_def BPF_CLASS_def)
  next
    case (Jump j)
    have "validate_jmp (of_nat n) (of_nat i) p \<longleftrightarrow>
        (if j = JMP_JA then i + 1 + unat (k p) < n
         else i + 1 + unat (jt p) < n \<and> i + 1 + unat (jf p) < n)"
      using jump_fields(2,3) [of j] jump_within [OF assms, of "k p"]
        branch_within [OF assms, of "jt p"] branch_within [OF assms, of "jf p"] c Jump
      by (auto simp: validate_jmp_def Let_def)
    with Some v c Jump show ?thesis
      by (auto simp: validate_insn_def insn_valid_def jump_fields)
  next
    case (Alu a)
    have "validate_alu p \<longleftrightarrow> (a = DIV_K \<longrightarrow> k p \<noteq> 0)"
      using alu_fields(2,3) [of a] c Alu by (auto simp: validate_alu_def Let_def)
    with Some v c Alu show ?thesis
      by (auto simp: validate_insn_def insn_valid_def alu_fields)
  next
    case (Misc m)
    with Some v c show ?thesis
      by (cases m) (auto simp: validate_insn_def insn_valid_def BPF_CLASS_def)
  qed
qed

lemma validate_loop_iff:
  assumes "n < 2147483648" and "i + length ps \<le> n"
  shows "validate_loop (of_nat n) (of_nat i) ps \<longleftrightarrow>
    (\<forall>j < length ps. insn_valid n (i + j) (ps ! j))"
  using assms(2)
proof (induction ps arbitrary: i)
  case Nil
  then show ?case by simp
next
  case (Cons p ps)
  have "validate_loop (of_nat n) (of_nat (Suc i)) ps \<longleftrightarrow>
      (\<forall>j < length ps. insn_valid n (Suc i + j) (ps ! j))"
    using Cons.prems by (intro Cons.IH) simp
  then show ?case
    using Cons.prems assms(1) by (auto simp: validate_insn_iff add.commute less_Suc_eq_0_disj)
qed

lemma ret_class_code: "BPF_CLASS (bpf_code op) = BPF_RET \<longleftrightarrow> (\<exists>r. op = Ret r)"
proof (cases op)
  case (Ret r) then show ?thesis by (cases r) (auto simp: BPF_CLASS_def)
next
  case (Load l) with load_fields(1) [of l] show ?thesis by auto
next
  case (Store t) then show ?thesis by (cases t) (auto simp: BPF_CLASS_def)
next
  case (Jump j) then show ?thesis by (auto simp: fields)
next
  case (Alu a) then show ?thesis by (auto simp: fields)
next
  case (Misc m) then show ?thesis by (cases m) (auto simp: BPF_CLASS_def)
qed

lemma ret_class:
  assumes "c \<in> set valid_instructions"
  shows "BPF_CLASS c = BPF_RET \<longleftrightarrow> (\<exists>r. bpf_decode c = Some (Ret r))"
proof (cases "bpf_decode c")
  case None
  with assms show ?thesis by (auto simp: valid_instruction_iff fields)
next
  case (Some op)
  then have "bpf_code op = c" by (simp add: bpf_decode_Some)
  then have "BPF_CLASS c = BPF_RET \<longleftrightarrow> (\<exists>r. op = Ret r)"
    using ret_class_code [of op] by simp
  then show ?thesis by (simp add: Some)
qed

lemma bpf_validate_iff:
  assumes "length f < 2147483648"
  shows "bpf_validate f \<longleftrightarrow> prog_valid f"
proof (cases "f = []")
  case True
  then show ?thesis by (simp add: bpf_validate_def prog_valid_def)
next
  case False
  have loop: "validate_loop (of_nat (length f)) 0 f \<longleftrightarrow>
      (\<forall>i < length f. insn_valid (length f) i (f ! i))"
    using validate_loop_iff [of "length f" 0 f] assms by simp
  have last: "f ! (length f - 1) = last f"
    using False by (simp add: last_conv_nth)
  have "code (last f) \<in> set valid_instructions"
    if "\<forall>i < length f. insn_valid (length f) i (f ! i)"
  proof -
    have "insn_valid (length f) (length f - 1) (last f)"
      using that False last by (metis diff_less length_greater_0_conv less_one)
    then show ?thesis
      by (auto simp: insn_valid_def valid_instruction_iff split: option.splits)
  qed
  with False loop last show ?thesis
    by (auto simp: bpf_validate_def prog_valid_def ret_class Suc_le_eq)
qed

section \<open>The loads of one buffer are safe\<close>

definition packet_wf :: "packet \<Rightarrow> bool" where
  "packet_wf q \<longleftrightarrow> unat (buflen q) \<le> length (pkt_bytes q) \<and> unat (buflen q) < 4294967292"

definition scratch_ok :: "load_op \<Rightarrow> bpf_insn \<Rightarrow> bool" where
  "scratch_ok l ins \<longleftrightarrow> (l \<in> {LD_MEM, LDX_MEM} \<longrightarrow> unat (k ins) < BPF_MEMWORDS)"

lemma guard_bound:
  assumes "unat (bl :: u32) < 4294967292" and "\<not> bl \<le> o'" and "unat n \<le> 4" and "\<not> bl < o' + n"
  shows "unat o' + unat n \<le> unat bl"
proof -
  have "unat o' + unat n < 4294967296"
    using assms(1-3) by (simp add: word_le_nat_alt)
  then show ?thesis
    using assms(4) by (simp add: word_less_nat_alt unat_add_small)
qed

lemmas guard_bounds =
  guard_bound [of _ _ 4, simplified] guard_bound [of _ _ 2, simplified]
  guard_bound [of _ _ 1, simplified]

lemma load_A_safe: "v \<noteq> None \<Longrightarrow> load_A v \<noteq> Crash f"
  by (auto simp: load_A_def)

lemma extract_long_safe: "i + 4 \<le> length p \<Longrightarrow> EXTRACT_LONG p i \<noteq> None"
  by (simp add: EXTRACT_LONG_def)

lemma extract_short_safe: "i + 2 \<le> length p \<Longrightarrow> EXTRACT_SHORT p i \<noteq> None"
  by (simp add: EXTRACT_SHORT_def)

lemma bpf_load_safe:
  assumes "packet_wf q" and "scratch_ok l ins" and "length (scratch s) = BPF_MEMWORDS"
  shows "bpf_load q l ins s \<noteq> Crash f"
proof -
  have b: "unat (buflen q) < 4294967292" and len: "unat (buflen q) \<le> length (pkt_bytes q)"
    using assms(1) by (simp_all add: packet_wf_def)
  have byte: "unat o' < length (pkt_bytes q)" if "\<not> buflen q \<le> o'" for o'
    using that len by (simp add: word_le_nat_alt)
  have long: "load_A (EXTRACT_LONG (pkt_bytes q) (unat o')) \<noteq> Crash f"
    if "\<not> buflen q \<le> o'" "\<not> buflen q < o' + 4" for o'
    using guard_bounds(1) [OF b that] len by (intro load_A_safe extract_long_safe) simp
  have short: "load_A (EXTRACT_SHORT (pkt_bytes q) (unat o')) \<noteq> Crash f"
    if "\<not> buflen q \<le> o'" "\<not> buflen q < o' + 2" for o'
    using guard_bounds(2) [OF b that] len by (intro load_A_safe extract_short_safe) simp
  show ?thesis
    using assms(2,3) long short byte
    by (cases l) (auto simp: Let_def load_byte_A_def load_A_def load_msh_def scratch_ok_def
        split: if_splits)
qed

interpretation one_buffer: bpf_machine bpf_load packet_wf "\<lambda>_. scratch_ok"
  by unfold_locales (rule bpf_load_safe)

lemma prog_valid_ok:
  assumes "prog_valid f"
  shows "one_buffer.prog_ok q f"
  unfolding one_buffer.prog_ok_def
proof (intro allI impI)
  fix i assume i: "i < length f"
  have v: "insn_valid (length f) i (f ! i)"
    using assms i by (simp add: prog_valid_def)
  have next_ok: "Suc i < length f" if "\<forall>r. bpf_decode (code (f ! i)) \<noteq> Some (Ret r)"
  proof (rule ccontr)
    assume "\<not> Suc i < length f"
    with i have "i = length f - 1" by simp
    then have "f ! i = last f"
      using assms by (simp add: prog_valid_def last_conv_nth)
    with that assms show False by (auto simp: prog_valid_def)
  qed
  show "one_buffer.insn_ok q (length f) i (f ! i)"
    using v next_ok
    by (auto simp: one_buffer.insn_ok_def insn_valid_def scratch_ok_def bpf_jump_def
        split: option.splits bpf_op.splits if_splits)
qed

lemma bpf_load_same:
  assumes "packet_wf q" and "packet_wf r" and "buflen q = buflen r" and "wirelen q = wirelen r"
    and "take (unat (buflen q)) (pkt_bytes q) = take (unat (buflen q)) (pkt_bytes r)"
  shows "bpf_load q l ins s = bpf_load r l ins s"
proof -
  have b: "unat (buflen r) < 4294967292" using assms(2) by (simp add: packet_wf_def)
  have peek_same: "peek (pkt_bytes q) i = peek (pkt_bytes r) i" if "i < unat (buflen r)" for i
    using assms(3,5) that peek_take by metis
  have byte: "peek (pkt_bytes q) (unat o') = peek (pkt_bytes r) (unat o')"
    if "\<not> buflen r \<le> o'" for o'
    using that by (intro peek_same) (simp add: word_le_nat_alt)
  have long: "EXTRACT_LONG (pkt_bytes q) (unat o') = EXTRACT_LONG (pkt_bytes r) (unat o')"
    if "\<not> buflen r \<le> o'" "\<not> buflen r < o' + 4" for o'
    using guard_bounds(1) [OF b that] by (simp add: EXTRACT_LONG_def peek_same)
  have short: "EXTRACT_SHORT (pkt_bytes q) (unat o') = EXTRACT_SHORT (pkt_bytes r) (unat o')"
    if "\<not> buflen r \<le> o'" "\<not> buflen r < o' + 2" for o'
    using guard_bounds(2) [OF b that] by (simp add: EXTRACT_SHORT_def peek_same)
  show ?thesis
    using byte long short assms(3,4) by (cases l) (auto simp: Let_def)
qed

end
