(* ===== verification/Bpf_Two_Buffers.thy ===== *)
theory Bpf_Two_Buffers
  imports Bpf_Validate
begin

text \<open>
  \<open>bpf_filter_with_2_buffers\<close> of \<open>packetNtx/driver/win_bpf_filter.c\<close>: the interpreter run
  when NDIS passes the MAC header and the payload in two buffers. Offsets are \<open>int\<close> here, so
  some bounds checks are signed and some (those that add a \<open>sizeof\<close>) unsigned, and a load
  across the boundary of the buffers is assembled by hand. The theory shows exactly when the
  function computes what \<open>bpf_filter\<close> computes on the joined packet, and that it does not
  when a word load starts two or three bytes, or a half-word load one byte, before the
  boundary, or when the offset is negative.
\<close>

section \<open>The loads of bpf_filter_with_2_buffers\<close>

record packet2 =
  p_bytes :: "u8 list"
  pd_bytes :: "u8 list"
  headersize :: u32
  wirelen2 :: u32
  buflen2 :: u32

definition peek_int :: "u8 list \<Rightarrow> int \<Rightarrow> u8 option" where
  "peek_int xs i = (if i < 0 then None else peek xs (nat i))"

definition compose32 :: "u8 option \<Rightarrow> u8 option \<Rightarrow> u8 option \<Rightarrow> u8 option \<Rightarrow> u32 option" where
  "compose32 a b c d =
     (case (a, b, c, d) of
        (Some b0, Some b1, Some b2, Some b3) \<Rightarrow> Some (be32 b0 b1 b2 b3)
      | _ \<Rightarrow> None)"

definition compose16 :: "u8 option \<Rightarrow> u8 option \<Rightarrow> u32 option" where
  "compose16 a b = (case (a, b) of (Some b0, Some b1) \<Rightarrow> Some (be16 b0 b1) | _ \<Rightarrow> None)"

definition extract_long2 :: "packet2 \<Rightarrow> u32 \<Rightarrow> u32 option" where
  "extract_long2 q o' =
     (let i = sint o'; h = sint (headersize q); d = i - h;
          p = peek_int (p_bytes q); pd = peek_int (pd_bytes q) in
      if sint (o' + 4) \<le> h then compose32 (p i) (p (i + 1)) (p (i + 2)) (p (i + 3))
      else if o' + 3 = headersize q
        then compose32 (p i) (p (i + 1)) (p (i + 2)) (pd d)
      else if o' + 2 = headersize q
        then compose32 (p i) (p (i + 1)) (pd d) (pd (d + 1))
      else if o' + 1 = headersize q
        then compose32 (p i) (pd (d + 1)) (pd (d + 2)) (pd (d + 3))
      else compose32 (pd d) (pd (d + 1)) (pd (d + 2)) (pd (d + 3)))"

definition extract_short2 :: "packet2 \<Rightarrow> u32 \<Rightarrow> u32 option" where
  "extract_short2 q o' =
     (let i = sint o'; h = sint (headersize q); d = i - h;
          p = peek_int (p_bytes q); pd = peek_int (pd_bytes q) in
      if sint (o' + 2) \<le> h then compose16 (p i) (p (i + 1))
      else if o' + 1 = headersize q then compose16 (p i) (pd d)
      else compose16 (pd d) (pd (d + 1)))"

definition extract_byte2 :: "packet2 \<Rightarrow> u32 \<Rightarrow> u8 option" where
  "extract_byte2 q o' =
     (if sint (o' + 1) \<le> sint (headersize q) then peek_int (p_bytes q) (sint o')
      else peek_int (pd_bytes q) (sint o' - sint (headersize q)))"

primrec bpf_load2 :: "packet2 \<Rightarrow> load_op \<Rightarrow> bpf_insn \<Rightarrow> bpf_state \<Rightarrow> effect" where
  "bpf_load2 q LD_W_ABS ins s = (let o' = k ins in
     if sint (o' + 4) > sint (buflen2 q) then Return 0 else load_A (extract_long2 q o'))"
| "bpf_load2 q LD_H_ABS ins s = (let o' = k ins in
     if o' + 2 > buflen2 q then Return 0 else load_A (extract_short2 q o'))"
| "bpf_load2 q LD_B_ABS ins s = (let o' = k ins in
     if sint o' \<ge> sint (buflen2 q) then Return 0 else load_byte_A (extract_byte2 q o'))"
| "bpf_load2 q LD_W_LEN ins s = SetA (wirelen2 q)"
| "bpf_load2 q LDX_W_LEN ins s = SetX (wirelen2 q)"
| "bpf_load2 q LD_W_IND ins s = (let o' = regX s + k ins in
     if o' + 4 > buflen2 q then Return 0 else load_A (extract_long2 q o'))"
| "bpf_load2 q LD_H_IND ins s = (let o' = regX s + k ins in
     if sint (o' + 2) > sint (buflen2 q) then Return 0 else load_A (extract_short2 q o'))"
| "bpf_load2 q LD_B_IND ins s = (let o' = regX s + k ins in
     if sint o' \<ge> sint (buflen2 q) then Return 0 else load_byte_A (extract_byte2 q o'))"
| "bpf_load2 q LDX_MSH_B ins s = (let o' = k ins in
     if sint o' \<ge> sint (buflen2 q) then Return 0 else load_msh (extract_byte2 q o'))"
| "bpf_load2 q LD_IMM ins s = SetA (k ins)"
| "bpf_load2 q LDX_IMM ins s = SetX (k ins)"
| "bpf_load2 q LD_MEM ins s =
     (case peek (scratch s) (unat (k ins)) of None \<Rightarrow> Crash Bad_Mem | Some v \<Rightarrow> SetA v)"
| "bpf_load2 q LDX_MEM ins s =
     (case peek (scratch s) (unat (k ins)) of None \<Rightarrow> Crash Bad_Mem | Some v \<Rightarrow> SetX v)"

definition bpf_filter_with_2_buffers :: "bpf_insn list option \<Rightarrow> packet2 \<Rightarrow> fault + u32" where
  "bpf_filter_with_2_buffers pc q =
     (case pc of
        None \<Rightarrow> Inr (- 1)
      | Some prog \<Rightarrow> bpf_run (bpf_load2 q) prog bpf_init)"

section \<open>The joined packet and the loads on which the two functions agree\<close>

definition join_buffers :: "packet2 \<Rightarrow> packet" where
  "join_buffers q = \<lparr>pkt_bytes = take (unat (headersize q)) (p_bytes q) @ pd_bytes q,
     wirelen = wirelen2 q, buflen = buflen2 q\<rparr>"

definition packet2_wf :: "packet2 \<Rightarrow> bool" where
  "packet2_wf q \<longleftrightarrow> unat (headersize q) \<le> length (p_bytes q) \<and>
     unat (buflen2 q) \<le> unat (headersize q) + length (pd_bytes q) \<and>
     unat (headersize q) < 2147483644 \<and> unat (buflen2 q) < 2147483644"

primrec load_width :: "load_op \<Rightarrow> nat" where
  "load_width LD_W_ABS = 4" | "load_width LD_H_ABS = 2" | "load_width LD_B_ABS = 1"
| "load_width LD_W_LEN = 0" | "load_width LDX_W_LEN = 0"
| "load_width LD_W_IND = 4" | "load_width LD_H_IND = 2" | "load_width LD_B_IND = 1"
| "load_width LDX_MSH_B = 1" | "load_width LD_IMM = 0" | "load_width LDX_IMM = 0"
| "load_width LD_MEM = 0" | "load_width LDX_MEM = 0"

definition load_offset :: "load_op \<Rightarrow> bpf_insn \<Rightarrow> bpf_state \<Rightarrow> u32" where
  "load_offset l ins s = (if l \<in> {LD_W_IND, LD_H_IND, LD_B_IND} then regX s + k ins else k ins)"

definition offset_agrees :: "packet2 \<Rightarrow> nat \<Rightarrow> u32 \<Rightarrow> bool" where
  "offset_agrees q w o' \<longleftrightarrow> unat o' < 2147483644 \<and>
     (w = 4 \<longrightarrow> unat o' + 2 \<noteq> unat (headersize q) \<and> unat o' + 3 \<noteq> unat (headersize q)) \<and>
     (w = 2 \<longrightarrow> unat o' + 1 \<noteq> unat (headersize q))"

definition load_agrees :: "packet2 \<Rightarrow> load_op \<Rightarrow> bpf_insn \<Rightarrow> bpf_state \<Rightarrow> bool" where
  "load_agrees q l ins s \<longleftrightarrow>
     load_width l = 0 \<or> offset_agrees q (load_width l) (load_offset l ins s)"


lemma extract_long_compose:
  "EXTRACT_LONG p i = compose32 (peek p i) (peek p (i + 1)) (peek p (i + 2)) (peek p (i + 3))"
  by (simp add: EXTRACT_LONG_def compose32_def)

lemma extract_short_compose: "EXTRACT_SHORT p i = compose16 (peek p i) (peek p (i + 1))"
  by (simp add: EXTRACT_SHORT_def compose16_def)

lemma unat_offset:
  "unat (o' :: u32) < 2147483644 \<Longrightarrow> n \<le> 4 \<Longrightarrow> unat (o' + of_nat n) = unat o' + n"
  by (subst unat_add_small) (simp_all add: unat_of_nat)

lemmas unat_offsets = unat_offset [of _ 1, simplified] unat_offset [of _ 2, simplified]
  unat_offset [of _ 3, simplified] unat_offset [of _ 4, simplified]

lemma joined_byte:
  assumes "packet2_wf q"
  shows "i < unat (headersize q) \<Longrightarrow> peek (pkt_bytes (join_buffers q)) i = peek (p_bytes q) i"
    and "unat (headersize q) \<le> i \<Longrightarrow>
      peek (pkt_bytes (join_buffers q)) i = peek (pd_bytes q) (i - unat (headersize q))"
proof -
  let ?h = "unat (headersize q)"
  have len: "length (take ?h (p_bytes q)) = ?h"
    using assms by (simp add: packet2_wf_def)
  show "i < ?h \<Longrightarrow> peek (pkt_bytes (join_buffers q)) i = peek (p_bytes q) i"
    using len by (simp add: join_buffers_def peek_append1 peek_take del: peek_Some length_take)
  show "?h \<le> i \<Longrightarrow> peek (pkt_bytes (join_buffers q)) i = peek (pd_bytes q) (i - ?h)"
    using len by (simp add: join_buffers_def peek_append2)
qed

lemma peek_int_of_nat [simp]: "peek_int xs (int n) = peek xs n"
  by (simp add: peek_int_def)

lemma peek_int_diff: "h \<le> n \<Longrightarrow> peek_int xs (int n - int h) = peek xs (n - h)"
  by (simp add: peek_int_def nat_diff_distrib)

text \<open>
  The offsets as natural numbers: \<open>i\<close> is the offset of the load and \<open>h\<close> the header size.
\<close>

lemma sint_offset:
  assumes "unat (o' :: u32) = i" and "i < 2147483644"
  shows "sint o' = int i" "sint (o' + 1) = int (i + 1)"
    "sint (o' + 2) = int (i + 2)" "sint (o' + 4) = int (i + 4)"
  using sint_small [of o'] sint_small [of "o' + 1"] sint_small [of "o' + 2"]
    sint_small [of "o' + 4"] unat_offsets [of o'] assms
  by simp_all

lemma offset_eq_iff:
  assumes "unat (o' :: u32) = i" and "i < 2147483644" and "unat hs = h"
  shows "o' + 1 = hs \<longleftrightarrow> i + 1 = h" "o' + 2 = hs \<longleftrightarrow> i + 2 = h" "o' + 3 = hs \<longleftrightarrow> i + 3 = h"
  using assms by (auto simp: word_unat_eq_iff unat_offsets)

lemma header_sint: "packet2_wf q \<Longrightarrow> unat (headersize q) = h \<Longrightarrow> sint (headersize q) = int h"
  and buflen_sint: "packet2_wf q \<Longrightarrow> unat (buflen2 q) = b \<Longrightarrow> sint (buflen2 q) = int b"
  using sint_small [of "headersize q"] sint_small [of "buflen2 q"]
  by (auto simp: packet2_wf_def)

lemma header_part:
  assumes "packet2_wf q" and "unat (headersize q) = h" and "i + w \<le> h" and "n < w"
  shows "peek_int (p_bytes q) (int i + int n) = peek (pkt_bytes (join_buffers q)) (i + n)"
  using assms joined_byte(1) [OF assms(1), of "i + n"]
  by (simp flip: of_nat_add)

lemma data_part:
  assumes "packet2_wf q" and "unat (headersize q) = h" and "h \<le> i + n"
  shows "peek_int (pd_bytes q) (int i - int h + int n) =
    peek (pkt_bytes (join_buffers q)) (i + n)"
proof -
  have eq: "int i - int h + int n = int (i + n) - int h" by simp
  show ?thesis
    unfolding eq using assms joined_byte(2) [OF assms(1), of "i + n"] peek_int_diff [of h "i + n"] by simp
qed

lemma extract_long_agrees:
  assumes wf: "packet2_wf q" and ok: "offset_agrees q 4 o'"
  shows "extract_long2 q o' = EXTRACT_LONG (pkt_bytes (join_buffers q)) (unat o')"
proof -
  obtain i h where i: "unat o' = i" and h: "unat (headersize q) = h" by simp
  have small: "i < 2147483644" and ne: "i + 2 \<noteq> h" "i + 3 \<noteq> h"
    using ok by (simp_all add: offset_agrees_def i h)
  note facts = i sint_offset [OF i small] offset_eq_iff [OF i small h] header_sint [OF wf h]
    extract_long2_def extract_long_compose Let_def
  note hp = header_part [OF wf h, of i] and dp = data_part [OF wf h, of i]
  consider "i + 4 \<le> h" | "i + 1 = h" | "h \<le> i"
    using ne by linarith
  then show ?thesis
  proof cases
    case 1
    with hp [of 4 0] hp [of 4 1] hp [of 4 2] hp [of 4 3] show ?thesis
      by (simp add: facts)
  next
    case 2
    with hp [of 1 0] dp [of 1] dp [of 2] dp [of 3] show ?thesis
      by (simp add: facts)
  next
    case 3
    with dp [of 0] dp [of 1] dp [of 2] dp [of 3] show ?thesis
      by (simp add: facts)
  qed
qed

lemma extract_short_agrees:
  assumes wf: "packet2_wf q" and ok: "offset_agrees q 2 o'"
  shows "extract_short2 q o' = EXTRACT_SHORT (pkt_bytes (join_buffers q)) (unat o')"
proof -
  obtain i h where i: "unat o' = i" and h: "unat (headersize q) = h" by simp
  have small: "i < 2147483644" and ne: "i + 1 \<noteq> h"
    using ok by (simp_all add: offset_agrees_def i h)
  note facts = i sint_offset [OF i small] offset_eq_iff [OF i small h] header_sint [OF wf h]
    extract_short2_def extract_short_compose Let_def
  note hp = header_part [OF wf h, of i] and dp = data_part [OF wf h, of i]
  consider "i + 2 \<le> h" | "h \<le> i"
    using ne by linarith
  then show ?thesis
  proof cases
    case 1
    with hp [of 2 0] hp [of 2 1] show ?thesis by (simp add: facts)
  next
    case 2
    with dp [of 0] dp [of 1] show ?thesis by (simp add: facts)
  qed
qed

lemma extract_byte_agrees:
  assumes wf: "packet2_wf q" and small: "unat o' < 2147483644"
  shows "extract_byte2 q o' = peek (pkt_bytes (join_buffers q)) (unat o')"
proof -
  obtain i h where i: "unat o' = i" and h: "unat (headersize q) = h" by simp
  note facts = i sint_offset [OF i] header_sint [OF wf h] extract_byte2_def
  show ?thesis
    using small header_part [OF wf h, of i 1 0] data_part [OF wf h, of i 0]
    by (cases "i + 1 \<le> h") (simp_all add: facts)
qed

lemma guards_agree:
  assumes "packet2_wf q" and "unat o' < 2147483644"
  shows "sint (o' + 4) > sint (buflen2 q) \<longleftrightarrow> buflen2 q \<le> o' \<or> buflen2 q < o' + 4"
    and "o' + 4 > buflen2 q \<longleftrightarrow> buflen2 q \<le> o' \<or> buflen2 q < o' + 4"
    and "sint (o' + 2) > sint (buflen2 q) \<longleftrightarrow> buflen2 q \<le> o' \<or> buflen2 q < o' + 2"
    and "o' + 2 > buflen2 q \<longleftrightarrow> buflen2 q \<le> o' \<or> buflen2 q < o' + 2"
    and "sint o' \<ge> sint (buflen2 q) \<longleftrightarrow> buflen2 q \<le> o'"
proof -
  obtain i b where i: "unat o' = i" and b: "unat (buflen2 q) = b" by simp
  note facts = sint_offset [OF i] buflen_sint [OF assms(1) b] word_le_nat_alt
    word_less_nat_alt unat_offsets i b
  have "i < 2147483644" using assms(2) i by simp
  then show "sint (o' + 4) > sint (buflen2 q) \<longleftrightarrow> buflen2 q \<le> o' \<or> buflen2 q < o' + 4"
    and "o' + 4 > buflen2 q \<longleftrightarrow> buflen2 q \<le> o' \<or> buflen2 q < o' + 4"
    and "sint (o' + 2) > sint (buflen2 q) \<longleftrightarrow> buflen2 q \<le> o' \<or> buflen2 q < o' + 2"
    and "o' + 2 > buflen2 q \<longleftrightarrow> buflen2 q \<le> o' \<or> buflen2 q < o' + 2"
    and "sint o' \<ge> sint (buflen2 q) \<longleftrightarrow> buflen2 q \<le> o'"
    by (auto simp: facts)
qed

lemma load_agrees_eq:
  assumes wf: "packet2_wf q" and ok: "load_agrees q l ins s"
  shows "bpf_load2 q l ins s = bpf_load (join_buffers q) l ins s"
proof -
  have fields: "buflen (join_buffers q) = buflen2 q" "wirelen (join_buffers q) = wirelen2 q"
    by (simp_all add: join_buffers_def)
  show ?thesis
  proof (cases "load_width l = 0")
    case True
    then show ?thesis by (cases l) (simp_all add: fields)
  next
    case False
    then have agrees: "offset_agrees q (load_width l) (load_offset l ins s)"
      using ok by (simp add: load_agrees_def)
    then have small: "unat (load_offset l ins s) < 2147483644"
      by (simp add: offset_agrees_def)
    note rules = Let_def fields load_offset_def
    show ?thesis
      using False agrees extract_byte_agrees [OF wf small] guards_agree [OF wf small]
      by (cases l) (simp_all add: rules extract_long_agrees [OF wf] extract_short_agrees [OF wf])
  qed
qed

section \<open>Static conditions\<close>

text \<open>
  A load whose agreement can be read off the instruction: an absolute offset that is not
  negative as an \<open>int\<close> and does not straddle the boundary in one of the three bad ways.
\<close>

definition static_agrees :: "packet2 \<Rightarrow> load_op \<Rightarrow> bpf_insn \<Rightarrow> bool" where
  "static_agrees q l ins \<longleftrightarrow> l \<notin> {LD_W_IND, LD_H_IND, LD_B_IND} \<and>
     (load_width l = 0 \<or> offset_agrees q (load_width l) (k ins))"

definition prog_agrees :: "packet2 \<Rightarrow> bpf_insn list \<Rightarrow> bool" where
  "prog_agrees q prog \<longleftrightarrow>
     (\<forall>ins \<in> set prog. case bpf_decode (code ins) of
        Some (Load l) \<Rightarrow> static_agrees q l ins | _ \<Rightarrow> True)"

lemma static_load_agrees: "static_agrees q l ins \<Longrightarrow> load_agrees q l ins s"
  by (simp add: static_agrees_def load_agrees_def load_offset_def)

lemma join_wf: "packet2_wf q \<Longrightarrow> packet_wf (join_buffers q)"
  by (auto simp: packet2_wf_def packet_wf_def join_buffers_def min_def)

lemma bpf_load2_safe:
  assumes "packet2_wf q" and "scratch_ok l ins \<and> static_agrees q l ins"
    and "length (scratch s) = BPF_MEMWORDS"
  shows "bpf_load2 q l ins s \<noteq> Crash f"
  using assms bpf_load_safe [OF join_wf [OF assms(1)], of l ins s f]
  by (simp add: load_agrees_eq static_load_agrees)

interpretation two_buffers: bpf_machine bpf_load2 packet2_wf
    "\<lambda>q l ins. scratch_ok l ins \<and> static_agrees q l ins"
  by unfold_locales (rule bpf_load2_safe)

lemma load_agree_dynamic:
  assumes "packet2_wf q"
    and "\<And>l. bpf_decode (code ins) = Some (Load l) \<Longrightarrow> load_agrees q l ins s"
  shows "load_agree (bpf_load2 q) (bpf_load (join_buffers q)) ins s"
  using assms by (simp add: load_agree_def load_agrees_eq)

lemma prog_agrees_load:
  "prog_agrees q prog \<Longrightarrow> i < length prog \<Longrightarrow> bpf_decode (code (prog ! i)) = Some (Load l) \<Longrightarrow>
    load_agrees q l (prog ! i) s"
  by (fastforce simp: prog_agrees_def intro: static_load_agrees dest: nth_mem)

lemma prog_agrees_ok:
  assumes "prog_valid f" and "prog_agrees q f"
  shows "two_buffers.prog_ok q f"
proof -
  have "one_buffer.insn_ok (join_buffers q) n i ins \<Longrightarrow>
      (\<And>l. bpf_decode (code ins) = Some (Load l) \<Longrightarrow> static_agrees q l ins) \<Longrightarrow>
      two_buffers.insn_ok q n i ins" for n i ins
    by (auto simp: one_buffer.insn_ok_def two_buffers.insn_ok_def
        split: option.splits bpf_op.splits)
  moreover have "static_agrees q l (f ! i)"
    if "i < length f" "bpf_decode (code (f ! i)) = Some (Load l)" for i l
    using assms(2) that by (fastforce simp: prog_agrees_def dest: nth_mem)
  ultimately show ?thesis
    using prog_valid_ok [OF assms(1), of "join_buffers q"]
    by (auto simp: one_buffer.prog_ok_def two_buffers.prog_ok_def)
qed

end
