(* ===== verification/Bpf_Properties.thy ===== *)
theory Bpf_Properties
  imports Bpf_Two_Buffers
begin

text \<open>
  The properties of the filtering machine and of its validator
  (\<open>packetNtx/driver/win_bpf_filter.c\<close>): what acceptance by \<open>bpf_validate\<close> means and
  guarantees, that a run of an accepted filter is one pass forward over the program, what its result
  depends on, and how far \<open>bpf_filter_with_2_buffers\<close> computes the same function. The sample
  filters at the beginning are the ones the witnesses run.
\<close>

section \<open>Sample filters and packets\<close>

text \<open>The program of the capture filter "ip" on Ethernet: accept 96 bytes of a 0x800 frame.\<close>

definition ip_filter :: "bpf_insn list" where
  "ip_filter = [
     \<lparr>code = 0x28, jt = 0, jf = 0, k = 12\<rparr>,
     \<lparr>code = 0x15, jt = 0, jf = 1, k = 0x800\<rparr>,
     \<lparr>code = 0x06, jt = 0, jf = 0, k = 96\<rparr>,
     \<lparr>code = 0x06, jt = 0, jf = 0, k = 0\<rparr>]"

definition ip_frame :: "u8 list" where
  "ip_frame = replicate 12 0 @ [8, 0, 0x45, 0]"

definition ip_packet :: packet where
  "ip_packet = \<lparr>pkt_bytes = ip_frame, wirelen = 60, buflen = 16\<rparr>"

text \<open>The same frame as NDIS may deliver it: the MAC header in one buffer, the rest in another.\<close>

definition ip_packet2 :: packet2 where
  "ip_packet2 = \<lparr>p_bytes = take 14 ip_frame, pd_bytes = drop 14 ip_frame, headersize = 14,
     wirelen2 = 60, buflen2 = 16\<rparr>"

text \<open>A program that accepts by the word at offset 12, two bytes before the boundary.\<close>

definition straddle_filter :: "bpf_insn list" where
  "straddle_filter = [
     \<lparr>code = 0x20, jt = 0, jf = 0, k = 12\<rparr>,
     \<lparr>code = 0x16, jt = 0, jf = 0, k = 0\<rparr>]"

text \<open>A program that shifts by 32, which \<open>bpf_validate\<close> does not reject.\<close>

definition shift_filter :: "bpf_insn list" where
  "shift_filter = [
     \<lparr>code = 0x64, jt = 0, jf = 0, k = 32\<rparr>,
     \<lparr>code = 0x16, jt = 0, jf = 0, k = 0\<rparr>]"

lemmas samples = ip_filter_def ip_frame_def ip_packet_def ip_packet2_def straddle_filter_def
  shift_filter_def

lemma sample_valid [simp]:
  "bpf_validate ip_filter" "bpf_validate straddle_filter" "bpf_validate shift_filter"
  by code_simp+

lemma sample_wf [simp]: "packet_wf ip_packet" "packet2_wf ip_packet2"
  by (simp_all add: packet_wf_def packet2_wf_def samples)

lemma ip_filter_agrees: "prog_agrees ip_packet2 ip_filter"
proof -
  have "bpf_decode 0x28 = Some (Load LD_H_ABS)" "bpf_decode 0x15 = Some (Jump JEQ_K)"
    "bpf_decode 6 = Some (Ret RET_K)"
    by code_simp+
  then show ?thesis
    by (simp add: prog_agrees_def samples static_agrees_def offset_agrees_def)
qed

lemma sample_lengths [simp]:
  "length ip_filter = 4" "length straddle_filter = 2" "length shift_filter = 2"
  by (simp_all add: samples)

section \<open>Shared consequences of acceptance\<close>

lemma validated:
  assumes "bpf_validate f" and "length f < 2147483648"
  shows "prog_valid f" and "one_buffer.prog_ok q f" and "0 < length f"
  using assms bpf_validate_iff [of f] prog_valid_ok [of f q] by (auto simp: prog_valid_def)

lemma init_simps [simp]:
  "bpc bpf_init = 0" "length (scratch bpf_init) = BPF_MEMWORDS"
  by (simp_all add: bpf_init_def)

lemma validated_faults:
  assumes "bpf_validate f" and "length f < 2147483648" and "packet_wf q"
    and "bpf_filter (Some f) q = Inl e"
  shows "e = Bad_Shift"
  by (rule one_buffer.run_safe [OF assms(3) validated(2) [OF assms(1,2)], of bpf_init])
    (use assms validated(3) [OF assms(1,2)] in \<open>simp_all add: bpf_filter_def\<close>)

definition shifts_ok :: "bpf_insn list \<Rightarrow> bool" where
  "shifts_ok f \<longleftrightarrow> (\<forall>p \<in> set f. case bpf_decode (code p) of
      Some (Alu LSH_X) \<Rightarrow> False | Some (Alu RSH_X) \<Rightarrow> False
    | Some (Alu LSH_K) \<Rightarrow> k p < 32 | Some (Alu RSH_K) \<Rightarrow> k p < 32
    | _ \<Rightarrow> True)"

lemma alu_shift_fault:
  assumes "bpf_alu a kv v x = Crash Bad_Shift"
  shows "a \<in> {LSH_X, RSH_X} \<or> a \<in> {LSH_K, RSH_K} \<and> \<not> kv < 32"
  using assms by (cases a) (auto simp: shift_left_def shift_right_def split: if_splits)

lemma load_never_shifts: "bpf_load q l ins s \<noteq> Crash Bad_Shift"
  by (cases l) (auto simp: Let_def load_A_def load_byte_A_def load_msh_def split: option.splits)

lemma step_shift_fault:
  assumes "bpf_step (bpf_load q) ins s = Crashed Bad_Shift"
  shows "\<not> shifts_ok [ins]"
proof (cases "bpf_decode (code ins)")
  case None
  with assms show ?thesis by (simp add: bpf_step_def)
next
  case (Some op)
  with assms show ?thesis
  proof (cases op)
    case (Alu a)
    with assms Some have "bpf_alu a (k ins) (regA s) (regX s) = Crash Bad_Shift"
      by (simp add: bpf_step_def apply_effect_Crashed)
    from alu_shift_fault [OF this] Some Alu show ?thesis
      by (auto simp: shifts_ok_def)
  next
    case (Ret r)
    with assms Some show ?thesis by (cases r) (auto simp: bpf_step_def)
  next
    case (Misc m)
    with assms Some show ?thesis by (cases m) (auto simp: bpf_step_def)
  qed (auto simp: bpf_step_def apply_effect_Crashed load_never_shifts split: option.splits)
qed

lemma loop_shift_fault:
  assumes "bpf_loop (bpf_load q) f s = Some r" and "r = Inl Bad_Shift"
  shows "\<not> shifts_ok f"
  using assms
proof (induction rule: bpf_loop_induct)
  case (faults s g)
  then have "\<not> shifts_ok [f ! bpc s]"
    by (intro step_shift_fault) simp
  with faults(1) show ?case by (force simp: shifts_ok_def)
qed simp_all

lemma run_shift_fault: "bpf_run (bpf_load q) f s = Inl Bad_Shift \<Longrightarrow> \<not> shifts_ok f"
  by (auto simp: bpf_run_def dest: loop_shift_fault split: option.splits)

text \<open>
  One unconditional jump by \<open>2 ^ 32 - 1\<close> instructions: the pointer comes back to the jump, and
  the sum in the check of \<open>bpf_validate\<close> wraps to 0.
\<close>

definition jump_back_filter :: "bpf_insn list" where
  "jump_back_filter = [
     \<lparr>code = 0x05, jt = 0, jf = 0, k = 0xffffffff\<rparr>,
     \<lparr>code = 0x16, jt = 0, jf = 0, k = 0\<rparr>]"

lemma jump_back_step:
  assumes "bpc s = 0"
  shows "bpf_step ld (jump_back_filter ! 0) s = Next (s\<lparr>bpc := 4294967296\<rparr>)"
    and "wrap_pc (length jump_back_filter) (s\<lparr>bpc := 4294967296\<rparr>) = s"
proof -
  have "bpf_decode 5 = Some (Jump JMP_JA)" by code_simp
  with assms show "bpf_step ld (jump_back_filter ! 0) s = Next (s\<lparr>bpc := 4294967296\<rparr>)"
    by (simp add: bpf_step_def jump_back_filter_def bpf_jump_def)
  show "wrap_pc (length jump_back_filter) (s\<lparr>bpc := 4294967296\<rparr>) = s"
    using assms by (cases s) (simp add: wrap_pc_def jump_back_filter_def)
qed

lemma jump_back_never_ends: "bpc s = 0 \<Longrightarrow> bpf_loop ld jump_back_filter s \<noteq> Some r"
proof
  assume "bpf_loop ld jump_back_filter s = Some r" and "bpc s = 0"
  then show False
    by (induction rule: bpf_loop_induct)
      (auto simp: jump_back_step, simp add: jump_back_filter_def)
qed

section \<open>Properties\<close>

text \<open>C1: \<open>bpf_validate\<close> accepts exactly the programs that are not empty, end in a return, use
  only known opcodes, keep every jump target inside the program and every scratch index below
  BPF_MEMWORDS, and never divide by the constant 0; the 32-bit sums in its jump checks do not
  wrap unnoticed.\<close>

theorem bpf_validate_exact:
  assumes "length f < 2147483648"
  shows "bpf_validate f \<longleftrightarrow> prog_valid f"
  using assms by (rule bpf_validate_iff)

theorem bpf_validate_exact_witness: "prog_valid ip_filter"
  using bpf_validate_exact [of ip_filter] by simp

text \<open>C2: an accepted filter run on any well-formed packet never reads outside the packet, the
  scratch memory or the program and never divides by zero: the only undefined behaviour left
  is a shift by 32 or more.\<close>

theorem validated_filter_safe:
  assumes "bpf_validate f" and "length f < 2147483648" and "packet_wf q"
  shows "bpf_filter (Some f) q = Inl e \<Longrightarrow> e = Bad_Shift"
  using assms by (intro validated_faults) auto

theorem validated_filter_safe_witness:
  "\<exists>e. bpf_filter (Some shift_filter) ip_packet = Inl e \<and> e = Bad_Shift"
proof -
  have "bpf_filter (Some shift_filter) ip_packet = Inl Bad_Shift"
    by code_simp
  then obtain e where e: "bpf_filter (Some shift_filter) ip_packet = Inl e" by blast
  have "e = Bad_Shift"
    by (rule validated_filter_safe [OF _ _ _ e]) simp_all
  with e show ?thesis by blast
qed

text \<open>C3: an accepted filter whose shift instructions use constants below 32 returns a snapshot
  length on every well-formed packet.\<close>

theorem validated_filter_returns:
  assumes "bpf_validate f" and "length f < 2147483648" and "packet_wf q" and "shifts_ok f"
  shows "\<exists>v. bpf_filter (Some f) q = Inr v"
proof (cases "bpf_filter (Some f) q")
  case (Inl e)
  with validated_faults [OF assms(1-3)] run_shift_fault [of q f bpf_init] assms(4)
  show ?thesis by (auto simp: bpf_filter_def)
qed simp

theorem validated_filter_returns_witness: "\<exists>v. bpf_filter (Some ip_filter) ip_packet = Inr v"
proof -
  have "shifts_ok ip_filter" by code_simp
  then show ?thesis using validated_filter_returns [of ip_filter ip_packet] by simp
qed

text \<open>C4: a run of an accepted filter on a well-formed packet goes forward: it executes
  instructions of strictly increasing index inside the program, each at most once, so it takes
  at most as many steps as the program has instructions. This is what the jump checks of
  \<open>bpf_validate\<close> buy: the jump pointer wraps, and \<open>jump_back_never_returns\<close> below is a
  program they refuse.\<close>

theorem filter_runs_forward:
  assumes "bpf_validate f" and "length f < 2147483648" and "packet_wf q"
    and "bpf_trace (bpf_load q) f bpf_init ns"
  shows "sorted_wrt (<) ns \<and> set ns \<subseteq> {..<length f} \<and> length ns \<le> length f"
proof -
  have "sorted_wrt (<) ns" and sub: "set ns \<subseteq> {..<length f}"
    using one_buffer.trace_forward [OF assms(4,3) validated(2) [OF assms(1,2)]]
      validated(3) [OF assms(1,2)] by auto
  moreover from this have "length ns = card (set ns)"
    by (simp add: strict_sorted_iff distinct_card)
  then have "length ns \<le> length f"
    using card_mono [OF _ sub] by simp
  ultimately show ?thesis by blast
qed

theorem filter_runs_forward_witness:
  "\<exists>ns. bpf_trace (bpf_load ip_packet) ip_filter bpf_init ns \<and> length ns = 3 \<and> sorted_wrt (<) ns"
proof -
  let ?ld = "bpf_load ip_packet"
  have s: "bpf_step ?ld (ip_filter ! 0) bpf_init = Next (bpf_init\<lparr>regA := 2048, bpc := 1\<rparr>)"
      "bpf_step ?ld (ip_filter ! 1) (bpf_init\<lparr>regA := 2048, bpc := 1\<rparr>) =
        Next (bpf_init\<lparr>regA := 2048, bpc := 2\<rparr>)"
    by code_simp+
  have "bpf_trace ?ld ip_filter bpf_init [0, 1, 2]"
    using bpf_trace.further [of bpf_init ip_filter ?ld] s
      bpf_trace.further [of "bpf_init\<lparr>regA := 2048, bpc := 1\<rparr>" ip_filter ?ld]
      bpf_trace.final [of "bpf_init\<lparr>regA := 2048, bpc := 2\<rparr>" ip_filter ?ld]
    by simp
  with filter_runs_forward [of ip_filter ip_packet "[0, 1, 2]"] show ?thesis by fastforce
qed

text \<open>A program that is not validated can come back: from the one whose jump wraps the pointer,
  and the sum in the jump check as well, \<open>bpf_filter\<close> returns on no packet, and
  \<open>bpf_validate\<close> refuses it.\<close>

theorem jump_back_never_returns:
  "\<not> bpf_validate jump_back_filter \<and>
   bpf_filter (Some jump_back_filter) q = Inl Never_Returns"
proof -
  have "bpf_loop (bpf_load q) jump_back_filter bpf_init = None"
    using jump_back_never_ends [of bpf_init "bpf_load q"] by fastforce
  moreover have "\<not> bpf_validate jump_back_filter" by code_simp
  ultimately show ?thesis
    by (simp add: bpf_filter_def bpf_run_def)
qed

text \<open>The verdict of a filter depends only on the captured bytes below \<open>buflen\<close> and on the
  two lengths, never on what lies after them in memory.\<close>

theorem filter_noninterference:
  assumes "packet_wf q" and "packet_wf r" and "buflen q = buflen r" and "wirelen q = wirelen r"
    and "take (unat (buflen q)) (pkt_bytes q) = take (unat (buflen q)) (pkt_bytes r)"
  shows "bpf_filter pc q = bpf_filter pc r"
proof -
  have "bpf_load q = bpf_load r"
    using bpf_load_same [OF assms] by (intro ext)
  then show ?thesis by (simp add: bpf_filter_def split: option.splits)
qed

theorem filter_noninterference_witness:
  "bpf_filter (Some ip_filter) ip_packet =
   bpf_filter (Some ip_filter) (ip_packet\<lparr>pkt_bytes := ip_frame @ [1, 2, 3]\<rparr>)"
  by (rule filter_noninterference) (simp_all add: packet_wf_def samples)

text \<open>C5: on a packet delivered in two buffers, \<open>bpf_filter_with_2_buffers\<close> returns what
  \<open>bpf_filter\<close> returns on the joined packet whenever every load the run executes has an offset
  that is not negative as an \<open>int\<close> and does not start two or three bytes (word) or one byte
  (half word) before the boundary of the buffers.\<close>

theorem two_buffers_equivalent:
  assumes "packet2_wf q"
    and "\<And>t l. bpf_reach (bpf_load2 q) f bpf_init t \<Longrightarrow> bpc t < length f \<Longrightarrow>
      bpf_decode (code (f ! bpc t)) = Some (Load l) \<Longrightarrow> load_agrees q l (f ! bpc t) t"
  shows "bpf_filter_with_2_buffers (Some f) q = bpf_filter (Some f) (join_buffers q)"
proof -
  have "bpf_run (bpf_load2 q) f bpf_init = bpf_run (bpf_load (join_buffers q)) f bpf_init"
    by (rule bpf_run_agree) (rule load_agree_dynamic [OF assms(1)], rule assms(2))
  then show ?thesis by (simp add: bpf_filter_with_2_buffers_def bpf_filter_def)
qed

theorem two_buffers_equivalent_witness:
  "bpf_filter_with_2_buffers (Some ip_filter) ip_packet2 =
   bpf_filter (Some ip_filter) (join_buffers ip_packet2)"
  by (intro two_buffers_equivalent prog_agrees_load) (simp_all add: ip_filter_agrees)

text \<open>An accepted filter whose absolute loads avoid those offsets, and that has no indirect
  load, is as safe on two buffers as on one.\<close>

theorem two_buffers_safe:
  assumes "bpf_validate f" and "length f < 2147483648" and "packet2_wf q" and "prog_agrees q f"
  shows "bpf_filter_with_2_buffers (Some f) q = Inl e \<Longrightarrow> e = Bad_Shift"
  by (rule two_buffers.run_safe [OF assms(3) prog_agrees_ok, of f bpf_init])
    (use assms validated(1,3) [OF assms(1,2)] in \<open>simp_all add: bpf_filter_with_2_buffers_def\<close>)

theorem two_buffers_safe_witness:
  "\<exists>e. bpf_filter_with_2_buffers (Some shift_filter) ip_packet2 = Inl e \<and> e = Bad_Shift"
proof -
  have "bpf_filter_with_2_buffers (Some shift_filter) ip_packet2 = Inl Bad_Shift"
    by code_simp
  then obtain e where e: "bpf_filter_with_2_buffers (Some shift_filter) ip_packet2 = Inl e"
    by blast
  have "prog_agrees ip_packet2 shift_filter"
  proof -
    have "bpf_decode 0x64 = Some (Alu LSH_K)" "bpf_decode 0x16 = Some (Ret RET_A)"
      by code_simp+
    then show ?thesis by (simp add: prog_agrees_def shift_filter_def)
  qed
  then have "e = Bad_Shift"
    by (intro two_buffers_safe [OF _ _ _ _ e]) simp_all
  with e show ?thesis by blast
qed

text \<open>The excluded offsets are really excluded: a word load inside the packet that starts
  two or three bytes before the boundary makes \<open>bpf_filter_with_2_buffers\<close> read in front of
  the second buffer, although \<open>bpf_filter\<close> reads the joined packet correctly.\<close>

theorem straddling_word_reads_outside:
  assumes "packet2_wf q" and "code ins = BPF_LD OR BPF_W OR BPF_ABS"
    and "unat (k ins) + 4 \<le> unat (buflen2 q)"
    and "unat (k ins) + 2 = unat (headersize q) \<or> unat (k ins) + 3 = unat (headersize q)"
  shows "bpf_step (bpf_load2 q) ins s = Crashed Bad_Read \<and>
    (\<exists>v. bpf_step (bpf_load (join_buffers q)) ins s = Next (s\<lparr>regA := v, bpc := Suc (bpc s)\<rparr>))"
proof -
  have "BPF_LD OR BPF_W OR BPF_ABS = load_code LD_W_ABS" by simp
  then have dec: "bpf_decode (code ins) = Some (Load LD_W_ABS)"
    using assms(2) by (simp only: bpf_decode_labels)
  obtain i h b where i: "unat (k ins) = i" and h: "unat (headersize q) = h"
    and b: "unat (buflen2 q) = b" by simp
  have small: "i < 2147483644" and lo: "i + 4 \<le> b" and str: "i + 2 = h \<or> i + 3 = h"
    using assms by (auto simp: packet2_wf_def i h b)
  note facts = i sint_offset [OF i small] offset_eq_iff [OF i small h]
    header_sint [OF assms(1) h] buflen_sint [OF assms(1) b]
  have none: "compose32 a b' (peek_int pd (int i - int h)) c = None"
      "compose32 a b' c (peek_int pd (int i - int h)) = None" for a b' pd c
    using str by (auto simp: compose32_def peek_int_def split: option.splits)
  have two: "extract_long2 q (k ins) = None"
    unfolding extract_long2_def Let_def facts(2-) using str none by auto
  have "buflen2 q \<le> k ins \<or> buflen2 q < k ins + 4 \<longleftrightarrow> False"
    using guards_agree(1) [OF assms(1), of "k ins"] small lo facts i by simp
  moreover have "i + 4 \<le> length (pkt_bytes (join_buffers q))"
    using join_wf [OF assms(1)] lo b by (simp add: packet_wf_def join_buffers_def)
  ultimately show ?thesis
    using dec two lo extract_long_safe [of i "pkt_bytes (join_buffers q)"]
    by (auto simp: bpf_step_def Let_def facts load_A_def join_buffers_def)
qed

theorem straddling_word_reads_outside_witness:
  "bpf_validate straddle_filter \<and>
   bpf_step (bpf_load2 ip_packet2) (hd straddle_filter) bpf_init = Crashed Bad_Read"
proof -
  have "code (hd straddle_filter) = BPF_LD OR BPF_W OR BPF_ABS"
    "k (hd straddle_filter) = 12" "unat (buflen2 ip_packet2) = 16" "unat (headersize ip_packet2) = 14"
    by (simp_all add: samples)
  with straddling_word_reads_outside [of ip_packet2 "hd straddle_filter" bpf_init]
  show ?thesis by simp
qed

end
