(* ===== verification/X86.thy ===== *)
theory X86
  imports Prelude
begin

text \<open>
  The processor that runs the code of the filter compiler: the instructions of the IA-32
  instruction set that the macros of \<open>packetNtx/driver/jitter.h\<close> emit, decoded from bytes
  (opcode, ModR/M, SIB, displacement, immediate) and executed on registers, flags and a
  partial byte memory. An instruction that is not decoded, an access to an unmapped byte, a
  divide error and a conditional jump on flags the model leaves undefined are faults.
  Flags are kept only after CMP and AND, the only instructions whose flags the compiler
  tests. The code is fetched from its own byte list: it is never written.
\<close>

section \<open>Registers, memory and instructions\<close>

datatype reg = EAX | ECX | EDX | EBX | ESP | EBP | ESI | EDI

definition reg_list :: "reg list" where
  "reg_list = [EAX, ECX, EDX, EBX, ESP, EBP, ESI, EDI]"

definition reg_of :: "u8 \<Rightarrow> reg" where
  "reg_of b = reg_list ! unat (b AND 7)"

datatype addr = Base_Disp reg u8 | Base_Index reg reg

datatype binop = ADD | OR_op | AND_op | SUB | CMP

datatype cond = C_E | C_NE | C_A | C_AE | C_B | C_BE | C_G | C_GE | C_LE

datatype x86_insn = MOV_RI reg u32 | MOV_RR reg reg | MOV_RM reg addr | MOV16_RM reg addr
  | MOV8_RM reg addr | MOV_MR addr reg | BSWAP_R reg | XCHG_AL_AH | PUSH_R reg | POP_R reg
  | RETN | BIN_RR binop reg reg | BIN_RI binop reg u32 | BIN_RM binop reg addr
  | AND8_RI reg u8 | MUL_R reg | DIV_R reg | NEG_R reg
  | SHL_RI reg u8 | SHR_RI reg u8 | SHL_CL reg | SHR_CL reg | JCC cond int | JMP_REL int

record flags =
  zf :: bool
  cf :: bool
  sf :: bool
  ovf :: bool

type_synonym memory = "u32 \<Rightarrow> u8 option"

record cpu =
  regs :: "reg \<Rightarrow> u32"
  flg :: "flags option"
  ram :: memory
  ip :: nat

datatype xout = Running cpu | Returned u32 cpu | Fault

definition read32 :: "memory \<Rightarrow> u32 \<Rightarrow> u32 option" where
  "read32 m a =
     (case (m a, m (a + 1), m (a + 2), m (a + 3)) of
        (Some b0, Some b1, Some b2, Some b3) \<Rightarrow> Some (le32 b0 b1 b2 b3)
      | _ \<Rightarrow> None)"

definition read16 :: "memory \<Rightarrow> u32 \<Rightarrow> u32 option" where
  "read16 m a = (case (m a, m (a + 1)) of (Some b0, Some b1) \<Rightarrow> Some (be16 b1 b0) | _ \<Rightarrow> None)"

definition write32 :: "memory \<Rightarrow> u32 \<Rightarrow> u32 \<Rightarrow> memory option" where
  "write32 m a v =
     (if m a \<noteq> None \<and> m (a + 1) \<noteq> None \<and> m (a + 2) \<noteq> None \<and> m (a + 3) \<noteq> None
      then Some (m(a \<mapsto> ucast v, a + 1 \<mapsto> ucast (drop_bit 8 v),
                   a + 2 \<mapsto> ucast (drop_bit 16 v), a + 3 \<mapsto> ucast (drop_bit 24 v)))
      else None)"

section \<open>Decoding\<close>

datatype modrm = Reg_Form reg reg | Mem_Form reg addr nat

text \<open>
  The addressing forms: a register, a base register with an 8-bit displacement, and a base
  register plus an index register without scale or displacement. Encodings that mean
  something else (no index, no base, SIB after a displacement form) are not decoded.
\<close>

definition decode_modrm :: "u8 list \<Rightarrow> modrm option" where
  "decode_modrm bs =
     (case bs of
        [] \<Rightarrow> None
      | b # r \<Rightarrow>
         (let md = drop_bit 6 b; g = reg_of (drop_bit 3 b); rm = reg_of b in
          if md = 3 then Some (Reg_Form g rm)
          else if md = 1 \<and> rm \<noteq> ESP then
            (case r of d # _ \<Rightarrow> Some (Mem_Form g (Base_Disp rm d) 2) | [] \<Rightarrow> None)
          else if md = 0 \<and> rm = ESP then
            (case r of [] \<Rightarrow> None
             | sib # _ \<Rightarrow>
                (let sc = drop_bit 6 sib; ix = reg_of (drop_bit 3 sib); bs' = reg_of sib in
                 if sc = 0 \<and> ix \<noteq> ESP \<and> bs' \<noteq> EBP
                 then Some (Mem_Form g (Base_Index bs' ix) 2) else None))
          else None))"

definition imm32 :: "u8 list \<Rightarrow> u32 option" where
  "imm32 bs = (if 4 \<le> length bs then Some (le32_of bs) else None)"

definition decode_rr :: "(reg \<Rightarrow> reg \<Rightarrow> x86_insn) \<Rightarrow> (reg \<Rightarrow> addr \<Rightarrow> x86_insn) \<Rightarrow> u8 list \<Rightarrow>
    (x86_insn \<times> nat) option" where
  "decode_rr f g bs =
     (case decode_modrm bs of
        Some (Reg_Form d s) \<Rightarrow> Some (f d s, 2)
      | Some (Mem_Form d a n) \<Rightarrow> Some (g d a, 1 + n)
      | None \<Rightarrow> None)"

definition decode_mem :: "(reg \<Rightarrow> addr \<Rightarrow> x86_insn) \<Rightarrow> u8 list \<Rightarrow> (x86_insn \<times> nat) option" where
  "decode_mem g bs =
     (case decode_modrm bs of Some (Mem_Form d a n) \<Rightarrow> Some (g d a, 1 + n) | _ \<Rightarrow> None)"

text \<open>A group opcode: the middle field of ModR/M selects the operation, the operand is a register.\<close>

definition decode_group :: "u8 list \<Rightarrow> (u8 \<times> reg \<times> u8 list) option" where
  "decode_group bs =
     (case bs of
        [] \<Rightarrow> None
      | b # r \<Rightarrow> if drop_bit 6 b = 3 then Some (drop_bit 3 b AND 7, reg_of b, r) else None)"

definition with_imm32 :: "(u32 \<Rightarrow> x86_insn) \<Rightarrow> nat \<Rightarrow> u8 list \<Rightarrow> (x86_insn \<times> nat) option" where
  "with_imm32 f n bs = map_option (\<lambda>i. (f i, n + 4)) (imm32 bs)"

definition with_imm8 :: "(u8 \<Rightarrow> x86_insn) \<Rightarrow> nat \<Rightarrow> u8 list \<Rightarrow> (x86_insn \<times> nat) option" where
  "with_imm8 f n bs = (case bs of [] \<Rightarrow> None | b # _ \<Rightarrow> Some (f b, n + 1))"

definition group1_op :: "u8 \<Rightarrow> binop option" where
  "group1_op g = (if g = 0 then Some ADD else if g = 1 then Some OR_op
     else if g = 4 then Some AND_op else if g = 5 then Some SUB
     else if g = 7 then Some CMP else None)"

definition cond_of :: "u8 \<Rightarrow> cond option" where
  "cond_of b = (let c = b AND 15 in
     if c = 2 then Some C_B else if c = 3 then Some C_AE else if c = 4 then Some C_E
     else if c = 5 then Some C_NE else if c = 6 then Some C_BE else if c = 7 then Some C_A
     else if c = 13 then Some C_GE else if c = 14 then Some C_LE
     else if c = 15 then Some C_G else None)"

definition decode_f7 :: "u8 list \<Rightarrow> (x86_insn \<times> nat) option" where
  "decode_f7 bs =
     (case decode_group bs of None \<Rightarrow> None
      | Some (g, r, _) \<Rightarrow>
          if g = 3 then Some (NEG_R r, 2) else if g = 4 then Some (MUL_R r, 2)
          else if g = 6 then Some (DIV_R r, 2) else None)"

definition decode_shift :: "(reg \<Rightarrow> u8 list \<Rightarrow> (x86_insn \<times> nat) option) \<Rightarrow>
    (reg \<Rightarrow> u8 list \<Rightarrow> (x86_insn \<times> nat) option) \<Rightarrow> u8 list \<Rightarrow> (x86_insn \<times> nat) option" where
  "decode_shift l r bs =
     (case decode_group bs of None \<Rightarrow> None
      | Some (g, d, rest) \<Rightarrow> if g = 4 then l d rest else if g = 5 then r d rest else None)"

definition decode_group1 :: "(binop \<Rightarrow> reg \<Rightarrow> u8 list \<Rightarrow> (x86_insn \<times> nat) option) \<Rightarrow> u8 list \<Rightarrow>
    (x86_insn \<times> nat) option" where
  "decode_group1 f bs =
     (case decode_group bs of None \<Rightarrow> None
      | Some (g, d, rest) \<Rightarrow> (case group1_op g of None \<Rightarrow> None | Some b \<Rightarrow> f b d rest))"

definition decode_0f :: "u8 list \<Rightarrow> (x86_insn \<times> nat) option" where
  "decode_0f bs =
     (case bs of [] \<Rightarrow> None
      | b # r \<Rightarrow>
          if b AND 0xf8 = 0xc8 then Some (BSWAP_R (reg_of b), 2)
          else if b AND 0xf0 = 0x80 then
            (case cond_of b of None \<Rightarrow> None
             | Some c \<Rightarrow> with_imm32 (\<lambda>i. JCC c (sint i)) 2 r)
          else None)"

definition x86_decode :: "u8 list \<Rightarrow> (x86_insn \<times> nat) option" where
  "x86_decode bs =
     (case bs of [] \<Rightarrow> None
      | b # r \<Rightarrow>
          if b AND 0xf8 = 0xb8 then with_imm32 (MOV_RI (reg_of b)) 1 r
          else if b AND 0xf8 = 0x50 then Some (PUSH_R (reg_of b), 1)
          else if b AND 0xf8 = 0x58 then Some (POP_R (reg_of b), 1)
          else if b = 0xc3 then Some (RETN, 1)
          else if b = 0x8b then decode_rr MOV_RR MOV_RM r
          else if b = 0x8a then decode_mem MOV8_RM r
          else if b = 0x89 then decode_mem (\<lambda>s a. MOV_MR a s) r
          else if b = 0x66 then
            (case r of o2 # r2 \<Rightarrow> if o2 = 0x8b
               then map_option (\<lambda>(i, n). (i, n + 1)) (decode_mem MOV16_RM r2) else None
             | [] \<Rightarrow> None)
          else if b = 0x86 then
            (case r of m # _ \<Rightarrow> if m = 0xc4 then Some (XCHG_AL_AH, 2) else None | [] \<Rightarrow> None)
          else if b = 0x03 then decode_rr (BIN_RR ADD) (BIN_RM ADD) r
          else if b = 0x0b then decode_rr (BIN_RR OR_op) (BIN_RM OR_op) r
          else if b = 0x23 then decode_rr (BIN_RR AND_op) (BIN_RM AND_op) r
          else if b = 0x2b then decode_rr (BIN_RR SUB) (BIN_RM SUB) r
          else if b = 0x3b then decode_rr (BIN_RR CMP) (BIN_RM CMP) r
          else if b = 0x05 then with_imm32 (BIN_RI ADD EAX) 1 r
          else if b = 0x0d then with_imm32 (BIN_RI OR_op EAX) 1 r
          else if b = 0x25 then with_imm32 (BIN_RI AND_op EAX) 1 r
          else if b = 0x2d then with_imm32 (BIN_RI SUB EAX) 1 r
          else if b = 0x3d then with_imm32 (BIN_RI CMP EAX) 1 r
          else if b = 0x81 then
            decode_group1 (\<lambda>oper d r2. with_imm32 (BIN_RI oper d) 2 r2) r
          else if b = 0x83 then
            decode_group1 (\<lambda>oper d r2. with_imm8 (\<lambda>i. BIN_RI oper d (scast i)) 2 r2) r
          else if b = 0x80 then
            (case decode_group r of None \<Rightarrow> None
             | Some (g, d, r2) \<Rightarrow> if g = 4 \<and> d \<in> {EAX, ECX, EDX, EBX}
                 then with_imm8 (AND8_RI d) 2 r2 else None)
          else if b = 0xf7 then decode_f7 r
          else if b = 0xc1 then
            decode_shift (\<lambda>d. with_imm8 (SHL_RI d) 2) (\<lambda>d. with_imm8 (SHR_RI d) 2) r
          else if b = 0xd3 then
            decode_shift (\<lambda>d _. Some (SHL_CL d, 2)) (\<lambda>d _. Some (SHR_CL d, 2)) r
          else if b AND 0xf0 = 0x70 then
            (case cond_of b of None \<Rightarrow> None
             | Some c \<Rightarrow> with_imm8 (\<lambda>i. JCC c (sint i)) 1 r)
          else if b = 0x0f then decode_0f r
          else if b = 0xe9 then with_imm32 (\<lambda>i. JMP_REL (sint i)) 1 r
          else None)"

section \<open>Execution\<close>

definition ea :: "cpu \<Rightarrow> addr \<Rightarrow> u32" where
  "ea c a = (case a of Base_Disp b d \<Rightarrow> regs c b + scast d | Base_Index b i \<Rightarrow> regs c b + regs c i)"

definition set_reg :: "reg \<Rightarrow> u32 \<Rightarrow> cpu \<Rightarrow> cpu" where
  "set_reg r v c = c\<lparr>regs := (regs c)(r := v)\<rparr>"

definition load_reg :: "reg \<Rightarrow> u32 option \<Rightarrow> cpu \<Rightarrow> xout" where
  "load_reg r v c = (case v of None \<Rightarrow> Fault | Some w \<Rightarrow> Running (set_reg r w c))"

definition set_low8 :: "u32 \<Rightarrow> u8 \<Rightarrow> u32" where
  "set_low8 w b = (w AND 0xffffff00) OR ucast b"

definition set_low16 :: "u32 \<Rightarrow> u32 \<Rightarrow> u32" where
  "set_low16 w v = (w AND 0xffff0000) OR (v AND 0xffff)"

definition bswap :: "u32 \<Rightarrow> u32" where
  "bswap w = be32 (ucast w) (ucast (drop_bit 8 w)) (ucast (drop_bit 16 w)) (ucast (drop_bit 24 w))"

definition xchg_al_ah :: "u32 \<Rightarrow> u32" where
  "xchg_al_ah w = (w AND 0xffff0000) OR be16 (ucast w) (ucast (drop_bit 8 w))"

definition cmp_flags :: "u32 \<Rightarrow> u32 \<Rightarrow> flags" where
  "cmp_flags a b = \<lparr>zf = (a = b), cf = (a < b), sf = (sint (a - b) < 0),
     ovf = (sint (a - b) \<noteq> sint a - sint b)\<rparr>"

definition and_flags :: "u32 \<Rightarrow> flags" where
  "and_flags r = \<lparr>zf = (r = 0), cf = False, sf = (sint r < 0), ovf = False\<rparr>"

primrec cond_holds :: "cond \<Rightarrow> flags \<Rightarrow> bool" where
  "cond_holds C_E f = zf f"
| "cond_holds C_NE f = (\<not> zf f)"
| "cond_holds C_A f = (\<not> cf f \<and> \<not> zf f)"
| "cond_holds C_AE f = (\<not> cf f)"
| "cond_holds C_B f = cf f"
| "cond_holds C_BE f = (cf f \<or> zf f)"
| "cond_holds C_G f = (\<not> zf f \<and> sf f = ovf f)"
| "cond_holds C_GE f = (sf f = ovf f)"
| "cond_holds C_LE f = (zf f \<or> sf f \<noteq> ovf f)"

primrec bin_exec :: "binop \<Rightarrow> reg \<Rightarrow> u32 \<Rightarrow> cpu \<Rightarrow> cpu" where
  "bin_exec ADD d v c = set_reg d (regs c d + v) (c\<lparr>flg := None\<rparr>)"
| "bin_exec OR_op d v c = set_reg d (regs c d OR v) (c\<lparr>flg := None\<rparr>)"
| "bin_exec AND_op d v c = set_reg d (regs c d AND v) (c\<lparr>flg := Some (and_flags (regs c d AND v))\<rparr>)"
| "bin_exec SUB d v c = set_reg d (regs c d - v) (c\<lparr>flg := None\<rparr>)"
| "bin_exec CMP d v c = c\<lparr>flg := Some (cmp_flags (regs c d) v)\<rparr>"

text \<open>
  \<open>x86_exec i c\<close> executes \<open>i\<close> in a state whose instruction pointer already is the next
  instruction.
\<close>

primrec x86_exec :: "x86_insn \<Rightarrow> cpu \<Rightarrow> xout" where
  "x86_exec (MOV_RI r i) c = Running (set_reg r i c)"
| "x86_exec (MOV_RR d s) c = Running (set_reg d (regs c s) c)"
| "x86_exec (MOV_RM d a) c = load_reg d (read32 (ram c) (ea c a)) c"
| "x86_exec (MOV16_RM d a) c =
     load_reg d (map_option (set_low16 (regs c d)) (read16 (ram c) (ea c a))) c"
| "x86_exec (MOV8_RM d a) c =
     load_reg d (map_option (set_low8 (regs c d)) (ram c (ea c a))) c"
| "x86_exec (MOV_MR a s) c =
     (case write32 (ram c) (ea c a) (regs c s) of None \<Rightarrow> Fault
      | Some m \<Rightarrow> Running (c\<lparr>ram := m\<rparr>))"
| "x86_exec (BSWAP_R r) c = Running (set_reg r (bswap (regs c r)) c)"
| "x86_exec XCHG_AL_AH c = Running (set_reg EAX (xchg_al_ah (regs c EAX)) c)"
| "x86_exec (PUSH_R r) c =
     (case write32 (ram c) (regs c ESP - 4) (regs c r) of None \<Rightarrow> Fault
      | Some m \<Rightarrow> Running (set_reg ESP (regs c ESP - 4) (c\<lparr>ram := m\<rparr>)))"
| "x86_exec (POP_R r) c =
     load_reg r (read32 (ram c) (regs c ESP)) (set_reg ESP (regs c ESP + 4) c)"
| "x86_exec RETN c =
     (case read32 (ram c) (regs c ESP) of None \<Rightarrow> Fault
      | Some a \<Rightarrow> Returned a (set_reg ESP (regs c ESP + 4) c))"
| "x86_exec (BIN_RR b d s) c = Running (bin_exec b d (regs c s) c)"
| "x86_exec (BIN_RI b d i) c = Running (bin_exec b d i c)"
| "x86_exec (BIN_RM b d a) c =
     (case read32 (ram c) (ea c a) of None \<Rightarrow> Fault | Some v \<Rightarrow> Running (bin_exec b d v c))"
| "x86_exec (AND8_RI d i) c =
     Running (set_reg d (set_low8 (regs c d) (ucast (regs c d) AND i)) (c\<lparr>flg := None\<rparr>))"
| "x86_exec (MUL_R r) c =
     Running (set_reg EDX (of_nat ((unat (regs c EAX) * unat (regs c r)) div 2 ^ 32))
       (set_reg EAX (regs c EAX * regs c r) (c\<lparr>flg := None\<rparr>)))"
| "x86_exec (DIV_R r) c =
     (let n = unat (regs c EDX) * 2 ^ 32 + unat (regs c EAX); d = unat (regs c r) in
      if d = 0 \<or> 2 ^ 32 \<le> n div d then Fault
      else Running (set_reg EDX (of_nat (n mod d))
        (set_reg EAX (of_nat (n div d)) (c\<lparr>flg := None\<rparr>))))"
| "x86_exec (NEG_R r) c = Running (set_reg r (- regs c r) (c\<lparr>flg := None\<rparr>))"
| "x86_exec (SHL_RI r i) c =
     Running (set_reg r (push_bit (unat (i AND 31)) (regs c r)) (c\<lparr>flg := None\<rparr>))"
| "x86_exec (SHR_RI r i) c =
     Running (set_reg r (drop_bit (unat (i AND 31)) (regs c r)) (c\<lparr>flg := None\<rparr>))"
| "x86_exec (SHL_CL r) c =
     Running (set_reg r (push_bit (unat (regs c ECX AND 31)) (regs c r)) (c\<lparr>flg := None\<rparr>))"
| "x86_exec (SHR_CL r) c =
     Running (set_reg r (drop_bit (unat (regs c ECX AND 31)) (regs c r)) (c\<lparr>flg := None\<rparr>))"
| "x86_exec (JCC cc d) c =
     (case flg c of None \<Rightarrow> Fault
      | Some f \<Rightarrow> Running (if cond_holds cc f then c\<lparr>ip := nat (int (ip c) + d)\<rparr> else c))"
| "x86_exec (JMP_REL d) c = Running (c\<lparr>ip := nat (int (ip c) + d)\<rparr>)"

definition x86_step :: "u8 list \<Rightarrow> cpu \<Rightarrow> xout" where
  "x86_step cd c =
     (case x86_decode (drop (ip c) cd) of
        None \<Rightarrow> Fault
      | Some (i, n) \<Rightarrow> x86_exec i (c\<lparr>ip := ip c + n\<rparr>))"

fun x86_run :: "u8 list \<Rightarrow> nat \<Rightarrow> cpu \<Rightarrow> xout" where
  "x86_run cd 0 c = Running c"
| "x86_run cd (Suc n) c =
     (case x86_step cd c of Running c' \<Rightarrow> x86_run cd n c' | r \<Rightarrow> r)"

lemma x86_run_add:
  "x86_run cd (m + n) c = (case x86_run cd m c of Running c' \<Rightarrow> x86_run cd n c' | r \<Rightarrow> r)"
  by (induction m arbitrary: c) (auto split: xout.splits)

end
