(* ===== verification/Jit_Macros.thy ===== *)
theory Jit_Macros
  imports X86
begin

text \<open>
  The code-emitting macros of \<open>packetNtx/driver/jitter.h\<close>. A macro expands to calls
  \<open>emitm(&stream, value, len)\<close>; here it is the list of its (value, length) pairs, the value
  written with the shifts of the header. \<open>emission_bytes\<close> is what \<open>emit_code\<close> stores for
  them. Every macro the compiler uses is shown to decode to the instruction its comment
  names, whatever follows it.
\<close>

type_synonym emission = "(u32 \<times> nat) list"

section \<open>The macros\<close>

definition rn :: "reg \<Rightarrow> u32" where
  "rn r = (case r of EAX \<Rightarrow> 0 | ECX \<Rightarrow> 1 | EDX \<Rightarrow> 2 | EBX \<Rightarrow> 3 | ESP \<Rightarrow> 4 | EBP \<Rightarrow> 5 | ESI \<Rightarrow> 6
     | EDI \<Rightarrow> 7)"

text \<open>The 8- and 16-bit names of the first registers share their numbers.\<close>

abbreviation AL :: reg where "AL \<equiv> EAX"
abbreviation DL :: reg where "DL \<equiv> EDX"
abbreviation AX :: reg where "AX \<equiv> EAX"

definition MOVid :: "reg \<Rightarrow> u32 \<Rightarrow> emission" where
  "MOVid r32 i32 = [(push_bit 4 11 OR push_bit 3 1 OR rn r32, 1), (i32, 4)]"

definition MOVrd :: "reg \<Rightarrow> reg \<Rightarrow> emission" where
  "MOVrd dr32 sr32 =
     [(push_bit 4 8 OR 3 OR push_bit 3 1, 1),
        (push_bit 6 3 OR push_bit 3 (rn dr32) OR rn sr32, 1)]"

definition MOVodd :: "reg \<Rightarrow> reg \<Rightarrow> u32 \<Rightarrow> emission" where
  "MOVodd dr32 sr32 off =
     [(push_bit 4 8 OR 3 OR push_bit 3 1, 1),
        (push_bit 6 1 OR push_bit 3 (rn dr32) OR rn sr32, 1), (off, 1)]"

definition MOVobd :: "reg \<Rightarrow> reg \<Rightarrow> reg \<Rightarrow> emission" where
  "MOVobd dr32 sr32 or32 =
     [(push_bit 4 8 OR 3 OR push_bit 3 1, 1), (push_bit 3 (rn dr32) OR 4, 1),
        (push_bit 3 (rn or32) OR rn sr32, 1)]"

definition MOVobw :: "reg \<Rightarrow> reg \<Rightarrow> reg \<Rightarrow> emission" where
  "MOVobw dr32 sr32 or32 =
     [(0x66, 1), (push_bit 4 8 OR 3 OR push_bit 3 1, 1), (push_bit 3 (rn dr32) OR 4, 1),
        (push_bit 3 (rn or32) OR rn sr32, 1)]"

definition MOVobb :: "reg \<Rightarrow> reg \<Rightarrow> reg \<Rightarrow> emission" where
  "MOVobb dr8 sr32 or32 =
     [(0x8a, 1), (push_bit 3 (rn dr8) OR 4, 1), (push_bit 3 (rn or32) OR rn sr32, 1)]"

definition MOVomd :: "reg \<Rightarrow> reg \<Rightarrow> reg \<Rightarrow> emission" where
  "MOVomd dr32 or32 sr32 =
     [(0x89, 1), (push_bit 3 (rn sr32) OR 4, 1), (push_bit 3 (rn or32) OR rn dr32, 1)]"

definition BSWAP :: "reg \<Rightarrow> emission" where
  "BSWAP dr32 = [(0xf, 1), (push_bit 3 0x19 OR rn dr32, 1)]"

definition SWAP_AX :: "emission" where
  "SWAP_AX = [(0x86, 1), (0xc4, 1)]"

definition PUSH :: "reg \<Rightarrow> emission" where
  "PUSH r32 = [(push_bit 4 5 OR push_bit 3 0 OR rn r32, 1)]"

definition POP :: "reg \<Rightarrow> emission" where
  "POP r32 = [(push_bit 4 5 OR push_bit 3 1 OR rn r32, 1)]"

definition RET :: "emission" where
  "RET = [(push_bit 4 12 OR push_bit 3 0 OR 3, 1)]"

definition ADDrd :: "reg \<Rightarrow> reg \<Rightarrow> emission" where
  "ADDrd dr32 sr32 = [(0x03, 1), (push_bit 6 3 OR push_bit 3 (rn dr32) OR rn sr32, 1)]"

definition ADD_EAXi :: "u32 \<Rightarrow> emission" where
  "ADD_EAXi i32 = [(0x05, 1), (i32, 4)]"

definition ADDib :: "reg \<Rightarrow> u32 \<Rightarrow> emission" where
  "ADDib r32 i8 = [(0x83, 1), (push_bit 3 24 OR rn r32, 1), (i8, 1)]"

definition SUBrd :: "reg \<Rightarrow> reg \<Rightarrow> emission" where
  "SUBrd dr32 sr32 = [(0x2b, 1), (push_bit 6 3 OR push_bit 3 (rn dr32) OR rn sr32, 1)]"

definition SUB_EAXi :: "u32 \<Rightarrow> emission" where
  "SUB_EAXi i32 = [(0x2d, 1), (i32, 4)]"

definition MULrd :: "reg \<Rightarrow> emission" where
  "MULrd r32 = [(0xf7, 1), (push_bit 5 7 OR rn r32, 1)]"

definition DIVrd :: "reg \<Rightarrow> emission" where
  "DIVrd r32 = [(0xf7, 1), (push_bit 4 15 OR rn r32, 1)]"

definition ANDib :: "reg \<Rightarrow> u32 \<Rightarrow> emission" where
  "ANDib r8 i8 = [(0x80, 1), (push_bit 5 7 OR rn r8, 1), (i8, 1)]"

definition ANDid :: "reg \<Rightarrow> u32 \<Rightarrow> emission" where
  "ANDid r32 i32 =
     (if r32 = EAX then [(0x25, 1), (i32, 4)] else [(0x81, 1), (push_bit 5 7 OR rn r32, 1),
        (i32, 4)])"

definition ANDrd :: "reg \<Rightarrow> reg \<Rightarrow> emission" where
  "ANDrd dr32 sr32 = [(0x23, 1), (push_bit 6 3 OR push_bit 3 (rn dr32) OR rn sr32, 1)]"

definition ORrd :: "reg \<Rightarrow> reg \<Rightarrow> emission" where
  "ORrd dr32 sr32 = [(0x0b, 1), (push_bit 6 3 OR push_bit 3 (rn dr32) OR rn sr32, 1)]"

definition ORid :: "reg \<Rightarrow> u32 \<Rightarrow> emission" where
  "ORid r32 i32 =
     (if r32 = EAX then [(0x0d, 1), (i32, 4)] else [(0x81, 1), (push_bit 3 25 OR rn r32, 1),
        (i32, 4)])"

definition SHLib :: "reg \<Rightarrow> u32 \<Rightarrow> emission" where
  "SHLib r32 i8 = [(0xc1, 1), (push_bit 5 7 OR rn r32, 1), (i8, 1)]"

definition SHL_CLrb :: "reg \<Rightarrow> emission" where
  "SHL_CLrb dr32 = [(0xd3, 1), (push_bit 5 7 OR rn dr32, 1)]"

definition SHRib :: "reg \<Rightarrow> u32 \<Rightarrow> emission" where
  "SHRib r32 i8 = [(0xc1, 1), (push_bit 3 29 OR rn r32, 1), (i8, 1)]"

definition SHR_CLrb :: "reg \<Rightarrow> emission" where
  "SHR_CLrb dr32 = [(0xd3, 1), (push_bit 3 29 OR rn dr32, 1)]"

definition NEGd :: "reg \<Rightarrow> emission" where
  "NEGd r32 = [(0xf7, 1), (push_bit 3 27 OR rn r32, 1)]"

definition CMPodd :: "reg \<Rightarrow> reg \<Rightarrow> u32 \<Rightarrow> emission" where
  "CMPodd dr32 sr32 off =
     [(push_bit 4 3 OR 3 OR push_bit 3 1, 1),
        (push_bit 6 1 OR push_bit 3 (rn dr32) OR rn sr32, 1), (off, 1)]"

definition CMPrd :: "reg \<Rightarrow> reg \<Rightarrow> emission" where
  "CMPrd dr32 sr32 = [(0x3b, 1), (push_bit 6 3 OR push_bit 3 (rn dr32) OR rn sr32, 1)]"

definition CMPid :: "reg \<Rightarrow> u32 \<Rightarrow> emission" where
  "CMPid dr32 i32 =
     (if dr32 = EAX then [(0x3d, 1), (i32, 4)] else [(0x81, 1),
        (push_bit 3 0x1f OR rn dr32, 1), (i32, 4)])"

definition JNEb :: "u32 \<Rightarrow> emission" where "JNEb off8 = [(0x75, 1), (off8, 1)]"

definition JAb :: "u32 \<Rightarrow> emission" where "JAb off8 = [(0x77, 1), (off8, 1)]"

definition JBEb :: "u32 \<Rightarrow> emission" where "JBEb off8 = [(0x76, 1), (off8, 1)]"

definition JBb :: "u32 \<Rightarrow> emission" where "JBb off8 = [(0x72, 1), (off8, 1)]"

definition JE :: "u32 \<Rightarrow> emission" where "JE off32 = [(0x0f, 1), (0x84, 1), (off32, 4)]"

definition JA :: "u32 \<Rightarrow> emission" where "JA off32 = [(0x0f, 1), (0x87, 1), (off32, 4)]"

definition JAE :: "u32 \<Rightarrow> emission" where "JAE off32 = [(0x0f, 1), (0x83, 1), (off32, 4)]"

definition JG :: "u32 \<Rightarrow> emission" where "JG off32 = [(0x0f, 1), (0x8f, 1), (off32, 4)]"

definition JGE :: "u32 \<Rightarrow> emission" where "JGE off32 = [(0x0f, 1), (0x8d, 1), (off32, 4)]"

definition JMP :: "u32 \<Rightarrow> emission" where "JMP off32 = [(0xe9, 1), (off32, 4)]"

lemmas macro_defs =
  MOVid_def MOVrd_def MOVodd_def MOVobd_def MOVobw_def MOVobb_def MOVomd_def BSWAP_def
  SWAP_AX_def PUSH_def POP_def RET_def ADDrd_def ADD_EAXi_def ADDib_def SUBrd_def SUB_EAXi_def
  MULrd_def DIVrd_def ANDib_def ANDid_def ANDrd_def ORrd_def ORid_def SHLib_def SHL_CLrb_def
  SHRib_def SHR_CLrb_def NEGd_def CMPodd_def CMPrd_def CMPid_def JNEb_def JAb_def JBEb_def
  JBb_def JE_def JA_def JAE_def JG_def JGE_def JMP_def

section \<open>The bytes of an emission\<close>

definition emit_bytes :: "u32 \<times> nat \<Rightarrow> u8 list" where
  "emit_bytes e =
     (if snd e = 1 then [ucast (fst e)]
      else if snd e = 2 then le16_bytes (ucast (fst e))
      else if snd e = 4 then le32_bytes (fst e) else [])"

definition emission_bytes :: "emission \<Rightarrow> u8 list" where
  "emission_bytes es = concat (map emit_bytes es)"

definition emission_size :: "emission \<Rightarrow> nat" where
  "emission_size es = sum_list (map snd es)"

definition emission_wf :: "emission \<Rightarrow> bool" where
  "emission_wf es \<longleftrightarrow> (\<forall>e \<in> set es. snd e \<in> {1, 2, 4})"

lemma emission_simps [simp]:
  "emission_bytes [] = []" "emission_bytes (e # es) = emit_bytes e @ emission_bytes es"
  "emission_bytes (es @ fs) = emission_bytes es @ emission_bytes fs"
  "emission_size [] = 0" "emission_size (e # es) = snd e + emission_size es"
  "emission_size (es @ fs) = emission_size es + emission_size fs"
  "emission_wf []" "emission_wf (e # es) \<longleftrightarrow> snd e \<in> {1, 2, 4} \<and> emission_wf es"
  "emission_wf (es @ fs) \<longleftrightarrow> emission_wf es \<and> emission_wf fs"
  by (auto simp: emission_bytes_def emission_size_def emission_wf_def)

lemma length_emission_bytes: "emission_wf es \<Longrightarrow> length (emission_bytes es) = emission_size es"
  by (induction es) (auto simp: emit_bytes_def)

section \<open>Decoding what the macros emit\<close>

fun decodes :: "u8 list \<Rightarrow> (x86_insn \<times> nat) list \<Rightarrow> bool" where
  "decodes bs [] \<longleftrightarrow> bs = []"
| "decodes bs ((i, n) # is) \<longleftrightarrow>
     0 < n \<and> n \<le> length bs \<and> (\<forall>rest. x86_decode (bs @ rest) = Some (i, n)) \<and>
     decodes (drop n bs) is"

lemma decodes_Cons_append:
  assumes "decodes (emission_bytes e) [(i, n)]" and "decodes (emission_bytes es) is"
  shows "decodes (emission_bytes (e @ es)) ((i, n) # is)"
  using assms by auto

lemma reg_of_rn [simp]: "reg_of (ucast (rn r)) = r"
  by (cases r) (simp_all add: rn_def reg_of_def reg_list_def)

lemmas decode_defs = x86_decode_def decode_rr_def decode_mem_def decode_modrm_def
  decode_group_def decode_group1_def decode_f7_def decode_shift_def decode_0f_def
  with_imm32_def with_imm8_def imm32_def group1_op_def cond_of_def reg_of_def reg_list_def
  emit_bytes_def Let_def

lemma decodes_MOVid:
  "decodes (emission_bytes (MOVid r i)) [(MOV_RI r i, 5)]"
  by (cases r) (simp_all add: macro_defs rn_def decode_defs)

lemma decodes_MOVrd:
  "decodes (emission_bytes (MOVrd d s)) [(MOV_RR d s, 2)]"
  by (cases d; cases s) (simp_all add: macro_defs rn_def decode_defs)

lemma decodes_MOVodd:
  "s \<noteq> ESP \<Longrightarrow> decodes (emission_bytes (MOVodd d s off)) [(MOV_RM d (Base_Disp s (ucast off)), 3)]"
  by (cases d; cases s) (simp_all add: macro_defs rn_def decode_defs)

text \<open>The indexed forms, for the base and index registers the compiler uses.\<close>

lemma decodes_MOVobd:
  "b \<in> {EBX, ECX} \<Longrightarrow> x = ESI \<Longrightarrow>
    decodes (emission_bytes (MOVobd d b x)) [(MOV_RM d (Base_Index b x), 3)]"
  by (cases d; cases b) (simp_all add: macro_defs rn_def decode_defs)

lemma decodes_MOVobw:
  "decodes (emission_bytes (MOVobw AX EBX ESI)) [(MOV16_RM EAX (Base_Index EBX ESI), 4)]"
  by (simp add: macro_defs rn_def decode_defs)

lemma decodes_MOVobb:
  "d \<in> {AL, DL} \<Longrightarrow>
    decodes (emission_bytes (MOVobb d EBX ECX)) [(MOV8_RM d (Base_Index EBX ECX), 3)]"
  by (cases d) (simp_all add: macro_defs rn_def decode_defs)

lemma decodes_MOVomd:
  "decodes (emission_bytes (MOVomd ECX ESI s)) [(MOV_MR (Base_Index ECX ESI) s, 3)]"
  by (cases s) (simp_all add: macro_defs rn_def decode_defs)

lemma decodes_BSWAP:
  "decodes (emission_bytes (BSWAP r)) [(BSWAP_R r, 2)]"
  by (cases r) (simp_all add: macro_defs rn_def decode_defs)

lemma decodes_SWAP_AX:
  "decodes (emission_bytes (SWAP_AX)) [(XCHG_AL_AH, 2)]"
  by (simp add: macro_defs rn_def decode_defs)

lemma decodes_PUSH:
  "decodes (emission_bytes (PUSH r)) [(PUSH_R r, 1)]"
  by (cases r) (simp_all add: macro_defs rn_def decode_defs)

lemma decodes_POP:
  "decodes (emission_bytes (POP r)) [(POP_R r, 1)]"
  by (cases r) (simp_all add: macro_defs rn_def decode_defs)

lemma decodes_RET:
  "decodes (emission_bytes (RET)) [(RETN, 1)]"
  by (simp add: macro_defs rn_def decode_defs)

lemma decodes_ADDrd:
  "decodes (emission_bytes (ADDrd d s)) [(BIN_RR ADD d s, 2)]"
  by (cases d; cases s) (simp_all add: macro_defs rn_def decode_defs)

lemma decodes_ADD_EAXi:
  "decodes (emission_bytes (ADD_EAXi i)) [(BIN_RI ADD EAX i, 5)]"
  by (simp add: macro_defs rn_def decode_defs)

lemma decodes_ADDib:
  "decodes (emission_bytes (ADDib r i)) [(BIN_RI ADD r (scast (ucast i :: u8)), 3)]"
  by (cases r) (simp_all add: macro_defs rn_def decode_defs)

lemma decodes_SUBrd:
  "decodes (emission_bytes (SUBrd d s)) [(BIN_RR SUB d s, 2)]"
  by (cases d; cases s) (simp_all add: macro_defs rn_def decode_defs)

lemma decodes_SUB_EAXi:
  "decodes (emission_bytes (SUB_EAXi i)) [(BIN_RI SUB EAX i, 5)]"
  by (simp add: macro_defs rn_def decode_defs)

lemma decodes_MULrd:
  "decodes (emission_bytes (MULrd r)) [(MUL_R r, 2)]"
  by (cases r) (simp_all add: macro_defs rn_def decode_defs)

lemma decodes_DIVrd:
  "decodes (emission_bytes (DIVrd r)) [(DIV_R r, 2)]"
  by (cases r) (simp_all add: macro_defs rn_def decode_defs)

lemma decodes_ANDib:
  "r \<in> {EAX, ECX, EDX, EBX} \<Longrightarrow> decodes (emission_bytes (ANDib r i)) [(AND8_RI r (ucast i), 3)]"
  by (cases r) (simp_all add: macro_defs rn_def decode_defs)

lemma decodes_ANDid_EAX:
  "decodes (emission_bytes (ANDid EAX i)) [(BIN_RI AND_op EAX i, 5)]"
  by (simp add: macro_defs rn_def decode_defs)

lemma decodes_ANDid:
  "r \<noteq> EAX \<Longrightarrow> decodes (emission_bytes (ANDid r i)) [(BIN_RI AND_op r i, 6)]"
  by (cases r) (simp_all add: macro_defs rn_def decode_defs)

lemma decodes_ANDrd:
  "decodes (emission_bytes (ANDrd d s)) [(BIN_RR AND_op d s, 2)]"
  by (cases d; cases s) (simp_all add: macro_defs rn_def decode_defs)

lemma decodes_ORrd:
  "decodes (emission_bytes (ORrd d s)) [(BIN_RR OR_op d s, 2)]"
  by (cases d; cases s) (simp_all add: macro_defs rn_def decode_defs)

lemma decodes_ORid_EAX:
  "decodes (emission_bytes (ORid EAX i)) [(BIN_RI OR_op EAX i, 5)]"
  by (simp add: macro_defs rn_def decode_defs)

lemma decodes_ORid:
  "r \<noteq> EAX \<Longrightarrow> decodes (emission_bytes (ORid r i)) [(BIN_RI OR_op r i, 6)]"
  by (cases r) (simp_all add: macro_defs rn_def decode_defs)

lemma decodes_SHLib:
  "decodes (emission_bytes (SHLib r i)) [(SHL_RI r (ucast i), 3)]"
  by (cases r) (simp_all add: macro_defs rn_def decode_defs)

lemma decodes_SHL_CLrb:
  "decodes (emission_bytes (SHL_CLrb r)) [(SHL_CL r, 2)]"
  by (cases r) (simp_all add: macro_defs rn_def decode_defs)

lemma decodes_SHRib:
  "decodes (emission_bytes (SHRib r i)) [(SHR_RI r (ucast i), 3)]"
  by (cases r) (simp_all add: macro_defs rn_def decode_defs)

lemma decodes_SHR_CLrb:
  "decodes (emission_bytes (SHR_CLrb r)) [(SHR_CL r, 2)]"
  by (cases r) (simp_all add: macro_defs rn_def decode_defs)

lemma decodes_NEGd:
  "decodes (emission_bytes (NEGd r)) [(NEG_R r, 2)]"
  by (cases r) (simp_all add: macro_defs rn_def decode_defs)

lemma decodes_CMPodd:
  "s \<noteq> ESP \<Longrightarrow> decodes (emission_bytes (CMPodd d s off)) [(BIN_RM CMP d (Base_Disp s (ucast off)), 3)]"
  by (cases d; cases s) (simp_all add: macro_defs rn_def decode_defs)

lemma decodes_CMPrd:
  "decodes (emission_bytes (CMPrd d s)) [(BIN_RR CMP d s, 2)]"
  by (cases d; cases s) (simp_all add: macro_defs rn_def decode_defs)

lemma decodes_CMPid_EAX:
  "decodes (emission_bytes (CMPid EAX i)) [(BIN_RI CMP EAX i, 5)]"
  by (simp add: macro_defs rn_def decode_defs)

lemma decodes_CMPid:
  "r \<noteq> EAX \<Longrightarrow> decodes (emission_bytes (CMPid r i)) [(BIN_RI CMP r i, 6)]"
  by (cases r) (simp_all add: macro_defs rn_def decode_defs)

lemma decodes_JNEb:
  "decodes (emission_bytes (JNEb d)) [(JCC C_NE (sint (ucast d :: u8)), 2)]"
  by (simp add: macro_defs rn_def decode_defs)

lemma decodes_JAb:
  "decodes (emission_bytes (JAb d)) [(JCC C_A (sint (ucast d :: u8)), 2)]"
  by (simp add: macro_defs rn_def decode_defs)

lemma decodes_JBEb:
  "decodes (emission_bytes (JBEb d)) [(JCC C_BE (sint (ucast d :: u8)), 2)]"
  by (simp add: macro_defs rn_def decode_defs)

lemma decodes_JBb:
  "decodes (emission_bytes (JBb d)) [(JCC C_B (sint (ucast d :: u8)), 2)]"
  by (simp add: macro_defs rn_def decode_defs)

lemma decodes_JE:
  "decodes (emission_bytes (JE d)) [(JCC C_E (sint d), 6)]"
  by (simp add: macro_defs rn_def decode_defs)

lemma decodes_JA:
  "decodes (emission_bytes (JA d)) [(JCC C_A (sint d), 6)]"
  by (simp add: macro_defs rn_def decode_defs)

lemma decodes_JAE:
  "decodes (emission_bytes (JAE d)) [(JCC C_AE (sint d), 6)]"
  by (simp add: macro_defs rn_def decode_defs)

lemma decodes_JG:
  "decodes (emission_bytes (JG d)) [(JCC C_G (sint d), 6)]"
  by (simp add: macro_defs rn_def decode_defs)

lemma decodes_JGE:
  "decodes (emission_bytes (JGE d)) [(JCC C_GE (sint d), 6)]"
  by (simp add: macro_defs rn_def decode_defs)

lemma decodes_JMP:
  "decodes (emission_bytes (JMP d)) [(JMP_REL (sint d), 5)]"
  by (simp add: macro_defs rn_def decode_defs)

lemmas macro_decodes =
  decodes_MOVid decodes_MOVrd decodes_MOVodd decodes_MOVobd decodes_MOVobw
  decodes_MOVobb decodes_MOVomd decodes_BSWAP decodes_SWAP_AX decodes_PUSH
  decodes_POP decodes_RET decodes_ADDrd decodes_ADD_EAXi decodes_ADDib
  decodes_SUBrd decodes_SUB_EAXi decodes_MULrd decodes_DIVrd decodes_ANDib
  decodes_ANDid_EAX decodes_ANDid decodes_ANDrd decodes_ORrd decodes_ORid_EAX
  decodes_ORid decodes_SHLib decodes_SHL_CLrb decodes_SHRib decodes_SHR_CLrb
  decodes_NEGd decodes_CMPodd decodes_CMPrd decodes_CMPid_EAX decodes_CMPid
  decodes_JNEb decodes_JAb decodes_JBEb decodes_JBb decodes_JE
  decodes_JA decodes_JAE decodes_JG decodes_JGE decodes_JMP

end
