(* ===== verification/Jitter.thy ===== *)
theory Jitter
  imports Jit_Macros Bpf_Validate
begin

text \<open>
  The filter compiler of \<open>packetNtx/driver/jitter.c\<close>. \<open>jit_load\<close>, \<open>jit_store\<close>, \<open>jit_jump\<close>,
  \<open>jit_alu\<close>, \<open>jit_misc\<close> and \<open>jit_ret\<close> are the case labels of \<open>BPFtoX86\<close>; \<open>emit_lenght\<close> and
  \<open>emit_code\<close> the two emit functions, \<open>jit_pass\<close> one pass over the program with either of
  them, \<open>BPFtoX86\<close> the two passes with the allocations, and \<open>BPF_jitter\<close> and
  \<open>BPF_Destroy_JIT_Filter\<close> the interface.

  The pool allocator is a parameter: \<open>alloc tag n\<close> is the initial content of the block given
  for the pool tag, or \<open>None\<close>; \<open>mem\<close> is the address of the scratch memory. The blocks that a
  function leaves allocated are returned, by tag. The counters \<open>cur_ip\<close> and \<open>bpf_pc\<close> are
  natural numbers; an instruction compiles to at most 45 bytes, so programs shorter than
  \<open>2 ^ 25\<close> instructions, which the theorems assume, never reach the range where INT would wrap.
  The reference table holds 32-bit values as in the code.
\<close>

section \<open>The code of one instruction\<close>

definition epilogue :: emission where
  "epilogue = POP EDI @ POP ESI @ POP EDX @ POP ECX @ POP EBX @ POP EBP"

definition jit_prologue :: emission where
  "jit_prologue = PUSH EBP @ MOVrd EBP ESP @ PUSH EBX @ PUSH ECX @ PUSH EDX @ PUSH ESI @
     PUSH EDI @ MOVodd EBX EBP 8"

text \<open>The sequence that returns 0, and the bounds checks that skip it.\<close>

definition fail_return :: emission where
  "fail_return = epilogue @ MOVid EAX 0 @ RET"

definition check_width :: "u32 \<Rightarrow> emission" where
  "check_width n = CMPodd ECX EBP 0x10 @ JAb 10 @ MOVrd ESI ECX @ ADDib ECX n @
     CMPodd ECX EBP 0x10 @ JBEb 12 @ fail_return"

definition check_byte :: emission where
  "check_byte = CMPodd ECX EBP 0x10 @ JBb 12 @ fail_return"

primrec jit_ret :: "ret_op \<Rightarrow> u32 \<Rightarrow> emission" where
  "jit_ret RET_K kv = MOVid EAX kv @ epilogue @ RET"
| "jit_ret RET_A kv = epilogue @ RET"

primrec jit_load :: "u32 \<Rightarrow> load_op \<Rightarrow> u32 \<Rightarrow> emission" where
  "jit_load mem LD_W_ABS kv = MOVid ECX kv @ check_width 4 @ MOVobd EAX EBX ESI @ BSWAP EAX"
| "jit_load mem LD_H_ABS kv =
     MOVid ECX kv @ check_width 2 @ MOVid EAX 0 @ MOVobw AX EBX ESI @ SWAP_AX"
| "jit_load mem LD_B_ABS kv = MOVid ECX kv @ check_byte @ MOVid EAX 0 @ MOVobb AL EBX ECX"
| "jit_load mem LD_W_LEN kv = MOVodd EAX EBP 0xc"
| "jit_load mem LDX_W_LEN kv = MOVodd EDX EBP 0xc"
| "jit_load mem LD_W_IND kv =
     MOVid ECX kv @ ADDrd ECX EDX @ check_width 4 @ MOVobd EAX EBX ESI @ BSWAP EAX"
| "jit_load mem LD_H_IND kv =
     MOVid ECX kv @ ADDrd ECX EDX @ check_width 2 @ MOVid EAX 0 @ MOVobw AX EBX ESI @ SWAP_AX"
| "jit_load mem LD_B_IND kv =
     MOVid ECX kv @ ADDrd ECX EDX @ check_byte @ MOVid EAX 0 @ MOVobb AL EBX ECX"
| "jit_load mem LDX_MSH_B kv =
     MOVid ECX kv @ check_byte @ MOVid EDX 0 @ MOVobb DL EBX ECX @ ANDib DL 0xf @ SHLib EDX 2"
| "jit_load mem LD_IMM kv = MOVid EAX kv"
| "jit_load mem LDX_IMM kv = MOVid EDX kv"
| "jit_load mem LD_MEM kv = MOVid ECX mem @ MOVid ESI (kv * 4) @ MOVobd EAX ECX ESI"
| "jit_load mem LDX_MEM kv = MOVid ECX mem @ MOVid ESI (kv * 4) @ MOVobd EDX ECX ESI"

primrec jit_store :: "u32 \<Rightarrow> store_op \<Rightarrow> u32 \<Rightarrow> emission" where
  "jit_store mem ST kv = MOVid ECX mem @ MOVid ESI (kv * 4) @ MOVomd ECX ESI EAX"
| "jit_store mem STX kv = MOVid ECX mem @ MOVid ESI (kv * 4) @ MOVomd ECX ESI EDX"

text \<open>\<open>dt\<close> and \<open>df\<close> are the differences of table entries that the code writes out in place.\<close>

primrec jit_jump :: "jump_op \<Rightarrow> u32 \<Rightarrow> u32 \<Rightarrow> u32 \<Rightarrow> emission" where
  "jit_jump JMP_JA kv dt df = JMP dt"
| "jit_jump JGT_K kv dt df = CMPid EAX kv @ JG (dt + 5) @ JMP df"
| "jit_jump JGE_K kv dt df = CMPid EAX kv @ JGE (dt + 5) @ JMP df"
| "jit_jump JEQ_K kv dt df = CMPid EAX kv @ JE (dt + 5) @ JMP df"
| "jit_jump JSET_K kv dt df = MOVrd ECX EAX @ ANDid ECX kv @ JE (df + 5) @ JMP dt"
| "jit_jump JGT_X kv dt df = CMPrd EAX EDX @ JA (dt + 5) @ JMP df"
| "jit_jump JGE_X kv dt df = CMPrd EAX EDX @ JAE (dt + 5) @ JMP df"
| "jit_jump JEQ_X kv dt df = CMPrd EAX EDX @ JE (dt + 5) @ JMP df"
| "jit_jump JSET_X kv dt df = MOVrd ECX EAX @ ANDrd ECX EDX @ JE (df + 5) @ JMP dt"

primrec jit_alu :: "alu_op \<Rightarrow> u32 \<Rightarrow> emission" where
  "jit_alu ADD_X kv = ADDrd EAX EDX"
| "jit_alu SUB_X kv = SUBrd EAX EDX"
| "jit_alu MUL_X kv = MOVrd ECX EDX @ MULrd EDX @ MOVrd EDX ECX"
| "jit_alu DIV_X kv = CMPid EDX 0 @ JNEb 12 @ fail_return @
     MOVrd ECX EDX @ MOVid EDX 0 @ DIVrd ECX @ MOVrd EDX ECX"
| "jit_alu AND_X kv = ANDrd EAX EDX"
| "jit_alu OR_X kv = ORrd EAX EDX"
| "jit_alu LSH_X kv = MOVrd ECX EDX @ SHL_CLrb EAX"
| "jit_alu RSH_X kv = MOVrd ECX EDX @ SHR_CLrb EAX"
| "jit_alu ADD_K kv = ADD_EAXi kv"
| "jit_alu SUB_K kv = SUB_EAXi kv"
| "jit_alu MUL_K kv = MOVrd ECX EDX @ MOVid EDX kv @ MULrd EDX @ MOVrd EDX ECX"
| "jit_alu DIV_K kv = MOVrd ECX EDX @ MOVid EDX 0 @ MOVid ESI kv @ DIVrd ESI @ MOVrd EDX ECX"
| "jit_alu AND_K kv = ANDid EAX kv"
| "jit_alu OR_K kv = ORid EAX kv"
| "jit_alu LSH_K kv = SHLib EAX (kv AND 255)"
| "jit_alu RSH_K kv = SHRib EAX (kv AND 255)"
| "jit_alu NEG kv = NEGd EAX"

primrec jit_misc :: "misc_op \<Rightarrow> emission" where
  "jit_misc TAX = MOVrd EDX EAX"
| "jit_misc TXA = MOVrd EAX EDX"

definition jit_op :: "u32 \<Rightarrow> bpf_op \<Rightarrow> u32 \<Rightarrow> u32 \<Rightarrow> u32 \<Rightarrow> emission" where
  "jit_op mem op kv dt df =
     (case op of
        Ret r \<Rightarrow> jit_ret r kv | Load l \<Rightarrow> jit_load mem l kv | Store t \<Rightarrow> jit_store mem t kv
      | Jump j \<Rightarrow> jit_jump j kv dt df | Alu a \<Rightarrow> jit_alu a kv | Misc m \<Rightarrow> jit_misc m)"

section \<open>The switch\<close>

datatype jit_stop = Unsupported | Bad_Refs | Bad_Stream

definition jit_disp :: "u32 list \<Rightarrow> nat \<Rightarrow> u32 \<Rightarrow> u32 option" where
  "jit_disp rs pc w =
     (case (peek rs (unat (of_nat pc + w)), peek rs pc) of
        (Some a, Some b) \<Rightarrow> Some (a - b)
      | _ \<Rightarrow> None)"

definition jit_disps :: "u32 list \<Rightarrow> nat \<Rightarrow> bpf_op \<Rightarrow> bpf_insn \<Rightarrow> (u32 \<times> u32) option" where
  "jit_disps rs pc op ins =
     (case op of
        Jump j \<Rightarrow>
          (if j = JMP_JA then map_option (\<lambda>d. (d, 0)) (jit_disp rs pc (k ins))
           else (case (jit_disp rs pc (ucast (jt ins)), jit_disp rs pc (ucast (jf ins))) of
                   (Some dt, Some df) \<Rightarrow> Some (dt, df)
                 | _ \<Rightarrow> None))
      | _ \<Rightarrow> Some (0, 0))"

definition jit_insn :: "u32 \<Rightarrow> u32 list \<Rightarrow> nat \<Rightarrow> bpf_insn \<Rightarrow> jit_stop + emission" where
  "jit_insn mem rs pc ins =
     (case bpf_decode (code ins) of
        None \<Rightarrow> Inl Unsupported
      | Some op \<Rightarrow>
          (case jit_disps rs pc op ins of
             None \<Rightarrow> Inl Bad_Refs
           | Some (dt, df) \<Rightarrow> Inr (jit_op mem op (k ins) dt df)))"

section \<open>The stream and the two passes\<close>

record binary_stream =
  cur_ip :: nat
  bpf_pc :: nat
  ibuf :: "u8 list"
  refs :: "u32 list"

type_synonym emit_func = "u32 \<times> nat \<Rightarrow> binary_stream \<Rightarrow> binary_stream option"

definition emit_lenght :: emit_func where
  "emit_lenght e st =
     (if bpf_pc st < length (refs st)
      then Some (st\<lparr>refs := (refs st)[bpf_pc st := refs st ! bpf_pc st + of_nat (snd e)],
                   cur_ip := cur_ip st + snd e\<rparr>)
      else None)"

definition emit_code :: emit_func where
  "emit_code e st =
     (case blit (ibuf st) (cur_ip st) (emit_bytes e) of
        None \<Rightarrow> None
      | Some b \<Rightarrow> Some (st\<lparr>ibuf := b, cur_ip := cur_ip st + length (emit_bytes e)\<rparr>))"

fun emit_all :: "emit_func \<Rightarrow> emission \<Rightarrow> binary_stream \<Rightarrow> binary_stream option" where
  "emit_all em [] st = Some st"
| "emit_all em (e # es) st = (case em e st of None \<Rightarrow> None | Some st' \<Rightarrow> emit_all em es st')"

fun jit_body ::
    "emit_func \<Rightarrow> u32 \<Rightarrow> bpf_insn list \<Rightarrow> binary_stream \<Rightarrow> jit_stop + binary_stream" where
  "jit_body em mem [] st = Inr st"
| "jit_body em mem (ins # prog) st =
     (let st1 = st\<lparr>bpf_pc := Suc (bpf_pc st)\<rparr> in
      case jit_insn mem (refs st1) (bpf_pc st1) ins of
        Inl e \<Rightarrow> Inl e
      | Inr es \<Rightarrow>
          (case emit_all em es st1 of
             None \<Rightarrow> Inl Bad_Stream
           | Some st2 \<Rightarrow> jit_body em mem prog st2))"

definition jit_pass ::
    "emit_func \<Rightarrow> u32 \<Rightarrow> bpf_insn list \<Rightarrow> binary_stream \<Rightarrow> jit_stop + binary_stream" where
  "jit_pass em mem prog st =
     (case emit_all em jit_prologue st of
        None \<Rightarrow> Inl Bad_Stream
      | Some st1 \<Rightarrow> jit_body em mem prog st1)"

text \<open>The loop that turns the lengths into offsets.\<close>

fun accumulate :: "u32 \<Rightarrow> u32 list \<Rightarrow> u32 list" where
  "accumulate a [] = []"
| "accumulate a (r # rs) = (a + r) # accumulate (a + r) rs"

type_synonym pool = "string \<Rightarrow> nat \<Rightarrow> u8 list option"

definition BPFtoX86 ::
    "pool \<Rightarrow> bpf_insn list \<Rightarrow> u32 \<Rightarrow> jit_stop + (u8 list option \<times> string list)" where
  "BPFtoX86 alloc prog mem =
     (case alloc ''0JWA'' ((length prog + 1) * 4) of
        None \<Rightarrow> Inr (None, [])
      | Some _ \<Rightarrow>
          (case jit_pass emit_lenght mem prog
                  \<lparr>cur_ip = 0, bpf_pc = 0, ibuf = [], refs = replicate (length prog + 1) 0\<rparr> of
             Inl Unsupported \<Rightarrow> Inr (None, [''0JWA''])
           | Inl e \<Rightarrow> Inl e
           | Inr st \<Rightarrow>
               (case alloc ''1JWA'' (cur_ip st) of
                  None \<Rightarrow> Inr (None, [])
                | Some buf \<Rightarrow>
                    (case jit_pass emit_code mem prog
                            \<lparr>cur_ip = 0, bpf_pc = 0, ibuf = buf, refs = accumulate 0 (refs st)\<rparr> of
                       Inl Unsupported \<Rightarrow> Inr (None, [''0JWA'', ''1JWA''])
                     | Inl e \<Rightarrow> Inl e
                     | Inr st2 \<Rightarrow> Inr (Some (ibuf st2), [''1JWA''])))))"

record JIT_BPF_Filter =
  Function :: "u8 list"
  filter_mem :: u32

definition BPF_jitter ::
    "pool \<Rightarrow> u32 \<Rightarrow> bpf_insn list \<Rightarrow> jit_stop + (JIT_BPF_Filter option \<times> string list)" where
  "BPF_jitter alloc mem fp =
     (case alloc ''2JWA'' 8 of
        None \<Rightarrow> Inr (None, [])
      | Some _ \<Rightarrow>
          (case alloc ''3JWA'' (BPF_MEMWORDS * 4) of
             None \<Rightarrow> Inr (None, [])
           | Some _ \<Rightarrow>
               (case BPFtoX86 alloc fp mem of
                  Inl e \<Rightarrow> Inl e
                | Inr (None, live) \<Rightarrow> Inr (None, live)
                | Inr (Some f, live) \<Rightarrow>
                    Inr (Some \<lparr>Function = f, filter_mem = mem\<rparr>, ''2JWA'' # ''3JWA'' # live))))"

definition BPF_Destroy_JIT_Filter :: "string list \<Rightarrow> string list" where
  "BPF_Destroy_JIT_Filter live =
     remove1 ''2JWA'' (remove1 ''1JWA'' (remove1 ''3JWA'' live))"

end
