(* ===== verification/Jit_Layout.thy ===== *)
theory Jit_Layout
  imports Jitter
begin

text \<open>
  What the two passes of \<open>BPFtoX86\<close> build: the first pass computes the size of every
  instruction's code, the running sums are the offsets, the second pass fills a buffer of
  exactly the total size, and the code of instruction \<open>i\<close> lies at offset \<open>jit_off prog i\<close>, which
  is also entry \<open>i\<close> of the reference table its jumps are computed from.
\<close>

section \<open>Sizes\<close>

definition op_size :: "bpf_op \<Rightarrow> nat" where
  "op_size op = emission_size (jit_op 0 op 0 0 0)"

definition ins_size :: "bpf_insn \<Rightarrow> nat" where
  "ins_size ins = (case bpf_decode (code ins) of None \<Rightarrow> 0 | Some op \<Rightarrow> op_size op)"

definition jit_off :: "bpf_insn list \<Rightarrow> nat \<Rightarrow> nat" where
  "jit_off prog i = 11 + sum_list (map ins_size (take i prog))"

lemmas jit_op_defs = jit_op_def epilogue_def fail_return_def check_width_def check_byte_def

text \<open>The size of an instruction's code does not depend on its operands.\<close>

lemma jit_op_size: "emission_size (jit_op mem op kv dt df) = op_size op"
  and jit_op_wf: "emission_wf (jit_op mem op kv dt df)"
  and op_size_bound: "op_size op \<le> 45"
proof -
  have "emission_size (jit_op mem op kv dt df) = op_size op \<and>
      emission_wf (jit_op mem op kv dt df) \<and> op_size op \<le> 45"
  proof (cases op)
    case (Ret x) then show ?thesis by (cases x) (simp_all add: op_size_def jit_op_defs macro_defs)
  next
    case (Load x) then show ?thesis by (cases x) (simp_all add: op_size_def jit_op_defs macro_defs)
  next
    case (Store x) then show ?thesis by (cases x) (simp_all add: op_size_def jit_op_defs macro_defs)
  next
    case (Jump x) then show ?thesis by (cases x) (simp_all add: op_size_def jit_op_defs macro_defs)
  next
    case (Alu x) then show ?thesis by (cases x) (simp_all add: op_size_def jit_op_defs macro_defs)
  next
    case (Misc x) then show ?thesis by (cases x) (simp_all add: op_size_def jit_op_defs macro_defs)
  qed
  then show "emission_size (jit_op mem op kv dt df) = op_size op"
    and "emission_wf (jit_op mem op kv dt df)" and "op_size op \<le> 45" by blast+
qed

lemma prologue_size: "emission_size jit_prologue = 11" "emission_wf jit_prologue"
  by (simp_all add: jit_prologue_def macro_defs)

lemma jit_insn_Inr:
  assumes "jit_insn mem rs pc ins = Inr es"
  shows "emission_size es = ins_size ins" "emission_wf es"
  using assms
  by (auto simp: jit_insn_def ins_size_def jit_op_size jit_op_wf split: option.splits)

lemma ins_size_bound: "ins_size ins \<le> 45"
  by (auto simp: ins_size_def op_size_bound split: option.splits)

lemma jit_off_0 [simp]: "jit_off prog 0 = 11"
  by (simp add: jit_off_def)

lemma jit_off_Suc: "i < length prog \<Longrightarrow> jit_off prog (Suc i) = jit_off prog i + ins_size (prog ! i)"
  by (simp add: jit_off_def take_Suc_conv_app_nth)

lemma jit_off_mono: "i \<le> j \<Longrightarrow> jit_off prog i \<le> jit_off prog j"
proof -
  assume "i \<le> j"
  then obtain d where "j = i + d" by (auto simp: le_iff_add)
  then show ?thesis by (simp add: jit_off_def take_add)
qed

lemma sum_sizes_bound: "sum_list (map ins_size prog) \<le> 45 * length prog"
  by (induction prog) (simp_all add: ins_size_bound add_mono)

lemma jit_off_bound: "jit_off prog i \<le> 11 + 45 * length prog"
proof -
  have "sum_list (map ins_size (take i prog)) \<le> 45 * length (take i prog)"
    by (rule sum_sizes_bound)
  also have "\<dots> \<le> 45 * length prog" by simp
  finally show ?thesis by (simp add: jit_off_def)
qed

section \<open>The emit functions over a whole emission\<close>

lemma emit_all_lenght:
  "bpf_pc st < length (refs st) \<Longrightarrow>
   emit_all emit_lenght es st =
     Some (st\<lparr>refs := (refs st)[bpf_pc st := refs st ! bpf_pc st + of_nat (emission_size es)],
              cur_ip := cur_ip st + emission_size es\<rparr>)"
  by (induction es arbitrary: st) (simp_all add: emit_lenght_def add.assoc)

lemma length_emit_bytes: "snd e \<in> {1, 2, 4} \<Longrightarrow> length (emit_bytes e) = snd e"
  by (auto simp: emit_bytes_def)

lemma emit_all_code:
  "emission_wf es \<Longrightarrow> cur_ip st + emission_size es \<le> length (ibuf st) \<Longrightarrow>
   emit_all emit_code es st =
     Some (st\<lparr>ibuf := take (cur_ip st) (ibuf st) @ emission_bytes es @
                drop (cur_ip st + emission_size es) (ibuf st),
              cur_ip := cur_ip st + emission_size es\<rparr>)"
proof (induction es arbitrary: st)
  case Nil
  then show ?case by simp
next
  case (Cons e es)
  let ?b = "take (cur_ip st) (ibuf st) @ emit_bytes e @ drop (cur_ip st + snd e) (ibuf st)"
  let ?st = "st\<lparr>ibuf := ?b, cur_ip := cur_ip st + snd e\<rparr>"
  have len: "length (emit_bytes e) = snd e"
    using Cons.prems(1) by (intro length_emit_bytes) simp
  have fits: "cur_ip st + snd e \<le> length (ibuf st)"
    using Cons.prems(2) by simp
  have "emit_code e st = Some ?st"
    using len fits by (simp add: emit_code_def blit_Some)
  moreover have "emit_all emit_code es ?st =
      Some (?st\<lparr>ibuf := take (cur_ip ?st) ?b @ emission_bytes es @
          drop (cur_ip ?st + emission_size es) ?b, cur_ip := cur_ip ?st + emission_size es\<rparr>)"
    using Cons.IH [of ?st] Cons.prems len fits by simp
  moreover have "take (cur_ip ?st) ?b = take (cur_ip st) (ibuf st) @ emit_bytes e"
    using len fits by simp
  moreover have "drop (cur_ip ?st + emission_size es) ?b =
      drop (cur_ip st + (snd e + emission_size es)) (ibuf st)"
    using len fits by (simp add: ac_simps)
  ultimately show ?case
    by (simp add: ac_simps)
qed

section \<open>Programs that compile\<close>

text \<open>Every opcode has a case label and every jump a target inside the table.\<close>

definition jit_ok :: "nat \<Rightarrow> nat \<Rightarrow> bpf_insn \<Rightarrow> bool" where
  "jit_ok n i ins =
     (case bpf_decode (code ins) of
        None \<Rightarrow> False
      | Some (Jump j) \<Rightarrow>
          (if j = JMP_JA then i + 1 + unat (k ins) \<le> n
           else i + 1 + unat (jt ins) \<le> n \<and> i + 1 + unat (jf ins) \<le> n)
      | Some _ \<Rightarrow> True)"

lemma index_sum:
  assumes "pc + unat (w :: u32) < 4294967296"
  shows "unat (of_nat pc + w :: u32) = pc + unat w"
proof -
  have "unat (of_nat pc :: u32) = pc"
    using assms by (simp add: unat_of_nat)
  then show ?thesis
    using assms unat_add_small [of "of_nat pc" w] by simp
qed

lemma jit_disp_Some:
  assumes "pc + unat w < length rs" and "length rs < 4294967296"
  shows "jit_disp rs pc w = Some (rs ! (pc + unat w) - rs ! pc)"
proof -
  have "unat (of_nat pc + w :: u32) = pc + unat w"
    using assms by (intro index_sum) simp
  then show ?thesis
    using assms by (simp add: jit_disp_def)
qed

lemma jit_insn_defined:
  assumes "jit_ok n i ins" and "length rs = Suc n" and "n < 4294967295" and "i < n"
  shows "\<exists>es. jit_insn mem rs (Suc i) ins = Inr es"
proof -
  obtain op where op: "bpf_decode (code ins) = Some op"
    using assms(1) by (auto simp: jit_ok_def split: option.splits)
  have "jit_disps rs (Suc i) op ins \<noteq> None"
  proof (cases op)
    case (Jump j)
    with assms op show ?thesis
      by (auto simp: jit_ok_def jit_disps_def jit_disp_Some split: if_splits)
  qed (simp_all add: jit_disps_def)
  with op show ?thesis
    by (auto simp: jit_insn_def split: prod.splits)
qed

definition ins_emission :: "u32 \<Rightarrow> u32 list \<Rightarrow> nat \<Rightarrow> bpf_insn \<Rightarrow> emission" where
  "ins_emission mem rs pc ins = (case jit_insn mem rs pc ins of Inr es \<Rightarrow> es | Inl _ \<Rightarrow> [])"

fun body_emission :: "u32 \<Rightarrow> u32 list \<Rightarrow> nat \<Rightarrow> bpf_insn list \<Rightarrow> emission" where
  "body_emission mem rs pc [] = []"
| "body_emission mem rs pc (ins # prog) =
     ins_emission mem rs (Suc pc) ins @ body_emission mem rs (Suc pc) prog"

definition body_ok :: "nat \<Rightarrow> nat \<Rightarrow> bpf_insn list \<Rightarrow> bool" where
  "body_ok n pc prog \<longleftrightarrow> (\<forall>i < length prog. jit_ok n (pc + i) (prog ! i))"

lemma body_ok_Cons:
  "body_ok n pc (ins # prog) \<longleftrightarrow> jit_ok n pc ins \<and> body_ok n (Suc pc) prog"
  by (auto simp: body_ok_def less_Suc_eq_0_disj)

lemma body_emission_size:
  assumes "body_ok n pc prog" and "length rs = Suc n" and "n < 4294967295" and "pc + length prog \<le> n"
  shows "emission_size (body_emission mem rs pc prog) = sum_list (map ins_size prog) \<and>
    emission_wf (body_emission mem rs pc prog)"
  using assms
proof (induction prog arbitrary: pc)
  case (Cons ins prog)
  then obtain es where "jit_insn mem rs (Suc pc) ins = Inr es"
    using jit_insn_defined [of n pc ins rs mem] by (auto simp: body_ok_Cons)
  with Cons jit_insn_Inr [OF this] show ?case
    by (simp add: body_ok_Cons ins_emission_def)
qed simp

lemma body_first_pass:
  assumes "body_ok n (bpf_pc st) prog" and "n < 4294967295" and "bpf_pc st + length prog = n"
    and "refs st = pre @ replicate (length prog) 0" and "length pre = Suc (bpf_pc st)"
  shows "\<exists>st'. jit_body emit_lenght mem prog st = Inr st' \<and>
    refs st' = pre @ map (of_nat \<circ> ins_size) prog \<and>
    cur_ip st' = cur_ip st + sum_list (map ins_size prog)"
  using assms
proof (induction prog arbitrary: st pre)
  case Nil
  then show ?case by simp
next
  case (Cons ins prog)
  let ?st1 = "st\<lparr>bpf_pc := Suc (bpf_pc st)\<rparr>"
  have len: "length (refs st) = Suc n"
    using Cons.prems by simp
  obtain es where es: "jit_insn mem (refs st) (Suc (bpf_pc st)) ins = Inr es"
    using jit_insn_defined [of n "bpf_pc st" ins "refs st" mem] Cons.prems len
    by (auto simp: body_ok_Cons)
  let ?rs = "(pre @ [of_nat (ins_size ins)]) @ replicate (length prog) 0"
  let ?st2 = "?st1\<lparr>refs := ?rs, cur_ip := cur_ip st + ins_size ins\<rparr>"
  have upd: "(refs st)[Suc (bpf_pc st) := refs st ! Suc (bpf_pc st) + of_nat (ins_size ins)] = ?rs"
    using Cons.prems(4,5) by (simp add: list_update_append nth_append)
  have "emit_all emit_lenght es ?st1 = Some ?st2"
    using emit_all_lenght [of ?st1 es] jit_insn_Inr(1) [OF es] upd len Cons.prems(3) by simp
  moreover obtain st' where "jit_body emit_lenght mem prog ?st2 = Inr st'"
      "refs st' = (pre @ [of_nat (ins_size ins)]) @ map (of_nat \<circ> ins_size) prog"
      "cur_ip st' = cur_ip ?st2 + sum_list (map ins_size prog)"
    using Cons.IH [of ?st2 "pre @ [of_nat (ins_size ins)]"] Cons.prems by (auto simp: body_ok_Cons)
  ultimately show ?case
    using es by simp
qed

lemma body_second_pass:
  assumes "body_ok n (bpf_pc st) prog" and "n < 4294967295" and "bpf_pc st + length prog = n"
    and "length (refs st) = Suc n" and "cur_ip st + sum_list (map ins_size prog) \<le> length (ibuf st)"
  shows "\<exists>st'. jit_body emit_code mem prog st = Inr st' \<and>
    ibuf st' = take (cur_ip st) (ibuf st) @
      emission_bytes (body_emission mem (refs st) (bpf_pc st) prog) @
      drop (cur_ip st + sum_list (map ins_size prog)) (ibuf st)"
  using assms
proof (induction prog arbitrary: st)
  case Nil
  then show ?case by simp
next
  case (Cons ins prog)
  let ?st1 = "st\<lparr>bpf_pc := Suc (bpf_pc st)\<rparr>"
  obtain es where es: "jit_insn mem (refs st) (Suc (bpf_pc st)) ins = Inr es"
    using jit_insn_defined [of n "bpf_pc st" ins "refs st" mem] Cons.prems
    by (auto simp: body_ok_Cons)
  note sz = jit_insn_Inr [OF es] length_emission_bytes [OF jit_insn_Inr(2) [OF es]]
  let ?b = "take (cur_ip st) (ibuf st) @ emission_bytes es @
      drop (cur_ip st + ins_size ins) (ibuf st)"
  let ?st2 = "?st1\<lparr>ibuf := ?b, cur_ip := cur_ip st + ins_size ins\<rparr>"
  have "emit_all emit_code es ?st1 = Some ?st2"
    using emit_all_code [of es ?st1] sz Cons.prems(5) by simp
  moreover have "\<exists>st'. jit_body emit_code mem prog ?st2 = Inr st' \<and>
      ibuf st' = take (cur_ip ?st2) (ibuf ?st2) @
         emission_bytes (body_emission mem (refs ?st2) (bpf_pc ?st2) prog) @
         drop (cur_ip ?st2 + sum_list (map ins_size prog)) (ibuf ?st2)"
    by (rule Cons.IH) (use Cons.prems sz in \<open>simp_all add: body_ok_Cons\<close>)
  moreover have "take (cur_ip ?st2) ?b = take (cur_ip st) (ibuf st) @ emission_bytes es"
    using sz Cons.prems(5) by simp
  moreover have "drop (cur_ip ?st2 + sum_list (map ins_size prog)) ?b =
      drop (cur_ip st + (ins_size ins + sum_list (map ins_size prog))) (ibuf st)"
    using sz Cons.prems(5) by (simp add: ac_simps)
  ultimately show ?case
    using es by (auto simp: ins_emission_def ac_simps)
qed

section \<open>The compiled program\<close>

lemma length_accumulate [simp]: "length (accumulate a rs) = length rs"
  by (induction a rs rule: accumulate.induct) simp_all

lemma accumulate_nth:
  "i < length rs \<Longrightarrow> accumulate a rs ! i = a + sum_list (take (Suc i) rs)"
  by (induction a rs arbitrary: i rule: accumulate.induct)
    (auto simp: less_Suc_eq_0_disj add.assoc)

definition offset_table :: "bpf_insn list \<Rightarrow> u32 list" where
  "offset_table prog = map (of_nat \<circ> jit_off prog) [0..<Suc (length prog)]"

lemma sum_of_nat: "sum_list (map (of_nat \<circ> f) xs) = (of_nat (sum_list (map f xs)) :: u32)"
  by (induction xs) simp_all

lemma accumulate_sizes:
  "accumulate 0 (of_nat 11 # map (of_nat \<circ> ins_size) prog) = offset_table prog"
proof (rule nth_equalityI)
  fix i assume "i < length (accumulate 0 (of_nat 11 # map (of_nat \<circ> ins_size) prog))"
  then have i: "i < Suc (length prog)" by simp
  have "accumulate 0 (of_nat 11 # map (of_nat \<circ> ins_size) prog) ! i =
      of_nat 11 + sum_list (map (of_nat \<circ> ins_size) (take i prog))"
    using i by (subst accumulate_nth) (simp_all add: take_map)
  also have "\<dots> = of_nat (jit_off prog i)"
    by (simp add: sum_of_nat jit_off_def)
  finally show "accumulate 0 (of_nat 11 # map (of_nat \<circ> ins_size) prog) ! i = offset_table prog ! i"
    using i by (simp add: offset_table_def del: upt_Suc)
qed (simp add: offset_table_def)

definition compiled :: "u32 \<Rightarrow> bpf_insn list \<Rightarrow> u8 list" where
  "compiled mem prog =
     emission_bytes (jit_prologue @ body_emission mem (offset_table prog) 0 prog)"

definition pool_wf :: "pool \<Rightarrow> bool" where
  "pool_wf alloc \<longleftrightarrow> (\<forall>t n b. alloc t n = Some b \<longrightarrow> length b = n)"

lemma first_pass:
  assumes "body_ok (length prog) 0 prog" and "length prog < 33554432"
  shows "\<exists>st. jit_pass emit_lenght mem prog
      \<lparr>cur_ip = 0, bpf_pc = 0, ibuf = [], refs = replicate (length prog + 1) 0\<rparr> = Inr st \<and>
    refs st = of_nat 11 # map (of_nat \<circ> ins_size) prog \<and> cur_ip st = jit_off prog (length prog)"
proof -
  let ?st = "\<lparr>cur_ip = 11, bpf_pc = 0, ibuf = [], refs = [of_nat 11] @ replicate (length prog) 0\<rparr>"
  have "emit_all emit_lenght jit_prologue
      \<lparr>cur_ip = 0, bpf_pc = 0, ibuf = [], refs = replicate (length prog + 1) 0\<rparr> = Some ?st"
    by (subst emit_all_lenght) (simp_all add: prologue_size)
  then show ?thesis
    using body_first_pass [of "length prog" ?st prog "[of_nat 11]" mem] assms
    by (auto simp: jit_pass_def jit_off_def)
qed

lemma second_pass:
  assumes "body_ok (length prog) 0 prog" and "length prog < 33554432"
    and "length buf = jit_off prog (length prog)"
  shows "\<exists>st. jit_pass emit_code mem prog
      \<lparr>cur_ip = 0, bpf_pc = 0, ibuf = buf, refs = offset_table prog\<rparr> = Inr st \<and>
    ibuf st = compiled mem prog"
proof -
  let ?pro = "emission_bytes jit_prologue"
  have pro: "length ?pro = 11"
    using length_emission_bytes [OF prologue_size(2)] prologue_size(1) by simp
  let ?st = "\<lparr>cur_ip = 11, bpf_pc = 0, ibuf = ?pro @ drop 11 buf, refs = offset_table prog\<rparr>"
  have "emit_all emit_code jit_prologue
      \<lparr>cur_ip = 0, bpf_pc = 0, ibuf = buf, refs = offset_table prog\<rparr> = Some ?st"
    using assms(3) by (subst emit_all_code) (simp_all add: prologue_size jit_off_def)
  then show ?thesis
    using body_second_pass [of "length prog" ?st prog mem] assms pro
    by (auto simp: jit_pass_def jit_off_def compiled_def offset_table_def simp del: upt_Suc)
qed

lemma BPFtoX86_compiled:
  assumes "body_ok (length prog) 0 prog" and "length prog < 33554432" and "pool_wf alloc"
  shows "BPFtoX86 alloc prog mem =
    (if alloc ''0JWA'' ((length prog + 1) * 4) = None \<or>
        alloc ''1JWA'' (jit_off prog (length prog)) = None then Inr (None, [])
     else Inr (Some (compiled mem prog), [''1JWA'']))"
proof -
  obtain st where st: "jit_pass emit_lenght mem prog
      \<lparr>cur_ip = 0, bpf_pc = 0, ibuf = [], refs = replicate (length prog + 1) 0\<rparr> = Inr st"
    "accumulate 0 (refs st) = offset_table prog" "cur_ip st = jit_off prog (length prog)"
    using first_pass [OF assms(1,2), of mem] accumulate_sizes [of prog] by auto
  have buf: "length b = jit_off prog (length prog)"
    if "alloc ''1JWA'' (jit_off prog (length prog)) = Some b" for b
    using assms(3) that by (simp add: pool_wf_def)
  have second: "(case jit_pass emit_code mem prog
        \<lparr>cur_ip = 0, bpf_pc = 0, ibuf = b, refs = offset_table prog\<rparr> of
      Inl Unsupported \<Rightarrow> Inr (None, [''0JWA'', ''1JWA'']) | Inl e \<Rightarrow> Inl e
    | Inr st2 \<Rightarrow> Inr (Some (ibuf st2), [''1JWA''])) = Inr (Some (compiled mem prog), [''1JWA''])"
    if "alloc ''1JWA'' (jit_off prog (length prog)) = Some b" for b
    using second_pass [OF assms(1,2) buf [OF that], of mem] by auto
  show ?thesis
    unfolding BPFtoX86_def st sum.case
    by (simp add: st second split: option.split)
qed

text \<open>The code of instruction \<open>i\<close> starts at its offset.\<close>

lemma body_at:
  assumes "body_ok n pc prog" and "length rs = Suc n" and "n < 4294967295"
    and "pc + length prog \<le> n" and "i < length prog"
  shows "\<exists>rest. drop (sum_list (map ins_size (take i prog)))
      (emission_bytes (body_emission mem rs pc prog)) =
    emission_bytes (ins_emission mem rs (pc + Suc i) (prog ! i)) @ rest"
  using assms
proof (induction prog arbitrary: pc i)
  case (Cons ins prog)
  obtain es where es: "jit_insn mem rs (Suc pc) ins = Inr es"
    using jit_insn_defined [of n pc ins rs mem] Cons.prems by (auto simp: body_ok_Cons)
  have len: "length (emission_bytes es) = ins_size ins"
    using jit_insn_Inr [OF es] length_emission_bytes by simp
  show ?case
  proof (cases i)
    case 0
    then show ?thesis by simp
  next
    case (Suc j)
    then show ?thesis
      using Cons.IH [of "Suc pc" j] Cons.prems es len by (simp add: body_ok_Cons ins_emission_def)
  qed
qed simp

lemma compiled_at:
  assumes "body_ok (length prog) 0 prog" and "length prog < 33554432" and "i < length prog"
  shows "\<exists>rest. drop (jit_off prog i) (compiled mem prog) =
    emission_bytes (ins_emission mem (offset_table prog) (Suc i) (prog ! i)) @ rest"
proof -
  have "length (emission_bytes jit_prologue) = 11"
    using length_emission_bytes [OF prologue_size(2)] prologue_size(1) by simp
  then show ?thesis
    using body_at [OF assms(1), of "offset_table prog" i mem] assms(2,3)
    by (simp add: compiled_def jit_off_def offset_table_def del: upt_Suc)
qed

lemma compiled_prologue: "\<exists>rest. compiled mem prog = emission_bytes jit_prologue @ rest"
  by (simp add: compiled_def)

end
