(* ===== verification/Jit_Blocks.thy ===== *)
theory Jit_Blocks
  imports Jit_Layout
begin

text \<open>
  Executing the compiled code block by block. A block is the decoded code of one
  instruction; \<open>exec_block\<close> runs it, following the short jumps inside it, until control leaves
  it. The theory gives the assembly listing of every case label of \<open>BPFtoX86\<close>, shows that it
  is what the emitted bytes decode to, and that running a block is running the processor on
  the bytes.
\<close>

section \<open>Blocks\<close>

type_synonym block = "(x86_insn \<times> nat) list"

fun skip :: "nat \<Rightarrow> block \<Rightarrow> block option" where
  "skip d [] = (if d = 0 then Some [] else None)"
| "skip d ((i, n) # b) = (if d = 0 then Some ((i, n) # b)
     else if n \<le> d then skip (d - n) b else None)"

lemma skip_length: "skip d b = Some b' \<Longrightarrow> length b' \<le> length b"
  by (induction d b rule: skip.induct) (auto split: if_splits)

lemma skip_0 [simp]: "skip 0 b = Some b"
  by (cases b) auto

lemma skip_decodes: "skip d b = Some b' \<Longrightarrow> decodes bs b \<Longrightarrow> decodes (drop d bs) b' \<and> d \<le> length bs"
proof (induction d b arbitrary: bs rule: skip.induct)
  case (2 d i n b)
  show ?case
  proof (cases "d = 0")
    case True
    with 2 show ?thesis by simp
  next
    case False
    with 2(2,3) have n: "n \<le> d" "skip (d - n) b = Some b'" "n \<le> length bs" "decodes (drop n bs) b"
      by (auto split: if_splits)
    with 2(1) [OF False n(1) n(2) n(4)] show ?thesis by auto
  qed
qed (auto split: if_splits)

function exec_block :: "block \<Rightarrow> cpu \<Rightarrow> xout" where
  "exec_block [] c = Running c"
| "exec_block ((i, n) # b) c =
     (case x86_exec i (c\<lparr>ip := ip c + n\<rparr>) of
        Running c' \<Rightarrow>
          if ip c + n \<le> ip c'
          then (case skip (ip c' - (ip c + n)) b of Some b' \<Rightarrow> exec_block b' c' | None \<Rightarrow> Running c')
          else Running c'
      | r \<Rightarrow> r)"
  by pat_completeness auto
termination
  by (relation "measure (\<lambda>(b, c). length b)") (auto dest: skip_length)

lemma exec_block_sound:
  assumes "decodes bs b" and "drop (ip c) cd = bs @ rest"
  shows "\<exists>n. x86_run cd n c = exec_block b c"
  using assms
proof (induction b c arbitrary: bs rule: exec_block.induct)
  case (1 c)
  have "x86_run cd 0 c = exec_block [] c" by simp
  then show ?case by blast
next
  case (2 i n b c)
  have n: "0 < n" "n \<le> length bs" and dec: "x86_decode (bs @ rest) = Some (i, n)"
      and rest: "decodes (drop n bs) b"
    using 2(2) by auto
  let ?c = "c\<lparr>ip := ip c + n\<rparr>"
  have step: "x86_step cd c = x86_exec i ?c"
    using dec 2(3) by (simp add: x86_step_def)
  show ?case
  proof (cases "x86_exec i ?c")
    case (Running c')
    note r = this
    have leave: "\<exists>m. x86_run cd m c = Running c'"
      using r step by (intro exI [of _ "Suc 0"]) simp
    show ?thesis
    proof (cases "ip c + n \<le> ip c' \<and> skip (ip c' - (ip c + n)) b \<noteq> None")
      case False
      with r leave show ?thesis by (auto split: option.splits)
    next
      case True
      then obtain b' where le: "ip c + n \<le> ip c'" and b': "skip (ip c' - (ip c + n)) b = Some b'"
        by auto
      let ?d = "ip c' - (ip c + n)"
      have d: "decodes (drop ?d (drop n bs)) b'" "?d \<le> length (drop n bs)"
        using skip_decodes [OF b' rest] by auto
      have "drop (ip c') cd = drop (?d + n) (drop (ip c) cd)"
        using le by (simp add: add.commute)
      also have "\<dots> = drop ?d (drop n bs) @ rest"
        using 2(3) d(2) n(2) by (simp add: add.commute)
      finally obtain m where "x86_run cd m c' = exec_block b' c'"
        using 2(1) [OF r le b' d(1)] by blast
      then have "x86_run cd (Suc m) c = exec_block b' c'"
        using step r by simp
      moreover have "exec_block ((i, n) # b) c = exec_block b' c'"
        using r le b' by simp
      ultimately show ?thesis by metis
    qed
  next
    case (Returned a c')
    with step have "x86_run cd (Suc 0) c = exec_block ((i, n) # b) c" by simp
    then show ?thesis by blast
  next
    case Fault
    with step have "x86_run cd (Suc 0) c = exec_block ((i, n) # b) c" by simp
    then show ?thesis by blast
  qed
qed

section \<open>The listing of every case label\<close>

definition asm_epilogue :: block where
  "asm_epilogue = [(POP_R EDI, 1), (POP_R ESI, 1), (POP_R EDX, 1), (POP_R ECX, 1),
     (POP_R EBX, 1), (POP_R EBP, 1)]"

definition asm_fail :: block where
  "asm_fail = asm_epilogue @ [(MOV_RI EAX 0, 5), (RETN, 1)]"

definition asm_check_width :: "u32 \<Rightarrow> block" where
  "asm_check_width n =
     [(BIN_RM CMP ECX (Base_Disp EBP 0x10), 3), (JCC C_A 10, 2), (MOV_RR ESI ECX, 2),
      (BIN_RI ADD ECX n, 3), (BIN_RM CMP ECX (Base_Disp EBP 0x10), 3), (JCC C_BE 12, 2)] @
     asm_fail"

definition asm_check_byte :: block where
  "asm_check_byte = [(BIN_RM CMP ECX (Base_Disp EBP 0x10), 3), (JCC C_B 12, 2)] @ asm_fail"

definition asm_word :: block where
  "asm_word = [(MOV_RM EAX (Base_Index EBX ESI), 3), (BSWAP_R EAX, 2)]"

definition asm_half :: block where
  "asm_half = [(MOV_RI EAX 0, 5), (MOV16_RM EAX (Base_Index EBX ESI), 4), (XCHG_AL_AH, 2)]"

definition asm_byte :: block where
  "asm_byte = [(MOV_RI EAX 0, 5), (MOV8_RM EAX (Base_Index EBX ECX), 3)]"

definition asm_msh :: block where
  "asm_msh = [(MOV_RI EDX 0, 5), (MOV8_RM EDX (Base_Index EBX ECX), 3),
     (AND8_RI EDX 0xf, 3), (SHL_RI EDX 2, 3)]"

definition asm_cell :: "u32 \<Rightarrow> u32 \<Rightarrow> block" where
  "asm_cell mem kv = [(MOV_RI ECX mem, 5), (MOV_RI ESI (kv * 4), 5)]"

primrec asm_load :: "u32 \<Rightarrow> load_op \<Rightarrow> u32 \<Rightarrow> block" where
  "asm_load mem LD_W_ABS kv = [(MOV_RI ECX kv, 5)] @ asm_check_width 4 @ asm_word"
| "asm_load mem LD_H_ABS kv = [(MOV_RI ECX kv, 5)] @ asm_check_width 2 @ asm_half"
| "asm_load mem LD_B_ABS kv = [(MOV_RI ECX kv, 5)] @ asm_check_byte @ asm_byte"
| "asm_load mem LD_W_LEN kv = [(MOV_RM EAX (Base_Disp EBP 0xc), 3)]"
| "asm_load mem LDX_W_LEN kv = [(MOV_RM EDX (Base_Disp EBP 0xc), 3)]"
| "asm_load mem LD_W_IND kv =
     [(MOV_RI ECX kv, 5), (BIN_RR ADD ECX EDX, 2)] @ asm_check_width 4 @ asm_word"
| "asm_load mem LD_H_IND kv =
     [(MOV_RI ECX kv, 5), (BIN_RR ADD ECX EDX, 2)] @ asm_check_width 2 @ asm_half"
| "asm_load mem LD_B_IND kv =
     [(MOV_RI ECX kv, 5), (BIN_RR ADD ECX EDX, 2)] @ asm_check_byte @ asm_byte"
| "asm_load mem LDX_MSH_B kv = [(MOV_RI ECX kv, 5)] @ asm_check_byte @ asm_msh"
| "asm_load mem LD_IMM kv = [(MOV_RI EAX kv, 5)]"
| "asm_load mem LDX_IMM kv = [(MOV_RI EDX kv, 5)]"
| "asm_load mem LD_MEM kv = asm_cell mem kv @ [(MOV_RM EAX (Base_Index ECX ESI), 3)]"
| "asm_load mem LDX_MEM kv = asm_cell mem kv @ [(MOV_RM EDX (Base_Index ECX ESI), 3)]"

primrec asm_store :: "u32 \<Rightarrow> store_op \<Rightarrow> u32 \<Rightarrow> block" where
  "asm_store mem ST kv = asm_cell mem kv @ [(MOV_MR (Base_Index ECX ESI) EAX, 3)]"
| "asm_store mem STX kv = asm_cell mem kv @ [(MOV_MR (Base_Index ECX ESI) EDX, 3)]"

definition asm_branch :: "cond \<Rightarrow> u32 \<Rightarrow> u32 \<Rightarrow> block" where
  "asm_branch cc dt df = [(JCC cc (sint (dt + 5)), 6), (JMP_REL (sint df), 5)]"

primrec asm_jump :: "jump_op \<Rightarrow> u32 \<Rightarrow> u32 \<Rightarrow> u32 \<Rightarrow> block" where
  "asm_jump JMP_JA kv dt df = [(JMP_REL (sint dt), 5)]"
| "asm_jump JGT_K kv dt df = [(BIN_RI CMP EAX kv, 5)] @ asm_branch C_G dt df"
| "asm_jump JGE_K kv dt df = [(BIN_RI CMP EAX kv, 5)] @ asm_branch C_GE dt df"
| "asm_jump JEQ_K kv dt df = [(BIN_RI CMP EAX kv, 5)] @ asm_branch C_E dt df"
| "asm_jump JSET_K kv dt df =
     [(MOV_RR ECX EAX, 2), (BIN_RI AND_op ECX kv, 6)] @ asm_branch C_E df dt"
| "asm_jump JGT_X kv dt df = [(BIN_RR CMP EAX EDX, 2)] @ asm_branch C_A dt df"
| "asm_jump JGE_X kv dt df = [(BIN_RR CMP EAX EDX, 2)] @ asm_branch C_AE dt df"
| "asm_jump JEQ_X kv dt df = [(BIN_RR CMP EAX EDX, 2)] @ asm_branch C_E dt df"
| "asm_jump JSET_X kv dt df =
     [(MOV_RR ECX EAX, 2), (BIN_RR AND_op ECX EDX, 2)] @ asm_branch C_E df dt"

primrec asm_alu :: "alu_op \<Rightarrow> u32 \<Rightarrow> block" where
  "asm_alu ADD_X kv = [(BIN_RR ADD EAX EDX, 2)]"
| "asm_alu SUB_X kv = [(BIN_RR SUB EAX EDX, 2)]"
| "asm_alu MUL_X kv = [(MOV_RR ECX EDX, 2), (MUL_R EDX, 2), (MOV_RR EDX ECX, 2)]"
| "asm_alu DIV_X kv = [(BIN_RI CMP EDX 0, 6), (JCC C_NE 12, 2)] @ asm_fail @
     [(MOV_RR ECX EDX, 2), (MOV_RI EDX 0, 5), (DIV_R ECX, 2), (MOV_RR EDX ECX, 2)]"
| "asm_alu AND_X kv = [(BIN_RR AND_op EAX EDX, 2)]"
| "asm_alu OR_X kv = [(BIN_RR OR_op EAX EDX, 2)]"
| "asm_alu LSH_X kv = [(MOV_RR ECX EDX, 2), (SHL_CL EAX, 2)]"
| "asm_alu RSH_X kv = [(MOV_RR ECX EDX, 2), (SHR_CL EAX, 2)]"
| "asm_alu ADD_K kv = [(BIN_RI ADD EAX kv, 5)]"
| "asm_alu SUB_K kv = [(BIN_RI SUB EAX kv, 5)]"
| "asm_alu MUL_K kv =
     [(MOV_RR ECX EDX, 2), (MOV_RI EDX kv, 5), (MUL_R EDX, 2), (MOV_RR EDX ECX, 2)]"
| "asm_alu DIV_K kv = [(MOV_RR ECX EDX, 2), (MOV_RI EDX 0, 5), (MOV_RI ESI kv, 5),
     (DIV_R ESI, 2), (MOV_RR EDX ECX, 2)]"
| "asm_alu AND_K kv = [(BIN_RI AND_op EAX kv, 5)]"
| "asm_alu OR_K kv = [(BIN_RI OR_op EAX kv, 5)]"
| "asm_alu LSH_K kv = [(SHL_RI EAX (ucast (kv AND 255)), 3)]"
| "asm_alu RSH_K kv = [(SHR_RI EAX (ucast (kv AND 255)), 3)]"
| "asm_alu NEG kv = [(NEG_R EAX, 2)]"

primrec asm_misc :: "misc_op \<Rightarrow> block" where
  "asm_misc TAX = [(MOV_RR EDX EAX, 2)]"
| "asm_misc TXA = [(MOV_RR EAX EDX, 2)]"

primrec asm_ret :: "ret_op \<Rightarrow> u32 \<Rightarrow> block" where
  "asm_ret RET_K kv = [(MOV_RI EAX kv, 5)] @ asm_epilogue @ [(RETN, 1)]"
| "asm_ret RET_A kv = asm_epilogue @ [(RETN, 1)]"

definition asm_op :: "u32 \<Rightarrow> bpf_op \<Rightarrow> u32 \<Rightarrow> u32 \<Rightarrow> u32 \<Rightarrow> block" where
  "asm_op mem op kv dt df =
     (case op of
        Ret r \<Rightarrow> asm_ret r kv | Load l \<Rightarrow> asm_load mem l kv | Store t \<Rightarrow> asm_store mem t kv
      | Jump j \<Rightarrow> asm_jump j kv dt df | Alu a \<Rightarrow> asm_alu a kv | Misc m \<Rightarrow> asm_misc m)"

definition asm_prologue :: block where
  "asm_prologue = [(PUSH_R EBP, 1), (MOV_RR EBP ESP, 2), (PUSH_R EBX, 1), (PUSH_R ECX, 1),
     (PUSH_R EDX, 1), (PUSH_R ESI, 1), (PUSH_R EDI, 1), (MOV_RM EBX (Base_Disp EBP 8), 3)]"

lemmas asm_defs = asm_op_def asm_epilogue_def asm_fail_def asm_check_width_def
  asm_check_byte_def asm_word_def asm_half_def asm_byte_def asm_msh_def asm_cell_def
  asm_branch_def

text \<open>The constants of the emissions, as the processor reads them.\<close>

lemma byte_constants:
  "decodes (emission_bytes (ADDib r 4)) [(BIN_RI ADD r 4, 3)]"
  "decodes (emission_bytes (ADDib r 2)) [(BIN_RI ADD r 2, 3)]"
  "decodes (emission_bytes (JAb 10)) [(JCC C_A 10, 2)]"
  "decodes (emission_bytes (JBEb 12)) [(JCC C_BE 12, 2)]"
  "decodes (emission_bytes (JBb 12)) [(JCC C_B 12, 2)]"
  "decodes (emission_bytes (JNEb 12)) [(JCC C_NE 12, 2)]"
  "s \<noteq> ESP \<Longrightarrow> decodes (emission_bytes (CMPodd d s 0x10)) [(BIN_RM CMP d (Base_Disp s 0x10), 3)]"
  "s \<noteq> ESP \<Longrightarrow> decodes (emission_bytes (MOVodd d s 0xc)) [(MOV_RM d (Base_Disp s 0xc), 3)]"
  "s \<noteq> ESP \<Longrightarrow> decodes (emission_bytes (MOVodd d s 8)) [(MOV_RM d (Base_Disp s 8), 3)]"
  "decodes (emission_bytes (ANDib EDX 0xf)) [(AND8_RI EDX 0xf, 3)]"
  "decodes (emission_bytes (SHLib EDX 2)) [(SHL_RI EDX 2, 3)]"
  using decodes_ADDib [of r 4] decodes_ADDib [of r 2] decodes_JAb [of 10] decodes_JBEb [of 12]
    decodes_JBb [of 12] decodes_JNEb [of 12] decodes_CMPodd [of s d "0x10"]
    decodes_MOVodd [of s d "0xc"] decodes_MOVodd [of s d 8] decodes_ANDib [of EDX "0xf"]
    decodes_SHLib [of EDX 2]
  by simp_all

lemmas decode_steps = decodes_Cons_append byte_constants macro_decodes

lemma decodes_prologue: "decodes (emission_bytes jit_prologue) asm_prologue"
  unfolding jit_prologue_def asm_prologue_def
  by (intro decode_steps) simp_all

lemma decodes_jit_op: "decodes (emission_bytes (jit_op mem op kv dt df)) (asm_op mem op kv dt df)"
proof (cases op)
  case (Ret x)
  then show ?thesis
    by (cases x; simp only: jit_op_def asm_op_def bpf_op.case jit_ret.simps asm_ret.simps
        jit_op_defs asm_defs append.simps append_assoc; intro decode_steps)
next
  case (Load x)
  then show ?thesis
    by (cases x; simp only: jit_op_def asm_op_def bpf_op.case jit_load.simps asm_load.simps
        jit_op_defs asm_defs append.simps append_assoc; intro decode_steps; simp)
next
  case (Store x)
  then show ?thesis
    by (cases x; simp only: jit_op_def asm_op_def bpf_op.case jit_store.simps asm_store.simps
        jit_op_defs asm_defs append.simps append_assoc; intro decode_steps)
next
  case (Jump x)
  then show ?thesis
    by (cases x; simp only: jit_op_def asm_op_def bpf_op.case jit_jump.simps asm_jump.simps
        jit_op_defs asm_defs append.simps append_assoc; intro decode_steps; simp)
next
  case (Alu x)
  then show ?thesis
    by (cases x; simp only: jit_op_def asm_op_def bpf_op.case jit_alu.simps asm_alu.simps
        jit_op_defs asm_defs append.simps append_assoc; intro decode_steps; simp)
next
  case (Misc x)
  then show ?thesis
    by (cases x; simp only: jit_op_def asm_op_def bpf_op.case jit_misc.simps asm_misc.simps
        jit_op_defs asm_defs append.simps append_assoc; intro decode_steps)
qed

end
