(* ===== verification/Jit_Sim.thy ===== *)
theory Jit_Sim
  imports Jit_Blocks
begin

text \<open>
  The simulation between the interpreter and the compiled code. \<open>jit_inv\<close> relates a state of
  the interpreter to a state of the processor at the start of an instruction's code: EAX is A,
  EDX is X, EBX the packet, the stack frame holds the saved registers and the arguments, and
  the scratch memory lies in the block \<open>Filter->mem\<close>. Each lemma executes the listing of one
  group of case labels from a related state.
\<close>

section \<open>Memory\<close>

definition mapped :: "memory \<Rightarrow> u32 \<Rightarrow> bool" where
  "mapped m a \<longleftrightarrow> m a \<noteq> None \<and> m (a + 1) \<noteq> None \<and> m (a + 2) \<noteq> None \<and> m (a + 3) \<noteq> None"

definition upd32 :: "memory \<Rightarrow> u32 \<Rightarrow> u32 \<Rightarrow> memory" where
  "upd32 m a v = m(a \<mapsto> ucast v, a + 1 \<mapsto> ucast (drop_bit 8 v),
     a + 2 \<mapsto> ucast (drop_bit 16 v), a + 3 \<mapsto> ucast (drop_bit 24 v))"

definition apart :: "u32 \<Rightarrow> u32 \<Rightarrow> bool" where
  "apart a b \<longleftrightarrow> a - b \<notin> {0, 1, 2, 3, - 1, - 2, - 3}"

lemma write32_eq: "write32 m a v = (if mapped m a then Some (upd32 m a v) else None)"
  by (simp add: write32_def mapped_def upd32_def)

lemma mapped_read: "read32 m a = Some v \<Longrightarrow> mapped m a"
  by (auto simp: read32_def mapped_def split: option.splits)

lemma mapped_upd [simp]: "mapped m b \<Longrightarrow> mapped (upd32 m a v) b"
  by (auto simp: mapped_def upd32_def)

lemma read32_upd_same [simp]: "read32 (upd32 m a v) a = Some v"
  by (simp add: read32_def upd32_def le32_le32_bytes)

lemma upd32_other: "a - b \<notin> {0, - 1, - 2, - 3} \<Longrightarrow> upd32 m a v b = m b"
  by (auto simp: upd32_def)

lemma read32_upd_apart: "apart a b \<Longrightarrow> read32 (upd32 m a v) b = read32 m b"
proof -
  assume *: "apart a b"
  have "upd32 m a v (b + i) = m (b + i)" if "i \<in> {0, 1, 2, 3}" for i
  proof (rule upd32_other)
    have "a - (b + i) = (a - b) - i" by simp
    then show "a - (b + i) \<notin> {0, - 1, - 2, - 3}"
      using * that by (auto simp: apart_def diff_eq_eq)
  qed
  from this [of 0] this [of 1] this [of 2] this [of 3] show ?thesis
    by (simp add: read32_def)
qed

section \<open>The stack frame and the relation\<close>

record frame =
  f_edi :: u32
  f_esi :: u32
  f_edx :: u32
  f_ecx :: u32
  f_ebx :: u32
  f_ebp :: u32
  f_ret :: u32
  f_pkt :: u32

definition stack_ok :: "frame \<Rightarrow> packet \<Rightarrow> u32 \<Rightarrow> memory \<Rightarrow> bool" where
  "stack_ok fr q sp m \<longleftrightarrow>
     read32 m sp = Some (f_edi fr) \<and> read32 m (sp + 4) = Some (f_esi fr) \<and>
     read32 m (sp + 8) = Some (f_edx fr) \<and> read32 m (sp + 12) = Some (f_ecx fr) \<and>
     read32 m (sp + 16) = Some (f_ebx fr) \<and> read32 m (sp + 20) = Some (f_ebp fr) \<and>
     read32 m (sp + 24) = Some (f_ret fr) \<and> read32 m (sp + 28) = Some (f_pkt fr) \<and>
     read32 m (sp + 32) = Some (wirelen q) \<and> read32 m (sp + 36) = Some (buflen q)"

definition packet_at :: "packet \<Rightarrow> u32 \<Rightarrow> memory \<Rightarrow> bool" where
  "packet_at q p m \<longleftrightarrow> (\<forall>i < unat (buflen q). m (p + of_nat i) = peek (pkt_bytes q) i)"

definition scratch_at :: "u32 list \<Rightarrow> u32 \<Rightarrow> memory \<Rightarrow> bool" where
  "scratch_at xs mem m \<longleftrightarrow> length xs = BPF_MEMWORDS \<and>
     (\<forall>i < BPF_MEMWORDS. read32 m (mem + 4 * of_nat i) = Some (xs ! i))"

text \<open>The scratch block overlaps neither the frame nor the packet.\<close>

definition separate :: "frame \<Rightarrow> packet \<Rightarrow> u32 \<Rightarrow> u32 \<Rightarrow> bool" where
  "separate fr q mem sp \<longleftrightarrow>
     (\<forall>i < 64. (\<forall>j < 40. mem + of_nat i \<noteq> sp + of_nat j) \<and>
        (\<forall>j < unat (buflen q). mem + of_nat i \<noteq> f_pkt fr + of_nat j))"

definition jit_inv :: "frame \<Rightarrow> packet \<Rightarrow> u32 \<Rightarrow> u32 \<Rightarrow> bpf_state \<Rightarrow> cpu \<Rightarrow> bool" where
  "jit_inv fr q mem sp s c \<longleftrightarrow>
     regs c ESP = sp \<and> regs c EBP = sp + 20 \<and> regs c EBX = f_pkt fr \<and>
     regs c EAX = regA s \<and> regs c EDX = regX s \<and>
     stack_ok fr q sp (ram c) \<and> packet_at q (f_pkt fr) (ram c) \<and>
     scratch_at (scratch s) mem (ram c) \<and> separate fr q mem sp"

text \<open>The result of a call: the value in EAX, every other register as the caller left it.\<close>

definition final_regs :: "frame \<Rightarrow> u32 \<Rightarrow> u32 \<Rightarrow> reg \<Rightarrow> u32" where
  "final_regs fr sp v r = (case r of EAX \<Rightarrow> v | ECX \<Rightarrow> f_ecx fr | EDX \<Rightarrow> f_edx fr
     | EBX \<Rightarrow> f_ebx fr | ESP \<Rightarrow> sp + 28 | EBP \<Rightarrow> f_ebp fr | ESI \<Rightarrow> f_esi fr | EDI \<Rightarrow> f_edi fr)"

definition returned :: "frame \<Rightarrow> u32 \<Rightarrow> u32 \<Rightarrow> xout \<Rightarrow> bool" where
  "returned fr sp v r \<longleftrightarrow> (\<exists>c'. r = Returned (f_ret fr) c' \<and> regs c' = final_regs fr sp v)"

definition continues :: "frame \<Rightarrow> packet \<Rightarrow> u32 \<Rightarrow> u32 \<Rightarrow> bpf_state \<Rightarrow> nat \<Rightarrow> xout \<Rightarrow> bool" where
  "continues fr q mem sp t target r \<longleftrightarrow>
     (\<exists>c'. r = Running c' \<and> jit_inv fr q mem sp t c' \<and> ip c' = target)"

section \<open>Executing listings\<close>

lemma set_reg_simps [simp]:
  "regs (set_reg r v c) = (regs c)(r := v)" "ram (set_reg r v c) = ram c"
  "ip (set_reg r v c) = ip c" "flg (set_reg r v c) = flg c"
  by (simp_all add: set_reg_def)

lemmas exec_simps = load_reg_def ea_def asm_defs

lemma epilogue_returns:
  assumes "stack_ok fr q sp (ram c)" and "regs c ESP = sp"
  shows "returned fr sp (regs c EAX) (exec_block (asm_epilogue @ [(RETN, 1)]) c)"
    and "returned fr sp 0 (exec_block (asm_fail @ b) c)"
  using assms
  by (auto simp: exec_simps stack_ok_def returned_def final_regs_def fun_eq_iff add.assoc
      split: reg.split)

lemma inv_facts:
  assumes "jit_inv fr q mem sp s c"
  shows "stack_ok fr q sp (ram c)" "regs c ESP = sp" "regs c EBP = sp + 20"
    "read32 (ram c) (sp + 36) = Some (buflen q)"
  using assms by (simp_all add: jit_inv_def stack_ok_def)

lemma fail_block:
  assumes "jit_inv fr q mem sp s c" and "ram c' = ram c" and "regs c' ESP = sp"
  shows "returned fr sp 0 (exec_block (asm_fail @ b) c')"
  by (rule epilogue_returns(2) [of fr q]) (use assms inv_facts [OF assms(1)] in simp_all)

lemma forward [simp]: "nat (numeral d + int n) = numeral d + n"
  by (simp add: nat_add_distrib)

text \<open>The bounds checks, on the values compared.\<close>

lemma check_width_exec:
  assumes "regs c EBP = sp + 20" and "read32 (ram c) (sp + 36) = Some bl" and "regs c ECX = o'"
  shows "bl < o' \<or> \<not> o' + n \<le> bl \<Longrightarrow>
      \<exists>c'. exec_block (asm_check_width n @ b) c = exec_block (asm_fail @ b) c' \<and>
        ram c' = ram c \<and> regs c' ESP = regs c ESP"
    and "\<not> bl < o' \<Longrightarrow> o' + n \<le> bl \<Longrightarrow>
      \<exists>c'. exec_block (asm_check_width n @ b) c = exec_block b c' \<and>
        regs c' = (regs c)(ESI := o', ECX := o' + n) \<and> ram c' = ram c \<and> ip c' = ip c + 27"
proof -
  have above: "cond_holds C_A (cmp_flags o' bl) \<longleftrightarrow> bl < o'"
    and below: "cond_holds C_BE (cmp_flags (o' + n) bl) \<longleftrightarrow> o' + n \<le> bl"
    by (auto simp: cmp_flags_def)
  note exec = asm_check_width_def ea_def add.assoc above below assms
  show "\<exists>c'. exec_block (asm_check_width n @ b) c = exec_block (asm_fail @ b) c' \<and>
      ram c' = ram c \<and> regs c' ESP = regs c ESP" if "bl < o' \<or> \<not> o' + n \<le> bl"
  proof (cases "bl < o'")
    case True
    then show ?thesis
      by (simp add: exec del: cond_holds.simps)
        (rule exI, rule conjI, rule refl, simp)
  next
    case False
    with that have "\<not> o' + n \<le> bl" by simp
    with False show ?thesis
      by (simp add: exec del: cond_holds.simps)
        (rule exI, rule conjI, rule refl, simp)
  qed
  show "\<exists>c'. exec_block (asm_check_width n @ b) c = exec_block b c' \<and>
      regs c' = (regs c)(ESI := o', ECX := o' + n) \<and> ram c' = ram c \<and> ip c' = ip c + 27"
    if "\<not> bl < o'" "o' + n \<le> bl"
    using that
    by (simp add: exec asm_fail_def asm_epilogue_def del: cond_holds.simps)
      (rule exI, rule conjI, rule refl, simp)
qed

lemma check_byte_exec:
  assumes "regs c EBP = sp + 20" and "read32 (ram c) (sp + 36) = Some bl" and "regs c ECX = o'"
  shows "bl \<le> o' \<Longrightarrow> \<exists>c'. exec_block (asm_check_byte @ b) c = exec_block (asm_fail @ b) c' \<and>
        ram c' = ram c \<and> regs c' ESP = regs c ESP"
    and "\<not> bl \<le> o' \<Longrightarrow> \<exists>c'. exec_block (asm_check_byte @ b) c = exec_block b c' \<and>
        regs c' = regs c \<and> ram c' = ram c \<and> ip c' = ip c + 17"
proof -
  have below: "cond_holds C_B (cmp_flags o' bl) \<longleftrightarrow> \<not> bl \<le> o'"
    by (auto simp: cmp_flags_def)
  note exec = asm_check_byte_def ea_def add.assoc below assms
  show "\<exists>c'. exec_block (asm_check_byte @ b) c = exec_block (asm_fail @ b) c' \<and>
      ram c' = ram c \<and> regs c' ESP = regs c ESP" if "bl \<le> o'"
    using that by (simp add: exec del: cond_holds.simps) (rule exI, rule conjI, rule refl, simp)
  show "\<exists>c'. exec_block (asm_check_byte @ b) c = exec_block b c' \<and>
      regs c' = regs c \<and> ram c' = ram c \<and> ip c' = ip c + 17" if "\<not> bl \<le> o'"
    using that
    by (simp add: exec asm_fail_def asm_epilogue_def del: cond_holds.simps)
      (rule exI, rule conjI, rule refl, simp)
qed

lemma no_wrap_check:
  assumes "packet_wf q" and "n \<in> {2, 4}" and "buflen q \<le> o' \<or> buflen q < o' + n"
  shows "buflen q < o' \<or> \<not> o' + n \<le> buflen q"
proof (cases "o' = buflen q")
  case True
  have "unat (buflen q + n) = unat (buflen q) + unat n"
    using assms(1,2) by (intro unat_add_small) (auto simp: packet_wf_def)
  with True assms(2) show ?thesis by (auto simp: word_le_nat_alt)
next
  case False
  with assms(3) show ?thesis by auto
qed

lemma check_fails:
  assumes inv: "jit_inv fr q mem sp s c" and "packet_wf q" and "n \<in> {2, 4}"
    and "buflen q \<le> regs c ECX \<or> buflen q < regs c ECX + n"
  shows "returned fr sp 0 (exec_block (asm_check_width n @ b) c)"
  using check_width_exec(1) [OF inv_facts(3,4) [OF inv] refl no_wrap_check [OF assms(2-4)], of b]
    fail_block [OF inv] inv_facts(2) [OF inv] by metis

lemma check_passes:
  assumes inv: "jit_inv fr q mem sp s c"
    and "\<not> (buflen q \<le> regs c ECX \<or> buflen q < regs c ECX + n)"
  shows "\<exists>c'. exec_block (asm_check_width n @ b) c = exec_block b c' \<and>
    regs c' = (regs c)(ESI := regs c ECX, ECX := regs c ECX + n) \<and> ram c' = ram c \<and>
    ip c' = ip c + 27"
  by (rule check_width_exec(2) [OF inv_facts(3,4) [OF inv] refl]) (use assms(2) in auto)

lemma check_byte_fails:
  assumes inv: "jit_inv fr q mem sp s c" and "buflen q \<le> regs c ECX"
  shows "returned fr sp 0 (exec_block (asm_check_byte @ b) c)"
  using check_byte_exec(1) [OF inv_facts(3,4) [OF inv] refl assms(2), of b]
    fail_block [OF inv] inv_facts(2) [OF inv] by metis

lemma check_byte_passes:
  assumes inv: "jit_inv fr q mem sp s c" and "\<not> buflen q \<le> regs c ECX"
  shows "\<exists>c'. exec_block (asm_check_byte @ b) c = exec_block b c' \<and>
    regs c' = regs c \<and> ram c' = ram c \<and> ip c' = ip c + 17"
  by (rule check_byte_exec(2) [OF inv_facts(3,4) [OF inv] refl assms(2)])

lemma inv_same:
  assumes "jit_inv fr q mem sp s c" and "ram c' = ram c"
    and "regs c' ESP = regs c ESP" and "regs c' EBP = regs c EBP" and "regs c' EBX = regs c EBX"
    and "regs c' EAX = regA t" and "regs c' EDX = regX t" and "scratch t = scratch s"
  shows "jit_inv fr q mem sp t c'"
  using assms unfolding jit_inv_def by (elim conjE, intro conjI) (simp_all only:)

section \<open>Packet bytes\<close>

lemma packet_byte:
  assumes "packet_at q p m" and "unat a < unat (buflen q)"
  shows "m (p + a) = peek (pkt_bytes q) (unat a)"
  using assms by (auto simp: packet_at_def dest!: spec [of _ "unat a"])

lemma bswap_le32: "bswap (le32 b0 b1 b2 b3) = be32 b0 b1 b2 b3"
proof -
  have "[ucast (le32 b0 b1 b2 b3), ucast (drop_bit 8 (le32 b0 b1 b2 b3)),
      ucast (drop_bit 16 (le32 b0 b1 b2 b3)), ucast (drop_bit 24 (le32 b0 b1 b2 b3))] =
      [b0, b1, b2, b3]"
    using le32_bytes_le32 [of b0 b1 b2 b3] by (simp only: le32_bytes_def)
  then show ?thesis by (simp add: bswap_def)
qed

lemma masks:
  "(0xffff0000 :: u32) = NOT (mask 16)" "(0xffff :: u32) = mask 16"
  "(0xffffff00 :: u32) = NOT (mask 8)" "(0xf :: u32) = mask 4" "(0xf :: u8) = mask 4"
  by (simp_all add: mask_eq_exp_minus_1)

lemma u8_bits: "bit (b :: u8) n \<Longrightarrow> n < 8"
  using bit_u8_bound not_less by blast

lemma xchg_be16: "xchg_al_ah (set_low16 0 (be16 b1 b0)) = be16 b0 b1"
proof -
  have low: "set_low16 0 (be16 b1 b0) = be16 b1 b0"
    unfolding set_low16_def masks
    by (rule bit_word_eqI) (auto simp: be16_def bit_simps; drule u8_bits; linarith)
  have "be16 b1 b0 AND 0xffff0000 = 0"
    unfolding masks by (rule bit_word_eqI) (auto simp: be16_def bit_simps; drule u8_bits; linarith)
  moreover have "ucast (be16 b1 b0) = b0" "ucast (drop_bit 8 (be16 b1 b0)) = b1"
    by (rule bit_word_eqI; auto simp: be16_def bit_simps bit_u8_bound)+
  ultimately show ?thesis
    by (simp add: low xchg_al_ah_def)
qed

lemma set_low8_0: "set_low8 0 b = ucast b"
  by (simp add: set_low8_def)

lemma msh_word: "set_low8 (ucast (b :: u8)) (ucast (ucast b :: u32) AND 0xf) = (ucast b :: u32) AND 0xf"
  unfolding set_low8_def masks by (rule bit_word_eqI) (use u8_bits [of b] in \<open>auto simp: bit_simps\<close>)

lemma packet_cells:
  assumes at: "packet_at q p m" and wf: "packet_wf q" and "unat o' + w \<le> unat (buflen q)" and "n < w"
    and "w \<le> 4"
  shows "m (p + o' + of_nat n) = Some (pkt_bytes q ! (unat o' + n))"
proof -
  have "unat o' + n < 4294967296"
    using assms(2-4) by (simp add: packet_wf_def)
  then have u: "unat (o' + of_nat n) = unat o' + n"
    using assms(4,5) by (subst unat_add_small) (simp_all add: unat_of_nat)
  have "m (p + (o' + of_nat n)) = peek (pkt_bytes q) (unat o' + n)"
    using packet_byte [OF at, of "o' + of_nat n"] assms(3,4) by (simp add: u)
  then show ?thesis
    using assms(2-4) by (simp add: packet_wf_def add.assoc)
qed

lemma packet_word:
  assumes "packet_at q p m" and "packet_wf q" and "unat o' + 4 \<le> unat (buflen q)"
  shows "\<exists>b0 b1 b2 b3. read32 m (p + o') = Some (le32 b0 b1 b2 b3) \<and>
    EXTRACT_LONG (pkt_bytes q) (unat o') = Some (be32 b0 b1 b2 b3)"
  using packet_cells [OF assms(1-3), of 0] packet_cells [OF assms(1-3), of 1]
    packet_cells [OF assms(1-3), of 2] packet_cells [OF assms(1-3), of 3] assms(2,3)
  by (simp add: read32_def EXTRACT_LONG_def packet_wf_def) blast

lemma packet_half:
  assumes "packet_at q p m" and "packet_wf q" and "unat o' + 2 \<le> unat (buflen q)"
  shows "\<exists>b0 b1. read16 m (p + o') = Some (be16 b1 b0) \<and>
    EXTRACT_SHORT (pkt_bytes q) (unat o') = Some (be16 b0 b1)"
  using packet_cells [OF assms(1-3), of 0] packet_cells [OF assms(1-3), of 1] assms(2,3)
  by (simp add: read16_def EXTRACT_SHORT_def packet_wf_def) blast

lemma packet_one:
  assumes "packet_at q p m" and "packet_wf q" and "unat o' + 1 \<le> unat (buflen q)"
  shows "\<exists>b. m (p + o') = Some b \<and> peek (pkt_bytes q) (unat o') = Some b"
  using packet_cells [OF assms(1-3), of 0] assms(2,3) by (simp add: packet_wf_def)

section \<open>The instructions\<close>

definition block_size :: "block \<Rightarrow> nat" where
  "block_size b = sum_list (map snd b)"

primrec sim_effect ::
    "frame \<Rightarrow> packet \<Rightarrow> u32 \<Rightarrow> u32 \<Rightarrow> bpf_state \<Rightarrow> nat \<Rightarrow> xout \<Rightarrow> effect \<Rightarrow> bool" where
  "sim_effect fr q mem sp s n r (SetA v) = continues fr q mem sp (s\<lparr>regA := v\<rparr>) n r"
| "sim_effect fr q mem sp s n r (SetX v) = continues fr q mem sp (s\<lparr>regX := v\<rparr>) n r"
| "sim_effect fr q mem sp s n r (Return v) = returned fr sp v r"
| "sim_effect fr q mem sp s n r (Crash f) = True"

lemma continuesI:
  assumes "jit_inv fr q mem sp s c"
    and "case r of Running c' \<Rightarrow> ram c' = ram c \<and> ip c' = n \<and> regs c' ESP = regs c ESP \<and>
        regs c' EBP = regs c EBP \<and> regs c' EBX = regs c EBX \<and> regs c' EAX = regA t \<and>
        regs c' EDX = regX t
      | _ \<Rightarrow> False"
    and "scratch t = scratch s"
  shows "continues fr q mem sp t n r"
  using assms by (auto simp: continues_def split: xout.splits intro: inv_same)

lemma inv_regs:
  assumes "jit_inv fr q mem sp s c"
  shows "regs c EAX = regA s" "regs c EDX = regX s" "regs c EBX = f_pkt fr"
    "packet_at q (f_pkt fr) (ram c)" "read32 (ram c) (sp + 32) = Some (wirelen q)"
  using assms by (simp_all add: jit_inv_def stack_ok_def)

lemma guard_pass:
  assumes "packet_wf q" and "n \<in> {2, 4}" and "\<not> (buflen q \<le> o' \<or> buflen q < o' + n)"
  shows "unat o' + unat n \<le> unat (buflen q)"
  using assms by (intro guard_bound) (auto simp: packet_wf_def)

lemma sim_word:
  assumes inv: "jit_inv fr q mem sp s c" and wf: "packet_wf q" and "regs c ECX = o'"
  shows "sim_effect fr q mem sp s (ip c + 32) (exec_block (asm_check_width 4 @ asm_word) c)
    (if buflen q \<le> o' \<or> buflen q < o' + 4 then Return 0
     else load_A (EXTRACT_LONG (pkt_bytes q) (unat o')))"
proof (cases "buflen q \<le> o' \<or> buflen q < o' + 4")
  case True
  with check_fails [OF inv wf, of 4] assms(3) show ?thesis by simp
next
  case False
  note r = inv_regs [OF inv]
  obtain c' where c': "exec_block (asm_check_width 4 @ asm_word) c = exec_block asm_word c'"
      "regs c' = (regs c)(ESI := o', ECX := o' + 4)" "ram c' = ram c" "ip c' = ip c + 27"
    using check_passes [OF inv, of 4 asm_word] False assms(3) by auto
  have "unat o' + 4 \<le> unat (buflen q)"
    using guard_pass [OF wf _ False] by simp
  from packet_word [OF r(4) wf this] obtain b0 b1 b2 b3
    where m: "read32 (ram c) (f_pkt fr + o') = Some (le32 b0 b1 b2 b3)"
      and x: "EXTRACT_LONG (pkt_bytes q) (unat o') = Some (be32 b0 b1 b2 b3)"
    by blast
  have "continues fr q mem sp (s\<lparr>regA := be32 b0 b1 b2 b3\<rparr>) (ip c + 32) (exec_block asm_word c')"
    by (rule continuesI [OF inv]) (simp_all add: asm_word_def exec_simps c' r m bswap_le32)
  with False show ?thesis by (simp add: x load_A_def c'(1))
qed

lemma sim_half:
  assumes inv: "jit_inv fr q mem sp s c" and wf: "packet_wf q" and "regs c ECX = o'"
  shows "sim_effect fr q mem sp s (ip c + 38) (exec_block (asm_check_width 2 @ asm_half) c)
    (if buflen q \<le> o' \<or> buflen q < o' + 2 then Return 0
     else load_A (EXTRACT_SHORT (pkt_bytes q) (unat o')))"
proof (cases "buflen q \<le> o' \<or> buflen q < o' + 2")
  case True
  with check_fails [OF inv wf, of 2] assms(3) show ?thesis by simp
next
  case False
  note r = inv_regs [OF inv]
  obtain c' where c': "exec_block (asm_check_width 2 @ asm_half) c = exec_block asm_half c'"
      "regs c' = (regs c)(ESI := o', ECX := o' + 2)" "ram c' = ram c" "ip c' = ip c + 27"
    using check_passes [OF inv, of 2 asm_half] False assms(3) by auto
  have "unat o' + 2 \<le> unat (buflen q)"
    using guard_pass [OF wf _ False] by simp
  from packet_half [OF r(4) wf this] obtain b0 b1
    where m: "read16 (ram c) (f_pkt fr + o') = Some (be16 b1 b0)"
      and x: "EXTRACT_SHORT (pkt_bytes q) (unat o') = Some (be16 b0 b1)"
    by blast
  have "continues fr q mem sp (s\<lparr>regA := be16 b0 b1\<rparr>) (ip c + 38) (exec_block asm_half c')"
    by (rule continuesI [OF inv]) (simp_all add: asm_half_def exec_simps c' r m xchg_be16)
  with False show ?thesis by (simp add: x load_A_def c'(1))
qed

lemma sim_byte:
  assumes inv: "jit_inv fr q mem sp s c" and wf: "packet_wf q" and "regs c ECX = o'"
  shows "sim_effect fr q mem sp s (ip c + 25) (exec_block (asm_check_byte @ asm_byte) c)
      (if buflen q \<le> o' then Return 0 else load_byte_A (peek (pkt_bytes q) (unat o')))"
    and "sim_effect fr q mem sp s (ip c + 31) (exec_block (asm_check_byte @ asm_msh) c)
      (if buflen q \<le> o' then Return 0 else load_msh (peek (pkt_bytes q) (unat o')))"
proof -
  note r = inv_regs [OF inv]
  let ?ok = "\<not> buflen q \<le> o'"
  have b: "\<exists>b. ram c (f_pkt fr + o') = Some b \<and> peek (pkt_bytes q) (unat o') = Some b" if ?ok
    using that by (intro packet_one [OF r(4) wf]) (simp add: word_le_nat_alt)
  have pass: "\<exists>c'. exec_block (asm_check_byte @ bl) c = exec_block bl c' \<and>
      regs c' = regs c \<and> ram c' = ram c \<and> ip c' = ip c + 17" if ?ok for bl
    using check_byte_passes [OF inv, of bl] that assms(3) by simp
  have fail: "returned fr sp 0 (exec_block (asm_check_byte @ bl) c)" if "\<not> ?ok" for bl
    using check_byte_fails [OF inv, of bl] that assms(3) by simp
  show "sim_effect fr q mem sp s (ip c + 25) (exec_block (asm_check_byte @ asm_byte) c)
      (if buflen q \<le> o' then Return 0 else load_byte_A (peek (pkt_bytes q) (unat o')))"
  proof (cases ?ok)
    case True
    from b [OF True] pass [OF True, of asm_byte] obtain b c'
      where m: "ram c (f_pkt fr + o') = Some b" "peek (pkt_bytes q) (unat o') = Some b"
        and c': "exec_block (asm_check_byte @ asm_byte) c = exec_block asm_byte c'"
          "regs c' = regs c" "ram c' = ram c" "ip c' = ip c + 17"
      by blast
    have "continues fr q mem sp (s\<lparr>regA := ucast b\<rparr>) (ip c + 25) (exec_block asm_byte c')"
      by (rule continuesI [OF inv])
        (simp_all add: asm_byte_def exec_simps c' r m assms(3) set_low8_0)
    with True show ?thesis by (simp add: m load_byte_A_def load_A_def c'(1))
  qed (use fail [of asm_byte] in simp)
  show "sim_effect fr q mem sp s (ip c + 31) (exec_block (asm_check_byte @ asm_msh) c)
      (if buflen q \<le> o' then Return 0 else load_msh (peek (pkt_bytes q) (unat o')))"
  proof (cases ?ok)
    case True
    from b [OF True] pass [OF True, of asm_msh] obtain b c'
      where m: "ram c (f_pkt fr + o') = Some b" "peek (pkt_bytes q) (unat o') = Some b"
        and c': "exec_block (asm_check_byte @ asm_msh) c = exec_block asm_msh c'"
          "regs c' = regs c" "ram c' = ram c" "ip c' = ip c + 17"
      by blast
    have "continues fr q mem sp (s\<lparr>regX := push_bit 2 ((ucast b :: u32) AND 0xf)\<rparr>) (ip c + 31)
        (exec_block asm_msh c')"
      by (rule continuesI [OF inv])
        (simp_all add: asm_msh_def exec_simps c' r m assms(3) set_low8_0 msh_word)
    with True show ?thesis by (simp add: m load_msh_def c'(1))
  qed (use fail [of asm_msh] in simp)
qed

end
