(* ===== verification/Jit_Correct.thy ===== *)
theory Jit_Correct
  imports Jit_Sim
begin

text \<open>
  The remaining instruction groups of the simulation, and its composition: from the state the
  prologue reaches, the compiled code follows the interpreter instruction by instruction and
  returns what it returns.
\<close>

section \<open>The scratch memory\<close>

lemma of_nat_u32_inj:
  "(of_nat a :: u32) = of_nat b \<Longrightarrow> a < 4294967296 \<Longrightarrow> b < 4294967296 \<Longrightarrow> a = b"
  by (drule arg_cong [where f = unat]) (simp add: unat_of_nat)

lemma cell_outside:
  assumes "\<forall>i < 64. mem + of_nat i \<noteq> a" and "n < BPF_MEMWORDS"
  shows "upd32 m (mem + 4 * of_nat n) v a = m a"
proof (rule upd32_other)
  have "a \<noteq> mem + 4 * of_nat n + of_nat e" if "e \<le> 3" for e
    using assms(1) that assms(2) by (auto dest!: spec [of _ "4 * n + e"] simp: add.assoc)
  from this [of 0] this [of 1] this [of 2] this [of 3]
  show "mem + 4 * of_nat n - a \<notin> {0, - 1, - 2, - 3}"
    by (auto simp: diff_eq_eq eq_neg_iff_add_eq_0 algebra_simps)
qed

lemma cells_apart:
  assumes "i < BPF_MEMWORDS" and "n < BPF_MEMWORDS" and "i \<noteq> n"
  shows "apart (mem + 4 * of_nat n) (mem + 4 * of_nat i)"
proof -
  have ne: "4 * of_nat a + of_nat e \<noteq> (4 * of_nat b :: u32)"
    if "a < BPF_MEMWORDS" "b < BPF_MEMWORDS" "a \<noteq> b" "e \<le> 3" for a b e
  proof
    assume "4 * of_nat a + of_nat e = (4 * of_nat b :: u32)"
    then have "(of_nat (4 * a + e) :: u32) = of_nat (4 * b)" by simp
    from of_nat_u32_inj [OF this] that show False by presburger
  qed
  from ne [OF assms(1,2,3), of 0] ne [OF assms(1,2,3), of 1] ne [OF assms(1,2,3), of 2]
    ne [OF assms(1,2,3), of 3]
    ne [OF assms(2,1) assms(3) [symmetric], of 1] ne [OF assms(2,1) assms(3) [symmetric], of 2]
    ne [OF assms(2,1) assms(3) [symmetric], of 3]
  show ?thesis
    by (auto simp: apart_def diff_eq_eq eq_neg_iff_add_eq_0 algebra_simps)
qed

lemma read32_cong:
  assumes "\<And>j. j < 4 \<Longrightarrow> m' (a + of_nat j) = m (a + of_nat j)"
  shows "read32 m' a = read32 m a"
  using assms [of 0] assms [of 1] assms [of 2] assms [of 3] by (simp add: read32_def)

lemma stack_ok_cong:
  assumes "\<And>j. j < 40 \<Longrightarrow> m' (sp + of_nat j) = m (sp + of_nat j)"
  shows "stack_ok fr q sp m' = stack_ok fr q sp m"
proof -
  have "read32 m' (sp + of_nat i) = read32 m (sp + of_nat i)" if "i < 37" for i
    by (rule read32_cong) (use that assms [of "i + j" for j] in \<open>simp add: add.assoc\<close>)
  from this [of 0] this [of 4] this [of 8] this [of 12] this [of 16] this [of 20] this [of 24]
    this [of 28] this [of 32] this [of 36]
  show ?thesis by (simp add: stack_ok_def)
qed

lemma inv_store:
  assumes inv: "jit_inv fr q mem sp s c" and "n < BPF_MEMWORDS"
    and "ram c' = upd32 (ram c) (mem + 4 * of_nat n) v"
    and "regs c' ESP = regs c ESP" and "regs c' EBP = regs c EBP" and "regs c' EBX = regs c EBX"
    and "regs c' EAX = regs c EAX" and "regs c' EDX = regs c EDX"
    and "t = s\<lparr>scratch := (scratch s)[n := v]\<rparr>"
  shows "jit_inv fr q mem sp t c'"
proof -
  have sep: "separate fr q mem sp"
    using inv by (simp add: jit_inv_def)
  have "ram c' (sp + of_nat j) = ram c (sp + of_nat j)" if "j < 40" for j
    unfolding assms(3) by (rule cell_outside) (use sep that assms(2) in \<open>auto simp: separate_def\<close>)
  then have "stack_ok fr q sp (ram c') = stack_ok fr q sp (ram c)"
    by (rule stack_ok_cong)
  moreover have "ram c' (f_pkt fr + of_nat j) = ram c (f_pkt fr + of_nat j)"
    if "j < unat (buflen q)" for j
    unfolding assms(3) by (rule cell_outside) (use sep that assms(2) in \<open>auto simp: separate_def\<close>)
  then have "packet_at q (f_pkt fr) (ram c') = packet_at q (f_pkt fr) (ram c)"
    by (simp add: packet_at_def)
  moreover have "scratch_at ((scratch s)[n := v]) mem (ram c')"
    using inv assms(2) cells_apart [of _ n mem]
    by (auto simp: scratch_at_def jit_inv_def assms(3) nth_list_update read32_upd_apart)
  ultimately show ?thesis
    using inv assms(4-9) unfolding jit_inv_def by (elim conjE, intro conjI) simp_all
qed

lemma scratch_cell:
  assumes "jit_inv fr q mem sp s c" and "unat kv < length (scratch s)"
  shows "read32 (ram c) (mem + kv * 4) = Some (scratch s ! unat kv)"
    and "mapped (ram c) (mem + kv * 4)" and "unat kv < BPF_MEMWORDS"
proof -
  have at: "\<forall>i < BPF_MEMWORDS. read32 (ram c) (mem + 4 * of_nat i) = Some (scratch s ! i)"
    and len: "length (scratch s) = BPF_MEMWORDS"
    using assms(1) by (simp_all add: jit_inv_def scratch_at_def)
  show "unat kv < BPF_MEMWORDS" using assms(2) len by simp
  with at have "read32 (ram c) (mem + 4 * of_nat (unat kv)) = Some (scratch s ! unat kv)" by blast
  then show "read32 (ram c) (mem + kv * 4) = Some (scratch s ! unat kv)"
    by (simp add: mult.commute)
  then show "mapped (ram c) (mem + kv * 4)" by (rule mapped_read)
qed

section \<open>Loads\<close>

lemma sim_load:
  assumes inv: "jit_inv fr q mem sp s c" and wf: "packet_wf q"
  shows "sim_effect fr q mem sp s (ip c + block_size (asm_load mem l (k ins)))
    (exec_block (asm_load mem l (k ins)) c) (bpf_load q l ins s)"
proof -
  let ?abs = "set_reg ECX (k ins) (c\<lparr>ip := ip c + 5\<rparr>)"
  let ?ind = "set_reg ECX (k ins + regX s) (c\<lparr>ip := ip c + 7, flg := None,
      regs := (regs c)(ECX := k ins)\<rparr>)"
  note r = inv_regs [OF inv] inv_facts [OF inv]
  have abs: "jit_inv fr q mem sp s ?abs" and ind: "jit_inv fr q mem sp s ?ind"
    by (rule inv_same [OF inv]; simp add: r)+
  have abs_exec: "exec_block ([(MOV_RI ECX (k ins), 5)] @ b) c = exec_block b ?abs" for b
    by simp
  have ind_exec: "exec_block ([(MOV_RI ECX (k ins), 5), (BIN_RR ADD ECX EDX, 2)] @ b) c =
      exec_block b ?ind" for b
    by (simp add: r set_reg_def add.commute)
  note sizes = block_size_def asm_check_width_def asm_check_byte_def asm_fail_def
    asm_epilogue_def asm_word_def asm_half_def asm_byte_def asm_msh_def asm_cell_def
  have abs_ecx: "regs ?abs ECX = k ins" and ind_ecx: "regs ?ind ECX = regX s + k ins"
    by (simp_all add: add.commute)
  note abs_rules = sim_word [OF abs wf abs_ecx] sim_half [OF abs wf abs_ecx]
    sim_byte [OF abs wf abs_ecx]
  note ind_rules = sim_word [OF ind wf ind_ecx] sim_half [OF ind wf ind_ecx]
    sim_byte(1) [OF ind wf ind_ecx]
  have mem_load: "sim_effect fr q mem sp s (ip c + block_size (asm_load mem l (k ins)))
      (exec_block (asm_load mem l (k ins)) c) (bpf_load q l ins s)" if "l \<in> {LD_MEM, LDX_MEM}"
  proof (cases "unat (k ins) < length (scratch s)")
    case True
    note cell = scratch_cell [OF inv True]
    from that show ?thesis
      by (elim insertE emptyE)
        (simp add: True, rule continuesI [OF inv],
          simp_all add: exec_simps sizes cell r add.commute)+
  next
    case False
    with that show ?thesis by auto
  qed
  have size: "ip c + block_size (asm_load mem l (k ins)) = (case l of
      LD_W_ABS \<Rightarrow> ip ?abs + 32 | LD_H_ABS \<Rightarrow> ip ?abs + 38 | LD_B_ABS \<Rightarrow> ip ?abs + 25
    | LD_W_LEN \<Rightarrow> ip c + 3 | LDX_W_LEN \<Rightarrow> ip c + 3
    | LD_W_IND \<Rightarrow> ip ?ind + 32 | LD_H_IND \<Rightarrow> ip ?ind + 38 | LD_B_IND \<Rightarrow> ip ?ind + 25
    | LDX_MSH_B \<Rightarrow> ip ?abs + 31 | LD_IMM \<Rightarrow> ip c + 5 | LDX_IMM \<Rightarrow> ip c + 5
    | LD_MEM \<Rightarrow> ip c + 13 | LDX_MEM \<Rightarrow> ip c + 13)"
    by (cases l) (simp_all add: sizes)
  have simple: "sim_effect fr q mem sp s (ip c + block_size (asm_load mem l (k ins)))
      (exec_block (asm_load mem l (k ins)) c) (bpf_load q l ins s)"
    if "l \<in> {LD_W_LEN, LDX_W_LEN, LD_IMM, LDX_IMM}"
    using that
    by - (elim insertE emptyE; simp; rule continuesI [OF inv];
        simp add: exec_simps sizes r add.assoc)
  show ?thesis
  proof (cases "l \<in> {LD_MEM, LDX_MEM} \<union> {LD_W_LEN, LDX_W_LEN, LD_IMM, LDX_IMM}")
    case True
    with mem_load simple show ?thesis by blast
  next
    case False
    then show ?thesis
      unfolding size using abs_rules ind_rules
      by (cases l) (simp_all only: asm_load.simps abs_exec ind_exec bpf_load.simps Let_def
          load_op.case insert_iff Un_iff simp_thms)
  qed
qed

section \<open>Stores, arithmetic and register transfers\<close>

lemma sim_store:
  assumes inv: "jit_inv fr q mem sp s c" and st: "bpf_store t ins s = Some xs"
  shows "continues fr q mem sp (s\<lparr>scratch := xs\<rparr>) (ip c + block_size (asm_store mem t (k ins)))
    (exec_block (asm_store mem t (k ins)) c)"
proof -
  have n: "unat (k ins) < length (scratch s)"
    using st by (auto simp: bpf_store_def Let_def split: if_splits)
  note r = inv_regs [OF inv] inv_facts [OF inv] and cell = scratch_cell [OF inv n]
  define v where "v = (case t of ST \<Rightarrow> regA s | STX \<Rightarrow> regX s)"
  have xs: "xs = (scratch s)[unat (k ins) := v]"
    using st by (auto simp: bpf_store_def v_def Let_def split: if_splits)
  have "\<exists>c'. exec_block (asm_store mem t (k ins)) c = Running c' \<and>
      ram c' = upd32 (ram c) (mem + k ins * 4) v \<and> ip c' = ip c + 13 \<and>
      regs c' = (regs c)(ECX := mem, ESI := k ins * 4)"
    by (cases t) (simp_all add: exec_simps r cell write32_eq v_def)
  then obtain c' where c': "exec_block (asm_store mem t (k ins)) c = Running c'"
      "ram c' = upd32 (ram c) (mem + 4 * of_nat (unat (k ins))) v" "ip c' = ip c + 13"
      "regs c' = (regs c)(ECX := mem, ESI := k ins * 4)"
    by (auto simp: mult.commute)
  have "jit_inv fr q mem sp (s\<lparr>scratch := xs\<rparr>) c'"
    by (rule inv_store [OF inv cell(3) c'(2)]) (simp_all add: c'(4) xs)
  moreover have "block_size (asm_store mem t (k ins)) = 13"
    by (cases t) (simp_all add: block_size_def asm_cell_def)
  ultimately show ?thesis
    by (simp add: continues_def c')
qed

lemma mul_low: "(of_nat (unat a * unat b) :: u32) = a * b"
  by simp

lemma div_word:
  assumes "d \<noteq> 0"
  shows "\<not> 2 ^ 32 \<le> unat (a :: u32) div unat (d :: u32) \<and>
    (of_nat (unat a div unat d) :: u32) = a div d \<and> 0 < unat d"
proof -
  have "0 < unat d"
    using assms unat_eq_0 [of d] by linarith
  moreover have "\<not> 2 ^ 32 \<le> unat a div unat d \<and> (of_nat (unat a div unat d) :: u32) = a div d"
    using le_less_trans [OF div_le_dividend unat_lt, of a "unat d"]
    by (simp add: not_le word_arith_nat_div)
  ultimately show ?thesis by blast
qed

lemma shift_amount:
  assumes "x < (32 :: u32)"
  shows "unat (x AND 31) = unat x" "unat (ucast (x AND 255) AND (31 :: u8)) = unat x"
proof -
  have "take_bit 5 (unat x) = unat x"
    using assms by (intro take_bit_nat_eq_self) (simp add: word_less_nat_alt)
  then have "take_bit 5 x = x"
    by (simp add: word_unat_eq_iff unsigned_take_bit_eq)
  then have 31: "x AND 31 = x"
    by (simp add: take_bit_eq_mask mask_eq_exp_minus_1)
  then show "unat (x AND 31) = unat x" by simp
  have "unat x < 32" using assms by (simp add: word_less_nat_alt)
  have "ucast (x AND 255) AND (31 :: u8) = ucast (x AND 31)"
  proof -
    have masks: "(255 :: u32) = mask 8" "(31 :: u32) = mask 5" "(31 :: u8) = mask 5"
      by (simp_all add: mask_eq_exp_minus_1)
    show ?thesis
      unfolding masks by (rule bit_word_eqI) (auto simp: bit_simps)
  qed
  then have "ucast (x AND 255) AND (31 :: u8) = ucast x"
    by (simp only: 31)
  with \<open>unat x < 32\<close> show "unat (ucast (x AND 255) AND (31 :: u8)) = unat x"
    by (simp add: unsigned_ucast_eq take_bit_nat_eq_self)
qed

lemma sim_alu:
  assumes inv: "jit_inv fr q mem sp s c"
  shows "sim_effect fr q mem sp s (ip c + block_size (asm_alu a kv)) (exec_block (asm_alu a kv) c)
    (bpf_alu a kv (regA s) (regX s))"
proof -
  note r = inv_regs [OF inv] inv_facts [OF inv]
  have plain: "sim_effect fr q mem sp s (ip c + block_size (asm_alu a kv))
      (exec_block (asm_alu a kv) c) (bpf_alu a kv (regA s) (regX s))"
    if "a \<in> {ADD_X, SUB_X, MUL_X, AND_X, OR_X, ADD_K, SUB_K, MUL_K, AND_K, OR_K, NEG}"
    using that
    by - (elim insertE emptyE; simp; rule continuesI [OF inv]; simp add: block_size_def r)
  have shifts: "sim_effect fr q mem sp s (ip c + block_size (asm_alu a kv))
      (exec_block (asm_alu a kv) c) (bpf_alu a kv (regA s) (regX s))"
    if "a \<in> {LSH_X, RSH_X}"
  proof (cases "regX s < 32")
    case True
    from that True shift_amount(1) [OF True] show ?thesis
      by - (elim insertE emptyE; simp add: shift_left_def shift_right_def;
          intro continuesI [OF inv]; simp add: block_size_def r)
  next
    case False
    with that show ?thesis by (auto simp: shift_left_def shift_right_def)
  qed
  have shifts_k: "sim_effect fr q mem sp s (ip c + block_size (asm_alu a kv))
      (exec_block (asm_alu a kv) c) (bpf_alu a kv (regA s) (regX s))"
    if "a \<in> {LSH_K, RSH_K}"
  proof (cases "kv < 32")
    case True
    from that True shift_amount(2) [OF True] show ?thesis
      by - (elim insertE emptyE; simp add: shift_left_def shift_right_def;
          intro continuesI [OF inv]; simp add: block_size_def r)
  next
    case False
    with that show ?thesis by (auto simp: shift_left_def shift_right_def)
  qed
  have div_k: "sim_effect fr q mem sp s (ip c + block_size (asm_alu a kv))
      (exec_block (asm_alu a kv) c) (bpf_alu a kv (regA s) (regX s))"
    if "a = DIV_K"
  proof (cases "kv = 0")
    case False
    from that False div_word [OF False, of "regA s"] show ?thesis
      by - (simp; intro continuesI [OF inv]; simp add: block_size_def r Let_def)
  qed (use that in simp)
  have div_x: "sim_effect fr q mem sp s (ip c + block_size (asm_alu a kv))
      (exec_block (asm_alu a kv) c) (bpf_alu a kv (regA s) (regX s))"
    if "a = DIV_X"
  proof (cases "regX s = 0")
    case False
    from that False div_word [OF False, of "regA s"] show ?thesis
      by - (simp add: cmp_flags_def r asm_fail_def asm_epilogue_def;
          intro continuesI [OF inv];
          simp add: block_size_def r Let_def asm_fail_def asm_epilogue_def)
  next
    case True
    let ?b = "[(MOV_RR ECX EDX, 2), (MOV_RI EDX 0, 5), (DIV_R ECX, 2), (MOV_RR EDX ECX, 2)]"
    have "\<exists>c'. exec_block (asm_alu DIV_X kv) c = exec_block (asm_fail @ ?b) c' \<and>
        ram c' = ram c \<and> regs c' ESP = sp"
      using True by (simp add: r cmp_flags_def) (rule exI, rule conjI, rule refl, simp add: r)
    then have "returned fr sp 0 (exec_block (asm_alu DIV_X kv) c)"
      using fail_block [OF inv] by metis
    then show ?thesis
      using True that by simp
  qed
  show ?thesis
    using plain shifts shifts_k div_k div_x by (cases a) simp_all
qed

lemma sim_misc:
  assumes inv: "jit_inv fr q mem sp s c"
  shows "sim_effect fr q mem sp s (ip c + block_size (asm_misc m)) (exec_block (asm_misc m) c)
    (bpf_misc m s)"
  using inv_regs [OF inv]
  by - (cases m; simp; rule continuesI [OF inv]; simp add: block_size_def)

lemma sim_ret:
  assumes inv: "jit_inv fr q mem sp s c"
  shows "sim_effect fr q mem sp s n (exec_block (asm_ret r (k ins)) c) (bpf_ret r ins s)"
proof (cases r)
  case RET_K
  let ?c = "set_reg EAX (k ins) (c\<lparr>ip := ip c + 5\<rparr>)"
  have "exec_block (asm_ret RET_K (k ins)) c = exec_block (asm_epilogue @ [(RETN, 1)]) ?c"
    by simp
  moreover have "returned fr sp (regs ?c EAX) (exec_block (asm_epilogue @ [(RETN, 1)]) ?c)"
    by (rule epilogue_returns(1) [of fr q]) (use inv_facts [OF inv] in simp_all)
  ultimately show ?thesis using RET_K by simp
next
  case RET_A
  have "returned fr sp (regs c EAX) (exec_block (asm_epilogue @ [(RETN, 1)]) c)"
    by (rule epilogue_returns(1) [of fr q]) (use inv_facts [OF inv] in simp_all)
  then show ?thesis using RET_A inv_regs [OF inv] by simp
qed

section \<open>Jumps\<close>

text \<open>A taken jump ends the block; the 5 added to \<open>dt\<close> is the size of the JMP it jumps over.\<close>

lemma branch_exec:
  assumes "flg c = Some f" and "unat (dt :: u32) < 2147483643" and "unat (df :: u32) < 2147483643"
  shows "exec_block (asm_branch cc dt df) c =
    Running (c\<lparr>ip := ip c + 11 + (if cond_holds cc f then unat dt else unat df)\<rparr>)"
proof -
  obtain a b where a: "unat dt = a" and b: "unat df = b" by simp
  have "unat (dt + 5) = a + 5"
    using assms(2) a unat_add_small [of dt 5] by simp
  then have t: "sint (dt + 5) = int (a + 5)"
    using assms(2) a by (subst sint_small) simp_all
  have d: "sint df = int b"
    using assms(3) b sint_small [of df] by simp
  have leave: "(case skip (a + 5) [(i, 5)] of None \<Rightarrow> Running c' | Some b' \<Rightarrow> exec_block b' c') =
      Running c'" for i c'
    by simp
  have ips: "nat (int (ip c + 6) + int (a + 5)) = ip c + 11 + a"
    "nat (int (ip c + 6 + 5) + int b) = ip c + 11 + b"
    by linarith+
  show ?thesis
  proof (cases "cond_holds cc f")
    case True
    then have "x86_exec (JCC cc (sint (dt + 5))) (c\<lparr>ip := ip c + 6\<rparr>) =
        Running (c\<lparr>ip := ip c + 11 + a\<rparr>)"
      unfolding t using assms(1) ips(1) by simp
    moreover have "ip c + 11 + a - (ip c + 6) = a + 5" by simp
    ultimately have "exec_block (asm_branch cc dt df) c =
        (case skip (a + 5) [(JMP_REL (sint df), 5)] of
           None \<Rightarrow> Running (c\<lparr>ip := ip c + 11 + a\<rparr>)
         | Some b' \<Rightarrow> exec_block b' (c\<lparr>ip := ip c + 11 + a\<rparr>))"
      by (simp add: asm_branch_def add.commute [of a] del: skip.simps x86_exec.simps)
    with True show ?thesis unfolding leave by (simp add: a)
  next
    case False
    then have "x86_exec (JCC cc (sint (dt + 5))) (c\<lparr>ip := ip c + 6\<rparr>) =
        Running (c\<lparr>ip := ip c + 6\<rparr>)"
      using assms(1) by simp
    moreover have "x86_exec (JMP_REL (sint df)) (c\<lparr>ip := ip c + 6 + 5\<rparr>) =
        Running (c\<lparr>ip := ip c + 11 + b\<rparr>)"
      unfolding d using ips(2) by simp
    ultimately have "exec_block (asm_branch cc dt df) c = Running (c\<lparr>ip := ip c + 11 + b\<rparr>)"
      by (simp add: asm_branch_def del: x86_exec.simps split: option.split)
    with False show ?thesis by (simp add: b)
  qed
qed

lemma sint_range: "- 2147483648 \<le> sint (x :: u32) \<and> sint x < 2147483648"
  using sint_greater_eq [of x] sint_less [of x] by simp

lemma signed_less_flags:
  "sf (cmp_flags a b) \<noteq> ovf (cmp_flags a b) \<longleftrightarrow> sint a < sint b"
proof -
  obtain x y where x: "sint a = x" and y: "sint b = y" by simp
  have r: "- 2147483648 \<le> x" "x < 2147483648" "- 2147483648 \<le> y" "y < 2147483648"
    using sint_range [of a] sint_range [of b] x y by simp_all
  have d: "sint (a - b) = signed_take_bit 31 (x - y)"
    by (simp add: sint_word_ariths(2) x y)
  consider "- 2147483648 \<le> x - y" "x - y < 2147483648" | "2147483648 \<le> x - y"
    | "x - y < - 2147483648"
    by linarith
  then have "sint (a - b) = x - y \<or> sint (a - b) < 0 \<and> 0 < x - y \<or>
      0 \<le> sint (a - b) \<and> x - y < - 2147483648"
  proof cases
    case 1
    then have "sint (a - b) = x - y"
      unfolding d by (intro signed_take_bit_int_eq_self) simp_all
    then show ?thesis by simp
  next
    case 2
    then have "signed_take_bit 31 (x - y) \<le> x - y - 2 ^ Suc 31"
      by (intro signed_take_bit_int_less_eq) simp
    also have "\<dots> = x - y - 4294967296" by simp
    finally show ?thesis unfolding d using r 2 by linarith
  next
    case 3
    then have "x - y + 2 ^ Suc 31 \<le> signed_take_bit 31 (x - y)"
      by (intro signed_take_bit_int_greater_eq) simp
    moreover have "x - y + 2 ^ Suc 31 = x - y + 4294967296" by simp
    ultimately show ?thesis unfolding d using r 3 by linarith
  qed
  then show ?thesis
    unfolding cmp_flags_def flags.simps x y by (elim disjE conjE) auto
qed

lemma cmp_conditions:
  "cond_holds C_G (cmp_flags a b) \<longleftrightarrow> sint a > sint b"
  "cond_holds C_GE (cmp_flags a b) \<longleftrightarrow> sint a \<ge> sint b"
  "cond_holds C_E (cmp_flags a b) \<longleftrightarrow> sint a = sint b"
  "cond_holds C_A (cmp_flags a b) \<longleftrightarrow> a > b"
  "cond_holds C_AE (cmp_flags a b) \<longleftrightarrow> a \<ge> b"
  "cond_holds C_E (and_flags a) \<longleftrightarrow> a = 0"
proof -
  have eq: "zf (cmp_flags a b) \<longleftrightarrow> sint a = sint b"
    by (simp add: cmp_flags_def signed_word_eqI word_eq_iff_signed)
  show "cond_holds C_G (cmp_flags a b) \<longleftrightarrow> sint a > sint b"
    using signed_less_flags [of a b] eq by auto
  show "cond_holds C_GE (cmp_flags a b) \<longleftrightarrow> sint a \<ge> sint b"
    using signed_less_flags [of a b] by auto
  show "cond_holds C_E (cmp_flags a b) \<longleftrightarrow> sint a = sint b"
    using eq by simp
  show "cond_holds C_A (cmp_flags a b) \<longleftrightarrow> a > b" "cond_holds C_AE (cmp_flags a b) \<longleftrightarrow> a \<ge> b"
    by (auto simp: cmp_flags_def)
  show "cond_holds C_E (and_flags a) \<longleftrightarrow> a = 0"
    by (simp add: and_flags_def)
qed

lemma sim_jump:
  assumes inv: "jit_inv fr q mem sp s c"
    and dt: "unat dt < 2147483643" and df: "unat df < 2147483643"
  shows "continues fr q mem sp s
    (ip c + block_size (asm_jump j (k ins) dt df) +
      (if bpf_cond j (k ins) (regA s) (regX s) then unat dt else unat df))
    (exec_block (asm_jump j (k ins) dt df) c)"
proof (cases "j = JMP_JA")
  case True
  obtain a where a: "unat dt = a" by simp
  have "sint dt = int a"
    using dt a sint_small [of dt] by simp
  moreover have "nat (int (ip c + 5) + int a) = ip c + 5 + a" by linarith
  ultimately have "exec_block (asm_jump j (k ins) dt df) c = Running (c\<lparr>ip := ip c + 5 + a\<rparr>)"
    using True by (simp split: option.split)
  with True a show ?thesis
    by (intro continuesI [OF inv]) (simp_all add: inv_regs [OF inv] block_size_def)
next
  case False
  note r = inv_regs [OF inv]
  note branch = branch_exec [OF _ dt df] branch_exec [OF _ df dt]
  let ?n = "ip c + block_size (asm_jump j (k ins) dt df) +
      (if bpf_cond j (k ins) (regA s) (regX s) then unat dt else unat df)"
  have "\<exists>c'. exec_block (asm_jump j (k ins) dt df) c = Running c' \<and> ram c' = ram c \<and>
      ip c' = ?n \<and> (\<forall>r. r \<noteq> ECX \<longrightarrow> regs c' r = regs c r)"
    using False
    by (cases j) (simp_all add: r branch cmp_conditions word_eq_iff_signed [symmetric] block_size_def asm_branch_def
        [THEN arg_cong [where f = "\<lambda>b. sum_list (map snd b)"]] del: cond_holds.simps)
  then show ?thesis
    by (auto simp: r intro!: continuesI [OF inv])
qed

section \<open>One instruction\<close>

text \<open>The processor reaches, in some number of steps, what the step of the interpreter asks for.\<close>

primrec sim_outcome ::
    "u8 list \<Rightarrow> bpf_insn list \<Rightarrow> frame \<Rightarrow> packet \<Rightarrow> u32 \<Rightarrow> u32 \<Rightarrow> cpu \<Rightarrow> outcome \<Rightarrow> bool" where
  "sim_outcome cd prog fr q mem sp c (Next t) =
     (\<exists>n. continues fr q mem sp t (jit_off prog (bpc t)) (x86_run cd n c))"
| "sim_outcome cd prog fr q mem sp c (Done v) = (\<exists>n. returned fr sp v (x86_run cd n c))"
| "sim_outcome cd prog fr q mem sp c (Crashed f) = True"

lemma decodes_length: "decodes bs b \<Longrightarrow> length bs = block_size b"
proof (induction bs b rule: decodes.induct)
  case (2 bs i n b)
  then show ?case by (auto simp: block_size_def)
qed (simp add: block_size_def)

lemma asm_size: "block_size (asm_op mem op kv dt df) = op_size op"
  using decodes_length [OF decodes_jit_op, of mem op kv dt df]
    length_emission_bytes [OF jit_op_wf, of mem op kv dt df] jit_op_size [of mem op kv dt df]
  by simp

lemma continues_scratch:
  "continues fr q mem sp t n r \<Longrightarrow> regA u = regA t \<Longrightarrow> regX u = regX t \<Longrightarrow> scratch u = scratch t \<Longrightarrow>
    continues fr q mem sp u n r"
  by (auto simp: continues_def jit_inv_def)

lemma disp_value:
  assumes "i < length prog" and "i + 1 + unat w \<le> length prog" and "length prog < 33554432"
  shows "jit_disp (offset_table prog) (Suc i) w =
      Some (of_nat (jit_off prog (Suc i + unat w) - jit_off prog (Suc i)))"
    and "jit_off prog (Suc i + unat w) - jit_off prog (Suc i) < 2147483643"
proof -
  have le: "jit_off prog (Suc i) \<le> jit_off prog (Suc i + unat w)"
    by (rule jit_off_mono) simp
  have "length (offset_table prog) = Suc (length prog)"
    by (simp add: offset_table_def)
  then show "jit_disp (offset_table prog) (Suc i) w =
      Some (of_nat (jit_off prog (Suc i + unat w) - jit_off prog (Suc i)))"
    using assms le
    by (subst jit_disp_Some) (simp_all add: offset_table_def of_nat_diff del: upt_Suc)
  show "jit_off prog (Suc i + unat w) - jit_off prog (Suc i) < 2147483643"
    using jit_off_bound [of prog "Suc i + unat w"] assms(3) by linarith
qed

lemma sim_step:
  assumes inv: "jit_inv fr q mem sp s c" and wf: "packet_wf q"
    and ok: "body_ok (length prog) 0 prog" and small: "length prog < 33554432"
    and i: "bpc s < length prog" and ip: "ip c = jit_off prog (bpc s)"
  shows "sim_outcome (compiled mem prog) prog fr q mem sp c
    (bpf_step (bpf_load q) (prog ! bpc s) s)"
proof -
  let ?ins = "prog ! bpc s" and ?cd = "compiled mem prog" and ?next = "jit_off prog (Suc (bpc s))"
  have jok: "jit_ok (length prog) (bpc s) ?ins"
    using ok i by (simp add: body_ok_def)
  then obtain op where op: "bpf_decode (code ?ins) = Some op"
    by (auto simp: jit_ok_def split: option.splits)
  obtain es where es: "jit_insn mem (offset_table prog) (Suc (bpc s)) ?ins = Inr es"
    using jit_insn_defined [OF jok, of "offset_table prog" mem] i small
    by (auto simp: offset_table_def)
  then obtain dt df where disps: "jit_disps (offset_table prog) (Suc (bpc s)) op ?ins = Some (dt, df)"
      and es': "es = jit_op mem op (k ?ins) dt df"
    using op by (auto simp: jit_insn_def split: option.splits)
  obtain rest where "drop (ip c) ?cd = emission_bytes es @ rest"
    using compiled_at [OF ok small i, of mem] es ip by (auto simp: ins_emission_def)
  from exec_block_sound [OF decodes_jit_op this [unfolded es']]
  obtain n where run: "x86_run ?cd n c = exec_block (asm_op mem op (k ?ins) dt df) c"
    by blast
  have size: "ip c + block_size (asm_op mem op (k ?ins) dt df) = ?next"
    using jit_off_Suc [OF i] op ip asm_size by (simp add: ins_size_def)
  have effect: "sim_outcome ?cd prog fr q mem sp c (apply_effect e s)"
    if "sim_effect fr q mem sp s ?next (x86_run ?cd n c) e" for e
    using that by (cases e) (auto intro!: exI [of _ n] elim!: continues_scratch)
  show ?thesis
  proof (cases op)
    case (Ret r)
    with op run show ?thesis
      using effect [of "bpf_ret r ?ins s"] sim_ret [OF inv, of ?next r ?ins]
      by (simp add: bpf_step_def asm_op_def)
  next
    case (Load l)
    with op run size show ?thesis
      using effect [of "bpf_load q l ?ins s"] sim_load [OF inv wf, of l ?ins]
      by (simp add: bpf_step_def asm_op_def)
  next
    case (Alu a)
    with op run size show ?thesis
      using effect [of "bpf_alu a (k ?ins) (regA s) (regX s)"] sim_alu [OF inv, of a "k ?ins"]
      by (simp add: bpf_step_def asm_op_def)
  next
    case (Misc m)
    with op run size show ?thesis
      using effect [of "bpf_misc m s"] sim_misc [OF inv, of m]
      by (simp add: bpf_step_def asm_op_def)
  next
    case (Store t)
    show ?thesis
    proof (cases "bpf_store t ?ins s")
      case None
      with Store op show ?thesis by (simp add: bpf_step_def)
    next
      case (Some xs)
      have "continues fr q mem sp (s\<lparr>scratch := xs, bpc := Suc (bpc s)\<rparr>) ?next (x86_run ?cd n c)"
        using sim_store [OF inv Some] run size Store
        by (auto simp: asm_op_def elim: continues_scratch)
      with Store op Some show ?thesis by (auto simp: bpf_step_def)
    qed
  next
    case (Jump j)
    let ?t = "s\<lparr>bpc := Suc (bpc s + bpf_jump j ?ins s)\<rparr>"
    have target: "?next + (if bpf_cond j (k ?ins) (regA s) (regX s) then unat dt else unat df) =
        jit_off prog (bpc ?t) \<and> unat dt < 2147483643 \<and> unat df < 2147483643"
    proof -
      have u: "unat (of_nat (jit_off prog (Suc (bpc s) + unat w) - ?next) :: u32) =
          jit_off prog (Suc (bpc s) + unat w) - ?next"
        if "bpc s + 1 + unat w \<le> length prog" for w :: u32
        using disp_value(2) [OF i that small] by (simp add: unat_of_nat)
      have mono: "?next \<le> jit_off prog (Suc (bpc s) + m)" for m
        by (rule jit_off_mono) simp
      show ?thesis
      proof (cases "j = JMP_JA")
        case True
        with jok op Jump have w: "bpc s + 1 + unat (k ?ins) \<le> length prog"
          by (simp add: jit_ok_def)
        with True Jump disps disp_value [OF i w small] u [OF w] mono [of "unat (k ?ins)"]
        show ?thesis by (auto simp: jit_disps_def bpf_jump_def)
      next
        case False
        with jok op Jump have w: "bpc s + 1 + unat (ucast (jt ?ins) :: u32) \<le> length prog"
            "bpc s + 1 + unat (ucast (jf ?ins) :: u32) \<le> length prog"
          by (simp_all add: jit_ok_def)
        with False Jump disps disp_value [OF i w(1) small] disp_value [OF i w(2) small]
          u [OF w(1)] u [OF w(2)] mono [of "unat (jt ?ins)"] mono [of "unat (jf ?ins)"]
        show ?thesis by (auto simp: jit_disps_def bpf_jump_def)
      qed
    qed
    have "continues fr q mem sp s (jit_off prog (bpc ?t)) (x86_run ?cd n c)"
      using sim_jump [OF inv, of dt df j ?ins] target run size Jump by (simp add: asm_op_def)
    then have "continues fr q mem sp ?t (jit_off prog (bpc ?t)) (x86_run ?cd n c)"
      by (rule continues_scratch) simp_all
    with Jump op show ?thesis by (auto simp: bpf_step_def)
  qed
qed

end
