(* ===== verification/Jit_Properties.thy ===== *)
theory Jit_Properties
  imports Jit_Correct Bpf_Properties
begin

text \<open>
  The properties of the filter compiler (\<open>packetNtx/driver/jitter.c\<close>): which programs it
  compiles and what it leaves allocated, and that calling the compiled code is running the
  interpreter, on every program, packet and initial machine state. The last part is the
  difference between the two: the interpreter clears A, X and the scratch memory, the compiled
  code does not.
\<close>

section \<open>A whole run\<close>

lemma jit_ok_target:
  assumes "jit_ok n (bpc s) ins" and "bpc s < n" and "bpf_step ld ins s = Next t"
  shows "bpc t \<le> n"
  using assms
  by (auto simp: jit_ok_def bpf_step_def bpf_jump_def dest!: apply_effect_Next
      split: option.splits bpf_op.splits if_splits)

lemma sim_loop:
  assumes "bpf_loop (bpf_load q) prog s = Some r" and "r = Inr v" and "jit_inv fr q mem sp s c"
    and "packet_wf q" and "body_ok (length prog) 0 prog" and "length prog < 33554432"
    and "ip c = jit_off prog (bpc s)"
  shows "\<exists>n. returned fr sp v (x86_run (compiled mem prog) n c)"
  using assms
proof (induction arbitrary: c rule: bpf_loop_induct)
  case (outside s)
  then show ?case by simp
next
  case (moves s t r)
  note step = sim_step [OF moves(5,6,7,8) moves(1) moves(9)]
  from step moves(2) obtain n c' where c': "x86_run (compiled mem prog) n c = Running c'"
      "jit_inv fr q mem sp t c'" "ip c' = jit_off prog (bpc t)"
    by (auto simp: continues_def)
  have "bpc t \<le> length prog"
    using jit_ok_target [OF _ moves(1,2)] moves(1,7) by (simp add: body_ok_def)
  with moves(8) have "wrap_pc (length prog) t = t" by (simp add: wrap_pc_def)
  with moves(3) [OF moves(4) _ moves(6,7,8), of c'] c'(2,3)
  obtain m where "returned fr sp v (x86_run (compiled mem prog) m c')" by auto
  then have "returned fr sp v (x86_run (compiled mem prog) (n + m) c)"
    by (simp add: x86_run_add c'(1))
  then show ?case by blast
next
  case (returns s w)
  then show ?case using sim_step [OF returns(4,5,6,7) returns(1) returns(8)] by auto
next
  case (faults s f)
  then show ?case by simp
qed

lemma sim_run:
  assumes "bpf_run (bpf_load q) prog s = Inr v" and "jit_inv fr q mem sp s c" and "packet_wf q"
    and "body_ok (length prog) 0 prog" and "length prog < 33554432" and "ip c = jit_off prog (bpc s)"
  shows "\<exists>n. returned fr sp v (x86_run (compiled mem prog) n c)"
  using assms(1) sim_loop [OF _ _ assms(2-6)] by (auto simp: bpf_run_def split: option.splits)

section \<open>The call\<close>

text \<open>
  A cdecl call of the compiled function: the return address and the three arguments on the
  stack, writable stack below them, the packet and the scratch memory in place, and the
  regions apart. \<open>xs\<close> is whatever the scratch memory holds.
\<close>

definition call_frame :: "cpu \<Rightarrow> u32 \<Rightarrow> u32 \<Rightarrow> frame" where
  "call_frame c ret pkt = \<lparr>f_edi = regs c EDI, f_esi = regs c ESI, f_edx = regs c EDX,
     f_ecx = regs c ECX, f_ebx = regs c EBX, f_ebp = regs c EBP, f_ret = ret, f_pkt = pkt\<rparr>"

definition cdecl_call :: "packet \<Rightarrow> u32 \<Rightarrow> u32 list \<Rightarrow> u32 \<Rightarrow> u32 \<Rightarrow> u32 \<Rightarrow> cpu \<Rightarrow> bool" where
  "cdecl_call q mem xs ret pkt sp c \<longleftrightarrow>
     ip c = 0 \<and> regs c ESP = sp + 24 \<and>
     read32 (ram c) (sp + 24) = Some ret \<and> read32 (ram c) (sp + 28) = Some pkt \<and>
     read32 (ram c) (sp + 32) = Some (wirelen q) \<and> read32 (ram c) (sp + 36) = Some (buflen q) \<and>
     (\<forall>i \<in> {0, 4, 8, 12, 16, 20}. mapped (ram c) (sp + i)) \<and>
     packet_at q pkt (ram c) \<and> scratch_at xs mem (ram c) \<and>
     separate (call_frame c ret pkt) q mem sp \<and>
     (\<forall>j < 24. \<forall>i < unat (buflen q). sp + of_nat j \<noteq> pkt + of_nat i)"

definition call_state :: "cpu \<Rightarrow> u32 list \<Rightarrow> bpf_state" where
  "call_state c xs = \<lparr>regA = regs c EAX, regX = regs c EDX, scratch = xs, bpc = 0\<rparr>"

definition pushed :: "cpu \<Rightarrow> u32 \<Rightarrow> memory" where
  "pushed c sp = upd32 (upd32 (upd32 (upd32 (upd32 (upd32 (ram c)
     (sp + 20) (regs c EBP)) (sp + 16) (regs c EBX)) (sp + 12) (regs c ECX))
     (sp + 8) (regs c EDX)) (sp + 4) (regs c ESI)) sp (regs c EDI)"

lemma apart_offsets:
  "apart (a + numeral m) (a + numeral n) = apart (numeral m) (numeral n)"
  "apart a (a + numeral n) = apart 0 (numeral n)" "apart (a + numeral n) a = apart (numeral n) 0"
  by (simp_all add: apart_def)

lemma pushed_stack:
  assumes "cdecl_call q mem xs ret pkt sp c"
  shows "stack_ok (call_frame c ret pkt) q sp (pushed c sp)"
  using assms
  by (simp add: stack_ok_def pushed_def cdecl_call_def call_frame_def read32_upd_apart
      apart_offsets apart_def)

lemma slot_other:
  assumes "\<forall>j < 24. sp + of_nat j \<noteq> (a :: u32)" and "i \<in> {0, 4, 8, 12, 16, 20}"
  shows "upd32 m (sp + of_nat i) v a = m a"
proof (rule upd32_other)
  have "a \<noteq> sp + of_nat i + of_nat e" if "e \<le> 3" for e
    using assms(1) that assms(2) by (auto dest!: spec [of _ "i + e"] simp: add.assoc)
  from this [of 0] this [of 1] this [of 2] this [of 3]
  show "sp + of_nat i - a \<notin> {0, - 1, - 2, - 3}"
    by (auto simp: diff_eq_eq eq_neg_iff_add_eq_0 algebra_simps)
qed

lemma pushed_other:
  assumes "\<forall>j < 24. sp + of_nat j \<noteq> a"
  shows "pushed c sp a = ram c a"
  using slot_other [OF assms, of 0] slot_other [OF assms, of 4] slot_other [OF assms, of 8]
    slot_other [OF assms, of 12] slot_other [OF assms, of 16] slot_other [OF assms, of 20]
  by (simp add: pushed_def)

lemma pushed_scratch:
  assumes "cdecl_call q mem xs ret pkt sp c"
  shows "scratch_at xs mem (pushed c sp)"
proof -
  have sep: "\<forall>i < 64. \<forall>j < 40. mem + of_nat i \<noteq> sp + of_nat j"
    using assms by (simp add: cdecl_call_def separate_def)
  have "read32 (pushed c sp) (mem + 4 * of_nat n) = read32 (ram c) (mem + 4 * of_nat n)"
    if "n < BPF_MEMWORDS" for n
  proof (rule read32_cong)
    fix j :: nat assume j: "j < 4"
    show "pushed c sp (mem + 4 * of_nat n + of_nat j) = ram c (mem + 4 * of_nat n + of_nat j)"
    proof (rule pushed_other, intro allI impI)
      fix i :: nat assume "i < 24"
      with sep [rule_format, of "4 * n + j" i] that j
      show "sp + of_nat i \<noteq> mem + 4 * of_nat n + of_nat j"
        by (auto simp: add.assoc)
    qed
  qed
  with assms show ?thesis by (simp add: scratch_at_def cdecl_call_def)
qed

lemma pushed_packet:
  assumes "cdecl_call q mem xs ret pkt sp c"
  shows "packet_at q pkt (pushed c sp)"
  using assms by (auto simp: packet_at_def cdecl_call_def pushed_other)

lemma prologue_exec:
  assumes "cdecl_call q mem xs ret pkt sp c"
  shows "\<exists>c'. exec_block asm_prologue c = Running c' \<and> ram c' = pushed c sp \<and> ip c' = 11 \<and>
    regs c' = (regs c)(ESP := sp, EBP := sp + 20, EBX := pkt)"
proof -
  have read: "read32 (pushed c sp) (sp + 28) = Some pkt"
    using pushed_stack [OF assms] by (simp add: stack_ok_def call_frame_def)
  have sp: "ip c = 0" "regs c ESP = sp + 24" "mapped (ram c) sp" "mapped (ram c) (sp + 4)"
    "mapped (ram c) (sp + 8)" "mapped (ram c) (sp + 12)" "mapped (ram c) (sp + 16)"
    "mapped (ram c) (sp + 20)"
    using assms by (simp_all add: cdecl_call_def)
  have minus: "sp + 24 - 4 = sp + 20" "sp + 20 - 4 = sp + 16" "sp + 16 - 4 = sp + 12"
    "sp + 12 - 4 = sp + 8" "sp + 8 - 4 = sp + 4" "sp + 4 - 4 = sp" "sp + 20 + 8 = sp + 28"
    by simp_all
  have push: "exec_block ((PUSH_R r, Suc 0) # b) c = exec_block b
      (c\<lparr>ip := ip c + 1, ram := upd32 (ram c) (regs c ESP - 4) (regs c r),
         regs := (regs c)(ESP := regs c ESP - 4)\<rparr>)" if "mapped (ram c) (regs c ESP - 4)" for r b c
    using that by (simp add: write32_eq set_reg_def)
  have mov: "exec_block ((MOV_RR EBP ESP, 2) # b) c = exec_block b
      (c\<lparr>ip := ip c + 2, regs := (regs c)(EBP := regs c ESP)\<rparr>)" for b c
    by (simp add: set_reg_def)
  have arg: "exec_block [(MOV_RM EBX (Base_Disp EBP 8), 3)] c =
      Running (c\<lparr>ip := ip c + 3, regs := (regs c)(EBX := pkt)\<rparr>)"
    if "read32 (ram c) (regs c EBP + 8) = Some pkt" for c
    using that by (simp add: ea_def load_reg_def set_reg_def)
  show ?thesis
    using read unfolding pushed_def asm_prologue_def
    by (simp add: push mov arg minus sp fun_upd_twist del: exec_block.simps(2))
qed

lemma compiled_call:
  assumes call: "cdecl_call q mem xs ret pkt sp c" and wf: "packet_wf q"
    and ok: "body_ok (length prog) 0 prog" and small: "length prog < 33554432"
    and run: "bpf_run (bpf_load q) prog (call_state c xs) = Inr v"
  shows "\<exists>n. returned (call_frame c ret pkt) sp v (x86_run (compiled mem prog) n c)"
proof -
  obtain c' where c': "exec_block asm_prologue c = Running c'" "ram c' = pushed c sp"
      "ip c' = 11" "regs c' = (regs c)(ESP := sp, EBP := sp + 20, EBX := pkt)"
    using prologue_exec [OF call] by blast
  obtain rest where rest: "compiled mem prog = emission_bytes jit_prologue @ rest"
    using compiled_prologue by blast
  have "ip c = 0" using call by (simp add: cdecl_call_def)
  then obtain n where n: "x86_run (compiled mem prog) n c = Running c'"
    using exec_block_sound [OF decodes_prologue, of c "compiled mem prog" rest] rest c'(1) by auto
  have "jit_inv (call_frame c ret pkt) q mem sp (call_state c xs) c'"
    using call pushed_stack [OF call] pushed_scratch [OF call] pushed_packet [OF call]
    by (simp add: jit_inv_def c' call_state_def call_frame_def cdecl_call_def)
  moreover have "ip c' = jit_off prog (bpc (call_state c xs))"
    by (simp add: c' call_state_def)
  ultimately obtain m where "returned (call_frame c ret pkt) sp v (x86_run (compiled mem prog) m c')"
    using sim_run [OF run _ wf ok small] by blast
  then have "returned (call_frame c ret pkt) sp v (x86_run (compiled mem prog) (n + m) c)"
    by (simp add: x86_run_add n)
  then show ?thesis by blast
qed

section \<open>Which programs compile\<close>

definition known_opcodes :: "bpf_insn list \<Rightarrow> bool" where
  "known_opcodes f \<longleftrightarrow> (\<forall>ins \<in> set f. bpf_decode (code ins) \<noteq> None)"

lemma validated_jit_ok:
  assumes "prog_valid f" and "i < length f" and "bpf_decode (code (f ! i)) \<noteq> None"
  shows "jit_ok (length f) i (f ! i)"
proof -
  have "insn_valid (length f) i (f ! i)"
    using assms(1,2) by (simp add: prog_valid_def)
  with assms(3) show ?thesis
    by (auto simp: insn_valid_def jit_ok_def split: option.splits bpf_op.splits if_splits)
qed

lemma validated_body_ok:
  assumes "bpf_validate f" and "length f < 33554432" and "known_opcodes f"
  shows "body_ok (length f) 0 f"
  using validated_jit_ok [of f] validated(1) [of f] assms
  by (simp add: body_ok_def known_opcodes_def)

lemma body_unsupported:
  assumes "\<forall>i < length prog. bpf_decode (code (prog ! i)) \<noteq> None \<longrightarrow>
      jit_ok n (bpf_pc st + i) (prog ! i)"
    and "\<not> known_opcodes prog" and "bpf_pc st + length prog = n" and "n < 4294967295"
    and "length (refs st) = Suc n"
  shows "jit_body emit_lenght mem prog st = Inl Unsupported"
  using assms
proof (induction prog arbitrary: st)
  case (Cons ins prog)
  show ?case
  proof (cases "bpf_decode (code ins)")
    case None
    then show ?thesis by (simp add: jit_insn_def)
  next
    case (Some op)
    then have "jit_ok n (bpf_pc st) ins"
      using Cons.prems(1) by (auto dest: spec [of _ 0])
    then obtain es where es: "jit_insn mem (refs st) (Suc (bpf_pc st)) ins = Inr es"
      using jit_insn_defined [of n "bpf_pc st" ins "refs st" mem] Cons.prems by auto
    have rest: "\<forall>i < length prog. bpf_decode (code (prog ! i)) \<noteq> None \<longrightarrow>
        jit_ok n (Suc (bpf_pc st) + i) (prog ! i)"
      using Cons.prems(1) by auto
    have unknown: "\<not> known_opcodes prog"
      using Cons.prems(2) Some by (auto simp: known_opcodes_def)
    let ?st = "st\<lparr>bpf_pc := Suc (bpf_pc st)\<rparr>"
    obtain st2 where st2: "emit_all emit_lenght es ?st = Some st2"
        "bpf_pc st2 = Suc (bpf_pc st)" "length (refs st2) = Suc n"
      using emit_all_lenght [of ?st es] Cons.prems by auto
    have "jit_body emit_lenght mem prog st2 = Inl Unsupported"
      by (rule Cons.IH) (use rest unknown st2 Cons.prems in auto)
    with es st2 show ?thesis by simp
  qed
qed (simp add: known_opcodes_def)

lemma length_compiled:
  assumes "body_ok (length f) 0 f" and "length f < 33554432"
  shows "length (compiled mem f) = jit_off f (length f)"
  using body_emission_size [OF assms(1), of "offset_table f" mem] assms(2) prologue_size
  by (simp add: compiled_def length_emission_bytes jit_off_def offset_table_def del: upt_Suc)

lemma BPF_jitter_compiled:
  assumes "bpf_validate f" and "length f < 33554432" and "known_opcodes f" and "pool_wf alloc"
  shows "BPF_jitter alloc mem f =
    (if alloc ''2JWA'' 8 = None \<or> alloc ''3JWA'' (BPF_MEMWORDS * 4) = None \<or>
        alloc ''0JWA'' ((length f + 1) * 4) = None \<or> alloc ''1JWA'' (jit_off f (length f)) = None
     then Inr (None, [])
     else Inr (Some \<lparr>Function = compiled mem f, filter_mem = mem\<rparr>,
       [''2JWA'', ''3JWA'', ''1JWA'']))"
  using BPFtoX86_compiled [OF validated_body_ok [OF assms(1-3)] assms(2,4), of mem]
  by (auto simp: BPF_jitter_def split: option.splits)

lemma unsupported_first_pass:
  assumes "bpf_validate f" and "length f < 33554432" and "\<not> known_opcodes f"
  shows "jit_pass emit_lenght mem f
      \<lparr>cur_ip = 0, bpf_pc = 0, ibuf = [], refs = replicate (length f + 1) 0\<rparr> = Inl Unsupported"
proof -
  let ?st = "\<lparr>cur_ip = 11, bpf_pc = 0, ibuf = [], refs = of_nat 11 # replicate (length f) 0\<rparr>"
  have "emit_all emit_lenght jit_prologue
      \<lparr>cur_ip = 0, bpf_pc = 0, ibuf = [], refs = replicate (length f + 1) 0\<rparr> = Some ?st"
    by (subst emit_all_lenght) (simp_all add: prologue_size)
  moreover have "jit_body emit_lenght mem f ?st = Inl Unsupported"
    by (rule body_unsupported [of _ "length f"])
      (use validated_jit_ok [of f] validated(1) [of f] assms in auto)
  ultimately show ?thesis by (simp add: jit_pass_def)
qed

lemma unsupported_jitter:
  assumes "bpf_validate f" and "length f < 33554432" and "\<not> known_opcodes f"
    and "alloc ''2JWA'' 8 \<noteq> None" and "alloc ''3JWA'' (BPF_MEMWORDS * 4) \<noteq> None"
    and "alloc ''0JWA'' ((length f + 1) * 4) \<noteq> None"
  shows "BPF_jitter alloc mem f = Inr (None, [''0JWA''])"
  using assms(4-6) unsupported_first_pass [OF assms(1-3), of mem]
  by (auto simp: BPF_jitter_def BPFtoX86_def)

section \<open>A sample call\<close>

definition sample_alloc :: pool where
  "sample_alloc t n = Some (replicate n 0)"

text \<open>The packet at 0x1000, the stack at 0x2000, the scratch memory at 0x3000.\<close>

definition sample_stack :: "u8 list" where
  "sample_stack = replicate 24 0 @
     [0, 0x10, 0x40, 0, 0, 0x10, 0, 0, 60, 0, 0, 0, 16, 0, 0, 0]"

definition sample_ram :: memory where
  "sample_ram a =
     (if 0x1000 \<le> a \<and> a < 0x1010 then Some (ip_frame ! unat (a - 0x1000))
      else if 0x2000 \<le> a \<and> a < 0x2028 then Some (sample_stack ! unat (a - 0x2000))
      else if 0x3000 \<le> a \<and> a < 0x3040 then Some 0 else None)"

definition sample_cpu :: "u32 \<Rightarrow> cpu" where
  "sample_cpu eax = \<lparr>regs = (\<lambda>r. case r of ESP \<Rightarrow> 0x2018 | EAX \<Rightarrow> eax | _ \<Rightarrow> 7), flg = None,
     ram = sample_ram, ip = 0\<rparr>"

lemma sample_addr:
  assumes "n < 4096"
  shows "unat (0x1000 + of_nat n :: u32) = 4096 + n" "unat (0x2000 + of_nat n :: u32) = 8192 + n"
    "unat (0x3000 + of_nat n :: u32) = 12288 + n"
  using assms unat_add_small [of "0x1000" "of_nat n"] unat_add_small [of "0x2000" "of_nat n"]
    unat_add_small [of "0x3000" "of_nat n"]
  by (simp_all add: unat_of_nat)

lemma sample_regions:
  "i < 16 \<Longrightarrow> sample_ram (0x1000 + of_nat i) = Some (ip_frame ! i)"
  "i < 40 \<Longrightarrow> sample_ram (0x2000 + of_nat i) = Some (sample_stack ! i)"
  "i < 64 \<Longrightarrow> sample_ram (0x3000 + of_nat i) = Some 0"
  by (simp_all add: sample_ram_def word_le_nat_alt word_less_nat_alt sample_addr unat_of_nat)

lemma sample_read:
  "i < 37 \<Longrightarrow> read32 sample_ram (0x2000 + of_nat i) = Some (le32 (sample_stack ! i)
     (sample_stack ! (i + 1)) (sample_stack ! (i + 2)) (sample_stack ! (i + 3)))"
  "i < 16 \<Longrightarrow> read32 sample_ram (0x3000 + 4 * of_nat i) = Some 0"
proof -
  assume i: "i < 37"
  from sample_regions(2) [of "i + j" for j] i
  have "sample_ram (0x2000 + of_nat i + of_nat j) = Some (sample_stack ! (i + j))" if "j < 4" for j
    using that by (simp add: add.assoc)
  from this [of 0] this [of 1] this [of 2] this [of 3]
  show "read32 sample_ram (0x2000 + of_nat i) = Some (le32 (sample_stack ! i)
     (sample_stack ! (i + 1)) (sample_stack ! (i + 2)) (sample_stack ! (i + 3)))"
    by (simp add: read32_def)
next
  assume i: "i < 16"
  have "sample_ram (0x3000 + 4 * of_nat i + of_nat j) = Some 0" if "j < 4" for j
    using sample_regions(3) [of "4 * i + j"] that i by (simp add: add.assoc)
  from this [of 0] this [of 1] this [of 2] this [of 3]
  show "read32 sample_ram (0x3000 + 4 * of_nat i) = Some 0"
    by (simp add: read32_def le32_def be32_def)
qed

lemma sample_call:
  "cdecl_call ip_packet 0x3000 (replicate 16 0) 0x401000 0x1000 0x2000 (sample_cpu eax)"
proof -
  have args: "read32 sample_ram 0x2018 = Some 0x401000" "read32 sample_ram 0x201c = Some 0x1000"
    "read32 sample_ram 0x2020 = Some 60" "read32 sample_ram 0x2024 = Some 16"
    using sample_read(1) [of 24] sample_read(1) [of 28] sample_read(1) [of 32] sample_read(1) [of 36]
    by (simp_all add: sample_stack_def nth_append le32_def be32_def)
  have slots: "mapped sample_ram 0x2000" "mapped sample_ram 0x2004" "mapped sample_ram 0x2008"
    "mapped sample_ram 0x200c" "mapped sample_ram 0x2010" "mapped sample_ram 0x2014"
    using mapped_read [OF sample_read(1), of 0] mapped_read [OF sample_read(1), of 4]
      mapped_read [OF sample_read(1), of 8] mapped_read [OF sample_read(1), of 12]
      mapped_read [OF sample_read(1), of 16] mapped_read [OF sample_read(1), of 20]
    by simp_all
  have packet: "packet_at ip_packet 0x1000 sample_ram"
    by (simp add: packet_at_def ip_packet_def sample_regions) (simp add: ip_frame_def)
  have scratch: "scratch_at (replicate 16 0) 0x3000 sample_ram"
    by (simp add: scratch_at_def sample_read)
  have ne: "(0x3000 + of_nat i :: u32) \<noteq> 0x2000 + of_nat j"
      "(0x3000 + of_nat i :: u32) \<noteq> 0x1000 + of_nat j"
      "(0x2000 + of_nat i :: u32) \<noteq> 0x1000 + of_nat j" if "i < 64" "j < 64" for i j
  proof -
    have "i < 4096" "j < 4096" using that by simp_all
    note u = sample_addr [OF this(1)] sample_addr [OF this(2)]
    show "(0x3000 + of_nat i :: u32) \<noteq> 0x2000 + of_nat j"
      "(0x3000 + of_nat i :: u32) \<noteq> 0x1000 + of_nat j"
      "(0x2000 + of_nat i :: u32) \<noteq> 0x1000 + of_nat j"
      by (rule notI, drule arg_cong [where f = unat], unfold u, use that in linarith)+
  qed
  show ?thesis
    unfolding cdecl_call_def sample_cpu_def
    using args slots packet scratch ne
    by (simp add: separate_def call_frame_def ip_packet_def)
qed

section \<open>Properties\<close>

text \<open>C6: calling the compiled code is running the interpreter: for every program that
  \<open>bpf_validate\<close> accepts and \<open>BPF_jitter\<close> compiles, every well-formed packet and every call that
  respects the calling convention, if the interpreter started from the same A, X and scratch
  memory returns v, the compiled code returns to the caller with v in EAX, the stack pointer
  past the return address and every other register restored.\<close>

theorem jit_runs_filter:
  assumes "BPF_jitter alloc mem f = Inr (Some bin, live)" and "pool_wf alloc"
    and "bpf_validate f" and "length f < 33554432" and "packet_wf q"
    and "cdecl_call q mem xs ret pkt sp c"
    and "bpf_run (bpf_load q) f (call_state c xs) = Inr v"
  shows "\<exists>n c'. x86_run (Function bin) n c = Returned ret c' \<and> regs c' EAX = v \<and>
    regs c' ESP = regs c ESP + 4 \<and> (\<forall>r. r \<noteq> EAX \<and> r \<noteq> ESP \<longrightarrow> regs c' r = regs c r)"
proof -
  have known: "known_opcodes f"
  proof (rule ccontr)
    assume "\<not> known_opcodes f"
    from unsupported_first_pass [OF assms(3,4) this, of mem] assms(1) show False
      by (auto simp: BPF_jitter_def BPFtoX86_def split: option.splits)
  qed
  have "Function bin = compiled mem f"
    using assms(1) BPF_jitter_compiled [OF assms(3,4) known assms(2), of mem]
    by (auto split: if_splits)
  moreover obtain n where "returned (call_frame c ret pkt) sp v (x86_run (compiled mem f) n c)"
    using compiled_call [OF assms(6,5) validated_body_ok [OF assms(3,4) known] assms(4,7)] by blast
  moreover have "regs c ESP = sp + 24"
    using assms(6) by (simp add: cdecl_call_def)
  ultimately show ?thesis
    by (fastforce simp: returned_def final_regs_def call_frame_def split: reg.splits)
qed

theorem jit_runs_filter_witness:
  "\<exists>n c'. x86_run (compiled 0x3000 ip_filter) n (sample_cpu 5) = Returned 0x401000 c' \<and>
    regs c' EAX = 96"
proof -
  let ?f = "\<lparr>Function = compiled 0x3000 ip_filter, filter_mem = 0x3000\<rparr>"
  have pool: "pool_wf sample_alloc" by (simp add: pool_wf_def sample_alloc_def)
  have "known_opcodes ip_filter" by code_simp
  then have comp: "BPF_jitter sample_alloc 0x3000 ip_filter =
      Inr (Some ?f, [''2JWA'', ''3JWA'', ''1JWA''])"
    by (subst BPF_jitter_compiled) (simp_all add: pool sample_alloc_def)
  have "bpf_run (bpf_load ip_packet) ip_filter
      \<lparr>regA = 5, regX = 7, scratch = replicate 16 0, bpc = 0\<rparr> = Inr 96"
    by code_simp
  then have run: "bpf_run (bpf_load ip_packet) ip_filter
      (call_state (sample_cpu 5) (replicate 16 0)) = Inr 96"
    by (simp add: call_state_def sample_cpu_def)
  from jit_runs_filter [OF comp pool _ _ _ sample_call run] show ?thesis
    by auto
qed

text \<open>C7: an accepted program whose opcodes all have a case label compiles unless an allocation
  fails; then nothing stays allocated. When it compiles the live blocks are the descriptor, the
  scratch memory and the code, which are what \<open>BPF_Destroy_JIT_Filter\<close> frees.\<close>

theorem jit_compiles:
  assumes "bpf_validate f" and "length f < 33554432" and "known_opcodes f" and "pool_wf alloc"
  shows "(BPF_jitter alloc mem f = Inr (None, []) \<or>
      (\<exists>bin live. BPF_jitter alloc mem f = Inr (Some bin, live) \<and> filter_mem bin = mem \<and>
        BPF_Destroy_JIT_Filter live = [])) \<and>
    ((\<forall>t n. alloc t n \<noteq> None) \<longrightarrow> (\<exists>bin live. BPF_jitter alloc mem f = Inr (Some bin, live)))"
  using BPF_jitter_compiled [OF assms, of mem]
  by (cases "\<forall>t n. alloc t n \<noteq> None") (auto simp: BPF_Destroy_JIT_Filter_def)

theorem jit_compiles_witness:
  "\<exists>bin live. BPF_jitter sample_alloc 0x3000 ip_filter = Inr (Some bin, live)"
proof -
  have "known_opcodes ip_filter" by code_simp
  with jit_compiles [of ip_filter sample_alloc "0x3000"] show ?thesis
    by (simp add: pool_wf_def sample_alloc_def)
qed

text \<open>The layout of the code: the second pass fills the allocated buffer exactly, and the
  code of instruction i lies at the offset that the reference table holds for i, between the
  11 bytes of the prologue and the end.\<close>

theorem jit_layout:
  assumes "bpf_validate f" and "length f < 33554432" and "known_opcodes f" and "pool_wf alloc"
    and "BPFtoX86 alloc f mem = Inr (Some bin, live)" and "i < length f"
  shows "length bin = jit_off f (length f) \<and> unat (offset_table f ! i) = jit_off f i \<and>
    (\<exists>es rest. jit_insn mem (offset_table f) (Suc i) (f ! i) = Inr es \<and>
      drop (jit_off f i) bin = emission_bytes es @ rest)"
proof -
  note ok = validated_body_ok [OF assms(1-3)]
  have bin: "bin = compiled mem f"
    using assms(5) BPFtoX86_compiled [OF ok assms(2,4), of mem] by (auto split: if_splits)
  obtain es where es: "jit_insn mem (offset_table f) (Suc i) (f ! i) = Inr es"
    using jit_insn_defined [of "length f" i "f ! i" "offset_table f" mem] ok assms(2,6)
    by (auto simp: body_ok_def offset_table_def)
  have "unat (offset_table f ! i) = jit_off f i"
    using jit_off_bound [of f i] assms(2,6)
    by (simp add: offset_table_def unat_of_nat del: upt_Suc)
  then show ?thesis
    using length_compiled [OF ok assms(2), of mem] compiled_at [OF ok assms(2,6), of mem] es
    by (auto simp: bin ins_emission_def)
qed

theorem jit_layout_witness:
  "length (compiled 0x3000 ip_filter) = jit_off ip_filter 4 \<and> unat (offset_table ip_filter ! 0) = 11"
proof -
  have known: "known_opcodes ip_filter" by code_simp
  have pool: "pool_wf sample_alloc" by (simp add: pool_wf_def sample_alloc_def)
  have "BPFtoX86 sample_alloc ip_filter 0x3000 = Inr (Some (compiled 0x3000 ip_filter), [''1JWA''])"
    using validated_body_ok [of ip_filter] known
    by (subst BPFtoX86_compiled) (simp_all add: pool sample_alloc_def)
  from jit_layout [OF _ _ known pool this, of 0] show ?thesis by simp
qed

text \<open>The accepted opcodes without a case label, LDX with absolute addressing, make the
  compiler give up, and the exit it takes does not free the reference table.\<close>

theorem jit_unsupported_leaks:
  assumes "bpf_validate f" and "length f < 33554432" and "\<exists>p \<in> set f. code p \<in> set ldx_abs_codes"
    and "\<forall>t n. alloc t n \<noteq> None"
  shows "BPF_jitter alloc mem f = Inr (None, [''0JWA''])"
proof -
  have "\<not> known_opcodes f"
    using assms(3) bpf_decode_ldx_abs unfolding known_opcodes_def by blast
  then show ?thesis
    using assms(4) by (intro unsupported_jitter [OF assms(1,2)]) simp_all
qed

theorem jit_unsupported_leaks_witness:
  "BPF_jitter sample_alloc 0x3000
     [\<lparr>code = 0x21, jt = 0, jf = 0, k = 0\<rparr>, \<lparr>code = 0x16, jt = 0, jf = 0, k = 0\<rparr>] =
   Inr (None, [''0JWA''])"
proof -
  let ?f = "[\<lparr>code = 0x21, jt = 0, jf = 0, k = 0\<rparr>, \<lparr>code = 0x16, jt = 0, jf = 0, k = 0\<rparr>] :: bpf_insn list"
  have "bpf_validate ?f" by code_simp
  then show ?thesis
    by (intro jit_unsupported_leaks) (simp_all add: ldx_abs_codes_def sample_alloc_def)
qed

text \<open>The compiled code does not clear A before the first instruction: the accepted program
  that returns A yields 0 in the interpreter and whatever EAX held in the compiled code.\<close>

theorem jit_keeps_old_accumulator:
  assumes "f = [\<lparr>code = BPF_RET OR BPF_A, jt = 0, jf = 0, k = 0\<rparr>]" and "packet_wf q"
    and "cdecl_call q mem xs ret pkt sp c"
  shows "bpf_validate f \<and> bpf_filter (Some f) q = Inr 0 \<and>
    (\<exists>n c'. x86_run (compiled mem f) n c = Returned ret c' \<and> regs c' EAX = regs c EAX)"
proof -
  have f: "f = [\<lparr>code = 0x16, jt = 0, jf = 0, k = 0\<rparr>]"
    using assms(1) by simp
  have dec: "bpf_decode 0x16 = Some (Ret RET_A)" by code_simp
  have val: "bpf_validate [\<lparr>code = 0x16, jt = 0, jf = 0, k = 0\<rparr>]" by code_simp
  have run: "bpf_run (bpf_load q) f s = Inr (regA s)" if "bpc s = 0" for s
    using that by (simp add: f bpf_run_unfold [of _ _ s] bpf_step_def dec)
  have "known_opcodes f" by (simp add: known_opcodes_def f dec)
  then have ok: "body_ok (length f) 0 f"
    using val f by (intro validated_body_ok) simp_all
  have "bpf_run (bpf_load q) f (call_state c xs) = Inr (regs c EAX)"
    by (subst run) (simp_all add: call_state_def)
  from compiled_call [OF assms(3,2) ok _ this]
  have "\<exists>n c'. x86_run (compiled mem f) n c = Returned ret c' \<and> regs c' EAX = regs c EAX"
    by (simp add: f returned_def call_frame_def) (fastforce simp: final_regs_def)
  moreover have "bpf_run (bpf_load q) f bpf_init = Inr 0"
    by (subst run) (simp_all add: bpf_init_def)
  ultimately show ?thesis
    using val unfolding f by (simp add: bpf_filter_def)
qed

theorem jit_keeps_old_accumulator_witness:
  "\<exists>n c'. x86_run (compiled 0x3000 [\<lparr>code = 0x16, jt = 0, jf = 0, k = 0\<rparr>]) n (sample_cpu 1500) =
    Returned 0x401000 c' \<and> regs c' EAX = 1500"
  using jit_keeps_old_accumulator [OF _ sample_wf(1) sample_call [of 1500]]
  by (simp add: sample_cpu_def)

end
