(* ===== verification/Runs.thy ===== *)
theory Runs
  imports Main
begin

text \<open>
  Runs of a step function that may fail, and the interface between a step function and an
  abstract specification of its steps: a simulation of single steps carries over to runs. The
  capture buffers and the life cycle of an open instance are instances.
\<close>

fun run_steps :: "('e \<Rightarrow> 's \<Rightarrow> 'f + ('s \<times> 'o)) \<Rightarrow> 'e list \<Rightarrow> 's \<Rightarrow> 'f + ('s \<times> 'o list)" where
  "run_steps step [] s = Inr (s, [])"
| "run_steps step (e # es) s =
     (case step e s of
        Inl f \<Rightarrow> Inl f
      | Inr (s', out) \<Rightarrow>
          (case run_steps step es s' of
             Inl f \<Rightarrow> Inl f
           | Inr (s'', outs) \<Rightarrow> Inr (s'', out # outs)))"

text \<open>Every event of the run meets its precondition in the state it arrives in.\<close>

fun run_ok :: "('e \<Rightarrow> 's \<Rightarrow> bool) \<Rightarrow> ('e \<Rightarrow> 's \<Rightarrow> 'f + ('s \<times> 'o)) \<Rightarrow> 'e list \<Rightarrow> 's \<Rightarrow> bool" where
  "run_ok ok step [] s \<longleftrightarrow> True"
| "run_ok ok step (e # es) s \<longleftrightarrow>
     ok e s \<and> (case step e s of Inl f \<Rightarrow> True | Inr (s', out) \<Rightarrow> run_ok ok step es s')"

inductive spec_run :: "('e \<Rightarrow> 'a \<Rightarrow> 'p \<Rightarrow> 'a \<Rightarrow> bool) \<Rightarrow> 'e list \<Rightarrow> 'a \<Rightarrow> 'p list \<Rightarrow> 'a \<Rightarrow> bool"
  for spec where
  spec_Nil: "spec_run spec [] a [] a"
| spec_Cons: "spec e a p a' \<Longrightarrow> spec_run spec es a' ps a'' \<Longrightarrow> spec_run spec (e # es) a (p # ps) a''"

inductive_simps spec_run_simps: "spec_run spec [] a ps a'" "spec_run spec (e # es) a ps a'"

locale simulation =
  fixes rel :: "'s \<Rightarrow> 'a \<Rightarrow> bool"
    and ok :: "'e \<Rightarrow> 's \<Rightarrow> bool"
    and step :: "'e \<Rightarrow> 's \<Rightarrow> 'f + ('s \<times> 'o)"
    and spec :: "'e \<Rightarrow> 'a \<Rightarrow> 'p \<Rightarrow> 'a \<Rightarrow> bool"
    and out_rel :: "'o \<Rightarrow> 'p \<Rightarrow> bool"
  assumes simulates: "rel s a \<Longrightarrow> ok e s \<Longrightarrow>
    \<exists>s' out p a'. step e s = Inr (s', out) \<and> spec e a p a' \<and> rel s' a' \<and> out_rel out p"
begin

lemma run_simulates:
  assumes "rel s a" and "run_ok ok step es s"
  shows "\<exists>s' outs ps a'. run_steps step es s = Inr (s', outs) \<and> spec_run spec es a ps a' \<and>
    rel s' a' \<and> list_all2 out_rel outs ps"
  using assms
proof (induction es arbitrary: s a)
  case Nil
  then show ?case by (auto simp: spec_run_simps)
next
  case (Cons e es)
  from Cons.prems(2) have "ok e s" by simp
  with simulates [OF Cons.prems(1)] obtain s' out p a'
    where st: "step e s = Inr (s', out)" "spec e a p a'" "rel s' a'" "out_rel out p"
    by blast
  with Cons.prems(2) have "run_ok ok step es s'" by simp
  from Cons.IH [OF st(3) this] obtain s'' outs ps a''
    where "run_steps step es s' = Inr (s'', outs)" "spec_run spec es a' ps a''" "rel s'' a''"
      "list_all2 out_rel outs ps"
    by blast
  with st show ?case
    by (intro exI [of _ s''] exI [of _ "out # outs"] exI [of _ "p # ps"] exI [of _ a''])
       (auto intro: spec_Cons)
qed

end

end
