(* ===== verification/Ring.thy ===== *)
theory Ring
  imports Prelude
begin

text \<open>
  Circular buffers: writing and reading a byte string at a position modulo the size of the
  buffer. The producer and the consumer of \<open>packetNtx/driver/Read.c\<close> do this with one or two
  memory moves; the lemmas reduce their moves to \<open>ring_put\<close> and \<open>ring_get\<close> and say when a
  write leaves a region untouched.
\<close>

section \<open>Definitions\<close>

definition ring_put :: "'a list \<Rightarrow> nat \<Rightarrow> 'a list \<Rightarrow> 'a list" where
  "ring_put buf at d =
     map (\<lambda>i. let j = (i + length buf - at) mod length buf in
        if j < length d then d ! j else buf ! i) [0..<length buf]"

definition ring_get :: "'a list \<Rightarrow> nat \<Rightarrow> nat \<Rightarrow> 'a list" where
  "ring_get buf at n = map (\<lambda>j. buf ! ((at + j) mod length buf)) [0..<n]"

lemma length_ring_put [simp]: "length (ring_put buf at d) = length buf"
  by (simp add: ring_put_def)

lemma length_ring_get [simp]: "length (ring_get buf at n) = n"
  by (simp add: ring_get_def)

lemma ring_lt: "at < length buf \<Longrightarrow> n mod length buf < length buf"
  by (rule mod_less_divisor) linarith

lemma distance_ge:
  assumes "at \<le> i" and "i < (n :: nat)"
  shows "(i + n - at) mod n = i - at"
proof -
  have "i + n - at = (i - at) + n" using assms by linarith
  moreover have "((i - at) + n) mod n = i - at"
    unfolding mod_add_self2 using assms by (intro mod_less) linarith
  ultimately show ?thesis by (simp only:)
qed

lemma distance_lt: "i < at \<Longrightarrow> at < (n :: nat) \<Longrightarrow> (i + n - at) mod n = i + n - at"
  by (rule mod_less) linarith

lemma ring_distance:
  assumes "at < sz" and "j < (sz :: nat)"
  shows "((at + j) mod sz + sz - at) mod sz = j"
proof (cases "at + j < sz")
  case True
  then show ?thesis using assms by simp
next
  case False
  then have "(at + j) mod sz = at + j - sz"
    using assms by (simp add: le_mod_geq)
  then show ?thesis using assms False by simp
qed

lemma ring_put_nth:
  assumes "at < length buf" and "j < length buf"
  shows "ring_put buf at d ! ((at + j) mod length buf) =
    (if j < length d then d ! j else buf ! ((at + j) mod length buf))"
proof -
  have "(at + j) mod length buf < length buf"
    by (rule ring_lt [OF assms(1)])
  then show ?thesis
    using ring_distance [OF assms] by (simp add: ring_put_def Let_def)
qed

lemma ring_cover:
  assumes "at < sz" and "i < (sz :: nat)"
  obtains j where "j < sz" and "i = (at + j) mod sz"
proof (cases "at \<le> i")
  case True
  then have "i - at < sz" "at + (i - at) = i" using assms by linarith+
  with assms that [of "i - at"] show ?thesis by simp
next
  case False
  then have j: "i + sz - at < sz" and "at + (i + sz - at) = i + sz" using assms by linarith+
  then have "(at + (i + sz - at)) mod sz = i"
    using assms by (simp only: mod_add_self2) (rule mod_less)
  with j that [of "i + sz - at"] show ?thesis by simp
qed

lemma ring_eqI:
  assumes "length a = n" and "length b = n" and "at < n"
    and "\<And>j. j < n \<Longrightarrow> a ! ((at + j) mod n) = b ! ((at + j) mod n)"
  shows "a = b"
proof (rule nth_equalityI)
  fix i assume "i < length a"
  then obtain j where "j < n" "i = (at + j) mod n"
    using ring_cover [OF assms(3)] assms(1) by metis
  with assms(4) show "a ! i = b ! i" by simp
qed (use assms in simp)

section \<open>What a write does to a read\<close>

lemma ring_get_put_same:
  assumes "at < length buf" and "length d \<le> length buf"
  shows "ring_get (ring_put buf at d) at (length d) = d"
  using assms by (intro nth_equalityI) (simp_all add: ring_get_def ring_put_nth)

lemma ring_get_put_other:
  assumes "c < length buf" and "at = (c + u) mod length buf" and "a + n \<le> u"
    and "u + length d \<le> length buf"
  shows "ring_get (ring_put buf at d) ((c + a) mod length buf) n =
    ring_get buf ((c + a) mod length buf) n"
proof (rule nth_equalityI)
  let ?s = "length buf"
  fix i assume "i < length (ring_get (ring_put buf at d) ((c + a) mod ?s) n)"
  then have i: "i < n" by simp
  have at: "at < ?s" using assms(2) ring_lt [OF assms(1)] by simp
  have "?s - u + (a + i) < ?s"
    using assms(3,4) i by simp
  moreover have "(at + (?s - u + (a + i))) mod ?s = (c + a + i) mod ?s"
  proof -
    have "(at + (?s - u + (a + i))) mod ?s = (c + u + (?s - u + (a + i))) mod ?s"
      using assms(2) by (simp add: mod_add_left_eq)
    also have "c + u + (?s - u + (a + i)) = c + a + i + ?s"
      using assms(4) by simp
    finally show ?thesis by simp
  qed
  moreover have "\<not> ?s - u + (a + i) < length d \<or> length d = 0"
    using assms(4) by auto
  ultimately have "ring_put buf at d ! ((c + a + i) mod ?s) = buf ! ((c + a + i) mod ?s)"
    using ring_put_nth [OF at, of "?s - u + (a + i)" d] by auto
  with i show "ring_get (ring_put buf at d) ((c + a) mod ?s) n ! i =
      ring_get buf ((c + a) mod ?s) n ! i"
    by (simp add: ring_get_def mod_add_left_eq)
qed simp

lemma ring_get_put_after:
  assumes "at < length buf" and "length d \<le> a" and "a + n \<le> length buf"
  shows "ring_get (ring_put buf at d) ((at + a) mod length buf) n =
    ring_get buf ((at + a) mod length buf) n"
proof (rule nth_equalityI)
  fix i assume "i < length (ring_get (ring_put buf at d) ((at + a) mod length buf) n)"
  with assms ring_put_nth [OF assms(1), of "a + i" d]
  show "ring_get (ring_put buf at d) ((at + a) mod length buf) n ! i =
      ring_get buf ((at + a) mod length buf) n ! i"
    by (simp add: ring_get_def mod_add_left_eq add.assoc)
qed simp

lemma ring_get_put_disjoint:
  assumes "c < length buf" and "a + n \<le> u \<or> u + length d \<le> a"
    and "u + length d \<le> length buf" and "a + n \<le> length buf"
  shows "ring_get (ring_put buf ((c + u) mod length buf) d) ((c + a) mod length buf) n =
    ring_get buf ((c + a) mod length buf) n"
proof (cases "a + n \<le> u")
  case True
  then show ?thesis using ring_get_put_other [OF assms(1) refl, of a n u d] assms(3) by simp
next
  case False
  then have le: "u + length d \<le> a" using assms(2) by simp
  have "((c + u) mod length buf + (a - u)) mod length buf = (c + a) mod length buf"
    using le by (simp only: mod_add_left_eq) simp
  moreover have "length d \<le> a - u" "a - u + n \<le> length buf"
    using le assms(4) by linarith+
  ultimately show ?thesis
    using ring_get_put_after [of "(c + u) mod length buf" buf d "a - u" n] ring_lt [OF assms(1)]
    by simp
qed

lemma ring_put_append:
  assumes "at < length buf" and "length d1 + length d2 \<le> length buf"
  shows "ring_put (ring_put buf at d1) ((at + length d1) mod length buf) d2 =
    ring_put buf at (d1 @ d2)"
proof (rule ring_eqI [where at = at])
  let ?s = "length buf" and ?p2 = "(at + length d1) mod length buf"
  have p2: "?p2 < ?s" by (rule ring_lt [OF assms(1)])
  fix j assume j: "j < ?s"
  show "ring_put (ring_put buf at d1) ?p2 d2 ! ((at + j) mod ?s) =
      ring_put buf at (d1 @ d2) ! ((at + j) mod ?s)"
  proof (cases "length d1 \<le> j")
    case True
    then have "at + length d1 + (j - length d1) = at + j" by simp
    then have "(?p2 + (j - length d1)) mod ?s = (at + j) mod ?s"
      by (simp only: mod_add_left_eq)
    moreover have "j - length d1 < ?s" using j by simp
    ultimately show ?thesis
      using ring_put_nth [of ?p2 "ring_put buf at d1" "j - length d1" d2] p2 j True
        ring_put_nth [OF assms(1) j, of d1] ring_put_nth [OF assms(1) j, of "d1 @ d2"]
      by (auto simp: nth_append)
  next
    case False
    let ?k = "?s - length d1 + j"
    have "(?p2 + ?k) mod ?s = (at + length d1 + ?k) mod ?s"
      by (simp add: mod_add_left_eq)
    also have "at + length d1 + ?k = at + j + ?s"
      using assms(2) by simp
    finally have "(?p2 + ?k) mod ?s = (at + j) mod ?s" by simp
    moreover have "?k < ?s" "\<not> ?k < length d2 \<or> d2 = []"
      using False assms(2) by auto
    ultimately show ?thesis
      using ring_put_nth [of ?p2 "ring_put buf at d1" ?k d2] p2 False
        ring_put_nth [OF assms(1) j, of d1] ring_put_nth [OF assms(1) j, of "d1 @ d2"]
      by (auto simp: nth_append)
  qed
qed (use assms in simp_all)

text \<open>Writing a string and the bytes that are behind it anyway.\<close>

lemma ring_put_keep:
  assumes "at < length buf" and "m \<le> length buf"
  shows "ring_put buf at (take m data @ drop (length data) (ring_get buf at m)) =
    ring_put buf at (take m data)"
proof (rule ring_eqI [where at = at])
  fix j assume j: "j < length buf"
  show "ring_put buf at (take m data @ drop (length data) (ring_get buf at m)) ! ((at + j) mod length buf) =
      ring_put buf at (take m data) ! ((at + j) mod length buf)"
    using ring_put_nth [OF assms(1) j, of "take m data"]
      ring_put_nth [OF assms(1) j, of "take m data @ drop (length data) (ring_get buf at m)"]
    by (auto simp: nth_append ring_get_def)
qed (use assms in simp_all)

lemma ring_put_Nil [simp]: "ring_put buf at [] = buf"
  by (intro nth_equalityI) (simp_all add: ring_put_def)

lemma ring_get_append:
  "ring_get buf at (m + n) = ring_get buf at m @ ring_get buf ((at + m) mod length buf) n"
  by (rule nth_equalityI) (auto simp: ring_get_def nth_append mod_add_left_eq add.assoc)

section \<open>Memory moves\<close>

lemma blit_ring:
  assumes "at + length d \<le> length buf"
  shows "blit buf at d = Some (ring_put buf at d)"
proof -
  have "take at buf @ d @ drop (at + length d) buf = ring_put buf at d"
  proof (rule nth_equalityI)
    fix i assume "i < length (take at buf @ d @ drop (at + length d) buf)"
    then have i: "i < length buf" using assms by simp
    show "(take at buf @ d @ drop (at + length d) buf) ! i = ring_put buf at d ! i"
    proof (cases "at \<le> i")
      case True
      note dist = distance_ge [OF True i]
      from True i assms show ?thesis by (auto simp: ring_put_def nth_append dist)
    next
      case False
      with i assms have dist: "(i + length buf - at) mod length buf = i + length buf - at \<or> d = []"
        by (cases "at < length buf") (auto simp: distance_lt not_less)
      have "ring_put buf at d ! i = buf ! i"
        using dist i False assms by (auto simp: ring_put_def Let_def)
      with False i assms show ?thesis by (simp add: nth_append)
    qed
  qed (use assms in simp)
  with assms show ?thesis by (simp add: blit_Some)
qed

lemma blit_wrap:
  assumes "at < length buf" and "k = length buf - at" and "k \<le> length d" and "length d \<le> length buf"
  shows "\<exists>b. blit buf at (take k d) = Some b \<and> blit b 0 (drop k d) = Some (ring_put buf at d)"
proof -
  have 1: "blit buf at (take k d) = Some (ring_put buf at (take k d))"
    using assms by (intro blit_ring) simp
  have 2: "blit (ring_put buf at (take k d)) 0 (drop k d) =
      Some (ring_put (ring_put buf at (take k d)) 0 (drop k d))"
    using assms by (intro blit_ring) simp
  have "(at + length (take k d)) mod length buf = 0"
    using assms by simp
  then have "ring_put (ring_put buf at (take k d)) 0 (drop k d) = ring_put buf at d"
    using ring_put_append [OF assms(1), of "take k d" "drop k d"] assms by simp
  with 1 2 show ?thesis by simp
qed

lemma chunk_ring:
  assumes "at + n \<le> length buf"
  shows "chunk buf at n = ring_get buf at n"
  using assms by (intro nth_equalityI) (auto simp: ring_get_def nth_chunk)

lemma chunk_wrap:
  assumes "at < length buf" and "k = length buf - at" and "k \<le> n" and "n \<le> length buf"
  shows "chunk buf at k @ chunk buf 0 (n - k) = ring_get buf at n"
proof -
  have "ring_get buf at (k + (n - k)) =
      ring_get buf at k @ ring_get buf ((at + k) mod length buf) (n - k)"
    by (rule ring_get_append)
  also have "(at + k) mod length buf = 0" using assms by simp
  finally show ?thesis
    using assms by (simp add: chunk_ring)
qed

end
