(* ===== verification/Capture.thy ===== *)
theory Capture
  imports Ring Bpf_Two_Buffers Jitter "HOL-Library.Monad_Syntax"
begin

text \<open>
  The producer of the kernel buffers: \<open>NPF_tap\<close> and \<open>NPF_TransferDataComplete\<close> of
  \<open>packetNtx/driver/Read.c\<close>, on the part of OPEN_INSTANCE and CpuPrivateData
  (\<open>packetNtx/driver/Packet.h\<close>) they use. One definition per phase of the tap: the call of the
  filter, the choice of the snapshot length, the statistics, the copy of the packet behind its
  header in each of the cases the code distinguishes, and the commit of the new positions.

  ULONG values are natural numbers with \<open>add32\<close> and \<open>sub32\<close> as the C operators. A memory move
  outside the buffer is the fault \<open>Overrun\<close>; acquiring the buffer lock while it is held is
  \<open>Lock_Held\<close> (the CPU spins until the lock is released). The locks that
  \<open>NPF_tap\<close> takes and releases around straight code (MachineLock, CountersLock) are not
  modelled: a tap is one step. What NDIS and the kernel decide is an argument: the time, the
  results of the MDL and packet allocations, whether \<open>NdisTransferData\<close> is pending, and the
  bytes it transfers. The machine code behind \<open>Open->Filter\<close> is the argument \<open>call\<close>, which
  \<open>Jit_Properties\<close> relates to the interpreter.
\<close>

section \<open>State\<close>

record cpu_private =
  Buffer :: "u8 list"
  pos_P :: nat
  pos_C :: nat
  Free :: nat
  NewP :: nat
  Accepted :: nat
  Received :: nat
  Dropped :: nat
  TransferMdl1 :: "(nat \<times> nat) option"
  TransferMdl2 :: "(nat \<times> nat) option"
  BufferLock :: bool

record open_capture =
  bpfprogram :: "bpf_insn list option"
  jit_filter :: "JIT_BPF_Filter option"
  mode :: u32
  MinToCopy :: nat
  Npackets :: nat
  Nbytes :: nat
  MaxDumpPacks :: nat
  DumpLimitReached :: bool
  CpuData :: "cpu_private list"
  ReaderSN :: nat
  WriterSN :: nat
  Size :: nat
  ReadEvent :: "bool option"
  DumpEvent :: bool

abbreviation MODE_CAPT :: u32 where "MODE_CAPT \<equiv> 0"
abbreviation MODE_STAT :: u32 where "MODE_STAT \<equiv> 1"
abbreviation MODE_MON :: u32 where "MODE_MON \<equiv> 2"
abbreviation MODE_DUMP :: u32 where "MODE_DUMP \<equiv> 0x10"

abbreviation SIZEOF_PacketHeader :: nat where "SIZEOF_PacketHeader \<equiv> 24"
abbreviation SIZEOF_bpf_hdr :: nat where "SIZEOF_bpf_hdr \<equiv> 20"

definition has_mode :: "open_capture \<Rightarrow> u32 \<Rightarrow> bool" where
  "has_mode opn m \<longleftrightarrow> mode opn AND m \<noteq> 0"

datatype cap_fault = Overrun | Filter_Fault fault | Lock_Held

text \<open>The arguments with which NDIS indicates a packet.\<close>

record indication =
  HeaderBuffer :: "u8 list"
  LookaheadBuffer :: "u8 list"
  PacketSize :: nat
  contiguous :: bool

abbreviation HeaderBufferSize :: "indication \<Rightarrow> nat" where
  "HeaderBufferSize ind \<equiv> length (HeaderBuffer ind)"

abbreviation LookaheadBufferSize :: "indication \<Rightarrow> nat" where
  "LookaheadBufferSize ind \<equiv> length (LookaheadBuffer ind)"

record timestamp =
  tv_sec :: u32
  tv_usec :: u32

record ndis_env =
  now :: timestamp
  mdl1_ok :: bool
  mdl2_ok :: bool
  packet_ok :: bool
  transfer_pending :: bool
  transferred :: "u8 list"

section \<open>The filter call and the snapshot length\<close>

definition tap_filter ::
    "(JIT_BPF_Filter \<Rightarrow> packet \<Rightarrow> fault + u32) \<Rightarrow> open_capture \<Rightarrow> indication \<Rightarrow> fault + u32" where
  "tap_filter call opn ind =
     (let wire = of_nat (PacketSize ind + HeaderBufferSize ind);
          cap = of_nat (LookaheadBufferSize ind + HeaderBufferSize ind);
          q = \<lparr>pkt_bytes = HeaderBuffer ind @ LookaheadBuffer ind, wirelen = wire, buflen = cap\<rparr> in
      if \<not> contiguous ind
      then bpf_filter_with_2_buffers (bpfprogram opn)
             \<lparr>p_bytes = HeaderBuffer ind, pd_bytes = LookaheadBuffer ind,
              headersize = of_nat (HeaderBufferSize ind), wirelen2 = wire, buflen2 = cap\<rparr>
      else (case jit_filter opn of
              Some f \<Rightarrow> if bpfprogram opn \<noteq> None then call f q else Inr (- 1)
            | None \<Rightarrow> bpf_filter (bpfprogram opn) q))"

definition total_size :: "indication \<Rightarrow> nat" where
  "total_size ind = add32 (PacketSize ind) (HeaderBufferSize ind)"

definition snap_length :: "u32 \<Rightarrow> indication \<Rightarrow> nat" where
  "snap_length fres ind =
     (if fres = - 1 \<or> unat fres > total_size ind then total_size ind else unat fres)"

definition count_packet :: "indication \<Rightarrow> open_capture \<Rightarrow> open_capture" where
  "count_packet ind opn =
     opn\<lparr>Npackets := Npackets opn + 1,
         Nbytes := Nbytes opn + (if total_size ind < 60 then 60 else total_size ind) + 12\<rparr>"

section \<open>Copying a packet into the buffer\<close>

definition header_bytes :: "nat \<Rightarrow> timestamp \<Rightarrow> nat \<Rightarrow> nat \<Rightarrow> u8 list" where
  "header_bytes sn ts caplen datalen =
     le32_bytes (of_nat sn) @ le32_bytes (tv_sec ts) @ le32_bytes (tv_usec ts) @
     le32_bytes (of_nat caplen) @ le32_bytes (of_nat datalen) @ le16_bytes 20"

text \<open>One or two moves of contiguous data; the position may end at \<open>Size\<close>.\<close>

definition move_data :: "nat \<Rightarrow> u8 list \<Rightarrow> nat \<Rightarrow> u8 list \<Rightarrow> (u8 list \<times> nat) option" where
  "move_data sz buf p data =
     (if sub32 sz p < length data
      then (let ToCopy = sub32 sz p in do {
              b1 \<leftarrow> blit buf p (take ToCopy data);
              b2 \<leftarrow> blit b1 0 (drop ToCopy data);
              Some (b2, sub32 (length data) ToCopy)})
      else do {
        b \<leftarrow> blit buf p data;
        Some (b, add32 p (length data))})"

text \<open>The two buffers that are not contiguous: \<open>hdr\<close>, then \<open>look\<close> (the part of it that is needed).\<close>

definition move_two :: "nat \<Rightarrow> u8 list \<Rightarrow> nat \<Rightarrow> u8 list \<Rightarrow> u8 list \<Rightarrow> (u8 list \<times> nat) option" where
  "move_two sz buf p hdr look =
     (if sub32 sz p < length hdr + length look
      then if sub32 sz p \<ge> length hdr
        then do {
          b1 \<leftarrow> blit buf p hdr;
          let p1 = add32 p (length hdr);
          if p1 = sz
          then do {
            b2 \<leftarrow> blit b1 0 look;
            Some (b2, length look)}
          else (let ToCopy = sub32 sz p1 in do {
            b2 \<leftarrow> blit b1 p1 (take ToCopy look);
            b3 \<leftarrow> blit b2 0 (drop ToCopy look);
            Some (b3, sub32 (length look) ToCopy)})}
        else (let ToCopy = sub32 sz p in do {
          b1 \<leftarrow> blit buf p (take ToCopy hdr);
          b2 \<leftarrow> blit b1 0 (drop ToCopy hdr);
          let p1 = sub32 (length hdr) ToCopy;
          b3 \<leftarrow> blit b2 p1 look;
          Some (b3, add32 p1 (length look))})
      else do {
        b1 \<leftarrow> blit buf p hdr;
        let p1 = add32 p (length hdr);
        b2 \<leftarrow> blit b1 p1 look;
        Some (b2, add32 p1 (length look))})"

text \<open>The moves of the transfer path, which wrap the position at \<open>Size\<close>.\<close>

definition move_wrap :: "nat \<Rightarrow> u8 list \<Rightarrow> nat \<Rightarrow> u8 list \<Rightarrow> (u8 list \<times> nat) option" where
  "move_wrap sz buf p data =
     (if sub32 sz p \<ge> length data
      then do {
        b \<leftarrow> blit buf p data;
        let p1 = add32 p (length data);
        Some (b, if p1 = sz then 0 else p1)}
      else (let ToCopy = sub32 sz p in do {
        b1 \<leftarrow> blit buf p (take ToCopy data);
        b2 \<leftarrow> blit b1 0 (drop ToCopy data);
        Some (b2, sub32 (length data) ToCopy)}))"

definition after_header :: "nat \<Rightarrow> nat \<Rightarrow> nat" where
  "after_header sz p = (let p1 = add32 p SIZEOF_PacketHeader in if p1 = sz then 0 else p1)"

section \<open>Publishing a packet\<close>

definition skip_tail :: "nat \<Rightarrow> nat \<Rightarrow> nat \<Rightarrow> nat \<times> nat" where
  "skip_tail sz p increment =
     (if sub32 sz p < SIZEOF_PacketHeader then (0, add32 increment (sub32 sz p))
      else (p, increment))"

definition signal_events :: "open_capture \<Rightarrow> open_capture" where
  "signal_events opn =
     (if has_mode opn MODE_DUMP then opn\<lparr>DumpEvent := True\<rparr>
      else opn\<lparr>ReadEvent := map_option (\<lambda>_. True) (ReadEvent opn)\<rparr>)"

definition tap_commit :: "open_capture \<Rightarrow> nat \<Rightarrow> cpu_private \<Rightarrow> nat \<Rightarrow> open_capture" where
  "tap_commit opn cpu d caplen =
     (let (p, increment) = skip_tail (Size opn) (pos_P d) (add32 caplen SIZEOF_PacketHeader);
          d' = d\<lparr>pos_P := p, Free := sub32 (Free d) increment\<rparr>;
          opn' = opn\<lparr>CpuData := (CpuData opn)[cpu := d']\<rparr> in
      if sub32 (Size opn) (Free d') \<ge> MinToCopy opn then signal_events opn' else opn')"

definition drop_packet :: "open_capture \<Rightarrow> nat \<Rightarrow> open_capture" where
  "drop_packet opn cpu =
     opn\<lparr>CpuData := (CpuData opn)[cpu :=
        (CpuData opn ! cpu)\<lparr>Dropped := add32 (Dropped (CpuData opn ! cpu)) 1\<rparr>]\<rparr>"

section \<open>The packet is in the two buffers\<close>

definition tap_direct ::
    "open_capture \<Rightarrow> nat \<Rightarrow> indication \<Rightarrow> timestamp \<Rightarrow> nat \<Rightarrow> cap_fault + open_capture" where
  "tap_direct opn cpu ind ts fres =
     (let d = CpuData opn ! cpu; sz = Size opn;
          p1 = after_header sz (pos_P d);
          stored = do {
            b \<leftarrow> blit (Buffer d) (pos_P d)
                  (header_bytes (WriterSN opn) ts fres (total_size ind));
            (if fres \<le> HeaderBufferSize ind \<or> contiguous ind
             then move_data sz b p1 (take fres (HeaderBuffer ind @ LookaheadBuffer ind))
             else move_two sz b p1 (HeaderBuffer ind)
                    (take (fres - HeaderBufferSize ind) (LookaheadBuffer ind)))} in
      case stored of
        None \<Rightarrow> Inl Overrun
      | Some (b, p) \<Rightarrow>
          Inr (tap_commit (opn\<lparr>WriterSN := add32 (WriterSN opn) 1\<rparr>) cpu
            (d\<lparr>Buffer := b, pos_P := p, Accepted := add32 (Accepted d) 1\<rparr>) fres))"

section \<open>The rest of the packet comes from NdisTransferData\<close>

text \<open>The MDLs that describe where the missing bytes go, and the position after them.\<close>

definition transfer_mdls :: "nat \<Rightarrow> nat \<Rightarrow> nat \<Rightarrow> (nat \<times> nat) \<times> (nat \<times> nat) option \<times> nat" where
  "transfer_mdls sz p missing =
     (if sub32 sz p \<ge> missing then ((p, missing), None, add32 p missing)
      else ((p, sub32 sz p), Some (0, sub32 missing (sub32 sz p)), sub32 missing (sub32 sz p)))"

definition write_mdls ::
    "u8 list \<Rightarrow> nat \<times> nat \<Rightarrow> (nat \<times> nat) option \<Rightarrow> u8 list \<Rightarrow> u8 list option" where
  "write_mdls buf m1 m2 data = do {
     b \<leftarrow> blit buf (fst m1) (take (snd m1) data);
     (case m2 of None \<Rightarrow> Some b
      | Some m \<Rightarrow> blit b (fst m) (take (snd m) (drop (snd m1) data)))}"

definition header_lengths :: "nat \<Rightarrow> nat \<Rightarrow> u8 list" where
  "header_lengths caplen datalen =
     le32_bytes (of_nat caplen) @ le32_bytes (of_nat datalen) @ le16_bytes 20"

definition header_stamp :: "nat \<Rightarrow> timestamp \<Rightarrow> u8 list" where
  "header_stamp sn ts = le32_bytes (of_nat sn) @ le32_bytes (tv_sec ts) @ le32_bytes (tv_usec ts)"

definition finish_transfer ::
    "open_capture \<Rightarrow> nat \<Rightarrow> cpu_private \<Rightarrow> timestamp \<Rightarrow> nat \<Rightarrow> cap_fault + open_capture" where
  "finish_transfer opn cpu d ts caplen =
     (case blit (Buffer d) (pos_P d) (header_stamp (WriterSN opn) ts) of
        None \<Rightarrow> Inl Overrun
      | Some b \<Rightarrow>
          Inr (tap_commit (opn\<lparr>WriterSN := add32 (WriterSN opn) 1\<rparr>) cpu
            (d\<lparr>Buffer := b, pos_P := NewP d, Accepted := add32 (Accepted d) 1\<rparr>) caplen))"

definition tap_transfer ::
    "open_capture \<Rightarrow> nat \<Rightarrow> indication \<Rightarrow> ndis_env \<Rightarrow> nat \<Rightarrow> cap_fault + open_capture" where
  "tap_transfer opn cpu ind env fres =
     (let d = CpuData opn ! cpu; sz = Size opn;
          missing = sub32 (sub32 fres (HeaderBufferSize ind)) (LookaheadBufferSize ind);
          copied = do {
            (b1, p1) \<leftarrow> move_wrap sz (Buffer d) (after_header sz (pos_P d)) (HeaderBuffer ind);
            move_wrap sz b1 p1 (LookaheadBuffer ind)} in
      case copied of
        None \<Rightarrow> Inl Overrun
      | Some (b, p2) \<Rightarrow>
          (let (m1, m2, newp) = transfer_mdls sz p2 missing; d1 = d\<lparr>Buffer := b, NewP := p2\<rparr> in
           if \<not> mdl1_ok env \<or> (m2 \<noteq> None \<and> \<not> mdl2_ok env)
           then Inr (drop_packet (opn\<lparr>CpuData := (CpuData opn)[cpu := d1]\<rparr>) cpu)
           else if \<not> packet_ok env
           then Inr (drop_packet (opn\<lparr>CpuData := (CpuData opn)[cpu := d1\<lparr>NewP := newp\<rparr>]\<rparr>) cpu)
           else
             (case blit b (pos_P d + 12) (header_lengths fres (total_size ind)) of
                None \<Rightarrow> Inl Overrun
              | Some b2 \<Rightarrow>
                  if transfer_pending env
                  then Inr (opn\<lparr>CpuData := (CpuData opn)[cpu :=
                         d1\<lparr>Buffer := b2, NewP := newp, TransferMdl1 := Some m1,
                            TransferMdl2 := m2, BufferLock := True\<rparr>]\<rparr>)
                  else
                    (case write_mdls b2 m1 m2 (transferred env) of
                       None \<Rightarrow> Inl Overrun
                     | Some b3 \<Rightarrow>
                         finish_transfer opn cpu (d1\<lparr>Buffer := b3, NewP := newp\<rparr>) (now env) fres))))"

section \<open>The tap\<close>

definition tap_store ::
    "open_capture \<Rightarrow> nat \<Rightarrow> indication \<Rightarrow> ndis_env \<Rightarrow> nat \<Rightarrow> cap_fault + open_capture" where
  "tap_store opn cpu ind env fres =
     (let d = CpuData opn ! cpu in
      if BufferLock d then Inl Lock_Held
      else if add32 fres SIZEOF_PacketHeader > Free d then Inr (drop_packet opn cpu)
      else if TransferMdl1 d \<noteq> None then Inr (drop_packet opn cpu)
      else if add32 (LookaheadBufferSize ind) (HeaderBufferSize ind) \<ge> fres
      then tap_direct opn cpu ind (now env) fres
      else tap_transfer opn cpu ind env fres)"

definition stop_dump :: "open_capture \<Rightarrow> open_capture" where
  "stop_dump opn = opn\<lparr>DumpLimitReached := True, DumpEvent := True,
     ReadEvent := map_option (\<lambda>_. True) (ReadEvent opn)\<rparr>"

definition tap_accepted ::
    "open_capture \<Rightarrow> nat \<Rightarrow> indication \<Rightarrow> ndis_env \<Rightarrow> nat \<Rightarrow> cap_fault + open_capture" where
  "tap_accepted opn cpu ind env fres =
     (let opn1 = (if has_mode opn MODE_STAT then count_packet ind opn else opn) in
      if has_mode opn MODE_STAT \<and> \<not> has_mode opn MODE_DUMP then Inr opn1
      else if Size opn1 = 0 then Inr (drop_packet opn1 cpu)
      else if has_mode opn MODE_DUMP \<and> MaxDumpPacks opn1 \<noteq> 0 \<and>
              foldl (\<lambda>a d. add32 a (Accepted d)) 0 (CpuData opn1) > MaxDumpPacks opn1
      then Inr (stop_dump opn1)
      else tap_store opn1 cpu ind env fres)"

definition NPF_tap ::
    "(JIT_BPF_Filter \<Rightarrow> packet \<Rightarrow> fault + u32) \<Rightarrow> open_capture \<Rightarrow> nat \<Rightarrow> indication \<Rightarrow> ndis_env \<Rightarrow>
     cap_fault + open_capture" where
  "NPF_tap call opn cpu ind env =
     (let opn1 = opn\<lparr>CpuData := (CpuData opn)[cpu :=
            (CpuData opn ! cpu)\<lparr>Received := add32 (Received (CpuData opn ! cpu)) 1\<rparr>]\<rparr> in
      case tap_filter call opn1 ind of
        Inl f \<Rightarrow> Inl (Filter_Fault f)
      | Inr fres \<Rightarrow>
          if fres = 0 then Inr opn1
          else tap_accepted opn1 cpu ind env (snap_length fres ind))"

text \<open>
  The completion of a pending transfer: NDIS has written \<open>data\<close> through the MDLs. The captured
  length is read back from the header in the buffer.
\<close>

definition NPF_TransferDataComplete ::
    "open_capture \<Rightarrow> nat \<Rightarrow> u8 list \<Rightarrow> timestamp \<Rightarrow> cap_fault + open_capture" where
  "NPF_TransferDataComplete opn cpu data ts =
     (let d = CpuData opn ! cpu in
      case TransferMdl1 d of
        None \<Rightarrow> Inl Overrun
      | Some m1 \<Rightarrow>
          (case write_mdls (Buffer d) m1 (TransferMdl2 d) data of
             None \<Rightarrow> Inl Overrun
           | Some b \<Rightarrow>
               (let caplen = unat (le32_of (chunk b (pos_P d + 12) 4)) in
                case finish_transfer opn cpu (d\<lparr>Buffer := b\<rparr>) ts caplen of
                  Inl e \<Rightarrow> Inl e
                | Inr opn1 \<Rightarrow>
                    (let d1 = (CpuData opn1 ! cpu)\<lparr>TransferMdl1 := None, TransferMdl2 := None,
                                 BufferLock := False\<rparr>;
                         opn2 = opn1\<lparr>CpuData := (CpuData opn1)[cpu := d1]\<rparr> in
                     Inr (if sub32 (Size opn2) (Free d1) > MinToCopy opn2
                          then signal_events opn2 else opn2)))))"

end
