(* ===== verification/Npf_Read.thy ===== *)
theory Npf_Read
  imports Capture
begin

text \<open>
  The consumer of the kernel buffers: \<open>NPF_Read\<close> of \<open>packetNtx/driver/Read.c\<close>. The first part
  decides whether the call fails, returns statistics, waits or copies; the second is the loop
  that visits the CPUs in turn and copies packets in the order of their serial numbers into the
  user buffer. What happens while the call waits for the read event is the argument \<open>during\<close>.
  The build without the TME extensions is modelled (monitor mode fails).
\<close>

section \<open>Copying one packet\<close>

definition Packet_WORDALIGN :: "nat \<Rightarrow> nat" where
  "Packet_WORDALIGN x = unat ((of_nat x + 3 :: u32) AND NOT 3)"

record reader =
  r_open :: open_capture
  r_user :: "u8 list"
  copied :: nat
  count :: nat
  current_cpu :: nat

text \<open>The bytes of the packet, in one move or two, and the consumer position after them.\<close>

definition copy_data ::
    "nat \<Rightarrow> u8 list \<Rightarrow> nat \<Rightarrow> nat \<Rightarrow> u8 list \<Rightarrow> nat \<Rightarrow> (u8 list \<times> nat) option" where
  "copy_data sz buf c plen user at =
     (if sub32 sz c < plen
      then (let ToCopy = sub32 sz c in do {
        a \<leftarrow> slice buf c ToCopy;
        u1 \<leftarrow> blit user at a;
        b \<leftarrow> slice buf 0 (sub32 plen ToCopy);
        u2 \<leftarrow> blit u1 (at + ToCopy) b;
        Some (u2, sub32 plen ToCopy)})
      else do {
        a \<leftarrow> slice buf c plen;
        u1 \<leftarrow> blit user at a;
        Some (u1, add32 c plen)})"

definition copy_packet :: "nat \<Rightarrow> cpu_private \<Rightarrow> nat \<Rightarrow> reader \<Rightarrow> reader option" where
  "copy_packet sz d plen r = do {
     h \<leftarrow> slice (Buffer d) (pos_C d + 4) SIZEOF_bpf_hdr;
     u1 \<leftarrow> blit (r_user r) (copied r) h;
     let at = add32 (copied r) SIZEOF_bpf_hdr;
     (u2, c2) \<leftarrow> copy_data sz (Buffer d) (after_header sz (pos_C d)) plen u1 at;
     let (c3, increment) = skip_tail sz c2 (add32 plen SIZEOF_PacketHeader);
     let opn = r_open r;
     Some (r\<lparr>r_open := opn\<lparr>CpuData := (CpuData opn)[current_cpu r :=
               d\<lparr>pos_C := c3, Free := add32 (Free d) increment\<rparr>],
               ReaderSN := add32 (ReaderSN opn) 1\<rparr>,
             r_user := u2, copied := add32 at (Packet_WORDALIGN plen), count := 0\<rparr>)}"

section \<open>The loop over the CPUs\<close>

datatype read_next = Continue reader | Return reader | Read_Fault

definition next_cpu :: "reader \<Rightarrow> reader" where
  "next_cpu r = r\<lparr>count := count r + 1,
     current_cpu := (current_cpu r + 1) mod length (CpuData (r_open r))\<rparr>"

definition read_step :: "nat \<Rightarrow> reader \<Rightarrow> read_next" where
  "read_step available r =
     (let opn = r_open r; d = CpuData opn ! current_cpu r in
      if \<not> count r < length (CpuData opn) then Return r
      else if available = copied r then Return r
      else if Free d < Size opn
      then (case slice (Buffer d) (pos_C d) SIZEOF_PacketHeader of
          None \<Rightarrow> Read_Fault
        | Some h \<Rightarrow>
            if unat (le32_of h) = ReaderSN opn
            then (let plen = unat (le32_of (drop 12 h)) in
              if add32 plen SIZEOF_bpf_hdr > sub32 available (copied r) then Return r
              else (case copy_packet (Size opn) d plen r of
                  None \<Rightarrow> Read_Fault
                | Some r' \<Rightarrow> Continue r'))
            else Continue (next_cpu r))
      else Continue (next_cpu r))"

text \<open>\<open>None\<close>: the fuel is used up; \<open>Some None\<close>: a memory fault.\<close>

fun read_loop :: "nat \<Rightarrow> nat \<Rightarrow> reader \<Rightarrow> reader option option" where
  "read_loop 0 available r = None"
| "read_loop (Suc n) available r =
     (case read_step available r of
        Continue r' \<Rightarrow> read_loop n available r'
      | Return r' \<Rightarrow> Some (Some r')
      | Read_Fault \<Rightarrow> Some None)"

section \<open>The whole call\<close>

text \<open>\<open>UserBuffer\<close> is None where the MDL of the request cannot be mapped.\<close>

record read_env =
  open_ok :: bool
  binding_ok :: bool
  DumpFileHandle :: bool
  IMMEDIATE_timeout :: bool
  UserBuffer :: "u8 list option"
  read_time :: timestamp
  DumpOffset :: nat

record read_result =
  status :: status
  Information :: nat
  user :: "u8 list option"

definition le64_bytes :: "nat \<Rightarrow> u8 list" where
  "le64_bytes n = le32_bytes (of_nat n) @ le32_bytes (of_nat (n div 4294967296))"

definition Occupation :: "open_capture \<Rightarrow> nat" where
  "Occupation opn = foldl (\<lambda>a d. add32 a (sub32 (Size opn) (Free d))) 0 (CpuData opn)"

definition clear_event :: "open_capture \<Rightarrow> open_capture" where
  "clear_event opn = opn\<lparr>ReadEvent := map_option (\<lambda>_. False) (ReadEvent opn)\<rparr>"

definition read_failure :: "status \<Rightarrow> read_env \<Rightarrow> read_result" where
  "read_failure s env = \<lparr>status = s, Information = 0, user = UserBuffer env\<rparr>"

text \<open>Statistics mode: the counters are written behind a bpf header and reset.\<close>

definition stat_header :: "bool \<Rightarrow> timestamp \<Rightarrow> u8 list \<Rightarrow> u8 list" where
  "stat_header dump ts old =
     le32_bytes (tv_sec ts) @ le32_bytes (tv_usec ts) @
     (if dump then le32_bytes 24 @ le32_bytes 24 @ chunk old 16 4
      else le32_bytes 16 @ le32_bytes 16 @ le16_bytes 20 @ chunk old 18 2)"

definition read_statistics :: "open_capture \<Rightarrow> read_env \<Rightarrow> open_capture \<times> read_result" where
  "read_statistics opn env =
     (case UserBuffer env of
        None \<Rightarrow> (opn, read_failure STATUS_UNSUCCESSFUL env)
      | Some buf \<Rightarrow>
          (let dump = has_mode opn MODE_DUMP; n = (if dump then 24 else 16) in
           if length buf < SIZEOF_bpf_hdr + n
           then (opn, \<lparr>status = STATUS_BUFFER_TOO_SMALL, Information = 0, user = Some buf\<rparr>)
           else (opn\<lparr>Npackets := 0, Nbytes := 0\<rparr>,
                 \<lparr>status = STATUS_SUCCESS, Information = n + SIZEOF_bpf_hdr,
                  user = Some (stat_header dump (read_time env) buf @
                    le64_bytes (Npackets opn) @ le64_bytes (Nbytes opn) @
                    (if dump then le64_bytes (DumpOffset env) @ drop 44 buf else drop 36 buf))\<rparr>)))"

definition read_packets :: "nat \<Rightarrow> open_capture \<Rightarrow> read_env \<Rightarrow> (open_capture \<times> read_result) option option" where
  "read_packets fuel opn env =
     (case UserBuffer env of
        None \<Rightarrow> Some (Some (opn, read_failure STATUS_UNSUCCESSFUL env))
      | Some buf \<Rightarrow>
          map_option (map_option (\<lambda>r. (r_open r,
              \<lparr>status = STATUS_SUCCESS, Information = copied r, user = Some (r_user r)\<rparr>)))
            (read_loop fuel (length buf)
              \<lparr>r_open = clear_event opn, r_user = buf, copied = 0, count = 0, current_cpu = 0\<rparr>))"

definition NPF_Read ::
    "nat \<Rightarrow> (open_capture \<Rightarrow> open_capture) \<Rightarrow> open_capture \<Rightarrow> read_env \<Rightarrow>
     (open_capture \<times> read_result) option option" where
  "NPF_Read fuel during opn env =
     (if \<not> open_ok env then Some (Some (opn, read_failure STATUS_CANCELLED env))
      else if \<not> binding_ok env then Some (Some (opn, read_failure STATUS_UNSUCCESSFUL env))
      else if Size opn = 0 then Some (Some (opn, read_failure STATUS_UNSUCCESSFUL env))
      else if has_mode opn MODE_DUMP \<and> \<not> DumpFileHandle env
      then Some (Some (opn, read_failure STATUS_UNSUCCESSFUL env))
      else if Occupation opn \<le> (MinToCopy opn * length (CpuData opn)) mod 4294967296 \<or>
              has_mode opn MODE_DUMP
      then (let waits = ReadEvent opn \<noteq> None \<and> \<not> IMMEDIATE_timeout env;
                opn1 = clear_event (if waits then during opn else opn) in
            if has_mode opn1 MODE_STAT then Some (Some (read_statistics opn1 env))
            else if mode opn1 = MODE_MON
            then Some (Some (opn1, read_failure STATUS_UNSUCCESSFUL env))
            else read_packets fuel opn1 env)
      else read_packets fuel opn env)"

end
