(* ===== verification/Capture_Layout.thy ===== *)
theory Capture_Layout
  imports Capture
begin

text \<open>
  What the buffer of one CPU holds: a queue of packets, each behind its PacketHeader, laid out
  from the consumer position to the producer position. The moves of the tap are reduced to one
  circular write of the packet, and a write into the free part extends the queue by a packet.
\<close>

section \<open>The moves of the tap\<close>

lemma wrap_mod:
  assumes "p < sz" and "sz - p \<le> n" and "n \<le> (sz :: nat)"
  shows "(p + n) mod sz = n - (sz - p)"
proof -
  have "p + n = (n - (sz - p)) + sz" using assms by linarith
  moreover have "((n - (sz - p)) + sz) mod sz = n - (sz - p)"
    unfolding mod_add_self2 using assms by (intro mod_less) linarith
  ultimately show ?thesis by (simp only:)
qed

lemma move_data_ring:
  assumes "length buf = sz" and "p < sz" and "length data \<le> sz" and "sz < 4294967296"
  shows "\<exists>e. move_data sz buf p data = Some (ring_put buf p data, e) \<and>
    e \<le> sz \<and> e mod sz = (p + length data) mod sz"
proof (cases "sz - p < length data")
  case True
  let ?k = "sz - p"
  obtain b where "blit buf p (take ?k data) = Some b" "blit b 0 (drop ?k data) = Some (ring_put buf p data)"
    using blit_wrap [of p buf ?k data] assms True by auto
  moreover have "(p + length data) mod sz = length data - ?k" "length data - ?k < sz"
    using assms True wrap_mod [of p sz "length data"] by auto
  ultimately show ?thesis
    using True assms by (simp add: move_data_def Let_def)
next
  case False
  then show ?thesis
    using assms blit_ring [of p data buf] by (simp add: move_data_def Let_def)
qed

lemma move_wrap_ring:
  assumes "length buf = sz" and "p < sz" and "length data \<le> sz" and "sz < 4294967296"
  shows "move_wrap sz buf p data = Some (ring_put buf p data, (p + length data) mod sz)"
proof (cases "sz - p < length data")
  case True
  let ?k = "sz - p"
  obtain b where "blit buf p (take ?k data) = Some b" "blit b 0 (drop ?k data) = Some (ring_put buf p data)"
    using blit_wrap [of p buf ?k data] assms True by auto
  moreover have "(p + length data) mod sz = length data - ?k"
    using assms True wrap_mod [of p sz "length data"] by auto
  ultimately show ?thesis
    using True assms by (simp add: move_wrap_def Let_def)
next
  case False
  then show ?thesis
    using assms blit_ring [of p data buf] by (auto simp: move_wrap_def Let_def)
qed

lemma move_two_ring:
  assumes "length buf = sz" and "p < sz" and "length hdr + length look \<le> sz" and "sz < 4294967296"
  shows "\<exists>e. move_two sz buf p hdr look = Some (ring_put buf p (hdr @ look), e) \<and>
    e \<le> sz \<and> e mod sz = (p + length hdr + length look) mod sz"
proof -
  let ?m = "(p + length hdr) mod sz"
  have join: "ring_put (ring_put buf p hdr) ?m look = ring_put buf p (hdr @ look)"
    using ring_put_append [of p buf hdr look] assms by simp
  consider (whole) "\<not> sz - p < length hdr + length look"
    | (edge) "sz - p < length hdr + length look" "p + length hdr = sz"
    | (look) "sz - p < length hdr + length look" "p + length hdr < sz"
    | (hdr) "sz - p < length hdr"
    using assms(2) by linarith
  then show ?thesis
  proof cases
    case whole
    have h: "blit buf p hdr = Some (ring_put buf p hdr)"
      using assms whole by (intro blit_ring) simp
    have "blit (ring_put buf p hdr) (p + length hdr) look =
        Some (ring_put (ring_put buf p hdr) (p + length hdr) look)"
      using assms whole by (intro blit_ring) simp
    also have "ring_put (ring_put buf p hdr) (p + length hdr) look = ring_put buf p (hdr @ look)"
    proof (cases "p + length hdr < sz")
      case True
      with join show ?thesis by simp
    next
      case False
      with whole assms have "length look = 0" by linarith
      then show ?thesis by simp
    qed
    finally show ?thesis
      using h assms whole by (simp add: move_two_def Let_def add.assoc)
  next
    case edge
    have "blit buf p hdr = Some (ring_put buf p hdr)"
      using assms edge by (intro blit_ring) simp
    moreover have "blit (ring_put buf p hdr) 0 look = Some (ring_put (ring_put buf p hdr) 0 look)"
      using assms edge by (intro blit_ring) simp
    moreover have "?m = 0" "length hdr \<le> sz - p" using edge by simp_all
    ultimately show ?thesis
      using join assms edge by (simp add: move_two_def Let_def)
  next
    case look
    let ?p1 = "p + length hdr"
    let ?k = "sz - ?p1"
    have h: "blit buf p hdr = Some (ring_put buf p hdr)"
      using assms look by (intro blit_ring) simp
    have k: "?k \<le> length look" "length hdr \<le> sz - p" using look assms(2) by linarith+
    obtain b where b: "blit (ring_put buf p hdr) ?p1 (take ?k look) = Some b"
        "blit b 0 (drop ?k look) = Some (ring_put (ring_put buf p hdr) ?p1 look)"
      using blit_wrap [of ?p1 "ring_put buf p hdr" ?k look] assms look k by auto
    have "(?p1 + length look) mod sz = length look - ?k" "length look - ?k < sz"
      using assms look wrap_mod [of ?p1 sz "length look"] k by auto
    then show ?thesis
      using join h b assms look k by (simp add: move_two_def Let_def)
  next
    case hdr
    let ?k = "sz - p"
    obtain b where b: "blit buf p (take ?k hdr) = Some b"
        "blit b 0 (drop ?k hdr) = Some (ring_put buf p hdr)"
      using blit_wrap [of p buf ?k hdr] assms hdr by auto
    have m: "?m = length hdr - ?k"
      using assms hdr wrap_mod [of p sz "length hdr"] by auto
    have l: "blit (ring_put buf p hdr) (length hdr - ?k) look =
        Some (ring_put (ring_put buf p hdr) (length hdr - ?k) look)"
      using assms hdr by (intro blit_ring) simp
    have "(p + length hdr + length look) mod sz = (length hdr - ?k + length look) mod sz"
      by (metis m mod_add_left_eq)
    then show ?thesis
      using join m b l assms hdr by (simp add: move_two_def Let_def)
  qed
qed

section \<open>The queue in the buffer\<close>

record cpkt =
  c_sn :: nat
  c_ts :: timestamp
  c_datalen :: nat
  c_data :: "u8 list"

definition data_end :: "nat \<Rightarrow> nat \<Rightarrow> nat \<Rightarrow> nat" where
  "data_end sz c n = (c + SIZEOF_PacketHeader + n) mod sz"

definition next_pos :: "nat \<Rightarrow> nat \<Rightarrow> nat \<Rightarrow> nat" where
  "next_pos sz c n =
     (if sz - data_end sz c n < SIZEOF_PacketHeader then 0 else data_end sz c n)"

text \<open>The bytes a packet occupies, with the tail that is skipped after it.\<close>

definition span :: "nat \<Rightarrow> nat \<Rightarrow> nat \<Rightarrow> nat" where
  "span sz c n = SIZEOF_PacketHeader + n +
     (if sz - data_end sz c n < SIZEOF_PacketHeader then sz - data_end sz c n else 0)"

definition packet_laid :: "nat \<Rightarrow> u8 list \<Rightarrow> nat \<Rightarrow> cpkt \<Rightarrow> bool" where
  "packet_laid sz buf c x \<longleftrightarrow>
     ring_get buf c 22 = header_bytes (c_sn x) (c_ts x) (length (c_data x)) (c_datalen x) \<and>
     ring_get buf ((c + SIZEOF_PacketHeader) mod sz) (length (c_data x)) = c_data x"

fun laid :: "nat \<Rightarrow> u8 list \<Rightarrow> nat \<Rightarrow> cpkt list \<Rightarrow> bool" where
  "laid sz buf c [] \<longleftrightarrow> True"
| "laid sz buf c (x # xs) \<longleftrightarrow>
     packet_laid sz buf c x \<and> laid sz buf (next_pos sz c (length (c_data x))) xs"

fun spans :: "nat \<Rightarrow> nat \<Rightarrow> cpkt list \<Rightarrow> nat" where
  "spans sz c [] = 0"
| "spans sz c (x # xs) =
     span sz c (length (c_data x)) + spans sz (next_pos sz c (length (c_data x))) xs"

lemma span_ge: "SIZEOF_PacketHeader + n \<le> span sz c n"
  by (simp add: span_def)

lemma next_pos_fits: "24 \<le> sz \<Longrightarrow> next_pos sz c n + 24 \<le> sz"
  by (auto simp: next_pos_def)

lemma next_pos_span:
  assumes "24 \<le> sz"
  shows "(c + span sz c n) mod sz = next_pos sz c n"
proof (cases "sz - data_end sz c n < 24")
  case True
  let ?e = "data_end sz c n"
  have "?e < sz" using assms by (simp add: data_end_def)
  have "(c + span sz c n) mod sz = ((c + 24 + n) + (sz - ?e)) mod sz"
    using True by (simp add: span_def add.assoc)
  also have "\<dots> = (?e + (sz - ?e)) mod sz"
    unfolding data_end_def by (simp add: mod_add_left_eq)
  also have "\<dots> = 0" using \<open>?e < sz\<close> by simp
  finally show ?thesis using True by (simp add: next_pos_def)
next
  case False
  then show ?thesis by (simp add: span_def next_pos_def data_end_def add.assoc)
qed

lemma ring_step:
  assumes "24 \<le> sz"
  shows "(next_pos sz c n + a) mod sz = (c + (span sz c n + a)) mod sz"
  unfolding next_pos_span [OF assms, symmetric] by (simp add: mod_add_left_eq add.assoc)

lemma laid_cong:
  assumes "24 \<le> sz"
    and "\<And>a n. a + n \<le> spans sz c xs \<Longrightarrow> ring_get buf' ((c + a) mod sz) n = ring_get buf ((c + a) mod sz) n"
    and "c < sz"
  shows "laid sz buf' c xs = laid sz buf c xs"
  using assms(2,3)
proof (induction xs arbitrary: c)
  case (Cons x xs)
  let ?n = "length (c_data x)"
  have span: "24 + ?n \<le> span sz c ?n" by (rule span_ge)
  have "ring_get buf' ((c + 0) mod sz) 22 = ring_get buf ((c + 0) mod sz) 22"
    by (rule Cons.prems(1)) (use span in simp)
  moreover have "ring_get buf' ((c + 24) mod sz) ?n = ring_get buf ((c + 24) mod sz) ?n"
    by (rule Cons.prems(1)) (use span in simp)
  ultimately have "packet_laid sz buf' c x = packet_laid sz buf c x"
    using Cons.prems(2) by (simp add: packet_laid_def)
  moreover have "laid sz buf' (next_pos sz c ?n) xs = laid sz buf (next_pos sz c ?n) xs"
  proof (rule Cons.IH)
    show "next_pos sz c ?n < sz" using next_pos_fits [OF assms(1), of c ?n] by simp
    show "ring_get buf' ((next_pos sz c ?n + a) mod sz) n =
        ring_get buf ((next_pos sz c ?n + a) mod sz) n"
      if "a + n \<le> spans sz (next_pos sz c ?n) xs" for a n
      unfolding ring_step [OF assms(1)] by (rule Cons.prems(1)) (use that in simp)
  qed
  ultimately show ?case by simp
qed simp

lemma laid_append:
  assumes "24 \<le> sz" and "c < sz"
  shows "laid sz buf c (xs @ [x]) \<longleftrightarrow>
      laid sz buf c xs \<and> packet_laid sz buf ((c + spans sz c xs) mod sz) x"
    and "spans sz c (xs @ [x]) =
      spans sz c xs + span sz ((c + spans sz c xs) mod sz) (length (c_data x))"
proof -
  have "(laid sz buf c (xs @ [x]) \<longleftrightarrow>
      laid sz buf c xs \<and> packet_laid sz buf ((c + spans sz c xs) mod sz) x) \<and>
    spans sz c (xs @ [x]) =
      spans sz c xs + span sz ((c + spans sz c xs) mod sz) (length (c_data x))"
    using assms(2)
  proof (induction xs arbitrary: c)
    case (Cons y ys)
    have "next_pos sz c (length (c_data y)) < sz"
      using next_pos_fits [OF assms(1), of c "length (c_data y)"] by simp
    from Cons.IH [OF this] show ?case
      by (simp add: ring_step [OF assms(1)])
  qed simp
  then show "laid sz buf c (xs @ [x]) \<longleftrightarrow>
      laid sz buf c xs \<and> packet_laid sz buf ((c + spans sz c xs) mod sz) x"
    and "spans sz c (xs @ [x]) =
      spans sz c xs + span sz ((c + spans sz c xs) mod sz) (length (c_data x))"
    by blast+
qed

text \<open>
  A packet that fits in the free bytes together with its header also has room for the tail it
  skips: the consumer position never lies in a tail.
\<close>

lemma span_fits:
  assumes "24 \<le> sz" and "c + 24 \<le> sz" and "u + 24 + n \<le> sz"
  shows "u + span sz ((c + u) mod sz) n \<le> sz"
proof -
  have e: "data_end sz ((c + u) mod sz) n = (c + (u + 24 + n)) mod sz"
    by (simp add: data_end_def mod_add_left_eq add.assoc)
  show ?thesis
  proof (cases "c + (u + 24 + n) < sz")
    case True
    then have "data_end sz ((c + u) mod sz) n = c + (u + 24 + n)"
      unfolding e by (rule mod_less)
    then show ?thesis using assms(3) True by (auto simp: span_def)
  next
    case False
    then have "(c + (u + 24 + n)) mod sz = c + (u + 24 + n) - sz"
      using assms by (simp add: mod_if)
    then have "data_end sz ((c + u) mod sz) n \<le> c" and "data_end sz ((c + u) mod sz) n < sz"
      unfolding e using assms by linarith+
    then show ?thesis using assms by (simp add: span_def)
  qed
qed

text \<open>The buffer of one CPU holds the queue \<open>xs\<close>.\<close>

definition cpu_inv :: "nat \<Rightarrow> cpu_private \<Rightarrow> cpkt list \<Rightarrow> bool" where
  "cpu_inv sz d xs \<longleftrightarrow>
     24 \<le> sz \<and> sz < 4294967296 \<and> length (Buffer d) = sz \<and> pos_C d + 24 \<le> sz \<and>
     pos_P d + 24 \<le> sz \<and>
     laid sz (Buffer d) (pos_C d) xs \<and> Free d + spans sz (pos_C d) xs = sz \<and>
     pos_P d = (pos_C d + spans sz (pos_C d) xs) mod sz"

lemma cpu_inv_free:
  assumes "cpu_inv sz d xs"
  shows "spans sz (pos_C d) xs = sz - Free d" "Free d \<le> sz" "sz < 4294967296" "24 \<le> sz"
    "length (Buffer d) = sz" "pos_P d + 24 \<le> sz" "pos_C d + 24 \<le> sz"
  using assms by (auto simp: cpu_inv_def)

text \<open>Bytes of the queue are not touched by a write into the free part.\<close>

lemma put_keeps_queue:
  assumes inv: "cpu_inv sz d xs" and "off + length data \<le> Free d" and "length buf = sz"
    and "a + n \<le> spans sz (pos_C d) xs"
  shows "ring_get (ring_put buf ((pos_P d + off) mod sz) data) ((pos_C d + a) mod sz) n =
    ring_get buf ((pos_C d + a) mod sz) n"
proof -
  let ?u = "spans sz (pos_C d) xs"
  have "(pos_P d + off) mod sz = (pos_C d + (?u + off)) mod sz"
    using inv by (simp add: cpu_inv_def mod_add_left_eq add.assoc)
  moreover have "?u + off + length data \<le> sz"
    using cpu_inv_free [OF inv] assms(2) by linarith
  ultimately show ?thesis
    using ring_get_put_other [of "pos_C d" buf _ "?u + off" a n data] cpu_inv_free [OF inv]
      assms(3,4) by simp
qed

lemma cpu_inv_extend:
  assumes inv: "cpu_inv sz d xs" and room: "24 + length (c_data x) \<le> Free d"
    and "length buf = sz"
    and same: "\<And>a n. a + n \<le> spans sz (pos_C d) xs \<Longrightarrow>
      ring_get buf ((pos_C d + a) mod sz) n = ring_get (Buffer d) ((pos_C d + a) mod sz) n"
    and new: "packet_laid sz buf (pos_P d) x"
    and d': "Buffer d' = buf" "pos_C d' = pos_C d"
      "pos_P d' = next_pos sz (pos_P d) (length (c_data x))"
      "Free d' = Free d - span sz (pos_P d) (length (c_data x))"
  shows "cpu_inv sz d' (xs @ [x])" and "span sz (pos_P d) (length (c_data x)) \<le> Free d"
proof -
  note f = cpu_inv_free [OF inv]
  let ?c = "pos_C d" and ?u = "spans sz (pos_C d) xs" and ?n = "length (c_data x)"
  have P: "pos_P d = (?c + ?u) mod sz"
    using inv by (simp add: cpu_inv_def)
  have c: "?c < sz" using f by linarith
  have fit: "?u + span sz (pos_P d) ?n \<le> sz"
    unfolding P by (rule span_fits) (use f room in auto)
  then show le: "span sz (pos_P d) ?n \<le> Free d"
    using f by linarith
  have "laid sz buf ?c xs = laid sz (Buffer d) ?c xs"
    by (rule laid_cong [OF f(4) _ c]) (rule same)
  then have laid: "laid sz buf ?c (xs @ [x])"
    using inv new P by (simp add: laid_append(1) [OF f(4) c] cpu_inv_def)
  have spans: "spans sz ?c (xs @ [x]) = ?u + span sz (pos_P d) ?n"
    using P by (simp add: laid_append(2) [OF f(4) c])
  have "next_pos sz (pos_P d) ?n = (?c + (?u + span sz (pos_P d) ?n)) mod sz"
    unfolding next_pos_span [OF f(4), symmetric] P by (simp add: mod_add_left_eq add.assoc)
  with laid spans f le fit next_pos_fits [OF f(4), of "pos_P d" ?n] show "cpu_inv sz d' (xs @ [x])"
    by (simp add: cpu_inv_def d' assms(3))
qed

lemma skip_tail_span:
  assumes "p \<le> sz" and "p mod sz = (c + 24 + n) mod sz" and "n + 24 \<le> sz" and "sz < 4294967296"
    and "c + 24 \<le> sz"
  shows "skip_tail sz p (add32 n 24) = (next_pos sz c n, span sz c n)"
proof (cases "p = sz")
  case True
  then have "data_end sz c n = 0" using assms(2) by (simp add: data_end_def)
  with True assms show ?thesis by (simp add: skip_tail_def next_pos_def span_def)
next
  case False
  then have p: "data_end sz c n = p" using assms(1,2) by (simp add: data_end_def)
  have "sub32 sz p = sz - p" using assms by simp
  moreover have "24 + n + (sz - p) < 4294967296" if "sz - p < 24"
  proof -
    have "p = c + 24 + n \<or> p \<le> c"
    proof (cases "c + 24 + n < sz")
      case True
      then show ?thesis using assms(1,2) False by simp
    next
      case outside: False
      then have "(c + 24 + n) mod sz = c + 24 + n - sz"
        using assms by (simp add: mod_if)
      then have "p = c + 24 + n - sz" using assms(1,2) False by simp
      then show ?thesis using outside assms(3) by linarith
    qed
    then show ?thesis using that assms by linarith
  qed
  moreover have "add32 n 24 = 24 + n" using assms by simp
  moreover have "add32 (24 + n) (sz - p) = 24 + n + (sz - p)" if "sz - p < 24"
    by (rule add32_small) (use calculation(2) that in simp)
  ultimately show ?thesis
    by (simp only: skip_tail_def next_pos_def span_def p) auto
qed

end
