(* ===== verification/Capture_Correct.thy ===== *)
theory Capture_Correct
  imports Capture_Layout
begin

text \<open>
  The tap on the queue of packets. \<open>cap_inv\<close> says that the buffers of all CPUs together hold a
  sequence of packets \<open>G\<close>, each with the CPU that captured it, in the order of their serial
  numbers. A tap leaves the sequence or appends the packet it captured, and a pending transfer
  appends its packet when it completes.
\<close>

section \<open>One packet written into one buffer\<close>

lemma ring_put_zero:
  assumes "at < length buf"
  shows "ring_put buf ((at + 0) mod length buf) d = ring_put buf at d"
  using assms by simp

text \<open>Bytes that are all in the free part, written at an offset from the producer position.\<close>

definition same_queue :: "nat \<Rightarrow> cpu_private \<Rightarrow> cpkt list \<Rightarrow> u8 list \<Rightarrow> bool" where
  "same_queue sz d xs buf \<longleftrightarrow> length buf = sz \<and>
     (\<forall>a n. a + n \<le> spans sz (pos_C d) xs \<longrightarrow>
        ring_get buf ((pos_C d + a) mod sz) n = ring_get (Buffer d) ((pos_C d + a) mod sz) n)"

lemma same_queue_refl: "cpu_inv sz d xs \<Longrightarrow> same_queue sz d xs (Buffer d)"
  by (simp add: same_queue_def cpu_inv_free)

lemma same_queue_put:
  assumes "cpu_inv sz d xs" and "same_queue sz d xs buf" and "off + length data \<le> Free d"
  shows "same_queue sz d xs (ring_put buf ((pos_P d + off) mod sz) data)"
  using put_keeps_queue [OF assms(1,3)] assms(2) by (simp add: same_queue_def)

lemma same_queue_put0:
  assumes "cpu_inv sz d xs" and "same_queue sz d xs buf" and "length data \<le> Free d"
  shows "same_queue sz d xs (ring_put buf (pos_P d) data)"
proof -
  have "(pos_P d + 0) mod sz = pos_P d" using cpu_inv_free [OF assms(1)] by simp
  then show ?thesis using same_queue_put [OF assms(1,2), of 0 data] assms(3) by simp
qed

lemma length_header_bytes [simp]: "length (header_bytes sn ts n m) = 22"
  and length_header_lengths [simp]: "length (header_lengths n m) = 10"
  and length_header_stamp [simp]: "length (header_stamp sn ts) = 12"
  by (simp_all add: header_bytes_def header_lengths_def header_stamp_def)

lemma header_split: "header_bytes sn ts n m = header_stamp sn ts @ header_lengths n m"
  by (simp add: header_bytes_def header_stamp_def header_lengths_def)

lemma after_header_mod: "p + 24 \<le> sz \<Longrightarrow> sz < 4294967296 \<Longrightarrow> after_header sz p = (p + 24) mod sz"
  by (cases "p + 24 = sz") (simp_all add: after_header_def Let_def)

text \<open>The commit of a packet whose bytes are in the buffer.\<close>

definition committed :: "cpu_private \<Rightarrow> nat \<Rightarrow> nat \<Rightarrow> cpu_private" where
  "committed d sz n = d\<lparr>pos_P := fst (skip_tail sz (pos_P d) (add32 n 24)),
     Free := sub32 (Free d) (snd (skip_tail sz (pos_P d) (add32 n 24)))\<rparr>"

lemma tap_commit_fields [simp]:
  "CpuData (tap_commit opn cpu d n) = (CpuData opn)[cpu := committed d (Size opn) n]"
  "Size (tap_commit opn cpu d n) = Size opn"
  "ReaderSN (tap_commit opn cpu d n) = ReaderSN opn"
  "WriterSN (tap_commit opn cpu d n) = WriterSN opn"
  by (simp_all add: tap_commit_def committed_def signal_events_def Let_def split: prod.splits)

lemma committed_fields [simp]:
  "Buffer (committed d sz n) = Buffer d" "pos_C (committed d sz n) = pos_C d"
  "Accepted (committed d sz n) = Accepted d" "Received (committed d sz n) = Received d"
  "Dropped (committed d sz n) = Dropped d"
  "TransferMdl1 (committed d sz n) = TransferMdl1 d"
  "TransferMdl2 (committed d sz n) = TransferMdl2 d"
  "BufferLock (committed d sz n) = BufferLock d"
  by (simp_all add: committed_def)

lemma commit_extends:
  assumes inv: "cpu_inv sz d xs" and room: "24 + length (c_data x) \<le> Free d"
    and same: "same_queue sz d xs buf" and new: "packet_laid sz buf (pos_P d) x"
    and e: "pos_P d1 \<le> sz" "pos_P d1 mod sz = (pos_P d + 24 + length (c_data x)) mod sz"
    and d1: "Buffer d1 = buf" "pos_C d1 = pos_C d" "Free d1 = Free d"
  shows "cpu_inv sz (committed d1 sz (length (c_data x))) (xs @ [x])"
proof (rule cpu_inv_extend(1) [OF inv room])
  note f = cpu_inv_free [OF inv]
  have skip: "skip_tail sz (pos_P d1) (add32 (length (c_data x)) 24) =
      (next_pos sz (pos_P d) (length (c_data x)), span sz (pos_P d) (length (c_data x)))"
    by (rule skip_tail_span [OF e]) (use f room in auto)
  have le: "span sz (pos_P d) (length (c_data x)) \<le> Free d"
  proof -
    have "24 + length (c_data x) \<le> Free d" by (rule room)
    then have "spans sz (pos_C d) xs + 24 + length (c_data x) \<le> sz"
      using f(1,2) by linarith
    from span_fits [OF f(4,7) this]
    have "spans sz (pos_C d) xs + span sz (pos_P d) (length (c_data x)) \<le> sz"
      using inv by (simp only: cpu_inv_def)
    then show ?thesis using f(1,2) by linarith
  qed
  show "pos_P (committed d1 sz (length (c_data x))) = next_pos sz (pos_P d) (length (c_data x))"
    by (simp add: committed_def skip)
  show "Free (committed d1 sz (length (c_data x))) =
      Free d - span sz (pos_P d) (length (c_data x))"
    using le f d1 by (simp add: committed_def skip)
qed (use assms in \<open>auto simp: same_queue_def\<close>)

section \<open>The packet in the two buffers\<close>

definition tapped :: "open_capture \<Rightarrow> nat \<Rightarrow> timestamp \<Rightarrow> u8 list \<Rightarrow> cpkt" where
  "tapped opn dl ts data = \<lparr>c_sn = WriterSN opn, c_ts = ts, c_datalen = dl, c_data = data\<rparr>"

text \<open>The copy of \<open>tap_direct\<close> is one circular write.\<close>

lemma direct_move:
  assumes "length b = sz" and "p < sz" and "sz < 4294967296" and "fres \<le> sz"
    and "fres \<le> HeaderBufferSize ind + LookaheadBufferSize ind"
  shows "\<exists>e. (if fres \<le> HeaderBufferSize ind \<or> contiguous ind
        then move_data sz b p (take fres (HeaderBuffer ind @ LookaheadBuffer ind))
        else move_two sz b p (HeaderBuffer ind)
          (take (fres - HeaderBufferSize ind) (LookaheadBuffer ind))) =
      Some (ring_put b p (take fres (HeaderBuffer ind @ LookaheadBuffer ind)), e) \<and>
    e \<le> sz \<and> e mod sz = (p + fres) mod sz"
proof (cases "fres \<le> HeaderBufferSize ind \<or> contiguous ind")
  case True
  have len: "length (take fres (HeaderBuffer ind @ LookaheadBuffer ind)) = fres"
    using assms(5) by simp
  from move_data_ring [OF assms(1,2) _ assms(3), of "take fres (HeaderBuffer ind @ LookaheadBuffer ind)"]
  show ?thesis unfolding if_P [OF True] len using assms(4) by blast
next
  case False
  then show ?thesis
    using move_two_ring [OF assms(1,2) _ assms(3), of "HeaderBuffer ind"
        "take (fres - HeaderBufferSize ind) (LookaheadBuffer ind)"] assms(4,5)
    by (auto simp: min_absorb2 add.assoc)
qed

lemma packet_laid_direct:
  assumes "length buf = sz" and "p < sz" and "24 + length (c_data x) \<le> sz"
  shows "packet_laid sz (ring_put (ring_put buf p
      (header_bytes (c_sn x) (c_ts x) (length (c_data x)) (c_datalen x))) ((p + 24) mod sz) (c_data x)) p x"
proof -
  let ?h = "header_bytes (c_sn x) (c_ts x) (length (c_data x)) (c_datalen x)"
  let ?b = "ring_put buf p ?h"
  have "ring_get (ring_put ?b ((p + 24) mod length ?b) (c_data x)) ((p + 0) mod length ?b) 22 =
      ring_get ?b ((p + 0) mod length ?b) 22"
    by (rule ring_get_put_disjoint) (use assms in auto)
  moreover have "ring_get ?b p 22 = ?h"
    using ring_get_put_same [of p buf ?h] assms by simp
  moreover have "ring_get (ring_put ?b ((p + 24) mod sz) (c_data x)) ((p + 24) mod sz)
      (length (c_data x)) = c_data x"
    using assms by (intro ring_get_put_same) auto
  ultimately show ?thesis
    using assms by (simp add: packet_laid_def)
qed

lemma tap_direct_appends:
  fixes opn cpu ind ts fres
  defines "d \<equiv> CpuData opn ! cpu" and "sz \<equiv> Size opn"
  defines "x \<equiv> tapped opn (total_size ind) ts (take fres (HeaderBuffer ind @ LookaheadBuffer ind))"
  assumes inv: "cpu_inv sz d xs" and room: "fres + 24 \<le> Free d"
    and have_all: "fres \<le> HeaderBufferSize ind + LookaheadBufferSize ind"
  shows "\<exists>d'. tap_direct opn cpu ind ts fres =
      Inr (tap_commit (opn\<lparr>WriterSN := add32 (WriterSN opn) 1\<rparr>) cpu d' fres) \<and>
    cpu_inv sz (committed d' sz fres) (xs @ [x]) \<and> Accepted d' = add32 (Accepted d) 1 \<and>
    Received d' = Received d \<and> Dropped d' = Dropped d \<and>
    TransferMdl1 d' = TransferMdl1 d \<and> BufferLock d' = BufferLock d"
proof -
  note f = cpu_inv_free [OF inv]
  let ?h = "header_bytes (WriterSN opn) ts fres (total_size ind)"
  let ?data = "take fres (HeaderBuffer ind @ LookaheadBuffer ind)"
  let ?b = "ring_put (Buffer d) (pos_P d) ?h"
  have n: "length ?data = fres" using have_all by simp
  have h: "blit (Buffer d) (pos_P d) ?h = Some ?b"
    using f by (intro blit_ring) simp
  have p1: "after_header sz (pos_P d) = (pos_P d + 24) mod sz"
    using f by (intro after_header_mod) auto
  have "(pos_P d + 24) mod sz < sz" "fres \<le> sz" "length ?b = sz" using f room by auto
  from direct_move [OF this(3,1) f(3) this(2) have_all]
  obtain e where e: "(if fres \<le> HeaderBufferSize ind \<or> contiguous ind
        then move_data sz ?b ((pos_P d + 24) mod sz) ?data
        else move_two sz ?b ((pos_P d + 24) mod sz) (HeaderBuffer ind)
          (take (fres - HeaderBufferSize ind) (LookaheadBuffer ind))) =
      Some (ring_put ?b ((pos_P d + 24) mod sz) ?data, e)"
    and e': "e \<le> sz" "e mod sz = ((pos_P d + 24) mod sz + fres) mod sz"
    by blast
  let ?buf = "ring_put ?b ((pos_P d + 24) mod sz) ?data"
  let ?d = "d\<lparr>Buffer := ?buf, pos_P := e, Accepted := add32 (Accepted d) 1\<rparr>"
  have "tap_direct opn cpu ind ts fres =
      Inr (tap_commit (opn\<lparr>WriterSN := add32 (WriterSN opn) 1\<rparr>) cpu ?d fres)"
    unfolding tap_direct_def Let_def d_def [symmetric] sz_def [symmetric] p1 h
    by (simp only: Option.bind.bind_lunit e option.case prod.case)
  moreover have "cpu_inv sz (committed ?d sz (length (c_data x))) (xs @ [x])"
  proof (rule commit_extends [OF inv])
    have "same_queue sz d xs ?b"
      by (rule same_queue_put0 [OF inv same_queue_refl [OF inv]]) (use room in simp)
    then show "same_queue sz d xs ?buf"
      by (rule same_queue_put [OF inv]) (use room n in simp)
    show "packet_laid sz ?buf (pos_P d) x"
      using packet_laid_direct [of "Buffer d" sz "pos_P d" x] f room n
      by (simp add: x_def tapped_def del: take_append)
  qed (use e' room n f in \<open>auto simp: x_def tapped_def mod_add_left_eq simp del: take_append\<close>)
  moreover have "length (c_data x) = fres"
    using n by (simp add: x_def tapped_def del: take_append)
  ultimately show ?thesis by (intro exI [of _ ?d]) simp
qed

section \<open>The packet that NdisTransferData completes\<close>

lemma cpu_inv_buffer:
  assumes inv: "cpu_inv sz d xs" and same: "same_queue sz d xs buf"
    and "Buffer d' = buf" "pos_C d' = pos_C d" "pos_P d' = pos_P d" "Free d' = Free d"
  shows "cpu_inv sz d' xs"
proof -
  have "laid sz buf (pos_C d) xs = laid sz (Buffer d) (pos_C d) xs"
  proof (rule laid_cong)
    show "ring_get buf ((pos_C d + a) mod sz) n = ring_get (Buffer d) ((pos_C d + a) mod sz) n"
      if "a + n \<le> spans sz (pos_C d) xs" for a n
      using same that by (simp add: same_queue_def)
  qed (use cpu_inv_free [OF inv] in auto)
  then show ?thesis
    using inv same assms(3-) by (simp add: cpu_inv_def same_queue_def)
qed

text \<open>
  The state between the first copy and the end of the transfer: the first bytes \<open>pre\<close> and the
  lengths are in the free part, the MDLs describe where the \<open>missing\<close> bytes go.
\<close>

definition transfer_open ::
    "nat \<Rightarrow> cpu_private \<Rightarrow> nat \<times> nat \<Rightarrow> (nat \<times> nat) option \<Rightarrow> u8 list \<Rightarrow> nat \<Rightarrow> nat \<Rightarrow> bool" where
  "transfer_open sz d m1 m2 pre missing datalen \<longleftrightarrow>
     24 + length pre + missing \<le> Free d \<and>
     ring_get (Buffer d) ((pos_P d + 12) mod sz) 10 =
       header_lengths (length pre + missing) datalen \<and>
     ring_get (Buffer d) ((pos_P d + 24) mod sz) (length pre) = pre \<and>
     (m1, m2, NewP d) = transfer_mdls sz ((pos_P d + 24 + length pre) mod sz) missing"

lemma write_mdls_ring:
  assumes "length buf = sz" and "q < sz" and "sz < 4294967296" and "missing \<le> sz"
    and "(m1, m2, newp) = transfer_mdls sz q missing"
  shows "write_mdls buf m1 m2 data = Some (ring_put buf q (take missing data))"
    and "newp \<le> sz" and "newp mod sz = (q + missing) mod sz"
proof -
  have "write_mdls buf m1 m2 data = Some (ring_put buf q (take missing data)) \<and>
    newp \<le> sz \<and> newp mod sz = (q + missing) mod sz"
  proof (cases "missing \<le> sz - q")
    case True
    then show ?thesis
      using assms blit_ring [of q "take missing data" buf]
      by (simp add: transfer_mdls_def write_mdls_def)
  next
    case False
    let ?k = "sz - q" and ?d = "take missing data"
    have "take ?k ?d = take ?k data" "drop ?k ?d = take (missing - ?k) (drop ?k data)"
      using False by (simp_all add: min_absorb1 drop_take)
    moreover obtain b where "blit buf q (take ?k ?d) = Some b"
        "blit b 0 (drop ?k ?d) = Some (ring_put buf q ?d)"
    proof (cases "?k \<le> length ?d")
      case True
      moreover have "length ?d \<le> length buf" using assms by (simp add: min.coboundedI2)
      ultimately show ?thesis using blit_wrap [of q buf ?k ?d] assms(1,2) that by auto
    next
      case False
      then have "q + length ?d \<le> length buf" using assms(1,2) by linarith
      then have "blit buf q ?d = Some (ring_put buf q ?d)" by (rule blit_ring)
      moreover have "blit (ring_put buf q ?d) 0 [] = Some (ring_put buf q ?d)"
        by (simp add: blit_Some)
      moreover have "take ?k ?d = ?d" "drop ?k ?d = []"
        using False by (simp_all only: not_le take_all drop_all less_imp_le)
      ultimately show ?thesis using that by (simp only:)
    qed
    moreover have "(q + missing) mod sz = missing - ?k" "missing - ?k < sz"
      using wrap_mod [of q sz missing] assms False by auto
    ultimately show ?thesis
      using assms False by (simp add: transfer_mdls_def write_mdls_def)
  qed
  then show "write_mdls buf m1 m2 data = Some (ring_put buf q (take missing data))"
    "newp \<le> sz" "newp mod sz = (q + missing) mod sz"
    by blast+
qed

lemma write_mdls_length: "write_mdls buf m1 m2 data = Some b \<Longrightarrow> length b = length buf"
  by (auto simp: write_mdls_def bind_eq_Some_conv dest!: blit_length split: option.splits)

text \<open>The bytes of a packet whose lengths, first bytes, last bytes and stamp are written one by one.\<close>

lemma packet_laid_pieces:
  assumes len: "length buf = sz" and p: "p < sz" and room: "24 + length pre + length post \<le> sz"
    and lens: "ring_get buf ((p + 12) mod sz) 10 = header_lengths (length pre + length post) dl"
    and pre: "ring_get buf ((p + 24) mod sz) (length pre) = pre"
  defines "b \<equiv> ring_put buf ((p + (24 + length pre)) mod sz) post"
  shows "ring_get b ((p + 12) mod sz) 10 = header_lengths (length pre + length post) dl"
    and "packet_laid sz (ring_put b p (header_stamp sn ts)) p
      \<lparr>c_sn = sn, c_ts = ts, c_datalen = dl, c_data = pre @ post\<rparr>"
proof -
  let ?s = "header_stamp sn ts"
  have keep: "ring_get b ((p + a) mod sz) n = ring_get buf ((p + a) mod sz) n"
    if "a + n \<le> 24 + length pre" for a n
    using ring_get_put_disjoint [of p buf a n "24 + length pre" post] that len p room
    by (simp add: b_def)
  have b: "length b = sz" by (simp add: b_def len)
  have stamp: "ring_get (ring_put b p ?s) ((p + a) mod sz) n = ring_get b ((p + a) mod sz) n"
    if "12 \<le> a" "a + n \<le> sz" for a n
    using ring_get_put_after [of p b ?s a n] that b p by simp
  show lens_b: "ring_get b ((p + 12) mod sz) 10 = header_lengths (length pre + length post) dl"
    using keep [of 12 10] lens by simp
  have "ring_get b ((p + 24 + length pre) mod sz) (length post) = post"
    using ring_get_put_same [of "(p + (24 + length pre)) mod sz" buf post] len p room
    by (simp add: b_def add.assoc)
  then have data: "ring_get b ((p + 24) mod sz) (length pre + length post) = pre @ post"
    using keep [of 24 "length pre"] pre b by (simp add: ring_get_append mod_add_left_eq)
  have "ring_get (ring_put b p ?s) p (12 + 10) = ?s @ header_lengths (length pre + length post) dl"
    unfolding ring_get_append
    using ring_get_put_same [of p b ?s] stamp [of 12 10] lens_b b p room by simp
  moreover have "ring_get (ring_put b p ?s) ((p + 24) mod sz) (length pre + length post) = pre @ post"
    using stamp [of 24 "length pre + length post"] data room by (simp add: add.assoc)
  ultimately show "packet_laid sz (ring_put b p ?s) p
      \<lparr>c_sn = sn, c_ts = ts, c_datalen = dl, c_data = pre @ post\<rparr>"
    by (simp add: packet_laid_def header_split)
qed

text \<open>
  The bytes that end up in the \<open>m\<close> bytes at \<open>q\<close>: those NDIS transferred and, where it transferred
  fewer, what the buffer held before.
\<close>

definition landed :: "nat \<Rightarrow> cpu_private \<Rightarrow> nat \<Rightarrow> nat \<Rightarrow> u8 list \<Rightarrow> u8 list" where
  "landed sz d q m data = take m data @ drop (length data) (ring_get (Buffer d) q m)"

lemma length_landed [simp]: "length (landed sz d q m data) = m"
  by (simp add: landed_def)

lemma landed_full: "m \<le> length data \<Longrightarrow> landed sz d q m data = take m data"
  by (simp add: landed_def)

lemma transfer_finishes:
  fixes ts opn dl pre missing data
  assumes inv: "cpu_inv sz d xs" and opened: "transfer_open sz d m1 m2 pre missing dl"
    and sz: "sz = Size opn"
  defines "x \<equiv> tapped opn dl ts
    (pre @ landed sz d ((pos_P d + 24 + length pre) mod sz) missing data)"
  shows "\<exists>b d'. write_mdls (Buffer d) m1 m2 data = Some b \<and>
    ring_get b ((pos_P d + 12) mod sz) 10 = header_lengths (length pre + missing) dl \<and>
    finish_transfer opn cpu (d\<lparr>Buffer := b\<rparr>) ts (length pre + missing) =
      Inr (tap_commit (opn\<lparr>WriterSN := add32 (WriterSN opn) 1\<rparr>) cpu d' (length pre + missing)) \<and>
    cpu_inv sz (committed d' sz (length pre + missing)) (xs @ [x]) \<and>
    Accepted d' = add32 (Accepted d) 1 \<and> Received d' = Received d \<and> Dropped d' = Dropped d \<and>
    TransferMdl1 d' = TransferMdl1 d \<and> BufferLock d' = BufferLock d"
proof -
  note f = cpu_inv_free [OF inv]
  let ?q = "(pos_P d + 24 + length pre) mod sz"
  let ?post = "landed sz d ?q missing data"
  let ?b = "ring_put (Buffer d) ((pos_P d + (24 + length pre)) mod sz) ?post"
  let ?buf = "ring_put ?b (pos_P d) (header_stamp (WriterSN opn) ts)"
  have room: "24 + length pre + missing \<le> Free d"
    and lens: "ring_get (Buffer d) ((pos_P d + 12) mod sz) 10 =
      header_lengths (length pre + length ?post) dl"
    and pre: "ring_get (Buffer d) ((pos_P d + 24) mod sz) (length pre) = pre"
    and mdls: "(m1, m2, NewP d) = transfer_mdls sz ?q missing"
    using opened by (simp_all add: transfer_open_def)
  have p: "pos_P d < sz" "24 + length pre + length ?post \<le> sz" and post: "length ?post = missing"
    using f room by auto
  have q: "?q < sz" "missing \<le> sz" using p post by auto
  note w = write_mdls_ring [OF f(5) q(1) f(3) q(2) mdls]
  have put: "ring_put (Buffer d) ?q (take missing data) = ring_put (Buffer d) ?q ?post"
    unfolding landed_def by (rule ring_put_keep [symmetric]) (use f q in simp_all)
  note pieces = packet_laid_pieces [OF f(5) p lens pre]
  let ?d = "d\<lparr>Buffer := ?buf, pos_P := NewP d, Accepted := add32 (Accepted d) 1\<rparr>"
  have h: "blit ?b (pos_P d) (header_stamp (WriterSN opn) ts) = Some ?buf"
    using f by (intro blit_ring) simp
  have xlen: "length (c_data x) = length pre + missing"
    using post by (simp add: x_def tapped_def)
  have "cpu_inv sz (committed ?d sz (length (c_data x))) (xs @ [x])"
  proof (rule commit_extends [OF inv])
    have "same_queue sz d xs ?b"
      by (rule same_queue_put [OF inv same_queue_refl [OF inv]]) (use room post in simp)
    then show "same_queue sz d xs ?buf"
      by (rule same_queue_put0 [OF inv]) (use room in simp)
    show "packet_laid sz ?buf (pos_P d) x"
      using pieces(2) by (simp add: x_def tapped_def)
    show "pos_P ?d mod sz = (pos_P d + 24 + length (c_data x)) mod sz"
      using w(3) xlen by (simp add: mod_add_left_eq add.assoc)
  qed (use w(2) room xlen in auto)
  then show ?thesis
    using w(1) [of data] put h pieces(1) xlen post
    by (intro exI [of _ ?b] exI [of _ ?d]) (simp add: finish_transfer_def add.assoc)
qed

text \<open>The first copy of the transfer path, and the header lengths behind it.\<close>

lemma transfer_starts:
  fixes fres :: nat and ind :: indication
  defines "pre \<equiv> HeaderBuffer ind @ LookaheadBuffer ind"
  defines "missing \<equiv> fres - length pre"
  assumes inv: "cpu_inv sz d xs" and room: "fres + 24 \<le> Free d" and less: "length pre < fres"
  shows "\<exists>b b2. Option.bind (move_wrap sz (Buffer d) (after_header sz (pos_P d)) (HeaderBuffer ind))
        (\<lambda>(b1, p1). move_wrap sz b1 p1 (LookaheadBuffer ind)) =
      Some (b, (pos_P d + 24 + length pre) mod sz) \<and>
    same_queue sz d xs b \<and>
    blit b (pos_P d + 12) (header_lengths fres dl) = Some b2 \<and> same_queue sz d xs b2 \<and>
    ring_get b2 ((pos_P d + 24 + length pre) mod sz) missing =
      ring_get (Buffer d) ((pos_P d + 24 + length pre) mod sz) missing \<and>
    (\<forall>d' m1 m2. Buffer d' = b2 \<and> pos_P d' = pos_P d \<and> Free d' = Free d \<and>
       (m1, m2, NewP d') = transfer_mdls sz ((pos_P d + 24 + length pre) mod sz) missing \<longrightarrow>
       transfer_open sz d' m1 m2 pre missing dl)"
proof -
  note f = cpu_inv_free [OF inv]
  let ?H = "HeaderBuffer ind" and ?L = "LookaheadBuffer ind"
  let ?p = "(pos_P d + 24) mod sz"
  let ?b = "ring_put (Buffer d) ?p pre"
  let ?b2 = "ring_put ?b ((pos_P d + 12) mod sz) (header_lengths fres dl)"
  have p: "?p < sz" "pos_P d < sz" "after_header sz (pos_P d) = ?p"
    using f by (auto intro: after_header_mod)
  have pre: "length pre \<le> sz" "length ?H + length ?L = length pre" "24 + length pre \<le> sz"
    using f room less by (auto simp: pre_def)
  have move: "Option.bind (move_wrap sz (Buffer d) (after_header sz (pos_P d)) ?H)
        (\<lambda>(b1, p1). move_wrap sz b1 p1 ?L) =
      Some (?b, (pos_P d + 24 + length pre) mod sz)"
  proof -
    have fits: "length ?H + length ?L \<le> sz" using pre(1,2) by linarith
    have "move_wrap sz (Buffer d) ?p ?H = Some (ring_put (Buffer d) ?p ?H, (?p + length ?H) mod sz)"
      using f p pre by (intro move_wrap_ring) auto
    moreover have "move_wrap sz (ring_put (Buffer d) ?p ?H) ((?p + length ?H) mod sz) ?L =
        Some (ring_put (ring_put (Buffer d) ?p ?H) ((?p + length ?H) mod sz) ?L,
          ((?p + length ?H) mod sz + length ?L) mod sz)"
      using f p pre by (intro move_wrap_ring) auto
    moreover have "ring_put (ring_put (Buffer d) ?p ?H) ((?p + length ?H) mod sz) ?L = ?b"
      using ring_put_append [of ?p "Buffer d" ?H ?L] p(1) fits
      unfolding f(5) pre_def by simp
    moreover have "((?p + length ?H) mod sz + length ?L) mod sz = (pos_P d + 24 + length pre) mod sz"
      using pre(2) by (simp add: mod_add_left_eq add.assoc)
    ultimately show ?thesis using p by simp
  qed
  have b: "same_queue sz d xs ?b"
    by (rule same_queue_put [OF inv same_queue_refl [OF inv]]) (use room less in simp)
  have P12: "(pos_P d + 12) mod sz = pos_P d + 12" using f by simp
  have lens: "blit ?b (pos_P d + 12) (header_lengths fres dl) = Some ?b2"
    unfolding P12 using f by (intro blit_ring) simp
  have b2: "same_queue sz d xs ?b2"
    by (rule same_queue_put [OF inv b]) (use room in simp)
  have "ring_get ?b2 ((pos_P d + 12) mod sz) 10 = header_lengths fres dl"
    using ring_get_put_same [of "(pos_P d + 12) mod sz" ?b "header_lengths fres dl"] f P12 by simp
  moreover have "ring_get ?b2 ?p (length pre) = pre"
  proof -
    have "ring_get ?b2 ?p (length pre) = ring_get ?b ?p (length pre)"
      using ring_get_put_disjoint [of "pos_P d" ?b 24 "length pre" 12 "header_lengths fres dl"]
        f p pre by simp
    also have "\<dots> = pre" using f p pre by (intro ring_get_put_same) auto
    finally show ?thesis .
  qed
  moreover have "length pre + missing = fres" using less by (simp add: missing_def)
  ultimately have opened: "transfer_open sz d' m1 m2 pre missing dl"
    if "Buffer d' = ?b2" "pos_P d' = pos_P d" "Free d' = Free d"
      "(m1, m2, NewP d') = transfer_mdls sz ((pos_P d + 24 + length pre) mod sz) missing"
    for d' m1 m2
    using that room by (simp add: transfer_open_def)
  have stale: "ring_get ?b2 ((pos_P d + 24 + length pre) mod sz) missing =
      ring_get (Buffer d) ((pos_P d + 24 + length pre) mod sz) missing"
  proof -
    have fits: "24 + length pre + missing \<le> sz" using f room less by (simp add: missing_def)
    have "ring_get ?b2 ((pos_P d + (24 + length pre)) mod sz) missing =
        ring_get ?b ((pos_P d + (24 + length pre)) mod sz) missing"
      using ring_get_put_disjoint [of "pos_P d" ?b "24 + length pre" missing 12 "header_lengths fres dl"]
        f p fits by simp
    also have "\<dots> = ring_get (Buffer d) ((pos_P d + (24 + length pre)) mod sz) missing"
      using ring_get_put_disjoint [of "pos_P d" "Buffer d" "24 + length pre" missing 24 pre]
        f p fits by simp
    finally show ?thesis by (simp add: add.assoc)
  qed
  show ?thesis
    by (intro exI [of _ ?b] exI [of _ ?b2] conjI allI impI move b lens b2 stale opened) simp_all
qed

section \<open>What a tap does\<close>

text \<open>
  The fate of a packet the filter accepted with snapshot length \<open>n\<close>: not buffered by design, lost,
  stored with these bytes, or waiting for the bytes NDIS still owes.
\<close>

datatype verdict = Ignored | Lost | Stored "u8 list" | Waiting "u8 list" nat

definition in_hand :: "indication \<Rightarrow> u8 list" where
  "in_hand ind = HeaderBuffer ind @ LookaheadBuffer ind"

definition mdls_ok :: "open_capture \<Rightarrow> nat \<Rightarrow> indication \<Rightarrow> ndis_env \<Rightarrow> nat \<Rightarrow> bool" where
  "mdls_ok opn cpu ind env n \<longleftrightarrow>
     (let q = (pos_P (CpuData opn ! cpu) + 24 + length (in_hand ind)) mod Size opn in
      mdl1_ok env \<and> (Size opn - q < n - length (in_hand ind) \<longrightarrow> mdl2_ok env) \<and> packet_ok env)"

text \<open>What the transfer leaves behind the bytes at hand.\<close>

definition landed_bytes :: "open_capture \<Rightarrow> nat \<Rightarrow> indication \<Rightarrow> ndis_env \<Rightarrow> nat \<Rightarrow> u8 list" where
  "landed_bytes opn cpu ind env n =
     landed (Size opn) (CpuData opn ! cpu)
       ((pos_P (CpuData opn ! cpu) + 24 + length (in_hand ind)) mod Size opn)
       (n - length (in_hand ind)) (transferred env)"

definition store_verdict :: "open_capture \<Rightarrow> nat \<Rightarrow> indication \<Rightarrow> ndis_env \<Rightarrow> nat \<Rightarrow> verdict" where
  "store_verdict opn cpu ind env n =
     (if n + 24 > Free (CpuData opn ! cpu) then Lost
      else if n \<le> length (in_hand ind) then Stored (take n (in_hand ind))
      else if \<not> mdls_ok opn cpu ind env n then Lost
      else if transfer_pending env then Waiting (in_hand ind) (n - length (in_hand ind))
      else Stored (in_hand ind @ landed_bytes opn cpu ind env n))"

definition dump_full :: "open_capture \<Rightarrow> bool" where
  "dump_full opn \<longleftrightarrow> has_mode opn MODE_DUMP \<and> MaxDumpPacks opn \<noteq> 0 \<and>
     foldl (\<lambda>a d. add32 a (Accepted d)) 0 (CpuData opn) > MaxDumpPacks opn"

definition tap_verdict :: "open_capture \<Rightarrow> nat \<Rightarrow> indication \<Rightarrow> ndis_env \<Rightarrow> u32 \<Rightarrow> verdict" where
  "tap_verdict opn cpu ind env fres =
     (if fres = 0 \<or> (has_mode opn MODE_STAT \<and> \<not> has_mode opn MODE_DUMP) then Ignored
      else if Size opn = 0 then Lost
      else if dump_full opn then Ignored
      else store_verdict opn cpu ind env (snap_length fres ind))"

text \<open>The effect of a verdict on the buffer of the CPU, whose queue was \<open>xs\<close>.\<close>

definition verdict_effect ::
    "nat \<Rightarrow> cpu_private \<Rightarrow> cpkt list \<Rightarrow> (u8 list \<Rightarrow> cpkt) \<Rightarrow> nat \<Rightarrow> verdict \<Rightarrow> cpu_private \<Rightarrow> bool" where
  "verdict_effect sz d xs pkt dl v d' \<longleftrightarrow>
     Received d' = Received d \<and>
     (case v of
        Ignored \<Rightarrow> d' = d
      | Lost \<Rightarrow> cpu_inv sz d' xs \<and> Dropped d' = add32 (Dropped d) 1 \<and> Accepted d' = Accepted d \<and>
          TransferMdl1 d' = None \<and> \<not> BufferLock d'
      | Stored data \<Rightarrow> cpu_inv sz d' (xs @ [pkt data]) \<and> Accepted d' = add32 (Accepted d) 1 \<and>
          Dropped d' = Dropped d \<and> TransferMdl1 d' = None \<and> \<not> BufferLock d'
      | Waiting pre missing \<Rightarrow> cpu_inv sz d' xs \<and> Accepted d' = Accepted d \<and>
          Dropped d' = Dropped d \<and> BufferLock d' \<and>
          (\<exists>m1. TransferMdl1 d' = Some m1 \<and>
             transfer_open sz d' m1 (TransferMdl2 d') pre missing dl))"

definition stores :: "verdict \<Rightarrow> bool" where
  "stores v \<longleftrightarrow> (case v of Stored data \<Rightarrow> True | _ \<Rightarrow> False)"

text \<open>The fields of the instance that only other operations change.\<close>

definition same_setup :: "open_capture \<Rightarrow> open_capture \<Rightarrow> bool" where
  "same_setup opn opn' \<longleftrightarrow> Size opn' = Size opn \<and> ReaderSN opn' = ReaderSN opn \<and>
     length (CpuData opn') = length (CpuData opn) \<and> mode opn' = mode opn"

definition tap_effect ::
    "open_capture \<Rightarrow> nat \<Rightarrow> cpkt list \<Rightarrow> indication \<Rightarrow> timestamp \<Rightarrow> verdict \<Rightarrow> open_capture \<Rightarrow> bool" where
  "tap_effect opn cpu xs ind ts v opn' \<longleftrightarrow>
     same_setup opn opn' \<and>
     WriterSN opn' = (if stores v then add32 (WriterSN opn) 1 else WriterSN opn) \<and>
     (\<exists>d'. CpuData opn' = (CpuData opn)[cpu := d'] \<and>
       verdict_effect (Size opn) (CpuData opn ! cpu) xs (tapped opn (total_size ind) ts) (total_size ind) v d')"

lemma tap_effectI:
  assumes "same_setup opn opn'"
    and "WriterSN opn' = (if stores v then add32 (WriterSN opn) 1 else WriterSN opn)"
    and "CpuData opn' = (CpuData opn)[cpu := d']"
    and "verdict_effect (Size opn) (CpuData opn ! cpu) xs (tapped opn (total_size ind) ts) (total_size ind) v d'"
  shows "tap_effect opn cpu xs ind ts v opn'"
  using assms unfolding tap_effect_def by blast

lemma mode_tap_commit [simp]: "mode (tap_commit opn cpu d n) = mode opn"
  by (simp add: tap_commit_def signal_events_def Let_def split: prod.splits)

lemma commit_setup: "same_setup opn (tap_commit (opn\<lparr>WriterSN := w\<rparr>) cpu d n)"
  by (simp add: same_setup_def)

lemma tapped_WriterSN [simp]: "tapped (opn\<lparr>CpuData := cs\<rparr>) (total_size ind) ts = tapped opn (total_size ind) ts"
  by (simp add: tapped_def fun_eq_iff)

lemma drop_effect:
  assumes "cpu < length (CpuData opn)" and "CpuData opn ! cpu = d" and "\<not> BufferLock d"
    and "TransferMdl1 d = None"
    and "cpu_inv (Size opn) d1 xs"
    and "d1\<lparr>Buffer := Buffer d, NewP := NewP d\<rparr> = d"
  shows "tap_effect opn cpu xs ind ts Lost (drop_packet (opn\<lparr>CpuData := (CpuData opn)[cpu := d1]\<rparr>) cpu)"
proof -
  have "Dropped d1 = Dropped d" "Accepted d1 = Accepted d" "Received d1 = Received d"
    "TransferMdl1 d1 = TransferMdl1 d" "BufferLock d1 = BufferLock d"
    by (subst assms(6) [symmetric], simp)+
  then show ?thesis
    using assms(1-5)
    by (intro tap_effectI [where d' = "d1\<lparr>Dropped := add32 (Dropped d1) 1\<rparr>"])
       (auto simp: drop_packet_def same_setup_def stores_def verdict_effect_def cpu_inv_def)
qed

lemma tap_direct_verdict:
  assumes "cpu < length (CpuData opn)" and "\<not> BufferLock (CpuData opn ! cpu)"
    and "TransferMdl1 (CpuData opn ! cpu) = None"
    and "cpu_inv (Size opn) (CpuData opn ! cpu) xs"
    and "n + 24 \<le> Free (CpuData opn ! cpu)" and "n \<le> length (in_hand ind)"
  shows "\<exists>opn'. tap_direct opn cpu ind ts n = Inr opn' \<and>
    tap_effect opn cpu xs ind ts (Stored (take n (in_hand ind))) opn'"
proof -
  from tap_direct_appends [OF assms(4,5), of ind ts] assms(6)
  obtain d' where d': "tap_direct opn cpu ind ts n =
      Inr (tap_commit (opn\<lparr>WriterSN := add32 (WriterSN opn) 1\<rparr>) cpu d' n)"
    "cpu_inv (Size opn) (committed d' (Size opn) n)
      (xs @ [tapped opn (total_size ind) ts (take n (in_hand ind))])"
    "Accepted d' = add32 (Accepted (CpuData opn ! cpu)) 1"
    "Received d' = Received (CpuData opn ! cpu)" "Dropped d' = Dropped (CpuData opn ! cpu)"
    "TransferMdl1 d' = TransferMdl1 (CpuData opn ! cpu)"
    "BufferLock d' = BufferLock (CpuData opn ! cpu)"
    unfolding in_hand_def by auto
  have "tap_effect opn cpu xs ind ts (Stored (take n (in_hand ind)))
      (tap_commit (opn\<lparr>WriterSN := add32 (WriterSN opn) 1\<rparr>) cpu d' n)"
    by (rule tap_effectI [where d' = "committed d' (Size opn) n"])
       (use d' assms(2,3) in \<open>auto simp: commit_setup stores_def verdict_effect_def\<close>)
  with d'(1) show ?thesis by blast
qed

lemma missing_bytes:
  assumes "length (in_hand ind) < n" and "n < 4294967296"
  shows "sub32 (sub32 n (HeaderBufferSize ind)) (LookaheadBufferSize ind) =
    n - length (in_hand ind)"
  using assms by (simp add: in_hand_def)

lemma second_mdl:
  assumes "(m1, m2, newp) = transfer_mdls sz q missing" and "q < sz" and "sz < 4294967296"
  shows "m2 \<noteq> None \<longleftrightarrow> sz - q < missing"
  using assms by (auto simp: transfer_mdls_def split: if_splits)

lemma mdls_okI:
  assumes "(m1, m2, newp) = transfer_mdls (Size opn) q (n - length (in_hand ind))"
    and "q = (pos_P (CpuData opn ! cpu) + 24 + length (in_hand ind)) mod Size opn"
    and "q < Size opn" and "Size opn < 4294967296"
  shows "mdls_ok opn cpu ind env n \<longleftrightarrow>
    \<not> (\<not> mdl1_ok env \<or> (m2 \<noteq> None \<and> \<not> mdl2_ok env)) \<and> packet_ok env"
  using second_mdl [OF assms(1,3,4)] assms(2) by (auto simp: mdls_ok_def Let_def)

text \<open>The transfer path, from the two copies it starts with.\<close>

lemma tap_transfer_cases:
  assumes copies: "Option.bind
      (move_wrap (Size opn) (Buffer (CpuData opn ! cpu))
        (after_header (Size opn) (pos_P (CpuData opn ! cpu))) (HeaderBuffer ind))
      (\<lambda>(b1, p1). move_wrap (Size opn) b1 p1 (LookaheadBuffer ind)) = Some (b, q)"
    and lens: "blit b (pos_P (CpuData opn ! cpu) + 12) (header_lengths n (total_size ind)) = Some b2"
    and mdls: "(m1, m2, newp) = transfer_mdls (Size opn) q (n - length (in_hand ind))"
    and n: "length (in_hand ind) < n" "n < 4294967296"
  defines "d \<equiv> CpuData opn ! cpu"
  defines "d1 \<equiv> d\<lparr>Buffer := b, NewP := q\<rparr>" and "d2 \<equiv> d\<lparr>Buffer := b2, NewP := newp\<rparr>"
  shows "\<not> mdl1_ok env \<or> (m2 \<noteq> None \<and> \<not> mdl2_ok env) \<Longrightarrow> tap_transfer opn cpu ind env n =
      Inr (drop_packet (opn\<lparr>CpuData := (CpuData opn)[cpu := d1]\<rparr>) cpu)"
    and "\<lbrakk>\<not> (\<not> mdl1_ok env \<or> (m2 \<noteq> None \<and> \<not> mdl2_ok env)); \<not> packet_ok env\<rbrakk> \<Longrightarrow>
      tap_transfer opn cpu ind env n =
      Inr (drop_packet (opn\<lparr>CpuData := (CpuData opn)[cpu := d1\<lparr>NewP := newp\<rparr>]\<rparr>) cpu)"
    and "\<lbrakk>\<not> (\<not> mdl1_ok env \<or> (m2 \<noteq> None \<and> \<not> mdl2_ok env)); packet_ok env;
        transfer_pending env\<rbrakk> \<Longrightarrow> tap_transfer opn cpu ind env n =
      Inr (opn\<lparr>CpuData := (CpuData opn)[cpu := d2\<lparr>TransferMdl1 := Some m1,
        TransferMdl2 := m2, BufferLock := True\<rparr>]\<rparr>)"
    and "\<lbrakk>\<not> (\<not> mdl1_ok env \<or> (m2 \<noteq> None \<and> \<not> mdl2_ok env)); packet_ok env;
        \<not> transfer_pending env; write_mdls b2 m1 m2 (transferred env) = Some b3\<rbrakk> \<Longrightarrow>
      tap_transfer opn cpu ind env n = finish_transfer opn cpu (d2\<lparr>Buffer := b3\<rparr>) (now env) n"
proof -
  note unf = tap_transfer_def Let_def missing_bytes [OF n]
  have swap: "r\<lparr>Buffer := x, NewP := y\<rparr> = r\<lparr>NewP := y, Buffer := x\<rparr>" for r :: cpu_private and x y
    by (cases r) simp
  note calc = copies lens mdls [symmetric] d_def d1_def d2_def
  show "tap_transfer opn cpu ind env n =
      Inr (drop_packet (opn\<lparr>CpuData := (CpuData opn)[cpu := d1]\<rparr>) cpu)"
    if "\<not> mdl1_ok env \<or> (m2 \<noteq> None \<and> \<not> mdl2_ok env)"
    using that unfolding unf by (cases m2) (auto simp: calc)
  show "tap_transfer opn cpu ind env n =
      Inr (drop_packet (opn\<lparr>CpuData := (CpuData opn)[cpu := d1\<lparr>NewP := newp\<rparr>]\<rparr>) cpu)"
    if "\<not> (\<not> mdl1_ok env \<or> (m2 \<noteq> None \<and> \<not> mdl2_ok env))" "\<not> packet_ok env"
    using that unfolding unf by (cases m2) (auto simp: calc)
  show "tap_transfer opn cpu ind env n =
      Inr (opn\<lparr>CpuData := (CpuData opn)[cpu := d2\<lparr>TransferMdl1 := Some m1,
        TransferMdl2 := m2, BufferLock := True\<rparr>]\<rparr>)"
    if "\<not> (\<not> mdl1_ok env \<or> (m2 \<noteq> None \<and> \<not> mdl2_ok env))" "packet_ok env"
      "transfer_pending env"
    using that unfolding unf by (cases m2) (auto simp: calc)
  show "tap_transfer opn cpu ind env n = finish_transfer opn cpu (d2\<lparr>Buffer := b3\<rparr>) (now env) n"
    if "\<not> (\<not> mdl1_ok env \<or> (m2 \<noteq> None \<and> \<not> mdl2_ok env))" "packet_ok env"
      "\<not> transfer_pending env" "write_mdls b2 m1 m2 (transferred env) = Some b3"
    using that unfolding unf by (cases m2) (auto simp: calc swap)
qed

lemma tap_transfer_verdict:
  assumes cpu: "cpu < length (CpuData opn)" and unlocked: "\<not> BufferLock (CpuData opn ! cpu)"
    and none: "TransferMdl1 (CpuData opn ! cpu) = None"
    and inv: "cpu_inv (Size opn) (CpuData opn ! cpu) xs"
    and room: "n + 24 \<le> Free (CpuData opn ! cpu)" and less: "length (in_hand ind) < n"
  shows "\<exists>opn'. tap_transfer opn cpu ind env n = Inr opn' \<and>
    tap_effect opn cpu xs ind (now env)
      (if \<not> mdls_ok opn cpu ind env n then Lost
       else if transfer_pending env then Waiting (in_hand ind) (n - length (in_hand ind))
       else Stored (in_hand ind @ landed_bytes opn cpu ind env n)) opn'"
proof -
  let ?sz = "Size opn" and ?d = "CpuData opn ! cpu" and ?dl = "total_size ind"
  let ?pre = "in_hand ind" and ?m = "n - length (in_hand ind)"
  note f = cpu_inv_free [OF inv]
  define q where "q = (pos_P ?d + 24 + length ?pre) mod ?sz"
  from transfer_starts [OF inv room, of ind ?dl] less
  obtain b b2 where copies: "Option.bind
      (move_wrap ?sz (Buffer ?d) (after_header ?sz (pos_P ?d)) (HeaderBuffer ind))
      (\<lambda>(b1, p1). move_wrap ?sz b1 p1 (LookaheadBuffer ind)) = Some (b, q)"
    and b: "same_queue ?sz ?d xs b"
    and lens: "blit b (pos_P ?d + 12) (header_lengths n ?dl) = Some b2"
    and b2: "same_queue ?sz ?d xs b2"
    and stale: "ring_get b2 q ?m = ring_get (Buffer ?d) q ?m"
    and opened: "\<And>d' m1 m2. Buffer d' = b2 \<and> pos_P d' = pos_P ?d \<and> Free d' = Free ?d \<and>
       (m1, m2, NewP d') = transfer_mdls ?sz q ?m \<Longrightarrow> transfer_open ?sz d' m1 m2 ?pre ?m ?dl"
    unfolding q_def in_hand_def by metis
  obtain m1 m2 newp where mdls: "(m1, m2, newp) = transfer_mdls ?sz q ?m"
    by (metis prod.collapse)
  have q: "q < ?sz" using f by (simp add: q_def)
  have n: "n < 4294967296" using room f by linarith
  note cases = tap_transfer_cases [OF copies lens mdls less n]
  note ok = mdls_okI [OF mdls q_def q f(3), of env]
  let ?d2 = "?d\<lparr>Buffer := b2, NewP := newp\<rparr>"
  have inv2: "cpu_inv ?sz ?d2 xs"
    by (rule cpu_inv_buffer [OF inv b2]) simp_all
  have lost: "tap_effect opn cpu xs ind (now env) Lost
      (drop_packet (opn\<lparr>CpuData := (CpuData opn)[cpu := ?d\<lparr>Buffer := b, NewP := p\<rparr>]\<rparr>) cpu)" for p
    by (rule drop_effect [OF cpu refl unlocked none])
       (use cpu_inv_buffer [OF inv b] in simp_all)
  show ?thesis
  proof (cases "mdls_ok opn cpu ind env n")
    case False
    then show ?thesis using ok cases(1,2) [of env] lost by (cases "packet_ok env") auto
  next
    case True
    then have go: "\<not> (\<not> mdl1_ok env \<or> (m2 \<noteq> None \<and> \<not> mdl2_ok env))" "packet_ok env"
      using ok by blast+
    show ?thesis
    proof (cases "transfer_pending env")
      case pending: True
      let ?d' = "?d2\<lparr>TransferMdl1 := Some m1, TransferMdl2 := m2, BufferLock := True\<rparr>"
      have "cpu_inv ?sz ?d' xs" by (rule cpu_inv_buffer [OF inv b2]) simp_all
      moreover have "transfer_open ?sz ?d' m1 m2 ?pre ?m ?dl"
        by (rule opened) (simp add: mdls)
      ultimately have "tap_effect opn cpu xs ind (now env) (Waiting ?pre ?m)
          (opn\<lparr>CpuData := (CpuData opn)[cpu := ?d']\<rparr>)"
        by (intro tap_effectI [where d' = ?d'])
           (simp_all add: same_setup_def stores_def verdict_effect_def)
      then show ?thesis using cases(3) [OF go pending] True pending by auto
    next
      case now: False
      have opn2: "transfer_open ?sz ?d2 m1 m2 ?pre ?m ?dl" by (rule opened) (simp add: mdls)
      have total: "length ?pre + ?m = n" using less by simp
      have landed: "landed ?sz ?d2 ((pos_P ?d2 + 24 + length ?pre) mod ?sz) ?m (transferred env) =
          landed_bytes opn cpu ind env n"
        using stale by (simp add: landed_def landed_bytes_def q_def)
      from transfer_finishes [OF inv2 opn2 refl, where ts = "now env" and cpu = cpu and data = "transferred env", unfolded total landed]
      obtain b3 d' where b3: "write_mdls (Buffer ?d2) m1 m2 (transferred env) = Some b3"
        and fin: "finish_transfer opn cpu (?d2\<lparr>Buffer := b3\<rparr>) (now env) n =
          Inr (tap_commit (opn\<lparr>WriterSN := add32 (WriterSN opn) 1\<rparr>) cpu d' n)"
        and d': "cpu_inv ?sz (committed d' ?sz n)
            (xs @ [tapped opn (total_size ind) (now env) (?pre @ landed_bytes opn cpu ind env n)])"
          "Accepted d' = add32 (Accepted ?d2) 1" "Received d' = Received ?d2"
          "Dropped d' = Dropped ?d2" "TransferMdl1 d' = TransferMdl1 ?d2" "BufferLock d' = BufferLock ?d2"
        by blast
      have "tap_effect opn cpu xs ind (now env) (Stored (?pre @ landed_bytes opn cpu ind env n))
          (tap_commit (opn\<lparr>WriterSN := add32 (WriterSN opn) 1\<rparr>) cpu d' n)"
        by (rule tap_effectI [where d' = "committed d' ?sz n"])
           (use d' unlocked none in \<open>auto simp: commit_setup stores_def verdict_effect_def\<close>)
      then show ?thesis
        using cases(4) [OF go now, of b3] b3 fin True now by simp
    qed
  qed
qed

lemma tap_store_verdict:
  assumes "cpu < length (CpuData opn)" and "\<not> BufferLock (CpuData opn ! cpu)"
    and "TransferMdl1 (CpuData opn ! cpu) = None"
    and inv: "cpu_inv (Size opn) (CpuData opn ! cpu) xs"
    and n: "n + 24 < 4294967296" and hand: "length (in_hand ind) < 4294967296"
  shows "\<exists>opn'. tap_store opn cpu ind env n = Inr opn' \<and>
    tap_effect opn cpu xs ind (now env) (store_verdict opn cpu ind env n) opn'"
proof (cases "n + 24 > Free (CpuData opn ! cpu)")
  case True
  have "tap_effect opn cpu xs ind (now env) Lost
      (drop_packet (opn\<lparr>CpuData := (CpuData opn)[cpu := CpuData opn ! cpu]\<rparr>) cpu)"
    by (rule drop_effect [OF assms(1) refl assms(2,3) inv]) simp
  then show ?thesis using True assms(2) n by (simp add: tap_store_def Let_def store_verdict_def)
next
  case False
  then have room: "n + 24 \<le> Free (CpuData opn ! cpu)" by simp
  have hand': "add32 (LookaheadBufferSize ind) (HeaderBufferSize ind) = length (in_hand ind)"
    using hand by (simp add: in_hand_def)
  show ?thesis
  proof (cases "n \<le> length (in_hand ind)")
    case True
    with tap_direct_verdict [OF assms(1-3) inv room True, of "now env"] False assms(2,3) n
    show ?thesis by (simp add: tap_store_def Let_def store_verdict_def hand')
  next
    case more: False
    then have "length (in_hand ind) < n" by simp
    with tap_transfer_verdict [OF assms(1-3) inv room this] False more assms(2,3) n
    show ?thesis by (simp add: tap_store_def Let_def store_verdict_def hand')
  qed
qed

section \<open>The queue of the instance\<close>

text \<open>
  The abstract state of the producer: the packets in the order of their serial numbers, each
  with its CPU, and for each CPU the transfer it waits for (the bytes already copied, how many
  are missing, the length on the wire).
\<close>

record capture_abs =
  queue :: "(nat \<times> cpkt) list"
  waiting :: "nat \<Rightarrow> (u8 list \<times> nat \<times> nat) option"

definition cpu_queue :: "(nat \<times> cpkt) list \<Rightarrow> nat \<Rightarrow> cpkt list" where
  "cpu_queue G i = map snd (filter (\<lambda>p. fst p = i) G)"

definition transfer_state :: "nat \<Rightarrow> cpu_private \<Rightarrow> (u8 list \<times> nat \<times> nat) option \<Rightarrow> bool" where
  "transfer_state sz d w \<longleftrightarrow>
     (case w of None \<Rightarrow> TransferMdl1 d = None \<and> \<not> BufferLock d
      | Some (pre, missing, dl) \<Rightarrow> BufferLock d \<and> (\<exists>m1. TransferMdl1 d = Some m1 \<and>
          transfer_open sz d m1 (TransferMdl2 d) pre missing dl))"

definition numbered :: "nat \<Rightarrow> (nat \<times> cpkt) list \<Rightarrow> bool" where
  "numbered sn G \<longleftrightarrow> map (\<lambda>p. c_sn (snd p)) G = map (add32 sn) [0..<length G]"

definition cap_rel :: "open_capture \<Rightarrow> capture_abs \<Rightarrow> bool" where
  "cap_rel opn A \<longleftrightarrow>
     length (CpuData opn) * Size opn < 4294967296 \<and>
     (\<forall>i < length (CpuData opn). transfer_state (Size opn) (CpuData opn ! i) (waiting A i) \<and>
        (Size opn \<noteq> 0 \<longrightarrow> cpu_inv (Size opn) (CpuData opn ! i) (cpu_queue (queue A) i))) \<and>
     (Size opn = 0 \<longrightarrow> queue A = []) \<and>
     (\<forall>p \<in> set (queue A). fst p < length (CpuData opn)) \<and>
     numbered (ReaderSN opn) (queue A) \<and> ReaderSN opn < 4294967296 \<and>
     WriterSN opn = add32 (ReaderSN opn) (length (queue A))"

definition abs_tap :: "nat \<Rightarrow> (u8 list \<Rightarrow> cpkt) \<Rightarrow> nat \<Rightarrow> verdict \<Rightarrow> capture_abs \<Rightarrow> capture_abs" where
  "abs_tap cpu pkt dl v A =
     (case v of Ignored \<Rightarrow> A | Lost \<Rightarrow> A
      | Stored data \<Rightarrow> A\<lparr>queue := queue A @ [(cpu, pkt data)]\<rparr>
      | Waiting pre missing \<Rightarrow> A\<lparr>waiting := (waiting A)(cpu \<mapsto> (pre, missing, dl))\<rparr>)"

lemma cpu_queue_append:
  "cpu_queue (G @ [(j, x)]) i = cpu_queue G i @ (if j = i then [x] else [])"
  by (simp add: cpu_queue_def)

lemma add32_assoc: "add32 (add32 a b) c = add32 a (b + c)"
  by (simp add: add32_def mod_add_left_eq add.assoc)

lemma numbered_append:
  "numbered sn (G @ [(j, x)]) \<longleftrightarrow> numbered sn G \<and> c_sn x = add32 sn (length G)"
  by (simp add: numbered_def)

lemma cap_relD:
  assumes "cap_rel opn A" and "i < length (CpuData opn)"
  shows "transfer_state (Size opn) (CpuData opn ! i) (waiting A i)"
    and "Size opn \<noteq> 0 \<Longrightarrow> cpu_inv (Size opn) (CpuData opn ! i) (cpu_queue (queue A) i)"
  using assms by (simp_all add: cap_rel_def)

text \<open>The step that replaces the state of one CPU.\<close>

lemma cap_rel_update:
  assumes rel: "cap_rel opn A" and cpu: "cpu < length (CpuData opn)" and pos: "Size opn \<noteq> 0"
    and same: "Size opn' = Size opn" "CpuData opn' = (CpuData opn)[cpu := d']"
    and st: "transfer_state (Size opn) d' (waiting A' cpu)"
    and others: "\<And>i. i \<noteq> cpu \<Longrightarrow> waiting A' i = waiting A i"
      "\<And>i. i \<noteq> cpu \<Longrightarrow> cpu_queue (queue A') i = cpu_queue (queue A) i"
    and inv: "cpu_inv (Size opn) d' (cpu_queue (queue A') cpu)"
    and cpus: "\<forall>p \<in> set (queue A'). fst p < length (CpuData opn)"
    and sn: "numbered (ReaderSN opn') (queue A')" "ReaderSN opn' < 4294967296"
      "WriterSN opn' = add32 (ReaderSN opn') (length (queue A'))"
  shows "cap_rel opn' A'"
proof -
  have "transfer_state (Size opn) ((CpuData opn)[cpu := d'] ! i) (waiting A' i) \<and>
      cpu_inv (Size opn) ((CpuData opn)[cpu := d'] ! i) (cpu_queue (queue A') i)"
    if "i < length (CpuData opn)" for i
    using that cap_relD [OF rel that] pos st inv others cpu by (cases "i = cpu") auto
  then show ?thesis
    using rel same cpus sn pos by (simp add: cap_rel_def)
qed

lemma cap_rel_effect:
  assumes rel: "cap_rel opn A" and cpu: "cpu < length (CpuData opn)" and pos: "Size opn \<noteq> 0"
    and free: "waiting A cpu = None"
    and eff: "tap_effect opn cpu (cpu_queue (queue A) cpu) ind ts v opn'"
  shows "cap_rel opn' (abs_tap cpu (tapped opn (total_size ind) ts) (total_size ind) v A)"
proof -
  let ?d = "CpuData opn ! cpu" and ?A' = "abs_tap cpu (tapped opn (total_size ind) ts) (total_size ind) v A"
  from eff obtain d' where d': "CpuData opn' = (CpuData opn)[cpu := d']"
    and ve: "verdict_effect (Size opn) ?d (cpu_queue (queue A) cpu) (tapped opn (total_size ind) ts)
      (total_size ind) v d'"
    and same: "same_setup opn opn'"
    and sn: "WriterSN opn' = (if stores v then add32 (WriterSN opn) 1 else WriterSN opn)"
    unfolding tap_effect_def by blast
  note ts = cap_relD [OF rel cpu]
  have R: "ReaderSN opn' = ReaderSN opn" "Size opn' = Size opn"
    using same by (simp_all add: same_setup_def)
  have G: "numbered (ReaderSN opn) (queue A)" "ReaderSN opn < 4294967296"
    "WriterSN opn = add32 (ReaderSN opn) (length (queue A))"
    "\<forall>p \<in> set (queue A). fst p < length (CpuData opn)"
    using rel by (simp_all add: cap_rel_def)
  show ?thesis
  proof (rule cap_rel_update [OF rel cpu pos R(2) d'])
    show "transfer_state (Size opn) d' (waiting ?A' cpu)"
      using ve ts free
      by (auto simp: verdict_effect_def abs_tap_def transfer_state_def split: verdict.splits)
    show "cpu_inv (Size opn) d' (cpu_queue (queue ?A') cpu)"
      using ve ts(2) pos
      by (auto simp: verdict_effect_def abs_tap_def cpu_queue_append split: verdict.splits)
    show "numbered (ReaderSN opn') (queue ?A')"
      using G R by (auto simp: abs_tap_def numbered_append tapped_def split: verdict.splits)
    show "WriterSN opn' = add32 (ReaderSN opn') (length (queue ?A'))"
      using G R sn
      by (auto simp: abs_tap_def stores_def add32_assoc split: verdict.splits)
  qed (use G R cpu in \<open>auto simp: abs_tap_def cpu_queue_append split: verdict.splits\<close>)
qed

text \<open>The counters and the statistics are not part of the relation.\<close>

lemma nth_list_update_if: "xs[i := x] ! j = (if i = j \<and> i < length xs then x else xs ! j)"
  by (cases "i < length xs") (simp_all add: nth_list_update list_update_beyond)

definition received :: "open_capture \<Rightarrow> nat \<Rightarrow> open_capture" where
  "received opn cpu = opn\<lparr>CpuData := (CpuData opn)[cpu :=
     (CpuData opn ! cpu)\<lparr>Received := add32 (Received (CpuData opn ! cpu)) 1\<rparr>]\<rparr>"

lemma cpu_inv_fields:
  assumes "Buffer d' = Buffer d" "pos_C d' = pos_C d" "pos_P d' = pos_P d" "Free d' = Free d"
  shows "cpu_inv sz d' xs = cpu_inv sz d xs"
  by (simp add: cpu_inv_def assms)

lemma transfer_state_fields:
  assumes "Buffer d' = Buffer d" "pos_P d' = pos_P d" "NewP d' = NewP d"
    "TransferMdl1 d' = TransferMdl1 d" "TransferMdl2 d' = TransferMdl2 d" "BufferLock d' = BufferLock d"
    "Free d \<le> Free d'" "transfer_state sz d w"
  shows "transfer_state sz d' w"
  using assms(8) by (auto simp: transfer_state_def transfer_open_def assms(1-6) intro: order_trans [OF _ assms(7)]
      split: option.splits)

lemma cap_rel_cong:
  assumes "cap_rel opn A" and "Size opn' = Size opn" "ReaderSN opn' = ReaderSN opn"
    "WriterSN opn' = WriterSN opn" "length (CpuData opn') = length (CpuData opn)"
    and "\<And>i. i < length (CpuData opn) \<Longrightarrow>
      Buffer (CpuData opn' ! i) = Buffer (CpuData opn ! i) \<and>
      pos_C (CpuData opn' ! i) = pos_C (CpuData opn ! i) \<and>
      pos_P (CpuData opn' ! i) = pos_P (CpuData opn ! i) \<and>
      Free (CpuData opn' ! i) = Free (CpuData opn ! i) \<and>
      NewP (CpuData opn' ! i) = NewP (CpuData opn ! i) \<and>
      TransferMdl1 (CpuData opn' ! i) = TransferMdl1 (CpuData opn ! i) \<and>
      TransferMdl2 (CpuData opn' ! i) = TransferMdl2 (CpuData opn ! i) \<and>
      BufferLock (CpuData opn' ! i) = BufferLock (CpuData opn ! i)"
  shows "cap_rel opn' A"
proof -
  have "transfer_state (Size opn) (CpuData opn' ! i) (waiting A i) \<and>
      (Size opn \<noteq> 0 \<longrightarrow> cpu_inv (Size opn) (CpuData opn' ! i) (cpu_queue (queue A) i))"
    if "i < length (CpuData opn)" for i
    using cap_relD [OF assms(1) that] assms(6) [OF that]
      transfer_state_fields [of "CpuData opn' ! i" "CpuData opn ! i"]
      cpu_inv_fields [of "CpuData opn' ! i" "CpuData opn ! i"] by auto
  then show ?thesis using assms(1-5) by (simp add: cap_rel_def)
qed

lemma cap_rel_received:
  assumes "cap_rel opn A"
  shows "cap_rel (received opn cpu) A"
  by (rule cap_rel_cong [OF assms]) (auto simp: received_def nth_list_update_if)

lemma tap_filter_received: "tap_filter call (received opn cpu) ind = tap_filter call opn ind"
  by (simp add: tap_filter_def received_def Let_def cong: option.case_cong)

lemma Accepted_received: "map Accepted (CpuData (received opn cpu)) = map Accepted (CpuData opn)"
  by (intro nth_equalityI) (auto simp: received_def nth_list_update_if)

lemma dump_full_received: "dump_full (received opn cpu) = dump_full opn"
proof -
  have full: "dump_full op1 \<longleftrightarrow> has_mode op1 MODE_DUMP \<and> MaxDumpPacks op1 \<noteq> 0 \<and>
      foldl add32 0 (map Accepted (CpuData op1)) > MaxDumpPacks op1" for op1
    by (simp add: dump_full_def foldl_map)
  have "has_mode (received opn cpu) m = has_mode opn m"
    "MaxDumpPacks (received opn cpu) = MaxDumpPacks opn" for m
    by (simp_all add: received_def has_mode_def)
  then show ?thesis unfolding full Accepted_received by simp
qed

lemma tap_verdict_received:
  assumes "cpu < length (CpuData opn)"
  shows "tap_verdict (received opn cpu) cpu ind env fres = tap_verdict opn cpu ind env fres"
  unfolding tap_verdict_def dump_full_received using assms
  by (simp add: store_verdict_def mdls_ok_def landed_bytes_def landed_def received_def has_mode_def)

section \<open>The tap refines its verdict\<close>

definition counted :: "open_capture \<Rightarrow> nat \<Rightarrow> verdict \<Rightarrow> open_capture \<Rightarrow> bool" where
  "counted opn cpu v opn' \<longleftrightarrow>
     (let d = CpuData opn ! cpu; d' = CpuData opn' ! cpu in
      Accepted d' = (if stores v then add32 (Accepted d) 1 else Accepted d) \<and>
      Dropped d' = (if v = Lost then add32 (Dropped d) 1 else Dropped d) \<and>
      Received d' = Received d \<and> same_setup opn opn' \<and>
      (\<forall>i. i \<noteq> cpu \<longrightarrow> CpuData opn' ! i = CpuData opn ! i))"

lemma counted_effect:
  assumes "tap_effect opn cpu xs ind ts v opn'" and "cpu < length (CpuData opn)"
  shows "counted opn cpu v opn'"
  using assms
  by (auto simp: tap_effect_def counted_def Let_def verdict_effect_def stores_def split: verdict.splits)

lemma count_packet_fields [simp]:
  "CpuData (count_packet ind opn) = CpuData opn" "Size (count_packet ind opn) = Size opn"
  "ReaderSN (count_packet ind opn) = ReaderSN opn" "WriterSN (count_packet ind opn) = WriterSN opn"
  "mode (count_packet ind opn) = mode opn" "MaxDumpPacks (count_packet ind opn) = MaxDumpPacks opn"
  by (simp_all add: count_packet_def)

lemma tapped_cong: "WriterSN opn' = WriterSN opn \<Longrightarrow> tapped opn' = tapped opn"
  by (simp add: tapped_def fun_eq_iff)

lemma tap_accepted_verdict:
  fixes env :: ndis_env
  assumes rel: "cap_rel opn A" and cpu: "cpu < length (CpuData opn)" and free: "waiting A cpu = None"
    and fres: "fres \<noteq> 0"
    and n: "total_size ind + 24 < 4294967296" and hand: "length (in_hand ind) < 4294967296"
  defines "v \<equiv> tap_verdict opn cpu ind env fres"
  shows "\<exists>opn'. tap_accepted opn cpu ind env (snap_length fres ind) = Inr opn' \<and>
    cap_rel opn' (abs_tap cpu (tapped opn (total_size ind) (now env)) (total_size ind) v A) \<and>
    counted opn cpu v opn'"
proof -
  define opn1 where "opn1 = (if has_mode opn MODE_STAT then count_packet ind opn else opn)"
  have f1: "CpuData opn1 = CpuData opn" "Size opn1 = Size opn" "ReaderSN opn1 = ReaderSN opn"
    "WriterSN opn1 = WriterSN opn" "mode opn1 = mode opn" "MaxDumpPacks opn1 = MaxDumpPacks opn"
    by (simp_all add: opn1_def)
  have rel1: "cap_rel opn1 A"
    by (rule cap_rel_cong [OF rel]) (simp_all add: f1)
  have keeps: "counted opn cpu Ignored opn2"
    if "CpuData opn2 = CpuData opn" "same_setup opn opn2" for opn2
    using that by (simp add: counted_def stores_def)
  have set1: "same_setup opn opn1" by (simp add: same_setup_def f1)
  have t: "tapped opn1 = tapped opn" using f1 by (intro tapped_cong)
  have full: "dump_full opn1 = dump_full opn"
    by (simp add: dump_full_def has_mode_def f1)
  have unf: "tap_accepted opn cpu ind env m =
      (if has_mode opn MODE_STAT \<and> \<not> has_mode opn MODE_DUMP then Inr opn1
       else if Size opn = 0 then Inr (drop_packet opn1 cpu)
       else if dump_full opn then Inr (stop_dump opn1) else tap_store opn1 cpu ind env m)" for m
    unfolding tap_accepted_def opn1_def [symmetric] Let_def full [symmetric]
    by (simp add: dump_full_def has_mode_def f1)
  have st: "transfer_state (Size opn) (CpuData opn ! cpu) None"
    using cap_relD(1) [OF rel cpu] free by simp
  consider (stat) "has_mode opn MODE_STAT \<and> \<not> has_mode opn MODE_DUMP"
    | (small) "\<not> (has_mode opn MODE_STAT \<and> \<not> has_mode opn MODE_DUMP)" "Size opn = 0"
    | (full) "\<not> (has_mode opn MODE_STAT \<and> \<not> has_mode opn MODE_DUMP)" "Size opn \<noteq> 0"
        "dump_full opn"
    | (store) "\<not> (has_mode opn MODE_STAT \<and> \<not> has_mode opn MODE_DUMP)" "Size opn \<noteq> 0"
        "\<not> dump_full opn"
    by blast
  then show ?thesis
  proof cases
    case stat
    then have "v = Ignored" by (simp add: v_def tap_verdict_def)
    then show ?thesis using stat rel1 keeps f1 set1 by (auto simp: unf abs_tap_def)
  next
    case small
    then have v: "v = Lost" using fres by (auto simp: v_def tap_verdict_def)
    have "cap_rel (drop_packet opn1 cpu) A"
      by (rule cap_rel_cong [OF rel]) (auto simp: drop_packet_def nth_list_update_if f1)
    then show ?thesis
      using small v cpu
      by (auto simp: unf abs_tap_def counted_def stores_def drop_packet_def same_setup_def f1)
  next
    case full
    then have v: "v = Ignored" using fres by (auto simp: v_def tap_verdict_def)
    have "cap_rel (stop_dump opn1) A"
      by (rule cap_rel_cong [OF rel]) (auto simp: stop_dump_def f1)
    then show ?thesis
      using full v keeps [of "stop_dump opn1"]
      by (auto simp: unf abs_tap_def stop_dump_def same_setup_def f1)
  next
    case store
    have n': "snap_length fres ind \<le> total_size ind" by (simp add: snap_length_def)
    have v: "v = store_verdict opn1 cpu ind env (snap_length fres ind)"
      using store fres by (auto simp: v_def tap_verdict_def store_verdict_def mdls_ok_def landed_bytes_def f1)
    have inv: "cpu_inv (Size opn1) (CpuData opn1 ! cpu) (cpu_queue (queue A) cpu)"
      using cap_relD(2) [OF rel cpu] store f1 by simp
    have "\<exists>opn'. tap_store opn1 cpu ind env (snap_length fres ind) = Inr opn' \<and>
        tap_effect opn1 cpu (cpu_queue (queue A) cpu) ind (now env) v opn'"
      unfolding v by (rule tap_store_verdict [OF _ _ _ inv])
        (use cpu st n n' hand in \<open>auto simp: f1 transfer_state_def\<close>)
    then obtain opn' where run: "tap_store opn1 cpu ind env (snap_length fres ind) = Inr opn'"
      and eff: "tap_effect opn1 cpu (cpu_queue (queue A) cpu) ind (now env) v opn'" by blast
    have "cap_rel opn' (abs_tap cpu (tapped opn (total_size ind) (now env)) (total_size ind) v A)"
      using cap_rel_effect [OF rel1 _ _ free eff] cpu store t f1 by simp
    moreover have "counted opn cpu v opn'"
      using counted_effect [OF eff] cpu f1 by (simp add: counted_def same_setup_def)
    ultimately show ?thesis using run store by (auto simp: unf)
  qed
qed

text \<open>One call of \<open>NPF_tap\<close>, from the result of the filter.\<close>

lemma NPF_tap_received:
  "NPF_tap call opn cpu ind env =
     (case tap_filter call opn ind of Inl f \<Rightarrow> Inl (Filter_Fault f)
      | Inr fres \<Rightarrow> if fres = 0 then Inr (received opn cpu)
          else tap_accepted (received opn cpu) cpu ind env (snap_length fres ind))"
  unfolding NPF_tap_def Let_def received_def [symmetric] tap_filter_received ..

lemma NPF_tap_verdict:
  fixes env :: ndis_env
  assumes rel: "cap_rel opn A" and cpu: "cpu < length (CpuData opn)" and free: "waiting A cpu = None"
    and filter: "tap_filter call opn ind = Inr fres"
    and n: "total_size ind + 24 < 4294967296" and hand: "length (in_hand ind) < 4294967296"
  defines "v \<equiv> tap_verdict opn cpu ind env fres"
  shows "\<exists>opn'. NPF_tap call opn cpu ind env = Inr opn' \<and>
    cap_rel opn' (abs_tap cpu (tapped opn (total_size ind) (now env)) (total_size ind) v A) \<and>
    counted (received opn cpu) cpu v opn'"
proof (cases "fres = 0")
  case True
  then have "v = Ignored" by (simp add: v_def tap_verdict_def)
  then show ?thesis
    using True cap_rel_received [OF rel, of cpu]
    by (simp add: NPF_tap_received filter abs_tap_def counted_def stores_def same_setup_def Let_def)
next
  case False
  have t: "tapped (received opn cpu) = tapped opn"
    by (intro tapped_cong) (simp add: received_def)
  from tap_accepted_verdict [OF cap_rel_received [OF rel] _ free False n hand, of cpu]
  show ?thesis
    using cpu False tap_verdict_received [OF cpu]
    by (simp add: NPF_tap_received filter v_def t) (simp add: received_def)
qed

section \<open>The end of a transfer\<close>

lemma caplen_in_header:
  assumes "length b = sz" and "p + 24 \<le> sz"
    and "ring_get b ((p + 12) mod sz) 10 = header_lengths n dl" and "n < 4294967296"
  shows "unat (le32_of (chunk b (p + 12) 4)) = n"
proof -
  have "chunk b (p + 12) 10 = header_lengths n dl"
    using assms by (simp add: chunk_ring)
  then have "take 4 (chunk b (p + 12) 10) = le32_bytes (of_nat n)"
    by (simp add: header_lengths_def)
  then have "chunk b (p + 12) 4 = le32_bytes (of_nat n)"
    by (simp add: chunk_def)
  then show ?thesis using assms(4) by (simp add: unat_of_nat)
qed

lemma signal_fields [simp]:
  "CpuData (signal_events opn) = CpuData opn" "Size (signal_events opn) = Size opn"
  "ReaderSN (signal_events opn) = ReaderSN opn" "WriterSN (signal_events opn) = WriterSN opn"
  by (simp_all add: signal_events_def)

definition completed_bytes :: "open_capture \<Rightarrow> nat \<Rightarrow> u8 list \<Rightarrow> nat \<Rightarrow> u8 list \<Rightarrow> u8 list" where
  "completed_bytes opn cpu pre missing data =
     landed (Size opn) (CpuData opn ! cpu)
       ((pos_P (CpuData opn ! cpu) + 24 + length pre) mod Size opn) missing data"

definition abs_complete ::
    "nat \<Rightarrow> open_capture \<Rightarrow> timestamp \<Rightarrow> u8 list \<Rightarrow> capture_abs \<Rightarrow> capture_abs" where
  "abs_complete cpu opn ts data A =
     (case waiting A cpu of None \<Rightarrow> A
      | Some (pre, missing, dl) \<Rightarrow>
          A\<lparr>queue := queue A @ [(cpu, tapped opn dl ts (pre @ completed_bytes opn cpu pre missing data))],
            waiting := (waiting A)(cpu := None)\<rparr>)"

lemma transfer_complete_verdict:
  assumes rel: "cap_rel opn A" and cpu: "cpu < length (CpuData opn)" and pos: "Size opn \<noteq> 0"
    and wait: "waiting A cpu = Some (pre, missing, dl)"
  shows "\<exists>opn'. NPF_TransferDataComplete opn cpu data ts = Inr opn' \<and>
    cap_rel opn' (abs_complete cpu opn ts data A) \<and> ReaderSN opn' = ReaderSN opn \<and>
    Accepted (CpuData opn' ! cpu) = add32 (Accepted (CpuData opn ! cpu)) 1"
proof -
  let ?d = "CpuData opn ! cpu" and ?sz = "Size opn" and ?xs = "cpu_queue (queue A) cpu"
  let ?x = "tapped opn dl ts (pre @ completed_bytes opn cpu pre missing data)"
  have inv: "cpu_inv ?sz ?d ?xs" using cap_relD(2) [OF rel cpu pos] .
  note f = cpu_inv_free [OF inv]
  from cap_relD(1) [OF rel cpu] wait obtain m1 where m1: "TransferMdl1 ?d = Some m1"
    and opened: "transfer_open ?sz ?d m1 (TransferMdl2 ?d) pre missing dl"
    by (auto simp: transfer_state_def)
  from transfer_finishes [OF inv opened refl, where ts = ts and cpu = cpu and data = data,
      folded completed_bytes_def]
  obtain b d' where b: "write_mdls (Buffer ?d) m1 (TransferMdl2 ?d) data = Some b"
    and lens: "ring_get b ((pos_P ?d + 12) mod ?sz) 10 =
      header_lengths (length pre + missing) dl"
    and fin: "finish_transfer opn cpu (?d\<lparr>Buffer := b\<rparr>) ts (length pre + missing) =
      Inr (tap_commit (opn\<lparr>WriterSN := add32 (WriterSN opn) 1\<rparr>) cpu d' (length pre + missing))"
    and d': "cpu_inv ?sz (committed d' ?sz (length pre + missing)) (?xs @ [?x])"
      "Accepted d' = add32 (Accepted ?d) 1"
    by blast
  have room: "length pre + missing < 4294967296"
    using opened f by (simp add: transfer_open_def)
  have len: "length b = ?sz"
    using write_mdls_length [OF b] f by simp
  let ?opn1 = "tap_commit (opn\<lparr>WriterSN := add32 (WriterSN opn) 1\<rparr>) cpu d' (length pre + missing)"
  let ?dc = "(committed d' ?sz (length pre + missing))\<lparr>TransferMdl1 := None, TransferMdl2 := None,
    BufferLock := False\<rparr>"
  let ?opn2 = "?opn1\<lparr>CpuData := (CpuData ?opn1)[cpu := ?dc]\<rparr>"
  let ?opn3 = "if sub32 ?sz (Free ?dc) > MinToCopy ?opn2 then signal_events ?opn2 else ?opn2"
  have run: "NPF_TransferDataComplete opn cpu data ts = Inr ?opn3"
    using m1 b fin cpu caplen_in_header [OF len f(6) lens room]
    by (simp add: NPF_TransferDataComplete_def Let_def)
  have fields: "CpuData ?opn3 = (CpuData opn)[cpu := ?dc]" "Size ?opn3 = ?sz"
    "ReaderSN ?opn3 = ReaderSN opn" "WriterSN ?opn3 = add32 (WriterSN opn) 1"
    by simp_all
  let ?A' = "abs_complete cpu opn ts data A"
  have A': "queue ?A' = queue A @ [(cpu, ?x)]" "waiting ?A' = (waiting A)(cpu := None)"
    using wait by (simp_all add: abs_complete_def)
  have rel': "cap_rel ?opn3 ?A'"
  proof (rule cap_rel_update [OF rel cpu pos fields(2,1)])
    show "transfer_state ?sz ?dc (waiting ?A' cpu)"
      by (simp add: A' transfer_state_def)
    have "cpu_inv ?sz ?dc (?xs @ [?x])"
      using d'(1) by (simp add: cpu_inv_def)
    then show "cpu_inv ?sz ?dc (cpu_queue (queue ?A') cpu)"
      by (simp add: A' cpu_queue_append)
    show "WriterSN ?opn3 = add32 (ReaderSN ?opn3) (length (queue ?A'))"
      using rel unfolding fields A' by (simp add: cap_rel_def add32_assoc)
    show "numbered (ReaderSN ?opn3) (queue ?A')"
      using rel unfolding fields A' by (simp add: numbered_append cap_rel_def tapped_def)
    show "ReaderSN ?opn3 < 4294967296"
      using rel unfolding fields by (simp add: cap_rel_def)
  qed (use A' cpu rel in \<open>auto simp: cpu_queue_append cap_rel_def\<close>)
  have "Accepted (CpuData ?opn3 ! cpu) = add32 (Accepted ?d) 1"
    unfolding fields using d'(2) cpu by simp
  with run rel' fields(3) show ?thesis by blast
qed

section \<open>The configuration\<close>

text \<open>A tap does not change the filter and the mode.\<close>

lemma tap_keeps_setup:
  assumes "NPF_tap call opn cpu ind env = Inr opn'"
  shows "bpfprogram opn' = bpfprogram opn" "jit_filter opn' = jit_filter opn" "mode opn' = mode opn"
proof -
  have commit: "bpfprogram (tap_commit o1 c d n) = bpfprogram o1 \<and>
      jit_filter (tap_commit o1 c d n) = jit_filter o1 \<and> mode (tap_commit o1 c d n) = mode o1" for o1 c d n
    by (simp add: tap_commit_def signal_events_def Let_def split: prod.splits)
  have store: "bpfprogram o2 = bpfprogram o1 \<and> jit_filter o2 = jit_filter o1 \<and> mode o2 = mode o1"
    if "tap_store o1 cpu ind env n = Inr o2" for o1 o2 n
    using that commit
    by (auto simp: tap_store_def tap_direct_def tap_transfer_def finish_transfer_def drop_packet_def Let_def
        split: if_splits option.splits prod.splits)
  show "bpfprogram opn' = bpfprogram opn" "jit_filter opn' = jit_filter opn" "mode opn' = mode opn"
    using assms
    by (auto simp: NPF_tap_received tap_accepted_def received_def count_packet_def drop_packet_def
        stop_dump_def Let_def dest!: store split: if_splits sum.splits)
qed

end
