(* ===== verification/Read_Correct.thy ===== *)
theory Read_Correct
  imports Npf_Read Capture_Correct
begin

text \<open>
  The read on the queue of packets: where the length of the user buffer is a multiple of four the
  loop delivers a prefix of the queue, as long as the packets fit, in the order of their serial
  numbers, and removes it from the buffers.
\<close>

section \<open>Taking a packet out of one buffer\<close>

lemma cpu_inv_pop:
  assumes inv: "cpu_inv sz d (x # xs)"
    and d': "Buffer d' = Buffer d" "pos_P d' = pos_P d"
      "pos_C d' = next_pos sz (pos_C d) (length (c_data x))"
      "Free d' = Free d + span sz (pos_C d) (length (c_data x))"
  shows "cpu_inv sz d' xs"
proof -
  note f = cpu_inv_free [OF inv]
  let ?n = "length (c_data x)"
  have "(pos_C d + (span sz (pos_C d) ?n + spans sz (next_pos sz (pos_C d) ?n) xs)) mod sz =
      (next_pos sz (pos_C d) ?n + spans sz (next_pos sz (pos_C d) ?n) xs) mod sz"
    by (rule ring_step [OF f(4), symmetric])
  with inv next_pos_fits [OF f(4), of "pos_C d" ?n] show ?thesis
    by (simp add: cpu_inv_def d' add.assoc)
qed

lemma cpu_inv_head:
  assumes "cpu_inv sz d (x # xs)"
  shows "Free d < sz" and "24 + length (c_data x) \<le> sz"
    and "packet_laid sz (Buffer d) (pos_C d) x"
    and "Free d + span sz (pos_C d) (length (c_data x)) \<le> sz"
  using assms span_ge [of "length (c_data x)" sz "pos_C d"] by (simp_all add: cpu_inv_def)

lemma cpu_inv_Nil: "cpu_inv sz d [] \<Longrightarrow> Free d = sz"
  by (simp add: cpu_inv_def)

text \<open>The header the reader finds at the consumer position.\<close>

lemma head_header:
  assumes laid: "packet_laid sz buf c x" and len: "length buf = sz" and c: "c + 24 \<le> sz"
    and n: "length (c_data x) < 4294967296" and sn: "c_sn x < 4294967296"
  shows "\<exists>h. slice buf c 24 = Some h \<and> unat (le32_of h) = c_sn x \<and>
      unat (le32_of (drop 12 h)) = length (c_data x)"
    and "\<exists>h. slice buf (c + 4) 20 = Some h \<and> length h = 20 \<and>
      take 18 h = drop 4 (header_bytes (c_sn x) (c_ts x) (length (c_data x)) (c_datalen x))"
proof -
  let ?hd = "header_bytes (c_sn x) (c_ts x) (length (c_data x)) (c_datalen x)"
  have "chunk buf c 22 = ?hd"
    using laid c len by (simp add: packet_laid_def chunk_ring)
  then have h: "chunk buf c 24 = ?hd @ chunk buf (c + 22) 2"
    using chunk_split [of buf c 22 2] by simp
  have "drop 12 ?hd = header_lengths (length (c_data x)) (c_datalen x)"
    by (simp add: header_split)
  then have "drop 12 (chunk buf c 24) =
      le32_bytes (of_nat (length (c_data x))) @ le32_bytes (of_nat (c_datalen x)) @
      le16_bytes 20 @ chunk buf (c + 22) 2"
    by (simp add: h header_lengths_def)
  moreover have "chunk buf c 24 = le32_bytes (of_nat (c_sn x)) @ drop 4 ?hd @ chunk buf (c + 22) 2"
    by (simp add: h header_bytes_def)
  ultimately show "\<exists>h. slice buf c 24 = Some h \<and> unat (le32_of h) = c_sn x \<and>
      unat (le32_of (drop 12 h)) = length (c_data x)"
    using len c n sn by (simp add: slice_def unat_of_nat)
  have "chunk buf (c + 4) 20 = drop 4 (chunk buf c 24)"
    by (simp add: chunk_def take_drop drop_drop add.commute)
  then have "chunk buf (c + 4) 20 = drop 4 ?hd @ chunk buf (c + 22) 2"
    by (simp add: h)
  then show "\<exists>h. slice buf (c + 4) 20 = Some h \<and> length h = 20 \<and> take 18 h = drop 4 ?hd"
    using len c by (simp add: slice_def)
qed

lemma blit_append:
  assumes "blit u at a = Some u1" and "at + length a + length b \<le> length u"
  shows "blit u1 (at + length a) b = blit u at (a @ b)"
proof -
  have u1: "u1 = take at u @ a @ drop (at + length a) u"
    using assms by (simp add: blit_Some)
  have at: "length (take at u @ a) = at + length a" using assms(2) by simp
  have 1: "take (at + length a) u1 = take at u @ a"
    unfolding u1 append_assoc [symmetric] using at by simp
  have "drop (at + length a + length b) u1 = drop (length b) (drop (at + length a) u)"
    unfolding u1 append_assoc [symmetric] using at by simp
  then have 2: "drop (at + length a + length b) u1 = drop (at + length (a @ b)) u"
    by (simp add: add.commute add.left_commute)
  have "blit u1 (at + length a) b = Some ((take at u @ a) @ b @ drop (at + length (a @ b)) u)"
    using assms blit_length [OF assms(1)] by (simp only: blit_Some 1 2)
  then show ?thesis using assms(2) by (simp add: blit_Some)
qed
lemma copy_data_ring:
  assumes len: "length buf = sz" and c: "c < sz" and n: "plen \<le> sz" and sz: "sz < 4294967296"
    and room: "at + plen \<le> length u"
  shows "\<exists>u' e. copy_data sz buf c plen u at = Some (u', e) \<and> blit u at (ring_get buf c plen) = Some u' \<and>
    e \<le> sz \<and> e mod sz = (c + plen) mod sz"
proof (cases "sz - c < plen")
  case True
  let ?k = "sz - c"
  have parts: "chunk buf c ?k @ chunk buf 0 (plen - ?k) = ring_get buf c plen"
    using assms True by (intro chunk_wrap) auto
  obtain u1 where u1: "blit u at (chunk buf c ?k) = Some u1"
    using assms True by (simp add: blit_Some)
  have "blit u1 (at + length (chunk buf c ?k)) (chunk buf 0 (plen - ?k)) =
      blit u at (chunk buf c ?k @ chunk buf 0 (plen - ?k))"
    by (rule blit_append [OF u1]) (use assms True in simp)
  moreover have "length (chunk buf c ?k) = ?k" using assms by simp
  ultimately have "blit u1 (at + ?k) (chunk buf 0 (plen - ?k)) = blit u at (ring_get buf c plen)"
    by (simp only: parts)
  moreover obtain u' where "blit u at (ring_get buf c plen) = Some u'"
    using room by (simp add: blit_Some)
  moreover have "(c + plen) mod sz = plen - ?k" "plen - ?k < sz"
    using assms True wrap_mod [of c sz plen] by auto
  ultimately show ?thesis
    using True u1 assms by (simp add: copy_data_def Let_def slice_def)
next
  case False
  then show ?thesis
    using assms by (simp add: copy_data_def slice_def chunk_ring blit_Some)
qed

lemma u32_3_mask: "(3::u32) = mask 2" by (simp add: mask_eq_exp_minus_1)
lemma and_not_3: "x AND NOT 3 = 4 * (x div 4)" for x :: u32
proof -
  have "x AND NOT (mask 2) = push_bit 2 (drop_bit 2 x)"
    by (rule bit_word_eqI) (auto simp only: bit_and_iff bit_not_iff bit_push_bit_iff bit_drop_bit_eq bit_mask_iff comp_def add_diff_inverse_nat le_add_diff_inverse possible_bit_word not_less)
  then show ?thesis by (simp add: u32_3_mask push_bit_eq_mult drop_bit_eq_div)
qed

lemma WORDALIGN_small:
  assumes "x + 3 < 4294967296"
  shows "Packet_WORDALIGN x = 4 * ((x + 3) div 4)"
proof -
  have "of_nat x + 3 = (of_nat (x + 3) :: u32)" by simp
  then have w: "unat (of_nat x + 3 :: u32) = x + 3"
    using assms by (simp only: unat_of_nat) simp
  have "unat (4 * (y div 4)) = (4 * (unat y div 4)) mod 4294967296" for y :: u32
    by (simp add: unat_word_ariths unat_div mod_mult_right_eq)
  from this [of "of_nat x + 3"]
  have "unat (4 * ((of_nat x + 3 :: u32) div 4)) = (4 * ((x + 3) div 4)) mod 4294967296"
    by (simp only: w)
  then show ?thesis
    unfolding Packet_WORDALIGN_def and_not_3 using assms by simp
qed

section \<open>The records in the user buffer\<close>

text \<open>
  A record is the bpf header (18 bytes and two of padding), the packet, and the bytes up to the
  next multiple of four.
\<close>

definition record_length :: "nat \<Rightarrow> nat" where
  "record_length n = SIZEOF_bpf_hdr + 4 * ((n + 3) div 4)"

definition record_at :: "u8 list \<Rightarrow> nat \<Rightarrow> cpkt \<Rightarrow> bool" where
  "record_at u at x \<longleftrightarrow>
     chunk u at 18 = le32_bytes (tv_sec (c_ts x)) @ le32_bytes (tv_usec (c_ts x)) @
       le32_bytes (of_nat (length (c_data x))) @ le32_bytes (of_nat (c_datalen x)) @ le16_bytes 20 \<and>
     chunk u (at + SIZEOF_bpf_hdr) (length (c_data x)) = c_data x"

fun records_at :: "u8 list \<Rightarrow> nat \<Rightarrow> cpkt list \<Rightarrow> bool" where
  "records_at u at [] \<longleftrightarrow> True"
| "records_at u at (x # xs) \<longleftrightarrow>
     record_at u at x \<and> records_at u (at + record_length (length (c_data x))) xs"

definition records_length :: "cpkt list \<Rightarrow> nat" where
  "records_length xs = (\<Sum>x\<leftarrow>xs. record_length (length (c_data x)))"

lemma record_length_ge: "n + SIZEOF_bpf_hdr \<le> record_length n"
proof -
  have "n \<le> 4 * ((n + 3) div 4)" by presburger
  then show ?thesis by (simp add: record_length_def)
qed

lemma record_length_fits:
  assumes "4 dvd room" and "n + SIZEOF_bpf_hdr \<le> room"
  shows "record_length n \<le> room" and "4 dvd record_length n"
proof -
  show "4 dvd record_length n" by (auto simp: record_length_def)
  from assms show "record_length n \<le> room" unfolding record_length_def by presburger
qed

lemma record_at_take:
  assumes "take m u' = take m u" and "at + record_length (length (c_data x)) \<le> m" and "record_at u at x"
  shows "record_at u' at x"
proof -
  have "chunk u' a n = chunk u a n" if "a + n \<le> m" for a n
  proof -
    have "chunk v a n = take n (drop a (take m v))" for v :: "u8 list"
      using that by (simp add: chunk_def drop_take min_def)
    then show ?thesis using assms(1) by simp
  qed
  then show ?thesis
    using assms(2,3) record_length_ge [of "length (c_data x)"] by (simp add: record_at_def)
qed

section \<open>Copying one packet\<close>

definition consumed :: "reader \<Rightarrow> cpkt \<Rightarrow> u8 list \<Rightarrow> cpu_private \<Rightarrow> reader" where
  "consumed r x u d' = r\<lparr>
     r_open := (r_open r)\<lparr>CpuData := (CpuData (r_open r))[current_cpu r := d'],
       ReaderSN := add32 (ReaderSN (r_open r)) 1\<rparr>,
     r_user := u, copied := copied r + record_length (length (c_data x)), count := 0\<rparr>"

lemma take_blit: "blit u at a = Some u' \<Longrightarrow> m \<le> at \<Longrightarrow> take m u' = take m u"
  by (auto simp: blit_def split: if_splits)

lemma copy_packet_head:
  assumes inv: "cpu_inv sz d (x # xs)" and sn: "c_sn x < 4294967296"
    and room: "copied r + 20 + length (c_data x) \<le> length (r_user r)"
    and len: "copied r + record_length (length (c_data x)) < 4294967296"
  shows "\<exists>u d'. copy_packet sz d (length (c_data x)) r = Some (consumed r x u d') \<and>
    length u = length (r_user r) \<and> take (copied r) u = take (copied r) (r_user r) \<and>
    record_at u (copied r) x \<and> cpu_inv sz d' xs \<and>
    Buffer d' = Buffer d \<and> pos_P d' = pos_P d \<and> NewP d' = NewP d \<and> Free d \<le> Free d' \<and>
    TransferMdl1 d' = TransferMdl1 d \<and> TransferMdl2 d' = TransferMdl2 d \<and> BufferLock d' = BufferLock d"
proof -
  note f = cpu_inv_free [OF inv] and hd = cpu_inv_head [OF inv]
  let ?n = "length (c_data x)" and ?c = "pos_C d" and ?at = "copied r + 20"
  have n: "?n < 4294967296" using hd f by linarith
  obtain h where h: "slice (Buffer d) (?c + 4) 20 = Some h" "length h = 20"
    "take 18 h = drop 4 (header_bytes (c_sn x) (c_ts x) ?n (c_datalen x))"
    using head_header(2) [OF hd(3) f(5,7) n sn] by blast
  note ge = record_length_ge [of ?n]
  obtain u1 where u1: "blit (r_user r) (copied r) h = Some u1"
    using room ge h by (simp add: blit_Some)
  have l1: "length u1 = length (r_user r)" using u1 by (rule blit_length)
  have c1: "after_header sz ?c = (?c + 24) mod sz" "(?c + 24) mod sz < sz"
    using f by (auto intro: after_header_mod)
  obtain u2 e where u2: "copy_data sz (Buffer d) ((?c + 24) mod sz) ?n u1 ?at = Some (u2, e)"
    "blit u1 ?at (c_data x) = Some u2" "e \<le> sz" "e mod sz = ((?c + 24) mod sz + ?n) mod sz"
    using copy_data_ring [OF f(5) c1(2) _ f(3), of ?n ?at u1] hd(2,3) room ge l1
    by (auto simp: packet_laid_def)
  have l2: "length u2 = length (r_user r)" using blit_length [OF u2(2)] l1 by simp
  have skip: "skip_tail sz e (add32 ?n 24) = (next_pos sz ?c ?n, span sz ?c ?n)"
    by (rule skip_tail_span) (use u2(3,4) hd(2) f in \<open>auto simp: mod_add_left_eq\<close>)
  let ?d = "d\<lparr>pos_C := next_pos sz ?c ?n, Free := Free d + span sz ?c ?n\<rparr>"
  have free: "add32 (Free d) (span sz ?c ?n) = Free d + span sz ?c ?n"
    using hd(4) f by simp
  have at: "add32 (copied r) 20 = ?at"
    using room ge len by simp
  have "add32 ?at (Packet_WORDALIGN ?n) = copied r + record_length ?n"
  proof -
    have "?n + 3 < 4294967296" using hd(2) f by linarith
    then have "Packet_WORDALIGN ?n = 4 * ((?n + 3) div 4)" by (rule WORDALIGN_small)
    then show ?thesis using len by (simp add: record_length_def)
  qed
  with room ge have "copy_packet sz d ?n r = Some (consumed r x u2 ?d)"
    by (simp add: copy_packet_def h u1 at c1 u2 skip free consumed_def Let_def)
  moreover have "cpu_inv sz ?d xs"
    by (rule cpu_inv_pop [OF inv]) simp_all
  moreover have "take (copied r) u2 = take (copied r) (r_user r)"
    using take_blit [OF u1] take_blit [OF u2(2), of "copied r"] by simp
  moreover have "record_at u2 (copied r) x"
  proof -
    have "chunk u2 (copied r) 18 = chunk u1 (copied r) 18"
      by (rule chunk_blit_other [OF u2(2)]) (use room ge l1 in auto)
    also have "\<dots> = take 18 (chunk u1 (copied r) 20)"
      by (simp add: chunk_def)
    also have "\<dots> = drop 4 (header_bytes (c_sn x) (c_ts x) ?n (c_datalen x))"
      using chunk_blit_same [OF u1] h by simp
    finally show ?thesis
      using chunk_blit_same [OF u2(2)] by (simp add: record_at_def header_bytes_def)
  qed
  ultimately show ?thesis using l2 by (intro exI [of _ u2] exI [of _ ?d]) simp
qed

section \<open>The queue has fewer packets than there are serial numbers\<close>

lemma spans_ge: "24 * length xs \<le> spans sz c xs"
proof (induction xs arbitrary: c)
  case (Cons x xs)
  from Cons.IH [of "next_pos sz c (length (c_data x))"] span_ge [of "length (c_data x)" sz c]
  show ?case by simp
qed simp

lemma queue_sum:
  assumes "\<forall>p \<in> set G. fst p < n"
  shows "length G = (\<Sum>i<n. length (cpu_queue G i))"
  using assms
proof (induction G)
  case (Cons p G)
  have "(\<Sum>i<n. length (cpu_queue (p # G) i)) =
      (\<Sum>i<n. length (cpu_queue G i) + (if fst p = i then 1 else 0))"
    by (intro sum.cong) (simp_all add: cpu_queue_def)
  also have "\<dots> = length G + 1"
    using Cons by (simp add: sum.distrib)
  finally show ?case by simp
qed (simp add: cpu_queue_def)

lemma queue_length:
  assumes "cap_rel opn A" and pos: "Size opn \<noteq> 0"
  shows "length (queue A) \<le> length (CpuData opn) * Size opn"
proof -
  let ?n = "length (CpuData opn)"
  have "length (cpu_queue (queue A) i) \<le> Size opn" if "i < ?n" for i
    using cap_relD(2) [OF assms(1) that pos]
      spans_ge [of "cpu_queue (queue A) i" "Size opn" "pos_C (CpuData opn ! i)"]
    by (simp add: cpu_inv_def)
  then have "(\<Sum>i<?n. length (cpu_queue (queue A) i)) \<le> (\<Sum>i<?n. Size opn)"
    by (intro sum_mono) simp
  moreover have "length (queue A) = (\<Sum>i<?n. length (cpu_queue (queue A) i))"
    by (rule queue_sum) (use assms in \<open>simp add: cap_rel_def\<close>)
  ultimately show ?thesis by simp
qed

lemma queue_small:
  assumes "cap_rel opn A"
  shows "length (queue A) < 4294967296"
proof (cases "Size opn = 0")
  case True
  with assms show ?thesis by (simp add: cap_rel_def)
next
  case False
  with queue_length [OF assms] assms show ?thesis by (simp add: cap_rel_def)
qed

lemma numbered_nth:
  assumes "numbered sn G" and "i < length G"
  shows "c_sn (snd (G ! i)) = add32 sn i"
  using assms by (auto simp: numbered_def dest: arg_cong [where f = "\<lambda>xs. xs ! i"])

lemma add32_neq:
  assumes "0 < i" and "i < 4294967296" and "sn < 4294967296"
  shows "add32 sn i \<noteq> sn"
proof (cases "sn + i < 4294967296")
  case True
  with assms show ?thesis by simp
next
  case False
  then have "add32 sn i = sn + i - 4294967296"
    using assms by (simp add: add32_def mod_if)
  with assms False show ?thesis by linarith
qed

text \<open>Only the first packet of the queue has the serial number the reader looks for.\<close>

lemma other_sn:
  assumes rel: "cap_rel opn A" and q: "queue A = p # G" and other: "cpu_queue (queue A) i = y # ys"
    and i: "i \<noteq> fst p"
  shows "c_sn y \<noteq> ReaderSN opn" and "c_sn y < 4294967296"
proof -
  have "y \<in> snd ` set G"
  proof -
    have "y \<in> set (cpu_queue (queue A) i)" using other by simp
    then show ?thesis using q i by (auto simp: cpu_queue_def)
  qed
  then obtain j where j: "j < length G" "snd (G ! j) = y"
    by (auto simp: in_set_conv_nth image_iff)
  then have "c_sn y = add32 (ReaderSN opn) (Suc j)"
    using rel q numbered_nth [of "ReaderSN opn" "queue A" "Suc j"] by (simp add: cap_rel_def)
  moreover have "Suc j < 4294967296" using queue_small [OF rel] q j by simp
  moreover have "ReaderSN opn < 4294967296" using rel by (simp add: cap_rel_def)
  ultimately show "c_sn y \<noteq> ReaderSN opn" and "c_sn y < 4294967296"
    using add32_neq [of "Suc j" "ReaderSN opn"] by simp_all
qed

section \<open>One round of the loop\<close>

fun taken :: "nat \<Rightarrow> cpkt list \<Rightarrow> nat" where
  "taken room [] = 0"
| "taken room (x # xs) =
     (if length (c_data x) + SIZEOF_bpf_hdr \<le> room
      then Suc (taken (room - record_length (length (c_data x))) xs) else 0)"

text \<open>Where the current CPU has nothing for the reader, the loop goes on to the next CPU.\<close>

lemma read_step_skip:
  assumes rel: "cap_rel (r_open r) A" and pos: "Size (r_open r) \<noteq> 0"
    and cur: "current_cpu r < length (CpuData (r_open r))"
    and cnt: "count r < length (CpuData (r_open r))" and avail: "copied r \<noteq> available"
    and other: "\<And>p G. queue A = p # G \<Longrightarrow> fst p \<noteq> current_cpu r"
  shows "read_step available r = Continue (next_cpu r)"
proof -
  let ?d = "CpuData (r_open r) ! current_cpu r" and ?sz = "Size (r_open r)"
  have inv: "cpu_inv ?sz ?d (cpu_queue (queue A) (current_cpu r))"
    by (rule cap_relD(2) [OF rel cur pos])
  show ?thesis
  proof (cases "cpu_queue (queue A) (current_cpu r)")
    case Nil
    then show ?thesis
      using cpu_inv_Nil [of ?sz ?d] inv cnt avail by (simp add: read_step_def Let_def)
  next
    case (Cons y ys)
    note f = cpu_inv_free [OF inv] and hd = cpu_inv_head [OF inv [unfolded Cons]]
    obtain p G where q: "queue A = p # G"
      using Cons by (cases "queue A") (auto simp: cpu_queue_def)
    have sn: "c_sn y \<noteq> ReaderSN (r_open r)" "c_sn y < 4294967296"
      using other_sn [OF rel q Cons] other [OF q] by auto
    have "length (c_data y) < 4294967296" using hd(2) f(3) by linarith
    from head_header(1) [OF hd(3) f(5,7) this sn(2)] sn(1) show ?thesis
      using hd(1) cnt avail by (auto simp: read_step_def Let_def)
  qed
qed

lemma cpu_queue_Cons:
  "cpu_queue (p # G) i = (if fst p = i then snd p # cpu_queue G i else cpu_queue G i)"
  by (simp add: cpu_queue_def)

lemma numbered_Cons:
  "numbered sn (p # G) \<longleftrightarrow> c_sn (snd p) = add32 sn 0 \<and> numbered (add32 sn 1) G"
proof -
  have "add32 (add32 sn 1) = (\<lambda>x. add32 sn (Suc x))"
    by (simp add: fun_eq_iff add32_assoc)
  then show ?thesis
    unfolding numbered_def list.map(2) length_Cons upt_conv_Cons [OF zero_less_Suc]
      map_Suc_upt [symmetric] list.map_comp list.inject
    by (simp add: comp_def)
qed

lemma read_step_take:
  assumes rel: "cap_rel (r_open r) A" and pos: "Size (r_open r) \<noteq> 0" and q: "queue A = p # G"
    and cur: "current_cpu r = fst p" and cnt: "count r < length (CpuData (r_open r))"
    and avail: "copied r \<noteq> available" "copied r \<le> available" "available < 4294967296"
  shows "available - copied r < length (c_data (snd p)) + 20 \<Longrightarrow> read_step available r = Return r"
    and "copied r + 20 + length (c_data (snd p)) \<le> available \<Longrightarrow>
      length (r_user r) = available \<Longrightarrow> available + 4 \<le> 4294967296 \<Longrightarrow>
      \<exists>u d'. read_step available r = Continue (consumed r (snd p) u d') \<and>
        length u = available \<and> take (copied r) u = take (copied r) (r_user r) \<and>
        record_at u (copied r) (snd p) \<and>
        cap_rel (r_open (consumed r (snd p) u d')) (A\<lparr>queue := G\<rparr>)"
proof -
  let ?d = "CpuData (r_open r) ! fst p" and ?sz = "Size (r_open r)" and ?x = "snd p"
  have cpu: "fst p < length (CpuData (r_open r))" using rel q by (simp add: cap_rel_def)
  have inv: "cpu_inv ?sz ?d (?x # cpu_queue G (fst p))"
    using cap_relD(2) [OF rel cpu pos] q by (simp add: cpu_queue_Cons)
  note f = cpu_inv_free [OF inv] and hd = cpu_inv_head [OF inv]
  have num: "numbered (ReaderSN (r_open r)) (p # G)" "ReaderSN (r_open r) < 4294967296"
    "WriterSN (r_open r) = add32 (ReaderSN (r_open r)) (Suc (length G))"
    using rel q by (simp_all add: cap_rel_def)
  then have sn: "c_sn ?x = ReaderSN (r_open r)" "c_sn ?x < 4294967296"
    by (simp_all add: numbered_Cons)
  have n: "length (c_data ?x) + 20 < 4294967296" using hd(2) f(3) by linarith
  then have "length (c_data ?x) < 4294967296" by simp
  from head_header(1) [OF hd(3) f(5,7) this sn(2)]
  obtain h where h: "slice (Buffer ?d) (pos_C ?d) 24 = Some h"
    "unat (le32_of h) = ReaderSN (r_open r)" "unat (le32_of (drop 12 h)) = length (c_data ?x)"
    using sn(1) by metis
  have step: "read_step available r =
      (if length (c_data ?x) + 20 > available - copied r then Return r
       else case copy_packet ?sz ?d (length (c_data ?x)) r of
         None \<Rightarrow> Read_Fault | Some r' \<Rightarrow> Continue r')"
    using h n hd(1) cur cnt avail by (simp add: read_step_def Let_def)
  show "read_step available r = Return r" if "available - copied r < length (c_data ?x) + 20"
    using that by (simp add: step)
  assume room: "copied r + 20 + length (c_data ?x) \<le> available"
    and len: "length (r_user r) = available" and most: "available + 4 \<le> 4294967296"
  have "record_length (length (c_data ?x)) < length (c_data ?x) + 24"
    unfolding record_length_def by presburger
  then have "copied r + record_length (length (c_data ?x)) < 4294967296"
    using room most by linarith
  from copy_packet_head [OF inv sn(2) _ this] room len
  obtain u d' where u: "copy_packet ?sz ?d (length (c_data ?x)) r = Some (consumed r ?x u d')"
      "length u = available" "take (copied r) u = take (copied r) (r_user r)"
      "record_at u (copied r) ?x"
    and d': "cpu_inv ?sz d' (cpu_queue G (fst p))" "Buffer d' = Buffer ?d" "pos_P d' = pos_P ?d"
      "NewP d' = NewP ?d" "Free ?d \<le> Free d'" "TransferMdl1 d' = TransferMdl1 ?d"
      "TransferMdl2 d' = TransferMdl2 ?d" "BufferLock d' = BufferLock ?d"
    by auto
  have fits: "length (c_data ?x) + 20 \<le> available - copied r"
    using room by linarith
  have "cap_rel (r_open (consumed r ?x u d')) (A\<lparr>queue := G\<rparr>)"
  proof (rule cap_rel_update [OF rel cpu pos])
    show "CpuData (r_open (consumed r ?x u d')) = (CpuData (r_open r))[fst p := d']"
      by (simp add: consumed_def cur)
    show "transfer_state ?sz d' (waiting (A\<lparr>queue := G\<rparr>) (fst p))"
      by (rule transfer_state_fields [OF d'(2-4,6-8,5)]) (use cap_relD(1) [OF rel cpu] in simp)
    show "numbered (ReaderSN (r_open (consumed r ?x u d'))) (queue (A\<lparr>queue := G\<rparr>))"
      using num by (simp add: consumed_def numbered_Cons)
    show "WriterSN (r_open (consumed r ?x u d')) =
        add32 (ReaderSN (r_open (consumed r ?x u d'))) (length (queue (A\<lparr>queue := G\<rparr>)))"
      using num by (simp add: consumed_def add32_assoc)
  qed (use d' q rel in \<open>auto simp: consumed_def cpu_queue_Cons cap_rel_def\<close>)
  with u fits step show "\<exists>u d'. read_step available r = Continue (consumed r ?x u d') \<and>
      length u = available \<and> take (copied r) u = take (copied r) (r_user r) \<and>
      record_at u (copied r) ?x \<and> cap_rel (r_open (consumed r ?x u d')) (A\<lparr>queue := G\<rparr>)"
    by (intro exI [of _ u] exI [of _ d']) simp
qed

section \<open>The loop\<close>

text \<open>What the loop has done when it returns: \<open>m\<close> packets have moved to the user buffer.\<close>

definition delivered :: "reader \<Rightarrow> capture_abs \<Rightarrow> nat \<Rightarrow> reader \<Rightarrow> bool" where
  "delivered r A m r' \<longleftrightarrow>
     cap_rel (r_open r') (A\<lparr>queue := drop m (queue A)\<rparr>) \<and>
     copied r' = copied r + records_length (map snd (take m (queue A))) \<and>
     copied r' \<le> length (r_user r) \<and> length (r_user r') = length (r_user r) \<and>
     WriterSN (r_open r') = WriterSN (r_open r) \<and>
     take (copied r) (r_user r') = take (copied r) (r_user r) \<and>
     records_at (r_user r') (copied r) (map snd (take m (queue A)))"

lemma delivered_none: "cap_rel (r_open r) A \<Longrightarrow> copied r \<le> length (r_user r) \<Longrightarrow> delivered r A 0 r"
  by (simp add: delivered_def records_length_def)

lemma delivered_next: "delivered (next_cpu r) A m r' = delivered r A m r'"
  by (simp add: delivered_def next_cpu_def)

lemma delivered_more:
  assumes q: "queue A = p # G" and len: "length u = length (r_user r)"
    and keep: "take (copied r) u = take (copied r) (r_user r)" and rec: "record_at u (copied r) (snd p)"
    and rest: "delivered (consumed r (snd p) u d') (A\<lparr>queue := G\<rparr>) m r'"
  shows "delivered r A (Suc m) r'"
proof -
  let ?n = "record_length (length (c_data (snd p)))"
  have tk: "take (copied r + ?n) (r_user r') = take (copied r + ?n) u"
    using rest by (simp add: delivered_def consumed_def)
  have "take (copied r) (r_user r') = take (copied r) (take (copied r + ?n) (r_user r'))"
    by (simp add: min_absorb1)
  also have "\<dots> = take (copied r) u"
    unfolding tk by (simp add: min_absorb1)
  finally have "take (copied r) (r_user r') = take (copied r) (r_user r)"
    using keep by simp
  moreover have "record_at (r_user r') (copied r) (snd p)"
    by (rule record_at_take [OF tk _ rec]) simp
  ultimately show ?thesis
    using rest q len by (simp add: delivered_def consumed_def records_length_def)
qed

text \<open>How many CPUs the loop still visits before the one with the next packet.\<close>

definition cpu_distance :: "nat \<Rightarrow> nat \<Rightarrow> nat \<Rightarrow> nat" where
  "cpu_distance n i cpu = (cpu + n - i) mod n"

lemma cpu_distance_less: "0 < n \<Longrightarrow> cpu_distance n i cpu < n"
  by (simp add: cpu_distance_def)

lemma cpu_distance_step:
  assumes "i < n" and "cpu < n" and "i \<noteq> cpu"
  shows "cpu_distance n i cpu = Suc (cpu_distance n ((i + 1) mod n) cpu)"
proof (cases "i + 1 = n")
  case True
  then have "cpu + n - i = cpu + 1" "cpu + 1 < n" using assms by linarith+
  then show ?thesis using True assms by (simp add: cpu_distance_def)
next
  case False
  then have i: "(i + 1) mod n = i + 1" using assms by simp
  show ?thesis
  proof (cases "i < cpu")
    case True
    then show ?thesis
      using assms i distance_ge [of i cpu n] distance_ge [of "i + 1" cpu n]
      by (simp add: cpu_distance_def)
  next
    case False
    then show ?thesis using assms i by (simp add: cpu_distance_def)
  qed
qed

lemma read_loop_takes:
  assumes "cap_rel (r_open r) A" and "Size (r_open r) \<noteq> 0"
    and "length (CpuData (r_open r)) = n" and "current_cpu r < n"
    and "length (r_user r) = available" and "available < 4294967296"
    and "4 dvd available" and "4 dvd copied r" and "copied r \<le> available"
    and "length (queue A) * n + (n - count r) < fuel"
    and "\<And>p G. queue A = p # G \<Longrightarrow> count r + cpu_distance n (current_cpu r) (fst p) < n"
  shows "\<exists>r'. read_loop fuel available r = Some (Some r') \<and>
    delivered r A (taken (available - copied r) (map snd (queue A))) r'"
  using assms
proof (induction fuel arbitrary: r A)
  case (Suc fuel)
  note rel = Suc.prems(1) and pos = Suc.prems(2) and cur = Suc.prems(4) and len = Suc.prems(5)
  have stop: ?case if "read_step available r = Return r"
      "taken (available - copied r) (map snd (queue A)) = 0"
    using that delivered_none [OF rel] Suc.prems(5,9) by simp
  have none: "taken 0 xs = 0" for xs by (cases xs) simp_all
  have skip: ?case if st: "read_step available r = Continue (next_cpu r)" and cnt: "count r < n"
      and other: "\<And>p G. queue A = p # G \<Longrightarrow> fst p \<noteq> current_cpu r"
  proof -
    have "count (next_cpu r) + cpu_distance n (current_cpu (next_cpu r)) (fst p) < n" if q: "queue A = p # G" for p G
    proof -
      have "fst p < n" using rel q Suc.prems(3) by (simp add: cap_rel_def)
      with cpu_distance_step [OF cur this] other [OF q] Suc.prems(11) [OF q] Suc.prems(3)
      show ?thesis by (simp add: next_cpu_def)
    qed
    moreover have "length (queue A) * n + (n - count (next_cpu r)) < fuel"
    proof -
      have "n - count r = Suc (n - count (next_cpu r))" using cnt by (simp add: next_cpu_def)
      with Suc.prems(10) show ?thesis by linarith
    qed
    moreover have "current_cpu (next_cpu r) < n" "r_open (next_cpu r) = r_open r"
      "r_user (next_cpu r) = r_user r" "copied (next_cpu r) = copied r"
      using cur Suc.prems(3) by (simp_all add: next_cpu_def)
    ultimately obtain r' where r': "read_loop fuel available (next_cpu r) = Some (Some r')"
      "delivered (next_cpu r) A (taken (available - copied (next_cpu r)) (map snd (queue A))) r'"
      using Suc.IH [of "next_cpu r" A] Suc.prems(1-3,5-9) by auto
    have "copied (next_cpu r) = copied r" by (simp add: next_cpu_def)
    with r' show ?thesis using st by (simp add: delivered_next)
  qed
  show ?case
  proof (cases "copied r = available")
    case True
    then show ?thesis
      using stop none by (simp add: read_step_def Let_def)
  next
    case avail: False
    show ?thesis
    proof (cases "queue A")
      case Nil
      show ?thesis
      proof (cases "count r < n")
        case True
        then show ?thesis
          using read_step_skip [OF rel pos, of available] cur avail Nil Suc.prems(3) skip by simp
      next
        case False
        then show ?thesis
          using stop Nil Suc.prems(3) by (simp add: read_step_def Let_def)
      qed
    next
      case q: (Cons p G)
      let ?x = "snd p"
      let ?m = "length (c_data ?x)"
      have cnt: "count r < n" using Suc.prems(11) [OF q] by linarith
      show ?thesis
      proof (cases "fst p = current_cpu r")
        case False
        then show ?thesis
          using read_step_skip [OF rel pos, of available] cur cnt avail q Suc.prems(3) skip by simp
      next
        case True
        note take = read_step_take [OF rel pos q True [symmetric] _ avail Suc.prems(9,6)]
        show ?thesis
        proof (cases "?m + 20 \<le> available - copied r")
          case False
          then show ?thesis using take(1) cnt Suc.prems(3) stop q by simp
        next
          case fits: True
          have "4 dvd available - copied r" using Suc.prems(7,8) by (rule dvd_diff_nat)
          note rec = record_length_fits [OF this fits]
          then have room: "copied r + record_length ?m \<le> available" using Suc.prems(9) by linarith
          have most: "available + 4 \<le> 4294967296"
            using Suc.prems(6,7) by presburger
          have "copied r + 20 + ?m \<le> available" using fits Suc.prems(9) by linarith
          from take(2) [OF _ this len most] cnt Suc.prems(3)
          obtain u d' where st: "read_step available r = Continue (consumed r ?x u d')"
            and u: "length u = available" "take (copied r) u = take (copied r) (r_user r)"
              "record_at u (copied r) ?x"
            and rel': "cap_rel (r_open (consumed r ?x u d')) (A\<lparr>queue := G\<rparr>)"
            by blast
          let ?r = "consumed r ?x u d'" and ?A = "A\<lparr>queue := G\<rparr>"
          have c: "copied ?r = copied r + record_length ?m" "count ?r = 0"
            "current_cpu ?r = current_cpu r" "r_user ?r = u" "Size (r_open ?r) = Size (r_open r)"
            "length (CpuData (r_open ?r)) = n"
            using Suc.prems(3) by (simp_all add: consumed_def)
          have "count ?r + cpu_distance n (current_cpu ?r) (fst p') < n" for p'
            using cpu_distance_less [of n] cur c by simp
          moreover have "4 dvd copied ?r" using rec(2) Suc.prems(8) c by simp
          moreover have "length (queue ?A) * n + (n - count ?r) < fuel"
            using Suc.prems(10) q c cnt by simp
          ultimately obtain r' where r': "read_loop fuel available ?r = Some (Some r')"
            "delivered ?r ?A (taken (available - copied ?r) (map snd (queue ?A))) r'"
            using Suc.IH [OF rel'] pos cur u(1) Suc.prems(6,7) room c by auto
          have "delivered r A (Suc (taken (available - copied ?r) (map snd G))) r'"
            by (rule delivered_more [OF q _ u(2,3)]) (use r'(2) u(1) len in auto)
          moreover have "available - copied ?r = available - copied r - record_length ?m"
            using c by simp
          ultimately show ?thesis using st r'(1) fits q by auto
        qed
      qed
    qed
  qed
qed simp

section \<open>The copying part of the call\<close>

lemma cap_rel_clear: "cap_rel opn A \<Longrightarrow> cap_rel (clear_event opn) A"
  by (rule cap_rel_cong) (simp_all add: clear_event_def)

definition read_fuel :: "open_capture \<Rightarrow> capture_abs \<Rightarrow> nat" where
  "read_fuel opn A = (length (queue A) + 1) * length (CpuData opn) + 1"

lemma read_packets_takes:
  assumes rel: "cap_rel opn A" and pos: "Size opn \<noteq> 0" and cpus: "CpuData opn \<noteq> []"
    and buf: "UserBuffer env = Some buf" "length buf < 4294967296" "4 dvd length buf"
    and fuel: "read_fuel opn A \<le> fuel"
  defines "m \<equiv> taken (length buf) (map snd (queue A))"
  shows "\<exists>opn' u. read_packets fuel opn env = Some (Some (opn',
      \<lparr>status = STATUS_SUCCESS, Information = records_length (map snd (take m (queue A))),
       user = Some u\<rparr>)) \<and>
    cap_rel opn' (A\<lparr>queue := drop m (queue A)\<rparr>) \<and> WriterSN opn' = WriterSN opn \<and>
    length u = length buf \<and>
    records_length (map snd (take m (queue A))) \<le> length buf \<and>
    records_at u 0 (map snd (take m (queue A)))"
proof -
  let ?n = "length (CpuData opn)"
  let ?r = "\<lparr>r_open = clear_event opn, r_user = buf, copied = 0, count = 0, current_cpu = 0\<rparr>"
  have "\<exists>r'. read_loop fuel (length buf) ?r = Some (Some r') \<and>
      delivered ?r A (taken (length buf - copied ?r) (map snd (queue A))) r'"
  proof (rule read_loop_takes)
    show "count ?r + cpu_distance ?n (current_cpu ?r) (fst p) < ?n" for p
      using cpu_distance_less [of ?n] cpus by simp
    show "length (queue A) * ?n + (?n - count ?r) < fuel"
      using fuel by (simp add: read_fuel_def)
    show "cap_rel (r_open ?r) A" using cap_rel_clear [OF rel] by simp
  qed (use pos cpus buf in \<open>auto simp: clear_event_def\<close>)
  then show ?thesis
    using buf by (auto simp: read_packets_def delivered_def m_def clear_event_def)
qed

lemma taken_all:
  assumes "records_length xs \<le> room"
  shows "taken room xs = length xs"
  using assms
proof (induction xs arbitrary: room)
  case (Cons x xs)
  then have "records_length xs \<le> room - record_length (length (c_data x))"
    by (simp add: records_length_def)
  with Cons record_length_ge [of "length (c_data x)"] show ?case
    by (simp add: records_length_def)
qed simp

lemma taken_some: "length (c_data x) + SIZEOF_bpf_hdr \<le> room \<Longrightarrow> 0 < taken room (x # xs)"
  by simp

section \<open>The guards of the call\<close>

text \<open>The state in which a capturing read starts to copy: after the wait, if it waited.\<close>

definition read_waits :: "open_capture \<Rightarrow> bool" where
  "read_waits opn \<longleftrightarrow>
     Occupation opn \<le> (MinToCopy opn * length (CpuData opn)) mod 4294967296 \<or> has_mode opn MODE_DUMP"

definition copy_state :: "(open_capture \<Rightarrow> open_capture) \<Rightarrow> open_capture \<Rightarrow> read_env \<Rightarrow> open_capture" where
  "copy_state during opn env =
     (if read_waits opn
      then clear_event (if ReadEvent opn \<noteq> None \<and> \<not> IMMEDIATE_timeout env then during opn else opn)
      else opn)"

lemma NPF_Read_copies:
  assumes "open_ok env" "binding_ok env" "Size opn \<noteq> 0" "\<not> has_mode opn MODE_DUMP"
    and "mode (copy_state during opn env) = MODE_CAPT"
  shows "NPF_Read fuel during opn env = read_packets fuel (copy_state during opn env) env"
proof -
  have "\<not> has_mode (copy_state during opn env) MODE_STAT" "mode (copy_state during opn env) \<noteq> MODE_MON"
    using assms(5) by (simp_all add: has_mode_def)
  then show ?thesis
    unfolding NPF_Read_def read_waits_def [symmetric] Let_def using assms(1-4)
    by (cases "read_waits opn") (simp_all add: copy_state_def)
qed

section \<open>A user buffer whose length is not a multiple of four\<close>

text \<open>The loop reaches the CPU that has the next packet.\<close>

lemma read_loop_finds:
  assumes "cap_rel (r_open r) A" and "Size (r_open r) \<noteq> 0"
    and "length (CpuData (r_open r)) = n" and "current_cpu r < n" and "copied r \<noteq> available"
    and "queue A = p # G" and "count r + cpu_distance n (current_cpu r) (fst p) < n"
  shows "\<exists>c. read_loop (cpu_distance n (current_cpu r) (fst p) + f) available r =
      read_loop f available (r\<lparr>count := c, current_cpu := fst p\<rparr>) \<and> c < n"
  using assms
proof (induction "cpu_distance n (current_cpu r) (fst p)" arbitrary: r)
  case 0
  have "fst p < n" using 0 by (simp add: cap_rel_def)
  then have "current_cpu r = fst p"
    using 0(1,5) cpu_distance_step [of "current_cpu r" n "fst p"] by fastforce
  then have "r\<lparr>count := count r, current_cpu := fst p\<rparr> = r" by (cases r) simp
  then show ?case using 0 by (intro exI [of _ "count r"]) simp
next
  case (Suc d)
  have p: "fst p < n" using Suc.prems by (simp add: cap_rel_def)
  have other: "fst p \<noteq> current_cpu r"
    using Suc.hyps(2) by (auto simp: cpu_distance_def)
  then have d: "d = cpu_distance n (current_cpu (next_cpu r)) (fst p)"
    using Suc.hyps(2) cpu_distance_step [OF Suc.prems(4) p] Suc.prems(3) by (simp add: next_cpu_def)
  have st: "read_step available r = Continue (next_cpu r)"
    by (rule read_step_skip [OF Suc.prems(1,2)]) (use Suc.prems other in auto)
  have cur: "current_cpu (next_cpu r) < n" and keep: "r_open (next_cpu r) = r_open r"
    "copied (next_cpu r) = copied r" "count (next_cpu r) = Suc (count r)"
    using Suc.prems(3,4) by (simp_all add: next_cpu_def)
  have "count (next_cpu r) + cpu_distance n (current_cpu (next_cpu r)) (fst p) < n"
    using Suc.prems(7) Suc.hyps(2) d keep by simp
  with Suc.hyps(1) [OF d] Suc.prems cur keep obtain c where
    "read_loop (d + f) available (next_cpu r) =
      read_loop f available ((next_cpu r)\<lparr>count := c, current_cpu := fst p\<rparr>)" "c < n"
    using d by auto
  moreover have "(next_cpu r)\<lparr>count := c, current_cpu := fst p\<rparr> = r\<lparr>count := c, current_cpu := fst p\<rparr>"
    by (simp add: next_cpu_def)
  ultimately show ?case using st Suc.hyps(2) by (intro exI [of _ c]) (simp flip: Suc.hyps(2))
qed

lemma read_loop_fuel: "read_loop f available r = Some x \<Longrightarrow> f \<le> f' \<Longrightarrow> read_loop f' available r = Some x"
proof (induction f arbitrary: f' r)
  case (Suc f)
  then obtain g where "f' = Suc g" "f \<le> g" by (cases f') auto
  with Suc show ?case by (auto split: read_next.splits)
qed simp

text \<open>With the position past the end of the buffer, the next packet is written there.\<close>

lemma read_step_past_end:
  assumes rel: "cap_rel (r_open r) A" and pos: "Size (r_open r) \<noteq> 0" and q: "queue A = p # G"
    and cur: "current_cpu r = fst p" and cnt: "count r < length (CpuData (r_open r))"
    and past: "length (r_user r) < copied r" "copied r < length (r_user r) + 4" "copied r < 4294967296"
  shows "read_step (length (r_user r)) r = Read_Fault"
proof -
  let ?d = "CpuData (r_open r) ! fst p" and ?sz = "Size (r_open r)" and ?x = "snd p"
  have cpu: "fst p < length (CpuData (r_open r))" using rel q by (simp add: cap_rel_def)
  have inv: "cpu_inv ?sz ?d (?x # cpu_queue G (fst p))"
    using cap_relD(2) [OF rel cpu pos] q by (simp add: cpu_queue_Cons)
  note f = cpu_inv_free [OF inv] and hd = cpu_inv_head [OF inv]
  have "numbered (ReaderSN (r_open r)) (p # G)" "ReaderSN (r_open r) < 4294967296"
    using rel q by (simp_all add: cap_rel_def)
  then have sn: "c_sn ?x = ReaderSN (r_open r)" "c_sn ?x < 4294967296"
    by (simp_all add: numbered_Cons)
  have n: "length (c_data ?x) + 24 < 4294967296" using hd(2) f(3) by linarith
  then have n': "length (c_data ?x) < 4294967296" by simp
  from head_header(1) [OF hd(3) f(5,7) n' sn(2)]
  obtain h where h: "slice (Buffer ?d) (pos_C ?d) 24 = Some h"
    "unat (le32_of h) = ReaderSN (r_open r)" "unat (le32_of (drop 12 h)) = length (c_data ?x)"
    using sn(1) by metis
  obtain h2 where h2: "slice (Buffer ?d) (pos_C ?d + 4) 20 = Some h2" "length h2 = 20"
    using head_header(2) [OF hd(3) f(5,7) n' sn(2)] by blast
  have "sub32 (length (r_user r)) (copied r) = length (r_user r) + 4294967296 - copied r"
    by (rule sub32_negative) (use past in auto)
  then have "\<not> sub32 (length (r_user r)) (copied r) < length (c_data ?x) + 20"
    using past n by linarith
  moreover have "copy_packet ?sz ?d (length (c_data ?x)) r = None"
    using h2 past by (simp add: copy_packet_def blit_def)
  ultimately show ?thesis
    using h n hd(1) cur cnt past by (simp add: read_step_def Let_def)
qed

lemma read_packets_overruns:
  assumes rel: "cap_rel opn A" and pos: "Size opn \<noteq> 0" and q: "queue A = p # p' # G"
    and buf: "UserBuffer env = Some buf" "length buf + 4 \<le> 4294967296"
    and fits: "length (c_data (snd p)) + 20 \<le> length buf"
    and pad: "length buf < record_length (length (c_data (snd p)))"
    and fuel: "2 * length (CpuData opn) \<le> fuel"
  shows "read_packets fuel opn env = Some None"
proof -
  let ?n = "length (CpuData opn)" and ?L = "length buf" and ?m = "length (c_data (snd p))"
  let ?r = "\<lparr>r_open = clear_event opn, r_user = buf, copied = 0, count = 0, current_cpu = 0\<rparr>"
  have rel0: "cap_rel (r_open ?r) A" using cap_rel_clear [OF rel] by simp
  have k: "Size (r_open ?r) \<noteq> 0" "length (CpuData (r_open ?r)) = ?n"
    using pos by (simp_all add: clear_event_def)
  have cpus: "fst p < ?n" "fst p' < ?n" using rel q by (auto simp: cap_rel_def)
  then have "0 < ?n" by linarith
  then have dist: "cpu_distance ?n i c < ?n" for i c by (rule cpu_distance_less)
  have zero: "current_cpu ?r < ?n" "count ?r + cpu_distance ?n (current_cpu ?r) (fst p) < ?n"
    using dist \<open>0 < ?n\<close> by simp_all
  define f2 where "f2 = cpu_distance ?n (fst p) (fst p') + 1"
  define f1 where "f1 = Suc f2"
  have start: "copied ?r \<noteq> ?L" using fits by auto
  from read_loop_finds [OF rel0 k zero(1) start q zero(2), of f1]
  obtain c where c: "read_loop (cpu_distance ?n 0 (fst p) + f1) ?L ?r =
      read_loop f1 ?L (?r\<lparr>count := c, current_cpu := fst p\<rparr>)" "c < ?n"
    by auto
  let ?r1 = "?r\<lparr>count := c, current_cpu := fst p\<rparr>"
  have ne: "copied ?r1 \<noteq> ?L" "copied ?r1 \<le> ?L" "?L < 4294967296" using fits buf by auto
  from read_step_take(2) [OF _ _ q _ _ ne] rel0 k c(2) fits buf(2)
  obtain u d' where st: "read_step ?L ?r1 = Continue (consumed ?r1 (snd p) u d')" "length u = ?L"
    and rel1: "cap_rel (r_open (consumed ?r1 (snd p) u d')) (A\<lparr>queue := p' # G\<rparr>)"
    by auto
  let ?r2 = "consumed ?r1 (snd p) u d'"
  have c2: "copied ?r2 = record_length ?m" "r_user ?r2 = u" "count ?r2 = 0" "current_cpu ?r2 = fst p"
    "Size (r_open ?r2) \<noteq> 0" "length (CpuData (r_open ?r2)) = ?n"
    using k by (simp_all add: consumed_def)
  have near: "record_length ?m < ?m + 24" unfolding record_length_def by presburger
  have ne2: "copied ?r2 \<noteq> ?L" using pad c2 by simp
  have d2: "count ?r2 + cpu_distance ?n (current_cpu ?r2) (fst p') < ?n" using dist c2 by simp
  have cur2: "current_cpu ?r2 < ?n" and q2: "queue (A\<lparr>queue := p' # G\<rparr>) = p' # G"
    using cpus c2 by simp_all
  from read_loop_finds [OF rel1 c2(5,6) cur2 ne2 q2 d2, of 1]
  obtain c' where c': "read_loop f2 ?L ?r2 =
      read_loop 1 ?L (?r2\<lparr>count := c', current_cpu := fst p'\<rparr>)" "c' < ?n"
    unfolding c2(4) f2_def by blast
  let ?r3 = "?r2\<lparr>count := c', current_cpu := fst p'\<rparr>"
  have "read_step (length (r_user ?r3)) ?r3 = Read_Fault"
    by (rule read_step_past_end [of _ "A\<lparr>queue := p' # G\<rparr>" p' G])
       (use rel1 c2 c'(2) st(2) pad near fits buf in auto)
  then have "read_loop f2 ?L ?r2 = Some None" using c' st(2) c2 by simp
  then have "read_loop f1 ?L ?r1 = Some None" using st(1) by (simp add: f1_def)
  then have "read_loop (cpu_distance ?n 0 (fst p) + f1) ?L ?r = Some None" using c(1) by simp
  moreover have "cpu_distance ?n 0 (fst p) + f1 \<le> fuel"
    using dist [of 0 "fst p"] dist [of "fst p" "fst p'"] fuel unfolding f1_def f2_def by linarith
  ultimately have "read_loop fuel ?L ?r = Some None" by (rule read_loop_fuel)
  then show ?thesis using buf(1) by (simp add: read_packets_def)
qed

end
