(* ===== verification/Npf_Buffers.thy ===== *)
theory Npf_Buffers
  imports Capture_Correct
begin

text \<open>
  The two operations that empty the kernel buffers: \<open>NPF_ResetBufferContents\<close> and the
  control code BIOCSETBUFFERSIZE (\<open>packetNtx/driver/Packet.c\<close>). Both take the buffer locks of
  all CPUs first. The pool allocator is the argument \<open>alloc\<close>, which returns the new block.
\<close>

definition reset_cpu :: "nat \<Rightarrow> cpu_private \<Rightarrow> cpu_private" where
  "reset_cpu sz d = d\<lparr>pos_P := 0, pos_C := 0, Free := sz, Accepted := 0, Received := 0, Dropped := 0\<rparr>"

definition NPF_ResetBufferContents :: "open_capture \<Rightarrow> cap_fault + open_capture" where
  "NPF_ResetBufferContents opn =
     (if list_ex BufferLock (CpuData opn) then Inl Lock_Held
      else Inr (opn\<lparr>CpuData := map (reset_cpu (Size opn)) (CpuData opn), ReaderSN := 0, WriterSN := 0\<rparr>))"

text \<open>The block is cut into one slice per CPU; the bytes after the last slice are not used.\<close>

definition slice_cpu :: "u8 list \<Rightarrow> nat \<Rightarrow> nat \<Rightarrow> cpu_private \<Rightarrow> cpu_private" where
  "slice_cpu block sz i d = reset_cpu sz (d\<lparr>Buffer := chunk block (sz * i) sz\<rparr>)"

datatype buffer_status = Buffer_Set | Buffer_Nomem

definition set_buffer_size ::
    "(nat \<Rightarrow> u8 list option) \<Rightarrow> nat \<Rightarrow> open_capture \<Rightarrow> cap_fault + (buffer_status \<times> open_capture)" where
  "set_buffer_size alloc dim opn =
     (let n = length (CpuData opn);
          small = dim div n < SIZEOF_PacketHeader;
          dim' = (if small then 0 else dim) in
      case (if small then Some [] else alloc dim) of
        None \<Rightarrow> Inr (Buffer_Nomem, opn)
      | Some block \<Rightarrow>
          if list_ex BufferLock (CpuData opn) then Inl Lock_Held
          else Inr (Buffer_Set, opn\<lparr>
            CpuData := map (\<lambda>i. slice_cpu block (dim' div n) i (CpuData opn ! i)) [0..<n],
            ReaderSN := 0, WriterSN := 0, Size := dim' div n\<rparr>))"

section \<open>An empty queue\<close>

definition empty_abs :: capture_abs where
  "empty_abs = \<lparr>queue = [], waiting = (\<lambda>_. None)\<rparr>"

lemma cpu_inv_empty:
  assumes "24 \<le> sz" and "sz < 4294967296" and "length (Buffer d) = sz" and "pos_P d = 0"
    and "pos_C d = 0" and "Free d = sz"
  shows "cpu_inv sz d []"
  using assms by (simp add: cpu_inv_def)

lemma cap_rel_empty:
  assumes "length (CpuData opn) * Size opn < 4294967296"
    and "ReaderSN opn = 0" and "WriterSN opn = 0"
    and "\<And>d. d \<in> set (CpuData opn) \<Longrightarrow> \<not> BufferLock d \<and> TransferMdl1 d = None \<and>
      (Size opn \<noteq> 0 \<longrightarrow> cpu_inv (Size opn) d [])"
  shows "cap_rel opn empty_abs"
  using assms
  by (auto simp: cap_rel_def empty_abs_def cpu_queue_def numbered_def transfer_state_def)

lemma reset_empties:
  assumes rel: "cap_rel opn A" and free: "\<And>i. i < length (CpuData opn) \<Longrightarrow> waiting A i = None"
  shows "\<exists>opn'. NPF_ResetBufferContents opn = Inr opn' \<and> cap_rel opn' empty_abs \<and>
    Size opn' = Size opn \<and> length (CpuData opn') = length (CpuData opn) \<and>
    list_all (\<lambda>d. Accepted d = 0 \<and> Received d = 0 \<and> Dropped d = 0) (CpuData opn')"
proof -
  have st: "\<not> BufferLock d \<and> TransferMdl1 d = None" if "d \<in> set (CpuData opn)" for d
    using that cap_relD(1) [OF rel] free by (fastforce simp: in_set_conv_nth transfer_state_def)
  have inv: "cpu_inv (Size opn) (reset_cpu (Size opn) d) []"
    if d: "d \<in> set (CpuData opn)" and pos: "Size opn \<noteq> 0" for d
  proof -
    from d obtain i where "i < length (CpuData opn)" "d = CpuData opn ! i"
      by (auto simp: in_set_conv_nth)
    with cap_relD(2) [OF rel _ pos] have "cpu_inv (Size opn) d (cpu_queue (queue A) i)" by simp
    from cpu_inv_free [OF this] show ?thesis
      by (intro cpu_inv_empty) (simp_all add: reset_cpu_def)
  qed
  let ?o = "opn\<lparr>CpuData := map (reset_cpu (Size opn)) (CpuData opn), ReaderSN := 0, WriterSN := 0\<rparr>"
  have "cap_rel ?o empty_abs"
  proof (rule cap_rel_empty)
    show "length (CpuData ?o) * Size ?o < 4294967296" using rel by (simp add: cap_rel_def)
    show "\<not> BufferLock d \<and> TransferMdl1 d = None \<and> (Size ?o \<noteq> 0 \<longrightarrow> cpu_inv (Size ?o) d [])"
      if d: "d \<in> set (CpuData ?o)" for d
      using d st inv by (auto simp: reset_cpu_def)
  qed simp_all
  then show ?thesis
    using st by (intro exI [of _ ?o]) (auto simp: NPF_ResetBufferContents_def list_ex_iff
      list_all_iff reset_cpu_def)
qed

lemma concat_chunks: "concat (map (\<lambda>i. chunk xs (m * i) m) [0..<n]) = take (n * m) xs"
proof (induction n)
  case (Suc n)
  have "take (Suc n * m) xs = take (n * m) xs @ chunk xs (m * n) m"
    using take_add [of "n * m" m xs] by (simp add: chunk_def ac_simps)
  with Suc show ?case by simp
qed simp

text \<open>The buffers of the CPUs, put together, are the block from its start.\<close>

lemma set_buffer_slices:
  assumes "set_buffer_size alloc dim opn = Inr (Buffer_Set, opn')"
    and "24 \<le> dim div length (CpuData opn)"
  shows "\<exists>block. alloc dim = Some block \<and> concat (map Buffer (CpuData opn')) =
    take (length (CpuData opn) * (dim div length (CpuData opn))) block"
proof -
  let ?n = "length (CpuData opn)" and ?sz = "dim div length (CpuData opn)"
  obtain block where block: "alloc dim = Some block"
      "CpuData opn' = map (\<lambda>i. slice_cpu block ?sz i (CpuData opn ! i)) [0..<?n]"
    using assms by (auto simp: set_buffer_size_def Let_def split: if_splits option.splits)
  have "map Buffer (CpuData opn') = map (\<lambda>i. chunk block (?sz * i) ?sz) [0..<?n]"
    by (simp add: block(2) slice_cpu_def reset_cpu_def o_def)
  then show ?thesis using block(1) by (simp add: concat_chunks)
qed

lemma set_buffer_empties:
  assumes cpus: "CpuData opn \<noteq> []" and dim: "dim < 4294967296"
    and free: "\<And>d. d \<in> set (CpuData opn) \<Longrightarrow> \<not> BufferLock d \<and> TransferMdl1 d = None"
    and alloc: "\<And>b. alloc dim = Some b \<Longrightarrow> length b = dim"
    and run: "set_buffer_size alloc dim opn = Inr (Buffer_Set, opn')"
  shows "cap_rel opn' empty_abs"
    and "Size opn' = (if dim div length (CpuData opn) < 24 then 0 else dim div length (CpuData opn))"
proof -
  let ?n = "length (CpuData opn)"
  let ?sz = "if dim div ?n < 24 then 0 else dim div ?n"
  obtain block where block: "?sz \<noteq> 0 \<longrightarrow> length block = dim"
    and opn': "opn' = opn\<lparr>CpuData := map (\<lambda>i. slice_cpu block ?sz i (CpuData opn ! i)) [0..<?n],
      ReaderSN := 0, WriterSN := 0, Size := ?sz\<rparr>"
    using run alloc
    by (auto simp: set_buffer_size_def Let_def split: if_splits option.splits)
  have le: "?n * (dim div ?n) \<le> dim" by simp
  have "length (Buffer (slice_cpu block ?sz i d)) = ?sz" if "i < ?n" "?sz \<noteq> 0" for i d
  proof -
    have "?sz * i + ?sz = ?sz * Suc i" by simp
    also have "\<dots> \<le> ?sz * ?n" using that by (intro mult_le_mono2) simp
    also have "\<dots> \<le> dim" using le by (auto simp: mult.commute)
    finally show ?thesis using block that by (simp add: slice_cpu_def reset_cpu_def)
  qed
  moreover have "dim div ?n < 4294967296"
    using div_le_dividend [of dim ?n] dim by (rule le_less_trans)
  then have "?sz < 4294967296" by simp
  ultimately have inv: "cpu_inv ?sz (slice_cpu block ?sz i d) []" if "i < ?n" "?sz \<noteq> 0" for i d
    using that by (intro cpu_inv_empty) (auto simp: slice_cpu_def reset_cpu_def split: if_splits)
  show "cap_rel opn' empty_abs"
  proof (rule cap_rel_empty)
    show "length (CpuData opn') * Size opn' < 4294967296"
      using le_less_trans [OF le dim] by (simp add: opn')
    show "\<not> BufferLock d \<and> TransferMdl1 d = None \<and> (Size opn' \<noteq> 0 \<longrightarrow> cpu_inv (Size opn') d [])"
      if d: "d \<in> set (CpuData opn')" for d
    proof -
      from d obtain i where i: "i < ?n" "d = slice_cpu block ?sz i (CpuData opn ! i)"
        unfolding opn' by auto
      with inv [of i "CpuData opn ! i"] free [of "CpuData opn ! i"] show ?thesis
        by (simp add: opn' slice_cpu_def reset_cpu_def)
    qed
  qed (simp_all add: opn')
  show "Size opn' = ?sz" by (simp add: opn')
qed

end
