(* ===== verification/Capture_System.thy ===== *)
theory Capture_System
  imports Runs Read_Correct Npf_Buffers
begin

text \<open>
  The tap, the completion of transfers and the read together: any interleaving of their calls is
  a run of a first-in first-out queue. The abstract specification says only that a tap may
  store the packet it was given, that a completion stores the packet of the transfer that was
  open, and that a read delivers packets from the front.
\<close>

section \<open>The steps\<close>

datatype capture_event =
    Tap nat indication ndis_env
  | Complete nat "u8 list" timestamp
  | Read read_env

definition fuel_bound :: "open_capture \<Rightarrow> nat" where
  "fuel_bound opn = (length (CpuData opn) * Size opn + 1) * length (CpuData opn) + 1"

type_synonym filter_call = "JIT_BPF_Filter \<Rightarrow> packet \<Rightarrow> fault + u32"

fun capture_step :: "filter_call \<Rightarrow> capture_event \<Rightarrow> open_capture \<Rightarrow>
    cap_fault + (open_capture \<times> (nat \<times> u8 list) option)" where
  "capture_step call (Tap cpu ind env) opn = map_sum id (\<lambda>o'. (o', None)) (NPF_tap call opn cpu ind env)"
| "capture_step call (Complete cpu data ts) opn =
     map_sum id (\<lambda>o'. (o', None)) (NPF_TransferDataComplete opn cpu data ts)"
| "capture_step call (Read env) opn =
     (case read_packets (fuel_bound opn) opn env of
        Some (Some (o', res)) \<Rightarrow> Inr (o', map_option (\<lambda>u. (Information res, u)) (user res))
      | _ \<Rightarrow> Inl Overrun)"

text \<open>
  The callers' side: NDIS indicates a packet on a CPU whose lock is free, with sizes that do not
  overflow; it completes a transfer that is open; a read passes a user buffer whose length is a
  multiple of four. How many bytes NDIS transfers is not restricted.
\<close>

fun event_ok :: "filter_call \<Rightarrow> capture_event \<Rightarrow> open_capture \<Rightarrow> bool" where
  "event_ok call (Tap cpu ind env) opn \<longleftrightarrow>
     cpu < length (CpuData opn) \<and> \<not> BufferLock (CpuData opn ! cpu) \<and>
     \<not> isl (tap_filter call opn ind) \<and> total_size ind + 24 < 4294967296 \<and>
     length (in_hand ind) < 4294967296"
| "event_ok call (Complete cpu data ts) opn \<longleftrightarrow>
     cpu < length (CpuData opn) \<and> Size opn \<noteq> 0 \<and> BufferLock (CpuData opn ! cpu)"
| "event_ok call (Read env) opn \<longleftrightarrow>
     Size opn \<noteq> 0 \<and> CpuData opn \<noteq> [] \<and>
     (case UserBuffer env of None \<Rightarrow> False
      | Some buf \<Rightarrow> length buf < 4294967296 \<and> length buf mod 4 = 0)"

section \<open>The specification\<close>

text \<open>
  The abstract state is the queue with the next serial number; a step reports the packets it
  stored and the packets it delivered.
\<close>

text \<open>
  A snapshot of a packet: the bytes at hand come first, and it is a prefix of the packet where the
  transfer delivered enough bytes.
\<close>

definition snapshot :: "indication \<Rightarrow> u8 list \<Rightarrow> u8 list \<Rightarrow> bool" where
  "snapshot ind data bytes \<longleftrightarrow>
     take (length (in_hand ind)) bytes = take (length bytes) (in_hand ind) \<and>
     (length bytes \<le> length (in_hand ind @ data) \<longrightarrow>
        bytes = take (length bytes) (in_hand ind @ data))"

fun capture_spec ::
    "capture_event \<Rightarrow> capture_abs \<times> nat \<Rightarrow> (nat \<times> cpkt) list \<times> cpkt list \<Rightarrow> capture_abs \<times> nat \<Rightarrow> bool"
  where
  "capture_spec (Tap cpu ind env) (A, sn) (st, dv) (A', sn') \<longleftrightarrow> dv = [] \<and>
     (st = [] \<and> sn' = sn \<and>
        (A' = A \<or> (\<exists>missing. waiting A cpu = None \<and>
           A' = A\<lparr>waiting := (waiting A)(cpu \<mapsto> (in_hand ind, missing, total_size ind))\<rparr>)) \<or>
      (\<exists>data. st = [(cpu, \<lparr>c_sn = sn, c_ts = now env, c_datalen = total_size ind, c_data = data\<rparr>)] \<and>
        snapshot ind (transferred env) data \<and>
        A' = A\<lparr>queue := queue A @ st\<rparr> \<and> sn' = add32 sn 1))"
| "capture_spec (Complete cpu data ts) (A, sn) (st, dv) (A', sn') \<longleftrightarrow> dv = [] \<and>
     (\<exists>pre missing dl post. waiting A cpu = Some (pre, missing, dl) \<and> length post = missing \<and>
        take (length data) post = take missing data \<and>
        st = [(cpu, \<lparr>c_sn = sn, c_ts = ts, c_datalen = dl, c_data = pre @ post\<rparr>)] \<and>
        A' = A\<lparr>queue := queue A @ st, waiting := (waiting A)(cpu := None)\<rparr> \<and> sn' = add32 sn 1)"
| "capture_spec (Read env) (A, sn) (st, dv) (A', sn') \<longleftrightarrow> st = [] \<and> sn' = sn \<and>
     (\<exists>m. dv = map snd (take m (queue A)) \<and> A' = A\<lparr>queue := drop m (queue A)\<rparr>)"

definition capture_rel :: "open_capture \<Rightarrow> capture_abs \<times> nat \<Rightarrow> bool" where
  "capture_rel opn s \<longleftrightarrow> cap_rel opn (fst s) \<and> snd s = WriterSN opn"

definition delivers :: "(nat \<times> u8 list) option \<Rightarrow> (nat \<times> cpkt) list \<times> cpkt list \<Rightarrow> bool" where
  "delivers out p \<longleftrightarrow>
     (case out of None \<Rightarrow> snd p = []
      | Some (n, u) \<Rightarrow> n = records_length (snd p) \<and> n \<le> length u \<and> records_at u 0 (snd p))"

section \<open>The simulation\<close>

lemma lock_free:
  assumes "cap_rel opn A" and "cpu < length (CpuData opn)"
  shows "\<not> BufferLock (CpuData opn ! cpu) \<longleftrightarrow> waiting A cpu = None"
  using cap_relD(1) [OF assms] by (auto simp: transfer_state_def split: option.splits)

lemma store_verdict_bytes:
  assumes "tap_verdict opn cpu ind env fres = Stored data"
  shows "snapshot ind (transferred env) data"
proof -
  let ?h = "in_hand ind"
  consider n where "data = take n ?h" "n \<le> length ?h"
    | n where "data = ?h @ landed_bytes opn cpu ind env n" "length ?h < n"
    using assms by (fastforce simp: tap_verdict_def store_verdict_def split: if_splits)
  then show ?thesis
  proof cases
    case (2 n)
    then have "data = take n (?h @ transferred env)" if "n \<le> length (?h @ transferred env)"
      using that by (simp add: landed_bytes_def landed_full)
    moreover have "length data = n" using 2 by (simp add: landed_bytes_def)
    ultimately show ?thesis using 2 by (simp add: snapshot_def)
  qed (simp add: snapshot_def)
qed

lemma tap_verdict_waits:
  assumes "tap_verdict opn cpu ind env fres = Waiting pre missing"
  shows "pre = in_hand ind"
  using assms by (auto simp: tap_verdict_def store_verdict_def split: if_splits)

lemma WriterSN_queue: "cap_rel opn A \<Longrightarrow> WriterSN opn = add32 (ReaderSN opn) (length (queue A))"
  by (simp add: cap_rel_def)

lemma fuel_bound_enough:
  assumes "cap_rel opn A"
  shows "read_fuel opn A \<le> fuel_bound opn"
proof (cases "Size opn = 0")
  case True
  with assms show ?thesis by (simp add: cap_rel_def read_fuel_def fuel_bound_def)
next
  case False
  have "length (queue A) \<le> length (CpuData opn) * Size opn"
    by (rule queue_length [OF assms False])
  then show ?thesis by (simp add: read_fuel_def fuel_bound_def)
qed

lemma tap_simulates:
  assumes rel: "capture_rel opn s" and ok: "event_ok call (Tap cpu ind env) opn"
  shows "\<exists>opn' out p s'. capture_step call (Tap cpu ind env) opn = Inr (opn', out) \<and>
    capture_spec (Tap cpu ind env) s p s' \<and> capture_rel opn' s' \<and> delivers out p"
proof -
  obtain A sn where s: "s = (A, sn)" by fastforce
  have A: "cap_rel opn A" "sn = WriterSN opn" using rel by (simp_all add: s capture_rel_def)
  obtain fres where fres: "tap_filter call opn ind = Inr fres"
    using ok by (cases "tap_filter call opn ind") auto
  let ?v = "tap_verdict opn cpu ind env fres"
  let ?A = "abs_tap cpu (tapped opn (total_size ind) (now env)) (total_size ind) ?v A"
  have free: "waiting A cpu = None" using lock_free [OF A(1), of cpu] ok by simp
  obtain opn' where run: "NPF_tap call opn cpu ind env = Inr opn'" and rel': "cap_rel opn' ?A"
    and cnt: "counted (received opn cpu) cpu ?v opn'"
    using NPF_tap_verdict [OF A(1) _ free fres, of env] ok by auto
  then have reader: "ReaderSN opn' = ReaderSN opn"
    by (simp add: counted_def same_setup_def received_def Let_def)
  have sn': "WriterSN opn' = (if stores ?v then add32 sn 1 else sn)"
    using WriterSN_queue [OF rel'] WriterSN_queue [OF A(1)] A(2) reader
    by (auto simp: abs_tap_def stores_def add32_assoc split: verdict.splits)
  let ?st = "case ?v of Stored data \<Rightarrow> [(cpu, tapped opn (total_size ind) (now env) data)] | _ \<Rightarrow> []"
  have "capture_spec (Tap cpu ind env) (A, sn) (?st, []) (?A, WriterSN opn')"
    using sn' free A(2)
    by (auto simp: abs_tap_def stores_def tapped_def dest: store_verdict_bytes tap_verdict_waits
        split: verdict.splits)
  with run rel' show ?thesis
    by (intro exI [of _ opn'] exI [of _ None] exI [of _ "(?st, [])"] exI [of _ "(?A, WriterSN opn')"])
       (simp add: s capture_rel_def delivers_def)
qed

lemma complete_simulates:
  assumes rel: "capture_rel opn s" and ok: "event_ok call (Complete cpu data ts) opn"
  shows "\<exists>opn' out p s'. capture_step call (Complete cpu data ts) opn = Inr (opn', out) \<and>
    capture_spec (Complete cpu data ts) s p s' \<and> capture_rel opn' s' \<and> delivers out p"
proof -
  obtain A sn where s: "s = (A, sn)" by fastforce
  have A: "cap_rel opn A" "sn = WriterSN opn" using rel by (simp_all add: s capture_rel_def)
  let ?d = "CpuData opn ! cpu" and ?sz = "Size opn"
  have cpu: "cpu < length (CpuData opn)" and pos: "?sz \<noteq> 0" using ok by simp_all
  obtain pre missing dl where wait: "waiting A cpu = Some (pre, missing, dl)"
    using lock_free [OF A(1) cpu] ok by (cases "waiting A cpu") auto
  obtain opn' where run: "NPF_TransferDataComplete opn cpu data ts = Inr opn'"
    and rel': "cap_rel opn' (abs_complete cpu opn ts data A)"
    and reader: "ReaderSN opn' = ReaderSN opn"
    using transfer_complete_verdict [OF A(1) cpu pos wait, of data ts] by blast
  let ?A = "abs_complete cpu opn ts data A"
  let ?post = "completed_bytes opn cpu pre missing data"
  let ?st = "[(cpu, tapped opn dl ts (pre @ ?post))]"
  have "WriterSN opn' = add32 sn 1"
    using WriterSN_queue [OF rel'] WriterSN_queue [OF A(1)] A(2) reader wait
    by (simp add: abs_complete_def add32_assoc)
  then have "capture_spec (Complete cpu data ts) (A, sn) (?st, []) (?A, WriterSN opn')"
    using wait A(2)
    by (auto simp: abs_complete_def tapped_def completed_bytes_def landed_def min_def)
  with run rel' show ?thesis
    by (intro exI [of _ opn'] exI [of _ None] exI [of _ "(?st, [])"] exI [of _ "(?A, WriterSN opn')"])
       (simp add: s capture_rel_def delivers_def)
qed

lemma read_simulates:
  assumes rel: "capture_rel opn s" and ok: "event_ok call (Read env) opn"
  shows "\<exists>opn' out p s'. capture_step call (Read env) opn = Inr (opn', out) \<and>
    capture_spec (Read env) s p s' \<and> capture_rel opn' s' \<and> delivers out p"
proof -
  obtain A sn where s: "s = (A, sn)" by fastforce
  have A: "cap_rel opn A" "sn = WriterSN opn" using rel by (simp_all add: s capture_rel_def)
  obtain buf where buf: "UserBuffer env = Some buf" "length buf < 4294967296" "4 dvd length buf"
    using ok by (auto simp: dvd_eq_mod_eq_0 split: option.splits)
  let ?m = "taken (length buf) (map snd (queue A))"
  let ?A = "A\<lparr>queue := drop ?m (queue A)\<rparr>" and ?dv = "map snd (take ?m (queue A))"
  from read_packets_takes [OF A(1) _ _ buf fuel_bound_enough [OF A(1)]] ok
  obtain opn' u where run: "read_packets (fuel_bound opn) opn env = Some (Some (opn',
      \<lparr>status = STATUS_SUCCESS, Information = records_length ?dv, user = Some u\<rparr>))"
    and rel': "cap_rel opn' ?A" and u: "length u = length buf" "records_length ?dv \<le> length buf"
      "records_at u 0 ?dv" and sn': "WriterSN opn' = WriterSN opn"
    by auto
  have "capture_spec (Read env) (A, sn) ([], ?dv) (?A, WriterSN opn')"
    using sn' A(2) by auto
  with run rel' u show ?thesis
    by (intro exI [of _ opn'] exI [of _ "Some (records_length ?dv, u)"] exI [of _ "([], ?dv)"]
          exI [of _ "(?A, WriterSN opn')"])
       (simp add: s capture_rel_def delivers_def)
qed

interpretation capture: simulation capture_rel "event_ok call" "capture_step call" capture_spec delivers
proof unfold_locales
  fix opn s e assume "capture_rel opn s" and "event_ok call e opn"
  then show "\<exists>opn' out p s'. capture_step call e opn = Inr (opn', out) \<and> capture_spec e s p s' \<and>
      capture_rel opn' s' \<and> delivers out p"
    by (cases e) (simp_all only: tap_simulates complete_simulates read_simulates)
qed

section \<open>Runs are first-in first-out\<close>

abbreviation all_stored :: "((nat \<times> cpkt) list \<times> cpkt list) list \<Rightarrow> (nat \<times> cpkt) list" where
  "all_stored ps \<equiv> concat (map fst ps)"

abbreviation all_delivered :: "((nat \<times> cpkt) list \<times> cpkt list) list \<Rightarrow> cpkt list" where
  "all_delivered ps \<equiv> concat (map snd ps)"

lemma capture_spec_fifo:
  assumes "capture_spec e s p s'"
  shows "snd p @ map snd (queue (fst s')) = map snd (queue (fst s)) @ map snd (fst p)"
    and "snd s < 4294967296 \<Longrightarrow> numbered (snd s) (fst p)"
    and "snd s' = add32 (snd s) (length (fst p)) \<or> fst p = [] \<and> snd s' = snd s"
proof -
  obtain A sn A' sn' st dv where [simp]: "s = (A, sn)" "s' = (A', sn')" "p = (st, dv)"
    by (metis prod.collapse)
  have cut: "map snd (take m q) @ map snd (drop m q) = map snd q" for m and q :: "(nat \<times> cpkt) list"
    by (metis append_take_drop_id map_append)
  show "snd p @ map snd (queue (fst s')) = map snd (queue (fst s)) @ map snd (fst p)"
    using assms by (cases e) (auto simp: cut)
  show "numbered (snd s) (fst p)"
    if "snd s < 4294967296"
    using assms that by (cases e) (auto simp: numbered_def)
  show "snd s' = add32 (snd s) (length (fst p)) \<or> fst p = [] \<and> snd s' = snd s"
    using assms by (cases e) auto
qed

lemma numbered_append_list:
  assumes "numbered sn G" and "numbered (add32 sn (length G)) H"
  shows "numbered sn (G @ H)"
  using assms
proof (induction G arbitrary: sn)
  case Nil
  then show ?case by (simp add: numbered_def add32_def mod_add_left_eq fun_eq_iff cong: map_cong)
next
  case (Cons p G)
  then show ?case by (simp add: numbered_Cons add32_assoc)
qed

lemma capture_run_fifo:
  assumes "spec_run capture_spec es s ps s'" and "snd s < 4294967296"
  shows "all_delivered ps @ map snd (queue (fst s')) = map snd (queue (fst s)) @ map snd (all_stored ps)"
    and "numbered (snd s) (all_stored ps)"
proof -
  have "all_delivered ps @ map snd (queue (fst s')) = map snd (queue (fst s)) @ map snd (all_stored ps) \<and>
    numbered (snd s) (all_stored ps)"
    using assms
  proof (induction rule: spec_run.induct)
    case (spec_Nil s)
    then show ?case by (simp add: numbered_def)
  next
    case (spec_Cons e s p s1 es ps s2)
    note st = capture_spec_fifo [OF spec_Cons.hyps(1)]
    have sn: "snd s1 = add32 (snd s) (length (fst p))"
      using st(3) spec_Cons.prems by auto
    have "numbered (snd s) (fst p @ all_stored ps)"
      by (rule numbered_append_list [OF st(2) [OF spec_Cons.prems]]) (use spec_Cons.IH sn in simp)
    moreover have "all_delivered ps @ map snd (queue (fst s2)) =
        map snd (queue (fst s1)) @ map snd (all_stored ps)"
      using spec_Cons.IH sn by simp
    ultimately show ?case using st(1) by simp
  qed
  then show "all_delivered ps @ map snd (queue (fst s')) = map snd (queue (fst s)) @ map snd (all_stored ps)"
    and "numbered (snd s) (all_stored ps)" by blast+
qed

text \<open>A stored packet is one that a tap was given: its length on the wire and the bytes at hand.\<close>

definition indicated :: "capture_event list \<Rightarrow> nat \<times> cpkt \<Rightarrow> bool" where
  "indicated es p \<longleftrightarrow> (\<exists>ind env. Tap (fst p) ind env \<in> set es \<and> c_datalen (snd p) = total_size ind \<and>
     take (length (in_hand ind)) (c_data (snd p)) = take (length (c_data (snd p))) (in_hand ind))"

definition waits_for :: "capture_event list \<Rightarrow> capture_abs \<Rightarrow> bool" where
  "waits_for es A \<longleftrightarrow> (\<forall>cpu pre missing dl. waiting A cpu = Some (pre, missing, dl) \<longrightarrow>
     (\<exists>ind env. Tap cpu ind env \<in> set es \<and> pre = in_hand ind \<and> dl = total_size ind))"

lemma capture_spec_indicated:
  assumes "capture_spec e s p s'" and "waits_for es (fst s)" and "e \<in> set es"
  shows "waits_for es (fst s') \<and> (\<forall>q \<in> set (fst p). indicated es q)"
proof (cases e)
  case (Tap cpu ind env)
  obtain A sn A' sn' st dv where [simp]: "s = (A, sn)" "s' = (A', sn')" "p = (st, dv)"
    by (metis prod.collapse)
  show ?thesis
    using assms by (fastforce simp: Tap waits_for_def indicated_def snapshot_def split: if_splits)
next
  case (Complete cpu data ts)
  obtain A sn A' sn' st dv where [simp]: "s = (A, sn)" "s' = (A', sn')" "p = (st, dv)"
    by (metis prod.collapse)
  from assms(1) obtain pre missing dl post where wait: "waiting A cpu = Some (pre, missing, dl)"
    and st: "st = [(cpu, \<lparr>c_sn = sn, c_ts = ts, c_datalen = dl, c_data = pre @ post\<rparr>)]"
    and A': "A' = A\<lparr>queue := queue A @ st, waiting := (waiting A)(cpu := None)\<rparr>"
    by (auto simp: Complete)
  from assms(2) wait obtain ind env
    where "Tap cpu ind env \<in> set es" "pre = in_hand ind" "dl = total_size ind"
    by (fastforce simp: waits_for_def)
  then have "\<forall>q \<in> set st. indicated es q"
    by (auto simp: st indicated_def)
  moreover have "waits_for es A'"
    using assms(2) by (auto simp: waits_for_def A')
  ultimately show ?thesis by simp
next
  case (Read env)
  then show ?thesis using assms by (cases s; cases s'; cases p) (auto simp: waits_for_def)
qed

lemma capture_run_indicated:
  assumes "spec_run capture_spec es s ps s'" and "waits_for all (fst s)" and "set es \<subseteq> set all"
  shows "\<forall>q \<in> set (all_stored ps). indicated all q"
  using assms
proof (induction rule: spec_run.induct)
  case (spec_Cons e s p s1 es ps s2)
  then show ?case using capture_spec_indicated [of e s p s1 all] by auto
qed simp

text \<open>All of it for a run that starts with an empty queue.\<close>

lemma capture_runs_empty:
  assumes "cap_rel opn empty_abs" and "run_ok (event_ok call) (capture_step call) es opn"
  shows "\<exists>opn' outs ps A'. run_steps (capture_step call) es opn = Inr (opn', outs) \<and>
    cap_rel opn' A' \<and> list_all2 delivers outs ps \<and>
    all_delivered ps @ map snd (queue A') = map snd (all_stored ps) \<and>
    numbered (WriterSN opn) (all_stored ps) \<and> list_all (indicated es) (all_stored ps)"
proof -
  have "capture_rel opn (empty_abs, WriterSN opn)"
    using assms(1) by (simp add: capture_rel_def)
  from capture.run_simulates [OF this assms(2)] obtain opn' outs ps s' where
    run: "run_steps (capture_step call) es opn = Inr (opn', outs)"
    and spec: "spec_run capture_spec es (empty_abs, WriterSN opn) ps s'"
    and rel: "capture_rel opn' s'" and out: "list_all2 delivers outs ps"
    by blast
  have sn: "snd (empty_abs, WriterSN opn) < 4294967296"
    using WriterSN_queue [OF assms(1)] by simp
  have "waits_for es (fst (empty_abs, WriterSN opn))"
    by (simp add: waits_for_def empty_abs_def)
  from capture_run_indicated [OF spec this subset_refl] capture_run_fifo [OF spec sn] run rel out
  show ?thesis
    by (intro exI [of _ opn'] exI [of _ outs] exI [of _ ps] exI [of _ "fst s'"])
       (simp add: capture_rel_def list_all_iff empty_abs_def)
qed

end
