(* ===== verification/Packet_Reader.thy ===== *)
theory Packet_Reader
  imports Read_Correct
begin

text \<open>
  The application's side of a read: the loop with which \<open>PrintPackets\<close>
  (\<open>Examples/PacketDriver/TestPacketCapture/TestPacketCapture.c\<close>) walks over the records of
  the buffer it got from the driver. What it prints is the result: the length on the wire and the
  captured bytes of each record. A read outside the buffer is \<open>Some None\<close>; \<open>None\<close> means that the
  fuel is used up (a header length of zero would let the loop run forever). The test whether a
  key was pressed is left out.
\<close>

definition le16_of :: "u8 list \<Rightarrow> u16" where
  "le16_of bs = (ucast (bs ! 1) * 256) + ucast (bs ! 0)"

fun PrintPackets :: "nat \<Rightarrow> u8 list \<Rightarrow> nat \<Rightarrow> nat \<Rightarrow> (u32 \<times> u8 list) list option option" where
  "PrintPackets 0 buf got off = None"
| "PrintPackets (Suc n) buf got off =
     (if off < got
      then (case slice buf off 20 of
          None \<Rightarrow> Some None
        | Some hdr \<Rightarrow>
            (let tlen1 = le32_of (drop 12 hdr);
                 tlen = unat (le32_of (drop 8 hdr));
                 off1 = add32 off (unat (le16_of (drop 16 hdr)));
                 off2 = Packet_WORDALIGN (add32 off1 tlen) in
             case slice buf off1 tlen of
               None \<Rightarrow> Some None
             | Some bytes \<Rightarrow>
                 map_option (map_option (\<lambda>ps. (tlen1, bytes) # ps)) (PrintPackets n buf got off2)))
      else Some (Some []))"

lemma le16_of_20: "le16_of (le16_bytes 20 @ rest) = 20"
  by (simp add: le16_of_def le16_bytes_def drop_bit_eq_div)

definition printed :: "cpkt \<Rightarrow> u32 \<times> u8 list" where
  "printed x = (of_nat (c_datalen x), c_data x)"

lemma header_fields:
  assumes rec: "record_at u at x" and "at + 20 \<le> length u"
  shows "\<exists>hdr. slice u at 20 = Some hdr \<and> le32_of (drop 12 hdr) = of_nat (c_datalen x) \<and>
    le32_of (drop 8 hdr) = of_nat (length (c_data x)) \<and> le16_of (drop 16 hdr) = 20"
proof -
  let ?ts = "le32_bytes (tv_sec (c_ts x)) @ le32_bytes (tv_usec (c_ts x))"
  let ?n = "le32_bytes (of_nat (length (c_data x)))" and ?m = "le32_bytes (of_nat (c_datalen x))"
  have "chunk u at 20 = ?ts @ ?n @ ?m @ le16_bytes 20 @ chunk u (at + 18) 2"
    using rec chunk_split [of u at 18 2] by (simp add: record_at_def)
  then show ?thesis
    using assms(2) by (simp add: slice_def le16_of_20)
qed

lemma PrintPackets_records:
  assumes "records_at u at xs" and "at + records_length xs \<le> length u" and "length u < 4294967296"
    and "4 dvd at" and "length xs < fuel"
  shows "PrintPackets fuel u (at + records_length xs) at = Some (Some (map printed xs))"
  using assms
proof (induction xs arbitrary: at fuel)
  case Nil
  then show ?case by (cases fuel) (simp_all add: records_length_def)
next
  case (Cons x xs)
  let ?n = "length (c_data x)"
  obtain f where f: "fuel = Suc f" "length xs < f" using Cons.prems(5) by (cases fuel) auto
  have len: "records_length (x # xs) = record_length ?n + records_length xs"
    by (simp add: records_length_def)
  have rec: "record_at u at x" using Cons.prems(1) by simp
  have fit: "at + 20 + ?n \<le> length u"
    using Cons.prems(2) len record_length_ge [of ?n] by linarith
  then have "at + 20 \<le> length u" by simp
  from header_fields [OF rec this] obtain hdr where hdr: "slice u at 20 = Some hdr"
    "le32_of (drop 12 hdr) = of_nat (c_datalen x)" "le32_of (drop 8 hdr) = of_nat ?n"
    "le16_of (drop 16 hdr) = 20" by blast
  have n: "unat (of_nat ?n :: u32) = ?n" using fit Cons.prems(3) by (simp add: unat_of_nat)
  have aligned: "at + record_length ?n = 4 * ((at + 20 + ?n + 3) div 4)"
    using Cons.prems(4) unfolding record_length_def by presburger
  have "at + 20 + ?n + 3 < 4294967296"
  proof -
    have "at + record_length ?n \<le> length u" using Cons.prems(2) len by linarith
    with Cons.prems(3) have "4 * ((at + 20 + ?n + 3) div 4) < 4294967296" using aligned by linarith
    then show ?thesis by presburger
  qed
  then have off2: "Packet_WORDALIGN (add32 (add32 at 20) ?n) = at + record_length ?n"
    using WORDALIGN_small [of "at + 20 + ?n"] aligned by simp
  have off1: "add32 at 20 = at + 20" using fit Cons.prems(3) by simp
  have bytes: "slice u (at + 20) ?n = Some (c_data x)"
    using rec fit by (simp add: slice_def record_at_def)
  have "at < at + records_length (x # xs)"
    using record_length_ge [of ?n] len by linarith
  moreover have "PrintPackets f u (at + record_length ?n + records_length xs) (at + record_length ?n) =
      Some (Some (map printed xs))"
  proof (rule Cons.IH)
    show "4 dvd at + record_length ?n" unfolding aligned by simp
  qed (use Cons.prems f len in auto)
  ultimately show ?case
    using hdr n off1 off2 bytes len f by (simp add: Let_def printed_def add.assoc)
qed

end
