(* ===== verification/Capture_Properties.thy ===== *)
theory Capture_Properties
  imports Capture_System Packet_Reader
begin

text \<open>
  The properties of the capture path, from the tap over the kernel buffers and the read to the
  application, with the concrete states of their witnesses.
\<close>

section \<open>A concrete instance with two CPUs\<close>

definition sample_ts :: timestamp where
  "sample_ts = \<lparr>tv_sec = 10, tv_usec = 20\<rparr>"

definition sample_cpu :: cpu_private where
  "sample_cpu = \<lparr>Buffer = replicate 64 0, pos_P = 0, pos_C = 0, Free = 64, NewP = 0, Accepted = 0,
     Received = 0, Dropped = 0, TransferMdl1 = None, TransferMdl2 = None, BufferLock = False\<rparr>"

definition sample_open :: open_capture where
  "sample_open = \<lparr>bpfprogram = None, jit_filter = None, mode = MODE_CAPT, MinToCopy = 0,
     Npackets = 0, Nbytes = 0, MaxDumpPacks = 0, DumpLimitReached = False,
     CpuData = [sample_cpu, sample_cpu], ReaderSN = 0, WriterSN = 0, Size = 64,
     ReadEvent = Some False, DumpEvent = False\<rparr>"

text \<open>A packet of 14 header bytes, two of lookahead and two that have to be transferred.\<close>

definition sample_ind :: indication where
  "sample_ind = \<lparr>HeaderBuffer = replicate 14 1, LookaheadBuffer = [2, 3], PacketSize = 4,
     contiguous = True\<rparr>"

definition sample_env :: "bool \<Rightarrow> ndis_env" where
  "sample_env pending = \<lparr>now = sample_ts, mdl1_ok = True, mdl2_ok = True, packet_ok = True,
     transfer_pending = pending, transferred = [4, 5]\<rparr>"

definition no_call :: filter_call where
  "no_call f q = Inr 0"

definition sample_packet :: "nat \<Rightarrow> u8 \<Rightarrow> cpkt" where
  "sample_packet sn b = \<lparr>c_sn = sn, c_ts = sample_ts, c_datalen = 1, c_data = [b]\<rparr>"

definition sample_full_cpu :: "nat \<Rightarrow> u8 \<Rightarrow> cpu_private" where
  "sample_full_cpu sn b = sample_cpu\<lparr>
     Buffer := header_bytes sn sample_ts 1 1 @ [0, 0, b] @ replicate 39 0, pos_P := 25, Free := 39\<rparr>"

definition sample_full :: open_capture where
  "sample_full = sample_open\<lparr>CpuData := [sample_full_cpu 0 7, sample_full_cpu 1 8], WriterSN := 2\<rparr>"

definition sample_abs :: capture_abs where
  "sample_abs = \<lparr>queue = [(0, sample_packet 0 7), (1, sample_packet 1 8)], waiting = (\<lambda>_. None)\<rparr>"

definition sample_read :: "nat \<Rightarrow> read_env" where
  "sample_read n = \<lparr>open_ok = True, binding_ok = True, DumpFileHandle = False,
     IMMEDIATE_timeout = True, UserBuffer = Some (replicate n 0), read_time = sample_ts,
     DumpOffset = 0\<rparr>"

lemma sample_rel: "cap_rel sample_open empty_abs"
  by (rule cap_rel_empty)
     (auto simp: sample_open_def sample_cpu_def intro!: cpu_inv_empty)

lemma packet_laid_one:
  assumes "length (t :: u8 list) = 39"
  shows "packet_laid 64 (header_bytes sn sample_ts 1 1 @ [0, 0, b] @ t) 0 (sample_packet sn b)"
proof -
  let ?buf = "header_bytes sn sample_ts 1 1 @ [0, 0, b] @ t"
  have "ring_get ?buf 0 22 = take 22 ?buf"
    using chunk_ring [of 0 22 ?buf] assms by (simp add: chunk_def)
  moreover have "ring_get ?buf 24 1 = [?buf ! 24]"
    using assms by (simp add: ring_get_def)
  moreover have "?buf ! 24 = b"
    by (simp add: nth_append)
  ultimately show ?thesis by (simp add: packet_laid_def sample_packet_def)
qed

lemma sample_full_cpu_inv: "cpu_inv 64 (sample_full_cpu sn b) [sample_packet sn b]"
  using packet_laid_one [of "replicate 39 0" sn b]
  by (simp add: cpu_inv_def sample_full_cpu_def sample_cpu_def span_def data_end_def next_pos_def)
     (simp add: sample_packet_def)

lemma sample_full_rel: "cap_rel sample_full sample_abs"
proof -
  have sn: "numbered 0 (queue sample_abs)"
    by (simp add: numbered_def sample_abs_def sample_packet_def upt_rec add32_def)
  have "transfer_state 64 (sample_full_cpu sn b) None" for sn b
    by (simp add: transfer_state_def sample_full_cpu_def sample_cpu_def)
  moreover have "cpu_queue (queue sample_abs) 0 = [sample_packet 0 7]"
    "cpu_queue (queue sample_abs) 1 = [sample_packet 1 8]"
    by (simp_all add: cpu_queue_def sample_abs_def)
  ultimately have "transfer_state 64 ([sample_full_cpu 0 7, sample_full_cpu 1 8] ! i) None \<and>
      cpu_inv 64 ([sample_full_cpu 0 7, sample_full_cpu 1 8] ! i) (cpu_queue (queue sample_abs) i)"
    if "i < 2" for i
    using that sample_full_cpu_inv [of 0 7] sample_full_cpu_inv [of 1 8]
    by (auto simp: less_2_cases_iff)
  moreover have "WriterSN sample_full = add32 0 (length (queue sample_abs))"
    by (simp add: sample_full_def sample_abs_def)
  ultimately show ?thesis
    using sn by (simp add: cap_rel_def sample_full_def sample_open_def sample_abs_def)
qed

section \<open>The tap\<close>

text \<open>
  C9: One call of the tap on a CPU whose lock is free never writes outside the buffer, and does
  to the queue of packets exactly what the verdict says: nothing, append the packet with the
  snapshot of its bytes, the time, its length and the next serial number, or open a transfer.
\<close>

theorem NPF_tap_refines:
  assumes "cap_rel opn A" and "cpu < length (CpuData opn)" and "waiting A cpu = None"
    and "tap_filter call opn ind = Inr fres"
    and "total_size ind + 24 < 4294967296" and "length (in_hand ind) < 4294967296"
  shows "\<exists>opn'. NPF_tap call opn cpu ind env = Inr opn' \<and>
    cap_rel opn' (abs_tap cpu (tapped opn (total_size ind) (now env)) (total_size ind)
      (tap_verdict opn cpu ind env fres) A)"
  using NPF_tap_verdict [OF assms, of env] by blast

lemma sample_tap_hyps:
  "0 < length (CpuData sample_open)" "waiting empty_abs 0 = None"
  "tap_filter no_call sample_open sample_ind = Inr (- 1)"
  "total_size sample_ind + 24 < 4294967296" "length (in_hand sample_ind) < 4294967296"
  by (simp_all add: sample_open_def empty_abs_def tap_filter_def sample_ind_def total_size_def
      bpf_filter_def in_hand_def add32_def)

lemma sample_verdict:
  "tap_verdict sample_open 0 sample_ind (sample_env False) (- 1) = Stored (replicate 14 1 @ [2, 3, 4, 5])"
  "tap_verdict sample_open 0 sample_ind (sample_env True) (- 1) = Waiting (replicate 14 1 @ [2, 3]) 2"
proof -
  have n: "snap_length (- 1) sample_ind = 18" "in_hand sample_ind = replicate 14 1 @ [2, 3]"
    by (simp_all add: snap_length_def total_size_def sample_ind_def in_hand_def add32_def)
  have "mdls_ok sample_open 0 sample_ind (sample_env b) 18" for b
    by (simp add: mdls_ok_def n sample_open_def sample_cpu_def sample_env_def)
  moreover have "landed_bytes sample_open 0 sample_ind (sample_env False) 18 = [4, 5]"
    by (simp add: landed_bytes_def landed_full n sample_env_def)
  ultimately show
    "tap_verdict sample_open 0 sample_ind (sample_env False) (- 1) = Stored (replicate 14 1 @ [2, 3, 4, 5])"
    "tap_verdict sample_open 0 sample_ind (sample_env True) (- 1) = Waiting (replicate 14 1 @ [2, 3]) 2"
    by (simp_all add: tap_verdict_def store_verdict_def n)
       (simp_all add: sample_open_def sample_cpu_def sample_env_def has_mode_def dump_full_def)
qed

lemma NPF_tap_refines_witness:
  "\<exists>opn'. NPF_tap no_call sample_open 0 sample_ind (sample_env False) = Inr opn' \<and>
    cap_rel opn' \<lparr>queue = [(0, \<lparr>c_sn = 0, c_ts = sample_ts, c_datalen = 18,
      c_data = replicate 14 1 @ [2, 3, 4, 5]\<rparr>)], waiting = (\<lambda>_. None)\<rparr>"
proof -
  have "abs_tap 0 (tapped sample_open (total_size sample_ind) (now (sample_env False)))
      (total_size sample_ind) (Stored (replicate 14 1 @ [2, 3, 4, 5])) empty_abs =
    \<lparr>queue = [(0, \<lparr>c_sn = 0, c_ts = sample_ts, c_datalen = 18,
      c_data = replicate 14 1 @ [2, 3, 4, 5]\<rparr>)], waiting = (\<lambda>_. None)\<rparr>"
    by (simp add: abs_tap_def tapped_def empty_abs_def sample_open_def sample_ind_def total_size_def
        sample_env_def add32_def)
  with NPF_tap_refines [OF sample_rel sample_tap_hyps, of "sample_env False"] show ?thesis
    by (simp only: sample_verdict)
qed

text \<open>
  The counters tell what happened to every packet: the tap adds one to Received, one to
  Accepted exactly when it stored the packet and one to Dropped exactly when it lost it, and
  leaves the other CPUs alone.
\<close>

theorem NPF_tap_counts:
  fixes env :: ndis_env
  assumes "cap_rel opn A" and "cpu < length (CpuData opn)" and "waiting A cpu = None"
    and "tap_filter call opn ind = Inr fres"
    and "total_size ind + 24 < 4294967296" and "length (in_hand ind) < 4294967296"
  defines "v \<equiv> tap_verdict opn cpu ind env fres"
  shows "\<exists>opn'. NPF_tap call opn cpu ind env = Inr opn' \<and>
    Received (CpuData opn' ! cpu) = add32 (Received (CpuData opn ! cpu)) 1 \<and>
    Accepted (CpuData opn' ! cpu) = (if stores v then add32 (Accepted (CpuData opn ! cpu)) 1
      else Accepted (CpuData opn ! cpu)) \<and>
    Dropped (CpuData opn' ! cpu) = (if v = Lost then add32 (Dropped (CpuData opn ! cpu)) 1
      else Dropped (CpuData opn ! cpu)) \<and>
    (\<forall>i. i \<noteq> cpu \<longrightarrow> CpuData opn' ! i = CpuData opn ! i)"
  using NPF_tap_verdict [OF assms(1-6), of env] assms(2)
  by (auto simp: counted_def received_def v_def Let_def)

lemma NPF_tap_counts_witness:
  "\<exists>opn'. NPF_tap no_call sample_open 0 sample_ind (sample_env False) = Inr opn' \<and>
    Received (CpuData opn' ! 0) = 1 \<and> Accepted (CpuData opn' ! 0) = 1 \<and>
    Dropped (CpuData opn' ! 0) = 0 \<and> CpuData opn' ! 1 = sample_cpu"
proof -
  have "\<exists>opn'. NPF_tap no_call sample_open 0 sample_ind (sample_env False) = Inr opn' \<and>
      Received (CpuData opn' ! 0) = add32 (Received (CpuData sample_open ! 0)) 1 \<and>
      Accepted (CpuData opn' ! 0) = add32 (Accepted (CpuData sample_open ! 0)) 1 \<and>
      Dropped (CpuData opn' ! 0) = Dropped (CpuData sample_open ! 0) \<and>
      (\<forall>i. i \<noteq> 0 \<longrightarrow> CpuData opn' ! i = CpuData sample_open ! i)"
    using NPF_tap_counts [OF sample_rel sample_tap_hyps, of "sample_env False"]
    by (simp only: sample_verdict stores_def verdict.case verdict.simps if_True if_False)
  moreover have "CpuData sample_open ! 0 = sample_cpu" "CpuData sample_open ! 1 = sample_cpu"
    by (simp_all add: sample_open_def)
  moreover have "Received sample_cpu = 0" "Accepted sample_cpu = 0" "Dropped sample_cpu = 0"
    by (simp_all add: sample_cpu_def)
  ultimately show ?thesis by (auto simp: add32_def)
qed

text \<open>
  The completion of a pending transfer publishes the packet: the bytes copied before it
  followed by the bytes NDIS left in the buffer, under the serial number of the moment, counts it and
  releases the CPU.
\<close>

theorem transfer_completes:
  assumes "cap_rel opn A" and "cpu < length (CpuData opn)" and "Size opn \<noteq> 0"
    and "waiting A cpu = Some (pre, missing, dl)"
  shows "\<exists>opn'. NPF_TransferDataComplete opn cpu data ts = Inr opn' \<and>
    cap_rel opn' (A\<lparr>queue := queue A @ [(cpu, tapped opn dl ts (pre @ completed_bytes opn cpu pre missing data))],
      waiting := (waiting A)(cpu := None)\<rparr>) \<and>
    Accepted (CpuData opn' ! cpu) = add32 (Accepted (CpuData opn ! cpu)) 1"
  using transfer_complete_verdict [OF assms, of data ts] assms(4) by (auto simp: abs_complete_def)

lemma sample_waits:
  "\<exists>opn. NPF_tap no_call sample_open 0 sample_ind (sample_env True) = Inr opn \<and>
    cap_rel opn \<lparr>queue = [], waiting = (\<lambda>_. None)(0 \<mapsto> (replicate 14 1 @ [2, 3], 2, 18))\<rparr> \<and>
    length (CpuData opn) = 2 \<and> Size opn = 64 \<and> WriterSN opn = 0"
proof -
  have "abs_tap 0 (tapped sample_open (total_size sample_ind) (now (sample_env True)))
      (total_size sample_ind) (Waiting (replicate 14 1 @ [2, 3]) 2) empty_abs =
    \<lparr>queue = [], waiting = (\<lambda>_. None)(0 \<mapsto> (replicate 14 1 @ [2, 3], 2, 18))\<rparr>"
    by (simp add: abs_tap_def empty_abs_def sample_ind_def total_size_def add32_def)
  with NPF_tap_verdict [OF sample_rel sample_tap_hyps, of "sample_env True"] obtain opn where
    run: "NPF_tap no_call sample_open 0 sample_ind (sample_env True) = Inr opn"
    and rel: "cap_rel opn \<lparr>queue = [], waiting = (\<lambda>_. None)(0 \<mapsto> (replicate 14 1 @ [2, 3], 2, 18))\<rparr>"
    and cnt: "counted (received sample_open 0) 0 (Waiting (replicate 14 1 @ [2, 3]) 2) opn"
    by (auto simp: sample_verdict)
  from cnt have "length (CpuData opn) = 2" "Size opn = 64" "ReaderSN opn = 0"
    by (simp_all add: counted_def same_setup_def received_def sample_open_def Let_def)
  with run rel WriterSN_queue [OF rel] show ?thesis by (auto simp: add32_def)
qed

lemma transfer_completes_witness:
  "\<exists>opn opn'. NPF_tap no_call sample_open 0 sample_ind (sample_env True) = Inr opn \<and>
    NPF_TransferDataComplete opn 0 [4, 5] sample_ts = Inr opn' \<and>
    cap_rel opn' \<lparr>queue = [(0, \<lparr>c_sn = 0, c_ts = sample_ts, c_datalen = 18,
      c_data = (replicate 14 1 @ [2, 3]) @ [4, 5]\<rparr>)], waiting = (\<lambda>_. None)\<rparr>"
proof -
  from sample_waits obtain opn where
    run: "NPF_tap no_call sample_open 0 sample_ind (sample_env True) = Inr opn"
    and rel: "cap_rel opn \<lparr>queue = [], waiting = (\<lambda>_. None)(0 \<mapsto> (replicate 14 1 @ [2, 3], 2, 18))\<rparr>"
    and opn: "length (CpuData opn) = 2" "Size opn = 64" "WriterSN opn = 0"
    by blast
  have "0 < length (CpuData opn)" "Size opn \<noteq> 0" using opn by simp_all
  from transfer_completes [OF rel this, of "replicate 14 1 @ [2, 3]" 2 18 "[4, 5]" sample_ts] opn(3)
  show ?thesis
    by (auto simp: run tapped_def fun_upd_idem completed_bytes_def landed_full)
qed

section \<open>The read\<close>

text \<open>
  C10: A capturing read into a user buffer whose length is a multiple of four terminates within
  \<open>fuel_bound\<close> rounds, stays inside the buffer, and moves packets from the front of the queue to
  the buffer for as long as the next one fits; Information is the length of their records.
\<close>

theorem NPF_Read_delivers:
  assumes "open_ok env" and "binding_ok env" and "Size opn \<noteq> 0" and "\<not> has_mode opn MODE_DUMP"
    and "mode (copy_state during opn env) = MODE_CAPT"
    and "cap_rel (copy_state during opn env) A" and "Size (copy_state during opn env) \<noteq> 0"
    and "CpuData (copy_state during opn env) \<noteq> []"
    and "UserBuffer env = Some buf" and "length buf < 4294967296" and "4 dvd length buf"
  defines "m \<equiv> taken (length buf) (map snd (queue A))"
  shows "\<exists>opn' u. NPF_Read (fuel_bound (copy_state during opn env)) during opn env =
      Some (Some (opn', \<lparr>status = STATUS_SUCCESS,
        Information = records_length (map snd (take m (queue A))), user = Some u\<rparr>)) \<and>
    cap_rel opn' (A\<lparr>queue := drop m (queue A)\<rparr>) \<and> length u = length buf \<and>
    records_length (map snd (take m (queue A))) \<le> length buf \<and>
    records_at u 0 (map snd (take m (queue A)))"
  unfolding NPF_Read_copies [OF assms(1-5)]
  using read_packets_takes [OF assms(6-11) fuel_bound_enough [OF assms(6)]]
  unfolding m_def by blast

lemma sample_read_hyps:
  "open_ok (sample_read n)" "binding_ok (sample_read n)" "Size sample_full \<noteq> 0"
  "\<not> has_mode sample_full MODE_DUMP" "mode (copy_state id sample_full (sample_read n)) = MODE_CAPT"
  "cap_rel (copy_state id sample_full (sample_read n)) sample_abs"
  "Size (copy_state id sample_full (sample_read n)) \<noteq> 0"
  "CpuData (copy_state id sample_full (sample_read n)) \<noteq> []"
  "UserBuffer (sample_read n) = Some (replicate n 0)"
  using sample_full_rel cap_rel_clear [OF sample_full_rel]
  by (simp_all add: sample_read_def copy_state_def clear_event_def sample_full_def sample_open_def
      has_mode_def)

lemma sample_taken: "taken 48 (map snd (queue sample_abs)) = 2"
  by (simp add: sample_abs_def sample_packet_def record_length_def)

lemma NPF_Read_delivers_witness:
  "\<exists>opn' u fuel. NPF_Read fuel id sample_full (sample_read 48) =
      Some (Some (opn', \<lparr>status = STATUS_SUCCESS, Information = 48, user = Some u\<rparr>)) \<and>
    cap_rel opn' empty_abs \<and> records_at u 0 [sample_packet 0 7, sample_packet 1 8]"
proof -
  have "records_length (map snd (take 2 (queue sample_abs))) = 48"
    "map snd (take 2 (queue sample_abs)) = [sample_packet 0 7, sample_packet 1 8]"
    "sample_abs\<lparr>queue := drop 2 (queue sample_abs)\<rparr> = empty_abs"
    by (simp_all add: sample_abs_def sample_packet_def records_length_def record_length_def empty_abs_def)
  moreover have "length (replicate 48 (0 :: u8)) = 48" "48 < (4294967296 :: nat)" "4 dvd (48 :: nat)"
    by simp_all
  ultimately show ?thesis
    using NPF_Read_delivers [OF sample_read_hyps, of 48] by (simp only: sample_taken) blast
qed

text \<open>
  C11: What the application decodes is what the driver had queued: the loop of \<open>PrintPackets\<close>
  over the buffer and the length a read returns yields, packet by packet, the length on the wire
  and the captured bytes of the front of the queue.
\<close>

theorem read_print_roundtrip:
  assumes "open_ok env" and "binding_ok env" and "Size opn \<noteq> 0" and "\<not> has_mode opn MODE_DUMP"
    and "mode (copy_state during opn env) = MODE_CAPT"
    and "cap_rel (copy_state during opn env) A" and "Size (copy_state during opn env) \<noteq> 0"
    and "CpuData (copy_state during opn env) \<noteq> []"
    and "UserBuffer env = Some buf" and "length buf < 4294967296" and "4 dvd length buf"
  defines "m \<equiv> taken (length buf) (map snd (queue A))"
  shows "\<exists>opn' n u. NPF_Read (fuel_bound (copy_state during opn env)) during opn env =
      Some (Some (opn', \<lparr>status = STATUS_SUCCESS, Information = n, user = Some u\<rparr>)) \<and>
    PrintPackets (m + 1) u n 0 = Some (Some (map (printed \<circ> snd) (take m (queue A))))"
proof -
  from read_packets_takes [OF assms(6-11) fuel_bound_enough [OF assms(6)]]
  obtain opn' u where run: "read_packets (fuel_bound (copy_state during opn env)) (copy_state during opn env) env =
      Some (Some (opn', \<lparr>status = STATUS_SUCCESS,
        Information = records_length (map snd (take m (queue A))), user = Some u\<rparr>))"
    and u: "length u = length buf" "records_length (map snd (take m (queue A))) \<le> length buf"
      "records_at u 0 (map snd (take m (queue A)))"
    unfolding m_def by blast
  have "PrintPackets (m + 1) u (0 + records_length (map snd (take m (queue A)))) 0 =
      Some (Some (map printed (map snd (take m (queue A)))))"
    by (rule PrintPackets_records) (use u assms(10) in simp_all)
  then show ?thesis
    unfolding NPF_Read_copies [OF assms(1-5)] run by auto
qed

lemma read_print_roundtrip_witness:
  "\<exists>opn' n u fuel. NPF_Read fuel id sample_full (sample_read 48) =
      Some (Some (opn', \<lparr>status = STATUS_SUCCESS, Information = n, user = Some u\<rparr>)) \<and>
    PrintPackets 3 u n 0 = Some (Some [(1, [7]), (1, [8])])"
proof -
  have "map (printed \<circ> snd) (take 2 (queue sample_abs)) = [(1, [7]), (1, [8])]"
    by (simp add: sample_abs_def sample_packet_def printed_def)
  moreover have "length (replicate 48 (0 :: u8)) = 48" "48 < (4294967296 :: nat)" "4 dvd (48 :: nat)"
    "2 + 1 = (3 :: nat)"
    by simp_all
  ultimately show ?thesis
    using read_print_roundtrip [OF sample_read_hyps, of 48] by (simp only: sample_taken) blast
qed

text \<open>
  With a length that is not a multiple of four the read can write past the user buffer: if
  the first packet fits but the padding behind it does not, the remaining length wraps around, and
  the next packet is copied behind the end of the buffer.
\<close>

theorem read_overruns_user_buffer:
  assumes "open_ok env" and "binding_ok env" and "Size opn \<noteq> 0" and "\<not> has_mode opn MODE_DUMP"
    and "mode (copy_state during opn env) = MODE_CAPT"
    and "cap_rel (copy_state during opn env) A" and "Size (copy_state during opn env) \<noteq> 0"
    and "queue A = p # p' # G" and "UserBuffer env = Some buf" and "length buf + 4 \<le> 4294967296"
    and "length (c_data (snd p)) + SIZEOF_bpf_hdr \<le> length buf"
    and "length buf < record_length (length (c_data (snd p)))"
    and "2 * length (CpuData (copy_state during opn env)) \<le> fuel"
  shows "NPF_Read fuel during opn env = Some None"
  unfolding NPF_Read_copies [OF assms(1-5)] by (rule read_packets_overruns [OF assms(6-13)])

lemma read_overruns_user_buffer_witness:
  "NPF_Read 4 id sample_full (sample_read 21) = Some None"
proof (rule read_overruns_user_buffer [OF sample_read_hyps(1-7) _ sample_read_hyps(9)])
  show "queue sample_abs = (0, sample_packet 0 7) # (1, sample_packet 1 8) # []"
    by (simp add: sample_abs_def)
  show "2 * length (CpuData (copy_state id sample_full (sample_read 21))) \<le> 4"
    by (simp add: copy_state_def clear_event_def sample_full_def sample_open_def)
qed (simp_all add: sample_packet_def record_length_def)

section \<open>The capture as a whole\<close>

text \<open>
  C8: Take any interleaving of taps of the CPUs, completions of transfers and reads of the
  application in which a CPU does not tap while a transfer still holds its buffer, every filter
  run returns, a completion belongs to a transfer under way, every read brings a buffer whose
  length is a multiple of four, and no length reaches \<open>2 ^ 32\<close> (\<open>event_ok\<close>). Then no call faults
  and the capture is a first-in first-out queue: the user buffers together hold a prefix of the
  packets stored so far, in the order of their consecutive serial numbers and without gaps, the
  rest is still queued, and every stored packet is one that NDIS indicated. What happens outside
  these conditions is stated by \<open>pending_transfer_blocks\<close> and \<open>read_overruns_user_buffer\<close>.
\<close>

theorem capture_fifo:
  assumes "cap_rel opn empty_abs" and "run_ok (event_ok call) (capture_step call) es opn"
  shows "\<exists>opn' outs ps A'. run_steps (capture_step call) es opn = Inr (opn', outs) \<and>
    cap_rel opn' A' \<and> list_all2 delivers outs ps \<and>
    all_delivered ps @ map snd (queue A') = map snd (all_stored ps) \<and>
    numbered (WriterSN opn) (all_stored ps) \<and> list_all (indicated es) (all_stored ps)"
  using assms by (rule capture_runs_empty)

lemma capture_fifo_witness:
  "\<exists>opn' outs ps A'. run_steps (capture_step no_call)
      [Tap 0 sample_ind (sample_env False), Read (sample_read 40)] sample_open = Inr (opn', outs) \<and>
    cap_rel opn' A' \<and> list_all2 delivers outs ps \<and>
    all_delivered ps @ map snd (queue A') = map snd (all_stored ps)"
proof -
  let ?es = "[Tap 0 sample_ind (sample_env False), Read (sample_read 40)]"
  have "event_ok no_call (Tap 0 sample_ind (sample_env False)) sample_open"
    using sample_tap_hyps
    by (simp add: sample_open_def sample_cpu_def)
  moreover obtain opn where "NPF_tap no_call sample_open 0 sample_ind (sample_env False) = Inr opn"
    and "counted (received sample_open 0) 0 (Stored (replicate 14 1 @ [2, 3, 4, 5])) opn"
    using NPF_tap_verdict [OF sample_rel sample_tap_hyps, of "sample_env False"] by (auto simp: sample_verdict)
  moreover from this have "length (CpuData opn) = 2" "Size opn = 64"
    by (simp_all add: counted_def same_setup_def received_def sample_open_def Let_def)
  then have "event_ok no_call (Read (sample_read 40)) opn"
    by (auto simp: sample_read_def)
  ultimately have "run_ok (event_ok no_call) (capture_step no_call) ?es sample_open"
    by (simp split: sum.splits)
  from capture_fifo [OF sample_rel this] show ?thesis by blast
qed

section \<open>Emptying the buffers\<close>

text \<open>
  \<open>NPF_ResetBufferContents\<close> empties the queue and clears the counters of every CPU, from any
  state in which no transfer is pending.
\<close>

theorem reset_contents:
  assumes "cap_rel opn A" and "\<And>i. i < length (CpuData opn) \<Longrightarrow> waiting A i = None"
  shows "\<exists>opn'. NPF_ResetBufferContents opn = Inr opn' \<and> cap_rel opn' empty_abs \<and>
    Size opn' = Size opn \<and> length (CpuData opn') = length (CpuData opn) \<and>
    list_all (\<lambda>d. Accepted d = 0 \<and> Received d = 0 \<and> Dropped d = 0) (CpuData opn')"
  by (rule reset_empties [OF assms])

lemma reset_contents_witness:
  "\<exists>opn'. NPF_ResetBufferContents sample_full = Inr opn' \<and> cap_rel opn' empty_abs \<and> Size opn' = 64"
  using reset_contents [OF sample_full_rel]
  by (auto simp: sample_abs_def sample_full_def sample_open_def)

text \<open>
  C12: A successful BIOCSETBUFFERSIZE on an instance with no transfer under way gives every CPU
  an empty queue over its own slice of the new block: the buffers of the CPUs all have the size
  of the instance, and put together in the order of the CPUs they are the block from its start,
  so that no two of them overlap and none starts elsewhere. A size with less than one packet
  header per CPU means no buffer.
\<close>

theorem set_buffer_contents:
  assumes "CpuData opn \<noteq> []" and "dim < 4294967296"
    and "\<And>d. d \<in> set (CpuData opn) \<Longrightarrow> \<not> BufferLock d \<and> TransferMdl1 d = None"
    and "\<And>b. alloc dim = Some b \<Longrightarrow> length b = dim"
    and "set_buffer_size alloc dim opn = Inr (Buffer_Set, opn')"
  shows "cap_rel opn' empty_abs \<and>
    Size opn' = (if dim div length (CpuData opn) < 24 then 0 else dim div length (CpuData opn)) \<and>
    length (CpuData opn') = length (CpuData opn) \<and>
    (Size opn' = 0 \<or> (\<exists>block. alloc dim = Some block \<and>
       list_all (\<lambda>d. length (Buffer d) = Size opn') (CpuData opn') \<and>
       concat (map Buffer (CpuData opn')) = take (length (CpuData opn) * Size opn') block))"
proof -
  note empty = set_buffer_empties [OF assms]
  have len: "length (CpuData opn') = length (CpuData opn)"
    using assms(5) by (auto simp: set_buffer_size_def Let_def split: if_splits option.splits)
  have "list_all (\<lambda>d. length (Buffer d) = Size opn') (CpuData opn')" if "Size opn' \<noteq> 0"
    using cap_relD(2) [OF empty(1) _ that] by (auto simp: list_all_length cpu_inv_def)
  with empty len set_buffer_slices [OF assms(5)] show ?thesis
    by (auto simp: not_less split: if_splits)
qed

lemma set_buffer_contents_witness:
  "\<exists>opn'. set_buffer_size (\<lambda>n. Some (map of_nat [0..<n])) 101 sample_full = Inr (Buffer_Set, opn') \<and>
    cap_rel opn' empty_abs \<and> Size opn' = 50 \<and>
    concat (map Buffer (CpuData opn')) = map of_nat [0..<100]"
proof -
  let ?alloc = "\<lambda>n. Some (map of_nat [0..<n])"
  have "\<exists>opn'. set_buffer_size ?alloc 101 sample_full = Inr (Buffer_Set, opn')"
    by (simp add: set_buffer_size_def sample_full_def sample_open_def sample_full_cpu_def
        sample_cpu_def Let_def)
  then obtain opn' where run: "set_buffer_size ?alloc 101 sample_full = Inr (Buffer_Set, opn')"
    by blast
  have n: "length (CpuData sample_full) = 2" by (simp add: sample_full_def)
  have free: "\<And>d. d \<in> set (CpuData sample_full) \<Longrightarrow> \<not> BufferLock d \<and> TransferMdl1 d = None"
      "CpuData sample_full \<noteq> []"
    by (auto simp: sample_full_def sample_open_def sample_full_cpu_def sample_cpu_def)
  from set_buffer_contents [OF free(2) _ free(1) _ run] n run show ?thesis
    by (auto simp: take_map take_upt)
qed

section \<open>Transfers that go wrong\<close>

text \<open>
  The result of NdisTransferData is not looked at: a transfer that fails at once and delivers
  nothing is counted and published as a packet, and its last bytes are whatever the kernel buffer
  held before.
\<close>

theorem failed_transfer_is_published:
  assumes "cap_rel opn A" and "cpu < length (CpuData opn)" and "waiting A cpu = None"
    and "tap_filter call opn ind = Inr fres"
    and "total_size ind + 24 < 4294967296" and "length (in_hand ind) < 4294967296"
    and "tap_verdict opn cpu ind env fres \<noteq> Lost" and "tap_verdict opn cpu ind env fres \<noteq> Ignored"
    and "length (in_hand ind) < snap_length fres ind"
    and "\<not> transfer_pending env" and "transferred env = []"
  shows "\<exists>opn'. NPF_tap call opn cpu ind env = Inr opn' \<and>
    Accepted (CpuData opn' ! cpu) = add32 (Accepted (CpuData opn ! cpu)) 1 \<and>
    cap_rel opn' (A\<lparr>queue := queue A @ [(cpu, tapped opn (total_size ind) (now env) (in_hand ind @
      ring_get (Buffer (CpuData opn ! cpu))
        ((pos_P (CpuData opn ! cpu) + 24 + length (in_hand ind)) mod Size opn)
        (snap_length fres ind - length (in_hand ind))))]\<rparr>)"
proof -
  have v: "tap_verdict opn cpu ind env fres =
      Stored (in_hand ind @ landed_bytes opn cpu ind env (snap_length fres ind))"
    using assms(7-11) by (auto simp: tap_verdict_def store_verdict_def split: if_splits)
  from NPF_tap_verdict [OF assms(1-6), of env] assms(2)
  show ?thesis unfolding v using assms(11)
    by (auto simp: abs_tap_def landed_bytes_def landed_def counted_def stores_def received_def Let_def)
qed

lemma failed_transfer_is_published_witness:
  "\<exists>opn'. NPF_tap no_call sample_open 0 sample_ind ((sample_env False)\<lparr>transferred := []\<rparr>) = Inr opn' \<and>
    cap_rel opn' (empty_abs\<lparr>queue := [(0, \<lparr>c_sn = 0, c_ts = sample_ts, c_datalen = 18,
      c_data = replicate 14 1 @ [2, 3, 0, 0]\<rparr>)]\<rparr>)"
proof -
  let ?env = "(sample_env False)\<lparr>transferred := []\<rparr>"
  have n: "snap_length (- 1) sample_ind = 18" "in_hand sample_ind = replicate 14 1 @ [2, 3]"
    "total_size sample_ind = 18"
    by (simp_all add: snap_length_def total_size_def sample_ind_def in_hand_def add32_def)
  have bytes: "ring_get (replicate 64 0) 40 2 = [0, 0 :: u8]"
    using chunk_ring [of 40 2 "replicate 64 (0 :: u8)"] by (simp add: chunk_def numeral_2_eq_2)
  have "tap_verdict sample_open 0 sample_ind ?env (- 1) =
      Stored (in_hand sample_ind @ landed_bytes sample_open 0 sample_ind ?env 18)"
    by (simp add: tap_verdict_def store_verdict_def mdls_ok_def dump_full_def has_mode_def n)
       (simp add: sample_open_def sample_cpu_def sample_env_def)
  then have "tap_verdict sample_open 0 sample_ind ?env (- 1) \<noteq> Lost"
    "tap_verdict sample_open 0 sample_ind ?env (- 1) \<noteq> Ignored" by simp_all
  from failed_transfer_is_published [OF sample_rel sample_tap_hyps this]
  show ?thesis
    by (simp add: n sample_env_def)
       (auto simp: sample_open_def sample_cpu_def tapped_def bytes empty_abs_def)
qed

text \<open>
  A pending transfer blocks its CPU. The tap takes the buffer lock before it tests whether a
  transfer is pending, and the pending transfer holds the lock; so the test that would drop the
  packet is never reached, and the tap of the next packet the filter accepts waits for the lock.
\<close>

theorem pending_transfer_blocks:
  assumes "cap_rel opn A" and "cpu < length (CpuData opn)" and "waiting A cpu \<noteq> None"
    and "tap_filter call opn ind = Inr fres" and "fres \<noteq> 0" and "Size opn \<noteq> 0"
    and "\<not> has_mode opn MODE_STAT" and "\<not> has_mode opn MODE_DUMP"
  shows "NPF_tap call opn cpu ind env = Inl Lock_Held"
proof -
  have "BufferLock (CpuData opn ! cpu)"
    using lock_free [OF assms(1,2)] assms(3) by auto
  then show ?thesis
    using assms(2,4-8)
    by (simp add: NPF_tap_received tap_accepted_def tap_store_def received_def has_mode_def Let_def)
qed

lemma pending_transfer_blocks_witness:
  "\<exists>opn. NPF_tap no_call sample_open 0 sample_ind (sample_env True) = Inr opn \<and>
    bpfprogram opn = None \<and> NPF_tap no_call opn 0 sample_ind (sample_env False) = Inl Lock_Held"
proof -
  from sample_waits obtain opn where
    run: "NPF_tap no_call sample_open 0 sample_ind (sample_env True) = Inr opn"
    and rel: "cap_rel opn \<lparr>queue = [], waiting = (\<lambda>_. None)(0 \<mapsto> (replicate 14 1 @ [2, 3], 2, 18))\<rparr>"
    and opn: "length (CpuData opn) = 2" "Size opn = 64" "WriterSN opn = 0"
    by blast
  have same: "bpfprogram opn = None" "jit_filter opn = None" "mode opn = MODE_CAPT"
    using tap_keeps_setup [OF run] by (simp_all add: sample_open_def)
  then have "tap_filter no_call opn sample_ind = Inr (- 1)"
    by (simp add: tap_filter_def sample_ind_def bpf_filter_def)
  with pending_transfer_blocks [OF rel, of 0] opn same run show ?thesis
    by (auto simp: has_mode_def)
qed

section \<open>Statistics mode\<close>

text \<open>
  A read in statistics mode never writes outside the user buffer: with less than 36 bytes it
  fails with STATUS_BUFFER_TOO_SMALL and leaves buffer and counters alone, otherwise it returns a
  header for 16 bytes and the two counters, and resets them.
\<close>

theorem read_statistics_bounds:
  assumes "open_ok env" and "binding_ok env" and "Size opn \<noteq> 0" and "mode opn = MODE_STAT"
    and "IMMEDIATE_timeout env" and "Occupation opn = 0" and "UserBuffer env = Some buf"
  shows "\<exists>opn' res u. NPF_Read fuel during opn env = Some (Some (opn', res)) \<and> user res = Some u \<and>
    length u = length buf \<and>
    (if length buf < 36
     then status res = STATUS_BUFFER_TOO_SMALL \<and> u = buf \<and> Npackets opn' = Npackets opn
     else status res = STATUS_SUCCESS \<and> Information res = 36 \<and>
       chunk u 8 10 = header_lengths 16 16 \<and> chunk u 20 16 = le64_bytes (Npackets opn) @ le64_bytes (Nbytes opn) \<and>
       drop 36 u = drop 36 buf \<and> Npackets opn' = 0 \<and> Nbytes opn' = 0)"
proof -
  have len: "length (stat_header False (read_time env) buf) = 20" if "36 \<le> length buf"
    using that by (simp add: stat_header_def)
  have h: "take 10 (drop 8 (stat_header False (read_time env) buf)) = header_lengths 16 16"
    by (simp add: stat_header_def header_lengths_def)
  have c: "length (le64_bytes n) = 8" for n by (simp add: le64_bytes_def)
  have "NPF_Read fuel during opn env = Some (Some (read_statistics (clear_event opn) env))"
    using assms by (simp add: NPF_Read_def has_mode_def clear_event_def)
  then show ?thesis
    using assms(4,7) len h c
    by (simp add: read_statistics_def has_mode_def clear_event_def chunk_def)
qed

lemma read_statistics_bounds_witness:
  "\<exists>opn' res u. NPF_Read 0 id (sample_open\<lparr>mode := MODE_STAT, Npackets := 3, Nbytes := 500\<rparr>)
      (sample_read 40) = Some (Some (opn', res)) \<and> user res = Some u \<and> length u = 40 \<and>
    chunk u 20 16 = le64_bytes 3 @ le64_bytes 500 \<and> Npackets opn' = 0"
  using read_statistics_bounds [of "sample_read 40"
      "sample_open\<lparr>mode := MODE_STAT, Npackets := 3, Nbytes := 500\<rparr>" "replicate 40 0" 0 id]
  by (auto simp: sample_read_def sample_open_def sample_cpu_def Occupation_def)

end
