(* ===== verification/Open_Close.thy ===== *)
theory Open_Close
  imports Prelude
begin

text \<open>
  The life of an open instance (\<open>packetNtx/driver/Openclos.c\<close>): the two use counters, of the
  binding to the adapter and of the instance itself, and the calls that wait for them to reach
  zero. A function that holds its spin lock from beginning to end is one step; a wait loop is a
  step that is repeated, from the point where the lock is taken again. An ASSERT that fails is
  \<open>None\<close>.
\<close>

datatype ADAPTER_BINDING_STATUS = ADAPTER_UNBOUND | ADAPTER_BOUND | ADAPTER_UNBINDING

text \<open>
  \<open>AdapterCloses\<close> counts the calls of NdisCloseAdapter; \<open>Event\<close> is the read event, None where the
  instance has none; \<open>Released\<close> says that the resources of the instance are freed.
\<close>

record open_life =
  AdapterBindingStatus :: ADAPTER_BINDING_STATUS
  AdapterHandleUsageCounter :: nat
  ClosePending :: bool
  NumPendingIrps :: nat
  Event :: "bool option"
  AdapterCloses :: nat
  Released :: bool

section \<open>The binding\<close>

definition NPF_StartUsingBinding :: "open_life \<Rightarrow> bool \<times> open_life" where
  "NPF_StartUsingBinding s =
     (if AdapterBindingStatus s \<noteq> ADAPTER_BOUND then (False, s)
      else (True, s\<lparr>AdapterHandleUsageCounter := AdapterHandleUsageCounter s + 1\<rparr>))"

definition NPF_StopUsingBinding :: "open_life \<Rightarrow> open_life option" where
  "NPF_StopUsingBinding s =
     (if AdapterHandleUsageCounter s > 0 \<and> AdapterBindingStatus s = ADAPTER_BOUND
      then Some (s\<lparr>AdapterHandleUsageCounter := AdapterHandleUsageCounter s - 1\<rparr>)
      else None)"

text \<open>
  \<open>NPF_CloseBinding\<close>: the loop over the users, the loop while another thread unbinds, the call of
  NdisCloseAdapter without the lock, and the last assignment.
\<close>

datatype close_pc = CB_Users | CB_Unbinding | CB_Close | CB_Finish | CB_Done

definition close_check :: "open_life \<Rightarrow> close_pc \<times> open_life" where
  "close_check s =
     (case AdapterBindingStatus s of
        ADAPTER_UNBINDING \<Rightarrow> (CB_Unbinding, s)
      | ADAPTER_UNBOUND \<Rightarrow> (CB_Done, s)
      | ADAPTER_BOUND \<Rightarrow> (CB_Close, s\<lparr>AdapterBindingStatus := ADAPTER_UNBINDING\<rparr>))"

fun NPF_CloseBinding :: "close_pc \<Rightarrow> open_life \<Rightarrow> close_pc \<times> open_life" where
  "NPF_CloseBinding CB_Users s =
     (if AdapterHandleUsageCounter s > 0 then (CB_Users, s) else close_check s)"
| "NPF_CloseBinding CB_Unbinding s = close_check s"
| "NPF_CloseBinding CB_Close s = (CB_Finish, s\<lparr>AdapterCloses := AdapterCloses s + 1\<rparr>)"
| "NPF_CloseBinding CB_Finish s = (CB_Done, s\<lparr>AdapterBindingStatus := ADAPTER_UNBOUND\<rparr>)"
| "NPF_CloseBinding CB_Done s = (CB_Done, s)"

section \<open>The instance\<close>

definition NPF_StartUsingOpenInstance :: "open_life \<Rightarrow> bool \<times> open_life" where
  "NPF_StartUsingOpenInstance s =
     (if ClosePending s then (False, s) else (True, s\<lparr>NumPendingIrps := NumPendingIrps s + 1\<rparr>))"

definition NPF_StopUsingOpenInstance :: "open_life \<Rightarrow> open_life option" where
  "NPF_StopUsingOpenInstance s =
     (if NumPendingIrps s > 0 then Some (s\<lparr>NumPendingIrps := NumPendingIrps s - 1\<rparr>) else None)"

definition set_event :: "open_life \<Rightarrow> open_life" where
  "set_event s = s\<lparr>Event := map_option (\<lambda>_. True) (Event s)\<rparr>"

definition NPF_ReleaseOpenInstanceResources :: "open_life \<Rightarrow> open_life" where
  "NPF_ReleaseOpenInstanceResources s = s\<lparr>Released := True\<rparr>"

text \<open>
  \<open>NPF_Cleanup\<close>: \<open>NPF_CloseOpenInstance\<close> sets ClosePending and waits for the pending requests, then
  the read event is set, the binding is closed and the resources are released.
\<close>

datatype cleanup_pc = CL_Enter | CL_Irps | CL_Event | CL_Binding close_pc | CL_Release | CL_Done

fun NPF_Cleanup :: "cleanup_pc \<Rightarrow> open_life \<Rightarrow> cleanup_pc \<times> open_life" where
  "NPF_Cleanup CL_Enter s =
     (if NumPendingIrps s > 0 then (CL_Irps, s\<lparr>ClosePending := True\<rparr>)
      else (CL_Event, s\<lparr>ClosePending := True\<rparr>))"
| "NPF_Cleanup CL_Irps s = (if NumPendingIrps s > 0 then (CL_Irps, s) else (CL_Event, s))"
| "NPF_Cleanup CL_Event s = (CL_Binding CB_Users, set_event s)"
| "NPF_Cleanup (CL_Binding c) s =
     (if c = CB_Done then (CL_Release, s)
      else (let (c', s') = NPF_CloseBinding c s in (CL_Binding c', s')))"
| "NPF_Cleanup CL_Release s = (CL_Done, NPF_ReleaseOpenInstanceResources s)"
| "NPF_Cleanup CL_Done s = (CL_Done, s)"

text \<open>\<open>NPF_UnbindAdapter\<close>: the event, then the binding. True until the event is set.\<close>

definition NPF_UnbindAdapter :: "bool \<times> close_pc \<Rightarrow> open_life \<Rightarrow> (bool \<times> close_pc) \<times> open_life" where
  "NPF_UnbindAdapter c s =
     (if fst c then ((False, snd c), set_event s)
      else (let (c', s') = NPF_CloseBinding (snd c) s in ((False, c'), s')))"

section \<open>A use counter\<close>

text \<open>
  What the request handlers rely on, for both counters: starting to use succeeds exactly when the
  object is open and then adds one user, stopping takes one away, and a closed object stays
  closed. The ASSERTs hold as long as there are users.
\<close>

locale use_counter =
  fixes valid :: "'s \<Rightarrow> bool" and opened :: "'s \<Rightarrow> bool" and users :: "'s \<Rightarrow> nat"
    and start :: "'s \<Rightarrow> bool \<times> 's" and stop :: "'s \<Rightarrow> 's option"
  assumes start_open: "valid s \<Longrightarrow> opened s \<Longrightarrow>
      \<exists>s'. start s = (True, s') \<and> users s' = users s + 1 \<and> opened s' \<and> valid s'"
    and start_closed: "\<not> opened s \<Longrightarrow> start s = (False, s)"
    and stop_users: "valid s \<Longrightarrow> users s > 0 \<Longrightarrow>
      \<exists>s'. stop s = Some s' \<and> users s' = users s - 1 \<and> opened s' = opened s \<and> valid s'"
begin

lemma start_iff: "valid s \<Longrightarrow> fst (start s) \<longleftrightarrow> opened s"
  using start_open [of s] start_closed [of s] by (cases "opened s") auto

lemma start_users:
  assumes "valid s" and "start s = (ok, s')"
  shows "ok = opened s" and "users s' = users s + (if ok then 1 else 0)" and "opened s' = opened s"
    and "valid s'"
  using assms start_open [of s] start_closed [of s] by (cases "opened s"; auto)+

lemma stop_defined:
  assumes "valid s" and "users s > 0" and "stop s = r"
  shows "\<exists>s'. r = Some s' \<and> users s' = users s - 1 \<and> opened s' = opened s \<and> valid s'"
  using stop_users [OF assms(1,2)] assms(3) by auto

end

definition binding_valid :: "open_life \<Rightarrow> bool" where
  "binding_valid s \<longleftrightarrow> (AdapterHandleUsageCounter s > 0 \<longrightarrow> AdapterBindingStatus s = ADAPTER_BOUND)"

definition bound :: "open_life \<Rightarrow> bool" where
  "bound s \<longleftrightarrow> AdapterBindingStatus s = ADAPTER_BOUND"

interpretation binding: use_counter binding_valid bound AdapterHandleUsageCounter
  NPF_StartUsingBinding NPF_StopUsingBinding
  by unfold_locales
     (auto simp: binding_valid_def bound_def NPF_StartUsingBinding_def NPF_StopUsingBinding_def)

definition not_closing :: "open_life \<Rightarrow> bool" where
  "not_closing s \<longleftrightarrow> \<not> ClosePending s"

interpretation instance_use: use_counter "\<lambda>_. True" not_closing NumPendingIrps
  NPF_StartUsingOpenInstance NPF_StopUsingOpenInstance
  by unfold_locales
     (auto simp: not_closing_def NPF_StartUsingOpenInstance_def NPF_StopUsingOpenInstance_def)

end
