(* ===== verification/Open_Close_Safety.thy ===== *)
theory Open_Close_Safety
  imports Open_Close
begin

text \<open>
  The threads that use and close one open instance: any number of request handlers, of threads in
  \<open>NPF_Cleanup\<close> and of threads in \<open>NPF_UnbindAdapter\<close>, interleaved step by step.
\<close>

section \<open>The threads\<close>

text \<open>
  A request handler starts to use the instance, may use the binding for a while, may wait for the
  read event (\<open>NPF_Read\<close>), and stops.
\<close>

datatype irp_pc = Irp_Idle | Irp_Inside | Irp_Bound | Irp_Waiting

datatype thread = Irp irp_pc | Cleanup cleanup_pc | Unbind "bool \<times> close_pc"

type_synonym life_sys = "open_life \<times> thread list"

text \<open>The steps of thread \<open>i\<close>, the arrival of a packet, and the end of the timeout of a wait.\<close>

datatype life_label = Thread nat | Packet | Timeout nat

inductive life_step :: "life_label \<Rightarrow> life_sys \<Rightarrow> life_sys \<Rightarrow> bool" where
  enter: "\<lbrakk>i < length ths; ths ! i = Irp Irp_Idle; NPF_StartUsingOpenInstance s = (True, s')\<rbrakk> \<Longrightarrow>
    life_step (Thread i) (s, ths) (s', ths[i := Irp Irp_Inside])"
| leave: "\<lbrakk>i < length ths; ths ! i = Irp Irp_Inside; NPF_StopUsingOpenInstance s = Some s'\<rbrakk> \<Longrightarrow>
    life_step (Thread i) (s, ths) (s', ths[i := Irp Irp_Idle])"
| bind: "\<lbrakk>i < length ths; ths ! i = Irp Irp_Inside; NPF_StartUsingBinding s = (True, s')\<rbrakk> \<Longrightarrow>
    life_step (Thread i) (s, ths) (s', ths[i := Irp Irp_Bound])"
| release: "\<lbrakk>i < length ths; ths ! i = Irp Irp_Bound; NPF_StopUsingBinding s = Some s'\<rbrakk> \<Longrightarrow>
    life_step (Thread i) (s, ths) (s', ths[i := Irp Irp_Inside])"
| wait: "\<lbrakk>i < length ths; ths ! i = Irp Irp_Inside; Event s \<noteq> None\<rbrakk> \<Longrightarrow>
    life_step (Thread i) (s, ths) (s, ths[i := Irp Irp_Waiting])"
| wake: "\<lbrakk>i < length ths; ths ! i = Irp Irp_Waiting; Event s = Some True\<rbrakk> \<Longrightarrow>
    life_step (Thread i) (s, ths) (s\<lparr>Event := Some False\<rparr>, ths[i := Irp Irp_Inside])"
| expire: "\<lbrakk>i < length ths; ths ! i = Irp Irp_Waiting\<rbrakk> \<Longrightarrow>
    life_step (Timeout i) (s, ths) (s\<lparr>Event := map_option (\<lambda>_. False) (Event s)\<rparr>, ths[i := Irp Irp_Inside])"
| packet: "life_step Packet (s, ths) (set_event s, ths)"
| cleanup: "\<lbrakk>i < length ths; ths ! i = Cleanup pc; NPF_Cleanup pc s = (pc', s')\<rbrakk> \<Longrightarrow>
    life_step (Thread i) (s, ths) (s', ths[i := Cleanup pc'])"
| unbind: "\<lbrakk>i < length ths; ths ! i = Unbind pc; NPF_UnbindAdapter pc s = (pc', s')\<rbrakk> \<Longrightarrow>
    life_step (Thread i) (s, ths) (s', ths[i := Unbind pc'])"

inductive_cases life_stepE: "life_step l a b"

definition life_start :: "life_sys \<Rightarrow> bool" where
  "life_start a \<longleftrightarrow>
     AdapterBindingStatus (fst a) = ADAPTER_BOUND \<and> AdapterHandleUsageCounter (fst a) = 0 \<and>
     \<not> ClosePending (fst a) \<and> NumPendingIrps (fst a) = 0 \<and> AdapterCloses (fst a) = 0 \<and>
     \<not> Released (fst a) \<and>
     list_all (\<lambda>t. t \<in> {Irp Irp_Idle, Cleanup CL_Enter, Unbind (True, CB_Users)}) (snd a)"

inductive life_reach :: "life_sys \<Rightarrow> bool" where
  life_init: "life_start a \<Longrightarrow> life_reach a"
| life_next: "life_reach a \<Longrightarrow> life_step l a b \<Longrightarrow> life_reach b"

section \<open>The invariant\<close>

fun inside :: "thread \<Rightarrow> bool" where
  "inside (Irp pc) \<longleftrightarrow> pc \<noteq> Irp_Idle"
| "inside _ \<longleftrightarrow> False"

fun uses_binding :: "thread \<Rightarrow> bool" where
  "uses_binding (Irp pc) \<longleftrightarrow> pc = Irp_Bound"
| "uses_binding _ \<longleftrightarrow> False"

fun close_of :: "thread \<Rightarrow> close_pc option" where
  "close_of (Cleanup (CL_Binding c)) = Some c"
| "close_of (Cleanup CL_Release) = Some CB_Done"
| "close_of (Cleanup CL_Done) = Some CB_Done"
| "close_of (Unbind c) = Some (snd c)"
| "close_of _ = None"

definition closing :: "thread \<Rightarrow> bool" where
  "closing t \<longleftrightarrow> close_of t = Some CB_Close \<or> close_of t = Some CB_Finish"

definition will_close :: "thread \<Rightarrow> bool" where
  "will_close t \<longleftrightarrow> close_of t = Some CB_Close"

definition unbound :: "open_life \<Rightarrow> bool" where
  "unbound s \<longleftrightarrow> AdapterBindingStatus s = ADAPTER_UNBOUND"

definition unbinding :: "open_life \<Rightarrow> bool" where
  "unbinding s \<longleftrightarrow> AdapterBindingStatus s = ADAPTER_UNBINDING"

lemmas binding_status = bound_def unbound_def unbinding_def

text \<open>What holds while a thread is where it is.\<close>

definition close_ok :: "open_life \<Rightarrow> close_pc option \<Rightarrow> bool" where
  "close_ok s c \<longleftrightarrow> (c = Some CB_Unbinding \<longrightarrow> \<not> bound s) \<and> (c = Some CB_Done \<longrightarrow> unbound s)"

fun thread_ok :: "open_life \<Rightarrow> thread \<Rightarrow> bool" where
  "thread_ok s (Irp pc) \<longleftrightarrow> (pc = Irp_Waiting \<longrightarrow> Event s \<noteq> None)"
| "thread_ok s (Cleanup pc) \<longleftrightarrow>
     (pc \<noteq> CL_Enter \<longrightarrow> ClosePending s) \<and>
     (pc \<noteq> CL_Enter \<and> pc \<noteq> CL_Irps \<longrightarrow> NumPendingIrps s = 0) \<and> close_ok s (close_of (Cleanup pc))"
| "thread_ok s (Unbind pc) \<longleftrightarrow> (fst pc \<longrightarrow> snd pc = CB_Users) \<and> close_ok s (Some (snd pc))"

definition life_inv :: "life_sys \<Rightarrow> bool" where
  "life_inv a \<longleftrightarrow>
     cnt inside (snd a) = NumPendingIrps (fst a) \<and>
     cnt uses_binding (snd a) = AdapterHandleUsageCounter (fst a) \<and>
     (\<not> bound (fst a) \<longrightarrow> AdapterHandleUsageCounter (fst a) = 0) \<and>
     cnt closing (snd a) = of_bool (unbinding (fst a)) \<and>
     AdapterCloses (fst a) + cnt will_close (snd a) = of_bool (\<not> bound (fst a)) \<and>
     (Released (fst a) \<longrightarrow> ClosePending (fst a) \<and> NumPendingIrps (fst a) = 0 \<and> unbound (fst a)) \<and>
     list_all (thread_ok (fst a)) (snd a)"

lemma life_inv_start:
  assumes "life_start a"
  shows "life_inv a"
proof -
  have start: "t = Irp Irp_Idle \<or> t = Cleanup CL_Enter \<or> t = Unbind (True, CB_Users)"
    if "t \<in> set (snd a)" for t
    using assms that unfolding life_start_def list_all_iff by blast
  have "cnt P (snd a) = 0"
    if "\<not> P (Irp Irp_Idle)" "\<not> P (Cleanup CL_Enter)" "\<not> P (Unbind (True, CB_Users))" for P
    using start that unfolding cnt_0 list_all_iff by blast
  then have "cnt inside (snd a) = 0" "cnt uses_binding (snd a) = 0" "cnt closing (snd a) = 0"
    "cnt will_close (snd a) = 0" by (simp_all add: closing_def will_close_def)
  moreover have "list_all (thread_ok (fst a)) (snd a)"
    unfolding list_all_iff by (auto dest!: start simp: close_ok_def)
  ultimately show ?thesis
    using assms by (simp add: life_inv_def life_start_def binding_status)
qed

section \<open>Its preservation\<close>

text \<open>What a step may do to the instance as far as the other threads are concerned.\<close>

definition life_mono :: "open_life \<Rightarrow> open_life \<Rightarrow> bool" where
  "life_mono s s' \<longleftrightarrow>
     (ClosePending s \<longrightarrow> ClosePending s' \<and> (NumPendingIrps s = 0 \<longrightarrow> NumPendingIrps s' = 0)) \<and>
     (\<not> bound s \<longrightarrow> \<not> bound s') \<and> (unbound s \<longrightarrow> unbound s') \<and> (Event s' = None \<longleftrightarrow> Event s = None)"

lemma thread_ok_mono: "life_mono s s' \<Longrightarrow> thread_ok s t \<Longrightarrow> thread_ok s' t"
  by (cases t) (auto simp: life_mono_def close_ok_def)

text \<open>The counts of the invariant before and after thread \<open>t\<close> became \<open>t'\<close>.\<close>

definition balanced :: "open_life \<Rightarrow> thread \<Rightarrow> open_life \<Rightarrow> thread \<Rightarrow> bool" where
  "balanced s t s' t' \<longleftrightarrow>
     NumPendingIrps s' + of_bool (inside t) = NumPendingIrps s + of_bool (inside t') \<and>
     AdapterHandleUsageCounter s' + of_bool (uses_binding t) =
       AdapterHandleUsageCounter s + of_bool (uses_binding t') \<and>
     of_bool (unbinding s') + of_bool (closing t) = (of_bool (unbinding s) + of_bool (closing t') :: nat) \<and>
     AdapterCloses s' + of_bool (will_close t') + of_bool (\<not> bound s) =
       AdapterCloses s + of_bool (will_close t) + of_bool (\<not> bound s')"

lemma life_inv_update:
  assumes inv: "life_inv (s, ths)" and i: "i < length ths" and mono: "life_mono s s'"
    and bal: "balanced s (ths ! i) s' t'" and ok: "thread_ok s' t'"
    and users: "\<not> bound s' \<Longrightarrow> AdapterHandleUsageCounter s' = 0"
    and rel: "Released s' \<Longrightarrow> Released s \<or> ClosePending s' \<and> NumPendingIrps s' = 0 \<and> unbound s'"
  shows "life_inv (s', ths[i := t'])"
proof -
  note upd = cnt_update [OF i, of inside t'] cnt_update [OF i, of uses_binding t']
    cnt_update [OF i, of closing t'] cnt_update [OF i, of will_close t']
  have cs: "cnt inside ths = NumPendingIrps s" "cnt uses_binding ths = AdapterHandleUsageCounter s"
    "cnt closing ths = of_bool (unbinding s)"
    "AdapterCloses s + cnt will_close ths = of_bool (\<not> bound s)"
    and relS: "Released s \<longrightarrow> ClosePending s \<and> NumPendingIrps s = 0 \<and> unbound s"
    and oks: "list_all (thread_ok s) ths"
    using inv by (simp_all add: life_inv_def)
  have "cnt inside (ths[i := t']) = NumPendingIrps s'"
    using upd(1) bal cs(1) by (simp add: balanced_def)
  moreover have "cnt uses_binding (ths[i := t']) = AdapterHandleUsageCounter s'"
    using upd(2) bal cs(2) by (simp add: balanced_def)
  moreover have "cnt closing (ths[i := t']) = of_bool (unbinding s')"
    using upd(3) bal cs(3) unfolding balanced_def by linarith
  moreover have "AdapterCloses s' + cnt will_close (ths[i := t']) = of_bool (\<not> bound s')"
    using upd(4) bal cs(4) unfolding balanced_def by linarith
  moreover have "Released s' \<longrightarrow> ClosePending s' \<and> NumPendingIrps s' = 0 \<and> unbound s'"
    using rel relS mono by (auto simp: life_mono_def)
  moreover have "list_all (thread_ok s') (ths[i := t'])"
    using oks ok thread_ok_mono [OF mono]
    by (intro list_all_update) (auto simp: list_all_iff)
  ultimately show ?thesis using users by (simp add: life_inv_def)
qed

text \<open>What the invariant says about one thread.\<close>

lemma life_invD:
  assumes "life_inv (s, ths)" and "i < length ths"
  shows "thread_ok s (ths ! i)" and "inside (ths ! i) \<Longrightarrow> 0 < NumPendingIrps s"
    and "uses_binding (ths ! i) \<Longrightarrow> 0 < AdapterHandleUsageCounter s \<and> bound s"
    and "closing (ths ! i) \<Longrightarrow> unbinding s" and "\<not> bound s \<Longrightarrow> AdapterHandleUsageCounter s = 0"
  using assms cnt_pos [OF assms(2), of inside] cnt_pos [OF assms(2), of uses_binding]
    cnt_pos [OF assms(2), of closing]
  by (auto simp: life_inv_def list_all_iff)

text \<open>A step of \<open>NPF_CloseBinding\<close>, whoever calls it.\<close>

lemma close_step:
  assumes step: "NPF_CloseBinding c s = (c', s')" and ok: "close_ok s (Some c)"
    and own: "c = CB_Close \<or> c = CB_Finish \<Longrightarrow> unbinding s"
    and users: "\<not> bound s \<Longrightarrow> AdapterHandleUsageCounter s = 0"
  shows "life_mono s s'" and "close_ok s' (Some c')"
    and "NumPendingIrps s' = NumPendingIrps s" and "ClosePending s' = ClosePending s"
    and "AdapterHandleUsageCounter s' = AdapterHandleUsageCounter s" and "Released s' = Released s"
    and "\<not> bound s' \<Longrightarrow> AdapterHandleUsageCounter s' = 0"
    and "of_bool (unbinding s') + of_bool (c = CB_Close \<or> c = CB_Finish) =
      (of_bool (unbinding s) + of_bool (c' = CB_Close \<or> c' = CB_Finish) :: nat)"
    and "AdapterCloses s' + of_bool (c' = CB_Close) + of_bool (\<not> bound s) =
      AdapterCloses s + of_bool (c = CB_Close) + of_bool (\<not> bound s')"
  using assms
  by (cases c; cases "AdapterBindingStatus s";
      auto simp: close_check_def life_mono_def close_ok_def binding_status split: if_splits)+

lemma life_inv_close:
  assumes inv: "life_inv (s, ths)" and i: "i < length ths" and step: "NPF_CloseBinding c s = (c', s')"
    and t: "close_of (ths ! i) = Some c" and t': "close_of t' = Some c'"
    and idle: "\<not> inside (ths ! i)" "\<not> uses_binding (ths ! i)" "\<not> inside t'" "\<not> uses_binding t'"
    and ok: "thread_ok s (ths ! i) \<Longrightarrow> close_ok s (Some c)" and ok': "close_ok s' (Some c') \<Longrightarrow> thread_ok s' t'"
  shows "life_inv (s', ths[i := t'])"
proof -
  have own: "unbinding s" if "c = CB_Close \<or> c = CB_Finish"
    using life_invD(4) [OF inv i] t that by (auto simp: closing_def)
  note cs = close_step [OF step ok [OF life_invD(1) [OF inv i]] own life_invD(5) [OF inv i]]
  have "balanced s (ths ! i) s' t'"
    using cs(3,5,8,9) t t' idle by (simp add: balanced_def closing_def will_close_def)
  then show ?thesis
    using cs by (intro life_inv_update [OF inv i cs(1)] ok') auto
qed

lemma life_inv_irp:
  assumes inv: "life_inv (s, ths)" and i: "i < length ths" and t: "ths ! i = Irp pc"
    and s': "bound s' = bound s" "unbound s' = unbound s" "unbinding s' = unbinding s"
      "AdapterCloses s' = AdapterCloses s" "ClosePending s' = ClosePending s"
      "Released s' = Released s" "Event s' = None \<longleftrightarrow> Event s = None"
    and irps: "NumPendingIrps s' + of_bool (pc \<noteq> Irp_Idle) = NumPendingIrps s + of_bool (pc' \<noteq> Irp_Idle)"
    and closed: "ClosePending s \<Longrightarrow> NumPendingIrps s' \<le> NumPendingIrps s"
    and users: "AdapterHandleUsageCounter s' + of_bool (pc = Irp_Bound) =
      AdapterHandleUsageCounter s + of_bool (pc' = Irp_Bound)"
    and only: "pc' = Irp_Bound \<Longrightarrow> bound s" and wait: "pc' = Irp_Waiting \<Longrightarrow> Event s \<noteq> None"
  shows "life_inv (s', ths[i := Irp pc'])"
proof (rule life_inv_update [OF inv i])
  show "life_mono s s'" using s' closed by (auto simp: life_mono_def)
  show "balanced s (ths ! i) s' (Irp pc')"
    using irps users s' t by (simp add: balanced_def closing_def will_close_def)
  show "AdapterHandleUsageCounter s' = 0" if "\<not> bound s'"
    using that s'(1) only users life_invD(5) [OF inv i] by (cases "pc' = Irp_Bound") auto
  show "thread_ok s' (Irp pc')" using wait s'(7) by auto
  show "Released s \<or> ClosePending s' \<and> NumPendingIrps s' = 0 \<and> unbound s'" if "Released s'"
    using that s'(6) by simp
qed

lemma set_event_simps [simp]:
  "bound (set_event s) = bound s" "unbound (set_event s) = unbound s"
  "unbinding (set_event s) = unbinding s" "AdapterCloses (set_event s) = AdapterCloses s"
  "ClosePending (set_event s) = ClosePending s" "NumPendingIrps (set_event s) = NumPendingIrps s"
  "AdapterHandleUsageCounter (set_event s) = AdapterHandleUsageCounter s"
  "Released (set_event s) = Released s" "Event (set_event s) = None \<longleftrightarrow> Event s = None"
  by (simp_all add: set_event_def binding_status)

lemma life_inv_event:
  assumes "life_inv (s, ths)"
  shows "life_inv (set_event s, ths)"
proof -
  have "life_mono s (set_event s)" by (simp add: life_mono_def)
  from thread_ok_mono [OF this] show ?thesis
    using assms by (auto simp: life_inv_def list_all_iff)
qed

text \<open>A step of a closing thread that changes neither the counters nor the binding.\<close>

lemma life_inv_stay:
  assumes inv: "life_inv (s, ths)" and i: "i < length ths"
    and idle: "\<not> inside (ths ! i)" "\<not> inside t'" "\<not> uses_binding (ths ! i)" "\<not> uses_binding t'"
    and closing: "closing t' = closing (ths ! i)" "will_close t' = will_close (ths ! i)"
    and s': "bound s' = bound s" "unbound s' = unbound s" "unbinding s' = unbinding s"
      "AdapterCloses s' = AdapterCloses s" "NumPendingIrps s' = NumPendingIrps s"
      "AdapterHandleUsageCounter s' = AdapterHandleUsageCounter s" "Event s' = None \<longleftrightarrow> Event s = None"
      "ClosePending s \<Longrightarrow> ClosePending s'"
    and ok: "thread_ok s' t'"
    and rel: "Released s' \<Longrightarrow> Released s \<or> ClosePending s' \<and> NumPendingIrps s' = 0 \<and> unbound s'"
  shows "life_inv (s', ths[i := t'])"
proof (rule life_inv_update [OF inv i])
  show "life_mono s s'" using s' by (auto simp: life_mono_def)
  show "balanced s (ths ! i) s' t'" using idle closing s' by (simp add: balanced_def)
  show "AdapterHandleUsageCounter s' = 0" if "\<not> bound s'"
    using that s' life_invD(5) [OF inv i] by simp
qed (use ok rel in auto)

lemma life_inv_cleanup:
  assumes inv: "life_inv (s, ths)" and i: "i < length ths" and t: "ths ! i = Cleanup pc"
    and step: "NPF_Cleanup pc s = (pc', s')"
  shows "life_inv (s', ths[i := Cleanup pc'])"
proof -
  note ok = life_invD(1) [OF inv i, unfolded t]
  show ?thesis
  proof (cases pc)
    case CL_Enter
    then show ?thesis using step ok t
      by (intro life_inv_stay [OF inv i])
         (auto simp: closing_def will_close_def close_ok_def binding_status split: if_splits)
  next
    case CL_Irps
    then show ?thesis using step ok t
      by (intro life_inv_stay [OF inv i])
         (auto simp: closing_def will_close_def close_ok_def split: if_splits)
  next
    case CL_Event
    then show ?thesis using step ok t
      by (intro life_inv_stay [OF inv i])
         (auto simp: closing_def will_close_def close_ok_def)
  next
    case (CL_Binding c)
    show ?thesis
    proof (cases "c = CB_Done")
      case True
      then show ?thesis using step ok t CL_Binding
        by (intro life_inv_stay [OF inv i])
           (auto simp: closing_def will_close_def close_ok_def)
    next
      case False
      then obtain c' where c': "NPF_CloseBinding c s = (c', s')" "pc' = CL_Binding c'"
        using step CL_Binding by (auto split: prod.splits)
      have "NumPendingIrps s' = NumPendingIrps s" "ClosePending s' = ClosePending s"
        using c'(1) by (cases c; auto simp: close_check_def split: if_splits ADAPTER_BINDING_STATUS.splits)+
      then show ?thesis using ok t CL_Binding c'
        by (intro life_inv_close [OF inv i c'(1)]) auto
    qed
  next
    case CL_Release
    then show ?thesis using step ok t
      by (intro life_inv_stay [OF inv i])
         (auto simp: closing_def will_close_def close_ok_def NPF_ReleaseOpenInstanceResources_def
            binding_status)
  next
    case CL_Done
    then show ?thesis using step ok t
      by (intro life_inv_stay [OF inv i]) (auto simp: closing_def will_close_def close_ok_def)
  qed
qed

lemma life_inv_unbind:
  assumes inv: "life_inv (s, ths)" and i: "i < length ths" and t: "ths ! i = Unbind pc"
    and step: "NPF_UnbindAdapter pc s = (pc', s')"
  shows "life_inv (s', ths[i := Unbind pc'])"
proof (cases "fst pc")
  case True
  then show ?thesis using step t life_invD(1) [OF inv i, unfolded t]
    by (intro life_inv_stay [OF inv i])
       (auto simp: NPF_UnbindAdapter_def closing_def will_close_def close_ok_def)
next
  case False
  then obtain c' where "NPF_CloseBinding (snd pc) s = (c', s')" "pc' = (False, c')"
    using step by (auto simp: NPF_UnbindAdapter_def split: prod.splits)
  then show ?thesis using t False by (intro life_inv_close [OF inv i]) auto
qed

lemma life_inv_step:
  assumes "life_step l a b" and "life_inv a"
  shows "life_inv b"
  using assms
proof (induction rule: life_step.induct)
  case (enter i ths s s')
  then show ?case
    by (intro life_inv_irp [OF enter.prems enter.hyps(1,2)])
       (auto simp: NPF_StartUsingOpenInstance_def binding_status split: if_splits)
next
  case (leave i ths s s')
  then show ?case
    by (intro life_inv_irp [OF leave.prems leave.hyps(1,2)])
       (auto simp: NPF_StopUsingOpenInstance_def binding_status split: if_splits)
next
  case (bind i ths s s')
  then show ?case
    by (intro life_inv_irp [OF bind.prems bind.hyps(1,2)])
       (auto simp: NPF_StartUsingBinding_def binding_status split: if_splits)
next
  case (release i ths s s')
  then show ?case
    by (intro life_inv_irp [OF release.prems release.hyps(1,2)])
       (auto simp: NPF_StopUsingBinding_def binding_status split: if_splits)
next
  case (wait i ths s)
  then show ?case by (intro life_inv_irp [OF wait.prems wait.hyps(1,2)]) auto
next
  case (wake i ths s)
  then show ?case
    by (intro life_inv_irp [OF wake.prems wake.hyps(1,2)]) (auto simp: binding_status)
next
  case (expire i ths s)
  then show ?case
    by (intro life_inv_irp [OF expire.prems expire.hyps(1,2)]) (auto simp: binding_status)
next
  case (packet s ths)
  then show ?case by (intro life_inv_event)
next
  case (cleanup i ths pc s pc' s')
  then show ?case by (intro life_inv_cleanup)
next
  case (unbind i ths pc s pc' s')
  then show ?case by (intro life_inv_unbind)
qed

lemma life_inv_reach: "life_reach a \<Longrightarrow> life_inv a"
  by (induction rule: life_reach.induct) (auto intro: life_inv_start life_inv_step)

end
