(* ===== verification/Open_Close_Properties.thy ===== *)
theory Open_Close_Properties
  imports Open_Close_Safety
begin

text \<open>
  The properties of opening and closing: what the use counters protect, that a cleanup which
  nobody holds up ends, and the read that holds it up.
\<close>

section \<open>Sample runs\<close>

definition sample_life :: open_life where
  "sample_life = \<lparr>AdapterBindingStatus = ADAPTER_BOUND, AdapterHandleUsageCounter = 0,
     ClosePending = False, NumPendingIrps = 0, Event = Some False, AdapterCloses = 0, Released = False\<rparr>"

lemma life_steps:
  assumes "life_reach (s, ths)" and "i < length ths" and "ths ! i = Cleanup pc"
  shows "life_reach (snd (NPF_Cleanup pc s), ths[i := Cleanup (fst (NPF_Cleanup pc s))])"
  by (rule life_next [OF assms(1)], rule life_step.cleanup [OF assms(2,3)]) simp

lemma sample_start: "life_reach (sample_life, [Irp Irp_Idle, Cleanup CL_Enter])"
  by (rule life_init) (simp add: life_start_def sample_life_def)

lemma sample_inside:
  "life_reach (sample_life\<lparr>NumPendingIrps := 1\<rparr>, [Irp Irp_Inside, Cleanup CL_Enter])"
  using life_next [OF sample_start, OF life_step.enter [of 0]]
  by (simp add: NPF_StartUsingOpenInstance_def sample_life_def)

lemma sample_closing:
  "life_reach (sample_life\<lparr>NumPendingIrps := 1, ClosePending := True\<rparr>, [Irp Irp_Inside, Cleanup CL_Irps])"
  using life_steps [OF sample_inside, of 1] by (simp add: sample_life_def)

lemma sample_left:
  "life_reach (sample_life\<lparr>ClosePending := True\<rparr>, [Irp Irp_Idle, Cleanup CL_Irps])"
  using life_next [OF sample_closing, OF life_step.leave [of 0]]
  by (simp add: NPF_StopUsingOpenInstance_def sample_life_def)

definition sample_released :: open_life where
  "sample_released = \<lparr>AdapterBindingStatus = ADAPTER_UNBOUND, AdapterHandleUsageCounter = 0,
     ClosePending = True, NumPendingIrps = 0, Event = Some True, AdapterCloses = 1, Released = True\<rparr>"

lemma sample_done: "life_reach (sample_released, [Irp Irp_Idle, Cleanup CL_Done])"
proof -
  define s1 where "s1 = sample_life\<lparr>ClosePending := True\<rparr>"
  have "life_reach (s1, [Irp Irp_Idle, Cleanup CL_Event])"
    using life_steps [OF sample_left, of 1 CL_Irps] by (simp add: s1_def sample_life_def)
  from life_steps [OF this, of 1 CL_Event]
  have "life_reach (set_event s1, [Irp Irp_Idle, Cleanup (CL_Binding CB_Users)])" by simp
  from life_steps [OF this, of 1 "CL_Binding CB_Users"]
  have "life_reach ((set_event s1)\<lparr>AdapterBindingStatus := ADAPTER_UNBINDING\<rparr>,
      [Irp Irp_Idle, Cleanup (CL_Binding CB_Close)])"
    by (simp add: close_check_def set_event_def s1_def sample_life_def)
  from life_steps [OF this, of 1 "CL_Binding CB_Close"]
  have "life_reach ((set_event s1)\<lparr>AdapterBindingStatus := ADAPTER_UNBINDING, AdapterCloses := 1\<rparr>,
      [Irp Irp_Idle, Cleanup (CL_Binding CB_Finish)])"
    by (simp add: set_event_def s1_def sample_life_def)
  from life_steps [OF this, of 1 "CL_Binding CB_Finish"]
  have "life_reach ((set_event s1)\<lparr>AdapterBindingStatus := ADAPTER_UNBOUND, AdapterCloses := 1\<rparr>,
      [Irp Irp_Idle, Cleanup (CL_Binding CB_Done)])"
    by (simp add: set_event_def s1_def sample_life_def)
  from life_steps [OF this, of 1 "CL_Binding CB_Done"]
  have "life_reach ((set_event s1)\<lparr>AdapterBindingStatus := ADAPTER_UNBOUND, AdapterCloses := 1\<rparr>,
      [Irp Irp_Idle, Cleanup CL_Release])" by simp
  from life_steps [OF this, of 1 CL_Release] show ?thesis
    by (simp add: NPF_ReleaseOpenInstanceResources_def set_event_def s1_def sample_life_def
        sample_released_def)
qed

section \<open>What the counters protect\<close>

text \<open>
  C13: The use counters protect what they count, whatever the order in which requests, cleanups and
  unbinds run. The resources of an instance are released only after its last request has stopped
  using it and the adapter is closed, the adapter is closed at most once, and not while a request
  uses the binding. The ASSERTs of \<open>NPF_StopUsingOpenInstance\<close> and \<open>NPF_StopUsingBinding\<close> never
  fail.
\<close>

theorem open_close_safe:
  assumes "life_reach (s, ths)"
  shows "(Released s \<longrightarrow> AdapterBindingStatus s = ADAPTER_UNBOUND \<and> AdapterCloses s = 1 \<and>
           list_all (\<lambda>t. \<not> inside t) ths) \<and>
    AdapterCloses s \<le> 1 \<and>
    (AdapterCloses s = 1 \<longrightarrow> Irp Irp_Bound \<notin> set ths) \<and>
    (Irp Irp_Inside \<in> set ths \<longrightarrow> NPF_StopUsingOpenInstance s \<noteq> None) \<and>
    (Irp Irp_Bound \<in> set ths \<longrightarrow> NPF_StopUsingBinding s \<noteq> None)"
proof -
  note inv = life_inv_reach [OF assms]
  have closes: "AdapterCloses s + cnt will_close ths = of_bool (\<not> bound s)"
    and rel: "Released s \<longrightarrow> NumPendingIrps s = 0 \<and> unbound s"
    and irps: "cnt inside ths = NumPendingIrps s" and unb: "cnt closing ths = of_bool (unbinding s)"
    using inv by (auto simp: life_inv_def)
  have in_thread: "\<exists>i < length ths. ths ! i = t" if "t \<in> set ths" for t
    using that by (simp add: in_set_conv_nth)
  have will: "cnt will_close ths \<le> cnt closing ths"
    by (induction ths) (auto simp: cnt_def will_close_def closing_def)
  have "AdapterBindingStatus s = ADAPTER_UNBOUND \<and> AdapterCloses s = 1 \<and>
      list_all (\<lambda>t. \<not> inside t) ths" if "Released s"
    using that rel closes unb will irps cnt_0 [of inside ths] by (simp add: binding_status)
  moreover have "NPF_StopUsingOpenInstance s \<noteq> None" if t: "Irp Irp_Inside \<in> set ths"
    using in_thread [OF t] life_invD(2) [OF inv] by (fastforce simp: NPF_StopUsingOpenInstance_def)
  moreover have "bound s \<and> NPF_StopUsingBinding s \<noteq> None" if t: "Irp Irp_Bound \<in> set ths"
    using in_thread [OF t] life_invD(3) [OF inv]
    by (fastforce simp: NPF_StopUsingBinding_def bound_def)
  moreover have "AdapterCloses s \<le> 1" and "AdapterCloses s = 1 \<longrightarrow> \<not> bound s"
    using closes by (cases "bound s"; simp)+
  ultimately show ?thesis by blast
qed

lemma open_close_safe_witness:
  "AdapterCloses sample_released = 1 \<and> Released sample_released \<and>
   list_all (\<lambda>t. \<not> inside t) [Irp Irp_Idle, Cleanup CL_Done] \<and>
   NPF_StopUsingOpenInstance (sample_life\<lparr>NumPendingIrps := 1\<rparr>) \<noteq> None"
  using open_close_safe [OF sample_done] open_close_safe [OF sample_inside]
  by (simp add: sample_released_def)

section \<open>The end of a cleanup\<close>

definition cleanup_steps :: "nat \<Rightarrow> cleanup_pc \<times> open_life \<Rightarrow> cleanup_pc \<times> open_life" where
  "cleanup_steps n = ((\<lambda>(pc, s). NPF_Cleanup pc s) ^^ n)"

text \<open>
  A cleanup that no request and no other thread holds up releases the instance within eight
  steps: it refuses new requests, signals the read event, leaves the binding unbound (closing the
  adapter itself unless an unbind has done so), and releases the resources.
\<close>

theorem cleanup_releases:
  assumes "NumPendingIrps s = 0" and "AdapterHandleUsageCounter s = 0" and "\<not> unbinding s"
  shows "cleanup_steps 8 (CL_Enter, s) = (CL_Done, s\<lparr>ClosePending := True,
    Event := map_option (\<lambda>_. True) (Event s), AdapterBindingStatus := ADAPTER_UNBOUND,
    AdapterCloses := AdapterCloses s + (if bound s then 1 else 0), Released := True\<rparr>)"
  using assms
  by (cases "AdapterBindingStatus s")
     (simp_all add: cleanup_steps_def eval_nat_numeral close_check_def binding_status set_event_def
        NPF_ReleaseOpenInstanceResources_def)

lemma cleanup_releases_witness:
  "cleanup_steps 8 (CL_Enter, sample_life) = (CL_Done, sample_released)"
  using cleanup_releases [of sample_life]
  by (simp add: sample_life_def sample_released_def binding_status)

section \<open>The read that holds it up\<close>

inductive life_run :: "life_label list \<Rightarrow> life_sys \<Rightarrow> life_sys \<Rightarrow> bool" where
  run_nil: "life_run [] a a"
| run_cons: "life_step l a b \<Longrightarrow> life_run ls b c \<Longrightarrow> life_run (l # ls) a c"

definition is_unbind :: "thread \<Rightarrow> bool" where
  "is_unbind t \<longleftrightarrow> (\<exists>pc. t = Unbind pc)"

fun is_thread :: "life_label \<Rightarrow> bool" where
  "is_thread (Thread i) \<longleftrightarrow> True"
| "is_thread _ \<longleftrightarrow> False"

text \<open>A request waits for an event that is not set, and no thread unbinds the adapter.\<close>

definition stuck :: "nat \<Rightarrow> life_sys \<Rightarrow> bool" where
  "stuck i a \<longleftrightarrow> i < length (snd a) \<and> snd a ! i = Irp Irp_Waiting \<and> Event (fst a) = Some False \<and>
     list_all (\<lambda>t. \<not> is_unbind t) (snd a)"

lemma not_unbind_simps [simp]: "\<not> is_unbind (Irp p)" "\<not> is_unbind (Cleanup c)"
  by (simp_all add: is_unbind_def)

lemma stuck_step:
  assumes "life_step l a b" and "is_thread l" and "stuck i a" and "life_inv a"
  shows "stuck i b"
proof -
  have irps: "0 < NumPendingIrps (fst a)"
    using assms(3) life_invD(2) [of "fst a" "snd a" i] assms(4) by (auto simp: stuck_def)
  from assms(1-3) irps assms(4) show ?thesis
  proof (induction rule: life_step.induct)
    case (cleanup j ths pc s pc' s')
    from cleanup.prems cleanup.hyps have "thread_ok s (Cleanup pc)"
      using life_invD(1) [of s ths j] by simp
    then have "pc = CL_Enter \<or> pc = CL_Irps" using cleanup.prems by auto
    then have "Event s' = Event s" using cleanup.hyps(3) by (auto split: if_splits)
    moreover have "j \<noteq> i" using cleanup.prems cleanup.hyps by (auto simp: stuck_def)
    ultimately show ?case using cleanup.prems by (auto simp: stuck_def list_all_update)
  next
    case (unbind j ths pc s pc' s')
    then have False by (cases pc) (auto simp: stuck_def list_all_length is_unbind_def)
    then show ?case ..
  qed (auto simp: stuck_def NPF_StartUsingOpenInstance_def NPF_StopUsingOpenInstance_def
        NPF_StartUsingBinding_def NPF_StopUsingBinding_def nth_list_update list_all_update
        split: if_splits)
qed

lemma stuck_run:
  "life_run ls a b \<Longrightarrow> list_all is_thread ls \<Longrightarrow> stuck i a \<Longrightarrow> life_inv a \<Longrightarrow> stuck i b \<and> life_inv b"
  by (induction rule: life_run.induct) (auto dest: stuck_step life_inv_step)

text \<open>
  \<open>NPF_Cleanup\<close> signals the read event only after it has waited for the pending requests. While
  a read waits for the event, and neither a packet, nor a timeout, nor an unbind ends the wait, no
  sequence of steps of the threads brings any cleanup past that wait: the read is not woken up and
  the instance is not released.
\<close>

theorem cleanup_waits_for_reader:
  assumes "life_reach (s, ths)" and "stuck i (s, ths)"
    and "life_run ls (s, ths) (s', ths')" and "list_all is_thread ls"
  shows "ths' ! i = Irp Irp_Waiting \<and> \<not> Released s' \<and>
    list_all (\<lambda>t. case t of Cleanup pc \<Rightarrow> pc = CL_Enter \<or> pc = CL_Irps | _ \<Rightarrow> True) ths'"
proof -
  from stuck_run [OF assms(3,4,2)] life_inv_reach [OF assms(1)]
  have st: "stuck i (s', ths')" and inv: "life_inv (s', ths')" by auto
  have irps: "0 < NumPendingIrps s'" and "ths' ! i = Irp Irp_Waiting"
    using st life_invD(2) [OF inv, of i] by (auto simp: stuck_def)
  moreover have "\<not> Released s'" using irps inv by (auto simp: life_inv_def)
  moreover have "list_all (\<lambda>t. case t of Cleanup pc \<Rightarrow> pc = CL_Enter \<or> pc = CL_Irps | _ \<Rightarrow> True) ths'"
    unfolding list_all_length
  proof (intro allI impI)
    fix j assume "j < length ths'"
    then show "case ths' ! j of Cleanup pc \<Rightarrow> pc = CL_Enter \<or> pc = CL_Irps | _ \<Rightarrow> True"
      using life_invD(1) [OF inv, of j] irps by (cases "ths' ! j") auto
  qed
  ultimately show ?thesis by simp
qed

lemma sample_waiting:
  "life_reach (sample_life\<lparr>NumPendingIrps := 1\<rparr>, [Irp Irp_Waiting, Cleanup CL_Enter])"
  using life_next [OF sample_inside, OF life_step.wait [of 0]] by (simp add: sample_life_def)

lemma sample_life_run:
  "life_run [Thread 1, Thread 1] (sample_life\<lparr>NumPendingIrps := 1\<rparr>, [Irp Irp_Waiting, Cleanup CL_Enter])
     (sample_life\<lparr>NumPendingIrps := 1, ClosePending := True\<rparr>, [Irp Irp_Waiting, Cleanup CL_Irps])"
proof -
  have "life_step (Thread 1) (sample_life\<lparr>NumPendingIrps := 1\<rparr>, [Irp Irp_Waiting, Cleanup CL_Enter])
     (sample_life\<lparr>NumPendingIrps := 1, ClosePending := True\<rparr>, [Irp Irp_Waiting, Cleanup CL_Irps])"
    using life_step.cleanup [of 1 "[Irp Irp_Waiting, Cleanup CL_Enter]" CL_Enter
        "sample_life\<lparr>NumPendingIrps := 1\<rparr>"] by (simp add: sample_life_def)
  moreover have "life_step (Thread 1)
     (sample_life\<lparr>NumPendingIrps := 1, ClosePending := True\<rparr>, [Irp Irp_Waiting, Cleanup CL_Irps])
     (sample_life\<lparr>NumPendingIrps := 1, ClosePending := True\<rparr>, [Irp Irp_Waiting, Cleanup CL_Irps])"
    using life_step.cleanup [of 1 "[Irp Irp_Waiting, Cleanup CL_Irps]" CL_Irps
        "sample_life\<lparr>NumPendingIrps := 1, ClosePending := True\<rparr>"] by (simp add: sample_life_def)
  ultimately show ?thesis by (blast intro: life_run.intros)
qed

lemma cleanup_waits_for_reader_witness:
  "\<not> Released (sample_life\<lparr>NumPendingIrps := 1, ClosePending := True\<rparr>) \<and>
   list_all (\<lambda>t. case t of Cleanup pc \<Rightarrow> pc = CL_Enter \<or> pc = CL_Irps | _ \<Rightarrow> True)
     [Irp Irp_Waiting, Cleanup CL_Irps]"
proof -
  have st: "stuck 0 (sample_life\<lparr>NumPendingIrps := 1\<rparr>, [Irp Irp_Waiting, Cleanup CL_Enter])"
    by (simp add: stuck_def sample_life_def)
  show ?thesis
    using cleanup_waits_for_reader [OF sample_waiting st sample_life_run] by simp
qed

end
