(* ===== verification/Npf_Write.thy ===== *)
theory Npf_Write
  imports Prelude "HOL-Library.Signed_Division"
begin

text \<open>
  The transmission of a buffer of packets: \<open>NPF_BufferedWrite\<close> of
  \<open>packetNtx/driver/Write.c\<close>. The loop takes one header and one packet after the other from the
  user buffer, checks the lengths, and hands the packet to NDIS; in the synchronous form it waits
  until the time stamp of the next packet has come. What NDIS got is the list \<open>w_sent\<close>.

  A read outside the buffer is \<open>Write_Overread\<close>; a wait that never ends is \<open>None\<close>. The position is
  a natural number written with plain additions: the checks keep it at or below the size of the
  buffer, a ULONG. The performance counter, the allocations of MDLs and packets are arguments;
  LONGLONG values are integers.
\<close>

section \<open>Headers\<close>

record sf_pkthdr =
  ts_sec :: u32
  ts_usec :: u32
  caplen :: u32
  wire_len :: u32

definition sf_pkthdr_of :: "u8 list \<Rightarrow> sf_pkthdr" where
  "sf_pkthdr_of h = \<lparr>ts_sec = le32_of h, ts_usec = le32_of (drop 4 h), caplen = le32_of (drop 8 h),
     wire_len = le32_of (drop 12 h)\<rparr>"

definition sf_pkthdr_bytes :: "sf_pkthdr \<Rightarrow> u8 list" where
  "sf_pkthdr_bytes h = le32_bytes (ts_sec h) @ le32_bytes (ts_usec h) @ le32_bytes (caplen h) @
     le32_bytes (wire_len h)"

abbreviation SIZEOF_sf_pkthdr :: nat where "SIZEOF_sf_pkthdr \<equiv> 16"

lemma length_sf_pkthdr_bytes [simp]: "length (sf_pkthdr_bytes h) = 16"
  by (simp add: sf_pkthdr_bytes_def)

lemma sf_pkthdr_of_bytes [simp]: "sf_pkthdr_of (sf_pkthdr_bytes h) = h"
  by (simp add: sf_pkthdr_of_def sf_pkthdr_bytes_def)

section \<open>State and environment\<close>

record write_env =
  ticks :: "nat \<Rightarrow> int"
  freq :: int
  w_mdl :: "nat \<Rightarrow> bool"
  w_packet :: "nat \<Rightarrow> bool"
  w_retry :: "nat \<Rightarrow> bool"

record writer =
  w_pos :: nat
  w_sent :: "u8 list list"
  w_query :: nat
  CurTicks :: int
  StartTicks :: int
  BufStartTime :: "u32 \<times> u32"

datatype write_next = Write_Continue writer | Write_Return int writer | Write_Overread

section \<open>One packet\<close>

definition start_clock :: "write_env \<Rightarrow> sf_pkthdr \<Rightarrow> writer \<Rightarrow> writer" where
  "start_clock env hdr w =
     (if w_pos w = 0
      then w\<lparr>StartTicks := ticks env (w_query w), w_query := w_query w + 1,
             BufStartTime := (ts_sec hdr, ts_usec hdr)\<rparr>
      else w)"

definition write_packet :: "write_env \<Rightarrow> nat \<Rightarrow> u8 list \<Rightarrow> writer \<Rightarrow> write_next" where
  "write_packet env MaxFrameSize buf w =
     (let i = length (w_sent w) in
      if w_pos w = length buf then Write_Return (int (w_pos w)) w
      else if sub32 (length buf) (w_pos w) < SIZEOF_sf_pkthdr then Write_Return (- 1) w
      else (case slice buf (w_pos w) SIZEOF_sf_pkthdr of
          None \<Rightarrow> Write_Overread
        | Some h \<Rightarrow>
            (let hdr = sf_pkthdr_of h; n = unat (caplen hdr); p = w_pos w + SIZEOF_sf_pkthdr;
                 w1 = start_clock env hdr w in
             if n = 0 \<or> n > MaxFrameSize then Write_Return (- 1) w
             else if n > sub32 (length buf) p then Write_Return (- 1) w1
             else if \<not> w_mdl env i then Write_Return (- 1) w1
             else if \<not> w_packet env i \<and> \<not> w_retry env i then Write_Return (- 1) w1
             else (case slice buf p n of
                 None \<Rightarrow> Write_Overread
               | Some d \<Rightarrow> Write_Continue (w1\<lparr>w_pos := p + n, w_sent := w_sent w @ [d]\<rparr>)))))"

section \<open>The wait of the synchronous form\<close>

partial_function (option) wait_ticks ::
    "(nat \<Rightarrow> int) \<Rightarrow> int \<Rightarrow> nat \<Rightarrow> int \<Rightarrow> (nat \<times> int) option" where
  "wait_ticks clock target q cur =
     (if cur \<le> target then wait_ticks clock target (q + 1) (clock q) else Some (q, cur))"

definition target_ticks :: "write_env \<Rightarrow> writer \<Rightarrow> u32 \<Rightarrow> u32 \<Rightarrow> int" where
  "target_ticks env w sec usec = StartTicks w +
     (sint ((sec - fst (BufStartTime w)) * 1000000 + usec - snd (BufStartTime w)) * freq env) sdiv 1000000"

definition sync_check :: "write_env \<Rightarrow> nat \<Rightarrow> u8 list \<Rightarrow> writer \<Rightarrow> write_next option" where
  "sync_check env MaxFrameSize buf w =
     (if w_pos w = length buf then Some (Write_Return (int (w_pos w)) w)
      else if sub32 (length buf) (w_pos w) < SIZEOF_sf_pkthdr then Some (Write_Return (- 1) w)
      else (case slice buf (w_pos w) SIZEOF_sf_pkthdr of
          None \<Rightarrow> Some Write_Overread
        | Some h \<Rightarrow>
            (let hdr = sf_pkthdr_of h; n = unat (caplen hdr) in
             if n = 0 \<or> n > MaxFrameSize \<or> n > sub32 (sub32 (length buf) (w_pos w)) SIZEOF_sf_pkthdr
             then Some (Write_Return (- 1) w)
             else if sint (ts_sec hdr - fst (BufStartTime w)) > 1
             then Some (Write_Return (int (w_pos w)) w)
             else map_option (\<lambda>(q, cur). Write_Continue (w\<lparr>w_query := q, CurTicks := cur\<rparr>))
               (wait_ticks (ticks env) (target_ticks env w (ts_sec hdr) (ts_usec hdr))
                  (w_query w) (CurTicks w)))))"

section \<open>The loop\<close>

lemma slice_eq_Some: "slice xs off n = Some d \<longleftrightarrow> off + n \<le> length xs \<and> d = chunk xs off n"
  by (auto simp: slice_def)

lemma start_clock_simps [simp]:
  "w_pos (start_clock env hdr w) = w_pos w" "w_sent (start_clock env hdr w) = w_sent w"
  "CurTicks (start_clock env hdr w) = CurTicks w"
  by (simp_all add: start_clock_def)

lemma write_packet_ContinueD:
  assumes "write_packet env m buf w = Write_Continue w'"
  shows "\<exists>d. w_sent w' = w_sent w @ [d] \<and> w_pos w' = w_pos w + 16 + length d \<and> w_pos w' \<le> length buf \<and>
    0 < length d \<and> length d \<le> m \<and> d = chunk buf (w_pos w + 16) (length d)"
  using assms
  by (auto simp: write_packet_def Let_def slice_eq_Some simp del: length_greater_0_conv
      split: if_splits option.splits)

lemma sync_check_ContinueD:
  "sync_check env m buf w = Some (Write_Continue w') \<Longrightarrow> w_pos w' = w_pos w \<and> w_sent w' = w_sent w"
  by (auto simp: sync_check_def Let_def split: if_splits option.splits)

function write_loop :: "write_env \<Rightarrow> bool \<Rightarrow> nat \<Rightarrow> u8 list \<Rightarrow> writer \<Rightarrow> write_next option" where
  "write_loop env Sync m buf w =
     (case write_packet env m buf w of
        Write_Continue w1 \<Rightarrow>
          (if Sync
           then (case sync_check env m buf w1 of
                None \<Rightarrow> None
              | Some (Write_Continue w2) \<Rightarrow> write_loop env Sync m buf w2
              | Some r \<Rightarrow> Some r)
           else write_loop env Sync m buf w1)
      | r \<Rightarrow> Some r)"
  by pat_completeness auto

termination
proof (relation "measure (\<lambda>(env, Sync, m, buf, w). length buf - w_pos w)", goal_cases)
  case (2 env Sync m buf w w1 r w2)
  then show ?case
    using write_packet_ContinueD [OF 2(1)] sync_check_ContinueD [of env m buf w1 w2] by auto
next
  case (3 env Sync m buf w w1)
  then show ?case using write_packet_ContinueD [OF 3(1)] by auto
qed simp

declare write_loop.simps [simp del]

section \<open>The call\<close>

text \<open>The result and the packets handed to NDIS; \<open>Some None\<close> is a read outside the buffer.\<close>

definition NPF_BufferedWrite ::
    "write_env \<Rightarrow> bool \<Rightarrow> bool \<Rightarrow> nat \<Rightarrow> u8 list option \<Rightarrow> (int \<times> u8 list list) option option" where
  "NPF_BufferedWrite env binding Sync MaxFrameSize UserBuff =
     (if \<not> binding then Some (Some (0, []))
      else (case UserBuff of
          None \<Rightarrow> Some (Some (0, []))
        | Some buf \<Rightarrow>
            if MaxFrameSize = 0 then Some (Some (0, []))
            else map_option (\<lambda>r. case r of
                  Write_Return n w \<Rightarrow> Some (n, w_sent w) | _ \<Rightarrow> None)
                (write_loop env Sync MaxFrameSize buf
                  \<lparr>w_pos = 0, w_sent = [], w_query = 1, CurTicks = ticks env 0, StartTicks = 0,
                   BufStartTime = (0, 0)\<rparr>)))"

text \<open>
  The wait for the completion of the sends: at most \<open>TRANSMIT_PACKETS\<close> waits of 100 milliseconds.
  \<open>pending i\<close> is Multiple_Write_Counter after the i-th of them; the result is the number of waits.
\<close>

abbreviation TRANSMIT_PACKETS :: nat where "TRANSMIT_PACKETS \<equiv> 256"

function NPF_WaitEndOfBufferedWrite :: "(nat \<Rightarrow> nat) \<Rightarrow> nat \<Rightarrow> nat" where
  "NPF_WaitEndOfBufferedWrite pending i =
     (if pending i > 0 \<and> i < TRANSMIT_PACKETS then NPF_WaitEndOfBufferedWrite pending (i + 1) else i)"
  by pat_completeness auto

termination
  by (relation "measure (\<lambda>(p, i). TRANSMIT_PACKETS - i)") auto

declare NPF_WaitEndOfBufferedWrite.simps [simp del]

end
