(* ===== verification/Send_Queue.thy ===== *)
theory Send_Queue
  imports Npf_Write "HOL-Library.Monad_Syntax"
begin

text \<open>
  The application's side of the transmission: the send queue of
  \<open>wpcap/Win32-Extensions/Win32-Extensions.c\<close> and \<open>PacketSendPackets\<close> of
  \<open>packetNtx/Dll/Packet32.c\<close>, which calls the driver until it has taken the whole queue. Lengths
  are 32 bits wide, as size_t is in the 32-bit build. A memory fault is \<open>None\<close> in the queue
  and \<open>Some None\<close> in the calls, where \<open>None\<close> means that a loop does not end.
\<close>

section \<open>The send queue\<close>

record pcap_send_queue =
  sq_maxlen :: nat
  sq_len :: nat
  sq_buffer :: "u8 list"

definition pcap_sendqueue_alloc :: "bool \<Rightarrow> (nat \<Rightarrow> u8 list option) \<Rightarrow> nat \<Rightarrow> pcap_send_queue option" where
  "pcap_sendqueue_alloc queue_ok malloc memsize =
     (if \<not> queue_ok then None
      else case malloc memsize of
          None \<Rightarrow> None
        | Some b \<Rightarrow> Some \<lparr>sq_maxlen = memsize, sq_len = 0, sq_buffer = b\<rparr>)"

definition pcap_sendqueue_queue ::
    "pcap_send_queue \<Rightarrow> sf_pkthdr \<Rightarrow> u8 list \<Rightarrow> (int \<times> pcap_send_queue) option" where
  "pcap_sendqueue_queue q hdr pkt_data =
     (if add32 (add32 (sq_len q) SIZEOF_sf_pkthdr) (unat (caplen hdr)) > sq_maxlen q
      then Some (- 1, q)
      else do {
        b1 \<leftarrow> blit (sq_buffer q) (sq_len q) (sf_pkthdr_bytes hdr);
        let l = add32 (sq_len q) SIZEOF_sf_pkthdr;
        d \<leftarrow> slice pkt_data 0 (unat (caplen hdr));
        b2 \<leftarrow> blit b1 l d;
        Some (0, q\<lparr>sq_buffer := b2, sq_len := add32 l (unat (caplen hdr))\<rparr>)})"

section \<open>The calls of the driver\<close>

text \<open>BIOCSENDPACKETSSYNC and BIOCSENDPACKETSNOSYNC: whether the call succeeds, the number of bytes, what was sent.\<close>

definition send_packets_ioctl ::
    "write_env \<Rightarrow> bool \<Rightarrow> bool \<Rightarrow> bool \<Rightarrow> nat \<Rightarrow> u8 list option \<Rightarrow>
     (bool \<times> nat \<times> u8 list list) option option" where
  "send_packets_ioctl env busy binding Sync MaxFrameSize buf =
     (if busy then Some (Some (False, 0, []))
      else map_option (map_option (\<lambda>(WriteRes, sent).
             if WriteRes \<noteq> - 1 then (True, nat WriteRes, sent) else (False, 0, sent)))
           (NPF_BufferedWrite env binding Sync MaxFrameSize buf))"

text \<open>The k-th call of the device, on the bytes passed to it.\<close>

type_synonym device = "nat \<Rightarrow> u8 list \<Rightarrow> (bool \<times> nat \<times> u8 list list) option option"

partial_function (option) send_loop ::
    "device \<Rightarrow> (nat \<Rightarrow> int) \<Rightarrow> int \<Rightarrow> u8 list \<Rightarrow> nat \<Rightarrow> u32 \<times> u32 \<Rightarrow> int \<Rightarrow> nat \<Rightarrow> nat \<Rightarrow> nat \<Rightarrow> int \<Rightarrow>
     u8 list list \<Rightarrow> (nat \<times> u8 list list) option option" where
  "send_loop dev clock fr buf sz base start n tot q cur sent =
     (case dev n (chunk buf tot (sub32 sz tot)) of
        None \<Rightarrow> None
      | Some None \<Rightarrow> Some None
      | Some (Some (res, got, s)) \<Rightarrow>
          if \<not> res then Some (Some (tot, sent @ s))
          else (let tot1 = add32 tot got in
            if tot1 \<ge> sz then Some (Some (tot1, sent @ s))
            else (case slice buf tot1 8 of
                None \<Rightarrow> Some None
              | Some tv \<Rightarrow>
                  (let target = start + (sint ((le32_of tv - fst base) * 1000000 +
                         (le32_of (drop 4 tv) - snd base)) * fr) sdiv 1000000 in
                   case wait_ticks clock target q cur of
                     None \<Rightarrow> None
                   | Some (q', cur') \<Rightarrow>
                       send_loop dev clock fr buf sz base start (n + 1) tot1 q' cur' (sent @ s)))))"

definition PacketSendPackets ::
    "bool \<Rightarrow> device \<Rightarrow> (nat \<Rightarrow> int) \<Rightarrow> int \<Rightarrow> u8 list \<Rightarrow> nat \<Rightarrow> (nat \<times> u8 list list) option option" where
  "PacketSendPackets ndis dev clock fr PacketBuff sz =
     (if \<not> ndis then Some (Some (0, []))
      else (case slice PacketBuff 0 8 of
          None \<Rightarrow> Some None
        | Some tv \<Rightarrow>
            send_loop dev clock fr PacketBuff sz (le32_of tv, le32_of (drop 4 tv)) (clock 0) 0 0 1
              (clock 0) []))"

definition pcap_sendqueue_transmit ::
    "bool \<Rightarrow> bool \<Rightarrow> device \<Rightarrow> (nat \<Rightarrow> int) \<Rightarrow> int \<Rightarrow> pcap_send_queue \<Rightarrow>
     (nat \<times> u8 list list) option option" where
  "pcap_sendqueue_transmit adapter ndis dev clock fr queue =
     (if \<not> adapter then Some (Some (0, []))
      else PacketSendPackets ndis dev clock fr (sq_buffer queue) (sq_len queue))"

section \<open>The contents of a queue\<close>

type_synonym frame = "sf_pkthdr \<times> u8 list"

definition encode :: "frame list \<Rightarrow> u8 list" where
  "encode fs = concat (map (\<lambda>(h, d). sf_pkthdr_bytes h @ d) fs)"

lemma encode_simps [simp]:
  "encode [] = []" "encode ((h, d) # fs) = sf_pkthdr_bytes h @ d @ encode fs"
  "encode (fs @ gs) = encode fs @ encode gs"
  by (simp_all add: encode_def)

definition frame_ok :: "frame \<Rightarrow> bool" where
  "frame_ok f \<longleftrightarrow> unat (caplen (fst f)) = length (snd f)"

definition queue_holds :: "pcap_send_queue \<Rightarrow> frame list \<Rightarrow> bool" where
  "queue_holds q fs \<longleftrightarrow> list_all frame_ok fs \<and> sq_len q = length (encode fs) \<and> sq_len q \<le> sq_maxlen q \<and>
     length (sq_buffer q) = sq_maxlen q \<and> sq_maxlen q < 4294967296 \<and>
     take (sq_len q) (sq_buffer q) = encode fs"

lemma alloc_holds:
  assumes "pcap_sendqueue_alloc ok malloc n = Some q" and "\<And>b. malloc n = Some b \<Longrightarrow> length b = n"
    and "n < 4294967296"
  shows "queue_holds q [] \<and> sq_maxlen q = n"
  using assms by (auto simp: pcap_sendqueue_alloc_def queue_holds_def split: if_splits option.splits)

lemma queue_fits:
  assumes q: "queue_holds q fs" and f: "frame_ok (h, d)"
    and room: "sq_len q + 16 + length d \<le> sq_maxlen q"
  shows "\<exists>q'. pcap_sendqueue_queue q h d = Some (0, q') \<and> queue_holds q' (fs @ [(h, d)]) \<and>
    sq_maxlen q' = sq_maxlen q"
proof -
  let ?b = "sq_buffer q" and ?n = "sq_len q"
  have len: "length ?b = sq_maxlen q" "sq_maxlen q < 4294967296" and take: "take ?n ?b = encode fs"
    and cap: "unat (caplen h) = length d" and fs: "?n = length (encode fs)" "list_all frame_ok fs"
    using q f by (auto simp: queue_holds_def frame_ok_def)
  have b1: "blit ?b ?n (sf_pkthdr_bytes h) = Some (encode fs @ sf_pkthdr_bytes h @ drop (?n + 16) ?b)"
    using room len take by (simp add: blit_Some)
  have b2: "blit (encode fs @ sf_pkthdr_bytes h @ drop (?n + 16) ?b) (?n + 16) d =
      Some (encode fs @ sf_pkthdr_bytes h @ d @ drop (?n + 16 + length d) ?b)"
    using room len fs(1) by (simp add: blit_Some add.commute)
  let ?q = "q\<lparr>sq_buffer := encode fs @ sf_pkthdr_bytes h @ d @ drop (?n + 16 + length d) ?b,
    sq_len := ?n + 16 + length d\<rparr>"
  have "pcap_sendqueue_queue q h d = Some (0, ?q)"
    using room len cap b1 b2 by (simp add: pcap_sendqueue_queue_def slice_def chunk_def Let_def)
  moreover have "queue_holds ?q (fs @ [(h, d)])"
    using room len fs f by (simp add: queue_holds_def)
  ultimately show ?thesis by (intro exI [of _ ?q]) simp
qed

lemma queue_full:
  assumes "queue_holds q fs" and "sq_len q + 16 + unat (caplen h) < 4294967296"
    and "sq_maxlen q < sq_len q + 16 + unat (caplen h)"
  shows "pcap_sendqueue_queue q h d = Some (- 1, q)"
  using assms by (simp add: pcap_sendqueue_queue_def)

end
