(* ===== verification/Send_Correct.thy ===== *)
theory Send_Correct
  imports Send_Queue
begin

text \<open>
  What a buffer built by the send queue makes the driver send. A run of the driver's loop over
  the encoding of a list of frames hands a prefix of the frames to NDIS and stops at the end of
  one; without the waits it takes them all. The application's loop takes the rest in later calls.
\<close>

section \<open>The wait\<close>

text \<open>A performance counter that passes every value, from every query on.\<close>

definition clock_advances :: "(nat \<Rightarrow> int) \<Rightarrow> bool" where
  "clock_advances clock \<longleftrightarrow> (\<forall>t q. \<exists>n \<ge> q. t < clock n)"

lemma wait_ticks_ends:
  assumes "target < clock (q + n)"
  shows "\<exists>r. wait_ticks clock target q cur = Some r"
  using assms
proof (induction n arbitrary: q cur)
  case 0
  then show ?case
    by (cases "cur \<le> target") (simp_all add: wait_ticks.simps [of _ _ q] wait_ticks.simps [of _ _ "q + 1"]
        wait_ticks.simps [of _ _ "Suc q"])
next
  case (Suc n)
  then have "target < clock ((q + 1) + n)" by simp
  from Suc.IH [OF this, of "clock q"] show ?case
    by (cases "cur \<le> target") (simp_all add: wait_ticks.simps [of _ _ q])
qed

lemma wait_ticks_defined: "clock_advances clock \<Longrightarrow> \<exists>r. wait_ticks clock target q cur = Some r"
  unfolding clock_advances_def using wait_ticks_ends by (metis le_iff_add)

section \<open>One packet of an encoded buffer\<close>

definition allocates :: "write_env \<Rightarrow> bool" where
  "allocates env \<longleftrightarrow> (\<forall>i. w_mdl env i \<and> (w_packet env i \<or> w_retry env i))"

definition sendable :: "nat \<Rightarrow> frame \<Rightarrow> bool" where
  "sendable m f \<longleftrightarrow> frame_ok f \<and> 0 < length (snd f) \<and> length (snd f) \<le> m"

lemma chunk_app: "chunk (xs @ ys @ zs) (length xs) (length ys) = ys"
  by (simp add: chunk_def)

lemma slice_app: "off = length xs \<Longrightarrow> n = length ys \<Longrightarrow> slice (xs @ ys @ zs) off n = Some ys"
  by (simp add: slice_def chunk_app)

lemma write_packet_encoded:
  assumes buf: "buf = pre @ encode ((h, d) # fs)" and pos: "w_pos w = length pre"
    and env: "allocates env" and f: "sendable m (h, d)" and small: "length buf < 4294967296"
  shows "write_packet env m buf w = Write_Continue ((start_clock env h w)
    \<lparr>w_pos := length (pre @ encode [(h, d)]), w_sent := w_sent w @ [d]\<rparr>)"
proof -
  have cap: "unat (caplen h) = length d" and d: "0 < length d" "length d \<le> m"
    using f by (auto simp: sendable_def frame_ok_def)
  have "slice buf (length pre) 16 = Some (sf_pkthdr_bytes h)"
    unfolding buf encode_simps by (rule slice_app) simp_all
  moreover have "slice ((pre @ sf_pkthdr_bytes h) @ d @ encode fs) (length pre + 16) (length d) = Some d"
    by (rule slice_app) simp_all
  then have "slice buf (length pre + 16) (length d) = Some d" by (simp add: buf)
  moreover have "length buf = length pre + 16 + length d + length (encode fs)" by (simp add: buf)
  ultimately show ?thesis
    using pos env cap d small by (simp add: write_packet_def Let_def allocates_def add.assoc)
qed

lemma sync_check_encoded:
  assumes buf: "buf = pre @ encode fs" and pos: "w_pos w = length pre"
    and f: "list_all (sendable m) fs" and small: "length buf < 4294967296"
    and clock: "clock_advances (ticks env)"
  shows "\<exists>r. sync_check env m buf w = Some r \<and>
    (r = Write_Return (int (length pre)) w \<or>
     fs \<noteq> [] \<and> (\<exists>w'. r = Write_Continue w' \<and> w_pos w' = length pre \<and> w_sent w' = w_sent w))"
proof (cases fs)
  case Nil
  then show ?thesis using buf pos by (simp add: sync_check_def)
next
  case (Cons f1 fs')
  obtain h d where hd: "f1 = (h, d)" by (cases f1)
  have cap: "unat (caplen h) = length d" and d: "0 < length d" "length d \<le> m"
    using f by (auto simp: Cons hd sendable_def frame_ok_def)
  have sl: "slice buf (length pre) 16 = Some (sf_pkthdr_bytes h)"
    unfolding buf Cons hd encode_simps by (rule slice_app) simp_all
  have len: "length buf = length pre + 16 + length d + length (encode fs')" by (simp add: buf Cons hd)
  have neq: "length pre \<noteq> length buf" and s1: "sub32 (length buf) (length pre) = length buf - length pre"
    and s2: "\<not> sub32 (length buf) (length pre) < 16"
    and s3: "sub32 (sub32 (length buf) (length pre)) 16 = length buf - length pre - 16"
    using len small by simp_all
  have s4: "\<not> (unat (caplen h) = 0 \<or> unat (caplen h) > m \<or>
      unat (caplen h) > sub32 (sub32 (length buf) (length pre)) 16)"
    using len d cap s3 by simp
  obtain q' c' where wt: "wait_ticks (ticks env) (target_ticks env w (ts_sec h) (ts_usec h))
      (w_query w) (CurTicks w) = Some (q', c')"
    using wait_ticks_defined [OF clock] by (metis surj_pair)
  show ?thesis
    using neq s2 s4 sl wt pos Cons by (simp add: sync_check_def Let_def)
qed

section \<open>The driver's loop\<close>

lemma write_loop_encoded:
  assumes "buf = pre @ encode fs" and "w_pos w = length pre" and "allocates env"
    and "list_all (sendable m) fs" and "length buf < 4294967296"
    and "Sync \<longrightarrow> clock_advances (ticks env) \<and> fs \<noteq> []"
  shows "\<exists>fs1 fs2 w'. fs = fs1 @ fs2 \<and> (if Sync then fs1 \<noteq> [] else fs2 = []) \<and>
    write_loop env Sync m buf w = Some (Write_Return (int (length (pre @ encode fs1))) w') \<and>
    w_sent w' = w_sent w @ map snd fs1"
  using assms
proof (induction fs arbitrary: pre w)
  case Nil
  then show ?case
    by (intro exI [of _ "[]"] exI [of _ w])
       (simp add: write_loop.simps [of _ _ _ _ w] write_packet_def)
next
  case (Cons f1 fs)
  obtain h d where hd: "f1 = (h, d)" by (cases f1)
  define w1 where "w1 = (start_clock env h w)
    \<lparr>w_pos := length (pre @ encode [(h, d)]), w_sent := w_sent w @ [d]\<rparr>"
  have pk: "write_packet env m buf w = Write_Continue w1"
    unfolding w1_def using Cons.prems
    by (intro write_packet_encoded [of buf pre h d fs]) (simp_all add: hd)
  have w1: "w_pos w1 = length (pre @ encode [(h, d)])" "w_sent w1 = w_sent w @ [d]"
    by (simp_all add: w1_def)
  have buf: "buf = (pre @ encode [(h, d)]) @ encode fs" using Cons.prems(1) by (simp add: hd)
  have fs: "list_all (sendable m) fs" using Cons.prems(4) by simp
  show ?case
  proof (cases Sync)
    case False
    then obtain w' where "write_loop env Sync m buf w1 =
        Some (Write_Return (int (length ((pre @ encode [(h, d)]) @ encode fs))) w')"
      "w_sent w' = w_sent w1 @ map snd fs"
      using Cons.IH [OF buf w1(1) Cons.prems(3) fs Cons.prems(5)] by auto
    then show ?thesis
      using pk False w1 by (intro exI [of _ "f1 # fs"] exI [of _ "[]"] exI [of _ w'])
        (simp add: write_loop.simps [of _ _ _ _ w] hd)
  next
    case True
    then have clock: "clock_advances (ticks env)" using Cons.prems(6) by simp
    from sync_check_encoded [OF buf w1(1) fs Cons.prems(5) clock] consider
      (stop) "sync_check env m buf w1 = Some (Write_Return (int (length (pre @ encode [(h, d)]))) w1)"
      | (go) w2 where "fs \<noteq> []" "sync_check env m buf w1 = Some (Write_Continue w2)"
        "w_pos w2 = length (pre @ encode [(h, d)])" "w_sent w2 = w_sent w1" by blast
    then show ?thesis
    proof cases
      case stop
      then show ?thesis using pk True w1
        by (intro exI [of _ "[f1]"] exI [of _ fs] exI [of _ w1])
           (simp add: write_loop.simps [of _ _ _ _ w] hd)
    next
      case go
      with Cons.IH [OF buf go(3) Cons.prems(3) fs Cons.prems(5)] True clock obtain fs1 fs2 w'
        where r: "fs = fs1 @ fs2" "fs1 \<noteq> []" "write_loop env Sync m buf w2 =
          Some (Write_Return (int (length ((pre @ encode [(h, d)]) @ encode fs1))) w')"
          "w_sent w' = w_sent w2 @ map snd fs1" by auto
      then show ?thesis using pk True w1 go
        by (intro exI [of _ "f1 # fs1"] exI [of _ fs2] exI [of _ w'])
           (simp add: write_loop.simps [of _ _ _ _ w] hd)
    qed
  qed
qed

text \<open>A call of the device on the encoding of frames.\<close>

lemma send_packets_encoded:
  assumes "allocates env" and "list_all (sendable m) fs" and "length (encode fs) < 4294967296"
    and "Sync \<longrightarrow> clock_advances (ticks env)" and "fs \<noteq> []" and "0 < m"
  shows "\<exists>fs1 fs2. fs = fs1 @ fs2 \<and> fs1 \<noteq> [] \<and> (\<not> Sync \<longrightarrow> fs2 = []) \<and>
    send_packets_ioctl env False True Sync m (Some (encode fs)) =
      Some (Some (True, length (encode fs1), map snd fs1))"
proof -
  define w where "w = \<lparr>w_pos = 0, w_sent = [], w_query = 1, CurTicks = ticks env 0, StartTicks = 0,
    BufStartTime = (0, 0)\<rparr>"
  have "w_pos w = length ([] :: u8 list)" and "w_sent w = []" by (simp_all add: w_def)
  moreover have "encode fs = [] @ encode fs" by simp
  ultimately have "\<exists>fs1 fs2 w'. fs = fs1 @ fs2 \<and> (if Sync then fs1 \<noteq> [] else fs2 = []) \<and>
      write_loop env Sync m (encode fs) w = Some (Write_Return (int (length (encode fs1))) w') \<and>
      w_sent w' = map snd fs1"
    using write_loop_encoded [of "encode fs" "[]" fs w env m Sync] assms by simp
  then obtain fs1 fs2 w'
    where "fs = fs1 @ fs2" "if Sync then fs1 \<noteq> [] else fs2 = []"
      "write_loop env Sync m (encode fs) w = Some (Write_Return (int (length (encode fs1))) w')"
      "w_sent w' = map snd fs1" by blast
  moreover have "NPF_BufferedWrite env True Sync m (Some (encode fs)) =
      map_option (\<lambda>r. case r of Write_Return n w \<Rightarrow> Some (n, w_sent w) | _ \<Rightarrow> None)
        (write_loop env Sync m (encode fs) w)"
    using assms(6) by (simp add: NPF_BufferedWrite_def w_def)
  moreover have "fs1 \<noteq> []" and "\<not> Sync \<longrightarrow> fs2 = []"
    using calculation assms(5) by (auto split: if_splits)
  ultimately show ?thesis
    by (intro exI [of _ fs1] exI [of _ fs2]) (simp add: send_packets_ioctl_def)
qed

section \<open>The application's loop\<close>

text \<open>The driver as the application sees it: \<open>up n\<close> says whether the adapter is bound in call n.\<close>

definition npf_device :: "(nat \<Rightarrow> write_env) \<Rightarrow> (nat \<Rightarrow> bool) \<Rightarrow> bool \<Rightarrow> nat \<Rightarrow> device" where
  "npf_device envs up Sync m n data =
     send_packets_ioctl (envs n) False (up n) Sync m (if data = [] then None else Some data)"

lemma encode_not_Nil: "fs \<noteq> [] \<Longrightarrow> 16 \<le> length (encode fs)"
  by (cases fs) auto

lemma send_loop_encoded:
  assumes "take sz buf = encode (ds @ fs)" and "sz = length (encode (ds @ fs))"
    and "sz \<le> length buf" and "sz < 4294967296" and "fs \<noteq> []" and "0 < m"
    and "list_all (sendable m) fs" and "\<And>n. allocates (envs n)"
    and "\<And>n. Sync \<Longrightarrow> clock_advances (ticks (envs n))" and "clock_advances clock"
  shows "send_loop (npf_device envs (\<lambda>_. True) Sync m) clock fr buf sz base start n
    (length (encode ds)) q cur sent = Some (Some (sz, sent @ map snd fs))"
  using assms
proof (induction "length fs" arbitrary: ds fs n q cur sent rule: less_induct)
  case less
  let ?tot = "length (encode ds)"
  have sz: "sz = ?tot + length (encode fs)" using less.prems(2) by simp
  have "chunk buf ?tot (sz - ?tot) = drop ?tot (take sz buf)" by (simp add: chunk_def drop_take)
  then have ch: "chunk buf ?tot (sub32 sz ?tot) = encode fs"
    using less.prems(1,4) sz by simp
  have ne: "encode fs \<noteq> []" using encode_not_Nil [OF less.prems(5)] by auto
  have small: "length (encode fs) < 4294967296" using sz less.prems(4) by linarith
  have "npf_device envs (\<lambda>_. True) Sync m n (encode fs) =
      send_packets_ioctl (envs n) False True Sync m (Some (encode fs))"
    using ne by (simp add: npf_device_def)
  moreover have "Sync \<longrightarrow> clock_advances (ticks (envs n))" using less.prems(9) by blast
  ultimately obtain fs1 fs2 where fs: "fs = fs1 @ fs2" "fs1 \<noteq> []"
    and dev: "npf_device envs (\<lambda>_. True) Sync m n (encode fs) =
      Some (Some (True, length (encode fs1), map snd fs1))"
    using send_packets_encoded [OF less.prems(8,7) small _ less.prems(5,6), of Sync n] by metis
  have tot1: "add32 ?tot (length (encode fs1)) = length (encode (ds @ fs1))"
    using sz less.prems(4) fs(1) by simp
  show ?case
  proof (cases "fs2 = []")
    case True
    then show ?thesis using dev ch fs tot1 sz
      by (simp add: send_loop.simps [of _ _ _ _ _ _ _ n])
  next
    case False
    then have rest: "16 \<le> length (encode fs2)" by (rule encode_not_Nil)
    then have ne2: "encode fs2 \<noteq> []" by auto
    then have lt: "\<not> sz \<le> length (encode (ds @ fs1))" using sz fs by simp
    then obtain tv where tv: "slice buf (length (encode (ds @ fs1))) 8 = Some tv"
      using less.prems(3) rest sz fs by (simp add: slice_def)
    let ?target = "start + (sint ((le32_of tv - fst base) * 1000000 +
      (le32_of (drop 4 tv) - snd base)) * fr) sdiv 1000000"
    obtain q' c' where wt: "wait_ticks clock ?target q cur = Some (q', c')"
      using wait_ticks_defined [OF less.prems(10)] by (metis surj_pair)
    have "send_loop (npf_device envs (\<lambda>_. True) Sync m) clock fr buf sz base start (n + 1)
        (length (encode (ds @ fs1))) q' c' (sent @ map snd fs1) =
      Some (Some (sz, (sent @ map snd fs1) @ map snd fs2))"
      using less.prems fs False rest ne2 by (intro less.hyps) auto
    then show ?thesis using dev ch tot1 lt tv wt fs
      by (simp add: send_loop.simps [of _ _ _ _ _ _ _ n] Let_def)
  qed
qed

lemma transmit_encoded:
  assumes q: "queue_holds q fs" and fs: "fs \<noteq> []" "list_all (sendable m) fs" and m: "0 < m"
    and env: "\<And>n. allocates (envs n)" "\<And>n. Sync \<Longrightarrow> clock_advances (ticks (envs n))"
    and clock: "clock_advances clock"
  shows "pcap_sendqueue_transmit True True (npf_device envs (\<lambda>_. True) Sync m) clock fr q =
    Some (Some (sq_len q, map snd fs))"
proof -
  have len: "sq_len q = length (encode ([] @ fs))" "take (sq_len q) (sq_buffer q) = encode ([] @ fs)"
    "sq_len q \<le> length (sq_buffer q)" "sq_len q < 4294967296"
    using q by (auto simp: queue_holds_def)
  then have "8 \<le> length (sq_buffer q)" using encode_not_Nil [OF fs(1)] by simp
  then obtain tv where tv: "slice (sq_buffer q) 0 8 = Some tv" by (simp add: slice_def)
  have zero: "length (encode []) = 0" by simp
  show ?thesis
    using send_loop_encoded [OF len(2,1,3,4) fs(1) m fs(2) env clock, unfolded zero] tv
    by (simp add: pcap_sendqueue_transmit_def PacketSendPackets_def)
qed

text \<open>A device that takes no byte and reports success keeps the loop going.\<close>

definition idle_device :: "device \<Rightarrow> u8 list \<Rightarrow> nat \<Rightarrow> bool" where
  "idle_device dev buf sz \<longleftrightarrow> 0 < sz \<and> 8 \<le> length buf \<and>
     (\<forall>n. dev n (chunk buf 0 (sub32 sz 0)) = Some (Some (True, 0, [])))"

lemma send_loop_returns:
  assumes "send_loop dev clock fr buf sz base start n tot q cur sent = Some r"
  shows "\<not> (idle_device dev buf sz \<and> tot = 0)"
proof (rule send_loop.raw_induct [OF _ assms, where P = "\<lambda>dev clock fr buf sz base start n tot q cur sent r.
      \<not> (idle_device dev buf sz \<and> tot = 0)"], goal_cases)
  case (1 loop dev clock fr buf sz base start n tot q cur sent r)
  show ?case
  proof
    assume idle: "idle_device dev buf sz \<and> tot = 0"
    then obtain tv where "slice buf 0 8 = Some tv" by (auto simp: slice_def idle_device_def)
    with 1(2) idle obtain q' c' where "loop dev clock fr buf sz base start (n + 1) 0 q' c' sent = Some r"
      by (auto simp: Let_def idle_device_def split: option.splits)
    from 1(1) [OF this] idle show False by blast
  qed
qed

lemma send_loop_diverges:
  assumes "idle_device dev buf sz"
  shows "send_loop dev clock fr buf sz base start n 0 q cur sent = None"
  using send_loop_returns [of dev clock fr buf sz base start n 0 q cur sent] assms
  by (cases "send_loop dev clock fr buf sz base start n 0 q cur sent") auto

end
