(* ===== verification/Send_Properties.thy ===== *)
theory Send_Properties
  imports Send_Correct
begin

text \<open>
  The properties of the transmission of packet buffers: what the driver sends of any buffer, that
  a send queue arrives at NDIS as it was filled, and the two calls that go wrong.
\<close>

section \<open>What a buffer contains\<close>

definition parsed :: "nat \<Rightarrow> u8 list \<Rightarrow> frame list \<Rightarrow> writer \<Rightarrow> bool" where
  "parsed m buf fs w \<longleftrightarrow> list_all (sendable m) fs \<and> w_sent w = map snd fs \<and>
     w_pos w = length (encode fs) \<and> take (length (encode fs)) buf = encode fs \<and>
     w_pos w \<le> length buf"

lemma parsed_cong: "parsed m buf fs w \<Longrightarrow> w_pos w' = w_pos w \<Longrightarrow> w_sent w' = w_sent w \<Longrightarrow> parsed m buf fs w'"
  by (simp add: parsed_def)

lemma le32_of_4: "4 \<le> length xs \<Longrightarrow> le32_bytes (le32_of xs) = take 4 xs"
  by (cases xs rule: le32_of.cases) (simp_all add: le32_bytes_le32)

lemma sf_pkthdr_bytes_of:
  assumes "length x = 16"
  shows "sf_pkthdr_bytes (sf_pkthdr_of x) = x"
proof -
  have "x = take 4 x @ take 4 (drop 4 x) @ take 4 (drop 8 x) @ take 4 (drop 12 x)"
    using assms by (intro nth_equalityI) (auto simp: nth_append)
  then show ?thesis
    using assms by (simp add: sf_pkthdr_bytes_def sf_pkthdr_of_def le32_of_4)
qed

lemma take_chunk: "take n xs @ chunk xs n j = take (n + j) xs"
  by (simp add: chunk_def take_add)

lemma write_packet_parsed:
  assumes w: "parsed m buf fs w" and small: "length buf < 4294967296"
    and step: "write_packet env m buf w = Write_Continue w'"
  shows "\<exists>f. parsed m buf (fs @ [f]) w'"
proof -
  let ?p = "w_pos w" and ?h = "chunk buf (w_pos w) 16"
  let ?n = "unat (caplen (sf_pkthdr_of ?h))"
  let ?d = "chunk buf (?p + 16) ?n"
  have c: "?p + 16 + ?n \<le> length buf" "0 < ?n" "?n \<le> m" "w_pos w' = ?p + 16 + ?n"
    "w_sent w' = w_sent w @ [?d]"
    using step by (auto simp: write_packet_def Let_def slice_eq_Some split: if_splits option.splits)
  let ?f = "(sf_pkthdr_of ?h, ?d)"
  have "length ?h = 16" "length ?d = ?n" using c(1) by simp_all
  then have f: "sendable m ?f" "encode [?f] = ?h @ ?d" "length (encode [?f]) = 16 + ?n"
    using c(2,3) by (simp_all add: sendable_def frame_ok_def sf_pkthdr_bytes_of)
  have "take (w_pos w') buf = take ?p buf @ ?h @ ?d"
    using take_chunk [of ?p buf 16] take_chunk [of "?p + 16" buf ?n] c(4) by (metis append.assoc)
  then have "take (w_pos w') buf = encode (fs @ [?f])"
    using w f(2) by (simp add: parsed_def)
  moreover have "w_pos w' = length (encode (fs @ [?f]))"
    using w f(3) c(4) by (simp add: parsed_def)
  moreover have "w_sent w' = map snd (fs @ [?f])" using w c(5) by (simp add: parsed_def)
  moreover have "list_all (sendable m) (fs @ [?f])" using w f(1) by (simp add: parsed_def)
  ultimately have "parsed m buf (fs @ [?f]) w'"
    using c(1) unfolding parsed_def by (simp only: c(4))
  then show ?thesis by blast
qed

lemma parsed_pos:
  assumes "parsed m buf fs w" and "length buf < 4294967296"
  shows "sub32 (length buf) (w_pos w) = length buf - w_pos w"
  using assms by (simp add: parsed_def)

lemma write_packet_stop:
  assumes w: "parsed m buf fs w" and small: "length buf < 4294967296"
    and stop: "\<And>w'. write_packet env m buf w \<noteq> Write_Continue w'"
  shows "\<exists>n w'. write_packet env m buf w = Write_Return n w' \<and> parsed m buf fs w' \<and>
    (n = - 1 \<or> n = int (length (encode fs)))"
proof -
  let ?p = "w_pos w" and ?h = "chunk buf (w_pos w) 16"
  let ?n = "unat (caplen (sf_pkthdr_of ?h))"
  note rem = parsed_pos [OF w small]
  have w1: "parsed m buf fs (start_clock env hdr w)" for hdr
    by (rule parsed_cong [OF w]) simp_all
  have pos: "?p = length (encode fs)" using w by (simp add: parsed_def)
  show ?thesis
  proof (cases "?p = length buf \<or> length buf - ?p < 16")
    case True
    then have "write_packet env m buf w = Write_Return (int ?p) w \<or>
        write_packet env m buf w = Write_Return (- 1) w"
      using rem by (auto simp: write_packet_def Let_def)
    then show ?thesis using w pos by auto
  next
    case False
    then have "?p + 16 \<le> length buf" by linarith
    then have sl: "slice buf ?p 16 = Some ?h" and rem2: "sub32 (length buf) (?p + 16) = length buf - (?p + 16)"
      using small by (simp_all add: slice_def)
    have "slice buf (?p + 16) ?n \<noteq> None" if "?n \<le> length buf - (?p + 16)"
    proof -
      have "?p + 16 + ?n \<le> length buf" using that False by linarith
      then show ?thesis by (simp add: slice_def)
    qed
    then have "write_packet env m buf w = Write_Return (- 1) w \<or>
        write_packet env m buf w = Write_Return (- 1) (start_clock env (sf_pkthdr_of ?h) w)"
    proof -
      let ?i = "length (w_sent w)" and ?w1 = "start_clock env (sf_pkthdr_of ?h) w"
      have "write_packet env m buf w =
          (if ?n = 0 \<or> ?n > m then Write_Return (- 1) w
           else if ?n > length buf - (?p + 16) then Write_Return (- 1) ?w1
           else if \<not> w_mdl env ?i then Write_Return (- 1) ?w1
           else if \<not> w_packet env ?i \<and> \<not> w_retry env ?i then Write_Return (- 1) ?w1
           else (case slice buf (?p + 16) ?n of
               None \<Rightarrow> Write_Overread
             | Some d \<Rightarrow> Write_Continue (?w1\<lparr>w_pos := ?p + 16 + ?n, w_sent := w_sent w @ [d]\<rparr>)))"
        using False sl rem rem2 by (simp add: write_packet_def Let_def)
      moreover have "\<not> (\<exists>w'. write_packet env m buf w = Write_Continue w')" using stop by blast
      ultimately show ?thesis
        using \<open>?n \<le> length buf - (?p + 16) \<Longrightarrow> slice buf (?p + 16) ?n \<noteq> None\<close>
        by (cases "slice buf (?p + 16) ?n") (auto split: if_splits)
    qed
    then show ?thesis using w w1 by blast
  qed
qed

lemma sync_check_parsed:
  assumes w: "parsed m buf fs w" and small: "length buf < 4294967296"
    and r: "sync_check env m buf w = Some r"
  shows "(\<exists>w'. r = Write_Continue w' \<and> parsed m buf fs w') \<or>
    (\<exists>n. r = Write_Return n w \<and> (n = - 1 \<or> n = int (length (encode fs))))"
proof -
  note rem = parsed_pos [OF w small]
  have pos: "w_pos w = length (encode fs)" using w by (simp add: parsed_def)
  show ?thesis
  proof (cases "w_pos w = length buf \<or> length buf - w_pos w < 16")
    case True
    then have "r = Write_Return (int (w_pos w)) w \<or> r = Write_Return (- 1) w"
      using r rem by (cases "w_pos w = length buf") (auto simp: sync_check_def)
    then show ?thesis using pos by auto
  next
    case False
    then have "w_pos w + 16 \<le> length buf" by linarith
    then have "slice buf (w_pos w) 16 = Some (chunk buf (w_pos w) 16)" by (simp add: slice_def)
    then have "r = Write_Return (- 1) w \<or> r = Write_Return (int (w_pos w)) w \<or>
        (\<exists>q c. r = Write_Continue (w\<lparr>w_query := q, CurTicks := c\<rparr>))"
      using False rem r by (auto simp: sync_check_def Let_def split: if_splits)
    moreover have "parsed m buf fs (w\<lparr>w_query := q, CurTicks := c\<rparr>)" for q c
      by (rule parsed_cong [OF w]) simp_all
    ultimately show ?thesis using pos by auto
  qed
qed

lemma write_loop_parsed:
  assumes "parsed m buf fs w" and "length buf < 4294967296" and "write_loop env Sync m buf w = Some r"
  shows "\<exists>n w' gs. r = Write_Return n w' \<and> parsed m buf (fs @ gs) w' \<and>
    (n = - 1 \<or> n = int (length (encode (fs @ gs))))"
  using assms
proof (induction env Sync m buf w arbitrary: fs rule: write_loop.induct)
  case (1 env Sync m buf w)
  show ?case
  proof (cases "\<exists>w1. write_packet env m buf w = Write_Continue w1")
    case False
    with write_packet_stop [OF 1(3,4)] obtain n w' where s: "write_packet env m buf w = Write_Return n w'"
      "parsed m buf fs w'" "n = - 1 \<or> n = int (length (encode fs))" by blast
    then have "r = Write_Return n w'" using 1(5) by (simp add: write_loop.simps [of _ _ _ _ w])
    with s show ?thesis by (intro exI [of _ n] exI [of _ w'] exI [of _ "[]"]) simp
  next
    case True
    then obtain w1 where w1: "write_packet env m buf w = Write_Continue w1" by blast
    from write_packet_parsed [OF 1(3,4) w1] obtain f where p1: "parsed m buf (fs @ [f]) w1" by blast
    show ?thesis
    proof (cases Sync)
      case False
      then have "write_loop env Sync m buf w1 = Some r"
        using 1(5) w1 by (simp add: write_loop.simps [of _ _ _ _ w])
      from 1(2) [OF w1 False p1 1(4) this] show ?thesis by (metis append.assoc)
    next
      case True
      then obtain c where c: "sync_check env m buf w1 = Some c"
        using 1(5) w1 by (auto simp: write_loop.simps [of _ _ _ _ w] split: option.splits)
      from sync_check_parsed [OF p1 1(4) c] consider
        (go) w2 where "c = Write_Continue w2" "parsed m buf (fs @ [f]) w2"
        | (stop) n where "c = Write_Return n w1" "n = - 1 \<or> n = int (length (encode (fs @ [f])))"
        by blast
      then show ?thesis
      proof cases
        case go
        then have "write_loop env Sync m buf w2 = Some r"
          using 1(5) w1 c True by (simp add: write_loop.simps [of _ _ _ _ w])
        from 1(1) [OF w1 True c go(1) go(2) 1(4) this] show ?thesis by (metis append.assoc)
      next
        case stop
        then have "r = Write_Return n w1"
          using 1(5) w1 c True by (simp add: write_loop.simps [of _ _ _ _ w])
        with stop p1 show ?thesis by (intro exI [of _ n] exI [of _ w1] exI [of _ "[f]"]) simp
      qed
    qed
  qed
qed

lemma sync_check_defined:
  assumes "clock_advances (ticks env)"
  shows "\<exists>r. sync_check env m buf w = Some r"
  using wait_ticks_defined [OF assms]
  by (auto simp: sync_check_def Let_def split: option.splits)

lemma write_loop_returns:
  "Sync \<longrightarrow> clock_advances (ticks env) \<Longrightarrow> \<exists>r. write_loop env Sync m buf w = Some r"
proof (induction env Sync m buf w rule: write_loop.induct)
  case (1 env Sync m buf w)
  show ?case
  proof (cases "write_packet env m buf w")
    case (Write_Continue w1)
    show ?thesis
    proof (cases Sync)
      case False
      with 1(2) [OF Write_Continue False] Write_Continue show ?thesis
        by (simp add: write_loop.simps [of _ _ _ _ w])
    next
      case True
      then obtain c where c: "sync_check env m buf w1 = Some c"
        using sync_check_defined 1(3) by blast
      with 1(1) [OF Write_Continue True c] 1(3) Write_Continue True show ?thesis
        by (cases c) (simp_all add: write_loop.simps [of _ _ _ _ w])
    qed
  qed (simp_all add: write_loop.simps [of _ _ _ _ w])
qed

section \<open>The driver\<close>

text \<open>
  C15: Whatever the application passes, \<open>NPF_BufferedWrite\<close> never reads outside the buffer. What it
  has handed to NDIS is what the buffer says: the buffer starts with the encoding of frames between
  1 and MaxFrameSize bytes, the packets are those frames in order, and the result is -1 or the length
  of their encoding. It returns, unless a synchronous write waits for a clock that has stopped.
\<close>

theorem buffered_write_safe:
  assumes "length buf < 4294967296"
  shows "(NPF_BufferedWrite env True Sync m (Some buf) = None \<longrightarrow> Sync \<and> \<not> clock_advances (ticks env)) \<and>
    (\<forall>r. NPF_BufferedWrite env True Sync m (Some buf) = Some r \<longrightarrow>
      (\<exists>n fs. r = Some (n, map snd fs) \<and> list_all (sendable m) fs \<and>
        take (length (encode fs)) buf = encode fs \<and> (n = - 1 \<or> n = int (length (encode fs)))))"
proof (cases "m = 0")
  case True
  then show ?thesis by (auto simp: NPF_BufferedWrite_def intro!: exI [of _ "[]"])
next
  case False
  define w where "w = \<lparr>w_pos = 0, w_sent = [], w_query = 1, CurTicks = ticks env 0, StartTicks = 0,
    BufStartTime = (0, 0)\<rparr>"
  have w: "parsed m buf [] w" by (simp add: parsed_def w_def)
  have call: "NPF_BufferedWrite env True Sync m (Some buf) =
      map_option (\<lambda>r. case r of Write_Return n w \<Rightarrow> Some (n, w_sent w) | _ \<Rightarrow> None)
        (write_loop env Sync m buf w)"
    using False by (simp add: NPF_BufferedWrite_def w_def)
  show ?thesis
  proof (cases "write_loop env Sync m buf w")
    case None
    then show ?thesis using call write_loop_returns [of Sync env m buf w] by auto
  next
    case (Some c)
    from write_loop_parsed [OF w assms Some] obtain n w' gs where
      "c = Write_Return n w'" "parsed m buf gs w'" "n = - 1 \<or> n = int (length (encode gs))" by auto
    then show ?thesis using call Some by (auto simp: parsed_def)
  qed
qed

definition sample_hdr :: "u32 \<Rightarrow> sf_pkthdr" where
  "sample_hdr n = \<lparr>ts_sec = 0, ts_usec = 0, caplen = n, wire_len = n\<rparr>"

definition sample_write :: write_env where
  "sample_write = \<lparr>ticks = int, freq = 1000000, w_mdl = (\<lambda>_. True), w_packet = (\<lambda>_. True),
     w_retry = (\<lambda>_. False)\<rparr>"

lemma sample_clock: "clock_advances int"
  unfolding clock_advances_def
proof (intro allI)
  fix t q
  have "t < int (max q (nat t + 1))" by linarith
  then show "\<exists>n \<ge> q. t < int n" by (intro exI [of _ "max q (nat t + 1)"]) simp
qed

lemma buffered_write_safe_witness:
  "\<exists>n fs. NPF_BufferedWrite sample_write True False 1514 (Some (sf_pkthdr_bytes (sample_hdr 9) @ [7])) =
     Some (Some (n, map snd fs)) \<and> (n = - 1 \<or> n = int (length (encode fs)))"
proof -
  let ?r = "NPF_BufferedWrite sample_write True False 1514 (Some (sf_pkthdr_bytes (sample_hdr 9) @ [7]))"
  have "(?r = None \<longrightarrow> False) \<and> (\<forall>r. ?r = Some r \<longrightarrow>
      (\<exists>n fs. r = Some (n, map snd fs) \<and> (n = - 1 \<or> n = int (length (encode fs)))))"
    using buffered_write_safe [of "sf_pkthdr_bytes (sample_hdr 9) @ [7]" sample_write False 1514]
    by fastforce
  then show ?thesis by (cases ?r) blast+
qed

section \<open>The queue\<close>

fun queue_all :: "pcap_send_queue \<Rightarrow> frame list \<Rightarrow> pcap_send_queue option" where
  "queue_all q [] = Some q"
| "queue_all q ((h, d) # fs) =
     (case pcap_sendqueue_queue q h d of Some (r, q') \<Rightarrow> (if r = 0 then queue_all q' fs else None) | None \<Rightarrow> None)"

lemma queue_all_holds:
  assumes "queue_holds q gs" and "list_all frame_ok fs" and "length (encode (gs @ fs)) \<le> sq_maxlen q"
  shows "\<exists>q'. queue_all q fs = Some q' \<and> queue_holds q' (gs @ fs)"
  using assms
proof (induction fs arbitrary: q gs)
  case (Cons f fs)
  obtain h d where f: "f = (h, d)" by (cases f)
  have "sq_len q + 16 + length d \<le> sq_maxlen q" using Cons.prems by (simp add: f queue_holds_def)
  then obtain q' where q': "pcap_sendqueue_queue q h d = Some (0, q')" "queue_holds q' (gs @ [(h, d)])"
    "sq_maxlen q' = sq_maxlen q"
    using queue_fits [OF Cons.prems(1), of h d] Cons.prems(2) by (auto simp: f)
  from Cons.IH [OF q'(2)] Cons.prems q' show ?case by (simp add: f)
qed simp

text \<open>
  C14: A send queue arrives at NDIS as it was filled. Frames that fit into the queue and whose lengths
  are between 1 and the maximum are all accepted, and transmitting the queue, synchronised or not,
  in as many calls of the driver as that takes, sends exactly these frames in their order and
  returns the length of the queue.
\<close>

theorem sendqueue_roundtrip:
  assumes "pcap_sendqueue_alloc True malloc memsize = Some q0" and "\<And>b. malloc memsize = Some b \<Longrightarrow> length b = memsize"
    and "memsize < 4294967296" and "length (encode fs) \<le> memsize" and "fs \<noteq> []" and "0 < m"
    and "list_all (sendable m) fs" and "\<And>n. allocates (envs n)"
    and "\<And>n. Sync \<Longrightarrow> clock_advances (ticks (envs n))" and "clock_advances clock"
  shows "\<exists>q. queue_all q0 fs = Some q \<and>
    pcap_sendqueue_transmit True True (npf_device envs (\<lambda>_. True) Sync m) clock fr q =
      Some (Some (length (encode fs), map snd fs))"
proof -
  have q0: "queue_holds q0 []" "sq_maxlen q0 = memsize" using alloc_holds [OF assms(1-3)] by auto
  have "list_all frame_ok fs" using assms(7) by (auto simp: list_all_iff sendable_def)
  with queue_all_holds [OF q0(1), of fs] q0(2) assms(4) obtain q
    where q: "queue_all q0 fs = Some q" "queue_holds q fs" by auto
  with transmit_encoded [OF q(2) assms(5,7,6,8-10)] show ?thesis by (auto simp: queue_holds_def)
qed

definition sample_frames :: "frame list" where
  "sample_frames = [(sample_hdr 2, [1, 2]), (sample_hdr 3, [4, 5, 6])]"

lemma sendqueue_roundtrip_witness:
  "\<exists>q. queue_all \<lparr>sq_maxlen = 64, sq_len = 0, sq_buffer = replicate 64 0\<rparr> sample_frames = Some q \<and>
    pcap_sendqueue_transmit True True (npf_device (\<lambda>_. sample_write) (\<lambda>_. True) True 1514) int 1000000 q =
      Some (Some (37, [[1, 2], [4, 5, 6]]))"
proof -
  have "pcap_sendqueue_alloc True (\<lambda>n. Some (replicate n 0)) 64 =
      Some \<lparr>sq_maxlen = 64, sq_len = 0, sq_buffer = replicate 64 0\<rparr>"
    by (simp add: pcap_sendqueue_alloc_def)
  from sendqueue_roundtrip [OF this, of sample_frames 1514 "\<lambda>_. sample_write" True int 1000000] sample_clock
  show ?thesis
    by (simp add: sample_frames_def sample_hdr_def sendable_def frame_ok_def allocates_def sample_write_def)
qed

section \<open>Two calls that go wrong\<close>

text \<open>
  \<open>PacketSendPackets\<close> never returns when the adapter is gone. The driver reports a removed adapter
  as success with no bytes, and the loop has no other exit: transmitting a queue that is not empty
  does not end.
\<close>

theorem removed_adapter_hangs:
  assumes "queue_holds q fs" and "fs \<noteq> []"
  shows "pcap_sendqueue_transmit True True (npf_device envs (\<lambda>_. False) Sync m) clock fr q = None"
proof -
  have len: "16 \<le> sq_len q" "sq_len q \<le> length (sq_buffer q)"
    using assms encode_not_Nil [OF assms(2)] by (auto simp: queue_holds_def)
  then have "idle_device (npf_device envs (\<lambda>_. False) Sync m) (sq_buffer q) (sq_len q)"
    by (simp add: idle_device_def npf_device_def send_packets_ioctl_def NPF_BufferedWrite_def)
  from send_loop_diverges [OF this] len show ?thesis
    by (simp add: pcap_sendqueue_transmit_def PacketSendPackets_def slice_def)
qed

definition sample_queue :: pcap_send_queue where
  "sample_queue = \<lparr>sq_maxlen = 18, sq_len = 18, sq_buffer = encode [(sample_hdr 2, [1, 2])]\<rparr>"

lemma removed_adapter_hangs_witness:
  "pcap_sendqueue_transmit True True (npf_device (\<lambda>_. sample_write) (\<lambda>_. False) False 1514) int 1000000
     sample_queue = None"
  by (rule removed_adapter_hangs [of _ "[(sample_hdr 2, [1, 2])]"])
     (simp_all add: sample_queue_def queue_holds_def frame_ok_def sample_hdr_def)

text \<open>
  The room check of \<open>pcap_sendqueue_queue\<close> wraps around. With a captured length of nearly 2^32
  and room for one more header the packet is accepted and copied over the end of the queue.
\<close>

theorem sendqueue_overflows:
  assumes "queue_holds q fs" and "sq_len q + 16 \<le> sq_maxlen q"
    and "4294967296 \<le> sq_len q + 16 + unat (caplen h)"
  shows "pcap_sendqueue_queue q h d = None"
proof -
  let ?n = "unat (caplen h)"
  have q: "length (sq_buffer q) = sq_maxlen q" "sq_maxlen q < 4294967296" "sq_len q \<le> sq_maxlen q"
    using assms(1) by (auto simp: queue_holds_def)
  have n: "?n < 4294967296" by (rule unat_lt)
  have l: "add32 (sq_len q) 16 = sq_len q + 16" using assms(2) q by simp
  have "(sq_len q + 16 + ?n) mod 4294967296 = sq_len q + 16 + ?n - 4294967296"
    using assms q n by (subst le_mod_geq) simp_all
  then have room: "\<not> add32 (add32 (sq_len q) 16) ?n > sq_maxlen q"
    using assms q n l by (simp add: add32_def)
  have "blit b (sq_len q + 16) x = None"
    if "blit (sq_buffer q) (sq_len q) (sf_pkthdr_bytes h) = Some b" "slice d 0 ?n = Some x" for b x
  proof -
    have "length b = sq_maxlen q" using blit_length [OF that(1)] q by simp
    moreover have "length x = ?n" using that(2) by (auto simp: slice_def split: if_splits)
    ultimately show ?thesis using assms(3) q(2) by (simp add: blit_def)
  qed
  then show ?thesis
    using room l
    by (cases "blit (sq_buffer q) (sq_len q) (sf_pkthdr_bytes h)"; cases "slice d 0 ?n")
       (simp_all add: pcap_sendqueue_queue_def Let_def)
qed

lemma sendqueue_overflows_witness:
  "\<forall>d. pcap_sendqueue_queue \<lparr>sq_maxlen = 64, sq_len = 0, sq_buffer = replicate 64 0\<rparr>
     (sample_hdr 0xfffffff0) d = None"
  by (intro allI, rule sendqueue_overflows [of _ "[]"]) (simp_all add: queue_holds_def sample_hdr_def)

end
