(* ===== verification/Write_Sync.thy ===== *)
theory Write_Sync
  imports Prelude
begin

text \<open>
  The synchronisation of \<open>NPF_Write\<close> with \<open>NPF_SendComplete\<close> (\<open>packetNtx/driver/Write.c\<close>): the
  writer sends the same frame a number of times and then waits for the event that the last
  completion sets; the completions run on other threads. Every interlocked operation and every
  operation on an event is a step of its own. The answers of NDIS, whether a packet can be
  allocated and whether a send is pending, are part of the label of the step.
\<close>

section \<open>The checks of a request\<close>

definition write_check :: "bool \<Rightarrow> nat \<Rightarrow> nat \<Rightarrow> nat \<Rightarrow> bool \<Rightarrow> bool \<Rightarrow> bool \<Rightarrow> (status \<times> nat) option" where
  "write_check opened NumSends len MaxFrameSize mdl binding busy =
     (if \<not> opened then Some (STATUS_CANCELLED, 0)
      else if NumSends = 0 then Some (STATUS_SUCCESS, 0)
      else if len = 0 \<or> MaxFrameSize = 0 \<or> \<not> mdl \<or> len > MaxFrameSize then Some (STATUS_UNSUCCESSFUL, 0)
      else if \<not> binding then Some (STATUS_INVALID_DEVICE_REQUEST, 0)
      else if busy then Some (STATUS_UNSUCCESSFUL, 0)
      else None)"

section \<open>The steps\<close>

record write_sync =
  TransmitPendingPackets :: nat
  WriteEvent :: bool
  NdisWriteCompleteEvent :: bool
  WriteInProgress :: bool

text \<open>
  A packet that NDIS holds is \<open>SC_Flight\<close>; its completion first takes it from the counter, and
  carries the value it read to the two events.
\<close>

datatype send_pc = SC_Flight | SC_Signal nat | SC_Complete nat | SC_Done

fun NPF_SendComplete :: "send_pc \<Rightarrow> write_sync \<Rightarrow> send_pc \<times> write_sync" where
  "NPF_SendComplete SC_Flight s =
     (SC_Signal (TransmitPendingPackets s - 1),
      s\<lparr>TransmitPendingPackets := TransmitPendingPackets s - 1\<rparr>)"
| "NPF_SendComplete (SC_Signal v) s = (SC_Complete v, s\<lparr>WriteEvent := v < 256 div 2\<rparr>)"
| "NPF_SendComplete (SC_Complete v) s =
     (SC_Done, if v = 0 then s\<lparr>NdisWriteCompleteEvent := True\<rparr> else s)"
| "NPF_SendComplete SC_Done s = (SC_Done, s)"

datatype write_pc =
    WR_Start | WR_Loop nat | WR_Wait nat | WR_Count nat | WR_Arm nat | WR_Send nat
  | WR_Inline nat send_pc | WR_WaitComplete | WR_Leave | WR_Done

text \<open>The last component says that a packet is now with NDIS.\<close>

fun NPF_Write :: "nat \<Rightarrow> bool \<Rightarrow> write_pc \<Rightarrow> write_sync \<Rightarrow> write_pc \<times> write_sync \<times> bool" where
  "NPF_Write N ndis WR_Start s =
     (WR_Loop 0, s\<lparr>TransmitPendingPackets := 0, WriteEvent := False\<rparr>, False)"
| "NPF_Write N ndis (WR_Loop n) s =
     (if n < N then (if ndis then WR_Count n else WR_Wait n) else WR_WaitComplete, s, False)"
| "NPF_Write N ndis (WR_Wait n) s = (WR_Loop n, s, False)"
| "NPF_Write N ndis (WR_Count n) s =
     (WR_Arm n, s\<lparr>TransmitPendingPackets := TransmitPendingPackets s + 1\<rparr>, False)"
| "NPF_Write N ndis (WR_Arm n) s = (WR_Send n, s\<lparr>NdisWriteCompleteEvent := False\<rparr>, False)"
| "NPF_Write N ndis (WR_Send n) s =
     (if ndis then (WR_Loop (n + 1), s, True) else (WR_Inline n SC_Flight, s, False))"
| "NPF_Write N ndis (WR_Inline n c) s =
     (if c = SC_Done then (WR_Loop (n + 1), s, False)
      else (WR_Inline n (fst (NPF_SendComplete c s)), snd (NPF_SendComplete c s), False))"
| "NPF_Write N ndis WR_WaitComplete s =
     (if NdisWriteCompleteEvent s then WR_Leave else WR_WaitComplete, s, False)"
| "NPF_Write N ndis WR_Leave s = (WR_Done, s\<lparr>WriteInProgress := False\<rparr>, False)"
| "NPF_Write N ndis WR_Done s = (WR_Done, s, False)"

type_synonym tx_sys = "write_sync \<times> write_pc \<times> send_pc list"

datatype tx_label = Writer bool | Completion nat

fun tx_step :: "nat \<Rightarrow> tx_label \<Rightarrow> tx_sys \<Rightarrow> tx_sys" where
  "tx_step N (Writer ndis) (s, pc, cs) =
     (case NPF_Write N ndis pc s of (pc', s', flies) \<Rightarrow>
        (s', pc', if flies then cs @ [SC_Flight] else cs))"
| "tx_step N (Completion i) (s, pc, cs) =
     (if i < length cs
      then (case NPF_SendComplete (cs ! i) s of (c', s') \<Rightarrow> (s', pc, cs[i := c']))
      else (s, pc, cs))"

definition tx_start :: "tx_sys \<Rightarrow> bool" where
  "tx_start a \<longleftrightarrow> (case a of (s, pc, cs) \<Rightarrow>
     pc = WR_Start \<and> cs = [] \<and> \<not> NdisWriteCompleteEvent s \<and> WriteInProgress s)"

inductive tx_reach :: "(tx_label \<Rightarrow> tx_sys \<Rightarrow> bool) \<Rightarrow> nat \<Rightarrow> tx_sys \<Rightarrow> bool" for allowed N where
  tx_init: "tx_start a \<Longrightarrow> tx_reach allowed N a"
| tx_next: "tx_reach allowed N a \<Longrightarrow> allowed l a \<Longrightarrow> tx_reach allowed N (tx_step N l a)"

section \<open>The counter and the events\<close>

definition flies :: "send_pc \<Rightarrow> bool" where
  "flies c \<longleftrightarrow> c = SC_Flight"

text \<open>A completion that has taken the last packet from the counter and not yet set the event.\<close>

definition late :: "send_pc \<Rightarrow> bool" where
  "late c \<longleftrightarrow> c = SC_Signal 0 \<or> c = SC_Complete 0"

fun counted_by :: "write_pc \<Rightarrow> nat" where
  "counted_by (WR_Arm n) = 1"
| "counted_by (WR_Send n) = 1"
| "counted_by (WR_Inline n c) = of_bool (flies c)"
| "counted_by _ = 0"

fun inline :: "write_pc \<Rightarrow> send_pc list" where
  "inline (WR_Inline n c) = [c]"
| "inline _ = []"

fun armed :: "write_pc \<Rightarrow> bool" where
  "armed WR_Start \<longleftrightarrow> False"
| "armed (WR_Loop n) \<longleftrightarrow> n \<noteq> 0"
| "armed (WR_Wait n) \<longleftrightarrow> n \<noteq> 0"
| "armed (WR_Count n) \<longleftrightarrow> n \<noteq> 0"
| "armed (WR_Arm n) \<longleftrightarrow> n \<noteq> 0"
| "armed _ \<longleftrightarrow> True"

text \<open>What holds in every run.\<close>

definition tx_inv :: "tx_sys \<Rightarrow> bool" where
  "tx_inv a \<longleftrightarrow> (case a of (s, pc, cs) \<Rightarrow>
     (pc = WR_Start \<longrightarrow> cs = []) \<and>
     (pc \<noteq> WR_Start \<longrightarrow> TransmitPendingPackets s = cnt flies cs + counted_by pc) \<and>
     (armed pc \<and> TransmitPendingPackets s = 0 \<longrightarrow>
        NdisWriteCompleteEvent s \<or> list_ex late (inline pc @ cs)))"

text \<open>What holds as well where no completion is late when the writer counts a packet.\<close>

definition tx_calm :: "tx_sys \<Rightarrow> bool" where
  "tx_calm a \<longleftrightarrow> (case a of (s, pc, cs) \<Rightarrow>
     (list_ex late (inline pc @ cs) \<longrightarrow> TransmitPendingPackets s = 0) \<and>
     (NdisWriteCompleteEvent s \<longrightarrow> TransmitPendingPackets s = 0 \<or> (\<exists>n. pc = WR_Arm n)) \<and>
     (pc = WR_Leave \<or> pc = WR_Done \<longrightarrow> TransmitPendingPackets s = 0))"

fun calm_label :: "tx_label \<Rightarrow> tx_sys \<Rightarrow> bool" where
  "calm_label (Writer ndis) (s, WR_Count n, cs) \<longleftrightarrow> \<not> list_ex late cs"
| "calm_label _ _ \<longleftrightarrow> True"

lemma flies_simps [simp]:
  "flies SC_Flight" "\<not> flies (SC_Signal v)" "\<not> flies (SC_Complete v)" "\<not> flies SC_Done"
  by (simp_all add: flies_def)

lemma late_simps [simp]:
  "\<not> late SC_Flight" "late (SC_Signal v) \<longleftrightarrow> v = 0" "late (SC_Complete v) \<longleftrightarrow> v = 0" "\<not> late SC_Done"
  by (auto simp: late_def)

lemma cnt_snoc [simp]: "cnt P (xs @ [x]) = cnt P xs + of_bool (P x)" "cnt P [] = 0"
  by (simp_all add: cnt_def)

lemma list_ex_update:
  "i < length xs \<Longrightarrow> list_ex P (xs[i := y]) \<Longrightarrow> P y \<or> list_ex P xs"
  "i < length xs \<Longrightarrow> P y \<Longrightarrow> list_ex P (xs[i := y])"
  "i < length xs \<Longrightarrow> list_ex P xs \<Longrightarrow> \<not> P (xs ! i) \<Longrightarrow> list_ex P (xs[i := y])"
  by (auto simp: list_ex_length nth_list_update split: if_splits)

section \<open>Preservation\<close>

lemma flight_counted: "list_ex flies cs \<Longrightarrow> 0 < cnt flies cs"
  by (induction cs) (auto simp: cnt_def)

lemma tx_inv_writer:
  assumes "tx_inv (s, pc, cs)" and "0 < N"
  shows "tx_inv (tx_step N (Writer ndis) (s, pc, cs))"
proof (cases pc)
  case (WR_Inline n c)
  then show ?thesis using assms by (cases c) (auto simp: tx_inv_def)
qed (use assms in \<open>auto simp: tx_inv_def\<close>)

lemma tx_inv_completion:
  assumes inv: "tx_inv (s, pc, cs)"
  shows "tx_inv (tx_step N (Completion i) (s, pc, cs))"
proof (cases "i < length cs")
  case i: True
  show ?thesis
  proof (cases "pc = WR_Start")
    case True
    then show ?thesis using inv i by (auto simp: tx_inv_def)
  next
    case False
    note cnt = cnt_update [OF i, of flies]
    have n: "TransmitPendingPackets s = cnt flies cs + counted_by pc"
      and ev: "armed pc \<and> TransmitPendingPackets s = 0 \<longrightarrow>
        NdisWriteCompleteEvent s \<or> list_ex late (inline pc @ cs)"
      using inv False by (auto simp: tx_inv_def)
    show ?thesis
    proof (cases "cs ! i")
      case SC_Flight
      then have "0 < cnt flies cs" using cnt_pos [OF i, of flies] by simp
      then show ?thesis
        using SC_Flight i n cnt [of "SC_Signal (TransmitPendingPackets s - 1)"] False
        by (auto simp: tx_inv_def list_ex_update)
    next
      case (SC_Signal v)
      then show ?thesis using i n ev cnt [of "SC_Complete v"] False
        list_ex_update(3) [OF i, of late "SC_Complete v"] list_ex_update(2) [OF i, of late "SC_Complete v"]
        by (cases "v = 0") (auto simp: tx_inv_def)
    next
      case (SC_Complete v)
      then show ?thesis using i n ev cnt [of SC_Done] False
        list_ex_update(3) [OF i, of late SC_Done]
        by (auto simp: tx_inv_def)
    next
      case SC_Done
      then have "cs[i := SC_Done] = cs" by (metis list_update_id)
      then show ?thesis using SC_Done i inv by simp
    qed
  qed
qed (use inv in simp)

lemma tx_inv_reach:
  assumes "tx_reach allowed N a" and N: "0 < N"
  shows "tx_inv a"
  using assms(1)
proof induction
  case (tx_init a)
  then show ?case by (auto simp: tx_start_def tx_inv_def)
next
  case (tx_next a l)
  then show ?case
    by (cases l; cases a) (auto intro: tx_inv_writer [OF _ N] tx_inv_completion simp del: tx_step.simps)
qed

lemma tx_calm_writer:
  assumes "tx_inv (s, pc, cs)" and "tx_calm (s, pc, cs)" and "calm_label (Writer ndis) (s, pc, cs)"
  shows "tx_calm (tx_step N (Writer ndis) (s, pc, cs))"
proof (cases pc)
  case (WR_Inline n c)
  then show ?thesis using assms by (cases c) (auto simp: tx_inv_def tx_calm_def)
qed (use assms in \<open>auto simp: tx_inv_def tx_calm_def\<close>)

lemma tx_calm_completion:
  assumes inv: "tx_inv (s, pc, cs)" and calm: "tx_calm (s, pc, cs)"
  shows "tx_calm (tx_step N (Completion i) (s, pc, cs))"
proof (cases "i < length cs")
  case i: True
  then have pc: "pc \<noteq> WR_Start" using inv by (auto simp: tx_inv_def)
  then have n: "TransmitPendingPackets s = cnt flies cs + counted_by pc"
    using inv by (auto simp: tx_inv_def)
  have l: "list_ex late (inline pc @ cs) \<longrightarrow> TransmitPendingPackets s = 0"
    and e: "NdisWriteCompleteEvent s \<longrightarrow> TransmitPendingPackets s = 0 \<or> (\<exists>n. pc = WR_Arm n)"
    and d: "pc = WR_Leave \<or> pc = WR_Done \<longrightarrow> TransmitPendingPackets s = 0"
    using calm by (auto simp: tx_calm_def)
  show ?thesis
  proof (cases "cs ! i")
    case SC_Flight
    then have "0 < cnt flies cs" using cnt_pos [OF i, of flies] by simp
    then have "\<not> list_ex late (inline pc @ cs)" and p: "0 < TransmitPendingPackets s" using l n by auto
    then have "list_ex late (inline pc @ cs[i := SC_Signal (TransmitPendingPackets s - 1)]) \<longrightarrow>
        TransmitPendingPackets s - 1 = 0"
      using list_ex_update(1) [OF i, of late "SC_Signal (TransmitPendingPackets s - 1)"] by auto
    then show ?thesis using SC_Flight i e d p by (auto simp: tx_calm_def)
  next
    case (SC_Signal v)
    then have "v = 0 \<longrightarrow> list_ex late cs" using i by (auto simp: list_ex_length)
    then show ?thesis using SC_Signal i l e d list_ex_update(1) [OF i, of late "SC_Complete v"]
      by (auto simp: tx_calm_def)
  next
    case (SC_Complete v)
    then have "v = 0 \<longrightarrow> list_ex late cs" using i by (auto simp: list_ex_length)
    then show ?thesis using SC_Complete i l e d list_ex_update(1) [OF i, of late SC_Done]
      by (auto simp: tx_calm_def)
  next
    case SC_Done
    then have "cs[i := SC_Done] = cs" by (metis list_update_id)
    then show ?thesis using SC_Done i calm by simp
  qed
qed (use calm in simp)

lemma tx_calm_reach:
  assumes "tx_reach calm_label N a" and N: "0 < N"
  shows "tx_calm a"
  using assms(1)
proof induction
  case (tx_init a)
  then show ?case by (auto simp: tx_start_def tx_calm_def)
next
  case (tx_next a l)
  obtain s pc cs where a: "a = (s, pc, cs)" by (cases a)
  have "tx_inv a" by (rule tx_inv_reach [OF tx_next(1) N])
  then show ?case using tx_next a
    by (cases l) (auto intro: tx_calm_writer tx_calm_completion simp del: tx_step.simps)
qed

end
