(* ===== verification/Write_Properties.thy ===== *)
theory Write_Properties
  imports Write_Sync
begin

text \<open>
  The properties of \<open>NPF_Write\<close>: when it waits for its packets, that its wait ends, and the
  interleaving in which it does not wait.
\<close>

section \<open>Runs\<close>

lemma tx_reach_run:
  assumes "tx_start a" and "\<And>l b. allowed l b"
  shows "tx_reach allowed N (fold (tx_step N) ls a)"
proof (induction ls rule: rev_induct)
  case Nil
  then show ?case using tx_init [OF assms(1)] by simp
next
  case (snoc l ls)
  then show ?case using tx_next [OF snoc assms(2)] by simp
qed

definition sample_sync :: write_sync where
  "sample_sync = \<lparr>TransmitPendingPackets = 0, WriteEvent = False, NdisWriteCompleteEvent = False,
     WriteInProgress = True\<rparr>"

lemma sample_tx_start: "tx_start (sample_sync, WR_Start, [])"
  by (simp add: tx_start_def sample_sync_def)

text \<open>Start, allocate, count, arm and send one packet.\<close>

definition send_one :: "tx_label list" where
  "send_one = [Writer True, Writer True, Writer True, Writer True]"

definition finish_one :: "tx_label list" where
  "finish_one = [Completion 0, Completion 0, Completion 0, Writer True, Writer True, Writer True]"

lemma sample_single:
  "fold (tx_step 1) (Writer True # send_one @ finish_one) (sample_sync, WR_Start, []) =
     (\<lparr>TransmitPendingPackets = 0, WriteEvent = True, NdisWriteCompleteEvent = True,
       WriteInProgress = False\<rparr>, WR_Done, [SC_Done])"
  by (simp add: send_one_def finish_one_def sample_sync_def)

section \<open>A single send\<close>

fun sends :: "write_pc \<Rightarrow> nat" where
  "sends WR_Start = 0"
| "sends (WR_Loop n) = n"
| "sends (WR_Wait n) = n"
| "sends (WR_Count n) = n"
| "sends (WR_Arm n) = n"
| "sends (WR_Send n) = n"
| "sends (WR_Inline n c) = n"
| "sends _ = 0"

fun past_loop :: "write_pc \<Rightarrow> bool" where
  "past_loop WR_WaitComplete \<longleftrightarrow> True"
| "past_loop WR_Leave \<longleftrightarrow> True"
| "past_loop WR_Done \<longleftrightarrow> True"
| "past_loop _ \<longleftrightarrow> False"

definition sends_inv :: "nat \<Rightarrow> tx_sys \<Rightarrow> bool" where
  "sends_inv N a \<longleftrightarrow> (case a of (s, pc, cs) \<Rightarrow> \<not> past_loop pc \<longrightarrow> length cs \<le> sends pc \<and>
     (case pc of WR_Count n \<Rightarrow> n < N | _ \<Rightarrow> True))"

lemma sends_inv_step: "sends_inv N a \<Longrightarrow> sends_inv N (tx_step N l a)"
proof (induction N l a rule: tx_step.induct)
  case (1 N ndis s pc cs)
  then show ?case by (cases pc) (auto simp: sends_inv_def)
next
  case (2 N i s pc cs)
  then show ?case by (auto simp: sends_inv_def split: prod.splits)
qed

lemma sends_inv_reach: "tx_reach allowed N a \<Longrightarrow> sends_inv N a"
proof (induction rule: tx_reach.induct)
  case (tx_init a)
  then show ?case by (auto simp: tx_start_def sends_inv_def)
qed (rule sends_inv_step)

lemma single_calm: "tx_reach allowed 1 a \<Longrightarrow> tx_reach calm_label 1 a"
proof (induction rule: tx_reach.induct)
  case (tx_init a)
  then show ?case by (rule tx_reach.tx_init)
next
  case (tx_next a l)
  obtain s pc cs where a: "a = (s, pc, cs)" by (cases a)
  have "cs = []" if "pc = WR_Count n" for n
    using sends_inv_reach [OF tx_next(1)] that by (auto simp: a sends_inv_def)
  then have "calm_label l a" unfolding a by (cases l; cases pc) simp_all
  with tx_next(3) show ?case by (rule tx_reach.tx_next)
qed

section \<open>The properties\<close>

text \<open>
  \<open>NPF_Write\<close> completes its request only when NDIS holds none of its packets any more, if it
  sends the frame once, as by default, or if no completion of an earlier packet is between its
  decrement of the counter and its event when the next packet is counted.
\<close>

theorem write_waits_for_packets:
  assumes "tx_reach allowed N (s, pc, cs)" and "0 < N" and "N = 1 \<or> allowed = calm_label"
    and "pc = WR_Leave \<or> pc = WR_Done"
  shows "SC_Flight \<notin> set cs"
proof -
  have calm: "tx_reach calm_label N (s, pc, cs)" using assms(1,3) single_calm by blast
  have "TransmitPendingPackets s = 0"
    using tx_calm_reach [OF calm assms(2)] assms(4) by (auto simp: tx_calm_def)
  moreover have "TransmitPendingPackets s = cnt flies cs + counted_by pc"
    using tx_inv_reach [OF calm assms(2)] assms(4) by (auto simp: tx_inv_def)
  ultimately have "cnt flies cs = 0" by simp
  then show ?thesis by (auto simp: cnt_0 list_all_iff)
qed

lemma write_waits_for_packets_witness:
  "\<exists>s. tx_reach (\<lambda>_ _. True) 1 (s, WR_Done, [SC_Done]) \<and> \<not> WriteInProgress s \<and> SC_Flight \<notin> set [SC_Done]"
proof -
  note run = tx_reach_run [OF sample_tx_start, of "\<lambda>_ _. True" 1 "Writer True # send_one @ finish_one",
      unfolded sample_single, OF TrueI]
  have "SC_Flight \<notin> set [SC_Done]" by (rule write_waits_for_packets [OF run]) simp_all
  with run show ?thesis by (intro exI conjI) (rule run, simp)
qed

text \<open>
  The wait of \<open>NPF_Write\<close> ends. In every run, when the completions of all packets have run, the
  event the writer waits for is set; its next step leaves the wait.
\<close>

theorem write_wait_ends:
  assumes "tx_reach allowed N (s, WR_WaitComplete, cs)" and "0 < N" and "\<forall>c \<in> set cs. c = SC_Done"
  shows "NdisWriteCompleteEvent s \<and> fst (NPF_Write N ndis WR_WaitComplete s) = WR_Leave"
proof -
  have "cnt flies cs = 0" using assms(3) by (auto simp: cnt_0 list_all_iff)
  moreover have "\<not> list_ex late cs" using assms(3) by (auto simp: list_ex_iff)
  ultimately have "NdisWriteCompleteEvent s"
    using tx_inv_reach [OF assms(1,2)] by (auto simp: tx_inv_def)
  then show ?thesis by simp
qed

lemma write_wait_ends_witness:
  "\<exists>s. tx_reach (\<lambda>_ _. True) 1 (s, WR_WaitComplete, [SC_Done]) \<and>
     fst (NPF_Write 1 False WR_WaitComplete s) = WR_Leave"
proof -
  let ?ls = "Writer True # send_one @ [Writer True, Completion 0, Completion 0, Completion 0]"
  let ?s = "\<lparr>TransmitPendingPackets = 0, WriteEvent = True, NdisWriteCompleteEvent = True,
    WriteInProgress = True\<rparr>"
  have "fold (tx_step 1) ?ls (sample_sync, WR_Start, []) = (?s, WR_WaitComplete, [SC_Done])"
    by (simp add: send_one_def sample_sync_def)
  with tx_reach_run [OF sample_tx_start, of "\<lambda>_ _. True" 1 ?ls]
  have run: "tx_reach (\<lambda>_ _. True) 1 (?s, WR_WaitComplete, [SC_Done])" by simp
  from write_wait_ends [OF run, of False] have "fst (NPF_Write 1 False WR_WaitComplete ?s) = WR_Leave"
    by (simp del: NPF_Write.simps)
  with run show ?thesis by blast
qed

text \<open>
  Sent twice, a frame can still be with NDIS when \<open>NPF_Write\<close> completes the request that owns
  its memory: the completion of the first packet sets the event after the writer has reset it for
  the second one.
\<close>

theorem write_returns_early:
  "\<exists>s cs. tx_reach (\<lambda>_ _. True) 2 (s, WR_Done, cs) \<and> WriteInProgress s = False \<and> SC_Flight \<in> set cs"
proof -
  let ?ls = "Writer True # send_one @ [Completion 0] @ send_one @ [Completion 0, Completion 0] @
    [Writer True, Writer True, Writer True]"
  have run: "fold (tx_step 2) ?ls (sample_sync, WR_Start, []) =
    (\<lparr>TransmitPendingPackets = 1, WriteEvent = True, NdisWriteCompleteEvent = True,
       WriteInProgress = False\<rparr>, WR_Done, [SC_Done, SC_Flight])"
    by (simp add: send_one_def sample_sync_def)
  show ?thesis
    using tx_reach_run [OF sample_tx_start TrueI, of 2 ?ls, unfolded run] by fastforce
qed

end
