(* ===== verification/Npf_Ioctl.thy ===== *)
theory Npf_Ioctl
  imports Npf_Buffers Open_Close Send_Queue
begin

text \<open>
  The control codes of an open instance: \<open>NPF_IoControl\<close> of \<open>packetNtx/driver/Packet.c\<close>, one
  definition per case of its switch. An instance is the capture state, the use counters, and the
  fields only the control codes touch. \<open>pool_blocks\<close> lists the pool tags of the blocks that hold
  the filter; the list of free OID requests is its length. The pool allocator, the event object,
  the mapping of the user buffer and the answer of the adapter to an OID request are arguments.
  The 32-bit build is modelled: a handle has four bytes and lengths wrap around in 32 bits.
\<close>

section \<open>State, requests and results\<close>

record npf_instance =
  capture :: open_capture
  life :: open_life
  TimeOut :: int
  Nwrites :: nat
  SkipSentPackets :: bool
  write_busy :: bool
  MaxFrameSize :: nat
  free_requests :: nat
  pool_blocks :: "string list"

record ioctl_request =
  FunctionCode :: nat
  InputBufferLength :: nat
  OutputBufferLength :: nat
  SystemBuffer :: "u8 list option"

record ioctl_env =
  pool_alloc :: pool
  jit_mem :: u32
  user_buffer_ok :: bool
  event_status :: status
  ndis_request :: "bool \<Rightarrow> u32 \<Rightarrow> u8 list \<Rightarrow> nat \<Rightarrow> bool \<times> u32 \<times> u8 list"
  write_world :: write_env

record ioctl_result =
  io_status :: status
  io_information :: nat
  io_output :: "u8 list"

datatype ioctl_fault = Buffers cap_fault | Jit_Fault jit_stop | Pool_Overrun | Assert_Failed | Never_Returns

type_synonym ioctl_outcome = "ioctl_fault + (ioctl_result \<times> npf_instance)"

definition set_failure :: "status \<Rightarrow> npf_instance \<Rightarrow> ioctl_outcome" where
  "set_failure s inst = Inr (\<lparr>io_status = s, io_information = 0, io_output = []\<rparr>, inst)"

definition set_success :: "u8 list \<Rightarrow> npf_instance \<Rightarrow> ioctl_outcome" where
  "set_success out inst =
     Inr (\<lparr>io_status = STATUS_SUCCESS, io_information = length out, io_output = out\<rparr>, inst)"

definition sysbuf :: "ioctl_request \<Rightarrow> u8 list" where
  "sysbuf req = (case SystemBuffer req of Some b \<Rightarrow> b | None \<Rightarrow> [])"

text \<open>The cases that take one ULONG.\<close>

definition with_ulong :: "ioctl_request \<Rightarrow> npf_instance \<Rightarrow> (u32 \<Rightarrow> ioctl_outcome) \<Rightarrow> ioctl_outcome" where
  "with_ulong req inst f =
     (if InputBufferLength req < 4 then set_failure STATUS_BUFFER_TOO_SMALL inst
      else f (le32_of (sysbuf req)))"

section \<open>Statistics\<close>

definition sum32 :: "(cpu_private \<Rightarrow> nat) \<Rightarrow> cpu_private list \<Rightarrow> nat" where
  "sum32 f ds = foldl (\<lambda>a d. add32 a (f d)) 0 ds"

definition get_stats :: "ioctl_env \<Rightarrow> ioctl_request \<Rightarrow> npf_instance \<Rightarrow> ioctl_outcome" where
  "get_stats env req inst =
     (if OutputBufferLength req < 16 then set_failure STATUS_BUFFER_TOO_SMALL inst
      else if \<not> user_buffer_ok env then set_failure STATUS_UNSUCCESSFUL inst
      else (let ds = CpuData (capture inst) in
        set_success
          (le32_bytes (of_nat (sum32 Received ds)) @ le32_bytes (of_nat (sum32 Dropped ds)) @
           le32_bytes 0 @ le32_bytes (of_nat (sum32 Accepted ds))) inst))"

section \<open>Sending\<close>

definition send_packets :: "ioctl_env \<Rightarrow> bool \<Rightarrow> ioctl_request \<Rightarrow> npf_instance \<Rightarrow> ioctl_outcome" where
  "send_packets env Sync req inst =
     (case send_packets_ioctl (write_world env) (write_busy inst) (bound (life inst)) Sync
             (MaxFrameSize inst) (map_option (take (InputBufferLength req)) (SystemBuffer req)) of
        None \<Rightarrow> Inl Never_Returns
      | Some None \<Rightarrow> Inl Pool_Overrun
      | Some (Some (res, n, sent)) \<Rightarrow>
          if res then Inr (\<lparr>io_status = STATUS_SUCCESS, io_information = n, io_output = []\<rparr>, inst)
          else set_failure STATUS_UNSUCCESSFUL inst)"

section \<open>The filter\<close>

definition insn_of :: "u8 list \<Rightarrow> bpf_insn" where
  "insn_of b = \<lparr>code = (ucast (b ! 1) * 256) + ucast (b ! 0), jt = b ! 2, jf = b ! 3,
     k = le32_of (drop 4 b)\<rparr>"

definition NewBpfProgram :: "ioctl_request \<Rightarrow> bpf_insn list" where
  "NewBpfProgram req =
     map (\<lambda>i. insn_of (chunk (sysbuf req) (8 * i) 8)) [0..<InputBufferLength req div 8]"

definition drop_filter :: "npf_instance \<Rightarrow> npf_instance" where
  "drop_filter inst =
     (let blocks = (if bpfprogram (capture inst) \<noteq> None then remove1 ''4PWA'' (pool_blocks inst)
                    else pool_blocks inst) in
      inst\<lparr>capture := (capture inst)\<lparr>bpfprogram := None, jit_filter := None\<rparr>,
           pool_blocks := (if jit_filter (capture inst) \<noteq> None then BPF_Destroy_JIT_Filter blocks
                           else blocks)\<rparr>)"

definition install_filter ::
    "ioctl_env \<Rightarrow> bpf_insn list \<Rightarrow> npf_instance \<Rightarrow> ioctl_fault + (status \<times> npf_instance)" where
  "install_filter env prog inst =
     (let cnt = length (takeWhile (\<lambda>p. code p \<noteq> BPF_SEPARATION) prog) in
      if cnt \<noteq> length prog then Inr (STATUS_INVALID_DEVICE_REQUEST, inst)
      else if \<not> bpf_validate prog then Inr (STATUS_INVALID_DEVICE_REQUEST, inst)
      else if pool_alloc env ''4PWA'' (cnt * 8) = None then Inr (STATUS_INSUFFICIENT_RESOURCES, inst)
      else (case BPF_jitter (pool_alloc env) (jit_mem env) prog of
          Inl e \<Rightarrow> Inl (Jit_Fault e)
        | Inr (None, live) \<Rightarrow>
            Inr (STATUS_UNSUCCESSFUL, inst\<lparr>pool_blocks := live @ pool_blocks inst\<rparr>)
        | Inr (Some f, live) \<Rightarrow>
            Inr (STATUS_SUCCESS,
              inst\<lparr>capture := (capture inst)\<lparr>bpfprogram := Some prog, jit_filter := Some f\<rparr>,
                   pool_blocks := ''4PWA'' # live @ pool_blocks inst\<rparr>)))"

text \<open>The old filter goes first, and the buffers are reset whatever the result.\<close>

definition reset_buffers :: "npf_instance \<Rightarrow> ioctl_fault + npf_instance" where
  "reset_buffers inst =
     (case NPF_ResetBufferContents (capture inst) of
        Inl e \<Rightarrow> Inl (Buffers e)
      | Inr c \<Rightarrow> Inr (inst\<lparr>capture := c\<rparr>))"

definition set_filter :: "ioctl_env \<Rightarrow> ioctl_request \<Rightarrow> npf_instance \<Rightarrow> ioctl_outcome" where
  "set_filter env req inst =
     (if SystemBuffer req = None then set_failure STATUS_BUFFER_TOO_SMALL inst
      else (case install_filter env (NewBpfProgram req) (drop_filter inst) of
          Inl e \<Rightarrow> Inl e
        | Inr (s, inst1) \<Rightarrow>
            (case reset_buffers inst1 of Inl e \<Rightarrow> Inl e | Inr inst2 \<Rightarrow> set_failure s inst2)))"

section \<open>Mode, loopback, read event\<close>

definition set_mode :: "u32 \<Rightarrow> npf_instance \<Rightarrow> ioctl_outcome" where
  "set_mode m inst =
     (if m AND MODE_DUMP \<noteq> 0 then set_failure STATUS_INVALID_DEVICE_REQUEST inst
      else if m = MODE_CAPT then set_success [] (inst\<lparr>capture := (capture inst)\<lparr>mode := MODE_CAPT\<rparr>\<rparr>)
      else if m = MODE_MON then set_failure STATUS_INVALID_DEVICE_REQUEST inst
      else if m AND MODE_STAT \<noteq> 0
      then set_success []
             (inst\<lparr>capture := (capture inst)\<lparr>mode := MODE_STAT, Npackets := 0, Nbytes := 0\<rparr>,
                   TimeOut := (if TimeOut inst = 0 then - 10000000 else TimeOut inst)\<rparr>)
      else set_success [] inst)"

definition set_loopback :: "u32 \<Rightarrow> npf_instance \<Rightarrow> ioctl_outcome" where
  "set_loopback v inst =
     (if v = 1
      then (case reset_buffers (inst\<lparr>SkipSentPackets := True\<rparr>) of
          Inl e \<Rightarrow> Inl e
        | Inr inst1 \<Rightarrow> set_success [] inst1)
      else if v = 2 then set_success [] (inst\<lparr>SkipSentPackets := False\<rparr>)
      else set_failure STATUS_INVALID_DEVICE_REQUEST inst)"

definition set_event_handle :: "ioctl_env \<Rightarrow> ioctl_request \<Rightarrow> npf_instance \<Rightarrow> ioctl_outcome" where
  "set_event_handle env req inst =
     (if InputBufferLength req \<noteq> 4 then set_failure STATUS_INVALID_DEVICE_REQUEST inst
      else if event_status env \<noteq> STATUS_SUCCESS then set_failure (event_status env) inst
      else if ReadEvent (capture inst) \<noteq> None then set_failure STATUS_INVALID_DEVICE_REQUEST inst
      else set_success []
        (inst\<lparr>capture := (capture inst)\<lparr>ReadEvent := Some False\<rparr>,
              life := (life inst)\<lparr>Event := Some False\<rparr>\<rparr>))"

section \<open>Buffer size, timeout, repetitions, minimum to copy\<close>

definition set_buffer :: "ioctl_env \<Rightarrow> u32 \<Rightarrow> npf_instance \<Rightarrow> ioctl_outcome" where
  "set_buffer env dim inst =
     (case set_buffer_size (pool_alloc env ''6PWA'') (unat dim) (capture inst) of
        Inl e \<Rightarrow> Inl (Buffers e)
      | Inr (Buffer_Nomem, c) \<Rightarrow> set_failure STATUS_INSUFFICIENT_RESOURCES (inst\<lparr>capture := c\<rparr>)
      | Inr (Buffer_Set, c) \<Rightarrow> set_success [] (inst\<lparr>capture := c\<rparr>))"

definition set_timeout :: "u32 \<Rightarrow> npf_instance \<Rightarrow> ioctl_outcome" where
  "set_timeout v inst =
     set_success [] (inst\<lparr>TimeOut := (if v = - 1 then 1 else - (int (unat v) * 10000))\<rparr>)"

definition set_writerep :: "u32 \<Rightarrow> npf_instance \<Rightarrow> ioctl_outcome" where
  "set_writerep v inst = set_success [] (inst\<lparr>Nwrites := unat v\<rparr>)"

definition set_mintocopy :: "u32 \<Rightarrow> npf_instance \<Rightarrow> ioctl_outcome" where
  "set_mintocopy v inst =
     (let c = capture inst in
      set_success [] (inst\<lparr>capture := c\<lparr>MinToCopy := unat v div length (CpuData c)\<rparr>\<rparr>))"

section \<open>OID requests\<close>

text \<open>
  \<open>PACKET_OID_DATA\<close>: the OID, the length of the data, the data; with its padding the structure has
  twelve bytes, of which the last is counted as data.
\<close>

definition OidData_Length :: "ioctl_request \<Rightarrow> u32" where
  "OidData_Length req = le32_of (drop 4 (sysbuf req))"

definition oid_valid :: "ioctl_request \<Rightarrow> bool" where
  "oid_valid req \<longleftrightarrow>
     InputBufferLength req = OutputBufferLength req \<and> InputBufferLength req \<ge> 12 \<and>
     InputBufferLength req \<ge> add32 11 (unat (OidData_Length req))"

definition release_binding :: "npf_instance \<Rightarrow> (npf_instance \<Rightarrow> ioctl_outcome) \<Rightarrow> ioctl_outcome" where
  "release_binding inst f =
     (case NPF_StopUsingBinding (life inst) of
        None \<Rightarrow> Inl Assert_Failed
      | Some l \<Rightarrow> f (inst\<lparr>life := l\<rparr>))"

definition oid_complete ::
    "ioctl_env \<Rightarrow> bool \<Rightarrow> ioctl_request \<Rightarrow> npf_instance \<Rightarrow> ioctl_outcome" where
  "oid_complete env is_set req inst =
     (case ndis_request env is_set (le32_of (sysbuf req)) (drop 8 (sysbuf req))
             (unat (OidData_Length req)) of
        (ok, bytes, data) \<Rightarrow>
          (case Option.bind (blit (sysbuf req) 8 data) (\<lambda>b. blit b 4 (le32_bytes bytes)) of
             None \<Rightarrow> Inl Pool_Overrun
           | Some buf \<Rightarrow>
               (let inst1 = inst\<lparr>free_requests := free_requests inst + 1\<rparr> in
                if ok \<and> (is_set \<or> bytes \<le> OidData_Length req)
                then Inr (\<lparr>io_status = STATUS_SUCCESS, io_information = add32 11 (unat bytes),
                           io_output = take (add32 11 (unat bytes)) buf\<rparr>, inst1)
                else set_failure STATUS_INVALID_DEVICE_REQUEST inst1)))"

text \<open>A request that is taken from the list goes back to it only at the end of the valid path.\<close>

definition oid_request ::
    "ioctl_env \<Rightarrow> bool \<Rightarrow> ioctl_request \<Rightarrow> npf_instance \<Rightarrow> ioctl_outcome" where
  "oid_request env is_set req inst =
     (case NPF_StartUsingBinding (life inst) of
        (False, _) \<Rightarrow> set_failure STATUS_INVALID_DEVICE_REQUEST inst
      | (True, l) \<Rightarrow>
          (let inst1 = inst\<lparr>life := l\<rparr> in
           if free_requests inst1 = 0
           then release_binding inst1 (set_failure STATUS_INSUFFICIENT_RESOURCES)
           else (let inst2 = inst1\<lparr>free_requests := free_requests inst1 - 1\<rparr> in
             if oid_valid req then release_binding inst2 (oid_complete env is_set req)
             else release_binding inst2 (set_failure STATUS_BUFFER_TOO_SMALL))))"

section \<open>The switch\<close>

abbreviation BIOCSETBUFFERSIZE :: nat where "BIOCSETBUFFERSIZE \<equiv> 9592"
abbreviation BIOCSETF :: nat where "BIOCSETF \<equiv> 9030"
abbreviation BIOCGSTATS :: nat where "BIOCGSTATS \<equiv> 9031"
abbreviation BIOCSRTIMEOUT :: nat where "BIOCSRTIMEOUT \<equiv> 7416"
abbreviation BIOCSMODE :: nat where "BIOCSMODE \<equiv> 7412"
abbreviation BIOCSWRITEREP :: nat where "BIOCSWRITEREP \<equiv> 7413"
abbreviation BIOCSMINTOCOPY :: nat where "BIOCSMINTOCOPY \<equiv> 7414"
abbreviation BIOCSETOID :: nat where "BIOCSETOID \<equiv> 2147483648"
abbreviation BIOCQUERYOID :: nat where "BIOCQUERYOID \<equiv> 2147483652"
abbreviation BIOCSENDPACKETSNOSYNC :: nat where "BIOCSENDPACKETSNOSYNC \<equiv> 9032"
abbreviation BIOCSENDPACKETSSYNC :: nat where "BIOCSENDPACKETSSYNC \<equiv> 9033"
abbreviation BIOCISETLOBBEH :: nat where "BIOCISETLOBBEH \<equiv> 7410"
abbreviation BIOCSETEVENTHANDLE :: nat where "BIOCSETEVENTHANDLE \<equiv> 7920"

text \<open>
  The codes of the named event and of the kernel dump (7415, 9029, 9034, 7411) are refused as
  unknown codes are.
\<close>

definition ioctl_switch :: "ioctl_env \<Rightarrow> ioctl_request \<Rightarrow> npf_instance \<Rightarrow> ioctl_outcome" where
  "ioctl_switch env req inst =
     (let c = FunctionCode req in
      if c = BIOCGSTATS then get_stats env req inst
      else if c = BIOCSENDPACKETSSYNC then send_packets env True req inst
      else if c = BIOCSENDPACKETSNOSYNC then send_packets env False req inst
      else if c = BIOCSETF then set_filter env req inst
      else if c = BIOCSMODE then with_ulong req inst (\<lambda>m. set_mode m inst)
      else if c = BIOCISETLOBBEH then with_ulong req inst (\<lambda>v. set_loopback v inst)
      else if c = BIOCSETEVENTHANDLE then set_event_handle env req inst
      else if c = BIOCSETBUFFERSIZE then with_ulong req inst (\<lambda>v. set_buffer env v inst)
      else if c = BIOCSRTIMEOUT then with_ulong req inst (\<lambda>v. set_timeout v inst)
      else if c = BIOCSWRITEREP then with_ulong req inst (\<lambda>v. set_writerep v inst)
      else if c = BIOCSMINTOCOPY then with_ulong req inst (\<lambda>v. set_mintocopy v inst)
      else if c = BIOCSETOID then oid_request env True req inst
      else if c = BIOCQUERYOID then oid_request env False req inst
      else set_failure STATUS_INVALID_DEVICE_REQUEST inst)"

definition NPF_IoControl :: "ioctl_env \<Rightarrow> ioctl_request \<Rightarrow> npf_instance \<Rightarrow> ioctl_outcome" where
  "NPF_IoControl env req inst =
     (case NPF_StartUsingOpenInstance (life inst) of
        (False, _) \<Rightarrow> set_failure STATUS_CANCELLED inst
      | (True, l) \<Rightarrow>
          (case ioctl_switch env req (inst\<lparr>life := l\<rparr>) of
             Inl e \<Rightarrow> Inl e
           | Inr (res, inst1) \<Rightarrow>
               (case NPF_StopUsingOpenInstance (life inst1) of
                  None \<Rightarrow> Inl Assert_Failed
                | Some l1 \<Rightarrow> Inr (res, inst1\<lparr>life := l1\<rparr>))))"

end
