(* ===== verification/Ioctl_Correct.thy ===== *)
theory Ioctl_Correct
  imports Npf_Ioctl Jit_Properties Capture_System Send_Properties "HOL-Library.Multiset"
begin

text \<open>
  The invariant of an instance under its control codes, and the abstract account of a control code:
  the queue of captured packets, the blocks that were leaked, the free OID requests and the use
  counters. \<open>ioctl_simulates\<close> relates one control code to it, for the locale \<open>simulation\<close>.
\<close>

section \<open>The invariant\<close>

definition filter_inv :: "open_capture \<Rightarrow> bool" where
  "filter_inv c \<longleftrightarrow>
     (case (bpfprogram c, jit_filter c) of
        (None, None) \<Rightarrow> True
      | (Some p, Some f) \<Rightarrow> bpf_validate p \<and> known_opcodes p \<and> Function f = compiled (filter_mem f) p
      | _ \<Rightarrow> False)"

definition owned_blocks :: "open_capture \<Rightarrow> string list" where
  "owned_blocks c = (if bpfprogram c = None then [] else [''4PWA'', ''2JWA'', ''3JWA'', ''1JWA''])"

record ioctl_abs =
  a_capture :: capture_abs
  a_leaked :: nat
  a_requests :: nat
  a_users :: "nat \<times> nat"

definition users_of :: "open_life \<Rightarrow> nat \<times> nat" where
  "users_of l = (NumPendingIrps l, AdapterHandleUsageCounter l)"

definition ioctl_rel :: "npf_instance \<Rightarrow> ioctl_abs \<Rightarrow> bool" where
  "ioctl_rel inst a \<longleftrightarrow>
     cap_rel (capture inst) (a_capture a) \<and> CpuData (capture inst) \<noteq> [] \<and>
     filter_inv (capture inst) \<and> binding_valid (life inst) \<and>
     mset (pool_blocks inst) =
       mset (owned_blocks (capture inst)) + replicate_mset (a_leaked a) ''0JWA'' \<and>
     free_requests inst = a_requests a \<and> users_of (life inst) = a_users a"

definition well_formed :: "ioctl_request \<Rightarrow> bool" where
  "well_formed req \<longleftrightarrow>
     InputBufferLength req < 268435456 \<and>
     (case SystemBuffer req of
        None \<Rightarrow> InputBufferLength req = 0
      | Some b \<Rightarrow> length b = max (InputBufferLength req) (OutputBufferLength req))"

text \<open>
  An adapter writes at most the length it is given, and it is given a length without wrap-around.
\<close>

definition adapter_honest :: "ioctl_env \<Rightarrow> bool" where
  "adapter_honest env \<longleftrightarrow>
     (\<forall>is_set oid data len ok bytes out.
        ndis_request env is_set oid data len = (ok, bytes, out) \<longrightarrow> length out \<le> len)"

definition env_ok :: "ioctl_env \<Rightarrow> bool" where
  "env_ok env \<longleftrightarrow> pool_wf (pool_alloc env) \<and> adapter_honest env \<and>
     clock_advances (ticks (write_world env))"

definition ioctl_ok :: "ioctl_env \<times> ioctl_request \<Rightarrow> npf_instance \<Rightarrow> bool" where
  "ioctl_ok e inst \<longleftrightarrow> env_ok (fst e) \<and> well_formed (snd e) \<and>
     unat (OidData_Length (snd e)) < 4294967285 \<and>
     list_all (\<lambda>d. \<not> BufferLock d) (CpuData (capture inst))"

section \<open>The specification of a control code\<close>

definition ioctl_spec ::
    "ioctl_env \<times> ioctl_request \<Rightarrow> ioctl_abs \<Rightarrow> ioctl_result \<Rightarrow> ioctl_abs \<Rightarrow> bool" where
  "ioctl_spec e a res a' \<longleftrightarrow>
     (let c = FunctionCode (snd e) in
      (a_capture a' = a_capture a \<or>
         c \<in> {BIOCSETF, BIOCISETLOBBEH, BIOCSETBUFFERSIZE} \<and> a_capture a' = empty_abs) \<and>
      (a_leaked a' = a_leaked a \<or>
         c = BIOCSETF \<and> io_status res \<noteq> STATUS_SUCCESS \<and>
         \<not> known_opcodes (NewBpfProgram (snd e)) \<and> a_leaked a' = a_leaked a + 1) \<and>
      a_requests a = a_requests a' +
        (if c \<in> {BIOCSETOID, BIOCQUERYOID} \<and> io_status res = STATUS_BUFFER_TOO_SMALL then 1 else 0) \<and>
      a_users a' = a_users a)"

section \<open>The filter\<close>

lemma jitter_cases:
  assumes "bpf_validate f" and "length f < 33554432" and "pool_wf alloc"
  shows "BPF_jitter alloc mem f = Inr (None, []) \<or>
    \<not> known_opcodes f \<and> BPF_jitter alloc mem f = Inr (None, [''0JWA'']) \<or>
    known_opcodes f \<and> BPF_jitter alloc mem f =
      Inr (Some \<lparr>Function = compiled mem f, filter_mem = mem\<rparr>, [''2JWA'', ''3JWA'', ''1JWA''])"
proof (cases "known_opcodes f")
  case True
  then show ?thesis using BPF_jitter_compiled [OF assms(1,2) True assms(3), of mem] by auto
next
  case False
  show ?thesis
  proof (cases "alloc ''2JWA'' 8 = None \<or> alloc ''3JWA'' (BPF_MEMWORDS * 4) = None \<or>
      alloc ''0JWA'' ((length f + 1) * 4) = None")
    case True
    then have "BPF_jitter alloc mem f = Inr (None, [])"
      by (auto simp: BPF_jitter_def BPFtoX86_def split: option.split)
    then show ?thesis by simp
  next
    case alloc: False
    then show ?thesis using unsupported_jitter [OF assms(1,2) False, of alloc mem] False by simp
  qed
qed

definition no_filter :: "open_capture \<Rightarrow> bool" where
  "no_filter c \<longleftrightarrow> bpfprogram c = None \<and> jit_filter c = None"

lemma drop_filter_drops:
  assumes "filter_inv (capture inst)"
    and "mset (pool_blocks inst) = mset (owned_blocks (capture inst)) + M"
  shows "no_filter (capture (drop_filter inst))" and "mset (pool_blocks (drop_filter inst)) = M"
  using assms
  by (auto simp: no_filter_def drop_filter_def filter_inv_def owned_blocks_def Let_def
      BPF_Destroy_JIT_Filter_def split: option.splits)

text \<open>What a call of \<open>install_filter\<close> can do to an instance without a filter.\<close>

lemma install_filter_cases:
  assumes "pool_wf (pool_alloc env)" and "length prog < 33554432"
  obtains (Refused) s where "install_filter env prog inst = Inr (s, inst)" "s \<noteq> STATUS_SUCCESS"
  | (Leaked) "install_filter env prog inst =
        Inr (STATUS_UNSUCCESSFUL, inst\<lparr>pool_blocks := ''0JWA'' # pool_blocks inst\<rparr>)"
      "\<not> known_opcodes prog"
  | (Installed) "install_filter env prog inst = Inr (STATUS_SUCCESS,
        inst\<lparr>capture := (capture inst)\<lparr>bpfprogram := Some prog,
               jit_filter := Some \<lparr>Function = compiled (jit_mem env) prog, filter_mem = jit_mem env\<rparr>\<rparr>,
             pool_blocks := [''4PWA'', ''2JWA'', ''3JWA'', ''1JWA''] @ pool_blocks inst\<rparr>)"
      "bpf_validate prog" "known_opcodes prog"
proof -
  let ?cnt = "length (takeWhile (\<lambda>p. code p \<noteq> BPF_SEPARATION) prog)"
  show ?thesis
  proof (cases "?cnt = length prog \<and> bpf_validate prog \<and> pool_alloc env ''4PWA'' (?cnt * 8) \<noteq> None")
    case True
    then have go: "install_filter env prog inst =
        (case BPF_jitter (pool_alloc env) (jit_mem env) prog of
          Inl e \<Rightarrow> Inl (Jit_Fault e)
        | Inr (None, live) \<Rightarrow> Inr (STATUS_UNSUCCESSFUL, inst\<lparr>pool_blocks := live @ pool_blocks inst\<rparr>)
        | Inr (Some f, live) \<Rightarrow>
            Inr (STATUS_SUCCESS,
              inst\<lparr>capture := (capture inst)\<lparr>bpfprogram := Some prog, jit_filter := Some f\<rparr>,
                   pool_blocks := ''4PWA'' # live @ pool_blocks inst\<rparr>))"
      unfolding install_filter_def Let_def by (elim conjE) auto
    from True have "bpf_validate prog" by blast
    from jitter_cases [OF this assms(2,1), of "jit_mem env"] show ?thesis
    proof (elim disjE conjE)
      assume "BPF_jitter (pool_alloc env) (jit_mem env) prog = Inr (None, [])"
      then show ?thesis using Refused [of STATUS_UNSUCCESSFUL] by (simp add: go)
    next
      assume "\<not> known_opcodes prog"
        "BPF_jitter (pool_alloc env) (jit_mem env) prog = Inr (None, [''0JWA''])"
      then show ?thesis using Leaked by (simp add: go)
    next
      assume "known_opcodes prog"
        "BPF_jitter (pool_alloc env) (jit_mem env) prog =
          Inr (Some \<lparr>Function = compiled (jit_mem env) prog, filter_mem = jit_mem env\<rparr>,
            [''2JWA'', ''3JWA'', ''1JWA''])"
      then show ?thesis using Installed True by (simp add: go)
    qed
  next
    case False
    then have "\<exists>s. install_filter env prog inst = Inr (s, inst) \<and> s \<noteq> STATUS_SUCCESS"
      unfolding install_filter_def Let_def by auto
    then show ?thesis using Refused by blast
  qed
qed

section \<open>Control codes that leave the account as it is\<close>

definition keeps :: "ioctl_abs \<Rightarrow> ioctl_outcome \<Rightarrow> bool" where
  "keeps a r \<longleftrightarrow> (\<exists>res inst'. r = Inr (res, inst') \<and> ioctl_rel inst' a)"

named_theorems ioctl_defs \<open>the definitions of the control codes\<close>

lemmas [ioctl_defs] = set_failure_def set_success_def

lemma cap_rel_same:
  assumes "CpuData c' = CpuData c" "Size c' = Size c" "ReaderSN c' = ReaderSN c" "WriterSN c' = WriterSN c"
  shows "cap_rel c' A \<longleftrightarrow> cap_rel c A"
  by (simp add: cap_rel_def assms)

lemma filter_same:
  assumes "bpfprogram c' = bpfprogram c" and "jit_filter c' = jit_filter c"
  shows "filter_inv c' = filter_inv c" and "owned_blocks c' = owned_blocks c"
  by (simp_all add: filter_inv_def owned_blocks_def assms)

lemma ioctl_rel_same:
  assumes "ioctl_rel inst a"
    and "CpuData (capture inst') = CpuData (capture inst)" "Size (capture inst') = Size (capture inst)"
      "ReaderSN (capture inst') = ReaderSN (capture inst)" "WriterSN (capture inst') = WriterSN (capture inst)"
      "bpfprogram (capture inst') = bpfprogram (capture inst)"
      "jit_filter (capture inst') = jit_filter (capture inst)"
    and "users_of (life inst') = users_of (life inst)"
      "AdapterBindingStatus (life inst') = AdapterBindingStatus (life inst)"
    and "pool_blocks inst' = pool_blocks inst" "free_requests inst' = free_requests inst"
  shows "ioctl_rel inst' a"
proof -
  have "AdapterHandleUsageCounter (life inst') = AdapterHandleUsageCounter (life inst)"
    using assms(8) by (simp add: users_of_def)
  with assms cap_rel_same [of "capture inst'" "capture inst"] show ?thesis
    by (simp add: ioctl_rel_def filter_inv_def owned_blocks_def binding_valid_def)
qed

lemma keeps_failure: "ioctl_rel inst a \<Longrightarrow> keeps a (set_failure s inst)"
  by (simp add: keeps_def set_failure_def)

lemma keeps_success: "ioctl_rel inst a \<Longrightarrow> keeps a (set_success out inst)"
  by (simp add: keeps_def set_success_def)

lemma with_ulong_keeps:
  assumes "ioctl_rel inst a" and "\<And>v. keeps a (f v)"
  shows "keeps a (with_ulong req inst f)"
  using assms by (simp add: with_ulong_def keeps_failure)

lemma get_stats_keeps: "ioctl_rel inst a \<Longrightarrow> keeps a (get_stats env req inst)"
  by (simp add: get_stats_def keeps_failure keeps_success Let_def)

lemma set_mode_keeps: "ioctl_rel inst a \<Longrightarrow> keeps a (set_mode m inst)"
  unfolding set_mode_def
  by (auto intro!: keeps_failure keeps_success elim!: ioctl_rel_same)

lemma set_event_handle_keeps: "ioctl_rel inst a \<Longrightarrow> keeps a (set_event_handle env req inst)"
  unfolding set_event_handle_def
  by (auto intro!: keeps_failure keeps_success elim!: ioctl_rel_same simp: users_of_def)

lemma set_timeout_keeps: "ioctl_rel inst a \<Longrightarrow> keeps a (set_timeout v inst)"
  unfolding set_timeout_def by (auto intro!: keeps_success elim!: ioctl_rel_same)

lemma set_writerep_keeps: "ioctl_rel inst a \<Longrightarrow> keeps a (set_writerep v inst)"
  unfolding set_writerep_def by (auto intro!: keeps_success elim!: ioctl_rel_same)

lemma set_mintocopy_keeps: "ioctl_rel inst a \<Longrightarrow> keeps a (set_mintocopy v inst)"
  unfolding set_mintocopy_def Let_def by (auto intro!: keeps_success elim!: ioctl_rel_same)

lemma buffered_write_returns:
  assumes "clock_advances (ticks env)" and "length buf < 4294967296"
  shows "\<exists>r. NPF_BufferedWrite env True Sync m (Some buf) = Some (Some r)"
proof (cases "m = 0")
  case False
  define w where "w = \<lparr>w_pos = 0, w_sent = [], w_query = 1, CurTicks = ticks env 0, StartTicks = 0,
    BufStartTime = (0, 0)\<rparr>"
  have w: "parsed m buf [] w" by (simp add: parsed_def w_def)
  obtain r where r: "write_loop env Sync m buf w = Some r"
    using write_loop_returns [of Sync env m buf w] assms(1) by auto
  from write_loop_parsed [OF w assms(2) r] obtain n w' where "r = Write_Return n w'" by blast
  with r False show ?thesis by (simp add: NPF_BufferedWrite_def w_def)
qed (simp add: NPF_BufferedWrite_def)

lemma send_packets_keeps:
  assumes "ioctl_rel inst a" and "clock_advances (ticks (write_world env))"
    and "InputBufferLength req < 268435456"
  shows "keeps a (send_packets env Sync req inst)"
proof -
  let ?buf = "map_option (take (InputBufferLength req)) (SystemBuffer req)"
  have "\<exists>r. NPF_BufferedWrite (write_world env) (bound (life inst)) Sync (MaxFrameSize inst) ?buf =
      Some (Some r)"
    using buffered_write_returns [OF assms(2)] assms(3)
    by (cases "bound (life inst)"; cases "SystemBuffer req") (auto simp: NPF_BufferedWrite_def)
  then obtain WriteRes sent0 where "NPF_BufferedWrite (write_world env) (bound (life inst)) Sync
      (MaxFrameSize inst) ?buf = Some (Some (WriteRes, sent0))"
    by (metis surj_pair)
  then have "\<exists>r. send_packets_ioctl (write_world env) (write_busy inst) (bound (life inst)) Sync
      (MaxFrameSize inst) ?buf = Some (Some r)"
    by (cases "WriteRes = - 1")
       (auto simp: send_packets_ioctl_def intro: exI [of _ False] exI [of _ True])
  then obtain res n sent where "send_packets_ioctl (write_world env) (write_busy inst)
      (bound (life inst)) Sync (MaxFrameSize inst) ?buf = Some (Some (res, n, sent))"
    by auto
  with assms(1) show ?thesis
    by (cases res) (simp_all add: send_packets_def keeps_def set_failure_def)
qed

section \<open>Control codes that change the account\<close>

definition reaches :: "ioctl_env \<times> ioctl_request \<Rightarrow> ioctl_abs \<Rightarrow> ioctl_outcome \<Rightarrow> bool" where
  "reaches e a r \<longleftrightarrow>
     (\<exists>res inst' a'. r = Inr (res, inst') \<and> ioctl_spec e a res a' \<and> ioctl_rel inst' a')"

lemma reachesI: "ioctl_rel inst' a' \<Longrightarrow> ioctl_spec e a res a' \<Longrightarrow> reaches e a (Inr (res, inst'))"
  by (auto simp: reaches_def)

lemma spec_refl:
  "FunctionCode (snd e) \<notin> {BIOCSETOID, BIOCQUERYOID} \<or> io_status res \<noteq> STATUS_BUFFER_TOO_SMALL \<Longrightarrow>
     ioctl_spec e a res a"
  by (auto simp: ioctl_spec_def Let_def)

lemma keeps_reaches:
  "keeps a r \<Longrightarrow> FunctionCode (snd e) \<notin> {BIOCSETOID, BIOCQUERYOID} \<Longrightarrow> reaches e a r"
  unfolding keeps_def reaches_def using spec_refl [of e] by blast

lemma failure_reaches: "ioctl_rel inst a \<Longrightarrow> s \<noteq> STATUS_BUFFER_TOO_SMALL \<Longrightarrow> reaches e a (set_failure s inst)"
  unfolding set_failure_def by (rule reachesI [OF _ spec_refl]) simp_all

definition unlocked :: "open_capture \<Rightarrow> bool" where
  "unlocked c \<longleftrightarrow> list_all (\<lambda>d. \<not> BufferLock d) (CpuData c)"

lemma unlocked_waiting:
  assumes "cap_rel c A" and "unlocked c" and "i < length (CpuData c)"
  shows "waiting A i = None"
  using lock_free [OF assms(1,3)] assms(2,3) by (simp add: unlocked_def list_all_length)

lemma reset_buffers_rel:
  assumes rel: "ioctl_rel inst a" and free: "unlocked (capture inst)"
  shows "\<exists>inst'. reset_buffers inst = Inr inst' \<and> ioctl_rel inst' (a\<lparr>a_capture := empty_abs\<rparr>) \<and>
    bpfprogram (capture inst') = bpfprogram (capture inst) \<and>
    jit_filter (capture inst') = jit_filter (capture inst)"
proof -
  have cap: "cap_rel (capture inst) (a_capture a)" "CpuData (capture inst) \<noteq> []"
    using rel by (simp_all add: ioctl_rel_def)
  from reset_empties [OF cap(1) unlocked_waiting [OF cap(1) free]] obtain c
    where c: "NPF_ResetBufferContents (capture inst) = Inr c" "cap_rel c empty_abs"
      "length (CpuData c) = length (CpuData (capture inst))" by blast
  then have "bpfprogram c = bpfprogram (capture inst)" "jit_filter c = jit_filter (capture inst)"
    by (auto simp: NPF_ResetBufferContents_def split: if_splits)
  moreover have "CpuData c \<noteq> []" using c(3) cap(2) by auto
  ultimately show ?thesis
    using rel c(1,2) filter_same [of c "capture inst"] by (simp add: reset_buffers_def ioctl_rel_def)
qed

lemma set_loopback_reaches:
  assumes "ioctl_rel inst a" and "unlocked (capture inst)" and "FunctionCode (snd e) = BIOCISETLOBBEH"
  shows "reaches e a (set_loopback v inst)"
proof -
  have "ioctl_rel (inst\<lparr>SkipSentPackets := b\<rparr>) a" for b
    by (rule ioctl_rel_same [OF assms(1)]) simp_all
  moreover from this [of True] assms(2) obtain inst' where
    "reset_buffers (inst\<lparr>SkipSentPackets := True\<rparr>) = Inr inst'"
    "ioctl_rel inst' (a\<lparr>a_capture := empty_abs\<rparr>)"
    using reset_buffers_rel [of "inst\<lparr>SkipSentPackets := True\<rparr>" a] by auto
  ultimately show ?thesis
    using assms(1,3)
    by (auto simp: set_loopback_def set_success_def set_failure_def ioctl_spec_def intro!: reachesI)
qed

text \<open>The two ways in which BIOCSETF can leave the filter.\<close>

definition filter_set :: "u32 \<Rightarrow> bpf_insn list \<Rightarrow> status \<Rightarrow> open_capture \<Rightarrow> bool" where
  "filter_set mem prog s c \<longleftrightarrow>
     (if s = STATUS_SUCCESS
      then bpf_validate prog \<and> bpfprogram c = Some prog \<and>
        jit_filter c = Some \<lparr>Function = compiled mem prog, filter_mem = mem\<rparr>
      else no_filter c)"

lemma filter_set_cong:
  "filter_set mem prog s c \<Longrightarrow> bpfprogram c' = bpfprogram c \<Longrightarrow> jit_filter c' = jit_filter c \<Longrightarrow>
     filter_set mem prog s c'"
  by (auto simp: filter_set_def no_filter_def split: if_splits)

lemma install_filter_rel:
  assumes rel: "ioctl_rel inst a" and wf: "pool_wf (pool_alloc env)" "length prog < 33554432"
  shows "\<exists>s inst' l. install_filter env prog (drop_filter inst) = Inr (s, inst') \<and>
    ioctl_rel inst' (a\<lparr>a_leaked := l\<rparr>) \<and> CpuData (capture inst') = CpuData (capture inst) \<and>
    filter_set (jit_mem env) prog s (capture inst') \<and>
    (l = a_leaked a \<or> s \<noteq> STATUS_SUCCESS \<and> \<not> known_opcodes prog \<and> l = a_leaked a + 1)"
proof -
  let ?inst = "drop_filter inst"
  have drop: "no_filter (capture ?inst)" "mset (pool_blocks ?inst) = replicate_mset (a_leaked a) ''0JWA''"
    using rel by (auto simp: ioctl_rel_def intro: drop_filter_drops)
  have same: "CpuData (capture ?inst) = CpuData (capture inst)" "Size (capture ?inst) = Size (capture inst)"
    "ReaderSN (capture ?inst) = ReaderSN (capture inst)" "WriterSN (capture ?inst) = WriterSN (capture inst)"
    "life ?inst = life inst" "free_requests ?inst = free_requests inst"
    by (simp_all add: drop_filter_def Let_def)
  have cap: "cap_rel c (a_capture a)" if "CpuData c = CpuData (capture inst)"
    "Size c = Size (capture inst)" "ReaderSN c = ReaderSN (capture inst)"
    "WriterSN c = WriterSN (capture inst)" for c
    using cap_rel_same [of c "capture inst"] that rel by (simp add: ioctl_rel_def)
  note simps = ioctl_rel_def filter_inv_def owned_blocks_def no_filter_def same cap
  show ?thesis
  proof (rule install_filter_cases [OF wf, of ?inst])
    fix s assume "install_filter env prog ?inst = Inr (s, ?inst)" "s \<noteq> STATUS_SUCCESS"
    moreover have "ioctl_rel ?inst (a\<lparr>a_leaked := a_leaked a\<rparr>)"
      using rel drop by (simp add: simps)
    moreover have "filter_set (jit_mem env) prog s (capture ?inst)"
      using drop(1) calculation(2) by (simp add: filter_set_def)
    ultimately show ?thesis using same(1) by blast
  next
    assume go: "install_filter env prog ?inst =
        Inr (STATUS_UNSUCCESSFUL, ?inst\<lparr>pool_blocks := ''0JWA'' # pool_blocks ?inst\<rparr>)"
      "\<not> known_opcodes prog"
    have "ioctl_rel (?inst\<lparr>pool_blocks := ''0JWA'' # pool_blocks ?inst\<rparr>) (a\<lparr>a_leaked := a_leaked a + 1\<rparr>)"
      using rel drop by (simp add: simps)
    with go show ?thesis using same(1) drop(1)
      by (intro exI [of _ STATUS_UNSUCCESSFUL] exI [of _ "a_leaked a + 1"]) (auto simp: filter_set_def)
  next
    let ?f = "\<lparr>Function = compiled (jit_mem env) prog, filter_mem = jit_mem env\<rparr>"
    let ?to = "?inst\<lparr>capture := (capture ?inst)\<lparr>bpfprogram := Some prog, jit_filter := Some ?f\<rparr>,
      pool_blocks := [''4PWA'', ''2JWA'', ''3JWA'', ''1JWA''] @ pool_blocks ?inst\<rparr>"
    assume go: "install_filter env prog ?inst = Inr (STATUS_SUCCESS, ?to)"
      "bpf_validate prog" "known_opcodes prog"
    have "ioctl_rel ?to (a\<lparr>a_leaked := a_leaked a\<rparr>)"
      using rel drop go(2,3) by (simp add: simps)
    with go(1,2) show ?thesis using same(1)
      by (intro exI [of _ STATUS_SUCCESS] exI [of _ ?to] exI [of _ "a_leaked a"]) (auto simp: filter_set_def)
  qed
qed

lemma set_filter_effect:
  assumes rel: "ioctl_rel inst a" and free: "unlocked (capture inst)" and ok: "env_ok env" "well_formed req"
    and buf: "SystemBuffer req \<noteq> None"
  shows "\<exists>s inst' l. set_filter env req inst = set_failure s inst' \<and>
    ioctl_rel inst' (a\<lparr>a_leaked := l, a_capture := empty_abs\<rparr>) \<and>
    filter_set (jit_mem env) (NewBpfProgram req) s (capture inst') \<and>
    (l = a_leaked a \<or> s \<noteq> STATUS_SUCCESS \<and> \<not> known_opcodes (NewBpfProgram req) \<and> l = a_leaked a + 1)"
proof -
  let ?prog = "NewBpfProgram req"
  have "length ?prog < 33554432" "pool_wf (pool_alloc env)"
    using ok by (simp_all add: NewBpfProgram_def well_formed_def env_ok_def less_mult_imp_div_less)
  from install_filter_rel [OF rel this(2,1)] obtain s inst1 l
    where i: "install_filter env ?prog (drop_filter inst) = Inr (s, inst1)"
      "ioctl_rel inst1 (a\<lparr>a_leaked := l\<rparr>)" "CpuData (capture inst1) = CpuData (capture inst)"
      "filter_set (jit_mem env) ?prog s (capture inst1)"
      "l = a_leaked a \<or> s \<noteq> STATUS_SUCCESS \<and> \<not> known_opcodes ?prog \<and> l = a_leaked a + 1" by blast
  from i(3) free have "unlocked (capture inst1)" by (simp add: unlocked_def)
  from reset_buffers_rel [OF i(2) this] obtain inst2
    where r: "reset_buffers inst1 = Inr inst2" "ioctl_rel inst2 (a\<lparr>a_leaked := l, a_capture := empty_abs\<rparr>)"
      "filter_set (jit_mem env) ?prog s (capture inst2)"
    using filter_set_cong [OF i(4)] by auto
  show ?thesis
    using buf i(1,5) r by (intro exI [of _ s] exI [of _ inst2] exI [of _ l]) (auto simp: set_filter_def)
qed

lemma set_filter_reaches:
  assumes rel: "ioctl_rel inst a" and free: "unlocked (capture inst)" and ok: "env_ok env" "well_formed req"
    and c: "FunctionCode req = BIOCSETF"
  shows "reaches (env, req) a (set_filter env req inst)"
proof (cases "SystemBuffer req = None")
  case True
  then show ?thesis using keeps_reaches [OF keeps_failure [OF rel], of "(env, req)"] c
    by (simp add: set_filter_def)
next
  case False
  from set_filter_effect [OF rel free ok False] obtain s inst' l
    where i: "set_filter env req inst = set_failure s inst'"
      "ioctl_rel inst' (a\<lparr>a_leaked := l, a_capture := empty_abs\<rparr>)"
      "l = a_leaked a \<or> s \<noteq> STATUS_SUCCESS \<and> \<not> known_opcodes (NewBpfProgram req) \<and> l = a_leaked a + 1"
    by blast
  have "ioctl_spec (env, req) a \<lparr>io_status = s, io_information = 0, io_output = []\<rparr>
      (a\<lparr>a_leaked := l, a_capture := empty_abs\<rparr>)"
    using i(3) c by (simp add: ioctl_spec_def)
  from reachesI [OF i(2) this] show ?thesis by (simp add: i(1) set_failure_def)
qed

lemma set_buffer_reaches:
  assumes rel: "ioctl_rel inst a" and free: "unlocked (capture inst)" and ok: "env_ok env"
    and c: "FunctionCode (snd e) = BIOCSETBUFFERSIZE"
  shows "reaches e a (set_buffer env v inst)"
proof -
  let ?c = "capture inst" and ?alloc = "pool_alloc env ''6PWA''"
  have cap: "cap_rel ?c (a_capture a)" "CpuData ?c \<noteq> []" using rel by (simp_all add: ioctl_rel_def)
  have d: "\<not> BufferLock d \<and> TransferMdl1 d = None" if "d \<in> set (CpuData ?c)" for d
  proof -
    from that obtain i where i: "i < length (CpuData ?c)" "d = CpuData ?c ! i"
      by (auto simp: in_set_conv_nth)
    with cap_relD(1) [OF cap(1) i(1)] unlocked_waiting [OF cap(1) free i(1)] show ?thesis
      by (simp add: transfer_state_def)
  qed
  have locks: "\<not> list_ex BufferLock (CpuData ?c)" using d by (auto simp: list_ex_iff)
  have wf: "length b = unat v" if "?alloc (unat v) = Some b" for b
    using ok that by (auto simp: env_ok_def pool_wf_def)
  show ?thesis
  proof (cases "set_buffer_size ?alloc (unat v) ?c")
    case (Inl f)
    then have False using locks by (auto simp: set_buffer_size_def Let_def split: option.splits if_splits)
    then show ?thesis ..
  next
    case (Inr r)
    obtain st c' where r: "r = (st, c')" by (cases r)
    have same: "bpfprogram c' = bpfprogram ?c" "jit_filter c' = jit_filter ?c"
      "length (CpuData c') = length (CpuData ?c)"
      using Inr r by (auto simp: set_buffer_size_def Let_def split: option.splits if_splits)
    note fs = filter_same [OF same(1,2)]
    show ?thesis
    proof (cases st)
      case Buffer_Nomem
      then have "c' = ?c"
        using Inr r by (auto simp: set_buffer_size_def Let_def split: option.splits if_splits)
      with Inr r Buffer_Nomem show ?thesis
        using failure_reaches [OF rel, of STATUS_INSUFFICIENT_RESOURCES e] by (simp add: set_buffer_def)
    next
      case Buffer_Set
      have "cap_rel c' empty_abs"
        using set_buffer_empties(1) [OF cap(2) unat_lt d wf] Inr r Buffer_Set by blast
      then have "ioctl_rel (inst\<lparr>capture := c'\<rparr>) (a\<lparr>a_capture := empty_abs\<rparr>)"
        using rel same(3) fs by (auto simp: ioctl_rel_def)
      moreover have "ioctl_spec e a res (a\<lparr>a_capture := empty_abs\<rparr>)" for res
        using c by (simp add: ioctl_spec_def)
      ultimately show ?thesis
        using Inr r Buffer_Set by (simp add: set_buffer_def set_success_def reachesI)
    qed
  qed
qed

section \<open>OID requests\<close>

lemma start_stop_binding:
  assumes "NPF_StartUsingBinding s = (True, l)"
  shows "NPF_StopUsingBinding l = Some s"
  using assms by (auto simp: NPF_StartUsingBinding_def NPF_StopUsingBinding_def split: if_splits)

lemma release_binding_started:
  assumes "NPF_StartUsingBinding (life inst) = (True, l)" and "life inst1 = l"
  shows "release_binding inst1 f = f (inst1\<lparr>life := life inst\<rparr>)"
  using start_stop_binding [OF assms(1)] assms(2) by (simp add: release_binding_def)

lemma oid_data_fits:
  assumes "oid_valid req" and "well_formed req" and "unat (OidData_Length req) < 4294967285"
  shows "11 + unat (OidData_Length req) \<le> length (sysbuf req)" and "12 \<le> length (sysbuf req)"
proof -
  have "11 + unat (OidData_Length req) \<le> InputBufferLength req" "12 \<le> InputBufferLength req"
    using assms(1,3) by (simp_all add: oid_valid_def)
  moreover have "InputBufferLength req \<le> length (sysbuf req)"
    using assms(2) by (auto simp: well_formed_def sysbuf_def split: option.splits)
  ultimately show "11 + unat (OidData_Length req) \<le> length (sysbuf req)" "12 \<le> length (sysbuf req)"
    by linarith+
qed

lemma oid_complete_rel:
  assumes rel: "ioctl_rel (inst\<lparr>free_requests := free_requests inst + 1\<rparr>) a"
    and ok: "adapter_honest env" "oid_valid req" "well_formed req" "unat (OidData_Length req) < 4294967285"
  shows "\<exists>res inst'. oid_complete env is_set req inst = Inr (res, inst') \<and> ioctl_rel inst' a \<and>
    io_status res \<noteq> STATUS_BUFFER_TOO_SMALL"
proof -
  obtain ok bytes data where n: "ndis_request env is_set (le32_of (sysbuf req)) (drop 8 (sysbuf req))
      (unat (OidData_Length req)) = (ok, bytes, data)" by (metis prod_cases3)
  then have "length data \<le> unat (OidData_Length req)" using ok(1) unfolding adapter_honest_def by blast
  with oid_data_fits [OF ok(2-4)] obtain b1 where b1: "blit (sysbuf req) 8 data = Some b1"
    "length b1 = length (sysbuf req)"
    by (auto simp: blit_def)
  with oid_data_fits(2) [OF ok(2-4)] obtain b2 where "blit b1 4 (le32_bytes bytes) = Some b2"
    by (auto simp: blit_def)
  with b1 n rel show ?thesis
    by (simp add: oid_complete_def Let_def set_failure_def)
qed

lemma oid_request_reaches:
  assumes rel: "ioctl_rel inst a" and ok: "env_ok env" "well_formed req" "unat (OidData_Length req) < 4294967285"
    and c: "FunctionCode req \<in> {BIOCSETOID, BIOCQUERYOID}"
  shows "reaches (env, req) a (oid_request env is_set req inst)"
proof -
  obtain started l where start: "NPF_StartUsingBinding (life inst) = (started, l)" by fastforce
  let ?failed = "set_failure STATUS_BUFFER_TOO_SMALL
    (inst\<lparr>life := l, free_requests := free_requests inst - 1\<rparr>\<lparr>life := life inst\<rparr>)"
  show ?thesis
  proof (cases started)
    case False
    with start show ?thesis
      by (simp add: oid_request_def failure_reaches [OF rel])
  next
    case True
    with start have "NPF_StartUsingBinding (life inst) = (True, l)" by simp
    note rb = release_binding_started [OF this]
    show ?thesis
    proof (cases "free_requests inst = 0")
      case empty: True
      have "ioctl_rel (inst\<lparr>life := l\<rparr>\<lparr>life := life inst\<rparr>) a"
        by (rule ioctl_rel_same [OF rel]) simp_all
      from failure_reaches [OF this, of STATUS_INSUFFICIENT_RESOURCES] True empty show ?thesis
        by (simp add: oid_request_def start rb Let_def)
    next
      case some: False
      show ?thesis
      proof (cases "oid_valid req")
        case valid: True
        let ?i = "inst\<lparr>life := l, free_requests := free_requests inst - 1\<rparr>\<lparr>life := life inst\<rparr>"
        have "ioctl_rel (?i\<lparr>free_requests := free_requests ?i + 1\<rparr>) a"
          by (rule ioctl_rel_same [OF rel]) (use some in simp_all)
        moreover have "adapter_honest env" using ok(1) by (simp add: env_ok_def)
        ultimately obtain res inst' where "oid_complete env is_set req ?i = Inr (res, inst')"
          "ioctl_rel inst' a" "io_status res \<noteq> STATUS_BUFFER_TOO_SMALL"
          using oid_complete_rel valid ok(2,3) by blast
        with reachesI [OF _ spec_refl, of inst' a "(env, req)" res] True some valid show ?thesis
          by (simp add: oid_request_def start rb Let_def)
      next
        case invalid: False
        have "ioctl_rel (inst\<lparr>life := l, free_requests := free_requests inst - 1\<rparr>\<lparr>life := life inst\<rparr>)
            (a\<lparr>a_requests := a_requests a - 1\<rparr>)"
          using rel by (simp add: ioctl_rel_def)
        moreover have "a_requests a \<noteq> 0" using rel some by (simp add: ioctl_rel_def)
        then have "ioctl_spec (env, req) a
            \<lparr>io_status = STATUS_BUFFER_TOO_SMALL, io_information = 0, io_output = []\<rparr>
            (a\<lparr>a_requests := a_requests a - 1\<rparr>)"
          using c by (auto simp: ioctl_spec_def)
        ultimately have "reaches (env, req) a ?failed" unfolding set_failure_def by (rule reachesI)
        with True some invalid show ?thesis by (simp add: oid_request_def start rb Let_def)
      qed
    qed
  qed
qed

section \<open>The simulation\<close>

lemma ioctl_switch_reaches:
  assumes rel: "ioctl_rel inst a" and ok: "ioctl_ok (env, req) inst"
  shows "reaches (env, req) a (ioctl_switch env req inst)"
proof -
  have e: "env_ok env" "well_formed req" "unat (OidData_Length req) < 4294967285" "unlocked (capture inst)"
    using ok by (simp_all add: ioctl_ok_def unlocked_def)
  then have w: "clock_advances (ticks (write_world env))" "InputBufferLength req < 268435456"
    by (simp_all add: env_ok_def well_formed_def)
  have ulong: "reaches (env, req) a (with_ulong req inst f)"
    if "\<And>v. reaches (env, req) a (f v)"
    and "FunctionCode req \<notin> {BIOCSETOID, BIOCQUERYOID}" for f
    using that keeps_reaches [OF keeps_failure [OF rel], of "(env, req)"] by (simp add: with_ulong_def)
  note kept = get_stats_keeps send_packets_keeps [OF _ w] set_mode_keeps set_event_handle_keeps
    set_timeout_keeps set_writerep_keeps set_mintocopy_keeps keeps_failure
  note keeps = kept [OF rel, THEN keeps_reaches, of "(env, req)"]
  show ?thesis
    unfolding ioctl_switch_def Let_def
    using keeps ulong set_filter_reaches [OF rel e(4,1,2)] oid_request_reaches [OF rel e(1-3)]
      set_loopback_reaches [OF rel e(4), of "(env, req)"] set_buffer_reaches [OF rel e(4,1), of "(env, req)"]
    by simp
qed

lemma ioctl_simulates:
  assumes rel: "ioctl_rel inst a" and ok: "ioctl_ok (env, req) inst"
  shows "reaches (env, req) a (NPF_IoControl env req inst)"
proof (cases "ClosePending (life inst)")
  case True
  then show ?thesis
    by (simp add: NPF_IoControl_def NPF_StartUsingOpenInstance_def failure_reaches [OF rel])
next
  case False
  let ?l = "(life inst)\<lparr>NumPendingIrps := NumPendingIrps (life inst) + 1\<rparr>"
  let ?a = "a\<lparr>a_users := (fst (a_users a) + 1, snd (a_users a))\<rparr>"
  have "ioctl_rel (inst\<lparr>life := ?l\<rparr>) ?a"
    using rel by (auto simp: ioctl_rel_def users_of_def binding_valid_def prod_eq_iff)
  moreover have "ioctl_ok (env, req) (inst\<lparr>life := ?l\<rparr>)" using ok by (simp add: ioctl_ok_def)
  ultimately obtain res inst1 a1 where s: "ioctl_switch env req (inst\<lparr>life := ?l\<rparr>) = Inr (res, inst1)"
    "ioctl_spec (env, req) ?a res a1" "ioctl_rel inst1 a1"
    using ioctl_switch_reaches unfolding reaches_def by blast
  from s(2,3) have users: "users_of (life inst1) = (fst (a_users a) + 1, snd (a_users a))"
    by (simp add: ioctl_spec_def ioctl_rel_def Let_def)
  let ?a1 = "a1\<lparr>a_users := a_users a\<rparr>"
  obtain l1 where l1: "NPF_StopUsingOpenInstance (life inst1) = Some l1" "users_of l1 = a_users a"
    "AdapterBindingStatus l1 = AdapterBindingStatus (life inst1)"
    "AdapterHandleUsageCounter l1 = AdapterHandleUsageCounter (life inst1)"
    using users by (auto simp: NPF_StopUsingOpenInstance_def users_of_def)
  then have "ioctl_rel (inst1\<lparr>life := l1\<rparr>) ?a1"
    using s(3) by (simp add: ioctl_rel_def binding_valid_def)
  moreover have "ioctl_spec (env, req) a res ?a1"
    using s(2) by (simp add: ioctl_spec_def Let_def)
  ultimately show ?thesis
    using False s(1) l1(1)
    by (auto simp: NPF_IoControl_def NPF_StartUsingOpenInstance_def intro: reachesI)
qed

fun ioctl_step :: "ioctl_env \<times> ioctl_request \<Rightarrow> npf_instance \<Rightarrow> ioctl_fault + (npf_instance \<times> ioctl_result)" where
  "ioctl_step (env, req) inst = map_sum id (\<lambda>(res, inst'). (inst', res)) (NPF_IoControl env req inst)"

interpretation ioctls: simulation ioctl_rel ioctl_ok ioctl_step ioctl_spec "(=)"
proof
  fix inst a e assume "ioctl_rel inst a" "ioctl_ok e inst"
  then show "\<exists>inst' out p a'. ioctl_step e inst = Inr (inst', out) \<and> ioctl_spec e a p a' \<and>
      ioctl_rel inst' a' \<and> out = p"
    using ioctl_simulates [of inst a "fst e" "snd e"] by (cases e) (force simp: reaches_def)
qed

end
