(* ===== verification/Ioctl_Properties.thy ===== *)
theory Ioctl_Properties
  imports Ioctl_Correct Capture_Properties
begin

text \<open>
  What the control codes guarantee: a run of control codes never faults and keeps the invariant,
  BIOCSETF installs a validated program or none and starts a fresh capture. And what they do not:
  OID requests that are too short use up the list of requests, and the length check of the OID
  requests wraps around.
\<close>

section \<open>A concrete instance\<close>

definition sample_life :: open_life where
  "sample_life = \<lparr>AdapterBindingStatus = ADAPTER_BOUND, AdapterHandleUsageCounter = 0,
     ClosePending = False, NumPendingIrps = 0, Event = Some False, AdapterCloses = 0,
     Released = False\<rparr>"

definition sample_instance :: "nat \<Rightarrow> npf_instance" where
  "sample_instance n = \<lparr>capture = sample_open, life = sample_life, TimeOut = 0, Nwrites = 1,
     SkipSentPackets = False, write_busy = False, MaxFrameSize = 1514, free_requests = n,
     pool_blocks = []\<rparr>"

text \<open>The adapter answers a request with the bytes \<open>answer\<close>.\<close>

definition sample_ioctl_env :: "u8 list \<Rightarrow> ioctl_env" where
  "sample_ioctl_env answer = \<lparr>pool_alloc = sample_alloc, jit_mem = 0x3000, user_buffer_ok = True,
     event_status = STATUS_SUCCESS,
     ndis_request = (\<lambda>is_set oid data len. (True, 4, take len answer)),
     write_world = \<lparr>ticks = int, freq = 1, w_mdl = (\<lambda>_. True), w_packet = (\<lambda>_. True),
       w_retry = (\<lambda>_. True)\<rparr>\<rparr>"

definition sample_setf :: ioctl_request where
  "sample_setf = \<lparr>FunctionCode = BIOCSETF, InputBufferLength = 32, OutputBufferLength = 0,
     SystemBuffer = Some [0x28, 0, 0, 0, 12, 0, 0, 0, 0x15, 0, 0, 1, 0, 8, 0, 0,
       0x06, 0, 0, 0, 96, 0, 0, 0, 0x06, 0, 0, 0, 0, 0, 0, 0]\<rparr>"

definition sample_oid :: "nat \<Rightarrow> u8 list \<Rightarrow> ioctl_request" where
  "sample_oid n buf = \<lparr>FunctionCode = BIOCQUERYOID, InputBufferLength = n, OutputBufferLength = n,
     SystemBuffer = Some buf\<rparr>"

lemma sample_setf_program: "NewBpfProgram sample_setf = ip_filter"
  by code_simp

lemma sample_env_ok: "env_ok (sample_ioctl_env answer)"
proof -
  have "clock_advances int"
    unfolding clock_advances_def by (intro allI, rule_tac x = "max q (nat (t + 1))" in exI) auto
  then show ?thesis
    by (auto simp: env_ok_def sample_ioctl_env_def pool_wf_def sample_alloc_def adapter_honest_def)
qed

lemma sample_setf_ok: "ioctl_ok (sample_ioctl_env answer, sample_setf) (sample_instance n)"
proof -
  have "OidData_Length sample_setf = 12" by code_simp
  moreover have "well_formed sample_setf" by (simp add: well_formed_def sample_setf_def)
  ultimately show ?thesis
    by (simp add: ioctl_ok_def sample_env_ok sample_instance_def sample_open_def sample_cpu_def)
qed

lemma sample_instance_rel: "ioctl_rel (sample_instance n)
    \<lparr>a_capture = empty_abs, a_leaked = 0, a_requests = n, a_users = (0, 0)\<rparr>"
  using sample_rel
  by (simp add: ioctl_rel_def sample_instance_def filter_inv_def owned_blocks_def binding_valid_def
      users_of_def sample_life_def) (simp add: sample_open_def)

section \<open>Runs\<close>

definition oid_code :: "ioctl_request \<Rightarrow> bool" where
  "oid_code req \<longleftrightarrow> FunctionCode req \<in> {BIOCSETOID, BIOCQUERYOID}"

definition leaky :: "ioctl_env \<times> ioctl_request \<Rightarrow> bool" where
  "leaky e \<longleftrightarrow> FunctionCode (snd e) = BIOCSETF \<and> \<not> known_opcodes (NewBpfProgram (snd e))"

definition lost_requests :: "(ioctl_env \<times> ioctl_request) list \<Rightarrow> ioctl_result list \<Rightarrow> nat" where
  "lost_requests es rs =
     cnt (\<lambda>(e, r). oid_code (snd e) \<and> io_status r = STATUS_BUFFER_TOO_SMALL) (zip es rs)"

lemma spec_run_account:
  assumes "spec_run ioctl_spec es a rs a'"
  shows "(a_capture a' = a_capture a \<or> a_capture a' = empty_abs) \<and>
    (list_all (\<lambda>e. \<not> leaky e) es \<longrightarrow> a_leaked a' = a_leaked a) \<and>
    a_requests a = a_requests a' + lost_requests es rs \<and> a_users a' = a_users a"
  using assms
proof (induction rule: spec_run.induct)
  case (spec_Cons e a r a1 es rs a2)
  then show ?case
    by (auto simp: ioctl_spec_def Let_def lost_requests_def cnt_def leaky_def oid_code_def)
qed (simp add: lost_requests_def cnt_def)

text \<open>
  C16: Take any sequence of control codes for an instance, of any code and content, in which
  (\<open>ioctl_ok\<close>) the system buffer has the lengths the request names and less than \<open>2 ^ 28\<close> bytes of
  input, no transfer holds the buffer of a CPU, the length inside an OID request is below
  \<open>2 ^ 32 - 11\<close>, the adapter writes no more than the length it is given, a block of the pool
  has the length asked for and the clock advances. Then none of them faults. Afterwards the queue of captured
  packets is what it was or empty, the filter is either absent or a validated program with the
  code compiled from it, the use counters are what they were, the blocks that are allocated are
  those of the filter unless a program with an unsupported opcode was installed, and an OID
  request is missing for each call that was refused as too short. Larger lengths inside an OID
  request do fault: \<open>oid_length_wraps\<close>.
\<close>

theorem ioctl_runs_safe:
  assumes "cap_rel (capture inst) A" and "CpuData (capture inst) \<noteq> []" and "filter_inv (capture inst)"
    and "binding_valid (life inst)" and "mset (pool_blocks inst) = mset (owned_blocks (capture inst))"
    and "run_ok ioctl_ok ioctl_step es inst"
  shows "\<exists>inst' rs A'. run_steps ioctl_step es inst = Inr (inst', rs) \<and>
    cap_rel (capture inst') A' \<and> (A' = A \<or> A' = empty_abs) \<and> filter_inv (capture inst') \<and>
    users_of (life inst') = users_of (life inst) \<and>
    (list_all (\<lambda>e. \<not> leaky e) es \<longrightarrow>
       mset (pool_blocks inst') = mset (owned_blocks (capture inst'))) \<and>
    free_requests inst = free_requests inst' + lost_requests es rs"
proof -
  let ?a = "\<lparr>a_capture = A, a_leaked = 0, a_requests = free_requests inst, a_users = users_of (life inst)\<rparr>"
  have "ioctl_rel inst ?a" using assms(1-5) by (simp add: ioctl_rel_def)
  from ioctls.run_simulates [OF this assms(6)] obtain inst' rs ps a'
    where run: "run_steps ioctl_step es inst = Inr (inst', rs)" "spec_run ioctl_spec es ?a ps a'"
      "ioctl_rel inst' a'" "list_all2 (=) rs ps" by blast
  from run(4) have "ps = rs" by (simp add: list.rel_eq)
  with spec_run_account [OF run(2)] run(1,3) show ?thesis by (auto simp: ioctl_rel_def)
qed

theorem ioctl_runs_safe_witness:
  "\<exists>inst' rs. run_steps ioctl_step [(sample_ioctl_env [], sample_setf)] (sample_instance 32) =
      Inr (inst', rs) \<and> filter_inv (capture inst') \<and>
    mset (pool_blocks inst') = mset (owned_blocks (capture inst'))"
proof -
  let ?es = "[(sample_ioctl_env [], sample_setf)]"
  have "run_ok ioctl_ok ioctl_step ?es (sample_instance 32)"
    using sample_setf_ok by (simp split: sum.splits)
  moreover have "known_opcodes ip_filter" by code_simp
  then have "list_all (\<lambda>e. \<not> leaky e) ?es" by (simp add: leaky_def sample_setf_program)
  ultimately show ?thesis
    using ioctl_runs_safe [of "sample_instance 32" empty_abs ?es] sample_instance_rel [of 32]
    by (auto simp: ioctl_rel_def)
qed

section \<open>BIOCSETF\<close>

lemma no_filter_accepts: "no_filter c \<Longrightarrow> tap_filter call c ind = Inr (- 1)"
  by (simp add: no_filter_def tap_filter_def Let_def bpf_filter_def bpf_filter_with_2_buffers_def)

lemma validated_no_separation:
  assumes "bpf_validate prog" and "length prog < 33554432"
  shows "takeWhile (\<lambda>p. code p \<noteq> BPF_SEPARATION) prog = prog"
proof -
  have "bpf_decode 0xff = None" "(0xff :: u16) \<notin> set ldx_abs_codes" by code_simp+
  then have "code p \<noteq> BPF_SEPARATION" if "p \<in> set prog" for p
    using that validated(1) [of prog] assms
    by (force simp: prog_valid_def insn_valid_def in_set_conv_nth)
  then show ?thesis by (simp add: takeWhile_eq_all_conv)
qed

lemma install_filter_succeeds:
  assumes "bpf_validate prog" and "length prog < 33554432" and "known_opcodes prog"
    and "pool_wf (pool_alloc env)" and "\<And>t n. pool_alloc env t n \<noteq> None"
    and "install_filter env prog inst = Inr (s, inst')"
  shows "s = STATUS_SUCCESS"
  using assms(6)
  by (simp add: install_filter_def validated_no_separation [OF assms(1,2)] assms(1,5)
      BPF_jitter_compiled [OF assms(1-4)])

lemma ioctl_setf:
  assumes rel: "ioctl_rel inst a" and ok: "ioctl_ok (env, req) inst" and c: "FunctionCode req = BIOCSETF"
    and buf: "SystemBuffer req \<noteq> None" and opened: "\<not> ClosePending (life inst)"
  shows "\<exists>s inst'. NPF_IoControl env req inst = set_failure s inst' \<and> cap_rel (capture inst') empty_abs \<and>
    filter_set (jit_mem env) (NewBpfProgram req) s (capture inst') \<and>
    (bpf_validate (NewBpfProgram req) \<and> known_opcodes (NewBpfProgram req) \<and>
       (\<forall>t n. pool_alloc env t n \<noteq> None) \<longrightarrow> s = STATUS_SUCCESS)"
proof -
  let ?l = "(life inst)\<lparr>NumPendingIrps := NumPendingIrps (life inst) + 1\<rparr>"
  let ?a = "a\<lparr>a_users := (fst (a_users a) + 1, snd (a_users a))\<rparr>"
  let ?prog = "NewBpfProgram req"
  have e: "env_ok env" "well_formed req" "unlocked (capture (inst\<lparr>life := ?l\<rparr>))"
    using ok by (simp_all add: ioctl_ok_def unlocked_def)
  then have wf: "length ?prog < 33554432" "pool_wf (pool_alloc env)"
    by (simp_all add: NewBpfProgram_def well_formed_def env_ok_def less_mult_imp_div_less)
  have "ioctl_rel (inst\<lparr>life := ?l\<rparr>) ?a"
    using rel by (auto simp: ioctl_rel_def users_of_def binding_valid_def prod_eq_iff)
  from set_filter_effect [OF this e(3,1,2) buf] obtain s inst1 l
    where s: "set_filter env req (inst\<lparr>life := ?l\<rparr>) = set_failure s inst1"
      "ioctl_rel inst1 (?a\<lparr>a_leaked := l, a_capture := empty_abs\<rparr>)"
      "filter_set (jit_mem env) ?prog s (capture inst1)" by blast
  from s(2) obtain l1 where l1: "NPF_StopUsingOpenInstance (life inst1) = Some l1"
    by (auto simp: NPF_StopUsingOpenInstance_def ioctl_rel_def users_of_def prod_eq_iff)
  have call: "NPF_IoControl env req inst = set_failure s (inst1\<lparr>life := l1\<rparr>)"
    using opened s(1) l1 c
    by (simp add: NPF_IoControl_def NPF_StartUsingOpenInstance_def ioctl_switch_def set_failure_def)
  obtain i where i: "install_filter env ?prog (drop_filter (inst\<lparr>life := ?l\<rparr>)) = Inr (s, i)"
    using s(1) buf by (auto simp: set_filter_def set_failure_def split: sum.splits)
  have "s = STATUS_SUCCESS"
    if "bpf_validate ?prog" "known_opcodes ?prog" "\<forall>t n. pool_alloc env t n \<noteq> None"
    using install_filter_succeeds [OF that(1) wf(1) that(2) wf(2) _ i] that(3) by blast
  then show ?thesis
    using call s(2,3) by (intro exI [of _ s] exI [of _ "inst1\<lparr>life := l1\<rparr>"]) (simp add: ioctl_rel_def)
qed

lemma set_filter_keeps_size:
  assumes "set_filter env req inst = Inr (res, inst')"
  shows "Size (capture inst') = Size (capture inst) \<and>
    length (CpuData (capture inst')) = length (CpuData (capture inst))"
  using assms
  by (auto simp: set_filter_def install_filter_def reset_buffers_def NPF_ResetBufferContents_def
      drop_filter_def set_failure_def Let_def split: if_splits sum.splits prod.splits option.splits)

lemma setf_keeps_size:
  assumes "NPF_IoControl env req inst = Inr (res, inst')" and "FunctionCode req = BIOCSETF"
  shows "Size (capture inst') = Size (capture inst) \<and>
    length (CpuData (capture inst')) = length (CpuData (capture inst))"
  using assms set_filter_keeps_size
  by (fastforce simp: NPF_IoControl_def NPF_StartUsingOpenInstance_def ioctl_switch_def set_failure_def
      Let_def split: if_splits sum.splits prod.splits option.splits)

lemmas setf_result = ioctl_setf [unfolded set_failure_def]

text \<open>
  C17: BIOCSETF either succeeds, and then the program of the request is valid, installed and
  compiled, or leaves the instance without a filter, so that every packet is captured; the queue is
  emptied in both cases. It succeeds for a valid program with known opcodes when there is memory.
\<close>

theorem setf_effect:
  assumes "ioctl_rel inst a" and "ioctl_ok (env, req) inst" and "FunctionCode req = BIOCSETF"
    and "SystemBuffer req \<noteq> None" and "\<not> ClosePending (life inst)"
  shows "\<exists>res inst'. NPF_IoControl env req inst = Inr (res, inst') \<and>
    cap_rel (capture inst') empty_abs \<and>
    (if io_status res = STATUS_SUCCESS
     then bpf_validate (NewBpfProgram req) \<and> bpfprogram (capture inst') = Some (NewBpfProgram req) \<and>
       jit_filter (capture inst') =
         Some \<lparr>Function = compiled (jit_mem env) (NewBpfProgram req), filter_mem = jit_mem env\<rparr>
     else (\<forall>call ind. tap_filter call (capture inst') ind = Inr (- 1))) \<and>
    (bpf_validate (NewBpfProgram req) \<and> known_opcodes (NewBpfProgram req) \<and>
       (\<forall>t n. pool_alloc env t n \<noteq> None) \<longrightarrow> io_status res = STATUS_SUCCESS)"
proof -
  from ioctl_setf [OF assms] obtain s inst' where call: "NPF_IoControl env req inst = set_failure s inst'"
    and r: "cap_rel (capture inst') empty_abs"
      "filter_set (jit_mem env) (NewBpfProgram req) s (capture inst')"
      "bpf_validate (NewBpfProgram req) \<and> known_opcodes (NewBpfProgram req) \<and>
       (\<forall>t n. pool_alloc env t n \<noteq> None) \<longrightarrow> s = STATUS_SUCCESS" by blast
  let ?res = "\<lparr>io_status = s, io_information = 0, io_output = []\<rparr>"
  have "NPF_IoControl env req inst = Inr (?res, inst')" by (simp add: call set_failure_def)
  then show ?thesis
    using r no_filter_accepts [of "capture inst'"]
    by (intro exI [of _ ?res] exI [of _ inst']) (auto simp: filter_set_def split: if_splits)
qed

theorem setf_effect_witness:
  "\<exists>res inst'. NPF_IoControl (sample_ioctl_env []) sample_setf (sample_instance 32) = Inr (res, inst') \<and>
    io_status res = STATUS_SUCCESS \<and> bpfprogram (capture inst') = Some ip_filter"
proof -
  have "bpf_validate ip_filter" "known_opcodes ip_filter" by code_simp+
  moreover have "\<forall>t n. pool_alloc (sample_ioctl_env []) t n \<noteq> None"
    by (simp add: sample_ioctl_env_def sample_alloc_def)
  moreover have "FunctionCode sample_setf = BIOCSETF" "SystemBuffer sample_setf \<noteq> None"
    "\<not> ClosePending (life (sample_instance 32))"
    by (simp_all add: sample_setf_def sample_instance_def sample_life_def)
  ultimately show ?thesis
    using setf_effect [OF sample_instance_rel sample_setf_ok, of 32 "[]"]
    by (auto simp: sample_setf_program)
qed

text \<open>
  After BIOCSETF the application reads only packets that were tapped later: whatever taps,
  completions and reads follow, the bytes delivered are those of the packets stored in this run.
\<close>

theorem setf_starts_fresh_capture:
  assumes "ioctl_rel inst a" and "ioctl_ok (env, req) inst" and "FunctionCode req = BIOCSETF"
    and "SystemBuffer req \<noteq> None" and "\<not> ClosePending (life inst)"
    and "NPF_IoControl env req inst = Inr (res, inst')"
    and "run_ok (event_ok call) (capture_step call) es (capture inst')"
  shows "\<exists>opn outs ps A. run_steps (capture_step call) es (capture inst') = Inr (opn, outs) \<and>
    cap_rel opn A \<and> list_all2 delivers outs ps \<and> list_all (indicated es) (all_stored ps) \<and>
    all_delivered ps @ map snd (queue A) = map snd (all_stored ps)"
proof -
  from ioctl_setf [OF assms(1-5)] assms(6) have "cap_rel (capture inst') empty_abs"
    by (auto simp: set_failure_def)
  from capture_runs_empty [OF this assms(7)] show ?thesis by blast
qed

theorem setf_starts_fresh_capture_witness:
  "\<exists>res inst' opn outs. NPF_IoControl (sample_ioctl_env []) sample_setf (sample_instance 32) =
      Inr (res, inst') \<and>
    run_steps (capture_step no_call) [Read (sample_read 40)] (capture inst') = Inr (opn, outs)"
proof -
  have c: "FunctionCode sample_setf = BIOCSETF" "SystemBuffer sample_setf \<noteq> None"
    "\<not> ClosePending (life (sample_instance 32))"
    by (simp_all add: sample_setf_def sample_instance_def sample_life_def)
  obtain res inst' where call: "NPF_IoControl (sample_ioctl_env []) sample_setf (sample_instance 32) =
      Inr (res, inst')" "Size (capture inst') = 64" "CpuData (capture inst') \<noteq> []"
  proof -
    obtain res inst' where call: "NPF_IoControl (sample_ioctl_env []) sample_setf (sample_instance 32) =
        Inr (res, inst')"
      using setf_result [OF sample_instance_rel sample_setf_ok c] by blast
    from setf_keeps_size [OF call c(1)] have "Size (capture inst') = 64" "0 < length (CpuData (capture inst'))"
      by (simp_all add: sample_instance_def sample_open_def)
    with that [OF call] show ?thesis by simp
  qed
  then have "run_ok (event_ok no_call) (capture_step no_call) [Read (sample_read 40)] (capture inst')"
    by (simp add: sample_read_def split: sum.splits)
  from setf_starts_fresh_capture [OF sample_instance_rel sample_setf_ok c call(1) this] call(1)
  show ?thesis by blast
qed

section \<open>OID requests\<close>

lemma ioctl_oid_empty:
  assumes "bound (life inst)" and "\<not> ClosePending (life inst)" and "oid_code req"
    and "free_requests inst = 0"
  shows "NPF_IoControl env req inst = set_failure STATUS_INSUFFICIENT_RESOURCES inst"
  using assms
  by (auto simp: NPF_IoControl_def NPF_StartUsingOpenInstance_def NPF_StopUsingOpenInstance_def
      ioctl_switch_def oid_request_def oid_code_def NPF_StartUsingBinding_def NPF_StopUsingBinding_def
      release_binding_def bound_def set_failure_def Let_def)

lemma ioctl_oid_short:
  assumes "bound (life inst)" and "\<not> ClosePending (life inst)" and "oid_code req"
    and "free_requests inst = Suc n" and "\<not> oid_valid req"
  shows "NPF_IoControl env req inst = set_failure STATUS_BUFFER_TOO_SMALL (inst\<lparr>free_requests := n\<rparr>)"
  using assms
  by (auto simp: NPF_IoControl_def NPF_StartUsingOpenInstance_def NPF_StopUsingOpenInstance_def
      ioctl_switch_def oid_request_def oid_code_def NPF_StartUsingBinding_def NPF_StopUsingBinding_def
      release_binding_def bound_def set_failure_def Let_def)

lemma ioctl_oid_overrun:
  assumes "bound (life inst)" and "\<not> ClosePending (life inst)" and "oid_code req"
    and "free_requests inst > 0" and "oid_valid req"
    and "\<And>i. oid_complete env (FunctionCode req = BIOCSETOID) req i = Inl Pool_Overrun"
  shows "NPF_IoControl env req inst = Inl Pool_Overrun"
  using assms
  by (auto simp: NPF_IoControl_def NPF_StartUsingOpenInstance_def
      ioctl_switch_def oid_request_def oid_code_def NPF_StartUsingBinding_def NPF_StopUsingBinding_def
      release_binding_def bound_def Let_def)

text \<open>
  Every OID request that is refused as too short takes a request from the list for good: after
  as many of them as the list has, every OID request fails for lack of resources.
\<close>

theorem oid_requests_leak:
  assumes "bound (life inst)" and "\<not> ClosePending (life inst)" and "length es = free_requests inst"
    and "list_all (\<lambda>e. oid_code (snd e) \<and> \<not> oid_valid (snd e)) es"
  shows "\<exists>inst' rs. run_steps ioctl_step es inst = Inr (inst', rs) \<and>
    (\<forall>env req. oid_code req \<longrightarrow>
       NPF_IoControl env req inst' = set_failure STATUS_INSUFFICIENT_RESOURCES inst')"
  using assms
proof (induction es arbitrary: inst)
  case Nil
  then show ?case by (simp add: ioctl_oid_empty)
next
  case (Cons e es)
  obtain env req where e: "e = (env, req)" by (cases e)
  have "NPF_IoControl env req inst =
      set_failure STATUS_BUFFER_TOO_SMALL (inst\<lparr>free_requests := length es\<rparr>)"
    using Cons.prems by (intro ioctl_oid_short) (simp_all add: e)
  moreover obtain inst' rs where
    "run_steps ioctl_step es (inst\<lparr>free_requests := length es\<rparr>) = Inr (inst', rs)"
    "\<forall>env req. oid_code req \<longrightarrow>
       NPF_IoControl env req inst' = set_failure STATUS_INSUFFICIENT_RESOURCES inst'"
    using Cons.IH [of "inst\<lparr>free_requests := length es\<rparr>"] Cons.prems by auto
  ultimately show ?case by (simp add: e set_failure_def)
qed

theorem oid_requests_leak_witness:
  "\<exists>inst' rs. run_steps ioctl_step (replicate 32 (sample_ioctl_env [], sample_oid 0 []))
      (sample_instance 32) = Inr (inst', rs) \<and>
    NPF_IoControl (sample_ioctl_env []) (sample_oid 12 (replicate 12 0)) inst' =
      set_failure STATUS_INSUFFICIENT_RESOURCES inst'"
proof -
  have "bound (life (sample_instance 32))" "\<not> ClosePending (life (sample_instance 32))"
    "free_requests (sample_instance 32) = 32"
    by (simp_all add: sample_instance_def sample_life_def bound_def)
  moreover have "oid_code (sample_oid n b)" for n b by (simp add: oid_code_def sample_oid_def)
  moreover have "\<not> oid_valid (sample_oid 0 [])" by (simp add: oid_valid_def sample_oid_def)
  ultimately show ?thesis
    using oid_requests_leak [of "sample_instance 32" "replicate 32 (sample_ioctl_env [], sample_oid 0 [])"]
    by (fastforce simp: list_all_iff)
qed

lemma oid_valid_iff:
  assumes "InputBufferLength req < 4294967296"
  shows "oid_valid req \<longleftrightarrow>
    InputBufferLength req = OutputBufferLength req \<and> 12 \<le> InputBufferLength req \<and>
    (11 + unat (OidData_Length req) \<le> InputBufferLength req \<or>
     4294967285 \<le> unat (OidData_Length req))"
proof (cases "4294967285 \<le> unat (OidData_Length req)")
  case True
  then have "add32 11 (unat (OidData_Length req)) = unat (OidData_Length req) - 4294967285"
    using unat_lt [of "OidData_Length req"] by (simp add: add32_def mod_if)
  then show ?thesis using True unat_lt [of "OidData_Length req"] by (auto simp: oid_valid_def)
qed (auto simp: oid_valid_def)

text \<open>
  The length check of the OID requests is right except that it wraps around: a length of at
  least \<open>2 ^ 32 - 11\<close> passes for any buffer, and an adapter that writes more than the buffer
  holds, within the length it was given, overruns the system buffer.
\<close>

theorem oid_length_wraps:
  assumes "InputBufferLength req < 4294967296"
  shows "(oid_valid req \<longleftrightarrow>
      InputBufferLength req = OutputBufferLength req \<and> 12 \<le> InputBufferLength req \<and>
      (11 + unat (OidData_Length req) \<le> InputBufferLength req \<or>
       4294967285 \<le> unat (OidData_Length req))) \<and>
    (oid_code req \<and> oid_valid req \<and> bound (life inst) \<and> \<not> ClosePending (life inst) \<and>
     free_requests inst > 0 \<and>
     ndis_request env (FunctionCode req = BIOCSETOID) (le32_of (sysbuf req)) (drop 8 (sysbuf req))
       (unat (OidData_Length req)) = (ok, bytes, data) \<and>
     length (sysbuf req) < 8 + length data \<longrightarrow>
       NPF_IoControl env req inst = Inl Pool_Overrun)"
proof -
  have "NPF_IoControl env req inst = Inl Pool_Overrun"
    if a: "oid_code req" "oid_valid req" "bound (life inst)" "\<not> ClosePending (life inst)"
      "free_requests inst > 0"
      and n: "ndis_request env (FunctionCode req = BIOCSETOID) (le32_of (sysbuf req))
        (drop 8 (sysbuf req)) (unat (OidData_Length req)) = (ok, bytes, data)"
      and long: "length (sysbuf req) < 8 + length data"
    using a by (intro ioctl_oid_overrun) (use long in \<open>simp_all add: oid_complete_def n blit_def\<close>)
  then show ?thesis using oid_valid_iff [OF assms] by blast
qed

theorem oid_length_wraps_witness:
  "oid_valid (sample_oid 12 [0, 0, 0, 0, 255, 255, 255, 255, 0, 0, 0, 0]) \<and>
   NPF_IoControl (sample_ioctl_env [1, 2, 3, 4, 5])
     (sample_oid 12 [0, 0, 0, 0, 255, 255, 255, 255, 0, 0, 0, 0]) (sample_instance 32) =
   Inl Pool_Overrun"
proof -
  let ?req = "sample_oid 12 [0, 0, 0, 0, 255, 255, 255, 255, 0, 0, 0, 0]"
  have len: "unat (OidData_Length ?req) = 4294967295"
    by (simp add: OidData_Length_def sample_oid_def sysbuf_def le32_def be32_def)
  have "bound (life (sample_instance 32))" "\<not> ClosePending (life (sample_instance 32))"
    "free_requests (sample_instance 32) > 0"
    by (simp_all add: sample_instance_def sample_life_def bound_def)
  moreover have "oid_code ?req" "InputBufferLength ?req = 12" "OutputBufferLength ?req = 12"
    "length (sysbuf ?req) = 12"
    by (simp_all add: oid_code_def sample_oid_def sysbuf_def)
  moreover have "ndis_request (sample_ioctl_env [1, 2, 3, 4, 5]) (FunctionCode ?req = BIOCSETOID)
      (le32_of (sysbuf ?req)) (drop 8 (sysbuf ?req)) (unat (OidData_Length ?req)) =
      (True, 4, [1, 2, 3, 4, 5])"
    by (simp add: sample_ioctl_env_def len)
  ultimately show ?thesis
    using oid_length_wraps [of ?req "sample_instance 32" "sample_ioctl_env [1, 2, 3, 4, 5]"] len by auto
qed

end
