(* ===== verification/Timestamps.thy ===== *)
theory Timestamps
  imports Capture "HOL-Library.Signed_Division"
begin

text \<open>
  The time stamps of the packets (\<open>packetNtx/driver/time_calls.h\<close>): the synchronisation of the
  performance counter, or of the time stamp counter of the processor, with the system time, and the
  conversion of a counter value into a \<open>timeval\<close>. The clocks are arguments. LONG values are 32-bit
  words, compared as signed numbers; LARGE_INTEGER values are integers, ULONGLONG values natural
  numbers, with the wrap-around of their products written out.
\<close>

section \<open>Clocks\<close>

abbreviation SINGLE_SYNCHRONIZATION :: nat where "SINGLE_SYNCHRONIZATION \<equiv> 0"
abbreviation SYNCHRONIZATION_ON_CPU_WITH_FIXUP :: nat where "SYNCHRONIZATION_ON_CPU_WITH_FIXUP \<equiv> 1"
abbreviation QUERYSYSTEMTIME :: nat where "QUERYSYSTEMTIME \<equiv> 2"
abbreviation RDTSC :: nat where "RDTSC \<equiv> 3"
abbreviation SYNCHRONIZATION_ON_CPU_NO_FIXUP :: nat where "SYNCHRONIZATION_ON_CPU_NO_FIXUP \<equiv> 99"

text \<open>
  What the clocks show at one moment: the performance counter and its frequency, the system time in
  units of 100 nanoseconds since 1601, the time stamp counter, and the number of the CPU.
\<close>

record clocks =
  KQPC :: int
  Freq :: int
  SystemTime :: int
  TSC :: nat
  CurrentCpu :: nat

record time_conv =
  reference :: nat
  start :: "timestamp list"

definition quad :: "int \<Rightarrow> int" where
  "quad x = (x + 2 ^ 63) mod 2 ^ 64 - 2 ^ 63"

definition mul64 :: "nat \<Rightarrow> nat \<Rightarrow> nat" where
  "mul64 a b = (a * b) mod 2 ^ 64"

definition normalize_down :: "u32 \<Rightarrow> u32 \<Rightarrow> timestamp" where
  "normalize_down s us =
     (if sint us < 0 then \<lparr>tv_sec = s - 1, tv_usec = us + 1000000\<rparr> else \<lparr>tv_sec = s, tv_usec = us\<rparr>)"

definition normalize_up :: "u32 \<Rightarrow> u32 \<Rightarrow> timestamp" where
  "normalize_up s us =
     (if sint us \<ge> 1000000 then \<lparr>tv_sec = s + 1, tv_usec = us - 1000000\<rparr> else \<lparr>tv_sec = s, tv_usec = us\<rparr>)"

definition kqpc_usec :: "clocks \<Rightarrow> int" where
  "kqpc_usec c = quad ((KQPC c smod Freq c) * 1000000) sdiv Freq c"

section \<open>Synchronisation\<close>

definition SynchronizeOnCpu :: "clocks \<Rightarrow> timestamp" where
  "SynchronizeOnCpu c =
     normalize_down
       (of_int (SystemTime c sdiv 10000000 - 11644473600) - of_int (KQPC c sdiv Freq c))
       (of_int ((SystemTime c smod 10000000) sdiv 10) - of_int (kqpc_usec c))"

text \<open>
  \<open>TimeSynchronizeRDTSC\<close>: \<open>c0\<close> and \<open>c1\<close> are the clocks before and after the wait of 350
  milliseconds, \<open>c2\<close> is the moment of the synchronisation. A division by zero is \<open>None\<close>.
\<close>

definition tsc_reference :: "clocks \<Rightarrow> clocks \<Rightarrow> nat option" where
  "tsc_reference c0 c1 =
     (let delta = (TSC c1 + 2 ^ 64 - TSC c0) mod 2 ^ 64;
          delta2 = nat ((KQPC c1 - KQPC c0) mod 2 ^ 64);
          (d, d2) = (if delta > 10000000000 then (delta div 16, delta2 div 16) else (delta, delta2)) in
      if d2 = 0 then None
      else (let r = mul64 d (nat (Freq c0 mod 2 ^ 64)) div d2 in
        Some ((r div 1000 + (if r mod 1000 > 500 then 1 else 0)) * 1000)))"

definition TimeSynchronizeRDTSC :: "clocks \<Rightarrow> clocks \<Rightarrow> clocks \<Rightarrow> time_conv \<Rightarrow> time_conv option" where
  "TimeSynchronizeRDTSC c0 c1 c2 data =
     (if reference data \<noteq> 0 then Some data
      else (case tsc_reference c0 c1 of
          None \<Rightarrow> None
        | Some r \<Rightarrow>
            if r = 0 then None
            else (let t = SystemTime c2 - 116444736000000000 in
              Some \<lparr>reference = r,
                start = (start data)[0 := normalize_down
                  (of_int (t sdiv 10000000) - of_nat (TSC c2 div r))
                  (of_int ((t smod 10000000) sdiv 10) - of_nat (mul64 (TSC c2 mod r) 1000000 div r))]\<rparr>)))"

text \<open>The clocks of the synchronisation: one reading per CPU, or the three of the RDTSC mode.\<close>

definition TIME_SYNCHRONIZE :: "nat \<Rightarrow> (nat \<Rightarrow> clocks) \<Rightarrow> nat \<Rightarrow> time_conv \<Rightarrow> time_conv option" where
  "TIME_SYNCHRONIZE TimestampMode cs NumberOfCpus data =
     (if reference data \<noteq> 0 then Some data
      else if TimestampMode = SYNCHRONIZATION_ON_CPU_WITH_FIXUP \<or>
        TimestampMode = SYNCHRONIZATION_ON_CPU_NO_FIXUP
      then (if NumberOfCpus > length (start data) then None
        else Some \<lparr>reference = 1,
          start = map (SynchronizeOnCpu \<circ> cs) [0..<NumberOfCpus] @ drop NumberOfCpus (start data)\<rparr>)
      else if TimestampMode = QUERYSYSTEMTIME then Some (data\<lparr>reference := 1\<rparr>)
      else if TimestampMode = RDTSC then TimeSynchronizeRDTSC (cs 0) (cs 1) (cs 2) data
      else Some \<lparr>reference = 1, start = (start data)[0 := SynchronizeOnCpu (cs 0)]\<rparr>)"

definition TIME_DESYNCHRONIZE :: "time_conv \<Rightarrow> time_conv" where
  "TIME_DESYNCHRONIZE data = data\<lparr>reference := 0\<rparr>"

section \<open>Reading the time\<close>

definition earlier :: "timestamp \<Rightarrow> timestamp \<Rightarrow> bool" where
  "earlier a b \<longleftrightarrow>
     sint (tv_sec a) < sint (tv_sec b) \<or> tv_sec a = tv_sec b \<and> sint (tv_usec a) < sint (tv_usec b)"

definition kqpc_time :: "clocks \<Rightarrow> timestamp \<Rightarrow> timestamp" where
  "kqpc_time c st =
     normalize_up (tv_sec st + of_int (KQPC c sdiv Freq c)) (tv_usec st + of_int (kqpc_usec c))"

text \<open>\<open>old_ts\<close> is the static variable of \<open>GetTimeKQPC\<close>; the result is the time and its new value.\<close>

definition GetTimeKQPC :: "nat \<Rightarrow> clocks \<Rightarrow> time_conv \<Rightarrow> timestamp \<Rightarrow> timestamp \<times> timestamp" where
  "GetTimeKQPC TimestampMode c data old_ts =
     (if TimestampMode = SYNCHRONIZATION_ON_CPU_WITH_FIXUP \<or>
        TimestampMode = SYNCHRONIZATION_ON_CPU_NO_FIXUP
      then (let dst = kqpc_time c (start data ! CurrentCpu c) in
        if TimestampMode = SYNCHRONIZATION_ON_CPU_WITH_FIXUP
        then (if earlier dst old_ts then (old_ts, old_ts) else (dst, dst))
        else (dst, old_ts))
      else (kqpc_time c (start data ! 0), old_ts))"

definition GetTimeRDTSC :: "clocks \<Rightarrow> time_conv \<Rightarrow> timestamp \<Rightarrow> timestamp" where
  "GetTimeRDTSC c data dst =
     (if reference data = 0 then dst
      else (let sec = (of_nat (TSC c div reference data) :: u32);
                rest = nat ((int (TSC c) - sint sec * int (reference data)) mod 2 ^ 64) in
        normalize_up (sec + tv_sec (start data ! 0))
          (of_nat (mul64 rest 1000000 div reference data) + tv_usec (start data ! 0))))"

definition GetTimeQST :: "clocks \<Rightarrow> timestamp" where
  "GetTimeQST c =
     \<lparr>tv_sec = of_int (SystemTime c sdiv 10000000 - 11644473600),
      tv_usec = of_int ((SystemTime c smod 10000000) sdiv 10)\<rparr>"

definition GET_TIME ::
    "nat \<Rightarrow> clocks \<Rightarrow> time_conv \<Rightarrow> timestamp \<Rightarrow> timestamp \<Rightarrow> timestamp \<times> timestamp" where
  "GET_TIME TimestampMode c data dst old_ts =
     (if TimestampMode = RDTSC then (GetTimeRDTSC c data dst, old_ts)
      else if TimestampMode = QUERYSYSTEMTIME then (GetTimeQST c, old_ts)
      else GetTimeKQPC TimestampMode c data old_ts)"

end
