(* ===== verification/Time_Properties.thy ===== *)
theory Time_Properties
  imports Timestamps
begin

text \<open>
  The time stamps follow the clocks: what \<open>GET_TIME\<close> returns is the system time at the moment of the
  synchronisation plus the time the counter has measured since, in whole microseconds.
\<close>

section \<open>Microseconds\<close>

definition micros :: "timestamp \<Rightarrow> int" where
  "micros ts = uint (tv_sec ts) * 1000000 + uint (tv_usec ts)"

definition normal :: "timestamp \<Rightarrow> bool" where
  "normal ts \<longleftrightarrow> uint (tv_usec ts) < 1000000"

lemma sdiv_smod_nonneg:
  assumes "0 \<le> (a :: int)" and "0 < b"
  shows "a sdiv b = a div b" and "a smod b = a mod b"
  using assms by (cases "a = 0"; simp add: signed_modulo_int_def signed_divide_int_def)+

lemma scaled_div_mod: "(p :: int) * m = (p div f) * m * f + (p mod f) * m"
proof -
  have "p * m = ((p div f) * f + p mod f) * m" by simp
  also have "\<dots> = (p div f) * m * f + (p mod f) * m" by (simp only: algebra_simps)
  finally show ?thesis .
qed

lemma div_less_of_less_mult:
  assumes "0 < (f :: int)" and "x < f * n"
  shows "x div f < n"
proof (rule ccontr)
  assume "\<not> x div f < n"
  then have "f * n \<le> f * (x div f)" using assms(1) by simp
  also have "\<dots> \<le> x" using assms(1) by (simp add: minus_mod_eq_mult_div [symmetric])
  finally show False using assms(2) by simp
qed

lemma uint_of_int_u32: "0 \<le> x \<Longrightarrow> x < 4294967296 \<Longrightarrow> uint (of_int x :: u32) = x"
  by (simp add: uint_word_of_int take_bit_int_eq_self)

lemma sint_of_int_u32:
  assumes "- 2147483648 \<le> x" and "x < 2147483648"
  shows "sint (of_int x :: u32) = x"
proof -
  have "sint (of_int x :: u32) = signed_take_bit (LENGTH(32) - Suc 0) x"
    by (simp only: sint_uint uint_word_of_int_eq signed_take_bit_take_bit) simp
  also have "\<dots> = x" using assms by (intro signed_take_bit_int_eq_self) simp_all
  finally show ?thesis .
qed

lemma normalize_down_micros:
  assumes "- 1000000 < us" and "us < 1000000" and "0 \<le> s * 1000000 + us" and "s < 4294967296"
  shows "micros (normalize_down (of_int s) (of_int us)) = s * 1000000 + us"
    and "normal (normalize_down (of_int s) (of_int us))"
proof -
  have sint: "sint (of_int us :: u32) = us" using assms by (intro sint_of_int_u32) simp_all
  have "micros (normalize_down (of_int s) (of_int us)) = s * 1000000 + us \<and>
    normal (normalize_down (of_int s) (of_int us))"
  proof (cases "us < 0")
    case True
    then have s: "1 \<le> s" using assms(3) by linarith
    have "(of_int us :: u32) + 1000000 = of_int (us + 1000000)" "(of_int s :: u32) - 1 = of_int (s - 1)"
      by simp_all
    moreover have "uint (of_int (us + 1000000) :: u32) = us + 1000000" "uint (of_int (s - 1) :: u32) = s - 1"
      using assms True s by (intro uint_of_int_u32; simp)+
    ultimately show ?thesis using True sint
      by (simp add: normalize_down_def micros_def normal_def)
  next
    case False
    then have s: "0 \<le> s" using assms(2,3) by linarith
    have "uint (of_int us :: u32) = us" "uint (of_int s :: u32) = s"
      using assms False s by (intro uint_of_int_u32; simp)+
    then show ?thesis using False sint assms(2)
      by (simp add: normalize_down_def micros_def normal_def)
  qed
  then show "micros (normalize_down (of_int s) (of_int us)) = s * 1000000 + us"
    "normal (normalize_down (of_int s) (of_int us))" by blast+
qed

lemma normalize_up_micros:
  assumes "normal st" and "0 \<le> us" and "us < 1000000" and "0 \<le> s" and "uint (tv_sec st) + s < 4294967295"
  shows "micros (normalize_up (tv_sec st + of_int s) (tv_usec st + of_int us)) =
      micros st + s * 1000000 + us"
    and "normal (normalize_up (tv_sec st + of_int s) (tv_usec st + of_int us))"
proof -
  let ?u = "uint (tv_usec st) + us" and ?s = "uint (tv_sec st) + s"
  have u: "0 \<le> ?u" "?u < 2000000" "0 \<le> ?s" using assms by (simp_all add: normal_def)
  have words: "tv_sec st + of_int s = of_int ?s" "tv_usec st + of_int us = of_int ?u" by simp_all
  have sint: "sint (of_int ?u :: u32) = ?u" using u by (intro sint_of_int_u32) simp_all
  have "micros (normalize_up (of_int ?s) (of_int ?u)) = ?s * 1000000 + ?u \<and>
    normal (normalize_up (of_int ?s) (of_int ?u))"
  proof (cases "?u < 1000000")
    case True
    have "uint (of_int ?u :: u32) = ?u" "uint (of_int ?s :: u32) = ?s"
      using assms u by (intro uint_of_int_u32; linarith)+
    then show ?thesis using True sint by (simp add: normalize_up_def micros_def normal_def)
  next
    case False
    have "(of_int ?u :: u32) - 1000000 = of_int (?u - 1000000)" "(of_int ?s :: u32) + 1 = of_int (?s + 1)"
      by simp_all
    moreover have "uint (of_int (?u - 1000000) :: u32) = ?u - 1000000" "uint (of_int (?s + 1) :: u32) = ?s + 1"
      using assms u False by (intro uint_of_int_u32; linarith)+
    ultimately show ?thesis using False sint u
      by (simp add: normalize_up_def micros_def normal_def)
  qed
  then show "micros (normalize_up (tv_sec st + of_int s) (tv_usec st + of_int us)) =
      micros st + s * 1000000 + us"
    "normal (normalize_up (tv_sec st + of_int s) (tv_usec st + of_int us))"
    unfolding words by (auto simp: micros_def)
qed

section \<open>The performance counter\<close>

text \<open>The counter is positive and its frequency at most \<open>2 ^ 43\<close>, so that no product overflows.\<close>

definition clock_ok :: "clocks \<Rightarrow> bool" where
  "clock_ok c \<longleftrightarrow> 0 \<le> KQPC c \<and> 0 < Freq c \<and> Freq c \<le> 2 ^ 43 \<and> 0 \<le> SystemTime c"

definition counter_us :: "clocks \<Rightarrow> int" where
  "counter_us c = KQPC c * 1000000 div Freq c"

definition system_us :: "clocks \<Rightarrow> int" where
  "system_us c = SystemTime c div 10 - 11644473600000000"

lemma kqpc_split:
  assumes "clock_ok c"
  shows "kqpc_usec c = ((KQPC c mod Freq c) * 1000000) div Freq c"
    and "(KQPC c sdiv Freq c) * 1000000 + kqpc_usec c = counter_us c"
    and "0 \<le> kqpc_usec c" and "kqpc_usec c < 1000000" and "0 \<le> KQPC c sdiv Freq c"
proof -
  let ?p = "KQPC c" and ?f = "Freq c"
  have f: "0 < ?f" "?f \<le> 8796093022208" "0 \<le> ?p" using assms by (simp_all add: clock_ok_def)
  have m: "0 \<le> ?p mod ?f" "?p mod ?f < ?f" using f(1) by simp_all
  have "(?p mod ?f) * 1000000 < 2 ^ 63" using m f(2) by simp
  then have q: "quad ((?p mod ?f) * 1000000) = (?p mod ?f) * 1000000"
    using m(1) by (simp add: quad_def mod_pos_pos_trivial)
  have sm: "?p smod ?f = ?p mod ?f" and sd: "?p sdiv ?f = ?p div ?f"
    using f by (simp_all add: sdiv_smod_nonneg)
  have "quad ((?p mod ?f) * 1000000) sdiv ?f = (?p mod ?f) * 1000000 div ?f"
    unfolding q using f m by (simp add: sdiv_smod_nonneg)
  then show u: "kqpc_usec c = (?p mod ?f) * 1000000 div ?f" by (simp add: kqpc_usec_def sm)
  have "?p * 1000000 = (?p div ?f) * 1000000 * ?f + (?p mod ?f) * 1000000"
    by (rule scaled_div_mod)
  then have "?p * 1000000 div ?f = (?p div ?f) * 1000000 + (?p mod ?f) * 1000000 div ?f"
    using f(1) by simp
  then show "(?p sdiv ?f) * 1000000 + kqpc_usec c = counter_us c" by (simp add: u sd counter_us_def)
  show "0 \<le> kqpc_usec c" using u m f by (simp add: pos_imp_zdiv_nonneg_iff)
  have "(?p mod ?f) * 1000000 < 1000000 * ?f" using m(2) by simp
  also have "1000000 * ?f = ?f * 1000000" by simp
  finally show "kqpc_usec c < 1000000" unfolding u by (rule div_less_of_less_mult [OF f(1)])
  show "0 \<le> ?p sdiv ?f" using f by (simp add: sd pos_imp_zdiv_nonneg_iff)
qed

lemma decimal_split:
  assumes "0 \<le> (t :: int)"
  shows "(t sdiv 10000000) * 1000000 + (t smod 10000000) sdiv 10 = t div 10"
    and "0 \<le> (t smod 10000000) sdiv 10" and "(t smod 10000000) sdiv 10 < 1000000"
    and "t sdiv 10000000 = t div 10000000"
proof -
  have m: "t smod 10000000 = t mod 10000000" "t sdiv 10000000 = t div 10000000"
    using assms by (simp_all add: sdiv_smod_nonneg)
  have d: "(t mod 10000000) sdiv 10 = t mod 10000000 div 10" by (simp add: sdiv_smod_nonneg)
  have "t = (t div 10000000) * 1000000 * 10 + t mod 10000000"
    using div_mult_mod_eq [of t 10000000] by simp
  then have "t div 10 = ((t div 10000000) * 1000000 * 10 + t mod 10000000) div 10" by simp
  also have "\<dots> = t div 10000000 * 1000000 + t mod 10000000 div 10"
    by (rule div_plus_div_distrib_dvd_left [THEN trans]) simp_all
  finally show "(t sdiv 10000000) * 1000000 + (t smod 10000000) sdiv 10 = t div 10"
    unfolding m d by simp
  show "0 \<le> (t smod 10000000) sdiv 10" "(t smod 10000000) sdiv 10 < 1000000"
    unfolding m d by (simp_all add: div_less_iff_less_mult)
  show "t sdiv 10000000 = t div 10000000" by (rule m)
qed

lemma sync_micros:
  assumes "clock_ok c" and "counter_us c \<le> system_us c" and "SystemTime c < 159394408960000000"
  shows "micros (SynchronizeOnCpu c) = system_us c - counter_us c" and "normal (SynchronizeOnCpu c)"
proof -
  let ?s = "SystemTime c sdiv 10000000 - 11644473600 - KQPC c sdiv Freq c"
  let ?u = "(SystemTime c smod 10000000) sdiv 10 - kqpc_usec c"
  have "0 \<le> SystemTime c" using assms(1) by (simp add: clock_ok_def)
  note k = kqpc_split [OF assms(1)] and t = decimal_split [OF this]
  have sum: "?s * 1000000 + ?u = system_us c - counter_us c"
    using k(2) t(1) unfolding system_us_def by (simp add: algebra_simps)
  have "SystemTime c div 10000000 < 15939440896" using assms(3) by (simp add: div_less_iff_less_mult)
  then have s: "?s < 4294967296" using k(5) t(4) by linarith
  have pos: "0 \<le> ?s * 1000000 + ?u" using sum assms(2) by linarith
  have u: "- 1000000 < ?u" "?u < 1000000" using k t by linarith+
  from normalize_down_micros [OF u pos s]
  show "micros (SynchronizeOnCpu c) = system_us c - counter_us c" "normal (SynchronizeOnCpu c)"
    unfolding sum by (simp_all add: SynchronizeOnCpu_def)
qed

lemma kqpc_time_micros:
  assumes "clock_ok c" and "normal st" and "micros st + counter_us c < 4294967295000000"
  shows "micros (kqpc_time c st) = micros st + counter_us c" and "normal (kqpc_time c st)"
proof -
  note k = kqpc_split [OF assms(1)]
  have "uint (tv_sec st) + KQPC c sdiv Freq c < 4294967295"
    using assms(3) k(2,3) uint_ge_0 [of "tv_usec st"] unfolding micros_def by linarith
  from normalize_up_micros [OF assms(2) k(3,4,5) this] k(2)
  show "micros (kqpc_time c st) = micros st + counter_us c" "normal (kqpc_time c st)"
    by (simp_all add: kqpc_time_def)
qed

section \<open>The time stamp counter\<close>

definition tsc_us :: "nat \<Rightarrow> clocks \<Rightarrow> int" where
  "tsc_us r c = int (TSC c * 1000000 div r)"

lemma tsc_split:
  assumes "0 < r" and "r \<le> 2 ^ 43"
  shows "mul64 (t mod r) 1000000 div r = (t mod r) * 1000000 div r"
    and "(t div r) * 1000000 + (t mod r) * 1000000 div r = t * 1000000 div r"
    and "(t mod r) * 1000000 div r < 1000000"
proof -
  have m: "t mod r < r" "t mod r * 1000000 < r * 1000000" using assms(1) by simp_all
  then have "t mod r * 1000000 < 2 ^ 64" using assms(2) by simp
  then show "mul64 (t mod r) 1000000 div r = (t mod r) * 1000000 div r" by (simp add: mul64_def)
  have "t * 1000000 = ((t div r) * r + t mod r) * 1000000" by simp
  also have "\<dots> = (t div r) * 1000000 * r + t mod r * 1000000" by (simp only: algebra_simps)
  finally show "(t div r) * 1000000 + (t mod r) * 1000000 div r = t * 1000000 div r"
    using assms(1) by simp
  show "(t mod r) * 1000000 div r < 1000000"
    using m(2) by (simp add: less_mult_imp_div_less mult.commute)
qed

lemma rdtsc_sync_micros:
  assumes "clock_ok c" and "0 < r" and "r \<le> 2 ^ 43" and "tsc_us r c \<le> system_us c"
    and "SystemTime c < 159394408960000000"
  defines "st \<equiv> normalize_down
    (of_int ((SystemTime c - 116444736000000000) sdiv 10000000) - of_nat (TSC c div r))
    (of_int (((SystemTime c - 116444736000000000) smod 10000000) sdiv 10) -
     of_nat (mul64 (TSC c mod r) 1000000 div r))"
  shows "micros st = system_us c - tsc_us r c" and "normal st"
proof -
  let ?t = "SystemTime c - 116444736000000000"
  let ?s = "?t sdiv 10000000 - int (TSC c div r)"
  let ?u = "(?t smod 10000000) sdiv 10 - int (TSC c mod r * 1000000 div r)"
  note k = tsc_split [OF assms(2,3), of "TSC c"]
  have "0 \<le> tsc_us r c" by (simp add: tsc_us_def)
  then have "116444736000000000 \<le> SystemTime c" using assms(4) by (simp add: system_us_def)
  then have "0 \<le> ?t" by simp
  note t = decimal_split [OF this]
  have tsc: "int (TSC c div r) * 1000000 + int (TSC c mod r * 1000000 div r) = tsc_us r c"
    unfolding tsc_us_def k(2) [symmetric] by simp
  have sum: "?s * 1000000 + ?u = system_us c - tsc_us r c"
    using t(1) tsc unfolding system_us_def by (simp add: left_diff_distrib)
  have "?t div 10000000 < 4294967296" using assms(5) by (simp add: div_less_iff_less_mult)
  then have s: "?s < 4294967296" using t(4) by linarith
  have pos: "0 \<le> ?s * 1000000 + ?u" using sum assms(4) by linarith
  have "int (TSC c mod r * 1000000 div r) < 1000000" using k(3) by linarith
  then have u: "- 1000000 < ?u" "?u < 1000000" using t(2,3) by linarith+
  have "st = normalize_down (of_int ?s) (of_int ?u)" by (simp add: st_def k(1))
  with normalize_down_micros [OF u pos s] sum
  show "micros st = system_us c - tsc_us r c" "normal st" by simp_all
qed

lemma rdtsc_time_micros:
  assumes r: "reference data = r" "0 < r" "r \<le> 2 ^ 43" and "TSC c div r < 2 ^ 31"
    and st: "normal (start data ! 0)" "micros (start data ! 0) + tsc_us r c < 4294967295000000"
  shows "micros (GetTimeRDTSC c data dst) = micros (start data ! 0) + tsc_us r c"
    and "normal (GetTimeRDTSC c data dst)"
proof -
  let ?st = "start data ! 0" and ?q = "TSC c div r" and ?u = "TSC c mod r * 1000000 div r"
  note k = tsc_split [OF r(2,3), of "TSC c"]
  have q: "sint (of_nat ?q :: u32) = int ?q"
    using sint_of_int_u32 [of "int ?q"] assms(4) by simp
  have "int (TSC c) - int ?q * int r = int (TSC c mod r)"
    by (metis add_diff_cancel_left' div_mult_mod_eq of_nat_add of_nat_mult)
  moreover have "TSC c mod r < 2 ^ 64" using r(2,3) by (intro less_trans [OF mod_less_divisor]) simp_all
  ultimately have rest: "nat ((int (TSC c) - sint (of_nat ?q :: u32) * int r) mod 2 ^ 64) = TSC c mod r"
    unfolding q by (simp add: mod_pos_pos_trivial)
  have call: "GetTimeRDTSC c data dst =
      normalize_up (tv_sec ?st + of_int (int ?q)) (tv_usec ?st + of_int (int ?u))"
    unfolding GetTimeRDTSC_def Let_def r(1) rest k(1) using r(2) by (simp add: add.commute)
  have sum: "int ?q * 1000000 + int ?u = tsc_us r c"
    unfolding tsc_us_def k(2) [symmetric] by simp
  have "uint (tv_sec ?st) + int ?q < 4294967295"
    using st(2) sum uint_ge_0 [of "tv_usec ?st"] unfolding micros_def by linarith
  moreover have "int ?u < 1000000" using k(3) by linarith
  ultimately have "micros (GetTimeRDTSC c data dst) = micros ?st + int ?q * 1000000 + int ?u"
    "normal (GetTimeRDTSC c data dst)"
    unfolding call by (intro normalize_up_micros [OF st(1)]; simp)+
  then show "micros (GetTimeRDTSC c data dst) = micros (start data ! 0) + tsc_us r c"
    "normal (GetTimeRDTSC c data dst)" using sum by linarith+
qed

section \<open>The properties\<close>

text \<open>What the reader of the time stamps relies on: at the synchronisation the clock was \<open>c0\<close>.\<close>

definition sync_ok :: "clocks \<Rightarrow> bool" where
  "sync_ok c \<longleftrightarrow> clock_ok c \<and> counter_us c \<le> system_us c \<and> SystemTime c < 159394408960000000"

lemma TIME_SYNCHRONIZE_kqpc:
  assumes "reference data = 0" and "length (start data) = 32" and "md \<notin> {QUERYSYSTEMTIME, RDTSC}"
    and "n \<le> 32" and "cpu < n"
  defines "i \<equiv> (if md \<in> {SYNCHRONIZATION_ON_CPU_WITH_FIXUP, SYNCHRONIZATION_ON_CPU_NO_FIXUP} then cpu else 0)"
  shows "\<exists>data'. TIME_SYNCHRONIZE md cs n data = Some data' \<and>
    start data' ! i = SynchronizeOnCpu (cs i)"
  using assms by (auto simp: TIME_SYNCHRONIZE_def nth_append)

text \<open>
  C18: In the modes based on the performance counter a time stamp is the system time at the
  synchronisation plus the microseconds the counter has counted since, less than one microsecond
  off the quotient, and its microseconds are below one million. So without fix-up the time stamps
  of a CPU never decrease as long as its counter does not.
\<close>

theorem time_tracks_counter:
  assumes mode: "TimestampMode \<in> {SINGLE_SYNCHRONIZATION, SYNCHRONIZATION_ON_CPU_NO_FIXUP}"
    and data: "reference data = 0" "length (start data) = 32" and cpus: "n \<le> 32" "CurrentCpu c < n"
    and i: "i = (if TimestampMode = SINGLE_SYNCHRONIZATION then 0 else CurrentCpu c)"
    and ok: "sync_ok (cs i)" "clock_ok c"
    and range: "system_us (cs i) - counter_us (cs i) + counter_us c < 4294967295000000"
  shows "\<exists>data'. TIME_SYNCHRONIZE TimestampMode cs n data = Some data' \<and>
    micros (fst (GET_TIME TimestampMode c data' dst old_ts)) =
      system_us (cs i) + (counter_us c - counter_us (cs i)) \<and>
    normal (fst (GET_TIME TimestampMode c data' dst old_ts))"
proof -
  obtain data' where sync: "TIME_SYNCHRONIZE TimestampMode cs n data = Some data'"
    and start: "start data' ! i = SynchronizeOnCpu (cs i)"
    using TIME_SYNCHRONIZE_kqpc [OF data _ cpus, of TimestampMode cs] mode i by auto
  have time: "fst (GET_TIME TimestampMode c data' dst old_ts) = kqpc_time c (SynchronizeOnCpu (cs i))"
    using mode start i by (auto simp: GET_TIME_def GetTimeKQPC_def Let_def)
  have "micros (SynchronizeOnCpu (cs i)) = system_us (cs i) - counter_us (cs i)"
    "normal (SynchronizeOnCpu (cs i))"
    using sync_micros [of "cs i"] ok(1) by (simp_all add: sync_ok_def)
  with kqpc_time_micros [OF ok(2), of "SynchronizeOnCpu (cs i)"] range sync show ?thesis
    by (simp add: time)
qed

definition sample_ts0 :: timestamp where
  "sample_ts0 = \<lparr>tv_sec = 0, tv_usec = 0\<rparr>"

definition sample_clock :: "int \<Rightarrow> clocks" where
  "sample_clock p = \<lparr>KQPC = p, Freq = 3579545, SystemTime = 128000000000000005, TSC = 0, CurrentCpu = 1\<rparr>"

theorem time_tracks_counter_witness:
  "\<exists>data'. TIME_SYNCHRONIZE SINGLE_SYNCHRONIZATION (\<lambda>_. sample_clock 3579545) 2
      \<lparr>reference = 0, start = replicate 32 sample_ts0\<rparr> = Some data' \<and>
    micros (fst (GET_TIME SINGLE_SYNCHRONIZATION (sample_clock 12528407) data' sample_ts0 sample_ts0)) =
      1155526400000000 + 2499999"
proof -
  have c: "counter_us (sample_clock 3579545) = 1000000" "counter_us (sample_clock 12528407) = 3499999"
    "system_us (sample_clock 3579545) = 1155526400000000"
    by (simp_all add: counter_us_def system_us_def sample_clock_def)
  then have ok: "sync_ok (sample_clock 3579545)" "clock_ok (sample_clock 12528407)"
    by (simp_all add: sync_ok_def clock_ok_def sample_clock_def)
  have "CurrentCpu (sample_clock 12528407) < 2" by (simp add: sample_clock_def)
  then show ?thesis
    using time_tracks_counter [of SINGLE_SYNCHRONIZATION
        "\<lparr>reference = 0, start = replicate 32 sample_ts0\<rparr>" 2 "sample_clock 12528407" 0
        "\<lambda>_. sample_clock 3579545" sample_ts0 sample_ts0] ok c
    by auto
qed

text \<open>
  The same for the time stamp counter, with the frequency \<open>r\<close> that the synchronisation has measured.
\<close>

lemma rdtsc_tracks_counter:
  assumes data: "reference data = 0" "length (start data) = 32"
    and sync: "TIME_SYNCHRONIZE RDTSC cs n data = Some data'" and r: "r = reference data'" "r \<le> 2 ^ 43"
    and ok: "clock_ok (cs 2)" "tsc_us r (cs 2) \<le> system_us (cs 2)"
      "SystemTime (cs 2) < 159394408960000000"
    and range: "system_us (cs 2) - tsc_us r (cs 2) + tsc_us r c < 4294967295000000"
      "TSC c div r < 2 ^ 31"
  shows "micros (fst (GET_TIME RDTSC c data' dst old_ts)) =
      system_us (cs 2) + (tsc_us r c - tsc_us r (cs 2))"
proof -
  have r0: "0 < r" and start: "start data' ! 0 = normalize_down
      (of_int ((SystemTime (cs 2) - 116444736000000000) sdiv 10000000) - of_nat (TSC (cs 2) div r))
      (of_int (((SystemTime (cs 2) - 116444736000000000) smod 10000000) sdiv 10) -
       of_nat (mul64 (TSC (cs 2) mod r) 1000000 div r))"
    using sync r(1) data
    by (auto simp: TIME_SYNCHRONIZE_def TimeSynchronizeRDTSC_def Let_def split: option.splits if_splits)
  from rdtsc_sync_micros [OF ok(1) r0 r(2) ok(2,3)] have st: "normal (start data' ! 0)"
    "micros (start data' ! 0) = system_us (cs 2) - tsc_us r (cs 2)" unfolding start by blast+
  from rdtsc_time_micros [OF r(1) [symmetric] r0 r(2) range(2) st(1)] st(2) range(1)
  show ?thesis by (simp add: GET_TIME_def)
qed






end
