(* ===== verification/Sockutils.thy ===== *)
theory Sockutils
  imports Prelude
begin

text \<open>
  The socket helpers of the remote capture (\<open>wpcap/libpcap/sockutils.c\<close>). The incoming side of a
  socket is the list of what the calls of recv will find: segments of a stream, datagrams, or
  failures; at the end of the list the peer has closed the connection. The outgoing side is the list of what the calls
  of send do. The C \<open>int\<close> sizes are integers, so that a negative size is a value.
\<close>

section \<open>Big-endian fields\<close>

definition be32_bytes :: "u32 \<Rightarrow> u8 list" where
  "be32_bytes w = rev (le32_bytes w)"

definition be16_bytes :: "u16 \<Rightarrow> u8 list" where
  "be16_bytes w = rev (le16_bytes w)"

definition be32_of :: "u8 list \<Rightarrow> u32" where
  "be32_of b = be32 (b ! 0) (b ! 1) (b ! 2) (b ! 3)"

definition be16_of :: "u8 list \<Rightarrow> u16" where
  "be16_of b = push_bit 8 (ucast (b ! 0)) OR ucast (b ! 1)"

lemma length_be_bytes [simp, bytes]: "length (be32_bytes w) = 4" "length (be16_bytes v) = 2"
  by (simp_all add: be32_bytes_def be16_bytes_def)

lemma be32_of_bytes [simp]: "be32_of (be32_bytes w @ rest) = w"
  using le32_le32_bytes [of w] by (simp add: be32_of_def be32_bytes_def le32_bytes_def le32_def)

lemma be16_of_bytes [simp]: "be16_of (be16_bytes w @ rest) = w"
  by (auto simp: be16_of_def be16_bytes_def le16_bytes_def bit_simps intro!: bit_word_eqI)

lemma be_of_bytes [simp]: "be32_of (be32_bytes w) = w" "be16_of (be16_bytes v) = v"
  using be32_of_bytes [of w "[]"] be16_of_bytes [of v "[]"] by simp_all

section \<open>Receiving\<close>

datatype recv_event = Arrives "u8 list" | Datagram "u8 list" | Recv_Fails

type_synonym in_stream = "recv_event list"

text \<open>
  The system call: None is SOCKET_ERROR, the empty list a closed connection. A datagram that does
  not fit is lost, and the call fails with WSAEMSGSIZE.
\<close>

fun recv :: "int \<Rightarrow> in_stream \<Rightarrow> u8 list option \<times> in_stream" where
  "recv n [] = (if n < 0 then None else Some [], [])"
| "recv n (Recv_Fails # s) = (if n < 0 then (None, Recv_Fails # s) else (None, s))"
| "recv n (Datagram d # s) =
     (if n < 0 then (None, Datagram d # s) else if int (length d) \<le> n then (Some d, s) else (None, s))"
| "recv n (Arrives d # s) =
     (if n < 0 then (None, Arrives d # s)
      else if int (length d) \<le> n then (Some d, s)
      else (Some (take (nat n) d), Arrives (drop (nat n) d) # s))"

lemma recv_bound: "recv n s = (Some d, s') \<Longrightarrow> 0 \<le> n \<and> int (length d) \<le> n"
  by (cases "(n, s)" rule: recv.cases) (auto split: if_splits)

text \<open>The loop of \<open>sock_recv\<close>: the return value and the bytes written into the buffer.\<close>

function sock_recv_loop :: "int \<Rightarrow> u8 list \<Rightarrow> in_stream \<Rightarrow> int \<times> u8 list \<times> in_stream" where
  "sock_recv_loop n got s =
     (case recv (n - int (length got)) s of
        (None, s') \<Rightarrow> (- 1, got, s')
      | (Some d, s') \<Rightarrow>
          if d = [] then (- 1, got, s')
          else if int (length (got @ d)) = n then (n, got @ d, s')
          else sock_recv_loop n (got @ d) s')"
  by pat_completeness auto

termination
proof (relation "measure (\<lambda>(n, got, s). nat (n - int (length got)))", goal_cases)
  case (2 n got s r s' d)
  then have "int (length d) \<le> n - int (length got)"
    using recv_bound [of "n - int (length got)" s d s'] by auto
  moreover have d: "0 < length d" using 2 by simp
  ultimately have "int (length got) < n" by linarith
  with d show ?case by simp
qed simp

declare sock_recv_loop.simps [simp del]

definition sock_recv :: "int \<Rightarrow> bool \<Rightarrow> in_stream \<Rightarrow> int \<times> u8 list \<times> in_stream" where
  "sock_recv n receiveall s =
     (if n = 0 then (0, [], s)
      else if receiveall then sock_recv_loop n [] s
      else (case recv n s of
          (None, s') \<Rightarrow> (- 1, [], s')
        | (Some d, s') \<Rightarrow> if d = [] then (- 1, [], s') else (int (length d), d, s')))"

function sock_discard :: "int \<Rightarrow> in_stream \<Rightarrow> int \<times> in_stream" where
  "sock_discard n s =
     (if n > 32768
      then (case sock_recv 32768 True s of
          (r, _, s') \<Rightarrow> if r = - 1 then (- 1, s') else sock_discard (n - 32768) s')
      else if n \<noteq> 0
      then (case sock_recv n True s of (r, _, s') \<Rightarrow> (if r = - 1 then - 1 else 0, s'))
      else (0, s))"
  by pat_completeness auto

termination by (relation "measure (\<lambda>(n, s). nat n)") auto

declare sock_discard.simps [simp del]

section \<open>Sending\<close>

datatype send_event = Accepts nat | Send_Fails

text \<open>
  \<open>sock_send\<close>: the return value and the bytes the socket has taken. After the listed events a call
  of send takes everything.
\<close>

fun sock_send :: "u8 list \<Rightarrow> send_event list \<Rightarrow> int \<times> u8 list" where
  "sock_send buf [] = (0, buf)"
| "sock_send buf (Send_Fails # es) = (- 1, [])"
| "sock_send buf (Accepts n # es) =
     (if n < length buf then (case sock_send (drop n buf) es of (r, sent) \<Rightarrow> (r, take n buf @ sent))
      else (0, buf))"

text \<open>
  \<open>sock_bufferize\<close> with the data that is to be copied, None where only the check is wanted. None
  as the result is a copy outside the buffer.
\<close>

definition sock_bufferize ::
    "u8 list option \<Rightarrow> int \<Rightarrow> u8 list \<Rightarrow> int \<Rightarrow> int \<Rightarrow> (int \<times> u8 list \<times> int) option" where
  "sock_bufferize data n tempbuf offset totsize =
     (if offset + n > totsize then Some (- 1, tempbuf, offset)
      else (case data of
          None \<Rightarrow> Some (0, tempbuf, offset + n)
        | Some d \<Rightarrow>
            if n < 0 \<or> int (length d) < n \<or> offset < 0 then None
            else map_option (\<lambda>b. (0, b, offset + n)) (blit tempbuf (nat offset) (take (nat n) d))))"

section \<open>The bytes of a stream\<close>

text \<open>The bytes that arrive before the first failure or the end, and what follows them.\<close>

fun avail :: "in_stream \<Rightarrow> u8 list" where
  "avail (Arrives d # s) = d @ avail s"
| "avail _ = []"

fun after :: "in_stream \<Rightarrow> in_stream" where
  "after (Arrives d # s) = after s"
| "after s = s"

definition segments_ok :: "in_stream \<Rightarrow> bool" where
  "segments_ok s \<longleftrightarrow> Arrives [] \<notin> set s \<and> (\<forall>e \<in> set s. case e of Datagram d \<Rightarrow> False | _ \<Rightarrow> True)"

lemma segments_simps [simp]:
  "segments_ok []" "segments_ok (Arrives d # s) \<longleftrightarrow> d \<noteq> [] \<and> segments_ok s"
  "segments_ok (Recv_Fails # s) \<longleftrightarrow> segments_ok s" "\<not> segments_ok (Datagram d # s)"
  by (auto simp: segments_ok_def)

text \<open>One call of recv on a stream with bytes.\<close>

lemma recv_avail:
  assumes "avail s \<noteq> []" and "segments_ok s" and "0 < n"
  shows "\<exists>d s'. recv n s = (Some d, s') \<and> d \<noteq> [] \<and> int (length d) \<le> n \<and> avail s = d @ avail s' \<and>
    segments_ok s' \<and> after s' = after s"
proof (cases s rule: avail.cases)
  case (1 d s1)
  show ?thesis
  proof (cases "int (length d) \<le> n")
    case True
    then show ?thesis using 1 assms by simp
  next
    case False
    have "take (nat n) d \<noteq> []" using assms 1 by (cases d) auto
    moreover have "d = take (nat n) d @ drop (nat n) d" by simp
    ultimately show ?thesis using 1 assms False
      by (auto intro!: exI [of _ "take (nat n) d"] exI [of _ "Arrives (drop (nat n) d) # s1"])
  qed
qed (use assms in auto)

lemma recv_nothing:
  assumes "avail s = []" and "segments_ok s"
  shows "fst (recv n s) = None \<or> fst (recv n s) = Some []"
  using assms by (cases s rule: avail.cases) auto

lemma sock_recv_loop_avail:
  assumes "segments_ok s" and "length got < n"
  shows "if n - length got \<le> length (avail s)
    then \<exists>s'. sock_recv_loop (int n) got s = (int n, got @ take (n - length got) (avail s), s') \<and>
      avail s' = drop (n - length got) (avail s) \<and> segments_ok s' \<and> after s' = after s
    else fst (sock_recv_loop (int n) got s) = - 1"
  using assms
proof (induction "int n" got s rule: sock_recv_loop.induct)
  case (1 got s)
  show ?case
  proof (cases "avail s = []")
    case True
    with recv_nothing [OF this 1(2), of "int n - int (length got)"] 1(3) show ?thesis
      by (auto simp: sock_recv_loop.simps [of _ got s] split: prod.splits option.splits)
  next
    case False
    from recv_avail [OF False 1(2), of "int n - int (length got)"] 1(3) obtain d s'
      where r: "recv (int n - int (length got)) s = (Some d, s')" "d \<noteq> []"
        "int (length d) \<le> int n - int (length got)" "avail s = d @ avail s'" "segments_ok s'"
        "after s' = after s" by auto
    show ?thesis
    proof (cases "length (got @ d) = n")
      case True
      then have "n - length got = length d" by simp
      with r True show ?thesis
        by (auto simp: sock_recv_loop.simps [of _ got s])
    next
      case ne: False
      then have more: "length (got @ d) < n" using r(3) by simp
      have step: "sock_recv_loop (int n) got s = sock_recv_loop (int n) (got @ d) s'"
        using r ne by (simp add: sock_recv_loop.simps [of _ got s])
      have ne': "int (length (got @ d)) \<noteq> int n" using ne by simp
      have "n - length got \<le> length (avail s) \<longleftrightarrow> n - length (got @ d) \<le> length (avail s')"
        using more r(4) by auto
      with 1(1) [OF r(1) [symmetric] refl r(2) ne' r(5) more] more r(4,6) show ?thesis
        unfolding step by (simp split: if_splits)
    qed
  qed
qed

text \<open>\<open>sock_recv\<close> reads exactly the bytes it is asked for, however they are cut into segments, or fails.\<close>

lemma sock_recv_all:
  assumes "segments_ok s" and "n \<le> length (avail s)"
  shows "\<exists>s'. sock_recv (int n) True s = (int n, take n (avail s), s') \<and> avail s' = drop n (avail s) \<and>
    segments_ok s' \<and> after s' = after s"
  using sock_recv_loop_avail [of s "[]" n] assms by (cases "n = 0") (auto simp: sock_recv_def)

lemma sock_recv_short:
  assumes "segments_ok s" and "length (avail s) < n"
  shows "fst (sock_recv (int n) True s) = - 1"
  using sock_recv_loop_avail [of s "[]" n] assms by (auto simp: sock_recv_def split: if_splits)

text \<open>What has arrived when it fails has all been written into the buffer.\<close>

lemma sock_recv_loop_short:
  assumes "segments_ok s" and "length got + length (avail s) < n"
  shows "\<exists>s'. sock_recv_loop (int n) got s = (- 1, got @ avail s, s')"
  using assms
proof (induction "int n" got s rule: sock_recv_loop.induct)
  case (1 got s)
  show ?case
  proof (cases "avail s = []")
    case True
    with recv_nothing [OF this 1(2), of "int n - int (length got)"] show ?thesis
      by (auto simp: sock_recv_loop.simps [of _ got s] split: prod.splits option.splits)
  next
    case False
    from recv_avail [OF False 1(2), of "int n - int (length got)"] 1(3) obtain d s'
      where r: "recv (int n - int (length got)) s = (Some d, s')" "d \<noteq> []" "avail s = d @ avail s'"
        "segments_ok s'" by auto
    have ne: "int (length (got @ d)) \<noteq> int n" using r(3) 1(3) by auto
    have "length (got @ d) + length (avail s') < n" using r(3) 1(3) by simp
    from 1(1) [OF r(1) [symmetric] refl r(2) ne r(4) this] show ?thesis
      using r ne by (auto simp: sock_recv_loop.simps [of _ got s])
  qed
qed

lemma sock_recv_short_data:
  assumes "segments_ok s" and "length (avail s) < n"
  shows "\<exists>s'. sock_recv (int n) True s = (- 1, avail s, s')"
  using sock_recv_loop_short [of s "[]" n] assms by (auto simp: sock_recv_def)

lemma sock_recv_negative:
  assumes "n < 0"
  shows "sock_recv n True s = (- 1, [], s)"
  using assms by (cases "(n, s)" rule: recv.cases)
    (auto simp: sock_recv_def sock_recv_loop.simps [of n "[]"])

lemma sock_recv_loop_result:
  "sock_recv_loop n got s = (r, d, s') \<Longrightarrow> int (length got) \<le> n \<Longrightarrow>
     (r = n \<or> r = - 1) \<and> int (length d) \<le> n"
proof (induction n got s rule: sock_recv_loop.induct)
  case (1 n got s)
  obtain a s1 where a: "recv (n - int (length got)) s = (a, s1)" by fastforce
  show ?case
  proof (cases a)
    case (Some e)
    then have le: "int (length (got @ e)) \<le> n" using recv_bound [of "n - int (length got)" s e s1] a by simp
    have "(r = n \<or> r = - 1) \<and> int (length d) \<le> n" if "e \<noteq> []" "int (length (got @ e)) \<noteq> n"
      using 1(1) [OF a [symmetric] Some that _ le] 1(2) a Some that
      by (simp add: sock_recv_loop.simps [of n got])
    then show ?thesis using 1(2,3) a Some by (auto simp: sock_recv_loop.simps [of n got] split: if_splits)
  qed (use 1(2,3) a in \<open>auto simp: sock_recv_loop.simps [of n got]\<close>)
qed

text \<open>Whatever arrives, \<open>sock_recv\<close> returns -1 or the size it was given.\<close>

lemma sock_recv_result:
  assumes "sock_recv n True s = (r, d, s')"
  shows "r = - 1 \<or> r = n \<and> 0 \<le> n"
proof (cases "0 \<le> n")
  case True
  then show ?thesis
    using assms sock_recv_loop_result [of n "[]" s r d s'] by (auto simp: sock_recv_def split: if_splits)
qed (use assms in \<open>simp add: sock_recv_negative\<close>)

lemma sock_recv_length:
  assumes "sock_recv n True s = (r, d, s')"
  shows "length d \<le> nat n"
proof (cases "0 \<le> n")
  case True
  then show ?thesis
    using assms sock_recv_loop_result [of n "[]" s r d s'] by (auto simp: sock_recv_def split: if_splits)
qed (use assms in \<open>simp add: sock_recv_negative\<close>)

text \<open>What it writes into the buffer is a prefix of what has arrived, also when it fails.\<close>

lemma recv_prefix:
  "recv n s = (Some d, s') \<Longrightarrow> segments_ok s \<Longrightarrow> avail s = d @ avail s' \<and> segments_ok s'"
  by (cases "(n, s)" rule: recv.cases) (auto split: if_splits)

lemma sock_recv_loop_prefix:
  "sock_recv_loop n got s = (r, d, s') \<Longrightarrow> segments_ok s \<Longrightarrow> \<exists>e x. d = got @ e \<and> avail s = e @ x"
proof (induction n got s rule: sock_recv_loop.induct)
  case (1 n got s)
  obtain a s1 where a: "recv (n - int (length got)) s = (a, s1)" by fastforce
  show ?case
  proof (cases a)
    case (Some e)
    have p: "avail s = e @ avail s1" "segments_ok s1"
      using recv_prefix [of "n - int (length got)" s e s1] a Some 1(3) by auto
    have "\<exists>e x. d = got @ e \<and> avail s = e @ x" if "e \<noteq> []" "int (length (got @ e)) \<noteq> n"
      using 1(1) [OF a [symmetric] Some that _ p(2)] 1(2) a Some that p(1)
      by (auto simp: sock_recv_loop.simps [of n got])
    then show ?thesis using 1(2) a Some p(1) by (auto simp: sock_recv_loop.simps [of n got] split: if_splits)
  qed (use 1(2) a in \<open>auto simp: sock_recv_loop.simps [of n got]\<close>)
qed

lemma sock_recv_prefix:
  "sock_recv n True s = (r, d, s') \<Longrightarrow> segments_ok s \<Longrightarrow> \<exists>x. avail s = d @ x"
  by (auto simp: sock_recv_def split: if_splits dest: sock_recv_loop_prefix)

text \<open>A message that arrives in one segment, for evaluation.\<close>

lemma sock_recv_arrives:
  assumes "0 < length e"
  shows "sock_recv (int (length e)) True (Arrives (e @ x) # s) =
    (int (length e), e, if x = [] then s else Arrives x # s)"
  using assms by (simp add: sock_recv_def sock_recv_loop.simps [of _ "[]"])

lemma sock_discard_all:
  assumes "segments_ok s" and "n \<le> length (avail s)"
  shows "\<exists>s'. sock_discard (int n) s = (0, s') \<and> avail s' = drop n (avail s) \<and> segments_ok s' \<and>
    after s' = after s"
  using assms
proof (induction n arbitrary: s rule: less_induct)
  case (less n)
  show ?case
  proof (cases "32768 < n")
    case True
    then have "32768 \<le> length (avail s)" using less.prems by simp
    from sock_recv_all [OF less.prems(1) this] obtain s1 where
      s1: "sock_recv 32768 True s = (32768, take 32768 (avail s), s1)"
        "avail s1 = drop 32768 (avail s)" "segments_ok s1" "after s1 = after s" by auto
    have "sock_discard (int n) s = sock_discard (int (n - 32768)) s1"
      using True s1(1) by (simp add: sock_discard.simps [of "int n"] of_nat_diff)
    moreover have "n - 32768 \<le> length (avail s1)" using less.prems(2) s1(2) by (simp add: diff_le_mono)
    with less.IH [of "n - 32768" s1] True s1(3) obtain s' where
      "sock_discard (int (n - 32768)) s1 = (0, s')" "avail s' = drop (n - 32768) (avail s1)"
      "segments_ok s'" "after s' = after s1" by auto
    ultimately show ?thesis using True s1 by (simp add: drop_drop)
  next
    case False
    with sock_recv_all [OF less.prems] less.prems(1) show ?thesis
      by (cases "n = 0") (auto simp: sock_discard.simps [of "int n"] sock_discard.simps [of 0])
  qed
qed

lemma sock_discard_negative: "n < 0 \<Longrightarrow> sock_discard n s = (- 1, s)"
  by (simp add: sock_discard.simps [of n] sock_recv_negative)

lemma sock_send_accepts: "Send_Fails \<notin> set es \<Longrightarrow> sock_send buf es = (0, buf)"
  by (induction buf es rule: sock_send.induct) auto

lemma sock_send_complete: "sock_send buf es = (0, sent) \<Longrightarrow> sent = buf"
  by (induction buf es arbitrary: sent rule: sock_send.induct)
    (auto split: if_splits prod.splits)

lemma sock_send_prefix: "sock_send buf es = (r, sent) \<Longrightarrow> \<exists>rest. buf = sent @ rest"
proof (induction buf es arbitrary: r sent rule: sock_send.induct)
  case (3 buf n es)
  show ?case
  proof (cases "n < length buf")
    case True
    obtain r1 sent1 where s: "sock_send (drop n buf) es = (r1, sent1)" by fastforce
    from 3(1) [OF True s] obtain rest where "drop n buf = sent1 @ rest" by blast
    then have "buf = (take n buf @ sent1) @ rest" by (metis append.assoc append_take_drop_id)
    with 3(2) True s show ?thesis by auto
  qed (use 3 in auto)
qed auto

end
