(* ===== verification/Rpcap.thy ===== *)
theory Rpcap
  imports Sockutils Bpf_Insn
begin

text \<open>
  The messages of the remote capture protocol (\<open>wpcap/libpcap/pcap-remote.h\<close>) and the functions
  both sides use to check them and to report errors (\<open>pcap-remote.c\<close>). A structure is a record of
  the values in host order with its encoding in network order; the locale \<open>codec\<close> is what the
  readers of the structures rely on.
\<close>

section \<open>Structures of fixed width\<close>

locale codec =
  fixes width :: nat and enc :: "'a \<Rightarrow> u8 list" and dec :: "u8 list \<Rightarrow> 'a"
  assumes width_pos: "0 < width"
    and length_enc: "length (enc a) = width"
    and dec_enc: "dec (enc a @ rest) = a"
begin

lemma dec_enc': "dec (enc a) = a"
  using dec_enc [of a "[]"] by simp

lemma enc_ne: "enc a \<noteq> []"
  using length_enc [of a] width_pos by auto

text \<open>Reading one structure from a stream.\<close>

lemma recv_structure:
  assumes "segments_ok s" and "avail s = enc a @ rest"
  shows "\<exists>s'. sock_recv (int width) True s = (int width, enc a, s') \<and> avail s' = rest \<and>
    segments_ok s' \<and> after s' = after s"
  using sock_recv_all [OF assms(1), of width] assms(2) length_enc [of a] by auto

end

record rpcap_header =
  h_ver :: u8
  h_type :: u8
  h_value :: u16
  h_plen :: u32

definition header_enc :: "rpcap_header \<Rightarrow> u8 list" where
  "header_enc h = [h_ver h, h_type h] @ be16_bytes (h_value h) @ be32_bytes (h_plen h)"

definition header_dec :: "u8 list \<Rightarrow> rpcap_header" where
  "header_dec b = \<lparr>h_ver = b ! 0, h_type = b ! 1, h_value = be16_of (drop 2 b), h_plen = be32_of (drop 4 b)\<rparr>"

record rpcap_filter =
  filtertype :: u16
  f_dummy :: u16
  nitems :: u32

definition filter_enc :: "rpcap_filter \<Rightarrow> u8 list" where
  "filter_enc f = be16_bytes (filtertype f) @ be16_bytes (f_dummy f) @ be32_bytes (nitems f)"

definition filter_dec :: "u8 list \<Rightarrow> rpcap_filter" where
  "filter_dec b = \<lparr>filtertype = be16_of b, f_dummy = be16_of (drop 2 b), nitems = be32_of (drop 4 b)\<rparr>"

text \<open>\<open>rpcap_filterbpf_insn\<close> has the fields of \<open>bpf_insn\<close>.\<close>

definition insn_enc :: "bpf_insn \<Rightarrow> u8 list" where
  "insn_enc i = be16_bytes (code i) @ [jt i, jf i] @ be32_bytes (k i)"

definition insn_dec :: "u8 list \<Rightarrow> bpf_insn" where
  "insn_dec b = \<lparr>code = be16_of b, jt = b ! 2, jf = b ! 3, k = be32_of (drop 4 b)\<rparr>"

record rpcap_pkthdr =
  timestamp_sec :: u32
  timestamp_usec :: u32
  p_caplen :: u32
  p_len :: u32
  npkt :: u32

definition pkthdr_enc :: "rpcap_pkthdr \<Rightarrow> u8 list" where
  "pkthdr_enc p = be32_bytes (timestamp_sec p) @ be32_bytes (timestamp_usec p) @
     be32_bytes (p_caplen p) @ be32_bytes (p_len p) @ be32_bytes (npkt p)"

definition pkthdr_dec :: "u8 list \<Rightarrow> rpcap_pkthdr" where
  "pkthdr_dec b = \<lparr>timestamp_sec = be32_of b, timestamp_usec = be32_of (drop 4 b),
     p_caplen = be32_of (drop 8 b), p_len = be32_of (drop 12 b), npkt = be32_of (drop 16 b)\<rparr>"

record rpcap_auth =
  auth_type :: u16
  a_dummy :: u16
  slen1 :: u16
  slen2 :: u16

definition auth_enc :: "rpcap_auth \<Rightarrow> u8 list" where
  "auth_enc a = be16_bytes (auth_type a) @ be16_bytes (a_dummy a) @ be16_bytes (slen1 a) @
     be16_bytes (slen2 a)"

definition auth_dec :: "u8 list \<Rightarrow> rpcap_auth" where
  "auth_dec b = \<lparr>auth_type = be16_of b, a_dummy = be16_of (drop 2 b), slen1 = be16_of (drop 4 b),
     slen2 = be16_of (drop 6 b)\<rparr>"

record rpcap_sampling =
  sm_method :: u8
  dummy1 :: u8
  dummy2 :: u16
  sm_value :: u32

definition sampling_enc :: "rpcap_sampling \<Rightarrow> u8 list" where
  "sampling_enc p = [sm_method p, dummy1 p] @ be16_bytes (dummy2 p) @ be32_bytes (sm_value p)"

definition sampling_dec :: "u8 list \<Rightarrow> rpcap_sampling" where
  "sampling_dec b = \<lparr>sm_method = b ! 0, dummy1 = b ! 1, dummy2 = be16_of (drop 2 b),
     sm_value = be32_of (drop 4 b)\<rparr>"

interpretation header: codec 8 header_enc header_dec
  by unfold_locales (auto simp: header_enc_def header_dec_def)

interpretation filter: codec 8 filter_enc filter_dec
  by unfold_locales (auto simp: filter_enc_def filter_dec_def)

interpretation insn: codec 8 insn_enc insn_dec
  by unfold_locales (auto simp: insn_enc_def insn_dec_def nth_append)

interpretation pkthdr: codec 20 pkthdr_enc pkthdr_dec
  by unfold_locales (auto simp: pkthdr_enc_def pkthdr_dec_def)

interpretation auth: codec 8 auth_enc auth_dec
  by unfold_locales (auto simp: auth_enc_def auth_dec_def)

interpretation sampling: codec 8 sampling_enc sampling_dec
  by unfold_locales (auto simp: sampling_enc_def sampling_dec_def)

section \<open>Messages\<close>

abbreviation RPCAP_VERSION :: u8 where "RPCAP_VERSION \<equiv> 0"
abbreviation RPCAP_NETBUF_SIZE :: nat where "RPCAP_NETBUF_SIZE \<equiv> 64000"
abbreviation PCAP_ERRBUF_SIZE :: nat where "PCAP_ERRBUF_SIZE \<equiv> 256"

abbreviation RPCAP_MSG_ERROR :: u8 where "RPCAP_MSG_ERROR \<equiv> 1"
abbreviation RPCAP_MSG_FINDALLIF_REQ :: u8 where "RPCAP_MSG_FINDALLIF_REQ \<equiv> 2"
abbreviation RPCAP_MSG_OPEN_REQ :: u8 where "RPCAP_MSG_OPEN_REQ \<equiv> 3"
abbreviation RPCAP_MSG_STARTCAP_REQ :: u8 where "RPCAP_MSG_STARTCAP_REQ \<equiv> 4"
abbreviation RPCAP_MSG_UPDATEFILTER_REQ :: u8 where "RPCAP_MSG_UPDATEFILTER_REQ \<equiv> 5"
abbreviation RPCAP_MSG_CLOSE :: u8 where "RPCAP_MSG_CLOSE \<equiv> 6"
abbreviation RPCAP_MSG_PACKET :: u8 where "RPCAP_MSG_PACKET \<equiv> 7"
abbreviation RPCAP_MSG_AUTH_REQ :: u8 where "RPCAP_MSG_AUTH_REQ \<equiv> 8"
abbreviation RPCAP_MSG_STATS_REQ :: u8 where "RPCAP_MSG_STATS_REQ \<equiv> 9"
abbreviation RPCAP_MSG_ENDCAP_REQ :: u8 where "RPCAP_MSG_ENDCAP_REQ \<equiv> 10"
abbreviation RPCAP_MSG_SETSAMPLING_REQ :: u8 where "RPCAP_MSG_SETSAMPLING_REQ \<equiv> 11"
abbreviation RPCAP_MSG_OPEN_REPLY :: u8 where "RPCAP_MSG_OPEN_REPLY \<equiv> 131"
abbreviation RPCAP_MSG_UPDATEFILTER_REPLY :: u8 where "RPCAP_MSG_UPDATEFILTER_REPLY \<equiv> 133"
abbreviation RPCAP_MSG_AUTH_REPLY :: u8 where "RPCAP_MSG_AUTH_REPLY \<equiv> 136"
abbreviation RPCAP_MSG_STATS_REPLY :: u8 where "RPCAP_MSG_STATS_REPLY \<equiv> 137"
abbreviation RPCAP_MSG_ENDCAP_REPLY :: u8 where "RPCAP_MSG_ENDCAP_REPLY \<equiv> 138"
abbreviation RPCAP_MSG_SETSAMPLING_REPLY :: u8 where "RPCAP_MSG_SETSAMPLING_REPLY \<equiv> 139"

definition rpcap_createhdr :: "u8 \<Rightarrow> u16 \<Rightarrow> u32 \<Rightarrow> rpcap_header" where
  "rpcap_createhdr t v len = \<lparr>h_ver = RPCAP_VERSION, h_type = t, h_value = v, h_plen = len\<rparr>"

text \<open>A length of the protocol passed as a C int.\<close>

abbreviation as_int :: "u32 \<Rightarrow> int" where "as_int w \<equiv> sint w"

definition rpcap_checkver :: "rpcap_header \<Rightarrow> in_stream \<Rightarrow> int \<times> in_stream" where
  "rpcap_checkver h s =
     (if h_ver h \<noteq> RPCAP_VERSION then (- 1, snd (sock_discard (as_int (h_plen h)) s)) else (0, s))"

text \<open>\<open>rpcap_checkmsg\<close> with the list of the allowed types; a type is returned as an int.\<close>

definition rpcap_checkmsg :: "rpcap_header \<Rightarrow> u8 list \<Rightarrow> in_stream \<Rightarrow> int \<times> in_stream" where
  "rpcap_checkmsg h allowed s =
     (case rpcap_checkver h s of
        (r, s1) \<Rightarrow>
          if r \<noteq> 0 then (- 1, s1)
          else if allowed \<noteq> [] \<and> h_type h = RPCAP_MSG_ERROR
          then (let len = as_int (h_plen h) in
            if len \<ge> int PCAP_ERRBUF_SIZE
            then (case sock_recv (int PCAP_ERRBUF_SIZE - 1) True s1 of (r1, _, s2) \<Rightarrow>
                if r1 \<noteq> 0 then (- 3, s2)
                else (uint (h_type h), snd (sock_discard (len - (int PCAP_ERRBUF_SIZE - 1)) s2)))
            else (case sock_recv len True s1 of (r1, _, s2) \<Rightarrow>
                if r1 = - 1 then (- 3, s2) else (uint (h_type h), s2)))
          else if h_type h \<in> set allowed then (uint (h_type h), s1)
          else (- 2, snd (sock_discard (as_int (h_plen h)) s1)))"

text \<open>The bytes \<open>rpcap_senderror\<close> sends for an error text; the length is cut to PCAP_ERRBUF_SIZE.\<close>

definition rpcap_senderror :: "u8 list \<Rightarrow> u16 \<Rightarrow> u8 list" where
  "rpcap_senderror error errcode =
     (let n = min (length error mod 65536) PCAP_ERRBUF_SIZE in
      header_enc (rpcap_createhdr RPCAP_MSG_ERROR errcode (of_nat n)) @ take n error)"

section \<open>Lengths\<close>

lemma sint_of_nat_small: "n < 2147483648 \<Longrightarrow> as_int (of_nat n) = int n"
  by (simp add: signed_of_nat signed_take_bit_int_eq_self)

lemma sint_minus_small:
  assumes "unat (w :: u32) < 2147483648"
  shows "as_int (- w) = - int (unat w)"
proof -
  have "as_int (- w) = signed_take_bit 31 (- as_int w)" by (simp add: sint_word_ariths(4))
  moreover have bound: "uint w < 2147483648"
    using assms by (metis of_nat_less_iff of_nat_numeral uint_nat)
  ultimately show ?thesis
    using bound sint_small [OF assms] uint_ge_0 [of w] by (simp add: signed_take_bit_int_eq_self)
qed

lemma sint_nonneg:
  assumes "0 \<le> as_int w"
  shows "unat w < 2147483648" and "as_int w = int (unat w)"
proof -
  have "as_int w < 2147483648" using sint_lt [of w] by simp
  moreover have "uint w = take_bit 32 (as_int w)" using uint_sint [of w] by simp
  ultimately have u: "uint w = as_int w" "uint w < 2147483648"
    using assms by (simp_all add: take_bit_int_eq_self)
  then have "int (unat w) < int 2147483648" by simp
  then show "unat w < 2147483648" by (simp only: of_nat_less_iff)
  show "as_int w = int (unat w)" using u(1) by simp
qed

lemma not_minus_one: "unat (w :: u32) < 2147483648 \<Longrightarrow> w \<noteq> - 1"
  by (auto simp: unsigned_minus_1_eq_mask mask_eq_exp_minus_1)

section \<open>Messages on a stream\<close>

lemma header_received:
  assumes "segments_ok s" and "avail s = header_enc h @ rest"
  obtains s' where "sock_recv 8 True s = (8, header_enc h, s')" "avail s' = rest" "segments_ok s'"
    "after s' = after s"
  using header.recv_structure [OF assms] by auto

lemma checkmsg_expected:
  assumes "h_ver h = RPCAP_VERSION" and "h_type h \<in> set allowed" and "h_type h \<noteq> RPCAP_MSG_ERROR"
  shows "rpcap_checkmsg h allowed s = (uint (h_type h), s)"
  using assms by (simp add: rpcap_checkmsg_def rpcap_checkver_def)

text \<open>A message that is not expected is discarded as a whole.\<close>

lemma checkmsg_unexpected:
  assumes "segments_ok s" and "as_int (h_plen h) = int (length body)" and "avail s = body @ rest"
    and "h_ver h \<noteq> RPCAP_VERSION \<or> h_type h \<noteq> RPCAP_MSG_ERROR \<and> h_type h \<notin> set allowed"
  shows "\<exists>s'. rpcap_checkmsg h allowed s = (if h_ver h \<noteq> RPCAP_VERSION then - 1 else - 2, s') \<and>
    avail s' = rest \<and> segments_ok s' \<and> after s' = after s"
  using sock_discard_all [OF assms(1), of "length body"] assms(2-4)
  by (auto simp: rpcap_checkmsg_def rpcap_checkver_def)

lemma checkmsg_error:
  assumes "segments_ok s" and "as_int (h_plen h) = int (length body)" and "avail s = body @ rest"
    and "h_ver h = RPCAP_VERSION" and "h_type h = RPCAP_MSG_ERROR" and "allowed \<noteq> []"
    and "length body < PCAP_ERRBUF_SIZE"
  shows "\<exists>s'. rpcap_checkmsg h allowed s = (1, s') \<and> avail s' = rest \<and> segments_ok s' \<and>
    after s' = after s"
  using sock_recv_all [OF assms(1), of "length body"] assms(2-7)
  by (auto simp: rpcap_checkmsg_def rpcap_checkver_def Let_def)

text \<open>A longer error text is taken for a network error, and its end stays in the stream.\<close>

lemma checkmsg_long_error:
  assumes "segments_ok s" and "as_int (h_plen h) = int (length body)" and "avail s = body @ rest"
    and "h_ver h = RPCAP_VERSION" and "h_type h = RPCAP_MSG_ERROR" and "allowed \<noteq> []"
    and "length body \<ge> PCAP_ERRBUF_SIZE"
  shows "\<exists>s'. rpcap_checkmsg h allowed s = (- 3, s') \<and> avail s' = drop 255 body @ rest"
  using sock_recv_all [OF assms(1), of 255] assms(2-7)
  by (auto simp: rpcap_checkmsg_def rpcap_checkver_def Let_def)

end
