(* ===== verification/Rpcap_Capture.thy ===== *)
theory Rpcap_Capture
  imports Rpcap
begin

text \<open>
  The data of a remote capture: the thread of the daemon that sends the packets
  (\<open>daemon_thrdatamain\<close> of \<open>rpcapd/daemon.c\<close>), the reads of the client
  (\<open>pcap_read_nocb_remote\<close>, \<open>pcap_read_remote\<close> of \<open>pcap-remote.c\<close>), over TCP or UDP, and the
  statistics, which are asked for on the control connection.
\<close>

section \<open>The sending thread\<close>

text \<open>\<open>pcap_pkthdr\<close>.\<close>

record cap_hdr =
  cap_sec :: u32
  cap_usec :: u32
  cap_caplen :: u32
  cap_len :: u32

text \<open>The results of \<open>pcap_next_ex\<close>: 1, 0, -1 with the error text, and -2.\<close>

datatype next_ex = Captured cap_hdr "u8 list" | Elapsed | Capture_Error "u8 list" | Capture_End

text \<open>
  The message of one packet in the send buffer. None is a read or write outside a buffer, Some None
  a packet for which the buffer has no room. The length of the message is cut to 16 bits.
\<close>

definition packet_message :: "u32 \<Rightarrow> cap_hdr \<Rightarrow> u8 list \<Rightarrow> u8 list option option" where
  "packet_message n ph d =
     (let h = rpcap_createhdr RPCAP_MSG_PACKET 0 (ucast (ucast (20 + cap_caplen ph) :: u16));
          net = \<lparr>timestamp_sec = cap_sec ph, timestamp_usec = cap_usec ph, p_caplen = cap_caplen ph,
            p_len = cap_len ph, npkt = n\<rparr> in
      case sock_bufferize (Some d) (as_int (cap_caplen ph)) (header_enc h @ pkthdr_enc net @ replicate (64000 - 28) 0)
          28 (int RPCAP_NETBUF_SIZE) of
        None \<Rightarrow> None
      | Some (r, b, i) \<Rightarrow> Some (if r = - 1 then None else Some (take (nat i) b)))"

text \<open>
  The loop: the packets counted, the bytes of every call of \<open>sock_send\<close> on the data socket, and the
  bytes sent on the control socket; the first component is False when the thread has closed the
  data socket. Each result of \<open>pcap_next_ex\<close> comes with what the socket does with the message.
\<close>

fun daemon_thrdatamain ::
    "u32 \<Rightarrow> (next_ex \<times> send_event list) list \<Rightarrow> (bool \<times> u32 \<times> u8 list list \<times> u8 list) option" where
  "daemon_thrdatamain n [] = Some (True, n, [], [])"
| "daemon_thrdatamain n ((Elapsed, _) # es) = daemon_thrdatamain n es"
| "daemon_thrdatamain n ((Capture_End, _) # es) = Some (False, n, [], [])"
| "daemon_thrdatamain n ((Capture_Error text, _) # es) = Some (False, n, [], rpcap_senderror text 9)"
| "daemon_thrdatamain n ((Captured ph d, out) # es) =
     (case packet_message (n + 1) ph d of
        None \<Rightarrow> None
      | Some None \<Rightarrow> Some (False, n + 1, [], [])
      | Some (Some msg) \<Rightarrow>
          (case sock_send msg out of
             (r, sent) \<Rightarrow>
               if r = - 1 then Some (False, n + 1, [sent], [])
               else map_option (\<lambda>(run, n', m, c). (run, n', sent # m, c)) (daemon_thrdatamain (n + 1) es)))"

section \<open>The client\<close>

text \<open>
  The fields of \<open>pcap_t\<close> the read uses. \<open>rc_data\<close> is the part of the buffer behind the header of the
  packet; the whole buffer has \<open>rc_bufsize\<close> bytes.
\<close>

record rclient =
  datatx_udp :: bool
  rc_bufsize :: u32
  rc_data :: "u8 list"
  TotCapt :: u32
  TotNetDrops :: u32

datatype read_fault = Buffer_Overrun | Netbuf_Overread

type_synonym read_result = "read_fault + (int \<times> cap_hdr option \<times> rclient \<times> in_stream)"

text \<open>
  The data of a packet on a TCP connection; \<open>nread\<close> is the sum of what the calls of \<open>sock_recv\<close>
  returned, -1 included.
\<close>

definition tcp_data :: "rclient \<Rightarrow> cap_hdr \<Rightarrow> u32 \<Rightarrow> u32 \<Rightarrow> in_stream \<Rightarrow> read_result" where
  "tcp_data p ph plen nread s =
     (case sock_recv (as_int (cap_caplen ph)) True s of
        (r, d, s1) \<Rightarrow>
          (case blit (rc_data p) 0 d of
             None \<Rightarrow> Inl Buffer_Overrun
           | Some b \<Rightarrow>
               (let nread1 = nread + of_int r; p1 = p\<lparr>rc_data := b\<rparr> in
                if nread1 = - 1 then Inr (- 1, None, p1, s1)
                else Inr (1, Some ph, p1,
                  if nread1 \<noteq> plen then snd (sock_discard (as_int (plen - nread1)) s1) else s1))))"

text \<open>The data of a datagram, and the count of the packets the network has lost.\<close>

definition udp_data :: "rclient \<Rightarrow> cap_hdr \<Rightarrow> u32 \<Rightarrow> u8 list \<Rightarrow> in_stream \<Rightarrow> read_result" where
  "udp_data p ph n netbuf s =
     (if 28 + unat (cap_caplen ph) > RPCAP_NETBUF_SIZE then Inl Netbuf_Overread
      else (case blit (rc_data p) 0 (take (unat (cap_caplen ph)) (drop 28 netbuf)) of
          None \<Rightarrow> Inl Buffer_Overrun
        | Some b \<Rightarrow>
            (let p1 = p\<lparr>rc_data := b\<rparr> in
             Inr (1, Some ph,
               if TotCapt p1 \<noteq> n then p1\<lparr>TotNetDrops := TotNetDrops p1 + (n - TotCapt p1), TotCapt := n\<rparr> else p1,
               s))))"

definition read_data :: "rclient \<Rightarrow> u32 \<Rightarrow> u32 \<Rightarrow> u8 list \<Rightarrow> in_stream \<Rightarrow> read_result" where
  "read_data p plen nread netbuf s =
     (let net = pkthdr_dec (drop 8 netbuf);
          ph = \<lparr>cap_sec = timestamp_sec net, cap_usec = timestamp_usec net, cap_caplen = p_caplen net,
            cap_len = p_len net\<rparr> in
      if p_caplen net + 16 \<le> rc_bufsize p
      then (let p1 = p\<lparr>TotCapt := TotCapt p + 1\<rparr> in
        if datatx_udp p then udp_data p1 ph (npkt net) netbuf s else tcp_data p1 ph plen nread s)
      else Inr (- 1, None, p, s))"

text \<open>
  The read of one packet: the result, the header handed to the caller, the client and the data
  socket. \<open>sel\<close> is the result of select, \<open>stack\<close> what \<open>netbuf\<close> holds before the call.
\<close>

definition pcap_read_nocb_remote :: "u8 list \<Rightarrow> int \<Rightarrow> rclient \<Rightarrow> in_stream \<Rightarrow> read_result" where
  "pcap_read_nocb_remote stack sel p s =
     (if sel = - 1 then Inr (- 1, None, p, s)
      else if sel = 0 then Inr (0, None, p, s)
      else (case (if datatx_udp p then sock_recv (int RPCAP_NETBUF_SIZE) False s else sock_recv 8 True s) of
          (r, d, s1) \<Rightarrow>
            if r = - 1 then Inr (- 1, None, p, s1)
            else (let netbuf = d @ drop (length d) stack; h = header_dec netbuf in
              case rpcap_checkmsg h [RPCAP_MSG_PACKET] s1 of
                (c, s2) \<Rightarrow>
                  if c \<noteq> uint RPCAP_MSG_PACKET then Inr (if c = - 3 then - 1 else 0, None, p, s2)
                  else if datatx_udp p then read_data p (h_plen h) 0 netbuf s2
                  else (case sock_recv 20 True s2 of
                      (r1, d1, s3) \<Rightarrow>
                        if r1 = - 1 then Inr (- 1, None, p, s3)
                        else read_data p (h_plen h) (of_int r1) (take 8 netbuf @ d1 @ drop (8 + length d1) netbuf) s3))))"

text \<open>
  The loop over the packets: the number returned and the packets given to the callback; True where
  the loop has returned, False where it waits for another result of select.
\<close>

fun pcap_read_remote ::
    "u8 list \<Rightarrow> int \<Rightarrow> int \<Rightarrow> int list \<Rightarrow> rclient \<Rightarrow> in_stream \<Rightarrow>
     read_fault + (bool \<times> int \<times> (cap_hdr \<times> u8 list) list \<times> rclient \<times> in_stream)" where
  "pcap_read_remote stack limit n [] p s = Inr (\<not> (n < limit \<or> limit < 0), n, [], p, s)"
| "pcap_read_remote stack limit n (sel # sels) p s =
     (if n < limit \<or> limit < 0
      then (case pcap_read_nocb_remote stack sel p s of
          Inl e \<Rightarrow> Inl e
        | Inr (r, ph, p1, s1) \<Rightarrow>
            (case (r = 1, ph) of
               (True, Some h) \<Rightarrow>
                 map_sum id (\<lambda>(ret, n', pkts, q). (ret, n', (h, take (unat (cap_caplen h)) (rc_data p1)) # pkts, q))
                   (pcap_read_remote stack limit (n + 1) sels p1 s1)
             | _ \<Rightarrow> Inr (True, n, [], p1, s1)))
      else Inr (True, n, [], p, s))"

section \<open>Statistics\<close>

record rpcap_stats =
  ifrecv :: u32
  ifdrop :: u32
  krnldrop :: u32
  svrcapt :: u32

definition stats_enc :: "rpcap_stats \<Rightarrow> u8 list" where
  "stats_enc a = be32_bytes (ifrecv a) @ be32_bytes (ifdrop a) @ be32_bytes (krnldrop a) @
     be32_bytes (svrcapt a)"

definition stats_dec :: "u8 list \<Rightarrow> rpcap_stats" where
  "stats_dec b = \<lparr>ifrecv = be32_of b, ifdrop = be32_of (drop 4 b), krnldrop = be32_of (drop 8 b),
     svrcapt = be32_of (drop 12 b)\<rparr>"

interpretation stats: codec 16 stats_enc stats_dec
  by unfold_locales (auto simp: stats_enc_def stats_dec_def)

text \<open>\<open>daemon_getstatsnopcap\<close>: the result and the bytes of the calls of \<open>sock_send\<close>.\<close>

definition daemon_getstatsnopcap ::
    "u32 \<Rightarrow> u32 \<Rightarrow> u32 \<Rightarrow> u32 \<Rightarrow> u8 list \<Rightarrow> send_event list \<Rightarrow> int \<times> u8 list" where
  "daemon_getstatsnopcap ifdrops ifrecvs drops capt err out =
     (case sock_send (header_enc (rpcap_createhdr RPCAP_MSG_STATS_REPLY 0 16) @
          stats_enc \<lparr>ifrecv = ifrecvs, ifdrop = ifdrops, krnldrop = drops, svrcapt = capt\<rparr>) out of
        (r, sent) \<Rightarrow> if r = - 1 then (- 1, sent @ rpcap_senderror err 8) else (0, sent))"

text \<open>\<open>pcap_stat\<close> and \<open>daemon_getstats\<close>, with the result of \<open>pcap_stats\<close> as an argument.\<close>

record pcap_stat =
  ps_recv :: u32
  ps_drop :: u32
  ps_ifdrop :: u32
  ps_capt :: u32
  ps_sent :: u32
  ps_netdrop :: u32

definition daemon_getstats ::
    "pcap_stat option \<Rightarrow> u32 \<Rightarrow> u8 list \<Rightarrow> send_event list \<Rightarrow> int \<times> u8 list" where
  "daemon_getstats st capt err out =
     (case st of
        None \<Rightarrow> (- 1, rpcap_senderror err 8)
      | Some a \<Rightarrow>
          (case sock_send (header_enc (rpcap_createhdr RPCAP_MSG_STATS_REPLY 0 16) @
              stats_enc \<lparr>ifrecv = ps_recv a, ifdrop = ps_ifdrop a, krnldrop = ps_drop a, svrcapt = capt\<rparr>) out of
             (r, sent) \<Rightarrow> if r = - 1 then (- 1, sent @ rpcap_senderror err 8) else (0, sent)))"

text \<open>
  \<open>rpcap_stats_remote\<close>: the statistics, None for NULL, and the control connection. \<open>ex\<close> is the mode
  PCAP_STATS_EX. In the mode PCAP_STATS_STANDARD the last three fields of the structure stay as
  they are.
\<close>

definition fill_stats :: "bool \<Rightarrow> rclient \<Rightarrow> rpcap_stats \<Rightarrow> pcap_stat \<Rightarrow> pcap_stat" where
  "fill_stats ex p a ps =
     (let ps1 = ps\<lparr>ps_drop := krnldrop a, ps_ifdrop := ifdrop a, ps_recv := ifrecv a\<rparr> in
      if ex then ps1\<lparr>ps_capt := TotCapt p, ps_netdrop := TotNetDrops p, ps_sent := svrcapt a\<rparr> else ps1)"

definition stats_error :: "u32 \<Rightarrow> u32 \<Rightarrow> in_stream \<Rightarrow> pcap_stat option \<times> in_stream" where
  "stats_error nread plen s =
     (None, if nread \<noteq> plen then snd (sock_discard (as_int (plen - nread)) s) else s)"

definition stats_answer :: "bool \<Rightarrow> rclient \<Rightarrow> pcap_stat \<Rightarrow> in_stream \<Rightarrow> pcap_stat option \<times> in_stream" where
  "stats_answer ex p ps s =
     (case sock_recv 8 True s of
        (r, b, s1) \<Rightarrow>
          if r = - 1 then stats_error 0 (h_plen (header_dec (b @ drop (length b)
            (header_enc (rpcap_createhdr RPCAP_MSG_STATS_REQ 0 0))))) s1
          else (let h = header_dec b; plen = h_plen h in
            case rpcap_checkmsg h [RPCAP_MSG_STATS_REPLY, RPCAP_MSG_ERROR] s1 of
              (c, s2) \<Rightarrow>
                if c = uint RPCAP_MSG_ERROR then stats_error plen plen s2
                else if c \<noteq> uint RPCAP_MSG_STATS_REPLY then stats_error 0 plen s2
                else (case sock_recv 16 True s2 of
                    (r1, b1, s3) \<Rightarrow>
                      if r1 = - 1 then stats_error (- 1) plen s3
                      else (let nread = of_int r1 in
                        if nread \<noteq> plen
                        then (case sock_discard (as_int (plen - nread)) s3 of
                            (e, s4) \<Rightarrow> if e = 1 then stats_error nread plen s4
                              else (Some (fill_stats ex p (stats_dec b1) ps), s4))
                        else (Some (fill_stats ex p (stats_dec b1) ps), s3)))))"

definition rpcap_stats_remote ::
    "bool \<Rightarrow> bool \<Rightarrow> rclient \<Rightarrow> pcap_stat \<Rightarrow> send_event list \<Rightarrow> in_stream \<Rightarrow>
     pcap_stat option \<times> u8 list \<times> in_stream" where
  "rpcap_stats_remote capstarted ex p ps out s =
     (if \<not> capstarted
      then (Some (fill_stats ex (p\<lparr>TotCapt := 0, TotNetDrops := 0\<rparr>)
          \<lparr>ifrecv = 0, ifdrop = 0, krnldrop = 0, svrcapt = 0\<rparr> ps), [], s)
      else (case sock_send (header_enc (rpcap_createhdr RPCAP_MSG_STATS_REQ 0 0)) out of
          (r, sent) \<Rightarrow>
            if r \<noteq> 0 then (None, sent, s)
            else (case stats_answer ex p ps s of (a, s1) \<Rightarrow> (a, sent, s1))))"

end
