(* ===== verification/Rpcap_Capture_Properties.thy ===== *)
theory Rpcap_Capture_Properties
  imports Rpcap_Capture
begin

text \<open>
  The packets and the statistics of a remote capture on their way from the daemon to the client:
  what arrives over TCP, what the counters of the client say, and what the client does with
  messages it should not trust.
\<close>

section \<open>Messages of packets\<close>

lemma ucast_back:
  assumes "unat (x :: u32) < 65536"
  shows "ucast (ucast x :: u16) = x"
proof -
  have "x mod 65536 = x" using assms by (simp add: word_unat_eq_iff unat_mod)
  then show ?thesis by (simp add: unsigned_ucast_eq take_bit_eq_mod)
qed

definition net_hdr :: "u32 \<Rightarrow> cap_hdr \<Rightarrow> rpcap_pkthdr" where
  "net_hdr n ph = \<lparr>timestamp_sec = cap_sec ph, timestamp_usec = cap_usec ph, p_caplen = cap_caplen ph,
     p_len = cap_len ph, npkt = n\<rparr>"

definition packet_header :: "cap_hdr \<Rightarrow> rpcap_header" where
  "packet_header ph = rpcap_createhdr RPCAP_MSG_PACKET 0 (20 + cap_caplen ph)"

lemma packet_message_fits:
  assumes "28 + unat (cap_caplen ph) \<le> RPCAP_NETBUF_SIZE" and "length d = unat (cap_caplen ph)"
  shows "packet_message n ph d = Some (Some (header_enc (packet_header ph) @ pkthdr_enc (net_hdr n ph) @ d))"
proof -
  have "ucast (ucast (20 + cap_caplen ph) :: u16) = 20 + cap_caplen ph"
    using assms(1) by (intro ucast_back) (simp add: unat_word_ariths)
  moreover have "as_int (cap_caplen ph) = int (length d)"
    using assms sint_small [of "cap_caplen ph"] by simp
  moreover have "length d \<le> 63972" "nat (28 + int (length d)) = 28 + length d"
    using assms by (simp, linarith)
  ultimately show ?thesis
    by (simp add: packet_message_def Let_def sock_bufferize_def blit_def net_hdr_def packet_header_def
      header.length_enc pkthdr.length_enc)
qed

lemma packet_header_fields [simp]:
  "h_ver (packet_header ph) = RPCAP_VERSION" "h_type (packet_header ph) = RPCAP_MSG_PACKET"
  "h_plen (packet_header ph) = 20 + cap_caplen ph"
  by (simp_all add: packet_header_def rpcap_createhdr_def)

text \<open>The headers of a packet on a TCP connection, with whatever follows.\<close>

lemma read_headers:
  assumes "segments_ok s" and "avail s = header_enc h @ pkthdr_enc net @ rest"
    and "h_ver h = RPCAP_VERSION" and "h_type h = RPCAP_MSG_PACKET" and "\<not> datatx_udp p"
    and "p_caplen net + 16 \<le> rc_bufsize p"
  shows "\<exists>s'. pcap_read_nocb_remote stack 1 p s = tcp_data (p\<lparr>TotCapt := TotCapt p + 1\<rparr>)
      \<lparr>cap_sec = timestamp_sec net, cap_usec = timestamp_usec net, cap_caplen = p_caplen net, cap_len = p_len net\<rparr>
      (h_plen h) 20 s' \<and> avail s' = rest \<and> segments_ok s'"
proof -
  from header_received [OF assms(1,2)] obtain s1 where s1:
    "sock_recv 8 True s = (8, header_enc h, s1)" "avail s1 = pkthdr_enc net @ rest" "segments_ok s1"
    by blast
  from pkthdr.recv_structure [OF s1(3,2)] obtain s2 where s2:
    "sock_recv 20 True s1 = (20, pkthdr_enc net, s2)" "avail s2 = rest" "segments_ok s2" by auto
  have "rpcap_checkmsg (header_dec (header_enc h @ drop 8 stack)) [RPCAP_MSG_PACKET] s1 = (7, s1)"
    using assms(3,4) by (simp add: header.dec_enc checkmsg_expected)
  with s1 s2 assms(5,6) show ?thesis
    by (auto simp: pcap_read_nocb_remote_def Let_def read_data_def header.length_enc pkthdr.length_enc
        header.dec_enc pkthdr.dec_enc pkthdr.dec_enc'
        intro!: exI [of _ s2])
qed


section \<open>The client on a TCP connection\<close>

definition rclient_wf :: "rclient \<Rightarrow> bool" where
  "rclient_wf p \<longleftrightarrow> unat (rc_bufsize p) = 16 + length (rc_data p)"

lemma rclient_wf_simps [simp]:
  "rclient_wf (p\<lparr>TotCapt := a\<rparr>) = rclient_wf p" "rclient_wf (p\<lparr>TotNetDrops := a\<rparr>) = rclient_wf p"
  "rclient_wf (p\<lparr>rc_data := b\<rparr>) \<longleftrightarrow> unat (rc_bufsize p) = 16 + length b"
  by (simp_all add: rclient_wf_def)

text \<open>A size that passes the check and is not negative fits.\<close>

lemma caplen_fits:
  assumes "rclient_wf p" and "c + 16 \<le> rc_bufsize p" and "unat c < 4294967280"
  shows "unat c \<le> length (rc_data p)"
proof -
  have "unat (c + 16) = unat c + 16" using assms(3) by (simp add: unat_word_ariths)
  then show ?thesis using assms(1,2) by (simp add: rclient_wf_def word_le_nat_alt)
qed

lemma tcp_data_returns:
  assumes "rclient_wf p" and "cap_caplen ph + 16 \<le> rc_bufsize p"
  shows "\<exists>b s'. tcp_data p ph plen 20 s = Inr (1, Some ph, p\<lparr>rc_data := b\<rparr>, s') \<and>
    length b = length (rc_data p)"
proof -
  let ?c = "cap_caplen ph"
  obtain r d s1 where r: "sock_recv (as_int ?c) True s = (r, d, s1)" by (metis prod_cases3)
  note small = sint_nonneg [of ?c]
  have "length d \<le> length (rc_data p)"
  proof (cases "0 \<le> as_int ?c")
    case True
    then show ?thesis using small sock_recv_length [OF r] caplen_fits [OF assms] by simp
  qed (use sock_recv_length [OF r] in simp)
  moreover have "20 + of_int r \<noteq> (- 1 :: u32)"
    using sock_recv_result [OF r]
  proof
    assume h: "r = as_int ?c \<and> 0 \<le> as_int ?c"
    then have "of_int r = ?c" by simp
    moreover have "unat (20 + ?c) = 20 + unat ?c" using small h by (simp add: unat_word_ariths)
    moreover have "unat (- 1 :: u32) = 4294967295" by (simp add: unsigned_minus_1_eq_mask mask_eq_exp_minus_1)
    ultimately have "unat (20 + of_int r :: u32) \<noteq> unat (- 1 :: u32)" using small(1) h by simp
    then show ?thesis by metis
  qed simp
  ultimately show ?thesis
    using r by (auto simp: tcp_data_def Let_def blit_def)
qed


text \<open>A packet that has arrived completely is returned as it was captured.\<close>

definition fits :: "rclient \<Rightarrow> cap_hdr \<times> u8 list \<Rightarrow> bool" where
  "fits p x \<longleftrightarrow> length (snd x) = unat (cap_caplen (fst x)) \<and> 28 + length (snd x) \<le> RPCAP_NETBUF_SIZE \<and>
     length (snd x) \<le> length (rc_data p)"

lemma fits_check:
  assumes "rclient_wf p" and "fits p (ph, d)"
  shows "cap_caplen ph + 16 \<le> rc_bufsize p"
proof -
  have "unat (cap_caplen ph + 16) = unat (cap_caplen ph) + 16"
    using assms(2) by (simp add: fits_def unat_word_ariths)
  then show ?thesis using assms by (simp add: rclient_wf_def fits_def word_le_nat_alt)
qed

lemma tcp_data_complete:
  assumes "fits p (ph, d)" and "segments_ok s" and "avail s = d @ rest"
  shows "\<exists>s'. tcp_data p ph (20 + cap_caplen ph) 20 s =
      Inr (1, Some ph, p\<lparr>rc_data := d @ drop (length d) (rc_data p)\<rparr>, s') \<and>
    avail s' = rest \<and> segments_ok s'"
proof -
  let ?c = "cap_caplen ph"
  have l: "length d = unat ?c" "unat ?c \<le> 63972" "length d \<le> length (rc_data p)"
    using assms(1) by (simp_all add: fits_def)
  have c: "as_int ?c = int (length d)" "of_int (int (length d)) = ?c"
    using sint_small [of ?c] l by simp_all
  have "unat (20 + ?c) = 20 + unat ?c" using l by (simp add: unat_word_ariths)
  then have ne: "20 + ?c \<noteq> - 1" using l by (intro not_minus_one) simp
  from sock_recv_all [OF assms(2), of "length d"] assms(3) obtain s' where
    "sock_recv (int (length d)) True s = (int (length d), d, s')" "avail s' = rest" "segments_ok s'"
    by auto
  then show ?thesis
    unfolding tcp_data_def c(1) using l(3) ne c(2) by (auto simp: Let_def blit_def)
qed

lemma read_one:
  assumes "rclient_wf p" and "\<not> datatx_udp p" and "fits p (ph, d)" and "segments_ok s"
    and "packet_message n ph d = Some (Some msg)" and "avail s = msg @ rest"
  shows "\<exists>s'. pcap_read_nocb_remote stack 1 p s =
      Inr (1, Some ph, p\<lparr>TotCapt := TotCapt p + 1, rc_data := d @ drop (length d) (rc_data p)\<rparr>, s') \<and>
    avail s' = rest \<and> segments_ok s'"
proof -
  have m: "msg = header_enc (packet_header ph) @ pkthdr_enc (net_hdr n ph) @ d"
    using packet_message_fits [of ph d n] assms(3,5) by (simp add: fits_def)
  have h: "avail s = header_enc (packet_header ph) @ pkthdr_enc (net_hdr n ph) @ d @ rest"
    using m assms(6) by simp
  have check: "p_caplen (net_hdr n ph) + 16 \<le> rc_bufsize p"
    using fits_check [OF assms(1,3)] by (simp add: net_hdr_def)
  have "\<lparr>cap_sec = cap_sec ph, cap_usec = cap_usec ph, cap_caplen = cap_caplen ph, cap_len = cap_len ph\<rparr> = ph"
    by simp
  with read_headers [OF assms(4) h _ _ assms(2) check, of stack] obtain s1 where s1:
    "pcap_read_nocb_remote stack 1 p s = tcp_data (p\<lparr>TotCapt := TotCapt p + 1\<rparr>) ph (20 + cap_caplen ph) 20 s1"
    "avail s1 = d @ rest" "segments_ok s1"
    by (force simp: net_hdr_def)
  have "fits (p\<lparr>TotCapt := TotCapt p + 1\<rparr>) (ph, d)" using assms(3) by (simp add: fits_def)
  from tcp_data_complete [OF this s1(3,2)] s1(1) show ?thesis by simp
qed

section \<open>The stream of packets\<close>

text \<open>The captured packets, and the messages the daemon makes of them.\<close>

fun captures :: "(next_ex \<times> send_event list) list \<Rightarrow> (cap_hdr \<times> u8 list) list" where
  "captures ((Captured ph d, _) # es) = (ph, d) # captures es"
| "captures (_ # es) = captures es"
| "captures [] = []"

definition quiet :: "(next_ex \<times> send_event list) list \<Rightarrow> bool" where
  "quiet es \<longleftrightarrow> (\<forall>(e, out) \<in> set es. Send_Fails \<notin> set out \<and> (\<forall>t. e \<noteq> Capture_Error t) \<and> e \<noteq> Capture_End)"

lemma read_stream:
  assumes "quiet es" and "\<forall>x \<in> set (captures es). fits p x" and "rclient_wf p" and "\<not> datatx_udp p"
  shows "\<exists>sent. daemon_thrdatamain n es = Some (True, n + of_nat (length (captures es)), sent, []) \<and>
    (\<forall>s rest m. segments_ok s \<longrightarrow> avail s = concat sent @ rest \<longrightarrow> 0 \<le> m \<longrightarrow>
      (\<exists>p' s'. pcap_read_remote stack (m + int (length (captures es))) m (replicate (length (captures es)) 1) p s =
          Inr (True, m + int (length (captures es)), captures es, p', s') \<and>
        TotCapt p' = TotCapt p + of_nat (length (captures es)) \<and> avail s' = rest))"
  using assms
proof (induction es arbitrary: n p rule: captures.induct)
  case (1 ph d out es)
  have f: "fits p (ph, d)" using 1 by simp
  then obtain msg where msg: "packet_message (n + 1) ph d = Some (Some msg)"
    using packet_message_fits [of ph d "n + 1"] by (auto simp: fits_def)
  have out: "sock_send msg out = (0, msg)" "quiet es"
    using 1(2) by (auto simp: quiet_def sock_send_accepts)
  define p1 where "p1 = p\<lparr>TotCapt := TotCapt p + 1, rc_data := d @ drop (length d) (rc_data p)\<rparr>"
  have p1: "rclient_wf p1" "\<not> datatx_udp p1" "\<forall>x \<in> set (captures es). fits p1 x" "TotCapt p1 = TotCapt p + 1"
    "take (unat (cap_caplen ph)) (rc_data p1) = d"
    using 1(3-5) f by (auto simp: p1_def fits_def rclient_wf_def)
  from 1(1) [OF out(2) p1(3,1,2), of "n + 1"] obtain sent where
    d: "daemon_thrdatamain (n + 1) es = Some (True, n + 1 + of_nat (length (captures es)), sent, [])" and
    c: "\<And>s rest m. segments_ok s \<Longrightarrow> avail s = concat sent @ rest \<Longrightarrow> 0 \<le> m \<Longrightarrow>
      \<exists>p' s'. pcap_read_remote stack (m + int (length (captures es))) m (replicate (length (captures es)) 1) p1 s =
          Inr (True, m + int (length (captures es)), captures es, p', s') \<and>
        TotCapt p' = TotCapt p1 + of_nat (length (captures es)) \<and> avail s' = rest"
    by blast
  have "daemon_thrdatamain n ((Captured ph d, out) # es) =
      Some (True, n + of_nat (length (captures ((Captured ph d, out) # es))), msg # sent, [])"
    using msg out(1) d by (simp add: algebra_simps)
  moreover have "\<exists>p' s'. pcap_read_remote stack (m + int (Suc (length (captures es)))) m
        (replicate (Suc (length (captures es))) 1) p s =
      Inr (True, m + int (Suc (length (captures es))), (ph, d) # captures es, p', s') \<and>
      TotCapt p' = TotCapt p + of_nat (Suc (length (captures es))) \<and> avail s' = rest"
    if s: "segments_ok s" "avail s = concat (msg # sent) @ rest" "0 \<le> m" for s rest m
  proof -
    from read_one [OF 1(4,5) f s(1) msg, of "concat sent @ rest" stack] s(2) obtain s1 where s1:
      "pcap_read_nocb_remote stack 1 p s = Inr (1, Some ph, p1, s1)" "avail s1 = concat sent @ rest"
      "segments_ok s1" by (auto simp: p1_def)
    from c [OF s1(3,2), of "m + 1"] s(3) s1(1) p1(4,5) show ?thesis
      by (auto simp: algebra_simps)
  qed
  ultimately show ?case by auto
qed (auto simp: quiet_def)


section \<open>Counters and faults of the client\<close>

definition balance :: "rclient \<Rightarrow> u32" where
  "balance p = TotCapt p - TotNetDrops p"

definition delivered :: "rclient \<Rightarrow> int \<Rightarrow> cap_hdr option \<Rightarrow> rclient \<Rightarrow> bool" where
  "delivered p r ph p' \<longleftrightarrow> rclient_wf p' \<and> datatx_udp p' = datatx_udp p \<and> (r = 1 \<longleftrightarrow> ph \<noteq> None) \<and>
     balance p' = balance p + (if r = 1 then 1 else 0)"

lemma not_delivered: "rclient_wf p \<Longrightarrow> r \<noteq> 1 \<Longrightarrow> delivered p r None p"
  by (simp add: delivered_def)

lemma udp_data_step:
  assumes "rclient_wf p" and "cap_caplen ph + 16 \<le> rc_bufsize p"
  shows "case udp_data (p\<lparr>TotCapt := TotCapt p + 1\<rparr>) ph n netbuf s of
      Inl e \<Rightarrow> e = Netbuf_Overread | Inr (r, ph', p', s') \<Rightarrow> delivered p r ph' p'"
proof (cases "28 + unat (cap_caplen ph) > RPCAP_NETBUF_SIZE")
  case False
  then have "unat (cap_caplen ph) \<le> length (rc_data p)" by (intro caplen_fits [OF assms]) simp
  then show ?thesis
    using False assms(1) by (auto simp: udp_data_def blit_def Let_def delivered_def balance_def rclient_wf_def min_def)
qed (simp add: udp_data_def)

lemma read_data_step:
  assumes "rclient_wf p" and "\<not> datatx_udp p \<Longrightarrow> nread = 20"
  shows "case read_data p plen nread netbuf s of
      Inl e \<Rightarrow> datatx_udp p \<and> e = Netbuf_Overread | Inr (r, ph', p', s') \<Rightarrow> delivered p r ph' p'"
proof -
  let ?net = "pkthdr_dec (drop 8 netbuf)"
  let ?ph = "\<lparr>cap_sec = timestamp_sec ?net, cap_usec = timestamp_usec ?net, cap_caplen = p_caplen ?net,
    cap_len = p_len ?net\<rparr>"
  consider "\<not> p_caplen ?net + 16 \<le> rc_bufsize p" | "p_caplen ?net + 16 \<le> rc_bufsize p" "datatx_udp p"
    | "p_caplen ?net + 16 \<le> rc_bufsize p" "\<not> datatx_udp p" by blast
  then show ?thesis
  proof cases
    case 1
    then show ?thesis using not_delivered [OF assms(1)] by (simp add: read_data_def Let_def)
  next
    case 2
    then show ?thesis
      using udp_data_step [OF assms(1), of ?ph "npkt ?net" netbuf s]
      by (auto simp: read_data_def Let_def split: sum.splits)
  next
    case 3
    with tcp_data_returns [of "p\<lparr>TotCapt := TotCapt p + 1\<rparr>" ?ph plen s] assms obtain b s' where
      "read_data p plen nread netbuf s = Inr (1, Some ?ph, p\<lparr>TotCapt := TotCapt p + 1, rc_data := b\<rparr>, s')"
      "length b = length (rc_data p)"
      by (auto simp: read_data_def Let_def)
    then show ?thesis using assms(1) by (simp add: delivered_def balance_def rclient_wf_def)
  qed
qed

lemma read_step:
  assumes "rclient_wf p"
  shows "case pcap_read_nocb_remote stack sel p s of
      Inl e \<Rightarrow> datatx_udp p \<and> e = Netbuf_Overread | Inr (r, ph', p', s') \<Rightarrow> delivered p r ph' p'"
proof -
  obtain r d s1 where r: "(if datatx_udp p then sock_recv (int RPCAP_NETBUF_SIZE) False s
      else sock_recv 8 True s) = (r, d, s1)" by (metis prod_cases3)
  define netbuf where "netbuf = d @ drop (length d) stack"
  obtain c s2 where c: "rpcap_checkmsg (header_dec netbuf) [RPCAP_MSG_PACKET] s1 = (c, s2)" by fastforce
  obtain r1 d1 s3 where r1: "sock_recv 20 True s2 = (r1, d1, s3)" by (metis prod_cases3)
  note defs = pcap_read_nocb_remote_def Let_def r [simplified] c [unfolded netbuf_def]
  have none: "delivered p 0 None p" "delivered p (- 1) None p"
    by (simp_all add: not_delivered [OF assms])
  show ?thesis
  proof (cases "sel = - 1 \<or> sel = 0 \<or> r = - 1 \<or> c \<noteq> uint RPCAP_MSG_PACKET \<or> \<not> datatx_udp p \<and> r1 = - 1")
    case True
    then show ?thesis using none r1 by (auto simp: defs)
  next
    case False
    then show ?thesis
      using read_data_step [OF assms, of "of_int r1" "h_plen (header_dec netbuf)"
          "take 8 netbuf @ d1 @ drop (8 + length d1) netbuf" s3]
        read_data_step [OF assms, of 0 "h_plen (header_dec netbuf)" netbuf s2] sock_recv_result [OF r1] r1
      by (auto simp: defs netbuf_def)
  qed
qed

lemma read_run:
  assumes "rclient_wf p"
  shows "case pcap_read_remote stack limit n sels p s of
      Inl e \<Rightarrow> datatx_udp p \<and> e = Netbuf_Overread
    | Inr (ret, n', pkts, p', s') \<Rightarrow> n' = n + int (length pkts) \<and> balance p' = balance p + of_nat (length pkts)"
  using assms
proof (induction sels arbitrary: n p s)
  case (Cons sel sels)
  show ?case
  proof (cases "n < limit \<or> limit < 0")
    case True
    show ?thesis
    proof (cases "pcap_read_nocb_remote stack sel p s")
      case (Inl e)
      then show ?thesis using read_step [OF Cons.prems, of stack sel s] True by simp
    next
      case (Inr q)
      obtain r ph p1 s1 where q: "q = (r, ph, p1, s1)" by (metis prod_cases4)
      have st: "delivered p r ph p1" using read_step [OF Cons.prems, of stack sel s] Inr q by simp
      show ?thesis
      proof (cases "r = 1")
        case False
        then show ?thesis using True Inr q st by (simp add: delivered_def)
      next
        case r: True
        then obtain h where h: "ph = Some h" using st by (auto simp: delivered_def)
        have "rclient_wf p1" using st by (simp add: delivered_def)
        from Cons.IH [OF this, of "n + 1" s1] st show ?thesis
          using True Inr q r h
          by (cases "pcap_read_remote stack limit (n + 1) sels p1 s1") (auto simp: delivered_def split: prod.splits)
      qed
    qed
  qed simp
qed simp


section \<open>Properties\<close>

definition sample_client :: "bool \<Rightarrow> rclient" where
  "sample_client udp = \<lparr>datatx_udp = udp, rc_bufsize = 80, rc_data = replicate 64 0, TotCapt = 0, TotNetDrops = 0\<rparr>"

definition sample_events :: "(next_ex \<times> send_event list) list" where
  "sample_events =
     [(Captured \<lparr>cap_sec = 1, cap_usec = 2, cap_caplen = 3, cap_len = 60\<rparr> [7, 8, 9], [Accepts 10]),
      (Elapsed, []),
      (Captured \<lparr>cap_sec = 1, cap_usec = 5, cap_caplen = 2, cap_len = 2\<rparr> [4, 5], [])]"

lemma sample_client_wf: "rclient_wf (sample_client udp)"
  by (simp add: rclient_wf_def sample_client_def)

text \<open>
  C20: Over TCP the packets which the capturing thread of the daemon takes from \<open>pcap_next_ex\<close> reach
  the callback of the client complete, in order and with their headers, however the connection cuts
  the stream into segments and however often the capture times out in between, as long as the
  packets fit the send buffer of the daemon and the buffer of the client.
\<close>

theorem remote_capture_stream:
  assumes "quiet es" and "\<forall>x \<in> set (captures es). fits p x" and "rclient_wf p" and "\<not> datatx_udp p"
  shows "\<exists>sent. daemon_thrdatamain 0 es = Some (True, of_nat (length (captures es)), sent, []) \<and>
    (\<forall>s rest. segments_ok s \<longrightarrow> avail s = concat sent @ rest \<longrightarrow>
      (\<exists>p' s'. pcap_read_remote stack (int (length (captures es))) 0 (replicate (length (captures es)) 1) p s =
          Inr (True, int (length (captures es)), captures es, p', s') \<and>
        TotCapt p' = TotCapt p + of_nat (length (captures es)) \<and> avail s' = rest))"
proof -
  from read_stream [OF assms, of 0 stack] obtain sent where
    d: "daemon_thrdatamain 0 es = Some (True, 0 + of_nat (length (captures es)), sent, [])" and
    c: "\<And>s rest m. segments_ok s \<Longrightarrow> avail s = concat sent @ rest \<Longrightarrow> 0 \<le> m \<Longrightarrow>
      \<exists>p' s'. pcap_read_remote stack (m + int (length (captures es))) m (replicate (length (captures es)) 1) p s =
          Inr (True, m + int (length (captures es)), captures es, p', s') \<and>
        TotCapt p' = TotCapt p + of_nat (length (captures es)) \<and> avail s' = rest"
    by blast
  show ?thesis using d c [of _ _ 0] by auto
qed

theorem remote_capture_stream_witness:
  "\<exists>sent p' s'. daemon_thrdatamain 0 sample_events = Some (True, 2, sent, []) \<and>
    pcap_read_remote [] 2 0 [1, 1] (sample_client False) [Arrives (concat sent @ [0]), Recv_Fails] =
      Inr (True, 2, captures sample_events, p', s')"
proof -
  have "quiet sample_events" "\<forall>x \<in> set (captures sample_events). fits (sample_client False) x"
    by (auto simp: quiet_def sample_events_def fits_def sample_client_def)
  from remote_capture_stream [OF this sample_client_wf, of "[]"] obtain sent where
    d: "daemon_thrdatamain 0 sample_events = Some (True, of_nat (length (captures sample_events)), sent, [])" and
    c: "\<forall>s rest. segments_ok s \<longrightarrow> avail s = concat sent @ rest \<longrightarrow>
      (\<exists>p' s'. pcap_read_remote [] (int (length (captures sample_events))) 0
          (replicate (length (captures sample_events)) 1) (sample_client False) s =
        Inr (True, int (length (captures sample_events)), captures sample_events, p', s') \<and>
        TotCapt p' = TotCapt (sample_client False) + of_nat (length (captures sample_events)) \<and> avail s' = rest)"
    by (auto simp: sample_client_def)
  have n: "length (captures sample_events) = 2" by (simp add: sample_events_def)
  show ?thesis
    using d c [rule_format, of "[Arrives (concat sent @ [0]), Recv_Fails]" "[0]"] unfolding n
    by (auto simp: numeral_2_eq_2)
qed

text \<open>
  On a TCP connection the read of the client returns a packet as soon as the two headers of the
  message have arrived and the captured length passes the check, whatever follows: when the
  connection fails or ends before the data, the packet is still returned as read successfully,
  with what the buffer held before in place of the missing bytes.
\<close>

theorem data_failure_unnoticed:
  assumes "rclient_wf p" and "\<not> datatx_udp p" and "segments_ok s"
    and "avail s = header_enc h @ pkthdr_enc net @ rest" and "h_ver h = RPCAP_VERSION"
    and "h_type h = RPCAP_MSG_PACKET" and "p_caplen net + 16 \<le> rc_bufsize p"
  shows "\<exists>ph p' s'. pcap_read_nocb_remote stack 1 p s = Inr (1, Some ph, p', s') \<and>
    cap_caplen ph = p_caplen net \<and>
    (\<exists>k \<le> length rest. rc_data p' = take k rest @ drop k (rc_data p))"
proof -
  let ?ph = "\<lparr>cap_sec = timestamp_sec net, cap_usec = timestamp_usec net, cap_caplen = p_caplen net,
    cap_len = p_len net\<rparr>"
  let ?p = "p\<lparr>TotCapt := TotCapt p + 1\<rparr>"
  from read_headers [OF assms(3-6,2,7), of stack] obtain s1 where
    s1: "pcap_read_nocb_remote stack 1 p s = tcp_data ?p ?ph (h_plen h) 20 s1" "avail s1 = rest" "segments_ok s1"
    by blast
  from tcp_data_returns [of ?p ?ph "h_plen h" s1] assms(1,7) obtain b s' where
    b: "tcp_data ?p ?ph (h_plen h) 20 s1 = Inr (1, Some ?ph, ?p\<lparr>rc_data := b\<rparr>, s')" by auto
  have "\<exists>k \<le> length rest. b = take k rest @ drop k (rc_data p)"
  proof -
    obtain r d s2 where r: "sock_recv (as_int (p_caplen net)) True s1 = (r, d, s2)" by (metis prod_cases3)
    from sock_recv_prefix [OF r s1(3)] s1(2) have "d = take (length d) rest" "length d \<le> length rest" by auto
    moreover have "b = d @ drop (length d) (rc_data p)"
      using b r by (auto simp: tcp_data_def blit_def Let_def split: if_splits dest!: arg_cong [where f = rc_data])
    ultimately show ?thesis by metis
  qed
  then show ?thesis using s1(1) b by auto
qed


theorem data_failure_unnoticed_witness:
  "\<exists>ph p' s'. pcap_read_nocb_remote [] 1 (sample_client False)
      [Arrives (header_enc (rpcap_createhdr RPCAP_MSG_PACKET 0 60) @
        pkthdr_enc \<lparr>timestamp_sec = 1, timestamp_usec = 2, p_caplen = 40, p_len = 40, npkt = 1\<rparr> @ [1, 2]), Recv_Fails] =
      Inr (1, Some ph, p', s') \<and> cap_caplen ph = 40"
proof -
  have "pcap_read_nocb_remote [] 1 (sample_client False)
      [Arrives (header_enc (rpcap_createhdr RPCAP_MSG_PACKET 0 60) @
        pkthdr_enc \<lparr>timestamp_sec = 1, timestamp_usec = 2, p_caplen = 40, p_len = 40, npkt = 1\<rparr> @ [1, 2]), Recv_Fails] = r
    \<Longrightarrow> \<exists>ph p' s'. r = Inr (1, Some ph, p', s') \<and> cap_caplen ph = 40" for r
    using data_failure_unnoticed [OF sample_client_wf, of False "[Arrives (header_enc (rpcap_createhdr RPCAP_MSG_PACKET 0 60) @
        pkthdr_enc \<lparr>timestamp_sec = 1, timestamp_usec = 2, p_caplen = 40, p_len = 40, npkt = 1\<rparr> @ [1, 2]), Recv_Fails]"
        "rpcap_createhdr RPCAP_MSG_PACKET 0 60"
        "\<lparr>timestamp_sec = 1, timestamp_usec = 2, p_caplen = 40, p_len = 40, npkt = 1\<rparr>" "[1, 2]" "[]"]
    by (auto simp: sample_client_def rpcap_createhdr_def header.enc_ne)
  then show ?thesis by blast
qed

text \<open>
  Whatever arrives, over TCP or UDP, lost, repeated or out of order: the packets the client has
  been given are the packets it believes the daemon has sent (\<open>TotCapt\<close>) less those it counts as
  dropped by the network (\<open>TotNetDrops\<close>), modulo 2^32. Reads over TCP never write or read outside
  a buffer.
\<close>

theorem client_counts:
  assumes "rclient_wf p" and "TotNetDrops p = TotCapt p"
  shows "case pcap_read_remote stack limit 0 sels p s of
      Inl e \<Rightarrow> datatx_udp p \<and> e = Netbuf_Overread
    | Inr (ret, n, pkts, p', s') \<Rightarrow> n = int (length pkts) \<and> of_nat (length pkts) = TotCapt p' - TotNetDrops p'"
  using read_run [OF assms(1), where stack = stack and limit = limit and n = 0 and sels = sels and s = s] assms(2)
  by (auto simp: balance_def split: sum.splits prod.splits)

theorem client_counts_witness:
  "case pcap_read_remote [] 5 0 [1, 1, 0] (sample_client False) [Arrives [1, 2]] of
      Inl e \<Rightarrow> False | Inr (ret, n, pkts, p', s') \<Rightarrow> n = int (length pkts)"
  using client_counts [OF sample_client_wf [of False], where stack = "[]" and limit = 5 and
      sels = "[1, 1, 0]" and s = "[Arrives [1, 2]]"]
  by (auto simp: sample_client_def split: sum.splits)

text \<open>
  Over UDP the client does not compare the captured length with the size of the datagram. A
  length above 63972 that passes the 32-bit check against the size of the buffer makes it read
  behind its network buffer; otherwise the bytes missing in the datagram are those the stack held
  before. The check wraps around, so that it lets every length of at least 2^32 - 16 pass when the
  buffer is not smaller than the wrapped sum.
\<close>

theorem udp_length_unchecked:
  assumes "rclient_wf p" and "datatx_udp p" and "length stack = 64000"
    and "d = header_enc h @ pkthdr_enc net @ x" and "length d \<le> RPCAP_NETBUF_SIZE"
    and "h_ver h = RPCAP_VERSION" and "h_type h = RPCAP_MSG_PACKET" and "p_caplen net + 16 \<le> rc_bufsize p"
  shows "if 63972 < p_caplen net
    then pcap_read_nocb_remote stack 1 p (Datagram d # s) = Inl Netbuf_Overread
    else \<exists>ph p'. pcap_read_nocb_remote stack 1 p (Datagram d # s) = Inr (1, Some ph, p', s) \<and>
      cap_caplen ph = p_caplen net \<and> TotCapt p' = npkt net \<and>
      take (unat (p_caplen net)) (rc_data p') = take (unat (p_caplen net)) (x @ drop (28 + length x) stack)"
proof -
  let ?ph = "\<lparr>cap_sec = timestamp_sec net, cap_usec = timestamp_usec net, cap_caplen = p_caplen net,
    cap_len = p_len net\<rparr>"
  let ?p = "p\<lparr>TotCapt := TotCapt p + 1\<rparr>" and ?n = "d @ drop (length d) stack"
  have d: "d \<noteq> []" using assms(4) header.enc_ne by simp
  have net: "pkthdr_dec (drop 8 ?n) = net" "header_dec ?n = h"
    using assms(4) by (simp_all add: header.length_enc header.dec_enc pkthdr.dec_enc)
  have "rpcap_checkmsg (header_dec ?n) [RPCAP_MSG_PACKET] s = (7, s)"
    using assms(6,7) net(2) by (simp add: checkmsg_expected)
  then have "pcap_read_nocb_remote stack 1 p (Datagram d # s) = read_data p (h_plen h) 0 ?n s"
    using d assms(2,5) net(2) by (simp add: pcap_read_nocb_remote_def Let_def sock_recv_def)
  then have r: "pcap_read_nocb_remote stack 1 p (Datagram d # s) = udp_data ?p ?ph (npkt net) ?n s"
    using net(1) assms(2,8) by (simp add: read_data_def Let_def)
  show ?thesis
  proof (cases "63972 < p_caplen net")
    case True
    then show ?thesis using r by (simp add: udp_data_def word_less_nat_alt)
  next
    case False
    then have c: "unat (p_caplen net) \<le> 63972" by (simp add: word_le_nat_alt not_less)
    then have f: "unat (p_caplen net) \<le> length (rc_data p)"
      by (intro caplen_fits [OF assms(1,8)]) simp
    have n: "drop 28 ?n = x @ drop (28 + length x) stack"
      using assms(4) by (simp add: header.length_enc pkthdr.length_enc add.assoc)
    have "28 + length x \<le> 64000" using assms(4,5) by (simp add: header.length_enc pkthdr.length_enc)
    then have l': "length (take (unat (p_caplen net)) (drop 28 ?n)) = unat (p_caplen net)"
      unfolding n using c assms(3) by simp
    obtain e where e: "take (unat (p_caplen net)) (drop 28 ?n) = e" by blast
    have l: "length e = unat (p_caplen net)" using l' unfolding e .
    have "udp_data ?p ?ph (npkt net) ?n s = Inr (1, Some ?ph,
        if TotCapt p + 1 \<noteq> npkt net
        then ?p\<lparr>rc_data := e @ drop (length e) (rc_data p), TotNetDrops := TotNetDrops p + (npkt net - (TotCapt p + 1)),
          TotCapt := npkt net\<rparr>
        else ?p\<lparr>rc_data := e @ drop (length e) (rc_data p)\<rparr>, s)"
      using c f l unfolding udp_data_def cap_hdr.simps e by (simp add: blit_def Let_def)
    then have "\<exists>ph p'. pcap_read_nocb_remote stack 1 p (Datagram d # s) = Inr (1, Some ph, p', s) \<and>
        cap_caplen ph = p_caplen net \<and> TotCapt p' = npkt net \<and> take (unat (p_caplen net)) (rc_data p') = e"
      using r l by auto
    then show ?thesis using False unfolding e [symmetric] n by (simp only: if_False)
  qed
qed


theorem udp_length_unchecked_witness:
  "\<exists>s. pcap_read_nocb_remote (replicate 64000 0) 1 (sample_client True) [Datagram s] = Inl Netbuf_Overread"
proof -
  let ?net = "\<lparr>timestamp_sec = 1, timestamp_usec = 2, p_caplen = 4294967288, p_len = 40, npkt = 1\<rparr>"
  have "if 63972 < p_caplen ?net
    then pcap_read_nocb_remote (replicate 64000 0) 1 (sample_client True)
      (Datagram (header_enc (rpcap_createhdr RPCAP_MSG_PACKET 0 20) @ pkthdr_enc ?net @ []) # []) = Inl Netbuf_Overread
    else False"
    using udp_length_unchecked [OF sample_client_wf [of True] _ _ refl, where stack = "replicate 64000 0" and
        h = "rpcap_createhdr RPCAP_MSG_PACKET 0 20" and net = ?net and x = "[]" and s = "[]"]
    by (simp add: sample_client_def rpcap_createhdr_def header.length_enc pkthdr.length_enc)
  then show ?thesis by auto
qed

section \<open>Statistics\<close>

text \<open>
  The statistics the client asks for are those \<open>pcap_stats\<close> gives the daemon, with the packets
  the daemon has sent; in the extended mode they are completed by the client's own counters, and in
  the standard mode the further fields of the caller's structure are not touched.
\<close>

theorem stats_roundtrip:
  assumes "Send_Fails \<notin> set out" and "Send_Fails \<notin> set out'" and "segments_ok s"
    and "avail s = snd (daemon_getstats (Some a) capt err out) @ rest"
  shows "\<exists>b s'. rpcap_stats_remote True ex p ps out' s =
      (Some b, header_enc (rpcap_createhdr RPCAP_MSG_STATS_REQ 0 0), s') \<and> avail s' = rest \<and>
    ps_recv b = ps_recv a \<and> ps_drop b = ps_drop a \<and> ps_ifdrop b = ps_ifdrop a \<and>
    (if ex then ps_sent b = capt \<and> ps_capt b = TotCapt p \<and> ps_netdrop b = TotNetDrops p
     else ps_sent b = ps_sent ps \<and> ps_capt b = ps_capt ps \<and> ps_netdrop b = ps_netdrop ps)"
proof -
  let ?h = "rpcap_createhdr RPCAP_MSG_STATS_REPLY 0 16"
  let ?a = "\<lparr>ifrecv = ps_recv a, ifdrop = ps_ifdrop a, krnldrop = ps_drop a, svrcapt = capt\<rparr>"
  have "avail s = header_enc ?h @ stats_enc ?a @ rest"
    using assms(1,4) by (simp add: daemon_getstats_def sock_send_accepts)
  from header_received [OF assms(3) this] obtain s1 where
    s1: "sock_recv 8 True s = (8, header_enc ?h, s1)" "avail s1 = stats_enc ?a @ rest" "segments_ok s1" by blast
  from stats.recv_structure [OF s1(3,2)] obtain s2 where
    s2: "sock_recv 16 True s1 = (16, stats_enc ?a, s2)" "avail s2 = rest" by auto
  have "rpcap_checkmsg ?h [RPCAP_MSG_STATS_REPLY, RPCAP_MSG_ERROR] s1 = (137, s1)"
    by (simp add: checkmsg_expected rpcap_createhdr_def)
  then have "stats_answer ex p ps s = (Some (fill_stats ex p ?a ps), s2)"
    using s1(1) s2(1) by (simp add: stats_answer_def Let_def header.dec_enc' stats.dec_enc' rpcap_createhdr_def)
  then show ?thesis
    using s2(2) assms(2) by (simp add: rpcap_stats_remote_def sock_send_accepts fill_stats_def Let_def)
qed

theorem stats_roundtrip_witness:
  "\<exists>b s'. rpcap_stats_remote True True (sample_client False) \<lparr>ps_recv = 0, ps_drop = 0, ps_ifdrop = 0, ps_capt = 0,
      ps_sent = 0, ps_netdrop = 0\<rparr> []
      [Arrives (snd (daemon_getstats (Some \<lparr>ps_recv = 10, ps_drop = 3, ps_ifdrop = 0, ps_capt = 0, ps_sent = 0,
        ps_netdrop = 0\<rparr>) 7 [] []))] = (Some b, header_enc (rpcap_createhdr RPCAP_MSG_STATS_REQ 0 0), s') \<and>
    ps_recv b = 10 \<and> ps_drop b = 3 \<and> ps_sent b = 7"
  using stats_roundtrip [of "[]" "[]" "[Arrives (snd (daemon_getstats (Some \<lparr>ps_recv = 10, ps_drop = 3, ps_ifdrop = 0,
      ps_capt = 0, ps_sent = 0, ps_netdrop = 0\<rparr>) 7 [] []))]"
      "\<lparr>ps_recv = 10, ps_drop = 3, ps_ifdrop = 0, ps_capt = 0, ps_sent = 0, ps_netdrop = 0\<rparr>" 7 "[]" "[]"
      True "sample_client False"]
  by (force simp: daemon_getstats_def header.enc_ne)

text \<open>
  When the answer to the request for statistics is a message of another kind or version,
  \<open>rpcap_checkmsg\<close> discards it, and the error path of \<open>rpcap_stats_remote\<close> discards as many bytes
  once more: the next message on the control connection is lost.
\<close>

theorem stats_discards_twice:
  assumes "segments_ok s" and "avail s = header_enc h @ body @ next_message @ rest"
    and "as_int (h_plen h) = int (length body)" and "length next_message = length body"
    and "h_ver h \<noteq> RPCAP_VERSION \<or> h_type h \<noteq> RPCAP_MSG_ERROR \<and> h_type h \<noteq> RPCAP_MSG_STATS_REPLY"
    and "Send_Fails \<notin> set out"
  shows "\<exists>s'. rpcap_stats_remote True ex p ps out s =
      (None, header_enc (rpcap_createhdr RPCAP_MSG_STATS_REQ 0 0), s') \<and> avail s' = rest"
proof -
  from header_received [OF assms(1,2)] obtain s1 where
    s1: "sock_recv 8 True s = (8, header_enc h, s1)" "avail s1 = body @ next_message @ rest" "segments_ok s1" by blast
  from checkmsg_unexpected [OF s1(3) assms(3) s1(2), of "[RPCAP_MSG_STATS_REPLY, RPCAP_MSG_ERROR]"] assms(5)
  obtain c s2 where s2: "rpcap_checkmsg h [RPCAP_MSG_STATS_REPLY, RPCAP_MSG_ERROR] s1 = (c, s2)" "c < 0"
    "avail s2 = next_message @ rest" "segments_ok s2" by (auto split: if_splits)
  from sock_discard_all [OF s2(4), of "length body"] s2(3) assms(4) obtain s3 where
    s3: "sock_discard (int (length body)) s2 = (0, s3)" "avail s3 = rest" by auto
  have "stats_answer ex p ps s = stats_error 0 (h_plen h) s2"
    using s1(1) s2(1,2) by (simp add: stats_answer_def Let_def header.dec_enc')
  then show ?thesis
    using s2(3) s3 assms(3,4,6) by (auto simp: rpcap_stats_remote_def sock_send_accepts stats_error_def)
qed


theorem stats_discards_twice_witness:
  "\<exists>s'. rpcap_stats_remote True True (sample_client False) \<lparr>ps_recv = 0, ps_drop = 0, ps_ifdrop = 0, ps_capt = 0,
      ps_sent = 0, ps_netdrop = 0\<rparr> [] [Arrives (header_enc (rpcap_createhdr RPCAP_MSG_OPEN_REPLY 0 8)),
        Arrives [1, 2, 3, 4, 5, 6, 7, 8], Arrives (header_enc (rpcap_createhdr RPCAP_MSG_ENDCAP_REPLY 0 0))] =
    (None, header_enc (rpcap_createhdr RPCAP_MSG_STATS_REQ 0 0), s') \<and> avail s' = []"
  using stats_discards_twice [of "[Arrives (header_enc (rpcap_createhdr RPCAP_MSG_OPEN_REPLY 0 8)),
        Arrives [1, 2, 3, 4, 5, 6, 7, 8], Arrives (header_enc (rpcap_createhdr RPCAP_MSG_ENDCAP_REPLY 0 0))]"
      "rpcap_createhdr RPCAP_MSG_OPEN_REPLY 0 8" "[1, 2, 3, 4, 5, 6, 7, 8]"
      "header_enc (rpcap_createhdr RPCAP_MSG_ENDCAP_REPLY 0 0)" "[]" "[]"]
  by (simp add: header.enc_ne header.length_enc rpcap_createhdr_def)

end
