(* ===== verification/Rpcap_Filter.thy ===== *)
theory Rpcap_Filter
  imports Rpcap
begin

text \<open>
  The update of the filter of a remote capture: the client packs a program into a message
  (\<open>pcap_pack_bpffilter\<close>, \<open>pcap_updatefilter_remote\<close> of \<open>pcap-remote.c\<close>), the daemon unpacks and
  installs it (\<open>daemon_unpackapplyfilter\<close>, \<open>daemon_updatefilter\<close> of \<open>rpcapd/daemon.c\<close>). The compiler
  that makes the filter for an empty program, the validator and \<open>pcap_setfilter\<close> belong to libpcap
  and are arguments.
\<close>

section \<open>The client\<close>

text \<open>
  The index behind the packed filter and the bytes written at the position of the buffer that is
  passed in. None is a write outside the buffer, Some None the result -1. The padding of the header,
  which the code leaves as it is in the buffer, is 0 here; the daemon does not read it.
\<close>

definition pcap_pack_bpffilter ::
    "bpf_insn list option \<Rightarrow> bpf_insn list \<Rightarrow> int \<Rightarrow> (int \<times> u8 list) option option" where
  "pcap_pack_bpffilter fake_prog prog idx =
     (case (if prog = [] then fake_prog else Some prog) of
        None \<Rightarrow> Some None
      | Some p \<Rightarrow>
          (case sock_bufferize None 8 [] idx (int RPCAP_NETBUF_SIZE) of
             None \<Rightarrow> None
           | Some (r1, _, i1) \<Rightarrow>
               if r1 \<noteq> 0 then Some None
               else (case sock_bufferize None (as_int (of_nat (8 * length p))) [] i1 (int RPCAP_NETBUF_SIZE) of
                   None \<Rightarrow> None
                 | Some (r2, _, i2) \<Rightarrow>
                     if r2 \<noteq> 0 then Some None
                     else (let out = filter_enc \<lparr>filtertype = 1, f_dummy = 0, nitems = of_nat (length p)\<rparr> @
                             concat (map insn_enc p) in
                       if idx + int (length out) > int RPCAP_NETBUF_SIZE then None
                       else Some (Some (i2, out))))))"

text \<open>The message: the bytes of the send buffer that are sent.\<close>

definition updatefilter_message :: "bpf_insn list option \<Rightarrow> bpf_insn list \<Rightarrow> u8 list option option" where
  "updatefilter_message fake_prog prog =
     (let h = rpcap_createhdr RPCAP_MSG_UPDATEFILTER_REQ 0 (8 + of_nat (8 * length prog)) in
      case pcap_pack_bpffilter fake_prog prog 8 of
        None \<Rightarrow> None
      | Some None \<Rightarrow> Some None
      | Some (Some (i, out)) \<Rightarrow> Some (Some (take (nat i) (header_enc h @ out))))"

definition updatefilter_answer :: "in_stream \<Rightarrow> int \<times> in_stream" where
  "updatefilter_answer s =
     (case sock_recv 8 True s of
        (r, b, s1) \<Rightarrow>
          if r = - 1 then (- 1, s1)
          else (let h = header_dec b in
            case rpcap_checkmsg h [RPCAP_MSG_UPDATEFILTER_REPLY] s1 of
              (c, s2) \<Rightarrow>
                if c \<noteq> uint RPCAP_MSG_UPDATEFILTER_REPLY then (- 1, s2)
                else if h_plen h \<noteq> 0
                then (case sock_discard (as_int (h_plen h)) s2 of
                    (d, s3) \<Rightarrow> (if d = - 1 then - 1 else 0, s3))
                else (0, s2)))"

text \<open>The result, the bytes sent and the stream; None is a memory fault.\<close>

definition pcap_updatefilter_remote ::
    "bpf_insn list option \<Rightarrow> bpf_insn list \<Rightarrow> send_event list \<Rightarrow> in_stream \<Rightarrow>
     (int \<times> u8 list \<times> in_stream) option" where
  "pcap_updatefilter_remote fake_prog prog out s =
     (case updatefilter_message fake_prog prog of
        None \<Rightarrow> None
      | Some None \<Rightarrow> Some (- 1, [], s)
      | Some (Some msg) \<Rightarrow>
          (case sock_send msg out of
             (r, sent) \<Rightarrow>
               if r \<noteq> 0 then Some (- 1, sent, s)
               else (case updatefilter_answer s of (r1, s1) \<Rightarrow> Some (r1, sent, s1))))"

section \<open>The daemon\<close>

datatype rpcap_fault = Heap_Overrun | Stack_Overrun

record filter_env =
  mallocs :: "nat \<Rightarrow> bool"
  validates :: "bpf_insn list \<Rightarrow> bool"
  setfilter_ok :: "bpf_insn list \<Rightarrow> bool"
  stack_filter :: "u8 list"
  stack_insn :: "u8 list"
  error_text :: "u8 list"

text \<open>
  The loop over the instructions. \<open>room\<close> is the number of instructions the allocated block still
  holds; a failed call of \<open>sock_recv\<close> leaves \<open>insn\<close> as it is but for the bytes received. Nothing but
  a sum of -1 stops the loop, since the result of \<open>sock_recv\<close> is added before it is compared.
\<close>

fun unpack_insns ::
    "nat \<Rightarrow> nat \<Rightarrow> u32 \<Rightarrow> u8 list \<Rightarrow> bpf_insn list \<Rightarrow> in_stream \<Rightarrow>
     rpcap_fault + (bool \<times> u32 \<times> bpf_insn list \<times> in_stream)" where
  "unpack_insns 0 room nread insn got s = Inr (True, nread, got, s)"
| "unpack_insns (Suc n) room nread insn got s =
     (case sock_recv 8 True s of
        (r, d, s1) \<Rightarrow>
          (let nread1 = nread + of_int r; insn1 = d @ drop (length d) insn in
           if nread1 = - 1 then Inr (False, nread1, got, s1)
           else if room = 0 then Inl Heap_Overrun
           else unpack_insns n (room - 1) nread1 insn1 (got @ [insn_dec insn1]) s1))"

text \<open>The program that was installed, None for the result -1; then nread, plen and the stream.\<close>

definition daemon_unpackapplyfilter ::
    "filter_env \<Rightarrow> u32 \<Rightarrow> u32 \<Rightarrow> in_stream \<Rightarrow>
     rpcap_fault + (bpf_insn list option \<times> u32 \<times> u32 \<times> in_stream)" where
  "daemon_unpackapplyfilter env nread plen s =
     (case sock_recv 8 True s of
        (r, d, s1) \<Rightarrow>
          (let nread1 = nread + of_int r;
               f = filter_dec (d @ drop (length d) (stack_filter env));
               bytes = unat (8 * nitems f) in
           if nread1 = - 1 then Inr (None, nread1, nread1, s1)
           else if filtertype f \<noteq> 1 then Inr (None, nread1, plen, s1)
           else if \<not> mallocs env bytes then Inr (None, nread1, plen, s1)
           else (case unpack_insns (unat (nitems f)) (bytes div 8) nread1 (stack_insn env) [] s1 of
               Inl e \<Rightarrow> Inl e
             | Inr (ok, nread2, prog, s2) \<Rightarrow>
                 Inr (if ok \<and> validates env prog \<and> setfilter_ok env prog then Some prog else None,
                      nread2, plen, s2))))"

text \<open>
  The installed program, the bytes sent as the answer, and the stream. On a failure the rest of the
  message is discarded and the error is reported; a failure to send is the second case.
\<close>

definition update_failed ::
    "filter_env \<Rightarrow> bpf_insn list option \<Rightarrow> u32 \<Rightarrow> u32 \<Rightarrow> in_stream \<Rightarrow>
     rpcap_fault + (bpf_insn list option \<times> bool \<times> u8 list \<times> in_stream)" where
  "update_failed env prog nread plen s =
     Inr (prog, False, rpcap_senderror (error_text env) 7,
          if nread \<noteq> plen then snd (sock_discard (as_int (plen - nread)) s) else s)"

definition daemon_updatefilter ::
    "filter_env \<Rightarrow> u32 \<Rightarrow> send_event list \<Rightarrow> in_stream \<Rightarrow>
     rpcap_fault + (bpf_insn list option \<times> bool \<times> u8 list \<times> in_stream)" where
  "daemon_updatefilter env plen out s =
     (case daemon_unpackapplyfilter env 0 plen s of
        Inl e \<Rightarrow> Inl e
      | Inr (None, nread, plen1, s1) \<Rightarrow> update_failed env None nread plen1 s1
      | Inr (Some prog, nread, plen1, s1) \<Rightarrow>
          (case (if nread \<noteq> plen1 then sock_discard (as_int (plen1 - nread)) s1 else (0, s1)) of
             (d, s2) \<Rightarrow>
               if d \<noteq> 0 then update_failed env (Some prog) plen1 plen1 s2
               else (case sock_send (header_enc (rpcap_createhdr RPCAP_MSG_UPDATEFILTER_REPLY 0 0)) out of
                   (r, sent) \<Rightarrow>
                     if r \<noteq> 0
                     then update_failed env (Some prog) (if nread \<noteq> plen1 then nread else plen1) plen1 s2
                     else Inr (Some prog, True, sent, s2))))"

end
