(* ===== verification/Rpcap_Auth.thy ===== *)
theory Rpcap_Auth
  imports Rpcap
begin

text \<open>
  The authentication of a remote capture: \<open>rpcap_sendauth\<close> of the client (\<open>pcap-remote.c\<close>) and
  \<open>daemon_checkauth\<close> (\<open>rpcapd/daemon.c\<close>). The account database of the system is an argument.
\<close>

section \<open>The client\<close>

text \<open>\<open>pcap_rmtauth\<close>; a string is the list of its bytes before the 0, None the pointer NULL.\<close>

record rmtauth =
  ra_type :: int
  username :: "u8 list option"
  password :: "u8 list option"

definition strlen :: "u8 list option \<Rightarrow> nat" where
  "strlen s = (case s of None \<Rightarrow> 0 | Some b \<Rightarrow> length b)"

text \<open>One string behind what is already in the send buffer; the length is cut to 16 bits.\<close>

definition add_string ::
    "u8 list option \<Rightarrow> u8 list \<Rightarrow> int \<Rightarrow> (int \<times> u8 list \<times> int) option" where
  "add_string s buf i =
     sock_bufferize (Some (case s of None \<Rightarrow> [] | Some b \<Rightarrow> b)) (uint (of_nat (strlen s) :: u16)) buf i
       (int RPCAP_NETBUF_SIZE)"

text \<open>The message; None is an access outside a buffer, Some None the result -1.\<close>

definition auth_message :: "rmtauth option \<Rightarrow> u8 list option option" where
  "auth_message auth =
     (case auth of
        None \<Rightarrow> Some (Some (header_enc (rpcap_createhdr RPCAP_MSG_AUTH_REQ 0 8) @
          auth_enc \<lparr>auth_type = 0, a_dummy = 0, slen1 = 0, slen2 = 0\<rparr>))
      | Some a \<Rightarrow>
          if ra_type a = 0
          then Some (Some (header_enc (rpcap_createhdr RPCAP_MSG_AUTH_REQ 0 8) @
            auth_enc \<lparr>auth_type = 0, a_dummy = 0, slen1 = 0, slen2 = 0\<rparr>))
          else if ra_type a \<noteq> 1 then Some None
          else (let len = of_nat (8 + strlen (username a) + strlen (password a)) :: u16;
                    h = rpcap_createhdr RPCAP_MSG_AUTH_REQ 0 (ucast len);
                    rpauth = \<lparr>auth_type = 1, a_dummy = 0, slen1 = of_nat (strlen (username a)),
                      slen2 = of_nat (strlen (password a))\<rparr> in
            case add_string (username a) (header_enc h @ auth_enc rpauth @ replicate (64000 - 16) 0) 16 of
              None \<Rightarrow> None
            | Some (r, b1, i1) \<Rightarrow>
                if r \<noteq> 0 then Some None
                else (case add_string (password a) b1 i1 of
                    None \<Rightarrow> None
                  | Some (r2, b2, i2) \<Rightarrow> Some (if r2 \<noteq> 0 then None else Some (take (nat i2) b2)))))"

definition auth_answer :: "in_stream \<Rightarrow> int \<times> in_stream" where
  "auth_answer s =
     (case sock_recv 8 True s of
        (r, b, s1) \<Rightarrow>
          if r = - 1 then (- 1, s1)
          else (let h = header_dec b in
            case rpcap_checkmsg h [RPCAP_MSG_AUTH_REPLY, RPCAP_MSG_ERROR] s1 of
              (c, s2) \<Rightarrow>
                if c \<noteq> uint RPCAP_MSG_AUTH_REPLY then (- 1, s2)
                else if h_plen h \<noteq> 0
                then (case sock_discard (as_int (h_plen h)) s2 of (d, s3) \<Rightarrow> (if d \<noteq> 0 then - 1 else 0, s3))
                else (0, s2)))"

definition rpcap_sendauth ::
    "rmtauth option \<Rightarrow> send_event list \<Rightarrow> in_stream \<Rightarrow> (int \<times> u8 list \<times> in_stream) option" where
  "rpcap_sendauth auth out s =
     (case auth_message auth of
        None \<Rightarrow> None
      | Some None \<Rightarrow> Some (- 1, [], s)
      | Some (Some msg) \<Rightarrow>
          (case sock_send msg out of
             (r, sent) \<Rightarrow>
               if r \<noteq> 0 then Some (- 1, sent, s)
               else (case auth_answer s of (r1, s1) \<Rightarrow> Some (r1, sent, s1))))"

section \<open>The daemon\<close>

text \<open>
  What the daemon does that others can see: the bytes it sends on the control connection, the
  accounts it logs on, its calls of the capture library and of the threads.
\<close>

datatype daemon_event =
    Sent "u8 list"
  | Logon "u8 list" "u8 list" bool
  | Suspended
  | Listed
  | Opened "u8 list"
  | Installed "bpf_insn list"
  | Closed
  | Started
  | Cancelled

record auth_env =
  logon :: "u8 list \<Rightarrow> u8 list \<Rightarrow> bool"
  auth_mallocs :: bool
  heap1 :: "u8 list"
  heap2 :: "u8 list"
  junk :: u32
  auth_out :: "send_event list"

text \<open>A C string in a block of memory: what comes before the first 0.\<close>

definition c_string :: "u8 list \<Rightarrow> u8 list" where
  "c_string b = takeWhile (\<lambda>c. c \<noteq> 0) b"

type_synonym auth_result = "int \<times> daemon_event list \<times> in_stream"

definition discard_rest :: "u32 \<Rightarrow> u32 \<Rightarrow> in_stream \<Rightarrow> in_stream" where
  "discard_rest nread plen s = (if nread \<noteq> plen then snd (sock_discard (as_int (plen - nread)) s) else s)"

definition auth_accept :: "auth_env \<Rightarrow> u32 \<Rightarrow> u32 \<Rightarrow> in_stream \<Rightarrow> auth_result" where
  "auth_accept env nread plen s =
     (case (if nread \<noteq> plen then sock_discard (as_int (plen - nread)) s else (0, s)) of
        (d, s1) \<Rightarrow>
          if d \<noteq> 0 then (- 1, [], discard_rest nread plen s1)
          else (case sock_send (header_enc (rpcap_createhdr RPCAP_MSG_AUTH_REPLY 0 0)) (auth_out env) of
              (r, sent) \<Rightarrow>
                if r = - 1 then (- 1, [Sent sent], discard_rest nread plen s1) else (0, [Sent sent], s1)))"

text \<open>
  A name and a password. What a failing call of \<open>sock_recv\<close> leaves unwritten are the bytes the
  allocated blocks held before.
\<close>

definition auth_password :: "auth_env \<Rightarrow> rpcap_auth \<Rightarrow> u32 \<Rightarrow> in_stream \<Rightarrow> auth_result" where
  "auth_password env a plen s =
     (let len1 = unat (slen1 a); len2 = unat (slen2 a) in
      if \<not> auth_mallocs env then (- 1, [], discard_rest 8 plen s)
      else (case sock_recv (int len1) True s of
          (r1, d1, s1) \<Rightarrow>
            (let n1 = 8 + of_int r1 in
             if n1 = - 1 then (- 1, [], discard_rest n1 plen s1)
             else (case sock_recv (int len2) True s1 of
                 (r2, d2, s2) \<Rightarrow>
                   (let n2 = n1 + of_int r2;
                        string1 = take len1 (d1 @ drop (length d1) (heap1 env)) @ [0];
                        string2 = take len2 (d2 @ drop (length d2) (heap2 env)) @ [0];
                        u = c_string string1; p = c_string string2 in
                    if n2 = - 1 then (- 1, [], discard_rest n2 plen s2)
                    else if \<not> logon env u p then (- 2, [Logon u p False], discard_rest n2 plen s2)
                    else (case auth_accept env n2 plen s2 of
                        (r, ev, s3) \<Rightarrow> (r, Logon u p True # ev, s3)))))))"

text \<open>\<open>daemon_checkauth\<close>: the return code, the events and the control connection.\<close>

definition daemon_checkauth :: "auth_env \<Rightarrow> bool \<Rightarrow> in_stream \<Rightarrow> auth_result" where
  "daemon_checkauth env null_allowed s =
     (case sock_recv 8 True s of
        (r, b, s1) \<Rightarrow>
          if r = - 1 then (- 1, [], s1)
          else (let h = header_dec b; plen = h_plen h in
            case rpcap_checkmsg h [RPCAP_MSG_AUTH_REQ, RPCAP_MSG_CLOSE] s1 of
              (c, s2) \<Rightarrow>
                if c = - 3 then (- 1, [], s2)
                else if c = - 2 \<or> c = - 1 then (- 2, [], s2)
                else if c = uint RPCAP_MSG_CLOSE
                then (if plen \<noteq> 0
                  then (case sock_discard (as_int plen) s2 of
                      (d, s3) \<Rightarrow> if d \<noteq> 0 then (- 1, [], discard_rest (junk env) plen s3) else (- 3, [], s3))
                  else (- 3, [], s2))
                else if c = uint RPCAP_MSG_ERROR then (- 3, [], s2)
                else if c \<noteq> uint RPCAP_MSG_AUTH_REQ then (- 2, [], discard_rest (junk env) plen s2)
                else (case sock_recv 8 True s2 of
                    (r1, b1, s3) \<Rightarrow>
                      if r1 = - 1 then (- 1, [], discard_rest (- 1) plen s3)
                      else (let a = auth_dec b1 in
                        if auth_type a = 0
                        then (if \<not> null_allowed then (- 2, [], discard_rest 8 plen s3)
                          else auth_accept env 8 plen s3)
                        else if auth_type a = 1 then auth_password env a plen s3
                        else (- 2, [], discard_rest 8 plen s3)))))"

section \<open>What an authentication shows\<close>

text \<open>The result 0 has a reason, and no other result has one.\<close>

definition granted :: "auth_env \<Rightarrow> daemon_event \<Rightarrow> bool" where
  "granted env e = (case e of Logon u p ok \<Rightarrow> ok \<and> logon env u p | _ \<Rightarrow> False)"

lemma granted_simps [simp]:
  "granted env (Logon u p ok) \<longleftrightarrow> ok \<and> logon env u p" "\<not> granted env (Sent b)"
  by (simp_all add: granted_def)

definition authorised :: "auth_env \<Rightarrow> bool \<Rightarrow> daemon_event list \<Rightarrow> bool" where
  "authorised env null_allowed ev \<longleftrightarrow> null_allowed \<or> list_ex (granted env) ev"

definition auth_event :: "daemon_event \<Rightarrow> bool" where
  "auth_event e = (case e of Sent b \<Rightarrow> True | Logon u p ok \<Rightarrow> True | _ \<Rightarrow> False)"

lemma auth_event_simps [simp]: "auth_event (Logon u p ok)" "auth_event (Sent b)"
  by (simp_all add: auth_event_def)

lemma auth_accept_events: "auth_accept env n plen s = (r, ev, s') \<Longrightarrow> list_all auth_event ev"
  by (auto simp: auth_accept_def split: prod.splits if_splits)

lemma auth_password_sound:
  assumes "auth_password env a plen s = (r, ev, s')"
  shows "list_all auth_event ev" and "r = 0 \<Longrightarrow> authorised env n ev"
  using assms
  by (auto simp: auth_password_def Let_def authorised_def split: prod.splits if_splits dest: auth_accept_events)

lemma checkauth_sound:
  assumes "daemon_checkauth env n s = (r, ev, s')"
  shows "list_all auth_event ev" and "r = 0 \<Longrightarrow> authorised env n ev"
  using assms
  by (auto simp: daemon_checkauth_def Let_def authorised_def split: prod.splits if_splits
      dest: auth_accept_events auth_password_sound(1) auth_password_sound(2) [of _ _ _ _ _ _ _ n, simplified authorised_def])

end
