(* ===== verification/Rpcap_Devices.thy ===== *)
theory Rpcap_Devices
  imports Rpcap_Auth
begin

text \<open>
  The list of the interfaces of a remote host: \<open>daemon_seraddr\<close> and \<open>daemon_findalldevs\<close> of
  \<open>rpcapd/daemon.c\<close>, \<open>rpcap_deseraddr\<close> of \<open>pcap-remote.c\<close>. A \<open>sockaddr_storage\<close> is its 128 bytes
  on a little-endian machine.
\<close>

section \<open>Addresses\<close>

abbreviation AF_INET :: u16 where "AF_INET \<equiv> 2"
abbreviation AF_INET6 :: u16 where "AF_INET6 \<equiv> 23"

definition le16_of :: "u8 list \<Rightarrow> u16" where
  "le16_of b = push_bit 8 (ucast (b ! 1)) OR ucast (b ! 0)"

text \<open>The bytes of a \<open>sockaddr_in\<close> and of a \<open>sockaddr_in6\<close> with the fields the code swaps.\<close>

definition swap_in :: "u8 list \<Rightarrow> u8 list" where
  "swap_in a = rev (take 2 a) @ rev (take 2 (drop 2 a)) @ take 12 (drop 4 a)"

definition swap_in6 :: "u8 list \<Rightarrow> u8 list" where
  "swap_in6 a = rev (take 2 a) @ rev (take 2 (drop 2 a)) @ rev (take 4 (drop 4 a)) @
     take 16 (drop 8 a) @ rev (take 4 (drop 24 a))"

definition daemon_seraddr :: "u8 list option \<Rightarrow> u8 list" where
  "daemon_seraddr sockaddrin =
     (case sockaddrin of
        None \<Rightarrow> replicate 128 0
      | Some a \<Rightarrow> if le16_of a = AF_INET then swap_in a @ replicate 112 0 else swap_in6 a @ replicate 100 0)"

text \<open>The allocated copy; None is a failing malloc, Some None the pointer NULL.\<close>

definition rpcap_deseraddr :: "(nat \<Rightarrow> bool) \<Rightarrow> u8 list \<Rightarrow> u8 list option option" where
  "rpcap_deseraddr alloc a =
     (if be16_of a = AF_INET then (if alloc 16 then Some (Some (swap_in a)) else None)
      else if be16_of a = AF_INET6 then (if alloc 28 then Some (Some (swap_in6 a)) else None)
      else Some None)"

section \<open>The list the daemon sends\<close>

text \<open>\<open>pcap_if_t\<close> and \<open>pcap_addr\<close>; None is a pointer that is NULL.\<close>

record pcap_addr =
  pa_addr :: "u8 list option"
  pa_netmask :: "u8 list option"
  pa_broadaddr :: "u8 list option"
  pa_dstaddr :: "u8 list option"

record pcap_if =
  if_name :: "u8 list option"
  if_desc :: "u8 list option"
  if_flags :: u32
  if_addrs :: "pcap_addr list"

record rpcap_findalldevs_if =
  namelen :: u16
  desclen :: u16
  fa_flags :: u32
  naddr :: u16
  fa_dummy :: u16

definition findif_enc :: "rpcap_findalldevs_if \<Rightarrow> u8 list" where
  "findif_enc a = be16_bytes (namelen a) @ be16_bytes (desclen a) @ be32_bytes (fa_flags a) @
     be16_bytes (naddr a) @ be16_bytes (fa_dummy a)"

definition findif_dec :: "u8 list \<Rightarrow> rpcap_findalldevs_if" where
  "findif_dec b = \<lparr>namelen = be16_of b, desclen = be16_of (drop 2 b), fa_flags = be32_of (drop 4 b),
     naddr = be16_of (drop 8 b), fa_dummy = be16_of (drop 10 b)\<rparr>"

interpretation findif: codec 12 findif_enc findif_dec
  by unfold_locales (auto simp: findif_enc_def findif_dec_def)

text \<open>
  \<open>sock_bufferize\<close> on a send buffer of which only the filled part is kept: \<open>buf\<close> are the bytes in
  front of the index. None is a buffer without room.
\<close>

definition put :: "u8 list \<Rightarrow> u8 list \<Rightarrow> u8 list option" where
  "put d buf = (if length buf + length d > RPCAP_NETBUF_SIZE then None else Some (buf @ d))"

lemma put_bufferize:
  assumes "length buf \<le> RPCAP_NETBUF_SIZE" and "length free = RPCAP_NETBUF_SIZE - length buf"
    and "n \<le> length d"
  shows "sock_bufferize (Some d) (int n) (buf @ free) (int (length buf)) (int RPCAP_NETBUF_SIZE) =
    (case put (take n d) buf of
       None \<Rightarrow> Some (- 1, buf @ free, int (length buf))
     | Some b \<Rightarrow> Some (0, b @ drop n free, int (length b)))"
  using assms by (auto simp: sock_bufferize_def put_def blit_def)

text \<open>The four structures of an address, each of 128 bytes.\<close>

definition put_addr :: "pcap_addr \<Rightarrow> u8 list \<Rightarrow> u8 list option" where
  "put_addr a buf =
     Option.bind (put (daemon_seraddr (pa_addr a)) buf) (\<lambda>b1.
     Option.bind (put (daemon_seraddr (pa_netmask a)) b1) (\<lambda>b2.
     Option.bind (put (daemon_seraddr (pa_broadaddr a)) b2) (\<lambda>b3.
     put (daemon_seraddr (pa_dstaddr a)) b3)))"

fun put_addrs :: "pcap_addr list \<Rightarrow> u8 list \<Rightarrow> u8 list option" where
  "put_addrs [] buf = Some buf"
| "put_addrs (a # as) buf = Option.bind (put_addr a buf) (put_addrs as)"

definition text_of :: "u8 list option \<Rightarrow> u8 list" where
  "text_of s = (case s of None \<Rightarrow> [] | Some b \<Rightarrow> take (length b mod 65536) b)"

definition put_if :: "pcap_if \<Rightarrow> u8 list \<Rightarrow> u8 list option" where
  "put_if d buf =
     (let f = \<lparr>namelen = of_nat (length (text_of (if_name d))), desclen = of_nat (length (text_of (if_desc d))),
        fa_flags = if_flags d, naddr = of_nat (length (if_addrs d)), fa_dummy = 0\<rparr> in
      Option.bind (put (findif_enc f) buf) (\<lambda>b1.
      Option.bind (put (text_of (if_name d)) b1) (\<lambda>b2.
      Option.bind (put (text_of (if_desc d)) b2) (put_addrs (if_addrs d)))))"

fun put_ifs :: "pcap_if list \<Rightarrow> u8 list \<Rightarrow> u8 list option" where
  "put_ifs [] buf = Some buf"
| "put_ifs (d # ds) buf = Option.bind (put_if d buf) (put_ifs ds)"

text \<open>The length of the payload, counted in 16 bits.\<close>

definition if_size :: "pcap_if \<Rightarrow> nat" where
  "if_size d = strlen (if_desc d) + strlen (if_name d) + 12 + 512 * length (if_addrs d)"

text \<open>
  The result and the bytes sent. \<open>devs\<close> is what \<open>pcap_findalldevs\<close> returns: None for a failure with
  the text \<open>err\<close>.
\<close>

definition no_interfaces :: "u8 list" where
  "no_interfaces = map of_char (''No interfaces found! Make sure libpcap/WinPcap is properly installed'' @
     '' and you have the right to access to the remote device.'')"

definition daemon_findalldevs ::
    "pcap_if list option \<Rightarrow> u8 list \<Rightarrow> send_event list \<Rightarrow> int \<times> u8 list" where
  "daemon_findalldevs devs err out =
     (case devs of
        None \<Rightarrow> (- 1, rpcap_senderror err 4)
      | Some [] \<Rightarrow> (- 1, rpcap_senderror no_interfaces 5)
      | Some ds \<Rightarrow>
          (let plen = of_nat (sum_list (map if_size ds)) :: u16;
               h = rpcap_createhdr 130 (of_nat (length ds)) (ucast plen) in
           case put_ifs ds (header_enc h) of
             None \<Rightarrow> (- 1, [])
           | Some buf \<Rightarrow> (case sock_send buf out of (r, sent) \<Rightarrow> (if r = - 1 then - 1 else 0, sent))))"

end
