(* ===== verification/Rpcapd.thy ===== *)
theory Rpcapd
  imports Rpcap_Filter Rpcap_Capture Rpcap_Devices
begin

text \<open>
  The commands of the daemon (\<open>daemon_opensource\<close>, \<open>daemon_startcapture\<close>, \<open>daemon_setsampling\<close>,
  \<open>daemon_endcapture\<close> of \<open>rpcapd/daemon.c\<close>) and the loop that serves one client
  (\<open>daemon_serviceloop\<close>). Every round of the loop takes a record of what the system does in it:
  select, the capture library, the threads, the sockets of the data connection.
\<close>

section \<open>What the system does\<close>

text \<open>The parameters of an opened device: link type, time zone offset, size of the buffer.\<close>

record device =
  linktype :: u32
  tzoff :: u32
  dev_bufsize :: u32

text \<open>The calls that make the data connection, in the order of the code.\<close>

record connect_env =
  peername :: bool
  nameinfo :: bool
  initaddress :: bool
  opened :: bool
  sockname :: bool
  portinfo :: bool
  data_port :: u16
  accepted :: bool
  thread_created :: bool

record daemon_env =
  select_result :: int
  data_closed :: bool
  error_message :: "u8 list"
  sends :: "send_event list"
  authentication :: auth_env
  interfaces :: "pcap_if list option"
  open_device :: "u8 list \<Rightarrow> u32 \<Rightarrow> u32 \<Rightarrow> bool \<Rightarrow> device option"
  connection :: connect_env
  filters :: filter_env
  statistics :: "pcap_stat option"
  stale_stats :: pcap_stat
  captured :: u32

text \<open>\<open>pcap_t\<close> of the running capture and the variables of \<open>daemon_serviceloop\<close>.\<close>

record capture_handle =
  rmt_sockdata :: bool
  rmt_samp :: "u8 \<times> u32"
  installed :: "bpf_insn list"

record saved_stats =
  sv_ifdrops :: u32
  sv_ifrecv :: u32
  sv_krnldrop :: u32
  sv_svrcapt :: u32

record daemon =
  isactive :: bool
  null_auth :: bool
  source :: "u8 list"
  samp_param :: "u8 \<times> u32"
  fp :: "capture_handle option"
  threaddata :: bool
  saved :: saved_stats
  activeclose :: bool

text \<open>
  A write behind the device string, a read behind it (no open request has put a 0 into it), or a
  fault of the filter.
\<close>

datatype daemon_fault = Source_Overrun | Source_Unterminated | Filter_Fault rpcap_fault

type_synonym step_result = "daemon \<times> daemon_event list \<times> in_stream"

definition ctext :: "string \<Rightarrow> u8 list" where
  "ctext = map of_char"

section \<open>Opening a device\<close>

definition PCAP_SRC_IF :: "u8 list" where
  "PCAP_SRC_IF = ctext ''rpcap://''"

text \<open>The device is opened with fixed parameters and closed again.\<close>

definition opensource_reply :: "daemon_env \<Rightarrow> device option \<Rightarrow> daemon_event list" where
  "opensource_reply env dev =
     (case dev of
        None \<Rightarrow> [Sent (rpcap_senderror (error_message env) 6)]
      | Some d \<Rightarrow>
          [Sent (snd (sock_send (header_enc (rpcap_createhdr RPCAP_MSG_OPEN_REPLY 0 8) @
             be32_bytes (linktype d) @ be32_bytes (tzoff d)) (sends env))), Closed])"

definition daemon_opensource :: "daemon_env \<Rightarrow> u32 \<Rightarrow> daemon \<Rightarrow> in_stream \<Rightarrow> daemon_fault + step_result" where
  "daemon_opensource env plen d s =
     (let source1 = PCAP_SRC_IF @ [0] @ drop 9 (source d) in
      if int (length (source d)) \<le> as_int (8 + plen)
      then Inr (d\<lparr>source := source1\<rparr>, [Sent (rpcap_senderror (ctext ''Source string too long'') 6)], s)
      else (case sock_recv (as_int plen) True s of
          (r, b, s1) \<Rightarrow>
            (case blit source1 8 b of
               None \<Rightarrow> Inl Source_Overrun
             | Some source2 \<Rightarrow>
                 if r = - 1 then Inr (d\<lparr>source := source2\<rparr>, [], s1)
                 else (let s2 = discard_rest (of_int r) plen s1 in
                   case blit source2 (unat (8 + plen)) [0] of
                     None \<Rightarrow> Inl Source_Overrun
                   | Some source3 \<Rightarrow>
                       (let dev = open_device env (c_string source3) 1500 1000 False in
                        Inr (d\<lparr>source := source3\<rparr>,
                          (if dev = None then [] else [Opened (c_string source3)]) @ opensource_reply env dev,
                          s2))))))"

section \<open>Starting a capture\<close>

record rpcap_startcapreq =
  snaplen :: u32
  read_timeout :: u32
  sc_flags :: u16
  sc_portdata :: u16

definition startcapreq_enc :: "rpcap_startcapreq \<Rightarrow> u8 list" where
  "startcapreq_enc a = be32_bytes (snaplen a) @ be32_bytes (read_timeout a) @ be16_bytes (sc_flags a) @
     be16_bytes (sc_portdata a)"

definition startcapreq_dec :: "u8 list \<Rightarrow> rpcap_startcapreq" where
  "startcapreq_dec b = \<lparr>snaplen = be32_of b, read_timeout = be32_of (drop 4 b),
     sc_flags = be16_of (drop 8 b), sc_portdata = be16_of (drop 10 b)\<rparr>"

interpretation startcapreq: codec 12 startcapreq_enc startcapreq_dec
  by unfold_locales (auto simp: startcapreq_enc_def startcapreq_dec_def)

definition startcapreply_enc :: "u32 \<times> u16 \<times> u16 \<Rightarrow> u8 list" where
  "startcapreply_enc a = (case a of (bufsize, port, dummy) \<Rightarrow>
     be32_bytes bufsize @ be16_bytes port @ be16_bytes dummy)"

text \<open>Who opens the data connection, and the calls up to the filter: True is success.\<close>

definition serveropen_dp :: "rpcap_startcapreq \<Rightarrow> bool \<Rightarrow> bool" where
  "serveropen_dp q active \<longleftrightarrow> sc_flags q AND 4 \<noteq> 0 \<or> sc_flags q AND 2 \<noteq> 0 \<or> active"

definition connect_data :: "connect_env \<Rightarrow> bool \<Rightarrow> bool" where
  "connect_data c serveropen \<longleftrightarrow>
     peername c \<and>
     (if serveropen then nameinfo c \<and> initaddress c \<and> opened c
      else initaddress c \<and> opened c \<and> sockname c \<and> portinfo c)"

text \<open>
  The label \<open>error\<close>. \<open>pthread_cancel\<close> is called with whatever the handle holds, 0 or the thread of
  an earlier capture, since the test is one of the pointer to it.
\<close>

definition start_failed :: "daemon_env \<Rightarrow> u32 \<Rightarrow> u32 \<Rightarrow> daemon \<Rightarrow> in_stream \<Rightarrow> step_result" where
  "start_failed env nread plen d s =
     (d\<lparr>fp := None\<rparr>,
      [Sent (rpcap_senderror (error_message env) 12)] @ [Cancelled, Closed],
      discard_rest nread plen s)"

definition start_thread ::
    "daemon_env \<Rightarrow> bool \<Rightarrow> device \<Rightarrow> bpf_insn list \<Rightarrow> u32 \<Rightarrow> u32 \<Rightarrow> daemon \<Rightarrow> in_stream \<Rightarrow> step_result" where
  "start_thread env serveropen dev prog nread plen d s =
     (let c = connection env;
          (r, sent) = sock_send (header_enc (rpcap_createhdr 132 0 8) @
            startcapreply_enc (dev_bufsize dev, if serveropen then 0 else data_port c, 0)) (sends env) in
      if r = - 1 \<or> \<not> serveropen \<and> \<not> accepted c \<or> \<not> thread_created c
      then (case start_failed env nread plen d s of (d1, ev, s1) \<Rightarrow> (d1, Sent sent # ev, s1))
      else (d\<lparr>fp := Some \<lparr>rmt_sockdata = True, rmt_samp = samp_param d, installed = prog\<rparr>, threaddata := True\<rparr>,
        [Sent sent, Started], discard_rest nread plen s))"

definition daemon_startcapture :: "daemon_env \<Rightarrow> u32 \<Rightarrow> daemon \<Rightarrow> in_stream \<Rightarrow> daemon_fault + step_result" where
  "daemon_startcapture env plen d s =
     (case sock_recv 12 True s of
        (r, b, s1) \<Rightarrow>
          if r = - 1 then Inr (d\<lparr>fp := None\<rparr>, [], s1)
          else if 0 \<notin> set (source d) then Inl Source_Unterminated
          else (let q = startcapreq_dec b; src = c_string (source d);
                    serveropen = serveropen_dp q (isactive d) in
            case open_device env src (snaplen q) (read_timeout q) (sc_flags q AND 1 \<noteq> 0) of
              None \<Rightarrow> Inr (d\<lparr>fp := None\<rparr>, [Sent (rpcap_senderror (error_message env) 6)], s1)
            | Some dev \<Rightarrow>
                if \<not> connect_data (connection env) serveropen
                then Inr (case start_failed env (of_int r) plen d s1 of (d1, ev, s2) \<Rightarrow> (d1, Opened src # ev, s2))
                else (case daemon_unpackapplyfilter (filters env) (of_int r) plen s1 of
                    Inl e \<Rightarrow> Inl (Filter_Fault e)
                  | Inr (None, nread, plen1, s2) \<Rightarrow>
                      Inr (case start_failed env nread plen1 d s2 of (d1, ev, s3) \<Rightarrow> (d1, Opened src # ev, s3))
                  | Inr (Some prog, nread, plen1, s2) \<Rightarrow>
                      Inr (case start_thread env serveropen dev prog nread plen1 d s2 of
                          (d1, ev, s3) \<Rightarrow> (d1, Opened src # Installed prog # ev, s3)))))"

section \<open>The other commands\<close>

definition daemon_setsampling :: "daemon_env \<Rightarrow> u32 \<Rightarrow> daemon \<Rightarrow> in_stream \<Rightarrow> step_result" where
  "daemon_setsampling env plen d s =
     (case sock_recv 8 True s of
        (r, b, s1) \<Rightarrow>
          (let failed = (\<lambda>d sent s. (d, [Sent (sent @ rpcap_senderror (error_message env) 15)],
             discard_rest (of_int r) plen s)) in
           if r = - 1 then failed d [] s1
           else (let p = sampling_dec b; d1 = d\<lparr>samp_param := (sm_method p, sm_value p)\<rparr>;
                     (r1, sent) = sock_send (header_enc (rpcap_createhdr RPCAP_MSG_SETSAMPLING_REPLY 0 0)) (sends env) in
             if r1 \<noteq> 0 then failed d1 sent s1 else (d1, [Sent sent], discard_rest (of_int r) plen s1))))"

text \<open>The handle of the thread keeps its value: only the parameter that points to it is cleared.\<close>

definition daemon_endcapture :: "daemon_env \<Rightarrow> daemon \<Rightarrow> daemon \<times> daemon_event list" where
  "daemon_endcapture env d =
     (d\<lparr>fp := None\<rparr>,
      [Cancelled, Closed,
       Sent (snd (sock_send (header_enc (rpcap_createhdr RPCAP_MSG_ENDCAP_REPLY 0 0)) (sends env)))])"

text \<open>The statistics kept at the end of a capture; \<open>stale_stats\<close> is what the structure held before.\<close>

definition save_stats :: "daemon_env \<Rightarrow> saved_stats" where
  "save_stats env =
     (case statistics env of
        None \<Rightarrow> \<lparr>sv_ifdrops = ps_ifdrop (stale_stats env), sv_ifrecv = ps_recv (stale_stats env),
          sv_krnldrop = ps_drop (stale_stats env), sv_svrcapt = captured env\<rparr>
      | Some a \<Rightarrow> \<lparr>sv_ifdrops = 0, sv_ifrecv = 0, sv_krnldrop = 0, sv_svrcapt = 0\<rparr>)"

definition ask_stats :: "daemon_env \<Rightarrow> daemon \<Rightarrow> daemon_event list" where
  "ask_stats env d =
     (case fp d of
        Some h \<Rightarrow> [Sent (snd (daemon_getstats (statistics env) (captured env) (error_message env) (sends env)))]
      | None \<Rightarrow> [Sent (snd (daemon_getstatsnopcap (sv_ifdrops (saved d)) (sv_ifrecv (saved d)) (sv_krnldrop (saved d))
          (sv_svrcapt (saved d)) (error_message env) (sends env)))])"

section \<open>The loop\<close>

definition skip_payload :: "u32 \<Rightarrow> in_stream \<Rightarrow> in_stream" where
  "skip_payload plen s = (if plen \<noteq> 0 then snd (sock_discard (as_int plen) s) else s)"

text \<open>A command: False ends the loop.\<close>

definition daemon_command ::
    "daemon_env \<Rightarrow> rpcap_header \<Rightarrow> int \<Rightarrow> daemon \<Rightarrow> in_stream \<Rightarrow> daemon_fault + (bool \<times> step_result)" where
  "daemon_command env h retval d s =
     (if retval = - 3 then Inr (False, d, [], s)
      else if retval = - 2
      then Inr (True, d,
        [Sent (rpcap_senderror (ctext ''The RPCAP daemon received a message that is not valid'') 16),
         Sent (rpcap_senderror (ctext ''RPCAP version number mismatch'') 17)], s)
      else if retval = - 1
      then Inr (True, d, [Sent (rpcap_senderror (ctext ''RPCAP version number mismatch'') 17)], s)
      else if retval = uint RPCAP_MSG_FINDALLIF_REQ
      then Inr (True, d, [Listed, Sent (snd (daemon_findalldevs (interfaces env) (error_message env) (sends env)))],
        skip_payload (h_plen h) s)
      else if retval = uint RPCAP_MSG_OPEN_REQ then map_sum id (Pair True) (daemon_opensource env (h_plen h) d s)
      else if retval = uint RPCAP_MSG_SETSAMPLING_REQ then Inr (True, daemon_setsampling env (h_plen h) d s)
      else if retval = uint RPCAP_MSG_STARTCAP_REQ
      then map_sum id (Pair True) (daemon_startcapture env (h_plen h) d s)
      else if retval = uint RPCAP_MSG_UPDATEFILTER_REQ
      then (case fp d of
          None \<Rightarrow> Inr (True, d, [Sent (rpcap_senderror (ctext ''Device not opened. Cannot update filter'') 7)], s)
        | Some c \<Rightarrow>
            (case daemon_updatefilter (filters env) (h_plen h) (sends env) s of
               Inl e \<Rightarrow> Inl (Filter_Fault e)
             | Inr (prog, ok, sent, s1) \<Rightarrow>
                 Inr (True, d\<lparr>fp := Some (case prog of None \<Rightarrow> c | Some p \<Rightarrow> c\<lparr>installed := p\<rparr>)\<rparr>,
                   (case prog of None \<Rightarrow> [] | Some p \<Rightarrow> [Installed p]) @ [Sent sent], s1)))
      else if retval = uint RPCAP_MSG_STATS_REQ then Inr (True, d, ask_stats env d, skip_payload (h_plen h) s)
      else if retval = uint RPCAP_MSG_ENDCAP_REQ
      then (case fp d of
          None \<Rightarrow> Inr (True, d, [Sent (rpcap_senderror (ctext ''Device not opened. Cannot close the capture'') 13)], s)
        | Some c \<Rightarrow>
            (case daemon_endcapture env (d\<lparr>saved := save_stats env\<rparr>) of (d1, ev) \<Rightarrow> Inr (True, d1, ev, s)))
      else if retval = uint RPCAP_MSG_CLOSE then Inr (False, d\<lparr>activeclose := True\<rparr>, [], s)
      else Inr (True, d, [], s))"

definition requests :: "u8 list" where
  "requests = [RPCAP_MSG_FINDALLIF_REQ, RPCAP_MSG_OPEN_REQ, RPCAP_MSG_STARTCAP_REQ, RPCAP_MSG_UPDATEFILTER_REQ,
     RPCAP_MSG_STATS_REQ, RPCAP_MSG_ENDCAP_REQ, RPCAP_MSG_SETSAMPLING_REQ, RPCAP_MSG_CLOSE, RPCAP_MSG_ERROR]"

text \<open>One round: the time-out for idle clients, the header, the command.\<close>

definition idle :: "daemon \<Rightarrow> bool" where
  "idle d \<longleftrightarrow> \<not> isactive d \<and> (case fp d of None \<Rightarrow> True | Some c \<Rightarrow> \<not> rmt_sockdata c)"

definition daemon_round :: "daemon_env \<Rightarrow> daemon \<Rightarrow> in_stream \<Rightarrow> daemon_fault + (bool \<times> step_result)" where
  "daemon_round env d0 s =
     (let d = (if data_closed env then d0\<lparr>fp := map_option (rmt_sockdata_update (\<lambda>_. False)) (fp d0)\<rparr> else d0) in
      if idle d \<and> select_result env = - 1
      then Inr (False, d, [Sent (rpcap_senderror (error_message env) 1)], s)
      else if idle d \<and> select_result env = 0
      then Inr (False, d, [Sent (rpcap_senderror (ctext ''The RPCAP runtime timeout has expired'') 14)], s)
      else (case sock_recv 8 True s of
          (r, b, s1) \<Rightarrow>
            if r = - 1 then Inr (False, d, [], s1)
            else (case rpcap_checkmsg (header_dec b) requests s1 of
                (c, s2) \<Rightarrow> daemon_command env (header_dec b) c d s2)))"

text \<open>The label \<open>end\<close>.\<close>

definition daemon_end :: "daemon \<Rightarrow> daemon_event list" where
  "daemon_end d = (case fp d of None \<Rightarrow> [] | Some c \<Rightarrow> (if threaddata d then [Cancelled] else []) @ [Closed])"

text \<open>
  The loop, until it ends or the list of what the system does is used up; the first component is
  True when the thread of the client has ended.
\<close>

fun daemon_loop ::
    "daemon_env list \<Rightarrow> daemon \<Rightarrow> in_stream \<Rightarrow> daemon_fault + (bool \<times> step_result)" where
  "daemon_loop [] d s = Inr (False, d, [], s)"
| "daemon_loop (env # envs) d s =
     (case daemon_round env d s of
        Inl e \<Rightarrow> Inl e
      | Inr (False, d1, ev, s1) \<Rightarrow> Inr (True, d1\<lparr>fp := None, threaddata := False\<rparr>, ev @ daemon_end d1, s1)
      | Inr (True, d1, ev, s1) \<Rightarrow>
          map_sum id (\<lambda>(ended, d2, ev2, s2). (ended, d2, ev @ ev2, s2)) (daemon_loop envs d1 s1))"

text \<open>\<open>daemon_serviceloop\<close>: the authentication, again after a wrong one, then the loop.\<close>

fun daemon_serviceloop ::
    "daemon_env list \<Rightarrow> daemon \<Rightarrow> in_stream \<Rightarrow> daemon_fault + (bool \<times> step_result)" where
  "daemon_serviceloop [] d s = Inr (False, d, [], s)"
| "daemon_serviceloop (env # envs) d s =
     (if \<not> isactive d \<and> select_result env = - 1
      then Inr (True, d, [Sent (rpcap_senderror (error_message env) 1)], s)
      else if \<not> isactive d \<and> select_result env = 0
      then Inr (True, d, [Sent (rpcap_senderror (ctext ''The RPCAP initial timeout has expired'') 2)], s)
      else (case daemon_checkauth (authentication env) (null_auth d) s of
          (retval, ev, s1) \<Rightarrow>
            if retval = 0
            then map_sum id (\<lambda>(ended, d2, ev2, s2). (ended, d2, ev @ ev2, s2)) (daemon_loop envs d s1)
            else if retval = - 3 then Inr (True, d, ev, s1)
            else if retval = - 2
            then map_sum id (\<lambda>(ended, d2, ev2, s2).
                (ended, d2, ev @ [Sent (rpcap_senderror (error_message env) 3), Suspended] @ ev2, s2))
              (daemon_serviceloop envs d s1)
            else Inr (True, d, ev @ [Sent (rpcap_senderror (error_message env) 3)], s1)))"

end
