(* ===== verification/Rpcap_Client.thy ===== *)
theory Rpcap_Client
  imports Rpcapd
begin

text \<open>
  The requests of the client of a remote capture (\<open>pcap-remote.c\<close>): opening a device
  (\<open>pcap_opensource_remote\<close>), sampling (\<open>pcap_setsampling_remote\<close>), the start of the capture
  (\<open>pcap_startcapture_remote\<close>), filters set later (\<open>pcap_setfilter_remote\<close>), and the end
  (\<open>pcap_cleanup_remote\<close>). Looking up names and opening sockets are arguments.
\<close>

section \<open>Opening a device\<close>

text \<open>The message that opens the interface; None is a name that does not fit.\<close>

definition opensource_message :: "u8 list \<Rightarrow> u8 list option" where
  "opensource_message iface =
     put iface (header_enc (rpcap_createhdr RPCAP_MSG_OPEN_REQ 0 (of_nat (length iface))))"

text \<open>
  The answer: the result, link type and time zone, and the control connection. \<open>stale\<close> is the
  length field of the header before it is received.
\<close>

definition opensource_answer :: "u32 \<Rightarrow> in_stream \<Rightarrow> int \<times> (u32 \<times> u32) option \<times> in_stream" where
  "opensource_answer stale s =
     (case sock_recv 8 True s of
        (r, b, s1) \<Rightarrow>
          if r = - 1 then (- 1, None, discard_rest 0 stale s1)
          else (let h = header_dec b; plen = h_plen h in
            case rpcap_checkmsg h [RPCAP_MSG_OPEN_REPLY, RPCAP_MSG_ERROR] s1 of
              (c, s2) \<Rightarrow>
                if c = uint RPCAP_MSG_ERROR then (- 1, None, s2)
                else if c \<noteq> uint RPCAP_MSG_OPEN_REPLY then (- 1, None, discard_rest 0 plen s2)
                else (case sock_recv 8 True s2 of
                    (r1, b1, s3) \<Rightarrow>
                      if r1 = - 1 then (- 1, None, discard_rest (- 1) plen s3)
                      else (0, Some (be32_of b1, be32_of (drop 4 b1)), discard_rest (of_int r1) plen s3))))"

text \<open>
  \<open>pcap_opensource_remote\<close> from the open control connection on: in passive mode the authentication
  comes first, with its own part of the bytes sent. None is a memory fault.
\<close>

definition pcap_opensource_remote ::
    "bool \<Rightarrow> rmtauth option \<Rightarrow> u8 list \<Rightarrow> u32 \<Rightarrow> send_event list \<Rightarrow> send_event list \<Rightarrow> in_stream \<Rightarrow>
     (int \<times> (u32 \<times> u32) option \<times> u8 list \<times> in_stream) option" where
  "pcap_opensource_remote active auth iface stale out1 out2 s =
     (case (if active then Some (0, [], s) else rpcap_sendauth auth out1 s) of
        None \<Rightarrow> None
      | Some (r, sent, s1) \<Rightarrow>
          if r = - 1 then Some (- 1, None, sent, discard_rest 0 stale s1)
          else (case opensource_message iface of
              None \<Rightarrow> Some (- 1, None, sent, discard_rest 0 stale s1)
            | Some msg \<Rightarrow>
                (case sock_send msg out2 of
                   (r1, sent1) \<Rightarrow>
                     if r1 \<noteq> 0 then Some (- 1, None, sent @ sent1, discard_rest 0 stale s1)
                     else (case opensource_answer stale s1 of
                         (r2, reply, s2) \<Rightarrow> Some (r2, reply, sent @ sent1, s2)))))"

section \<open>Sampling\<close>

definition sampling_message :: "u8 \<Rightarrow> u32 \<Rightarrow> u8 list" where
  "sampling_message m v = header_enc (rpcap_createhdr RPCAP_MSG_SETSAMPLING_REQ 0 8) @
     sampling_enc \<lparr>sm_method = m, dummy1 = 0, dummy2 = 0, sm_value = v\<rparr>"

definition plain_answer :: "u8 \<Rightarrow> in_stream \<Rightarrow> int \<times> in_stream" where
  "plain_answer reply s =
     (case sock_recv 8 True s of
        (r, b, s1) \<Rightarrow>
          if r = - 1 then (- 1, s1)
          else (let h = header_dec b in
            case rpcap_checkmsg h [reply] s1 of
              (c, s2) \<Rightarrow>
                if c \<noteq> uint reply then (- 1, s2)
                else if h_plen h \<noteq> 0
                then (case sock_discard (as_int (h_plen h)) s2 of (d, s3) \<Rightarrow> (if d = - 1 then - 1 else 0, s3))
                else (0, s2)))"

text \<open>Method 0 is PCAP_SAMP_NOSAMP.\<close>

definition pcap_setsampling_remote ::
    "u8 \<times> u32 \<Rightarrow> send_event list \<Rightarrow> in_stream \<Rightarrow> int \<times> u8 list \<times> in_stream" where
  "pcap_setsampling_remote samp out s =
     (if fst samp = 0 then (0, [], s)
      else (case sock_send (sampling_message (fst samp) (snd samp)) out of
          (r, sent) \<Rightarrow>
            if r \<noteq> 0 then (- 1, sent, s)
            else (case plain_answer RPCAP_MSG_SETSAMPLING_REPLY s of (r1, s1) \<Rightarrow> (r1, sent, s1))))"

section \<open>Starting the capture\<close>

record remote_handle =
  snapshot :: u32
  timeout :: int
  promiscuous :: bool
  udp :: bool
  active_mode :: bool
  nocapture_rpcap :: bool
  samp :: "u8 \<times> u32"
  fcode :: "bpf_insn list"
  fake_filter :: "bpf_insn list option"
  capstarted :: bool

text \<open>Half of a time-out, rounded to 0 as C does.\<close>

definition half :: "int \<Rightarrow> int" where
  "half t = (if t < 0 then - (- t div 2) else t div 2)"

definition start_request :: "remote_handle \<Rightarrow> u16 \<Rightarrow> rpcap_startcapreq" where
  "start_request p port =
     \<lparr>snaplen = snapshot p, read_timeout = of_int (half (timeout p)),
      sc_flags = (if promiscuous p then 1 else 0) OR (if udp p then 2 else 0) OR (if active_mode p then 4 else 0),
      sc_portdata = (if active_mode p \<or> udp p then port else 0)\<rparr>"

definition startcapture_message :: "remote_handle \<Rightarrow> u16 \<Rightarrow> u8 list option option" where
  "startcapture_message p port =
     (let h = rpcap_createhdr RPCAP_MSG_STARTCAP_REQ 0 (20 + of_nat (8 * length (fcode p))) in
      case pcap_pack_bpffilter (fake_filter p) (fcode p) 20 of
        None \<Rightarrow> None
      | Some None \<Rightarrow> Some None
      | Some (Some (i, out)) \<Rightarrow> Some (Some (take (nat i) (header_enc h @ startcapreq_enc (start_request p port) @ out))))"

text \<open>
  The loop that makes the buffer of the data socket as large as the kernel buffer of the daemon:
  \<open>ok\<close> is whether setsockopt accepts a size, \<open>now\<close> the size the socket has.
\<close>

function set_rcvbuf :: "(int \<Rightarrow> bool) \<Rightarrow> nat \<Rightarrow> int \<Rightarrow> int" where
  "set_rcvbuf ok now want =
     (if ok want then want
      else if int now \<ge> half want then int now
      else set_rcvbuf ok now (half want))"
  by pat_completeness auto

termination
  by (relation "measure (\<lambda>(ok, now, want). nat want)") (auto simp: half_def split: if_splits)

declare set_rcvbuf.simps [simp del]

lemma set_rcvbuf_result:
  "int now < want \<Longrightarrow> (ok (set_rcvbuf ok now want) \<or> set_rcvbuf ok now want = int now) \<and>
     int now \<le> set_rcvbuf ok now want \<and> set_rcvbuf ok now want \<le> want"
proof (induction ok now want rule: set_rcvbuf.induct)
  case (1 ok now want)
  show ?case
  proof (cases "ok want \<or> int now \<ge> half want")
    case False
    moreover have "half want \<le> want" using 1(2) by (simp add: half_def)
    ultimately show ?thesis using 1(1) by (auto simp: set_rcvbuf.simps [of ok now want])
  qed (use 1(2) in \<open>auto simp: set_rcvbuf.simps [of ok now want]\<close>)
qed

text \<open>What the system does during a start.\<close>

record start_env =
  before_request :: bool
  local_port :: u16
  data_connected :: bool
  rcvbuf :: nat
  rcvbuf_ok :: "int \<Rightarrow> bool"
  buffer_allocated :: bool
  own_filter :: "bpf_insn list option"
  start_sends :: "send_event list \<times> send_event list \<times> send_event list"
  stale_plen :: u32

text \<open>
  The part of the start behind the reply: the data connection, the size of its socket buffer, the
  packet buffer, the rest of the reply, and the filter without the packets of the capture itself.
  The result is 0 with the size of the packet buffer, or -1; None is a memory fault.
\<close>

definition start_finish ::
    "remote_handle \<Rightarrow> start_env \<Rightarrow> u32 \<Rightarrow> u32 \<Rightarrow> in_stream \<Rightarrow> (int \<times> u32 option \<times> u8 list \<times> in_stream) option" where
  "start_finish p env nread plen s =
     (if \<not> udp p \<and> \<not> data_connected env then Some (- 1, None, [], discard_rest nread plen s)
      else if \<not> buffer_allocated env then Some (- 1, None, [], discard_rest nread plen s)
      else (let room = snapshot p + 16; s1 = discard_rest nread plen s in
        if \<not> nocapture_rpcap p then Some (0, Some room, [], s1)
        else (case own_filter env of
            None \<Rightarrow> Some (- 1, None, [], discard_rest nread plen s1)
          | Some prog \<Rightarrow>
              (case pcap_updatefilter_remote (fake_filter p) prog (snd (snd (start_sends env))) s1 of
                 None \<Rightarrow> None
               | Some (r, sent, s2) \<Rightarrow>
                   if r = - 1 then Some (- 1, None, sent, discard_rest nread plen s2)
                   else Some (0, Some room, sent, s2)))))"

text \<open>The size the socket of the data connection is given.\<close>

definition socket_buffer :: "remote_handle \<Rightarrow> start_env \<Rightarrow> u32 \<Rightarrow> int" where
  "socket_buffer p env bufsize =
     (let want = (if as_int bufsize \<le> as_int (snapshot p) then as_int (bufsize + 16) else as_int bufsize) in
      if int (rcvbuf env) < want then set_rcvbuf (rcvbuf_ok env) (rcvbuf env) want else want)"

definition start_answer ::
    "remote_handle \<Rightarrow> start_env \<Rightarrow> in_stream \<Rightarrow> (int \<times> u32 option \<times> u8 list \<times> in_stream) option" where
  "start_answer p env s =
     (case sock_recv 8 True s of
        (r, b, s1) \<Rightarrow>
          if r = - 1 then Some (- 1, None, [], discard_rest 0 (stale_plen env) s1)
          else (let h = header_dec b; plen = h_plen h in
            case rpcap_checkmsg h [132, RPCAP_MSG_ERROR] s1 of
              (c, s2) \<Rightarrow>
                if c = uint RPCAP_MSG_ERROR then Some (- 1, None, [], s2)
                else if c \<noteq> 132 then Some (- 1, None, [], discard_rest 0 plen s2)
                else (case sock_recv 8 True s2 of
                    (r1, b1, s3) \<Rightarrow>
                      if r1 = - 1 then Some (- 1, None, [], discard_rest (- 1) plen s3)
                      else start_finish p env (of_int r1) plen s3)))"

definition pcap_startcapture_remote ::
    "remote_handle \<Rightarrow> start_env \<Rightarrow> in_stream \<Rightarrow> (int \<times> u32 option \<times> u8 list \<times> in_stream) option" where
  "pcap_startcapture_remote p env s =
     (case pcap_setsampling_remote (samp p) (fst (start_sends env)) s of
        (r, sent, s1) \<Rightarrow>
          if r \<noteq> 0 then Some (- 1, None, sent, s1)
          else if \<not> before_request env then Some (- 1, None, sent, discard_rest 0 (stale_plen env) s1)
          else (case startcapture_message p (local_port env) of
              None \<Rightarrow> None
            | Some None \<Rightarrow> Some (- 1, None, sent, discard_rest 0 (stale_plen env) s1)
            | Some (Some msg) \<Rightarrow>
                (case sock_send msg (fst (snd (start_sends env))) of
                   (r1, sent1) \<Rightarrow>
                     if r1 \<noteq> 0 then Some (- 1, None, sent @ sent1, discard_rest 0 (stale_plen env) s1)
                     else map_option (\<lambda>(r2, room, sent2, s2). (r2, room, sent @ sent1 @ sent2, s2))
                       (start_answer p env s1))))"

section \<open>Filters and the end\<close>

text \<open>Before the start the filter is only stored; \<open>install\<close> is whether the copy succeeds.\<close>

definition pcap_setfilter_remote ::
    "bool \<Rightarrow> remote_handle \<Rightarrow> bpf_insn list \<Rightarrow> send_event list \<Rightarrow> in_stream \<Rightarrow>
     (int \<times> remote_handle \<times> u8 list \<times> in_stream) option" where
  "pcap_setfilter_remote install p prog out s =
     (if \<not> capstarted p then Some (if install then (0, p\<lparr>fcode := prog\<rparr>, [], s) else (- 1, p, [], s))
      else map_option (\<lambda>(r, sent, s1). (if r \<noteq> 0 then - 1 else 0, p, sent, s1))
        (pcap_updatefilter_remote (fake_filter p) prog out s))"

text \<open>The bytes sent at the end, and the control connection; in active mode it stays open.\<close>

definition pcap_cleanup_remote :: "bool \<Rightarrow> send_event list \<Rightarrow> in_stream \<Rightarrow> u8 list \<times> in_stream" where
  "pcap_cleanup_remote active out s =
     (let h = rpcap_createhdr (if active then RPCAP_MSG_ENDCAP_REQ else RPCAP_MSG_CLOSE) 0 0;
          sent = snd (sock_send (header_enc h) out) in
      if \<not> active then (sent, s)
      else (case sock_recv 8 True s of
          (r, b, s1) \<Rightarrow> (sent, skip_payload (h_plen (header_dec (b @ drop (length b) (header_enc h)))) s1)))"

end
