(* ===== verification/Rpcap_Properties.thy ===== *)
theory Rpcap_Properties
  imports Rpcap_Filter Bpf_Properties
begin

text \<open>
  What the two sides of a remote capture do together: the filter update, client and daemon of the
  same message, and the inputs for which it fails.
\<close>

section \<open>The filter on the wire\<close>

text \<open>A daemon with the validator of the driver and enough memory.\<close>

definition sample_env :: filter_env where
  "sample_env = \<lparr>mallocs = \<lambda>n. n \<le> 100000, validates = bpf_validate, setfilter_ok = \<lambda>p. True,
     stack_filter = replicate 8 0, stack_insn = replicate 8 0, error_text = [101, 114, 114]\<rparr>"

lemma length_insns: "length (concat (map insn_enc p)) = 8 * length p"
  by (induction p) (simp_all add: insn.length_enc)

definition filter_header :: "bpf_insn list \<Rightarrow> rpcap_filter" where
  "filter_header p = \<lparr>filtertype = 1, f_dummy = 0, nitems = of_nat (length p)\<rparr>"

definition filter_body :: "bpf_insn list \<Rightarrow> u8 list" where
  "filter_body p = filter_enc (filter_header p) @ concat (map insn_enc p)"

lemma length_filter_body: "length (filter_body p) = 8 + 8 * length p"
  by (simp add: filter_body_def filter.length_enc length_insns)

lemma message_fits:
  assumes "p = (if prog = [] then fk else prog)" and "16 + 8 * length p \<le> RPCAP_NETBUF_SIZE"
  shows "updatefilter_message (Some fk) prog = Some (Some
    (header_enc (rpcap_createhdr RPCAP_MSG_UPDATEFILTER_REQ 0 (8 + of_nat (8 * length prog))) @ filter_body p))"
proof -
  have l: "as_int (of_nat (8 * length p)) = 8 * int (length p)"
    using sint_of_nat_small [of "8 * length p"] assms(2) by simp
  have "pcap_pack_bpffilter (Some fk) prog 8 = Some (Some (16 + 8 * int (length p), filter_body p))"
    using assms l length_filter_body [of p]
    by (simp add: pcap_pack_bpffilter_def sock_bufferize_def Let_def filter_body_def filter_header_def
        split: if_splits)
  then show ?thesis
    using length_filter_body [of p]
    by (simp add: updatefilter_message_def Let_def header.length_enc)
qed

lemma unpack_program:
  assumes "segments_ok s" and "avail s = concat (map insn_enc p) @ rest" and "length p \<le> room"
    and "unat nread + 8 * length p < 2147483648"
  shows "\<exists>s'. unpack_insns (length p) room nread i0 got s =
      Inr (True, nread + of_nat (8 * length p), got @ p, s') \<and> avail s' = rest \<and> segments_ok s'"
  using assms
proof (induction p arbitrary: s room nread i0 got)
  case (Cons i p)
  from insn.recv_structure [OF Cons.prems(1), of i "concat (map insn_enc p) @ rest"] Cons.prems(2)
  obtain s1 where r: "sock_recv 8 True s = (8, insn_enc i, s1)"
    "avail s1 = concat (map insn_enc p) @ rest" "segments_ok s1" by auto
  have u: "unat (nread + 8) = unat nread + 8"
    using Cons.prems(4) by (simp add: unat_word_ariths)
  have ne: "nread + 8 \<noteq> - 1"
    using Cons.prems(4) u by (intro not_minus_one) simp
  from Cons.IH [of s1 "room - 1" "nread + 8" "insn_enc i @ drop 8 i0" "got @ [i]"] Cons.prems(3,4) r u
  obtain s' where "unpack_insns (length p) (room - 1) (nread + 8) (insn_enc i @ drop 8 i0) (got @ [i]) s1 =
      Inr (True, nread + 8 + of_nat (8 * length p), (got @ [i]) @ p, s')" "avail s' = rest" "segments_ok s'"
    by fastforce
  then show ?case
    using r ne Cons.prems(3) by (auto simp: Let_def insn.length_enc insn.dec_enc algebra_simps)
qed simp

text \<open>The daemon's half.\<close>

lemma unpackapply_program:
  assumes "segments_ok s" and "avail s = filter_body p @ rest" and "16 + 8 * length p \<le> RPCAP_NETBUF_SIZE"
    and "mallocs env (8 * length p)" and "validates env p" and "setfilter_ok env p" and "unat nread < 65536"
  shows "\<exists>s'. daemon_unpackapplyfilter env nread plen s =
      Inr (Some p, nread + 8 + of_nat (8 * length p), plen, s') \<and> avail s' = rest \<and> segments_ok s'"
proof -
  from filter.recv_structure [OF assms(1), of "filter_header p" "concat (map insn_enc p) @ rest"] assms(2)
  obtain s1 where r: "sock_recv 8 True s = (8, filter_enc (filter_header p), s1)"
    "avail s1 = concat (map insn_enc p) @ rest" "segments_ok s1" by (auto simp: filter_body_def)
  have n: "unat (of_nat (length p) :: u32) = length p" "unat (8 * of_nat (length p) :: u32) = 8 * length p"
    using assms(3) by (simp_all add: unat_of_nat unat_word_ariths)
  have u: "unat (nread + 8) = unat nread + 8"
    using assms(7) by (simp add: unat_word_ariths)
  have ne: "nread + 8 \<noteq> - 1"
    using u assms(7) by (intro not_minus_one) simp
  have "unat (nread + 8) + 8 * length p < 2147483648" using u assms(3,7) by simp
  from unpack_program [OF r(3,2) order_refl this, of "stack_insn env" "[]"]
  obtain s' where "unpack_insns (length p) (length p) (nread + 8) (stack_insn env) [] s1 =
      Inr (True, nread + 8 + of_nat (8 * length p), p, s')" "avail s' = rest" "segments_ok s'" by auto
  then show ?thesis
    using r n ne assms(4-6)
    by (simp add: daemon_unpackapplyfilter_def Let_def filter.length_enc filter.dec_enc filter_header_def)
qed

lemma updatefilter_installs:
  assumes "segments_ok s" and "avail s = filter_body p @ rest" and "16 + 8 * length p \<le> RPCAP_NETBUF_SIZE"
    and "mallocs env (8 * length p)" and "validates env p" and "setfilter_ok env p"
    and "fst (sock_send (header_enc (rpcap_createhdr RPCAP_MSG_UPDATEFILTER_REPLY 0 0)) out) = 0"
  shows "\<exists>s'. daemon_updatefilter env (8 + of_nat (8 * length p)) out s =
      Inr (Some p, True, header_enc (rpcap_createhdr RPCAP_MSG_UPDATEFILTER_REPLY 0 0), s') \<and>
    avail s' = rest \<and> segments_ok s'"
proof -
  from unpackapply_program [OF assms(1-6), of 0] obtain s' where
    "daemon_unpackapplyfilter env 0 (8 + of_nat (8 * length p)) s =
      Inr (Some p, 8 + of_nat (8 * length p), 8 + of_nat (8 * length p), s')" "avail s' = rest" "segments_ok s'"
    by fastforce
  moreover obtain sent where "sock_send (header_enc (rpcap_createhdr RPCAP_MSG_UPDATEFILTER_REPLY 0 0)) out = (0, sent)"
    using assms(7) by (metis prod.collapse)
  ultimately show ?thesis
    using sock_send_complete by (auto simp: daemon_updatefilter_def)
qed

text \<open>The client's half.\<close>

lemma answer_accepted:
  assumes "segments_ok s" and "avail s = header_enc (rpcap_createhdr RPCAP_MSG_UPDATEFILTER_REPLY 0 0) @ rest"
  shows "\<exists>s'. updatefilter_answer s = (0, s') \<and> avail s' = rest \<and> segments_ok s'"
proof -
  from header_received [OF assms] obtain s1 where
    "sock_recv 8 True s = (8, header_enc (rpcap_createhdr RPCAP_MSG_UPDATEFILTER_REPLY 0 0), s1)"
    "avail s1 = rest" "segments_ok s1" by blast
  then show ?thesis
    by (simp add: updatefilter_answer_def Let_def header.dec_enc' checkmsg_expected rpcap_createhdr_def)
qed

text \<open>An error answer of at most 255 bytes makes the update fail and is read as a whole.\<close>

lemma senderror_bytes:
  assumes "length err < PCAP_ERRBUF_SIZE"
  shows "rpcap_senderror err c = header_enc (rpcap_createhdr RPCAP_MSG_ERROR c (of_nat (length err))) @ err"
  using assms by (simp add: rpcap_senderror_def Let_def)

lemma answer_refused:
  assumes "segments_ok s" and "avail s = rpcap_senderror err c @ rest" and "length err < PCAP_ERRBUF_SIZE"
  shows "\<exists>s'. updatefilter_answer s = (- 1, s') \<and> avail s' = rest \<and> segments_ok s'"
proof -
  let ?h = "rpcap_createhdr RPCAP_MSG_ERROR c (of_nat (length err))"
  from header_received [OF assms(1), of ?h "err @ rest"] assms(2,3) obtain s1 where
    r: "sock_recv 8 True s = (8, header_enc ?h, s1)" "avail s1 = err @ rest" "segments_ok s1"
    by (auto simp: senderror_bytes)
  from checkmsg_error [OF r(3) _ r(2), of ?h "[RPCAP_MSG_UPDATEFILTER_REPLY]"] assms(3) r(1)
  show ?thesis
    by (auto simp: updatefilter_answer_def Let_def header.dec_enc' rpcap_createhdr_def sint_of_nat_small)
qed

text \<open>
  C21: The client of a remote capture that sends a non-empty program which fits the send buffer
  makes the daemon install exactly this program, however the network cuts the message into
  segments, provided the daemon's allocation succeeds and the validator and \<open>pcap_setfilter\<close> accept
  it; the daemon reads exactly the message, and its answer makes the client's call succeed.
\<close>

theorem updatefilter_roundtrip:
  assumes "prog \<noteq> []" and "16 + 8 * length prog \<le> RPCAP_NETBUF_SIZE"
    and "mallocs env (8 * length prog)" and "validates env prog" and "setfilter_ok env prog"
  shows "\<exists>h body reply. updatefilter_message (Some fk) prog = Some (Some (header_enc h @ body)) \<and>
    h_type h = RPCAP_MSG_UPDATEFILTER_REQ \<and> length body = 8 + 8 * length prog \<and> length reply = 8 \<and>
    (\<forall>s rest out. segments_ok s \<longrightarrow> avail s = body @ rest \<longrightarrow> fst (sock_send reply out) = 0 \<longrightarrow>
      (\<exists>s'. daemon_updatefilter env (h_plen h) out s = Inr (Some prog, True, reply, s') \<and> avail s' = rest)) \<and>
    (\<forall>s rest out. segments_ok s \<longrightarrow> avail s = reply @ rest \<longrightarrow> fst (sock_send (header_enc h @ body) out) = 0 \<longrightarrow>
      (\<exists>s'. pcap_updatefilter_remote (Some fk) prog out s = Some (0, header_enc h @ body, s') \<and> avail s' = rest))"
proof -
  let ?h = "rpcap_createhdr RPCAP_MSG_UPDATEFILTER_REQ 0 (8 + of_nat (8 * length prog))"
  let ?reply = "header_enc (rpcap_createhdr RPCAP_MSG_UPDATEFILTER_REPLY 0 0)"
  have m: "updatefilter_message (Some fk) prog = Some (Some (header_enc ?h @ filter_body prog))"
    using message_fits [of prog prog fk] assms(1,2) by simp
  have h: "h_type ?h = RPCAP_MSG_UPDATEFILTER_REQ" "h_plen ?h = 8 + of_nat (8 * length prog)"
    by (simp_all add: rpcap_createhdr_def)
  have daemon: "\<exists>s'. daemon_updatefilter env (h_plen ?h) out s = Inr (Some prog, True, ?reply, s') \<and> avail s' = rest"
    if "segments_ok s" "avail s = filter_body prog @ rest" "fst (sock_send ?reply out) = 0" for s rest out
    unfolding h(2) using updatefilter_installs [OF that(1,2) assms(2-5) that(3)] by blast
  have client: "\<exists>s'. pcap_updatefilter_remote (Some fk) prog out s = Some (0, header_enc ?h @ filter_body prog, s') \<and>
      avail s' = rest"
    if "segments_ok s" "avail s = ?reply @ rest" "fst (sock_send (header_enc ?h @ filter_body prog) out) = 0" for s rest out
    using answer_accepted [OF that(1,2)] sock_send_complete [of "header_enc ?h @ filter_body prog" out] that(3) m
    by (cases "sock_send (header_enc ?h @ filter_body prog) out") (auto simp: pcap_updatefilter_remote_def)
  show ?thesis
    using m h(1) daemon client length_filter_body [of prog] header.length_enc by blast
qed

theorem updatefilter_roundtrip_witness:
  "\<exists>h body reply s1 s2. updatefilter_message (Some []) ip_filter = Some (Some (header_enc h @ body)) \<and>
    daemon_updatefilter sample_env (h_plen h) [Accepts 3] [Arrives (take 5 body), Arrives (drop 5 body), Recv_Fails] =
      Inr (Some ip_filter, True, reply, s1) \<and>
    pcap_updatefilter_remote (Some []) ip_filter [] [Arrives reply] = Some (0, header_enc h @ body, s2)"
proof -
  have "bpf_validate ip_filter" by simp
  then obtain h body reply where
    m: "updatefilter_message (Some []) ip_filter = Some (Some (header_enc h @ body))"
      "length body = 8 + 8 * length ip_filter" "length reply = 8" and
    d: "\<forall>s rest out. segments_ok s \<longrightarrow> avail s = body @ rest \<longrightarrow> fst (sock_send reply out) = 0 \<longrightarrow>
      (\<exists>s'. daemon_updatefilter sample_env (h_plen h) out s = Inr (Some ip_filter, True, reply, s') \<and> avail s' = rest)" and
    c: "\<forall>s rest out. segments_ok s \<longrightarrow> avail s = reply @ rest \<longrightarrow> fst (sock_send (header_enc h @ body) out) = 0 \<longrightarrow>
      (\<exists>s'. pcap_updatefilter_remote (Some []) ip_filter out s = Some (0, header_enc h @ body, s') \<and> avail s' = rest)"
    using updatefilter_roundtrip [of ip_filter sample_env "[]"] by (auto simp: ip_filter_def sample_env_def)
  have "\<exists>s1. daemon_updatefilter sample_env (h_plen h) [Accepts 3] [Arrives (take 5 body), Arrives (drop 5 body), Recv_Fails] =
      Inr (Some ip_filter, True, reply, s1)"
    using d [rule_format, of "[Arrives (take 5 body), Arrives (drop 5 body), Recv_Fails]" "[]" "[Accepts 3]"] m(2,3)
    by (cases body) auto
  moreover have "\<exists>s2. pcap_updatefilter_remote (Some []) ip_filter [] [Arrives reply] = Some (0, header_enc h @ body, s2)"
    using c [rule_format, of "[Arrives reply]" "[]" "[]"] m(3)
    by (cases reply) auto
  ultimately show ?thesis using m(1) by blast
qed

text \<open>
  The program of length 0 stands for a filter that the client compiles itself. The length in
  the header of its message is that of the empty program, so that the daemon installs the compiled
  filter, finds that it has read more than the message, and reports a failure; the client's call
  fails although the filter is in use.
\<close>

theorem empty_filter_refused:
  assumes "fk \<noteq> []" and "16 + 8 * length fk \<le> RPCAP_NETBUF_SIZE"
    and "mallocs env (8 * length fk)" and "validates env fk" and "setfilter_ok env fk"
    and "length (error_text env) < PCAP_ERRBUF_SIZE"
  shows "\<exists>h body reply. updatefilter_message (Some fk) [] = Some (Some (header_enc h @ body)) \<and>
    h_plen h = 8 \<and> length body = 8 + 8 * length fk \<and> length reply = 8 + length (error_text env) \<and>
    (\<forall>s rest out. segments_ok s \<longrightarrow> avail s = body @ rest \<longrightarrow>
      (\<exists>s'. daemon_updatefilter env (h_plen h) out s = Inr (Some fk, False, reply, s') \<and> avail s' = rest)) \<and>
    (\<forall>s rest out. segments_ok s \<longrightarrow> avail s = reply @ rest \<longrightarrow>
      (\<exists>sent s'. pcap_updatefilter_remote (Some fk) [] out s = Some (- 1, sent, s')))"
proof -
  let ?h = "rpcap_createhdr RPCAP_MSG_UPDATEFILTER_REQ 0 8"
  let ?reply = "rpcap_senderror (error_text env) 7"
  have m: "updatefilter_message (Some fk) [] = Some (Some (header_enc ?h @ filter_body fk))"
    using message_fits [of fk "[]" fk] assms(2) by simp
  have h: "h_plen ?h = 8" by (simp add: rpcap_createhdr_def)
  have n: "unat (8 + 8 * of_nat (length fk) :: u32) = 8 + 8 * length fk"
    "unat (8 * of_nat (length fk) :: u32) = 8 * length fk"
    using assms(2) by (simp_all add: unat_of_nat unat_word_ariths)
  have ne: "8 * of_nat (length fk) \<noteq> (0 :: u32)"
    using n(2) assms(1) by (metis length_0_conv mult_eq_0_iff unat_0 zero_neq_numeral)
  have neg: "as_int (- (8 * of_nat (length fk))) < 0"
    using sint_minus_small [of "8 * of_nat (length fk)"] n(2) assms(1,2) by simp
  have daemon: "\<exists>s'. daemon_updatefilter env 8 out s = Inr (Some fk, False, ?reply, s') \<and> avail s' = rest"
    if "segments_ok s" "avail s = filter_body fk @ rest" for s rest out
  proof -
    from unpackapply_program [OF that assms(2-5), of 0 8] obtain s' where
      "daemon_unpackapplyfilter env 0 8 s = Inr (Some fk, 8 + of_nat (8 * length fk), 8, s')" "avail s' = rest"
      by fastforce
    then show ?thesis
      using ne sock_discard_negative [OF neg] by (simp add: daemon_updatefilter_def update_failed_def)
  qed
  have reply: "length ?reply = 8 + length (error_text env)"
    using assms(6) by (simp add: senderror_bytes header.length_enc)
  have client: "\<exists>sent s'. pcap_updatefilter_remote (Some fk) [] out s = Some (- 1, sent, s')"
    if "segments_ok s" "avail s = ?reply @ rest" for s rest out
    using answer_refused [OF that assms(6)] m
    by (cases "sock_send (header_enc ?h @ filter_body fk) out") (auto simp: pcap_updatefilter_remote_def)
  show ?thesis
    using m h daemon client length_filter_body [of fk] reply
    by (intro exI [of _ ?h] exI [of _ "filter_body fk"] exI [of _ ?reply]) simp
qed


theorem empty_filter_refused_witness:
  "\<exists>h body reply s1 sent s2. updatefilter_message (Some ip_filter) [] = Some (Some (header_enc h @ body)) \<and>
    daemon_updatefilter sample_env (h_plen h) [] [Arrives body] = Inr (Some ip_filter, False, reply, s1) \<and>
    pcap_updatefilter_remote (Some ip_filter) [] [] [Arrives reply] = Some (- 1, sent, s2)"
proof -
  have "bpf_validate ip_filter" by simp
  then obtain h body reply where
    m: "updatefilter_message (Some ip_filter) [] = Some (Some (header_enc h @ body))"
      "length body = 8 + 8 * length ip_filter" "length reply = 8 + length (error_text sample_env)" and
    d: "\<forall>s rest out. segments_ok s \<longrightarrow> avail s = body @ rest \<longrightarrow>
      (\<exists>s'. daemon_updatefilter sample_env (h_plen h) out s = Inr (Some ip_filter, False, reply, s') \<and> avail s' = rest)" and
    c: "\<forall>s rest out. segments_ok s \<longrightarrow> avail s = reply @ rest \<longrightarrow>
      (\<exists>sent s'. pcap_updatefilter_remote (Some ip_filter) [] out s = Some (- 1, sent, s'))"
    using empty_filter_refused [of ip_filter sample_env] by (auto simp: ip_filter_def sample_env_def)
  have "body \<noteq> []" "reply \<noteq> []" using m(2,3) by auto
  then show ?thesis
    using d [rule_format, of "[Arrives body]" "[]" "[]"] c [rule_format, of "[Arrives reply]" "[]" "[]"] m(1)
    by (metis append_Nil2 avail.simps(1,2) segments_simps(1,2))
qed

section \<open>The daemon's block for the program\<close>

lemma unpack_safe: "n \<le> room \<Longrightarrow> unpack_insns n room nread i0 got s \<noteq> Inl e"
  by (induction n room nread i0 got s rule: unpack_insns.induct) (auto simp: Let_def split: prod.splits)

text \<open>As long as the sum of the results stays above -1, the loop goes on, whatever the calls return.\<close>

lemma unpack_overruns:
  assumes "room < n" and "room < unat nread" and "unat nread + 8 * room < 2147483640"
  shows "unpack_insns n room nread i0 got s = Inl Heap_Overrun"
  using assms
proof (induction n arbitrary: room nread i0 got s)
  case (Suc n)
  obtain r d s1 where c: "sock_recv 8 True s = (r, d, s1)" by (metis prod_cases3)
  define nr where "nr = nread + of_int r"
  have nz: "nread \<noteq> 0" using Suc.prems(2) by auto
  from sock_recv_result [OF c] have u: "unat nr = unat nread + 8 \<or> unat nr = unat nread - 1"
  proof
    assume "r = 8 \<and> (0 :: int) \<le> 8"
    then show ?thesis using Suc.prems(3) by (simp add: nr_def unat_word_ariths)
  qed (use unat_minus_one [OF nz] in \<open>simp add: nr_def\<close>)
  then have ne: "nr \<noteq> - 1" using Suc.prems by (intro not_minus_one) auto
  show ?case
  proof (cases room)
    case (Suc room')
    have "unpack_insns n room' nr (d @ drop (length d) i0) (got @ [insn_dec (d @ drop (length d) i0)]) s1 =
        Inl Heap_Overrun"
      using u Suc Suc.prems by (intro Suc.IH) auto
    then show ?thesis using c ne Suc by (simp add: nr_def Let_def)
  qed (use c ne in \<open>simp add: nr_def Let_def\<close>)
qed simp


text \<open>
  The length of the block for the program is computed in 32 bits. A count below 2^29
  never makes the daemon write outside the block, whatever arrives; a count n of at least 2^29
  with n mod 2^29 at most 7 passes the check of the allocation with a block for n mod 2^29
  instructions and makes the daemon write behind it, whatever arrives after the count, even when
  the connection is closed at this point, since a failed receive does not stop the loop.
\<close>

theorem filter_count_overrun:
  assumes "segments_ok s" and "avail s = filter_enc f @ rest"
  shows "(nitems f < 536870912 \<longrightarrow> daemon_updatefilter env plen out s \<noteq> Inl e) \<and>
    (536870912 \<le> nitems f \<and> nitems f mod 536870912 < 8 \<and> filtertype f = 1 \<and>
      mallocs env (8 * (unat (nitems f) mod 536870912)) \<longrightarrow>
      daemon_updatefilter env plen out s = Inl Heap_Overrun)"
proof -
  from filter.recv_structure [OF assms] obtain s1 where
    r: "sock_recv 8 True s = (8, filter_enc f, s1)" by auto
  have b: "unat (8 * nitems f) = 8 * (unat (nitems f) mod 536870912)"
    using mult_mod_right [of 8 "unat (nitems f)" 536870912] by (simp add: unat_word_ariths)
  have "daemon_updatefilter env plen out s \<noteq> Inl e" if "nitems f < 536870912"
  proof -
    have "unat (nitems f) < 536870912" using that by (simp add: word_less_nat_alt)
    then have "daemon_unpackapplyfilter env 0 plen s \<noteq> Inl e" for e
      using r b unpack_safe [of "unat (nitems f)" "unat (nitems f)"]
      by (simp add: daemon_unpackapplyfilter_def Let_def filter.length_enc filter.dec_enc split: sum.splits prod.splits)
    then show ?thesis
      by (auto simp: daemon_updatefilter_def update_failed_def split: sum.splits option.splits prod.splits)
  qed
  moreover have "daemon_updatefilter env plen out s = Inl Heap_Overrun"
    if h: "536870912 \<le> nitems f" "nitems f mod 536870912 < 8" "filtertype f = 1"
      "mallocs env (8 * (unat (nitems f) mod 536870912))"
  proof -
    have "unat (nitems f) mod 536870912 < 8" "536870912 \<le> unat (nitems f)"
      using h(1,2) by (simp_all add: word_le_nat_alt word_less_nat_alt unat_mod)
    then have "daemon_unpackapplyfilter env 0 plen s = Inl Heap_Overrun"
      using r b h(3,4) unpack_overruns [of "unat (nitems f) mod 536870912" "unat (nitems f)" 8]
      by (simp add: daemon_unpackapplyfilter_def Let_def filter.length_enc filter.dec_enc)
    then show ?thesis by (simp add: daemon_updatefilter_def)
  qed
  ultimately show ?thesis by blast
qed

theorem filter_count_overrun_witness:
  "daemon_updatefilter sample_env 24 []
    [Arrives (filter_enc \<lparr>filtertype = 1, f_dummy = 0, nitems = 536870914\<rparr>)] = Inl Heap_Overrun"
  using filter_count_overrun [of "[Arrives (filter_enc \<lparr>filtertype = 1, f_dummy = 0, nitems = 536870914\<rparr>)]"
      "\<lparr>filtertype = 1, f_dummy = 0, nitems = 536870914\<rparr>" "[]" sample_env 24 "[]"]
  by (auto simp: sample_env_def filter.enc_ne)

end
