(* ===== verification/Rpcapd_Properties.thy ===== *)
theory Rpcapd_Properties
  imports Rpcapd Rpcap_Properties
begin

text \<open>
  What a client can make the daemon do: nothing before it is authorised, no write outside a buffer
  but for the block of the filter, a balance of the devices that are opened and closed; and where
  the daemon loses the frame of the messages, answers twice or answers wrongly.
\<close>

section \<open>Authentication comes first\<close>

definition privileged :: "daemon_event \<Rightarrow> bool" where
  "privileged e = (case e of Sent b \<Rightarrow> False | Logon u p ok \<Rightarrow> False | Suspended \<Rightarrow> False | _ \<Rightarrow> True)"

lemma privileged_simps [simp]:
  "\<not> privileged (Sent b)" "\<not> privileged (Logon u p ok)" "\<not> privileged Suspended"
  "privileged Listed" "privileged (Opened b)" "privileged (Installed f)" "privileged Closed"
  "privileged Started" "privileged Cancelled"
  by (simp_all add: privileged_def)

lemma auth_not_privileged: "list_all auth_event ev \<Longrightarrow> list_all (\<lambda>e. \<not> privileged e) ev"
  by (induction ev) (auto simp: auth_event_def split: daemon_event.splits)

definition before_commands :: "daemon_event list \<Rightarrow> daemon_event list" where
  "before_commands ev = takeWhile (\<lambda>e. \<not> privileged e) ev"

lemma before_commands_append:
  "list_all (\<lambda>e. \<not> privileged e) ev \<Longrightarrow> before_commands (ev @ ev') = ev @ before_commands ev'"
  by (simp add: before_commands_def list_all_iff)

definition some_logon :: "daemon_env list \<Rightarrow> daemon_event \<Rightarrow> bool" where
  "some_logon envs e \<longleftrightarrow> list_ex (\<lambda>env. granted (authentication env) e) envs"

lemma service_sound:
  assumes "daemon_serviceloop envs d s = Inr (ended, d', ev, s')" and "list_ex privileged ev"
  shows "null_auth d \<or> list_ex (some_logon envs) (before_commands ev)"
  using assms
proof (induction envs arbitrary: s ended d' ev s')
  case (Cons env envs)
  obtain r a s1 where c: "daemon_checkauth (authentication env) (null_auth d) s = (r, a, s1)"
    by (metis prod_cases3)
  note sound = checkauth_sound [OF c]
  have np: "list_all (\<lambda>e. \<not> privileged e) a" by (rule auth_not_privileged [OF sound(1)])
  then have none: "\<not> list_ex privileged a" by (simp add: list_all_iff list_ex_iff)
  have go: "isactive d \<or> select_result env \<noteq> - 1" "isactive d \<or> select_result env \<noteq> 0"
    using Cons.prems by (auto split: if_splits)
  consider "r = 0" | "r = - 2" | "r \<noteq> 0" "r \<noteq> - 2" by blast
  then show ?case
  proof cases
    case 1
    have "authorised (authentication env) (null_auth d) a" using sound(2) 1 by simp
    then have "null_auth d \<or> list_ex (some_logon (env # envs)) a"
      by (auto simp: authorised_def some_logon_def list_ex_iff)
    moreover have "\<exists>ev2. ev = a @ ev2"
      using Cons.prems(1) c 1 go by (cases "daemon_loop envs d s1") (auto split: if_splits)
    ultimately show ?thesis using before_commands_append [OF np] by auto
  next
    case 2
    then obtain ev2 where ev: "daemon_serviceloop envs d s1 = Inr (ended, d', ev2, s')"
      "ev = a @ [Sent (rpcap_senderror (error_message env) 3), Suspended] @ ev2"
      using Cons.prems(1) c go by (cases "daemon_serviceloop envs d s1") (auto split: if_splits)
    have "list_ex privileged ev2" using Cons.prems(2) none ev(2) by simp
    from Cons.IH [OF ev(1) this] show ?thesis
      using before_commands_append [OF np] ev(2)
      by (auto simp: before_commands_def some_logon_def list_ex_iff)
  next
    case 3
    then show ?thesis using Cons.prems c go none by (auto split: if_splits)
  qed
qed simp


section \<open>The string of the device\<close>

text \<open>The lengths for which \<open>strlen(PCAP_SRC_IF_STRING) + plen\<close> is negative as an int and \<open>plen\<close> is not.\<close>

definition wraps :: "u32 \<Rightarrow> bool" where
  "wraps plen \<longleftrightarrow> 2147483640 \<le> plen \<and> plen < 2147483648"

lemma length_PCAP_SRC_IF: "length PCAP_SRC_IF = 8"
  by (simp add: PCAP_SRC_IF_def ctext_def)

lemma plen_small:
  assumes "\<not> wraps plen" and "as_int (8 + plen) < 1024" and "0 \<le> as_int plen"
  shows "unat plen < 1016" and "unat (8 + plen) = 8 + unat plen"
proof -
  have p: "unat plen < 2147483648" by (rule sint_nonneg [OF assms(3)])
  then show u: "unat (8 + plen) = 8 + unat plen" by (simp add: unat_word_ariths)
  have "\<not> 2147483640 \<le> unat plen"
    using assms(1) p by (simp add: wraps_def word_le_nat_alt word_less_nat_alt)
  then have "as_int (8 + plen) = int (8 + unat plen)" using u sint_small [of "8 + plen"] by simp
  then show "unat plen < 1016" using assms(2) by linarith
qed

lemma opensource_safe:
  assumes "length (source d) = 1024" and "\<not> wraps plen"
  shows "case daemon_opensource env plen d s of
      Inl e \<Rightarrow> False | Inr (d', ev, s') \<Rightarrow> length (source d') = 1024"
proof -
  obtain r b s1 where r: "sock_recv (as_int plen) True s = (r, b, s1)" by (metis prod_cases3)
  show ?thesis
  proof (cases "1024 \<le> as_int (8 + plen)")
    case False
    then have small: "0 \<le> as_int plen \<Longrightarrow> unat plen < 1016 \<and> unat (8 + plen) = 8 + unat plen"
      using plen_small [OF assms(2)] by simp
    have "length b \<le> 1015"
      using sock_recv_length [OF r] small sint_nonneg(2) [of plen] by (cases "0 \<le> as_int plen") auto
    then have b: "\<exists>c. blit (PCAP_SRC_IF @ [0] @ drop 9 (source d)) 8 b = Some c \<and> length c = 1024"
      using assms(1) length_PCAP_SRC_IF by (simp add: blit_def)
    have "r = - 1 \<or> unat (8 + plen) < 1024"
      using sock_recv_result [OF r] small by auto
    then show ?thesis
    proof
      assume "r = - 1"
      then show ?thesis using b r False assms(1) by (auto simp: daemon_opensource_def Let_def)
    next
      assume "unat (8 + plen) < 1024"
      then have "\<exists>e. blit c (unat (8 + plen)) [0] = Some e \<and> length e = 1024" if "length c = 1024" for c :: "u8 list"
        using that by (simp add: blit_def)
      then show ?thesis using b r False assms(1) by (fastforce simp: daemon_opensource_def Let_def)
    qed
  qed (use assms(1) length_PCAP_SRC_IF in \<open>simp add: daemon_opensource_def Let_def\<close>)
qed

lemma opensource_overruns:
  assumes "length (source d) = 1024" and "wraps plen" and "segments_ok s" and "1016 < length (avail s)"
  shows "daemon_opensource env plen d s = Inl Source_Overrun"
proof -
  have u: "2147483640 \<le> unat plen" "unat plen < 2147483648"
    using assms(2) by (simp_all add: wraps_def word_le_nat_alt word_less_nat_alt)
  then have n: "as_int plen = int (unat plen)" by (intro sint_small)
  have "unat (8 + plen) = 8 + unat plen" using u by (simp add: unat_word_ariths)
  then have neg: "as_int (8 + plen) < 0"
    using u sint_nonneg(1) [of "8 + plen"] by (cases "0 \<le> as_int (8 + plen)") auto
  have "\<exists>r b s1. sock_recv (int (unat plen)) True s = (r, b, s1) \<and> 1016 < length b"
  proof (cases "unat plen \<le> length (avail s)")
    case True
    with sock_recv_all [OF assms(3), of "unat plen"] u show ?thesis by fastforce
  next
    case False
    with sock_recv_short_data [OF assms(3), of "unat plen"] assms(4) show ?thesis by fastforce
  qed
  then show ?thesis
    using neg n assms(1) length_PCAP_SRC_IF by (auto simp: daemon_opensource_def Let_def blit_def)
qed

lemma opensource_short:
  assumes "length (source d) = 1024" and "wraps plen" and "segments_ok s" and "\<not> 1016 < length (avail s)"
  shows "\<exists>d' ev s'. daemon_opensource env plen d s = Inr (d', ev, s') \<and> length (source d') = 1024"
proof -
  have u: "2147483640 \<le> unat plen" "unat plen < 2147483648"
    using assms(2) by (simp_all add: wraps_def word_le_nat_alt word_less_nat_alt)
  then have n: "as_int plen = int (unat plen)" by (intro sint_small)
  have "unat (8 + plen) = 8 + unat plen" using u by (simp add: unat_word_ariths)
  then have neg: "as_int (8 + plen) < 0"
    using u sint_nonneg(1) [of "8 + plen"] by (cases "0 \<le> as_int (8 + plen)") auto
  have "\<exists>s'. sock_recv (as_int plen) True s = (- 1, avail s, s')"
    using sock_recv_short_data [OF assms(3), of "unat plen"] assms(4) u n by simp
  moreover have "\<exists>c. blit (PCAP_SRC_IF @ [0] @ drop 9 (source d)) 8 (avail s) = Some c \<and> length c = 1024"
    using assms(1,4) length_PCAP_SRC_IF by (simp add: blit_def)
  ultimately show ?thesis
    using neg assms(1) by (auto simp: daemon_opensource_def Let_def)
qed


section \<open>Opened and closed devices\<close>

lemma map_sum_Inr: "map_sum f g x = Inr y \<longleftrightarrow> (\<exists>z. x = Inr z \<and> y = g z)"
  by (cases x) auto

fun opens :: "daemon_event list \<Rightarrow> nat" where
  "opens [] = 0"
| "opens (Opened b # ev) = Suc (opens ev)"
| "opens (_ # ev) = opens ev"

fun closes :: "daemon_event list \<Rightarrow> nat" where
  "closes [] = 0"
| "closes (Closed # ev) = Suc (closes ev)"
| "closes (_ # ev) = closes ev"

lemma opens_append [simp]: "opens (ev @ ev') = opens ev + opens ev'"
  by (induction ev rule: opens.induct) auto

lemma closes_append [simp]: "closes (ev @ ev') = closes ev + closes ev'"
  by (induction ev rule: closes.induct) auto

definition running :: "daemon \<Rightarrow> nat" where
  "running d = (if fp d = None then 0 else 1)"

lemma running_simps [simp]:
  "running (d\<lparr>source := a\<rparr>) = running d" "running (d\<lparr>samp_param := q\<rparr>) = running d"
  "running (d\<lparr>activeclose := c\<rparr>) = running d" "running (d\<lparr>saved := v\<rparr>) = running d"
  "running (d\<lparr>fp := None\<rparr>) = 0" "running (d\<lparr>fp := Some h\<rparr>) = 1"
  "running (d\<lparr>fp := Some h, threaddata := t\<rparr>) = 1" "running (d\<lparr>fp := None, threaddata := t\<rparr>) = 0"
  "fp d = None \<Longrightarrow> running d = 0" "fp d = Some h \<Longrightarrow> running d = 1"
  by (simp_all add: running_def)

definition balanced :: "nat \<Rightarrow> daemon \<Rightarrow> daemon_event list \<Rightarrow> daemon \<Rightarrow> bool" where
  "balanced lost d ev d' \<longleftrightarrow> opens ev + running d = closes ev + running d' + lost"

lemma opensource_balanced:
  "daemon_opensource env plen d s = Inr (d', ev, s') \<Longrightarrow> balanced 0 d ev d'"
  by (auto simp: daemon_opensource_def Let_def balanced_def opensource_reply_def
      split: if_splits prod.splits option.splits)

lemma start_failed_balanced:
  "start_failed env nread plen d s = (d', ev, s') \<Longrightarrow> running d' = 0 \<and> opens ev = 0 \<and> closes ev = 1"
  by (auto simp: start_failed_def)

lemma start_thread_balanced:
  "start_thread env so dev prog nread plen d s = (d', ev, s') \<Longrightarrow> opens ev = 0 \<and> closes ev + running d' = 1"
  by (auto simp: start_thread_def Let_def start_failed_balanced split: if_splits prod.splits
      dest!: start_failed_balanced)

text \<open>The device of an earlier capture is forgotten when a capture is started.\<close>

lemma startcapture_balanced:
  assumes "daemon_startcapture env plen d s = Inr (d', ev, s')"
  shows "balanced (running d) d ev d'"
  using assms
  by (auto simp: daemon_startcapture_def Let_def balanced_def split: if_splits prod.splits option.splits sum.splits
      dest!: start_failed_balanced start_thread_balanced)

definition starts_capture :: "daemon_env \<Rightarrow> daemon \<Rightarrow> in_stream \<Rightarrow> bool" where
  "starts_capture env d s \<longleftrightarrow>
     (case sock_recv 8 True s of (r, b, s1) \<Rightarrow>
        r \<noteq> - 1 \<and> fst (rpcap_checkmsg (header_dec b) requests s1) = uint RPCAP_MSG_STARTCAP_REQ)"

lemma command_balanced:
  assumes "daemon_command env h c d s = Inr (go, d', ev, s')"
  shows "balanced (if c = uint RPCAP_MSG_STARTCAP_REQ then running d else 0) d ev d'"
proof -
  show ?thesis
    using assms opensource_balanced startcapture_balanced
    by (auto simp: daemon_command_def balanced_def ask_stats_def daemon_setsampling_def daemon_endcapture_def Let_def
        map_sum_Inr split: if_splits option.splits sum.splits prod.splits)
qed

definition data_ended :: "daemon_env \<Rightarrow> daemon \<Rightarrow> daemon" where
  "data_ended env d =
     (if data_closed env then d\<lparr>fp := map_option (rmt_sockdata_update (\<lambda>_. False)) (fp d)\<rparr> else d)"

lemma running_data_ended [simp]: "running (data_ended env d) = running d"
  by (simp add: running_def data_ended_def)

lemma round_balanced:
  assumes "daemon_round env d s = Inr (go, d', ev, s')"
  shows "balanced (if go \<and> starts_capture env d s then running d else 0) d ev d'"
proof -
  let ?d = "data_ended env d"
  obtain r b s1 where r: "sock_recv 8 True s = (r, b, s1)" by (metis prod_cases3)
  obtain c s2 where c: "rpcap_checkmsg (header_dec b) requests s1 = (c, s2)" by fastforce
  note round = assms [unfolded daemon_round_def, folded data_ended_def, unfolded Let_def r, simplified]
  consider "\<not> go" "d' = ?d" "opens ev = 0" "closes ev = 0"
    | "r \<noteq> - 1" "daemon_command env (header_dec b) c ?d s2 = Inr (go, d', ev, s')"
    using round c by (auto split: if_splits)
  then show ?thesis
  proof cases
    case 2
    have go: "c = uint RPCAP_MSG_STARTCAP_REQ \<Longrightarrow> go"
      using 2(2) by (auto simp: daemon_command_def map_sum_Inr)
    have "(if go \<and> starts_capture env d s then running d else 0) =
        (if c = uint RPCAP_MSG_STARTCAP_REQ then running ?d else 0)"
      using r c 2(1) go by (auto simp: starts_capture_def)
    then show ?thesis using command_balanced [OF 2(2)] by (simp add: balanced_def)
  qed (simp add: balanced_def)
qed

text \<open>The rounds of a run in which a capture is started although there is one.\<close>

fun restarts :: "daemon_env list \<Rightarrow> daemon \<Rightarrow> in_stream \<Rightarrow> nat" where
  "restarts [] d s = 0"
| "restarts (env # envs) d s =
     (case daemon_round env d s of
        Inr (True, d1, ev, s1) \<Rightarrow> (if starts_capture env d s then running d else 0) + restarts envs d1 s1
      | _ \<Rightarrow> 0)"

lemma end_balanced: "closes (daemon_end d) = running d" "opens (daemon_end d) = 0"
  by (auto simp: daemon_end_def running_def split: option.splits)

lemma loop_balanced:
  assumes "daemon_loop envs d s = Inr (ended, d', ev, s')"
  shows "balanced (restarts envs d s) d ev d'"
  using assms
proof (induction envs arbitrary: d s ended d' ev s')
  case (Cons env envs)
  obtain go d1 e1 s1 where round: "daemon_round env d s = Inr (go, d1, e1, s1)"
    using Cons.prems by (cases "daemon_round env d s") auto
  note b = round_balanced [OF round]
  show ?case
  proof (cases go)
    case True
    then obtain e2 where rest: "daemon_loop envs d1 s1 = Inr (ended, d', e2, s')" "ev = e1 @ e2"
      using Cons.prems round by (auto simp: map_sum_Inr)
    show ?thesis
      using Cons.IH [OF rest(1)] b True round rest(2) by (simp add: balanced_def)
  next
    case False
    then show ?thesis using Cons.prems b round by (auto simp: balanced_def end_balanced)
  qed
qed (simp add: balanced_def)


lemma loop_ended: "daemon_loop envs d s = Inr (True, d', ev, s') \<Longrightarrow> fp d' = None"
  by (induction envs arbitrary: d s ev) (auto simp: map_sum_Inr split: sum.splits bool.splits prod.splits)

section \<open>The state between two messages\<close>

text \<open>The buffer of the device string keeps its size, and a running capture has its thread.\<close>

definition daemon_wf :: "daemon \<Rightarrow> bool" where
  "daemon_wf d \<longleftrightarrow> length (source d) = 1024 \<and> (fp d \<noteq> None \<longrightarrow> threaddata d)"

lemma daemon_wf_simps [simp]:
  "daemon_wf (d\<lparr>samp_param := q\<rparr>) = daemon_wf d" "daemon_wf (d\<lparr>activeclose := c\<rparr>) = daemon_wf d"
  "daemon_wf (d\<lparr>saved := v, fp := None\<rparr>) \<longleftrightarrow> length (source d) = 1024"
  "daemon_wf (d\<lparr>fp := None\<rparr>) \<longleftrightarrow> length (source d) = 1024"
  "daemon_wf (d\<lparr>fp := None, threaddata := t\<rparr>) \<longleftrightarrow> length (source d) = 1024"
  "daemon_wf (d\<lparr>fp := Some h, threaddata := True\<rparr>) \<longleftrightarrow> length (source d) = 1024"
  "daemon_wf d \<Longrightarrow> fp d = Some h \<Longrightarrow> daemon_wf (d\<lparr>fp := Some g\<rparr>)"
  by (simp_all add: daemon_wf_def)

lemma opensource_wf:
  assumes "daemon_opensource env plen d s = Inr (d', ev, s')" and "daemon_wf d"
  shows "daemon_wf d'"
  using assms length_PCAP_SRC_IF
  by (auto simp: daemon_opensource_def Let_def daemon_wf_def split: if_splits prod.splits option.splits
      dest!: blit_length)

lemma start_thread_wf:
  "start_thread env so dev prog nread plen d s = (d', ev, s') \<Longrightarrow> daemon_wf d \<Longrightarrow> daemon_wf d'"
  by (auto simp: start_thread_def start_failed_def Let_def daemon_wf_def split: if_splits prod.splits)

lemma startcapture_wf:
  assumes "daemon_startcapture env plen d s = Inr (d', ev, s')" and "daemon_wf d"
  shows "daemon_wf d'"
  using assms
  by (auto simp: daemon_startcapture_def Let_def start_failed_def daemon_wf_def [of d]
      split: if_splits prod.splits option.splits sum.splits dest!: start_thread_wf)

lemma command_wf:
  assumes "daemon_command env h c d s = Inr (go, d', ev, s')" and "daemon_wf d"
  shows "daemon_wf d'"
proof -
  have l: "length (source d) = 1024" using assms(2) by (simp add: daemon_wf_def)
  show ?thesis
    using assms l opensource_wf startcapture_wf
    by (auto simp: daemon_command_def map_sum_Inr daemon_setsampling_def daemon_endcapture_def Let_def
        split: if_splits option.splits sum.splits prod.splits)
qed

lemma round_wf:
  assumes "daemon_round env d s = Inr (go, d', ev, s')" and "daemon_wf d"
  shows "daemon_wf d'"
proof -
  have wf: "daemon_wf (data_ended env d)" using assms(2) by (simp add: daemon_wf_def data_ended_def)
  show ?thesis
    using assms(1) wf unfolding daemon_round_def data_ended_def [symmetric] Let_def
    by (auto split: if_splits prod.splits dest: command_wf)
qed

lemma loop_wf: "daemon_loop envs d s = Inr (ended, d', ev, s') \<Longrightarrow> daemon_wf d \<Longrightarrow> daemon_wf d'"
proof (induction envs arbitrary: d s ended ev)
  case (Cons env envs)
  obtain go d1 e1 s1 where round: "daemon_round env d s = Inr (go, d1, e1, s1)"
    using Cons.prems(1) by (cases "daemon_round env d s") auto
  have "daemon_wf d1" by (rule round_wf [OF round Cons.prems(2)])
  then show ?case
    using Cons.IH [of d1 s1] Cons.prems(1) round by (cases go) (auto simp: map_sum_Inr daemon_wf_def)
qed simp

lemma service_wf: "daemon_serviceloop envs d s = Inr (ended, d', ev, s') \<Longrightarrow> daemon_wf d \<Longrightarrow> daemon_wf d'"
  by (induction envs arbitrary: s ended d' ev s')
    (auto simp: map_sum_Inr split: if_splits prod.splits dest: loop_wf)

section \<open>Properties\<close>

text \<open>A daemon that has just accepted a client, and a system in which every call succeeds.\<close>

definition fresh :: "bool \<Rightarrow> daemon" where
  "fresh null = \<lparr>isactive = False, null_auth = null, source = replicate 1024 0, samp_param = (0, 0), fp = None,
     threaddata = False, saved = \<lparr>sv_ifdrops = 0, sv_ifrecv = 0, sv_krnldrop = 0, sv_svrcapt = 0\<rparr>, activeclose = False\<rparr>"

definition no_stats :: pcap_stat where
  "no_stats = \<lparr>ps_recv = 0, ps_drop = 0, ps_ifdrop = 0, ps_capt = 0, ps_sent = 0, ps_netdrop = 0\<rparr>"

definition good_env :: daemon_env where
  "good_env = \<lparr>select_result = 1, data_closed = False, error_message = [101], sends = [],
     authentication = \<lparr>logon = \<lambda>u p. u = [97] \<and> p = [98], auth_mallocs = True, heap1 = [], heap2 = [], junk = 0, auth_out = []\<rparr>,
     interfaces = None, open_device = \<lambda>src len t p. Some \<lparr>linktype = 1, tzoff = 0, dev_bufsize = 1000\<rparr>,
     connection = \<lparr>peername = True, nameinfo = True, initaddress = True, opened = True, sockname = True,
       portinfo = True, data_port = 4000, accepted = True, thread_created = True\<rparr>,
     filters = sample_env, statistics = Some (no_stats\<lparr>ps_recv := 12\<rparr>), stale_stats = no_stats, captured = 5\<rparr>"

text \<open>A client that logs on and asks for the interfaces.\<close>

definition listing_session :: in_stream where
  "listing_session =
    [Arrives (header_enc (rpcap_createhdr RPCAP_MSG_AUTH_REQ 0 10) @
       auth_enc \<lparr>auth_type = 1, a_dummy = 0, slen1 = 1, slen2 = 1\<rparr> @ [97, 98]),
     Arrives (header_enc (rpcap_createhdr RPCAP_MSG_FINDALLIF_REQ 0 0))]"

lemma recv8:
  "length e = 8 \<Longrightarrow> sock_recv 8 True (Arrives (e @ x) # s) = (8, e, if x = [] then s else Arrives x # s)"
  "length e = 8 \<Longrightarrow> sock_recv 8 True (Arrives e # s) = (8, e, s)"
  using sock_recv_arrives [of e x s] sock_recv_arrives [of e "[]" s] by auto

lemma listing_session_runs:
  "\<exists>d ev s. daemon_serviceloop [good_env, good_env] (fresh False) listing_session = Inr (False, d, ev, s) \<and>
    list_ex privileged ev"
  by (simp add: listing_session_def good_env_def fresh_def daemon_checkauth_def Let_def recv8 header.length_enc auth.length_enc
      header.dec_enc' auth.dec_enc' header.enc_ne auth.enc_ne checkmsg_expected auth_password_def rpcap_createhdr_def
      sock_recv_def sock_recv_loop.simps c_string_def auth_accept_def daemon_round_def requests_def
      daemon_command_def discard_rest_def)

text \<open>
  Nothing happens before the client is authorised: when the daemon lists the interfaces, opens
  a device, installs a filter, or starts, cancels or closes a capture, then before the first such
  event an account was logged on with the name and the password the client sent, unless the daemon
  is configured to allow clients without authentication. This holds for all messages, however often
  the client tries.
\<close>

theorem service_authorised:
  assumes "daemon_serviceloop envs d s = Inr (ended, d', ev, s')" and "list_ex privileged ev"
  shows "null_auth d \<or> list_ex (some_logon envs) (before_commands ev)"
  by (rule service_sound [OF assms])

theorem service_authorised_witness:
  "\<exists>d ev s. daemon_serviceloop [good_env, good_env] (fresh False) listing_session = Inr (False, d, ev, s) \<and>
    list_ex (some_logon [good_env, good_env]) (before_commands ev)"
proof -
  have "\<not> null_auth (fresh False)" by (simp add: fresh_def)
  then show ?thesis using listing_session_runs service_authorised by blast
qed

text \<open>
  C23: When the thread of a client ends, it has closed every device it has opened, except one for
  every request to start a capture that arrived while a capture was running: the capture that runs
  then is never closed.
\<close>

theorem devices_closed:
  assumes "daemon_loop envs d s = Inr (True, d', ev, s')" and "fp d = None"
  shows "opens ev = closes ev + restarts envs d s \<and> fp d' = None"
  using loop_balanced [OF assms(1)] loop_ended [OF assms(1)] assms(2) by (simp add: balanced_def)

theorem devices_closed_witness:
  "\<exists>d' ev s'. daemon_loop [good_env, good_env] (fresh True)
      [Arrives (header_enc (rpcap_createhdr RPCAP_MSG_OPEN_REQ 0 8)), Arrives [101, 116, 104, 49, 50, 51, 52, 53],
       Arrives (header_enc (rpcap_createhdr RPCAP_MSG_CLOSE 0 0))] = Inr (True, d', ev, s') \<and> fp d' = None"
proof -
  have "\<exists>d' ev s'. daemon_loop [good_env, good_env] (fresh True)
      [Arrives (header_enc (rpcap_createhdr RPCAP_MSG_OPEN_REQ 0 8)), Arrives [101, 116, 104, 49, 50, 51, 52, 53],
       Arrives (header_enc (rpcap_createhdr RPCAP_MSG_CLOSE 0 0))] = Inr (True, d', ev, s')"
    by (simp add: good_env_def fresh_def Let_def recv8 header.length_enc header.dec_enc' header.enc_ne checkmsg_expected
        rpcap_createhdr_def daemon_round_def requests_def daemon_command_def daemon_opensource_def length_PCAP_SRC_IF
        blit_def discard_rest_def)
  then show ?thesis using devices_closed [of _ "fresh True"] by (fastforce simp: fresh_def)
qed

text \<open>
  C24: What the length check of \<open>daemon_opensource\<close> is worth. Serving an open request writes outside
  the 1024 bytes of the device string exactly when the length in its header is one of the eight
  just below \<open>2 ^ 31\<close>, for which the sum with the length of the prefix is negative as an int, and
  the client sends more than 1016 bytes; for every other length and every stream it stays inside,
  and the string keeps its 1024 bytes.
\<close>

theorem open_length_check:
  assumes "length (source d) = 1024" and "segments_ok s"
  shows "(daemon_opensource env plen d s = Inl e \<longleftrightarrow>
      e = Source_Overrun \<and> 2147483640 \<le> plen \<and> plen < 2147483648 \<and> 1016 < length (avail s)) \<and>
    (case daemon_opensource env plen d s of Inl f \<Rightarrow> True | Inr (d', ev, s') \<Rightarrow> length (source d') = 1024)"
proof (cases "wraps plen")
  case False
  with opensource_safe [OF assms(1) False, of env s] show ?thesis
    by (auto simp: wraps_def split: sum.splits)
next
  case True
  then have w: "2147483640 \<le> plen" "plen < 2147483648" by (simp_all add: wraps_def)
  show ?thesis
  proof (cases "1016 < length (avail s)")
    case True
    with opensource_overruns [OF assms(1) \<open>wraps plen\<close> assms(2) True, of env] w show ?thesis by auto
  next
    case False
    with opensource_short [OF assms(1) \<open>wraps plen\<close> assms(2), of env] w show ?thesis by auto
  qed
qed

theorem open_length_check_witness:
  "daemon_opensource good_env 2147483645 (fresh True) [Arrives (replicate 1017 0)] = Inl Source_Overrun \<and>
   \<not> isl (daemon_opensource good_env 2147483645 (fresh True) [Arrives (replicate 1016 0)])"
proof -
  have "daemon_opensource good_env 2147483645 (fresh True) [Arrives (replicate 1017 0)] = Inl Source_Overrun"
    using open_length_check [of "fresh True" "[Arrives (replicate 1017 0)]" good_env 2147483645 Source_Overrun]
    by (simp add: fresh_def)
  moreover have "daemon_opensource good_env 2147483645 (fresh True) [Arrives (replicate 1016 0)] \<noteq> Inl e" for e
    using open_length_check [of "fresh True" "[Arrives (replicate 1016 0)]" good_env 2147483645 e]
    by (simp add: fresh_def)
  ultimately show ?thesis by (auto simp: isl_def)
qed

text \<open>
  A request that is refused for its state or its size is answered, but its payload stays in the
  stream, and the next round of the loop takes it for a message: an update of the filter without a
  capture, and an open request with a string that is too long.
\<close>

theorem refused_payload_is_read_as_message:
  assumes "segments_ok s" and "avail s = header_enc h @ payload" and "h_ver h = RPCAP_VERSION"
    and "select_result env = 1" and "\<not> data_closed env" and "length (source d) = 1024"
    and "h_type h = RPCAP_MSG_UPDATEFILTER_REQ \<and> fp d = None \<or>
      h_type h = RPCAP_MSG_OPEN_REQ \<and> 1016 \<le> h_plen h \<and> h_plen h < 2147483640"
  shows "\<exists>d' answer s'. daemon_round env d s = Inr (True, d', [Sent answer], s') \<and> avail s' = payload \<and>
    segments_ok s'"
proof -
  from header_received [OF assms(1,2)] obtain s1 where
    s1: "sock_recv 8 True s = (8, header_enc h, s1)" "avail s1 = payload" "segments_ok s1" by blast
  have c: "rpcap_checkmsg h requests s1 = (uint (h_type h), s1)"
    using assms(3,7) by (intro checkmsg_expected) (auto simp: requests_def)
  have "int (length (source d)) \<le> as_int (8 + h_plen h)" if "1016 \<le> h_plen h" "h_plen h < 2147483640"
  proof -
    have u: "unat (8 + h_plen h) = 8 + unat (h_plen h)" "1016 \<le> unat (h_plen h)" "unat (h_plen h) < 2147483640"
      using that by (simp_all add: word_le_nat_alt word_less_nat_alt unat_word_ariths)
    then have "as_int (8 + h_plen h) = int (8 + unat (h_plen h))" using sint_small [of "8 + h_plen h"] by simp
    then show ?thesis using u(2) assms(6) by linarith
  qed
  then show ?thesis
    using assms(4,5,7) s1 c
    by (auto simp: daemon_round_def Let_def header.dec_enc' daemon_command_def daemon_opensource_def)
qed

theorem refused_payload_is_read_as_message_witness:
  "\<exists>d' answer s'. daemon_round good_env (fresh True)
      [Arrives (header_enc (rpcap_createhdr RPCAP_MSG_UPDATEFILTER_REQ 0 8) @
        header_enc (rpcap_createhdr RPCAP_MSG_CLOSE 0 0))] = Inr (True, d', [Sent answer], s') \<and>
    avail s' = header_enc (rpcap_createhdr RPCAP_MSG_CLOSE 0 0)"
  using refused_payload_is_read_as_message [of "[Arrives (header_enc (rpcap_createhdr RPCAP_MSG_UPDATEFILTER_REQ 0 8) @
        header_enc (rpcap_createhdr RPCAP_MSG_CLOSE 0 0))]" "rpcap_createhdr RPCAP_MSG_UPDATEFILTER_REQ 0 8"
      "header_enc (rpcap_createhdr RPCAP_MSG_CLOSE 0 0)" good_env "fresh True"]
  by (auto simp: header.enc_ne rpcap_createhdr_def good_env_def fresh_def)

text \<open>
  A message of an unknown type is answered twice, first as not valid, then as one of a wrong
  version: the second answer is what the client finds when it waits for the answer to its next
  request.
\<close>

theorem unknown_message_two_answers:
  assumes "segments_ok s" and "avail s = header_enc h @ body @ rest" and "h_ver h = RPCAP_VERSION"
    and "h_type h \<notin> set requests" and "as_int (h_plen h) = int (length body)"
    and "select_result env = 1" and "\<not> data_closed env"
  shows "\<exists>s'. daemon_round env d s = Inr (True, d,
      [Sent (rpcap_senderror (ctext ''The RPCAP daemon received a message that is not valid'') 16),
       Sent (rpcap_senderror (ctext ''RPCAP version number mismatch'') 17)], s') \<and> avail s' = rest"
proof -
  from header_received [OF assms(1,2)] obtain s1 where
    s1: "sock_recv 8 True s = (8, header_enc h, s1)" "avail s1 = body @ rest" "segments_ok s1" by blast
  have "h_type h \<noteq> RPCAP_MSG_ERROR" using assms(4) by (auto simp: requests_def)
  from checkmsg_unexpected [OF s1(3) assms(5) s1(2), of requests] this assms(3,4) obtain s2 where
    "rpcap_checkmsg h requests s1 = (- 2, s2)" "avail s2 = rest" by auto
  then show ?thesis
    using s1(1) assms(6,7) by (simp add: daemon_round_def Let_def header.dec_enc' daemon_command_def)
qed

theorem unknown_message_two_answers_witness:
  "\<exists>e1 e2 s'. daemon_round good_env (fresh True)
      [Arrives (header_enc (rpcap_createhdr 99 0 2)), Arrives [1, 2]] = Inr (True, fresh True, [Sent e1, Sent e2], s')"
  using unknown_message_two_answers [of "[Arrives (header_enc (rpcap_createhdr 99 0 2)), Arrives [1, 2]]"
      "rpcap_createhdr 99 0 2" "[1, 2]" "[]" good_env "fresh True"]
  by (auto simp: header.enc_ne rpcap_createhdr_def good_env_def requests_def)

text \<open>
  The test of the result of \<open>pcap_stats\<close> at the end of a capture is inverted: after a capture
  whose statistics could be read, every request for statistics is answered with zeros.
\<close>

theorem statistics_lost_at_end:
  assumes "segments_ok s"
    and "avail s = header_enc (rpcap_createhdr RPCAP_MSG_ENDCAP_REQ 0 0) @
      header_enc (rpcap_createhdr RPCAP_MSG_STATS_REQ 0 0) @ rest"
    and "select_result env = 1" and "\<not> data_closed env" and "statistics env = Some a" and "fp d = Some c"
    and "select_result env' = 1" and "\<not> data_closed env'" and "Send_Fails \<notin> set (sends env')"
  shows "\<exists>d' ev s'. daemon_loop [env, env'] d s = Inr (False, d',
      ev @ [Sent (header_enc (rpcap_createhdr RPCAP_MSG_STATS_REPLY 0 16) @
        stats_enc \<lparr>ifrecv = 0, ifdrop = 0, krnldrop = 0, svrcapt = 0\<rparr>)], s') \<and> avail s' = rest"
proof -
  let ?e = "rpcap_createhdr RPCAP_MSG_ENDCAP_REQ 0 0" and ?q = "rpcap_createhdr RPCAP_MSG_STATS_REQ 0 0"
  let ?d = "d\<lparr>saved := \<lparr>sv_ifdrops = 0, sv_ifrecv = 0, sv_krnldrop = 0, sv_svrcapt = 0\<rparr>, fp := None\<rparr>"
  from header_received [OF assms(1,2)] obtain s1 where
    s1: "sock_recv 8 True s = (8, header_enc ?e, s1)" "avail s1 = header_enc ?q @ rest" "segments_ok s1" by blast
  from header_received [OF s1(3,2)] obtain s2 where
    s2: "sock_recv 8 True s1 = (8, header_enc ?q, s2)" "avail s2 = rest" by blast
  have c1: "rpcap_checkmsg ?e requests s1 = (10, s1)" and c2: "rpcap_checkmsg ?q requests s2 = (9, s2)"
    by (simp_all add: checkmsg_expected rpcap_createhdr_def requests_def)
  have r1: "\<exists>ev. daemon_round env d s = Inr (True, ?d, ev, s1)"
    using assms(3-6) s1(1) c1
    by (simp add: daemon_round_def Let_def header.dec_enc' daemon_command_def daemon_endcapture_def save_stats_def)
  have r2: "daemon_round env' ?d s1 = Inr (True, ?d, [Sent (header_enc (rpcap_createhdr RPCAP_MSG_STATS_REPLY 0 16) @
      stats_enc \<lparr>ifrecv = 0, ifdrop = 0, krnldrop = 0, svrcapt = 0\<rparr>)], s2)"
    using assms(7-9) s2(1) c2
    by (simp add: daemon_round_def Let_def header.dec_enc' daemon_command_def ask_stats_def daemon_getstatsnopcap_def
        sock_send_accepts skip_payload_def rpcap_createhdr_def)
  from r1 r2 s2(2) show ?thesis by auto
qed


theorem statistics_lost_at_end_witness:
  "\<exists>d' ev s'. daemon_loop [good_env, good_env]
      ((fresh True)\<lparr>fp := Some \<lparr>rmt_sockdata = True, rmt_samp = (0, 0), installed = []\<rparr>\<rparr>)
      [Arrives (header_enc (rpcap_createhdr RPCAP_MSG_ENDCAP_REQ 0 0)),
       Arrives (header_enc (rpcap_createhdr RPCAP_MSG_STATS_REQ 0 0))] = Inr (False, d',
      ev @ [Sent (header_enc (rpcap_createhdr RPCAP_MSG_STATS_REPLY 0 16) @
        stats_enc \<lparr>ifrecv = 0, ifdrop = 0, krnldrop = 0, svrcapt = 0\<rparr>)], s')"
  using statistics_lost_at_end [of "[Arrives (header_enc (rpcap_createhdr RPCAP_MSG_ENDCAP_REQ 0 0)),
       Arrives (header_enc (rpcap_createhdr RPCAP_MSG_STATS_REQ 0 0))]" "[]" good_env _
      "(fresh True)\<lparr>fp := Some \<lparr>rmt_sockdata = True, rmt_samp = (0, 0), installed = []\<rparr>\<rparr>" _ good_env]
  by (fastforce simp: header.enc_ne good_env_def)

end
