(* ===== verification/Rpcap_Session.thy ===== *)
theory Rpcap_Session
  imports Rpcap_Client Rpcapd_Properties
begin

text \<open>
  A session of a remote capture with both sides: what the client sends is what the daemon does, and
  what the daemon answers makes the calls of the client succeed.
\<close>

section \<open>Authentication\<close>

definition credentials :: "u8 list \<Rightarrow> u8 list \<Rightarrow> rmtauth option" where
  "credentials u p = Some \<lparr>ra_type = 1, username = Some u, password = Some p\<rparr>"

definition auth_body :: "u8 list \<Rightarrow> u8 list \<Rightarrow> u8 list" where
  "auth_body u p =
     auth_enc \<lparr>auth_type = 1, a_dummy = 0, slen1 = of_nat (length u), slen2 = of_nat (length p)\<rparr> @ u @ p"

definition auth_request :: "u8 list \<Rightarrow> u8 list \<Rightarrow> rpcap_header" where
  "auth_request u p = rpcap_createhdr RPCAP_MSG_AUTH_REQ 0 (8 + of_nat (length u + length p))"

lemma unat_u16: "n < 65536 \<Longrightarrow> unat (of_nat n :: u16) = n" "n < 65536 \<Longrightarrow> uint (of_nat n :: u16) = int n"
  by (simp_all add: unat_of_nat unsigned_of_nat take_bit_nat_eq_self uint_word_of_int_eq take_bit_int_eq_self)

lemma ucast_u16: "n < 65536 \<Longrightarrow> ucast (of_nat n :: u16) = (of_nat n :: u32)"
  using of_nat_unat [of "of_nat n :: u16"] unat_u16(1) [of n] by metis

lemma add_string_put:
  assumes "length buf + length b \<le> 64000" and "length free = 64000 - length buf"
    and "n = int (length buf)"
  shows "add_string (Some b) (buf @ free) n =
    Some (0, (buf @ b) @ drop (length b) free, int (length (buf @ b)))"
  using assms unat_u16(2) [of "length b"]
  by (simp add: add_string_def strlen_def sock_bufferize_def blit_def)

lemma auth_message_credentials:
  assumes "16 + length u + length p \<le> RPCAP_NETBUF_SIZE"
  shows "auth_message (credentials u p) = Some (Some (header_enc (auth_request u p) @ auth_body u p))"
proof -
  let ?a = "auth_enc \<lparr>auth_type = 1, a_dummy = 0, slen1 = of_nat (length u), slen2 = of_nat (length p)\<rparr>"
  let ?b = "header_enc (auth_request u p) @ ?a"
  have l: "length ?b = 16" by (simp add: header.length_enc auth.length_enc)
  have "ucast (of_nat (8 + length u + length p) :: u16) = (8 + of_nat (length u + length p) :: u32)"
    using ucast_u16 [of "8 + length u + length p"] assms by (simp add: ac_simps)
  moreover have "add_string (Some u) (?b @ replicate (64000 - 16) 0) 16 =
      Some (0, (?b @ u) @ drop (length u) (replicate (64000 - 16) 0), int (length (?b @ u)))"
    using l assms by (intro add_string_put) simp_all
  moreover have "add_string (Some p) ((?b @ u) @ drop (length u) (replicate (64000 - 16) 0)) (int (length (?b @ u))) =
      Some (0, ((?b @ u) @ p) @ drop (length p) (drop (length u) (replicate (64000 - 16) 0)), int (length ((?b @ u) @ p)))"
    using l assms by (intro add_string_put) simp_all
  ultimately show ?thesis
    by (simp add: auth_message_def credentials_def Let_def strlen_def auth_request_def auth_body_def ac_simps)
qed


lemma discard_rest_none [simp]: "discard_rest n n s = s"
  by (simp add: discard_rest_def)

lemma auth_accept_all:
  assumes "Send_Fails \<notin> set (auth_out env)"
  shows "auth_accept env n n s = (0, [Sent (header_enc (rpcap_createhdr RPCAP_MSG_AUTH_REPLY 0 0))], s)"
  using assms by (simp add: auth_accept_def sock_send_accepts)

lemma c_string_terminated: "0 \<notin> set u \<Longrightarrow> c_string (u @ [0]) = u"
  by (auto simp: c_string_def takeWhile_append)

lemma password_checked:
  assumes "segments_ok s" and "avail s = u @ p @ rest" and "16 + length u + length p \<le> RPCAP_NETBUF_SIZE"
    and "0 \<notin> set u" and "0 \<notin> set p" and "auth_mallocs env" and "Send_Fails \<notin> set (auth_out env)"
  shows "\<exists>s'. auth_password env
      \<lparr>auth_type = 1, a_dummy = 0, slen1 = of_nat (length u), slen2 = of_nat (length p)\<rparr>
      (8 + of_nat (length u + length p)) s =
      (if logon env u p
       then (0, [Logon u p True, Sent (header_enc (rpcap_createhdr RPCAP_MSG_AUTH_REPLY 0 0))], s')
       else (- 2, [Logon u p False], s')) \<and> avail s' = rest \<and> segments_ok s'"
proof -
  from sock_recv_all [OF assms(1), of "length u"] assms(2) obtain s1 where
    s1: "sock_recv (int (length u)) True s = (int (length u), u, s1)" "avail s1 = p @ rest" "segments_ok s1" by auto
  from sock_recv_all [OF s1(3), of "length p"] s1(2) obtain s2 where
    s2: "sock_recv (int (length p)) True s1 = (int (length p), p, s2)" "avail s2 = rest" "segments_ok s2" by auto
  have n: "unat (8 + of_nat (length u) :: u32) = 8 + length u"
    "unat (8 + of_nat (length u) + of_nat (length p) :: u32) = 8 + length u + length p"
    using assms(3) by (simp_all add: unat_word_ariths unat_of_nat)
  have ne: "8 + of_nat (length u) \<noteq> (- 1 :: u32)" "8 + of_nat (length u) + of_nat (length p) \<noteq> (- 1 :: u32)"
    using n assms(3) by (intro not_minus_one; simp)+
  have len: "unat (of_nat (length u) :: u16) = length u" "unat (of_nat (length p) :: u16) = length p"
    using assms(3) by (simp_all add: unat_u16)
  then show ?thesis
    using s1(1) s2 len ne c_string_terminated [OF assms(4)] c_string_terminated [OF assms(5)] assms(6,7)
    by (auto simp: auth_password_def Let_def auth_accept_all add.assoc)
qed

text \<open>The daemon logs on with exactly the name and the password the client was given.\<close>

lemma checkauth_credentials:
  assumes "segments_ok s" and "avail s = header_enc (auth_request u p) @ auth_body u p @ rest"
    and "16 + length u + length p \<le> RPCAP_NETBUF_SIZE" and "0 \<notin> set u" and "0 \<notin> set p"
    and "auth_mallocs env" and "Send_Fails \<notin> set (auth_out env)"
  shows "\<exists>s'. daemon_checkauth env null s =
      (if logon env u p
       then (0, [Logon u p True, Sent (header_enc (rpcap_createhdr RPCAP_MSG_AUTH_REPLY 0 0))], s')
       else (- 2, [Logon u p False], s')) \<and> avail s' = rest \<and> segments_ok s'"
proof -
  let ?a = "\<lparr>auth_type = 1, a_dummy = 0, slen1 = of_nat (length u), slen2 = of_nat (length p)\<rparr>"
  from header_received [OF assms(1,2)] obtain s1 where
    s1: "sock_recv 8 True s = (8, header_enc (auth_request u p), s1)" "avail s1 = auth_body u p @ rest" "segments_ok s1"
    by blast
  from auth.recv_structure [OF s1(3), of ?a "u @ p @ rest"] s1(2) obtain s2 where
    s2: "sock_recv 8 True s1 = (8, auth_enc ?a, s2)" "avail s2 = u @ p @ rest" "segments_ok s2"
    by (auto simp: auth_body_def)
  have "rpcap_checkmsg (auth_request u p) [RPCAP_MSG_AUTH_REQ, RPCAP_MSG_CLOSE] s1 = (8, s1)"
    by (simp add: checkmsg_expected auth_request_def rpcap_createhdr_def)
  then have "daemon_checkauth env null s = auth_password env ?a (8 + of_nat (length u + length p)) s2"
    using s1(1) s2(1)
    by (simp add: daemon_checkauth_def Let_def header.dec_enc' auth.dec_enc' auth_request_def rpcap_createhdr_def)
  then show ?thesis using password_checked [OF s2(3,2) assms(3-7)] by simp
qed

lemma auth_accepted:
  assumes "segments_ok s" and "avail s = header_enc (rpcap_createhdr RPCAP_MSG_AUTH_REPLY 0 0) @ rest"
  shows "\<exists>s'. auth_answer s = (0, s') \<and> avail s' = rest \<and> segments_ok s'"
proof -
  from header_received [OF assms] obtain s1 where
    "sock_recv 8 True s = (8, header_enc (rpcap_createhdr RPCAP_MSG_AUTH_REPLY 0 0), s1)"
    "avail s1 = rest" "segments_ok s1" by blast
  then show ?thesis
    by (simp add: auth_answer_def Let_def header.dec_enc' checkmsg_expected rpcap_createhdr_def)
qed

lemma sendauth_succeeds:
  assumes "16 + length u + length p \<le> RPCAP_NETBUF_SIZE" and "Send_Fails \<notin> set out" and "segments_ok s"
    and "avail s = header_enc (rpcap_createhdr RPCAP_MSG_AUTH_REPLY 0 0) @ rest"
  shows "\<exists>s'. rpcap_sendauth (credentials u p) out s =
      Some (0, header_enc (auth_request u p) @ auth_body u p, s') \<and> avail s' = rest \<and> segments_ok s'"
  using auth_accepted [OF assms(3,4)] auth_message_credentials [OF assms(1)] assms(2)
  by (auto simp: rpcap_sendauth_def sock_send_accepts)


section \<open>Opening the device\<close>

definition open_request :: "u8 list \<Rightarrow> rpcap_header" where
  "open_request iface = rpcap_createhdr RPCAP_MSG_OPEN_REQ 0 (of_nat (length iface))"

definition open_reply :: "device \<Rightarrow> u8 list" where
  "open_reply dev = header_enc (rpcap_createhdr RPCAP_MSG_OPEN_REPLY 0 8) @
     be32_bytes (linktype dev) @ be32_bytes (tzoff dev)"

lemma c_string_zero: "0 \<notin> set u \<Longrightarrow> c_string (u @ 0 # v) = u"
  by (auto simp: c_string_def takeWhile_append)

lemma PCAP_SRC_IF_no_zero: "0 \<notin> set PCAP_SRC_IF"
  by (simp add: PCAP_SRC_IF_def ctext_def)

lemma opensource_opens:
  assumes "segments_ok s" and "avail s = iface @ rest" and "length iface < 1016" and "0 \<notin> set iface"
    and "length (source d) = 1024" and "open_device env (PCAP_SRC_IF @ iface) 1500 1000 False = Some dev"
    and "Send_Fails \<notin> set (sends env)"
  shows "\<exists>src s'. daemon_opensource env (of_nat (length iface)) d s =
      Inr (d\<lparr>source := src\<rparr>, [Opened (PCAP_SRC_IF @ iface), Sent (open_reply dev), Closed], s') \<and>
    c_string src = PCAP_SRC_IF @ iface \<and> length src = 1024 \<and> avail s' = rest \<and> segments_ok s'"
proof -
  let ?n = "length iface"
  let ?src = "PCAP_SRC_IF @ iface @ 0 # drop (9 + ?n) (PCAP_SRC_IF @ [0] @ drop 9 (source d))"
  have u: "unat (8 + of_nat ?n :: u32) = 8 + ?n" "unat (of_nat ?n :: u32) = ?n"
    using assms(3) by (simp_all add: unat_word_ariths unat_of_nat)
  then have i: "as_int (8 + of_nat ?n) = int (8 + ?n)" "as_int (of_nat ?n) = int ?n"
    using assms(3) sint_small [of "8 + of_nat ?n"] sint_of_nat_small [of ?n] by simp_all
  from sock_recv_all [OF assms(1), of ?n] assms(2) obtain s' where
    r: "sock_recv (int ?n) True s = (int ?n, iface, s')" "avail s' = rest" "segments_ok s'" by auto
  have src: "c_string ?src = PCAP_SRC_IF @ iface" "length ?src = 1024"
    using c_string_zero [of "PCAP_SRC_IF @ iface"] PCAP_SRC_IF_no_zero assms(3,4,5) length_PCAP_SRC_IF by simp_all
  have b: "blit (PCAP_SRC_IF @ [0] @ drop 9 (source d)) 8 iface =
      Some (PCAP_SRC_IF @ iface @ drop (8 + ?n) (PCAP_SRC_IF @ [0] @ drop 9 (source d)))"
    using assms(3,5) length_PCAP_SRC_IF by (simp add: blit_def)
  have b2: "blit (PCAP_SRC_IF @ iface @ drop (8 + ?n) (PCAP_SRC_IF @ [0] @ drop 9 (source d))) (8 + ?n) [0] = Some ?src"
    using assms(3,5) length_PCAP_SRC_IF by (simp add: blit_def)
  have "\<not> int (length (source d)) \<le> as_int (8 + of_nat ?n)" using i assms(3,5) by simp
  then have "daemon_opensource env (of_nat ?n) d s =
      Inr (d\<lparr>source := ?src\<rparr>, [Opened (PCAP_SRC_IF @ iface), Sent (open_reply dev), Closed], s')"
    using r(1) b b2 src(1) assms(6,7) u unfolding daemon_opensource_def Let_def i(2)
    by (simp add: opensource_reply_def open_reply_def sock_send_accepts)
  then show ?thesis using src r(2,3) by blast
qed

lemma open_accepted:
  assumes "segments_ok s" and "avail s = open_reply dev @ rest"
  shows "\<exists>s'. opensource_answer stale s = (0, Some (linktype dev, tzoff dev), s') \<and> avail s' = rest \<and> segments_ok s'"
proof -
  let ?h = "rpcap_createhdr RPCAP_MSG_OPEN_REPLY 0 8" and ?b = "be32_bytes (linktype dev) @ be32_bytes (tzoff dev)"
  from header_received [OF assms(1), of ?h "?b @ rest"] assms(2) obtain s1 where
    s1: "sock_recv 8 True s = (8, header_enc ?h, s1)" "avail s1 = ?b @ rest" "segments_ok s1"
    by (auto simp: open_reply_def)
  from sock_recv_all [OF s1(3), of 8] s1(2) obtain s2 where
    s2: "sock_recv 8 True s1 = (8, ?b, s2)" "avail s2 = rest" "segments_ok s2" by auto
  have "rpcap_checkmsg ?h [RPCAP_MSG_OPEN_REPLY, RPCAP_MSG_ERROR] s1 = (131, s1)"
    by (simp add: checkmsg_expected rpcap_createhdr_def)
  then show ?thesis
    using s1(1) s2 by (simp add: opensource_answer_def Let_def header.dec_enc' rpcap_createhdr_def)
qed

lemma opensource_message_fits:
  "length iface < 1016 \<Longrightarrow> opensource_message iface = Some (header_enc (open_request iface) @ iface)"
  by (simp add: opensource_message_def put_def open_request_def header.length_enc)


section \<open>Starting the capture\<close>

definition start_header :: "bpf_insn list \<Rightarrow> rpcap_header" where
  "start_header prog = rpcap_createhdr RPCAP_MSG_STARTCAP_REQ 0 (20 + of_nat (8 * length prog))"

definition start_reply :: "device \<Rightarrow> bool \<Rightarrow> u16 \<Rightarrow> u8 list" where
  "start_reply dev serveropen port = header_enc (rpcap_createhdr 132 0 8) @
     startcapreply_enc (dev_bufsize dev, if serveropen then 0 else port, 0)"

lemma start_flags:
  "sc_flags (start_request p port) AND 1 \<noteq> 0 \<longleftrightarrow> promiscuous p"
  "serveropen_dp (start_request p port) active \<longleftrightarrow> udp p \<or> active_mode p \<or> active"
  by (cases "promiscuous p"; cases "udp p"; cases "active_mode p"; simp add: start_request_def serveropen_dp_def)+

lemma startcapture_message_fits:
  assumes "fcode p \<noteq> []" and "28 + 8 * length (fcode p) \<le> RPCAP_NETBUF_SIZE"
  shows "startcapture_message p port = Some (Some (header_enc (start_header (fcode p)) @
    startcapreq_enc (start_request p port) @ filter_body (fcode p)))"
proof -
  have l: "as_int (of_nat (8 * length (fcode p))) = 8 * int (length (fcode p))"
    using sint_of_nat_small [of "8 * length (fcode p)"] assms(2) by simp
  have "pcap_pack_bpffilter (fake_filter p) (fcode p) 20 =
      Some (Some (28 + 8 * int (length (fcode p)), filter_body (fcode p)))"
    using assms l length_filter_body [of "fcode p"]
    by (simp add: pcap_pack_bpffilter_def sock_bufferize_def Let_def filter_body_def filter_header_def)
  then show ?thesis
    using length_filter_body [of "fcode p"]
    by (simp add: startcapture_message_def Let_def header.length_enc startcapreq.length_enc start_header_def)
qed

definition starts :: "daemon_env \<Rightarrow> u8 list \<Rightarrow> bool \<Rightarrow> remote_handle \<Rightarrow> u16 \<Rightarrow> device \<Rightarrow> bool" where
  "starts env src active p port dev \<longleftrightarrow>
     open_device env src (snapshot p) (of_int (half (timeout p))) (promiscuous p) = Some dev \<and>
     connect_data (connection env) (serveropen_dp (start_request p port) active) \<and>
     accepted (connection env) \<and> thread_created (connection env) \<and> Send_Fails \<notin> set (sends env) \<and>
     mallocs (filters env) (8 * length (fcode p)) \<and> validates (filters env) (fcode p) \<and>
     setfilter_ok (filters env) (fcode p)"

lemma startcapture_starts:
  assumes "segments_ok s" and "avail s = startcapreq_enc (start_request p port) @ filter_body (fcode p) @ rest"
    and "28 + 8 * length (fcode p) \<le> RPCAP_NETBUF_SIZE" and "starts env (c_string (source d)) (isactive d) p port dev" and "0 \<in> set (source d)"
  shows "\<exists>s'. daemon_startcapture env (20 + of_nat (8 * length (fcode p))) d s =
      Inr (d\<lparr>fp := Some \<lparr>rmt_sockdata = True, rmt_samp = samp_param d, installed = fcode p\<rparr>, threaddata := True\<rparr>,
        [Opened (c_string (source d)), Installed (fcode p),
         Sent (start_reply dev (serveropen_dp (start_request p port) (isactive d)) (data_port (connection env))),
         Started], s') \<and>
    avail s' = rest \<and> segments_ok s'"
proof -
  let ?q = "start_request p port" and ?plen = "20 + of_nat (8 * length (fcode p)) :: u32"
  from startcapreq.recv_structure [OF assms(1,2)] obtain s1 where
    s1: "sock_recv 12 True s = (12, startcapreq_enc ?q, s1)" "avail s1 = filter_body (fcode p) @ rest" "segments_ok s1"
    by auto
  note st = assms(4) [unfolded starts_def]
  from unpackapply_program [OF s1(3,2), of "filters env" 12 ?plen] assms(3) st obtain s2 where
    s2: "daemon_unpackapplyfilter (filters env) 12 ?plen s1 = Inr (Some (fcode p), ?plen, ?plen, s2)"
    "avail s2 = rest" "segments_ok s2" by auto
  have "open_device env (c_string (source d)) (snaplen ?q) (read_timeout ?q) (sc_flags ?q AND 1 \<noteq> 0) = Some dev"
    using st start_flags(1) by (simp add: start_request_def)
  then show ?thesis
    using s1(1) s2 st assms(5)
    by (simp add: daemon_startcapture_def Let_def startcapreq.dec_enc' start_thread_def sock_send_accepts start_reply_def)
qed

text \<open>The client's half, for a capture that may see its own packets.\<close>

lemma start_accepted:
  assumes "segments_ok s" and "avail s = start_reply dev so port @ rest" and "\<not> nocapture_rpcap p"
    and "udp p \<or> data_connected env" and "buffer_allocated env"
  shows "\<exists>s'. start_answer p env s = Some (0, Some (snapshot p + 16), [], s') \<and> avail s' = rest \<and> segments_ok s'"
proof -
  let ?h = "rpcap_createhdr 132 0 8" and ?b = "startcapreply_enc (dev_bufsize dev, if so then 0 else port, 0)"
  have l: "length ?b = 8" by (simp add: startcapreply_enc_def)
  from header_received [OF assms(1), of ?h "?b @ rest"] assms(2) obtain s1 where
    s1: "sock_recv 8 True s = (8, header_enc ?h, s1)" "avail s1 = ?b @ rest" "segments_ok s1"
    by (auto simp: start_reply_def)
  from sock_recv_all [OF s1(3), of 8] s1(2) l obtain s2 where
    s2: "sock_recv 8 True s1 = (8, ?b, s2)" "avail s2 = rest" "segments_ok s2" by auto
  have "rpcap_checkmsg ?h [132, RPCAP_MSG_ERROR] s1 = (132, s1)"
    by (simp add: checkmsg_expected rpcap_createhdr_def)
  then show ?thesis
    using s1(1) s2 assms(3-5)
    by (auto simp: start_answer_def Let_def header.dec_enc' rpcap_createhdr_def start_finish_def)
qed


section \<open>The session\<close>

definition answering :: "daemon_env \<Rightarrow> bool" where
  "answering env \<longleftrightarrow> select_result env = 1 \<and> \<not> data_closed env"

lemma round_command:
  assumes "segments_ok s" and "avail s = header_enc h @ rest" and "answering env"
    and "h_ver h = RPCAP_VERSION" and "h_type h \<in> set requests" and "h_type h \<noteq> RPCAP_MSG_ERROR"
  shows "\<exists>s1. daemon_round env d s = daemon_command env h (uint (h_type h)) d s1 \<and> avail s1 = rest \<and> segments_ok s1"
proof -
  from header_received [OF assms(1,2)] obtain s1 where
    s1: "sock_recv 8 True s = (8, header_enc h, s1)" "avail s1 = rest" "segments_ok s1" by blast
  have "rpcap_checkmsg h requests s1 = (uint (h_type h), s1)"
    by (rule checkmsg_expected [OF assms(4-6)])
  then show ?thesis
    using s1 assms(3) by (auto simp: daemon_round_def Let_def header.dec_enc' answering_def)
qed

lemma round_open:
  assumes "segments_ok s" and "avail s = header_enc (open_request iface) @ iface @ rest" and "answering env"
    and "length iface < 1016" and "0 \<notin> set iface" and "length (source d) = 1024"
    and "open_device env (PCAP_SRC_IF @ iface) 1500 1000 False = Some dev" and "Send_Fails \<notin> set (sends env)"
  shows "\<exists>src s'. daemon_round env d s =
      Inr (True, d\<lparr>source := src\<rparr>, [Opened (PCAP_SRC_IF @ iface), Sent (open_reply dev), Closed], s') \<and>
    c_string src = PCAP_SRC_IF @ iface \<and> 0 \<in> set src \<and> avail s' = rest \<and> segments_ok s'"
proof -
  from round_command [OF assms(1,2,3), of d] obtain s1 where
    s1: "daemon_round env d s = daemon_command env (open_request iface) 3 d s1" "avail s1 = iface @ rest" "segments_ok s1"
    by (auto simp: open_request_def rpcap_createhdr_def requests_def)
  have "0 \<in> set src" if "c_string src = PCAP_SRC_IF @ iface" "length src = 1024" for src
  proof (rule ccontr)
    assume "0 \<notin> set src"
    then have "c_string src = src" by (auto simp: c_string_def takeWhile_eq_all_conv)
    with that assms(4) length_PCAP_SRC_IF show False by (auto dest: arg_cong [of _ _ length])
  qed
  with opensource_opens [OF s1(3,2) assms(4-8)] s1(1) show ?thesis
    by (force simp: daemon_command_def open_request_def rpcap_createhdr_def)
qed

lemma round_start:
  assumes "segments_ok s"
    and "avail s = header_enc (start_header (fcode p)) @ startcapreq_enc (start_request p port) @ filter_body (fcode p) @ rest"
    and "answering env" and "28 + 8 * length (fcode p) \<le> RPCAP_NETBUF_SIZE"
    and "starts env (c_string (source d)) (isactive d) p port dev" and "0 \<in> set (source d)"
  shows "\<exists>s'. daemon_round env d s = Inr (True,
      d\<lparr>fp := Some \<lparr>rmt_sockdata = True, rmt_samp = samp_param d, installed = fcode p\<rparr>, threaddata := True\<rparr>,
      [Opened (c_string (source d)), Installed (fcode p),
       Sent (start_reply dev (serveropen_dp (start_request p port) (isactive d)) (data_port (connection env))),
       Started], s') \<and> avail s' = rest \<and> segments_ok s'"
proof -
  from round_command [OF assms(1,2,3), of d] obtain s1 where
    s1: "daemon_round env d s = daemon_command env (start_header (fcode p)) 4 d s1"
    "avail s1 = startcapreq_enc (start_request p port) @ filter_body (fcode p) @ rest" "segments_ok s1"
    by (auto simp: start_header_def rpcap_createhdr_def requests_def)
  from startcapture_starts [OF s1(3,2) assms(4-6)] s1(1) show ?thesis
    by (auto simp: daemon_command_def start_header_def rpcap_createhdr_def)
qed

definition sent_bytes :: "daemon_event list \<Rightarrow> u8 list" where
  "sent_bytes ev = concat (map (\<lambda>e. case e of Sent b \<Rightarrow> b | _ \<Rightarrow> []) ev)"

lemma serve_session:
  assumes "segments_ok s"
    and "avail s = header_enc (auth_request u pw) @ auth_body u pw @ header_enc (open_request iface) @ iface @
      header_enc (start_header (fcode p)) @ startcapreq_enc (start_request p port) @ filter_body (fcode p) @ rest"
    and "16 + length u + length pw \<le> RPCAP_NETBUF_SIZE" and "0 \<notin> set u" and "0 \<notin> set pw"
    and "auth_mallocs (authentication e1)" and "Send_Fails \<notin> set (auth_out (authentication e1))"
    and "logon (authentication e1) u pw" and "answering e1" and "answering e2" and "answering e3"
    and "length iface < 1016" and "0 \<notin> set iface" and "length (source d) = 1024"
    and "open_device e2 (PCAP_SRC_IF @ iface) 1500 1000 False = Some dev" and "Send_Fails \<notin> set (sends e2)"
    and "28 + 8 * length (fcode p) \<le> RPCAP_NETBUF_SIZE"
    and "starts e3 (PCAP_SRC_IF @ iface) (isactive d) p port dev'"
  shows "\<exists>d' s'. daemon_serviceloop [e1, e2, e3] d s = Inr (False, d',
      [Logon u pw True, Sent (header_enc (rpcap_createhdr RPCAP_MSG_AUTH_REPLY 0 0)),
       Opened (PCAP_SRC_IF @ iface), Sent (open_reply dev), Closed,
       Opened (PCAP_SRC_IF @ iface), Installed (fcode p),
       Sent (start_reply dev' (serveropen_dp (start_request p port) (isactive d)) (data_port (connection e3))),
       Started], s') \<and>
    fp d' = Some \<lparr>rmt_sockdata = True, rmt_samp = samp_param d, installed = fcode p\<rparr> \<and> avail s' = rest"
proof -
  from checkauth_credentials [OF assms(1-7), of "null_auth d"] assms(8) obtain s1 where
    s1: "daemon_checkauth (authentication e1) (null_auth d) s =
      (0, [Logon u pw True, Sent (header_enc (rpcap_createhdr RPCAP_MSG_AUTH_REPLY 0 0))], s1)"
    "avail s1 = header_enc (open_request iface) @ iface @ header_enc (start_header (fcode p)) @
      startcapreq_enc (start_request p port) @ filter_body (fcode p) @ rest" "segments_ok s1" by auto
  from round_open [OF s1(3,2) assms(10,12-16)] obtain src s2 where
    s2: "daemon_round e2 d s1 =
      Inr (True, d\<lparr>source := src\<rparr>, [Opened (PCAP_SRC_IF @ iface), Sent (open_reply dev), Closed], s2)"
    "c_string src = PCAP_SRC_IF @ iface" "0 \<in> set src" "avail s2 = header_enc (start_header (fcode p)) @
      startcapreq_enc (start_request p port) @ filter_body (fcode p) @ rest" "segments_ok s2" by blast
  from round_start [OF s2(5,4) assms(11,17), of "d\<lparr>source := src\<rparr>" dev'] assms(18) s2(2,3) obtain s3 where
    "daemon_round e3 (d\<lparr>source := src\<rparr>) s2 = Inr (True, d\<lparr>source := src,
        fp := Some \<lparr>rmt_sockdata = True, rmt_samp = samp_param d, installed = fcode p\<rparr>, threaddata := True\<rparr>,
      [Opened (PCAP_SRC_IF @ iface), Installed (fcode p),
       Sent (start_reply dev' (serveropen_dp (start_request p port) (isactive d)) (data_port (connection e3))),
       Started], s3)" "avail s3 = rest" by auto
  then show ?thesis
    using s1(1) s2(1) assms(9) by (simp add: answering_def)
qed


section \<open>Properties\<close>

text \<open>
  The name and the password a client is given arrive at the account database of the daemon
  unchanged, whatever the segments: the daemon logs on with exactly these, reads exactly the
  message, and its answer to a successful log-on makes the client's call succeed.
\<close>

theorem auth_roundtrip:
  assumes "16 + length u + length p \<le> RPCAP_NETBUF_SIZE" and "0 \<notin> set u" and "0 \<notin> set p"
    and "auth_mallocs env" and "Send_Fails \<notin> set (auth_out env)" and "Send_Fails \<notin> set out"
  shows "\<exists>msg reply.
    (\<forall>s rest. segments_ok s \<longrightarrow> avail s = msg @ rest \<longrightarrow>
      (\<exists>s'. daemon_checkauth env null s =
          (if logon env u p then (0, [Logon u p True, Sent reply], s') else (- 2, [Logon u p False], s')) \<and>
        avail s' = rest)) \<and>
    (\<forall>s rest. segments_ok s \<longrightarrow> avail s = reply @ rest \<longrightarrow>
      (\<exists>s'. rpcap_sendauth (credentials u p) out s = Some (0, msg, s') \<and> avail s' = rest))"
proof -
  let ?msg = "header_enc (auth_request u p) @ auth_body u p"
    and ?reply = "header_enc (rpcap_createhdr RPCAP_MSG_AUTH_REPLY 0 0)"
  have "\<exists>s'. daemon_checkauth env null s =
      (if logon env u p then (0, [Logon u p True, Sent ?reply], s') else (- 2, [Logon u p False], s')) \<and> avail s' = rest"
    if "segments_ok s" "avail s = ?msg @ rest" for s rest
    using checkauth_credentials [OF that(1) _ assms(1-5), of rest null] that(2) by auto
  moreover have "\<exists>s'. rpcap_sendauth (credentials u p) out s = Some (0, ?msg, s') \<and> avail s' = rest"
    if "segments_ok s" "avail s = ?reply @ rest" for s rest
    using sendauth_succeeds [OF assms(1,6) that] by auto
  ultimately show ?thesis by blast
qed

theorem auth_roundtrip_witness:
  "\<exists>msg reply s1 s2. daemon_checkauth (authentication good_env) False [Arrives (msg @ [0])] =
      (0, [Logon [97] [98] True, Sent reply], s1) \<and>
    rpcap_sendauth (credentials [97] [98]) [Accepts 1] [Arrives (reply @ [0])] = Some (0, msg, s2)"
proof -
  obtain msg reply where
    d: "\<forall>s rest. segments_ok s \<longrightarrow> avail s = msg @ rest \<longrightarrow>
      (\<exists>s'. daemon_checkauth (authentication good_env) False s =
          (if logon (authentication good_env) [97] [98] then (0, [Logon [97] [98] True, Sent reply], s')
           else (- 2, [Logon [97] [98] False], s')) \<and> avail s' = rest)" and
    c: "\<forall>s rest. segments_ok s \<longrightarrow> avail s = reply @ rest \<longrightarrow>
      (\<exists>s'. rpcap_sendauth (credentials [97] [98]) [Accepts 1] s = Some (0, msg, s') \<and> avail s' = rest)"
    using auth_roundtrip [of "[97]" "[98]" "authentication good_env" "[Accepts 1]" False]
    by (auto simp: good_env_def)
  have "logon (authentication good_env) [97] [98]" by (simp add: good_env_def)
  then show ?thesis
    using d [rule_format, of "[Arrives (msg @ [0])]" "[0]"] c [rule_format, of "[Arrives (reply @ [0])]" "[0]"]
    by auto
qed

text \<open>Everything the daemon does but sending its answers, in order.\<close>

definition act :: "daemon_event \<Rightarrow> bool" where
  "act e = (case e of Sent b \<Rightarrow> False | _ \<Rightarrow> True)"

lemma act_simps [simp]:
  "\<not> act (Sent b)" "act (Logon u p ok)" "act (Opened b)" "act (Installed f)" "act Closed" "act Started"
  by (simp_all add: act_def)

text \<open>
  C22: A whole session, for a user name, a password and a device name without zero bytes that fit
  their messages, a program that is not empty, no sampling, and an environment in which nothing
  fails (sends, allocations, the logon, the device, the data connection). The client opens a
  device and starts the capture; the daemon, served with the bytes the client sends, does these
  things in this order and no others: it logs on with the client's user name and password, opens
  the device the client names to look at it and closes it, opens it for the capture with the
  client's snapshot length, time-out and mode, installs exactly the client's filter and starts
  the capture. Its answers make both calls of the client succeed and tell it the link type of
  the device. Both directions may be cut into segments at will.
\<close>

theorem remote_session:
  assumes "16 + length u + length pw \<le> RPCAP_NETBUF_SIZE" and "0 \<notin> set u" and "0 \<notin> set pw"
    and "length iface < 1016" and "0 \<notin> set iface" and "fcode p \<noteq> []"
    and "28 + 8 * length (fcode p) \<le> RPCAP_NETBUF_SIZE" and "fst (samp p) = 0" and "\<not> nocapture_rpcap p"
    and "udp p \<or> data_connected env" and "buffer_allocated env" and "before_request env"
    and "Send_Fails \<notin> set out1" and "Send_Fails \<notin> set out2" and "Send_Fails \<notin> set (fst (snd (start_sends env)))"
    and "answering e1" and "answering e2" and "answering e3" and "length (source d) = 1024"
    and "auth_mallocs (authentication e1)" and "Send_Fails \<notin> set (auth_out (authentication e1))"
    and "logon (authentication e1) u pw"
    and "open_device e2 (PCAP_SRC_IF @ iface) 1500 1000 False = Some dev" and "Send_Fails \<notin> set (sends e2)"
    and "starts e3 (PCAP_SRC_IF @ iface) (isactive d) p (local_port env) dev'"
  shows "\<exists>m1 m2 ev replies.
    (\<forall>s rest. segments_ok s \<longrightarrow> avail s = m1 @ m2 @ rest \<longrightarrow>
      (\<exists>d' s'. daemon_serviceloop [e1, e2, e3] d s = Inr (False, d', ev, s') \<and> avail s' = rest \<and>
        fp d' = Some \<lparr>rmt_sockdata = True, rmt_samp = samp_param d, installed = fcode p\<rparr>)) \<and>
    filter act ev = [Logon u pw True, Opened (PCAP_SRC_IF @ iface), Closed, Opened (PCAP_SRC_IF @ iface),
      Installed (fcode p), Started] \<and>
    sent_bytes ev = replies \<and>
    (\<forall>t rest. segments_ok t \<longrightarrow> avail t = replies @ rest \<longrightarrow>
      (\<exists>t1 t2. pcap_opensource_remote False (credentials u pw) iface stale out1 out2 t =
          Some (0, Some (linktype dev, tzoff dev), m1, t1) \<and>
        pcap_startcapture_remote p env t1 = Some (0, Some (snapshot p + 16), m2, t2) \<and> avail t2 = rest))"
proof -
  let ?a = "header_enc (rpcap_createhdr RPCAP_MSG_AUTH_REPLY 0 0)"
  let ?so = "serveropen_dp (start_request p (local_port env)) (isactive d)"
  let ?c = "start_reply dev' ?so (data_port (connection e3))"
  let ?m1 = "header_enc (auth_request u pw) @ auth_body u pw @ header_enc (open_request iface) @ iface"
  let ?m2 = "header_enc (start_header (fcode p)) @ startcapreq_enc (start_request p (local_port env)) @ filter_body (fcode p)"
  let ?ev = "[Logon u pw True, Sent ?a, Opened (PCAP_SRC_IF @ iface), Sent (open_reply dev), Closed,
    Opened (PCAP_SRC_IF @ iface), Installed (fcode p), Sent ?c, Started]"
  have "\<exists>d' s'. daemon_serviceloop [e1, e2, e3] d s = Inr (False, d', ?ev, s') \<and> avail s' = rest \<and>
      fp d' = Some \<lparr>rmt_sockdata = True, rmt_samp = samp_param d, installed = fcode p\<rparr>"
    if "segments_ok s" "avail s = ?m1 @ ?m2 @ rest" for s rest
  proof -
    have "avail s = header_enc (auth_request u pw) @ auth_body u pw @ header_enc (open_request iface) @ iface @
        header_enc (start_header (fcode p)) @ startcapreq_enc (start_request p (local_port env)) @
        filter_body (fcode p) @ rest"
      using that(2) by simp
    from serve_session [OF that(1) this assms(1-3,20-22,16-18,4,5,19,23,24,7,25)] show ?thesis by blast
  qed
  moreover have "\<exists>t1 t2. pcap_opensource_remote False (credentials u pw) iface stale out1 out2 t =
        Some (0, Some (linktype dev, tzoff dev), ?m1, t1) \<and>
      pcap_startcapture_remote p env t1 = Some (0, Some (snapshot p + 16), ?m2, t2) \<and> avail t2 = rest"
    if t: "segments_ok t" "avail t = sent_bytes ?ev @ rest" for t rest
  proof -
    have "avail t = ?a @ open_reply dev @ ?c @ rest" using t(2) by (simp add: sent_bytes_def)
    from sendauth_succeeds [OF assms(1,13) t(1) this] obtain t0 where
      t0: "rpcap_sendauth (credentials u pw) out1 t = Some (0, header_enc (auth_request u pw) @ auth_body u pw, t0)"
      "avail t0 = open_reply dev @ ?c @ rest" "segments_ok t0" by blast
    from open_accepted [OF t0(3,2)] obtain t1 where
      t1: "opensource_answer stale t0 = (0, Some (linktype dev, tzoff dev), t1)" "avail t1 = ?c @ rest" "segments_ok t1"
      by blast
    have "pcap_opensource_remote False (credentials u pw) iface stale out1 out2 t =
        Some (0, Some (linktype dev, tzoff dev), ?m1, t1)"
      using t0(1) t1(1) opensource_message_fits [OF assms(4)] assms(14)
      by (simp add: pcap_opensource_remote_def sock_send_accepts)
    moreover from start_accepted [OF t1(3,2) assms(9-11)] obtain t2 where
      "start_answer p env t1 = Some (0, Some (snapshot p + 16), [], t2)" "avail t2 = rest" by blast
    then have "pcap_startcapture_remote p env t1 = Some (0, Some (snapshot p + 16), ?m2, t2)" "avail t2 = rest"
      using startcapture_message_fits [OF assms(6,7)] assms(8,12,15)
      by (simp_all add: pcap_startcapture_remote_def pcap_setsampling_remote_def sock_send_accepts)
    ultimately show ?thesis by blast
  qed
  moreover have "filter act ?ev =
      [Logon u pw True, Opened (PCAP_SRC_IF @ iface), Closed, Opened (PCAP_SRC_IF @ iface), Installed (fcode p), Started]" by simp
  ultimately show ?thesis by blast
qed


definition sample_handle :: remote_handle where
  "sample_handle = \<lparr>snapshot = 65535, timeout = 1000, promiscuous = True, udp = False, active_mode = False,
     nocapture_rpcap = False, samp = (0, 0), fcode = ip_filter, fake_filter = None, capstarted = False\<rparr>"

definition sample_start :: start_env where
  "sample_start = \<lparr>before_request = True, local_port = 0, data_connected = True, rcvbuf = 8192, rcvbuf_ok = \<lambda>n. True,
     buffer_allocated = True, own_filter = None, start_sends = ([], [], []), stale_plen = 0\<rparr>"

lemma good_env_starts:
  "starts good_env src False sample_handle 0 \<lparr>linktype = 1, tzoff = 0, dev_bufsize = 1000\<rparr>"
proof -
  have "bpf_validate ip_filter" by simp
  then show ?thesis
    by (simp add: starts_def good_env_def sample_handle_def sample_env_def connect_data_def serveropen_dp_def
        start_request_def ip_filter_def)
qed

theorem remote_session_witness:
  "\<exists>m1 m2 ev replies d' s' t1 t2.
    daemon_serviceloop [good_env, good_env, good_env] (fresh False) [Arrives (m1 @ m2 @ [0])] = Inr (False, d', ev, s') \<and>
    filter act ev = [Logon [97] [98] True, Opened (PCAP_SRC_IF @ [101, 116, 104]), Closed, Opened (PCAP_SRC_IF @ [101, 116, 104]),
      Installed ip_filter, Started] \<and>
    pcap_opensource_remote False (credentials [97] [98]) [101, 116, 104] 0 [] [] [Arrives (replies @ [0])] =
      Some (0, Some (1, 0), m1, t1) \<and>
    pcap_startcapture_remote sample_handle sample_start t1 = Some (0, Some 65551, m2, t2)"
proof -
  let ?dev = "\<lparr>linktype = 1, tzoff = 0, dev_bufsize = 1000\<rparr> :: device"
  have c: "fcode sample_handle = ip_filter" "snapshot sample_handle + 16 = 65551" "local_port sample_start = 0"
    "isactive (fresh False) = False" "linktype ?dev = 1" "tzoff ?dev = 0"
    by (simp_all add: sample_handle_def sample_start_def fresh_def)
  have "\<exists>m1 m2 ev replies.
    (\<forall>s rest. segments_ok s \<longrightarrow> avail s = m1 @ m2 @ rest \<longrightarrow>
      (\<exists>d' s'. daemon_serviceloop [good_env, good_env, good_env] (fresh False) s = Inr (False, d', ev, s') \<and> avail s' = rest \<and>
        fp d' = Some \<lparr>rmt_sockdata = True, rmt_samp = samp_param (fresh False), installed = fcode sample_handle\<rparr>)) \<and>
    filter act ev = [Logon [97] [98] True, Opened (PCAP_SRC_IF @ [101, 116, 104]), Closed, Opened (PCAP_SRC_IF @ [101, 116, 104]),
      Installed (fcode sample_handle), Started] \<and>
    sent_bytes ev = replies \<and>
    (\<forall>t rest. segments_ok t \<longrightarrow> avail t = replies @ rest \<longrightarrow>
      (\<exists>t1 t2. pcap_opensource_remote False (credentials [97] [98]) [101, 116, 104] 0 [] [] t =
          Some (0, Some (linktype ?dev, tzoff ?dev), m1, t1) \<and>
        pcap_startcapture_remote sample_handle sample_start t1 = Some (0, Some (snapshot sample_handle + 16), m2, t2) \<and>
        avail t2 = rest))"
  proof (rule remote_session [where u = "[97]" and pw = "[98]" and iface = "[101, 116, 104]" and p = sample_handle and
        env = sample_start and d = "fresh False" and dev = ?dev and dev' = ?dev])
    show "starts good_env (PCAP_SRC_IF @ [101, 116, 104]) (isactive (fresh False)) sample_handle
        (local_port sample_start) ?dev"
      unfolding c by (rule good_env_starts)
  qed (simp_all add: sample_handle_def sample_start_def good_env_def fresh_def answering_def ip_filter_def)
  then show ?thesis
    unfolding c
  proof (elim exE conjE, goal_cases)
    case (1 m1 m2 ev replies)
    show ?case
      using 1(1) [rule_format, of "[Arrives (m1 @ m2 @ [0])]" "[0]"]
        1(4) [rule_format, of "[Arrives (replies @ [0])]" "[0]"] 1(2)
      by (simp del: daemon_serviceloop.simps) blast
  qed
qed

end
