(* ===== verification/Source_String.thy ===== *)
theory Source_String
  imports Prelude
begin

text \<open>
  The strings that name a source of packets (\<open>pcap_createsrcstr\<close> and \<open>pcap_parsesrcstr\<close> of
  \<open>wpcap/libpcap/pcap-new.c\<close>), with the functions of the C library they use. A string is the list
  of its characters before the terminating 0.
\<close>

section \<open>The C library\<close>

text \<open>Copying into a buffer of \<open>cap\<close> bytes; None is a write behind it.\<close>

abbreviation PCAP_BUF_SIZE :: nat where "PCAP_BUF_SIZE \<equiv> 1024"

definition strncat :: "nat \<Rightarrow> string \<Rightarrow> string \<Rightarrow> string option" where
  "strncat cap s x =
     (let t = s @ take PCAP_BUF_SIZE x in if length t + 1 > cap then None else Some t)"

definition strncpy :: "nat \<Rightarrow> string \<Rightarrow> string option" where
  "strncpy cap x = (if cap < PCAP_BUF_SIZE then None else Some (take PCAP_BUF_SIZE x))"

fun strstr :: "string \<Rightarrow> string \<Rightarrow> string option" where
  "strstr [] p = (if p = [] then Some [] else None)"
| "strstr (c # cs) p = (if take (length p) (c # cs) = p then Some (c # cs) else strstr cs p)"

text \<open>
  The conversions of \<open>sscanf\<close> the code uses: a character that has to follow, a set of characters of
  which at least one has to follow, and a word. The result are the strings that are assigned.
\<close>

datatype directive = Lit char | Chars "char \<Rightarrow> bool" | Str

definition isspace :: "char \<Rightarrow> bool" where
  "isspace c \<longleftrightarrow> c = CHR '' '' \<or> (let n = of_char c :: nat in 9 \<le> n \<and> n \<le> 13)"

fun sscanf :: "directive list \<Rightarrow> string \<Rightarrow> string list" where
  "sscanf [] s = []"
| "sscanf (Lit c # ds) s = (case s of [] \<Rightarrow> [] | x # xs \<Rightarrow> if x = c then sscanf ds xs else [])"
| "sscanf (Chars P # ds) s =
     (if takeWhile P s = [] then [] else takeWhile P s # sscanf ds (dropWhile P s))"
| "sscanf (Str # ds) s =
     (let s1 = dropWhile isspace s; t = takeWhile (\<lambda>c. \<not> isspace c) s1 in
      if t = [] then [] else t # sscanf ds (dropWhile (\<lambda>c. \<not> isspace c) s1))"

section \<open>Creating a source string\<close>

abbreviation PCAP_SRC_FILE :: int where "PCAP_SRC_FILE \<equiv> 2"
abbreviation PCAP_SRC_IFLOCAL :: int where "PCAP_SRC_IFLOCAL \<equiv> 3"
abbreviation PCAP_SRC_IFREMOTE :: int where "PCAP_SRC_IFREMOTE \<equiv> 4"
abbreviation PCAP_SRC_FILE_STRING :: string where "PCAP_SRC_FILE_STRING \<equiv> ''file://''"
abbreviation PCAP_SRC_IF_STRING :: string where "PCAP_SRC_IF_STRING \<equiv> ''rpcap://''"

text \<open>A pointer that is not NULL to a string that is not empty.\<close>

definition given :: "string option \<Rightarrow> bool" where
  "given s \<longleftrightarrow> s \<noteq> None \<and> s \<noteq> Some []"

definition host_letters :: string where
  "host_letters = ''aAbBcCdDeEfFgGhHjJkKlLmMnNoOpPqQrRsStTuUvVwWxXyYzZ''"

definition numeric :: "string \<Rightarrow> bool" where
  "numeric host \<longleftrightarrow> (\<forall>c \<in> set host. c \<notin> set host_letters)"

fun cat :: "nat \<Rightarrow> string list \<Rightarrow> string \<Rightarrow> string option" where
  "cat cap [] s = Some s"
| "cat cap (x # xs) s = Option.bind (strncat cap s x) (cat cap xs)"

text \<open>
  The parts that are appended one by one. None is a write behind the \<open>cap\<close> bytes of the caller's
  buffer, Some None the result -1.
\<close>

definition pcap_createsrcstr ::
    "nat \<Rightarrow> int \<Rightarrow> string option \<Rightarrow> string option \<Rightarrow> string option \<Rightarrow> string option option" where
  "pcap_createsrcstr cap t host port name =
     (if t = PCAP_SRC_FILE
      then Option.bind (strncpy cap PCAP_SRC_FILE_STRING) (\<lambda>s.
        if given name then map_option Some (cat cap [the name] s) else Some None)
      else if t = PCAP_SRC_IFREMOTE
      then Option.bind (strncpy cap PCAP_SRC_IF_STRING) (\<lambda>s.
        if given host
        then map_option Some (cat cap
          ((if numeric (the host) then [''['', the host, '']''] else [the host]) @
           (if given port then ['':'', the port] else []) @ [''/''] @
           (if given name then [the name] else [])) s)
        else Some None)
      else if t = PCAP_SRC_IFLOCAL
      then Option.bind (strncpy cap PCAP_SRC_IF_STRING) (\<lambda>s.
        map_option Some (cat cap (if given name then [the name] else []) s))
      else Some None)"

section \<open>Parsing a source string\<close>

record parsed =
  p_type :: int
  p_host :: string
  p_port :: string
  p_name :: string

datatype parse_error = Parse_Failed | Parse_Overrun

definition token :: "string list \<Rightarrow> nat \<Rightarrow> string" where
  "token ts i = (if i < length ts then ts ! i else [])"

definition is_num :: "char \<Rightarrow> bool" where
  "is_num c \<longleftrightarrow> c \<in> set ''1234567890:.''"

text \<open>A host in square brackets.\<close>

definition parse_bracket :: "string \<Rightarrow> parsed" where
  "parse_bracket ptr =
     (let ts = sscanf [Lit CHR ''['', Chars is_num, Lit CHR '']'', Lit CHR '':'', Chars (\<lambda>c. c \<noteq> CHR ''/''),
        Lit CHR ''/'', Str] ptr in
      if length ts = 1
      then (let ts2 = sscanf [Lit CHR ''['', Chars is_num, Lit CHR '']'', Lit CHR ''/'', Str] ptr in
        \<lparr>p_type = PCAP_SRC_IFREMOTE, p_host = (if ts2 = [] then token ts 0 else token ts2 0), p_port = [],
         p_name = token ts2 1\<rparr>)
      else \<lparr>p_type = PCAP_SRC_IFREMOTE, p_host = token ts 0, p_port = token ts 1, p_name = token ts 2\<rparr>)"

text \<open>A host name, or a local interface.\<close>

definition parse_name :: "string \<Rightarrow> parsed" where
  "parse_name ptr =
     (let ts = sscanf [Chars (\<lambda>c. c \<noteq> CHR ''/'' \<and> c \<noteq> CHR '':''), Lit CHR '':'', Chars (\<lambda>c. c \<noteq> CHR ''/''),
        Lit CHR ''/'', Str] ptr in
      if length ts = 1
      then (if CHR ''/'' \<in> set ptr
        then (let ts2 = sscanf [Chars (\<lambda>c. c \<noteq> CHR ''/''), Lit CHR ''/'', Str] ptr in
          \<lparr>p_type = PCAP_SRC_IFREMOTE, p_host = (if ts2 = [] then token ts 0 else token ts2 0), p_port = [],
           p_name = token ts2 1\<rparr>)
        else \<lparr>p_type = PCAP_SRC_IFLOCAL, p_host = [], p_port = [], p_name = ptr\<rparr>)
      else \<lparr>p_type = PCAP_SRC_IFREMOTE, p_host = token ts 0, p_port = token ts 1, p_name = token ts 2\<rparr>)"

definition in_bounds :: "parsed \<Rightarrow> bool" where
  "in_bounds p \<longleftrightarrow>
     length (p_host p) < PCAP_BUF_SIZE \<and> length (p_port p) < PCAP_BUF_SIZE \<and> length (p_name p) < PCAP_BUF_SIZE"

text \<open>
  \<open>want_name\<close> is whether the caller passes a buffer for the name. \<open>Parse_Overrun\<close> is a string that
  does not fit its buffer of PCAP_BUF_SIZE bytes with the terminating 0.
\<close>

definition pcap_parsesrcstr :: "bool \<Rightarrow> string \<Rightarrow> parse_error + parsed" where
  "pcap_parsesrcstr want_name source =
     (case strstr source PCAP_SRC_IF_STRING of
        Some s \<Rightarrow>
          if length PCAP_SRC_IF_STRING = length source
          then Inr \<lparr>p_type = PCAP_SRC_IFLOCAL, p_host = [], p_port = [], p_name = []\<rparr>
          else (let ptr = drop (length PCAP_SRC_IF_STRING) s;
                    p = (if CHR ''['' \<in> set ptr then parse_bracket ptr else parse_name ptr) in
            if \<not> in_bounds p then Inl Parse_Overrun
            else if want_name \<and> p_name p = [] then Inl Parse_Failed
            else Inr (if want_name then p else p\<lparr>p_name := []\<rparr>))
      | None \<Rightarrow>
          (case strstr source PCAP_SRC_FILE_STRING of
             Some s \<Rightarrow>
               (let ptr = drop (length PCAP_SRC_FILE_STRING) s in
                if ptr = [] then Inl Parse_Failed
                else if want_name \<and> length ptr \<ge> PCAP_BUF_SIZE then Inl Parse_Overrun
                else Inr \<lparr>p_type = PCAP_SRC_FILE, p_host = [], p_port = [], p_name = (if want_name then ptr else [])\<rparr>)
           | None \<Rightarrow>
               if source = [] then Inl Parse_Failed
               else if want_name \<and> length source \<ge> PCAP_BUF_SIZE then Inl Parse_Overrun
               else Inr \<lparr>p_type = PCAP_SRC_IFLOCAL, p_host = [], p_port = [],
                 p_name = (if want_name then source else [])\<rparr>))"

end
