(* ===== verification/Rpcap_Findall.thy ===== *)
theory Rpcap_Findall
  imports Rpcap_Devices Source_String
begin

text \<open>
  The client half of the list of remote interfaces: what \<open>pcap_findalldevs_ex\<close>
  (\<open>wpcap/libpcap/pcap-new.c\<close>) does on the control connection once it is authenticated. The bytes of
  the local structures before they are filled are an argument, since a failing call of \<open>sock_recv\<close>
  leaves them in place.
\<close>

section \<open>The state\<close>

abbreviation RPCAP_MSG_FINDALLIF_REPLY :: u8 where "RPCAP_MSG_FINDALLIF_REPLY \<equiv> 130"

text \<open>An entry of the list that is built; names and descriptions are strings of the C program.\<close>

record client_if =
  ci_name :: "string option"
  ci_desc :: "string option"
  ci_flags :: u32
  ci_addrs :: "pcap_addr list"

definition blank_if :: client_if where
  "blank_if = \<lparr>ci_name = None, ci_desc = None, ci_flags = 0, ci_addrs = []\<rparr>"

record findall =
  alldevs :: "client_if list"
  nread :: u32
  tmpstring :: "u8 list"
  ctrl :: in_stream

text \<open>
  How the loops are left: with the jump to the end of the function, by returning at once, with a
  write behind a buffer, with a list that refers to freed memory, or with a write through a pointer
  that has no value.
\<close>

datatype stop = Goto_Error | Return_At_Once | Overruns | Dangling | Indeterminate

type_synonym 'a step = "(stop \<times> findall) + 'a"

definition andthen :: "'a step \<Rightarrow> ('a \<Rightarrow> 'b step) \<Rightarrow> 'b step" where
  "andthen x f = (case x of Inl e \<Rightarrow> Inl e | Inr a \<Rightarrow> f a)"

definition last_if :: "(client_if \<Rightarrow> client_if) \<Rightarrow> findall \<Rightarrow> findall" where
  "last_if f st = st\<lparr>alldevs := butlast (alldevs st) @ [f (last (alldevs st))]\<rparr>"

text \<open>
  \<open>nread += sock_recv(...)\<close>, compared with -1: the bytes of the buffer afterwards, which held
  \<open>old\<close>.
\<close>

definition receive :: "nat \<Rightarrow> u8 list \<Rightarrow> findall \<Rightarrow> (u8 list \<times> findall) step" where
  "receive n old st =
     (case sock_recv (int n) True (ctrl st) of
        (r, d, s) \<Rightarrow>
          (let st1 = st\<lparr>nread := nread st + of_int r, ctrl := s\<rparr> in
           if nread st1 = - 1 then Inl (Goto_Error, st1) else Inr (d @ drop (length d) old, st1)))"

section \<open>The addresses of an interface\<close>

definition address_null :: "pcap_addr \<Rightarrow> bool" where
  "address_null a \<longleftrightarrow> pa_addr a = None \<and> pa_netmask a = None \<and> pa_broadaddr a = None \<and> pa_dstaddr a = None"

text \<open>\<open>rpcap_deseraddr\<close> on the i-th of the four structures.\<close>

definition part :: "u8 list \<Rightarrow> nat \<Rightarrow> u8 list" where
  "part b i = take 128 (drop (128 * i) b)"

text \<open>
  What \<open>dev->addresses\<close> and \<open>naddr\<close> say: no address yet, one that was freed again (\<open>naddr\<close> is 0
  and the next one takes its place), or one. The pointer \<open>addr\<close> through which a second one would be
  appended is declared inside the block of the loop and has no value there: \<open>addr->next= malloc(...)\<close>
  writes through it. An error leaves the interface without the address here, where the code leaves
  the structure half filled.
\<close>

datatype chain = No_Address | Freed_Address | One_Address

definition read_address :: "(nat \<Rightarrow> bool) \<Rightarrow> u8 list \<Rightarrow> chain \<times> findall \<Rightarrow> (chain \<times> findall) step" where
  "read_address alloc b cs =
     (case cs of (c, st) \<Rightarrow>
        if be16_of b \<noteq> AF_INET then Inr (c, st)
        else if c = One_Address then Inl (Indeterminate, st)
        else if \<not> alloc 20 then Inl (Goto_Error, st)
        else (case (rpcap_deseraddr alloc (part b 0), rpcap_deseraddr alloc (part b 1),
                    rpcap_deseraddr alloc (part b 2), rpcap_deseraddr alloc (part b 3)) of
            (Some a, Some n, Some br, Some d) \<Rightarrow>
              (let p = \<lparr>pa_addr = a, pa_netmask = n, pa_broadaddr = br, pa_dstaddr = d\<rparr> in
               if address_null p then Inr (Freed_Address, st)
               else Inr (One_Address, last_if (\<lambda>i. i\<lparr>ci_addrs := [p]\<rparr>) st))
          | _ \<Rightarrow> Inl (Goto_Error, st)))"

fun read_addresses :: "(nat \<Rightarrow> bool) \<Rightarrow> (nat \<Rightarrow> u8 list) \<Rightarrow> nat \<Rightarrow> chain \<times> findall \<Rightarrow> findall step" where
  "read_addresses alloc stack 0 (c, st) = (if c = Freed_Address then Inl (Dangling, st) else Inr st)"
| "read_addresses alloc stack (Suc n) (c, st) =
     andthen (receive 512 (stack n) st) (\<lambda>(b, st1).
     andthen (read_address alloc b (c, st1)) (read_addresses alloc stack n))"

section \<open>The name and the description\<close>

definition to_chars :: "u8 list \<Rightarrow> string" where
  "to_chars b = map (\<lambda>c. char_of (unat c)) (c_string b)"

text \<open>\<open>sock_recv\<close> into the temporary string, and the 0 behind it.\<close>

definition receive_text :: "nat \<Rightarrow> findall \<Rightarrow> findall step" where
  "receive_text n st =
     (if n \<ge> PCAP_BUF_SIZE + 1 then Inl (Goto_Error, st)
      else andthen (receive n (tmpstring st) st) (\<lambda>(b, st1). Inr (st1\<lparr>tmpstring := b[n := 0]\<rparr>)))"

definition read_name ::
    "(nat \<Rightarrow> bool) \<Rightarrow> string \<Rightarrow> string \<Rightarrow> rpcap_findalldevs_if \<Rightarrow> findall \<Rightarrow> findall step" where
  "read_name alloc host port f st =
     (if namelen f = 0 then Inr st
      else andthen (receive_text (unat (namelen f)) st) (\<lambda>st1.
        case pcap_createsrcstr (PCAP_BUF_SIZE + 1) PCAP_SRC_IFREMOTE (Some host) (Some port)
          (Some (to_chars (tmpstring st1))) of
          None \<Rightarrow> Inl (Overruns, st1)
        | Some None \<Rightarrow> Inl (Return_At_Once, st1)
        | Some (Some s) \<Rightarrow>
            if \<not> alloc (length s + 1) then Inl (Goto_Error, st1)
            else Inr (last_if (\<lambda>i. i\<lparr>ci_name := Some s\<rparr>) st1)))"

text \<open>The size of the call of snprintf cuts the text.\<close>

definition description :: "string \<Rightarrow> string \<Rightarrow> string" where
  "description d host = take PCAP_BUF_SIZE (''Network adapter '' @ CHR 0x27 # d @ CHR 0x27 # '' on remote node '' @ host)"

definition read_desc :: "(nat \<Rightarrow> bool) \<Rightarrow> string \<Rightarrow> rpcap_findalldevs_if \<Rightarrow> findall \<Rightarrow> findall step" where
  "read_desc alloc host f st =
     (if desclen f = 0 then Inr st
      else andthen (receive_text (unat (desclen f)) st) (\<lambda>st1.
        let s = description (to_chars (tmpstring st1)) host in
        if \<not> alloc (length s + 1) then Inl (Goto_Error, st1)
        else Inr (last_if (\<lambda>i. i\<lparr>ci_desc := Some s\<rparr>) st1)))"

section \<open>The interfaces\<close>

text \<open>\<open>stack\<close> and \<open>stack2\<close> are what the structures held, per remaining interface and address.\<close>

record find_env =
  alloc :: "nat \<Rightarrow> bool"
  stack :: "nat \<Rightarrow> u8 list"
  stack2 :: "nat \<Rightarrow> nat \<Rightarrow> u8 list"
  fe_host :: string
  fe_port :: string

definition read_if :: "find_env \<Rightarrow> nat \<Rightarrow> findall \<Rightarrow> findall step" where
  "read_if env n st =
     andthen (receive 12 (stack env n) st) (\<lambda>(b, st1).
       let f = findif_dec b in
       if \<not> alloc env 20 then Inl (Goto_Error, st1)
       else andthen (read_name (alloc env) (fe_host env) (fe_port env) f
           (st1\<lparr>alldevs := alldevs st1 @ [blank_if]\<rparr>)) (\<lambda>st2.
         andthen (read_desc (alloc env) (fe_host env) f st2) (\<lambda>st3.
         read_addresses (alloc env) (stack2 env n) (unat (naddr f))
           (No_Address, last_if (\<lambda>i. i\<lparr>ci_flags := fa_flags f\<rparr>) st3))))"

fun read_ifs :: "find_env \<Rightarrow> nat \<Rightarrow> findall \<Rightarrow> findall step" where
  "read_ifs env 0 st = Inr st"
| "read_ifs env (Suc n) st = andthen (read_if env n st) (read_ifs env n)"

section \<open>The exchange\<close>

text \<open>
  The result with what is left of the connection: whether it is closed, and whether the use of the
  socket library is given back. None is a write behind a buffer or a use of freed memory.
\<close>

record find_result =
  fr_ret :: int
  fr_devs :: "client_if list"
  fr_sent :: "u8 list"
  fr_ctrl :: in_stream
  fr_closed :: bool
  fr_cleaned :: bool

text \<open>The label \<open>error\<close>; the result of \<open>sock_discard\<close> is compared with 1, which it never is.\<close>

definition find_error :: "bool \<Rightarrow> u32 \<Rightarrow> u8 list \<Rightarrow> findall \<Rightarrow> find_result" where
  "find_error active plen sent st =
     \<lparr>fr_ret = - 1, fr_devs = alldevs st, fr_sent = sent, fr_ctrl = discard_rest (nread st) plen (ctrl st),
      fr_closed = (\<not> active), fr_cleaned = True\<rparr>"

definition find_finish :: "bool \<Rightarrow> bool \<Rightarrow> u32 \<Rightarrow> u8 list \<Rightarrow> findall \<Rightarrow> find_result" where
  "find_finish active closes plen sent st =
     (let s = discard_rest (nread st) plen (ctrl st); failed = (\<not> active \<and> \<not> closes) in
      \<lparr>fr_ret = (if failed then - 1 else 0), fr_devs = alldevs st, fr_sent = sent, fr_ctrl = s,
       fr_closed = (\<not> active), fr_cleaned = (\<not> failed)\<rparr>)"

definition find_stop :: "bool \<Rightarrow> u32 \<Rightarrow> u8 list \<Rightarrow> stop \<times> findall \<Rightarrow> find_result option" where
  "find_stop active plen sent e =
     (case e of
        (Goto_Error, st) \<Rightarrow> Some (find_error active plen sent st)
      | (Return_At_Once, st) \<Rightarrow> Some \<lparr>fr_ret = - 1, fr_devs = alldevs st, fr_sent = sent, fr_ctrl = ctrl st,
          fr_closed = False, fr_cleaned = False\<rparr>
      | _ \<Rightarrow> None)"

definition pcap_findalldevs_remote ::
    "find_env \<Rightarrow> bool \<Rightarrow> bool \<Rightarrow> send_event list \<Rightarrow> u8 list \<Rightarrow> in_stream \<Rightarrow> find_result option" where
  "pcap_findalldevs_remote env active closes out tmp s =
     (let req = header_enc (rpcap_createhdr RPCAP_MSG_FINDALLIF_REQ 0 0);
          st0 = \<lparr>alldevs = [], nread = 0, tmpstring = tmp, ctrl = s\<rparr> in
      case sock_send req out of
        (r0, sent) \<Rightarrow>
          if r0 = - 1 then find_stop active 0 sent (Goto_Error, st0)
          else (case sock_recv 8 True s of
              (r, d, s1) \<Rightarrow>
                (let h = header_dec (d @ drop (length d) req) in
                 if r = - 1 then find_stop active (h_plen h) sent (Goto_Error, st0\<lparr>ctrl := s1\<rparr>)
                 else (case rpcap_checkmsg h [RPCAP_MSG_FINDALLIF_REPLY, RPCAP_MSG_ERROR] s1 of
                     (c, s2) \<Rightarrow>
                       if c \<noteq> uint RPCAP_MSG_FINDALLIF_REPLY
                       then Some \<lparr>fr_ret = - 1, fr_devs = [], fr_sent = sent, fr_ctrl = s2,
                         fr_closed = (\<not> active), fr_cleaned = False\<rparr>
                       else (case read_ifs env (unat (h_value h)) (st0\<lparr>ctrl := s2\<rparr>) of
                           Inl e \<Rightarrow> find_stop active (h_plen h) sent e
                         | Inr st \<Rightarrow> Some (find_finish active closes (h_plen h) sent st))))))"

end
