(* ===== verification/Source_Properties.thy ===== *)
theory Source_Properties
  imports Source_String
begin

text \<open>
  Creating and parsing a source string are inverse for the hosts the parser knows; hosts it does not
  know are misread; a name received from another host can overrun the buffer.
\<close>

section \<open>The buffer\<close>

lemma cat_length:
  assumes "length s + 1 \<le> cap" and "\<forall>x \<in> set xs. length x \<le> PCAP_BUF_SIZE"
  shows "cat cap xs s = (if length (s @ concat xs) + 1 \<le> cap then Some (s @ concat xs) else None)"
  using assms by (induction xs arbitrary: s) (auto simp: strncat_def Let_def)

declare cat.simps [simp del]

definition remote_string :: "string \<Rightarrow> string option \<Rightarrow> string option \<Rightarrow> string" where
  "remote_string host port name =
     (if numeric host then ''['' @ host @ '']'' else host) @
     (if given port then '':'' @ the port else []) @ ''/'' @ (if given name then the name else [])"

lemma create_remote:
  assumes "PCAP_BUF_SIZE \<le> cap" and "host \<noteq> []" and "length host \<le> PCAP_BUF_SIZE"
    and "given port \<Longrightarrow> length (the port) \<le> PCAP_BUF_SIZE" and "given name \<Longrightarrow> length (the name) \<le> PCAP_BUF_SIZE"
  shows "pcap_createsrcstr cap PCAP_SRC_IFREMOTE (Some host) port name =
    (if 8 + length (remote_string host port name) + 1 \<le> cap
     then Some (Some (PCAP_SRC_IF_STRING @ remote_string host port name)) else None)"
proof -
  have g: "given (Some host)" using assms(2) by (simp add: given_def)
  let ?xs = "(if numeric host then [''['', host, '']''] else [host]) @
    (if given port then ['':'', the port] else []) @ [''/''] @ (if given name then [the name] else [])"
  have l: "\<forall>x \<in> set ?xs. length x \<le> PCAP_BUF_SIZE" using assms(3-5) by auto
  have c: "concat ?xs = remote_string host port name" by (simp add: remote_string_def)
  have "pcap_createsrcstr cap PCAP_SRC_IFREMOTE (Some host) port name =
      map_option Some (cat cap ?xs PCAP_SRC_IF_STRING)"
    using assms(1) g by (simp add: pcap_createsrcstr_def strncpy_def)
  also have "\<dots> = map_option Some (if length (PCAP_SRC_IF_STRING @ concat ?xs) + 1 \<le> cap
      then Some (PCAP_SRC_IF_STRING @ concat ?xs) else None)"
    using assms(1) by (subst cat_length [OF _ l]) simp_all
  finally show ?thesis unfolding c by simp
qed

section \<open>Scanning\<close>

lemma sscanf_chars:
  assumes "x \<noteq> []" and "\<forall>c \<in> set x. P c" and "\<not> P y"
  shows "sscanf (Chars P # ds) (x @ y # r) = x # sscanf ds (y # r)"
  using assms by (simp add: takeWhile_append dropWhile_append)

lemma sscanf_word:
  assumes "x \<noteq> []" and "\<forall>c \<in> set x. \<not> isspace c"
  shows "sscanf [Str] x = [x]"
proof -
  have "dropWhile isspace x = x" using assms by (cases x) auto
  moreover have "takeWhile (\<lambda>c. \<not> isspace c) x = x" using assms(2) by (simp add: takeWhile_eq_all_conv)
  ultimately show ?thesis using assms(1) by (simp only: sscanf.simps Let_def) simp
qed

lemma sscanf_stop:
  assumes "x \<noteq> []" and "\<forall>c \<in> set x. P c"
  shows "sscanf (Chars P # ds) x = x # sscanf ds []"
proof -
  have "takeWhile P x = x" "dropWhile P x = []" using assms(2) by (simp_all add: takeWhile_eq_all_conv dropWhile_eq_Nil_conv)
  then show ?thesis using assms(1) by (simp only: sscanf.simps) simp
qed

lemma sscanf_empty [simp]: "sscanf (Chars P # ds) [] = []" "sscanf (Lit c # ds) [] = []"
  by simp_all

lemmas scan = sscanf_chars sscanf_word sscanf_stop

declare sscanf.simps(3,4) [simp del]

lemma strstr_prefix: "p \<noteq> [] \<Longrightarrow> strstr (p @ s) p = Some (p @ s)"
  by (cases p) auto

lemma strstr_file: "strstr (PCAP_SRC_FILE_STRING @ s) PCAP_SRC_IF_STRING = strstr s PCAP_SRC_IF_STRING"
  by simp

section \<open>Hosts, ports and names that survive\<close>

text \<open>A word without white space, and without the characters \<open>bad\<close>.\<close>

definition word_without :: "string \<Rightarrow> string \<Rightarrow> bool" where
  "word_without bad s \<longleftrightarrow> s \<noteq> [] \<and> length s < PCAP_BUF_SIZE \<and> (\<forall>c \<in> set s. c \<notin> set bad)"

definition plain_name :: "string \<Rightarrow> string \<Rightarrow> bool" where
  "plain_name bad s \<longleftrightarrow> word_without bad s \<and> (\<forall>c \<in> set s. \<not> isspace c)"

definition plain_remote :: "string \<Rightarrow> string option \<Rightarrow> string \<Rightarrow> bool" where
  "plain_remote host port name \<longleftrightarrow>
     (if numeric host
      then word_without [] host \<and> (\<forall>c \<in> set host. is_num c) \<and>
        (\<forall>p. port = Some p \<and> p \<noteq> [] \<longrightarrow> word_without ''/'' p) \<and> plain_name [] name
      else word_without ''/:['' host \<and> (\<forall>p. port = Some p \<and> p \<noteq> [] \<longrightarrow> word_without ''/['' p) \<and>
        plain_name ''['' name)"

lemma word_without_notin: "word_without bad s \<Longrightarrow> c \<in> set bad \<Longrightarrow> c \<notin> set s"
  by (auto simp: word_without_def)

lemma plain_notin: "plain_name bad s \<Longrightarrow> c \<in> set bad \<Longrightarrow> c \<notin> set s"
  by (auto simp: plain_name_def word_without_def)

lemma is_num_bracket [simp]: "\<not> is_num CHR '']''"
  by (simp add: is_num_def)

lemma parse_bracket_plain:
  assumes "word_without [] host" and "\<forall>c \<in> set host. is_num c" and "given port \<Longrightarrow> word_without ''/'' (the port)"
    and "plain_name [] name"
  shows "parse_bracket (''['' @ host @ '']'' @ (if given port then '':'' @ the port else []) @ ''/'' @ name) =
    \<lparr>p_type = PCAP_SRC_IFREMOTE, p_host = host, p_port = (if given port then the port else []), p_name = name\<rparr>"
  using assms by (auto simp: parse_bracket_def word_without_def plain_name_def scan token_def)

lemma parse_name_plain:
  assumes "word_without ''/:['' host" and "given port \<Longrightarrow> word_without ''/['' (the port)" and "plain_name ''['' name"
  shows "parse_name (host @ (if given port then '':'' @ the port else []) @ ''/'' @ name) =
    \<lparr>p_type = PCAP_SRC_IFREMOTE, p_host = host, p_port = (if given port then the port else []), p_name = name\<rparr>"
  using assms by (auto simp: parse_name_def word_without_def plain_name_def scan token_def)

lemma given_Some: "given port \<Longrightarrow> \<exists>p. port = Some p \<and> p \<noteq> []"
  by (auto simp: given_def)

lemma parse_rpcap:
  assumes "r \<noteq> []"
  shows "pcap_parsesrcstr want_name (PCAP_SRC_IF_STRING @ r) =
    (let p = (if CHR ''['' \<in> set r then parse_bracket r else parse_name r) in
     if \<not> in_bounds p then Inl Parse_Overrun
     else if want_name \<and> p_name p = [] then Inl Parse_Failed
     else Inr (if want_name then p else p\<lparr>p_name := []\<rparr>))"
proof -
  have "strstr (PCAP_SRC_IF_STRING @ r) PCAP_SRC_IF_STRING = Some (PCAP_SRC_IF_STRING @ r)"
    by (rule strstr_prefix) simp
  moreover have "length PCAP_SRC_IF_STRING \<noteq> length (PCAP_SRC_IF_STRING @ r)" using assms by simp
  moreover have "drop (length PCAP_SRC_IF_STRING) (PCAP_SRC_IF_STRING @ r) = r" by simp
  ultimately show ?thesis unfolding pcap_parsesrcstr_def by (simp only: option.case if_False Let_def)
qed

lemma remote_parse:
  assumes "plain_remote host port name"
  shows "pcap_parsesrcstr True (PCAP_SRC_IF_STRING @ remote_string host port (Some name)) =
    Inr \<lparr>p_type = PCAP_SRC_IFREMOTE, p_host = host, p_port = (if given port then the port else []), p_name = name\<rparr>"
proof -
  let ?r = "remote_string host port (Some name)"
  let ?p = "\<lparr>p_type = PCAP_SRC_IFREMOTE, p_host = host, p_port = (if given port then the port else []), p_name = name\<rparr>"
  have n: "given (Some name)" "name \<noteq> []" using assms by (auto simp: plain_remote_def plain_name_def word_without_def given_def split: if_splits)
  have p: "(if CHR ''['' \<in> set ?r then parse_bracket ?r else parse_name ?r) = ?p"
  proof (cases "numeric host")
    case True
    have w: "word_without [] host" "\<forall>c \<in> set host. is_num c" "plain_name [] name"
      "given port \<Longrightarrow> word_without ''/'' (the port)"
      using assms True given_Some [of port] by (auto simp: plain_remote_def)
    have "parse_bracket ?r = ?p"
      using parse_bracket_plain [OF w(1,2,4,3)] True n(1) by (simp add: remote_string_def)
    then show ?thesis using True by (simp add: remote_string_def)
  next
    case False
    have w: "word_without ''/:['' host" "plain_name ''['' name" "given port \<Longrightarrow> word_without ''/['' (the port)"
      using assms False given_Some [of port] by (auto simp: plain_remote_def)
    have "CHR ''['' \<notin> set host" "CHR ''['' \<notin> set name" using w(1,2) by (simp_all add: word_without_notin plain_notin)
    moreover have "CHR ''['' \<notin> set (the port)" if "given port" using w(3) [OF that] by (simp add: word_without_notin)
    ultimately have "CHR ''['' \<notin> set ?r" using False by (simp add: remote_string_def)
    moreover have "parse_name ?r = ?p"
      using parse_name_plain [OF w(1,3,2)] False n(1) by (simp add: remote_string_def)
    ultimately show ?thesis by simp
  qed
  have "length host < PCAP_BUF_SIZE" "length name < PCAP_BUF_SIZE"
    using assms by (simp_all add: plain_remote_def plain_name_def word_without_def split: if_splits)
  moreover have "length (the port) < PCAP_BUF_SIZE" if "given port"
    using assms given_Some [OF that] by (auto simp: plain_remote_def word_without_def split: if_splits)
  ultimately have b: "in_bounds ?p" by (simp add: in_bounds_def)
  have "?r \<noteq> []" by (simp add: remote_string_def)
  then show ?thesis unfolding parse_rpcap [OF \<open>?r \<noteq> []\<close>] p using b n(2) by (simp add: Let_def)
qed

lemma local_parse:
  assumes "word_without ''/:['' name"
  shows "pcap_parsesrcstr True (PCAP_SRC_IF_STRING @ name) =
    Inr \<lparr>p_type = PCAP_SRC_IFLOCAL, p_host = [], p_port = [], p_name = name\<rparr>"
proof -
  have "CHR ''['' \<notin> set name" "CHR ''/'' \<notin> set name" "name \<noteq> []" "length name < PCAP_BUF_SIZE"
    using assms by (auto simp: word_without_def)
  moreover have "sscanf [Chars (\<lambda>c. c \<noteq> CHR ''/'' \<and> c \<noteq> CHR '':''), Lit CHR '':'', Chars (\<lambda>c. c \<noteq> CHR ''/''),
      Lit CHR ''/'', Str] name = [name]"
    using assms by (auto simp: word_without_def scan)
  ultimately show ?thesis by (simp add: parse_rpcap parse_name_def in_bounds_def del: append_Cons)
qed

lemma file_parse:
  assumes "name \<noteq> []" and "length name < PCAP_BUF_SIZE" and "strstr name PCAP_SRC_IF_STRING = None"
  shows "pcap_parsesrcstr True (PCAP_SRC_FILE_STRING @ name) =
    Inr \<lparr>p_type = PCAP_SRC_FILE, p_host = [], p_port = [], p_name = name\<rparr>"
proof -
  have "strstr (PCAP_SRC_FILE_STRING @ name) PCAP_SRC_IF_STRING = None" using assms(3) strstr_file by metis
  then show ?thesis using assms(1,2) strstr_prefix [of PCAP_SRC_FILE_STRING name]
    by (simp add: pcap_parsesrcstr_def del: strstr.simps)
qed

lemma create_local:
  assumes "PCAP_BUF_SIZE \<le> cap" and "length name \<le> PCAP_BUF_SIZE" and "name \<noteq> []"
  shows "pcap_createsrcstr cap PCAP_SRC_IFLOCAL host port (Some name) =
    (if 8 + length name + 1 \<le> cap then Some (Some (PCAP_SRC_IF_STRING @ name)) else None)"
  using assms by (simp add: pcap_createsrcstr_def strncpy_def given_def cat_length)

lemma create_file:
  assumes "PCAP_BUF_SIZE \<le> cap" and "length name \<le> PCAP_BUF_SIZE" and "name \<noteq> []"
  shows "pcap_createsrcstr cap PCAP_SRC_FILE host port (Some name) =
    (if 7 + length name + 1 \<le> cap then Some (Some (PCAP_SRC_FILE_STRING @ name)) else None)"
  using assms by (simp add: pcap_createsrcstr_def strncpy_def given_def cat_length)

lemma remote_string_length:
  "length (remote_string host port name) = (if numeric host then 2 else 0) + length host +
    (if given port then 1 + length (the port) else 0) + 1 + (if given name then length (the name) else 0)"
  by (simp add: remote_string_def)

section \<open>The properties\<close>

text \<open>C32: A source string that fits its buffer is parsed to the parts it was created from: for another
  host (\<open>plain_remote\<close>) when the host is made of digits, colons and dots, with a port without slashes and a
  name without white space, or is a name with a letter and without slashes, colons and brackets, with a port
  without slashes and brackets and a name without white space and brackets; for a local interface when its
  name has no slash, colon or bracket; for a file when its name does not contain the prefix of interfaces. It is not
  so for every host: one that is an address of IPv6 with hexadecimal letters is parsed to another host and
  port (\<open>ipv6_host_misread\<close>).\<close>

theorem srcstr_roundtrip:
  assumes "PCAP_BUF_SIZE \<le> cap" and "8 + length (remote_string host port (Some name)) + 1 \<le> cap"
  shows "(plain_remote host port name \<longrightarrow>
      (\<exists>s. pcap_createsrcstr cap PCAP_SRC_IFREMOTE (Some host) port (Some name) = Some (Some s) \<and>
        pcap_parsesrcstr True s = Inr \<lparr>p_type = PCAP_SRC_IFREMOTE, p_host = host,
          p_port = (if given port then the port else []), p_name = name\<rparr>)) \<and>
    (word_without ''/:['' name \<longrightarrow>
      (\<exists>s. pcap_createsrcstr cap PCAP_SRC_IFLOCAL (Some host) port (Some name) = Some (Some s) \<and>
        pcap_parsesrcstr True s = Inr \<lparr>p_type = PCAP_SRC_IFLOCAL, p_host = [], p_port = [], p_name = name\<rparr>)) \<and>
    (word_without [] name \<and> strstr name PCAP_SRC_IF_STRING = None \<longrightarrow>
      (\<exists>s. pcap_createsrcstr cap PCAP_SRC_FILE (Some host) port (Some name) = Some (Some s) \<and>
        pcap_parsesrcstr True s = Inr \<lparr>p_type = PCAP_SRC_FILE, p_host = [], p_port = [], p_name = name\<rparr>))"
    (is "(_ \<longrightarrow> ?remote) \<and> (_ \<longrightarrow> ?loc) \<and> (_ \<longrightarrow> ?file)")
proof (intro conjI impI)
  show ?remote if p: "plain_remote host port name"
  proof -
    have "host \<noteq> []" "length host \<le> PCAP_BUF_SIZE" "length name \<le> PCAP_BUF_SIZE"
      "given port \<Longrightarrow> length (the port) \<le> PCAP_BUF_SIZE"
      using p given_Some [of port] by (auto simp: plain_remote_def plain_name_def word_without_def split: if_splits)
    then have "pcap_createsrcstr cap PCAP_SRC_IFREMOTE (Some host) port (Some name) =
        Some (Some (PCAP_SRC_IF_STRING @ remote_string host port (Some name)))"
      using assms by (subst create_remote) auto
    then show ?thesis using remote_parse [OF p] by blast
  qed
  have l: "8 + length name + 1 \<le> cap" if "name \<noteq> []"
    using assms(2) that by (simp add: remote_string_length given_def)
  show ?loc if p: "word_without ''/:['' name"
    using p l assms(1) local_parse [OF p] by (subst create_local) (auto simp: word_without_def)
  show ?file if p: "word_without [] name \<and> strstr name PCAP_SRC_IF_STRING = None"
    using p l assms(1) file_parse [of name] by (subst create_file) (auto simp: word_without_def)
qed

lemma srcstr_roundtrip_witness:
  "(\<exists>s. pcap_createsrcstr 1024 PCAP_SRC_IFREMOTE (Some ''10.0.0.1'') (Some ''2002'') (Some ''eth0'') = Some (Some s) \<and>
      pcap_parsesrcstr True s = Inr \<lparr>p_type = PCAP_SRC_IFREMOTE, p_host = ''10.0.0.1'', p_port = ''2002'', p_name = ''eth0''\<rparr>) \<and>
   (\<exists>s. pcap_createsrcstr 1024 PCAP_SRC_IFREMOTE (Some ''foo'') None (Some ''eth0'') = Some (Some s) \<and>
      pcap_parsesrcstr True s = Inr \<lparr>p_type = PCAP_SRC_IFREMOTE, p_host = ''foo'', p_port = [], p_name = ''eth0''\<rparr>) \<and>
   (\<exists>s. pcap_createsrcstr 1024 PCAP_SRC_IFLOCAL (Some ''foo'') None (Some ''eth0'') = Some (Some s) \<and>
      pcap_parsesrcstr True s = Inr \<lparr>p_type = PCAP_SRC_IFLOCAL, p_host = [], p_port = [], p_name = ''eth0''\<rparr>)"
proof -
  have n: "numeric ''10.0.0.1''" "\<not> numeric ''foo''" "\<forall>c \<in> set ''10.0.0.1''. is_num c" "\<forall>c \<in> set ''eth0''. \<not> isspace c"
    by code_simp+
  have w: "word_without [] ''10.0.0.1''" "word_without ''/'' ''2002''" "word_without [] ''eth0''" "word_without ''/:['' ''foo''"
    "word_without ''['' ''eth0''" "word_without ''/:['' ''eth0''"
    by code_simp+
  have p: "plain_remote ''10.0.0.1'' (Some ''2002'') ''eth0''" "plain_remote ''foo'' None ''eth0''" "word_without ''/:['' ''eth0''"
    using n w by (simp_all add: plain_remote_def plain_name_def)
  have g: "given (Some ''2002'')" "\<not> given None" "given (Some ''eth0'')" by (simp_all add: given_def)
  have l: "8 + length (remote_string ''10.0.0.1'' (Some ''2002'') (Some ''eth0'')) + 1 \<le> 1024"
    "8 + length (remote_string ''foo'' None (Some ''eth0'')) + 1 \<le> 1024"
    by (simp_all add: remote_string_length g)
  have "PCAP_BUF_SIZE \<le> 1024" by simp
  from srcstr_roundtrip [OF this l(1)] srcstr_roundtrip [OF this l(2)] p show ?thesis
    unfolding if_P [OF g(1)] if_not_P [OF g(2)] option.sel by blast
qed

text \<open>A numeric host is recognised by the absence of letters; an address of IPv6 has letters, so it is not
  put into brackets, and the parser takes what follows its first colon for the port. The source string of
  such a host and no port denotes another host.\<close>

theorem ipv6_host_misread:
  assumes "PCAP_BUF_SIZE \<le> cap" and "8 + length (remote_string (h1 @ CHR '':'' # h2) None (Some name)) + 1 \<le> cap"
    and "\<not> numeric (h1 @ CHR '':'' # h2)" and "word_without ''/:['' h1" and "word_without ''/['' h2"
    and "length (h1 @ CHR '':'' # h2) < PCAP_BUF_SIZE" and "plain_name ''['' name"
  shows "\<exists>s. pcap_createsrcstr cap PCAP_SRC_IFREMOTE (Some (h1 @ CHR '':'' # h2)) None (Some name) = Some (Some s) \<and>
    pcap_parsesrcstr True s = Inr \<lparr>p_type = PCAP_SRC_IFREMOTE, p_host = h1, p_port = h2, p_name = name\<rparr>"
proof -
  have g: "given (Some name)" "length name \<le> PCAP_BUF_SIZE" "given (Some h2)"
    using assms(5,7) by (auto simp: plain_name_def word_without_def given_def)
  have n: "\<not> given None" by (simp add: given_def)
  let ?r = "h1 @ '':'' @ h2 @ ''/'' @ name"
  have r: "remote_string (h1 @ CHR '':'' # h2) None (Some name) = ?r"
    using assms(3) g n by (simp add: remote_string_def)
  have c: "pcap_createsrcstr cap PCAP_SRC_IFREMOTE (Some (h1 @ CHR '':'' # h2)) None (Some name) =
      Some (Some (PCAP_SRC_IF_STRING @ ?r))"
    using assms(1,2,6) g n r by (subst create_remote) auto
  have "CHR ''['' \<notin> set h1" "CHR ''['' \<notin> set h2" "CHR ''['' \<notin> set name"
    using assms(4,5,7) by (simp_all add: word_without_notin plain_notin)
  then have b: "CHR ''['' \<notin> set ?r" by simp
  have ne: "?r \<noteq> []" by simp
  have "parse_name ?r = \<lparr>p_type = PCAP_SRC_IFREMOTE, p_host = h1, p_port = h2, p_name = name\<rparr>"
    using parse_name_plain [OF assms(4) _ assms(7), of "Some h2"] assms(5) g(3) by simp
  moreover have "in_bounds \<lparr>p_type = PCAP_SRC_IFREMOTE, p_host = h1, p_port = h2, p_name = name\<rparr>" "name \<noteq> []"
    using assms(4,5,7) by (auto simp: in_bounds_def word_without_def plain_name_def)
  ultimately have "pcap_parsesrcstr True (PCAP_SRC_IF_STRING @ ?r) =
      Inr \<lparr>p_type = PCAP_SRC_IFREMOTE, p_host = h1, p_port = h2, p_name = name\<rparr>"
    unfolding parse_rpcap [OF ne] using b by (simp add: Let_def)
  then show ?thesis using c by blast
qed

lemma ipv6_host_misread_witness:
  "\<exists>s. pcap_createsrcstr 1024 PCAP_SRC_IFREMOTE (Some (''fe80'' @ CHR '':'' # '':1'')) None (Some ''eth0'') = Some (Some s) \<and>
    pcap_parsesrcstr True s = Inr \<lparr>p_type = PCAP_SRC_IFREMOTE, p_host = ''fe80'', p_port = '':1'', p_name = ''eth0''\<rparr>"
  by (rule ipv6_host_misread)
    (simp_all add: word_without_def plain_name_def remote_string_length given_def numeric_def host_letters_def isspace_def)

end
