(* ===== verification/Rpcap_Findall_Properties.thy ===== *)
theory Rpcap_Findall_Properties
  imports Rpcap_Findall Source_Properties
begin

text \<open>
  The list of the interfaces that the daemon sends is the list the client builds; what an interface
  name of another host and a connection that is lost can do to the client.
\<close>

section \<open>Addresses\<close>

text \<open>The addresses both sides know.\<close>

definition sa_ok :: "u8 list option \<Rightarrow> bool" where
  "sa_ok s \<longleftrightarrow> (case s of None \<Rightarrow> True
     | Some a \<Rightarrow> length a = 16 \<and> le16_of a = AF_INET \<or> length a = 28 \<and> le16_of a = AF_INET6)"

lemma be16_rev: "2 \<le> length a \<Longrightarrow> be16_of (rev (take 2 a) @ r) = le16_of a"
  by (cases a; cases "tl a") (auto simp: be16_of_def le16_of_def numeral_2_eq_2)

lemma swap_in_bytes:
  assumes "length a = 16"
  shows "swap_in (swap_in a @ r) = a" and "be16_of (swap_in a @ r) = le16_of a" and "length (swap_in a) = 16"
proof -
  have "a = take 2 a @ take 2 (drop 2 a) @ take 12 (drop 4 a)"
    using assms take_add [of 2 2 a] take_add [of 4 12 a] by simp
  then show "swap_in (swap_in a @ r) = a" using assms by (simp add: swap_in_def)
qed (use assms be16_rev [of a] in \<open>simp_all add: swap_in_def\<close>)

lemma swap_in6_bytes:
  assumes "length a = 28"
  shows "swap_in6 (swap_in6 a @ r) = a" and "be16_of (swap_in6 a @ r) = le16_of a" and "length (swap_in6 a) = 28"
proof -
  have "a = take 2 a @ take 2 (drop 2 a) @ take 4 (drop 4 a) @ take 16 (drop 8 a) @ take 4 (drop 24 a)"
    using assms take_add [of 2 2 a] take_add [of 4 4 a] take_add [of 8 16 a] take_add [of 24 4 a] by simp
  then show "swap_in6 (swap_in6 a @ r) = a" using assms by (simp add: swap_in6_def)
qed (use assms be16_rev [of a] in \<open>simp_all add: swap_in6_def\<close>)

lemma length_seraddr:
  assumes "sa_ok s"
  shows "length (daemon_seraddr s) = 128"
  using assms by (cases s) (auto simp: sa_ok_def daemon_seraddr_def swap_in_bytes swap_in6_bytes)

lemma be16_zeros: "2 \<le> n \<Longrightarrow> be16_of (replicate n 0 @ r) = 0"
  by (simp add: be16_of_def nth_append)

lemma deseraddr_seraddr:
  assumes "sa_ok s"
  shows "rpcap_deseraddr (\<lambda>_. True) (daemon_seraddr s) = Some s"
proof (cases s)
  case None
  then show ?thesis using be16_zeros [of 128 "[]"] by (simp add: daemon_seraddr_def rpcap_deseraddr_def)
next
  case (Some a)
  then show ?thesis using assms
    by (auto simp: sa_ok_def daemon_seraddr_def rpcap_deseraddr_def swap_in_bytes swap_in6_bytes)
qed

definition addr_ok :: "pcap_addr \<Rightarrow> bool" where
  "addr_ok a \<longleftrightarrow> sa_ok (pa_addr a) \<and> sa_ok (pa_netmask a) \<and> sa_ok (pa_broadaddr a) \<and> sa_ok (pa_dstaddr a)"

definition addr_bytes :: "pcap_addr \<Rightarrow> u8 list" where
  "addr_bytes a = daemon_seraddr (pa_addr a) @ daemon_seraddr (pa_netmask a) @
     daemon_seraddr (pa_broadaddr a) @ daemon_seraddr (pa_dstaddr a)"

definition is_inet :: "pcap_addr \<Rightarrow> bool" where
  "is_inet a \<longleftrightarrow> (\<exists>x. pa_addr a = Some x \<and> le16_of x = AF_INET)"

lemma length_addr_bytes: "addr_ok a \<Longrightarrow> length (addr_bytes a) = 512"
  by (simp add: addr_ok_def addr_bytes_def length_seraddr)

lemma family_of_bytes:
  assumes "addr_ok a"
  shows "be16_of (addr_bytes a) = AF_INET \<longleftrightarrow> is_inet a"
  using assms
  by (cases "pa_addr a") (auto simp: addr_ok_def sa_ok_def addr_bytes_def is_inet_def daemon_seraddr_def
      swap_in_bytes swap_in6_bytes be16_zeros)

lemma parts_of_bytes:
  assumes "addr_ok a"
  shows "part (addr_bytes a) 0 = daemon_seraddr (pa_addr a)" "part (addr_bytes a) 1 = daemon_seraddr (pa_netmask a)"
    "part (addr_bytes a) 2 = daemon_seraddr (pa_broadaddr a)" "part (addr_bytes a) 3 = daemon_seraddr (pa_dstaddr a)"
  using assms by (simp_all add: part_def addr_bytes_def addr_ok_def length_seraddr)

section \<open>Steps on a connection that delivers\<close>

text \<open>\<open>m\<close> bytes of the payload are read, \<open>rest\<close> is to come.\<close>

definition reading :: "in_stream \<Rightarrow> u8 list \<Rightarrow> nat \<Rightarrow> findall \<Rightarrow> bool" where
  "reading ev rest m st \<longleftrightarrow> segments_ok (ctrl st) \<and> avail (ctrl st) = rest \<and> after (ctrl st) = ev \<and> nread st = of_nat m \<and>
     length (tmpstring st) = PCAP_BUF_SIZE + 1"

lemma of_nat_not_minus_one: "m < 65536 \<Longrightarrow> (of_nat m :: u32) \<noteq> - 1"
  by (rule not_minus_one) (simp add: unat_of_nat take_bit_nat_eq_self)

lemma receive_ok:
  assumes "reading ev (x @ rest) m st" and "m + length x < 65536"
  shows "\<exists>st'. receive (length x) old st = Inr (x @ drop (length x) old, st') \<and>
    reading ev rest (m + length x) st' \<and> alldevs st' = alldevs st \<and> tmpstring st' = tmpstring st"
proof -
  obtain s' where s: "sock_recv (int (length x)) True (ctrl st) = (int (length x), x, s')" "avail s' = rest" "segments_ok s'" "after s' = after (ctrl st)"
    using sock_recv_all [of "ctrl st" "length x"] assms(1) by (auto simp: reading_def)
  let ?st = "st\<lparr>nread := of_nat (m + length x), ctrl := s'\<rparr>"
  have "receive (length x) old st = Inr (x @ drop (length x) old, ?st)"
    using assms of_nat_not_minus_one [OF assms(2)] s by (simp add: receive_def reading_def Let_def)
  then show ?thesis using assms(1) s by (auto simp: reading_def)
qed

lemma read_address_ok:
  assumes "addr_ok a" and "alldevs st \<noteq> []" and "c = No_Address \<or> c = One_Address \<and> \<not> is_inet a"
  shows "\<exists>st'. read_address (\<lambda>_. True) (addr_bytes a) (c, st) = Inr (if is_inet a then One_Address else c, st') \<and>
    (\<forall>ev rest m. reading ev rest m st \<longrightarrow> reading ev rest m st') \<and>
    alldevs st' = butlast (alldevs st) @
      [if is_inet a then (last (alldevs st))\<lparr>ci_addrs := [a]\<rparr> else last (alldevs st)]"
proof (cases "is_inet a")
  case True
  have p: "\<lparr>pa_addr = pa_addr a, pa_netmask = pa_netmask a, pa_broadaddr = pa_broadaddr a, pa_dstaddr = pa_dstaddr a\<rparr> = a"
    by simp
  have "pa_addr a \<noteq> None" using True by (auto simp: is_inet_def)
  then show ?thesis
    using assms True family_of_bytes [OF assms(1)] parts_of_bytes [OF assms(1)]
    by (auto simp: read_address_def deseraddr_seraddr addr_ok_def address_null_def last_if_def reading_def Let_def)
next
  case False
  then show ?thesis using assms family_of_bytes [OF assms(1)] by (simp add: read_address_def)
qed

text \<open>One of the addresses, at most, is one of IPv4.\<close>

definition one_inet :: "chain \<Rightarrow> pcap_addr list \<Rightarrow> bool" where
  "one_inet c as \<longleftrightarrow> c = No_Address \<and> length (filter is_inet as) \<le> 1 \<or> c = One_Address \<and> filter is_inet as = []"

lemma read_addresses_ok:
  assumes "\<forall>a \<in> set as. addr_ok a" and "reading ev (concat (map addr_bytes as) @ rest) m st"
    and "m + 512 * length as < 65536" and "alldevs st \<noteq> []" and "one_inet c as"
    and "\<And>n. length (stk n) = 512"
  shows "\<exists>st'. read_addresses (\<lambda>_. True) stk (length as) (c, st) = Inr st' \<and> reading ev rest (m + 512 * length as) st' \<and>
    alldevs st' = butlast (alldevs st) @ [if filter is_inet as = [] then last (alldevs st)
      else (last (alldevs st))\<lparr>ci_addrs := filter is_inet as\<rparr>]"
  using assms(1-5)
proof (induction as arbitrary: c st m)
  case Nil
  then show ?case by (auto simp: append_butlast_last_id one_inet_def)
next
  case (Cons a as)
  have l: "length (addr_bytes a) = 512" using Cons.prems(1) by (simp add: length_addr_bytes)
  obtain st1 where s1: "receive 512 (stk (length as)) st = Inr (addr_bytes a, st1)"
      "reading ev (concat (map addr_bytes as) @ rest) (m + 512) st1" "alldevs st1 = alldevs st"
    using receive_ok [of ev "addr_bytes a" "concat (map addr_bytes as) @ rest" m st "stk (length as)"] Cons.prems(2,3) l assms(6)
    by auto
  have c: "c = No_Address \<or> c = One_Address \<and> \<not> is_inet a" "one_inet (if is_inet a then One_Address else c) as"
    using Cons.prems(5) by (auto simp: one_inet_def split: if_splits)
  obtain st2 where s2: "read_address (\<lambda>_. True) (addr_bytes a) (c, st1) = Inr (if is_inet a then One_Address else c, st2)"
      "reading ev (concat (map addr_bytes as) @ rest) (m + 512) st2"
      "alldevs st2 = butlast (alldevs st) @ [if is_inet a then (last (alldevs st))\<lparr>ci_addrs := [a]\<rparr> else last (alldevs st)]"
    using read_address_ok [of a st1 c] Cons.prems(1,4) s1 c(1) by auto
  have "m + 512 + 512 * length as < 65536" "alldevs st2 \<noteq> []" using Cons.prems(3) s2(3) by auto
  from Cons.IH [OF _ s2(2) this c(2)] Cons.prems(1) obtain st3 where s3:
      "read_addresses (\<lambda>_. True) stk (length as) (if is_inet a then One_Address else c, st2) = Inr st3"
      "reading ev rest (m + 512 + 512 * length as) st3"
      "alldevs st3 = butlast (alldevs st2) @ [if filter is_inet as = [] then last (alldevs st2)
        else (last (alldevs st2))\<lparr>ci_addrs := filter is_inet as\<rparr>]" by auto
  have "filter is_inet as = []" if "is_inet a" using c(2) that by (simp add: one_inet_def)
  then have "alldevs st3 = butlast (alldevs st) @ [if filter is_inet (a # as) = [] then last (alldevs st)
      else (last (alldevs st))\<lparr>ci_addrs := filter is_inet (a # as)\<rparr>]"
    using s3(3) s2(3) by auto
  then show ?case using s1(1) s2(1) s3(1,2) by (auto simp: andthen_def add.assoc)
qed

lemma read_addresses_second:
  assumes "\<forall>a \<in> set as. addr_ok a" and "reading ev (concat (map addr_bytes as) @ rest) m st"
    and "m + 512 * length as < 65536" and "alldevs st \<noteq> []"
    and "c = No_Address \<and> 1 < length (filter is_inet as) \<or> c = One_Address \<and> filter is_inet as \<noteq> []"
    and "\<And>n. length (stk n) = 512"
  shows "\<exists>st'. read_addresses (\<lambda>_. True) stk (length as) (c, st) = Inl (Indeterminate, st')"
  using assms(1-5)
proof (induction as arbitrary: c st m)
  case (Cons a as)
  have l: "length (addr_bytes a) = 512" using Cons.prems(1) by (simp add: length_addr_bytes)
  obtain st1 where s1: "receive 512 (stk (length as)) st = Inr (addr_bytes a, st1)"
      "reading ev (concat (map addr_bytes as) @ rest) (m + 512) st1" "alldevs st1 = alldevs st"
    using receive_ok [of ev "addr_bytes a" "concat (map addr_bytes as) @ rest" m st "stk (length as)"] Cons.prems(2,3) l assms(6)
    by auto
  show ?case
  proof (cases "c = One_Address \<and> is_inet a")
    case True
    then have "read_address (\<lambda>_. True) (addr_bytes a) (c, st1) = Inl (Indeterminate, st1)"
      using family_of_bytes [of a] Cons.prems(1) by (simp add: read_address_def)
    then show ?thesis using s1(1) by (simp add: andthen_def)
  next
    case False
    then have c: "c = No_Address \<or> c = One_Address \<and> \<not> is_inet a" using Cons.prems(5) by auto
    obtain st2 where s2: "read_address (\<lambda>_. True) (addr_bytes a) (c, st1) = Inr (if is_inet a then One_Address else c, st2)"
        "reading ev (concat (map addr_bytes as) @ rest) (m + 512) st2" "alldevs st2 \<noteq> []"
      using read_address_ok [of a st1 c] Cons.prems(1,4) s1 c by auto
    have "m + 512 + 512 * length as < 65536" using Cons.prems(3) by simp
    from Cons.IH [OF _ s2(2) this s2(3), of "if is_inet a then One_Address else c"] Cons.prems(1,5) False c
    show ?thesis using s1(1) s2(1) by (auto simp: andthen_def split: if_splits)
  qed
qed auto

section \<open>Names and descriptions\<close>

lemma c_string_cut:
  assumes "r \<noteq> []"
  shows "c_string ((b @ r)[length b := 0]) = c_string b"
proof -
  have "(b @ r)[length b := 0] = b @ 0 # tl r" using assms by (cases r) simp_all
  then show ?thesis by (simp add: c_string_def takeWhile_tail)
qed

lemma receive_text_ok:
  assumes "reading ev (x @ rest) m st" and "m + length x < 65536" and "length x \<le> PCAP_BUF_SIZE"
  shows "\<exists>st'. receive_text (length x) st = Inr st' \<and> reading ev rest (m + length x) st' \<and> alldevs st' = alldevs st \<and>
    c_string (tmpstring st') = c_string x"
proof -
  let ?t = "drop (length x) (tmpstring st)"
  obtain st1 where s1: "receive (length x) (tmpstring st) st = Inr (x @ ?t, st1)"
      "reading ev rest (m + length x) st1" "alldevs st1 = alldevs st"
    using receive_ok [OF assms(1,2)] by metis
  have l: "length (tmpstring st) = PCAP_BUF_SIZE + 1" using assms(1) by (simp add: reading_def)
  have "c_string ((x @ ?t)[length x := 0]) = c_string x"
    by (rule c_string_cut) (use l assms(3) in auto)
  moreover have "receive_text (length x) st = Inr (st1\<lparr>tmpstring := (x @ ?t)[length x := 0]\<rparr>)"
    using s1(1) assms(3) by (simp add: receive_text_def andthen_def)
  moreover have "reading ev rest (m + length x) (st1\<lparr>tmpstring := (x @ ?t)[length x := 0]\<rparr>)"
    using s1(2) l assms(3) by (simp add: reading_def)
  ultimately show ?thesis using s1(3) by simp
qed

text \<open>The length field of a text is its length.\<close>

lemma unat_length: "n < 65536 \<Longrightarrow> unat (of_nat n :: u16) = n"
  by (simp add: unat_of_nat take_bit_nat_eq_self)

text \<open>What the client makes of an interface of the host it has asked.\<close>

definition source_name :: "find_env \<Rightarrow> u8 list \<Rightarrow> string" where
  "source_name env x = PCAP_SRC_IF_STRING @ remote_string (fe_host env) (Some (fe_port env)) (Some (to_chars x))"

definition client_view :: "find_env \<Rightarrow> pcap_if \<Rightarrow> client_if" where
  "client_view env d =
     \<lparr>ci_name = (if text_of (if_name d) = [] then None else Some (source_name env (text_of (if_name d)))),
      ci_desc = (if text_of (if_desc d) = [] then None
        else Some (description (to_chars (text_of (if_desc d))) (fe_host env))),
      ci_flags = if_flags d, ci_addrs = filter is_inet (if_addrs d)\<rparr>"

definition fits :: "find_env \<Rightarrow> pcap_if \<Rightarrow> bool" where
  "fits env d \<longleftrightarrow> strlen (if_name d) \<le> PCAP_BUF_SIZE \<and> strlen (if_desc d) \<le> PCAP_BUF_SIZE \<and>
     length (source_name env (text_of (if_name d))) \<le> PCAP_BUF_SIZE \<and> (\<forall>a \<in> set (if_addrs d). addr_ok a)"

definition one_address :: "pcap_if \<Rightarrow> bool" where
  "one_address d \<longleftrightarrow> length (filter is_inet (if_addrs d)) \<le> 1"

definition host_ok :: "find_env \<Rightarrow> bool" where
  "host_ok env \<longleftrightarrow> fe_host env \<noteq> [] \<and> length (fe_host env) \<le> PCAP_BUF_SIZE \<and> length (fe_port env) \<le> PCAP_BUF_SIZE"

lemma read_name_ok:
  assumes "reading ev (x @ rest) m st" and "m + length x < 65536" and "length x \<le> PCAP_BUF_SIZE" and "host_ok env"
    and "length (source_name env x) \<le> PCAP_BUF_SIZE" and "alldevs st \<noteq> []" and "unat (namelen f) = length x"
  shows "\<exists>st'. read_name (\<lambda>_. True) (fe_host env) (fe_port env) f st = Inr st' \<and> reading ev rest (m + length x) st' \<and>
    alldevs st' = butlast (alldevs st) @
      [if x = [] then last (alldevs st) else (last (alldevs st))\<lparr>ci_name := Some (source_name env x)\<rparr>]"
proof (cases "x = []")
  case True
  then have "namelen f = 0" using assms(7) by (simp add: unat_eq_0)
  then show ?thesis using True assms(1,6) by (simp add: read_name_def)
next
  case False
  then have n: "namelen f \<noteq> 0" using assms(7) by (metis length_0_conv unat_0)
  obtain st1 where s1: "receive_text (length x) st = Inr st1" "reading ev rest (m + length x) st1" "alldevs st1 = alldevs st"
      "c_string (tmpstring st1) = c_string x"
    using receive_text_ok [OF assms(1-3)] by blast
  have t: "to_chars (tmpstring st1) = to_chars x" using s1(4) by (simp add: to_chars_def)
  have l: "length (to_chars x) \<le> PCAP_BUF_SIZE"
    using assms(3) length_takeWhile_le [of _ x] by (auto simp: to_chars_def c_string_def intro: order_trans)
  have "pcap_createsrcstr (PCAP_BUF_SIZE + 1) PCAP_SRC_IFREMOTE (Some (fe_host env)) (Some (fe_port env)) (Some (to_chars x)) =
      Some (Some (source_name env x))"
    using assms(4,5) l by (subst create_remote) (auto simp: host_ok_def source_name_def)
  then show ?thesis
    using n s1 False assms(6,7) t by (auto simp: read_name_def andthen_def last_if_def reading_def)
qed

lemma read_desc_ok:
  assumes "reading ev (x @ rest) m st" and "m + length x < 65536" and "length x \<le> PCAP_BUF_SIZE"
    and "alldevs st \<noteq> []" and "unat (desclen f) = length x"
  shows "\<exists>st'. read_desc (\<lambda>_. True) host f st = Inr st' \<and> reading ev rest (m + length x) st' \<and>
    alldevs st' = butlast (alldevs st) @
      [if x = [] then last (alldevs st) else (last (alldevs st))\<lparr>ci_desc := Some (description (to_chars x) host)\<rparr>]"
proof (cases "x = []")
  case True
  then have "desclen f = 0" using assms(5) by (simp add: unat_eq_0)
  then show ?thesis using True assms(1,4) by (simp add: read_desc_def)
next
  case False
  then have n: "desclen f \<noteq> 0" using assms(5) by (metis length_0_conv unat_0)
  obtain st1 where s1: "receive_text (length x) st = Inr st1" "reading ev rest (m + length x) st1" "alldevs st1 = alldevs st"
      "c_string (tmpstring st1) = c_string x"
    using receive_text_ok [OF assms(1-3)] by blast
  have t: "to_chars (tmpstring st1) = to_chars x" using s1(4) by (simp add: to_chars_def)
  then show ?thesis using n s1 False assms(4,5)
    by (auto simp: read_desc_def andthen_def last_if_def reading_def Let_def)
qed

section \<open>The interfaces\<close>

definition if_fields :: "pcap_if \<Rightarrow> rpcap_findalldevs_if" where
  "if_fields d = \<lparr>namelen = of_nat (length (text_of (if_name d))), desclen = of_nat (length (text_of (if_desc d))),
     fa_flags = if_flags d, naddr = of_nat (length (if_addrs d)), fa_dummy = 0\<rparr>"

definition if_bytes :: "pcap_if \<Rightarrow> u8 list" where
  "if_bytes d = findif_enc (if_fields d) @ text_of (if_name d) @ text_of (if_desc d) @ concat (map addr_bytes (if_addrs d))"

lemma text_of_length: "strlen x < 65536 \<Longrightarrow> length (text_of x) = strlen x"
  by (cases x) (auto simp: text_of_def strlen_def)

lemma length_addrs: "\<forall>a \<in> set as. addr_ok a \<Longrightarrow> length (concat (map addr_bytes as)) = 512 * length as"
  by (induction as) (auto simp: length_addr_bytes)

lemma length_if_bytes:
  assumes "fits env d"
  shows "length (if_bytes d) = if_size d"
proof -
  have "length (text_of (if_name d)) = strlen (if_name d)" "length (text_of (if_desc d)) = strlen (if_desc d)"
    using assms by (auto simp: fits_def intro!: text_of_length)
  then show ?thesis
    using assms length_addrs [of "if_addrs d"] findif.length_enc [of "if_fields d"]
    by (simp add: if_bytes_def if_size_def fits_def)
qed

lemma read_if_addresses:
  assumes "fits env d" and "host_ok env" and "reading ev (if_bytes d @ rest) m st" and "m + if_size d < 65536"
    and "alloc env = (\<lambda>_. True)" and "length (stack env n) = 12" and "\<And>j. length (stack2 env n j) = 512"
  shows "\<exists>st'. read_if env n st =
      read_addresses (\<lambda>_. True) (stack2 env n) (length (if_addrs d)) (No_Address, st') \<and>
    reading ev (concat (map addr_bytes (if_addrs d)) @ rest) (m + if_size d - 512 * length (if_addrs d)) st' \<and>
    alldevs st' = alldevs st @ [(client_view env d)\<lparr>ci_addrs := []\<rparr>] \<and> 512 * length (if_addrs d) \<le> if_size d"
proof -
  let ?f = "if_fields d"
  let ?x = "text_of (if_name d)" let ?y = "text_of (if_desc d)" let ?as = "if_addrs d" let ?z = "concat (map addr_bytes ?as)"
  have lx: "length ?x = strlen (if_name d)" "length ?x \<le> PCAP_BUF_SIZE" and ly: "length ?y = strlen (if_desc d)" "length ?y \<le> PCAP_BUF_SIZE"
    using assms(1) text_of_length [of "if_name d"] text_of_length [of "if_desc d"] by (auto simp: fits_def)
  have sz: "if_size d = 12 + length ?x + length ?y + 512 * length ?as" by (simp add: if_size_def lx ly)
  have u: "unat (namelen ?f) = length ?x" "unat (desclen ?f) = length ?y" "unat (naddr ?f) = length ?as"
    using assms(4) sz by (simp_all add: if_fields_def unat_length)
  have l12: "length (findif_enc ?f) = 12" by (rule findif.length_enc)
  have r0: "reading ev (findif_enc ?f @ ?x @ ?y @ ?z @ rest) m st" using assms(3) by (simp add: if_bytes_def)
  obtain st1 where s1: "receive 12 (stack env n) st = Inr (findif_enc ?f, st1)"
      "reading ev (?x @ ?y @ ?z @ rest) (m + 12) st1" "alldevs st1 = alldevs st"
    using receive_ok [OF r0, of "stack env n"] assms(4,6) sz l12 by auto
  let ?st1 = "st1\<lparr>alldevs := alldevs st1 @ [blank_if]\<rparr>"
  have r1: "reading ev (?x @ ?y @ ?z @ rest) (m + 12) ?st1" using s1(2) by (simp add: reading_def)
  have ln: "length (source_name env ?x) \<le> PCAP_BUF_SIZE" using assms(1) by (simp add: fits_def)
  have b1: "m + 12 + length ?x < 65536" "m + 12 + length ?x + length ?y < 65536"
      "m + 12 + length ?x + length ?y + 512 * length ?as < 65536" using assms(4) sz by auto
  obtain st2 where s2: "read_name (\<lambda>_. True) (fe_host env) (fe_port env) ?f ?st1 = Inr st2"
      "reading ev (?y @ ?z @ rest) (m + 12 + length ?x) st2"
      "alldevs st2 = alldevs st @ [if ?x = [] then blank_if else blank_if\<lparr>ci_name := Some (source_name env ?x)\<rparr>]"
    using read_name_ok [OF r1 b1(1) lx(2) assms(2) ln _ u(1)] s1(3) by auto
  obtain st3 where s3: "read_desc (\<lambda>_. True) (fe_host env) ?f st2 = Inr st3"
      "reading ev (?z @ rest) (m + 12 + length ?x + length ?y) st3"
      "alldevs st3 = alldevs st @ [(client_view env d)\<lparr>ci_flags := 0, ci_addrs := []\<rparr>]"
    using read_desc_ok [OF s2(2) b1(2) ly(2) _ u(2), of "fe_host env"] s2(3) by (auto simp: client_view_def blank_if_def)
  let ?st3 = "last_if (\<lambda>i. i\<lparr>ci_flags := fa_flags ?f\<rparr>) st3"
  have r3: "reading ev (?z @ rest) (m + 12 + length ?x + length ?y) ?st3" using s3(2) by (simp add: reading_def last_if_def)
  have a3: "alldevs ?st3 = alldevs st @ [(client_view env d)\<lparr>ci_addrs := []\<rparr>]"
    using s3(3) by (simp add: last_if_def client_view_def if_fields_def)
  have "read_if env n st = read_addresses (\<lambda>_. True) (stack2 env n) (length ?as) (No_Address, ?st3)"
    using s1(1) s2(1) s3(1) u assms(5) findif.dec_enc' [of ?f] by (simp add: read_if_def andthen_def Let_def)
  moreover have "m + 12 + length ?x + length ?y = m + if_size d - 512 * length ?as" using sz by simp
  ultimately show ?thesis using r3 a3 sz by (intro exI [of _ ?st3]) (simp add: add.assoc)
qed

lemma read_if_ok:
  assumes "fits env d" and "one_address d" and "host_ok env" and "reading ev (if_bytes d @ rest) m st"
    and "m + if_size d < 65536"
    and "alloc env = (\<lambda>_. True)" and "length (stack env n) = 12" and "\<And>j. length (stack2 env n j) = 512"
  shows "\<exists>st'. read_if env n st = Inr st' \<and> reading ev rest (m + if_size d) st' \<and> alldevs st' = alldevs st @ [client_view env d]"
proof -
  from read_if_addresses [OF assms(1,3-8)] obtain st3 where
    s3: "read_if env n st = read_addresses (\<lambda>_. True) (stack2 env n) (length (if_addrs d)) (No_Address, st3)"
      "reading ev (concat (map addr_bytes (if_addrs d)) @ rest) (m + if_size d - 512 * length (if_addrs d)) st3"
      "alldevs st3 = alldevs st @ [(client_view env d)\<lparr>ci_addrs := []\<rparr>]" "512 * length (if_addrs d) \<le> if_size d" by blast
  have ok: "\<forall>a \<in> set (if_addrs d). addr_ok a" using assms(1) by (simp add: fits_def)
  have one: "one_inet No_Address (if_addrs d)" using assms(2) by (simp add: one_inet_def one_address_def)
  have "m + if_size d - 512 * length (if_addrs d) + 512 * length (if_addrs d) < 65536" "alldevs st3 \<noteq> []"
    using assms(5) s3(3,4) by simp_all
  from read_addresses_ok [where stk = "stack2 env n", OF ok s3(2) this one assms(8)] obtain st4
    where s4: "read_if env n st = Inr st4" "reading ev rest (m + if_size d) st4"
      "alldevs st4 = butlast (alldevs st3) @ [if filter is_inet (if_addrs d) = [] then last (alldevs st3)
        else (last (alldevs st3))\<lparr>ci_addrs := filter is_inet (if_addrs d)\<rparr>]"
    using s3(1,4) by auto
  then show ?thesis using s3(3) by (simp add: client_view_def)
qed

text \<open>The second address of IPv4 of an interface is written through a pointer without a value.\<close>

lemma read_if_second:
  assumes "fits env d" and "\<not> one_address d" and "host_ok env" and "reading ev (if_bytes d @ rest) m st"
    and "m + if_size d < 65536"
    and "alloc env = (\<lambda>_. True)" and "length (stack env n) = 12" and "\<And>j. length (stack2 env n j) = 512"
  shows "\<exists>st'. read_if env n st = Inl (Indeterminate, st')"
proof -
  from read_if_addresses [OF assms(1,3-8)] obtain st3 where
    s3: "read_if env n st = read_addresses (\<lambda>_. True) (stack2 env n) (length (if_addrs d)) (No_Address, st3)"
      "reading ev (concat (map addr_bytes (if_addrs d)) @ rest) (m + if_size d - 512 * length (if_addrs d)) st3"
      "alldevs st3 = alldevs st @ [(client_view env d)\<lparr>ci_addrs := []\<rparr>]" "512 * length (if_addrs d) \<le> if_size d" by blast
  have ok: "\<forall>a \<in> set (if_addrs d). addr_ok a" using assms(1) by (simp add: fits_def)
  have "m + if_size d - 512 * length (if_addrs d) + 512 * length (if_addrs d) < 65536" "alldevs st3 \<noteq> []"
    using assms(5) s3(3,4) by simp_all
  from read_addresses_second [where stk = "stack2 env n" and c = No_Address, OF ok s3(2) this _ assms(8)] assms(2) s3(1)
  show ?thesis by (simp add: one_address_def)
qed

definition env_ok :: "find_env \<Rightarrow> bool" where
  "env_ok env \<longleftrightarrow> host_ok env \<and> alloc env = (\<lambda>_. True) \<and> (\<forall>n. length (stack env n) = 12) \<and>
     (\<forall>n j. length (stack2 env n j) = 512)"

lemma read_ifs_ok:
  assumes "\<forall>d \<in> set ds. fits env d \<and> one_address d" and "env_ok env" and "reading ev (concat (map if_bytes ds) @ rest) m st"
    and "m + sum_list (map if_size ds) < 65536"
  shows "\<exists>st'. read_ifs env (length ds + n) st = read_ifs env n st' \<and> reading ev rest (m + sum_list (map if_size ds)) st' \<and>
    alldevs st' = alldevs st @ map (client_view env) ds"
  using assms(1,3,4)
proof (induction ds arbitrary: st m)
  case (Cons d ds)
  let ?i = "length ds + n"
  have e: "host_ok env" "alloc env = (\<lambda>_. True)" "length (stack env ?i) = 12" "\<And>j. length (stack2 env ?i j) = 512"
    using assms(2) by (simp_all add: env_ok_def)
  have f: "fits env d" "one_address d" "m + if_size d < 65536" "reading ev (if_bytes d @ concat (map if_bytes ds) @ rest) m st"
    using Cons.prems by simp_all
  from read_if_ok [where n = ?i, OF f(1,2) e(1) f(4,3) e(2,3,4)] obtain st1 where s1: "read_if env ?i st = Inr st1"
      "reading ev (concat (map if_bytes ds) @ rest) (m + if_size d) st1" "alldevs st1 = alldevs st @ [client_view env d]"
    by blast
  from Cons.IH [OF _ s1(2)] Cons.prems(1,3) s1(1,3) show ?case by (auto simp: andthen_def add.assoc)
qed auto

lemma put_addr_bytes:
  assumes "addr_ok a" and "length buf + 512 \<le> RPCAP_NETBUF_SIZE"
  shows "put_addr a buf = Some (buf @ addr_bytes a)"
  using assms by (simp add: put_addr_def put_def addr_ok_def length_seraddr addr_bytes_def)

lemma put_addrs_bytes:
  assumes "\<forall>a \<in> set as. addr_ok a" and "length buf + 512 * length as \<le> RPCAP_NETBUF_SIZE"
  shows "put_addrs as buf = Some (buf @ concat (map addr_bytes as))"
  using assms by (induction as arbitrary: buf) (simp_all add: put_addr_bytes length_addr_bytes)

lemma put_if_bytes:
  assumes "fits env d" and "length buf + if_size d \<le> RPCAP_NETBUF_SIZE"
  shows "put_if d buf = Some (buf @ if_bytes d)"
proof -
  have l: "length (text_of (if_name d)) = strlen (if_name d)" "length (text_of (if_desc d)) = strlen (if_desc d)"
    and ok: "\<forall>a \<in> set (if_addrs d). addr_ok a"
    using assms(1) by (auto simp: fits_def intro!: text_of_length)
  have e: "length (findif_enc (if_fields d)) = 12" by (rule findif.length_enc)
  show ?thesis using assms(2) e ok
    unfolding put_if_def Let_def if_fields_def [symmetric]
    by (simp add: put_def if_bytes_def if_size_def put_addrs_bytes l)
qed

lemma put_ifs_bytes:
  assumes "\<forall>d \<in> set ds. fits env d" and "length buf + sum_list (map if_size ds) \<le> RPCAP_NETBUF_SIZE"
  shows "put_ifs ds buf = Some (buf @ concat (map if_bytes ds))"
  using assms by (induction ds arbitrary: buf) (simp_all add: put_if_bytes [of env] length_if_bytes [of env])

text \<open>The message of the daemon.\<close>

lemma daemon_list_sent:
  assumes "ds \<noteq> []" and "\<forall>d \<in> set ds. fits env d" and "8 + sum_list (map if_size ds) \<le> RPCAP_NETBUF_SIZE"
    and "Send_Fails \<notin> set dout"
  shows "daemon_findalldevs (Some ds) err dout =
    (0, header_enc (rpcap_createhdr 130 (of_nat (length ds)) (of_nat (sum_list (map if_size ds)))) @ concat (map if_bytes ds))"
proof -
  let ?n = "sum_list (map if_size ds)"
  have u: "ucast (of_nat ?n :: u16) = (of_nat ?n :: u32)"
    using assms(3) by (simp add: unsigned_of_nat take_bit_nat_eq_self)
  have "put_ifs ds (header_enc h) = Some (header_enc h @ concat (map if_bytes ds))" for h
    using put_ifs_bytes [OF assms(2), of "header_enc h"] assms(3) header.length_enc [of h] by simp
  then show ?thesis using assms(1,4) u by (cases ds) (simp_all add: daemon_findalldevs_def Let_def sock_send_accepts)
qed

section \<open>A connection that is lost\<close>

lemma nothing_left: "segments_ok s \<Longrightarrow> avail s = [] \<Longrightarrow> after s = [] \<Longrightarrow> s = []"
  by (cases s rule: avail.cases) auto

lemma receive_closed:
  assumes "ctrl st = []" and "0 < n" and "nread st \<noteq> 0"
  shows "receive n old st = Inr (old, st\<lparr>nread := nread st - 1\<rparr>)"
  using assms by (simp add: receive_def sock_recv_short_data sock_recv_def sock_recv_loop.simps Let_def)

text \<open>An interface of which no byte arrives, on a stack of zeros.\<close>

lemma read_if_closed:
  assumes "ctrl st = []" and "nread st \<noteq> 0" and "stack env n = replicate 12 0" and "alloc env = (\<lambda>_. True)"
  shows "read_if env n st = Inr (st\<lparr>nread := nread st - 1, alldevs := alldevs st @ [blank_if]\<rparr>)"
  using assms receive_closed [OF assms(1) _ assms(2), of 12]
  by (simp add: read_if_def andthen_def findif_dec_def be16_of_def be32_of_def be32_def read_name_def read_desc_def
      last_if_def blank_if_def Let_def)

lemma read_ifs_closed:
  assumes "ctrl st = []" and "nread st = of_nat m" and "n \<le> m" and "m < 65536"
    and "stack env = (\<lambda>_. replicate 12 0)" and "alloc env = (\<lambda>_. True)"
  shows "\<exists>st'. read_ifs env n st = Inr st' \<and> alldevs st' = alldevs st @ replicate n blank_if"
  using assms(1-4)
proof (induction n arbitrary: st m)
  case (Suc n)
  have "unat (of_nat m :: u32) = m" using Suc.prems(4) by (simp add: unat_of_nat take_bit_nat_eq_self)
  then have "nread st \<noteq> 0" using Suc.prems(2,3) by (metis Suc_le_D nat.distinct(1) unat_0)
  then have "read_if env n st = Inr (st\<lparr>nread := nread st - 1, alldevs := alldevs st @ [blank_if]\<rparr>)"
    using read_if_closed Suc.prems(1) assms(5,6) by simp
  moreover have "nread st - 1 = of_nat (m - 1)" using Suc.prems(2,3) by (simp add: of_nat_diff)
  ultimately show ?case
    using Suc.IH [of "st\<lparr>nread := nread st - 1, alldevs := alldevs st @ [blank_if]\<rparr>" "m - 1"] Suc.prems(1,3,4)
    by (auto simp: andthen_def replicate_append_same)
qed simp

section \<open>The request\<close>

abbreviation request :: "u8 list" where
  "request \<equiv> header_enc (rpcap_createhdr RPCAP_MSG_FINDALLIF_REQ 0 0)"

abbreviation start :: "u8 list \<Rightarrow> in_stream \<Rightarrow> findall" where
  "start tmp s \<equiv> \<lparr>alldevs = [], nread = 0, tmpstring = tmp, ctrl = s\<rparr>"

text \<open>The reply up to the interfaces.\<close>

lemma reply_header:
  assumes "segments_ok s" and "avail s = header_enc h @ rest" and "h_ver h = RPCAP_VERSION"
    and "h_type h = RPCAP_MSG_FINDALLIF_REPLY" and "Send_Fails \<notin> set out" and "length tmp = PCAP_BUF_SIZE + 1"
  obtains s1 where "pcap_findalldevs_remote env active closes out tmp s =
      (case read_ifs env (unat (h_value h)) (start tmp s1) of
         Inl e \<Rightarrow> find_stop active (h_plen h) request e
       | Inr st \<Rightarrow> Some (find_finish active closes (h_plen h) request st))"
    and "reading (after s) rest 0 (start tmp s1)"
proof -
  from header_received [OF assms(1,2)] obtain s1 where s1: "sock_recv 8 True s = (8, header_enc h, s1)"
      "avail s1 = rest" "segments_ok s1" "after s1 = after s" by metis
  have "rpcap_checkmsg h [RPCAP_MSG_FINDALLIF_REPLY, RPCAP_MSG_ERROR] s1 = (130, s1)"
    using checkmsg_expected [of h "[RPCAP_MSG_FINDALLIF_REPLY, RPCAP_MSG_ERROR]"] assms(3,4) by simp
  then have "pcap_findalldevs_remote env active closes out tmp s =
      (case read_ifs env (unat (h_value h)) (start tmp s1) of
         Inl e \<Rightarrow> find_stop active (h_plen h) request e
       | Inr st \<Rightarrow> Some (find_finish active closes (h_plen h) request st))"
    using s1(1) assms(5) header.dec_enc [of h] by (simp add: pcap_findalldevs_remote_def sock_send_accepts Let_def split: sum.split)
  then show ?thesis using that s1 assms(6) by (simp add: reading_def)
qed

section \<open>The properties\<close>

text \<open>C31: The client that asks a daemon for its interfaces, none of which has more than one address of
  IPv4, gets the daemon's list, however the connection cuts the reply into segments: the names as source
  strings of the asked host, the descriptions, the flags, and the address of IPv4, unchanged; it has
  read exactly the reply, and closes the connection unless the host is in active mode. The strings
  have to fit the buffers of both sides, and no send or allocation fails.\<close>

theorem interfaces_received:
  assumes "ds \<noteq> []" and "\<forall>d \<in> set ds. fits env d \<and> one_address d" and "env_ok env"
    and "8 + sum_list (map if_size ds) \<le> RPCAP_NETBUF_SIZE" and "length tmp = PCAP_BUF_SIZE + 1"
    and "Send_Fails \<notin> set out" and "Send_Fails \<notin> set dout"
    and "segments_ok s" and "avail s = snd (daemon_findalldevs (Some ds) err dout) @ rest"
  shows "\<exists>s'. pcap_findalldevs_remote env active True out tmp s =
      Some \<lparr>fr_ret = 0, fr_devs = map (client_view env) ds,
        fr_sent = header_enc (rpcap_createhdr RPCAP_MSG_FINDALLIF_REQ 0 0), fr_ctrl = s',
        fr_closed = (\<not> active), fr_cleaned = True\<rparr> \<and> avail s' = rest"
proof -
  let ?n = "sum_list (map if_size ds)"
  let ?h = "rpcap_createhdr 130 (of_nat (length ds)) (of_nat ?n)"
  have "12 * length ds \<le> ?n" by (induction ds) (auto simp: if_size_def)
  then have l: "unat (of_nat (length ds) :: u16) = length ds" using assms(4) by (simp add: unat_length)
  have a: "avail s = header_enc ?h @ concat (map if_bytes ds) @ rest"
    using assms(9) daemon_list_sent [OF assms(1) _ assms(4,7), of env] assms(2) by simp
  have "h_ver ?h = RPCAP_VERSION" "h_type ?h = RPCAP_MSG_FINDALLIF_REPLY" by (simp_all add: rpcap_createhdr_def)
  from reply_header [OF assms(8) a this assms(6,5), of env active True] obtain s1
    where r: "pcap_findalldevs_remote env active True out tmp s =
      (case read_ifs env (unat (h_value ?h)) (start tmp s1) of
         Inl e \<Rightarrow> find_stop active (h_plen ?h) request e
       | Inr st \<Rightarrow> Some (find_finish active True (h_plen ?h) request st))"
      "reading (after s) (concat (map if_bytes ds) @ rest) 0 (start tmp s1)" by metis
  from read_ifs_ok [where n = 0, OF assms(2,3) r(2)] assms(4) obtain st where st: "read_ifs env (length ds) (start tmp s1) = Inr st"
      "reading (after s) rest ?n st" "alldevs st = map (client_view env) ds" by auto
  have "pcap_findalldevs_remote env active True out tmp s = Some (find_finish active True (of_nat ?n) request st)"
    using r(1) st(1) l by (simp add: rpcap_createhdr_def)
  then show ?thesis using st(2,3) by (simp add: find_finish_def discard_rest_def reading_def Let_def)
qed

text \<open>The other way round: from the reply of a daemon with an interface that has two addresses of IPv4,
  which is an ordinary one, the client comes to write through a pointer that was never set.\<close>

theorem second_address_faults:
  assumes "\<forall>d \<in> set ds. fits env d" and "\<exists>d \<in> set ds. \<not> one_address d" and "env_ok env"
    and "8 + sum_list (map if_size ds) \<le> RPCAP_NETBUF_SIZE" and "length tmp = PCAP_BUF_SIZE + 1"
    and "Send_Fails \<notin> set out" and "Send_Fails \<notin> set dout"
    and "segments_ok s" and "avail s = snd (daemon_findalldevs (Some ds) err dout) @ rest"
  shows "pcap_findalldevs_remote env active closes out tmp s = None"
proof -
  from split_list_first_prop [OF assms(2)] obtain ds1 d ds2 where
    ds: "ds = ds1 @ d # ds2" "\<not> one_address d" "\<forall>d \<in> set ds1. one_address d" by blast
  let ?n = "sum_list (map if_size ds)" and ?i = "length ds2"
  let ?h = "rpcap_createhdr 130 (of_nat (length ds)) (of_nat ?n)"
  have "12 * length ds \<le> ?n" by (induction ds) (auto simp: if_size_def)
  then have l: "unat (of_nat (length ds) :: u16) = length ds" using assms(4) by (simp add: unat_length)
  have a: "avail s = header_enc ?h @ concat (map if_bytes ds) @ rest"
    using assms(9) daemon_list_sent [OF _ assms(1,4,7)] ds(1) by simp
  have "h_ver ?h = RPCAP_VERSION" "h_type ?h = RPCAP_MSG_FINDALLIF_REPLY" by (simp_all add: rpcap_createhdr_def)
  from reply_header [OF assms(8) a this assms(6,5), of env active closes] obtain s1
    where r: "pcap_findalldevs_remote env active closes out tmp s =
      (case read_ifs env (unat (h_value ?h)) (start tmp s1) of
         Inl e \<Rightarrow> find_stop active (h_plen ?h) request e
       | Inr st \<Rightarrow> Some (find_finish active closes (h_plen ?h) request st))"
      "reading (after s) (concat (map if_bytes ds) @ rest) 0 (start tmp s1)" by metis
  have r0: "reading (after s) (concat (map if_bytes ds1) @ (if_bytes d @ concat (map if_bytes ds2) @ rest)) 0 (start tmp s1)"
    using r(2) ds(1) by simp
  have f: "\<forall>d \<in> set ds1. fits env d \<and> one_address d" "fits env d" using assms(1) ds by auto
  have sz: "sum_list (map if_size ds1) + if_size d < 65536" using assms(4) ds(1) by simp
  from read_ifs_ok [where n = "Suc ?i", OF f(1) assms(3) r0] sz obtain st where
    st: "read_ifs env (length ds1 + Suc ?i) (start tmp s1) = read_ifs env (Suc ?i) st"
      "reading (after s) (if_bytes d @ concat (map if_bytes ds2) @ rest) (sum_list (map if_size ds1)) st" by auto
  have e: "host_ok env" "alloc env = (\<lambda>_. True)" "length (stack env ?i) = 12" "\<And>j. length (stack2 env ?i j) = 512"
    using assms(3) by (simp_all add: env_ok_def)
  from read_if_second [OF f(2) ds(2) e(1) st(2) sz e(2-4)] obtain st' where "read_if env ?i st = Inl (Indeterminate, st')" ..
  then have "read_ifs env (length ds) (start tmp s1) = Inl (Indeterminate, st')"
    using st(1) ds(1) by (simp add: andthen_def)
  then show ?thesis using r(1) l by (simp add: rpcap_createhdr_def find_stop_def)
qed

text \<open>A connection that is lost between two interfaces is not noticed: the count of the bytes is compared
  with -1 after the result of the read has been added to it. The call succeeds, and the interfaces that
  are missing appear as entries without a name, a description and addresses (where the structure on the
  stack held zeros), as long as there are no more of them than bytes that have been read.\<close>

theorem lost_connection_unnoticed:
  assumes "\<forall>d \<in> set ds. fits env d \<and> one_address d" and "env_ok env" and "stack env = (\<lambda>_. replicate 12 0)"
    and "sum_list (map if_size ds) < 65536" and "length tmp = PCAP_BUF_SIZE + 1" and "Send_Fails \<notin> set out"
    and "segments_ok s" and "after s = []"
    and "avail s = header_enc (rpcap_createhdr RPCAP_MSG_FINDALLIF_REPLY v plen) @ concat (map if_bytes ds)"
    and "unat v = length ds + n" and "n \<le> sum_list (map if_size ds)"
  shows "\<exists>r. pcap_findalldevs_remote env active True out tmp s = Some r \<and> fr_ret r = 0 \<and>
    fr_devs r = map (client_view env) ds @ replicate n blank_if"
proof -
  let ?h = "rpcap_createhdr RPCAP_MSG_FINDALLIF_REPLY v plen"
  have "h_ver ?h = RPCAP_VERSION" "h_type ?h = RPCAP_MSG_FINDALLIF_REPLY" by (simp_all add: rpcap_createhdr_def)
  from reply_header [OF assms(7,9) this assms(6,5), of env active True] obtain s1
    where r: "pcap_findalldevs_remote env active True out tmp s =
      (case read_ifs env (unat (h_value ?h)) (start tmp s1) of
         Inl e \<Rightarrow> find_stop active (h_plen ?h) request e
       | Inr st \<Rightarrow> Some (find_finish active True (h_plen ?h) request st))"
      "reading [] (concat (map if_bytes ds)) 0 (start tmp s1)" using assms(8) by metis
  from read_ifs_ok [where n = n and rest = "[]", OF assms(1,2), of "[]" 0 "start tmp s1"] r(2) assms(4) obtain st
    where st: "read_ifs env (length ds + n) (start tmp s1) = read_ifs env n st"
      "reading [] [] (sum_list (map if_size ds)) st" "alldevs st = map (client_view env) ds" by auto
  have "ctrl st = []" using st(2) nothing_left by (auto simp: reading_def)
  then obtain st' where "read_ifs env n st = Inr st'" "alldevs st' = alldevs st @ replicate n blank_if"
    using read_ifs_closed [of st "sum_list (map if_size ds)" n env] st(2) assms(2,3,4,11)
    by (auto simp: reading_def env_ok_def)
  then show ?thesis using r(1) st(1,3) assms(10)
    by (simp add: rpcap_createhdr_def find_finish_def Let_def)
qed

text \<open>The other host chooses the length of a name, and its check allows every name that fits the
  temporary string; the source string that is built from it has no room for the host, the port and the
  prefix then. An interface name whose source string needs more than PCAP_BUF_SIZE characters is written
  behind the buffer on the stack.\<close>

theorem interface_name_overruns:
  assumes "env_ok env" and "length tmp = PCAP_BUF_SIZE + 1" and "Send_Fails \<notin> set out" and "segments_ok s"
    and "avail s = header_enc (rpcap_createhdr RPCAP_MSG_FINDALLIF_REPLY v plen) @ findif_enc f @ x @ rest"
    and "v \<noteq> 0" and "length x = unat (namelen f)" and "x \<noteq> []" and "length x \<le> PCAP_BUF_SIZE"
    and "length (source_name env x) > PCAP_BUF_SIZE"
  shows "pcap_findalldevs_remote env active closes out tmp s = None"
proof -
  let ?h = "rpcap_createhdr RPCAP_MSG_FINDALLIF_REPLY v plen"
  have "h_ver ?h = RPCAP_VERSION" "h_type ?h = RPCAP_MSG_FINDALLIF_REPLY" by (simp_all add: rpcap_createhdr_def)
  from reply_header [OF assms(4,5) this assms(3,2), of env active closes] obtain s1
    where r: "pcap_findalldevs_remote env active closes out tmp s =
      (case read_ifs env (unat (h_value ?h)) (start tmp s1) of
         Inl e \<Rightarrow> find_stop active (h_plen ?h) request e
       | Inr st \<Rightarrow> Some (find_finish active closes (h_plen ?h) request st))"
      "reading (after s) (findif_enc f @ x @ rest) 0 (start tmp s1)" by metis
  obtain n where n: "unat v = Suc n" using assms(6) by (metis not0_implies_Suc unat_eq_0)
  have e: "host_ok env" "alloc env = (\<lambda>_. True)" "length (stack env n) = 12" using assms(1) by (simp_all add: env_ok_def)
  obtain st1 where s1: "receive 12 (stack env n) (start tmp s1) = Inr (findif_enc f, st1)"
      "reading (after s) (x @ rest) 12 st1"
    using receive_ok [OF r(2), of "stack env n"] e(3) findif.length_enc [of f] by auto
  let ?st1 = "st1\<lparr>alldevs := alldevs st1 @ [blank_if]\<rparr>"
  have "reading (after s) (x @ rest) 12 ?st1" using s1(2) by (simp add: reading_def)
  from receive_text_ok [OF this _ assms(9)] assms(9) obtain st2 where s2: "receive_text (length x) ?st1 = Inr st2"
      "c_string (tmpstring st2) = c_string x" by auto
  have t: "to_chars (tmpstring st2) = to_chars x" using s2(2) by (simp add: to_chars_def)
  have l: "length (to_chars x) \<le> PCAP_BUF_SIZE"
    using assms(9) length_takeWhile_le [of _ x] by (auto simp: to_chars_def c_string_def intro: order_trans)
  have "pcap_createsrcstr (PCAP_BUF_SIZE + 1) PCAP_SRC_IFREMOTE (Some (fe_host env)) (Some (fe_port env)) (Some (to_chars x)) = None"
    using e(1) l assms(10) by (subst create_remote) (auto simp: host_ok_def source_name_def)
  moreover have "namelen f \<noteq> 0" using assms(7,8) by (metis length_0_conv unat_0)
  ultimately have "read_if env n (start tmp s1) = Inl (Overruns, st2)"
    using s1(1) s2(1) e(2) assms(7) t findif.dec_enc' [of f] by (simp add: read_if_def andthen_def read_name_def Let_def)
  then have "read_ifs env (unat v) (start tmp s1) = Inl (Overruns, st2)" using n by (simp add: andthen_def)
  then show ?thesis using r(1) by (simp add: rpcap_createhdr_def find_stop_def)
qed

section \<open>Examples\<close>

definition sample_find_env :: find_env where
  "sample_find_env = \<lparr>alloc = (\<lambda>_. True), stack = (\<lambda>_. replicate 12 0), stack2 = (\<lambda>_ _. replicate 512 0),
     fe_host = ''10.0.0.1'', fe_port = ''2002''\<rparr>"

definition sample_if :: pcap_if where
  "sample_if = \<lparr>if_name = Some [101, 116, 104, 48], if_desc = None, if_flags = 1,
     if_addrs = [\<lparr>pa_addr = Some ([2, 0] @ replicate 14 7), pa_netmask = None, pa_broadaddr = None, pa_dstaddr = None\<rparr>]\<rparr>"

lemma sample_find_env_ok: "env_ok sample_find_env"
  by (simp add: env_ok_def host_ok_def sample_find_env_def)

lemma sample_name_length: "length x \<le> 100 \<Longrightarrow> length (source_name sample_find_env x) \<le> PCAP_BUF_SIZE"
  using length_takeWhile_le [of "\<lambda>c. c \<noteq> 0" x]
  by (simp add: source_name_def sample_find_env_def remote_string_length to_chars_def c_string_def)

lemma sample_fits: "fits sample_find_env sample_if"
  using sample_name_length [of "[101, 116, 104, 48]"]
  by (simp add: fits_def sample_if_def strlen_def text_of_def addr_ok_def sa_ok_def le16_of_def)

lemma sample_one: "one_address sample_if"
  by (simp add: one_address_def sample_if_def is_inet_def le16_of_def)

text \<open>An interface with two addresses.\<close>

definition two_address_if :: pcap_if where
  "two_address_if = sample_if\<lparr>if_addrs := if_addrs sample_if @ if_addrs sample_if\<rparr>"

lemma two_address_sample:
  "fits sample_find_env two_address_if" "\<not> one_address two_address_if" "if_size two_address_if = 1040"
  using sample_fits
  by (simp_all add: two_address_if_def fits_def one_address_def if_size_def sample_if_def strlen_def is_inet_def
      le16_of_def text_of_def)

lemma sample_size: "if_size sample_if = 528"
  by (simp add: if_size_def sample_if_def strlen_def)

lemma sample_bytes: "if_bytes sample_if \<noteq> []"
  using length_if_bytes [OF sample_fits] sample_size by auto

lemma interfaces_received_witness:
  "\<exists>s'. pcap_findalldevs_remote sample_find_env False True [] (replicate 1025 0)
      [Arrives (snd (daemon_findalldevs (Some [sample_if]) [] []) @ [0])] =
      Some \<lparr>fr_ret = 0, fr_devs = map (client_view sample_find_env) [sample_if],
        fr_sent = request, fr_ctrl = s', fr_closed = (\<not> False), fr_cleaned = True\<rparr> \<and> avail s' = [0]"
  by (rule interfaces_received [where dout = "[]" and err = "[]"])
    (use sample_find_env_ok sample_fits sample_one sample_size in simp_all)

lemma second_address_faults_witness:
  "pcap_findalldevs_remote sample_find_env False True [] (replicate 1025 0)
     [Arrives (snd (daemon_findalldevs (Some [two_address_if]) [] []) @ [0])] = None"
  by (rule second_address_faults [where dout = "[]" and err = "[]" and rest = "[0]"])
    (use sample_find_env_ok two_address_sample in simp_all)

lemma lost_connection_unnoticed_witness:
  "\<exists>r. pcap_findalldevs_remote sample_find_env False True [] (replicate 1025 0)
      [Arrives (header_enc (rpcap_createhdr RPCAP_MSG_FINDALLIF_REPLY 3 1000) @ concat (map if_bytes [sample_if]))] = Some r \<and>
    fr_ret r = 0 \<and> fr_devs r = map (client_view sample_find_env) [sample_if] @ replicate 2 blank_if"
  by (rule lost_connection_unnoticed [where v = 3 and plen = 1000])
    (use sample_find_env_ok sample_fits sample_one sample_size sample_bytes in \<open>simp_all add: sample_find_env_def\<close>)

lemma interface_name_overruns_witness:
  "pcap_findalldevs_remote sample_find_env False True [] (replicate 1025 0)
     [Arrives (header_enc (rpcap_createhdr RPCAP_MSG_FINDALLIF_REPLY 1 1036) @
        findif_enc \<lparr>namelen = 1024, desclen = 0, fa_flags = 0, naddr = 0, fa_dummy = 0\<rparr> @ replicate 1024 97 @ [])] = None"
  by (rule interface_name_overruns [where v = 1 and plen = 1036 and x = "replicate 1024 97" and rest = "[]"
        and f = "\<lparr>namelen = 1024, desclen = 0, fa_flags = 0, naddr = 0, fa_dummy = 0\<rparr>"])
    (use sample_find_env_ok findif.enc_ne in
      \<open>simp_all add: source_name_def sample_find_env_def remote_string_length to_chars_def c_string_def given_def\<close>)

end
