(* ===== verification/Sock_Address.thy ===== *)
theory Sock_Address
  imports Sockutils
begin

text \<open>
  The rest of the socket helpers (\<open>wpcap/libpcap/sockutils.c\<close>): the count of the users of Winsock,
  addresses and their comparison, the translation of names, opening and closing a socket, and the
  list of the hosts that may connect. The calls of Winsock are arguments: \<open>getaddrinfo\<close> and
  \<open>getnameinfo\<close> are functions, what socket, bind, listen and connect do is a record. An address is
  the bytes of its \<open>sockaddr_storage\<close>, a C string the list of its characters before the 0.
\<close>

section \<open>Addresses\<close>

type_synonym sockaddr = "u8 list"

abbreviation AF_INET :: "u8 list" where "AF_INET \<equiv> [2, 0]"
abbreviation AF_INET6 :: "u8 list" where "AF_INET6 \<equiv> [23, 0]"
abbreviation PF_UNSPEC :: int where "PF_UNSPEC \<equiv> 0"
abbreviation PF_INET :: int where "PF_INET \<equiv> 2"
abbreviation PF_INET6 :: int where "PF_INET6 \<equiv> 23"
abbreviation SOCK_STREAM :: int where "SOCK_STREAM \<equiv> 1"

definition ss_family :: "sockaddr \<Rightarrow> u8 list" where
  "ss_family a = chunk a 0 2"

definition sin_addr :: "sockaddr \<Rightarrow> u8 list" where
  "sin_addr a = chunk a 4 4"

definition sin6_addr :: "sockaddr \<Rightarrow> u8 list" where
  "sin6_addr a = chunk a 8 16"

definition sock_cmpaddr :: "sockaddr \<Rightarrow> sockaddr \<Rightarrow> int" where
  "sock_cmpaddr a b =
     (if ss_family a = ss_family b
      then if ss_family a = AF_INET
        then if sin_addr a = sin_addr b then 0 else - 1
        else if sin6_addr a = sin6_addr b then 0 else - 1
      else - 1)"

definition sock_ismcastaddr :: "sockaddr \<Rightarrow> int" where
  "sock_ismcastaddr a =
     (if ss_family a = AF_INET
      then if map (\<lambda>b. b AND 0xF0) (take 1 (sin_addr a)) = [0xE0] then 0 else - 1
      else if take 1 (sin6_addr a) = [0xFF] then 0 else - 1)"

text \<open>What two addresses of one host share.\<close>

definition host_key :: "sockaddr \<Rightarrow> u8 list \<times> u8 list" where
  "host_key a = (ss_family a, if ss_family a = AF_INET then sin_addr a else sin6_addr a)"

lemma cmpaddr_iff [simp]: "sock_cmpaddr a b = 0 \<longleftrightarrow> host_key a = host_key b"
  by (auto simp: sock_cmpaddr_def host_key_def)

section \<open>Winsock\<close>

text \<open>\<open>sockcount\<close>, and whether Winsock is started.\<close>

record winsock =
  sockcount :: int
  started :: bool

definition sock_init :: "bool \<Rightarrow> winsock \<Rightarrow> int \<times> winsock" where
  "sock_init starts w =
     (if sockcount w = 0 \<and> \<not> starts then (- 1, w\<lparr>started := False\<rparr>)
      else (0, w\<lparr>sockcount := sockcount w + 1, started := (sockcount w = 0 \<or> started w)\<rparr>))"

definition sock_cleanup :: "winsock \<Rightarrow> winsock" where
  "sock_cleanup w =
     (let n = sockcount w - 1 in w\<lparr>sockcount := n, started := (n \<noteq> 0 \<and> started w)\<rparr>)"

section \<open>Names\<close>

record hints =
  hi_family :: int
  hi_socktype :: int
  hi_passive :: bool

record addrinfo =
  ai_family :: int
  ai_socktype :: int
  ai_addr :: sockaddr

text \<open>\<open>getaddrinfo\<close>: the chain of addresses of a host and a port, None for a failure.\<close>

type_synonym resolver = "hints \<Rightarrow> string option \<Rightarrow> string \<Rightarrow> addrinfo list option"

text \<open>\<open>getnameinfo\<close>: address, its length, sizes of the buffers, whether numbers are wanted.\<close>

type_synonym namer = "sockaddr \<Rightarrow> nat \<Rightarrow> nat \<Rightarrow> nat \<Rightarrow> bool \<Rightarrow> (string \<times> string) option"

abbreviation any_stream :: hints where
  "any_stream \<equiv> \<lparr>hi_family = PF_UNSPEC, hi_socktype = SOCK_STREAM, hi_passive = False\<rparr>"

text \<open>
  \<open>sock_initaddress\<close>: the return value and the chain, which the caller holds also after the checks
  have failed. None is the use of an empty chain.
\<close>

definition sock_initaddress ::
    "resolver \<Rightarrow> string option \<Rightarrow> string \<Rightarrow> hints \<Rightarrow> (int \<times> addrinfo list) option" where
  "sock_initaddress getaddrinfo address port h =
     (case getaddrinfo h address port of
        None \<Rightarrow> Some (- 1, [])
      | Some [] \<Rightarrow> None
      | Some (a # as) \<Rightarrow>
          if ai_family a \<noteq> PF_INET \<and> ai_family a \<noteq> PF_INET6 then Some (- 1, a # as)
          else if ai_socktype a = SOCK_STREAM \<and> sock_ismcastaddr (ai_addr a) = 0 then Some (- 1, a # as)
          else Some (0, a # as))"

text \<open>
  \<open>sock_present2network\<close> copies the first address into a storage: the return value, the storage
  and the number of chains that are not freed.
\<close>

definition sock_present2network ::
    "resolver \<Rightarrow> string \<Rightarrow> sockaddr \<Rightarrow> int \<Rightarrow> (int \<times> sockaddr \<times> nat) option" where
  "sock_present2network getaddrinfo address storage family =
     (case sock_initaddress getaddrinfo (Some address) ''22222''
             \<lparr>hi_family = family, hi_socktype = 0, hi_passive = False\<rparr> of
        None \<Rightarrow> None
      | Some (r, chain) \<Rightarrow>
          if r = - 1 then Some (0, storage, if chain = [] then 0 else 1)
          else (let n = (if ai_family (hd chain) = PF_INET then 16 else 28) in
            case slice (ai_addr (hd chain)) 0 n of
              None \<Rightarrow> None
            | Some b \<Rightarrow> map_option (\<lambda>s. (if tl chain \<noteq> [] then - 2 else - 1, s, 0)) (blit storage 0 b)))"

text \<open>A buffer after \<open>strncpy\<close> of its whole size, and with its last character set to 0.\<close>

abbreviation NUL :: char where "NUL \<equiv> CHR 0x00"

definition strncpy_all :: "string \<Rightarrow> string \<Rightarrow> string" where
  "strncpy_all buf s = take (length buf) (s @ replicate (length buf) NUL)"

definition end_last :: "string \<Rightarrow> string option" where
  "end_last buf = (if buf = [] then None else Some (butlast buf @ [NUL]))"

text \<open>A buffer that is given is filled, None stays NULL. The outer None is a write outside.\<close>

fun fill :: "(string \<Rightarrow> string option) \<Rightarrow> string option \<Rightarrow> string option option" where
  "fill f None = Some None"
| "fill f (Some buf) = map_option Some (f buf)"

definition both :: "int \<Rightarrow> string option option \<Rightarrow> string option option \<Rightarrow>
    (int \<times> string option \<times> string option) option" where
  "both r x y = (case x of None \<Rightarrow> None | Some a \<Rightarrow> (case y of None \<Rightarrow> None | Some b \<Rightarrow> Some (r, a, b)))"

definition buf_size :: "string option \<Rightarrow> nat" where
  "buf_size b = (case b of None \<Rightarrow> 0 | Some s \<Rightarrow> length s)"

definition sock_getascii_addrport ::
    "namer \<Rightarrow> sockaddr \<Rightarrow> string option \<Rightarrow> string option \<Rightarrow> bool \<Rightarrow>
     (int \<times> string option \<times> string option) option" where
  "sock_getascii_addrport getnameinfo a address port numeric =
     (let len = (if ss_family a = AF_INET then 16 else 28) in
      if \<not> numeric \<and> ss_family a = AF_INET6 \<and> sin6_addr a = replicate 16 0
      then Some (- 1, map_option (\<lambda>b. strncpy_all b ''Null address (possibly DAD Phase)'') address, port)
      else (case getnameinfo a len (buf_size address) (buf_size port) numeric of
          None \<Rightarrow> both 0 (fill (\<lambda>b. end_last (strncpy_all b ''No name available'')) address)
            (fill (\<lambda>b. end_last (strncpy_all b ''No port available'')) port)
        | Some (name, service) \<Rightarrow> both (- 1) (fill (\<lambda>b. blit b 0 (name @ [NUL])) address)
            (fill (\<lambda>b. blit b 0 (service @ [NUL])) port)))"

definition sock_getmyinfo ::
    "namer \<Rightarrow> sockaddr option \<Rightarrow> string option \<Rightarrow> string option \<Rightarrow> bool \<Rightarrow>
     (int \<times> string option \<times> string option) option" where
  "sock_getmyinfo getnameinfo getsockname address port numeric =
     (case getsockname of
        None \<Rightarrow> Some (0, address, port)
      | Some a \<Rightarrow> sock_getascii_addrport getnameinfo a address port numeric)"

section \<open>Opening and closing\<close>

text \<open>
  What the calls of Winsock do; a failing connect comes with the text of \<open>sock_geterror\<close> and the
  name of the address.
\<close>

record sock_env =
  se_socket :: int
  se_bind :: bool
  se_listen :: bool
  se_connect :: "addrinfo \<Rightarrow> (string \<times> string) option"

text \<open>\<open>_snprintf\<close> into the rest of a buffer and the \<open>strlen\<close> after it: None is a text without its 0.\<close>

definition snprintf_len :: "nat \<Rightarrow> string \<Rightarrow> nat option" where
  "snprintf_len space t = (if length t < space then Some (length t) else None)"

definition connect_message :: "string \<Rightarrow> string \<Rightarrow> string" where
  "connect_message name err =
     ''Is the server properly installed on '' @ name @ ''?  connect() failed: '' @ err"

text \<open>
  The loop over the addresses: whether one has accepted, and what is left of the error buffer. None
  is an access outside the error buffer.
\<close>

fun connect_loop :: "sock_env \<Rightarrow> nat \<Rightarrow> addrinfo list \<Rightarrow> (addrinfo option \<times> nat) option" where
  "connect_loop env space [] = Some (None, space)"
| "connect_loop env space (a # as) =
     (case se_connect env a of
        None \<Rightarrow> Some (Some a, space)
      | Some (name, err) \<Rightarrow>
          (case snprintf_len space (connect_message name err) of
             None \<Rightarrow> None
           | Some n \<Rightarrow> if space \<le> n + 1 then None else connect_loop env (space - (n + 1)) as))"

text \<open>\<open>sock_open\<close>: the socket or -1, and the sockets it closes.\<close>

definition sock_open :: "sock_env \<Rightarrow> addrinfo list \<Rightarrow> bool \<Rightarrow> nat \<Rightarrow> (int \<times> int list) option" where
  "sock_open env chain server errbuflen =
     (if chain = [] then None
      else if se_socket env = - 1 then Some (- 1, [])
      else if server
      then if \<not> se_bind env then Some (- 1, [])
        else if ai_socktype (hd chain) = SOCK_STREAM \<and> \<not> se_listen env then Some (- 1, [])
        else Some (se_socket env, [])
      else if errbuflen = 0 then None
      else (case connect_loop env errbuflen chain of
          None \<Rightarrow> None
        | Some (None, _) \<Rightarrow> Some (- 1, [se_socket env])
        | Some (Some _, _) \<Rightarrow> Some (se_socket env, [])))"

text \<open>\<open>sock_close\<close>: the return value and the sockets it closes.\<close>

definition sock_close :: "bool \<Rightarrow> int \<Rightarrow> int \<times> int list" where
  "sock_close shuts sock = (if shuts then (0, [sock]) else (- 1, [sock]))"

section \<open>The list of the permitted hosts\<close>

text \<open>\<open>strtok\<close>: the next token and what the following call looks at.\<close>

definition strtok :: "string \<Rightarrow> string \<Rightarrow> (string \<times> string) option" where
  "strtok sep s =
     (let t = dropWhile (\<lambda>c. c \<in> set sep) s in
      if t = [] then None
      else Some (takeWhile (\<lambda>c. c \<notin> set sep) t, drop 1 (dropWhile (\<lambda>c. c \<notin> set sep) t)))"

lemma strtok_shorter: "strtok sep s = Some (t, r) \<Longrightarrow> length r < length s"
proof -
  assume "strtok sep s = Some (t, r)"
  then have ne: "dropWhile (\<lambda>c. c \<in> set sep) s \<noteq> []"
    and r: "r = drop 1 (dropWhile (\<lambda>c. c \<notin> set sep) (dropWhile (\<lambda>c. c \<in> set sep) s))"
    by (auto simp: strtok_def Let_def split: if_splits)
  obtain x xs where x: "dropWhile (\<lambda>c. c \<in> set sep) s = x # xs" using ne by (meson neq_Nil_conv)
  then have "x \<notin> set sep" by (metis hd_dropWhile list.sel(1) ne)
  then have "length r \<le> length xs" using r x length_dropWhile_le [of "\<lambda>c. c \<notin> set sep" xs] by simp
  moreover have "length (x # xs) \<le> length s" using x length_dropWhile_le by metis
  ultimately show ?thesis by simp
qed

text \<open>
  The loop of \<open>sock_check_hostlist\<close>: whether the host is found. The chain of the matching name is
  not freed.
\<close>

function hostlist_loop :: "resolver \<Rightarrow> string \<Rightarrow> sockaddr \<Rightarrow> string \<Rightarrow> bool" where
  "hostlist_loop getaddrinfo sep from s =
     (case strtok sep s of
        None \<Rightarrow> False
      | Some (token, rest) \<Rightarrow>
          (case getaddrinfo any_stream (Some token) ''0'' of
             None \<Rightarrow> hostlist_loop getaddrinfo sep from rest
           | Some chain \<Rightarrow>
               if list_ex (\<lambda>a. sock_cmpaddr from (ai_addr a) = 0) chain then True
               else hostlist_loop getaddrinfo sep from rest))"
  by pat_completeness auto

termination
  by (relation "measure (\<lambda>(g, sep, from, s). length s)") (auto dest: strtok_shorter)

declare hostlist_loop.simps [simp del]

text \<open>The return value and the number of chains that are not freed.\<close>

definition sock_check_hostlist ::
    "resolver \<Rightarrow> bool \<Rightarrow> string option \<Rightarrow> string \<Rightarrow> sockaddr \<Rightarrow> int \<times> nat" where
  "sock_check_hostlist getaddrinfo mallocs hostlist sep from =
     (case hostlist of
        None \<Rightarrow> (1, 0)
      | Some l \<Rightarrow>
          if l = [] then (1, 0)
          else if \<not> mallocs then (- 2, 0)
          else if hostlist_loop getaddrinfo sep from l then (0, 1)
          else (- 1, 0))"

end
