(* ===== verification/Rpcap_Active.thy ===== *)
theory Rpcap_Active
  imports Sock_Address Rpcap_Auth
begin

text \<open>
  The active mode of the remote capture, where the daemon connects to the client: the list of the
  connected hosts with the functions that accept, list and close them (\<open>wpcap/libpcap/pcap-new.c\<close>),
  the lookup of a host in it, and how a control connection is found or opened
  (\<open>wpcap/libpcap/pcap-remote.c\<close>). A call of accept blocks between its two halves, where another
  thread may clean up, so the halves are operations of their own.
\<close>

section \<open>State\<close>

text \<open>\<open>struct activehosts\<close>; the chain is a list.\<close>

record act_host =
  act_addr :: sockaddr
  act_sock :: int

text \<open>The variables of the library, and the number of address chains nobody has freed.\<close>

record active =
  activeHosts :: "act_host list"
  sockmain :: int
  sockets :: winsock
  chains :: nat

definition at_start :: active where
  "at_start = \<lparr>activeHosts = [], sockmain = 0, sockets = \<lparr>sockcount = 0, started = False\<rparr>, chains = 0\<rparr>"

definition clean_up :: "active \<Rightarrow> active" where
  "clean_up st = st\<lparr>sockets := sock_cleanup (sockets st)\<rparr>"

definition keep_chains :: "nat \<Rightarrow> active \<Rightarrow> active" where
  "keep_chains n st = st\<lparr>chains := chains st + n\<rparr>"

section \<open>Accepting a host\<close>

abbreviation RPCAP_HOSTLIST_SEP :: string where
  "RPCAP_HOSTLIST_SEP \<equiv> [CHR '' '', CHR '','', CHR '';'', CHR 0x0A, CHR 0x0D]"
abbreviation RPCAP_HOSTLIST_SIZE :: nat where "RPCAP_HOSTLIST_SIZE \<equiv> 1024"
abbreviation RPCAP_DEFAULT_NETPORT :: string where "RPCAP_DEFAULT_NETPORT \<equiv> ''2002''"
abbreviation RPCAP_DEFAULT_NETPORT_ACTIVE :: string where "RPCAP_DEFAULT_NETPORT_ACTIVE \<equiv> ''2003''"
abbreviation PCAP_ERR_REMOTEACCEPT :: u16 where "PCAP_ERR_REMOTEACCEPT \<equiv> 11"

definition port_or :: "string \<Rightarrow> string option \<Rightarrow> string" where
  "port_or usual port = (case port of None \<Rightarrow> usual | Some p \<Rightarrow> if p = [] then usual else p)"

text \<open>
  What the system does during a call: the control socket with the address of its peer, the first
  contents of the block malloc returns, the traffic of the control connection, the error text.
\<close>

record accept_env =
  ac_starts :: bool
  ac_getaddrinfo :: resolver
  ac_server :: sock_env
  ac_accept :: "(int \<times> sockaddr \<times> nat) option"
  ac_name :: namer
  ac_mallocs :: bool
  ac_block :: "sockaddr option"
  ac_out :: "send_event list"
  ac_in :: in_stream
  ac_error :: "u8 list"
  ac_error_out :: "send_event list"
  ac_shuts :: bool

record accept_result =
  ar_ret :: int
  ar_state :: active
  ar_sent :: "u8 list"
  ar_closed :: "int list"
  ar_name :: string

text \<open>Up to the call of accept: 0, or the error the function returns with.\<close>

definition accept_listen ::
    "accept_env \<Rightarrow> string option \<Rightarrow> string option \<Rightarrow> active \<Rightarrow> (int \<times> active) option" where
  "accept_listen env address port st =
     (case sock_init (ac_starts env) (sockets st) of
        (r0, w) \<Rightarrow>
          let st1 = st\<lparr>sockets := w\<rparr> in
          if r0 = - 1 then Some (- 1, st1)
          else (case sock_initaddress (ac_getaddrinfo env) address (port_or RPCAP_DEFAULT_NETPORT_ACTIVE port)
                \<lparr>hi_family = PF_INET, hi_socktype = SOCK_STREAM, hi_passive = True\<rparr> of
              None \<Rightarrow> None
            | Some (r1, chain) \<Rightarrow>
                let st2 = keep_chains (if chain = [] then 0 else 1) st1 in
                if r1 = - 1 then Some (- 2, st2)
                else (case sock_open (ac_server env) chain True PCAP_ERRBUF_SIZE of
                    None \<Rightarrow> None
                  | Some (s, _) \<Rightarrow> Some (if s = - 1 then - 2 else 0, st2\<lparr>sockmain := s\<rparr>))))"

text \<open>The host is told why, and the connection is closed.\<close>

definition refuse :: "accept_env \<Rightarrow> int \<Rightarrow> int \<Rightarrow> u8 list \<Rightarrow> string \<Rightarrow> active \<Rightarrow> accept_result" where
  "refuse env r sock sent name st =
     \<lparr>ar_ret = r, ar_state = st,
      ar_sent = sent @ snd (sock_send (rpcap_senderror (ac_error env) PCAP_ERR_REMOTEACCEPT) (ac_error_out env)),
      ar_closed = snd (sock_close (ac_shuts env) sock), ar_name = name\<rparr>"

text \<open>The host is searched in the list and appended to it.\<close>

definition add_host ::
    "accept_env \<Rightarrow> int \<Rightarrow> sockaddr \<Rightarrow> nat \<Rightarrow> u8 list \<Rightarrow> string \<Rightarrow> active \<Rightarrow> accept_result option" where
  "add_host env sock from fromlen sent name st =
     (if list_ex (\<lambda>h. sock_cmpaddr (act_addr h) from = 0) (activeHosts st)
      then Some \<lparr>ar_ret = sock, ar_state = st, ar_sent = sent, ar_closed = [], ar_name = name\<rparr>
      else (case ac_block env of
          None \<Rightarrow> Some (refuse env (- 1) sock sent name st)
        | Some block \<Rightarrow>
            (case slice from 0 fromlen of
               None \<Rightarrow> None
             | Some b \<Rightarrow>
                 (case blit block 0 b of
                    None \<Rightarrow> None
                  | Some a \<Rightarrow>
                      Some \<lparr>ar_ret = sock,
                        ar_state = st\<lparr>activeHosts := activeHosts st @ [\<lparr>act_addr = a, act_sock = sock\<rparr>]\<rparr>,
                        ar_sent = sent, ar_closed = [], ar_name = name\<rparr>))))"

text \<open>From the return of accept on.\<close>

definition accept_connection ::
    "accept_env \<Rightarrow> string option \<Rightarrow> rmtauth option \<Rightarrow> active \<Rightarrow> accept_result option" where
  "accept_connection env hostlist auth st =
     (let closing = (\<lambda>r. r\<lparr>ar_closed := sockmain st # ar_closed r\<rparr>); st1 = st\<lparr>sockmain := 0\<rparr> in
      map_option closing
        (case ac_accept env of
           None \<Rightarrow> Some \<lparr>ar_ret = - 2, ar_state = st1, ar_sent = [], ar_closed = [], ar_name = []\<rparr>
         | Some (sock, from, fromlen) \<Rightarrow>
             (case ac_name env from fromlen RPCAP_HOSTLIST_SIZE 0 True of
                None \<Rightarrow> Some (refuse env (- 1) sock [] [] st1)
              | Some (name, _) \<Rightarrow>
                  (case sock_check_hostlist (ac_getaddrinfo env) (ac_mallocs env) hostlist RPCAP_HOSTLIST_SEP from of
                     (allowed, n) \<Rightarrow>
                       let st2 = keep_chains n st1 in
                       if allowed < 0 then Some (refuse env (- 1) sock [] name st2)
                       else (case rpcap_sendauth auth (ac_out env) (ac_in env) of
                           None \<Rightarrow> None
                         | Some (ra, sent, _) \<Rightarrow>
                             if ra = - 1 then Some (refuse env (- 3) sock sent name st2)
                             else add_host env sock from fromlen sent name st2)))))"

definition pcap_remoteact_accept ::
    "accept_env \<Rightarrow> string option \<Rightarrow> string option \<Rightarrow> string option \<Rightarrow> rmtauth option \<Rightarrow> active \<Rightarrow>
     accept_result option" where
  "pcap_remoteact_accept env address port hostlist auth st =
     (case accept_listen env address port st of
        None \<Rightarrow> None
      | Some (r, st1) \<Rightarrow>
          if r \<noteq> 0 then Some \<lparr>ar_ret = r, ar_state = st1, ar_sent = [], ar_closed = [], ar_name = []\<rparr>
          else accept_connection env hostlist auth st1)"

text \<open>Another thread makes a waiting call return: the socket it waits on is closed.\<close>

definition pcap_remoteact_cleanup :: "active \<Rightarrow> active \<times> int list" where
  "pcap_remoteact_cleanup st = (if sockmain st \<noteq> 0 then (clean_up st, [sockmain st]) else (st, []))"

section \<open>Looking up and closing a host\<close>

definition same_host :: "addrinfo list \<Rightarrow> act_host \<Rightarrow> bool" where
  "same_host chain h = list_ex (\<lambda>a. sock_cmpaddr (act_addr h) (ai_addr a) = 0) chain"

text \<open>The result and the state; the chain of a host that is found is not freed.\<close>

definition rpcap_remoteact_getsock :: "resolver \<Rightarrow> string \<Rightarrow> active \<Rightarrow> int \<times> active" where
  "rpcap_remoteact_getsock getaddrinfo host st =
     (case getaddrinfo any_stream (Some host) ''0'' of
        None \<Rightarrow> (- 1, st)
      | Some chain \<Rightarrow>
          (case List.find (same_host chain) (activeHosts st) of
             None \<Rightarrow> (0, st)
           | Some h \<Rightarrow> (act_sock h, keep_chains 1 st)))"

fun unlink_host :: "(act_host \<Rightarrow> bool) \<Rightarrow> act_host list \<Rightarrow> act_host list" where
  "unlink_host P [] = []"
| "unlink_host P (h # hs) = (if P h then hs else h # unlink_host P hs)"

record close_result =
  cr_ret :: int
  cr_state :: active
  cr_sent :: "u8 list"
  cr_closed :: "int list"

definition pcap_remoteact_close ::
    "resolver \<Rightarrow> send_event list \<Rightarrow> bool \<Rightarrow> string \<Rightarrow> active \<Rightarrow> close_result" where
  "pcap_remoteact_close getaddrinfo out shuts host st =
     (case getaddrinfo any_stream (Some host) ''0'' of
        None \<Rightarrow> \<lparr>cr_ret = - 1, cr_state = st, cr_sent = [], cr_closed = []\<rparr>
      | Some chain \<Rightarrow>
          (case List.find (same_host chain) (activeHosts st) of
             None \<Rightarrow> \<lparr>cr_ret = - 1, cr_state = clean_up st, cr_sent = [], cr_closed = []\<rparr>
           | Some h \<Rightarrow>
               let sent = snd (sock_send (header_enc (rpcap_createhdr RPCAP_MSG_CLOSE 0 0)) out) in
               (case sock_close shuts (act_sock h) of
                  (r, closed) \<Rightarrow>
                    if r \<noteq> 0
                    then \<lparr>cr_ret = - 1, cr_state = clean_up (keep_chains 1 st), cr_sent = sent, cr_closed = closed\<rparr>
                    else \<lparr>cr_ret = 0,
                      cr_state = clean_up (st\<lparr>activeHosts := unlink_host (same_host chain) (activeHosts st)\<rparr>),
                      cr_sent = sent, cr_closed = closed\<rparr>)))"

text \<open>The search of \<open>pcap_cleanup_remote\<close> and \<open>pcap_startcapture_remote\<close> for the own socket.\<close>

definition in_active_mode :: "active \<Rightarrow> int \<Rightarrow> bool" where
  "in_active_mode st sock = list_ex (\<lambda>h. act_sock h = sock) (activeHosts st)"

section \<open>Listing the hosts\<close>

definition c_str :: "string \<Rightarrow> string option" where
  "c_str buf = (if NUL \<in> set buf then Some (takeWhile (\<lambda>c. c \<noteq> NUL) buf) else None)"

definition strcat :: "string \<Rightarrow> string \<Rightarrow> string option" where
  "strcat buf s = (case c_str buf of None \<Rightarrow> None | Some t \<Rightarrow> blit buf (length t) (s @ [NUL]))"

text \<open>One name behind the others; \<open>len\<close> is already the new length.\<close>

definition append_name :: "string \<Rightarrow> string \<Rightarrow> char \<Rightarrow> nat \<Rightarrow> string option" where
  "append_name buf name sep len =
     (case strcat buf name of
        None \<Rightarrow> None
      | Some b \<Rightarrow> (case blit b (len - 1) [sep] of None \<Rightarrow> None | Some b' \<Rightarrow> blit b' len [NUL]))"

text \<open>
  The loop with the buffers \<open>hoststr\<close> (as far as its size is passed on) and \<open>hostlist\<close>; None is an
  access outside a buffer.
\<close>

fun list_loop ::
    "namer \<Rightarrow> char \<Rightarrow> int \<Rightarrow> act_host list \<Rightarrow> nat \<Rightarrow> string \<Rightarrow> string \<Rightarrow> (int \<times> string) option" where
  "list_loop getnameinfo sep room [] len hoststr buf = Some (0, buf)"
| "list_loop getnameinfo sep room (h # hs) len hoststr buf =
     (case sock_getascii_addrport getnameinfo (act_addr h) (Some hoststr) None True of
        Some (r, Some hoststr', _) \<Rightarrow>
          if r \<noteq> - 1 then Some (- 1, buf)
          else (case c_str hoststr' of
              None \<Rightarrow> None
            | Some name \<Rightarrow>
                let len' = len + length name + 1 in
                if room < 0 \<or> room \<le> int len' then Some (- 1, buf)
                else (case append_name buf name sep len' of
                    None \<Rightarrow> None
                  | Some buf' \<Rightarrow> list_loop getnameinfo sep room hs len' hoststr' buf'))
      | _ \<Rightarrow> None)"

definition pcap_remoteact_list ::
    "namer \<Rightarrow> char \<Rightarrow> int \<Rightarrow> string \<Rightarrow> string \<Rightarrow> active \<Rightarrow> (int \<times> string) option" where
  "pcap_remoteact_list getnameinfo sep room hoststr hostlist st =
     (case blit hostlist 0 [NUL] of
        None \<Rightarrow> None
      | Some buf \<Rightarrow> list_loop getnameinfo sep room (activeHosts st) 0 hoststr buf)"

section \<open>The control connection\<close>

record connection_env =
  cn_starts :: bool
  cn_getaddrinfo :: resolver
  cn_client :: sock_env
  cn_out :: "send_event list"
  cn_in :: in_stream
  cn_shuts :: bool

text \<open>
  A new connection, which two functions open in the same way and give up differently: no address
  with the chains that are left, no connection, no permission, or the socket, with what was sent and
  the sockets closed.
\<close>

datatype attempt =
    No_Address nat
  | No_Connection "int list"
  | Not_Authorised int "u8 list"
  | Opened int "u8 list"

definition new_connection ::
    "connection_env \<Rightarrow> string \<Rightarrow> string option \<Rightarrow> rmtauth option \<Rightarrow> attempt option" where
  "new_connection env host port auth =
     (case sock_initaddress (cn_getaddrinfo env) (Some host) (port_or RPCAP_DEFAULT_NETPORT port) any_stream of
        None \<Rightarrow> None
      | Some (r, chain) \<Rightarrow>
          if r = - 1 then Some (No_Address (if chain = [] then 0 else 1))
          else (case sock_open (cn_client env) chain False PCAP_ERRBUF_SIZE of
              None \<Rightarrow> None
            | Some (c, closed) \<Rightarrow>
                if c = - 1 then Some (No_Connection closed)
                else (case rpcap_sendauth auth (cn_out env) (cn_in env) of
                    None \<Rightarrow> None
                  | Some (ra, sent, _) \<Rightarrow> Some (if ra = - 1 then Not_Authorised c sent else Opened c sent))))"

text \<open>The socket with the flag \<open>active\<close>, None where the caller returns -1 before the protocol.\<close>

record connected =
  co_sock :: "(int \<times> bool) option"
  co_state :: active
  co_sent :: "u8 list"
  co_closed :: "int list"

text \<open>The part of the two functions that is the same, with the result of a new connection.\<close>

definition control_connection ::
    "(active \<Rightarrow> attempt \<Rightarrow> connected) \<Rightarrow> connection_env \<Rightarrow> string \<Rightarrow> string option \<Rightarrow> rmtauth option \<Rightarrow>
     active \<Rightarrow> connected option" where
  "control_connection finish env host port auth st =
     (case sock_init (cn_starts env) (sockets st) of
        (r0, w) \<Rightarrow>
          let st1 = st\<lparr>sockets := w\<rparr> in
          if r0 = - 1 then Some \<lparr>co_sock = None, co_state = st1, co_sent = [], co_closed = []\<rparr>
          else (case rpcap_remoteact_getsock (cn_getaddrinfo env) host st1 of
              (s, st2) \<Rightarrow>
                if s = - 1 then Some \<lparr>co_sock = None, co_state = st2, co_sent = [], co_closed = []\<rparr>
                else if s \<noteq> 0
                then Some \<lparr>co_sock = Some (s, True), co_state = st2, co_sent = [], co_closed = []\<rparr>
                else map_option (finish st2) (new_connection env host port auth)))"

text \<open>The head of \<open>pcap_findalldevs_ex\<close> for a remote host.\<close>

fun find_finish_connect :: "bool \<Rightarrow> active \<Rightarrow> attempt \<Rightarrow> connected" where
  "find_finish_connect shuts st (No_Address n) =
     \<lparr>co_sock = None, co_state = keep_chains n st, co_sent = [], co_closed = []\<rparr>"
| "find_finish_connect shuts st (No_Connection closed) =
     \<lparr>co_sock = None, co_state = clean_up (keep_chains 1 st), co_sent = [],
      co_closed = closed @ snd (sock_close shuts (- 1))\<rparr>"
| "find_finish_connect shuts st (Not_Authorised c sent) =
     \<lparr>co_sock = None, co_state = st, co_sent = sent, co_closed = snd (sock_close shuts c)\<rparr>"
| "find_finish_connect shuts st (Opened c sent) =
     \<lparr>co_sock = Some (c, False), co_state = st, co_sent = sent, co_closed = []\<rparr>"

definition find_connect ::
    "connection_env \<Rightarrow> string \<Rightarrow> string option \<Rightarrow> rmtauth option \<Rightarrow> active \<Rightarrow> connected option" where
  "find_connect env = control_connection (find_finish_connect (cn_shuts env)) env"

text \<open>The head of \<open>pcap_opensource_remote\<close>.\<close>

fun open_finish_connect :: "bool \<Rightarrow> active \<Rightarrow> attempt \<Rightarrow> connected" where
  "open_finish_connect shuts st (No_Address n) =
     \<lparr>co_sock = None, co_state = keep_chains n st, co_sent = [], co_closed = []\<rparr>"
| "open_finish_connect shuts st (No_Connection closed) =
     \<lparr>co_sock = None, co_state = st, co_sent = [], co_closed = closed @ snd (sock_close shuts (- 1))\<rparr>"
| "open_finish_connect shuts st (Not_Authorised c sent) =
     \<lparr>co_sock = None, co_state = st, co_sent = sent, co_closed = snd (sock_close shuts c)\<rparr>"
| "open_finish_connect shuts st (Opened c sent) =
     \<lparr>co_sock = Some (c, False), co_state = st, co_sent = sent, co_closed = []\<rparr>"

definition open_connect ::
    "connection_env \<Rightarrow> string \<Rightarrow> string option \<Rightarrow> rmtauth option \<Rightarrow> active \<Rightarrow> connected option" where
  "open_connect env = control_connection (open_finish_connect (cn_shuts env)) env"

end
