(* ===== verification/Rpcap_Active_Properties.thy ===== *)
theory Rpcap_Active_Properties
  imports Rpcap_Active
begin

text \<open>
  Properties of the active mode: the list of hosts is a table from addresses to sockets and its
  functions are the operations of that table; no address is in it twice; what the list prints is a
  list of permitted hosts with the same members; how the uses of Winsock are held, and what a
  connection attempt writes into the error buffer.
\<close>

section \<open>The list as a table\<close>

definition host_entry :: "act_host \<Rightarrow> (u8 list \<times> u8 list) \<times> int" where
  "host_entry h = (host_key (act_addr h), act_sock h)"

definition host_table :: "active \<Rightarrow> u8 list \<times> u8 list \<rightharpoonup> int" where
  "host_table st = map_of (map host_entry (activeHosts st))"

definition host_keys :: "active \<Rightarrow> (u8 list \<times> u8 list) list" where
  "host_keys st = map (\<lambda>h. host_key (act_addr h)) (activeHosts st)"

lemma map_fst_host_entry [simp]: "map (fst \<circ> host_entry) hs = map (\<lambda>h. host_key (act_addr h)) hs"
  by (simp add: host_entry_def)

lemma dom_host_table: "dom (host_table st) = set (host_keys st)"
  by (auto simp: host_table_def host_keys_def dom_map_of_conv_image_fst host_entry_def image_image)

lemma clean_up_simps [simp]:
  "activeHosts (clean_up st) = activeHosts st" "activeHosts (keep_chains n st) = activeHosts st"
  "sockmain (clean_up st) = sockmain st" "sockmain (keep_chains n st) = sockmain st"
  "sockets (keep_chains n st) = sockets st" "sockets (clean_up st) = sock_cleanup (sockets st)"
  by (simp_all add: clean_up_def keep_chains_def)

lemma table_cong: "activeHosts st = activeHosts st' \<Longrightarrow> host_table st = host_table st' \<and> host_keys st = host_keys st'"
  by (simp add: host_table_def host_keys_def)

text \<open>An address of which accept has returned enough bytes to tell it from others.\<close>

definition complete :: "sockaddr \<Rightarrow> nat \<Rightarrow> bool" where
  "complete a n = (n \<le> length a \<and> (if ss_family a = AF_INET then 8 \<le> n else 24 \<le> n))"

definition peer_ok :: "accept_env \<Rightarrow> bool" where
  "peer_ok env = (case ac_accept env of None \<Rightarrow> True | Some (sock, adr, n) \<Rightarrow> complete adr n \<and> 0 \<le> sock)"

lemma chunk_copied:
  assumes "off + m \<le> n" and "n \<le> length a"
  shows "chunk (take n a @ r) off m = chunk a off m"
proof -
  have "m \<le> n - off" "n - off \<le> length a - off" using assms by simp_all
  then have "m - (n - off) = 0" "m \<le> length a - off" by linarith+
  then show ?thesis using assms \<open>m \<le> n - off\<close> by (simp add: chunk_def drop_take min_def)
qed

lemma copied_key: "complete a n \<Longrightarrow> host_key (take n a @ r) = host_key a"
  by (auto simp: host_key_def ss_family_def sin_addr_def sin6_addr_def complete_def chunk_copied split: if_splits)

lemma listed_iff:
  "list_ex (\<lambda>h. host_key (act_addr h) = host_key a) (activeHosts st) \<longleftrightarrow> host_key a \<in> set (host_keys st)"
  by (force simp: list_ex_iff host_keys_def)

lemma table_append:
  "key \<notin> set (map fst ps) \<Longrightarrow> map_of (ps @ [(key, v)]) = (map_of ps)(key \<mapsto> v)"
  by (induction ps) (auto simp: fun_eq_iff)

text \<open>What the last part of an accept does to the table.\<close>

lemma add_host_cases:
  assumes "add_host env sock from n sent name st = Some r" and "complete from n"
  obtains (old) "host_key from \<in> set (host_keys st)" "ar_ret r = sock" "ar_state r = st"
    | (refused) "host_key from \<notin> set (host_keys st)" "ar_ret r = - 1" "ar_state r = st"
    | (new) a where "host_key from \<notin> set (host_keys st)" "ar_ret r = sock" "host_key a = host_key from"
        "ar_state r = st\<lparr>activeHosts := activeHosts st @ [\<lparr>act_addr = a, act_sock = sock\<rparr>]\<rparr>"
proof (cases "host_key from \<in> set (host_keys st)")
  case True
  then show ?thesis using assms(1) old by (auto simp: add_host_def listed_iff)
next
  case False
  show ?thesis
  proof (cases "ac_block env")
    case None
    with False show ?thesis using assms(1) refused by (auto simp: add_host_def listed_iff refuse_def)
  next
    case (Some block)
    with False assms(1) have "n \<le> length block"
      "r = \<lparr>ar_ret = sock, ar_state = st\<lparr>activeHosts := activeHosts st @
          [\<lparr>act_addr = take n from @ drop n block, act_sock = sock\<rparr>]\<rparr>,
        ar_sent = sent, ar_closed = [], ar_name = name\<rparr>"
      by (auto simp: add_host_def listed_iff slice_def chunk_def blit_def split: if_splits)
    with False new [of "take n from @ drop n block"] copied_key [OF assms(2)] show ?thesis by simp
  qed
qed

text \<open>The whole second half of an accept: the table is unchanged, or it has the new host.\<close>

lemma accept_connection_cases:
  assumes "accept_connection env hostlist auth st = Some r"
    and "peer_ok env"
  obtains (same) "activeHosts (ar_state r) = activeHosts st" "ar_ret r < 0" "sockets (ar_state r) = sockets st"
    | (old) sock adr n where "ac_accept env = Some (sock, adr, n)" "ar_ret r = sock"
        "host_key adr \<in> set (host_keys st)" "activeHosts (ar_state r) = activeHosts st" "sockets (ar_state r) = sockets st"
    | (new) sock adr n a where "ac_accept env = Some (sock, adr, n)" "ar_ret r = sock"
        "host_key adr \<notin> set (host_keys st)" "host_key a = host_key adr"
        "activeHosts (ar_state r) = activeHosts st @ [\<lparr>act_addr = a, act_sock = sock\<rparr>]"
        "sockets (ar_state r) = sockets st"
proof (cases "ac_accept env")
  case None
  then show ?thesis using assms(1) that(1) by (auto simp: accept_connection_def Let_def)
next
  case (Some p)
  then obtain sock adr n where p: "ac_accept env = Some (sock, adr, n)" by (cases p) auto
  show ?thesis
  proof (cases "\<exists>sent name m. map_option (\<lambda>r. r\<lparr>ar_closed := sockmain st # ar_closed r\<rparr>)
      (add_host env sock adr n sent name (keep_chains m (st\<lparr>sockmain := 0\<rparr>))) = Some r")
    case True
    then obtain sent name m r' where
      r': "add_host env sock adr n sent name (keep_chains m (st\<lparr>sockmain := 0\<rparr>)) = Some r'"
      "ar_ret r = ar_ret r'" "ar_state r = ar_state r'" by auto
    have k: "host_keys (keep_chains m (st\<lparr>sockmain := 0\<rparr>)) = host_keys st" by (simp add: host_keys_def)
    have "complete adr n" using assms(2) p by (simp add: peer_ok_def)
    with r'(1) show ?thesis
    proof (cases rule: add_host_cases)
      case old
      with r' p k that(2) show ?thesis by auto
    next
      case refused
      with r' that(1) show ?thesis by auto
    next
      case (new a)
      with r' p k that(3) [of sock adr n a] show ?thesis by auto
    qed
  next
    case False
    with assms(1) p show ?thesis
      by (intro that(1); auto simp: accept_connection_def Let_def refuse_def
          split: option.splits prod.splits if_splits)
  qed
qed


lemma accept_listen_frame:
  "accept_listen env address port st = Some (r, st1) \<Longrightarrow>
     activeHosts st1 = activeHosts st \<and> r \<le> 0 \<and> sockets st1 = snd (sock_init (ac_starts env) (sockets st))"
  by (auto simp: accept_listen_def Let_def split: prod.splits option.splits if_splits)

lemma accept_sockmain:
  "accept_connection env hostlist auth st = Some r \<Longrightarrow> sockmain (ar_state r) = 0"
  by (auto simp: accept_connection_def add_host_def refuse_def Let_def split: option.splits prod.splits if_splits)

text \<open>
  C33: The list is a table from addresses to sockets: a successful accept enters the connecting host
  unless its address is there already; any other accept leaves the table alone.
\<close>

theorem accept_updates_table:
  assumes "pcap_remoteact_accept env address port hostlist auth st = Some r"
    and "peer_ok env"
  shows "host_table (ar_state r) =
    (case ac_accept env of
       None \<Rightarrow> host_table st
     | Some (sock, adr, n) \<Rightarrow>
         if ar_ret r = sock \<and> host_key adr \<notin> dom (host_table st)
         then (host_table st)(host_key adr \<mapsto> sock) else host_table st)"
proof -
  obtain r1 st1 where l: "accept_listen env address port st = Some (r1, st1)"
    using assms(1) by (auto simp: pcap_remoteact_accept_def split: option.splits)
  note f = accept_listen_frame [OF l]
  show ?thesis
  proof (cases "r1 = 0")
    case False
    then have "ar_ret r < 0" "ar_state r = st1" using l assms(1) f by (auto simp: pcap_remoteact_accept_def)
    with f assms(2) [unfolded peer_ok_def] show ?thesis
      using table_cong [of st1 st] by (auto split: option.splits)
  next
    case True
    with l assms(1) have c: "accept_connection env hostlist auth st1 = Some r" by (simp add: pcap_remoteact_accept_def)
    have k: "host_keys st1 = host_keys st" "host_table st1 = host_table st" using f table_cong by blast+
    from c assms(2) show ?thesis
    proof (cases rule: accept_connection_cases)
      case same
      with assms(2) [unfolded peer_ok_def] k show ?thesis
        using table_cong [of "ar_state r" st1] by (auto split: option.splits)
    next
      case (old sock adr n)
      with k show ?thesis using table_cong [of "ar_state r" st1] by (auto simp: dom_host_table)
    next
      case (new sock adr n a)
      then have "host_table (ar_state r) = (host_table st1)(host_key adr \<mapsto> sock)"
        using table_append [of "host_key adr" "map host_entry (activeHosts st1)" sock]
        by (simp add: host_table_def host_entry_def host_keys_def del: map_of_append)
      with new k show ?thesis by (simp add: dom_host_table)
    qed
  qed
qed


section \<open>Finding and closing a host\<close>

text \<open>A name whose addresses all belong to one host.\<close>

definition names_host :: "resolver \<Rightarrow> string \<Rightarrow> u8 list \<times> u8 list \<Rightarrow> bool" where
  "names_host g name key =
     (case g any_stream (Some name) ''0'' of
        None \<Rightarrow> False
      | Some chain \<Rightarrow> chain \<noteq> [] \<and> list_all (\<lambda>a. host_key (ai_addr a) = key) chain)"

lemma names_hostE:
  assumes "names_host g name key"
  obtains chain where "g any_stream (Some name) ''0'' = Some chain"
    "same_host chain = (\<lambda>h. host_key (act_addr h) = key)"
proof -
  obtain chain where c: "g any_stream (Some name) ''0'' = Some chain" "chain \<noteq> []"
    "list_all (\<lambda>a. host_key (ai_addr a) = key) chain"
    using assms by (auto simp: names_host_def split: option.splits)
  then have "same_host chain h \<longleftrightarrow> host_key (act_addr h) = key" for h
    by (cases chain) (auto simp: same_host_def list_ex_iff list_all_iff)
  with c(1) that show ?thesis by blast
qed

lemma find_entry:
  "(case List.find (\<lambda>h. host_key (act_addr h) = key) hs of None \<Rightarrow> None | Some h \<Rightarrow> Some (act_sock h)) =
     map_of (map host_entry hs) key"
  by (induction hs) (auto simp: host_entry_def)

lemma unlink_filter:
  "distinct (map f hs) \<Longrightarrow> unlink_host (\<lambda>h. f h = key) hs = filter (\<lambda>h. f h \<noteq> key) hs"
proof (induction hs)
  case (Cons h hs)
  have "f h = key \<Longrightarrow> filter (\<lambda>h. f h \<noteq> key) hs = hs"
    using Cons.prems by (intro filter_True ballI) (metis distinct.simps(2) image_eqI list.simps(9) set_map)
  with Cons show ?case by simp
qed simp

lemma filter_entry:
  "map_of (map host_entry (filter (\<lambda>h. host_key (act_addr h) \<noteq> key) hs)) = (map_of (map host_entry hs))(key := None)"
  by (induction hs) (auto simp: host_entry_def fun_eq_iff)

lemma unlink_keys:
  "set (map f (unlink_host P hs)) \<subseteq> set (map f hs) \<and> (distinct (map f hs) \<longrightarrow> distinct (map f (unlink_host P hs)))"
  by (induction hs) auto

lemma getsock_table:
  assumes "names_host g name key"
  shows "fst (rpcap_remoteact_getsock g name st) = (case host_table st key of None \<Rightarrow> 0 | Some s \<Rightarrow> s)"
proof -
  obtain chain where c: "g any_stream (Some name) ''0'' = Some chain"
    "same_host chain = (\<lambda>h. host_key (act_addr h) = key)" by (rule names_hostE [OF assms])
  then show ?thesis
    using find_entry [of key "activeHosts st"]
    by (auto simp: rpcap_remoteact_getsock_def host_table_def split: option.splits)
qed

text \<open>
  Closing a host takes it out of the table, and only if its connection could be shut down; a
  lookup afterwards does not find it.
\<close>

theorem close_updates_table:
  assumes "distinct (host_keys st)" and "names_host g name key"
  shows "let r = pcap_remoteact_close g out shuts name st in
    (if key \<in> dom (host_table st) \<and> shuts
     then cr_ret r = 0 \<and> host_table (cr_state r) = (host_table st)(key := None) \<and>
       fst (rpcap_remoteact_getsock g name (cr_state r)) = 0
     else cr_ret r = - 1 \<and> host_table (cr_state r) = host_table st)"
proof -
  obtain chain where c: "g any_stream (Some name) ''0'' = Some chain"
    "same_host chain = (\<lambda>h. host_key (act_addr h) = key)" by (rule names_hostE [OF assms(2)])
  let ?r = "pcap_remoteact_close g out shuts name st"
  have f: "(case List.find (same_host chain) (activeHosts st) of None \<Rightarrow> None | Some h \<Rightarrow> Some (act_sock h)) =
      host_table st key" using c(2) find_entry [of key "activeHosts st"] by (simp add: host_table_def)
  show ?thesis
  proof (cases "List.find (same_host chain) (activeHosts st)")
    case None
    then have "?r = \<lparr>cr_ret = - 1, cr_state = clean_up st, cr_sent = [], cr_closed = []\<rparr>" "host_table st key = None"
      using c(1) f by (simp_all add: pcap_remoteact_close_def)
    then show ?thesis using table_cong [of "clean_up st" st] by (auto simp: Let_def)
  next
    case (Some h)
    then have t: "host_table st key = Some (act_sock h)" using f by simp
    show ?thesis
    proof (cases shuts)
      case False
      then have "cr_ret ?r = - 1" "activeHosts (cr_state ?r) = activeHosts st"
        using c(1) Some by (simp_all add: pcap_remoteact_close_def sock_close_def)
      then show ?thesis using False table_cong [of "cr_state ?r" st] by (auto simp: Let_def)
    next
      case True
      then have r: "cr_ret ?r = 0"
        "activeHosts (cr_state ?r) = unlink_host (same_host chain) (activeHosts st)"
        using c(1) Some by (simp_all add: pcap_remoteact_close_def sock_close_def)
      then have "host_table (cr_state ?r) = (host_table st)(key := None)"
        using unlink_filter [of "\<lambda>h. host_key (act_addr h)"] assms(1) c(2)
        by (simp add: host_table_def host_keys_def filter_entry)
      with r(1) t True getsock_table [OF assms(2), of "cr_state ?r"] show ?thesis by (auto simp: Let_def)
    qed
  qed
qed

section \<open>Runs\<close>

text \<open>
  The operations of the library, in any order; an accept has two steps. The addresses accept returns
  are complete.
\<close>

inductive act_step :: "active \<Rightarrow> active \<Rightarrow> bool" where
  listen: "accept_listen env address port st = Some (r, st') \<Longrightarrow> act_step st st'"
| connection: "accept_connection env hostlist auth st = Some r \<Longrightarrow>
    peer_ok env \<Longrightarrow> act_step st (ar_state r)"
| cleanup: "act_step st (fst (pcap_remoteact_cleanup st))"
| close: "act_step st (cr_state (pcap_remoteact_close g out shuts name st))"
| found: "find_connect cenv name port auth st = Some c \<Longrightarrow> act_step st (co_state c)"
| opened: "open_connect cenv name port auth st = Some c \<Longrightarrow> act_step st (co_state c)"
| end_capture: "act_step st (clean_up st)"

lemma getsock_frame [simp]:
  "activeHosts (snd (rpcap_remoteact_getsock g name st)) = activeHosts st"
  "sockets (snd (rpcap_remoteact_getsock g name st)) = sockets st"
  by (simp_all add: rpcap_remoteact_getsock_def split: option.splits)

lemma finish_frame [simp]:
  "activeHosts (co_state (find_finish_connect shuts st a)) = activeHosts st"
  "activeHosts (co_state (open_finish_connect shuts st a)) = activeHosts st"
  by (cases a; simp)+

lemma control_connection_cases:
  assumes "control_connection finish env name port auth st = Some c"
  obtains (stopped) "co_sock c = None" "activeHosts (co_state c) = activeHosts st"
      "sock_init (cn_starts env) (sockets st) = (- 1, sockets (co_state c))"
    | (missing) w where "co_sock c = None" "activeHosts (co_state c) = activeHosts st"
      "sock_init (cn_starts env) (sockets st) = (0, w)" "sockets (co_state c) = w"
    | (listed) w s where "co_sock c = Some (s, True)" "activeHosts (co_state c) = activeHosts st"
      "sock_init (cn_starts env) (sockets st) = (0, w)" "sockets (co_state c) = w"
    | (fresh) w st2 a where "sock_init (cn_starts env) (sockets st) = (0, w)" "sockets st2 = w"
      "activeHosts st2 = activeHosts st" "c = finish st2 a"
proof -
  obtain r w where i: "sock_init (cn_starts env) (sockets st) = (r, w)" by fastforce
  then have r: "r = - 1 \<or> r = 0" by (auto simp: sock_init_def split: if_splits)
  let ?st = "st\<lparr>sockets := w\<rparr>"
  obtain s st2 where g: "rpcap_remoteact_getsock (cn_getaddrinfo env) name ?st = (s, st2)" by fastforce
  then have f: "activeHosts st2 = activeHosts st" "sockets st2 = w"
    using getsock_frame [of "cn_getaddrinfo env" name ?st] by simp_all
  from r assms i g f that show ?thesis by (auto simp: control_connection_def Let_def split: if_splits)
qed

lemma connect_frame:
  "find_connect env name port auth st = Some c \<Longrightarrow> activeHosts (co_state c) = activeHosts st"
  "open_connect env name port auth st = Some c \<Longrightarrow> activeHosts (co_state c) = activeHosts st"
  unfolding find_connect_def open_connect_def
  by (erule control_connection_cases; simp)+

lemma close_hosts:
  "activeHosts (cr_state (pcap_remoteact_close g out shuts name st)) = activeHosts st \<or>
     (\<exists>P. activeHosts (cr_state (pcap_remoteact_close g out shuts name st)) = unlink_host P (activeHosts st))"
  by (auto simp: pcap_remoteact_close_def Let_def split: option.splits prod.splits)

lemma distinct_keys_step: "act_step st st' \<Longrightarrow> distinct (host_keys st) \<Longrightarrow> distinct (host_keys st')"
proof (induction rule: act_step.induct)
  case (listen env address port st r st')
  then show ?case using accept_listen_frame table_cong by metis
next
  case (connection env hostlist auth st r)
  from connection(1,2) show ?case
  proof (cases rule: accept_connection_cases)
    case (new sock adr n a)
    with connection(3) show ?thesis by (simp add: host_keys_def)
  qed (use connection(3) in \<open>simp_all add: host_keys_def\<close>)
next
  case (close st g out shuts name)
  then show ?case using close_hosts [of g out shuts name st] unlink_keys unfolding host_keys_def by metis
qed (simp_all add: host_keys_def pcap_remoteact_cleanup_def connect_frame)

text \<open>
  C34: Whatever the order of the calls, also of calls between the two halves of an accept, no two
  hosts of the list have the same address.
\<close>

theorem active_hosts_distinct: "act_step\<^sup>*\<^sup>* at_start st \<Longrightarrow> distinct (host_keys st)"
  by (induction rule: rtranclp_induct) (auto simp: at_start_def host_keys_def intro: distinct_keys_step [unfolded host_keys_def])


section \<open>The uses of Winsock\<close>

text \<open>
  Runs in which every close is of a listed host and succeeds, and \<open>pcap_remoteact_cleanup\<close> is called
  only while an accept waits, once for each wait; with the number of the connections of captures and
  searches that are still in use. The calls of other threads may come between the two halves of an
  accept. After a clean-up the socket the accept waits on is closed: it has no connection to return,
  or its thread has been killed, which is what the function is made for.
\<close>

datatype wait = Idle | Waiting | Interrupted

inductive orderly :: "active \<Rightarrow> nat \<Rightarrow> wait \<Rightarrow> bool" where
  start: "orderly at_start 0 Idle"
| listen: "orderly st n Idle \<Longrightarrow> accept_listen env address port st = Some (r, st') \<Longrightarrow>
    orderly st' n (if r = 0 then Waiting else Idle)"
| cleanup: "orderly st n Waiting \<Longrightarrow> orderly (fst (pcap_remoteact_cleanup st)) n Interrupted"
| connection: "orderly st n w \<Longrightarrow> w = Waiting \<or> w = Interrupted \<and> ac_accept env = None \<Longrightarrow>
    accept_connection env hostlist auth st = Some r \<Longrightarrow> peer_ok env \<Longrightarrow> orderly (ar_state r) n Idle"
| killed: "orderly st n Interrupted \<Longrightarrow> orderly st n Idle"
| closed: "orderly st n w \<Longrightarrow> cr_ret (pcap_remoteact_close g out shuts name st) = 0 \<Longrightarrow>
    orderly (cr_state (pcap_remoteact_close g out shuts name st)) n w"
| search: "orderly st n w \<Longrightarrow> find_connect cenv name port auth st = Some c \<Longrightarrow>
    orderly (co_state c) (if co_sock c = None then n else Suc n) w"
| capture: "orderly st n w \<Longrightarrow> open_connect cenv name port auth st = Some c \<Longrightarrow>
    orderly (co_state c) (if co_sock c = None then n else Suc n) w"
| finished: "orderly st (Suc n) w \<Longrightarrow> orderly (clean_up st) n w"

text \<open>A whole accept.\<close>

lemma orderly_accept:
  assumes "orderly st n Idle" and "pcap_remoteact_accept env address port hostlist auth st = Some r" and "peer_ok env"
  shows "orderly (ar_state r) n Idle"
proof -
  obtain r1 st1 where l: "accept_listen env address port st = Some (r1, st1)"
    using assms(2) by (auto simp: pcap_remoteact_accept_def split: option.splits)
  note o1 = orderly.listen [OF assms(1) l]
  show ?thesis
  proof (cases "r1 = 0")
    case True
    with l assms(2) have "accept_connection env hostlist auth st1 = Some r"
      by (simp add: pcap_remoteact_accept_def)
    with o1 True assms(3) show ?thesis by (auto intro: orderly.connection)
  next
    case False
    with l assms(2) o1 show ?thesis by (auto simp: pcap_remoteact_accept_def)
  qed
qed

definition held :: "winsock \<Rightarrow> nat \<Rightarrow> bool" where
  "held w n = (int n \<le> sockcount w \<and> (0 < sockcount w \<longrightarrow> started w))"

lemma counted_init:
  "held w n \<Longrightarrow> sock_init s w = (0, w') \<Longrightarrow> held w' (Suc n)"
  "held w n \<Longrightarrow> sock_init s w = (- 1, w') \<Longrightarrow> held w' n"
  by (auto simp: held_def sock_init_def split: if_splits)

lemma counted_less: "held w (Suc n) \<Longrightarrow> held w n"
  by (simp add: held_def)

lemma counted_cleanup: "held w (Suc n) \<Longrightarrow> held (sock_cleanup w) n"
  by (auto simp: held_def sock_cleanup_def Let_def)

lemma counted_listen:
  "held w n \<Longrightarrow> sock_init s w = (r, w') \<Longrightarrow> r = - 1 \<and> held w' n \<or> r = 0 \<and> held w' (Suc n)"
  using counted_init [of w n s w'] by (cases "r = - 1") (simp_all add: sock_init_def split: if_splits)

lemma counted_wait:
  assumes "accept_listen env address port st = Some (r, st')"
    and "held (sockets st) (length (activeHosts st) + n)"
  shows "held (sockets st') (length (activeHosts st') + n + (if r = 0 then 1 else 0))"
proof -
  obtain r0 w where i: "sock_init (ac_starts env) (sockets st) = (r0, w)" by fastforce
  with accept_listen_frame [OF assms(1)] have f: "activeHosts st' = activeHosts st" "sockets st' = w" by simp_all
  have r0: "r0 = - 1 \<Longrightarrow> r = - 1" using assms(1) i by (auto simp: accept_listen_def Let_def)
  from counted_listen [OF assms(2) i] r0 f show ?thesis by (auto dest: counted_less)
qed

lemma counted_connection:
  assumes "accept_connection env hostlist auth st = Some r" and "peer_ok env"
    and "held (sockets st) (length (activeHosts st) + n + (if ac_accept env = None then 0 else 1))"
  shows "held (sockets (ar_state r)) (length (activeHosts (ar_state r)) + n)"
  using assms(1,2)
proof (cases rule: accept_connection_cases)
  case same
  with assms(3) show ?thesis by (auto split: if_splits dest: counted_less)
next
  case (old sock adr n)
  with assms(3) show ?thesis by (auto dest: counted_less)
next
  case (new sock adr n a)
  with assms(3) show ?thesis by simp
qed

lemma counted_close:
  assumes "cr_ret (pcap_remoteact_close g out shuts name st) = 0"
    and "held (sockets st) (length (activeHosts st) + n)"
  shows "held (sockets (cr_state (pcap_remoteact_close g out shuts name st)))
    (length (activeHosts (cr_state (pcap_remoteact_close g out shuts name st))) + n)"
proof -
  let ?r = "pcap_remoteact_close g out shuts name st"
  obtain chain h where f: "List.find (same_host chain) (activeHosts st) = Some h"
    and r: "activeHosts (cr_state ?r) = unlink_host (same_host chain) (activeHosts st)"
      "sockets (cr_state ?r) = sock_cleanup (sockets st)"
    using assms(1) by (auto simp: pcap_remoteact_close_def Let_def split: option.splits prod.splits if_splits)
  have "List.find P hs = Some h \<Longrightarrow> Suc (length (unlink_host P hs)) = length hs" for P hs
    by (induction hs) (auto split: if_splits)
  with f r assms(2) counted_cleanup show ?thesis by (metis add_Suc)
qed

lemma counted_connect:
  assumes "control_connection finish env name port auth st = Some c"
    and "finish = find_finish_connect s \<or> finish = open_finish_connect s"
    and "held (sockets st) (length (activeHosts st) + n)"
  shows "held (sockets (co_state c)) (length (activeHosts (co_state c)) + (if co_sock c = None then n else Suc n))"
  using assms(1)
proof (cases rule: control_connection_cases)
  case stopped
  with counted_init(2) [OF assms(3)] show ?thesis by auto
next
  case (missing w)
  with counted_init(1) [OF assms(3)] counted_less show ?thesis by auto
next
  case (listed w s)
  with counted_init(1) [OF assms(3)] show ?thesis by auto
next
  case (fresh w st2 a)
  with counted_init(1) [OF assms(3)] have c: "held (sockets st2) (Suc (length (activeHosts st) + n))" by auto
  from fresh assms(2) show ?thesis
    by (cases a; elim disjE) (auto intro: counted_less [OF c] c counted_cleanup [OF c])
qed

definition waiters :: "wait \<Rightarrow> nat" where
  "waiters w = (if w = Waiting then 1 else 0)"

lemma orderly_counted: "orderly st n w \<Longrightarrow> held (sockets st) (length (activeHosts st) + n + waiters w)"
proof (induction rule: orderly.induct)
  case start
  then show ?case by (simp add: at_start_def held_def waiters_def)
next
  case (listen st n env address port r st')
  then show ?case using counted_wait [OF listen(2), of n] by (auto simp: waiters_def)
next
  case (cleanup st n)
  then show ?case using counted_cleanup [of "sockets st" "length (activeHosts st) + n"]
    by (auto simp: pcap_remoteact_cleanup_def waiters_def dest: counted_less)
next
  case (connection st n w env hostlist auth r)
  have "held (sockets st) (length (activeHosts st) + n + (if ac_accept env = None then 0 else 1))"
    using connection(2,5) by (auto simp: waiters_def dest: counted_less)
  from counted_connection [OF connection(3,4) this] show ?case by (simp add: waiters_def)
next
  case (killed st n)
  then show ?case by (simp add: waiters_def)
next
  case (closed st n w g out shuts name)
  then show ?case using counted_close [OF closed(2), of "n + waiters w"] by (simp add: add.assoc)
next
  case (search st n w cenv name port auth c)
  then show ?case
    using counted_connect [OF search(2) [unfolded find_connect_def], of "cn_shuts cenv" "n + waiters w"]
    by (auto simp: add.assoc)
next
  case (capture st n w cenv name port auth c)
  then show ?case
    using counted_connect [OF capture(2) [unfolded open_connect_def], of "cn_shuts cenv" "n + waiters w"]
    by (auto simp: add.assoc)
next
  case (finished st n w)
  then show ?case using counted_cleanup [of "sockets st" "length (activeHosts st) + n + waiters w"] by simp
qed

text \<open>
  C35: Winsock stays started as long as a host is listed or a connection is in use, in every run in
  which each close is of a listed host and succeeds, and \<open>pcap_remoteact_cleanup\<close> is called only while
  an accept waits, at most once for each wait (\<open>orderly\<close>): every host of the list holds one use of it,
  every capture another, and an accept that waits one more, which a clean-up gives back. Outside these
  conditions it is stopped too early: \<open>close_of_unknown_host_stops_winsock\<close> and
  \<open>cleanups_stop_winsock\<close>.
\<close>

theorem winsock_stays_started:
  assumes "orderly st n w" and "activeHosts st \<noteq> [] \<or> 0 < n"
  shows "started (sockets st)"
proof -
  have "0 < int (length (activeHosts st) + n + waiters w)" using assms(2) by (cases "activeHosts st") auto
  moreover have "int (length (activeHosts st) + n + waiters w) \<le> sockcount (sockets st)"
    "0 < sockcount (sockets st) \<longrightarrow> started (sockets st)"
    using orderly_counted [OF assms(1)] unfolding held_def by blast+
  ultimately show ?thesis by linarith
qed

text \<open>
  When the socket of an accept cannot be opened, \<open>sockmain\<close> stays at -1, and every call of
  \<open>pcap_remoteact_cleanup\<close> after that closes the socket -1 and takes a use away: two of them stop
  Winsock while a host is connected.
\<close>

theorem cleanups_stop_winsock:
  assumes "activeHosts st \<noteq> []" and "sockcount (sockets st) = 1"
    and "pcap_remoteact_accept env address port hostlist auth st = Some r" and "sockmain (ar_state r) = - 1"
  shows "let st' = fst (pcap_remoteact_cleanup (fst (pcap_remoteact_cleanup (ar_state r)))) in
    activeHosts st' = activeHosts st \<and> \<not> started (sockets st')"
proof -
  obtain r1 st1 where l: "accept_listen env address port st = Some (r1, st1)"
    using assms(3) by (auto simp: pcap_remoteact_accept_def split: option.splits)
  have "r1 \<noteq> 0"
  proof
    assume "r1 = 0"
    with l assms(3) have "accept_connection env hostlist auth st1 = Some r"
      by (simp add: pcap_remoteact_accept_def)
    from accept_sockmain [OF this] assms(4) show False by simp
  qed
  with l assms(3) have "ar_state r = st1" by (auto simp: pcap_remoteact_accept_def)
  moreover note accept_listen_frame [OF l]
  moreover have "sockcount (snd (sock_init (ac_starts env) (sockets st))) = 2"
    using assms(2) by (simp add: sock_init_def)
  ultimately show ?thesis
    using assms(4) by (simp add: pcap_remoteact_cleanup_def sock_cleanup_def Let_def)
qed

text \<open>
  The close of a host that is not listed takes a use away that it never took: with one host
  connected, Winsock is stopped while the connection is still in the list.
\<close>

theorem close_of_unknown_host_stops_winsock:
  assumes "names_host g name key" and "key \<notin> dom (host_table st)" and "sockcount (sockets st) = 1"
  shows "let r = pcap_remoteact_close g out shuts name st in
    cr_ret r = - 1 \<and> \<not> started (sockets (cr_state r)) \<and> activeHosts (cr_state r) = activeHosts st"
proof -
  obtain chain where c: "g any_stream (Some name) ''0'' = Some chain"
    "same_host chain = (\<lambda>h. host_key (act_addr h) = key)" by (rule names_hostE [OF assms(1)])
  have "List.find (same_host chain) (activeHosts st) = None"
    using c(2) assms(2) find_entry [of key "activeHosts st"]
    by (auto simp: host_table_def domIff split: option.splits)
  with c(1) assms(3) show ?thesis
    by (simp add: pcap_remoteact_close_def sock_cleanup_def Let_def)
qed

text \<open>
  A host that is in the list and connects again is accepted and told so, but the list keeps the
  old socket: the next search for its interfaces, or capture, talks to the old connection.
\<close>

theorem reconnected_host_keeps_old_socket:
  assumes "pcap_remoteact_accept env address port hostlist auth st = Some r"
    and "ac_accept env = Some (sock, adr, n)" and "peer_ok env" and "ar_ret r = sock"
    and "host_table st (host_key adr) = Some old" and "old \<noteq> 0" and "old \<noteq> - 1"
    and "names_host (cn_getaddrinfo cenv) name (host_key adr)" and "0 < sockcount (sockets (ar_state r))"
  shows "\<exists>c. find_connect cenv name p auth' (ar_state r) = Some c \<and> co_sock c = Some (old, True)"
proof -
  have "host_table (ar_state r) (host_key adr) = Some old"
    using accept_updates_table [OF assms(1,3)] assms(2,5) by (auto simp: domIff)
  moreover obtain w where w: "sock_init (cn_starts cenv) (sockets (ar_state r)) = (0, w)"
    using assms(9) by (simp add: sock_init_def)
  ultimately have "fst (rpcap_remoteact_getsock (cn_getaddrinfo cenv) name ((ar_state r)\<lparr>sockets := w\<rparr>)) = old"
    using getsock_table [OF assms(8)] table_cong [of "(ar_state r)\<lparr>sockets := w\<rparr>" "ar_state r"] by simp
  with w assms(6,7) show ?thesis
    by (auto simp: find_connect_def control_connection_def Let_def split: prod.splits)
qed


section \<open>The list of the hosts as text\<close>

text \<open>\<open>getnameinfo\<close> writes the numeric name of an address, without the characters of a list.\<close>

definition numeric_names :: "namer \<Rightarrow> (sockaddr \<Rightarrow> string) \<Rightarrow> sockaddr \<Rightarrow> bool" where
  "numeric_names g nm a =
     (nm a \<noteq> [] \<and> length (nm a) < RPCAP_HOSTLIST_SIZE \<and> NUL \<notin> set (nm a) \<and>
      set (nm a) \<inter> set RPCAP_HOSTLIST_SEP = {} \<and>
      g a (if ss_family a = AF_INET then 16 else 28) RPCAP_HOSTLIST_SIZE 0 True = Some (nm a, []))"

definition host_text :: "(sockaddr \<Rightarrow> string) \<Rightarrow> char \<Rightarrow> act_host list \<Rightarrow> string" where
  "host_text nm sep hs = concat (map (\<lambda>h. nm (act_addr h) @ [sep]) hs)"

lemma c_str_ends: "NUL \<notin> set t \<Longrightarrow> c_str (t @ NUL # r) = Some t"
  by (auto simp: c_str_def takeWhile_append)

lemma getascii_numeric:
  assumes "numeric_names g nm a" and "length hoststr = RPCAP_HOSTLIST_SIZE"
  shows "\<exists>r. sock_getascii_addrport g a (Some hoststr) None True = Some (- 1, Some (nm a @ NUL # r), None) \<and>
    length (nm a @ NUL # r) = RPCAP_HOSTLIST_SIZE"
  using assms
  by (auto simp: sock_getascii_addrport_def numeric_names_def Let_def buf_size_def both_def blit_def)

lemma append_name_writes:
  assumes "NUL \<notin> set pre" and "buf = pre @ NUL # rest" and "length pre + length name + 1 < length buf"
  shows "\<exists>rest'. append_name buf name sep (length pre + length name + 1) =
    Some ((pre @ name @ [sep]) @ NUL # rest') \<and> length ((pre @ name @ [sep]) @ NUL # rest') = length buf"
proof -
  obtain b where b: "strcat buf name = Some ((pre @ name) @ NUL # b)" "length ((pre @ name) @ NUL # b) = length buf"
    using assms by (auto simp: strcat_def c_str_ends blit_def)
  moreover obtain x b' where "b = x # b'" using b(2) assms(3) by (cases b) auto
  ultimately show ?thesis using assms(3) by (simp add: append_name_def blit_def Let_def)
qed

lemma list_loop_writes:
  assumes "list_all (\<lambda>h. numeric_names g nm (act_addr h)) hs" and "sep \<noteq> NUL"
    and "NUL \<notin> set pre" and "room \<le> int (length (pre @ NUL # rest))" and "length hoststr = RPCAP_HOSTLIST_SIZE"
  shows "\<exists>buf. list_loop g sep room hs (length pre) hoststr (pre @ NUL # rest) =
      Some (if hs = [] \<or> int (length pre + length (host_text nm sep hs)) < room then 0 else - 1, buf) \<and>
    length buf = length (pre @ NUL # rest) \<and>
    (hs = [] \<or> int (length pre + length (host_text nm sep hs)) < room \<longrightarrow>
       c_str buf = Some (pre @ host_text nm sep hs))"
  using assms
proof (induction hs arbitrary: pre rest hoststr)
  case Nil
  then show ?case by (simp add: host_text_def c_str_ends)
next
  case (Cons h hs)
  let ?n = "nm (act_addr h)" and ?buf = "pre @ NUL # rest"
  let ?len = "length pre + length ?n + 1"
  have nm: "numeric_names g nm (act_addr h)" using Cons.prems(1) by simp
  from getascii_numeric [OF this Cons.prems(5)] obtain r where
    r: "sock_getascii_addrport g (act_addr h) (Some hoststr) None True = Some (- 1, Some (?n @ NUL # r), None)"
    "length (?n @ NUL # r) = RPCAP_HOSTLIST_SIZE" by blast
  have nul: "NUL \<notin> set ?n" using nm by (simp add: numeric_names_def)
  have total: "length pre + length (host_text nm sep (h # hs)) = ?len + length (host_text nm sep hs)"
    by (simp add: host_text_def)
  show ?case
  proof (cases "int ?len < room")
    case False
    then have "list_loop g sep room (h # hs) (length pre) hoststr ?buf = Some (- 1, ?buf)"
      using r nul by (simp add: c_str_ends Let_def)
    with False total show ?thesis by auto
  next
    case True
    then have "?len < length ?buf" using Cons.prems(4) by linarith
    from append_name_writes [OF Cons.prems(3) refl this, of sep] obtain rest' where
      w: "append_name ?buf ?n sep ?len = Some ((pre @ ?n @ [sep]) @ NUL # rest')"
      "length ((pre @ ?n @ [sep]) @ NUL # rest') = length ?buf" by blast
    have "list_loop g sep room (h # hs) (length pre) hoststr ?buf =
        list_loop g sep room hs (length (pre @ ?n @ [sep])) (?n @ NUL # r) ((pre @ ?n @ [sep]) @ NUL # rest')"
      using r nul w True by (simp add: c_str_ends Let_def)
    moreover have "room \<le> int (length ((pre @ ?n @ [sep]) @ NUL # rest'))" using w(2) Cons.prems(4) by simp
    ultimately show ?thesis
      using Cons.IH [of "pre @ ?n @ [sep]" rest' "?n @ NUL # r"] Cons.prems(1-3) nul r(2) w(2) True total
      by (cases "hs = []") (auto simp: host_text_def)
  qed
qed

text \<open>
  The function that lists the hosts writes nothing outside the buffer it is given, and writes
  the numeric names, each with the separator behind it, exactly when they fit with the final 0.
\<close>

theorem hosts_are_listed:
  assumes "list_all (\<lambda>h. numeric_names g nm (act_addr h)) (activeHosts st)" and "sep \<noteq> NUL"
    and "hostlist \<noteq> []" and "room \<le> int (length hostlist)" and "length hoststr = RPCAP_HOSTLIST_SIZE"
  shows "\<exists>buf. length buf = length hostlist \<and>
    (if activeHosts st = [] \<or> int (length (host_text nm sep (activeHosts st))) < room
     then pcap_remoteact_list g sep room hoststr hostlist st = Some (0, buf) \<and>
       c_str buf = Some (host_text nm sep (activeHosts st))
     else pcap_remoteact_list g sep room hoststr hostlist st = Some (- 1, buf))"
proof -
  obtain x rest where h: "hostlist = x # rest" using assms(3) by (cases hostlist) auto
  then have "pcap_remoteact_list g sep room hoststr hostlist st =
      list_loop g sep room (activeHosts st) (length ([] :: string)) hoststr ([] @ NUL # rest)"
    by (simp add: pcap_remoteact_list_def blit_def)
  moreover from list_loop_writes [OF assms(1,2), of "[]" room rest hoststr] assms(4,5) h obtain buf where
    "list_loop g sep room (activeHosts st) (length ([] :: string)) hoststr ([] @ NUL # rest) =
      Some (if activeHosts st = [] \<or> int (length (host_text nm sep (activeHosts st))) < room then 0 else - 1, buf)"
    "length buf = length hostlist"
    "activeHosts st = [] \<or> int (length (host_text nm sep (activeHosts st))) < room \<longrightarrow>
       c_str buf = Some (host_text nm sep (activeHosts st))" by auto
  ultimately show ?thesis by (intro exI [of _ buf]) simp
qed


section \<open>The permitted hosts\<close>

text \<open>The words of a string, without \<open>strtok\<close>: the longest runs of characters that do not separate.\<close>

fun words :: "string \<Rightarrow> string \<Rightarrow> string \<Rightarrow> string list" where
  "words sep cur [] = (if cur = [] then [] else [rev cur])"
| "words sep cur (c # s) =
     (if c \<notin> set sep then words sep (c # cur) s
      else if cur = [] then words sep [] s else rev cur # words sep [] s)"

lemma words_skip: "words sep [] (dropWhile (\<lambda>c. c \<in> set sep) s) = words sep [] s"
  by (induction s) auto

lemma words_started:
  "cur \<noteq> [] \<Longrightarrow> words sep cur s =
     (rev cur @ takeWhile (\<lambda>c. c \<notin> set sep) s) # words sep [] (drop 1 (dropWhile (\<lambda>c. c \<notin> set sep) s))"
  by (induction s arbitrary: cur) auto

lemma words_strtok:
  "words sep [] s = (case strtok sep s of None \<Rightarrow> [] | Some (t, r) \<Rightarrow> t # words sep [] r)"
proof (cases "dropWhile (\<lambda>c. c \<in> set sep) s")
  case Nil
  then have "words sep [] s = words sep [] []" using words_skip [of sep s] by argo
  with Nil show ?thesis by (simp add: strtok_def)
next
  case (Cons c t)
  then have "c \<notin> set sep" by (metis hd_dropWhile list.distinct(1) list.sel(1))
  with Cons show ?thesis using words_skip [of sep s] words_started [of "[c]" sep t] by (simp add: strtok_def)
qed

definition permits :: "resolver \<Rightarrow> string \<Rightarrow> u8 list \<times> u8 list \<Rightarrow> bool" where
  "permits g token key =
     (case g any_stream (Some token) ''0'' of
        None \<Rightarrow> False
      | Some chain \<Rightarrow> list_ex (\<lambda>a. host_key (ai_addr a) = key) chain)"

lemma hostlist_loop_iff:
  "hostlist_loop g sep adr s \<longleftrightarrow> list_ex (\<lambda>t. permits g t (host_key adr)) (words sep [] s)"
proof (induction g sep adr s rule: hostlist_loop.induct)
  case (1 g sep adr s)
  show ?case
  proof (cases "strtok sep s")
    case None
    then show ?thesis by (simp add: hostlist_loop.simps [of g sep adr s] words_strtok [of sep s])
  next
    case (Some p)
    then obtain t r where p: "strtok sep s = Some (t, r)" by (cases p) auto
    have w: "words sep [] s = t # words sep [] r" using p by (simp add: words_strtok [of sep s])
    show ?thesis
    proof (cases "g any_stream (Some t) ''0''")
      case None
      with p w 1(1) [OF p refl] show ?thesis
        by (simp add: hostlist_loop.simps [of g sep adr s] permits_def)
    next
      case (Some chain)
      have "list_ex (\<lambda>a. sock_cmpaddr adr (ai_addr a) = 0) chain \<longleftrightarrow> permits g t (host_key adr)"
        using Some by (auto simp: permits_def list_ex_iff eq_commute [of "host_key adr"])
      with Some p w 1(2) [OF p refl Some] show ?thesis
        by (auto simp: hostlist_loop.simps [of g sep adr s])
    qed
  qed
qed

lemma accept_permitted:
  assumes "accept_connection env (Some permitted) auth st = Some r" and "permitted \<noteq> []"
    and "activeHosts (ar_state r) \<noteq> activeHosts st \<or> 0 \<le> ar_ret r"
  shows "\<exists>sock adr n ra sent rest. ac_accept env = Some (sock, adr, n) \<and> ar_ret r = sock \<and>
    list_ex (\<lambda>t. permits (ac_getaddrinfo env) t (host_key adr)) (words RPCAP_HOSTLIST_SEP [] permitted) \<and>
    rpcap_sendauth auth (ac_out env) (ac_in env) = Some (ra, sent, rest) \<and> ra \<noteq> - 1"
  using assms
  by (auto simp: accept_connection_def Let_def refuse_def sock_check_hostlist_def hostlist_loop_iff add_host_def
      split: option.splits prod.splits if_splits)

lemma accept_refused:
  assumes "accept_connection env (Some permitted) auth st = Some r" and "permitted \<noteq> []"
    and "ac_accept env = Some (sock, adr, n)"
    and "\<not> list_ex (\<lambda>t. permits (ac_getaddrinfo env) t (host_key adr)) (words RPCAP_HOSTLIST_SEP [] permitted)"
  shows "ar_ret r = - 1 \<and> sock \<in> set (ar_closed r) \<and> activeHosts (ar_state r) = activeHosts st"
  using assms
  by (auto simp: accept_connection_def Let_def refuse_def sock_check_hostlist_def hostlist_loop_iff sock_close_def
      split: option.splits prod.splits if_splits)

text \<open>
  C36: With a list of permitted hosts that is given and not empty, an accept succeeds or enters a host
  into the list only if the address of the host is one of the words of the list and the authentication
  with it has succeeded, and then it returns the socket of the host; a host whose address is not one of
  the words is refused: the call returns -1, its socket is closed and the list is left alone. (Without
  a list, or with an empty one, every host is permitted: \<open>no_list_permits_everybody\<close>.)
\<close>

theorem only_permitted_hosts_are_added:
  assumes "pcap_remoteact_accept env address port (Some permitted) auth st = Some r" and "permitted \<noteq> []"
  shows "(activeHosts (ar_state r) \<noteq> activeHosts st \<or> 0 \<le> ar_ret r \<longrightarrow>
      (\<exists>sock adr n ra sent rest. ac_accept env = Some (sock, adr, n) \<and> ar_ret r = sock \<and>
        list_ex (\<lambda>t. permits (ac_getaddrinfo env) t (host_key adr)) (words RPCAP_HOSTLIST_SEP [] permitted) \<and>
        rpcap_sendauth auth (ac_out env) (ac_in env) = Some (ra, sent, rest) \<and> ra \<noteq> - 1)) \<and>
    (\<forall>st1 sock adr n. accept_listen env address port st = Some (0, st1) \<and> ac_accept env = Some (sock, adr, n) \<and>
        \<not> list_ex (\<lambda>t. permits (ac_getaddrinfo env) t (host_key adr)) (words RPCAP_HOSTLIST_SEP [] permitted) \<longrightarrow>
      ar_ret r = - 1 \<and> sock \<in> set (ar_closed r) \<and> activeHosts (ar_state r) = activeHosts st)"
proof -
  obtain r1 st1 where l: "accept_listen env address port st = Some (r1, st1)"
    using assms(1) by (auto simp: pcap_remoteact_accept_def split: option.splits)
  note f = accept_listen_frame [OF l]
  show ?thesis
  proof (cases "r1 = 0")
    case False
    with l assms(1) f show ?thesis by (auto simp: pcap_remoteact_accept_def)
  next
    case True
    with l assms(1) have c: "accept_connection env (Some permitted) auth st1 = Some r"
      by (simp add: pcap_remoteact_accept_def)
    show ?thesis
      using accept_permitted [OF c assms(2)] accept_refused [OF c assms(2)] l True f by auto
  qed
qed

theorem no_list_permits_everybody:
  "fst (sock_check_hostlist g mallocs None sep adr) = 1 \<and>
   fst (sock_check_hostlist g mallocs (Some []) sep adr) = 1"
  by (simp add: sock_check_hostlist_def)

lemma words_run:
  assumes "set t \<inter> set sep = {}" and "c \<in> set sep" and "cur \<noteq> [] \<or> t \<noteq> []"
  shows "words sep cur (t @ c # s) = (rev cur @ t) # words sep [] s"
  using assms by (induction t arbitrary: cur) auto

lemma words_host_text:
  assumes "list_all (\<lambda>h. numeric_names g nm (act_addr h)) hs" and "sep \<in> set RPCAP_HOSTLIST_SEP"
  shows "words RPCAP_HOSTLIST_SEP [] (host_text nm sep hs) = map (\<lambda>h. nm (act_addr h)) hs"
  using assms(1)
proof (induction hs)
  case Nil
  then show ?case by (simp add: host_text_def)
next
  case (Cons h hs)
  have "set (nm (act_addr h)) \<inter> set RPCAP_HOSTLIST_SEP = {}" "nm (act_addr h) \<noteq> []"
    using Cons.prems by (auto simp: numeric_names_def)
  then have "words RPCAP_HOSTLIST_SEP [] (nm (act_addr h) @ sep # host_text nm sep hs) =
      nm (act_addr h) # words RPCAP_HOSTLIST_SEP [] (host_text nm sep hs)"
    using words_run [OF _ assms(2), of "nm (act_addr h)" "[]" "host_text nm sep hs"] by simp
  with Cons show ?case by (simp add: host_text_def)
qed

text \<open>
  C37: When at least one host is connected and the separator is one of the characters that separate a
  list of permitted hosts, the text that \<open>pcap_remoteact_list\<close> writes into a buffer it succeeds with
  can be given back as the list of the permitted hosts: it permits exactly the hosts that are
  connected. The names are the numeric ones, each naming its host only. (With no host connected the
  text is empty, and an empty list permits everybody: \<open>empty_list_permits_everybody\<close>.)
\<close>

theorem listed_hosts_are_permitted:
  assumes "list_all (\<lambda>h. numeric_names gn nm (act_addr h) \<and> names_host g (nm (act_addr h)) (host_key (act_addr h)))
      (activeHosts st)"
    and "activeHosts st \<noteq> []" and "sep \<in> set RPCAP_HOSTLIST_SEP"
    and "hostlist \<noteq> []" and "room \<le> int (length hostlist)" and "length hoststr = RPCAP_HOSTLIST_SIZE"
    and "pcap_remoteact_list gn sep room hoststr hostlist st = Some (0, buf)"
  shows "\<exists>permitted. c_str buf = Some permitted \<and>
    fst (sock_check_hostlist g True (Some permitted) RPCAP_HOSTLIST_SEP adr) =
      (if host_key adr \<in> dom (host_table st) then 0 else - 1)"
proof -
  let ?t = "host_text nm sep (activeHosts st)"
  have nm: "list_all (\<lambda>h. numeric_names gn nm (act_addr h)) (activeHosts st)"
    using assms(1) by (simp add: list_all_iff)
  have "sep \<noteq> NUL" using assms(3) by auto
  from hosts_are_listed [OF nm this assms(4-6)] assms(7) have buf: "c_str buf = Some ?t"
    by (auto split: if_splits)
  have "?t \<noteq> []" using assms(2) by (cases "activeHosts st") (simp_all add: host_text_def)
  moreover have "permits g (nm (act_addr h)) key \<longleftrightarrow> host_key (act_addr h) = key" if "h \<in> set (activeHosts st)" for h key
  proof -
    have "names_host g (nm (act_addr h)) (host_key (act_addr h))" using assms(1) that by (simp add: list_all_iff)
    then show ?thesis
      by (auto simp: names_host_def permits_def list_ex_iff list_all_iff neq_Nil_conv split: option.splits)
  qed
  then have "list_ex (\<lambda>t. permits g t (host_key adr)) (words RPCAP_HOSTLIST_SEP [] ?t) \<longleftrightarrow>
      host_key adr \<in> dom (host_table st)"
    unfolding words_host_text [OF nm assms(3)] dom_host_table listed_iff [symmetric]
    by (simp add: list_ex_iff)
  ultimately show ?thesis using buf by (auto simp: sock_check_hostlist_def hostlist_loop_iff)
qed

theorem empty_list_permits_everybody:
  assumes "activeHosts st = []" and "hostlist \<noteq> []"
  shows "\<exists>buf. pcap_remoteact_list gn sep room hoststr hostlist st = Some (0, buf) \<and> c_str buf = Some [] \<and>
    fst (sock_check_hostlist g mallocs (Some []) RPCAP_HOSTLIST_SEP adr) = 1"
  using assms c_str_ends [of "[]"] by (cases hostlist) (auto simp: pcap_remoteact_list_def blit_def sock_check_hostlist_def)

theorem empty_list_permits_everybody_witness:
  "\<exists>buf. pcap_remoteact_list (\<lambda>_ _ _ _ _. None) CHR '';'' 4 [] ''abcd'' at_start = Some (0, buf) \<and> c_str buf = Some [] \<and>
    fst (sock_check_hostlist (\<lambda>_ _ _. None) True (Some []) RPCAP_HOSTLIST_SEP []) = 1"
  by (rule empty_list_permits_everybody) (simp_all add: at_start_def)

section \<open>Connecting\<close>

definition message_room :: "sock_env \<Rightarrow> addrinfo \<Rightarrow> nat" where
  "message_room env a =
     (case se_connect env a of None \<Rightarrow> 0 | Some (name, err) \<Rightarrow> length (connect_message name err) + 1)"

definition refusals :: "sock_env \<Rightarrow> addrinfo list \<Rightarrow> addrinfo list" where
  "refusals env = takeWhile (\<lambda>a. se_connect env a \<noteq> None)"

lemma connect_loop_closed:
  "0 < space \<Longrightarrow> connect_loop env space chain =
     (let n = sum_list (map (message_room env) (refusals env chain)) in
      if n < space then Some (List.find (\<lambda>a. se_connect env a = None) chain, space - n) else None)"
  by (induction env space chain rule: connect_loop.induct)
    (auto simp: refusals_def message_room_def snprintf_len_def Let_def split: option.splits)

text \<open>
  A client connects to the first address that accepts it, and closes its socket if none does,
  provided that the messages about the addresses before it fit into the error buffer of the caller;
  if they do not, the buffer is overrun.
\<close>

theorem client_connects_to_first:
  assumes "chain \<noteq> []" and "se_socket env \<noteq> - 1" and "0 < errbuflen"
  shows "sock_open env chain False errbuflen =
    (if sum_list (map (message_room env) (refusals env chain)) < errbuflen
     then Some (if refusals env chain = chain then (- 1, [se_socket env]) else (se_socket env, [])) else None)"
proof -
  have "List.find (\<lambda>a. se_connect env a = None) chain = None \<longleftrightarrow> refusals env chain = chain"
    by (auto simp: refusals_def takeWhile_eq_all_conv find_None_iff)
  with assms show ?thesis
    by (auto simp: sock_open_def connect_loop_closed Let_def split: option.splits)
qed


section \<open>Two hosts\<close>

text \<open>A small network: two hosts with their names, a daemon that answers the authentication.\<close>

definition peer :: "u8 \<Rightarrow> sockaddr" where
  "peer i = [2, 0, 0, 80, 10, 0, 0, i, 0, 0, 0, 0, 0, 0, 0, 0]"

definition peer_name :: "sockaddr \<Rightarrow> string" where
  "peer_name a = (if a ! 7 = 1 then ''10.0.0.1'' else ''10.0.0.2'')"

definition stream_to :: "u8 \<Rightarrow> addrinfo" where
  "stream_to i = \<lparr>ai_family = PF_INET, ai_socktype = SOCK_STREAM, ai_addr = peer i\<rparr>"

definition phone_book :: resolver where
  "phone_book h name port =
     (case name of
        None \<Rightarrow> Some [stream_to 0]
      | Some n \<Rightarrow> if n = ''10.0.0.1'' then Some [stream_to 1] else if n = ''10.0.0.2'' then Some [stream_to 2] else None)"

definition peer_namer :: namer where
  "peer_namer a len n m numeric = Some (peer_name a, [])"

definition call_from :: "u8 \<Rightarrow> int \<Rightarrow> accept_env" where
  "call_from i sock = \<lparr>ac_starts = True, ac_getaddrinfo = phone_book,
     ac_server = \<lparr>se_socket = 3, se_bind = True, se_listen = True, se_connect = (\<lambda>a. None)\<rparr>,
     ac_accept = Some (sock, peer i, 16), ac_name = peer_namer, ac_mallocs = True,
     ac_block = Some (replicate 16 0), ac_out = [],
     ac_in = [Arrives (header_enc (rpcap_createhdr RPCAP_MSG_AUTH_REPLY 0 0))],
     ac_error = [], ac_error_out = [], ac_shuts = True\<rparr>"

definition with_hosts :: "(u8 \<times> int) list \<Rightarrow> active" where
  "with_hosts hs = \<lparr>activeHosts = map (\<lambda>(i, s). \<lparr>act_addr = peer i, act_sock = s\<rparr>) hs, sockmain = 0,
     sockets = \<lparr>sockcount = int (length hs), started = (hs \<noteq> [])\<rparr>, chains = 2 * length hs\<rparr>"

definition granted_call :: "u8 \<Rightarrow> int \<Rightarrow> active \<Rightarrow> accept_result" where
  "granted_call i sock st = \<lparr>ar_ret = sock, ar_state = st,
     ar_sent = header_enc (rpcap_createhdr RPCAP_MSG_AUTH_REQ 0 8) @
       auth_enc \<lparr>auth_type = 0, a_dummy = 0, slen1 = 0, slen2 = 0\<rparr>,
     ar_closed = [3], ar_name = peer_name (peer i)\<rparr>"

lemma auth_of_call:
  "rpcap_sendauth None [] [Arrives (header_enc (rpcap_createhdr RPCAP_MSG_AUTH_REPLY 0 0))] =
     Some (0, header_enc (rpcap_createhdr RPCAP_MSG_AUTH_REQ 0 8) @
       auth_enc \<lparr>auth_type = 0, a_dummy = 0, slen1 = 0, slen2 = 0\<rparr>, [])"
  by code_simp

lemma first_call:
  "pcap_remoteact_accept (call_from 1 7) None None (Some ''10.0.0.2;10.0.0.1'') None at_start =
     Some (granted_call 1 7 (with_hosts [(1, 7)]))"
  by code_simp


lemma second_call:
  "pcap_remoteact_accept (call_from 2 8) None None (Some ''10.0.0.2;10.0.0.1'') None (with_hosts [(1, 7)]) =
     Some (granted_call 2 8 (with_hosts [(1, 7), (2, 8)]))"
  by code_simp

lemma peer_ok_call: "peer_ok (call_from i sock) \<longleftrightarrow> 0 \<le> sock"
  by (simp add: peer_ok_def call_from_def complete_def peer_def ss_family_def chunk_def)

lemma granted_call_simps [simp]:
  "ar_state (granted_call i sock st) = st" "ar_ret (granted_call i sock st) = sock"
  by (simp_all add: granted_call_def)

lemma peer_key [simp]: "host_key (peer i) = (AF_INET, [10, 0, 0, i])"
  by (simp add: host_key_def peer_def ss_family_def sin_addr_def chunk_def)

lemma accept_steps:
  assumes "pcap_remoteact_accept env address port hostlist auth st = Some r" and "peer_ok env"
  shows "act_step\<^sup>*\<^sup>* st (ar_state r)"
proof -
  obtain r1 st1 where l: "accept_listen env address port st = Some (r1, st1)"
    using assms(1) by (auto simp: pcap_remoteact_accept_def split: option.splits)
  then have one: "act_step st st1" by (rule act_step.listen)
  show ?thesis
  proof (cases "r1 = 0")
    case False
    with l assms(1) one show ?thesis by (auto simp: pcap_remoteact_accept_def)
  next
    case True
    with l assms(1) have "accept_connection env hostlist auth st1 = Some r"
      by (simp add: pcap_remoteact_accept_def)
    with assms(2) have "act_step st1 (ar_state r)" by (blast intro: act_step.connection)
    with one show ?thesis by auto
  qed
qed

lemma two_hosts_reached: "act_step\<^sup>*\<^sup>* at_start (with_hosts [(1, 7), (2, 8)])"
  using accept_steps [OF first_call] accept_steps [OF second_call] by (simp add: peer_ok_call)

lemma two_hosts_orderly: "orderly (with_hosts [(1, 7), (2, 8)]) 0 Idle"
proof -
  have "orderly (with_hosts [(1, 7)]) 0 Idle"
    using orderly_accept [OF orderly.start first_call] by (simp add: peer_ok_call)
  from orderly_accept [OF this second_call] show ?thesis by (simp add: peer_ok_call)
qed

lemma book_names: "names_host phone_book ''10.0.0.1'' (AF_INET, [10, 0, 0, 1])"
  "names_host phone_book ''10.0.0.2'' (AF_INET, [10, 0, 0, 2])"
  by code_simp+

theorem accept_updates_table_witness:
  "host_table (with_hosts [(1, 7)]) (AF_INET, [10, 0, 0, 1]) = Some 7"
  using accept_updates_table [OF first_call]
  by (simp add: peer_ok_call) (simp add: call_from_def host_table_def at_start_def)

theorem close_updates_table_witness:
  "let r = pcap_remoteact_close phone_book [] True ''10.0.0.1'' (with_hosts [(1, 7), (2, 8)]) in
     cr_ret r = 0 \<and> host_table (cr_state r) =
       (host_table (with_hosts [(1, 7), (2, 8)]))((AF_INET, [10, 0, 0, 1]) := None)"
  using close_updates_table [OF _ book_names(1), of "with_hosts [(1, 7), (2, 8)]" "[]" True]
  by (simp add: Let_def host_keys_def with_hosts_def host_table_def host_entry_def)

theorem active_hosts_distinct_witness: "distinct (host_keys (with_hosts [(1, 7), (2, 8)]))"
  by (rule active_hosts_distinct [OF two_hosts_reached])

theorem winsock_stays_started_witness: "started (sockets (with_hosts [(1, 7), (2, 8)]))"
  by (rule winsock_stays_started [OF two_hosts_orderly]) (simp add: with_hosts_def)

text \<open>An accept whose socket cannot be opened.\<close>

definition no_socket_call :: accept_env where
  "no_socket_call = (call_from 2 8)\<lparr>ac_server := \<lparr>se_socket = - 1, se_bind = True, se_listen = True, se_connect = (\<lambda>a. None)\<rparr>\<rparr>"

definition after_no_socket :: accept_result where
  "after_no_socket = \<lparr>ar_ret = - 2, ar_state = (with_hosts [(1, 7)])\<lparr>sockmain := - 1,
     sockets := \<lparr>sockcount = 2, started = True\<rparr>, chains := 3\<rparr>, ar_sent = [], ar_closed = [], ar_name = []\<rparr>"

lemma no_socket_call: "pcap_remoteact_accept no_socket_call None None None None (with_hosts [(1, 7)]) = Some after_no_socket"
  by code_simp

theorem cleanups_stop_winsock_witness:
  "let st' = fst (pcap_remoteact_cleanup (fst (pcap_remoteact_cleanup (ar_state after_no_socket)))) in
    length (activeHosts st') = 1 \<and> \<not> started (sockets st')"
  using cleanups_stop_winsock [OF _ _ no_socket_call]
  by (simp add: Let_def) (simp add: after_no_socket_def with_hosts_def)

theorem only_permitted_hosts_are_added_witness:
  "\<exists>sock adr n ra sent rest. ac_accept (call_from 1 7) = Some (sock, adr, n) \<and> 7 = sock \<and>
     list_ex (\<lambda>t. permits phone_book t (host_key adr)) (words RPCAP_HOSTLIST_SEP [] ''10.0.0.2;10.0.0.1'') \<and>
     rpcap_sendauth None [] (ac_in (call_from 1 7)) = Some (ra, sent, rest) \<and> ra \<noteq> - 1"
  using only_permitted_hosts_are_added [OF first_call]
  by (simp add: at_start_def with_hosts_def) (simp add: call_from_def)

definition list_room :: string where
  "list_room = replicate 40 CHR ''x''"

definition listed_text :: string where
  "listed_text = ''10.0.0.1;10.0.0.2;'' @ NUL # replicate 21 CHR ''x''"

lemma two_hosts_listed:
  "pcap_remoteact_list peer_namer CHR '';'' 40 (replicate 1024 NUL) list_room (with_hosts [(1, 7), (2, 8)]) =
     Some (0, listed_text)"
  by code_simp

lemma two_hosts_named:
  "list_all (\<lambda>h. numeric_names peer_namer peer_name (act_addr h) \<and>
     names_host phone_book (peer_name (act_addr h)) (host_key (act_addr h)))
     (activeHosts (with_hosts [(1, 7), (2, 8)]))"
  by code_simp

theorem listed_hosts_are_permitted_witness:
  "\<exists>permitted. c_str listed_text = Some permitted \<and>
     fst (sock_check_hostlist phone_book True (Some permitted) RPCAP_HOSTLIST_SEP (peer 2)) = 0"
  using listed_hosts_are_permitted [OF two_hosts_named _ _ _ _ _ two_hosts_listed, of "peer 2"]
  by (simp add: dom_host_table host_keys_def list_room_def) (simp add: with_hosts_def)

theorem close_of_unknown_host_stops_winsock_witness:
  "\<not> started (sockets (cr_state (pcap_remoteact_close phone_book [] True ''10.0.0.2'' (with_hosts [(1, 7)]))))"
  using close_of_unknown_host_stops_winsock [OF book_names(2), of "with_hosts [(1, 7)]" "[]" True]
  by (simp add: Let_def dom_host_table host_keys_def with_hosts_def)


text \<open>What a host gets that connects a second time, and the text of Winsock for a time-out.\<close>

lemma third_call:
  "pcap_remoteact_accept (call_from 1 9) None None None None (with_hosts [(1, 7)]) =
     Some (granted_call 1 9 ((with_hosts [(1, 7)])\<lparr>sockets := \<lparr>sockcount = 2, started = True\<rparr>, chains := 3\<rparr>))"
  by code_simp

definition client_of :: "sock_env \<Rightarrow> connection_env" where
  "client_of env = \<lparr>cn_starts = True, cn_getaddrinfo = phone_book, cn_client = env, cn_out = [], cn_in = [],
     cn_shuts = True\<rparr>"

theorem reconnected_host_keeps_old_socket_witness:
  "\<exists>c. find_connect (client_of env) ''10.0.0.1'' None None
      ((with_hosts [(1, 7)])\<lparr>sockets := \<lparr>sockcount = 2, started = True\<rparr>, chains := 3\<rparr>) = Some c \<and>
    co_sock c = Some (7, True)"
proof -
  have "ac_accept (call_from 1 9) = Some (9, peer 1, 16)" "cn_getaddrinfo (client_of env) = phone_book"
    by (simp_all add: call_from_def client_of_def)
  then show ?thesis
    using reconnected_host_keeps_old_socket [OF third_call, of 9 "peer 1" 16 7 "client_of env" "''10.0.0.1''" None None]
      book_names(1)
    by (simp add: peer_ok_call host_table_def with_hosts_def host_entry_def)
qed

definition timed_out :: sock_env where
  "timed_out = \<lparr>se_socket = 5, se_bind = True, se_listen = True,
     se_connect = (\<lambda>a. Some (''10.0.0.1'',
       ''A connection attempt failed because the connected party did not properly respond after a '' @
       ''period of time, or established connection failed because connected host has failed to respond.  '' @
       ''(code 10060)''))\<rparr>"

theorem client_connects_to_first_witness:
  "sock_open timed_out [stream_to 1] False PCAP_ERRBUF_SIZE = None"
  using client_connects_to_first [of "[stream_to 1]" timed_out PCAP_ERRBUF_SIZE]
  by (simp add: timed_out_def refusals_def message_room_def connect_message_def)

end
