(* ===== verification/Rpcapd_Config.thy ===== *)
theory Rpcapd_Config
  imports Rpcap_Active Source_String
begin

text \<open>
  The start of the daemon: its command line (\<open>getopt\<close> of \<open>rpcapd/utils.c\<close> and \<open>main\<close> of
  \<open>rpcapd/rpcapd.c\<close>) and its configuration file (\<open>rpcapd/fileconf.c\<close>). A file is the text the C
  library delivers for it. None is a use of a pointer that is NULL, an access outside an array or a
  conversion in a format that has no argument.
\<close>

section \<open>The configuration\<close>

abbreviation MAX_LINE :: nat where "MAX_LINE \<equiv> 2048"
abbreviation MAX_HOST_LIST :: nat where "MAX_HOST_LIST \<equiv> 64000"
abbreviation MAX_ACTIVE_LIST :: nat where "MAX_ACTIVE_LIST \<equiv> 10"
abbreviation NL :: char where "NL \<equiv> CHR 0x0A"
abbreviation CR :: char where "CR \<equiv> CHR 0x0D"

text \<open>An entry of the active list is an address and a port; an empty address ends the list.\<close>

record config =
  hostlist :: string
  activelist :: "(string \<times> string) list"
  nullAuthAllowed :: bool

text \<open>A text as the format of \<open>snprintf\<close>.\<close>

fun format_text :: "string \<Rightarrow> string option" where
  "format_text [] = Some []"
| "format_text (c # s) =
     (if c \<noteq> CHR ''%'' then map_option ((#) c) (format_text s)
      else (case s of
          d # r \<Rightarrow> if d = CHR ''%'' then map_option ((#) d) (format_text r) else None
        | [] \<Rightarrow> None))"

definition set_active :: "nat \<Rightarrow> string \<Rightarrow> string \<Rightarrow> config \<Rightarrow> config option" where
  "set_active i adr prt c =
     (case format_text adr of
        None \<Rightarrow> None
      | Some a \<Rightarrow>
          (case (if prt = ''DEFAULT'' then Some RPCAP_DEFAULT_NETPORT_ACTIVE else format_text prt) of
             None \<Rightarrow> None
           | Some p \<Rightarrow> Some (c\<lparr>activelist := (activelist c)[i := (take MAX_LINE a, take MAX_LINE p)]\<rparr>)))"

section \<open>Reading the configuration file\<close>

definition fgets :: "nat \<Rightarrow> string \<Rightarrow> (string \<times> string) option" where
  "fgets n s =
     (if s = [] then None
      else (let m = min (n - 1) (length (takeWhile (\<lambda>c. c \<noteq> NL) s) + (if NL \<in> set s then 1 else 0)) in
        Some (takeWhile (\<lambda>c. c \<noteq> NUL) (take m s), drop m s)))"

definition after_equals :: "string \<Rightarrow> string option" where
  "after_equals s = (case dropWhile (\<lambda>c. c \<noteq> CHR ''='') s of [] \<Rightarrow> None | c # t \<Rightarrow> Some t)"

definition read_active :: "string \<Rightarrow> nat \<Rightarrow> config \<Rightarrow> config option" where
  "read_active s i c =
     (case after_equals s of
        None \<Rightarrow> None
      | Some t \<Rightarrow>
          (case strtok RPCAP_HOSTLIST_SEP t of
             None \<Rightarrow> Some c
           | Some (adr, rest) \<Rightarrow>
               if MAX_ACTIVE_LIST \<le> i then Some c
               else (case strtok RPCAP_HOSTLIST_SEP rest of
                   None \<Rightarrow> None
                 | Some (prt, _) \<Rightarrow> set_active i adr prt c)))"

text \<open>\<open>strncat\<close> to the host list, whose size is passed although it is not what is left of it.\<close>

definition cat_hosts :: "string \<Rightarrow> string \<Rightarrow> string option" where
  "cat_hosts s x =
     (let t = s @ take MAX_HOST_LIST x in if MAX_HOST_LIST < length t then None else Some t)"

definition read_passive :: "string \<Rightarrow> config \<Rightarrow> config option" where
  "read_passive s c =
     (case after_equals s of
        None \<Rightarrow> None
      | Some t \<Rightarrow>
          (case cat_hosts (hostlist c) t of
             None \<Rightarrow> None
           | Some h \<Rightarrow> map_option (\<lambda>h'. c\<lparr>hostlist := h'\<rparr>) (cat_hosts h '','')))"

text \<open>One line, with the number of the active hosts so far.\<close>

definition read_line :: "string \<Rightarrow> config \<times> nat \<Rightarrow> (config \<times> nat) option" where
  "read_line line ci =
     (case ci of (c, i) \<Rightarrow>
        if take 1 line = [NL] \<or> take 1 line = [CR] \<or> take 1 line = ''#'' then Some (c, i)
        else (case strstr line ''ActiveClient'' of
            Some s \<Rightarrow> map_option (\<lambda>c'. (c', i + 1)) (read_active s i c)
          | None \<Rightarrow>
              (case strstr line ''PassiveClient'' of
                 Some s \<Rightarrow> map_option (\<lambda>c'. (c', i)) (read_passive s c)
               | None \<Rightarrow>
                   (case strstr line ''NullAuthPermit'' of
                      Some s \<Rightarrow> Some (c\<lparr>nullAuthAllowed := (strstr s ''YES'' \<noteq> None)\<rparr>, i)
                    | None \<Rightarrow> Some (c, i)))))"

lemma fgets_shorter: "fgets (Suc (Suc n)) s = Some (line, rest) \<Longrightarrow> length rest < length s"
  by (cases s) (auto simp: fgets_def Let_def split: if_splits)

function read_lines :: "string \<Rightarrow> config \<times> nat \<Rightarrow> (config \<times> nat) option" where
  "read_lines s ci =
     (case fgets MAX_LINE s of
        None \<Rightarrow> Some ci
      | Some (line, rest) \<Rightarrow> (case read_line line ci of None \<Rightarrow> None | Some ci' \<Rightarrow> read_lines rest ci'))"
  by pat_completeness auto

termination
  by (relation "measure (\<lambda>(s, ci). length s)") (auto dest: fgets_shorter [of 2046, simplified])

declare read_lines.simps [simp del]

lemma close_up_shorter:
  assumes "c \<in> set s"
  shows "length (takeWhile (\<lambda>x. x \<noteq> c) s @ drop 1 (dropWhile (\<lambda>x. x \<noteq> c) s)) < length s"
proof -
  have "dropWhile (\<lambda>x. x \<noteq> c) s \<noteq> []" using assms by auto
  then have "0 < length (dropWhile (\<lambda>x. x \<noteq> c) s)" by simp
  moreover have "length (takeWhile (\<lambda>x. x \<noteq> c) s) + length (dropWhile (\<lambda>x. x \<noteq> c) s) = length s"
    by (metis length_append takeWhile_dropWhile_id)
  ultimately show ?thesis unfolding length_append length_drop by linarith
qed

text \<open>\<open>strrem\<close>: every occurrence is found from the start and closed up.\<close>

function strrem :: "string \<Rightarrow> char \<Rightarrow> int \<times> string" where
  "strrem s c =
     (if c \<in> set s
      then (case strrem (takeWhile (\<lambda>x. x \<noteq> c) s @ drop 1 (dropWhile (\<lambda>x. x \<noteq> c) s)) c of
          (n, t) \<Rightarrow> (n + 1, t))
      else (0, s))"
  by pat_completeness auto

termination
  by (relation "measure (\<lambda>(s, c). length s)") (use close_up_shorter in auto)

declare strrem.simps [simp del]

definition fileconf_read :: "string option \<Rightarrow> config \<Rightarrow> config option" where
  "fileconf_read file c =
     (case file of
        None \<Rightarrow> Some c
      | Some text \<Rightarrow>
          map_option
            (\<lambda>(c', i). c'\<lparr>activelist := take i (activelist c') @ replicate (MAX_ACTIVE_LIST - i) ([], []),
               hostlist := snd (strrem (snd (strrem (hostlist c') CR)) NL)\<rparr>)
            (read_lines text (c\<lparr>hostlist := []\<rparr>, 0)))"

section \<open>Saving the configuration\<close>

function passive_lines :: "string \<Rightarrow> string" where
  "passive_lines s =
     (case strtok RPCAP_HOSTLIST_SEP s of
        None \<Rightarrow> []
      | Some (tok, rest) \<Rightarrow> ''PassiveClient = '' @ tok @ [NL] @ passive_lines rest)"
  by pat_completeness auto

termination
  by (relation "measure length") (auto dest: strtok_shorter)

declare passive_lines.simps [simp del]

text \<open>The test of the loop reads the address before the index is compared.\<close>

fun active_lines :: "(string \<times> string) list \<Rightarrow> string option" where
  "active_lines [] = None"
| "active_lines ((a, p) # r) =
     (if a = [] then Some []
      else map_option (\<lambda>t. ''ActiveClient = '' @ a @ '', '' @ p @ [NL] @ t) (active_lines r))"

definition config_text :: "config \<Rightarrow> string option" where
  "config_text c =
     (case active_lines (activelist c) of
        None \<Rightarrow> None
      | Some act \<Rightarrow> Some (
          ''# Configuration file help.'' @ [NL, NL] @
          ''# Hosts which are allowed to connect to this server (passive mode)'' @ [NL] @
          ''# Format: PassiveClient = <name or address>'' @ [NL, NL] @
          passive_lines (take MAX_HOST_LIST (hostlist c)) @ [NL, NL] @
          ''# Hosts to which this server is trying to connect to (active mode)'' @ [NL] @
          ''# Format: ActiveClient = <name or address>, <port | DEFAULT>'' @ [NL, NL] @
          act @ [NL, NL] @
          ''# Permit NULL authentication: YES or NOT'' @ [NL, NL] @
          (if nullAuthAllowed c then ''NullAuthPermit = YES'' else ''NullAuthPermit = NO'') @ [NL]))"

text \<open>The return value and what is written; None as the text where no file is opened.\<close>

definition fileconf_save :: "bool \<Rightarrow> config \<Rightarrow> (int \<times> string option) option" where
  "fileconf_save opens c =
     (if opens then map_option (\<lambda>t. (0, Some t)) (config_text c) else Some (- 1, None))"

end
