(* ===== verification/Rpcapd_Start.thy ===== *)
theory Rpcapd_Start
  imports Rpcapd_Config Rpcapd
begin

text \<open>
  The start of the daemon: \<open>getopt\<close> (\<open>rpcapd/utils.c\<close>) and the options of \<open>main\<close>, the threads
  that \<open>main_startup\<close> creates, and the two kinds of threads, which wait for clients or connect to
  them (\<open>rpcapd/rpcapd.c\<close>).
\<close>

section \<open>getopt\<close>

text \<open>The variables of \<open>getopt\<close>; \<open>place\<close> is what is left of the current argument.\<close>

record getopt_state =
  optind :: nat
  place :: string
  optarg :: "string option"

text \<open>The scanning pointer is moved to the next argument: whether there is an option.\<close>

definition next_place :: "string list \<Rightarrow> getopt_state \<Rightarrow> bool \<times> getopt_state" where
  "next_place argv st =
     (if place st \<noteq> [] then (True, st)
      else if length argv \<le> optind st then (False, st)
      else (let p = argv ! optind st in
        if take 1 p \<noteq> ''-'' then (False, st)
        else if take 2 p = ''--'' then (False, st\<lparr>optind := optind st + 1\<rparr>)
        else (True, st\<lparr>place := (if length p = 1 then p else drop 1 p)\<rparr>)))"

text \<open>The option letter, None for -1.\<close>

definition getopt :: "string list \<Rightarrow> string \<Rightarrow> getopt_state \<Rightarrow> char option \<times> getopt_state" where
  "getopt argv ostr st =
     (case next_place argv st of
        (False, st1) \<Rightarrow> (None, st1)
      | (True, st1) \<Rightarrow>
          let c = hd (place st1); p = tl (place st1); st2 = st1\<lparr>place := p\<rparr>; i = optind st1;
              oli = (if c = CHR '':'' then [] else dropWhile (\<lambda>x. x \<noteq> c) ostr) in
          if oli = []
          then if c = CHR ''-'' then (None, st2)
            else (Some CHR ''?'', if p = [] then st2\<lparr>optind := i + 1\<rparr> else st2)
          else if take 1 (drop 1 oli) \<noteq> '':''
          then (Some c, (if p = [] then st2\<lparr>optind := i + 1\<rparr> else st2)\<lparr>optarg := None\<rparr>)
          else if p \<noteq> [] then (Some c, st2\<lparr>optarg := Some p, place := [], optind := i + 1\<rparr>)
          else if length argv \<le> i + 1 then (Some CHR ''?'', st2\<lparr>optind := i + 1, place := []\<rparr>)
          else (Some c, st2\<lparr>optarg := Some (argv ! (i + 1)), place := [], optind := i + 2\<rparr>))"

section \<open>The options of the daemon\<close>

record settings =
  set_config :: config
  set_address :: string
  set_port :: string
  set_family :: int
  set_daemon :: bool
  set_passive :: bool
  set_savefile :: string
  set_loadfile :: string

definition default_settings :: settings where
  "default_settings = \<lparr>set_config = \<lparr>hostlist = [], activelist = replicate MAX_ACTIVE_LIST ([], []),
       nullAuthAllowed = False\<rparr>,
     set_address = [], set_port = RPCAP_DEFAULT_NETPORT, set_family = PF_UNSPEC, set_daemon = False,
     set_passive = True, set_savefile = [], set_loadfile = []\<rparr>"

text \<open>The hosts of the option \<open>-a\<close>, two words each; without a second word the port is the usual one.\<close>

function active_args :: "string \<Rightarrow> nat \<Rightarrow> config \<Rightarrow> config option" where
  "active_args s i c =
     (case strtok RPCAP_HOSTLIST_SEP s of
        None \<Rightarrow> Some c
      | Some (adr, r) \<Rightarrow>
          if MAX_ACTIVE_LIST \<le> i then Some c
          else (case strtok RPCAP_HOSTLIST_SEP r of
              None \<Rightarrow> set_active i adr ''DEFAULT'' c
            | Some (prt, r') \<Rightarrow>
                (case set_active i adr prt c of None \<Rightarrow> None | Some c' \<Rightarrow> active_args r' (i + 1) c')))"
  by pat_completeness auto

termination
  by (relation "measure (\<lambda>(s, i, c). length s)") (auto dest!: strtok_shorter)

declare active_args.simps [simp del]

text \<open>
  What \<open>main\<close> is left with: settings, or the end of the program (no Winsock, help); a fault is a NULL pointer, a string without its 0 or a conversion
  without an argument.
\<close>

datatype startup = Ready settings | Program_Ends | Start_Fault

definition start_from :: "settings option \<Rightarrow> startup" where
  "start_from s = (case s of None \<Rightarrow> Start_Fault | Some s' \<Rightarrow> Ready s')"

definition with_arg :: "string option \<Rightarrow> (string \<Rightarrow> settings option) \<Rightarrow> startup" where
  "with_arg arg f = (case arg of None \<Rightarrow> Start_Fault | Some a \<Rightarrow> start_from (f a))"

definition do_option :: "char \<Rightarrow> string option \<Rightarrow> settings \<Rightarrow> startup" where
  "do_option c arg s =
     (if c = CHR ''b'' then with_arg arg (\<lambda>a. Some (s\<lparr>set_address := take MAX_LINE a\<rparr>))
      else if c = CHR ''p'' then with_arg arg (\<lambda>a. Some (s\<lparr>set_port := take MAX_LINE a\<rparr>))
      else if c = CHR ''4'' then Ready (s\<lparr>set_family := PF_INET\<rparr>)
      else if c = CHR ''d'' then Ready (s\<lparr>set_daemon := True\<rparr>)
      else if c = CHR ''n'' then Ready (s\<lparr>set_config := (set_config s)\<lparr>nullAuthAllowed := True\<rparr>\<rparr>)
      else if c = CHR ''v'' then Ready (s\<lparr>set_passive := False\<rparr>)
      else if c = CHR ''l'' then with_arg arg (\<lambda>a.
        if MAX_HOST_LIST < length a then None else Some (s\<lparr>set_config := (set_config s)\<lparr>hostlist := a\<rparr>\<rparr>))
      else if c = CHR ''a'' then with_arg arg (\<lambda>a.
        map_option (\<lambda>cf. s\<lparr>set_config := cf\<rparr>) (active_args a 0 (set_config s)))
      else if c = CHR ''f'' then with_arg arg (\<lambda>a. Some (s\<lparr>set_loadfile := take MAX_LINE a\<rparr>))
      else if c = CHR ''s'' then with_arg arg (\<lambda>a.
        if MAX_LINE \<le> length a then None else Some (s\<lparr>set_savefile := a\<rparr>))
      else if c = CHR ''h'' then Program_Ends
      else Ready s)"

definition option_letters :: string where
  "option_letters = ''b:dhp:4l:na:s:f:v''"

text \<open>The characters of the arguments that \<open>getopt\<close> has not consumed.\<close>

definition unread :: "string list \<Rightarrow> getopt_state \<Rightarrow> nat" where
  "unread argv st =
     (if place st = [] then sum_list (map (\<lambda>a. Suc (length a)) (drop (optind st) argv))
      else length (place st) + sum_list (map (\<lambda>a. Suc (length a)) (drop (optind st + 1) argv)))"

lemma sum_drop_le: "sum_list (map f (drop j xs)) \<le> sum_list (map f (xs :: 'a list) :: nat list)"
  by (metis append_take_drop_id le_add2 map_append sum_list_append)

lemma sum_drop_Suc:
  "i < length xs \<Longrightarrow> sum_list (map f (drop i xs)) = f (xs ! i) + sum_list (map f (drop (Suc i) xs))"
  by (simp add: Cons_nth_drop_Suc [symmetric])

lemma next_place_unread:
  "next_place argv st = (True, st1) \<Longrightarrow> place st1 \<noteq> [] \<and> unread argv st1 \<le> unread argv st"
  using sum_drop_Suc [of "optind st" argv "\<lambda>a. Suc (length a)"]
  by (auto simp: next_place_def unread_def Let_def split: if_splits)

lemma getopt_unread: "getopt argv ostr st = (Some c, st') \<Longrightarrow> unread argv st' < unread argv st"
proof -
  assume g: "getopt argv ostr st = (Some c, st')"
  then obtain st1 where n: "next_place argv st = (True, st1)"
    by (auto simp: getopt_def split: prod.splits bool.splits)
  note u = next_place_unread [OF n]
  let ?S = "\<lambda>i. sum_list (map (\<lambda>a. Suc (length a)) (drop i argv))"
  have "?S (optind st1 + 2) \<le> ?S (optind st1 + 1)"
    using sum_drop_le [of "\<lambda>a. Suc (length a)" 1 "drop (optind st1 + 1) argv"] by simp
  then have "unread argv st' < unread argv st1"
    using g n u by (cases "place st1") (auto simp: getopt_def Let_def unread_def split: if_splits)
  with u show ?thesis by simp
qed

function parse_options :: "string list \<Rightarrow> getopt_state \<Rightarrow> settings \<Rightarrow> startup" where
  "parse_options argv st s =
     (case getopt argv option_letters st of
        (None, _) \<Rightarrow> Ready s
      | (Some c, st') \<Rightarrow>
          (case do_option c (optarg st') s of
             Ready s' \<Rightarrow> parse_options argv st' s'
           | Program_Ends \<Rightarrow> Program_Ends
           | Start_Fault \<Rightarrow> Start_Fault))"
  by pat_completeness auto

termination
  by (relation "measure (\<lambda>(argv, st, s). unread argv st)") (auto dest: getopt_unread [OF sym])

declare parse_options.simps [simp del]

text \<open>
  \<open>main\<close> up to the start of the threads, with the files there are; saving the configuration adds
  one, unless it cannot be opened. The configuration is read last.
\<close>

definition rpcapd_main ::
    "bool \<Rightarrow> bool \<Rightarrow> string list \<Rightarrow> (string \<rightharpoonup> string) \<Rightarrow> startup \<times> (string \<rightharpoonup> string)" where
  "rpcapd_main starts opens argv files =
     (if \<not> starts then (Program_Ends, files)
      else (case parse_options argv \<lparr>optind = 1, place = [], optarg = None\<rparr> default_settings of
          Ready s \<Rightarrow>
            (case (if set_savefile s = [] then Some files
                else (case fileconf_save opens (set_config s) of
                    None \<Rightarrow> None
                  | Some (_, None) \<Rightarrow> Some files
                  | Some (_, Some t) \<Rightarrow> Some (files(set_savefile s \<mapsto> t)))) of
               None \<Rightarrow> (Start_Fault, files)
             | Some files' \<Rightarrow>
                 if set_loadfile s = [] then (Ready s, files')
                 else (case fileconf_read (files' (set_loadfile s)) (set_config s) of
                     None \<Rightarrow> (Start_Fault, files')
                   | Some c \<Rightarrow> (Ready (s\<lparr>set_config := c\<rparr>), files')))
        | r \<Rightarrow> (r, files)))"

section \<open>The threads\<close>

text \<open>
  The loop that starts the active threads, with the results of pthread\_create in the order of the
  calls: the entries that have a thread. After a failure the same entry is tried again.
\<close>

fun start_active :: "(string \<times> string) list \<Rightarrow> bool list \<Rightarrow> (string \<times> string) list option" where
  "start_active [] cs = None"
| "start_active (e # es) cs =
     (if fst e = [] then Some []
      else (case cs of
          [] \<Rightarrow> map_option ((#) e) (start_active es [])
        | c # cs' \<Rightarrow> if c then map_option ((#) e) (start_active es cs') else start_active (e # es) cs'))"

text \<open>
  The loop over the addresses to wait on: the sockets that have a thread. None is the exit of the
  program without memory. The list gives the sockets, malloc and pthread\_create of each round.
\<close>

fun start_passive :: "(sock_env \<times> bool \<times> bool) list \<Rightarrow> addrinfo list \<Rightarrow> int list option" where
  "start_passive es [] = Some []"
| "start_passive [] as = Some []"
| "start_passive ((env, room, creates) # es) (a # as) =
     (case sock_open env (a # as) True PCAP_ERRBUF_SIZE of
        None \<Rightarrow> None
      | Some (s, _) \<Rightarrow>
          if s = - 1 then start_passive es as
          else if \<not> room then None
          else if \<not> creates then start_passive es (a # as)
          else map_option ((#) s) (start_passive es as))"

text \<open>\<open>main_startup\<close>: the entries that have an active thread, and the sockets that are waited on.\<close>

definition main_startup ::
    "resolver \<Rightarrow> bool list \<Rightarrow> (sock_env \<times> bool \<times> bool) list \<Rightarrow> settings \<Rightarrow>
     ((string \<times> string) list \<times> int list) option" where
  "main_startup getaddrinfo cs es s =
     (case start_active (activelist (set_config s)) cs of
        None \<Rightarrow> None
      | Some act \<Rightarrow>
          if \<not> set_passive s then Some (act, [])
          else (case sock_initaddress getaddrinfo (if set_address s = [] then None else Some (set_address s)) (set_port s)
                \<lparr>hi_family = set_family s, hi_socktype = SOCK_STREAM, hi_passive = True\<rparr> of
              None \<Rightarrow> None
            | Some (r, chain) \<Rightarrow>
                if r = - 1 then Some (act, []) else map_option (Pair act) (start_passive es chain)))"

text \<open>The parameters of a service thread.\<close>

definition slpars :: "bool \<Rightarrow> bool \<Rightarrow> daemon" where
  "slpars active null = \<lparr>isactive = active, null_auth = null, source = replicate 1024 0, samp_param = (0, 0),
     fp = None, threaddata = False,
     saved = \<lparr>sv_ifdrops = 0, sv_ifrecv = 0, sv_krnldrop = 0, sv_svrcapt = 0\<rparr>, activeclose = False\<rparr>"

text \<open>What a waiting thread meets: accept fails, or a client with what happens on its connection.\<close>

record client =
  cl_sock :: int
  cl_from :: sockaddr
  cl_list_mallocs :: bool
  cl_mallocs :: bool
  cl_thread :: bool
  cl_error :: "u8 list"
  cl_out :: "send_event list"
  cl_envs :: "daemon_env list"
  cl_in :: in_stream

datatype arrival = Accept_Fails | Client client

datatype served =
    Refused int "u8 list"
  | Lost int
  | Served int "daemon_fault + (bool \<times> step_result)"

definition main_passive_round :: "resolver \<Rightarrow> string \<Rightarrow> bool \<Rightarrow> client \<Rightarrow> served" where
  "main_passive_round getaddrinfo hosts null c =
     (if fst (sock_check_hostlist getaddrinfo (cl_list_mallocs c) (Some hosts) RPCAP_HOSTLIST_SEP (cl_from c)) < 0
      then Refused (cl_sock c) (snd (sock_send (rpcap_senderror (cl_error c) 10) (cl_out c)))
      else if \<not> cl_mallocs c \<or> \<not> cl_thread c then Lost (cl_sock c)
      else Served (cl_sock c) (daemon_serviceloop (cl_envs c) (slpars False null) (cl_in c)))"

fun main_passive :: "resolver \<Rightarrow> string \<Rightarrow> bool \<Rightarrow> arrival list \<Rightarrow> served list" where
  "main_passive getaddrinfo hosts null [] = []"
| "main_passive getaddrinfo hosts null (Accept_Fails # as) = main_passive getaddrinfo hosts null as"
| "main_passive getaddrinfo hosts null (Client c # as) =
     main_passive_round getaddrinfo hosts null c # main_passive getaddrinfo hosts null as"

text \<open>
  An active thread: every round tries to connect and serves the client it reaches; the services with
  the waits between failed attempts, and whether the thread has ended.
\<close>

record attempt_env =
  at_sockets :: sock_env
  at_mallocs :: bool
  at_envs :: "daemon_env list"
  at_in :: in_stream

datatype active_event = Waits | Leaks int | Serves int "daemon_fault + (bool \<times> step_result)"

fun main_active_loop :: "bool \<Rightarrow> addrinfo list \<Rightarrow> attempt_env list \<Rightarrow> (active_event list \<times> bool) option" where
  "main_active_loop null chain [] = Some ([], False)"
| "main_active_loop null chain (e # es) =
     (case sock_open (at_sockets e) chain False PCAP_ERRBUF_SIZE of
        None \<Rightarrow> None
      | Some (s, _) \<Rightarrow>
          if s = - 1 then map_option (map_prod ((#) Waits) id) (main_active_loop null chain es)
          else if \<not> at_mallocs e then map_option (map_prod ((#) (Leaks s)) id) (main_active_loop null chain es)
          else (let r = daemon_serviceloop (at_envs e) (slpars True null) (at_in e) in
            case r of
              Inr (True, d, _) \<Rightarrow>
                if activeclose d then Some ([Serves s r], True)
                else map_option (map_prod ((#) (Serves s r)) id) (main_active_loop null chain es)
            | _ \<Rightarrow> Some ([Serves s r], False)))"

definition main_active ::
    "resolver \<Rightarrow> string \<times> string \<Rightarrow> int \<Rightarrow> bool \<Rightarrow> attempt_env list \<Rightarrow> (active_event list \<times> bool) option" where
  "main_active getaddrinfo entry family null es =
     (case sock_initaddress getaddrinfo (Some (fst entry)) (snd entry)
             \<lparr>hi_family = family, hi_socktype = SOCK_STREAM, hi_passive = False\<rparr> of
        None \<Rightarrow> None
      | Some (r, chain) \<Rightarrow> if r = - 1 then Some ([], True) else main_active_loop null chain es)"

end
