(* ===== verification/Rpcapd_Config_Properties.thy ===== *)
theory Rpcapd_Config_Properties
  imports Rpcapd_Config Rpcap_Active_Properties
begin

text \<open>
  Properties of the configuration file of the daemon: what is saved is read back as the same hosts,
  and the inputs for which the reader or the writer leaves its arrays.
\<close>

section \<open>Lines\<close>

definition lines_text :: "string list \<Rightarrow> string" where
  "lines_text ls = concat (map (\<lambda>l. l @ [NL]) ls)"

definition plain_line :: "string \<Rightarrow> bool" where
  "plain_line l = (NL \<notin> set l \<and> NUL \<notin> set l \<and> length l < 2047)"

fun read_each :: "string list \<Rightarrow> config \<times> nat \<Rightarrow> (config \<times> nat) option" where
  "read_each [] ci = Some ci"
| "read_each (l # ls) ci = (case read_line (l @ [NL]) ci of None \<Rightarrow> None | Some ci' \<Rightarrow> read_each ls ci')"

lemma fgets_line:
  assumes "plain_line l"
  shows "fgets MAX_LINE (l @ [NL] @ r) = Some (l @ [NL], r)"
proof -
  have t: "takeWhile (\<lambda>c. c \<noteq> NL) (l @ [NL] @ r) = l" "takeWhile (\<lambda>c. c \<noteq> NUL) (l @ [NL]) = l @ [NL]"
    using assms by (auto simp: plain_line_def takeWhile_append takeWhile_eq_all_conv)
  have "min (MAX_LINE - 1) (length l + 1) = length l + 1" using assms by (simp add: plain_line_def)
  with t show ?thesis by (simp add: fgets_def Let_def)
qed

lemma read_lines_text: "list_all plain_line ls \<Longrightarrow> read_lines (lines_text ls) ci = read_each ls ci"
proof (induction ls arbitrary: ci)
  case Nil
  then show ?case by (simp add: lines_text_def read_lines.simps [of "[]"] fgets_def)
next
  case (Cons l ls)
  have "lines_text (l # ls) = l @ [NL] @ lines_text ls" by (simp add: lines_text_def)
  with Cons fgets_line [of l "lines_text ls"] show ?case
    by (simp add: read_lines.simps [of "l @ NL # lines_text ls"] split: option.splits)
qed

lemma read_each_append:
  "read_each (xs @ ys) ci = (case read_each xs ci of None \<Rightarrow> None | Some ci' \<Rightarrow> read_each ys ci')"
  by (induction xs arbitrary: ci) (auto split: option.splits)

lemma read_each_comments:
  "list_all (\<lambda>l. l = [] \<or> take 1 l = ''#'') ls \<Longrightarrow> read_each ls ci = Some ci"
  by (induction ls arbitrary: ci) (auto simp: read_line_def take_Cons' split: prod.splits)

section \<open>The saved file\<close>

definition used :: "(string \<times> string) list \<Rightarrow> (string \<times> string) list" where
  "used = takeWhile (\<lambda>(a, p). a \<noteq> [])"

definition passive_line :: "string \<Rightarrow> string" where
  "passive_line t = ''PassiveClient = '' @ t"

fun active_line :: "string \<times> string \<Rightarrow> string" where
  "active_line (a, p) = ''ActiveClient = '' @ a @ '', '' @ p"

definition null_line :: "bool \<Rightarrow> string" where
  "null_line b = (if b then ''NullAuthPermit = YES'' else ''NullAuthPermit = NO'')"

lemma passive_lines_words:
  "passive_lines s = lines_text (map passive_line (words RPCAP_HOSTLIST_SEP [] s))"
proof (induction s rule: passive_lines.induct)
  case (1 s)
  then show ?case
    by (auto simp: passive_lines.simps [of s] words_strtok [of _ s] lines_text_def passive_line_def
        split: option.splits)
qed

lemma active_lines_used:
  "active_lines xs = (if list_ex (\<lambda>e. fst e = []) xs then Some (lines_text (map active_line (used xs))) else None)"
  by (induction xs rule: active_lines.induct) (auto simp: lines_text_def used_def)

definition head_lines :: "string list" where
  "head_lines = [''# Configuration file help.'', [],
     ''# Hosts which are allowed to connect to this server (passive mode)'',
     ''# Format: PassiveClient = <name or address>'', []]"

definition middle_lines :: "string list" where
  "middle_lines = [[], [], ''# Hosts to which this server is trying to connect to (active mode)'',
     ''# Format: ActiveClient = <name or address>, <port | DEFAULT>'', []]"

definition last_lines :: "string list" where
  "last_lines = [[], [], ''# Permit NULL authentication: YES or NOT'', []]"

lemma config_text_lines:
  assumes "list_ex (\<lambda>e. fst e = []) (activelist c)" and "length (hostlist c) \<le> MAX_HOST_LIST"
  shows "config_text c = Some (lines_text (head_lines @ map passive_line (words RPCAP_HOSTLIST_SEP [] (hostlist c)) @
    middle_lines @ map active_line (used (activelist c)) @ last_lines @ [null_line (nullAuthAllowed c)]))"
  using assms
  by (simp add: config_text_def active_lines_used passive_lines_words head_lines_def middle_lines_def
      last_lines_def null_line_def) (simp add: lines_text_def)

section \<open>Reading the lines back\<close>

lemma strstr_end:
  assumes "NL \<notin> set p" and "p \<noteq> []"
  shows "strstr t p = None \<Longrightarrow> strstr (t @ [NL]) p = None"
proof (induction t)
  case Nil
  have "take (length p) [NL] \<noteq> p" using assms by (cases p) auto
  with assms(2) show ?case by simp
next
  case (Cons x t)
  have "take (length p) (x # t @ [NL]) \<noteq> p"
  proof (cases "length p \<le> length (x # t)")
    case True
    then have "take (length p) ((x # t) @ [NL]) = take (length p) (x # t)" by (simp only: take_append) simp
    with Cons.prems show ?thesis by (auto split: if_splits)
  next
    case False
    show ?thesis
    proof
      assume eq: "take (length p) (x # t @ [NL]) = p"
      have "length (x # t @ [NL]) \<le> length p" using False by simp
      then have "x # t @ [NL] = p" using eq by (metis take_all)
      with assms(1) show False by auto
    qed
  qed
  with Cons show ?case by (auto split: if_splits)
qed

definition storable_host :: "string \<Rightarrow> bool" where
  "storable_host t = (NUL \<notin> set t \<and> length t < 2031 \<and> strstr t ''ActiveClient'' = None)"

lemma read_passive_line:
  assumes "storable_host t" and "length (hostlist c) + length t + 3 \<le> MAX_HOST_LIST"
  shows "read_line (passive_line t @ [NL]) (c, i) =
    Some (c\<lparr>hostlist := hostlist c @ '' '' @ t @ [NL] @ '',''\<rparr>, i)"
proof -
  have "strstr (passive_line t @ [NL]) ''ActiveClient'' = None"
    using strstr_end [of "''ActiveClient''" t] assms(1) by (simp add: passive_line_def storable_host_def)
  moreover have "strstr (passive_line t @ [NL]) ''PassiveClient'' = Some (passive_line t @ [NL])"
    by (simp add: passive_line_def)
  moreover have "after_equals (passive_line t @ [NL]) = Some ('' '' @ t @ [NL])"
    by (simp add: passive_line_def after_equals_def)
  moreover have "take 1 (passive_line t @ [NL]) = ''P''" by (simp add: passive_line_def)
  ultimately show ?thesis
    using assms(2) by (simp add: read_line_def read_passive_def cat_hosts_def Let_def)
qed

lemma read_passive_lines:
  assumes "list_all storable_host ts" and "length (hostlist c) + sum_list (map (\<lambda>t. length t + 3) ts) \<le> MAX_HOST_LIST"
  shows "read_each (map passive_line ts) (c, i) =
    Some (c\<lparr>hostlist := hostlist c @ concat (map (\<lambda>t. '' '' @ t @ [NL] @ '','') ts)\<rparr>, i)"
  using assms
proof (induction ts arbitrary: c)
  case (Cons t ts)
  then show ?case using read_passive_line [of t c i] by simp
qed simp


definition entry_ok :: "string \<times> string \<Rightarrow> bool" where
  "entry_ok e = (case e of (a, p) \<Rightarrow>
     a \<noteq> [] \<and> p \<noteq> [] \<and> p \<noteq> ''DEFAULT'' \<and> length a + length p < 2030 \<and>
     set (a @ p) \<inter> set (CHR ''%'' # NUL # RPCAP_HOSTLIST_SEP) = {})"

lemma format_text_plain: "CHR ''%'' \<notin> set s \<Longrightarrow> format_text s = Some s"
  by (induction s) auto

lemma strtok_next:
  assumes "t \<noteq> []" and "set t \<inter> set sep = {}" and "c \<in> set sep" and "set pre \<subseteq> set sep"
  shows "strtok sep (pre @ t @ c # r) = Some (t, r)"
proof -
  obtain x xs where t: "t = x # xs" using assms(1) by (cases t) auto
  have "dropWhile (\<lambda>c. c \<in> set sep) (pre @ t @ c # r) = t @ c # r"
    using assms(2,4) t by (subst dropWhile_append2) auto
  moreover have "takeWhile (\<lambda>c. c \<notin> set sep) (t @ c # r) = t" "dropWhile (\<lambda>c. c \<notin> set sep) (t @ c # r) = c # r"
    using assms(2,3) by (auto simp: takeWhile_append dropWhile_append takeWhile_eq_all_conv)
  ultimately show ?thesis using assms(1) by (simp add: strtok_def)
qed

lemma read_active_line:
  assumes "entry_ok (a, p)" and "i < MAX_ACTIVE_LIST"
  shows "read_line (active_line (a, p) @ [NL]) (c, i) =
    Some (c\<lparr>activelist := (activelist c)[i := (a, p)]\<rparr>, i + 1)"
proof -
  have "strstr (active_line (a, p) @ [NL]) ''ActiveClient'' = Some (active_line (a, p) @ [NL])" by simp
  moreover have "after_equals (active_line (a, p) @ [NL]) = Some ('' '' @ a @ CHR '','' # '' '' @ p @ [NL])"
    by (simp add: after_equals_def)
  moreover have "strtok RPCAP_HOSTLIST_SEP ('' '' @ a @ CHR '','' # '' '' @ p @ [NL]) = Some (a, '' '' @ p @ [NL])"
    using assms(1) by (intro strtok_next) (auto simp: entry_ok_def)
  moreover have "strtok RPCAP_HOSTLIST_SEP ('' '' @ p @ [NL]) = Some (p, [])"
    using assms(1) by (intro strtok_next) (auto simp: entry_ok_def)
  moreover have "set_active i a p c = Some (c\<lparr>activelist := (activelist c)[i := (a, p)]\<rparr>)"
    using assms(1) by (simp add: set_active_def entry_ok_def format_text_plain)
  ultimately show ?thesis
    using assms(2) by (simp add: read_line_def read_active_def)
qed

lemma read_active_lines:
  assumes "list_all entry_ok es" and "i + length es \<le> MAX_ACTIVE_LIST" and "length (activelist c) = MAX_ACTIVE_LIST"
  shows "read_each (map active_line es) (c, i) =
    Some (c\<lparr>activelist := take i (activelist c) @ es @ drop (i + length es) (activelist c)\<rparr>, i + length es)"
  using assms
proof (induction es arbitrary: c i)
  case Nil
  then show ?case by simp
next
  case (Cons e es)
  obtain a p where e: "e = (a, p)" by fastforce
  let ?c = "c\<lparr>activelist := (activelist c)[i := (a, p)]\<rparr>"
  have "take (i + 1) ((activelist c)[i := (a, p)]) = take i (activelist c) @ [(a, p)]"
    using Cons.prems by (simp add: take_Suc_conv_app_nth)
  moreover have "drop (i + 1 + length es) ((activelist c)[i := (a, p)]) = drop (i + 1 + length es) (activelist c)"
    by simp
  ultimately show ?case
    using Cons.IH [of "i + 1" ?c] Cons.prems read_active_line [of a p i c] e
    by (simp del: active_line.simps)
qed

lemma read_null_line:
  "read_line (null_line b @ [NL]) (c, i) = Some (c\<lparr>nullAuthAllowed := b\<rparr>, i)"
  by (cases b) (simp_all add: read_line_def null_line_def)

lemma strrem_filter: "snd (strrem s c) = filter (\<lambda>x. x \<noteq> c) s"
proof (induction s c rule: strrem.induct)
  case (1 s c)
  show ?case
  proof (cases "c \<in> set s")
    case True
    then obtain xs ys where s: "s = xs @ c # ys" "c \<notin> set xs" by (meson split_list_first)
    then have t: "takeWhile (\<lambda>x. x \<noteq> c) s = xs" "dropWhile (\<lambda>x. x \<noteq> c) s = c # ys"
      by (auto simp: takeWhile_append dropWhile_append takeWhile_eq_all_conv)
    then have "strrem s c = (case strrem (xs @ ys) c of (n, t) \<Rightarrow> (n + 1, t))"
      by (subst strrem.simps) (use True in simp)
    with 1 [OF True] t s show ?thesis by (simp split: prod.splits)
  next
    case False
    then have "strrem s c = (0, s)" by (subst strrem.simps) simp
    moreover have "filter (\<lambda>x. x \<noteq> c) s = s" using False by (intro filter_True) auto
    ultimately show ?thesis by simp
  qed
qed

lemma words_saved:
  assumes "list_all (\<lambda>t. t \<noteq> [] \<and> set t \<inter> set RPCAP_HOSTLIST_SEP = {}) ts"
  shows "words RPCAP_HOSTLIST_SEP [] (concat (map (\<lambda>t. '' '' @ t @ '','') ts)) = ts"
  using assms
proof (induction ts)
  case (Cons t ts)
  then show ?case
    using words_run [of t RPCAP_HOSTLIST_SEP "CHR '',''" "[]" "concat (map (\<lambda>t. '' '' @ t @ '','') ts)"] by simp
qed simp

lemma words_are_words:
  "set cur \<inter> set sep = {} \<Longrightarrow> list_all (\<lambda>t. t \<noteq> [] \<and> set t \<inter> set sep = {}) (words sep cur s)"
  by (induction s arbitrary: cur) auto


text \<open>
  What can be stored: a list of active hosts with a free entry behind it, names and ports that are
  one word and fit into a line, and a list of permitted hosts that fits with what is put between them.
\<close>

definition storable :: "config \<Rightarrow> bool" where
  "storable c = (length (activelist c) = MAX_ACTIVE_LIST \<and> list_ex (\<lambda>e. fst e = []) (activelist c) \<and>
     list_all entry_ok (used (activelist c)) \<and> length (hostlist c) \<le> MAX_HOST_LIST \<and>
     list_all storable_host (words RPCAP_HOSTLIST_SEP [] (hostlist c)) \<and>
     sum_list (map (\<lambda>t. length t + 3) (words RPCAP_HOSTLIST_SEP [] (hostlist c))) \<le> MAX_HOST_LIST)"

lemma plain_fixed: "list_all plain_line (head_lines @ middle_lines @ last_lines @ [null_line b])"
  by (cases b) (simp_all add: plain_line_def head_lines_def middle_lines_def last_lines_def null_line_def)

lemma plain_passive:
  "storable_host t \<Longrightarrow> set t \<inter> set RPCAP_HOSTLIST_SEP = {} \<Longrightarrow> plain_line (passive_line t)"
  by (auto simp: plain_line_def storable_host_def passive_line_def)

lemma plain_active: "entry_ok e \<Longrightarrow> plain_line (active_line e)"
  by (cases e) (auto simp: plain_line_def entry_ok_def)

lemma plain_passive_all:
  "list_all storable_host ts \<Longrightarrow> list_all (\<lambda>t. t \<noteq> [] \<and> set t \<inter> set RPCAP_HOSTLIST_SEP = {}) ts \<Longrightarrow>
     list_all plain_line (map passive_line ts)"
  by (induction ts) (auto intro: plain_passive)

lemma plain_active_all: "list_all entry_ok es \<Longrightarrow> list_all plain_line (map active_line es)"
  by (induction es) (auto simp del: active_line.simps intro: plain_active)

lemma used_length: "list_ex (\<lambda>e. fst e = []) xs \<Longrightarrow> length (used xs) < length xs"
  by (induction xs) (auto simp: used_def)

lemma without_ends:
  "list_all (\<lambda>t. t \<noteq> [] \<and> set t \<inter> set RPCAP_HOSTLIST_SEP = {}) ts \<Longrightarrow>
     filter (\<lambda>x. x \<noteq> NL) (filter (\<lambda>x. x \<noteq> CR) (concat (map (\<lambda>t. '' '' @ t @ [NL] @ '','') ts))) =
     concat (map (\<lambda>t. '' '' @ t @ '','') ts)"
proof (induction ts)
  case (Cons t ts)
  then have "filter (\<lambda>x. x \<noteq> CR \<and> x \<noteq> NL) t = t" by (intro filter_True) auto
  with Cons show ?case by simp
qed simp

lemma used_again:
  "list_all entry_ok es \<Longrightarrow> n \<noteq> 0 \<Longrightarrow> used (es @ replicate n ([], [])) = es"
  by (cases n) (auto simp: used_def entry_ok_def list_all_iff takeWhile_append takeWhile_eq_all_conv)

definition stored_hosts :: "config \<Rightarrow> string" where
  "stored_hosts c = concat (map (\<lambda>t. '' '' @ t @ '','') (words RPCAP_HOSTLIST_SEP [] (hostlist c)))"

lemma config_read_back:
  assumes "storable c" and "length (activelist c0) = MAX_ACTIVE_LIST"
  shows "\<exists>text. fileconf_save True c = Some (0, Some text) \<and>
    fileconf_read (Some text) c0 = Some (c0\<lparr>hostlist := stored_hosts c,
      activelist := used (activelist c) @ replicate (MAX_ACTIVE_LIST - length (used (activelist c))) ([], []),
      nullAuthAllowed := nullAuthAllowed c\<rparr>)"
proof -
  let ?ts = "words RPCAP_HOSTLIST_SEP [] (hostlist c)" and ?es = "used (activelist c)"
  let ?ls = "head_lines @ map passive_line ?ts @ middle_lines @ map active_line ?es @ last_lines @
    [null_line (nullAuthAllowed c)]"
  have ok: "length (activelist c) = MAX_ACTIVE_LIST" "list_ex (\<lambda>e. fst e = []) (activelist c)"
    "list_all entry_ok ?es" "length (hostlist c) \<le> MAX_HOST_LIST" "list_all storable_host ?ts"
    "sum_list (map (\<lambda>t. length t + 3) ?ts) \<le> MAX_HOST_LIST"
    using assms(1) by (simp_all add: storable_def)
  have sep: "list_all (\<lambda>t. t \<noteq> [] \<and> set t \<inter> set RPCAP_HOSTLIST_SEP = {}) ?ts"
    by (rule words_are_words) simp
  have plain_line: "list_all plain_line ?ls"
    using plain_fixed plain_passive_all [OF ok(5) sep] plain_active_all [OF ok(3)] by simp
  let ?c1 = "c0\<lparr>hostlist := concat (map (\<lambda>t. '' '' @ t @ [NL] @ '','') ?ts)\<rparr>"
  let ?c2 = "?c1\<lparr>activelist := ?es @ drop (length ?es) (activelist c0), nullAuthAllowed := nullAuthAllowed c\<rparr>"
  have comments: "read_each head_lines ci = Some ci" "read_each middle_lines ci = Some ci"
    "read_each last_lines ci = Some ci" for ci
    by (rule read_each_comments; simp add: head_lines_def middle_lines_def last_lines_def)+
  have "read_each ?ls (c0\<lparr>hostlist := []\<rparr>, 0) = Some (?c2, length ?es)"
    using read_passive_lines [OF ok(5), of "c0\<lparr>hostlist := []\<rparr>" 0] ok(6) used_length [OF ok(2)]
      read_active_lines [OF ok(3), of 0 ?c1] ok(1) assms(2)
    by (simp add: read_each_append comments read_null_line)
  then have "read_lines (lines_text ?ls) (c0\<lparr>hostlist := []\<rparr>, 0) = Some (?c2, length ?es)"
    using read_lines_text [OF plain_line] by simp
  moreover have "filter (\<lambda>x. x \<noteq> NL) (filter (\<lambda>x. x \<noteq> CR) (hostlist ?c2)) = concat (map (\<lambda>t. '' '' @ t @ '','') ?ts)"
    using without_ends [OF sep] by simp
  ultimately have "fileconf_read (Some (lines_text ?ls)) c0 =
      Some (?c2\<lparr>activelist := ?es @ replicate (MAX_ACTIVE_LIST - length ?es) ([], []),
        hostlist := concat (map (\<lambda>t. '' '' @ t @ '','') ?ts)\<rparr>)"
    by (simp add: fileconf_read_def strrem_filter)
  moreover have "fileconf_save True c = Some (0, Some (lines_text ?ls))"
    using config_text_lines [OF ok(2,4)] by (simp add: fileconf_save_def)
  ultimately show ?thesis by (simp add: stored_hosts_def)
qed

lemma words_stored: "words RPCAP_HOSTLIST_SEP [] (stored_hosts c) = words RPCAP_HOSTLIST_SEP [] (hostlist c)"
  unfolding stored_hosts_def by (rule words_saved) (rule words_are_words, simp)

text \<open>
  Reading a saved configuration gives the hosts that may connect, the active hosts with their
  ports and the permission of the NULL authentication that were saved, whatever was set before.
\<close>

theorem config_roundtrip:
  assumes "storable c" and "length (activelist c0) = MAX_ACTIVE_LIST"
  shows "\<exists>text c'. fileconf_save True c = Some (0, Some text) \<and> fileconf_read (Some text) c0 = Some c' \<and>
    words RPCAP_HOSTLIST_SEP [] (hostlist c') = words RPCAP_HOSTLIST_SEP [] (hostlist c) \<and>
    (hostlist c' = [] \<longleftrightarrow> words RPCAP_HOSTLIST_SEP [] (hostlist c) = []) \<and>
    used (activelist c') = used (activelist c) \<and> nullAuthAllowed c' = nullAuthAllowed c"
proof -
  have e: "stored_hosts c = [] \<longleftrightarrow> words RPCAP_HOSTLIST_SEP [] (hostlist c) = []"
    by (simp add: stored_hosts_def)
  from config_read_back [OF assms] obtain f where
    t: "fileconf_save True c = Some (0, Some f)" "fileconf_read (Some f) c0 =
      Some (c0\<lparr>hostlist := stored_hosts c,
        activelist := used (activelist c) @ replicate (MAX_ACTIVE_LIST - length (used (activelist c))) ([], []),
        nullAuthAllowed := nullAuthAllowed c\<rparr>)" by blast
  have "length (used (activelist c)) < MAX_ACTIVE_LIST"
    using assms(1) used_length [of "activelist c"] by (simp add: storable_def)
  then have "used (used (activelist c) @ replicate (MAX_ACTIVE_LIST - length (used (activelist c))) ([], [])) =
      used (activelist c)"
    using assms(1) by (intro used_again) (simp_all add: storable_def)
  with t e show ?thesis by (simp add: words_stored)
qed

definition two_sites :: config where
  "two_sites = \<lparr>hostlist = ''10.0.0.1, 10.0.0.2'',
     activelist = (''10.0.0.3'', ''2003'') # replicate 9 ([], []), nullAuthAllowed = True\<rparr>"

definition no_sites :: config where
  "no_sites = \<lparr>hostlist = [], activelist = replicate 10 ([], []), nullAuthAllowed = False\<rparr>"

lemma storable_two_sites: "storable two_sites"
  by (simp add: storable_def two_sites_def used_def storable_host_def entry_ok_def list_ex_iff)

theorem config_roundtrip_witness:
  "\<exists>text c'. fileconf_save True two_sites = Some (0, Some text) \<and> fileconf_read (Some text) no_sites = Some c' \<and>
     words RPCAP_HOSTLIST_SEP [] (hostlist c') = [''10.0.0.1'', ''10.0.0.2''] \<and>
     used (activelist c') = [(''10.0.0.3'', ''2003'')] \<and> nullAuthAllowed c'"
proof -
  have "length (activelist no_sites) = MAX_ACTIVE_LIST" by (simp add: no_sites_def)
  moreover have "words RPCAP_HOSTLIST_SEP [] (hostlist two_sites) = [''10.0.0.1'', ''10.0.0.2'']"
    "used (activelist two_sites) = [(''10.0.0.3'', ''2003'')]" "nullAuthAllowed two_sites"
    by code_simp+
  ultimately show ?thesis using config_roundtrip [OF storable_two_sites, of no_sites] by auto
qed

section \<open>Faults\<close>

text \<open>With ten active hosts the loop of the writer reads behind the list.\<close>

theorem full_list_is_overread:
  "fileconf_save True c = None \<longleftrightarrow> list_all (\<lambda>e. fst e \<noteq> []) (activelist c)"
proof -
  have "list_ex (\<lambda>e. fst e = []) xs \<longleftrightarrow> \<not> list_all (\<lambda>e. fst e \<noteq> []) xs" for xs :: "(string \<times> string) list"
    by (auto simp: list_ex_iff list_all_iff)
  then show ?thesis by (auto simp: fileconf_save_def config_text_def active_lines_used)
qed

text \<open>A line that names an active host without a port makes the reader compare a NULL pointer.\<close>

theorem missing_port_faults:
  assumes "a \<noteq> []" and "set a \<inter> set RPCAP_HOSTLIST_SEP = {}" and "i < MAX_ACTIVE_LIST"
  shows "read_line (''ActiveClient = '' @ a @ [NL]) (c, i) = None"
proof -
  have "strtok RPCAP_HOSTLIST_SEP ('' '' @ a @ NL # []) = Some (a, [])"
    using assms by (intro strtok_next) auto
  moreover have "after_equals (''ActiveClient = '' @ a @ [NL]) = Some ('' '' @ a @ [NL])"
    by (simp add: after_equals_def)
  moreover have "strtok RPCAP_HOSTLIST_SEP [] = None" by (simp add: strtok_def)
  ultimately show ?thesis using assms(3) by (simp add: read_line_def read_active_def)
qed

text \<open>Two lists with the same words permit the same hosts, if they are both empty or both not.\<close>

lemma same_words_permit_same:
  assumes "words sep [] l = words sep [] l'" and "l = [] \<longleftrightarrow> l' = []"
  shows "fst (sock_check_hostlist g mallocs (Some l) sep adr) = fst (sock_check_hostlist g mallocs (Some l') sep adr)"
  using assms by (simp add: sock_check_hostlist_def hostlist_loop_iff)

text \<open>
  A list of permitted hosts without a word permits nobody; saved and read back it is empty, and an
  empty list permits everybody.
\<close>

theorem saved_separators_permit_all:
  assumes "storable c" and "hostlist c \<noteq> []" and "words RPCAP_HOSTLIST_SEP [] (hostlist c) = []"
    and "length (activelist c0) = MAX_ACTIVE_LIST"
  shows "\<exists>text c'. fileconf_save True c = Some (0, Some text) \<and> fileconf_read (Some text) c0 = Some c' \<and>
    fst (sock_check_hostlist g True (Some (hostlist c)) RPCAP_HOSTLIST_SEP adr) = - 1 \<and>
    fst (sock_check_hostlist g True (Some (hostlist c')) RPCAP_HOSTLIST_SEP adr) = 1"
proof -
  have "stored_hosts c = []" using assms(3) by (simp add: stored_hosts_def)
  moreover have "fst (sock_check_hostlist g True (Some (hostlist c)) RPCAP_HOSTLIST_SEP adr) = - 1"
    using assms(2,3) by (simp add: sock_check_hostlist_def hostlist_loop_iff)
  moreover have "fst (sock_check_hostlist g True (Some []) RPCAP_HOSTLIST_SEP adr) = 1"
    by (simp add: sock_check_hostlist_def)
  ultimately show ?thesis using config_read_back [OF assms(1,4)] by auto
qed

end
