(* ===== verification/Rpcapd_Start_Properties.thy ===== *)
theory Rpcapd_Start_Properties
  imports Rpcapd_Start Rpcapd_Config_Properties Rpcap_Session
begin

text \<open>
  Properties of the start of the daemon: \<open>getopt\<close> finds the options of a command line, a saved
  configuration survives a restart, and the waiting threads do nothing for hosts that are not
  permitted and clients that have not logged on.
\<close>

section \<open>Options\<close>

text \<open>A command line with one argument for an option, and one for the argument of the option.\<close>

fun render :: "char \<times> string option \<Rightarrow> string list" where
  "render (c, None) = [[CHR ''-'', c]]"
| "render (c, Some a) = [[CHR ''-'', c], a]"

definition valid_option :: "char \<times> string option \<Rightarrow> bool" where
  "valid_option x = (if snd x = None then fst x \<in> set ''dh4nv'' else fst x \<in> set ''bplasf'')"

fun apply_options :: "(char \<times> string option) list \<Rightarrow> settings \<Rightarrow> startup" where
  "apply_options [] s = Ready s"
| "apply_options ((c, a) # os) s =
     (case do_option c a s of Ready s' \<Rightarrow> apply_options os s' | Program_Ends \<Rightarrow> Program_Ends | Start_Fault \<Rightarrow> Start_Fault)"

definition getopt_at :: "nat \<Rightarrow> string option \<Rightarrow> getopt_state" where
  "getopt_at i a = \<lparr>optind = i, place = [], optarg = a\<rparr>"

lemma option_letters_arguments:
  "list_all (\<lambda>c. c \<noteq> CHR ''-'' \<and> c \<noteq> CHR '':'' \<and> dropWhile (\<lambda>x. x \<noteq> c) option_letters \<noteq> [] \<and>
     (take 1 (drop 1 (dropWhile (\<lambda>x. x \<noteq> c) option_letters)) = '':'') = (c \<notin> set ''dh4nv''))
     (''dh4nv'' @ ''bplasf'')"
  by code_simp

lemma getopt_rendered:
  assumes "valid_option (c, a)"
  shows "getopt (pre @ render (c, a) @ rest) option_letters (getopt_at (length pre) x) =
    (Some c, getopt_at (length pre + length (render (c, a))) a)"
proof -
  let ?argv = "pre @ render (c, a) @ rest" and ?oli = "dropWhile (\<lambda>x. x \<noteq> c) option_letters"
  have c: "c \<noteq> CHR ''-''" "c \<noteq> CHR '':''" "?oli \<noteq> []" "(take 1 (drop 1 ?oli) = '':'') = (a \<noteq> None)"
  proof -
    have "c \<in> set (''dh4nv'' @ ''bplasf'')" "(c \<notin> set ''dh4nv'') = (a \<noteq> None)"
      using assms by (auto simp: valid_option_def split: if_splits)
    then show "c \<noteq> CHR ''-''" "c \<noteq> CHR '':''" "?oli \<noteq> []" "(take 1 (drop 1 ?oli) = '':'') = (a \<noteq> None)"
      using option_letters_arguments unfolding list_all_iff by blast+
  qed
  obtain as where r: "render (c, a) = [CHR ''-'', c] # as" "as = (case a of None \<Rightarrow> [] | Some b \<Rightarrow> [b])"
    by (cases a) simp_all
  have "?argv ! length pre = [CHR ''-'', c]" "length pre < length ?argv" using r by (simp_all add: nth_append)
  then have "next_place ?argv (getopt_at (length pre) x) = (True, \<lparr>optind = length pre, place = [c], optarg = x\<rparr>)"
    using c(1) by (simp add: next_place_def getopt_at_def Let_def)
  moreover have "?argv ! Suc (length pre) = b" "Suc (length pre) < length ?argv" if "a = Some b" for b
    using r that by (simp_all add: nth_append)
  ultimately show ?thesis
    using c r by (cases a) (auto simp: getopt_def getopt_at_def Let_def)
qed

lemma getopt_end: "getopt pre option_letters (getopt_at (length pre) x) = (None, getopt_at (length pre) x)"
  by (simp add: getopt_def next_place_def getopt_at_def)

lemma parse_rendered:
  assumes "list_all valid_option os"
  shows "parse_options (pre @ concat (map render os)) (getopt_at (length pre) x) s = apply_options os s"
  using assms
proof (induction os arbitrary: pre x s)
  case Nil
  then show ?case by (simp add: parse_options.simps [of pre] getopt_end)
next
  case (Cons y os)
  obtain c a where y: "y = (c, a)" by fastforce
  let ?argv = "pre @ render (c, a) @ concat (map render os)"
  have "getopt ?argv option_letters (getopt_at (length pre) x) =
      (Some c, getopt_at (length (pre @ render (c, a))) a)"
    using Cons.prems y getopt_rendered [of c a pre "concat (map render os)" x] by simp
  moreover have "optarg (getopt_at i a) = a" for i by (simp add: getopt_at_def)
  moreover have "parse_options ?argv (getopt_at (length (pre @ render (c, a))) a) s' = apply_options os s'" for s'
    using Cons.IH [of "pre @ render (c, a)" a s'] Cons.prems by simp
  ultimately show ?case
    using y by (subst parse_options.simps) (simp split: startup.splits)
qed

text \<open>
  The options of a command line reach the daemon in their order, each with its own argument,
  also where the argument is empty or looks like an option itself.
\<close>

theorem options_applied:
  assumes "list_all valid_option os"
  shows "parse_options (prog # concat (map render os)) \<lparr>optind = 1, place = [], optarg = None\<rparr> s = apply_options os s"
  using parse_rendered [OF assms, of "[prog]" None s] by (simp add: getopt_at_def)

lemma apply_options_append:
  "apply_options (os @ os') s =
     (case apply_options os s of Ready s' \<Rightarrow> apply_options os' s' | Program_Ends \<Rightarrow> Program_Ends | Start_Fault \<Rightarrow> Start_Fault)"
  by (induction os s rule: apply_options.induct) (auto split: startup.splits)

text \<open>
  C38: A daemon that saves its configuration, and another one that is started with the saved file,
  permit the same hosts to connect, whatever the names mean, connect to the same hosts and agree on
  the NULL authentication. The conditions: there are less than ten active hosts, with names and ports
  without percent signs and separators and a port other than the word DEFAULT, every line fits the
  buffer of the reader and the lists fit theirs, no name contains the keyword of the active lines
  (\<open>storable\<close>), and the list of permitted hosts is empty or names a host. What happens to a list that
  is neither is stated by \<open>saved_separators_permit_all\<close>, and what happens with ten active hosts by
  \<open>full_list_is_overread\<close>.
\<close>

theorem config_survives_restart:
  assumes "list_all valid_option os" and "file \<noteq> []" and "length file < MAX_LINE"
    and "apply_options (os @ [(CHR ''s'', Some file)]) default_settings = Ready s" and "set_loadfile s = []"
    and "storable (set_config s)"
    and "hostlist (set_config s) = [] \<or> words RPCAP_HOSTLIST_SEP [] (hostlist (set_config s)) \<noteq> []"
  shows "\<exists>files' s'. rpcapd_main True True (prog # concat (map render (os @ [(CHR ''s'', Some file)]))) files =
      (Ready s, files') \<and>
    rpcapd_main True writes [prog, ''-f'', file] files' = (Ready s', files') \<and>
    (\<forall>g mallocs adr. fst (sock_check_hostlist g mallocs (Some (hostlist (set_config s'))) RPCAP_HOSTLIST_SEP adr) =
      fst (sock_check_hostlist g mallocs (Some (hostlist (set_config s))) RPCAP_HOSTLIST_SEP adr)) \<and>
    used (activelist (set_config s')) = used (activelist (set_config s)) \<and>
    nullAuthAllowed (set_config s') = nullAuthAllowed (set_config s)"
proof -
  have saved: "set_savefile s = file"
    using assms(3,4)
    by (auto simp: apply_options_append do_option_def with_arg_def start_from_def split: startup.splits)
  obtain t c' where t: "fileconf_save True (set_config s) = Some (0, Some t)"
    "fileconf_read (Some t) (set_config default_settings) = Some c'"
    "words RPCAP_HOSTLIST_SEP [] (hostlist c') = words RPCAP_HOSTLIST_SEP [] (hostlist (set_config s))"
    "hostlist c' = [] \<longleftrightarrow> words RPCAP_HOSTLIST_SEP [] (hostlist (set_config s)) = []"
    "used (activelist c') = used (activelist (set_config s))"
    "nullAuthAllowed c' = nullAuthAllowed (set_config s)"
    using config_roundtrip [OF assms(6), of "set_config default_settings"]
    by (auto simp: default_settings_def)
  have "hostlist c' = [] \<longleftrightarrow> hostlist (set_config s) = []" using t(4) assms(7) by auto
  note permit = same_words_permit_same [OF t(3) this]
  have "list_all valid_option (os @ [(CHR ''s'', Some file)])" using assms(1) by (simp add: valid_option_def)
  from options_applied [OF this, of prog default_settings] assms(2,4,5) t(1) saved
  have "rpcapd_main True True (prog # concat (map render (os @ [(CHR ''s'', Some file)]))) files =
      (Ready s, files(file \<mapsto> t))"
    by (simp add: rpcapd_main_def)
  moreover have "parse_options [prog, ''-f'', file] \<lparr>optind = 1, place = [], optarg = None\<rparr> default_settings =
      Ready (default_settings\<lparr>set_loadfile := file\<rparr>)"
    using options_applied [of "[(CHR ''f'', Some file)]" prog default_settings] assms(3)
    by (simp add: valid_option_def do_option_def with_arg_def start_from_def)
  then have "rpcapd_main True writes [prog, ''-f'', file] (files(file \<mapsto> t)) =
      (Ready (default_settings\<lparr>set_loadfile := file, set_config := c'\<rparr>), files(file \<mapsto> t))"
    using assms(2) t(2) by (simp add: rpcapd_main_def default_settings_def)
  ultimately show ?thesis using t(5,6) permit by auto
qed


section \<open>Threads\<close>

text \<open>With ten active hosts the loop that starts their threads reads behind the list.\<close>

theorem full_list_is_overread_at_start:
  "(start_active es [] = None) \<longleftrightarrow> list_all (\<lambda>e. fst e \<noteq> []) es"
  by (induction es) auto

lemma main_passive_served:
  "Served sock r \<in> set (main_passive g hosts null as) \<Longrightarrow>
     \<exists>c. Client c \<in> set as \<and> main_passive_round g hosts null c = Served sock r"
  by (induction g hosts null as rule: main_passive.induct) auto

text \<open>
  C39: A waiting thread does nothing for a client, and opens no device, unless the address of the
  client is one of the words of the list of permitted hosts, where there is one, and the client has
  logged on, where that is required.
\<close>

theorem only_permitted_clients_are_served:
  assumes "Served sock (Inr (ended, d, ev, rest)) \<in> set (main_passive g hosts null as)"
    and "hosts \<noteq> []" and "list_ex privileged ev"
  shows "\<exists>c. Client c \<in> set as \<and> cl_sock c = sock \<and>
    list_ex (\<lambda>t. permits g t (host_key (cl_from c))) (words RPCAP_HOSTLIST_SEP [] hosts) \<and>
    (null \<or> list_ex (some_logon (cl_envs c)) (before_commands ev))"
proof -
  obtain c where c: "Client c \<in> set as" "main_passive_round g hosts null c = Served sock (Inr (ended, d, ev, rest))"
    using main_passive_served [OF assms(1)] by blast
  then have served: "cl_sock c = sock"
    "daemon_serviceloop (cl_envs c) (slpars False null) (cl_in c) = Inr (ended, d, ev, rest)"
    "\<not> fst (sock_check_hostlist g (cl_list_mallocs c) (Some hosts) RPCAP_HOSTLIST_SEP (cl_from c)) < 0"
    by (auto simp: main_passive_round_def split: if_splits)
  then have "list_ex (\<lambda>t. permits g t (host_key (cl_from c))) (words RPCAP_HOSTLIST_SEP [] hosts)"
    using assms(2) by (auto simp: sock_check_hostlist_def hostlist_loop_iff split: if_splits)
  moreover have "null \<or> list_ex (some_logon (cl_envs c)) (before_commands ev)"
    using service_sound [OF served(2) assms(3)] by (simp add: slpars_def)
  ultimately show ?thesis using c(1) served(1) by blast
qed

text \<open>Every client that is not permitted is told, and its connection is not kept.\<close>

theorem other_clients_are_refused:
  assumes "hosts \<noteq> []" and "\<not> list_ex (\<lambda>t. permits g t (host_key (cl_from c))) (words RPCAP_HOSTLIST_SEP [] hosts)"
  shows "main_passive_round g hosts null c =
    Refused (cl_sock c) (snd (sock_send (rpcap_senderror (cl_error c) 10) (cl_out c)))"
  using assms by (auto simp: main_passive_round_def sock_check_hostlist_def hostlist_loop_iff)

section \<open>Closing an active connection\<close>

lemma close_message_ends:
  assumes "segments_ok s" and "avail s = header_enc (rpcap_createhdr RPCAP_MSG_CLOSE 0 0) @ rest"
    and "isactive d"
  shows "\<exists>d' ev s'. daemon_loop (env # envs) d s = Inr (True, d', ev, s') \<and> activeclose d'"
proof -
  from header_received [OF assms(1,2)] obtain s1 where
    s1: "sock_recv 8 True s = (8, header_enc (rpcap_createhdr RPCAP_MSG_CLOSE 0 0), s1)" by blast
  have "rpcap_checkmsg (rpcap_createhdr RPCAP_MSG_CLOSE 0 0) requests s1 = (uint RPCAP_MSG_CLOSE, s1)"
    by (subst checkmsg_expected) (simp_all add: rpcap_createhdr_def requests_def)
  then have "\<exists>d' ev s'. daemon_round env d s = Inr (False, d', ev, s') \<and> activeclose d'"
    using s1 assms(3)
    by (auto simp: daemon_round_def Let_def idle_def header.dec_enc' daemon_command_def)
  then show ?thesis by (fastforce split: sum.splits)
qed

lemma close_sends_message:
  assumes "cr_ret (pcap_remoteact_close g out shuts name st) = 0" and "Send_Fails \<notin> set out"
  shows "cr_sent (pcap_remoteact_close g out shuts name st) = header_enc (rpcap_createhdr RPCAP_MSG_CLOSE 0 0)"
  using assms
  by (auto simp: pcap_remoteact_close_def Let_def sock_send_accepts split: option.splits prod.splits if_splits)

text \<open>
  C40: A host that the client closes stays away: the active thread that gets the messages of
  \<open>pcap_remoteact_accept\<close> and of \<open>pcap_remoteact_close\<close> logs on, ends and does not connect again.
\<close>

theorem closed_host_stays_away:
  assumes "rpcap_sendauth (credentials u p) out1 answer = Some (0, hello, rest)" and "Send_Fails \<notin> set out1"
    and "cr_ret (pcap_remoteact_close g out2 shuts name st) = 0" and "Send_Fails \<notin> set out2"
    and "segments_ok (at_in e)" and "avail (at_in e) = hello @ cr_sent (pcap_remoteact_close g out2 shuts name st)"
    and "16 + length u + length p \<le> RPCAP_NETBUF_SIZE" and "0 \<notin> set u" and "0 \<notin> set p"
    and "at_envs e = env1 # env2 # envs" and "logon (authentication env1) u p"
    and "auth_mallocs (authentication env1)" and "Send_Fails \<notin> set (auth_out (authentication env1))"
    and "sock_open (at_sockets e) chain False PCAP_ERRBUF_SIZE = Some (sock, closed)" and "sock \<noteq> - 1"
    and "at_mallocs e"
  shows "\<exists>r. main_active_loop null chain (e # es) = Some ([Serves sock r], True)"
proof -
  have "hello = header_enc (auth_request u p) @ auth_body u p"
    using assms(1,2) auth_message_credentials [OF assms(7)]
    by (auto simp: rpcap_sendauth_def sock_send_accepts split: prod.splits)
  with assms(6) close_sends_message [OF assms(3,4)] have
    "avail (at_in e) = header_enc (auth_request u p) @ auth_body u p @ header_enc (rpcap_createhdr RPCAP_MSG_CLOSE 0 0)"
    by simp
  from checkauth_credentials [OF assms(5) this assms(7-9,12,13), of "null"] assms(11) obtain s' ev where
    c: "daemon_checkauth (authentication env1) null (at_in e) = (0, ev, s')"
    "avail s' = header_enc (rpcap_createhdr RPCAP_MSG_CLOSE 0 0)" "segments_ok s'" by auto
  obtain d' ev' s2 where l: "daemon_loop (env2 # envs) (slpars True null) s' = Inr (True, d', ev', s2)" "activeclose d'"
    using close_message_ends [of s' "[]" "slpars True null" env2 envs] c(2,3) by (auto simp: slpars_def)
  have "daemon_serviceloop (at_envs e) (slpars True null) (at_in e) = Inr (True, d', ev @ ev', s2)"
    using c(1) l(1) assms(10) by (simp add: slpars_def del: daemon_loop.simps)
  then show ?thesis using assms(14-16) l(2) by (simp add: Let_def del: daemon_serviceloop.simps)
qed


section \<open>A site\<close>

definition site_options :: "(char \<times> string option) list" where
  "site_options = [(CHR ''l'', Some ''10.0.0.1, 10.0.0.2''), (CHR ''a'', Some ''10.0.0.3,2003''), (CHR ''n'', None)]"

lemma site_words:
  "strtok RPCAP_HOSTLIST_SEP ''10.0.0.3,2003'' = Some (''10.0.0.3'', ''2003'')"
  "strtok RPCAP_HOSTLIST_SEP ''2003'' = Some (''2003'', [])"
  "strtok RPCAP_HOSTLIST_SEP [] = None"
  by code_simp+

lemma site_active:
  "active_args ''10.0.0.3,2003'' 0 c = Some (c\<lparr>activelist := (activelist c)[0 := (''10.0.0.3'', ''2003'')]\<rparr>)"
proof -
  have "set_active 0 ''10.0.0.3'' ''2003'' c = Some (c\<lparr>activelist := (activelist c)[0 := (''10.0.0.3'', ''2003'')]\<rparr>)"
    by (simp add: set_active_def)
  moreover have "active_args [] 1 d = Some d" for d by (subst active_args.simps) (simp add: site_words)
  ultimately show ?thesis by (subst active_args.simps) (simp only: site_words option.case prod.case, simp)
qed

lemma site_settings:
  "apply_options (site_options @ [(CHR ''s'', Some ''rpcapd.ini'')]) default_settings =
     Ready (default_settings\<lparr>set_config := two_sites, set_savefile := ''rpcapd.ini''\<rparr>)"
proof -
  have "replicate MAX_ACTIVE_LIST ([], []) = ([], []) # replicate 9 ([] :: string, [] :: string)"
    using replicate_Suc [of 9 "([] :: string, [] :: string)"] by simp
  then show ?thesis
    by (simp add: site_options_def do_option_def with_arg_def start_from_def default_settings_def two_sites_def site_active)
qed

theorem config_survives_restart_witness:
  "\<exists>files' s'. rpcapd_main True True [''rpcapd'', ''-l'', ''10.0.0.1, 10.0.0.2'', ''-a'', ''10.0.0.3,2003'', ''-n'', ''-s'', ''rpcapd.ini''] Map.empty =
      (Ready (default_settings\<lparr>set_config := two_sites, set_savefile := ''rpcapd.ini''\<rparr>), files') \<and>
    rpcapd_main True False [''rpcapd'', ''-f'', ''rpcapd.ini''] files' = (Ready s', files') \<and>
    fst (sock_check_hostlist phone_book True (Some (hostlist (set_config s'))) RPCAP_HOSTLIST_SEP (peer 3)) = - 1 \<and>
    used (activelist (set_config s')) = [(''10.0.0.3'', ''2003'')]"
proof -
  have "list_all valid_option site_options" by code_simp
  moreover have "used (activelist two_sites) = [(''10.0.0.3'', ''2003'')]" by code_simp
  moreover have "words RPCAP_HOSTLIST_SEP [] (hostlist two_sites) \<noteq> []" by code_simp
  moreover have "fst (sock_check_hostlist phone_book True (Some (hostlist two_sites)) RPCAP_HOSTLIST_SEP (peer 3)) = - 1"
    by code_simp
  moreover have "set_loadfile (default_settings\<lparr>set_config := two_sites, set_savefile := ''rpcapd.ini''\<rparr>) = []"
    by (simp add: default_settings_def)
  ultimately show ?thesis
    using config_survives_restart [of site_options "''rpcapd.ini''", OF _ _ _ site_settings, of "''rpcapd''" Map.empty False] storable_two_sites
    by (auto simp: site_options_def)
qed


definition visitor :: client where
  "visitor = \<lparr>cl_sock = 5, cl_from = peer 2, cl_list_mallocs = True, cl_mallocs = True, cl_thread = True,
     cl_error = [], cl_out = [], cl_envs = [good_env, good_env], cl_in = listing_session\<rparr>"

theorem only_permitted_clients_are_served_witness:
  "\<exists>d ev rest. Served 5 (Inr (False, d, ev, rest)) \<in>
      set (main_passive phone_book ''10.0.0.1,10.0.0.2'' False [Accept_Fails, Client visitor]) \<and>
    list_ex (\<lambda>t. permits phone_book t (host_key (peer 2))) (words RPCAP_HOSTLIST_SEP [] ''10.0.0.1,10.0.0.2'') \<and>
    list_ex (some_logon [good_env, good_env]) (before_commands ev)"
proof -
  obtain d ev rest where r: "daemon_serviceloop [good_env, good_env] (fresh False) listing_session = Inr (False, d, ev, rest)"
    "list_ex privileged ev" using listing_session_runs by blast
  moreover have "slpars False False = fresh False" by (simp add: slpars_def fresh_def)
  moreover have "fst (sock_check_hostlist phone_book True (Some ''10.0.0.1,10.0.0.2'') RPCAP_HOSTLIST_SEP (peer 2)) = 0"
    by code_simp
  ultimately have s: "Served 5 (Inr (False, d, ev, rest)) \<in>
      set (main_passive phone_book ''10.0.0.1,10.0.0.2'' False [Accept_Fails, Client visitor])"
    by (simp add: main_passive_round_def visitor_def del: daemon_serviceloop.simps)
  from only_permitted_clients_are_served [OF s _ r(2)] s show ?thesis
    by (auto simp: visitor_def)
qed

definition daemon_answers :: in_stream where
  "daemon_answers = [Arrives (header_enc (rpcap_createhdr RPCAP_MSG_AUTH_REPLY 0 0))]"

definition reached :: sock_env where
  "reached = \<lparr>se_socket = 6, se_bind = True, se_listen = True, se_connect = (\<lambda>a. None)\<rparr>"

definition visit :: attempt_env where
  "visit = \<lparr>at_sockets = reached, at_mallocs = True, at_envs = [good_env, good_env],
     at_in = [Arrives (header_enc (auth_request [97] [98]) @ auth_body [97] [98] @
       header_enc (rpcap_createhdr RPCAP_MSG_CLOSE 0 0))]\<rparr>"

theorem closed_host_stays_away_witness:
  "\<exists>r. main_active_loop False [stream_to 1] [visit, visit] = Some ([Serves 6 r], True)"
proof -
  let ?close = "pcap_remoteact_close phone_book [] True ''10.0.0.1'' (with_hosts [(1, 7)])"
  let ?hello = "header_enc (auth_request [97] [98]) @ auth_body [97] [98]"
  have a: "rpcap_sendauth (credentials [97] [98]) [] daemon_answers = Some (0, ?hello, [])"
  proof -
    have "auth_answer daemon_answers = (0, [])" unfolding daemon_answers_def by code_simp
    then show ?thesis
      using auth_message_credentials [of "[97]" "[98]"] by (simp add: rpcap_sendauth_def)
  qed
  have c: "cr_ret ?close = 0" by code_simp
  have "cr_sent ?close = header_enc (rpcap_createhdr RPCAP_MSG_CLOSE 0 0)"
    by (rule close_sends_message [OF c]) simp
  then have v: "avail (at_in visit) = ?hello @ cr_sent ?close" by (simp add: visit_def)
  have "segments_ok (at_in visit)" by (simp add: visit_def segments_ok_def header.enc_ne)
  moreover have "logon (authentication good_env) [97] [98]" "auth_mallocs (authentication good_env)"
    "auth_out (authentication good_env) = []" by (simp_all add: good_env_def)
  moreover have "sock_open reached [stream_to 1] False PCAP_ERRBUF_SIZE = Some (6, [])"
    by (simp add: sock_open_def reached_def)
  ultimately show ?thesis
    using closed_host_stays_away [OF a _ c _ _ v, of good_env good_env "[]" "[stream_to 1]" 6 "[]" False "[visit]"]
    by (simp add: visit_def)
qed

end
