(* ===== verification/Tme.thy ===== *)
theory Tme
  imports Prelude "HOL-Library.Monad_Syntax"
begin

text \<open>
  The table management engine of the driver (\<open>packetNtx/driver/tme.c\<close>, \<open>tme.h\<close>, \<open>memory_t.h\<close>):
  the extended memory, the registers of a block, and the operations that initialise, validate and
  select the blocks. A pointer is its 32-bit address; None as a result is an access outside the
  extended memory.
\<close>

section \<open>Extended memory\<close>

text \<open>\<open>MEM_TYPE\<close>: the address of the buffer, what it holds, and the size the code has stored.\<close>

record mem_type =
  mx_addr :: u32
  mx_bytes :: "u8 list"
  mx_size :: u32

definition mx_read :: "mem_type \<Rightarrow> u32 \<Rightarrow> nat \<Rightarrow> u8 list option" where
  "mx_read m p n = slice (mx_bytes m) (unat (p - mx_addr m)) n"

definition mx_write :: "mem_type \<Rightarrow> u32 \<Rightarrow> u8 list \<Rightarrow> mem_type option" where
  "mx_write m p b = map_option (\<lambda>c. m\<lparr>mx_bytes := c\<rparr>) (blit (mx_bytes m) (unat (p - mx_addr m)) b)"

definition ULONG_AT :: "mem_type \<Rightarrow> u32 \<Rightarrow> u32 option" where
  "ULONG_AT m p = map_option le32_of (mx_read m p 4)"

definition SW_ULONG_AT :: "mem_type \<Rightarrow> u32 \<Rightarrow> u32 option" where
  "SW_ULONG_AT m p = map_option (\<lambda>b. le32_of (rev b)) (mx_read m p 4)"

definition SW_USHORT_AT :: "mem_type \<Rightarrow> u32 \<Rightarrow> u16 option" where
  "SW_USHORT_AT m p = map_option (\<lambda>b. push_bit 8 (ucast (b ! 0)) OR ucast (b ! 1)) (mx_read m p 2)"

definition SW_ULONG_ASSIGN :: "mem_type \<Rightarrow> u32 \<Rightarrow> u32 \<Rightarrow> mem_type option" where
  "SW_ULONG_ASSIGN m p w = mx_write m p (rev (le32_bytes w))"

definition COPY_MEMORY :: "mem_type \<Rightarrow> u32 \<Rightarrow> u32 \<Rightarrow> nat \<Rightarrow> mem_type option" where
  "COPY_MEMORY m dst src n = do { b \<leftarrow> mx_read m src n; mx_write m dst b }"

definition ZERO_MEMORY :: "mem_type \<Rightarrow> u32 \<Rightarrow> nat \<Rightarrow> mem_type option" where
  "ZERO_MEMORY m p n = mx_write m p (replicate n 0)"

text \<open>A time stamp, seconds and microseconds, and \<open>GET_TIME\<close> into the memory.\<close>

type_synonym timeval = "u32 \<times> u32"

definition put_time :: "mem_type \<Rightarrow> u32 \<Rightarrow> timeval \<Rightarrow> mem_type option" where
  "put_time m p now = mx_write m p (le32_bytes (fst now) @ le32_bytes (snd now))"

section \<open>The data of a block and of the core\<close>

abbreviation (input) TME_ERROR :: nat where "TME_ERROR \<equiv> 0"
abbreviation (input) TME_SUCCESS :: nat where "TME_SUCCESS \<equiv> 1"
abbreviation (input) TME_TRUE :: nat where "TME_TRUE \<equiv> 2"
abbreviation (input) TME_FALSE :: nat where "TME_FALSE \<equiv> 3"

abbreviation (input) MAX_TME_DATA_BLOCKS :: nat where "MAX_TME_DATA_BLOCKS \<equiv> 4"
abbreviation (input) TME_NONE_ACTIVE :: u32 where "TME_NONE_ACTIVE \<equiv> 0xffffffff"
abbreviation (input) DELTA_READ :: u32 where "DELTA_READ \<equiv> 2"

datatype lut_fcn = Normal_Lut_W_Insert | Normal_Lut_Wo_Insert | Bucket_Lookup | Bucket_Lookup_Insert
datatype exec_fcn = Count_Packets | Tcp_Session

text \<open>Function pointers are the functions of \<open>functions.c\<close>; None is the pointer NULL.\<close>

definition lut_fcn_mapper :: "u32 \<Rightarrow> lut_fcn option" where
  "lut_fcn_mapper i =
     (if i = 0 then Some Normal_Lut_W_Insert else if i = 1 then Some Normal_Lut_Wo_Insert
      else if i = 0x10 then Some Bucket_Lookup else if i = 0x11 then Some Bucket_Lookup_Insert else None)"

definition exec_fcn_mapper :: "u32 \<Rightarrow> exec_fcn option" where
  "exec_fcn_mapper i = (if i = 0 then Some Count_Packets else if i = 0x800 then Some Tcp_Session else None)"

record tme_data =
  lut_entries :: u32
  max_fill_state :: u32
  rehashing_value :: u32
  key_len :: u32
  shared_memory_blocks :: u32
  filled_entries :: u32
  block_size :: u32
  extra_segment_size :: u32
  filled_blocks :: u32
  lookup_code :: "lut_fcn option"
  default_exec :: u32
  out_lut_exec :: u32
  lut_base_address :: u32
  shared_memory_base_address :: u32
  extra_segment_base_address :: u32
  last_read :: timeval
  enable_deletion :: bool
  last_found :: "u32 option"

record tme_core =
  working :: u32
  active :: u32
  validated_blocks :: u32
  block_data :: "tme_data list"
  active_read :: u32

definition zero_data :: tme_data where
  "zero_data = \<lparr>lut_entries = 0, max_fill_state = 0, rehashing_value = 0, key_len = 0, shared_memory_blocks = 0,
     filled_entries = 0, block_size = 0, extra_segment_size = 0, filled_blocks = 0, lookup_code = None,
     default_exec = 0, out_lut_exec = 0, lut_base_address = 0, shared_memory_base_address = 0,
     extra_segment_base_address = 0, last_read = (0, 0), enable_deletion = False, last_found = None\<rparr>"

text \<open>A pointer that is NULL unless it is set is compared with NULL only; \<open>last_found\<close> is one.\<close>

definition IS_VALIDATED :: "u32 \<Rightarrow> u32 \<Rightarrow> bool" where
  "IS_VALIDATED src index \<longleftrightarrow> src AND push_bit (unat index) 1 \<noteq> 0"

definition VALIDATE :: "u32 \<Rightarrow> u32 \<Rightarrow> u32" where
  "VALIDATE src index = src OR push_bit (unat index) 1"

text \<open>The signed addition of the seconds wraps around.\<close>

definition IS_DELETABLE :: "mem_type \<Rightarrow> u32 \<Rightarrow> tme_data \<Rightarrow> bool option" where
  "IS_DELETABLE m p d =
     (if \<not> enable_deletion d then Some False
      else if filled_entries d < max_fill_state d then Some False
      else do { sec \<leftarrow> ULONG_AT m p; Some (sint (sec + DELTA_READ) < sint (fst (last_read d))) })"

section \<open>Operations on the core\<close>

text \<open>\<open>fresh\<close> is the block ExAllocatePoolWithTag returns, its address and contents, if any.\<close>

definition init_extended_memory :: "u32 \<Rightarrow> (u32 \<times> u8 list) option \<Rightarrow> mem_type \<Rightarrow> nat \<times> mem_type" where
  "init_extended_memory sz fresh m =
     (if mx_addr m = 0 \<or> sz = 0 then (TME_ERROR, m)
      else (case fresh of
          None \<Rightarrow> (TME_ERROR, m\<lparr>mx_addr := 0, mx_bytes := []\<rparr>)
        | Some (a, b) \<Rightarrow> (TME_SUCCESS, \<lparr>mx_addr = a, mx_bytes = b, mx_size = sz\<rparr>)))"

definition set_active_tme_block :: "tme_core \<Rightarrow> u32 \<Rightarrow> nat \<times> tme_core" where
  "set_active_tme_block tme block =
     (if unat block \<ge> MAX_TME_DATA_BLOCKS \<or> \<not> IS_VALIDATED (validated_blocks tme) block then (TME_ERROR, tme)
      else (TME_SUCCESS, tme\<lparr>active := block, working := block\<rparr>))"

definition set_active_read_tme_block :: "tme_core \<Rightarrow> u32 \<Rightarrow> nat \<times> tme_core" where
  "set_active_read_tme_block tme block =
     (if unat block \<ge> MAX_TME_DATA_BLOCKS \<or> \<not> IS_VALIDATED (validated_blocks tme) block then (TME_ERROR, tme)
      else (TME_SUCCESS, tme\<lparr>active_read := block\<rparr>))"

definition init_tme_block :: "tme_core \<Rightarrow> u32 \<Rightarrow> nat \<times> tme_core" where
  "init_tme_block tme block =
     (if unat block \<ge> MAX_TME_DATA_BLOCKS then (TME_ERROR, tme)
      else (TME_SUCCESS, tme\<lparr>working := block, block_data := (block_data tme)[unat block := zero_data
        \<lparr>lut_entries := 32007, shared_memory_blocks := 16000, block_size := 64, lookup_code := lut_fcn_mapper 0,
         rehashing_value := 1, out_lut_exec := 0, default_exec := 0, extra_segment_size := 0\<rparr>]\<rparr>))"

text \<open>The memory a block needs is computed in 32 bits.\<close>

definition required_memory :: "tme_data \<Rightarrow> u32" where
  "required_memory d = lut_entries d * 8 + block_size d * shared_memory_blocks d + extra_segment_size d"

definition place :: "tme_data \<Rightarrow> u32 \<Rightarrow> tme_data" where
  "place d base = d\<lparr>lut_base_address := base, shared_memory_base_address := base + lut_entries d * 8,
     extra_segment_base_address := base + lut_entries d * 8 + block_size d * shared_memory_blocks d,
     filled_blocks := 1\<rparr>"

definition validate_tme_block ::
    "mem_type \<Rightarrow> tme_core \<Rightarrow> u32 \<Rightarrow> u32 \<Rightarrow> (nat \<times> mem_type \<times> tme_core) option" where
  "validate_tme_block m tme block mem_ex_offset =
     (let base = mem_ex_offset + mx_addr m; d = block_data tme ! unat block in
      if mem_ex_offset = 0 \<or> unat block \<ge> MAX_TME_DATA_BLOCKS then Some (TME_ERROR, m, tme)
      else if lut_entries d = 0 \<or> key_len d = 0 \<or> shared_memory_blocks d = 0 \<or> block_size d = 0
        \<or> lookup_code d = None \<or> exec_fcn_mapper (out_lut_exec d) = None \<or> exec_fcn_mapper (default_exec d) = None
      then Some (TME_ERROR, m, tme)
      else if required_memory d > mx_size m - mem_ex_offset then Some (TME_ERROR, m, tme)
      else do {
        m1 \<leftarrow> ZERO_MEMORY m base (unat (required_memory d));
        Some (TME_SUCCESS, m1, tme\<lparr>block_data := (block_data tme)[unat block := place d base],
          validated_blocks := VALIDATE (validated_blocks tme) block, active := block, working := block\<rparr>) })"

definition reset_tme :: "tme_core \<Rightarrow> nat \<times> tme_core" where
  "reset_tme tme =
     (TME_SUCCESS, \<lparr>working = 0, active = 0, validated_blocks = 0,
        block_data = replicate MAX_TME_DATA_BLOCKS zero_data, active_read = 0\<rparr>)"

definition set_autodeletion :: "tme_data \<Rightarrow> u32 \<Rightarrow> nat \<times> tme_data" where
  "set_autodeletion d v = (TME_SUCCESS, d\<lparr>enable_deletion := (v \<noteq> 0)\<rparr>)"

section \<open>Registers\<close>

text \<open>Of the result None is the code \<open>TME_ERROR\<close>.\<close>

definition get_tme_block_register :: "tme_data \<Rightarrow> mem_type \<Rightarrow> u32 \<Rightarrow> u32 option" where
  "get_tme_block_register d m rgstr =
     (if rgstr = 0 then Some (lut_entries d)
      else if rgstr = 1 then Some (max_fill_state d)
      else if rgstr = 2 then Some (rehashing_value d)
      else if rgstr = 3 then Some (key_len d)
      else if rgstr = 4 then Some (shared_memory_blocks d)
      else if rgstr = 5 then Some (filled_entries d)
      else if rgstr = 6 then Some (block_size d)
      else if rgstr = 7 then Some (extra_segment_size d)
      else if rgstr = 0xa then Some (filled_blocks d)
      else if rgstr = 0xb then Some (default_exec d)
      else if rgstr = 9 then Some (out_lut_exec d)
      else if rgstr = 0xd then Some (shared_memory_base_address d - mx_addr m)
      else if rgstr = 0xc then Some (lut_base_address d - mx_addr m)
      else if rgstr = 0xe then Some (extra_segment_base_address d - mx_addr m)
      else if rgstr = 0x10 then Some (case last_found d of None \<Rightarrow> 0 | Some p \<Rightarrow> p - mx_addr m)
      else None)"

definition set_tme_block_register :: "tme_data \<Rightarrow> u32 \<Rightarrow> u32 \<Rightarrow> bool \<Rightarrow> tme_data option" where
  "set_tme_block_register d rgstr v init =
     (if rgstr = 1 then Some (d\<lparr>max_fill_state := v\<rparr>)
      else if rgstr = 2 then Some (d\<lparr>rehashing_value := v\<rparr>)
      else if rgstr = 5 then Some (d\<lparr>filled_entries := v\<rparr>)
      else if rgstr = 0xa then (if v \<le> shared_memory_blocks d then Some (d\<lparr>filled_blocks := v\<rparr>) else None)
      else if rgstr = 0xb then Some (d\<lparr>default_exec := v\<rparr>)
      else if rgstr = 9 then Some (d\<lparr>out_lut_exec := v\<rparr>)
      else if rgstr = 8
      then (case lut_fcn_mapper v of None \<Rightarrow> None | Some f \<Rightarrow> Some (d\<lparr>lookup_code := Some f\<rparr>))
      else if \<not> init then None
      else if rgstr = 0 then Some (d\<lparr>lut_entries := v\<rparr>)
      else if rgstr = 3 then Some (d\<lparr>key_len := v\<rparr>)
      else if rgstr = 4 then Some (d\<lparr>shared_memory_blocks := v\<rparr>)
      else if rgstr = 6 then Some (d\<lparr>block_size := v\<rparr>)
      else if rgstr = 7 then Some (d\<lparr>extra_segment_size := v\<rparr>)
      else None)"

end
