(* ===== verification/Tme_Lookup.thy ===== *)
theory Tme_Lookup
  imports Tme
begin

text \<open>
  The lookup functions of the table engine (\<open>normal_lookup.c\<close> and \<open>bucket_lookup.c\<close> of
  \<open>packetNtx/driver\<close>). A lookup yields its code, the registers and the memory; None inside is an
  access outside the extended memory, and None as the value of a search is one that never ends.
\<close>

type_synonym lut_outcome = "(nat \<times> tme_data \<times> mem_type) option"

section \<open>The hash table\<close>

text \<open>The key is folded into 32 bits, and compared word by word with the key of a block.\<close>

fun shrink :: "mem_type \<Rightarrow> u32 \<Rightarrow> nat \<Rightarrow> u32 option" where
  "shrink m p 0 = Some 0"
| "shrink m p (Suc n) = do { w \<leftarrow> ULONG_AT m p; r \<leftarrow> shrink m (p + 4) n; Some (w XOR r) }"

fun same_key :: "mem_type \<Rightarrow> u32 \<Rightarrow> u32 \<Rightarrow> nat \<Rightarrow> bool option" where
  "same_key m p q 0 = Some True"
| "same_key m p q (Suc n) = do {
     v \<leftarrow> ULONG_AT m p; w \<leftarrow> ULONG_AT m q;
     if v = w then same_key m (p + 4) (q + 4) n else Some False }"

text \<open>The address of an entry of the table; its first word is the block, its second the function.\<close>

definition entry :: "tme_data \<Rightarrow> u32 \<Rightarrow> u32" where
  "entry d i = lut_base_address d + 8 * i"

text \<open>An entry that is not found is counted in the first block.\<close>

definition out_of_lut :: "tme_data \<Rightarrow> mem_type \<Rightarrow> timeval \<Rightarrow> lut_outcome" where
  "out_of_lut d m now = do {
     m1 \<leftarrow> put_time m (shared_memory_base_address d + 4 * key_len d) now;
     Some (TME_FALSE, d\<lparr>last_found := None\<rparr>, m1) }"

definition found_entry :: "tme_data \<Rightarrow> mem_type \<Rightarrow> timeval \<Rightarrow> u32 \<Rightarrow> u32 \<Rightarrow> lut_outcome" where
  "found_entry d m now i offset = do {
     m1 \<leftarrow> put_time m (offset + 4 * key_len d) now;
     Some (TME_TRUE, d\<lparr>last_found := Some (entry d i)\<rparr>, m1) }"

definition new_entry :: "u32 \<Rightarrow> tme_data \<Rightarrow> mem_type \<Rightarrow> timeval \<Rightarrow> u32 \<Rightarrow> lut_outcome" where
  "new_entry key d m now i =
     (if filled_blocks d = shared_memory_blocks d then out_of_lut d m now
      else (let offset = shared_memory_base_address d + block_size d * filled_blocks d in do {
        m1 \<leftarrow> COPY_MEMORY m offset key (unat (key_len d * 4));
        m2 \<leftarrow> put_time m1 (offset + 4 * key_len d) now;
        m3 \<leftarrow> SW_ULONG_ASSIGN m2 (entry d i) (offset - mx_addr m);
        m4 \<leftarrow> SW_ULONG_ASSIGN m3 (entry d i + 4) (default_exec d);
        Some (TME_TRUE, d\<lparr>filled_blocks := filled_blocks d + 1, filled_entries := filled_entries d + 1,
          last_found := Some (entry d i)\<rparr>, m4) }))"

text \<open>An old entry gives its block to the new key.\<close>

definition replace_entry :: "u32 \<Rightarrow> tme_data \<Rightarrow> mem_type \<Rightarrow> timeval \<Rightarrow> u32 \<Rightarrow> u32 \<Rightarrow> lut_outcome" where
  "replace_entry key d m now i offset = do {
     m1 \<leftarrow> ZERO_MEMORY m offset (unat (block_size d));
     m2 \<leftarrow> COPY_MEMORY m1 offset key (unat (key_len d * 4));
     m3 \<leftarrow> SW_ULONG_ASSIGN m2 (entry d i + 4) (default_exec d);
     m4 \<leftarrow> put_time m3 (offset + key_len d * 4) now;
     Some (TME_TRUE, d\<lparr>last_found := Some (entry d i)\<rparr>, m4) }"

text \<open>One probe: the result, or None to go on with the next entry.\<close>

definition probe :: "bool \<Rightarrow> u32 \<Rightarrow> tme_data \<Rightarrow> mem_type \<Rightarrow> timeval \<Rightarrow> u32 \<Rightarrow> lut_outcome option" where
  "probe ins key d m now i =
     (case ULONG_AT m (entry d i) of
        None \<Rightarrow> Some None
      | Some b \<Rightarrow>
          if b = 0 then Some (if ins then new_entry key d m now i else out_of_lut d m now)
          else (case SW_ULONG_AT m (entry d i) of
              None \<Rightarrow> Some None
            | Some o' \<Rightarrow>
                (let offset = mx_addr m + o' in
                 case same_key m key offset (unat (key_len d)) of
                   None \<Rightarrow> Some None
                 | Some True \<Rightarrow> Some (found_entry d m now i offset)
                 | Some False \<Rightarrow>
                     if \<not> ins then None
                     else (case IS_DELETABLE m (offset + key_len d * 4) d of
                         None \<Rightarrow> Some None
                       | Some True \<Rightarrow> Some (replace_entry key d m now i offset)
                       | Some False \<Rightarrow> None))))"

definition next_index :: "tme_data \<Rightarrow> u32 \<Rightarrow> u32" where
  "next_index d i = (i + rehashing_value d) mod lut_entries d"

partial_function (option) lut_search ::
    "bool \<Rightarrow> u32 \<Rightarrow> tme_data \<Rightarrow> mem_type \<Rightarrow> timeval \<Rightarrow> u32 \<Rightarrow> u32 \<Rightarrow> lut_outcome option" where
  "lut_search ins key d m now tocs i =
     (if \<not> tocs \<le> filled_entries d then Some (out_of_lut d m now)
      else (case probe ins key d m now i of
          Some r \<Rightarrow> Some r
        | None \<Rightarrow> lut_search ins key d m now (tocs + 1) (next_index d i)))"

text \<open>The division by a table of no entries faults.\<close>

definition normal_lut :: "bool \<Rightarrow> u32 \<Rightarrow> tme_data \<Rightarrow> mem_type \<Rightarrow> timeval \<Rightarrow> lut_outcome option" where
  "normal_lut ins key d m now =
     (case shrink m key (unat (key_len d)) of
        None \<Rightarrow> Some None
      | Some h \<Rightarrow> if lut_entries d = 0 then Some None
          else lut_search ins key d m now 0 (h mod lut_entries d))"

definition normal_lut_w_insert :: "u32 \<Rightarrow> tme_data \<Rightarrow> mem_type \<Rightarrow> timeval \<Rightarrow> lut_outcome option" where
  "normal_lut_w_insert = normal_lut True"

definition normal_lut_wo_insert :: "u32 \<Rightarrow> tme_data \<Rightarrow> mem_type \<Rightarrow> timeval \<Rightarrow> lut_outcome option" where
  "normal_lut_wo_insert = normal_lut False"

section \<open>Buckets\<close>

text \<open>
  The key is a pair of bounds, of 32 bits where \<open>key_len\<close> is 2 and of 16 bits where it is 1. A field
  of a block is read as a number.
\<close>

definition bound_width :: "tme_data \<Rightarrow> nat" where
  "bound_width d = (if key_len d = 2 then 4 else 2)"

definition bound_at :: "tme_data \<Rightarrow> mem_type \<Rightarrow> u32 \<Rightarrow> nat option" where
  "bound_at d m p = (if key_len d = 2 then map_option unat (SW_ULONG_AT m p) else map_option unat (SW_USHORT_AT m p))"

definition bucket_base :: "tme_data \<Rightarrow> u32" where
  "bucket_base d = shared_memory_base_address d + block_size d"

definition bucket_low :: "tme_data \<Rightarrow> mem_type \<Rightarrow> u32 \<Rightarrow> nat option" where
  "bucket_low d m j = bound_at d m (bucket_base d + block_size d * j)"

definition bucket_high :: "tme_data \<Rightarrow> mem_type \<Rightarrow> u32 \<Rightarrow> nat option" where
  "bucket_high d m j = bound_at d m (bucket_base d + block_size d * j + of_nat (bound_width d))"

text \<open>
  The search: Some (Some j) is a bucket, Some None no bucket; None inside is an access outside the
  memory, None outside a search without end. The index is compared with the codes -1 and -2 as an int.
\<close>

partial_function (option) bucket_search ::
    "tme_data \<Rightarrow> mem_type \<Rightarrow> nat \<Rightarrow> u32 \<Rightarrow> u32 \<Rightarrow> u32 option option option" where
  "bucket_search d m v i j =
     (let i' = (if i = 1 then 1 else drop_bit 1 i) in
      case bucket_low d m j of
        None \<Rightarrow> Some None
      | Some lo \<Rightarrow>
          if lo > v
          then (case bucket_high d m (j - 1) of
              None \<Rightarrow> Some None
            | Some ph \<Rightarrow> if ph < v then Some (Some None) else bucket_search d m v i' (j - i'))
          else (case bucket_high d m j of
              None \<Rightarrow> Some None
            | Some hi \<Rightarrow>
                if hi < v then bucket_search d m v i' (j + i')
                else if j = - 1 then bucket_search d m v i' j
                else Some (Some (if sint j < 0 then None else Some j))))"

definition bucket_missing :: "u32 \<Rightarrow> tme_data \<Rightarrow> mem_type \<Rightarrow> timeval \<Rightarrow> lut_outcome" where
  "bucket_missing key d m now = do {
     m1 \<leftarrow> mx_write m key (replicate (2 * bound_width d) 0);
     m2 \<leftarrow> put_time m1 (shared_memory_base_address d + of_nat (2 * bound_width d)) now;
     Some (TME_FALSE, d\<lparr>last_found := None\<rparr>, m2) }"

text \<open>The order of the copy and the time stamp differs in the two branches; the two do not overlap.\<close>

definition bucket_found :: "u32 \<Rightarrow> tme_data \<Rightarrow> mem_type \<Rightarrow> timeval \<Rightarrow> u32 \<Rightarrow> lut_outcome" where
  "bucket_found key d m now j =
     (let p = bucket_base d + block_size d * j; n = 2 * bound_width d;
          d1 = d\<lparr>last_found := Some (entry d j)\<rparr> in
      if key_len d = 2
      then do { m1 \<leftarrow> COPY_MEMORY m key p n; m2 \<leftarrow> put_time m1 (p + of_nat n) now; Some (TME_TRUE, d1, m2) }
      else do { m1 \<leftarrow> put_time m (p + of_nat n) now; m2 \<leftarrow> COPY_MEMORY m1 key p n; Some (TME_TRUE, d1, m2) })"

definition bucket_lookup :: "u32 \<Rightarrow> tme_data \<Rightarrow> mem_type \<Rightarrow> timeval \<Rightarrow> lut_outcome option" where
  "bucket_lookup key d m now =
     (if key_len d \<noteq> 1 \<and> key_len d \<noteq> 2 then Some (Some (TME_ERROR, d, m))
      else (let blocks = filled_blocks d - 1; i = drop_bit 1 blocks in
        case (bound_at d m key, bucket_low d m 0) of
          (Some v, Some lo) \<Rightarrow>
            if v < lo then Some (bucket_missing key d m now)
            else (case bucket_high d m (blocks - 1) of
                None \<Rightarrow> Some None
              | Some hi \<Rightarrow>
                  if v > hi then Some (bucket_missing key d m now)
                  else (case bucket_search d m v i i of
                      None \<Rightarrow> None
                    | Some None \<Rightarrow> Some None
                    | Some (Some None) \<Rightarrow> Some (bucket_missing key d m now)
                    | Some (Some (Some j)) \<Rightarrow> Some (bucket_found key d m now j)))
        | _ \<Rightarrow> Some None))"

definition bucket_lookup_insert :: "u32 \<Rightarrow> tme_data \<Rightarrow> mem_type \<Rightarrow> timeval \<Rightarrow> lut_outcome" where
  "bucket_lookup_insert key d m now =
     (if key_len d \<noteq> 1 \<and> key_len d \<noteq> 2 then Some (TME_ERROR, d, m)
      else do {
        start \<leftarrow> bound_at d m key;
        stop \<leftarrow> bound_at d m (key + of_nat (bound_width d));
        if start > stop then Some (TME_ERROR, d, m)
        else do {
          last \<leftarrow> (if filled_entries d > 0
            then do { o' \<leftarrow> SW_ULONG_AT m (entry d (filled_entries d - 1));
              map_option Some (bound_at d m (mx_addr m + o' + of_nat (bound_width d))) }
            else Some None);
          if (case last of Some l \<Rightarrow> l \<ge> start | None \<Rightarrow> False) then Some (TME_ERROR, d, m)
          else if filled_blocks d = shared_memory_blocks d \<or> filled_entries d = lut_entries d
          then Some (TME_ERROR, d, m)
          else do {
            tmp \<leftarrow> (if key_len d = 2 then Some (shared_memory_base_address d + block_size d * filled_blocks d)
              else map_option (\<lambda>o'. mx_addr m + o') (SW_ULONG_AT m (entry d (filled_entries d))));
            m1 \<leftarrow> COPY_MEMORY m tmp key (2 * bound_width d);
            m2 \<leftarrow> SW_ULONG_ASSIGN m1 (entry d (filled_entries d)) (tmp - mx_addr m);
            m3 \<leftarrow> SW_ULONG_ASSIGN m2 (entry d (filled_entries d) + 4) (default_exec d);
            m4 \<leftarrow> put_time m3 (tmp + of_nat (2 * bound_width d)) now;
            Some (TME_TRUE, d\<lparr>filled_blocks := filled_blocks d + 1, filled_entries := filled_entries d + 1\<rparr>, m4) } } })"

end
