(* ===== verification/Tme_Table.thy ===== *)
theory Tme_Table
  imports Tme_Lookup
begin

text \<open>
  The hash table of the table engine as a list of keys: what a lookup finds, inserts and leaves alone.
\<close>

section \<open>Offsets in the extended memory\<close>

definition off :: "mem_type \<Rightarrow> u32 \<Rightarrow> nat" where
  "off m p = unat (p - mx_addr m)"

lemma mx_read_off: "mx_read m p n = slice (mx_bytes m) (off m p) n"
  by (simp add: mx_read_def off_def)

lemma mx_write_off: "mx_write m p b = map_option (\<lambda>c. m\<lparr>mx_bytes := c\<rparr>) (blit (mx_bytes m) (off m p) b)"
  by (simp add: mx_write_def off_def)

lemma off_add:
  assumes "off m p + n < 4294967296"
  shows "off m (p + of_nat n) = off m p + n"
proof -
  have n: "unat (of_nat n :: u32) = n" using assms by (simp add: unat_of_nat take_bit_nat_eq_self)
  have "unat ((p - mx_addr m) + of_nat n) = unat (p - mx_addr m) + n"
    using unat_add_small [of "p - mx_addr m" "of_nat n"] assms n by (simp add: off_def)
  then show ?thesis by (simp add: off_def algebra_simps)
qed

lemma off_update [simp]: "off (m\<lparr>mx_bytes := c\<rparr>) p = off m p"
  by (simp add: off_def)

lemma off_inside: "off m (mx_addr m + w) = unat w"
  by (simp add: off_def)

lemma word_at: "4 \<le> length b \<Longrightarrow> le32_of b = le32 (b ! 0) (b ! 1) (b ! 2) (b ! 3)"
  by (cases b rule: le32_of.cases) auto

text \<open>Two blocks of four bytes hold the same word when they are the same.\<close>

lemma le32_of_inject:
  assumes "length a = 4" and "length b = 4"
  shows "le32_of a = le32_of b \<longleftrightarrow> a = b"
proof -
  have "le32_bytes (le32_of x) = x" if x: "length x = 4" for x
  proof -
    obtain p q r s where "x = [p, q, r, s]"
      using x by (auto simp: length_Suc_conv numeral_eq_Suc)
    then show ?thesis by (simp add: le32_bytes_le32)
  qed
  then show ?thesis using assms by metis
qed

section \<open>Keys\<close>

fun xor_words :: "u8 list \<Rightarrow> nat \<Rightarrow> u32" where
  "xor_words k 0 = 0"
| "xor_words k (Suc n) = le32_of (take 4 k) XOR xor_words (drop 4 k) n"

lemma slice_chunk: "o' + n \<le> length xs \<Longrightarrow> slice xs o' n = Some (chunk xs o' n)"
  by (simp add: slice_def)

lemma shrink_chunk:
  assumes "off m p + 4 * n \<le> length (mx_bytes m)" and "length (mx_bytes m) < 4294967296"
  shows "shrink m p n = Some (xor_words (chunk (mx_bytes m) (off m p) (4 * n)) n)"
  using assms(1)
proof (induction n arbitrary: p)
  case (Suc n)
  have o4: "off m (p + 4) = off m p + 4" using off_add [of m p 4] Suc.prems assms(2) by simp
  have s: "chunk (mx_bytes m) (off m p) (4 * Suc n) =
      chunk (mx_bytes m) (off m p) 4 @ chunk (mx_bytes m) (off m p + 4) (4 * n)"
    using chunk_split [of "mx_bytes m" "off m p" 4 "4 * n"] by simp
  have l: "length (chunk (mx_bytes m) (off m p) 4) = 4" using Suc.prems by simp
  have "shrink m (p + 4) n = Some (xor_words (chunk (mx_bytes m) (off m p + 4) (4 * n)) n)"
    using Suc.IH [of "p + 4"] Suc.prems o4 by simp
  moreover have "ULONG_AT m p = Some (le32_of (chunk (mx_bytes m) (off m p) 4))"
    using Suc.prems by (simp add: ULONG_AT_def mx_read_off slice_chunk)
  ultimately show ?case unfolding s using l by simp
qed simp

lemma same_key_chunk:
  assumes "off m p + 4 * n \<le> length (mx_bytes m)" and "off m q + 4 * n \<le> length (mx_bytes m)"
    and "length (mx_bytes m) < 4294967296"
  shows "same_key m p q n = Some (chunk (mx_bytes m) (off m p) (4 * n) = chunk (mx_bytes m) (off m q) (4 * n))"
  using assms(1,2)
proof (induction n arbitrary: p q)
  case (Suc n)
  let ?c = "mx_bytes m"
  have o4: "off m (p + 4) = off m p + 4" "off m (q + 4) = off m q + 4"
    using off_add [of m p 4] off_add [of m q 4] Suc.prems assms(3) by simp_all
  have s: "chunk ?c x (4 * Suc n) = chunk ?c x 4 @ chunk ?c (x + 4) (4 * n)" for x
    using chunk_split [of ?c x 4 "4 * n"] by simp
  have u: "ULONG_AT m p = Some (le32_of (chunk ?c (off m p) 4))" "ULONG_AT m q = Some (le32_of (chunk ?c (off m q) 4))"
    using Suc.prems by (simp_all add: ULONG_AT_def mx_read_off slice_chunk)
  have i: "le32_of (chunk ?c (off m p) 4) = le32_of (chunk ?c (off m q) 4) \<longleftrightarrow> chunk ?c (off m p) 4 = chunk ?c (off m q) 4"
    using Suc.prems by (intro le32_of_inject) simp_all
  have "same_key m (p + 4) (q + 4) n = Some (chunk ?c (off m p + 4) (4 * n) = chunk ?c (off m q + 4) (4 * n))"
    using Suc.IH [of "p + 4" "q + 4"] Suc.prems o4 by simp
  moreover have "length (chunk ?c (off m p) 4) = length (chunk ?c (off m q) 4)" using Suc.prems by simp
  ultimately show ?case using u i unfolding s by simp
qed simp

section \<open>The geometry of a table\<close>

text \<open>The offsets of the entries and of the blocks.\<close>

definition entry_off :: "tme_data \<Rightarrow> mem_type \<Rightarrow> nat \<Rightarrow> nat" where
  "entry_off d m i = off m (lut_base_address d) + 8 * i"

definition block_off :: "tme_data \<Rightarrow> mem_type \<Rightarrow> nat \<Rightarrow> nat" where
  "block_off d m b = off m (shared_memory_base_address d) + unat (block_size d) * b"

abbreviation key_bytes :: "tme_data \<Rightarrow> nat" where
  "key_bytes d \<equiv> 4 * unat (key_len d)"

definition geometry :: "tme_data \<Rightarrow> mem_type \<Rightarrow> bool" where
  "geometry d m \<longleftrightarrow> 0 < unat (lut_entries d) \<and> 0 < unat (key_len d) \<and>
     entry_off d m (unat (lut_entries d)) \<le> block_off d m 0 \<and>
     block_off d m (unat (shared_memory_blocks d)) \<le> length (mx_bytes m) \<and>
     length (mx_bytes m) < 4294967296 \<and> key_bytes d + 8 \<le> unat (block_size d) \<and>
     0 < unat (filled_blocks d) \<and> unat (filled_blocks d) \<le> unat (shared_memory_blocks d)"

definition rec_block :: "tme_data \<Rightarrow> mem_type \<Rightarrow> nat \<Rightarrow> u32" where
  "rec_block d m i = le32_of (rev (chunk (mx_bytes m) (entry_off d m i) 4))"

definition block_key :: "tme_data \<Rightarrow> mem_type \<Rightarrow> nat \<Rightarrow> u8 list" where
  "block_key d m b = chunk (mx_bytes m) (block_off d m b) (key_bytes d)"

text \<open>The number of the function of an entry.\<close>

definition rec_exec :: "tme_data \<Rightarrow> mem_type \<Rightarrow> nat \<Rightarrow> u32" where
  "rec_exec d m i = le32_of (rev (chunk (mx_bytes m) (entry_off d m i + 4) 4))"

text \<open>What the caller passes as the key.\<close>

definition key_at :: "tme_data \<Rightarrow> mem_type \<Rightarrow> u32 \<Rightarrow> u8 list" where
  "key_at d m key = chunk (mx_bytes m) (off m key) (key_bytes d)"

definition key_ok :: "tme_data \<Rightarrow> mem_type \<Rightarrow> u32 \<Rightarrow> bool" where
  "key_ok d m key \<longleftrightarrow> off m key + key_bytes d \<le> off m (lut_base_address d)"

lemma geometry_bounds:
  assumes "geometry d m"
  shows "i < unat (lut_entries d) \<Longrightarrow> entry_off d m i + 8 \<le> block_off d m 0"
    and "b < unat (shared_memory_blocks d) \<Longrightarrow> block_off d m b + unat (block_size d) \<le> length (mx_bytes m)"
    and "b < unat (shared_memory_blocks d) \<Longrightarrow> block_off d m b + key_bytes d + 8 \<le> length (mx_bytes m)"
    and "block_off d m 0 \<le> length (mx_bytes m)"
proof -
  show "entry_off d m i + 8 \<le> block_off d m 0" if "i < unat (lut_entries d)"
    using assms that by (simp add: geometry_def entry_off_def)
  have "unat (block_size d) * Suc b \<le> unat (block_size d) * unat (shared_memory_blocks d)"
    if "b < unat (shared_memory_blocks d)" using that by (intro mult_le_mono2) simp
  then show bs: "block_off d m b + unat (block_size d) \<le> length (mx_bytes m)" if "b < unat (shared_memory_blocks d)"
    using assms that by (fastforce simp: geometry_def block_off_def)
  show "block_off d m b + key_bytes d + 8 \<le> length (mx_bytes m)" if "b < unat (shared_memory_blocks d)"
    using bs [OF that] assms by (simp add: geometry_def)
  show "block_off d m 0 \<le> length (mx_bytes m)"
    using assms by (simp add: geometry_def block_off_def)
qed

lemma block_off_less:
  assumes "b < b'"
  shows "block_off d m b + unat (block_size d) \<le> block_off d m b'"
proof -
  have "unat (block_size d) * Suc b \<le> unat (block_size d) * b'" using assms by (intro mult_le_mono2) simp
  then show ?thesis by (simp add: block_off_def)
qed

lemma block_off_inject: "geometry d m \<Longrightarrow> block_off d m b = block_off d m b' \<longleftrightarrow> b = b'"
  by (auto simp: block_off_def geometry_def)

lemma block_off_pos: "geometry d m \<Longrightarrow> 0 < b \<Longrightarrow> 0 < block_off d m b"
  by (auto simp: block_off_def geometry_def)

lemma off_entry:
  assumes "geometry d m" and "unat i < unat (lut_entries d)"
  shows "off m (entry d i) = entry_off d m (unat i)" and "off m (entry d i + 4) = entry_off d m (unat i) + 4"
proof -
  have b: "entry_off d m (unat i) + 8 < 4294967296 + 1"
    using geometry_bounds(1,4) [OF assms(1)] assms by (fastforce simp: geometry_def)
  have e: "entry d i = lut_base_address d + of_nat (8 * unat i)" by (simp add: entry_def)
  then show 1: "off m (entry d i) = entry_off d m (unat i)"
    using off_add [of m "lut_base_address d" "8 * unat i"] b by (simp add: entry_off_def)
  show "off m (entry d i + 4) = entry_off d m (unat i) + 4"
    using off_add [of m "entry d i" 4] b 1 by simp
qed

lemma off_block:
  assumes "geometry d m" and "unat b < unat (shared_memory_blocks d)"
  shows "off m (shared_memory_base_address d + block_size d * b) = block_off d m (unat b)"
    and "off m (shared_memory_base_address d + block_size d * b + 4 * key_len d) = block_off d m (unat b) + key_bytes d"
proof -
  have l: "block_off d m (unat b) + key_bytes d < 4294967296"
    using geometry_bounds(3) [OF assms] assms(1) by (simp add: geometry_def)
  have e: "block_size d * b = of_nat (unat (block_size d) * unat b)" "4 * key_len d = of_nat (key_bytes d)" by simp_all
  show 1: "off m (shared_memory_base_address d + block_size d * b) = block_off d m (unat b)"
    unfolding e(1) using off_add [of m "shared_memory_base_address d" "unat (block_size d) * unat b"] l
    by (simp add: block_off_def)
  show "off m (shared_memory_base_address d + block_size d * b + 4 * key_len d) = block_off d m (unat b) + key_bytes d"
    unfolding e(2) using off_add [of m "shared_memory_base_address d + block_size d * b" "key_bytes d"] l 1 by simp
qed

section \<open>The invariant\<close>

definition home :: "tme_data \<Rightarrow> u8 list \<Rightarrow> u32" where
  "home d k = xor_words k (unat (key_len d)) mod lut_entries d"

text \<open>The entry of the t-th probe for a key.\<close>

definition spot :: "tme_data \<Rightarrow> u8 list \<Rightarrow> nat \<Rightarrow> u32" where
  "spot d k t = (next_index d ^^ t) (home d k)"

definition holds :: "tme_data \<Rightarrow> mem_type \<Rightarrow> u32 \<Rightarrow> nat \<Rightarrow> bool" where
  "holds d m i b \<longleftrightarrow> 0 < b \<and> b < unat (filled_blocks d) \<and> unat (rec_block d m (unat i)) = block_off d m b"

definition passes :: "tme_data \<Rightarrow> mem_type \<Rightarrow> u8 list \<Rightarrow> nat \<Rightarrow> bool" where
  "passes d m k t \<longleftrightarrow> (\<forall>t' < t. \<exists>b. holds d m (spot d k t') b \<and> block_key d m b \<noteq> k)"

definition table_inv :: "tme_data \<Rightarrow> mem_type \<Rightarrow> bool" where
  "table_inv d m \<longleftrightarrow> geometry d m \<and> \<not> enable_deletion d \<and> unat (filled_entries d) + 1 = unat (filled_blocks d) \<and>
     (\<forall>i. unat i < unat (lut_entries d) \<longrightarrow> rec_block d m (unat i) = 0 \<or> (\<exists>b. holds d m i b)) \<and>
     (\<forall>b. 0 < b \<and> b < unat (filled_blocks d) \<longrightarrow>
       (\<exists>t < unat (filled_blocks d). passes d m (block_key d m b) t \<and> holds d m (spot d (block_key d m b) t) b))"

text \<open>The keys in the order of their blocks.\<close>

definition keys :: "tme_data \<Rightarrow> mem_type \<Rightarrow> u8 list list" where
  "keys d m = map (block_key d m) [1..<unat (filled_blocks d)]"

lemma mod_entries: "geometry d m \<Longrightarrow> unat (x mod lut_entries d) < unat (lut_entries d)"
  by (simp add: unat_mod geometry_def)

lemma spot_bound:
  assumes "geometry d m"
  shows "unat (spot d k t) < unat (lut_entries d)"
  by (cases t) (simp_all add: spot_def home_def next_index_def mod_entries [OF assms])

lemma rev_word_zero:
  assumes "length c = 4"
  shows "le32_of (rev c) = 0 \<longleftrightarrow> le32_of c = 0"
proof -
  have z: "le32_of [0, 0, 0, 0] = 0" by (simp add: le32_def be32_def)
  have "le32_of c = 0 \<longleftrightarrow> c = [0, 0, 0, 0]" "le32_of (rev c) = 0 \<longleftrightarrow> rev c = [0, 0, 0, 0]"
    using le32_of_inject [of c "[0, 0, 0, 0]"] le32_of_inject [of "rev c" "[0, 0, 0, 0]"] assms z by simp_all
  then show ?thesis by (metis rev.simps rev_rev_ident append.simps)
qed

section \<open>One probe\<close>

lemma read_entry:
  assumes "geometry d m" and "unat i < unat (lut_entries d)"
  shows "SW_ULONG_AT m (entry d i) = Some (rec_block d m (unat i))"
    and "\<exists>w. ULONG_AT m (entry d i) = Some w \<and> (w = 0 \<longleftrightarrow> rec_block d m (unat i) = 0)"
proof -
  have b: "entry_off d m (unat i) + 4 \<le> length (mx_bytes m)"
    using geometry_bounds(1,4) [OF assms(1)] assms by fastforce
  show "SW_ULONG_AT m (entry d i) = Some (rec_block d m (unat i))"
    using b off_entry(1) [OF assms] by (simp add: SW_ULONG_AT_def mx_read_off slice_chunk rec_block_def)
  show "\<exists>w. ULONG_AT m (entry d i) = Some w \<and> (w = 0 \<longleftrightarrow> rec_block d m (unat i) = 0)"
    using b off_entry(1) [OF assms] by (simp add: ULONG_AT_def mx_read_off slice_chunk rec_block_def rev_word_zero)
qed

lemma probe_empty:
  assumes "geometry d m" and "unat i < unat (lut_entries d)" and "rec_block d m (unat i) = 0"
  shows "probe ins key d m now i = Some (if ins then new_entry key d m now i else out_of_lut d m now)"
  using read_entry(2) [OF assms(1,2)] assms(3) by (auto simp: probe_def)

lemma compare_key:
  assumes "geometry d m" and "key_ok d m key" and "holds d m i b"
  shows "same_key m key (mx_addr m + rec_block d m (unat i)) (unat (key_len d)) = Some (key_at d m key = block_key d m b)"
proof -
  have o: "off m (mx_addr m + rec_block d m (unat i)) = block_off d m b"
    using assms(3) by (simp add: off_inside holds_def)
  have nb: "b < unat (shared_memory_blocks d)" using assms(1,3) by (simp add: geometry_def holds_def)
  have "off m key + key_bytes d \<le> length (mx_bytes m)"
    using assms(1,2) geometry_bounds(4) [OF assms(1)] by (simp add: geometry_def key_ok_def entry_off_def)
  moreover have "block_off d m b + key_bytes d \<le> length (mx_bytes m)" "length (mx_bytes m) < 4294967296"
    using geometry_bounds(3) [OF assms(1) nb] assms(1) by (simp_all add: geometry_def)
  ultimately show ?thesis using same_key_chunk [of m key "unat (key_len d)" "mx_addr m + rec_block d m (unat i)"] o
    by (simp add: key_at_def block_key_def)
qed

lemma holds_not_zero: "geometry d m \<Longrightarrow> holds d m i b \<Longrightarrow> rec_block d m (unat i) \<noteq> 0"
  using block_off_pos [of d m b] by (auto simp: holds_def)

lemma probe_taken:
  assumes "geometry d m" and "key_ok d m key" and "unat i < unat (lut_entries d)" and "holds d m i b" and "\<not> enable_deletion d"
  shows "probe ins key d m now i = (if key_at d m key = block_key d m b
    then Some (found_entry d m now i (mx_addr m + rec_block d m (unat i))) else None)"
  using read_entry [OF assms(1,3)] compare_key [OF assms(1,2,4)] holds_not_zero [OF assms(1,4)] assms(5)
  by (auto simp: probe_def IS_DELETABLE_def Let_def)

section \<open>The search\<close>

lemma search_path:
  assumes "geometry d m" and "key_ok d m key" and "\<not> enable_deletion d" and "passes d m (key_at d m key) t"
    and "t \<le> Suc (unat (filled_entries d))" and "unat (filled_entries d) < 4294967295"
  shows "lut_search ins key d m now 0 (home d (key_at d m key)) = lut_search ins key d m now (of_nat t) (spot d (key_at d m key) t)"
  using assms(4,5)
proof (induction t)
  case 0
  then show ?case by (simp add: spot_def)
next
  case (Suc t)
  let ?k = "key_at d m key"
  obtain b where b: "holds d m (spot d ?k t) b" "block_key d m b \<noteq> ?k" using Suc.prems(1) by (auto simp: passes_def)
  have "probe ins key d m now (spot d ?k t) = None"
    using probe_taken [OF assms(1,2) spot_bound [OF assms(1)] b(1) assms(3)] b(2) by simp
  moreover have "(of_nat t :: u32) \<le> filled_entries d"
    using Suc.prems(2) assms(6) by (simp add: word_le_nat_alt unat_of_nat take_bit_nat_eq_self)
  ultimately have "lut_search ins key d m now (of_nat t) (spot d ?k t) =
      lut_search ins key d m now (of_nat t + 1) (next_index d (spot d ?k t))"
    by (subst lut_search.simps) simp
  moreover have "passes d m ?k t" using Suc.prems(1) by (simp add: passes_def)
  ultimately show ?case using Suc.IH Suc.prems(2) by (simp add: spot_def add.commute)
qed

lemma search_stop:
  assumes "probe ins key d m now i = Some r" and "t \<le> unat (filled_entries d)"
  shows "lut_search ins key d m now (of_nat t) i = Some r"
proof -
  have "t < 4294967296" using assms(2) unat_lt [of "filled_entries d"] by simp
  then have "(of_nat t :: u32) \<le> filled_entries d"
    using assms(2) by (simp add: word_le_nat_alt unat_of_nat take_bit_nat_eq_self)
  then show ?thesis using assms(1) by (subst lut_search.simps) simp
qed

lemma search_end:
  assumes "unat (filled_entries d) < 4294967295"
  shows "lut_search ins key d m now (of_nat (Suc (unat (filled_entries d)))) i = Some (out_of_lut d m now)"
proof -
  have "\<not> (of_nat (Suc (unat (filled_entries d))) :: u32) \<le> filled_entries d"
    using assms by (simp only: word_le_nat_alt) (simp add: unat_of_nat take_bit_nat_eq_self del: of_nat_Suc)
  then show ?thesis by (subst lut_search.simps) (simp del: of_nat_Suc)
qed

section \<open>What a lookup meets\<close>

definition meets :: "tme_data \<Rightarrow> mem_type \<Rightarrow> u8 list \<Rightarrow> nat \<Rightarrow> nat \<Rightarrow> bool" where
  "meets d m k t b \<longleftrightarrow> t \<le> unat (filled_entries d) \<and> passes d m k t \<and> holds d m (spot d k t) b \<and> block_key d m b = k"

lemma holds_unique: "geometry d m \<Longrightarrow> holds d m i b \<Longrightarrow> holds d m i b' \<Longrightarrow> b = b'"
  using block_off_inject by (auto simp: holds_def)

lemma meets_excludes:
  assumes "geometry d m" and "meets d m k t b"
  shows "\<not> (passes d m k t' \<and> rec_block d m (unat (spot d k t')) = 0)"
    and "\<not> passes d m k (Suc (unat (filled_entries d)))"
proof -
  have no: "\<not> passes d m k t'" if "t < t'" for t'
    using assms that holds_unique [OF assms(1)] by (auto simp: passes_def meets_def)
  show "\<not> passes d m k (Suc (unat (filled_entries d)))" using no assms(2) by (simp add: meets_def)
  show "\<not> (passes d m k t' \<and> rec_block d m (unat (spot d k t')) = 0)"
  proof
    assume e: "passes d m k t' \<and> rec_block d m (unat (spot d k t')) = 0"
    then have "t' \<le> t" using no by (meson not_le)
    moreover have "t' \<noteq> t" using e assms holds_not_zero by (auto simp: meets_def)
    ultimately have "t' < t" by simp
    then have "\<exists>b. holds d m (spot d k t') b" using assms(2) by (auto simp: meets_def passes_def)
    then show False using e holds_not_zero [OF assms(1)] by blast
  qed
qed

lemma key_meets:
  assumes "table_inv d m" and "k \<in> set (keys d m)"
  shows "\<exists>t b. meets d m k t b"
proof -
  obtain b where b: "0 < b" "b < unat (filled_blocks d)" "k = block_key d m b" using assms(2) by (auto simp: keys_def Suc_le_eq)
  then obtain t where "t < unat (filled_blocks d)" "passes d m k t" "holds d m (spot d k t) b"
    using assms(1) by (auto simp: table_inv_def)
  moreover have "unat (filled_entries d) + 1 = unat (filled_blocks d)" using assms(1) by (simp add: table_inv_def)
  ultimately have "meets d m k t b" using b by (simp add: meets_def)
  then show ?thesis by blast
qed

lemma meets_key: "meets d m k t b \<Longrightarrow> k \<in> set (keys d m)"
  by (auto simp: meets_def holds_def keys_def)

lemma lookup_cases:
  assumes "table_inv d m"
  obtains (found) t b where "meets d m k t b"
  | (free) t where "t \<le> unat (filled_entries d)" "passes d m k t" "rec_block d m (unat (spot d k t)) = 0"
  | (full) "passes d m k (Suc (unat (filled_entries d)))"
proof (cases "passes d m k (Suc (unat (filled_entries d)))")
  case False
  define bad where "bad t \<longleftrightarrow> \<not> (\<exists>b. holds d m (spot d k t) b \<and> block_key d m b \<noteq> k)" for t
  have "\<exists>t. t \<le> unat (filled_entries d) \<and> bad t" using False by (auto simp: passes_def bad_def less_Suc_eq_le)
  then obtain t where t: "t \<le> unat (filled_entries d)" "bad t" "\<And>t'. t' < t \<Longrightarrow> \<not> bad t'"
    using exists_least_iff [of "\<lambda>t. t \<le> unat (filled_entries d) \<and> bad t"] by (metis le_trans nat_less_le)
  then have p: "passes d m k t" by (auto simp: passes_def bad_def)
  have g: "geometry d m" using assms by (simp add: table_inv_def)
  have "rec_block d m (unat (spot d k t)) = 0 \<or> (\<exists>b. holds d m (spot d k t) b)"
    using assms spot_bound [OF g] by (simp add: table_inv_def)
  then show ?thesis
  proof
    assume "\<exists>b. holds d m (spot d k t) b"
    then obtain b where "holds d m (spot d k t) b" "block_key d m b = k" using t(2) by (auto simp: bad_def)
    then have "meets d m k t b" using t(1) p by (simp add: meets_def)
    then show ?thesis by (rule found)
  qed (use t p free in blast)
qed (use full in blast)

lemma filled_bound:
  assumes "table_inv d m"
  shows "unat (filled_entries d) < 4294967295"
  using assms unat_lt [of "filled_blocks d"] by (simp add: table_inv_def)

lemma shrink_key:
  assumes "geometry d m" and "key_ok d m key"
  shows "shrink m key (unat (key_len d)) = Some (xor_words (key_at d m key) (unat (key_len d)))"
proof -
  have "off m key + key_bytes d \<le> length (mx_bytes m)"
    using assms geometry_bounds(4) [OF assms(1)] by (simp add: geometry_def key_ok_def entry_off_def)
  then show ?thesis using assms(1) by (subst shrink_chunk) (simp_all add: geometry_def key_at_def)
qed

lemma normal_lut_search:
  assumes "table_inv d m" and "key_ok d m key"
  shows "normal_lut ins key d m now = lut_search ins key d m now 0 (home d (key_at d m key))"
proof -
  have g: "geometry d m" using assms(1) by (simp add: table_inv_def)
  then have "lut_entries d \<noteq> 0" by (auto simp: geometry_def)
  then show ?thesis using shrink_key [OF g assms(2)] by (simp add: normal_lut_def home_def)
qed

lemma lookup_result:
  assumes "table_inv d m" and "key_ok d m key" and "k = key_at d m key"
  shows "meets d m k t b \<Longrightarrow> normal_lut ins key d m now =
      Some (found_entry d m now (spot d k t) (mx_addr m + rec_block d m (unat (spot d k t))))"
    and "t \<le> unat (filled_entries d) \<Longrightarrow> passes d m k t \<Longrightarrow> rec_block d m (unat (spot d k t)) = 0 \<Longrightarrow>
      normal_lut ins key d m now = Some (if ins then new_entry key d m now (spot d k t) else out_of_lut d m now)"
    and "passes d m k (Suc (unat (filled_entries d))) \<Longrightarrow> normal_lut ins key d m now = Some (out_of_lut d m now)"
proof -
  have g: "geometry d m" and e: "\<not> enable_deletion d" using assms(1) by (simp_all add: table_inv_def)
  note start = normal_lut_search [OF assms(1,2)]
  note walk = search_path [OF g assms(2) e _ _ filled_bound [OF assms(1)]]
  show "normal_lut ins key d m now =
      Some (found_entry d m now (spot d k t) (mx_addr m + rec_block d m (unat (spot d k t))))" if "meets d m k t b"
  proof -
    have b: "holds d m (spot d k t) b" "block_key d m b = k" "t \<le> unat (filled_entries d)" "passes d m k t"
      using that by (auto simp: meets_def)
    show ?thesis using start walk [of t ins now] b assms(3)
        search_stop [OF _ b(3)] probe_taken [OF g assms(2) spot_bound [OF g] b(1) e, of ins now] by simp
  qed
  show "normal_lut ins key d m now = Some (if ins then new_entry key d m now (spot d k t) else out_of_lut d m now)"
    if t: "t \<le> unat (filled_entries d)" "passes d m k t" "rec_block d m (unat (spot d k t)) = 0"
    using start walk [of t ins now] t assms(3) search_stop [OF probe_empty [OF g spot_bound [OF g] t(3)] t(1)] by simp
  show "normal_lut ins key d m now = Some (out_of_lut d m now)" if "passes d m k (Suc (unat (filled_entries d)))"
    using start walk [of "Suc (unat (filled_entries d))" ins now] that assms(3) search_end [OF filled_bound [OF assms(1)]]
    by simp
qed

section \<open>What a lookup writes\<close>

text \<open>The bytes of a block behind the key and the time stamp belong to the function it runs.\<close>

definition payload :: "tme_data \<Rightarrow> mem_type \<Rightarrow> nat \<Rightarrow> u8 list" where
  "payload d m b = chunk (mx_bytes m) (block_off d m b + key_bytes d + 8) (unat (block_size d) - key_bytes d - 8)"

text \<open>The same table in another memory.\<close>

definition same_place :: "tme_data \<Rightarrow> tme_data \<Rightarrow> bool" where
  "same_place d d' \<longleftrightarrow> lut_entries d' = lut_entries d \<and> key_len d' = key_len d \<and> block_size d' = block_size d \<and>
     shared_memory_blocks d' = shared_memory_blocks d \<and> lut_base_address d' = lut_base_address d \<and>
     shared_memory_base_address d' = shared_memory_base_address d \<and> rehashing_value d' = rehashing_value d \<and>
     enable_deletion d' = enable_deletion d"

definition same_size :: "mem_type \<Rightarrow> mem_type \<Rightarrow> bool" where
  "same_size m m' \<longleftrightarrow> mx_addr m' = mx_addr m \<and> mx_size m' = mx_size m \<and> length (mx_bytes m') = length (mx_bytes m)"

lemma same_offsets:
  assumes "same_place d d'" and "same_size m m'"
  shows "entry_off d' m' = entry_off d m" and "block_off d' m' = block_off d m" and "home d' = home d"
    and "next_index d' = next_index d" and "spot d' = spot d" and "key_ok d' m' = key_ok d m"
proof -
  have o: "off m' = off m" using assms(2) by (auto simp: off_def same_size_def)
  show "entry_off d' m' = entry_off d m" "block_off d' m' = block_off d m" "key_ok d' m' = key_ok d m"
    using assms(1) o by (auto simp: entry_off_def block_off_def same_place_def key_ok_def)
  show h: "home d' = home d" and n: "next_index d' = next_index d"
    using assms(1) by (auto simp: home_def next_index_def same_place_def)
  show "spot d' = spot d" using h n by (intro ext) (simp add: spot_def)
qed

lemma same_geometry:
  assumes "same_place d d'" and "same_size m m'" and "geometry d m"
    and "0 < unat (filled_blocks d')" and "unat (filled_blocks d') \<le> unat (shared_memory_blocks d)"
  shows "geometry d' m'"
  using assms same_offsets(1,2) [OF assms(1,2)] by (simp add: geometry_def same_place_def same_size_def)

text \<open>A table whose entries and keys are unchanged.\<close>

definition same_table :: "tme_data \<Rightarrow> mem_type \<Rightarrow> mem_type \<Rightarrow> bool" where
  "same_table d m m' \<longleftrightarrow> same_size m m' \<and>
     (\<forall>i < unat (lut_entries d). chunk (mx_bytes m') (entry_off d m i) 8 = chunk (mx_bytes m) (entry_off d m i) 8) \<and>
     (\<forall>b < unat (filled_blocks d). 0 < b \<longrightarrow> chunk (mx_bytes m') (block_off d m b) (key_bytes d) = block_key d m b)"

lemma chunk_words: "chunk xs x 4 = take 4 (chunk xs x 8)" "chunk xs (x + 4) 4 = drop 4 (chunk xs x 8)"
  by (simp_all add: chunk_def drop_take add.commute)

lemma same_words:
  assumes "chunk xs x 8 = chunk ys x 8"
  shows "chunk xs x 4 = chunk ys x 4" and "chunk xs (x + 4) 4 = chunk ys (x + 4) 4"
  using assms by (simp only: chunk_words(1), simp only: chunk_words(2))

lemma same_table_exec:
  assumes "same_table d m m'" and "i < unat (lut_entries d)"
  shows "rec_exec (d\<lparr>last_found := x\<rparr>) m' i = rec_exec d m i"
proof -
  have "same_place d (d\<lparr>last_found := x\<rparr>)" "same_size m m'" using assms(1) by (simp_all add: same_place_def same_table_def)
  note o = same_offsets [OF this]
  show ?thesis using assms o(1) same_words(2) [of "mx_bytes m'" "entry_off d m i" "mx_bytes m"]
    by (simp add: rec_exec_def same_table_def)
qed

lemma same_table_inv:
  assumes "same_table d m m'" and "table_inv d m"
  shows "table_inv (d\<lparr>last_found := x\<rparr>) m'" and "keys (d\<lparr>last_found := x\<rparr>) m' = keys d m"
    and "\<And>i b. geometry d m \<Longrightarrow> unat i < unat (lut_entries d) \<Longrightarrow> holds (d\<lparr>last_found := x\<rparr>) m' i b \<longleftrightarrow> holds d m i b"
    and "\<And>b. 0 < b \<Longrightarrow> b < unat (filled_blocks d) \<Longrightarrow> block_key (d\<lparr>last_found := x\<rparr>) m' b = block_key d m b"
proof -
  let ?d = "d\<lparr>last_found := x\<rparr>"
  have p: "same_place d ?d" by (simp add: same_place_def)
  have z: "same_size m m'" using assms(1) by (simp add: same_table_def)
  note o = same_offsets [OF p z]
  have g: "geometry d m" using assms(2) by (simp add: table_inv_def)
  have g': "geometry ?d m'" by (rule same_geometry [OF p z g]) (use g in \<open>simp_all add: geometry_def\<close>)
  have r: "rec_block ?d m' i = rec_block d m i" if "i < unat (lut_entries d)" for i
    using assms(1) that o(1) same_words(1) [of "mx_bytes m'" "entry_off d m i" "mx_bytes m"]
    by (simp add: rec_block_def same_table_def)
  show k: "block_key ?d m' b = block_key d m b" if "0 < b" "b < unat (filled_blocks d)" for b
    using assms(1) that o(2) by (simp add: block_key_def same_table_def)
  show h: "holds ?d m' i b \<longleftrightarrow> holds d m i b" if "unat i < unat (lut_entries d)" for i b
    using r [OF that] o(2) by (simp add: holds_def)
  have q: "passes ?d m' k t \<longleftrightarrow> passes d m k t" for k t
  proof -
    have "(holds ?d m' (spot d k t') b \<and> block_key ?d m' b \<noteq> k) \<longleftrightarrow> (holds d m (spot d k t') b \<and> block_key d m b \<noteq> k)" for t' b
      using h [OF spot_bound [OF g]] k [of b] by (auto simp: holds_def)
    then show ?thesis using o(5) by (simp add: passes_def)
  qed
  show "keys ?d m' = keys d m" using k by (simp add: keys_def)
  have "\<exists>t < unat (filled_blocks ?d). passes ?d m' (block_key ?d m' b) t \<and> holds ?d m' (spot ?d (block_key ?d m' b) t) b"
    if b: "0 < b" "b < unat (filled_blocks ?d)" for b
  proof -
    have kb: "block_key ?d m' b = block_key d m b" using k b by simp
    from assms(2) b obtain t where "t < unat (filled_blocks d)" "passes d m (block_key d m b) t"
        "holds d m (spot d (block_key d m b) t) b" by (auto simp: table_inv_def)
    then show ?thesis unfolding kb q o(5) using h [OF spot_bound [OF g]] by auto
  qed
  then show "table_inv ?d m'"
    using assms(2) g' r h by (simp add: table_inv_def)
qed

text \<open>A write into a block behind its key, or into a block that is not in use.\<close>

lemma write_block:
  assumes "geometry d m" and "b < unat (shared_memory_blocks d)" and "key_bytes d \<le> j \<or> unat (filled_blocks d) \<le> b"
    and "j + length w \<le> unat (block_size d)" and "off m p = block_off d m b + j"
  shows "\<exists>m'. mx_write m p w = Some m' \<and> same_table d m m' \<and>
    chunk (mx_bytes m') (block_off d m b + j) (length w) = w \<and>
    (\<forall>b' < unat (shared_memory_blocks d). b' \<noteq> b \<longrightarrow> payload d m' b' = payload d m b') \<and>
    (j + length w \<le> key_bytes d + 8 \<longrightarrow> payload d m' b = payload d m b) \<and>
    (key_bytes d \<le> j \<longrightarrow> (\<forall>b' < unat (shared_memory_blocks d). block_key d m' b' = block_key d m b'))"
proof -
  have fit: "block_off d m b + j + length w \<le> length (mx_bytes m)"
    using geometry_bounds(2) [OF assms(1,2)] assms(4) by simp
  then obtain c where c: "blit (mx_bytes m) (block_off d m b + j) w = Some c"
    by (simp add: blit_def)
  let ?m = "m\<lparr>mx_bytes := c\<rparr>"
  have z: "same_size m ?m" using blit_length [OF c] by (simp add: same_size_def)
  have o: "block_off d ?m = block_off d m" using same_offsets(2) [of d d m ?m] z by (simp add: same_place_def)
  have other: "chunk c x n = chunk (mx_bytes m) x n"
    if "x + n \<le> length (mx_bytes m)" "x + n \<le> block_off d m b + j \<or> block_off d m b + j + length w \<le> x" for x n
    using chunk_blit_other [OF c] that by blast
  have e: "chunk c (entry_off d m i) 8 = chunk (mx_bytes m) (entry_off d m i) 8" if "i < unat (lut_entries d)" for i
  proof (rule other)
    have "block_off d m 0 \<le> block_off d m b" by (simp add: block_off_def)
    then show "entry_off d m i + 8 \<le> length (mx_bytes m)"
      and "entry_off d m i + 8 \<le> block_off d m b + j \<or> block_off d m b + j + length w \<le> entry_off d m i"
      using geometry_bounds(1,4) [OF assms(1)] that by fastforce+
  qed
  have apart: "block_off d m b' + unat (block_size d) \<le> block_off d m b \<or> block_off d m b + unat (block_size d) \<le> block_off d m b'"
    if "b' \<noteq> b" for b' using block_off_less [of b' b d m] block_off_less [of b b' d m] that by linarith
  have kb: "key_bytes d + 8 \<le> unat (block_size d)" using assms(1) by (simp add: geometry_def)
  have k: "chunk c (block_off d m b') (key_bytes d) = block_key d m b'"
    if "b' < unat (shared_memory_blocks d)" "b' \<noteq> b \<or> key_bytes d \<le> j" for b'
    unfolding block_key_def
    using geometry_bounds(2) [OF assms(1)] apart [of b'] assms(4) kb that by (intro other) (cases "b' = b"; fastforce)+
  have "same_table d m ?m"
    using e k assms(1,3) z by (auto simp: same_table_def geometry_def)
  moreover have "block_key d ?m b' = block_key d m b'" if "key_bytes d \<le> j" "b' < unat (shared_memory_blocks d)" for b'
    using k [of b'] that by (simp add: block_key_def [of d ?m] o)
  moreover have "payload d ?m b' = payload d m b'" if b': "b' < unat (shared_memory_blocks d)" "b' \<noteq> b" for b'
    unfolding payload_def o using geometry_bounds(2) [OF assms(1) b'(1)] apart [OF b'(2)] assms(4) kb
    by (simp, intro other) (simp_all, linarith)
  moreover have "payload d ?m b = payload d m b" if "j + length w \<le> key_bytes d + 8"
    unfolding payload_def o using geometry_bounds(2) [OF assms(1,2)] that kb
    by (simp, intro other) (simp_all)
  moreover have "chunk c (block_off d m b + j) (length w) = w" by (rule chunk_blit_same [OF c])
  moreover have "mx_write m p w = Some ?m" using c assms(5) by (simp add: mx_write_off)
  ultimately show ?thesis by auto
qed

lemma time_length [simp]: "length (le32_bytes a @ le32_bytes b) = 8"
  by simp

definition same_keys :: "tme_data \<Rightarrow> mem_type \<Rightarrow> mem_type \<Rightarrow> bool" where
  "same_keys d m m' \<longleftrightarrow> (\<forall>b < unat (shared_memory_blocks d). block_key d m' b = block_key d m b)"

definition same_payloads :: "tme_data \<Rightarrow> mem_type \<Rightarrow> mem_type \<Rightarrow> bool" where
  "same_payloads d m m' \<longleftrightarrow> (\<forall>b < unat (shared_memory_blocks d). payload d m' b = payload d m b)"

lemma put_time_block:
  assumes "geometry d m" and "b < unat (shared_memory_blocks d)" and "off m p = block_off d m b + key_bytes d"
  shows "\<exists>m'. put_time m p now = Some m' \<and> same_table d m m' \<and> same_payloads d m m' \<and> same_keys d m m'"
proof -
  have "key_bytes d + 8 \<le> unat (block_size d)" using assms(1) by (simp add: geometry_def)
  from write_block [OF assms(1,2) _ _ assms(3), of "le32_bytes (fst now) @ le32_bytes (snd now)"] this
  obtain m' where "put_time m p now = Some m'" "same_table d m m'" "payload d m' b = payload d m b"
      "\<forall>b' < unat (shared_memory_blocks d). b' \<noteq> b \<longrightarrow> payload d m' b' = payload d m b'" "same_keys d m m'"
    by (auto simp: put_time_def same_keys_def)
  then show ?thesis by (auto simp: same_payloads_def)
qed

lemma found_effect:
  assumes "geometry d m" and "holds d m i b"
  shows "\<exists>m'. found_entry d m now i (mx_addr m + rec_block d m (unat i)) =
      Some (TME_TRUE, d\<lparr>last_found := Some (entry d i)\<rparr>, m') \<and> same_table d m m' \<and> same_payloads d m m'"
proof -
  have b: "b < unat (shared_memory_blocks d)" using assms by (simp add: geometry_def holds_def)
  have o: "off m (mx_addr m + rec_block d m (unat i)) = block_off d m b" using assms(2) by (simp add: off_inside holds_def)
  have "4 * key_len d = of_nat (key_bytes d)" by simp
  then have "off m (mx_addr m + rec_block d m (unat i) + 4 * key_len d) = block_off d m b + key_bytes d"
    using off_add [of m "mx_addr m + rec_block d m (unat i)" "key_bytes d"] o geometry_bounds(3) [OF assms(1) b] assms(1)
    by (simp add: geometry_def)
  from put_time_block [OF assms(1) b this, of now] show ?thesis by (auto simp: found_entry_def)
qed

lemma out_of_lut_effect:
  assumes "geometry d m"
  shows "\<exists>m'. out_of_lut d m now = Some (TME_FALSE, d\<lparr>last_found := None\<rparr>, m') \<and> same_table d m m' \<and> same_payloads d m m'"
proof -
  have b: "unat (0 :: u32) < unat (shared_memory_blocks d)" using assms by (simp add: geometry_def)
  have "off m (shared_memory_base_address d + 4 * key_len d) = block_off d m 0 + key_bytes d"
    using off_block(2) [OF assms b] by simp
  from put_time_block [OF assms _ this, of now] b show ?thesis by (auto simp: out_of_lut_def)
qed

text \<open>A write of one of the two words of an entry.\<close>

lemma write_entry:
  assumes "geometry d m" and "unat i < unat (lut_entries d)" and "j = 0 \<or> j = 4"
  shows "\<exists>m'. SW_ULONG_ASSIGN m (entry d i + of_nat j) w = Some m' \<and> same_size m m' \<and>
    chunk (mx_bytes m') (entry_off d m (unat i) + j) 4 = rev (le32_bytes w) \<and>
    (\<forall>x n. x + n \<le> length (mx_bytes m) \<and> (x + n \<le> entry_off d m (unat i) + j \<or> entry_off d m (unat i) + j + 4 \<le> x) \<longrightarrow>
      chunk (mx_bytes m') x n = chunk (mx_bytes m) x n)"
proof -
  have o: "off m (entry d i + of_nat j) = entry_off d m (unat i) + j" using off_entry [OF assms(1,2)] assms(3) by auto
  have "entry_off d m (unat i) + j + length (rev (le32_bytes w)) \<le> length (mx_bytes m)"
    using geometry_bounds(1,4) [OF assms(1)] assms(2,3) by fastforce
  then obtain c where c: "blit (mx_bytes m) (entry_off d m (unat i) + j) (rev (le32_bytes w)) = Some c"
    by (simp add: blit_def)
  have "chunk c (entry_off d m (unat i) + j) 4 = rev (le32_bytes w)" using chunk_blit_same [OF c] by simp
  moreover have "chunk c x n = chunk (mx_bytes m) x n"
    if "x + n \<le> length (mx_bytes m)" "x + n \<le> entry_off d m (unat i) + j \<or> entry_off d m (unat i) + j + 4 \<le> x" for x n
    using chunk_blit_other [OF c that(1)] that(2) by simp
  ultimately show ?thesis using c o blit_length [OF c]
    by (auto simp: SW_ULONG_ASSIGN_def mx_write_off same_size_def)
qed

section \<open>Inserting\<close>

text \<open>The table after a new entry: block \<open>b\<close>, the first free one, holds the key \<open>k\<close>.\<close>

definition extended :: "tme_data \<Rightarrow> mem_type \<Rightarrow> mem_type \<Rightarrow> u32 \<Rightarrow> u8 list \<Rightarrow> bool" where
  "extended d m m' i k \<longleftrightarrow> same_size m m' \<and>
     unat (rec_block d m' (unat i)) = block_off d m (unat (filled_blocks d)) \<and>
     rec_exec d m' (unat i) = default_exec d \<and>
     (\<forall>i' < unat (lut_entries d). i' \<noteq> unat i \<longrightarrow>
       rec_block d m' i' = rec_block d m i' \<and> rec_exec d m' i' = rec_exec d m i') \<and>
     (\<forall>b < unat (filled_blocks d). 0 < b \<longrightarrow> block_key d m' b = block_key d m b) \<and>
     block_key d m' (unat (filled_blocks d)) = k"

definition one_more :: "tme_data \<Rightarrow> u32 \<Rightarrow> tme_data" where
  "one_more d i = d\<lparr>filled_blocks := filled_blocks d + 1, filled_entries := filled_entries d + 1,
     last_found := Some (entry d i)\<rparr>"

lemma extended_inv:
  assumes "table_inv d m" and "extended d m m' i k" and "unat (filled_blocks d) < unat (shared_memory_blocks d)"
    and "t \<le> unat (filled_entries d)" and "passes d m k t" and "rec_block d m (unat (spot d k t)) = 0" and "i = spot d k t"
  shows "table_inv (one_more d i) m'" and "keys (one_more d i) m' = keys d m @ [k]"
    and "holds (one_more d i) m' i (unat (filled_blocks d))" and "block_key (one_more d i) m' (unat (filled_blocks d)) = k"
proof -
  let ?d = "one_more d i" let ?f = "unat (filled_blocks d)"
  have p: "same_place d ?d" by (simp add: same_place_def one_more_def)
  have z: "same_size m m'" using assms(2) by (simp add: extended_def)
  note o = same_offsets [OF p z]
  have g: "geometry d m" using assms(1) by (simp add: table_inv_def)
  have fb: "unat (filled_blocks ?d) = Suc ?f" using assms(3) unat_lt [of "shared_memory_blocks d"]
    by (simp add: one_more_def unat_add_small)
  have fe: "unat (filled_entries ?d) = Suc (unat (filled_entries d))"
    using filled_bound [OF assms(1)] by (simp add: one_more_def unat_add_small)
  have g': "geometry ?d m'" by (rule same_geometry [OF p z g]) (use fb assms(3) in simp_all)
  have f0: "0 < ?f" using g by (simp add: geometry_def)
  have od: "entry_off d m' = entry_off d m" "block_off d m' = block_off d m"
    using same_offsets(1,2) [of d d m m'] z by (simp_all add: same_place_def)
  have rb: "rec_block ?d m' = rec_block d m'" by (intro ext) (simp add: rec_block_def o(1) od)
  have kl: "key_len ?d = key_len d" by (simp add: one_more_def)
  have bk: "block_key ?d m' = block_key d m'" by (intro ext) (simp add: block_key_def o(2) od kl)
  have ib: "unat i < unat (lut_entries d)" using spot_bound [OF g] assms(7) by simp
  have old: "i' \<noteq> i" if "holds d m i' b" for i' b
    using holds_not_zero [OF g that] assms(6,7) by auto
  have h_old: "holds ?d m' i' b" if "holds d m i' b" "unat i' < unat (lut_entries d)" for i' b
  proof -
    have "unat i' \<noteq> unat i" using old [OF that(1)] by (simp add: word_unat_eq_iff)
    then show ?thesis using that assms(2) fb rb o(2) by (auto simp: holds_def extended_def)
  qed
  have k_old: "block_key ?d m' b = block_key d m b" if "0 < b" "b < ?f" for b
    using assms(2) that bk by (simp add: extended_def)
  have q: "passes ?d m' k' t'" if pq: "passes d m k' t'" for k' t'
    unfolding passes_def
  proof (intro allI impI)
    fix t'' assume "t'' < t'"
    then obtain b where b: "holds d m (spot d k' t'') b" "block_key d m b \<noteq> k'" using pq by (auto simp: passes_def)
    then have "0 < b" "b < ?f" by (auto simp: holds_def)
    then show "\<exists>b. holds ?d m' (spot ?d k' t'') b \<and> block_key ?d m' b \<noteq> k'"
      using b h_old [OF b(1) spot_bound [OF g]] k_old o(5) by auto
  qed
  show knew: "block_key ?d m' ?f = k" using assms(2) bk by (simp add: extended_def)
  show new: "holds ?d m' i ?f"
    using assms(2) fb f0 rb o(2) by (simp add: holds_def extended_def)
  have "rec_block ?d m' (unat i') = 0 \<or> (\<exists>b. holds ?d m' i' b)" if "unat i' < unat (lut_entries ?d)" for i'
  proof (cases "i' = i")
    case False
    have i': "unat i' < unat (lut_entries d)" using that by (simp add: one_more_def)
    then have "rec_block d m (unat i') = 0 \<or> (\<exists>b. holds d m i' b)" using assms(1) by (simp add: table_inv_def)
    moreover have "unat i' \<noteq> unat i" using False by (simp add: word_unat_eq_iff)
    then have "rec_block ?d m' (unat i') = rec_block d m (unat i')"
      using assms(2) i' rb by (auto simp: extended_def)
    ultimately show ?thesis using h_old i' by auto
  qed (use new in blast)
  moreover have "\<exists>t < unat (filled_blocks ?d). passes ?d m' (block_key ?d m' b) t \<and> holds ?d m' (spot ?d (block_key ?d m' b) t) b"
    if b: "0 < b" "b < unat (filled_blocks ?d)" for b
  proof (cases "b = ?f")
    case True
    have "t < unat (filled_blocks ?d)" using assms(1,4) fb by (simp add: table_inv_def)
    then show ?thesis using True knew new q [OF assms(5)] o(5) assms(7) by auto
  next
    case False
    then have b': "0 < b" "b < ?f" using b fb by auto
    then obtain t' where t': "t' < ?f" "passes d m (block_key d m b) t'" "holds d m (spot d (block_key d m b) t') b"
      using assms(1) by (auto simp: table_inv_def)
    then show ?thesis using q [OF t'(2)] h_old [OF t'(3) spot_bound [OF g]] k_old [OF b'] o(5) fb
      by (intro exI [of _ t']) simp
  qed
  ultimately show "table_inv ?d m'"
    using assms(1) g' fb fe by (simp add: table_inv_def one_more_def)
  have "keys ?d m' = map (block_key ?d m') ([1..<?f] @ [?f])" using fb f0 by (simp add: keys_def)
  then show "keys ?d m' = keys d m @ [k]" using k_old knew by (simp add: keys_def)
qed

lemma new_entry_effect:
  assumes "geometry d m" and "key_ok d m key" and "filled_blocks d \<noteq> shared_memory_blocks d"
    and "unat i < unat (lut_entries d)"
  shows "\<exists>m'. new_entry key d m now i = Some (TME_TRUE, one_more d i, m') \<and> extended d m m' i (key_at d m key) \<and>
    same_payloads d m m'"
proof -
  let ?f = "unat (filled_blocks d)" let ?k = "key_at d m key"
  let ?p = "shared_memory_base_address d + block_size d * filled_blocks d"
  have f: "?f < unat (shared_memory_blocks d)"
    using assms(1,3) by (simp add: geometry_def word_unat_eq_iff)
  have kb: "key_bytes d + 8 \<le> unat (block_size d)" and len: "length (mx_bytes m) < 4294967296" using assms(1) by (simp_all add: geometry_def)
  have kl: "unat (key_len d * 4) = key_bytes d"
    using kb unat_lt [of "block_size d"] by (simp add: unat_word_ariths)
  have kin: "off m key + key_bytes d \<le> length (mx_bytes m)"
    using assms(1,2) geometry_bounds(4) [OF assms(1)] by (simp add: geometry_def key_ok_def entry_off_def)
  have lk: "length ?k = key_bytes d" using kin by (simp add: key_at_def)
  obtain m1 where m1: "mx_write m ?p ?k = Some m1" "same_table d m m1" "chunk (mx_bytes m1) (block_off d m ?f) (key_bytes d) = ?k"
      "\<forall>b < unat (shared_memory_blocks d). payload d m1 b = payload d m b"
    using write_block [OF assms(1) f, of 0 ?k ?p] off_block(1) [OF assms(1) f] kb lk by (metis add.right_neutral add_0 add_leD1 order_refl trans_le_add1)
  have c1: "COPY_MEMORY m ?p key (unat (key_len d * 4)) = Some m1"
    using m1(1) kin kl by (simp add: COPY_MEMORY_def mx_read_off slice_chunk key_at_def)
  have z1: "same_size m m1" using m1(2) by (simp add: same_table_def)
  have g1: "geometry d m1" using same_geometry [OF _ z1 assms(1), of d] assms(1) by (simp add: same_place_def geometry_def)
  note o1 = same_offsets [of d d m m1, OF _ z1]
  have sp: "same_place d d" by (simp add: same_place_def)
  obtain m2 where m2: "put_time m1 (?p + 4 * key_len d) now = Some m2" "same_table d m1 m2" "same_payloads d m1 m2" "same_keys d m1 m2"
    using put_time_block [OF g1 f off_block(2) [OF g1 f], of now] by blast
  have z2: "same_size m m2" using z1 m2(2) by (simp add: same_table_def same_size_def)
  have g2: "geometry d m2" using same_geometry [OF sp z2 assms(1)] assms(1) by (simp add: geometry_def)
  note o2 = same_offsets [OF sp z2]
  obtain m3 where m3: "SW_ULONG_ASSIGN m2 (entry d i) (?p - mx_addr m) = Some m3" "same_size m2 m3"
      "chunk (mx_bytes m3) (entry_off d m (unat i)) 4 = rev (le32_bytes (?p - mx_addr m))"
      "\<And>x n. x + n \<le> length (mx_bytes m) \<Longrightarrow> x + n \<le> entry_off d m (unat i) \<or> entry_off d m (unat i) + 4 \<le> x \<Longrightarrow>
        chunk (mx_bytes m3) x n = chunk (mx_bytes m2) x n"
    using write_entry [OF g2 assms(4), of 0 "?p - mx_addr m"] z2 o2(1) by (auto simp: same_size_def)
  have z3: "same_size m m3" using z2 m3(2) by (simp add: same_size_def)
  have g3: "geometry d m3" using same_geometry [OF sp z3 assms(1)] assms(1) by (simp add: geometry_def)
  note o3 = same_offsets [OF sp z3]
  obtain m4 where m4: "SW_ULONG_ASSIGN m3 (entry d i + 4) (default_exec d) = Some m4" "same_size m3 m4"
      "chunk (mx_bytes m4) (entry_off d m (unat i) + 4) 4 = rev (le32_bytes (default_exec d))"
      "\<And>x n. x + n \<le> length (mx_bytes m) \<Longrightarrow> x + n \<le> entry_off d m (unat i) + 4 \<or> entry_off d m (unat i) + 8 \<le> x \<Longrightarrow>
        chunk (mx_bytes m4) x n = chunk (mx_bytes m3) x n"
    using write_entry [OF g3 assms(4), of 4 "default_exec d"] z3 o3(1) by (auto simp: same_size_def add.assoc)
  have z4: "same_size m m4" using z3 m4(2) by (simp add: same_size_def)
  note o4 = same_offsets [OF sp z4]
  have far: "chunk (mx_bytes m4) x n = chunk (mx_bytes m2) x n"
    if "x + n \<le> length (mx_bytes m)" "x + n \<le> entry_off d m (unat i) \<or> entry_off d m (unat i) + 8 \<le> x" for x n
    using m4(4) [OF that(1)] m3(4) [OF that(1)] that(2) by fastforce
  have e0: "entry_off d m (unat i) + 8 \<le> block_off d m b" for b
    using geometry_bounds(1) [OF assms(1,4)] by (simp add: block_off_def)
  have "unat (?p - mx_addr m) = block_off d m ?f" using off_block(1) [OF assms(1) f] by (simp add: off_def)
  moreover have "chunk (mx_bytes m4) (entry_off d m (unat i)) 4 = rev (le32_bytes (?p - mx_addr m))"
    using m4(4) [of "entry_off d m (unat i)" 4] m3(3) geometry_bounds(1,4) [OF assms(1)] assms(4) by fastforce
  ultimately have "unat (rec_block d m4 (unat i)) = block_off d m ?f" by (simp add: rec_block_def o4(1))
  moreover have "rec_exec d m4 (unat i) = default_exec d" using m4(3) by (simp add: rec_exec_def o4(1))
  moreover have "rec_block d m4 i' = rec_block d m i' \<and> rec_exec d m4 i' = rec_exec d m i'"
    if i': "i' < unat (lut_entries d)" "i' \<noteq> unat i" for i'
  proof -
    have "entry_off d m i' + 8 \<le> entry_off d m (unat i) \<or> entry_off d m (unat i) + 8 \<le> entry_off d m i'"
      using i'(2) by (auto simp: entry_off_def)
    moreover have "entry_off d m i' + 8 \<le> length (mx_bytes m)" using geometry_bounds(1,4) [OF assms(1)] i'(1) by fastforce
    ultimately have "chunk (mx_bytes m4) (entry_off d m i') 8 = chunk (mx_bytes m2) (entry_off d m i') 8" by (rule far [rotated])
    also have "\<dots> = chunk (mx_bytes m1) (entry_off d m i') 8" using m2(2) i'(1) o1(1) sp by (simp add: same_table_def)
    also have "\<dots> = chunk (mx_bytes m) (entry_off d m i') 8" using m1(2) i'(1) by (simp add: same_table_def)
    finally show ?thesis using same_words [of "mx_bytes m4" "entry_off d m i'" "mx_bytes m"]
      by (simp add: rec_block_def rec_exec_def o4(1))
  qed
  moreover have key4: "block_key d m4 b = chunk (mx_bytes m1) (block_off d m b) (key_bytes d)" if b: "b < unat (shared_memory_blocks d)" for b
  proof -
    have "chunk (mx_bytes m4) (block_off d m b) (key_bytes d) = chunk (mx_bytes m2) (block_off d m b) (key_bytes d)"
      using far [of "block_off d m b" "key_bytes d"] e0 [of b] geometry_bounds(3) [OF assms(1) b] by simp
    also have "\<dots> = chunk (mx_bytes m1) (block_off d m b) (key_bytes d)"
      using m2(4) b o1(2) o2(2) sp by (simp add: same_keys_def block_key_def)
    finally show ?thesis by (simp add: block_key_def o4(2))
  qed
  have "block_key d m4 b = block_key d m b" if "b < ?f" "0 < b" for b
    using key4 [of b] that f m1(2) by (simp add: same_table_def)
  moreover have "block_key d m4 ?f = ?k" using key4 [OF f] m1(3) by simp
  ultimately have ext: "extended d m m4 i ?k" using z4 by (simp add: extended_def)
  have "payload d m4 b = payload d m b" if b: "b < unat (shared_memory_blocks d)" for b
  proof -
    have "payload d m4 b = payload d m2 b"
      unfolding payload_def o4(2) o2(2) using e0 [of b] geometry_bounds(2) [OF assms(1) b] kb by (intro far) auto
    also have "\<dots> = payload d m1 b" using m2(3) b by (simp add: same_payloads_def)
    finally show ?thesis using m1(4) b by simp
  qed
  then have "same_payloads d m m4" by (simp add: same_payloads_def)
  moreover have "new_entry key d m now i = Some (TME_TRUE, one_more d i, m4)"
    using assms(3) c1 m2(1) m3(1) m4(1) by (simp add: new_entry_def one_more_def Let_def)
  ultimately show ?thesis using ext by blast
qed

end
