(* ===== verification/Tme_Exec.thy ===== *)
theory Tme_Exec
  imports Tme_Lookup
begin

text \<open>
  The functions the table engine runs on the block of a packet: counting (\<open>count_packets.c\<close>) and the
  state of a TCP connection (\<open>tcp_session.c\<close>), and the two entries of the packet filter into the
  engine (\<open>lookup_frontend\<close> and \<open>execute_frontend\<close> of \<open>tme.c\<close>), all under \<open>packetNtx/driver\<close>.
\<close>

section \<open>Counting\<close>

text \<open>\<open>c_p_data\<close> behind the key: a time stamp, and two counters of 64 bits.\<close>

type_synonym u64 = "64 word"

definition word64_bytes :: "u64 \<Rightarrow> u8 list" where
  "word64_bytes w = le32_bytes (ucast w) @ le32_bytes (ucast (drop_bit 32 w))"

definition word64_of :: "u8 list \<Rightarrow> u64" where
  "word64_of b = push_bit 32 (ucast (le32_of (drop 4 b))) OR ucast (le32_of b)"

definition count_packets :: "u32 \<Rightarrow> u32 \<Rightarrow> tme_data \<Rightarrow> mem_type \<Rightarrow> mem_type option" where
  "count_packets block pkt_size d m = do {
     let p = block + key_len d * 4;
     b \<leftarrow> mx_read m (p + 16) 8;
     m1 \<leftarrow> mx_write m (p + 16) (word64_bytes (word64_of b + ucast pkt_size));
     n \<leftarrow> mx_read m1 (p + 8) 8;
     mx_write m1 (p + 8) (word64_bytes (word64_of n + 1)) }"

section \<open>A TCP connection\<close>

record tcp_session_data =
  timestamp_block :: timeval
  syn_timestamp :: timeval
  last_timestamp :: timeval
  syn_ack_timestamp :: timeval
  direction :: u32
  seq_n_0_srv :: u32
  seq_n_0_cln :: u32
  ack_srv :: u32
  ack_cln :: u32
  tcp_status :: u32
  pkts_cln_to_srv :: u32
  pkts_srv_to_cln :: u32
  bytes_srv_to_cln :: u32
  bytes_cln_to_srv :: u32
  close_state :: u32

text \<open>The words of the structure.\<close>

definition tcp_words :: "tcp_session_data \<Rightarrow> u32 list" where
  "tcp_words t =
     [fst (timestamp_block t), snd (timestamp_block t), fst (syn_timestamp t), snd (syn_timestamp t),
      fst (last_timestamp t), snd (last_timestamp t), fst (syn_ack_timestamp t), snd (syn_ack_timestamp t),
      direction t, seq_n_0_srv t, seq_n_0_cln t, ack_srv t, ack_cln t, tcp_status t, pkts_cln_to_srv t,
      pkts_srv_to_cln t, bytes_srv_to_cln t, bytes_cln_to_srv t, close_state t]"

definition tcp_enc :: "tcp_session_data \<Rightarrow> u8 list" where
  "tcp_enc t = concat (map le32_bytes (tcp_words t))"

definition word_of :: "u8 list \<Rightarrow> nat \<Rightarrow> u32" where
  "word_of b i = le32_of (drop (4 * i) b)"

definition tcp_dec :: "u8 list \<Rightarrow> tcp_session_data" where
  "tcp_dec b =
     \<lparr>timestamp_block = (word_of b 0, word_of b 1), syn_timestamp = (word_of b 2, word_of b 3),
      last_timestamp = (word_of b 4, word_of b 5), syn_ack_timestamp = (word_of b 6, word_of b 7),
      direction = word_of b 8, seq_n_0_srv = word_of b 9, seq_n_0_cln = word_of b 10, ack_srv = word_of b 11,
      ack_cln = word_of b 12, tcp_status = word_of b 13, pkts_cln_to_srv = word_of b 14,
      pkts_srv_to_cln = word_of b 15, bytes_srv_to_cln = word_of b 16, bytes_cln_to_srv = word_of b 17,
      close_state = word_of b 18\<rparr>"

abbreviation (input) UNKNOWN :: u32 where "UNKNOWN \<equiv> 0"
abbreviation (input) SYN_RCV :: u32 where "SYN_RCV \<equiv> 1"
abbreviation (input) SYN_ACK_RCV :: u32 where "SYN_ACK_RCV \<equiv> 2"
abbreviation (input) ESTABLISHED :: u32 where "ESTABLISHED \<equiv> 3"
abbreviation (input) CLOSED_RST :: u32 where "CLOSED_RST \<equiv> 4"
abbreviation (input) FIN_CLN_RCV :: u32 where "FIN_CLN_RCV \<equiv> 5"
abbreviation (input) FIN_SRV_RCV :: u32 where "FIN_SRV_RCV \<equiv> 6"
abbreviation (input) CLOSED_FIN :: u32 where "CLOSED_FIN \<equiv> 7"
abbreviation (input) ERROR_TCP :: u32 where "ERROR_TCP \<equiv> 8"
abbreviation (input) MAX_WINDOW :: u32 where "MAX_WINDOW \<equiv> 65536"
abbreviation (input) FIN :: u8 where "FIN \<equiv> 1"
abbreviation (input) SYN :: u8 where "SYN \<equiv> 2"
abbreviation (input) RST :: u8 where "RST \<equiv> 4"
abbreviation (input) ACK :: u8 where "ACK \<equiv> 16"

text \<open>What the function reads of a packet; the two acknowledgements are one field in two byte orders.\<close>

record segment =
  sg_dir :: u32
  sg_flags :: u8
  sg_seq :: u32
  sg_ack :: u32
  sg_size :: u32

definition has :: "u8 \<Rightarrow> u8 \<Rightarrow> bool" where
  "has flags f \<longleftrightarrow> flags AND f \<noteq> 0"

definition count_segment :: "segment \<Rightarrow> tcp_session_data \<Rightarrow> tcp_session_data" where
  "count_segment g s =
     (let s1 = s\<lparr>last_timestamp := timestamp_block s, timestamp_block := (0x7fffffff, snd (timestamp_block s))\<rparr> in
      if sg_dir g = direction s
      then s1\<lparr>pkts_cln_to_srv := pkts_cln_to_srv s + 1, bytes_cln_to_srv := bytes_cln_to_srv s + sg_size g\<rparr>
      else s1\<lparr>pkts_srv_to_cln := pkts_srv_to_cln s + 1, bytes_srv_to_cln := bytes_srv_to_cln s + sg_size g\<rparr>)"

text \<open>The cases of the state machine; \<open>fl\<close> are the flags that matter, \<open>same\<close> the direction of the SYN.\<close>

definition in_unknown :: "segment \<Rightarrow> u8 \<Rightarrow> tcp_session_data \<Rightarrow> u32 \<times> tcp_session_data" where
  "in_unknown g fl s =
     (if fl = SYN
      then if sg_ack g \<noteq> 0 then (ERROR_TCP, s)
        else (SYN_RCV, s\<lparr>syn_timestamp := last_timestamp s, direction := sg_dir g, seq_n_0_cln := sg_seq g\<rparr>)
      else (UNKNOWN, s))"

definition in_syn_rcv :: "segment \<Rightarrow> u8 \<Rightarrow> bool \<Rightarrow> tcp_session_data \<Rightarrow> u32 \<times> tcp_session_data" where
  "in_syn_rcv g fl same s =
     (if has fl RST \<and> \<not> same then (CLOSED_RST, s)
      else if fl = SYN \<and> same then (SYN_RCV, s\<lparr>seq_n_0_cln := sg_seq g\<rparr>)
      else if fl = SYN OR ACK \<and> \<not> same
      then if sg_ack g \<noteq> seq_n_0_cln s + 1 then (ERROR_TCP, s)
        else (SYN_ACK_RCV, s\<lparr>syn_ack_timestamp := last_timestamp s, seq_n_0_srv := sg_seq g,
          ack_cln := seq_n_0_cln s + 1\<rparr>)
      else (ERROR_TCP, s))"

definition in_syn_ack_rcv :: "segment \<Rightarrow> u8 \<Rightarrow> bool \<Rightarrow> tcp_session_data \<Rightarrow> u32 \<times> tcp_session_data" where
  "in_syn_ack_rcv g fl same s =
     (if has fl ACK \<and> has fl RST \<and> same then (CLOSED_RST, s\<lparr>ack_srv := sg_ack g\<rparr>)
      else if fl = ACK \<and> \<not> has fl (SYN OR FIN OR RST) \<and> same
      then if sg_ack g \<noteq> seq_n_0_srv s + 1 then (ERROR_TCP, s)
        else (ESTABLISHED, s\<lparr>ack_srv := seq_n_0_srv s + 1\<rparr>)
      else if has fl ACK \<and> has fl SYN \<and> \<not> same then (SYN_ACK_RCV, s)
      else (ERROR_TCP, s))"

definition advance_srv :: "segment \<Rightarrow> tcp_session_data \<Rightarrow> tcp_session_data" where
  "advance_srv g s = (if sg_ack g - ack_srv s < MAX_WINDOW then s\<lparr>ack_srv := sg_ack g\<rparr> else s)"

definition advance_cln :: "segment \<Rightarrow> tcp_session_data \<Rightarrow> tcp_session_data" where
  "advance_cln g s = (if sg_ack g - ack_cln s < MAX_WINDOW then s\<lparr>ack_cln := sg_ack g\<rparr> else s)"

definition in_established :: "segment \<Rightarrow> u8 \<Rightarrow> bool \<Rightarrow> tcp_session_data \<Rightarrow> u32 \<times> tcp_session_data" where
  "in_established g fl same s =
     (if has fl SYN
      then if has fl ACK \<and> \<not> same \<and> ack_cln s - sg_ack g < MAX_WINDOW then (ESTABLISHED, s)
        else if \<not> has fl ACK \<and> same \<and> sg_seq g = seq_n_0_cln s \<and> sg_ack g = 0 then (ESTABLISHED, s)
        else (ERROR_TCP, s)
      else (let s1 = (if has fl ACK then (if same then advance_srv g s else advance_cln g s) else s) in
        if has fl RST then (CLOSED_RST, s1)
        else if has fl FIN
        then if same then (FIN_CLN_RCV, s1\<lparr>ack_cln := sg_seq g\<rparr>) else (FIN_SRV_RCV, s1\<lparr>ack_srv := sg_seq g\<rparr>)
        else (ESTABLISHED, s1)))"

definition in_fin_srv :: "segment \<Rightarrow> u8 \<Rightarrow> bool \<Rightarrow> tcp_session_data \<Rightarrow> u32 \<times> tcp_session_data" where
  "in_fin_srv g fl same s =
     (if has fl SYN then (ERROR_TCP, s)
      else (let s1 = (if has fl ACK \<and> \<not> same then advance_cln g s else s) in
        if has fl RST then (CLOSED_RST, s1)
        else if has fl FIN \<and> same then (CLOSED_FIN, s1\<lparr>ack_cln := sg_seq g\<rparr>)
        else (FIN_SRV_RCV, s1)))"

definition in_fin_cln :: "segment \<Rightarrow> u8 \<Rightarrow> bool \<Rightarrow> tcp_session_data \<Rightarrow> u32 \<times> tcp_session_data" where
  "in_fin_cln g fl same s =
     (if has fl SYN then (ERROR_TCP, s)
      else (let s1 = (if has fl ACK \<and> same then advance_srv g s else s) in
        if has fl RST then (CLOSED_RST, s1)
        else if has fl FIN \<and> \<not> same then (CLOSED_FIN, s1\<lparr>ack_srv := sg_seq g\<rparr>)
        else (FIN_CLN_RCV, s1)))"

definition next_status :: "segment \<Rightarrow> tcp_session_data \<Rightarrow> u32 \<times> tcp_session_data" where
  "next_status g s =
     (let fl = sg_flags g AND (ACK OR FIN OR SYN OR RST); same = (sg_dir g = direction s); st = tcp_status s in
      if st = ERROR_TCP then (ERROR_TCP, s)
      else if st = UNKNOWN then in_unknown g fl s
      else if st = SYN_RCV then in_syn_rcv g fl same s
      else if st = SYN_ACK_RCV then in_syn_ack_rcv g fl same s
      else if st = ESTABLISHED then in_established g fl same s
      else if st = CLOSED_RST then (CLOSED_RST, s)
      else if st = FIN_SRV_RCV then in_fin_srv g fl same s
      else if st = FIN_CLN_RCV then in_fin_cln g fl same s
      else if st = CLOSED_FIN then (CLOSED_FIN, s)
      else (ERROR_TCP, s))"

definition closed :: "u32 \<Rightarrow> bool" where
  "closed st \<longleftrightarrow> st = CLOSED_FIN \<or> st = UNKNOWN \<or> st = CLOSED_RST \<or> st = ERROR_TCP"

definition session_step :: "segment \<Rightarrow> tcp_session_data \<Rightarrow> tcp_session_data" where
  "session_step g s =
     (case next_status g (count_segment g s) of
        (st, s1) \<Rightarrow> (let s2 = s1\<lparr>tcp_status := st\<rparr> in
          if closed st then s2\<lparr>timestamp_block := last_timestamp s2\<rparr> else s2))"

text \<open>The flags and the numbers come from the start of the extended memory.\<close>

definition read_segment :: "mem_type \<Rightarrow> u32 \<Rightarrow> u32 \<Rightarrow> segment option" where
  "read_segment m mem_data pkt_size = do {
     dir \<leftarrow> ULONG_AT m (mem_data + 12);
     fl \<leftarrow> mx_read m (mx_addr m + 25) 1;
     sq \<leftarrow> SW_ULONG_AT m (mx_addr m + 16);
     ak \<leftarrow> SW_ULONG_AT m (mx_addr m + 20);
     Some \<lparr>sg_dir = dir, sg_flags = hd fl, sg_seq = sq, sg_ack = ak, sg_size = pkt_size\<rparr> }"

definition tcp_session :: "u32 \<Rightarrow> u32 \<Rightarrow> tme_data \<Rightarrow> mem_type \<Rightarrow> u32 \<Rightarrow> mem_type option" where
  "tcp_session block pkt_size d m mem_data = do {
     let p = block + key_len d * 4;
     g \<leftarrow> read_segment m mem_data pkt_size;
     b \<leftarrow> mx_read m p 76;
     mx_write m p (tcp_enc (session_step g (tcp_dec b))) }"

section \<open>The entries of the packet filter\<close>

text \<open>None is an access outside the memory or the call of a function pointer that is NULL.\<close>

definition lookup_frontend ::
    "mem_type \<Rightarrow> tme_core \<Rightarrow> u32 \<Rightarrow> timeval \<Rightarrow> (nat \<times> mem_type \<times> tme_core) option option" where
  "lookup_frontend m tme mem_ex_offset now =
     (if active tme = TME_NONE_ACTIVE then Some (Some (TME_FALSE, m, tme))
      else if unat (active tme) \<ge> length (block_data tme) then Some None
      else (let d = block_data tme ! unat (active tme); key = mem_ex_offset + mx_addr m;
                back = map_option (map_option (\<lambda>(r, d', m'). (r, m', tme\<lparr>block_data := (block_data tme)[unat (active tme) := d']\<rparr>))) in
        case lookup_code d of
          None \<Rightarrow> Some None
        | Some Normal_Lut_W_Insert \<Rightarrow> back (normal_lut_w_insert key d m now)
        | Some Normal_Lut_Wo_Insert \<Rightarrow> back (normal_lut_wo_insert key d m now)
        | Some Bucket_Lookup \<Rightarrow> back (bucket_lookup key d m now)
        | Some Bucket_Lookup_Insert \<Rightarrow> back (Some (bucket_lookup_insert key d m now))))"

text \<open>The function and the block of the last entry found; Some None is the code \<open>TME_ERROR\<close>.\<close>

definition chosen :: "mem_type \<Rightarrow> tme_data \<Rightarrow> (exec_fcn option \<times> u32) option option" where
  "chosen m d =
     (case last_found d of
        None \<Rightarrow> Some (Some (exec_fcn_mapper (out_lut_exec d), shared_memory_base_address d))
      | Some p \<Rightarrow>
          if p < lut_base_address d \<or> p \<ge> shared_memory_base_address d then Some None
          else do {
            e \<leftarrow> SW_ULONG_AT m (p + 4);
            if exec_fcn_mapper e = None then Some None
            else do {
              o' \<leftarrow> SW_ULONG_AT m p;
              let block = o' + mx_addr m;
              if block < shared_memory_base_address d \<or> block \<ge> extra_segment_base_address d then Some None
              else Some (Some (exec_fcn_mapper e, block)) } })"

definition execute_frontend :: "mem_type \<Rightarrow> tme_core \<Rightarrow> u32 \<Rightarrow> u32 \<Rightarrow> (nat \<times> mem_type) option" where
  "execute_frontend m tme pkt_size offset =
     (if active tme = TME_NONE_ACTIVE then Some (TME_ERROR, m)
      else if unat (active tme) \<ge> length (block_data tme) then None
      else (let d = block_data tme ! unat (active tme) in do {
        c \<leftarrow> chosen m d;
        case c of
          None \<Rightarrow> Some (TME_ERROR, m)
        | Some (f, block) \<Rightarrow>
            if offset \<ge> mx_size m then Some (TME_ERROR, m)
            else (case f of
                None \<Rightarrow> None
              | Some Count_Packets \<Rightarrow> map_option (Pair TME_SUCCESS) (count_packets block pkt_size d m)
              | Some Tcp_Session \<Rightarrow> map_option (Pair TME_SUCCESS) (tcp_session block pkt_size d m (mx_addr m + offset))) }))"

end
