(* ===== verification/Tme_Flows.thy ===== *)
theory Tme_Flows
  imports Tme_Table Tme_Exec
begin

text \<open>
  The table engine as the packet filter uses it: a lookup of the key of a packet and the counting of the
  packet, against the list of the flows that have been seen.
\<close>

section \<open>A lookup\<close>

lemma table_geometry: "table_inv d m \<Longrightarrow> geometry d m"
  by (simp add: table_inv_def)

lemma insert_cases:
  assumes "table_inv d m" and "key_ok d m key"
  obtains (known) i b m' where "normal_lut True key d m now = Some (Some (TME_TRUE, d\<lparr>last_found := Some (entry d i)\<rparr>, m'))"
      "same_table d m m'" "same_payloads d m m'" "holds d m i b" "block_key d m b = key_at d m key"
      "unat i < unat (lut_entries d)"
  | (new) i t m' where "normal_lut True key d m now = Some (Some (TME_TRUE, one_more d i, m'))"
      "extended d m m' i (key_at d m key)" "same_payloads d m m'" "unat (filled_blocks d) < unat (shared_memory_blocks d)"
      "key_at d m key \<notin> set (keys d m)" "t \<le> unat (filled_entries d)" "passes d m (key_at d m key) t"
      "rec_block d m (unat (spot d (key_at d m key) t)) = 0" "i = spot d (key_at d m key) t"
  | (refused) m' where "normal_lut True key d m now = Some (Some (TME_FALSE, d\<lparr>last_found := None\<rparr>, m'))"
      "same_table d m m'" "same_payloads d m m'" "key_at d m key \<notin> set (keys d m)"
      "filled_blocks d = shared_memory_blocks d \<or> passes d m (key_at d m key) (Suc (unat (filled_entries d)))"
proof -
  let ?k = "key_at d m key"
  have g: "geometry d m" by (rule table_geometry [OF assms(1)])
  note results = lookup_result [OF assms refl, where ins = True and now = now]
  obtain mo where mo: "out_of_lut d m now = Some (TME_FALSE, d\<lparr>last_found := None\<rparr>, mo)" "same_table d m mo" "same_payloads d m mo"
    using out_of_lut_effect [OF g] by blast
  show thesis
  proof (rule lookup_cases [OF assms(1), of ?k])
    fix t b assume t: "meets d m ?k t b"
    then have h: "holds d m (spot d ?k t) b" "block_key d m b = ?k" by (simp_all add: meets_def)
    from found_effect [OF g h(1), of now] results(1) [OF t] show thesis
      by (elim exE conjE) (rule known [OF _ _ _ h spot_bound [OF g]]; simp)
  next
    fix t assume t: "t \<le> unat (filled_entries d)" "passes d m ?k t" "rec_block d m (unat (spot d ?k t)) = 0"
    have nk: "?k \<notin> set (keys d m)" using key_meets [OF assms(1)] meets_excludes(1) [OF g] t by blast
    show thesis
    proof (cases "filled_blocks d = shared_memory_blocks d")
      case True
      then have "new_entry key d m now (spot d ?k t) = out_of_lut d m now" by (simp add: new_entry_def)
      then show thesis using results(2) [OF t] mo refused nk True by simp
    next
      case False
      then have "unat (filled_blocks d) < unat (shared_memory_blocks d)" using g by (simp add: geometry_def word_unat_eq_iff)
      moreover from new_entry_effect [OF g assms(2) False spot_bound [OF g], of now] obtain m'
        where "new_entry key d m now (spot d ?k t) = Some (TME_TRUE, one_more d (spot d ?k t), m')"
          "extended d m m' (spot d ?k t) ?k" "same_payloads d m m'" by blast
      ultimately show thesis using results(2) [OF t] new nk t by simp
    qed
  next
    assume p: "passes d m ?k (Suc (unat (filled_entries d)))"
    have "?k \<notin> set (keys d m)" using key_meets [OF assms(1)] meets_excludes(2) [OF g] p by blast
    then show thesis using results(3) [OF p] mo refused p by simp
  qed
qed

text \<open>C28: In a table that the operations have built and from which nothing is deleted, a lookup with insertion
  returns, stays inside the extended memory and keeps the invariant; it finds a key that is in the table,
  with its block, appends one that is not, or refuses it where no block is left or the probes of its
  path all meet other keys; the data that the functions keep in the blocks does not change.\<close>

theorem table_lookup:
  assumes "table_inv d m" and "key_ok d m key"
  shows "\<exists>r d' m'. normal_lut_w_insert key d m now = Some (Some (r, d', m')) \<and> table_inv d' m' \<and> same_payloads d m m' \<and>
    (if key_at d m key \<in> set (keys d m) then r = TME_TRUE \<and> keys d' m' = keys d m
     else r = TME_TRUE \<and> keys d' m' = keys d m @ [key_at d m key] \<or>
       r = TME_FALSE \<and> keys d' m' = keys d m \<and> last_found d' = None \<and>
         (filled_blocks d = shared_memory_blocks d \<or> passes d m (key_at d m key) (Suc (unat (filled_entries d))))) \<and>
    (r = TME_TRUE \<longrightarrow> (\<exists>i b. last_found d' = Some (entry d i) \<and> holds d' m' i b \<and> block_key d' m' b = key_at d m key))"
  using assms
proof (rule insert_cases [where now = now])
  let ?k = "key_at d m key"
  have g: "geometry d m" by (rule table_geometry [OF assms(1)])
  {
    fix i b m'
    let ?d = "d\<lparr>last_found := Some (entry d i)\<rparr>"
    assume h: "normal_lut True key d m now = Some (Some (TME_TRUE, ?d, m'))" "same_table d m m'" "same_payloads d m m'"
      "holds d m i b" "block_key d m b = ?k" "unat i < unat (lut_entries d)"
    note inv = same_table_inv [OF h(2) assms(1), where x = "Some (entry d i)"]
    have b: "0 < b" "b < unat (filled_blocks d)" using h(4) by (auto simp: holds_def)
    then have "?k \<in> set (keys d m)" using h(5) by (auto simp: keys_def intro!: image_eqI [of _ _ b])
    moreover have "holds ?d m' i b" "block_key ?d m' b = ?k" using inv(3) [OF g h(6)] inv(4) [OF b] h(4,5) by simp_all
    ultimately show ?thesis using h(1,3) inv(1,2) by (auto simp: normal_lut_w_insert_def)
  }
  {
    fix i t m'
    assume h: "normal_lut True key d m now = Some (Some (TME_TRUE, one_more d i, m'))" "extended d m m' i ?k" "same_payloads d m m'"
      "unat (filled_blocks d) < unat (shared_memory_blocks d)" "?k \<notin> set (keys d m)" "t \<le> unat (filled_entries d)"
      "passes d m ?k t" "rec_block d m (unat (spot d ?k t)) = 0" "i = spot d ?k t"
    from extended_inv [OF assms(1) h(2,4,6-9)] h(1,3,5) show ?thesis
      by (auto simp: normal_lut_w_insert_def one_more_def)
  }
  {
    fix m'
    assume h: "normal_lut True key d m now = Some (Some (TME_FALSE, d\<lparr>last_found := None\<rparr>, m'))" "same_table d m m'"
      "same_payloads d m m'" "?k \<notin> set (keys d m)"
      "filled_blocks d = shared_memory_blocks d \<or> passes d m ?k (Suc (unat (filled_entries d)))"
    from same_table_inv(1,2) [OF h(2) assms(1), where x = None] h show ?thesis by (simp add: normal_lut_w_insert_def)
  }
qed

section \<open>Counting\<close>

lemma word64_of_bytes [simp]: "word64_of (word64_bytes w) = w"
proof -
  have "word64_of (word64_bytes w) = push_bit 32 (ucast (ucast (drop_bit 32 w) :: u32)) OR ucast (ucast w :: u32)"
    by (simp add: word64_of_def word64_bytes_def)
  also have "\<dots> = w"
    by (rule bit_word_eqI) (auto simp: bit_simps)
  finally show ?thesis .
qed

lemma length_word64 [simp]: "length (word64_bytes w) = 8"
  by (simp add: word64_bytes_def)

text \<open>The counters of a block: packets and bytes.\<close>

definition counters :: "tme_data \<Rightarrow> mem_type \<Rightarrow> nat \<Rightarrow> u64 \<times> u64" where
  "counters d m b = (word64_of (take 8 (payload d m b)), word64_of (take 8 (drop 8 (payload d m b))))"

lemma payload_words:
  assumes "key_bytes d + 24 \<le> unat (block_size d)"
  shows "take 8 (payload d m b) = chunk (mx_bytes m) (block_off d m b + (key_bytes d + 8)) 8"
    and "take 8 (drop 8 (payload d m b)) = chunk (mx_bytes m) (block_off d m b + (key_bytes d + 16)) 8"
  using assms by (simp_all add: payload_def chunk_def drop_take add.commute add.left_commute min_def)

lemma same_table_trans:
  assumes "same_table d m m1" and "same_table d m1 m2"
  shows "same_table d m m2"
proof -
  have "same_size m m1" using assms(1) by (simp add: same_table_def)
  from same_offsets [OF _ this, of d d] have "entry_off d m1 = entry_off d m" "block_off d m1 = block_off d m"
    by (simp_all add: same_place_def)
  then show ?thesis using assms by (auto simp: same_table_def same_size_def block_key_def)
qed

lemma count_effect:
  assumes "geometry d m" and "b < unat (shared_memory_blocks d)" and "key_bytes d + 24 \<le> unat (block_size d)"
    and "off m block = block_off d m b"
  shows "\<exists>m'. count_packets block sz d m = Some m' \<and> same_table d m m' \<and>
    counters d m' b = (fst (counters d m b) + 1, snd (counters d m b) + ucast sz) \<and>
    (\<forall>b' < unat (shared_memory_blocks d). b' \<noteq> b \<longrightarrow> payload d m' b' = payload d m b')"
proof -
  have kl: "key_len d * 4 = of_nat (key_bytes d)" by simp
  have lim: "block_off d m b + unat (block_size d) \<le> length (mx_bytes m)" "length (mx_bytes m) < 4294967296"
    using geometry_bounds(2) [OF assms(1,2)] assms(1) by (simp_all add: geometry_def)
  have o: "off m (block + key_len d * 4 + of_nat n) = block_off d m b + (key_bytes d + n)" if "n \<le> 16" for n
    using off_add [of m block "key_bytes d + n"] that lim assms(3,4) unfolding kl by (simp add: add.assoc)
  let ?p = "block + key_len d * 4"
  let ?N = "fst (counters d m b)" let ?B = "snd (counters d m b)"
  have c: "?N = word64_of (chunk (mx_bytes m) (block_off d m b + (key_bytes d + 8)) 8)"
    "?B = word64_of (chunk (mx_bytes m) (block_off d m b + (key_bytes d + 16)) 8)"
    using payload_words [OF assms(3)] by (simp_all add: counters_def)
  have r1: "mx_read m (?p + 16) 8 = Some (chunk (mx_bytes m) (block_off d m b + (key_bytes d + 16)) 8)"
    using o [of 16] lim assms(3) by (simp add: mx_read_off slice_chunk)
  obtain m1 where m1: "mx_write m (?p + 16) (word64_bytes (?B + ucast sz)) = Some m1" "same_table d m m1"
      "chunk (mx_bytes m1) (block_off d m b + (key_bytes d + 16)) 8 = word64_bytes (?B + ucast sz)"
      "\<forall>b' < unat (shared_memory_blocks d). b' \<noteq> b \<longrightarrow> payload d m1 b' = payload d m b'"
    using write_block [OF assms(1,2), of "key_bytes d + 16" "word64_bytes (?B + ucast sz)" "?p + 16"] o [of 16] assms(3) by auto
  have z1: "same_size m m1" using m1(2) by (simp add: same_table_def)
  have sp: "same_place d d" by (simp add: same_place_def)
  note o1 = same_offsets [OF sp z1]
  have g1: "geometry d m1" using same_geometry [OF sp z1 assms(1)] assms(1) by (simp add: geometry_def)
  have c1: "chunk (mx_bytes m1) (block_off d m b + (key_bytes d + 8)) 8 = chunk (mx_bytes m) (block_off d m b + (key_bytes d + 8)) 8"
  proof -
    obtain c' where c': "blit (mx_bytes m) (off m (?p + 16)) (word64_bytes (?B + ucast sz)) = Some c'" "m1 = m\<lparr>mx_bytes := c'\<rparr>"
      using m1(1) by (auto simp: mx_write_off)
    show ?thesis using chunk_blit_other [OF c'(1)] c'(2) o [of 16] lim assms(3) by simp
  qed
  have oz: "off m1 (?p + 8) = block_off d m1 b + (key_bytes d + 8)" using o [of 8] z1 o1(2) by (simp add: off_def same_size_def)
  have r2: "mx_read m1 (?p + 8) 8 = Some (chunk (mx_bytes m) (block_off d m b + (key_bytes d + 8)) 8)"
    using oz lim assms(3) c1 o1(2) z1 by (simp add: mx_read_off slice_chunk same_size_def)
  obtain m2 where m2: "mx_write m1 (?p + 8) (word64_bytes (?N + 1)) = Some m2" "same_table d m1 m2"
      "chunk (mx_bytes m2) (block_off d m1 b + (key_bytes d + 8)) 8 = word64_bytes (?N + 1)"
      "\<forall>b' < unat (shared_memory_blocks d). b' \<noteq> b \<longrightarrow> payload d m2 b' = payload d m1 b'"
    using write_block [OF g1 assms(2), of "key_bytes d + 8" "word64_bytes (?N + 1)" "?p + 8"] oz assms(3) by auto
  have z2: "same_size m m2" using z1 m2(2) by (simp add: same_table_def same_size_def)
  note o2 = same_offsets [OF sp z2]
  have c2: "chunk (mx_bytes m2) (block_off d m b + (key_bytes d + 16)) 8 = word64_bytes (?B + ucast sz)"
  proof -
    obtain c' where c': "blit (mx_bytes m1) (off m1 (?p + 8)) (word64_bytes (?N + 1)) = Some c'" "m2 = m1\<lparr>mx_bytes := c'\<rparr>"
      using m2(1) by (auto simp: mx_write_off)
    show ?thesis using chunk_blit_other [OF c'(1), of "block_off d m b + (key_bytes d + 16)" 8] c'(2) oz lim assms(3) m1(3) o1(2) z1
      by (simp add: same_size_def)
  qed
  have "counters d m2 b = (?N + 1, ?B + ucast sz)"
    using payload_words [OF assms(3), of m2 b] c2 m2(3) o1(2) o2(2) by (simp add: counters_def)
  moreover have "count_packets block sz d m = Some m2"
    using r1 m1(1) r2 m2(1) c by (simp add: count_packets_def Let_def)
  moreover have "\<forall>b' < unat (shared_memory_blocks d). b' \<noteq> b \<longrightarrow> payload d m2 b' = payload d m b'" using m1(4) m2(4) by simp
  ultimately show ?thesis using same_table_trans [OF m1(2) m2(2)] by blast
qed

section \<open>The flows\<close>

text \<open>The flows in the order of their first packets, and what is counted for no flow.\<close>

definition flows :: "tme_data \<Rightarrow> mem_type \<Rightarrow> (u8 list \<times> u64 \<times> u64) list" where
  "flows d m = map (\<lambda>b. (block_key d m b, counters d m b)) [1..<unat (filled_blocks d)]"

definition others :: "tme_data \<Rightarrow> mem_type \<Rightarrow> u64 \<times> u64" where
  "others d m = counters d m 0"

type_synonym accounts = "(u8 list \<times> u64 \<times> u64) list \<times> u64 \<times> u64"

text \<open>The specification: a packet is counted for its flow, or starts one, or is counted for none.\<close>

inductive account :: "u8 list \<Rightarrow> u32 \<Rightarrow> accounts \<Rightarrow> accounts \<Rightarrow> bool" where
  known: "account k sz (fl @ (k, n, w) # fl', x) (fl @ (k, n + 1, w + ucast sz) # fl', x)"
| new: "k \<notin> fst ` set fl \<Longrightarrow> account k sz (fl, x) (fl @ [(k, 1, ucast sz)], x)"
| refused: "k \<notin> fst ` set fl \<Longrightarrow> account k sz (fl, n, w) (fl, n + 1, w + ucast sz)"

definition active_data :: "tme_core \<Rightarrow> tme_data" where
  "active_data tme = block_data tme ! unat (active tme)"

text \<open>A block that counts the packets per key.\<close>

definition counting :: "tme_data \<Rightarrow> mem_type \<Rightarrow> bool" where
  "counting d m \<longleftrightarrow> table_inv d m \<and> key_bytes d + 24 \<le> unat (block_size d) \<and>
     default_exec d = 0 \<and> (\<forall>i < unat (lut_entries d). rec_block d m i \<noteq> 0 \<longrightarrow> rec_exec d m i = 0) \<and>
     (\<forall>b < unat (shared_memory_blocks d). unat (filled_blocks d) \<le> b \<longrightarrow> counters d m b = (0, 0))"

definition placed :: "tme_data \<Rightarrow> mem_type \<Rightarrow> bool" where
  "placed d m \<longleftrightarrow> lookup_code d = Some Normal_Lut_W_Insert \<and> out_lut_exec d = 0 \<and>
     unat (mx_addr m) + length (mx_bytes m) < 4294967296 \<and>
     off m (extra_segment_base_address d) = block_off d m (unat (shared_memory_blocks d))"

definition core_inv :: "mem_type \<Rightarrow> tme_core \<Rightarrow> bool" where
  "core_inv m tme \<longleftrightarrow> active tme \<noteq> TME_NONE_ACTIVE \<and> unat (active tme) < length (block_data tme) \<and>
     counting (active_data tme) m \<and> placed (active_data tme) m"

lemma same_data_counters:
  assumes "same_place d d'" and "same_size m m'" and "payload d m' b = payload d m b"
  shows "counters d' m' b = counters d m b"
proof -
  note o = same_offsets [OF assms(1,2)]
  have "same_place d d" by (simp add: same_place_def)
  note o' = same_offsets [OF this assms(2)]
  have "payload d' m' b = payload d m' b" using o(2) o'(2) assms(1) by (simp add: payload_def same_place_def)
  then show ?thesis using assms(3) by (simp add: counters_def)
qed

lemma same_place_found: "same_place d (d\<lparr>last_found := x\<rparr>)"
  by (simp add: same_place_def)

text \<open>A change of payloads only, where the free blocks stay empty.\<close>

lemma counting_same:
  assumes "counting d m" and "same_table d m m'"
    and "\<And>b. b < unat (shared_memory_blocks d) \<Longrightarrow> unat (filled_blocks d) \<le> b \<Longrightarrow> payload d m' b = payload d m b"
  shows "counting (d\<lparr>last_found := x\<rparr>) m'"
proof -
  let ?d = "d\<lparr>last_found := x\<rparr>"
  have t: "table_inv d m" using assms(1) by (simp add: counting_def)
  have z: "same_size m m'" using assms(2) by (simp add: same_table_def)
  note o = same_offsets [OF same_place_found [of d x] z]
  have "rec_exec ?d m' i = 0" if "i < unat (lut_entries d)" "rec_block ?d m' i \<noteq> 0" for i
  proof -
    have "rec_block ?d m' i = rec_block d m i"
      using assms(2) that(1) o(1) same_words(1) [of "mx_bytes m'" "entry_off d m i" "mx_bytes m"]
      by (simp add: rec_block_def same_table_def)
    then show ?thesis using assms(1) that same_table_exec [OF assms(2) that(1)] by (simp add: counting_def)
  qed
  moreover have "counters ?d m' b = (0, 0)" if "b < unat (shared_memory_blocks d)" "unat (filled_blocks d) \<le> b" for b
    using same_data_counters [OF same_place_found [of d x] z assms(3) [OF that]] assms(1) that by (simp add: counting_def)
  ultimately show ?thesis
    using same_table_inv(1) [OF assms(2) t] assms(1) by (simp add: counting_def)
qed

lemma placed_same:
  assumes "placed d m" and "same_size m m'" and "same_place d d'" and "lookup_code d' = lookup_code d"
    and "out_lut_exec d' = out_lut_exec d" and "extra_segment_base_address d' = extra_segment_base_address d"
  shows "placed d' m'"
  using assms same_offsets(2) [OF assms(3,2)] by (simp add: placed_def same_size_def off_def same_place_def)

text \<open>Counting for block \<open>b\<close>, in use or the first one.\<close>

lemma count_flows:
  assumes "counting d m" and "b < unat (filled_blocks d)" and "off m block = block_off d m b"
  shows "\<exists>m'. count_packets block sz d m = Some m' \<and> counting d m' \<and> same_size m m' \<and>
    flows d m' = map (\<lambda>j. (block_key d m j, if j = b then (fst (counters d m b) + 1, snd (counters d m b) + ucast sz)
      else counters d m j)) [1..<unat (filled_blocks d)] \<and>
    others d m' = (if b = 0 then (fst (counters d m b) + 1, snd (counters d m b) + ucast sz) else others d m)"
proof -
  have t: "table_inv d m" and g: "geometry d m" and k: "key_bytes d + 24 \<le> unat (block_size d)"
    using assms(1) by (simp_all add: counting_def table_inv_def)
  have f: "unat (filled_blocks d) \<le> unat (shared_memory_blocks d)" "0 < unat (shared_memory_blocks d)"
    using g by (simp_all add: geometry_def)
  have b: "b < unat (shared_memory_blocks d)" using assms(2) f by simp
  from count_effect [OF g b k assms(3), of sz] obtain m' where m': "count_packets block sz d m = Some m'" "same_table d m m'"
      "counters d m' b = (fst (counters d m b) + 1, snd (counters d m b) + ucast sz)"
      "\<And>b'. b' < unat (shared_memory_blocks d) \<Longrightarrow> b' \<noteq> b \<Longrightarrow> payload d m' b' = payload d m b'" by blast
  have z: "same_size m m'" using m'(2) by (simp add: same_table_def)
  have sp: "same_place d d" by (simp add: same_place_def)
  have c: "counters d m' j = (if j = b then (fst (counters d m b) + 1, snd (counters d m b) + ucast sz) else counters d m j)"
    if "j < unat (shared_memory_blocks d)" for j
    using m'(3) same_data_counters [OF sp z m'(4) [OF that]] by auto
  have "block_key d m' j = block_key d m j" if "0 < j" "j < unat (filled_blocks d)" for j
    using same_table_inv(4) [OF m'(2) t that, of "last_found d"] by simp
  then have "flows d m' = map (\<lambda>j. (block_key d m j, if j = b then (fst (counters d m b) + 1, snd (counters d m b) + ucast sz)
      else counters d m j)) [1..<unat (filled_blocks d)]"
    using c f by (auto simp: flows_def)
  moreover have "others d m' = (if b = 0 then (fst (counters d m b) + 1, snd (counters d m b) + ucast sz) else others d m)"
    using c [OF f(2)] by (auto simp: others_def)
  moreover have "counting d m'"
    using counting_same [OF assms(1) m'(2), of "last_found d"] m'(4) assms(2) by force
  ultimately show ?thesis using m'(1) z by blast
qed

section \<open>One packet\<close>

lemma unat_address:
  assumes "unat (mx_addr m) + length (mx_bytes m) < 4294967296" and "off m p \<le> length (mx_bytes m)"
  shows "unat p = unat (mx_addr m) + off m p"
proof -
  have "unat ((p - mx_addr m) + mx_addr m) = unat (p - mx_addr m) + unat (mx_addr m)"
    using assms by (intro unat_add_small) (simp add: off_def)
  then show ?thesis by (simp add: off_def)
qed

lemma account_known:
  assumes "0 < b" and "b < f"
  shows "account (k b) sz (map (\<lambda>j. (k j, c j)) [1..<f], x)
    (map (\<lambda>j. (k j, if j = b then (fst (c b) + 1, snd (c b) + ucast sz) else c j)) [1..<f], x)"
proof -
  have "[1..<f] = [1..<b] @ b # [Suc b..<f]"
    using upt_add_eq_append [of 1 b "f - b"] upt_conv_Cons [of b f] assms by simp
  moreover have "map (\<lambda>j. (k j, if j = b then v else c j)) [1..<b] = map (\<lambda>j. (k j, c j)) [1..<b]"
    "map (\<lambda>j. (k j, if j = b then v else c j)) [Suc b..<f] = map (\<lambda>j. (k j, c j)) [Suc b..<f]" for v
    by auto
  ultimately have "map (\<lambda>j. (k j, c j)) [1..<f]
      = map (\<lambda>j. (k j, c j)) [1..<b] @ (k b, fst (c b), snd (c b)) # map (\<lambda>j. (k j, c j)) [Suc b..<f]"
    "map (\<lambda>j. (k j, if j = b then v else c j)) [1..<f]
      = map (\<lambda>j. (k j, c j)) [1..<b] @ (k b, v) # map (\<lambda>j. (k j, c j)) [Suc b..<f]" for v
    by (simp_all del: One_nat_def)
  then show ?thesis by (simp only: account.known)
qed

lemma keys_flows: "set (keys d m) = fst ` set (flows d m)"
  by (force simp: keys_def flows_def)

text \<open>The entry that was found leads to the counting of its block.\<close>

lemma chosen_found:
  assumes "counting d m" and "placed d m" and "last_found d = Some (entry d i)" and "unat i < unat (lut_entries d)"
    and "holds d m i b"
  shows "chosen m d = Some (Some (Some Count_Packets, mx_addr m + rec_block d m (unat i)))"
    and "off m (mx_addr m + rec_block d m (unat i)) = block_off d m b"
proof -
  have g: "geometry d m" using assms(1) by (simp add: counting_def table_inv_def)
  have b: "b < unat (shared_memory_blocks d)" using assms(5) g by (simp add: holds_def geometry_def)
  show o: "off m (mx_addr m + rec_block d m (unat i)) = block_off d m b" using assms(5) by (simp add: off_inside holds_def)
  have a: "unat (mx_addr m) + length (mx_bytes m) < 4294967296" using assms(2) by (simp add: placed_def)
  note addr = unat_address [OF a]
  have le: "entry_off d m (unat i) + 8 \<le> block_off d m 0" "block_off d m 0 \<le> length (mx_bytes m)"
    using geometry_bounds(1,4) [OF g] assms(4) by simp_all
  have bounds: "block_off d m b + unat (block_size d) \<le> length (mx_bytes m)" "block_off d m 0 \<le> block_off d m b"
    "block_off d m b < block_off d m (unat (shared_memory_blocks d))" "block_off d m (unat (shared_memory_blocks d)) \<le> length (mx_bytes m)"
  proof -
    have "0 < unat (block_size d)" "block_off d m (unat (shared_memory_blocks d)) \<le> length (mx_bytes m)"
      using g by (simp_all add: geometry_def)
    then show "block_off d m b < block_off d m (unat (shared_memory_blocks d))"
      and "block_off d m (unat (shared_memory_blocks d)) \<le> length (mx_bytes m)"
      using block_off_less [OF b, of d m] by simp_all
    show "block_off d m b + unat (block_size d) \<le> length (mx_bytes m)" by (rule geometry_bounds(2) [OF g b])
    show "block_off d m 0 \<le> block_off d m b" by (simp add: block_off_def)
  qed
  have pe: "unat (entry d i) = unat (mx_addr m) + entry_off d m (unat i)"
    using addr [of "entry d i"] off_entry(1) [OF g assms(4)] le by simp
  have pl: "unat (lut_base_address d) = unat (mx_addr m) + entry_off d m 0"
    using addr [of "lut_base_address d"] le by (simp add: entry_off_def)
  have ps: "unat (shared_memory_base_address d) = unat (mx_addr m) + block_off d m 0"
    using addr [of "shared_memory_base_address d"] le by (simp add: block_off_def)
  have px: "unat (extra_segment_base_address d) = unat (mx_addr m) + block_off d m (unat (shared_memory_blocks d))"
    using addr [of "extra_segment_base_address d"] assms(2) bounds(4) by (simp add: placed_def)
  have pb: "unat (mx_addr m + rec_block d m (unat i)) = unat (mx_addr m) + block_off d m b"
    using addr [of "mx_addr m + rec_block d m (unat i)"] o bounds(1) by simp
  have r: "SW_ULONG_AT m (entry d i) = Some (rec_block d m (unat i))" by (rule read_entry(1) [OF g assms(4)])
  have "SW_ULONG_AT m (entry d i + 4) = Some (rec_exec d m (unat i))"
    using off_entry(2) [OF g assms(4)] le by (simp add: SW_ULONG_AT_def mx_read_off slice_chunk rec_exec_def)
  moreover have "rec_exec d m (unat i) = 0"
    using assms(1,4) holds_not_zero [OF g assms(5)] by (simp add: counting_def)
  ultimately have e: "SW_ULONG_AT m (entry d i + 4) = Some 0" by simp
  have "\<not> (entry d i < lut_base_address d \<or> entry d i \<ge> shared_memory_base_address d)"
    using pe pl ps le by (simp add: word_less_nat_alt word_le_nat_alt entry_off_def)
  moreover have "\<not> (mx_addr m + rec_block d m (unat i) < shared_memory_base_address d \<or>
      mx_addr m + rec_block d m (unat i) \<ge> extra_segment_base_address d)"
    using pb ps px bounds by (simp add: word_less_nat_alt word_le_nat_alt)
  ultimately show "chosen m d = Some (Some (Some Count_Packets, mx_addr m + rec_block d m (unat i)))"
    using assms(3) e r by (simp add: chosen_def exec_fcn_mapper_def add.commute Let_def)
qed

text \<open>A new entry of a table that counts.\<close>

lemma counting_extended:
  assumes "counting d m" and "extended d m m' i k" and "same_payloads d m m'" and "table_inv (one_more d i) m'"
    and "unat (filled_blocks d) < unat (shared_memory_blocks d)" and "unat i < unat (lut_entries d)"
  shows "counting (one_more d i) m'"
    and "flows (one_more d i) m' = flows d m @ [(k, counters d m (unat (filled_blocks d)))]"
    and "\<And>b. b < unat (shared_memory_blocks d) \<Longrightarrow> counters (one_more d i) m' b = counters d m b"
proof -
  let ?d = "one_more d i" let ?f = "unat (filled_blocks d)"
  have z: "same_size m m'" using assms(2) by (simp add: extended_def)
  have p: "same_place d ?d" by (simp add: same_place_def one_more_def)
  note o = same_offsets [OF p z]
  have "same_place d d" by (simp add: same_place_def)
  note o' = same_offsets [OF this z]
  have fb: "unat (filled_blocks ?d) = Suc ?f" using assms(5) unat_lt [of "shared_memory_blocks d"]
    by (simp add: one_more_def unat_add_small)
  show c: "counters ?d m' b = counters d m b" if "b < unat (shared_memory_blocks d)" for b
    using same_data_counters [OF p z] assms(3) that by (simp add: same_payloads_def)
  have rb: "rec_block ?d m' j = rec_block d m' j" "rec_exec ?d m' j = rec_exec d m' j" for j
    using o(1) o'(1) by (simp_all add: rec_block_def rec_exec_def)
  have "rec_exec ?d m' j = 0" if "j < unat (lut_entries ?d)" "rec_block ?d m' j \<noteq> 0" for j
    using assms(1,2) that rb by (cases "j = unat i") (auto simp: extended_def counting_def one_more_def)
  then show "counting ?d m'"
    using assms(1,4) c fb by (simp add: counting_def one_more_def)
  have kl: "key_len ?d = key_len d" by (simp add: one_more_def)
  have bk: "block_key ?d m' b = block_key d m' b" for b using o(2) o'(2) kl by (simp add: block_key_def)
  have "flows ?d m' = map (\<lambda>b. (block_key ?d m' b, counters ?d m' b)) ([1..<?f] @ [?f])"
  proof -
    have "0 < ?f" using assms(1) by (simp add: counting_def table_inv_def geometry_def)
    then show ?thesis using fb by (simp add: flows_def)
  qed
  then show "flows ?d m' = flows d m @ [(k, counters d m ?f)]"
    using assms(2,5) c bk by (simp add: flows_def extended_def)
qed

text \<open>The state after a lookup, and the block the packet is counted in.\<close>

definition after_lookup :: "tme_core \<Rightarrow> tme_data \<Rightarrow> tme_core" where
  "after_lookup tme d = tme\<lparr>block_data := (block_data tme)[unat (active tme) := d]\<rparr>"

lemma after_lookup_simps:
  assumes "unat (active tme) < length (block_data tme)"
  shows "active_data (after_lookup tme d) = d" and "active (after_lookup tme d) = active tme"
    and "length (block_data (after_lookup tme d)) = length (block_data tme)"
  using assms by (simp_all add: after_lookup_def active_data_def)

lemma frontend_lookup:
  assumes "core_inv m tme" and "normal_lut True (koff + mx_addr m) (active_data tme) m now = Some (Some (r, d', m'))"
  shows "lookup_frontend m tme koff now = Some (Some (r, m', after_lookup tme d'))"
  using assms by (simp add: core_inv_def placed_def lookup_frontend_def normal_lut_w_insert_def active_data_def after_lookup_def Let_def)

lemma frontend_count:
  assumes "active tme \<noteq> TME_NONE_ACTIVE" and "unat (active tme) < length (block_data tme)"
    and "chosen m (active_data tme) = Some (Some (Some Count_Packets, block))" and "offset < mx_size m"
    and "count_packets block sz (active_data tme) m = Some m'"
  shows "execute_frontend m tme sz offset = Some (TME_SUCCESS, m')"
  using assms by (simp add: execute_frontend_def active_data_def Let_def)

lemma core_after:
  assumes "core_inv m tme" and "counting d' m'" and "placed d' m'"
  shows "core_inv m' (after_lookup tme d')"
  using assms after_lookup_simps [of tme d'] by (simp add: core_inv_def)

text \<open>What a lookup and an execution do to the flows is what the specification allows.\<close>

lemma flow_step:
  assumes "core_inv m tme" and "key_ok (active_data tme) m (koff + mx_addr m)" and "offset < mx_size m"
  shows "\<exists>r m1 tme1 m2. lookup_frontend m tme koff now = Some (Some (r, m1, tme1)) \<and> r \<noteq> TME_ERROR \<and>
    execute_frontend m1 tme1 sz offset = Some (TME_SUCCESS, m2) \<and> core_inv m2 tme1 \<and> same_size m m2 \<and>
    same_place (active_data tme) (active_data tme1) \<and>
    account (key_at (active_data tme) m (koff + mx_addr m)) sz (flows (active_data tme) m, others (active_data tme) m)
      (flows (active_data tme1) m2, others (active_data tme1) m2)"
proof -
  let ?d = "active_data tme" let ?key = "koff + mx_addr m" let ?k = "key_at ?d m ?key"
  have a: "active tme \<noteq> TME_NONE_ACTIVE" "unat (active tme) < length (block_data tme)" "counting ?d m" "placed ?d m"
    and t: "table_inv ?d m"
    using assms(1) by (simp_all add: core_inv_def counting_def)
  have g: "geometry ?d m" by (rule table_geometry [OF t])
  have run: ?thesis
    if l: "normal_lut True ?key ?d m now = Some (Some (r, d', m1))" and nz: "r \<noteq> TME_ERROR" and z: "same_size m m1"
      and p: "counting d' m1" "placed d' m1" "same_place ?d d'" and c: "chosen m1 d' = Some (Some (Some Count_Packets, block))"
      and b: "off m1 block = block_off d' m1 b" "b < unat (filled_blocks d')"
      and spec: "\<And>m2. flows d' m2 = map (\<lambda>j. (block_key d' m1 j, if j = b then (fst (counters d' m1 b) + 1, snd (counters d' m1 b) + ucast sz)
          else counters d' m1 j)) [1..<unat (filled_blocks d')] \<Longrightarrow>
        others d' m2 = (if b = 0 then (fst (counters d' m1 b) + 1, snd (counters d' m1 b) + ucast sz) else others d' m1) \<Longrightarrow>
        account ?k sz (flows ?d m, others ?d m) (flows d' m2, others d' m2)"
    for r d' m1 block b
  proof -
    obtain m2 where m2: "count_packets block sz d' m1 = Some m2" "counting d' m2" "same_size m1 m2"
        "flows d' m2 = map (\<lambda>j. (block_key d' m1 j, if j = b then (fst (counters d' m1 b) + 1, snd (counters d' m1 b) + ucast sz)
          else counters d' m1 j)) [1..<unat (filled_blocks d')]"
        "others d' m2 = (if b = 0 then (fst (counters d' m1 b) + 1, snd (counters d' m1 b) + ucast sz) else others d' m1)"
      using count_flows [OF p(1) b(2,1), of sz] by blast
    have "placed d' m2" by (rule placed_same [OF p(2) m2(3)]) (simp_all add: same_place_def)
    then have "core_inv m2 (after_lookup tme d')" by (rule core_after [OF assms(1) m2(2)])
    moreover have "execute_frontend m1 (after_lookup tme d') sz offset = Some (TME_SUCCESS, m2)"
      using frontend_count [of "after_lookup tme d'" m1 block offset sz m2] after_lookup_simps [OF a(2), of d'] a(1,2) c
        assms(3) z m2(1) by (simp add: same_size_def)
    moreover have "same_size m m2" using z m2(3) by (simp add: same_size_def)
    ultimately show ?thesis
      using frontend_lookup [OF assms(1) l] spec [OF m2(4,5)] p(3) nz after_lookup_simps(1) [OF a(2), of d'] by auto
  qed
  from t assms(2) show ?thesis
  proof (rule insert_cases [where now = now])
    fix i b m1
    let ?d' = "?d\<lparr>last_found := Some (entry ?d i)\<rparr>"
    assume h: "normal_lut True ?key ?d m now = Some (Some (TME_TRUE, ?d', m1))" "same_table ?d m m1" "same_payloads ?d m m1"
      "holds ?d m i b" "block_key ?d m b = ?k" "unat i < unat (lut_entries ?d)"
    note inv = same_table_inv [OF h(2) t, where x = "Some (entry ?d i)"]
    have z: "same_size m m1" using h(2) by (simp add: same_table_def)
    have b: "0 < b" "b < unat (filled_blocks ?d)" using h(4) by (simp_all add: holds_def)
    have nb: "unat (filled_blocks ?d) \<le> unat (shared_memory_blocks ?d)" using g by (simp add: geometry_def)
    have c: "counting ?d' m1"
      by (rule counting_same [OF a(3) h(2)]) (use h(3) in \<open>simp add: same_payloads_def\<close>)
    have pl: "placed ?d' m1" by (rule placed_same [OF a(4) z same_place_found]) simp_all
    have sp: "same_place ?d ?d'" by (rule same_place_found)
    have hb: "holds ?d' m1 i b" using inv(3) [OF g h(6)] h(4) by simp
    have lf: "last_found ?d' = Some (entry ?d' i)" by (simp add: entry_def)
    note ch = chosen_found [OF c pl lf _ hb]
    have cs: "counters ?d' m1 j = counters ?d m j" if "j < unat (shared_memory_blocks ?d)" for j
      using same_data_counters [OF same_place_found z] h(3) that by (simp add: same_payloads_def)
    have ks: "block_key ?d' m1 j = block_key ?d m j" if "0 < j" "j < unat (filled_blocks ?d)" for j
      using inv(4) [OF that] .
    show ?thesis
    proof (rule run [OF h(1) _ z c pl sp ch])
      show "b < unat (filled_blocks ?d')" using b by simp
      fix m2
      assume f: "flows ?d' m2 = map (\<lambda>j. (block_key ?d' m1 j, if j = b then (fst (counters ?d' m1 b) + 1, snd (counters ?d' m1 b) + ucast sz)
          else counters ?d' m1 j)) [1..<unat (filled_blocks ?d')]"
        and x: "others ?d' m2 = (if b = 0 then (fst (counters ?d' m1 b) + 1, snd (counters ?d' m1 b) + ucast sz) else others ?d' m1)"
      have f2: "flows ?d' m2 = map (\<lambda>j. (block_key ?d m j, if j = b then (fst (counters ?d m b) + 1, snd (counters ?d m b) + ucast sz)
          else counters ?d m j)) [1..<unat (filled_blocks ?d)]"
        unfolding f using cs ks b nb by auto
      have x2: "others ?d' m2 = others ?d m" using x b(1) cs [of 0] b(2) nb by (simp add: others_def)
      show "account ?k sz (flows ?d m, others ?d m) (flows ?d' m2, others ?d' m2)"
        using account_known [OF b, of "block_key ?d m" sz "counters ?d m" "others ?d m"]
        unfolding f2 x2 flows_def [of ?d m] h(5) .
    qed (use h(6) in simp_all)
  next
    fix i u m1
    let ?d' = "one_more ?d i" let ?b = "unat (filled_blocks ?d)"
    assume h: "normal_lut True ?key ?d m now = Some (Some (TME_TRUE, ?d', m1))" "extended ?d m m1 i ?k" "same_payloads ?d m m1"
      "?b < unat (shared_memory_blocks ?d)" "?k \<notin> set (keys ?d m)" "u \<le> unat (filled_entries ?d)" "passes ?d m ?k u"
      "rec_block ?d m (unat (spot ?d ?k u)) = 0" "i = spot ?d ?k u"
    note ext = extended_inv [OF t h(2,4,6-9)]
    have ib: "unat i < unat (lut_entries ?d)" using spot_bound [OF g] h(9) by simp
    note cnt = counting_extended [OF a(3) h(2,3) ext(1) h(4) ib]
    have z: "same_size m m1" using h(2) by (simp add: extended_def)
    have pl: "placed ?d' m1" by (rule placed_same [OF a(4) z]) (simp_all add: same_place_def one_more_def)
    have sp: "same_place ?d ?d'" by (simp add: same_place_def one_more_def)
    have lf: "last_found ?d' = Some (entry ?d' i)" by (simp add: one_more_def entry_def)
    have ib': "unat i < unat (lut_entries ?d')" using ib by (simp add: one_more_def)
    note ch = chosen_found [OF cnt(1) pl lf ib' ext(3)]
    have fb: "unat (filled_blocks ?d') = Suc ?b" using h(4) unat_lt [of "shared_memory_blocks ?d"]
      by (simp add: one_more_def unat_add_small)
    have pos: "0 < ?b" using g by (simp add: geometry_def)
    have zero: "counters ?d' m1 ?b = (0, 0)" using cnt(3) [OF h(4)] a(3) h(4) by (simp add: counting_def)
    show ?thesis
    proof (rule run [OF h(1) _ z cnt(1) pl sp ch])
      show "?b < unat (filled_blocks ?d')" using fb by simp
      fix m2
      assume f: "flows ?d' m2 = map (\<lambda>j. (block_key ?d' m1 j, if j = ?b then (fst (counters ?d' m1 ?b) + 1, snd (counters ?d' m1 ?b) + ucast sz)
          else counters ?d' m1 j)) [1..<unat (filled_blocks ?d')]"
        and x: "others ?d' m2 = (if ?b = 0 then (fst (counters ?d' m1 ?b) + 1, snd (counters ?d' m1 ?b) + ucast sz) else others ?d' m1)"
      have l: "map (\<lambda>j. (block_key ?d' m1 j, counters ?d' m1 j)) [1..<?b] = flows ?d m"
        using cnt(2) fb pos by (simp add: flows_def)
      have "flows ?d' m2 = map (\<lambda>j. (block_key ?d' m1 j, counters ?d' m1 j)) [1..<?b] @ [(?k, 1, ucast sz)]"
        unfolding f fb using zero ext(4) pos by simp
      moreover have "others ?d' m2 = others ?d m" using x pos cnt(3) [of 0] h(4) by (simp add: others_def)
      ultimately show "account ?k sz (flows ?d m, others ?d m) (flows ?d' m2, others ?d' m2)"
        using l h(5) by (simp add: account.new keys_flows)
    qed simp
  next
    fix m1
    let ?d' = "?d\<lparr>last_found := None\<rparr>"
    assume h: "normal_lut True ?key ?d m now = Some (Some (TME_FALSE, ?d', m1))" "same_table ?d m m1" "same_payloads ?d m m1"
      "?k \<notin> set (keys ?d m)"
    note inv = same_table_inv [OF h(2) t, where x = None]
    have z: "same_size m m1" using h(2) by (simp add: same_table_def)
    have nb: "0 < unat (filled_blocks ?d)" "unat (filled_blocks ?d) \<le> unat (shared_memory_blocks ?d)" using g by (simp_all add: geometry_def)
    have c: "counting ?d' m1"
      by (rule counting_same [OF a(3) h(2)]) (use h(3) in \<open>simp add: same_payloads_def\<close>)
    have pl: "placed ?d' m1" by (rule placed_same [OF a(4) z same_place_found]) simp_all
    have sp: "same_place ?d ?d'" by (rule same_place_found)
    have ch: "chosen m1 ?d' = Some (Some (Some Count_Packets, shared_memory_base_address ?d'))"
      using a(4) by (simp add: chosen_def placed_def exec_fcn_mapper_def)
    have o: "off m1 (shared_memory_base_address ?d') = block_off ?d' m1 0" by (simp add: block_off_def)
    have cs: "counters ?d' m1 j = counters ?d m j" if "j < unat (shared_memory_blocks ?d)" for j
      using same_data_counters [OF same_place_found z] h(3) that by (simp add: same_payloads_def)
    have ks: "block_key ?d' m1 j = block_key ?d m j" if "0 < j" "j < unat (filled_blocks ?d)" for j
      using inv(4) [OF that] .
    show ?thesis
    proof (rule run [OF h(1) _ z c pl sp ch o])
      show "0 < unat (filled_blocks ?d')" using nb by simp
      fix m2
      assume f: "flows ?d' m2 = map (\<lambda>j. (block_key ?d' m1 j, if j = 0 then (fst (counters ?d' m1 0) + 1, snd (counters ?d' m1 0) + ucast sz)
          else counters ?d' m1 j)) [1..<unat (filled_blocks ?d')]"
        and x: "others ?d' m2 = (if (0::nat) = 0 then (fst (counters ?d' m1 0) + 1, snd (counters ?d' m1 0) + ucast sz) else others ?d' m1)"
      have "flows ?d' m2 = flows ?d m" unfolding f using cs ks nb by (auto simp: flows_def)
      moreover have "others ?d' m2 = (fst (others ?d m) + 1, snd (others ?d m) + ucast sz)"
        using x cs [of 0] nb by (simp add: others_def)
      ultimately show "account ?k sz (flows ?d m, others ?d m) (flows ?d' m2, others ?d' m2)"
        using account.refused [of ?k "flows ?d m" sz "fst (others ?d m)" "snd (others ?d m)"] h(4) by (simp add: keys_flows)
    qed simp
  qed
qed

end
