(* ===== verification/Tme_Engine.thy ===== *)
theory Tme_Engine
  imports Tme_Flows
begin

text \<open>
  The engine from the initialisation of a block to the counting of the packets: a block that has been
  validated starts with no flow, and every packet that is run through it is counted once. Also the block
  whose requirement of memory wraps around.
\<close>

section \<open>A block of zeroes\<close>

text \<open>What the requirement of memory says where it is not too large.\<close>

definition needed :: "tme_data \<Rightarrow> nat" where
  "needed d = unat (lut_entries d) * 8 + unat (block_size d) * unat (shared_memory_blocks d) + unat (extra_segment_size d)"

lemma required_needed:
  assumes "needed d < 4294967296"
  shows "unat (required_memory d) = needed d"
proof -
  have "required_memory d = of_nat (needed d)"
    by (simp add: required_memory_def needed_def)
  then show ?thesis using assms by (simp add: unat_of_nat take_bit_nat_eq_self)
qed

text \<open>A part of a block of zeroes that has been written.\<close>

lemma chunk_blit_zero:
  assumes "blit xs o' (replicate k 0) = Some ys" and "o' \<le> p" and "p + n \<le> o' + k"
  shows "chunk ys p n = replicate n 0"
proof -
  have "chunk ys p n = chunk (chunk ys o' k) (p - o') n"
    using assms(2,3) by (simp add: chunk_def drop_take min_def)
  also have "chunk ys o' k = replicate k 0" using chunk_blit_same [OF assms(1)] by simp
  finally show ?thesis using assms(2,3) by (simp add: chunk_def min_def)
qed

lemma zero_words: "le32_of (rev (replicate 4 0)) = 0" "word64_of (replicate 8 0) = 0"
  by (code_simp)+

text \<open>A table of zeroes is one without flows.\<close>

lemma zero_table:
  assumes "geometry d m" and "filled_blocks d = 1" and "filled_entries d = 0" and "\<not> enable_deletion d"
    and "key_bytes d + 24 \<le> unat (block_size d)" and "default_exec d = 0"
    and "\<And>p n. entry_off d m 0 \<le> p \<Longrightarrow> p + n \<le> block_off d m (unat (shared_memory_blocks d)) \<Longrightarrow> chunk (mx_bytes m) p n = replicate n 0"
  shows "counting d m" and "flows d m = []" and "others d m = (0, 0)"
proof -
  have rec0: "rec_block d m i = 0" "rec_exec d m i = 0" if "i < unat (lut_entries d)" for i
  proof -
    have "entry_off d m 0 \<le> entry_off d m i" "entry_off d m i + 8 \<le> block_off d m 0"
      "block_off d m 0 \<le> block_off d m (unat (shared_memory_blocks d))"
      using geometry_bounds(1) [OF assms(1) that] by (simp_all add: entry_off_def block_off_def)
    then have "chunk (mx_bytes m) (entry_off d m i) 4 = replicate 4 0" "chunk (mx_bytes m) (entry_off d m i + 4) 4 = replicate 4 0"
      by (simp_all add: assms(7))
    then show "rec_block d m i = 0" "rec_exec d m i = 0" using zero_words(1) by (simp_all add: rec_block_def rec_exec_def)
  qed
  have cnt0: "counters d m b = (0, 0)" if "b < unat (shared_memory_blocks d)" for b
  proof -
    have "entry_off d m 0 \<le> block_off d m b" "block_off d m b + unat (block_size d) \<le> block_off d m (unat (shared_memory_blocks d))"
    proof -
      have "0 < unat (lut_entries d)" "entry_off d m (unat (lut_entries d)) \<le> block_off d m 0"
        using assms(1) by (simp_all add: geometry_def)
      then show "entry_off d m 0 \<le> block_off d m b" by (simp add: entry_off_def block_off_def)
      show "block_off d m b + unat (block_size d) \<le> block_off d m (unat (shared_memory_blocks d))"
        using block_off_less [OF that, of d m] .
    qed
    then show ?thesis
      using payload_words [OF assms(5), of m b] assms(5,7) zero_words(2) by (simp add: counters_def)
  qed
  show "counting d m"
    using assms(1-6) rec0 cnt0 by (simp add: counting_def table_inv_def)
  show "flows d m = []" using assms(2) by (simp add: flows_def)
  show "others d m = (0, 0)" using cnt0 assms(1) by (simp add: others_def geometry_def)
qed

text \<open>A block that is validated with a requirement below 2^32, in front of the end of the extended memory,
  gets an empty table inside the memory: no flow and nothing counted, and the invariant of the engine holds.\<close>

lemma validated_block_ready:
  assumes "validate_tme_block m tme block offset = Some (TME_SUCCESS, m', tme')"
    and "d = block_data tme ! unat block" and "unat block < length (block_data tme)"
    and "mx_size m = of_nat (length (mx_bytes m))" and "unat (mx_addr m) + length (mx_bytes m) < 4294967296"
    and "offset \<le> mx_size m" and "needed d < 4294967296"
    and "lookup_code d = Some Normal_Lut_W_Insert" and "default_exec d = 0" and "out_lut_exec d = 0"
    and "filled_entries d = 0" and "\<not> enable_deletion d" and "4 * unat (key_len d) + 24 \<le> unat (block_size d)"
  shows "core_inv m' tme' \<and> flows (active_data tme') m' = [] \<and> others (active_data tme') m' = (0, 0)"
proof -
  let ?base = "offset + mx_addr m" let ?d = "place d ?base"
  from assms(1,2) have v: "offset \<noteq> 0" "\<not> unat block \<ge> MAX_TME_DATA_BLOCKS" "lut_entries d \<noteq> 0" "key_len d \<noteq> 0"
      "shared_memory_blocks d \<noteq> 0" "\<not> required_memory d > mx_size m - offset"
    and z: "ZERO_MEMORY m ?base (unat (required_memory d)) = Some m'"
    and t: "tme' = tme\<lparr>block_data := (block_data tme)[unat block := ?d], validated_blocks := VALIDATE (validated_blocks tme) block,
      active := block, working := block\<rparr>"
    by (auto simp: validate_tme_block_def Let_def split: if_splits bind_splits)
  have len: "unat (mx_size m) = length (mx_bytes m)" using assms(4,5) by (simp add: unat_of_nat take_bit_nat_eq_self)
  have r: "unat (required_memory d) = needed d" by (rule required_needed [OF assms(7)])
  have inside: "unat offset + needed d \<le> length (mx_bytes m)"
    using v(6) assms(6) len r by (simp add: not_less word_le_nat_alt unat_sub_small)
  obtain ys where ys: "blit (mx_bytes m) (off m ?base) (replicate (needed d) 0) = Some ys" "m' = m\<lparr>mx_bytes := ys\<rparr>"
    using z r by (auto simp: ZERO_MEMORY_def mx_write_off)
  have base: "off m' ?base = unat offset" "off m ?base = unat offset" using ys(2) by (simp_all add: off_def)
  have lys: "length ys = length (mx_bytes m)" using blit_length [OF ys(1)] .
  have o1: "off m' (?base + lut_entries d * 8) = unat offset + unat (lut_entries d) * 8"
    using off_add [of m' ?base "unat (lut_entries d) * 8"] base inside assms(5) by (simp add: needed_def)
  have o2: "off m' (?base + lut_entries d * 8 + block_size d * shared_memory_blocks d) =
      unat offset + unat (lut_entries d) * 8 + unat (block_size d) * unat (shared_memory_blocks d)"
    using off_add [of m' "?base + lut_entries d * 8" "unat (block_size d) * unat (shared_memory_blocks d)"] o1 inside assms(5)
    by (simp add: needed_def)
  have e: "entry_off ?d m' i = unat offset + 8 * i" for i using base by (simp add: entry_off_def place_def)
  have b: "block_off ?d m' i = unat offset + unat (lut_entries d) * 8 + unat (block_size d) * i" for i
    using o1 by (simp add: block_off_def place_def)
  have zero: "chunk ys p n = replicate n 0" if "unat offset \<le> p" "p + n \<le> unat offset + needed d" for p n
    using chunk_blit_zero [OF ys(1)] that base by simp
  have pos: "0 < unat (lut_entries d)" "0 < unat (key_len d)" "0 < unat (shared_memory_blocks d)"
    using v(3-5) by (simp_all add: unat_gt_0)
  have g: "geometry ?d m'"
    using pos e b inside lys ys(2) assms(5,13) by (simp add: geometry_def) (simp add: place_def needed_def)
  have end_off: "block_off ?d m' (unat (shared_memory_blocks ?d)) \<le> unat offset + needed d"
    using b by (simp add: needed_def) (simp add: place_def)
  have "counting ?d m' \<and> flows ?d m' = [] \<and> others ?d m' = (0, 0)"
    by (intro conjI; rule zero_table [OF g])
      (use assms(9,11-13) zero e ys(2) end_off in \<open>simp_all add: place_def\<close>)
  moreover have "placed ?d m'"
    using assms(5,8,10) o2 b lys ys(2) by (simp add: placed_def) (simp add: place_def)
  moreover have a: "active_data tme' = ?d" using t assms(3) by (simp add: active_data_def)
  moreover have "active tme' \<noteq> TME_NONE_ACTIVE" "unat (active tme') < length (block_data tme')"
    using t v(2) assms(3) by auto
  ultimately show ?thesis by (simp add: core_inv_def)
qed

section \<open>All packets\<close>

text \<open>A packet: the key the filter program stores for it at \<open>koff\<close>, its size and the time.\<close>

type_synonym keyed_packet = "u8 list \<times> u32 \<times> timeval"

definition engine_packet :: "u32 \<Rightarrow> u32 \<Rightarrow> keyed_packet \<Rightarrow> mem_type \<times> tme_core \<Rightarrow> (mem_type \<times> tme_core) option" where
  "engine_packet koff offset p s =
     (case (p, s) of ((kb, sz, now), (m, tme)) \<Rightarrow> do {
        m0 \<leftarrow> mx_write m (koff + mx_addr m) kb;
        l \<leftarrow> lookup_frontend m0 tme koff now;
        (r, m1, tme1) \<leftarrow> l;
        (c, m2) \<leftarrow> execute_frontend m1 tme1 sz offset;
        if r = TME_ERROR \<or> c = TME_ERROR then None else Some (m2, tme1) })"

fun engine_run :: "u32 \<Rightarrow> u32 \<Rightarrow> keyed_packet list \<Rightarrow> mem_type \<times> tme_core \<Rightarrow> (mem_type \<times> tme_core) option" where
  "engine_run koff offset [] s = Some s"
| "engine_run koff offset (p # ps) s = do { s' \<leftarrow> engine_packet koff offset p s; engine_run koff offset ps s' }"

inductive accounts_of :: "keyed_packet list \<Rightarrow> accounts \<Rightarrow> accounts \<Rightarrow> bool" where
  "accounts_of [] a a"
| "account kb sz a b \<Longrightarrow> accounts_of ps b c \<Longrightarrow> accounts_of ((kb, sz, now) # ps) a c"

text \<open>All that is counted, in flows or not.\<close>

definition packets_in :: "accounts \<Rightarrow> u64" where
  "packets_in a = sum_list (map (\<lambda>(k, n, w). n) (fst a)) + fst (snd a)"

definition bytes_in :: "accounts \<Rightarrow> u64" where
  "bytes_in a = sum_list (map (\<lambda>(k, n, w). w) (fst a)) + snd (snd a)"

lemma account_total:
  "account k sz a b \<Longrightarrow> packets_in b = packets_in a + 1 \<and> bytes_in b = bytes_in a + ucast sz"
  by (induction rule: account.induct) (simp_all add: packets_in_def bytes_in_def)

lemma account_distinct: "account k sz a b \<Longrightarrow> distinct (map fst (fst a)) \<Longrightarrow> distinct (map fst (fst b))"
  by (induction rule: account.induct) auto

lemma accounts_total:
  "accounts_of ps a b \<Longrightarrow> packets_in b = packets_in a + of_nat (length ps) \<and>
    bytes_in b = bytes_in a + sum_list (map (\<lambda>(kb, sz, now). ucast sz) ps)"
  by (induction rule: accounts_of.induct) (auto dest: account_total simp: algebra_simps)

lemma accounts_distinct: "accounts_of ps a b \<Longrightarrow> distinct (map fst (fst a)) \<Longrightarrow> distinct (map fst (fst b))"
  by (induction rule: accounts_of.induct) (auto dest: account_distinct)

text \<open>A store in front of the table.\<close>

definition key_area :: "tme_data \<Rightarrow> mem_type \<Rightarrow> u32 \<Rightarrow> bool" where
  "key_area d m koff \<longleftrightarrow> unat koff + key_bytes d \<le> entry_off d m 0"

lemma store_key:
  assumes "core_inv m tme" and "key_area (active_data tme) m koff" and "length kb = key_bytes (active_data tme)"
  shows "\<exists>m0. mx_write m (koff + mx_addr m) kb = Some m0 \<and> core_inv m0 tme \<and> same_size m m0 \<and>
    key_ok (active_data tme) m0 (koff + mx_addr m0) \<and> key_at (active_data tme) m0 (koff + mx_addr m0) = kb \<and>
    flows (active_data tme) m0 = flows (active_data tme) m \<and> others (active_data tme) m0 = others (active_data tme) m"
proof -
  let ?d = "active_data tme"
  have c: "counting ?d m" "placed ?d m" and g: "geometry ?d m"
    using assms(1) by (simp_all add: core_inv_def counting_def table_inv_def)
  have o: "off m (koff + mx_addr m) = unat koff" by (simp add: off_def)
  have lim: "unat koff + length kb \<le> entry_off ?d m 0" "entry_off ?d m 0 \<le> block_off ?d m 0" "block_off ?d m 0 \<le> length (mx_bytes m)"
    using assms(2,3) g geometry_bounds(4) [OF g] by (simp_all add: key_area_def geometry_def entry_off_def)
  then obtain ys where ys: "blit (mx_bytes m) (unat koff) kb = Some ys" by (meson blit_defined le_trans)
  let ?m = "m\<lparr>mx_bytes := ys\<rparr>"
  have ly: "length ys = length (mx_bytes m)" by (rule blit_length [OF ys])
  have z: "same_size m ?m" using ly by (simp add: same_size_def)
  have sp: "same_place ?d ?d" by (simp add: same_place_def)
  note so = same_offsets [OF sp z]
  have other: "chunk ys p n = chunk (mx_bytes m) p n" if "entry_off ?d m 0 \<le> p" "p + n \<le> length (mx_bytes m)" for p n
    using chunk_blit_other [OF ys] that lim by simp
  have eb: "chunk ys (entry_off ?d m i) 8 = chunk (mx_bytes m) (entry_off ?d m i) 8" if "i < unat (lut_entries ?d)" for i
    using other [of "entry_off ?d m i" 8] geometry_bounds(1) [OF g that] lim by (simp add: entry_off_def)
  have low: "entry_off ?d m 0 \<le> block_off ?d m b" for b using lim(2) by (simp add: block_off_def)
  have bb: "chunk ys (block_off ?d m b) (key_bytes ?d) = block_key ?d m b" "payload ?d ?m b = payload ?d m b"
    if "b < unat (shared_memory_blocks ?d)" for b
  proof -
    have l: "block_off ?d m b + unat (block_size ?d) \<le> length (mx_bytes m)" "key_bytes ?d + 8 \<le> unat (block_size ?d)"
      using geometry_bounds(2) [OF g that] g by (simp_all add: geometry_def)
    show "chunk ys (block_off ?d m b) (key_bytes ?d) = block_key ?d m b"
      using other [of "block_off ?d m b" "key_bytes ?d"] low [of b] l by (simp add: block_key_def)
    show "payload ?d ?m b = payload ?d m b"
      using other [of "block_off ?d m b + key_bytes ?d + 8" "unat (block_size ?d) - key_bytes ?d - 8"] low [of b] l so(2)
      by (simp add: payload_def)
  qed
  have fb: "unat (filled_blocks ?d) \<le> unat (shared_memory_blocks ?d)" "0 < unat (shared_memory_blocks ?d)"
    using g by (simp_all add: geometry_def)
  have st: "same_table ?d m ?m" using z eb bb(1) fb by (simp add: same_table_def)
  have "counting (?d\<lparr>last_found := last_found ?d\<rparr>) ?m" by (rule counting_same [OF c(1) st bb(2)])
  moreover have "placed ?d ?m" by (rule placed_same [OF c(2) z sp]) simp_all
  ultimately have "core_inv ?m tme" using assms(1) by (simp add: core_inv_def)
  moreover have "mx_write m (koff + mx_addr m) kb = Some ?m" using ys o by (simp add: mx_write_off)
  moreover have "key_ok ?d ?m (koff + mx_addr ?m)" using assms(2) o so(6) by (simp add: key_ok_def key_area_def entry_off_def)
  moreover have "key_at ?d ?m (koff + mx_addr ?m) = kb" using chunk_blit_same [OF ys] o assms(3) by (simp add: key_at_def)
  moreover have cs: "counters ?d ?m b = counters ?d m b" if "b < unat (shared_memory_blocks ?d)" for b
    by (rule same_data_counters [OF sp z bb(2) [OF that]])
  moreover have "block_key ?d ?m b = block_key ?d m b" if "b < unat (shared_memory_blocks ?d)" for b
    using bb(1) [OF that] so(2) by (simp add: block_key_def)
  then have "flows ?d ?m = flows ?d m" using cs fb by (auto simp: flows_def)
  moreover have "others ?d ?m = others ?d m" using cs fb by (simp add: others_def)
  ultimately show ?thesis using z by blast
qed

lemma packet_step:
  assumes "core_inv m tme" and "key_area (active_data tme) m koff" and "length kb = key_bytes (active_data tme)"
    and "offset < mx_size m"
  shows "\<exists>m' tme'. engine_packet koff offset (kb, sz, now) (m, tme) = Some (m', tme') \<and> core_inv m' tme' \<and>
    key_area (active_data tme') m' koff \<and> same_place (active_data tme) (active_data tme') \<and> mx_size m' = mx_size m \<and>
    account kb sz (flows (active_data tme) m, others (active_data tme) m) (flows (active_data tme') m', others (active_data tme') m')"
proof -
  obtain m0 where m0: "mx_write m (koff + mx_addr m) kb = Some m0" "core_inv m0 tme" "same_size m m0"
      "key_ok (active_data tme) m0 (koff + mx_addr m0)" "key_at (active_data tme) m0 (koff + mx_addr m0) = kb"
      "flows (active_data tme) m0 = flows (active_data tme) m" "others (active_data tme) m0 = others (active_data tme) m"
    using store_key [OF assms(1-3)] by blast
  have "offset < mx_size m0" using assms(4) m0(3) by (simp add: same_size_def)
  from flow_step [OF m0(2,4) this, of now sz] obtain r m1 tme1 m2 where
    s: "lookup_frontend m0 tme koff now = Some (Some (r, m1, tme1))" "r \<noteq> TME_ERROR" "execute_frontend m1 tme1 sz offset = Some (TME_SUCCESS, m2)"
      "core_inv m2 tme1" "same_size m0 m2" "same_place (active_data tme) (active_data tme1)"
      "account (key_at (active_data tme) m0 (koff + mx_addr m0)) sz (flows (active_data tme) m0, others (active_data tme) m0)
        (flows (active_data tme1) m2, others (active_data tme1) m2)" by blast
  have z: "same_size m m2" using m0(3) s(5) by (simp add: same_size_def)
  have kb: "key_bytes (active_data tme1) = key_bytes (active_data tme)" using s(6) by (simp add: same_place_def)
  have "key_area (active_data tme1) m2 koff"
    using assms(2) kb same_offsets(1) [OF s(6) z] by (simp add: key_area_def)
  moreover have "engine_packet koff offset (kb, sz, now) (m, tme) = Some (m2, tme1)"
    using m0(1) s(1-3) by (simp add: engine_packet_def)
  ultimately show ?thesis using s(4,6,7) m0(5-7) z by (auto simp: same_size_def)
qed

lemma same_place_trans: "same_place d d' \<Longrightarrow> same_place d' d'' \<Longrightarrow> same_place d d''"
  by (simp add: same_place_def)

lemma engine_accounts:
  assumes "core_inv m tme" and "key_area (active_data tme) m koff" and "offset < mx_size m"
    and "\<forall>p \<in> set ps. length (fst p) = key_bytes (active_data tme)"
  shows "\<exists>m' tme'. engine_run koff offset ps (m, tme) = Some (m', tme') \<and> core_inv m' tme' \<and>
    same_place (active_data tme) (active_data tme') \<and>
    accounts_of ps (flows (active_data tme) m, others (active_data tme) m) (flows (active_data tme') m', others (active_data tme') m')"
  using assms
proof (induction ps arbitrary: m tme)
  case (Cons p ps)
  obtain kb sz now where p: "p = (kb, sz, now)" by (cases p)
  have "length kb = key_bytes (active_data tme)" using Cons.prems(4) p by simp
  from packet_step [OF Cons.prems(1,2) this Cons.prems(3), of sz now] obtain m1 tme1 where
    s: "engine_packet koff offset p (m, tme) = Some (m1, tme1)" "core_inv m1 tme1" "key_area (active_data tme1) m1 koff"
      "same_place (active_data tme) (active_data tme1)" "mx_size m1 = mx_size m"
      "account kb sz (flows (active_data tme) m, others (active_data tme) m) (flows (active_data tme1) m1, others (active_data tme1) m1)"
    using p by blast
  have "key_bytes (active_data tme1) = key_bytes (active_data tme)" using s(4) by (simp add: same_place_def)
  with Cons.IH [OF s(2,3)] s(5) Cons.prems(3,4) obtain m' tme' where
    r: "engine_run koff offset ps (m1, tme1) = Some (m', tme')" "core_inv m' tme'" "same_place (active_data tme1) (active_data tme')"
      "accounts_of ps (flows (active_data tme1) m1, others (active_data tme1) m1) (flows (active_data tme') m', others (active_data tme') m')"
    by auto
  then show ?case using s(1,6) p accounts_of.intros(2) same_place_trans [OF s(4) r(3)] by fastforce
qed (auto intro: accounts_of.intros simp: same_place_def)

text \<open>C27: From a table without flows, the engine runs through any packets without leaving the extended memory, and
  each is counted once, for the flow of its key or for none: the flows have different keys, every step is one
  the specification allows, and all counters together give the number of the packets and of their bytes.\<close>

theorem engine_counts_packets:
  assumes "core_inv m tme" and "flows (active_data tme) m = []" and "others (active_data tme) m = (0, 0)"
    and "key_area (active_data tme) m koff" and "offset < mx_size m"
    and "\<forall>p \<in> set ps. length (fst p) = 4 * unat (key_len (active_data tme))"
  shows "\<exists>m' tme' fl x. engine_run koff offset ps (m, tme) = Some (m', tme') \<and> core_inv m' tme' \<and>
    flows (active_data tme') m' = fl \<and> others (active_data tme') m' = x \<and>
    accounts_of ps ([], 0, 0) (fl, x) \<and> distinct (map fst fl) \<and>
    packets_in (fl, x) = of_nat (length ps) \<and> bytes_in (fl, x) = sum_list (map (\<lambda>(kb, sz, now). ucast sz) ps)"
proof -
  obtain m' tme' where r: "engine_run koff offset ps (m, tme) = Some (m', tme')" "core_inv m' tme'"
    "accounts_of ps ([], 0, 0) (flows (active_data tme') m', others (active_data tme') m')"
    using engine_accounts [OF assms(1,4,5,6)] assms(2,3) by auto
  moreover have "packets_in ([], 0, 0) = 0" "bytes_in ([], 0, 0) = 0" by (simp_all add: packets_in_def bytes_in_def)
  ultimately show ?thesis using accounts_total [OF r(3)] accounts_distinct [OF r(3)] by simp
qed

text \<open>The registers of the core that a run leaves alone.\<close>

definition same_core :: "tme_core \<Rightarrow> tme_core \<Rightarrow> bool" where
  "same_core tme tme' \<longleftrightarrow> active tme' = active tme \<and> active_read tme' = active_read tme \<and>
     validated_blocks tme' = validated_blocks tme"

lemma lookup_core: "lookup_frontend m tme koff now = Some (Some (r, m', tme')) \<Longrightarrow> same_core tme tme'"
  by (auto simp: lookup_frontend_def same_core_def Let_def split: if_splits option.splits lut_fcn.splits)

lemma engine_packet_core: "engine_packet koff offset p (m, tme) = Some (m', tme') \<Longrightarrow> same_core tme tme'"
  by (auto simp: engine_packet_def split: bind_splits prod.splits if_splits dest: lookup_core)

lemma engine_run_core: "engine_run koff offset ps (m, tme) = Some (m', tme') \<Longrightarrow> same_core tme tme'"
proof (induction ps arbitrary: m tme)
  case (Cons p ps)
  then obtain m1 tme1 where "engine_packet koff offset p (m, tme) = Some (m1, tme1)"
      "engine_run koff offset ps (m1, tme1) = Some (m', tme')"
    by (auto split: bind_splits)
  then show ?case using engine_packet_core Cons.IH by (fastforce simp: same_core_def)
qed (simp add: same_core_def)

section \<open>A small table\<close>

text \<open>Two entries and three blocks in 128 bytes, at address 0x1000.\<close>

definition small_mem :: mem_type where
  "small_mem = \<lparr>mx_addr = 0x1000, mx_bytes = replicate 128 0, mx_size = 128\<rparr>"

definition small_data :: tme_data where
  "small_data = zero_data\<lparr>lut_entries := 2, rehashing_value := 1, key_len := 1, shared_memory_blocks := 3, block_size := 32,
     lookup_code := Some Normal_Lut_W_Insert\<rparr>"

definition small_core :: tme_core where
  "small_core = \<lparr>working = 0, active = 0, validated_blocks = 1,
     block_data = [place small_data 0x1010, zero_data, zero_data, zero_data], active_read = 0\<rparr>"

lemmas small = small_mem_def small_data_def place_def zero_data_def entry_off_def block_off_def off_def

lemma small_table:
  shows "counting (place small_data 0x1010) small_mem" and "flows (place small_data 0x1010) small_mem = []"
    and "others (place small_data 0x1010) small_mem = (0, 0)"
proof -
  have g: "geometry (place small_data 0x1010) small_mem" by (simp add: geometry_def small)
  have k: "key_bytes (place small_data 0x1010) + 24 \<le> unat (block_size (place small_data 0x1010))" by (simp add: small)
  have e: "block_off (place small_data 0x1010) small_mem (unat (shared_memory_blocks (place small_data 0x1010))) = 128" by (simp add: small)
  have z: "chunk (mx_bytes small_mem) p n = replicate n 0"
    if "entry_off (place small_data 0x1010) small_mem 0 \<le> p"
      "p + n \<le> block_off (place small_data 0x1010) small_mem (unat (shared_memory_blocks (place small_data 0x1010)))" for p n
    using that(2) unfolding e by (simp add: small_mem_def chunk_def min_def)
  have f: "filled_blocks (place small_data 0x1010) = 1" "filled_entries (place small_data 0x1010) = 0"
    "\<not> enable_deletion (place small_data 0x1010)" "default_exec (place small_data 0x1010) = 0"
    by (simp_all add: place_def small_data_def zero_data_def)
  note t = zero_table [OF g f(1-3) k f(4) z]
  show "counting (place small_data 0x1010) small_mem" "flows (place small_data 0x1010) small_mem = []"
    "others (place small_data 0x1010) small_mem = (0, 0)" using t by blast+
qed

lemma small_inv: "core_inv small_mem small_core" "active_data small_core = place small_data 0x1010"
proof -
  show a: "active_data small_core = place small_data 0x1010" by (simp add: active_data_def small_core_def)
  have "placed (place small_data 0x1010) small_mem" by (simp add: placed_def small)
  then show "core_inv small_mem small_core" using small_table(1) a by (simp add: core_inv_def) (simp add: small_core_def)
qed

lemma small_fields [simp]:
  "lut_entries small_data = 2" "key_len small_data = 1" "shared_memory_blocks small_data = 3" "block_size small_data = 32"
  "lookup_code small_data = Some Normal_Lut_W_Insert" "out_lut_exec small_data = 0" "default_exec small_data = 0"
  "filled_entries small_data = 0" "extra_segment_size small_data = 0" "enable_deletion small_data = False"
  "mx_addr small_mem = 0x1000" "mx_size small_mem = 128" "length (mx_bytes small_mem) = 128"
  by (simp_all add: small)

lemma engine_counts_packets_witness:
  "\<exists>m' tme' fl x. engine_run 0 0 [([0, 0, 0, 7], 60, (0, 0)), ([0, 0, 0, 9], 100, (0, 0)), ([0, 0, 0, 7], 40, (1, 0))]
     (small_mem, small_core) = Some (m', tme') \<and> flows (active_data tme') m' = fl \<and> others (active_data tme') m' = x \<and>
     packets_in (fl, x) = 3 \<and> bytes_in (fl, x) = 200"
proof -
  let ?ps = "[([0, 0, 0, 7], 60, (0, 0)), ([0, 0, 0, 9], 100, (0, 0)), ([0, 0, 0, 7], 40, (1, 0))] :: keyed_packet list"
  have k: "key_area (active_data small_core) small_mem 0" "0 < mx_size small_mem"
    "\<forall>p \<in> set ?ps. length (fst p) = 4 * unat (key_len (active_data small_core))"
    unfolding small_inv(2) by (simp_all add: key_area_def small)
  have "of_nat (length ?ps) = (3 :: u64)" "sum_list (map (\<lambda>(kb, sz, now). ucast sz) ?ps) = (200 :: u64)" by simp_all
  with engine_counts_packets [OF small_inv(1) small_table(2,3) [folded small_inv(2)] k]
  show ?thesis by (elim exE conjE) (intro exI conjI, assumption+, simp_all)
qed

lemma table_lookup_witness:
  "\<exists>r d' m'. normal_lut_w_insert 0x1000 (place small_data 0x1010) small_mem (0, 0) = Some (Some (r, d', m')) \<and> table_inv d' m' \<and>
     (r = TME_TRUE \<or> last_found d' = None)"
proof -
  have "table_inv (place small_data 0x1010) small_mem" using small_table(1) by (simp add: counting_def)
  moreover have "key_ok (place small_data 0x1010) small_mem 0x1000" by code_simp
  ultimately show ?thesis using table_lookup [of "place small_data 0x1010" small_mem "0x1000" "(0, 0)"] by (metis (no_types, lifting))
qed

section \<open>A requirement that wraps around\<close>

text \<open>The memory a block requires is computed in 32 bits: a table of 0x20000001 entries is validated in 64 bytes of
  extended memory, and the lookup of a packet then leaves the memory.\<close>

theorem validate_wraps:
  "\<exists>m tme m' tme'. mx_size m = of_nat (length (mx_bytes m)) \<and> unat (mx_addr m) + length (mx_bytes m) < 4294967296 \<and>
     lut_entries (block_data tme ! 0) = 0x20000001 \<and> mx_size m = 64 \<and>
     validate_tme_block m tme 0 16 = Some (TME_SUCCESS, m', tme') \<and> lookup_frontend m' tme' 0 (0, 0) = Some None"
proof -
  let ?d = "small_data\<lparr>lut_entries := 0x20000001, shared_memory_blocks := 1\<rparr>"
  let ?m = "\<lparr>mx_addr = 0x1000, mx_bytes = [0, 0, 0, 1] @ replicate 60 0, mx_size = 64\<rparr>"
  let ?tme = "small_core\<lparr>block_data := [?d]\<rparr>"
  have "blit (mx_bytes ?m) 16 (replicate 40 0) = Some (mx_bytes ?m)" by code_simp
  then have "ZERO_MEMORY ?m 0x1010 40 = Some ?m" by (simp add: ZERO_MEMORY_def mx_write_def)
  moreover have "required_memory ?d = 40" by (simp add: required_memory_def)
  ultimately have v: "validate_tme_block ?m ?tme 0 16 = Some (TME_SUCCESS, ?m, ?tme\<lparr>block_data := [place ?d 0x1010],
      validated_blocks := VALIDATE (validated_blocks ?tme) 0, active := 0, working := 0\<rparr>)"
    by (simp add: validate_tme_block_def exec_fcn_mapper_def)
  have "shrink ?m 0x1000 1 = Some 0x1000000" by code_simp
  moreover have "ULONG_AT ?m (entry (place ?d 0x1010) 0x1000000) = None"
    by (simp add: ULONG_AT_def mx_read_def slice_def entry_def place_def)
  ultimately have "normal_lut_w_insert 0x1000 (place ?d 0x1010) ?m (0, 0) = Some None"
    using lut_search.simps [of True "0x1000" "place ?d 0x1010" ?m "(0, 0)" 0 "0x1000000"]
    by (simp add: normal_lut_w_insert_def normal_lut_def probe_def) (simp add: place_def)
  then have "lookup_frontend ?m (?tme\<lparr>block_data := [place ?d 0x1010],
      validated_blocks := VALIDATE (validated_blocks ?tme) 0, active := 0, working := 0\<rparr>) 0 (0, 0) = Some None"
    by (simp add: lookup_frontend_def) (simp add: place_def)
  with v show ?thesis
    by - (rule exI [of _ ?m], rule exI [of _ ?tme], rule exI [of _ ?m], rule exI, intro conjI; simp)
qed

end
