(* ===== verification/Tme_Filter.thy ===== *)
theory Tme_Filter
  imports Bpf_Validate Tme_Exec
begin

text \<open>
  The packet filter of the build with the table engine: the instructions on the extended memory and on
  the engine in \<open>bpf_filter\<close> (\<open>win_bpf_filter.c\<close>), the program that initialises the machine
  (\<open>win_bpf_filter_init.c\<close>), the validator of that build, and the read of an application in monitor
  mode (\<open>Read.c\<close>), all under \<open>packetNtx/driver\<close>.
\<close>

section \<open>The instructions\<close>

datatype ex_width = EX_B | EX_H | EX_W

datatype tme_op = LD_EX_IMM ex_width | LDX_EX_IMM ex_width | LD_EX_IND ex_width
  | ST_EX_IMM ex_width | STX_EX_IMM ex_width | ST_EX_IND ex_width
  | TME_LOOKUP | TME_EXECUTE | TME_INIT | TME_VALIDATE | TME_SET_MEMORY | TME_SET_ACTIVE | TME_SET_ACTIVE_READ
  | TME_SET_WORKING | TME_RESET | TME_GET_REGISTER | TME_SET_REGISTER | TME_SET_AUTODELETION

abbreviation (input) BPF_MEM_EX_IMM :: u16 where "BPF_MEM_EX_IMM \<equiv> 0xc0"
abbreviation (input) BPF_MEM_EX_IND :: u16 where "BPF_MEM_EX_IND \<equiv> 0xe0"
abbreviation (input) BPF_TME :: u16 where "BPF_TME \<equiv> 0x08"

primrec width_code :: "ex_width \<Rightarrow> u16" where
  "width_code EX_B = BPF_B"
| "width_code EX_H = BPF_H"
| "width_code EX_W = BPF_W"

primrec tme_code :: "tme_op \<Rightarrow> u16" where
  "tme_code (LD_EX_IMM w) = BPF_LD OR BPF_MEM_EX_IMM OR width_code w"
| "tme_code (LDX_EX_IMM w) = BPF_LDX OR BPF_MEM_EX_IMM OR width_code w"
| "tme_code (LD_EX_IND w) = BPF_LD OR BPF_MEM_EX_IND OR width_code w"
| "tme_code (ST_EX_IMM w) = BPF_ST OR BPF_MEM_EX_IMM OR width_code w"
| "tme_code (STX_EX_IMM w) = BPF_STX OR BPF_MEM_EX_IMM OR width_code w"
| "tme_code (ST_EX_IND w) = BPF_ST OR BPF_MEM_EX_IND OR width_code w"
| "tme_code TME_LOOKUP = BPF_MISC OR BPF_TME OR 0x90"
| "tme_code TME_EXECUTE = BPF_MISC OR BPF_TME OR 0xa0"
| "tme_code TME_INIT = BPF_MISC OR BPF_TME OR 0xb0"
| "tme_code TME_VALIDATE = BPF_MISC OR BPF_TME OR 0xc0"
| "tme_code TME_SET_MEMORY = BPF_MISC OR BPF_TME OR 0x80"
| "tme_code TME_SET_ACTIVE = BPF_MISC OR BPF_TME OR 0xd0"
| "tme_code TME_SET_ACTIVE_READ = BPF_MISC OR BPF_TME OR 0x40"
| "tme_code TME_SET_WORKING = BPF_MISC OR BPF_TME OR 0x50"
| "tme_code TME_RESET = BPF_MISC OR BPF_TME OR 0xe0"
| "tme_code TME_GET_REGISTER = BPF_MISC OR BPF_TME OR 0x70"
| "tme_code TME_SET_REGISTER = BPF_MISC OR BPF_TME OR 0x60"
| "tme_code TME_SET_AUTODELETION = BPF_MISC OR BPF_TME OR 0x30"

text \<open>The labels of \<open>bpf_filter\<close>, and those only the initialisation has.\<close>

definition filter_ops :: "tme_op list" where
  "filter_ops = map LD_EX_IMM [EX_B, EX_H, EX_W] @ map LDX_EX_IMM [EX_B, EX_H, EX_W] @ map LD_EX_IND [EX_B, EX_H, EX_W] @
     map ST_EX_IMM [EX_B, EX_W, EX_H] @ map STX_EX_IMM [EX_B, EX_W, EX_H] @ map ST_EX_IND [EX_B, EX_W, EX_H] @
     [TME_LOOKUP, TME_EXECUTE, TME_SET_ACTIVE, TME_GET_REGISTER, TME_SET_REGISTER]"

definition init_ops :: "tme_op list" where
  "init_ops = filter_ops @ [TME_INIT, TME_VALIDATE, TME_SET_MEMORY, TME_SET_ACTIVE_READ, TME_SET_WORKING, TME_RESET,
     TME_SET_AUTODELETION]"

definition tme_decode :: "tme_op list \<Rightarrow> u16 \<Rightarrow> tme_op option" where
  "tme_decode ops c = find (\<lambda>o'. tme_code o' = c) ops"

section \<open>The machine\<close>

record ext_state =
  mach :: bpf_state
  memx :: mem_type
  core :: tme_core

text \<open>\<open>Faults\<close> is an access outside a memory; \<open>Hangs\<close> a lookup or a loop that does not end.\<close>

datatype ext_outcome = Goes ext_state | Returns u32 mem_type tme_core | Faults | Hangs

definition returns :: "u32 \<Rightarrow> ext_state \<Rightarrow> ext_outcome" where
  "returns v s = Returns v (memx s) (core s)"

definition goto :: "nat \<Rightarrow> ext_state \<Rightarrow> ext_outcome" where
  "goto n s = Goes (s\<lparr>mach := (mach s)\<lparr>bpc := n\<rparr>\<rparr>)"

definition continue :: "ext_state \<Rightarrow> ext_outcome" where
  "continue s = goto (Suc (bpc (mach s))) s"

definition width :: "ex_width \<Rightarrow> nat" where
  "width w = (case w of EX_B \<Rightarrow> 1 | EX_H \<Rightarrow> 2 | EX_W \<Rightarrow> 4)"

text \<open>The value of bytes in network order, and the lowest bytes of a value in network order.\<close>

definition get_ex :: "mem_type \<Rightarrow> u32 \<Rightarrow> ex_width \<Rightarrow> u32 option" where
  "get_ex m i w =
     (let p = mx_addr m + i in
      case w of EX_B \<Rightarrow> map_option (\<lambda>b. ucast (hd b)) (mx_read m p 1)
      | EX_H \<Rightarrow> map_option ucast (SW_USHORT_AT m p)
      | EX_W \<Rightarrow> SW_ULONG_AT m p)"

definition put_ex :: "mem_type \<Rightarrow> u32 \<Rightarrow> ex_width \<Rightarrow> u32 \<Rightarrow> mem_type option" where
  "put_ex m i w v = mx_write m (mx_addr m + i) (drop (4 - width w) (rev (le32_bytes v)))"

definition load_ex :: "u32 option \<Rightarrow> (u32 \<Rightarrow> bpf_state \<Rightarrow> bpf_state) \<Rightarrow> ext_state \<Rightarrow> ext_outcome" where
  "load_ex v upd s = (case v of None \<Rightarrow> Faults | Some x \<Rightarrow> continue (s\<lparr>mach := upd x (mach s)\<rparr>))"

definition store_ex :: "mem_type option \<Rightarrow> ext_state \<Rightarrow> ext_outcome" where
  "store_ex m s = (case m of None \<Rightarrow> Faults | Some m' \<Rightarrow> continue (s\<lparr>memx := m'\<rparr>))"

definition set_A :: "u32 \<Rightarrow> bpf_state \<Rightarrow> bpf_state" where
  "set_A v b = b\<lparr>regA := v\<rparr>"

definition set_X :: "u32 \<Rightarrow> bpf_state \<Rightarrow> bpf_state" where
  "set_X v b = b\<lparr>regX := v\<rparr>"

definition working_data :: "tme_core \<Rightarrow> tme_data option" where
  "working_data tme =
     (if unat (working tme) < length (block_data tme) then Some (block_data tme ! unat (working tme)) else None)"

definition update_working :: "tme_data \<Rightarrow> ext_state \<Rightarrow> ext_state" where
  "update_working d s = s\<lparr>core := (core s)\<lparr>block_data := (block_data (core s))[unat (working (core s)) := d]\<rparr>\<rparr>"

text \<open>A call that yields \<open>TME_ERROR\<close> ends the program with 0.\<close>

definition checked :: "nat \<times> tme_core \<Rightarrow> ext_state \<Rightarrow> ext_outcome" where
  "checked r s =
     (if fst r = TME_ERROR then returns 0 (s\<lparr>core := snd r\<rparr>) else continue (s\<lparr>core := snd r\<rparr>))"

definition tme_lookup :: "bpf_insn \<Rightarrow> timeval \<Rightarrow> ext_state \<Rightarrow> ext_outcome" where
  "tme_lookup ins now s =
     (case lookup_frontend (memx s) (core s) (k ins) now of
        None \<Rightarrow> Hangs
      | Some None \<Rightarrow> Faults
      | Some (Some (r, m, tme)) \<Rightarrow>
          (let s1 = s\<lparr>memx := m, core := tme\<rparr> in
           if r = TME_ERROR then returns 0 s1
           else goto (Suc (bpc (mach s) + unat (if r = TME_TRUE then jt ins else jf ins))) s1))"

definition tme_execute :: "bpf_insn \<Rightarrow> u32 \<Rightarrow> ext_state \<Rightarrow> ext_outcome" where
  "tme_execute ins sz s =
     (case execute_frontend (memx s) (core s) sz (k ins) of
        None \<Rightarrow> Faults
      | Some (r, m) \<Rightarrow> (let s1 = s\<lparr>memx := m\<rparr> in if r = TME_ERROR then returns 0 s1 else continue s1))"

definition tme_get_register :: "bpf_insn \<Rightarrow> ext_state \<Rightarrow> ext_outcome" where
  "tme_get_register ins s =
     (case working_data (core s) of
        None \<Rightarrow> Faults
      | Some d \<Rightarrow> (case get_tme_block_register d (memx s) (k ins) of
            None \<Rightarrow> returns 0 s
          | Some v \<Rightarrow> continue (s\<lparr>mach := set_A v (mach s)\<rparr>)))"

definition tme_set_register :: "bpf_insn \<Rightarrow> bool \<Rightarrow> ext_state \<Rightarrow> ext_outcome" where
  "tme_set_register ins ini s =
     (case working_data (core s) of
        None \<Rightarrow> Faults
      | Some d \<Rightarrow> (case set_tme_block_register d (k ins) (regA (mach s)) ini of
            None \<Rightarrow> returns 0 s
          | Some d' \<Rightarrow> continue (update_working d' s)))"

text \<open>The index of an indirect access, compared as an int with the size.\<close>

definition load_ind :: "ex_width \<Rightarrow> u32 \<Rightarrow> u32 option \<Rightarrow> ext_state \<Rightarrow> ext_outcome" where
  "load_ind w i v s =
     (if sint (i + of_nat (width w - 1)) \<ge> sint (mx_size (memx s)) then returns 0 s else load_ex v set_A s)"

text \<open>The store of a byte at an index goes on with the store of the word.\<close>

definition store_ind :: "ex_width \<Rightarrow> u32 \<Rightarrow> ext_state \<Rightarrow> ext_outcome" where
  "store_ind w i s =
     (let v = regA (mach s); m = memx s in
      case w of EX_B \<Rightarrow> store_ex (do { m1 \<leftarrow> put_ex m i EX_B v; put_ex m1 i EX_W v }) s
      | _ \<Rightarrow> store_ex (put_ex m i w v) s)"

section \<open>The filter\<close>

definition filter_tme :: "u32 \<Rightarrow> timeval \<Rightarrow> tme_op \<Rightarrow> bpf_insn \<Rightarrow> ext_state \<Rightarrow> ext_outcome" where
  "filter_tme sz now op ins s =
     (let b = mach s; m = memx s in
      case op of
        LD_EX_IMM w \<Rightarrow> load_ex (get_ex m (k ins) w) set_A s
      | LDX_EX_IMM w \<Rightarrow> load_ex (get_ex m (k ins) w) set_X s
      | LD_EX_IND w \<Rightarrow> load_ind w (regX b + k ins) (get_ex m (regX b + k ins) w) s
      | ST_EX_IMM w \<Rightarrow> store_ex (put_ex m (k ins) w (regA b)) s
      | STX_EX_IMM w \<Rightarrow> store_ex (put_ex m (k ins) w (regX b)) s
      | ST_EX_IND w \<Rightarrow> store_ind w (k ins + regX b) s
      | TME_LOOKUP \<Rightarrow> tme_lookup ins now s
      | TME_EXECUTE \<Rightarrow> tme_execute ins sz s
      | TME_SET_ACTIVE \<Rightarrow> checked (set_active_tme_block (core s) (k ins)) s
      | TME_GET_REGISTER \<Rightarrow> tme_get_register ins s
      | TME_SET_REGISTER \<Rightarrow> tme_set_register ins False s
      | _ \<Rightarrow> returns 0 s)"

text \<open>The other instructions are those of the build without the engine.\<close>

definition plain :: "outcome \<Rightarrow> ext_state \<Rightarrow> ext_outcome" where
  "plain r s =
     (case r of Next b \<Rightarrow> Goes (s\<lparr>mach := b\<rparr>) | Done v \<Rightarrow> returns v s | Crashed f \<Rightarrow> Faults)"

definition filter_step :: "packet \<Rightarrow> timeval \<Rightarrow> bpf_insn \<Rightarrow> ext_state \<Rightarrow> ext_outcome" where
  "filter_step q now ins s =
     (case tme_decode filter_ops (code ins) of
        Some op \<Rightarrow> filter_tme (wirelen q) now op ins s
      | None \<Rightarrow> plain (bpf_step (bpf_load q) ins (mach s)) s)"

text \<open>The loop wraps its pointer as the one of \<open>bpf_filter\<close> does (\<open>wrap_pc\<close>), and need not end.\<close>

partial_function (option) filter_loop :: "packet \<Rightarrow> timeval \<Rightarrow> bpf_insn list \<Rightarrow> ext_state \<Rightarrow> ext_outcome option" where
  "filter_loop q now prog s =
     (if bpc (mach s) < length prog
      then (case filter_step q now (prog ! bpc (mach s)) s of
              Goes t \<Rightarrow> filter_loop q now prog (t\<lparr>mach := wrap_pc (length prog) (mach t)\<rparr>)
            | r \<Rightarrow> Some r)
      else Some Faults)"

definition filter_run :: "packet \<Rightarrow> timeval \<Rightarrow> bpf_insn list \<Rightarrow> ext_state \<Rightarrow> ext_outcome" where
  "filter_run q now prog s = (case filter_loop q now prog s of None \<Rightarrow> Hangs | Some r \<Rightarrow> r)"

lemma filter_run_unfold [code]:
  "filter_run q now prog s =
     (if bpc (mach s) < length prog
      then (case filter_step q now (prog ! bpc (mach s)) s of
              Goes t \<Rightarrow> filter_run q now prog (t\<lparr>mach := wrap_pc (length prog) (mach t)\<rparr>)
            | r \<Rightarrow> r)
      else Faults)"
  by (subst filter_run_def, subst filter_loop.simps) (auto simp: filter_run_def split: ext_outcome.splits)

definition bpf_filter_ext :: "bpf_insn list option \<Rightarrow> packet \<Rightarrow> timeval \<Rightarrow> mem_type \<Rightarrow> tme_core \<Rightarrow> ext_outcome" where
  "bpf_filter_ext pc q now m tme =
     (case pc of
        None \<Rightarrow> Returns (- 1) m tme
      | Some prog \<Rightarrow> filter_run q now prog \<lparr>mach = bpf_init, memx = m, core = tme\<rparr>)"

section \<open>The initialisation\<close>

text \<open>Half a word is loaded into the upper half of the register: the swap is one of 32 bits.\<close>

definition get_init :: "mem_type \<Rightarrow> u32 \<Rightarrow> ex_width \<Rightarrow> u32 option" where
  "get_init m i w =
     (if w = EX_H then map_option (\<lambda>v. push_bit 16 (ucast v)) (SW_USHORT_AT m (mx_addr m + i)) else get_ex m i w)"

text \<open>\<open>alloc\<close> is the allocator: the address and contents of a block, if there is one.\<close>

type_synonym allocator = "u32 \<Rightarrow> (u32 \<times> u8 list) option"

definition tme_validate :: "bpf_insn \<Rightarrow> ext_state \<Rightarrow> ext_outcome" where
  "tme_validate ins s =
     (case validate_tme_block (memx s) (core s) (regA (mach s)) (k ins) of
        None \<Rightarrow> Faults
      | Some (r, m, tme) \<Rightarrow> checked (r, tme) (s\<lparr>memx := m\<rparr>))"

definition tme_set_memory :: "allocator \<Rightarrow> bpf_insn \<Rightarrow> ext_state \<Rightarrow> ext_outcome" where
  "tme_set_memory alloc ins s =
     (case init_extended_memory (k ins) (alloc (k ins)) (memx s) of
        (r, m) \<Rightarrow> checked (r, core s) (s\<lparr>memx := m\<rparr>))"

definition init_tme :: "allocator \<Rightarrow> timeval \<Rightarrow> tme_op \<Rightarrow> bpf_insn \<Rightarrow> ext_state \<Rightarrow> ext_outcome" where
  "init_tme alloc now op ins s =
     (let b = mach s; m = memx s in
      case op of
        LD_EX_IMM w \<Rightarrow> load_ex (get_init m (k ins) w) set_A s
      | LDX_EX_IMM w \<Rightarrow> load_ex (get_init m (k ins) w) set_X s
      | LD_EX_IND w \<Rightarrow> load_ind w (regX b + k ins) (get_init m (regX b + k ins) w) s
      | TME_INIT \<Rightarrow> checked (init_tme_block (core s) (k ins)) s
      | TME_VALIDATE \<Rightarrow> tme_validate ins s
      | TME_SET_MEMORY \<Rightarrow> tme_set_memory alloc ins s
      | TME_SET_ACTIVE_READ \<Rightarrow> checked (set_active_tme_block (core s) (k ins)) s
      | TME_SET_WORKING \<Rightarrow>
          if unat (k ins) \<ge> MAX_TME_DATA_BLOCKS then returns 0 s else continue (s\<lparr>core := (core s)\<lparr>working := k ins\<rparr>\<rparr>)
      | TME_RESET \<Rightarrow> checked (reset_tme (core s)) s
      | TME_SET_REGISTER \<Rightarrow> tme_set_register ins True s
      | TME_SET_AUTODELETION \<Rightarrow> (case working_data (core s) of
            None \<Rightarrow> Faults
          | Some d \<Rightarrow> continue (update_working (snd (set_autodeletion d (k ins))) s))
      | _ \<Rightarrow> filter_tme 0 now op ins s)"

text \<open>Of the packet nothing can be loaded, and jumps are not bounded: the pointer wraps around.\<close>

definition init_load :: "load_op \<Rightarrow> bpf_insn \<Rightarrow> bpf_state \<Rightarrow> effect" where
  "init_load l ins s =
     (if l \<in> {LD_IMM, LDX_IMM, LD_MEM, LDX_MEM} then bpf_load \<lparr>pkt_bytes = [], wirelen = 0, buflen = 0\<rparr> l ins s
      else Return 0)"

definition init_step :: "allocator \<Rightarrow> timeval \<Rightarrow> bpf_insn \<Rightarrow> ext_state \<Rightarrow> ext_outcome" where
  "init_step alloc now ins s =
     (case tme_decode init_ops (code ins) of
        Some op \<Rightarrow> init_tme alloc now op ins s
      | None \<Rightarrow>
          if bpf_decode (code ins) = Some (Jump JMP_JA)
          then goto ((Suc (bpc (mach s)) + unat (k ins)) mod 2 ^ 29) s
          else plain (bpf_step init_load ins (mach s)) s)"

partial_function (option) init_run :: "allocator \<Rightarrow> timeval \<Rightarrow> bpf_insn list \<Rightarrow> ext_state \<Rightarrow> ext_outcome option" where
  "init_run alloc now prog s =
     (if bpc (mach s) < length prog
      then (case init_step alloc now (prog ! bpc (mach s)) s of Goes t \<Rightarrow> init_run alloc now prog t | r \<Rightarrow> Some r)
      else Some Faults)"

definition bpf_filter_init ::
    "bpf_insn list option \<Rightarrow> allocator \<Rightarrow> timeval \<Rightarrow> mem_type \<Rightarrow> tme_core \<Rightarrow> ext_outcome option" where
  "bpf_filter_init pc alloc now m tme =
     (case pc of
        None \<Rightarrow> Some (Returns (- 1) m tme)
      | Some prog \<Rightarrow> init_run alloc now prog \<lparr>mach = bpf_init, memx = m, core = tme\<rparr>)"

section \<open>The validator\<close>

definition valid_instructions_ext :: "u16 list" where
  "valid_instructions_ext = valid_instructions @ map tme_code (map LD_EX_IMM [EX_B, EX_H, EX_W] @
     map LD_EX_IND [EX_B, EX_H, EX_W] @ map ST_EX_IMM [EX_B, EX_W, EX_H] @ map STX_EX_IMM [EX_B, EX_W, EX_H] @
     map ST_EX_IND [EX_B, EX_W, EX_H] @ [TME_LOOKUP, TME_EXECUTE, TME_SET_ACTIVE, TME_GET_REGISTER, TME_SET_REGISTER])"

definition validate_store_ext :: "u32 \<Rightarrow> bpf_insn \<Rightarrow> bool" where
  "validate_store_ext sz p =
     (if code p AND BPF_MEM_EX_IMM = BPF_MEM_EX_IMM
      then (if BPF_SIZE (code p) = BPF_W then \<not> sz \<le> k p + 3
            else if BPF_SIZE (code p) = BPF_H then \<not> sz \<le> k p + 1
            else if BPF_SIZE (code p) = BPF_B then \<not> sz \<le> k p else True)
      else if code p AND BPF_MEM_EX_IND \<noteq> BPF_MEM_EX_IND then \<not> of_nat BPF_MEMWORDS \<le> k p
      else True)"

definition validate_insn_ext :: "u32 \<Rightarrow> u32 \<Rightarrow> u32 \<Rightarrow> bpf_insn \<Rightarrow> bool" where
  "validate_insn_ext sz len i p =
     (code p \<in> set valid_instructions_ext \<and>
      (let c = BPF_CLASS (code p) in
       if c = BPF_LD \<or> c = BPF_LDX then validate_load p
       else if c = BPF_ST \<or> c = BPF_STX then validate_store_ext sz p
       else if c = BPF_ALU then validate_alu p
       else if c = BPF_JMP then validate_jmp len i p
       else c = BPF_RET \<or> c = BPF_MISC))"

fun validate_loop_ext :: "u32 \<Rightarrow> u32 \<Rightarrow> u32 \<Rightarrow> bpf_insn list \<Rightarrow> bool" where
  "validate_loop_ext sz len i [] = True"
| "validate_loop_ext sz len i (p # ps) = (validate_insn_ext sz len i p \<and> validate_loop_ext sz len (i + 1) ps)"

definition bpf_validate_ext :: "bpf_insn list \<Rightarrow> u32 \<Rightarrow> bool" where
  "bpf_validate_ext f sz =
     (if length f < 1 then False
      else validate_loop_ext sz (of_nat (length f)) 0 f \<and> BPF_CLASS (code (f ! (length f - 1))) = BPF_RET)"

end
