(* ===== verification/Tme_Monitor.thy ===== *)
theory Tme_Monitor
  imports Tme_Engine Tme_Filter
begin

text \<open>
  Monitor mode as a whole: a program that initialises the machine, a filter that counts the packets per
  key, and the read that gives the counters to the application (\<open>NPF_Read\<close> of \<open>Read.c\<close>).
\<close>

section \<open>The read in monitor mode\<close>

fun copy_blocks :: "mem_type \<Rightarrow> u32 \<Rightarrow> u32 \<Rightarrow> nat \<Rightarrow> u8 list \<Rightarrow> nat \<Rightarrow> u8 list option" where
  "copy_blocks m tmp sz 0 user at = Some user"
| "copy_blocks m tmp sz (Suc n) user at = do {
     b \<leftarrow> mx_read m tmp (unat sz);
     user1 \<leftarrow> blit user at b;
     copy_blocks m (tmp + sz) sz n user1 (at + unat sz) }"

text \<open>The header in front of the blocks: time stamp, both lengths, and its own length.\<close>

definition monitor_header :: "timeval \<Rightarrow> u32 \<Rightarrow> u8 list \<Rightarrow> u8 list option" where
  "monitor_header now n user = do {
     u1 \<leftarrow> blit user 0 (le32_bytes (fst now) @ le32_bytes (snd now));
     u2 \<leftarrow> blit u1 16 (le16_bytes 20);
     u3 \<leftarrow> blit u2 8 (le32_bytes n);
     blit u3 12 (le32_bytes n) }"

text \<open>None is an access outside the memory or the user buffer; Some None is the failure of the request.\<close>

definition monitor_read ::
    "mem_type \<Rightarrow> tme_core \<Rightarrow> timeval \<Rightarrow> u8 list \<Rightarrow> (u8 list \<times> tme_core \<times> u32) option option" where
  "monitor_read m tme now user =
     (let len = of_nat (length user) :: u32; i = unat (active_read tme) in
      if \<not> IS_VALIDATED (validated_blocks tme) (active_read tme) \<or> len < 20 then Some None
      else if i \<ge> length (block_data tme) then None
      else (let d = block_data tme ! i;
          d1 = (if fst (last_read d) \<noteq> 0 then d\<lparr>last_read := now\<rparr> else d);
          n = (if len - 20 < block_size d * filled_blocks d then (len - 20) div block_size d else filled_blocks d) in do {
        user1 \<leftarrow> copy_blocks m (shared_memory_base_address d) (block_size d) (unat n) user 20;
        user2 \<leftarrow> monitor_header now (n * block_size d) user1;
        Some (Some (user2, tme\<lparr>block_data := (block_data tme)[i := d1]\<rparr>, n * block_size d + 20)) }))"

lemma copy_blocks_chunk:
  assumes "off m tmp + unat sz * n \<le> length (mx_bytes m)" and "length (mx_bytes m) < 4294967296"
    and "at + unat sz * n \<le> length user"
  shows "\<exists>user'. copy_blocks m tmp sz n user at = Some user' \<and> length user' = length user \<and>
    chunk user' at (unat sz * n) = chunk (mx_bytes m) (off m tmp) (unat sz * n) \<and> take at user' = take at user"
  using assms(1,3)
proof (induction n arbitrary: tmp user at)
  case (Suc n)
  let ?b = "chunk (mx_bytes m) (off m tmp) (unat sz)"
  have lim: "off m tmp + unat sz \<le> length (mx_bytes m)" "at + unat sz \<le> length user" using Suc.prems by simp_all
  then have lb: "length ?b = unat sz" by simp
  have r: "mx_read m tmp (unat sz) = Some ?b" using lim by (simp add: mx_read_off slice_chunk)
  obtain u1 where u1: "blit user at ?b = Some u1" using lim lb by (metis blit_defined)
  have l1: "length u1 = length user" using blit_length [OF u1] .
  have o1: "off m (tmp + sz) + unat sz * n \<le> length (mx_bytes m)" "off m (tmp + sz) = off m tmp + unat sz \<or> n = 0"
  proof -
    have "off m (tmp + sz) = off m tmp + unat sz" if "off m tmp + unat sz < 4294967296"
      using off_add [of m tmp "unat sz"] that by simp
    moreover have "off m tmp + unat sz < 4294967296" using lim(1) assms(2) by simp
    ultimately show "off m (tmp + sz) + unat sz * n \<le> length (mx_bytes m)" "off m (tmp + sz) = off m tmp + unat sz \<or> n = 0"
      using Suc.prems by simp_all
  qed
  obtain u2 where u2: "copy_blocks m (tmp + sz) sz n u1 (at + unat sz) = Some u2" "length u2 = length u1"
      "chunk u2 (at + unat sz) (unat sz * n) = chunk (mx_bytes m) (off m (tmp + sz)) (unat sz * n)"
      "take (at + unat sz) u2 = take (at + unat sz) u1"
    using Suc.IH [OF o1(1), of "at + unat sz" u1] Suc.prems l1 by auto
  have "chunk u2 at (unat sz) = chunk u1 at (unat sz)"
    using arg_cong [OF u2(4), of "drop at"] by (simp add: chunk_def drop_take)
  also have "\<dots> = ?b" using chunk_blit_same [OF u1] lb by simp
  finally have c: "chunk u2 at (unat sz) = ?b" .
  have "chunk u2 at (unat sz * Suc n) = chunk (mx_bytes m) (off m tmp) (unat sz * Suc n)"
    using chunk_split [of u2 at "unat sz" "unat sz * n"] chunk_split [of "mx_bytes m" "off m tmp" "unat sz" "unat sz * n"]
      c u2(3) o1(2) by auto
  moreover have "take at u2 = take at user"
  proof -
    have "take at u2 = take at u1" using arg_cong [OF u2(4), of "take at"] by (simp add: min_def)
    also have "\<dots> = take at user" using u1 by (auto simp: blit_def split: if_splits)
    finally show ?thesis .
  qed
  ultimately show ?case using r u1 u2(1,2) l1 by simp
qed simp

lemma blit_front:
  assumes "length u = n" and "drop 20 u = t" and "p + length b \<le> 20" and "20 \<le> n"
  shows "\<exists>u'. blit u p b = Some u' \<and> length u' = n \<and> drop 20 u' = t"
  using assms by (auto simp: blit_def)

lemma monitor_header_keeps:
  assumes "20 \<le> length user"
  shows "\<exists>user'. monitor_header now n user = Some user' \<and> length user' = length user \<and> drop 20 user' = drop 20 user"
proof -
  obtain u1 where 1: "blit user 0 (le32_bytes (fst now) @ le32_bytes (snd now)) = Some u1" "length u1 = length user" "drop 20 u1 = drop 20 user"
    using blit_front [OF refl refl, where u = user and p = 0 and b = "le32_bytes (fst now) @ le32_bytes (snd now)"] assms by auto
  obtain u2 where 2: "blit u1 16 (le16_bytes 20) = Some u2" "length u2 = length user" "drop 20 u2 = drop 20 user"
    using blit_front [OF 1(2,3), of 16 "le16_bytes 20"] assms by auto
  obtain u3 where 3: "blit u2 8 (le32_bytes n) = Some u3" "length u3 = length user" "drop 20 u3 = drop 20 user"
    using blit_front [OF 2(2,3), of 8 "le32_bytes n"] assms by auto
  obtain u4 where "blit u3 12 (le32_bytes n) = Some u4" "length u4 = length user" "drop 20 u4 = drop 20 user"
    using blit_front [OF 3(2,3), of 12 "le32_bytes n"] assms by auto
  then show ?thesis using 1(1) 2(1) 3(1) by (simp add: monitor_header_def)
qed

text \<open>What an application makes of a block: the key, and the two counters.\<close>

definition flow_of :: "nat \<Rightarrow> u8 list \<Rightarrow> u8 list \<times> u64 \<times> u64" where
  "flow_of keylen b = (take keylen b, word64_of (chunk b (keylen + 8) 8), word64_of (chunk b (keylen + 16) 8))"

definition flows_read :: "nat \<Rightarrow> nat \<Rightarrow> nat \<Rightarrow> u8 list \<Rightarrow> (u8 list \<times> u64 \<times> u64) list" where
  "flows_read keylen sz n user = map (\<lambda>i. flow_of keylen (chunk user (20 + sz * i) sz)) [0..<n]"

lemma flow_of_block:
  assumes "key_bytes d + 24 \<le> unat (block_size d)"
  shows "flow_of (key_bytes d) (chunk (mx_bytes m) (block_off d m b) (unat (block_size d))) = (block_key d m b, counters d m b)"
proof -
  have t: "take n (chunk (mx_bytes m) x (unat (block_size d))) = chunk (mx_bytes m) x n" if "n \<le> unat (block_size d)" for n x
    using that by (simp add: chunk_def min_def)
  have c: "chunk (chunk (mx_bytes m) x (unat (block_size d))) p 8 = chunk (mx_bytes m) (x + p) 8" if "p + 8 \<le> unat (block_size d)" for p x
    using that by (simp add: chunk_def drop_take add.commute min_def)
  show ?thesis
    using assms payload_words [OF assms, of m b] t [of "key_bytes d"] c [of "key_bytes d + 8"] c [of "key_bytes d + 16"]
    by (simp add: flow_of_def block_key_def counters_def)
qed

text \<open>The application gets the counters of the packets of no flow, and the flows.\<close>

lemma monitor_read_flows:
  assumes "core_inv m tme" and "active_read tme = active tme" and "IS_VALIDATED (validated_blocks tme) (active_read tme)"
    and "length user < 4294967296"
    and "20 + unat (block_size (active_data tme)) * unat (shared_memory_blocks (active_data tme)) \<le> length user"
  shows "\<exists>user' tme' n. monitor_read m tme now user = Some (Some (user', tme', n)) \<and> length user' = length user \<and>
    n = 20 + block_size (active_data tme) * filled_blocks (active_data tme) \<and>
    (\<exists>x. flows_read (key_bytes (active_data tme)) (unat (block_size (active_data tme))) (unat (filled_blocks (active_data tme))) user' =
      (x, others (active_data tme) m) # flows (active_data tme) m)"
proof -
  let ?d = "active_data tme" let ?n = "unat (filled_blocks ?d)" let ?s = "unat (block_size ?d)"
  have c: "counting ?d m" and g: "geometry ?d m" and k: "key_bytes ?d + 24 \<le> ?s"
    using assms(1) by (simp_all add: core_inv_def counting_def table_inv_def)
  have f: "?n \<le> unat (shared_memory_blocks ?d)" "0 < ?n" using g by (simp_all add: geometry_def)
  have sn: "?s * ?n \<le> ?s * unat (shared_memory_blocks ?d)" using f(1) by simp
  have lim: "block_off ?d m 0 + ?s * ?n \<le> length (mx_bytes m)" "length (mx_bytes m) < 4294967296"
  proof -
    have "block_off ?d m 0 + ?s * unat (shared_memory_blocks ?d) \<le> length (mx_bytes m)"
      using g by (simp add: geometry_def block_off_def)
    then show "block_off ?d m 0 + ?s * ?n \<le> length (mx_bytes m)" using sn by linarith
    show "length (mx_bytes m) < 4294967296" using g by (simp add: geometry_def)
  qed
  have o: "off m (shared_memory_base_address ?d) = block_off ?d m 0" by (simp add: block_off_def)
  have prod: "unat (block_size ?d * filled_blocks ?d) = ?s * ?n"
    using lim by (simp add: unat_mult_lem [THEN iffD1])
  have len: "unat (of_nat (length user) :: u32) = length user" using assms(4) by (simp add: unat_of_nat take_bit_nat_eq_self)
  have l20: "\<not> (of_nat (length user) :: u32) < 20" using len assms(5) by (simp add: word_less_nat_alt)
  have enough: "\<not> (of_nat (length user) :: u32) - 20 < block_size ?d * filled_blocks ?d"
  proof -
    have "unat ((of_nat (length user) :: u32) - 20) = length user - 20" using l20 len by (simp add: unat_sub_small not_less)
    moreover have "?s * ?n \<le> length user - 20" using assms(5) sn by linarith
    ultimately show ?thesis using prod by (simp add: word_less_nat_alt)
  qed
  obtain u1 where u1: "copy_blocks m (shared_memory_base_address ?d) (block_size ?d) ?n user 20 = Some u1" "length u1 = length user"
      "chunk u1 20 (?s * ?n) = chunk (mx_bytes m) (block_off ?d m 0) (?s * ?n)"
    using copy_blocks_chunk [of m "shared_memory_base_address ?d" "block_size ?d" ?n 20 user] lim o assms(5) sn by auto
  obtain u2 where u2: "monitor_header now (filled_blocks ?d * block_size ?d) u1 = Some u2" "length u2 = length u1" "drop 20 u2 = drop 20 u1"
    using monitor_header_keeps [of u1 now "filled_blocks ?d * block_size ?d"] u1(2) assms(5) by auto
  have "chunk u2 20 (?s * ?n) = chunk (mx_bytes m) (block_off ?d m 0) (?s * ?n)" using u1(3) u2(3) by (simp add: chunk_def)
  then have block: "chunk u2 (20 + ?s * i) ?s = chunk (mx_bytes m) (block_off ?d m i) ?s" if "i < ?n" for i
  proof -
    have "?s * i + ?s \<le> ?s * ?n" using that by (metis Suc_leI mult_Suc_right add.commute mult_le_mono2)
    then have "chunk xs (x + ?s * i) ?s = chunk (chunk xs x (?s * ?n)) (?s * i) ?s" for xs :: "u8 list" and x
      by (simp add: chunk_def drop_take min_def add.commute)
    from this [of u2 20] this [of "mx_bytes m" "block_off ?d m 0"] \<open>chunk u2 20 _ = _\<close> show ?thesis
      by (simp add: block_off_def)
  qed
  have "flows_read (key_bytes ?d) ?s ?n u2 = map (\<lambda>b. (block_key ?d m b, counters ?d m b)) [0..<?n]"
    using flow_of_block [OF k] block by (simp add: flows_read_def)
  also have "\<dots> = (block_key ?d m 0, others ?d m) # flows ?d m"
    using f(2) by (simp add: flows_def others_def upt_conv_Cons)
  finally have "flows_read (key_bytes ?d) ?s ?n u2 = (block_key ?d m 0, others ?d m) # flows ?d m" .
  moreover obtain tme' where "monitor_read m tme now user = Some (Some (u2, tme', 20 + block_size ?d * filled_blocks ?d))"
    using assms(1-3) l20 enough u1(1) u2(1)
    by (simp add: monitor_read_def Let_def core_inv_def active_data_def [symmetric] mult.commute add.commute)
  ultimately show ?thesis using u1(2) u2(2)
    by - (rule exI [of _ u2], rule exI [of _ tme'], rule exI, intro conjI; force)
qed

section \<open>The programs\<close>

definition stmt :: "u16 \<Rightarrow> u32 \<Rightarrow> bpf_insn" where
  "stmt c v = \<lparr>code = c, jt = 0, jf = 0, k = v\<rparr>"

text \<open>A table of the default size for keys of one word, \<open>tbl\<close> bytes into an extended memory of \<open>n\<close> bytes.\<close>

definition counting_setup :: "u32 \<Rightarrow> u32 \<Rightarrow> bpf_insn list" where
  "counting_setup n tbl = [stmt (tme_code TME_SET_MEMORY) n, stmt (tme_code TME_INIT) 0, stmt (load_code LD_IMM) 1,
     stmt (tme_code TME_SET_REGISTER) 3, stmt (load_code LD_IMM) 0, stmt (tme_code TME_VALIDATE) tbl,
     stmt (bpf_code (Ret RET_K)) 1]"

text \<open>The word at offset \<open>o'\<close> of a packet is its key.\<close>

definition counting_filter :: "u32 \<Rightarrow> bpf_insn list" where
  "counting_filter o' = [stmt (load_code LD_W_ABS) o', stmt (tme_code (ST_EX_IMM EX_W)) 0, stmt (tme_code TME_LOOKUP) 0,
     stmt (tme_code TME_EXECUTE) 0, stmt (bpf_code (Ret RET_K)) 0]"

declare tme_code.simps [simp del] load_code.simps [simp del] bpf_code.simps [simp del]

lemma decode_tme [simp]:
  "tme_decode filter_ops (tme_code (ST_EX_IMM EX_W)) = Some (ST_EX_IMM EX_W)"
  "tme_decode filter_ops (tme_code TME_LOOKUP) = Some TME_LOOKUP"
  "tme_decode filter_ops (tme_code TME_EXECUTE) = Some TME_EXECUTE"
  "tme_decode filter_ops (load_code LD_W_ABS) = None"
  "tme_decode filter_ops (bpf_code (Ret RET_K)) = None"
  "tme_decode init_ops (tme_code TME_SET_MEMORY) = Some TME_SET_MEMORY"
  "tme_decode init_ops (tme_code TME_INIT) = Some TME_INIT"
  "tme_decode init_ops (tme_code TME_SET_REGISTER) = Some TME_SET_REGISTER"
  "tme_decode init_ops (tme_code TME_VALIDATE) = Some TME_VALIDATE"
  "tme_decode init_ops (load_code LD_IMM) = None"
  "tme_decode init_ops (bpf_code (Ret RET_K)) = None"
  by code_simp+

lemma word_store:
  assumes "EXTRACT_LONG p i = Some v"
  shows "rev (le32_bytes v) = chunk p i 4" and "i + 4 \<le> length p"
proof -
  have b: "i + 3 < length p" "v = be32 (p ! i) (p ! (i + 1)) (p ! (i + 2)) (p ! (i + 3))"
    using assms by (auto simp: EXTRACT_LONG_def peek_eq_Some split: option.splits)
  then show "i + 4 \<le> length p" by simp
  have "chunk p i 4 = [p ! i, p ! (i + 1), p ! (i + 2), p ! (i + 3)]"
    using b(1) by (intro nth_equalityI) (auto simp: nth_chunk less_Suc_eq numeral_eq_Suc)
  then show "rev (le32_bytes v) = chunk p i 4" using b(2) le32_bytes_le32 by (simp add: le32_def [symmetric])
qed

text \<open>The key of a packet the filter runs through the engine; a packet too short for it ends the filter.\<close>

definition keyed :: "u32 \<Rightarrow> packet \<times> timeval \<Rightarrow> keyed_packet option" where
  "keyed o' p =
     (case p of (q, now) \<Rightarrow>
        if buflen q \<le> o' \<or> buflen q < o' + 4 then None
        else Some (chunk (pkt_bytes q) (unat o') 4, wirelen q, now))"

definition packet_ok :: "packet \<Rightarrow> bool" where
  "packet_ok q \<longleftrightarrow> length (pkt_bytes q) = unat (buflen q) \<and> length (pkt_bytes q) < 2147483648"

lemma counting_filter_run:
  assumes "packet_ok q"
  shows "keyed o' (q, now) = None \<Longrightarrow> bpf_filter_ext (Some (counting_filter o')) q now m tme = Returns 0 m tme"
    and "keyed o' (q, now) = Some p \<Longrightarrow> engine_packet 0 0 p (m, tme) = Some (m', tme') \<Longrightarrow>
      bpf_filter_ext (Some (counting_filter o')) q now m tme = Returns 0 m' tme'"
proof -
  note run = bpf_filter_ext_def filter_run_unfold counting_filter_def stmt_def filter_step_def plain_def
    bpf_step_def bpf_init_def returns_def Let_def
  show "bpf_filter_ext (Some (counting_filter o')) q now m tme = Returns 0 m tme" if "keyed o' (q, now) = None"
    using that by (auto simp: run keyed_def split: if_splits)
  show "bpf_filter_ext (Some (counting_filter o')) q now m tme = Returns 0 m' tme'"
    if p: "keyed o' (q, now) = Some p" and e: "engine_packet 0 0 p (m, tme) = Some (m', tme')"
  proof -
    have l: "\<not> (buflen q \<le> o' \<or> buflen q < o' + 4)" and pk: "p = (chunk (pkt_bytes q) (unat o') 4, wirelen q, now)"
      using p by (auto simp: keyed_def split: if_splits)
    have "unat (o' + 4) = unat o' + 4"
    proof -
      have "unat o' < unat (buflen q)" "unat (buflen q) < 4294967296" "\<not> unat (buflen q) < unat (o' + 4)"
        using l unat_lt by (simp_all add: word_le_nat_alt word_less_nat_alt not_le)
      then show ?thesis using unat_add_small [of o' 4] assms by (simp add: packet_ok_def)
    qed
    then have "unat o' + 4 \<le> length (pkt_bytes q)" using l assms by (simp add: packet_ok_def word_less_nat_alt not_less)
    then obtain v where v: "EXTRACT_LONG (pkt_bytes q) (unat o') = Some v"
      by (auto simp: EXTRACT_LONG_def split: option.splits)
    from e obtain m0 r m1 tme1 c where
      s: "mx_write m (mx_addr m) (chunk (pkt_bytes q) (unat o') 4) = Some m0" "lookup_frontend m0 tme 0 now = Some (Some (r, m1, tme1))"
        "execute_frontend m1 tme1 (wirelen q) 0 = Some (c, m')" "tme' = tme1" "r \<noteq> TME_ERROR" "c \<noteq> TME_ERROR"
      by (auto simp: engine_packet_def pk split: bind_splits if_splits)
    have w: "put_ex m 0 EX_W v = Some m0" using s(1) word_store(1) [OF v] by (simp add: put_ex_def width_def)
    show ?thesis
      using l v w s(2-6) by (simp add: run filter_tme_def load_A_def store_ex_def tme_lookup_def tme_execute_def continue_def goto_def)
  qed
qed

fun monitor_run :: "bpf_insn list \<Rightarrow> (packet \<times> timeval) list \<Rightarrow> mem_type \<times> tme_core \<Rightarrow> (mem_type \<times> tme_core) option" where
  "monitor_run prog [] s = Some s"
| "monitor_run prog (p # ps) s =
     (case bpf_filter_ext (Some prog) (fst p) (snd p) (fst s) (snd s) of
        Returns v m tme \<Rightarrow> monitor_run prog ps (m, tme)
      | _ \<Rightarrow> None)"

lemma monitor_run_engine:
  assumes "\<forall>p \<in> set ps. packet_ok (fst p)" and "engine_run 0 0 (List.map_filter (keyed o') ps) s = Some s'"
  shows "monitor_run (counting_filter o') ps s = Some s'"
  using assms
proof (induction ps arbitrary: s)
  case (Cons p ps)
  obtain q now m tme where p: "p = (q, now)" "s = (m, tme)" by (cases p, cases s) auto
  then have ok: "packet_ok q" using Cons.prems(1) by simp
  show ?case
  proof (cases "keyed o' (q, now)")
    case None
    then show ?thesis using Cons p counting_filter_run(1) [OF ok None, of m tme] by (simp add: List.map_filter_simps)
  next
    case (Some kp)
    then obtain s1 where s1: "engine_packet 0 0 kp s = Some s1" "engine_run 0 0 (List.map_filter (keyed o') ps) s1 = Some s'"
      using Cons.prems(2) p by (auto simp: List.map_filter_simps split: bind_splits)
    obtain m1 tme1 where m1: "s1 = (m1, tme1)" by (cases s1)
    have "bpf_filter_ext (Some (counting_filter o')) q now m tme = Returns 0 m1 tme1"
      using counting_filter_run(2) [OF ok Some] s1(1) p m1 by simp
    then show ?thesis using Cons.IH [OF _ s1(2)] Cons.prems(1) p m1 by simp
  qed
qed (simp add: List.map_filter_simps)

text \<open>What the initialisation leaves behind.\<close>

lemma counting_setup_run:
  assumes "mx_addr m0 \<noteq> 0" and "length (block_data tme0) = 4" and "alloc n = Some (a, b)" and "length b = unat n"
    and "unat a + unat n < 4294967296" and "4 \<le> unat tbl" and "unat tbl + 1280056 \<le> unat n"
  shows "\<exists>m tme. bpf_filter_init (Some (counting_setup n tbl)) alloc now m0 tme0 = Some (Returns 1 m tme) \<and>
    core_inv m tme \<and> flows (active_data tme) m = [] \<and> others (active_data tme) m = (0, 0) \<and>
    key_area (active_data tme) m 0 \<and> mx_size m = n \<and> key_len (active_data tme) = 1 \<and> block_size (active_data tme) = 64 \<and>
    shared_memory_blocks (active_data tme) = 16000 \<and> active tme = 0 \<and> active_read tme = active_read tme0 \<and>
    IS_VALIDATED (validated_blocks tme) 0"
proof -
  let ?m = "\<lparr>mx_addr = a, mx_bytes = b, mx_size = n\<rparr>"
  let ?d = "zero_data\<lparr>lut_entries := 32007, shared_memory_blocks := 16000, block_size := 64, lookup_code := lut_fcn_mapper 0,
      rehashing_value := 1, out_lut_exec := 0, default_exec := 0, extra_segment_size := 0, key_len := 1\<rparr>"
  let ?tme = "tme0\<lparr>working := 0, block_data := (block_data tme0)[0 := ?d]\<rparr>"
  have n: "n \<noteq> 0" "tbl \<noteq> 0" using assms(6,7) by (auto simp: unat_eq_0)
  have nd: "needed ?d = 1280056" by (simp add: needed_def zero_data_def)
  have rm: "required_memory ?d = 1280056" by (simp add: required_memory_def zero_data_def)
  have tn: "tbl \<le> n" using assms(7) by (simp add: word_le_nat_alt)
  have room: "\<not> n - tbl < 1280056" using assms(7) tn by (simp add: word_less_nat_alt unat_sub_small)
  have "off ?m (tbl + a) = unat tbl" by (simp add: off_def)
  then obtain m where z: "ZERO_MEMORY ?m (tbl + a) 1280056 = Some m"
    using assms(4,7) by (simp add: ZERO_MEMORY_def mx_write_off blit_def)
  let ?tme1 = "?tme\<lparr>block_data := (block_data tme0)[0 := place ?d (tbl + a)],
      validated_blocks := VALIDATE (validated_blocks tme0) 0, active := 0, working := 0\<rparr>"
  have v: "validate_tme_block ?m ?tme 0 tbl = Some (TME_SUCCESS, m, ?tme1)"
    using n z room assms(2) rm
    by (simp add: validate_tme_block_def Let_def exec_fcn_mapper_def zero_data_def lut_fcn_mapper_def)
  have run: "bpf_filter_init (Some (counting_setup n tbl)) alloc now m0 tme0 = Some (Returns 1 m ?tme1)"
    using assms(1,2,3) n v
    by (simp add: bpf_filter_init_def init_run.simps counting_setup_def stmt_def init_step_def plain_def bpf_step_def bpf_init_def
        init_tme_def init_load_def tme_set_memory_def init_extended_memory_def checked_def continue_def goto_def returns_def
        init_tme_block_def tme_set_register_def working_data_def set_tme_block_register_def update_working_def tme_validate_def
        Let_def)
  have ready: "core_inv m ?tme1 \<and> flows (active_data ?tme1) m = [] \<and> others (active_data ?tme1) m = (0, 0)"
  proof (rule validated_block_ready [OF v])
    show "?d = block_data ?tme ! unat (0 :: u32)" "unat (0 :: u32) < length (block_data ?tme)" using assms(2) by simp_all
    show "needed ?d < 4294967296" using nd by simp
    show "mx_size ?m = of_nat (length (mx_bytes ?m))" "unat (mx_addr ?m) + length (mx_bytes ?m) < 4294967296" "tbl \<le> mx_size ?m"
      using assms(4,5) tn by simp_all
  qed (simp_all add: zero_data_def lut_fcn_mapper_def)
  have d: "active_data ?tme1 = place ?d (tbl + a)" using assms(2) by (simp add: active_data_def)
  have m: "mx_addr m = a" "mx_size m = n" using z by (auto simp: ZERO_MEMORY_def mx_write_def)
  have "key_area (active_data ?tme1) m 0"
    unfolding d using assms(6) m by (simp add: key_area_def entry_off_def off_def) (simp add: place_def)
  moreover have "IS_VALIDATED (VALIDATE (validated_blocks tme0) 0) 0"
    by (simp add: IS_VALIDATED_def VALIDATE_def bit_eq_iff bit_simps) (auto intro: exI [of _ 0] simp: bit_simps)
  ultimately show ?thesis
    using run ready m d by (intro exI [of _ m] exI [of _ ?tme1]) (simp add: place_def)
qed

text \<open>The read by an application with a buffer for the whole table.\<close>

definition engine_view :: "u8 list \<Rightarrow> u32 \<Rightarrow> (u8 list \<times> u64 \<times> u64) list" where
  "engine_view user n = flows_read 4 64 (unat ((n - 20) div 64)) user"

lemma keyed_length:
  assumes "keyed o' p = Some kp" and "packet_ok (fst p)"
  shows "length (fst kp) = 4"
proof -
  obtain q now where p: "p = (q, now)" by (cases p)
  then have l: "\<not> (buflen q \<le> o' \<or> buflen q < o' + 4)" and kp: "fst kp = chunk (pkt_bytes q) (unat o') 4"
    using assms(1) by (auto simp: keyed_def split: if_splits)
  have "unat (o' + 4) = unat o' + 4"
    using l unat_add_small [of o' 4] assms(2) p by (simp add: packet_ok_def word_le_nat_alt not_le)
  then show ?thesis using l assms(2) p kp by (simp add: packet_ok_def word_less_nat_alt not_less)
qed

text \<open>The validator of the build accepts the filter.\<close>

lemma counting_filter_valid:
  assumes "3 < unat sz"
  shows "bpf_validate_ext (counting_filter o') sz"
proof -
  have c: "load_code LD_W_ABS \<in> set valid_instructions_ext" "tme_code (ST_EX_IMM EX_W) \<in> set valid_instructions_ext"
    "tme_code TME_LOOKUP \<in> set valid_instructions_ext" "tme_code TME_EXECUTE \<in> set valid_instructions_ext"
    "bpf_code (Ret RET_K) \<in> set valid_instructions_ext"
    by (simp_all add: valid_instructions_ext_def tme_code.simps load_code.simps bpf_code.simps valid_instructions_def)
  have f: "BPF_CLASS (load_code LD_W_ABS) = BPF_LD" "BPF_MODE (load_code LD_W_ABS) = BPF_ABS"
    "BPF_CLASS (tme_code (ST_EX_IMM EX_W)) = BPF_ST" "tme_code (ST_EX_IMM EX_W) AND BPF_MEM_EX_IMM = BPF_MEM_EX_IMM"
    "BPF_SIZE (tme_code (ST_EX_IMM EX_W)) = BPF_W" "BPF_CLASS (tme_code TME_LOOKUP) = BPF_MISC"
    "BPF_CLASS (tme_code TME_EXECUTE) = BPF_MISC" "BPF_CLASS (bpf_code (Ret RET_K)) = BPF_RET"
    by (simp_all add: tme_code.simps load_code.simps bpf_code.simps BPF_CLASS_def BPF_MODE_def BPF_SIZE_def)
  have "\<not> sz \<le> 3" using assms by (simp add: word_le_nat_alt)
  then show ?thesis
    using c f by (simp add: bpf_validate_ext_def counting_filter_def stmt_def validate_insn_ext_def validate_load_def validate_store_ext_def
        Let_def)
qed

text \<open>C25: Monitor mode as a whole. The initialisation program of a table for keys of one word succeeds, its filter is
  accepted by the validator, and every packet it is run on ends with 0; a read then gives the application the
  packets without a flow and the flows of the packets that are long enough, as the specification counts them.\<close>

theorem monitor_counts_flows:
  assumes "mx_addr m0 \<noteq> 0" and "length (block_data tme0) = 4" and "active_read tme0 = 0"
    and "alloc n = Some (a, b)" and "length b = unat n" and "unat a + unat n < 4294967296"
    and "4 \<le> unat tbl" and "unat tbl + 1280056 \<le> unat n"
    and "\<forall>p \<in> set ps. packet_ok (fst p)" and "1024020 \<le> length user" and "length user < 4294967296"
  shows "\<exists>m tme m' tme' user' tme'' info x y fl.
    bpf_filter_init (Some (counting_setup n tbl)) alloc now m0 tme0 = Some (Returns 1 m tme) \<and>
    bpf_validate_ext (counting_filter o') (mx_size m) \<and>
    monitor_run (counting_filter o') ps (m, tme) = Some (m', tme') \<and>
    monitor_read m' tme' now' user = Some (Some (user', tme'', info)) \<and> engine_view user' info = (x, y) # fl \<and>
    accounts_of (List.map_filter (keyed o') ps) ([], 0, 0) (fl, y) \<and>
    packets_in (fl, y) = of_nat (length (List.map_filter (keyed o') ps))"
proof -
  obtain m tme where i: "bpf_filter_init (Some (counting_setup n tbl)) alloc now m0 tme0 = Some (Returns 1 m tme)"
      "core_inv m tme" "flows (active_data tme) m = []" "others (active_data tme) m = (0, 0)" "key_area (active_data tme) m 0"
      "mx_size m = n" "key_len (active_data tme) = 1" "block_size (active_data tme) = 64"
      "shared_memory_blocks (active_data tme) = 16000" "active tme = 0" "active_read tme = active_read tme0"
      "IS_VALIDATED (validated_blocks tme) 0"
    using counting_setup_run [where alloc = alloc and now = now, OF assms(1,2,4-8)] by blast
  let ?kp = "List.map_filter (keyed o') ps"
  have ok: "0 < mx_size m" using i(6) assms(8) by (simp add: word_less_nat_alt)
  have kl: "\<forall>p \<in> set ?kp. length (fst p) = key_bytes (active_data tme)"
    using keyed_length assms(9) i(7) by (fastforce simp: List.map_filter_def)
  obtain m' tme' where r: "engine_run 0 0 ?kp (m, tme) = Some (m', tme')" "core_inv m' tme'" "same_place (active_data tme) (active_data tme')"
      "accounts_of ?kp ([], 0, 0) (flows (active_data tme') m', others (active_data tme') m')"
    using engine_accounts [OF i(2,5) ok kl] i(3,4) by auto
  have c: "same_core tme tme'" by (rule engine_run_core [OF r(1)])
  have d: "key_len (active_data tme') = 1" "block_size (active_data tme') = 64" "shared_memory_blocks (active_data tme') = 16000"
    using r(3) i(7-9) by (simp_all add: same_place_def)
  have run: "monitor_run (counting_filter o') ps (m, tme) = Some (m', tme')" by (rule monitor_run_engine [OF assms(9) r(1)])
  obtain user' tme'' info x where u: "monitor_read m' tme' now' user = Some (Some (user', tme'', info))"
      "info = 20 + 64 * filled_blocks (active_data tme')"
      "flows_read 4 64 (unat (filled_blocks (active_data tme'))) user' = (x, others (active_data tme') m') # flows (active_data tme') m'"
    using monitor_read_flows [OF r(2), of user now'] c i(10-12) assms(3,10,11) d by (auto simp: same_core_def)
  have "unat (filled_blocks (active_data tme')) \<le> 16000"
    using r(2) d(3) by (simp add: core_inv_def counting_def table_inv_def geometry_def)
  then have "unat ((info - 20) div 64) = unat (filled_blocks (active_data tme'))"
    using u(2) by (simp add: unat_div unat_word_ariths)
  then have view: "engine_view user' info = (x, others (active_data tme') m') # flows (active_data tme') m'"
    using u(3) by (simp add: engine_view_def)
  have total: "packets_in (flows (active_data tme') m', others (active_data tme') m') = of_nat (length ?kp)"
    using accounts_total [OF r(4)] by (simp add: packets_in_def)
  have valid: "bpf_validate_ext (counting_filter o') (mx_size m)" by (rule counting_filter_valid) (use i(6) assms(8) in simp)
  show ?thesis
    using i(1) valid run u(1) view r(4) total
    by - (rule exI [of _ m], rule exI [of _ tme], rule exI [of _ m'], rule exI [of _ tme'], rule exI [of _ user'],
      rule exI [of _ tme''], rule exI [of _ info], rule exI [of _ x], rule exI, rule exI, intro conjI; simp?)
qed

lemma monitor_counts_flows_witness:
  "\<exists>m tme m' tme' user' tme'' info x y fl.
     bpf_filter_init (Some (counting_setup 1300000 16)) (\<lambda>n. Some (0x10000, replicate (unat n) 0)) (0, 0) small_mem
       (small_core\<lparr>block_data := replicate 4 zero_data\<rparr>) = Some (Returns 1 m tme) \<and>
     monitor_run (counting_filter 0) [(\<lparr>pkt_bytes = [1, 2, 3, 4], wirelen = 4, buflen = 4\<rparr>, (7, 0))] (m, tme) = Some (m', tme') \<and>
     monitor_read m' tme' (8, 0) (replicate 1024020 0) = Some (Some (user', tme'', info)) \<and>
     engine_view user' info = (x, y) # fl \<and> packets_in (fl, y) = 1"
proof -
  let ?ps = "[(\<lparr>pkt_bytes = [1, 2, 3, 4], wirelen = 4, buflen = 4\<rparr>, (7, 0))] :: (packet \<times> timeval) list"
  have h: "mx_addr small_mem \<noteq> 0" "length (block_data (small_core\<lparr>block_data := replicate 4 zero_data\<rparr>)) = 4"
    "active_read (small_core\<lparr>block_data := replicate 4 zero_data\<rparr>) = 0"
    "(\<lambda>n. Some (0x10000 :: u32, replicate (unat n) (0 :: u8))) (1300000 :: u32) = Some (0x10000, replicate 1300000 0)"
    "length (replicate 1300000 (0 :: u8)) = unat (1300000 :: u32)" "unat (0x10000 :: u32) + unat (1300000 :: u32) < 4294967296"
    "4 \<le> unat (16 :: u32)" "unat (16 :: u32) + 1280056 \<le> unat (1300000 :: u32)" "\<forall>p \<in> set ?ps. packet_ok (fst p)"
    "1024020 \<le> length (replicate 1024020 (0 :: u8))" "length (replicate 1024020 (0 :: u8)) < 4294967296"
    by (simp_all add: small_core_def packet_ok_def)
  have "of_nat (length (List.map_filter (keyed 0) ?ps)) = (1 :: u64)"
    by (simp add: List.map_filter_simps keyed_def)
  with monitor_counts_flows [where alloc = "\<lambda>n. Some (0x10000, replicate (unat n) 0)", OF h, of "(0, 0)" 0 "(8, 0)"]
  show ?thesis by (elim exE conjE) (intro exI conjI, assumption+, simp)
qed

section \<open>What the validator lets through\<close>

text \<open>C26: The validator checks the constant of an indirect store only, so that a program it accepts can write behind the
  extended memory of any size.\<close>

theorem accepted_filter_writes_outside:
  assumes "packet_ok q" and "unat (mx_size m) = length (mx_bytes m)" and "3 < unat (mx_size m)"
  shows "\<exists>prog. bpf_validate_ext prog (mx_size m) \<and> bpf_filter_ext (Some prog) q now m tme = Faults"
proof -
  let ?prog = "[stmt (load_code LDX_IMM) (mx_size m), stmt (tme_code (ST_EX_IND EX_W)) 0, stmt (bpf_code (Ret RET_K)) 0]"
  have c: "load_code LDX_IMM \<in> set valid_instructions_ext" "tme_code (ST_EX_IND EX_W) \<in> set valid_instructions_ext"
    "bpf_code (Ret RET_K) \<in> set valid_instructions_ext"
    by (simp_all add: valid_instructions_ext_def tme_code.simps load_code.simps bpf_code.simps valid_instructions_def)
  have f: "BPF_CLASS (load_code LDX_IMM) = BPF_LDX" "BPF_MODE (load_code LDX_IMM) = BPF_IMM"
    "BPF_CLASS (tme_code (ST_EX_IND EX_W)) = BPF_ST" "tme_code (ST_EX_IND EX_W) AND BPF_MEM_EX_IMM = BPF_MEM_EX_IMM"
    "BPF_SIZE (tme_code (ST_EX_IND EX_W)) = BPF_W" "BPF_CLASS (bpf_code (Ret RET_K)) = BPF_RET"
    by (simp_all add: tme_code.simps load_code.simps bpf_code.simps BPF_CLASS_def BPF_MODE_def BPF_SIZE_def)
  have "\<not> mx_size m \<le> 3" using assms(3) by (simp add: word_le_nat_alt)
  then have v: "bpf_validate_ext ?prog (mx_size m)"
    using c f by (simp add: bpf_validate_ext_def stmt_def validate_insn_ext_def validate_load_def validate_store_ext_def Let_def)
  have d: "tme_decode filter_ops (load_code LDX_IMM) = None" "tme_decode filter_ops (tme_code (ST_EX_IND EX_W)) = Some (ST_EX_IND EX_W)"
    by code_simp+
  have "put_ex m (mx_size m) EX_W 0 = None"
    using assms(2) by (simp add: put_ex_def mx_write_off off_def blit_def width_def)
  then have "bpf_filter_ext (Some ?prog) q now m tme = Faults"
    using d by (simp add: bpf_filter_ext_def filter_run_unfold stmt_def filter_step_def plain_def bpf_step_def bpf_init_def Let_def
        filter_tme_def store_ind_def store_ex_def)
  then show ?thesis using v by blast
qed

lemma accepted_filter_writes_outside_witness:
  "\<exists>prog. bpf_validate_ext prog 128 \<and>
     bpf_filter_ext (Some prog) \<lparr>pkt_bytes = [], wirelen = 0, buflen = 0\<rparr> (0, 0) small_mem small_core = Faults"
  using accepted_filter_writes_outside [of "\<lparr>pkt_bytes = [], wirelen = 0, buflen = 0\<rparr>" small_mem "(0, 0)" small_core]
  by (simp add: packet_ok_def)

text \<open>No program that loads from the extended memory is accepted, although the table of valid instructions
  has these loads: the switch of the validator has no case for their mode.\<close>

theorem extended_loads_rejected:
  assumes "ins \<in> set prog" and "code ins = tme_code (LD_EX_IMM w) \<or> code ins = tme_code (LD_EX_IND w)"
  shows "code ins \<in> set valid_instructions_ext \<and> \<not> bpf_validate_ext prog sz"
proof -
  have c: "code ins \<in> set valid_instructions_ext"
    using assms(2) by (cases w) (auto simp: valid_instructions_ext_def)
  have "\<not> validate_insn_ext sz len i ins" for len i
  proof -
    have "BPF_CLASS (code ins) = BPF_LD" "BPF_MODE (code ins) \<in> {BPF_MEM_EX_IMM, BPF_MEM_EX_IND}"
      using assms(2) by (cases w; force simp: BPF_CLASS_def BPF_MODE_def tme_code.simps)+
    then show ?thesis by (auto simp: validate_insn_ext_def validate_load_def)
  qed
  then have "\<not> validate_loop_ext sz len i prog" for len i
    using assms(1) by (induction prog arbitrary: i) auto
  then show ?thesis using c by (simp add: bpf_validate_ext_def)
qed

lemma extended_loads_rejected_witness:
  "\<not> bpf_validate_ext [stmt (tme_code (LD_EX_IMM EX_W)) 0, stmt (bpf_code (Ret RET_K)) 0] 65536"
  using extended_loads_rejected [of "stmt (tme_code (LD_EX_IMM EX_W)) 0" _ EX_W] by (simp add: stmt_def)

lemma jump_back_forever:
  assumes "init_run alloc now prog s = Some y"
  shows "prog = [stmt (jump_code JMP_JA) 0xffffffff] \<longrightarrow> bpc (mach s) \<noteq> 0"
proof (rule init_run.raw_induct [OF _ assms, where P = "\<lambda>alloc now prog s y.
    prog = [stmt (jump_code JMP_JA) 0xffffffff] \<longrightarrow> bpc (mach s) \<noteq> 0"], intro impI notI)
  fix f :: "allocator \<Rightarrow> timeval \<Rightarrow> bpf_insn list \<Rightarrow> ext_state \<Rightarrow> ext_outcome option" and alloc now prog s y
  assume ih: "\<And>alloc now prog s y. f alloc now prog s = Some y \<Longrightarrow> prog = [stmt (jump_code JMP_JA) 0xffffffff] \<longrightarrow> bpc (mach s) \<noteq> 0"
    and run: "(if bpc (mach s) < length prog
      then (case init_step alloc now (prog ! bpc (mach s)) s of Goes t \<Rightarrow> f alloc now prog t | r \<Rightarrow> Some r)
      else Some Faults) = Some y"
    and p: "prog = [stmt (jump_code JMP_JA) 0xffffffff]" and z: "bpc (mach s) = 0"
  have "tme_decode init_ops (jump_code JMP_JA) = None" by code_simp
  then have "init_step alloc now (prog ! 0) s = Goes (s\<lparr>mach := (mach s)\<lparr>bpc := 0\<rparr>\<rparr>)"
    using p z by (simp add: init_step_def stmt_def goto_def del: jump_code.simps)
  then have "f alloc now prog (s\<lparr>mach := (mach s)\<lparr>bpc := 0\<rparr>\<rparr>) = Some y" using run p z by simp
  from ih [OF this] p show False by simp
qed

text \<open>The initialisation program is run without validation: it can loop for ever in the kernel, with the lock of the
  machine held, or write outside its scratch memory.\<close>

theorem initialisation_unchecked:
  "bpf_filter_init (Some [stmt (jump_code JMP_JA) 0xffffffff]) alloc now m tme = None \<and>
   bpf_filter_init (Some [stmt (bpf_code (Store ST)) 16, stmt (bpf_code (Ret RET_K)) 1]) alloc now m tme = Some Faults"
proof
  show "bpf_filter_init (Some [stmt (jump_code JMP_JA) 0xffffffff]) alloc now m tme = None"
    using jump_back_forever [of alloc now "[stmt (jump_code JMP_JA) 0xffffffff]"]
    by (cases "bpf_filter_init (Some [stmt (jump_code JMP_JA) 0xffffffff]) alloc now m tme")
      (force simp: bpf_filter_init_def bpf_init_def)+
  have "tme_decode init_ops (bpf_code (Store ST)) = None" by code_simp
  then show "bpf_filter_init (Some [stmt (bpf_code (Store ST)) 16, stmt (bpf_code (Ret RET_K)) 1]) alloc now m tme = Some Faults"
    by (simp add: bpf_filter_init_def init_run.simps stmt_def init_step_def plain_def bpf_step_def bpf_init_def bpf_store_def)
qed

end
