(* ===== verification/Tme_Sessions.thy ===== *)
theory Tme_Sessions
  imports Tme_Table Tme_Exec "HOL-Library.Sublist"
begin

text \<open>
  The TCP connections the table engine follows: what has been seen of a connection that counts as
  open or closed, what is counted, and which connections an automatic deletion drops.
\<close>

section \<open>The state in the block\<close>

lemma word_of_enc: "i < length ws \<Longrightarrow> word_of (concat (map le32_bytes ws)) i = ws ! i"
proof (induction ws arbitrary: i)
  case (Cons w ws)
  show ?case
  proof (cases i)
    case (Suc j)
    then show ?thesis using Cons by (simp add: word_of_def)
  qed (simp add: word_of_def)
qed simp

lemma length_tcp_enc [simp]: "length (tcp_enc s) = 76"
  by (simp add: tcp_enc_def tcp_words_def)

lemma word_of_tcp_enc: "i < 19 \<Longrightarrow> word_of (tcp_enc s) i = tcp_words s ! i"
  unfolding tcp_enc_def by (rule word_of_enc) (simp add: tcp_words_def)

lemma tcp_dec_enc [simp]: "tcp_dec (tcp_enc s) = s"
  by (simp add: tcp_dec_def word_of_tcp_enc) (simp add: tcp_words_def)

text \<open>The state in the memory follows the state machine.\<close>

lemma tcp_session_state:
  assumes "tcp_session block sz d m mem_data = Some m'"
  shows "\<exists>g b. read_segment m mem_data sz = Some g \<and> mx_read m (block + key_len d * 4) 76 = Some b \<and>
    mx_read m' (block + key_len d * 4) 76 = Some (tcp_enc (session_step g (tcp_dec b)))"
proof -
  obtain g b where g: "read_segment m mem_data sz = Some g" "mx_read m (block + key_len d * 4) 76 = Some b"
    "mx_write m (block + key_len d * 4) (tcp_enc (session_step g (tcp_dec b))) = Some m'"
    using assms by (auto simp: tcp_session_def Let_def split: bind_splits)
  then obtain c where c: "blit (mx_bytes m) (off m (block + key_len d * 4)) (tcp_enc (session_step g (tcp_dec b))) = Some c"
    "m' = m\<lparr>mx_bytes := c\<rparr>" by (auto simp: mx_write_off)
  have "mx_read m' (block + key_len d * 4) 76 = Some (tcp_enc (session_step g (tcp_dec b)))"
    using chunk_blit_same [OF c(1)] blit_bound [OF c(1)] blit_length [OF c(1)] c(2) by (simp add: mx_read_off slice_chunk)
  then show ?thesis using g by blast
qed

section \<open>What is counted\<close>

definition kept :: "tcp_session_data \<Rightarrow> u32 \<times> u32 \<times> u32 \<times> u32 \<times> timeval" where
  "kept s = (pkts_cln_to_srv s, pkts_srv_to_cln s, bytes_cln_to_srv s, bytes_srv_to_cln s, timestamp_block s)"

named_theorems keeping

lemma parts_kept [keeping]: "kept (advance_srv g s) = kept s"
  "kept (advance_cln g s) = kept s"
  "kept (snd (in_unknown g fl s)) = kept s"
  "kept (snd (in_syn_rcv g fl same s)) = kept s"
  "kept (snd (in_syn_ack_rcv g fl same s)) = kept s"
  by (simp_all add: advance_srv_def advance_cln_def in_unknown_def in_syn_rcv_def in_syn_ack_rcv_def kept_def)

lemma ack_kept [keeping]: "kept (s\<lparr>ack_cln := x\<rparr>) = kept s" "kept (s\<lparr>ack_srv := x\<rparr>) = kept s"
  by (simp_all add: kept_def)

lemma established_kept [keeping]: "kept (snd (in_established g fl same s)) = kept s"
  by (simp add: in_established_def Let_def keeping)

lemma fin_srv_kept [keeping]: "kept (snd (in_fin_srv g fl same s)) = kept s"
  by (simp add: in_fin_srv_def Let_def keeping)

lemma fin_cln_kept [keeping]: "kept (snd (in_fin_cln g fl same s)) = kept s"
  by (simp add: in_fin_cln_def Let_def keeping)

lemma next_status_kept: "kept (snd (next_status g s)) = kept s"
  by (simp add: next_status_def Let_def keeping)

definition pkts_total :: "tcp_session_data \<Rightarrow> u32" where
  "pkts_total s = pkts_cln_to_srv s + pkts_srv_to_cln s"

definition bytes_total :: "tcp_session_data \<Rightarrow> u32" where
  "bytes_total s = bytes_cln_to_srv s + bytes_srv_to_cln s"

lemma step_counts:
  "pkts_total (session_step g s) = pkts_total s + 1"
  "bytes_total (session_step g s) = bytes_total s + sg_size g"
  using next_status_kept [of g "count_segment g s"]
  by (auto simp: session_step_def kept_def pkts_total_def bytes_total_def count_segment_def Let_def split: prod.splits)

lemma session_counts:
  "pkts_total (fold session_step gs s) = pkts_total s + of_nat (length gs)"
  "bytes_total (fold session_step gs s) = bytes_total s + sum_list (map sg_size gs)"
  by (induction gs arbitrary: s) (simp_all add: step_counts algebra_simps)

section \<open>Opening and closing\<close>

definition sg_fl :: "segment \<Rightarrow> u8" where
  "sg_fl g = sg_flags g AND (ACK OR FIN OR SYN OR RST)"

text \<open>The three segments of an opening, the last one with the direction of the first.\<close>

definition answers :: "segment \<Rightarrow> segment \<Rightarrow> bool" where
  "answers g1 g2 \<longleftrightarrow> sg_fl g1 = SYN \<and> sg_fl g2 = SYN OR ACK \<and> sg_dir g2 \<noteq> sg_dir g1 \<and> sg_ack g2 = sg_seq g1 + 1"

definition handshake :: "segment \<Rightarrow> segment \<Rightarrow> segment \<Rightarrow> bool" where
  "handshake g1 g2 g3 \<longleftrightarrow> answers g1 g2 \<and> sg_fl g3 = ACK \<and> sg_dir g3 = sg_dir g1 \<and> sg_ack g3 = sg_seq g2 + 1"

definition opened :: "segment list \<Rightarrow> u32 \<Rightarrow> segment list \<Rightarrow> bool" where
  "opened gs dir rest \<longleftrightarrow> (\<exists>g1 g2 g3. handshake g1 g2 g3 \<and> sg_dir g1 = dir \<and> subseq (g1 # g2 # g3 # rest) gs)"

definition fin :: "segment \<Rightarrow> bool" where
  "fin g \<longleftrightarrow> has (sg_fl g) FIN"

text \<open>What the state of a connection says of the segments that have been seen.\<close>

definition history :: "segment list \<Rightarrow> tcp_session_data \<Rightarrow> bool" where
  "history gs s \<longleftrightarrow>
     (if tcp_status s = SYN_RCV
      then \<exists>g1. sg_fl g1 = SYN \<and> sg_dir g1 = direction s \<and> sg_seq g1 = seq_n_0_cln s \<and> subseq [g1] gs
      else if tcp_status s = SYN_ACK_RCV
      then \<exists>g1 g2. answers g1 g2 \<and> sg_dir g1 = direction s \<and> sg_seq g2 = seq_n_0_srv s \<and> subseq [g1, g2] gs
      else if tcp_status s = ESTABLISHED then opened gs (direction s) []
      else if tcp_status s = FIN_CLN_RCV then \<exists>f. fin f \<and> sg_dir f = direction s \<and> opened gs (direction s) [f]
      else if tcp_status s = FIN_SRV_RCV then \<exists>f. fin f \<and> sg_dir f \<noteq> direction s \<and> opened gs (direction s) [f]
      else if tcp_status s = CLOSED_FIN
      then \<exists>f f'. fin f \<and> fin f' \<and> (sg_dir f = direction s) \<noteq> (sg_dir f' = direction s) \<and> opened gs (direction s) [f, f']
      else True)"

lemma subseq_next: "subseq xs gs \<Longrightarrow> subseq (xs @ [g]) (gs @ [g])"
  by (simp add: subseq_append')

lemma subseq_snoc: "subseq xs gs \<Longrightarrow> subseq xs (gs @ [g])"
  by (rule list_emb_prefix)

lemma opened_snoc: "opened gs dir rest \<Longrightarrow> opened (gs @ [g]) dir rest"
  unfolding opened_def using subseq_snoc by blast

lemma opened_next: "opened gs dir rest \<Longrightarrow> opened (gs @ [g]) dir (rest @ [g])"
  unfolding opened_def using subseq_next by fastforce

lemma history_other:
  assumes "st \<noteq> SYN_RCV" and "st \<noteq> SYN_ACK_RCV" and "st \<noteq> ESTABLISHED" and "st \<noteq> FIN_CLN_RCV"
    and "st \<noteq> FIN_SRV_RCV" and "st \<noteq> CLOSED_FIN"
  shows "history gs (s\<lparr>tcp_status := st\<rparr>)"
  using assms by (simp add: history_def)

lemma history_syn:
  assumes "sg_fl g = SYN" and "sg_dir g = direction s" and "sg_seq g = seq_n_0_cln s"
  shows "history (gs @ [g]) (s\<lparr>tcp_status := SYN_RCV\<rparr>)"
  using assms subseq_next [of "[]" gs g] by (auto simp: history_def)

lemma history_syn_ack:
  assumes "history gs s" and "tcp_status s = SYN_RCV" and "sg_fl g = SYN OR ACK" and "sg_dir g \<noteq> direction s"
    and "sg_ack g = seq_n_0_cln s + 1" and "sg_seq g = seq_n_0_srv s'" and "direction s' = direction s"
  shows "history (gs @ [g]) (s'\<lparr>tcp_status := SYN_ACK_RCV\<rparr>)"
proof -
  obtain g1 where g1: "sg_fl g1 = SYN" "sg_dir g1 = direction s" "sg_seq g1 = seq_n_0_cln s" "subseq [g1] gs"
    using assms(1,2) by (auto simp: history_def)
  then have "answers g1 g" using assms(3-5) by (simp add: answers_def)
  moreover have "subseq [g1, g] (gs @ [g])" using subseq_next [OF g1(4), of g] by simp
  ultimately show ?thesis using g1 assms(6,7) by (auto simp: history_def)
qed

lemma history_ack:
  assumes "history gs s" and "tcp_status s = SYN_ACK_RCV" and "sg_fl g = ACK" and "sg_dir g = direction s"
    and "sg_ack g = seq_n_0_srv s + 1" and "direction s' = direction s"
  shows "history (gs @ [g]) (s'\<lparr>tcp_status := ESTABLISHED\<rparr>)"
proof -
  obtain g1 g2 where g: "answers g1 g2" "sg_dir g1 = direction s" "sg_seq g2 = seq_n_0_srv s" "subseq [g1, g2] gs"
    using assms(1,2) by (auto simp: history_def)
  then have "handshake g1 g2 g" using assms(3-5) by (simp add: handshake_def)
  moreover have "subseq [g1, g2, g] (gs @ [g])" using subseq_next [OF g(4), of g] by simp
  ultimately have "opened (gs @ [g]) (direction s) []" using g(2) by (auto simp: opened_def)
  then show ?thesis using assms(6) by (simp add: history_def)
qed

lemma history_stays:
  assumes "history gs s" and "direction s' = direction s" and "seq_n_0_srv s' = seq_n_0_srv s"
    and "seq_n_0_cln s' = seq_n_0_cln s"
  shows "history (gs @ [g]) (s'\<lparr>tcp_status := tcp_status s\<rparr>)"
  using assms subseq_snoc opened_snoc unfolding history_def by (auto 0 3 split: if_splits)

lemma history_fin:
  assumes "history gs s" and "fin g" and "direction s' = direction s"
  shows "tcp_status s = ESTABLISHED \<Longrightarrow> sg_dir g = direction s \<Longrightarrow> history (gs @ [g]) (s'\<lparr>tcp_status := FIN_CLN_RCV\<rparr>)"
    and "tcp_status s = ESTABLISHED \<Longrightarrow> sg_dir g \<noteq> direction s \<Longrightarrow> history (gs @ [g]) (s'\<lparr>tcp_status := FIN_SRV_RCV\<rparr>)"
    and "tcp_status s = FIN_SRV_RCV \<Longrightarrow> sg_dir g = direction s \<Longrightarrow> history (gs @ [g]) (s'\<lparr>tcp_status := CLOSED_FIN\<rparr>)"
    and "tcp_status s = FIN_CLN_RCV \<Longrightarrow> sg_dir g \<noteq> direction s \<Longrightarrow> history (gs @ [g]) (s'\<lparr>tcp_status := CLOSED_FIN\<rparr>)"
  using assms opened_next [of gs "direction s" "[]" g] opened_next [of gs "direction s" "[f]" g for f]
  by (fastforce simp: history_def)+

text \<open>The parts of a state the history is about.\<close>

definition same_view :: "tcp_session_data \<Rightarrow> tcp_session_data \<Rightarrow> bool" where
  "same_view s s' \<longleftrightarrow> direction s' = direction s \<and> seq_n_0_srv s' = seq_n_0_srv s \<and> seq_n_0_cln s' = seq_n_0_cln s"

lemma advance_view: "same_view s (advance_srv g s)" "same_view s (advance_cln g s)"
  "same_view s (advance_srv g s\<lparr>ack_cln := x\<rparr>)" "same_view s (advance_srv g s\<lparr>ack_srv := x\<rparr>)"
  "same_view s (advance_cln g s\<lparr>ack_cln := x\<rparr>)" "same_view s (advance_cln g s\<lparr>ack_srv := x\<rparr>)"
  "same_view s s" "same_view s (s\<lparr>ack_cln := x\<rparr>)" "same_view s (s\<lparr>ack_srv := x\<rparr>)"
  by (simp_all add: same_view_def advance_srv_def advance_cln_def)

lemma stays:
  assumes "history gs s" and "same_view s s'" and "tcp_status s = st"
  shows "history (gs @ [g]) (s'\<lparr>tcp_status := st\<rparr>)"
  using history_stays [of gs s s'] assms by (simp add: same_view_def)

abbreviation goes_on :: "segment list \<Rightarrow> segment \<Rightarrow> u32 \<times> tcp_session_data \<Rightarrow> bool" where
  "goes_on gs g r \<equiv> history (gs @ [g]) (snd r\<lparr>tcp_status := fst r\<rparr>)"

lemma view_fin: "same_view s s' \<Longrightarrow> direction s' = direction s"
  by (simp add: same_view_def)

lemma goes_on_cases:
  assumes "history gs s"
  shows "tcp_status s = UNKNOWN \<Longrightarrow> goes_on gs g (in_unknown g (sg_fl g) s)"
    and "tcp_status s = SYN_RCV \<Longrightarrow> goes_on gs g (in_syn_rcv g (sg_fl g) (sg_dir g = direction s) s)"
    and "tcp_status s = SYN_ACK_RCV \<Longrightarrow> goes_on gs g (in_syn_ack_rcv g (sg_fl g) (sg_dir g = direction s) s)"
proof -
  show "goes_on gs g (in_unknown g (sg_fl g) s)" if "tcp_status s = UNKNOWN"
    by (simp add: in_unknown_def history_other) (simp add: history_syn)
  show "goes_on gs g (in_syn_rcv g (sg_fl g) (sg_dir g = direction s) s)" if "tcp_status s = SYN_RCV"
    using history_syn_ack [OF assms that] by (simp add: in_syn_rcv_def history_other history_syn)
  show "goes_on gs g (in_syn_ack_rcv g (sg_fl g) (sg_dir g = direction s) s)" if "tcp_status s = SYN_ACK_RCV"
    using history_ack [OF assms that] stays [OF assms advance_view(7) that]
    by (simp add: in_syn_ack_rcv_def history_other)
qed

lemma goes_on_open:
  assumes "history gs s"
  shows "tcp_status s = ESTABLISHED \<Longrightarrow> goes_on gs g (in_established g (sg_fl g) (sg_dir g = direction s) s)"
    and "tcp_status s = FIN_SRV_RCV \<Longrightarrow> goes_on gs g (in_fin_srv g (sg_fl g) (sg_dir g = direction s) s)"
    and "tcp_status s = FIN_CLN_RCV \<Longrightarrow> goes_on gs g (in_fin_cln g (sg_fl g) (sg_dir g = direction s) s)"
proof -
  note facts = history_fin [OF assms, unfolded fin_def] stays [OF assms] view_fin advance_view
  show "goes_on gs g (in_established g (sg_fl g) (sg_dir g = direction s) s)" if "tcp_status s = ESTABLISHED"
    using that by (simp add: in_established_def Let_def history_other facts)
  show "goes_on gs g (in_fin_srv g (sg_fl g) (sg_dir g = direction s) s)" if "tcp_status s = FIN_SRV_RCV"
    using that by (simp add: in_fin_srv_def Let_def history_other facts)
  show "goes_on gs g (in_fin_cln g (sg_fl g) (sg_dir g = direction s) s)" if "tcp_status s = FIN_CLN_RCV"
    using that by (simp add: in_fin_cln_def Let_def history_other facts)
qed

lemma goes_on_if: "(c \<Longrightarrow> goes_on gs g a) \<Longrightarrow> (\<not> c \<Longrightarrow> goes_on gs g b) \<Longrightarrow> goes_on gs g (if c then a else b)"
  by simp

lemma next_status_history:
  assumes "history gs s"
  shows "goes_on gs g (next_status g s)"
  unfolding next_status_def Let_def sg_fl_def [symmetric]
  by (intro goes_on_if) (rule goes_on_cases goes_on_open; (rule assms | assumption) |
    (simp only: fst_conv snd_conv, (rule stays [OF assms advance_view(7)], assumption | rule history_other; simp)))+

lemma history_parts:
  assumes "same_view s s'" and "tcp_status s' = tcp_status s"
  shows "history gs s' = history gs s"
  using assms by (simp add: history_def same_view_def)

lemma session_step_history:
  assumes "history gs s"
  shows "history (gs @ [g]) (session_step g s)"
proof -
  have "history gs (count_segment g s)"
    using assms history_parts [of s "count_segment g s"] by (simp add: count_segment_def same_view_def Let_def)
  then have "goes_on gs g (next_status g (count_segment g s))" by (rule next_status_history)
  moreover obtain st s1 where r: "next_status g (count_segment g s) = (st, s1)" by force
  ultimately have "history (gs @ [g]) (s1\<lparr>tcp_status := st\<rparr>)" by simp
  moreover have "history (gs @ [g]) (s1\<lparr>tcp_status := st, timestamp_block := x\<rparr>) = history (gs @ [g]) (s1\<lparr>tcp_status := st\<rparr>)" for x
    by (rule history_parts) (simp_all add: same_view_def)
  ultimately show ?thesis by (simp add: session_step_def Let_def r)
qed

lemma history_run: "history gs s \<Longrightarrow> history (gs @ hs) (fold session_step hs s)"
proof (induction hs arbitrary: gs s)
  case (Cons g hs)
  then show ?case using Cons.IH [OF session_step_history [OF Cons.prems]] by simp
qed simp

lemma has_masked: "has (f AND (ACK OR FIN OR SYN OR RST)) RST \<longleftrightarrow> has f RST"
  by (simp add: has_def and.assoc)

lemma session_step_reset:
  assumes "tcp_status (session_step g s) = CLOSED_RST"
  shows "tcp_status s = CLOSED_RST \<or> has (sg_flags g) RST"
proof -
  have "fst (next_status g (count_segment g s)) = CLOSED_RST"
    using assms by (auto simp: session_step_def Let_def split: prod.splits if_splits)
  moreover have "tcp_status (count_segment g s) = tcp_status s"
    by (simp add: count_segment_def Let_def)
  ultimately show ?thesis
    unfolding next_status_def Let_def
    by (auto simp: in_unknown_def in_syn_rcv_def in_syn_ack_rcv_def in_established_def in_fin_srv_def in_fin_cln_def
        has_masked [simplified] Let_def split: if_splits)
qed

lemma run_reset:
  "tcp_status (fold session_step gs s) = CLOSED_RST \<Longrightarrow>
     tcp_status s = CLOSED_RST \<or> (\<exists>g \<in> set gs. has (sg_flags g) RST)"
proof (induction gs arbitrary: s)
  case (Cons g gs)
  then show ?case using Cons.IH [of "session_step g s"] session_step_reset [of g s] by auto
qed simp

text \<open>C29: A connection whose state is ESTABLISHED, FIN_CLN_RCV, FIN_SRV_RCV or CLOSED_FIN has been opened by a SYN, a
  SYN with the acknowledgement of its number from the other side, and the acknowledgement of that one's;
  one in the state CLOSED_FIN has then been ended by a FIN of each side. The state CLOSED_RST needs no handshake,
  but a segment with RST. The counters add up to the packets and bytes.\<close>

theorem tcp_session_opened:
  assumes "tcp_status s = UNKNOWN" and "s' = fold session_step gs s"
  shows "(tcp_status s' \<in> {ESTABLISHED, FIN_CLN_RCV, FIN_SRV_RCV, CLOSED_FIN} \<longrightarrow>
      (\<exists>g1 g2 g3. handshake g1 g2 g3 \<and> sg_dir g1 = direction s' \<and> subseq [g1, g2, g3] gs)) \<and>
    (tcp_status s' = CLOSED_FIN \<longrightarrow>
      (\<exists>g1 g2 g3 f f'. handshake g1 g2 g3 \<and> fin f \<and> fin f' \<and> (sg_dir f = sg_dir g1) \<noteq> (sg_dir f' = sg_dir g1) \<and>
        subseq [g1, g2, g3, f, f'] gs)) \<and>
    (tcp_status s' = CLOSED_RST \<longrightarrow> (\<exists>g \<in> set gs. has (sg_flags g) RST)) \<and>
    pkts_total s' = pkts_total s + of_nat (length gs) \<and> bytes_total s' = bytes_total s + sum_list (map sg_size gs)"
proof -
  have h: "history gs s'" using history_run [of "[]" s gs] assms by (simp add: history_def)
  have shorter: "opened gs dir []" if o: "opened gs dir rest" for dir rest
  proof -
    obtain g1 g2 g3 where g: "handshake g1 g2 g3" "sg_dir g1 = dir" "subseq (g1 # g2 # g3 # rest) gs"
      using o unfolding opened_def by blast
    have "subseq [g1, g2, g3] (g1 # g2 # g3 # rest)" by simp
    from subseq_order.trans [OF this g(3)] g(1,2) show ?thesis by (auto simp: opened_def)
  qed
  show ?thesis
  proof (intro conjI impI)
    assume "tcp_status s' \<in> {ESTABLISHED, FIN_CLN_RCV, FIN_SRV_RCV, CLOSED_FIN}"
    then have "opened gs (direction s') []" using h shorter by (auto simp: history_def)
    then show "\<exists>g1 g2 g3. handshake g1 g2 g3 \<and> sg_dir g1 = direction s' \<and> subseq [g1, g2, g3] gs"
      by (auto simp: opened_def)
  next
    assume "tcp_status s' = CLOSED_FIN"
    then obtain f f' where f: "fin f" "fin f'" "(sg_dir f = direction s') \<noteq> (sg_dir f' = direction s')"
      "opened gs (direction s') [f, f']" using h by (auto simp: history_def)
    then obtain g1 g2 g3 where "handshake g1 g2 g3" "sg_dir g1 = direction s'" "subseq [g1, g2, g3, f, f'] gs"
      by (auto simp: opened_def)
    then show "\<exists>g1 g2 g3 f f'. handshake g1 g2 g3 \<and> fin f \<and> fin f' \<and> (sg_dir f = sg_dir g1) \<noteq> (sg_dir f' = sg_dir g1) \<and>
        subseq [g1, g2, g3, f, f'] gs" using f by metis
  next
    assume "tcp_status s' = CLOSED_RST"
    then show "\<exists>g \<in> set gs. has (sg_flags g) RST" using run_reset [of gs s] assms by simp
  qed (simp_all add: assms(2) session_counts)
qed

lemma tcp_session_opened_witness:
  "let s = \<lparr>timestamp_block = (5, 0), syn_timestamp = (0, 0), last_timestamp = (0, 0), syn_ack_timestamp = (0, 0),
       direction = 0, seq_n_0_srv = 0, seq_n_0_cln = 0, ack_srv = 0, ack_cln = 0, tcp_status = UNKNOWN, pkts_cln_to_srv = 0,
       pkts_srv_to_cln = 0, bytes_srv_to_cln = 0, bytes_cln_to_srv = 0, close_state = 0\<rparr>;
     gs = [\<lparr>sg_dir = 0, sg_flags = SYN, sg_seq = 100, sg_ack = 0, sg_size = 60\<rparr>,
       \<lparr>sg_dir = 1, sg_flags = SYN OR ACK, sg_seq = 200, sg_ack = 101, sg_size = 60\<rparr>,
       \<lparr>sg_dir = 0, sg_flags = ACK, sg_seq = 101, sg_ack = 201, sg_size = 54\<rparr>] in
     tcp_status (fold session_step gs s) = ESTABLISHED \<and>
     (\<exists>g1 g2 g3. handshake g1 g2 g3 \<and> sg_dir g1 = direction (fold session_step gs s) \<and> subseq [g1, g2, g3] gs)"
proof -
  let ?s = "\<lparr>timestamp_block = (5, 0), syn_timestamp = (0, 0), last_timestamp = (0, 0), syn_ack_timestamp = (0, 0),
       direction = 0, seq_n_0_srv = 0, seq_n_0_cln = 0, ack_srv = 0, ack_cln = 0, tcp_status = UNKNOWN, pkts_cln_to_srv = 0,
       pkts_srv_to_cln = 0, bytes_srv_to_cln = 0, bytes_cln_to_srv = 0, close_state = 0\<rparr>"
  let ?gs = "[\<lparr>sg_dir = 0, sg_flags = SYN, sg_seq = 100, sg_ack = 0, sg_size = 60\<rparr>,
       \<lparr>sg_dir = 1, sg_flags = SYN OR ACK, sg_seq = 200, sg_ack = 101, sg_size = 60\<rparr>,
       \<lparr>sg_dir = 0, sg_flags = ACK, sg_seq = 101, sg_ack = 201, sg_size = 54\<rparr>]"
  have "tcp_status (fold session_step ?gs ?s) = ESTABLISHED" by code_simp
  moreover from this have "\<exists>g1 g2 g3. handshake g1 g2 g3 \<and> sg_dir g1 = direction (fold session_step ?gs ?s) \<and> subseq [g1, g2, g3] ?gs"
    using tcp_session_opened [of ?s "fold session_step ?gs ?s" ?gs] by simp
  ultimately show ?thesis unfolding Let_def by blast
qed

section \<open>Deletion\<close>

lemma open_time:
  assumes "\<not> closed (tcp_status (session_step g s))"
  shows "fst (timestamp_block (session_step g s)) = 0x7fffffff"
proof -
  obtain st s1 where r: "next_status g (count_segment g s) = (st, s1)" by force
  then have "timestamp_block s1 = timestamp_block (count_segment g s)"
    using next_status_kept [of g "count_segment g s"] by (simp add: kept_def)
  also have "fst \<dots> = 0x7fffffff" by (simp add: count_segment_def Let_def)
  finally show ?thesis using assms r by (simp add: session_step_def Let_def split: if_splits)
qed

text \<open>The time stamp that is to keep the block of an open connection from being deleted, the largest number
  of seconds, overflows when the grace period is added: as soon as the table is full the block can be deleted,
  whatever the time of the last read.\<close>

theorem open_session_deletable:
  assumes "tcp_session block sz d m mem_data = Some m'"
    and "mx_read m' (block + key_len d * 4) 76 = Some b" and "\<not> closed (tcp_status (tcp_dec b))"
    and "enable_deletion d'" and "max_fill_state d' \<le> filled_entries d'" and "0 \<le> sint (fst (last_read d'))"
  shows "IS_DELETABLE m' (block + key_len d * 4) d' = Some True"
proof -
  obtain g b0 where g: "b = tcp_enc (session_step g (tcp_dec b0))" using tcp_session_state [OF assms(1)] assms(2) by auto
  have "fst (timestamp_block (session_step g (tcp_dec b0))) = 0x7fffffff" using open_time assms(3) g by simp
  then have "take 4 b = le32_bytes 0x7fffffff" using g by (simp add: tcp_enc_def tcp_words_def)
  moreover have "mx_read m' (block + key_len d * 4) 4 = Some (take 4 b)"
    using assms(2) by (auto simp: mx_read_def slice_def chunk_def min_def split: if_splits)
  ultimately have "ULONG_AT m' (block + key_len d * 4) = Some 0x7fffffff" by (simp add: ULONG_AT_def)
  then show ?thesis using assms(4-6) by (simp add: IS_DELETABLE_def not_less)
qed

lemma open_session_deletable_witness:
  "\<exists>m m' b d. tcp_session 0x101c 60 d m 0x1000 = Some m' \<and> mx_read m' (0x101c + key_len d * 4) 76 = Some b \<and>
     tcp_status (tcp_dec b) = SYN_RCV \<and> IS_DELETABLE m' (0x101c + key_len d * 4) d = Some True"
proof -
  let ?m = "\<lparr>mx_addr = 0x1000, mx_bytes = replicate 25 0 @ [2, 0, 0] @ replicate 80 0, mx_size = 108\<rparr>"
  let ?d = "zero_data\<lparr>key_len := 1, enable_deletion := True, last_read := (1000, 0)\<rparr>"
  let ?b = "tcp_enc \<lparr>timestamp_block = (0x7fffffff, 0), syn_timestamp = (0, 0), last_timestamp = (0, 0),
       syn_ack_timestamp = (0, 0), direction = 0, seq_n_0_srv = 0, seq_n_0_cln = 0, ack_srv = 0, ack_cln = 0,
       tcp_status = SYN_RCV, pkts_cln_to_srv = 1, pkts_srv_to_cln = 0, bytes_srv_to_cln = 0, bytes_cln_to_srv = 60,
       close_state = 0\<rparr>"
  let ?m' = "?m\<lparr>mx_bytes := replicate 25 0 @ [2, 0, 0] @ replicate 4 0 @ ?b\<rparr>"
  have s: "tcp_session 0x101c 60 ?d ?m 0x1000 = Some ?m'" by code_simp
  have r: "mx_read ?m' (0x101c + key_len ?d * 4) 76 = Some ?b" by code_simp
  have "IS_DELETABLE ?m' (0x101c + key_len ?d * 4) ?d = Some True"
    by (rule open_session_deletable [OF s r]) (simp_all add: closed_def zero_data_def)
  then show ?thesis using s r by (metis tcp_dec_enc tcp_session_data.select_convs(10))
qed

end
