(* ===== verification/Tme_Buckets.thy ===== *)
theory Tme_Buckets
  imports Tme_Lookup
begin

text \<open>
  The bucket lookup of the table engine: on disjoint buckets in increasing order, the search ends and finds
  the bucket of the value.
\<close>

text \<open>Bucket number j covers the values from \<open>lo j\<close> to \<open>hi j\<close>.\<close>

definition buckets :: "tme_data \<Rightarrow> mem_type \<Rightarrow> nat \<Rightarrow> (nat \<Rightarrow> nat) \<Rightarrow> (nat \<Rightarrow> nat) \<Rightarrow> bool" where
  "buckets d m n lo hi \<longleftrightarrow> 0 < n \<and> n < 2147483648 \<and>
     (\<forall>j < n. bucket_low d m (of_nat j) = Some (lo j) \<and> bucket_high d m (of_nat j) = Some (hi j) \<and> lo j \<le> hi j) \<and>
     (\<forall>j. Suc j < n \<longrightarrow> hi j < lo (Suc j))"

definition in_bucket :: "(nat \<Rightarrow> nat) \<Rightarrow> (nat \<Rightarrow> nat) \<Rightarrow> nat \<Rightarrow> nat \<Rightarrow> bool" where
  "in_bucket lo hi v j \<longleftrightarrow> lo j \<le> v \<and> v \<le> hi j"

text \<open>The answer of a search: the bucket of the value, or that there is none.\<close>

definition answer :: "nat \<Rightarrow> (nat \<Rightarrow> nat) \<Rightarrow> (nat \<Rightarrow> nat) \<Rightarrow> nat \<Rightarrow> u32 option \<Rightarrow> bool" where
  "answer n lo hi v r \<longleftrightarrow>
     (case r of None \<Rightarrow> \<forall>j < n. \<not> in_bucket lo hi v j
      | Some w \<Rightarrow> \<exists>j < n. w = of_nat j \<and> in_bucket lo hi v j)"

lemma ordered:
  assumes "buckets d m n lo hi" and "i < j" and "j < n"
  shows "hi i < lo j"
  using assms(2,3)
proof (induction j)
  case (Suc j)
  have s: "hi j < lo (Suc j)" "lo j \<le> hi j" using assms(1) Suc.prems by (simp_all add: buckets_def)
  show ?case using Suc.IH Suc.prems s by (cases "i = j") (simp_all add: less_Suc_eq)
qed simp

lemma gap_answer:
  assumes "buckets d m n lo hi" and "Suc j < n" and "hi j < v" and "v < lo (Suc j)"
  shows "answer n lo hi v None"
proof -
  have "\<not> in_bucket lo hi v i" if "i < n" for i
  proof (cases "i \<le> j")
    case True
    have "hi i \<le> hi j" using ordered [OF assms(1), of i j] True assms(1,2) by (cases "i = j") (auto simp: buckets_def dest: spec [of _ j])
    then show ?thesis using assms(3) by (simp add: in_bucket_def)
  next
    case False
    have "lo (Suc j) \<le> lo i" using ordered [OF assms(1), of "Suc j" i] False that assms(1,2)
      by (cases "i = Suc j") (auto simp: buckets_def dest: spec [of _ "Suc j"])
    then show ?thesis using assms(4) by (simp add: in_bucket_def)
  qed
  then show ?thesis by (simp add: answer_def)
qed

lemma index_small:
  assumes "j < 2147483648"
  shows "\<not> sint (of_nat j :: u32) < 0" and "(of_nat j :: u32) \<noteq> - 1"
proof -
  have u: "unat (of_nat j :: u32) = j" using assms by (simp add: unat_of_nat take_bit_nat_eq_self)
  then show "\<not> sint (of_nat j :: u32) < 0" using sint_small [of "of_nat j"] assms by simp
  show "(of_nat j :: u32) \<noteq> - 1"
  proof
    assume "(of_nat j :: u32) = - 1"
    then have "(of_nat (Suc j) :: u32) = 0" by simp
    moreover have "unat (of_nat (Suc j) :: u32) = Suc j" using assms by (simp only: unat_of_nat take_bit_nat_eq_self) simp
    ultimately show False by simp
  qed
qed

definition halved :: "nat \<Rightarrow> nat" where
  "halved i = (if i = 1 then 1 else i div 2)"

lemma unat_index: "i < 4294967296 \<Longrightarrow> unat (of_nat i :: u32) = i"
  by (simp add: unat_of_nat take_bit_nat_eq_self)

lemma drop_half:
  assumes "i < 4294967296"
  shows "drop_bit 1 (of_nat i :: u32) = of_nat (i div 2)"
proof -
  have "unat (drop_bit 1 (of_nat i :: u32)) = i div 2"
    using unat_index [OF assms] by (simp only: unat_drop_bit_eq) (simp add: drop_bit_eq_div)
  also have "\<dots> = unat (of_nat (i div 2) :: u32)" using unat_index [of "i div 2"] assms by simp
  finally show ?thesis by (simp only: word_unat_eq_iff)
qed

lemma halved_word:
  assumes "i < 4294967296"
  shows "(if (of_nat i :: u32) = 1 then 1 else drop_bit 1 (of_nat i)) = (of_nat (halved i) :: u32)"
proof -
  have "(of_nat i :: u32) = 1 \<longleftrightarrow> i = 1" using unat_index [OF assms] by (metis of_nat_1 unat_1)
  then show ?thesis using drop_half [OF assms] by (simp add: halved_def)
qed

text \<open>One step of the search.\<close>

lemma search_step:
  assumes "buckets d m n lo hi" and "j < n" and "lo 0 \<le> v" and "v \<le> hi (n - 1)" and "i < 4294967296"
  shows "in_bucket lo hi v j \<Longrightarrow> bucket_search d m v (of_nat i) (of_nat j) = Some (Some (Some (of_nat j)))"
    and "v < lo j \<Longrightarrow> bucket_search d m v (of_nat i) (of_nat j) =
      (if hi (j - 1) < v then Some (Some None) else bucket_search d m v (of_nat (halved i)) (of_nat j - of_nat (halved i)))"
    and "hi j < v \<Longrightarrow> bucket_search d m v (of_nat i) (of_nat j) = bucket_search d m v (of_nat (halved i)) (of_nat (j + halved i))"
proof -
  have b: "bucket_low d m (of_nat j) = Some (lo j)" "bucket_high d m (of_nat j) = Some (hi j)" "j < 2147483648"
    using assms(1,2) by (auto simp: buckets_def)
  note s = bucket_search.simps [of d m v "of_nat i" "of_nat j", unfolded halved_word [OF assms(5)] Let_def]
  show "in_bucket lo hi v j \<Longrightarrow> bucket_search d m v (of_nat i) (of_nat j) = Some (Some (Some (of_nat j)))"
    using b index_small [OF b(3)] by (subst s) (simp add: in_bucket_def)
  show "hi j < v \<Longrightarrow> bucket_search d m v (of_nat i) (of_nat j) = bucket_search d m v (of_nat (halved i)) (of_nat (j + halved i))"
  proof -
    assume h: "hi j < v"
    have "lo j \<le> hi j" using assms(1,2) by (simp add: buckets_def)
    then show ?thesis using b h by (subst s) simp
  qed
  show "v < lo j \<Longrightarrow> bucket_search d m v (of_nat i) (of_nat j) =
      (if hi (j - 1) < v then Some (Some None) else bucket_search d m v (of_nat (halved i)) (of_nat j - of_nat (halved i)))"
  proof -
    assume h: "v < lo j"
    then have j: "j \<noteq> 0" using assms(3) by (cases j) simp_all
    then have "(of_nat j :: u32) - 1 = of_nat (j - 1)" by (simp add: of_nat_diff)
    moreover have "bucket_high d m (of_nat (j - 1)) = Some (hi (j - 1))" using assms(1,2) by (auto simp: buckets_def)
    ultimately show ?thesis using b h by (subst s) simp
  qed
qed

lemma answer_found: "in_bucket lo hi v j \<Longrightarrow> j < n \<Longrightarrow> answer n lo hi v (Some (of_nat j))"
  by (auto simp: answer_def)

text \<open>The steps of one bucket each, down to a bucket that may hold the value or up to one.\<close>

lemma search_down:
  assumes "buckets d m n lo hi" and "lo 0 \<le> v" and "v \<le> hi (n - 1)" and "j < n" and "v \<le> hi j"
  shows "\<exists>r. bucket_search d m v 1 (of_nat j) = Some (Some r) \<and> answer n lo hi v r"
  using assms(4,5)
proof (induction j)
  case (Suc j)
  note step = search_step [OF assms(1) Suc.prems(1) assms(2,3), of 1, simplified halved_def, simplified]
  consider "in_bucket lo hi v (Suc j)" | "v < lo (Suc j)" "hi j < v" | "v < lo (Suc j)" "v \<le> hi j"
    using Suc.prems by (meson in_bucket_def not_less)
  then show ?case
  proof cases
    case 1 then show ?thesis using step(1) answer_found [OF 1 Suc.prems(1)] by simp
  next
    case 2 then show ?thesis using step(2) gap_answer [OF assms(1) Suc.prems(1)] by simp
  next
    case 3 then show ?thesis using step(2) Suc.IH Suc.prems(1) by simp
  qed
next
  case 0
  then have "in_bucket lo hi v 0" using assms(2) by (simp add: in_bucket_def)
  then show ?case using search_step(1) [OF assms(1) 0(1) assms(2,3), of 1] answer_found [of lo hi v 0 n] 0(1) by simp
qed

lemma search_up:
  assumes "buckets d m n lo hi" and "lo 0 \<le> v" and "v \<le> hi (n - 1)" and "j < n" and "hi j < v"
  shows "\<exists>r. bucket_search d m v 1 (of_nat j) = Some (Some r) \<and> answer n lo hi v r"
  using assms(4,5)
proof (induction "n - j" arbitrary: j)
  case (Suc l)
  note step = search_step [OF assms(1) Suc.prems(1) assms(2,3), of 1, simplified halved_def, simplified]
  have "j \<noteq> n - 1" using Suc.prems assms(3) by auto
  then have j: "Suc j < n" using Suc.prems by simp
  note step' = search_step [OF assms(1) j assms(2,3), of 1, simplified halved_def, simplified]
  have go: "bucket_search d m v 1 (of_nat j) = bucket_search d m v 1 (of_nat (Suc j))" using step(3) Suc.prems by simp
  consider "in_bucket lo hi v (Suc j)" | "v < lo (Suc j)" | "hi (Suc j) < v" by (meson in_bucket_def not_less)
  then show ?case
  proof cases
    case 1 then show ?thesis using go step'(1) answer_found [OF 1 j] by simp
  next
    case 2 then show ?thesis using go step'(2) gap_answer [OF assms(1) j Suc.prems(2) 2] Suc.prems(2) by simp
  next
    case 3 then show ?thesis using go Suc.hyps(1) [of "Suc j"] Suc.hyps(2) j by simp
  qed
qed simp

text \<open>The halving steps stay between the first and the last bucket.\<close>

lemma search_answer:
  assumes "buckets d m n lo hi" and "lo 0 \<le> v" and "v \<le> hi (n - 1)" and "0 < i" and "j < n" and "i \<noteq> 1 \<Longrightarrow> i \<le> j \<and> j + i \<le> n"
  shows "\<exists>r. bucket_search d m v (of_nat i) (of_nat j) = Some (Some r) \<and> answer n lo hi v r"
  using assms(4-6)
proof (induction i arbitrary: j rule: less_induct)
  case (less i)
  show ?case
  proof (cases "i = 1")
    case True
    then show ?thesis using search_down [OF assms(1-3) less.prems(2)] search_up [OF assms(1-3) less.prems(2)]
      by (cases "hi j < v") (simp_all add: not_less)
  next
    case False
    then have b: "i \<le> j" "j + i \<le> n" "2 \<le> i" using less.prems by auto
    have n: "i < 4294967296" using b assms(1) by (auto simp: buckets_def)
    note step = search_step [OF assms(1) less.prems(2) assms(2,3) n]
    have h: "halved i < i" "0 < halved i" "2 * halved i \<le> i" using b(3) by (auto simp: halved_def)
    have lower: "(of_nat j :: u32) - of_nat (halved i) = of_nat (j - halved i)" using b h by (simp add: of_nat_diff)
    have ih: "\<exists>r. bucket_search d m v (of_nat (halved i)) (of_nat j') = Some (Some r) \<and> answer n lo hi v r"
      if "j' < n" "halved i \<le> j'" "j' + halved i \<le> n" for j' using less.IH [OF h(1,2) that(1)] that by simp
    consider "in_bucket lo hi v j" | "v < lo j" "hi (j - 1) < v" | "v < lo j" "v \<le> hi (j - 1)" | "hi j < v"
      by (meson in_bucket_def not_less)
    then show ?thesis
    proof cases
      case 1 then show ?thesis using step(1) answer_found [OF 1 less.prems(2)] by simp
    next
      case 2
      have "answer n lo hi v None" by (rule gap_answer [OF assms(1), of "j - 1" v]) (use 2 b less.prems(2) in simp_all)
      then show ?thesis using step(2) [OF 2(1)] 2(2) by simp
    next
      case 3
      have "bucket_search d m v (of_nat i) (of_nat j) = bucket_search d m v (of_nat (halved i)) (of_nat (j - halved i))"
        using step(2) [OF 3(1)] 3(2) unfolding lower by simp
      then show ?thesis using ih [of "j - halved i"] b h less.prems(2) by simp
    next
      case 4
      from ih [of "j + halved i"] b h show ?thesis unfolding step(3) [OF 4] by simp
    qed
  qed
qed

text \<open>C30: On disjoint buckets in increasing order the lookup of a value ends, whatever their number: it returns
  the bucket the value lies in, or reports that there is none exactly when no bucket covers the value.\<close>

theorem bucket_lookup_finds:
  assumes "buckets d m n lo hi" and "unat (filled_blocks d) = Suc n" and "key_len d = 1 \<or> key_len d = 2"
    and "bound_at d m key = Some v"
  shows "(\<exists>j < n. in_bucket lo hi v j \<and> bucket_lookup key d m now = Some (bucket_found key d m now (of_nat j))) \<or>
    (\<forall>j < n. \<not> in_bucket lo hi v j) \<and> bucket_lookup key d m now = Some (bucket_missing key d m now)"
proof -
  have n: "0 < n" "n < 2147483648" using assms(1) by (auto simp: buckets_def)
  have blocks: "filled_blocks d - 1 = of_nat n" "of_nat n - (1 :: u32) = of_nat (n - 1)"
  proof -
    have "filled_blocks d = of_nat (Suc n)" using assms(2) by (metis of_nat_unat ucast_id)
    then show "filled_blocks d - 1 = of_nat n" by simp
    show "of_nat n - (1 :: u32) = of_nat (n - 1)" using n by (simp add: of_nat_diff)
  qed
  have halved: "drop_bit 1 (of_nat n :: u32) = of_nat (n div 2)"
    using drop_half [of n] n by simp
  have ends: "bucket_low d m 0 = Some (lo 0)" "bucket_high d m (of_nat (n - 1)) = Some (hi (n - 1))"
  proof -
    have "\<forall>j < n. bucket_low d m (of_nat j) = Some (lo j) \<and> bucket_high d m (of_nat j) = Some (hi j)"
      using assms(1) by (simp add: buckets_def)
    from spec [OF this, of 0] spec [OF this, of "n - 1"] n show "bucket_low d m 0 = Some (lo 0)"
      "bucket_high d m (of_nat (n - 1)) = Some (hi (n - 1))" by (simp_all del: of_nat_diff)
  qed
  show ?thesis
  proof (cases "v < lo 0 \<or> hi (n - 1) < v")
    case True
    have "\<not> in_bucket lo hi v j" if "j < n" for j
    proof -
      have "lo j \<le> hi j" "lo 0 \<le> hi 0" "lo (n - 1) \<le> hi (n - 1)" using assms(1) that n by (auto simp: buckets_def)
      moreover from this have "lo 0 \<le> lo j" using ordered [OF assms(1), of 0 j] that by (cases "j = 0") auto
      moreover have "hi j \<le> hi (n - 1)" 
      proof (cases "j = n - 1")
        case False
        then have "j < n - 1" using that by linarith
        then show ?thesis using ordered [OF assms(1), of j "n - 1"] calculation(3) n by simp
      qed simp
      ultimately have "lo 0 \<le> lo j" "hi j \<le> hi (n - 1)" by simp_all
      then show ?thesis using True by (auto simp: in_bucket_def)
    qed
    moreover have "bucket_lookup key d m now = Some (bucket_missing key d m now)"
      using assms(3,4) ends True by (auto simp: bucket_lookup_def blocks Let_def)
    ultimately show ?thesis by blast
  next
    case False
    have go: "bucket_lookup key d m now = (case bucket_search d m v (of_nat (n div 2)) (of_nat (n div 2)) of
        None \<Rightarrow> None | Some None \<Rightarrow> Some None | Some (Some None) \<Rightarrow> Some (bucket_missing key d m now)
      | Some (Some (Some j)) \<Rightarrow> Some (bucket_found key d m now j))"
      using assms(3,4) ends False by (auto simp: bucket_lookup_def blocks halved [unfolded One_nat_def] Let_def)
    have "\<exists>r. bucket_search d m v (of_nat (n div 2)) (of_nat (n div 2)) = Some (Some r) \<and> answer n lo hi v r"
    proof (cases "n = 1")
      case True
      then have "in_bucket lo hi v 0" using False by (simp add: in_bucket_def)
      then show ?thesis using search_step(1) [OF assms(1) n(1), of v 0] answer_found [of lo hi v 0 n] False True by simp
    next
      case False
      then show ?thesis using search_answer [OF assms(1), of v "n div 2" "n div 2"] n \<open>\<not> (v < lo 0 \<or> hi (n - 1) < v)\<close>
        by simp
    qed
    then show ?thesis using go by (auto simp: answer_def split: option.splits)
  qed
qed

lemma bucket_lookup_finds_witness:
  "\<exists>d m. bound_at d m 0x1000 = Some 35 \<and>
     bucket_lookup 0x1000 d m (0, 0) = Some (bucket_found 0x1000 d m (0, 0) 1)"
proof -
  let ?d = "zero_data\<lparr>key_len := 2, block_size := 16, filled_blocks := 3, shared_memory_base_address := 0x1008\<rparr>"
  let ?m = "\<lparr>mx_addr = 0x1000, mx_bytes = [0, 0, 0, 35] @ replicate 20 0 @ [0, 0, 0, 10, 0, 0, 0, 20] @ replicate 8 0 @
    [0, 0, 0, 30, 0, 0, 0, 40] @ replicate 8 0, mx_size = 56\<rparr>"
  let ?lo = "\<lambda>j. if j = (0 :: nat) then 10 else (30 :: nat)" let ?hi = "\<lambda>j. if j = (0 :: nat) then 20 else (40 :: nat)"
  have f: "bucket_low ?d ?m 0 = Some 10" "bucket_high ?d ?m 0 = Some 20"
    "bucket_low ?d ?m 1 = Some 30" "bucket_high ?d ?m 1 = Some 40" by code_simp+
  have v: "bound_at ?d ?m 0x1000 = Some 35" by code_simp
  have "buckets ?d ?m 2 ?lo ?hi"
    using f unfolding buckets_def by (auto simp: less_2_cases_iff simp del: One_nat_def)
  moreover have "unat (filled_blocks ?d) = Suc 2" "key_len ?d = 1 \<or> key_len ?d = 2" by simp_all
  ultimately have "(\<exists>j < 2. in_bucket ?lo ?hi 35 j \<and> bucket_lookup 0x1000 ?d ?m (0, 0) = Some (bucket_found 0x1000 ?d ?m (0, 0) (of_nat j))) \<or>
    (\<forall>j < 2. \<not> in_bucket ?lo ?hi 35 j) \<and> bucket_lookup 0x1000 ?d ?m (0, 0) = Some (bucket_missing 0x1000 ?d ?m (0, 0))"
    by (rule bucket_lookup_finds [OF _ _ _ v])
  moreover have "(1 :: nat) < 2" "in_bucket ?lo ?hi 35 1" by (simp_all add: in_bucket_def)
  ultimately have "\<exists>j < 2. in_bucket ?lo ?hi 35 j \<and> bucket_lookup 0x1000 ?d ?m (0, 0) = Some (bucket_found 0x1000 ?d ?m (0, 0) (of_nat j))"
    by blast
  then obtain j where j: "j < 2" "in_bucket ?lo ?hi 35 j"
    "bucket_lookup 0x1000 ?d ?m (0, 0) = Some (bucket_found 0x1000 ?d ?m (0, 0) (of_nat j))" by blast
  from j(1,2) have "j = 1" by (cases "j = 0") (auto simp: in_bucket_def)
  then have "bucket_lookup 0x1000 ?d ?m (0, 0) = Some (bucket_found 0x1000 ?d ?m (0, 0) 1)" using j(3) by simp
  then show ?thesis using v by blast
qed

end
