(* ===== verification/Spec2Isabelle.thy ===== *)
theory Spec2Isabelle
  imports Bpf_Properties Jit_Properties Capture_Properties Open_Close_Properties Send_Properties
    Write_Properties Ioctl_Properties Time_Properties Rpcap_Capture_Properties Rpcap_Session
    Rpcap_Findall_Properties Rpcap_Active_Properties Rpcapd_Start_Properties Tme_Monitor Tme_Sessions Tme_Buckets
begin

text \<open>
  A verification development for WinPcap: the capture path of the NPF driver
  (\<open>packetNtx/driver\<close>) from the packet filter to the application, the life of an open instance, the
  transmission of packets with its user-level side (\<open>packetNtx/Dll\<close>, \<open>wpcap/Win32-Extensions\<close>),
  the table engine of the driver, and the remote capture, client and daemon (\<open>wpcap/libpcap\<close>).

  The program. An application opens an adapter, which gives it an instance of the driver
  (OPEN_INSTANCE). NDIS indicates every packet to \<open>NPF_tap\<close>, which runs the filter of the instance,
  interpreted or compiled to IA-32 code, and stores a snapshot of the packet with a time stamp in the
  circular buffer of the CPU it runs on. \<open>NPF_Read\<close> collects the packets of all CPUs in the order of
  their serial numbers. Packets to send come one by one through \<open>NPF_Write\<close> or as a buffer through
  \<open>NPF_BufferedWrite\<close>. Use counters keep the instance and the binding to the adapter alive while
  requests run. In a build of its own, a filter can look up a key it has stored in the extended memory
  in a hash table, and run a counting function on the block of the key: the table engine (TME). For a
  remote capture, the client sends its requests (log on, list or open a device, start, filter,
  statistics, close) over a control connection to the daemon \<open>rpcapd\<close>, which captures for it and sends
  the packets over a data connection, over TCP or UDP.

  The theories.
  \<^item> \<open>Prelude\<close>: words, byte strings, memory blocks as lists with checked access, ULONG arithmetic,
    counting; \<open>Runs\<close>: runs of a step function and the locale \<open>simulation\<close>, which lifts a simulation
    of steps to runs.
  \<^item> \<open>Bpf_Insn\<close>, \<open>Bpf_Filter\<close>, \<open>Bpf_Validate\<close>, \<open>Bpf_Two_Buffers\<close>: the filter machine, its
    interpreters and the validator (\<open>win_bpf.h\<close>, \<open>valid_insns.h\<close>, \<open>win_bpf_filter.c\<close>).
    \<open>Bpf_Properties\<close>: the validator accepts exactly the well-formed programs; an accepted program
    is memory safe, goes forward and ends, and depends only on the captured bytes, while one that is
    refused can jump back for ever; both interpreters agree except at the boundary positions the code
    gets wrong.
  \<^item> \<open>X86\<close>: the IA-32 subset; \<open>Jit_Macros\<close>, \<open>Jitter\<close>: the emitting macros and the compiler
    (\<open>jitter.h\<close>, \<open>jitter.c\<close>). \<open>Jit_Layout\<close>, \<open>Jit_Blocks\<close>, \<open>Jit_Sim\<close>, \<open>Jit_Correct\<close>: the layout of
    the code and the simulation of the interpreter by it, opcode by opcode. \<open>Jit_Properties\<close>: the
    compiled code computes what the interpreter computes, the compiler fills its buffer exactly and
    keeps track of its memory.
  \<^item> \<open>Ring\<close>: circular buffers. \<open>Capture\<close>: the tap and the completion of transfers (\<open>Read.c\<close>,
    \<open>Packet.h\<close>). \<open>Capture_Layout\<close>: how a queue of packets lies in the buffer of a CPU.
    \<open>Capture_Correct\<close>: the abstract capture, a queue with at most one open transfer per CPU, and
    the refinement of every path of the tap. \<open>Npf_Read\<close>, \<open>Read_Correct\<close>: the read and what it takes
    from the queue. \<open>Npf_Buffers\<close>: emptying and replacing the buffers (\<open>Packet.c\<close>).
    \<open>Packet_Reader\<close>: the application's loop over the records (\<open>TestPacketCapture.c\<close>).
    \<open>Capture_System\<close>: taps, completions and reads in any order, an instance of \<open>simulation\<close>.
    \<open>Capture_Properties\<close>: the refinement, the counters, the first-in first-out law for whole runs,
    and the inputs for which the code fails.
  \<^item> \<open>Open_Close\<close>: the use counters and the calls that wait for them (\<open>Openclos.c\<close>), with the
    locale \<open>use_counter\<close> of which both counters are instances. \<open>Open_Close_Safety\<close>: requests,
    cleanups and unbinds as interleaved threads, and the invariant of their runs.
    \<open>Open_Close_Properties\<close>.
  \<^item> \<open>Npf_Write\<close>: \<open>NPF_BufferedWrite\<close> (\<open>Write.c\<close>). \<open>Send_Queue\<close>: the send queue
    (\<open>Win32-Extensions.c\<close>) and \<open>PacketSendPackets\<close> (\<open>Packet32.c\<close>). \<open>Send_Correct\<close>,
    \<open>Send_Properties\<close>: what arrives at NDIS. \<open>Write_Sync\<close>, \<open>Write_Properties\<close>: the synchronisation
    of \<open>NPF_Write\<close> with \<open>NPF_SendComplete\<close>.
  \<^item> \<open>Npf_Ioctl\<close>: the control codes, \<open>NPF_IoControl\<close> (\<open>Packet.c\<close>). \<open>Ioctl_Correct\<close>: the invariant of
    an instance under them and the account of the queue, the memory blocks of the filter, the free
    OID requests and the users, another instance of \<open>simulation\<close>. \<open>Ioctl_Properties\<close>: runs of
    control codes, the effect of BIOCSETF, and the two faults of the OID requests.
  \<^item> \<open>Timestamps\<close>, \<open>Time_Properties\<close>: the synchronisation with the clocks and \<open>GET_TIME\<close> in every mode
    (\<open>time_calls.h\<close>); a time stamp is the system time up to one microsecond, and with fix-up never
    less than one before.
  \<^item> \<open>Tme\<close>, \<open>Tme_Lookup\<close>, \<open>Tme_Exec\<close>: the table engine: the extended memory, the registers and the
    initialisation of the blocks (\<open>tme.c\<close>, \<open>tme.h\<close>, \<open>memory_t.h\<close>, \<open>functions.c\<close>), the two lookup
    functions (\<open>normal_lookup.c\<close>, \<open>bucket_lookup.c\<close>), and what is run on a block
    (\<open>count_packets.c\<close>, \<open>tcp_session.c\<close>). \<open>Tme_Table\<close>: the hash table as a list of keys.
    \<open>Tme_Flows\<close>: one packet against the specification, a list of flows with counters. \<open>Tme_Engine\<close>:
    all packets from the initialisation on. \<open>Tme_Filter\<close>: the filter instructions of the build with
    the engine, its initialisation program and its validator. \<open>Tme_Monitor\<close>: monitor mode as a whole,
    from the program to the read of the application. \<open>Tme_Sessions\<close>: what has been seen of a TCP connection in
    each of its states. \<open>Tme_Buckets\<close>: the search among ordered buckets.
  \<^item> \<open>Sockutils\<close>: streams and the receiving and sending helpers (\<open>sockutils.c\<close>); \<open>Sock_Address\<close>: the
    rest of that file: Winsock, addresses, names, opening and closing, permitted hosts. \<open>Rpcap\<close>: the messages
    of the remote capture protocol (\<open>pcap-remote.h\<close>), each an interpretation of the locale of
    fixed-width encodings, and the checks of their headers.
  \<^item> \<open>Rpcap_Filter\<close>, \<open>Rpcap_Auth\<close>, \<open>Rpcap_Devices\<close>, \<open>Rpcap_Capture\<close>: filter update, authentication,
    interface list, packets and statistics, each with the client (\<open>pcap-remote.c\<close>) and the daemon
    (\<open>rpcapd/daemon.c\<close>). \<open>Rpcap_Properties\<close>, \<open>Rpcap_Capture_Properties\<close>: what the two sides make of
    the same messages.
  \<^item> \<open>Rpcapd\<close>: the loop of the daemon that serves a client, with every command. \<open>Rpcapd_Properties\<close>:
    nothing is done before the client is authorised, the devices are closed, the device string is
    written outside its buffer for exactly eight lengths. \<open>Rpcap_Client\<close>: the requests of the client. \<open>Rpcap_Session\<close>: whole sessions of the two.
  \<^item> \<open>Source_String\<close>: \<open>pcap_createsrcstr\<close> and \<open>pcap_parsesrcstr\<close> (\<open>pcap-new.c\<close>), with the scanner they
    use; \<open>Source_Properties\<close>: the two are inverse but for hosts the parser misreads. \<open>Rpcap_Findall\<close>,
    \<open>Rpcap_Findall_Properties\<close>: the remote half of \<open>pcap_findalldevs_ex\<close>, against the daemon's list: it is the same
    when no interface has two addresses of IPv4, and a write through a wild pointer when one has.
  \<^item> \<open>Rpcap_Active\<close>: the active mode, in which the daemon connects to the client: the list of the
    connected hosts (\<open>pcap-new.c\<close>, \<open>pcap-remote.c\<close>). \<open>Rpcap_Active_Properties\<close>: the list is a table
    from addresses to sockets without duplicates, only permitted hosts come into it, its text is a
    list of permitted hosts again, and the uses of Winsock are counted while clean-ups come in time.
  \<^item> \<open>Rpcapd_Config\<close>, \<open>Rpcapd_Start\<close>: the configuration file (\<open>rpcapd/fileconf.c\<close>), the command line
    (\<open>rpcapd/utils.c\<close>) and the threads of the daemon (\<open>rpcapd/rpcapd.c\<close>). \<open>Rpcapd_Config_Properties\<close>,
    \<open>Rpcapd_Start_Properties\<close>: what is saved is what is read, only permitted clients that have
    logged on are served, and a host that the client has closed does not come back.

  State and faults. A C structure is a record with the fields the modelled code uses; memory is a
  list of bytes, and a read or write outside it is a value (\<open>None\<close>, \<open>Overrun\<close>, \<open>Overread\<close>), as are a
  failing ASSERT, a lock that is taken twice and a loop that does not end. ULONG counters are
  32-bit words or natural numbers with the wrap-around written out (\<open>add32\<close>, \<open>sub32\<close>). What NDIS
  and the kernel decide (allocations, statuses, times, the data of a transfer, the machine code
  behind a compiled filter) is an argument of the definitions; the theorems hold for every
  value of it, except where a hypothesis names what is needed, and the properties with hypotheses
  have a witness at a concrete input.

  Loops and fuel. The loops over programs and buffers are total functions with a measure. The loop of
  the filter is a partial function, since a program that was not validated can jump back, and not
  returning is the value \<open>Never_Returns\<close> (\<open>Hangs\<close> with the table engine); a validated program is shown to
  return. The read loop takes fuel, and \<open>fuel_bound\<close>, one round per CPU for every packet that
  can be in the buffers and one more, is proved to be enough. The waits for the performance counter
  and the loop of \<open>PacketSendPackets\<close> may not end; they are partial functions whose value \<open>None\<close>
  says so, with theorems for both cases. The loops over a socket are total, since every round takes
  bytes or ends, and so are those over names, lines and arguments, which take characters; the loop of the daemon goes through the list of what its environment does in each
  round. The searches of the table engine are partial functions; the hash search is shown to end on
  every table that satisfies the invariant, the bucket search on every ordered one.

  Build. The 32-bit build without HAVE_BUGGY_TME_SUPPORT is modelled; the table engine and the
  instructions, the validator and the read that go with it, which are only part of the build with it,
  are modelled by themselves, as additions to the filter of the other build.

  Arguments. The system calls of sockets, the resolution of names, the operating system's log on, the
  threads, and the capture library below the daemon are arguments of the definitions of the remote
  capture; a stream delivers its bytes in segments of any size, and may end or fail at any point.

  Not modelled. The two-buffer interpreter and the tap of the build with the table engine; the kernel dump, which every
  control code that would start it refuses; \<open>NPF_Open\<close>, \<open>DriverEntry\<close>, the registry and the device
  objects; the driver for Windows 9x; the wrappers of \<open>packet.dll\<close> around DeviceIoControl and its list
  of adapters; WanPacket and TurboCap; of the remote capture, the Windows service of the
  daemon, \<open>pcap_open\<close>, the lists of local interfaces and of files, and
  \<open>pcap_createfilter_norpcappkt\<close>; installers and samples. They call the operating system or move data
  with little logic of their own, or are not part of the build. The spin locks around straight code
  are not modelled: what runs under a lock is one step.
\<close>

end
